(* ===== verification/Prelude.thy ===== *)
theory Prelude
  imports Main "HOL-Library.AList" "HOL-Library.Multiset"
begin

text \<open>
  Shared vocabulary of the development: the JavaScript string operations the SDK uses on its
  identifiers, the reading of thrown errors as the left side of a sum, and the generic lemmas on
  lists and maps that several components need.

  A JavaScript string is a \<^typ>\<open>string\<close>, one \<^typ>\<open>char\<close> per UTF-16 code unit. A function that
  may throw returns \<open>'e + 'a\<close>, \<open>Inl\<close> being the thrown error. An operation that also mutates
  the object it belongs to returns the pair of that sum and the new object, so that an effect
  made before the throw is kept.
\<close>

named_theorems js_simps "equations that evaluate the string helpers"

section \<open>Strings\<close>

text \<open>\<open>split(sep)\<close> with a separator of one character, and \<open>join(sep)\<close>.\<close>

fun js_split :: "char \<Rightarrow> string \<Rightarrow> string list" where
  "js_split c [] = [[]]"
| "js_split c (x # xs) =
     (if x = c then [] # js_split c xs
      else case js_split c xs of [] \<Rightarrow> [[x]] | y # ys \<Rightarrow> (x # y) # ys)"

fun js_join :: "char \<Rightarrow> string list \<Rightarrow> string" where
  "js_join c [] = []"
| "js_join c [x] = x"
| "js_join c (x # y # ys) = x @ c # js_join c (y # ys)"

lemma js_split_not_Nil [simp]: "js_split c xs \<noteq> []"
  by (cases xs) (auto split: list.splits)

lemma js_join_Cons: "ys \<noteq> [] \<Longrightarrow> js_join c (x # ys) = x @ c # js_join c ys"
  by (cases ys) auto

lemma js_join_split [simp]: "js_join c (js_split c xs) = xs"
proof (induction xs)
  case (Cons x xs)
  show ?case
  proof (cases "x = c")
    case True
    then show ?thesis using Cons by (simp add: js_join_Cons)
  next
    case False
    obtain y ys where "js_split c xs = y # ys"
      by (cases "js_split c xs") auto
    with False Cons show ?thesis by (cases ys) auto
  qed
qed simp

lemma js_split_no_sep: "c \<notin> set xs \<Longrightarrow> js_split c xs = [xs]"
  by (induction xs) auto

lemma js_split_append_sep:
  "c \<notin> set x \<Longrightarrow> js_split c (x @ c # ys) = x # js_split c ys"
  by (induction x) auto

lemma js_split_join:
  "ps \<noteq> [] \<Longrightarrow> \<forall>p \<in> set ps. c \<notin> set p \<Longrightarrow> js_split c (js_join c ps) = ps"
  by (induction c ps rule: js_join.induct) (auto simp: js_split_no_sep js_split_append_sep)

lemma js_split_parts: "p \<in> set (js_split c xs) \<Longrightarrow> c \<notin> set p"
  by (induction xs arbitrary: p) (auto split: list.splits if_splits)

lemma length_js_split: "length (js_split c xs) = Suc (count_list xs c)"
proof (induction xs)
  case (Cons x xs)
  then show ?case by (cases "js_split c xs") auto
qed simp

text \<open>\<open>startsWith\<close> and \<open>substring(n)\<close>.\<close>

definition js_startsWith :: "string \<Rightarrow> string \<Rightarrow> bool" where
  "js_startsWith s p \<longleftrightarrow> take (length p) s = p"

lemma js_startsWith_append [simp]: "js_startsWith (p @ s) p"
  by (simp add: js_startsWith_def)

text \<open>A decimal rendering of a count, as a template literal prints it.\<close>

definition digit_char :: "nat \<Rightarrow> char" where
  "digit_char n = char_of (48 + n)"

fun show_nat :: "nat \<Rightarrow> string" where
  "show_nat n = (if n < 10 then [digit_char n] else show_nat (n div 10) @ [digit_char (n mod 10)])"

declare show_nat.simps [simp del]

section \<open>Results that may be a thrown error\<close>

text \<open>Run a step and continue with its value; a throw ends the sequence.\<close>

fun try_bind :: "'e + 'a \<Rightarrow> ('a \<Rightarrow> 'e + 'b) \<Rightarrow> 'e + 'b" where
  "try_bind (Inl e) f = Inl e"
| "try_bind (Inr a) f = f a"

lemma try_bind_Inr_iff:
  "try_bind r k = Inr v \<longleftrightarrow> (\<exists>u. k u = Inr v \<and> r = Inr u)"
  by (cases r) auto

lemma try_bind_Inl_iff:
  "try_bind r k = Inl x \<longleftrightarrow> (\<exists>u. k u = Inl x \<and> r = Inr u) \<or> r = Inl x"
  by (cases r) auto

fun try_map :: "('a \<Rightarrow> 'e + 'b) \<Rightarrow> 'a list \<Rightarrow> 'e + 'b list" where
  "try_map f [] = Inr []"
| "try_map f (x # xs) = try_bind (f x) (\<lambda>y. try_bind (try_map f xs) (\<lambda>ys. Inr (y # ys)))"

lemma try_map_Inr:
  "try_map f xs = Inr ys \<Longrightarrow> x \<in> set xs \<Longrightarrow> \<exists>y. f x = Inr y \<and> y \<in> set ys"
  by (induction xs arbitrary: ys) (auto simp: try_bind_Inr_iff)

lemma try_map_Inr_iff: "try_map f xs = Inr ys \<longleftrightarrow> list_all2 (\<lambda>x y. f x = Inr y) xs ys"
  by (induction xs arbitrary: ys) (auto simp: try_bind_Inr_iff list_all2_Cons1)

section \<open>Lists\<close>

lemma set_remove1_distinct: "distinct xs \<Longrightarrow> set (remove1 x xs) = set xs - {x}"
  by simp

text \<open>\<open>[...new Set(xs)]\<close>: the first of equal elements stays.\<close>

definition set_of :: "'a list \<Rightarrow> 'a list" where
  "set_of xs = rev (remdups (rev xs))"

lemma set_set_of [simp]: "set (set_of xs) = set xs"
  by (simp add: set_of_def)

lemma distinct_set_of [simp]: "distinct (set_of xs)"
  by (simp add: set_of_def)

lemma concat_map_filter:
  "concat (map (\<lambda>x. if P x then [f x] else []) xs) = map f (filter P xs)"
  by (induction xs) auto

section \<open>Association lists\<close>

lemma mset_delete:
  "distinct (map fst al) \<Longrightarrow> (k, v) \<in> set al \<Longrightarrow> mset al = add_mset (k, v) (mset (AList.delete k al))"
proof (induction al)
  case (Cons p al)
  show ?case
  proof (cases "fst p = k")
    case True
    with Cons.prems have "k \<notin> fst ` set al" "p = (k, v)" by (auto simp: rev_image_eqI)
    then show ?thesis by simp
  next
    case False
    with Cons show ?thesis by auto
  qed
qed simp

lemma update_fresh: "k \<notin> fst ` set al \<Longrightarrow> AList.update k v al = al @ [(k, v)]"
  by (induction al) auto

lemma alist_length: "distinct (map fst al) \<Longrightarrow> length al = card (dom (map_of al))"
  by (simp add: dom_map_of_conv_image_fst distinct_card flip: set_map)

lemma length_delete_less: "map_of al k = Some e \<Longrightarrow> length (AList.delete k al) < length al"
  by (induction al) (auto simp: less_Suc_eq_le length_delete_le split: if_splits)

end
