(* ===== verification/Errors.thy ===== *)
theory Errors
  imports Prelude
begin

text \<open>
  The error hierarchy of \<^verbatim>\<open>errors.ts\<close>, the classifiers of \<^verbatim>\<open>internal/errors.ts\<close> and the
  translation of API responses to errors of \<^verbatim>\<open>internal/apiService/errors.ts\<close> and
  \<^verbatim>\<open>errorCodes.ts\<close>. A thrown value is an \<open>Error\<close> object or any other value
  (\<open>ThrownValue\<close>, printed), which the classifiers treat apart through
  \<open>error instanceof Error\<close>. Translated messages are their untranslated source text.
\<close>

section \<open>Classes and objects\<close>

datatype error_class =
    JsError | JsTypeError
  | ProtonDriveError | AbortError | ValidationError | NodeWithSameNameExistsValidationError
  | ServerError | RateLimitedError | ConnectionError | DecryptionError | IntegrityError
  | APIHTTPError | APICodeError | NotFoundAPIError | InvalidRequirementsAPIError
  | SignatureVerificationError | UnsubscribeFromEventsSourceError
  | NodeOutOfSyncError | MissingRelatedPhotosError | PhotoAlreadyInTargetError | AlbumContainsPhotosNotInTimelineError

fun superclass :: "error_class \<Rightarrow> error_class option" where
  "superclass JsError = None"
| "superclass JsTypeError = Some JsError"
| "superclass ProtonDriveError = Some JsError"
| "superclass AbortError = Some ProtonDriveError"
| "superclass ValidationError = Some ProtonDriveError"
| "superclass NodeWithSameNameExistsValidationError = Some ValidationError"
| "superclass ServerError = Some ProtonDriveError"
| "superclass RateLimitedError = Some ServerError"
| "superclass ConnectionError = Some ProtonDriveError"
| "superclass DecryptionError = Some ProtonDriveError"
| "superclass IntegrityError = Some ProtonDriveError"
| "superclass APIHTTPError = Some ServerError"
| "superclass APICodeError = Some ServerError"
| "superclass NotFoundAPIError = Some ValidationError"
| "superclass InvalidRequirementsAPIError = Some ValidationError"
| "superclass SignatureVerificationError = Some IntegrityError"
| "superclass UnsubscribeFromEventsSourceError = Some JsError"
| "superclass NodeOutOfSyncError = Some ValidationError"
| "superclass MissingRelatedPhotosError = Some JsError"
| "superclass PhotoAlreadyInTargetError = Some ValidationError"
| "superclass AlbumContainsPhotosNotInTimelineError = Some ValidationError"

fun class_depth :: "error_class \<Rightarrow> nat" where
  "class_depth JsError = 0"
| "class_depth JsTypeError = 1"
| "class_depth ProtonDriveError = 1"
| "class_depth UnsubscribeFromEventsSourceError = 1"
| "class_depth MissingRelatedPhotosError = 1"
| "class_depth AbortError = 2"
| "class_depth ValidationError = 2"
| "class_depth ServerError = 2"
| "class_depth ConnectionError = 2"
| "class_depth DecryptionError = 2"
| "class_depth IntegrityError = 2"
| "class_depth _ = 3"

lemma superclass_depth: "superclass c = Some d \<Longrightarrow> class_depth d < class_depth c"
  by (cases c) auto

function subclass_of :: "error_class \<Rightarrow> error_class \<Rightarrow> bool" where
  "subclass_of c d \<longleftrightarrow>
     c = d \<or> (case superclass c of None \<Rightarrow> False | Some c' \<Rightarrow> subclass_of c' d)"
  by pat_completeness auto
termination
  by (relation "measure (\<lambda>(c, d). class_depth c)") (auto dest: superclass_depth)

declare subclass_of.simps [simp del]

lemma subclass_of_refl [simp]: "subclass_of c c"
  by (simp add: subclass_of.simps)

lemma subclass_of_super: "superclass c = Some c' \<Longrightarrow> c \<noteq> d \<Longrightarrow> subclass_of c d = subclass_of c' d"
  by (subst subclass_of.simps) simp

lemma subclass_of_JsError_left: "subclass_of JsError d = (d = JsError)"
  by (subst subclass_of.simps) auto

lemmas subclass_evals = subclass_of_super subclass_of_JsError_left

text \<open>\<open>name\<close> of a fresh object of each class.\<close>

fun class_name :: "error_class \<Rightarrow> string" where
  "class_name JsError = ''Error''"
| "class_name JsTypeError = ''TypeError''"
| "class_name ProtonDriveError = ''ProtonDriveError''"
| "class_name AbortError = ''AbortError''"
| "class_name ValidationError = ''ValidationError''"
| "class_name NodeWithSameNameExistsValidationError = ''NodeWithSameNameExistsValidationError''"
| "class_name ServerError = ''ServerError''"
| "class_name RateLimitedError = ''RateLimitedError''"
| "class_name ConnectionError = ''ConnectionError''"
| "class_name DecryptionError = ''DecryptionError''"
| "class_name IntegrityError = ''IntegrityError''"
| "class_name APIHTTPError = ''APIHTTPError''"
| "class_name APICodeError = ''APICodeError''"
| "class_name NotFoundAPIError = ''NotFoundAPIError''"
| "class_name InvalidRequirementsAPIError = ''InvalidRequirementsAPIError''"
| "class_name SignatureVerificationError = ''SignatureVerificationError''"
| "class_name UnsubscribeFromEventsSourceError = ''Error''"
| "class_name NodeOutOfSyncError = ''NodeOutOfSyncError''"
| "class_name MissingRelatedPhotosError = ''MissingRelatedPhotosError''"
| "class_name PhotoAlreadyInTargetError = ''PhotoAlreadyInTargetError''"
| "class_name AlbumContainsPhotosNotInTimelineError = ''ValidationError''"

text \<open>
  \<open>code\<close> is a number on API errors and a string on errors of the Node runtime. Beside the details
  of the server an error may carry the fields its class adds: \<open>existingNodeUid\<close> and
  \<open>isUnfinishedUpload\<close>, or the UIDs of photos that are missing or in no other place.
\<close>

datatype code_value = CodeNum int | CodeStr string

datatype details =
    DetailsObject string
  | DebugObject "string option" string "string option" "string option" "int option" "string option"
  | NodeExistsFields "string option" bool
  | PhotoUids (photo_uids: "string list")

datatype js_error = Js_Error
    (err_class: error_class) (err_name: string) (err_message: string)
    (err_code: "code_value option") (err_statusCode: "int option")
    (err_details: "details option") (err_cause: "thrown option")
and thrown = ThrownError js_error | ThrownValue string

definition new_error :: "error_class \<Rightarrow> string \<Rightarrow> js_error" where
  "new_error c m =
     Js_Error c (class_name c) (if c = AbortError \<and> m = '''' then ''Operation aborted'' else m)
       (if c = RateLimitedError then Some (CodeNum 429) else None) None None None"

definition throw_new :: "error_class \<Rightarrow> string \<Rightarrow> thrown" where
  "throw_new c m = ThrownError (new_error c m)"

definition with_cause :: "js_error \<Rightarrow> thrown \<Rightarrow> js_error" where
  "with_cause e t =
     Js_Error (err_class e) (err_name e) (err_message e) (err_code e) (err_statusCode e)
       (err_details e) (Some t)"

fun instanceof :: "thrown \<Rightarrow> error_class \<Rightarrow> bool" where
  "instanceof (ThrownError e) c = subclass_of (err_class e) c"
| "instanceof (ThrownValue v) c = False"

lemma new_error_sel [simp]:
  "err_class (new_error c m) = c"
  "err_name (new_error c m) = class_name c"
  "err_cause (new_error c m) = None"
  "c \<noteq> AbortError \<Longrightarrow> err_message (new_error c m) = m"
  by (simp_all add: new_error_def)

lemma with_cause_sel [simp]:
  "err_class (with_cause e t) = err_class e"
  "err_name (with_cause e t) = err_name e"
  "err_message (with_cause e t) = err_message e"
  "err_cause (with_cause e t) = Some t"
  "err_statusCode (with_cause e t) = err_statusCode e"
  by (simp_all add: with_cause_def)

lemma instanceof_throw_new [simp]: "instanceof (throw_new c m) d = subclass_of c d"
  by (simp add: throw_new_def)

lemma everything_is_JsError: "subclass_of c JsError"
proof (induction "class_depth c" arbitrary: c rule: less_induct)
  case less
  then show ?case
    by (cases c) (simp_all add: subclass_evals)
qed

section \<open>internal/errors.ts\<close>

datatype verification_status = NOT_SIGNED | SIGNED_AND_VALID | SIGNED_AND_INVALID

fun getErrorMessage :: "thrown \<Rightarrow> string" where
  "getErrorMessage (ThrownError e) = err_message e"
| "getErrorMessage (ThrownValue v) = ''Unknown error''"

fun createErrorFromUnknown :: "thrown \<Rightarrow> js_error" where
  "createErrorFromUnknown (ThrownError e) = e"
| "createErrorFromUnknown (ThrownValue v) =
     with_cause (new_error JsError (getErrorMessage (ThrownValue v))) (ThrownValue v)"

fun join_messages :: "js_error list \<Rightarrow> string" where
  "join_messages [] = ''''"
| "join_messages [e] = err_message e"
| "join_messages (e # f # es) = err_message e @ '', '' @ join_messages (f # es)"

text \<open>\<open>signatureType\<close> is tested for truth, so the empty string counts as absent.\<close>

definition present :: "string option \<Rightarrow> string option" where
  "present s = (case s of Some [] \<Rightarrow> None | _ \<Rightarrow> s)"

definition getVerificationMessage ::
  "verification_status \<Rightarrow> js_error list option \<Rightarrow> string option \<Rightarrow> bool \<Rightarrow> string"
where
  "getVerificationMessage verified verificationErrors signatureType notAvailableVerificationKeys =
     (if verified = NOT_SIGNED then
        (case present signatureType of
           Some t \<Rightarrow> ''Missing signature for '' @ t
         | None \<Rightarrow> ''Missing signature'')
      else if notAvailableVerificationKeys then
        (case present signatureType of
           Some t \<Rightarrow> ''Verification keys for '' @ t @ '' are not available''
         | None \<Rightarrow> ''Verification keys are not available'')
      else case verificationErrors of
        Some es \<Rightarrow>
          (case present signatureType of
             Some t \<Rightarrow> ''Signature verification for '' @ t @ '' failed: '' @ join_messages es
           | None \<Rightarrow> ''Signature verification failed: '' @ join_messages es)
      | None \<Rightarrow>
          (case present signatureType of
             Some t \<Rightarrow> ''Signature verification for '' @ t @ '' failed''
           | None \<Rightarrow> ''Signature verification failed''))"

definition isNotApplicationError :: "thrown \<Rightarrow> bool" where
  "isNotApplicationError error \<longleftrightarrow>
     (if instanceof error AbortError \<or> instanceof error ValidationError
         \<or> instanceof error RateLimitedError \<or> instanceof error ConnectionError then True
      else case error of
        ThrownError e \<Rightarrow> err_name e = ''AbortError'' \<or> err_name e = ''OfflineError''
                         \<or> err_name e = ''TimeoutError''
      | ThrownValue v \<Rightarrow> False)"

text \<open>
  \<open>toLowerCase\<close> on the letters A to Z: the strings it is compared with are lower-case ASCII,
  so no other character of a one-byte code unit can change the answer.
\<close>

definition js_lower_char :: "char \<Rightarrow> char" where
  "js_lower_char c = (let n = of_char c :: nat in if 65 \<le> n \<and> n \<le> 90 then char_of (n + 32) else c)"

definition js_toLowerCase :: "string \<Rightarrow> string" where
  "js_toLowerCase s = map js_lower_char s"

fun js_includes :: "string \<Rightarrow> string \<Rightarrow> bool" where
  "js_includes [] p \<longleftrightarrow> p = []"
| "js_includes (x # xs) p \<longleftrightarrow> take (length p) (x # xs) = p \<or> js_includes xs p"

definition errorMessageIndicatesTransientTransportFailure :: "string \<Rightarrow> bool" where
  "errorMessageIndicatesTransientTransportFailure message \<longleftrightarrow>
     message \<noteq> [] \<and>
     (let lower = js_toLowerCase message in
        js_includes lower ''socket connection was closed unexpectedly''
        \<or> js_includes lower ''other side closed''
        \<or> js_includes lower ''socket hang up'')"

definition errorHasTransientTransportCode :: "js_error \<Rightarrow> bool" where
  "errorHasTransientTransportCode error \<longleftrightarrow>
     err_code error \<in> {Some (CodeStr ''ECONNRESET''), Some (CodeStr ''EPIPE''),
                        Some (CodeStr ''UND_ERR_SOCKET'')}"

definition isNetworkError :: "thrown \<Rightarrow> bool" where
  "isNetworkError error \<longleftrightarrow>
     (case error of
        ThrownValue v \<Rightarrow> False
      | ThrownError e \<Rightarrow>
          if err_name e = ''OfflineError'' \<or> err_name e = ''NetworkError''
             \<or> js_toLowerCase (err_message e) = ''network error''
             \<or> (err_name e = ''TypeError''
                 \<and> err_message e \<in> {''Failed to fetch'',
                       ''NetworkError when attempting to fetch resource'', ''Load failed''})
          then True
          else if errorMessageIndicatesTransientTransportFailure (err_message e)
                  \<or> errorHasTransientTransportCode e then True
          else case err_cause e of
            Some (ThrownError c) \<Rightarrow>
              errorMessageIndicatesTransientTransportFailure (err_message c)
              \<or> errorHasTransientTransportCode c
          | _ \<Rightarrow> False)"

section \<open>API codes and the translation of failed responses\<close>

definition HTTP_NOT_FOUND :: int where "HTTP_NOT_FOUND = 404"
definition HTTP_TOO_MANY_REQUESTS :: int where "HTTP_TOO_MANY_REQUESTS = 429"

definition isCodeOk :: "int \<Rightarrow> bool" where
  "isCodeOk code \<longleftrightarrow> code = 1000 \<or> code = 1001 \<or> code = 1002"

definition isCodeOkAsync :: "int \<Rightarrow> bool" where
  "isCodeOkAsync code \<longleftrightarrow> code = 1002"

datatype error_code =
    OK | OK_MANY | OK_ASYNC | INVALID_REQUIREMENTS | INVALID_VALUE | NOT_ENOUGH_PERMISSIONS
  | NOT_ENOUGH_PERMISSIONS_TO_GRANT_PERMISSIONS | ALREADY_EXISTS | NOT_EXISTS
  | INSUFFICIENT_QUOTA | INSUFFICIENT_SPACE | MAX_FILE_SIZE_FOR_FREE_USER
  | MAX_PUBLIC_EDIT_MODE_FOR_FREE_USER | INSUFFICIENT_VOLUME_QUOTA | INSUFFICIENT_DEVICE_QUOTA
  | ALREADY_MEMBER_OF_SHARE_IN_VOLUME_WITH_ANOTHER_ADDRESS | TOO_MANY_CHILDREN | NESTING_TOO_DEEP
  | INSUFFICIENT_INVITATION_QUOTA | INSUFFICIENT_SHARE_QUOTA | INSUFFICIENT_SHARE_JOINED_QUOTA
  | INSUFFICIENT_BOOKMARKS_QUOTA

fun code_number :: "error_code \<Rightarrow> int" where
  "code_number OK = 1000"
| "code_number OK_MANY = 1001"
| "code_number OK_ASYNC = 1002"
| "code_number INVALID_REQUIREMENTS = 2000"
| "code_number INVALID_VALUE = 2001"
| "code_number NOT_ENOUGH_PERMISSIONS = 2011"
| "code_number NOT_ENOUGH_PERMISSIONS_TO_GRANT_PERMISSIONS = 2026"
| "code_number ALREADY_EXISTS = 2500"
| "code_number NOT_EXISTS = 2501"
| "code_number INSUFFICIENT_QUOTA = 200001"
| "code_number INSUFFICIENT_SPACE = 200002"
| "code_number MAX_FILE_SIZE_FOR_FREE_USER = 200003"
| "code_number MAX_PUBLIC_EDIT_MODE_FOR_FREE_USER = 200004"
| "code_number INSUFFICIENT_VOLUME_QUOTA = 200100"
| "code_number INSUFFICIENT_DEVICE_QUOTA = 200101"
| "code_number ALREADY_MEMBER_OF_SHARE_IN_VOLUME_WITH_ANOTHER_ADDRESS = 200201"
| "code_number TOO_MANY_CHILDREN = 200300"
| "code_number NESTING_TOO_DEEP = 200301"
| "code_number INSUFFICIENT_INVITATION_QUOTA = 200600"
| "code_number INSUFFICIENT_SHARE_QUOTA = 200601"
| "code_number INSUFFICIENT_SHARE_JOINED_QUOTA = 200602"
| "code_number INSUFFICIENT_BOOKMARKS_QUOTA = 200800"

text \<open>The codes \<open>apiErrorFactory\<close> turns into a \<open>ValidationError\<close>.\<close>

definition validation_codes :: "int list" where
  "validation_codes = map code_number
     [INVALID_VALUE, NOT_ENOUGH_PERMISSIONS, NOT_ENOUGH_PERMISSIONS_TO_GRANT_PERMISSIONS,
      ALREADY_EXISTS, INSUFFICIENT_QUOTA, INSUFFICIENT_SPACE, MAX_FILE_SIZE_FOR_FREE_USER,
      MAX_PUBLIC_EDIT_MODE_FOR_FREE_USER, INSUFFICIENT_VOLUME_QUOTA, INSUFFICIENT_DEVICE_QUOTA,
      ALREADY_MEMBER_OF_SHARE_IN_VOLUME_WITH_ANOTHER_ADDRESS, TOO_MANY_CHILDREN,
      NESTING_TOO_DEEP, INSUFFICIENT_INVITATION_QUOTA, INSUFFICIENT_SHARE_QUOTA,
      INSUFFICIENT_SHARE_JOINED_QUOTA, INSUFFICIENT_BOOKMARKS_QUOTA]"

record http_status =
  hs_status :: int
  hs_statusText :: string

record api_result =
  ar_Code :: "int option"
  ar_Error :: "string option"
  ar_Details :: "string option"
  ar_Exception :: "string option"
  ar_message :: "string option"
  ar_file :: "string option"
  ar_line :: "int option"
  ar_trace :: "string option"

definition api_code_error :: "error_class \<Rightarrow> string \<Rightarrow> int \<Rightarrow> details option \<Rightarrow> js_error" where
  "api_code_error c message code details =
     Js_Error c (class_name c) message (Some (CodeNum code)) None details None"

definition apiErrorFactory ::
  "http_status \<Rightarrow> api_result option \<Rightarrow> thrown option \<Rightarrow> js_error"
where
  "apiErrorFactory response result error =
     (if (case error of Some (ThrownError e) \<Rightarrow> err_name e = ''AbortError'' | _ \<Rightarrow> False)
      then new_error AbortError ''Request aborted''
      else case (if hs_status response = HTTP_NOT_FOUND then None else result) of
        None \<Rightarrow>
          (let fallbackMessage = (case error of Some (ThrownError e) \<Rightarrow> err_message e
                                  | _ \<Rightarrow> ''Unknown error'')
           in Js_Error APIHTTPError (class_name APIHTTPError)
                (if hs_statusText response = [] then fallbackMessage else hs_statusText response)
                None (Some (hs_status response)) None error)
      | Some r \<Rightarrow>
          (let code = (case ar_Code r of None \<Rightarrow> 0 | Some n \<Rightarrow> n);
               message = (case present (ar_Error r) of None \<Rightarrow> ''Unknown error'' | Some m \<Rightarrow> m);
               details = map_option DetailsObject (ar_Details r);
               debug = (case present (ar_Exception r) of
                          None \<Rightarrow> None
                        | Some ex \<Rightarrow> Some (DebugObject (ar_Details r) ex (ar_message r)
                                            (ar_file r) (ar_line r) (ar_trace r)))
           in if code = code_number NOT_EXISTS then
                api_code_error NotFoundAPIError message code details
              else if code = code_number INVALID_REQUIREMENTS then
                api_code_error InvalidRequirementsAPIError message code details
              else if code \<in> set validation_codes then
                api_code_error ValidationError message code details
              else api_code_error APICodeError message code
                     (case debug of None \<Rightarrow> details | Some d \<Rightarrow> Some d)))"

section \<open>What the factory returns\<close>

definition is_abort :: "thrown option \<Rightarrow> bool" where
  "is_abort error = (case error of Some (ThrownError e) \<Rightarrow> err_name e = ''AbortError'' | _ \<Rightarrow> False)"

lemma apiErrorFactory_class:
  "err_class (apiErrorFactory response result error) =
     (if is_abort error then AbortError
      else case (if hs_status response = HTTP_NOT_FOUND then None else result) of
        None \<Rightarrow> APIHTTPError
      | Some r \<Rightarrow>
          (let code = (case ar_Code r of None \<Rightarrow> 0 | Some n \<Rightarrow> n)
           in if code = code_number NOT_EXISTS then NotFoundAPIError
              else if code = code_number INVALID_REQUIREMENTS then InvalidRequirementsAPIError
              else if code \<in> set validation_codes then ValidationError
              else APICodeError))"
  by (simp add: apiErrorFactory_def is_abort_def api_code_error_def Let_def
        del: code_number.simps split: option.split)

lemma apiErrorFactory_is_ProtonDriveError:
  "subclass_of (err_class (apiErrorFactory response result error)) ProtonDriveError"
  by (simp add: apiErrorFactory_class Let_def subclass_evals del: code_number.simps split: option.split)

lemma apiErrorFactory_statusCode:
  "\<not> is_abort error \<Longrightarrow> err_class (apiErrorFactory response result error) = APIHTTPError \<Longrightarrow>
     err_statusCode (apiErrorFactory response result error) = Some (hs_status response)"
  by (auto simp: apiErrorFactory_def is_abort_def api_code_error_def Let_def
        simp del: code_number.simps split: option.splits if_splits)

end
