(* ===== verification/Uids.thy ===== *)
theory Uids
  imports Errors
begin

text \<open>
  The composite identifiers of \<^verbatim>\<open>internal/uids.ts\<close>: parts joined with a tilde, and the
  parsers that take them apart again or throw.
\<close>

definition tilde :: char where "tilde = CHR ''~''"

definition makeUid :: "string list \<Rightarrow> string" where
  "makeUid parts = js_join tilde parts"

definition splitUid :: "string \<Rightarrow> nat \<Rightarrow> string \<Rightarrow> thrown + string list" where
  "splitUid uid expectedParts typeName =
     (let parts = js_split tilde uid
      in if length parts \<noteq> expectedParts
         then Inl (throw_new JsError ([CHR 0x22] @ uid @ [CHR 0x22] @ '' is not a valid '' @ typeName @ '' UID''))
         else Inr parts)"

section \<open>Two-part identifiers\<close>

definition makeDeviceUid :: "string \<Rightarrow> string \<Rightarrow> string" where
  "makeDeviceUid volumeId deviceId = volumeId @ ''~'' @ deviceId"

definition splitDeviceUid :: "string \<Rightarrow> thrown + (string \<times> string)" where
  "splitDeviceUid deviceUid =
     (let parts = js_split tilde deviceUid
      in if length parts \<noteq> 2
         then Inl (throw_new JsError ([CHR 0x22] @ deviceUid @ [CHR 0x22] @ '' is not valid device UID''))
         else Inr (parts ! 0, parts ! 1))"

definition split2 :: "string \<Rightarrow> string \<Rightarrow> thrown + (string \<times> string)" where
  "split2 uid typeName = try_bind (splitUid uid 2 typeName) (\<lambda>ps. Inr (ps ! 0, ps ! 1))"

definition makeNodeUid :: "string \<Rightarrow> string \<Rightarrow> string" where
  "makeNodeUid volumeId nodeId = makeUid [volumeId, nodeId]"

definition splitNodeUid :: "string \<Rightarrow> thrown + (string \<times> string)" where
  "splitNodeUid nodeUid = split2 nodeUid ''node''"

definition makeInvitationUid :: "string \<Rightarrow> string \<Rightarrow> string" where
  "makeInvitationUid shareId invitationId = makeUid [shareId, invitationId]"

definition splitInvitationUid :: "string \<Rightarrow> thrown + (string \<times> string)" where
  "splitInvitationUid invitationUid = split2 invitationUid ''invitation''"

definition makeMemberUid :: "string \<Rightarrow> string \<Rightarrow> string" where
  "makeMemberUid shareId memberId = makeUid [shareId, memberId]"

definition splitMemberUid :: "string \<Rightarrow> thrown + (string \<times> string)" where
  "splitMemberUid memberUid = split2 memberUid ''member''"

definition makePublicLinkUid :: "string \<Rightarrow> string \<Rightarrow> string" where
  "makePublicLinkUid shareId publicLinkId = makeUid [shareId, publicLinkId]"

definition splitPublicLinkUid :: "string \<Rightarrow> thrown + (string \<times> string)" where
  "splitPublicLinkUid publicLinkUid = split2 publicLinkUid ''public link''"

section \<open>Three-part identifiers\<close>

definition split3 :: "string \<Rightarrow> string \<Rightarrow> thrown + (string \<times> string \<times> string)" where
  "split3 uid typeName = try_bind (splitUid uid 3 typeName) (\<lambda>ps. Inr (ps ! 0, ps ! 1, ps ! 2))"

definition makeNodeRevisionUid :: "string \<Rightarrow> string \<Rightarrow> string \<Rightarrow> string" where
  "makeNodeRevisionUid volumeId nodeId revisionId = makeUid [volumeId, nodeId, revisionId]"

definition splitNodeRevisionUid :: "string \<Rightarrow> thrown + (string \<times> string \<times> string)" where
  "splitNodeRevisionUid nodeRevisionUid = split3 nodeRevisionUid ''revision''"

definition makeNodeUidFromRevisionUid :: "string \<Rightarrow> thrown + string" where
  "makeNodeUidFromRevisionUid nodeRevisionUid =
     try_bind (splitNodeRevisionUid nodeRevisionUid)
       (\<lambda>(volumeId, nodeId, revisionId). Inr (makeNodeUid volumeId nodeId))"

definition makeNodeThumbnailUid :: "string \<Rightarrow> string \<Rightarrow> string \<Rightarrow> string" where
  "makeNodeThumbnailUid volumeId nodeId thumbnailId = makeUid [volumeId, nodeId, thumbnailId]"

definition splitNodeThumbnailUid :: "string \<Rightarrow> thrown + (string \<times> string \<times> string)" where
  "splitNodeThumbnailUid nodeThumbnailUid = split3 nodeThumbnailUid ''thumbnail''"

section \<open>Parsing is the exact inverse of building\<close>

lemma length_2_iff: "length xs = 2 \<longleftrightarrow> (\<exists>a b. xs = [a, b])"
  by (auto simp: numeral_2_eq_2 length_Suc_conv)

lemma length_3_iff: "length xs = 3 \<longleftrightarrow> (\<exists>a b c. xs = [a, b, c])"
  by (auto simp: numeral_3_eq_3 length_Suc_conv)

text \<open>
  An identifier parses to \<open>n\<close> parts exactly when those parts, none of which holds a tilde,
  build it: parsing loses nothing and accepts nothing else.
\<close>

lemma splitUid_Inr_iff:
  assumes "n \<noteq> 0"
  shows "splitUid uid n ty = Inr ps \<longleftrightarrow>
           length ps = n \<and> (\<forall>p \<in> set ps. tilde \<notin> set p) \<and> uid = makeUid ps"
proof
  assume "splitUid uid n ty = Inr ps"
  then have "ps = js_split tilde uid" and "length ps = n"
    by (auto simp: splitUid_def Let_def split: if_splits)
  then show "length ps = n \<and> (\<forall>p \<in> set ps. tilde \<notin> set p) \<and> uid = makeUid ps"
    by (auto simp: makeUid_def dest: js_split_parts)
next
  assume r: "length ps = n \<and> (\<forall>p \<in> set ps. tilde \<notin> set p) \<and> uid = makeUid ps"
  then have "js_split tilde uid = ps"
    using assms by (auto simp: makeUid_def intro!: js_split_join)
  with r show "splitUid uid n ty = Inr ps"
    by (simp add: splitUid_def)
qed

lemma split2_Inr_iff:
  "split2 uid ty = Inr (a, b) \<longleftrightarrow> tilde \<notin> set a \<and> tilde \<notin> set b \<and> uid = makeUid [a, b]"
  unfolding split2_def try_bind_Inr_iff
  by (subst splitUid_Inr_iff) (auto simp: length_2_iff intro!: exI [of _ "[a, b]"])

lemma split3_Inr_iff:
  "split3 uid ty = Inr (a, b, c) \<longleftrightarrow>
     tilde \<notin> set a \<and> tilde \<notin> set b \<and> tilde \<notin> set c \<and> uid = makeUid [a, b, c]"
  unfolding split3_def try_bind_Inr_iff
  by (subst splitUid_Inr_iff) (auto simp: length_3_iff intro!: exI [of _ "[a, b, c]"])

lemma split2_fails_iff:
  "(\<exists>e. split2 uid ty = Inl e) \<longleftrightarrow> count_list uid tilde \<noteq> 1"
  by (auto simp: split2_def splitUid_def length_js_split Let_def)

lemmas uid_defs = makeNodeUid_def makeInvitationUid_def makeMemberUid_def makePublicLinkUid_def
  makeNodeRevisionUid_def makeNodeThumbnailUid_def
lemmas uid_split_defs = splitNodeUid_def splitInvitationUid_def splitMemberUid_def
  splitPublicLinkUid_def splitNodeRevisionUid_def splitNodeThumbnailUid_def

lemma splitNodeUid_Inr_iff:
  "splitNodeUid uid = Inr (v, n) \<longleftrightarrow> tilde \<notin> set v \<and> tilde \<notin> set n \<and> uid = makeNodeUid v n"
  by (simp add: uid_split_defs uid_defs split2_Inr_iff)

lemma splitNodeUid_makeNodeUid [simp]:
  "tilde \<notin> set v \<Longrightarrow> tilde \<notin> set n \<Longrightarrow> splitNodeUid (makeNodeUid v n) = Inr (v, n)"
  by (simp add: splitNodeUid_Inr_iff)

text \<open>The device parser is a separate copy of the same code; the two agree on what they accept.\<close>

lemma splitDeviceUid_Inr_iff:
  "splitDeviceUid uid = Inr (v, d) \<longleftrightarrow> tilde \<notin> set v \<and> tilde \<notin> set d \<and> uid = makeDeviceUid v d"
proof -
  have "splitDeviceUid uid = Inr (v, d) \<longleftrightarrow> split2 uid ''device'' = Inr (v, d)"
    by (simp add: splitDeviceUid_def split2_def splitUid_def Let_def)
  then show ?thesis
    by (simp add: split2_Inr_iff makeUid_def makeDeviceUid_def tilde_def)
qed

lemma makeNodeUidFromRevisionUid_Inr_iff:
  "makeNodeUidFromRevisionUid r = Inr uid \<longleftrightarrow>
     (\<exists>v n x. splitNodeRevisionUid r = Inr (v, n, x) \<and> uid = makeNodeUid v n)"
  by (auto simp: makeNodeUidFromRevisionUid_def try_bind_Inr_iff)

text \<open>
  Every node UID parser accepts exactly the strings its builder makes from parts without a
  tilde, and returns those parts; the node UID of a revision UID is the one built from its first
  two parts.
\<close>

theorem uid_roundtrip:
  "(splitNodeUid uid = Inr (v, n) \<longleftrightarrow> tilde \<notin> set v \<and> tilde \<notin> set n \<and> uid = makeNodeUid v n)
   \<and> (splitDeviceUid uid = Inr (v, n) \<longleftrightarrow>
        tilde \<notin> set v \<and> tilde \<notin> set n \<and> uid = makeDeviceUid v n)
   \<and> (splitNodeRevisionUid uid = Inr (v, n, r) \<longleftrightarrow>
        tilde \<notin> set v \<and> tilde \<notin> set n \<and> tilde \<notin> set r \<and> uid = makeNodeRevisionUid v n r)
   \<and> (makeNodeUidFromRevisionUid uid = Inr node \<longleftrightarrow>
        (\<exists>v n r. tilde \<notin> set v \<and> tilde \<notin> set n \<and> tilde \<notin> set r
           \<and> uid = makeNodeRevisionUid v n r \<and> splitNodeUid node = Inr (v, n)))"
  by (auto simp: splitNodeUid_Inr_iff splitDeviceUid_Inr_iff makeNodeUidFromRevisionUid_Inr_iff
        splitNodeRevisionUid_def split3_Inr_iff makeNodeRevisionUid_def)

end
