(* ===== verification/DriveCache.thy ===== *)
theory DriveCache
  imports Errors
begin

text \<open>
  The cache interface \<open>ProtonDriveCache\<close> of \<^verbatim>\<open>cache/interface.ts\<close> and its two implementations in
  the repository, \<open>MemoryCache\<close> and \<open>NullCache\<close>. The clients receive the cache as a dependency,
  so here it is a record of operations over a state, and what they may rely on is a locale.

  The generators are read one step at a time: \<open>keysByTag\<close> is the copy of the keys taken when the
  iteration starts, and \<open>entity\<close> is what one step yields for a key in the state at that moment,
  so that a client that changes the cache while it iterates sees its own changes.
\<close>

datatype 'v entity_result = EntityOk (er_key: string) (er_value: 'v) | EntityMissing (er_key: string) string

record ('s, 'v) cache_ops =
  co_clear :: "'s \<Rightarrow> 's"
  co_setEntity :: "string \<Rightarrow> 'v \<Rightarrow> string list option \<Rightarrow> 's \<Rightarrow> 's"
  co_getEntity :: "string \<Rightarrow> 's \<Rightarrow> thrown + 'v"
  co_entity :: "string \<Rightarrow> 's \<Rightarrow> 'v entity_result"
  co_keysByTag :: "string \<Rightarrow> 's \<Rightarrow> string list"
  co_removeEntities :: "string list \<Rightarrow> 's \<Rightarrow> 's"

definition iterateEntities :: "('s, 'v) cache_ops \<Rightarrow> string list \<Rightarrow> 's \<Rightarrow> 'v entity_result list" where
  "iterateEntities ops keys s = map (\<lambda>key. co_entity ops key s) keys"

definition iterateEntitiesByTag :: "('s, 'v) cache_ops \<Rightarrow> string \<Rightarrow> 's \<Rightarrow> 'v entity_result list" where
  "iterateEntitiesByTag ops tag s = iterateEntities ops (co_keysByTag ops tag s) s"

section \<open>MemoryCache\<close>

record 'v memory_cache =
  mc_entities :: "string \<rightharpoonup> 'v"
  mc_entitiesByTag :: "string \<rightharpoonup> string list"

definition mc_new :: "'v memory_cache" where
  "mc_new = \<lparr>mc_entities = Map.empty, mc_entitiesByTag = Map.empty\<rparr>"

definition mc_clear :: "'v memory_cache \<Rightarrow> 'v memory_cache" where
  "mc_clear c = c\<lparr>mc_entities := Map.empty\<rparr>"

text \<open>The loop over all tags of \<open>setEntity\<close>: drop the key, and the tag once its list is empty.\<close>

definition mc_untag :: "string \<Rightarrow> (string \<rightharpoonup> string list) \<Rightarrow> (string \<rightharpoonup> string list)" where
  "mc_untag key m = (\<lambda>tag. case m tag of
       None \<Rightarrow> None
     | Some ks \<Rightarrow>
         if key \<in> set ks
         then (if remove1 key ks = [] then None else Some (remove1 key ks))
         else Some ks)"

fun mc_add_tags :: "string \<Rightarrow> string list \<Rightarrow> (string \<rightharpoonup> string list) \<Rightarrow> (string \<rightharpoonup> string list)" where
  "mc_add_tags key [] m = m"
| "mc_add_tags key (tag # tags) m =
     mc_add_tags key tags (m(tag \<mapsto> (case m tag of None \<Rightarrow> [] | Some ks \<Rightarrow> ks) @ [key]))"

definition mc_setEntity ::
  "string \<Rightarrow> 'v \<Rightarrow> string list option \<Rightarrow> 'v memory_cache \<Rightarrow> 'v memory_cache"
where
  "mc_setEntity key value tags c =
     \<lparr>mc_entities = (mc_entities c)(key \<mapsto> value),
      mc_entitiesByTag =
        (case tags of
           None \<Rightarrow> mc_untag key (mc_entitiesByTag c)
         | Some ts \<Rightarrow> mc_add_tags key ts (mc_untag key (mc_entitiesByTag c)))\<rparr>"

text \<open>\<open>if (!value)\<close>: a stored value that is not truthy reads as missing.\<close>

definition mc_getEntity :: "('v \<Rightarrow> bool) \<Rightarrow> string \<Rightarrow> 'v memory_cache \<Rightarrow> thrown + 'v" where
  "mc_getEntity truthy key c =
     (case mc_entities c key of
        None \<Rightarrow> Inl (throw_new JsError ''Entity not found'')
      | Some v \<Rightarrow> if truthy v then Inr v else Inl (throw_new JsError ''Entity not found''))"

definition mc_entity :: "('v \<Rightarrow> bool) \<Rightarrow> string \<Rightarrow> 'v memory_cache \<Rightarrow> 'v entity_result" where
  "mc_entity truthy key c =
     (case mc_getEntity truthy key c of
        Inr v \<Rightarrow> EntityOk key v
      | Inl e \<Rightarrow> EntityMissing key ''Error: Entity not found'')"

definition mc_keysByTag :: "string \<Rightarrow> 'v memory_cache \<Rightarrow> string list" where
  "mc_keysByTag tag c = (case mc_entitiesByTag c tag of None \<Rightarrow> [] | Some ks \<Rightarrow> ks)"

definition mc_removeEntity :: "string \<Rightarrow> 'v memory_cache \<Rightarrow> 'v memory_cache" where
  "mc_removeEntity key c =
     \<lparr>mc_entities = (mc_entities c)(key := None),
      mc_entitiesByTag = (\<lambda>tag. map_option (remove1 key) (mc_entitiesByTag c tag))\<rparr>"

definition mc_removeEntities :: "string list \<Rightarrow> 'v memory_cache \<Rightarrow> 'v memory_cache" where
  "mc_removeEntities keys c = fold mc_removeEntity keys c"

definition memory_ops :: "('v \<Rightarrow> bool) \<Rightarrow> ('v memory_cache, 'v) cache_ops" where
  "memory_ops truthy =
     \<lparr>co_clear = mc_clear, co_setEntity = mc_setEntity, co_getEntity = mc_getEntity truthy,
      co_entity = mc_entity truthy, co_keysByTag = mc_keysByTag,
      co_removeEntities = mc_removeEntities\<rparr>"

section \<open>NullCache\<close>

definition nc_getEntity :: "string \<Rightarrow> unit \<Rightarrow> thrown + 'v" where
  "nc_getEntity key c = Inl (throw_new JsError ''Entity not found'')"

definition nc_entity :: "string \<Rightarrow> unit \<Rightarrow> 'v entity_result" where
  "nc_entity key c = EntityMissing key ''Entity not found''"

definition null_ops :: "(unit, 'v) cache_ops" where
  "null_ops =
     \<lparr>co_clear = (\<lambda>c. c), co_setEntity = (\<lambda>key value tags c. c), co_getEntity = nc_getEntity,
      co_entity = nc_entity, co_keysByTag = (\<lambda>tag c. []), co_removeEntities = (\<lambda>keys c. c)\<rparr>"

section \<open>The contracts\<close>

text \<open>
  \<open>drive_cache\<close> is what every cache promises: it never invents an entity, a removed entity is
  gone, and a tag lists a key only if the last write of the key gave it that tag.
  \<open>storing_cache\<close> adds that writes are kept; \<open>NullCache\<close> meets only the first.
\<close>

locale drive_cache =
  fixes ops :: "('s, 'v) cache_ops" and inv :: "'s \<Rightarrow> bool"
  assumes inv_set: "inv s \<Longrightarrow> distinct ts \<Longrightarrow> inv (co_setEntity ops k v (Some ts) s)"
    and inv_set_untagged: "inv s \<Longrightarrow> inv (co_setEntity ops k v None s)"
    and inv_remove: "inv s \<Longrightarrow> inv (co_removeEntities ops ks s)"
    and get_set_sound: "inv s \<Longrightarrow> co_getEntity ops k (co_setEntity ops k v tso s) = Inr w \<Longrightarrow> w = v"
    and get_set_other: "inv s \<Longrightarrow> k' \<noteq> k \<Longrightarrow>
          co_getEntity ops k' (co_setEntity ops k v tso s) = co_getEntity ops k' s"
    and get_removed: "k \<in> set ks \<Longrightarrow> \<exists>e. co_getEntity ops k (co_removeEntities ops ks s) = Inl e"
    and get_remove_other: "k \<notin> set ks \<Longrightarrow>
          co_getEntity ops k (co_removeEntities ops ks s) = co_getEntity ops k s"
    and entity_ok: "co_entity ops k s = EntityOk k' v \<longleftrightarrow> k' = k \<and> co_getEntity ops k s = Inr v"
    and entity_key: "er_key (co_entity ops k s) = k"
    and tag_set_sound: "inv s \<Longrightarrow> distinct ts \<Longrightarrow>
          set (co_keysByTag ops t (co_setEntity ops k v (Some ts) s))
            \<subseteq> (set (co_keysByTag ops t s) - {k}) \<union> (if t \<in> set ts then {k} else {})"
    and tag_remove: "inv s \<Longrightarrow>
          set (co_keysByTag ops t (co_removeEntities ops ks s)) = set (co_keysByTag ops t s) - set ks"
begin

lemma removed_not_iterated:
  "inv s \<Longrightarrow> k \<in> set ks \<Longrightarrow> k \<notin> set (co_keysByTag ops t (co_removeEntities ops ks s))"
  by (simp add: tag_remove)

lemma iterated_by_tag:
  "EntityOk k v \<in> set (iterateEntitiesByTag ops t s) \<longleftrightarrow>
     k \<in> set (co_keysByTag ops t s) \<and> co_getEntity ops k s = Inr v"
  by (auto simp: iterateEntitiesByTag_def iterateEntities_def image_iff
        eq_commute [of "EntityOk k v"] entity_ok)

lemma get_set_cases:
  "inv s \<Longrightarrow> co_getEntity ops k' (co_setEntity ops k v tso s) = Inr w \<Longrightarrow>
     k' = k \<and> w = v \<or> co_getEntity ops k' s = Inr w"
  using get_set_sound get_set_other by metis

lemma get_remove_sound: "co_getEntity ops k (co_removeEntities ops ks s) = Inr v \<Longrightarrow> co_getEntity ops k s = Inr v"
  using get_removed get_remove_other by (metis Inl_Inr_False)

lemma entity_missing_if:
  "co_getEntity ops k s = Inl e \<Longrightarrow> \<exists>m. co_entity ops k s = EntityMissing k m"
  using entity_key [of k s] by (cases "co_entity ops k s") (auto simp: entity_ok)

end

locale storing_cache = drive_cache ops inv
  for ops :: "('s, 'v) cache_ops" and inv :: "'s \<Rightarrow> bool" +
  fixes storable :: "'v \<Rightarrow> bool"
  assumes get_set_same: "inv s \<Longrightarrow> storable v \<Longrightarrow>
          co_getEntity ops k (co_setEntity ops k v tso s) = Inr v"
    and tag_set: "inv s \<Longrightarrow> distinct ts \<Longrightarrow>
          set (co_keysByTag ops t (co_setEntity ops k v (Some ts) s))
            = (set (co_keysByTag ops t s) - {k}) \<union> (if t \<in> set ts then {k} else {})"
begin

lemma get_set:
  "inv s \<Longrightarrow> storable v \<Longrightarrow>
     co_getEntity ops k' (co_setEntity ops k v tso s) =
       (if k' = k then Inr v else co_getEntity ops k' s)"
  by (simp add: get_set_same get_set_other)

lemma stored_is_iterated:
  "inv s \<Longrightarrow> storable v \<Longrightarrow> distinct ts \<Longrightarrow> t \<in> set ts \<Longrightarrow>
     EntityOk k v \<in> set (iterateEntitiesByTag ops t (co_setEntity ops k v (Some ts) s))"
  by (simp add: iterated_by_tag get_set tag_set)

end

section \<open>MemoryCache meets the contract\<close>

definition mc_inv :: "'v memory_cache \<Rightarrow> bool" where
  "mc_inv c \<longleftrightarrow> (\<forall>tag. distinct (mc_keysByTag tag c))"

lemma mc_keysByTag_untag:
  "mc_keysByTag tag (c\<lparr>mc_entitiesByTag := mc_untag key (mc_entitiesByTag c)\<rparr>)
     = remove1 key (mc_keysByTag tag c)"
  by (auto simp: mc_keysByTag_def mc_untag_def remove1_idem split: option.split)

lemma mc_add_tags_lookup:
  "distinct tags \<Longrightarrow>
     mc_add_tags key tags m tag =
       (if tag \<in> set tags then Some ((case m tag of None \<Rightarrow> [] | Some ks \<Rightarrow> ks) @ [key]) else m tag)"
  by (induction tags arbitrary: m) auto

lemma mc_keysByTag_setEntity:
  "distinct ts \<Longrightarrow> mc_keysByTag tag (mc_setEntity key v (Some ts) c) =
     remove1 key (mc_keysByTag tag c) @ (if tag \<in> set ts then [key] else [])"
  using mc_keysByTag_untag [of tag key c]
  by (auto simp: mc_setEntity_def mc_keysByTag_def mc_add_tags_lookup split: option.splits)

lemma mc_keysByTag_setEntity_None:
  "mc_keysByTag tag (mc_setEntity key v None c) = remove1 key (mc_keysByTag tag c)"
  using mc_keysByTag_untag [of tag key c]
  by (auto simp: mc_setEntity_def mc_keysByTag_def split: option.splits)

lemma mc_keysByTag_removeEntity:
  "mc_keysByTag tag (mc_removeEntity key c) = remove1 key (mc_keysByTag tag c)"
  by (simp add: mc_removeEntity_def mc_keysByTag_def split: option.split)

lemma mc_keysByTag_removeEntities:
  "mc_keysByTag tag (mc_removeEntities keys c) = fold remove1 keys (mc_keysByTag tag c)"
  unfolding mc_removeEntities_def
  by (induction keys arbitrary: c) (simp_all add: mc_keysByTag_removeEntity)

lemma mc_entities_removeEntities:
  "mc_entities (mc_removeEntities keys c) k = (if k \<in> set keys then None else mc_entities c k)"
  unfolding mc_removeEntities_def
  by (induction keys arbitrary: c) (simp_all add: mc_removeEntity_def)

lemma mc_entities_setEntity [simp]:
  "mc_entities (mc_setEntity k v ts c) = (mc_entities c)(k \<mapsto> v)"
  by (simp add: mc_setEntity_def)

lemma set_fold_remove1: "distinct xs \<Longrightarrow> set (fold remove1 ks xs) = set xs - set ks"
  by (induction ks arbitrary: xs) auto

lemma distinct_fold_remove1: "distinct xs \<Longrightarrow> distinct (fold remove1 ks xs)"
  by (induction ks arbitrary: xs) auto

lemma mc_inv_new: "mc_inv mc_new"
  by (simp add: mc_inv_def mc_new_def mc_keysByTag_def)

lemma mc_inv_clear: "mc_inv c \<Longrightarrow> mc_inv (mc_clear c)"
  by (simp add: mc_inv_def mc_clear_def mc_keysByTag_def)

lemmas mc_ops = memory_ops_def mc_getEntity_def mc_entity_def

interpretation mem: storing_cache "memory_ops truthy" mc_inv truthy for truthy
proof (unfold_locales, goal_cases)
  case (11 s ks t)
  then show ?case
    by (simp add: mc_ops mc_inv_def mc_keysByTag_removeEntities set_fold_remove1)
qed (auto simp: mc_ops mc_inv_def mc_keysByTag_setEntity mc_keysByTag_setEntity_None
       mc_keysByTag_removeEntities mc_entities_removeEntities distinct_fold_remove1
       split: option.splits if_splits)

interpretation nul: drive_cache null_ops "\<lambda>c. True"
  by unfold_locales (auto simp: null_ops_def nc_getEntity_def nc_entity_def)

section \<open>MemoryCache refines a tagged map\<close>

text \<open>
  The specification of a cache is a map from a key to the value and the tags of its last write.
\<close>

datatype 'v cache_cmd = SetEntity string 'v "string list" | RemoveEntities "string list"

fun mc_cmd :: "'v cache_cmd \<Rightarrow> 'v memory_cache \<Rightarrow> 'v memory_cache" where
  "mc_cmd (SetEntity k v ts) c = mc_setEntity k v (Some ts) c"
| "mc_cmd (RemoveEntities ks) c = mc_removeEntities ks c"

fun spec_cmd ::
  "'v cache_cmd \<Rightarrow> (string \<rightharpoonup> 'v \<times> string list) \<Rightarrow> (string \<rightharpoonup> 'v \<times> string list)" where
  "spec_cmd (SetEntity k v ts) m = m(k \<mapsto> (v, ts))"
| "spec_cmd (RemoveEntities ks) m = (\<lambda>k. if k \<in> set ks then None else m k)"

fun cmd_tags_distinct :: "'v cache_cmd \<Rightarrow> bool" where
  "cmd_tags_distinct (SetEntity k v ts) = distinct ts"
| "cmd_tags_distinct (RemoveEntities ks) = True"

definition cache_abs :: "'v memory_cache \<Rightarrow> (string \<rightharpoonup> 'v \<times> string list) \<Rightarrow> bool" where
  "cache_abs c m \<longleftrightarrow>
     mc_inv c
     \<and> (\<forall>k. mc_entities c k = map_option fst (m k))
     \<and> (\<forall>t. set (mc_keysByTag t c) = {k. \<exists>v ts. m k = Some (v, ts) \<and> t \<in> set ts})"

lemma cache_abs_new: "cache_abs mc_new Map.empty"
  by (simp add: cache_abs_def mc_inv_new) (simp add: mc_new_def mc_keysByTag_def)

lemma cache_abs_set:
  assumes "cache_abs c m" and "distinct ts"
  shows "cache_abs (mc_setEntity k v (Some ts) c) (m(k \<mapsto> (v, ts)))"
proof -
  from assms have "mc_inv (mc_setEntity k v (Some ts) c)"
    by (auto simp: cache_abs_def mc_inv_def mc_keysByTag_setEntity)
  moreover have "set (mc_keysByTag t (mc_setEntity k v (Some ts) c)) =
      {k'. \<exists>v' ts'. (m(k \<mapsto> (v, ts))) k' = Some (v', ts') \<and> t \<in> set ts'}" for t
    using assms by (auto simp: cache_abs_def mc_inv_def mc_keysByTag_setEntity split: if_splits)
  ultimately show ?thesis
    using assms by (simp add: cache_abs_def)
qed

lemma cache_abs_remove:
  assumes "cache_abs c m"
  shows "cache_abs (mc_removeEntities ks c) (\<lambda>k. if k \<in> set ks then None else m k)"
proof -
  from assms have "mc_inv (mc_removeEntities ks c)"
    by (auto simp: cache_abs_def mc_inv_def mc_keysByTag_removeEntities distinct_fold_remove1)
  moreover have "set (mc_keysByTag t (mc_removeEntities ks c)) =
      {k. \<exists>v ts. (if k \<in> set ks then None else m k) = Some (v, ts) \<and> t \<in> set ts}" for t
    using assms by (auto simp: cache_abs_def mc_inv_def mc_keysByTag_removeEntities set_fold_remove1)
  ultimately show ?thesis
    using assms by (simp add: cache_abs_def mc_entities_removeEntities)
qed

lemma cache_abs_cmd:
  "cache_abs c m \<Longrightarrow> cmd_tags_distinct cmd \<Longrightarrow> cache_abs (mc_cmd cmd c) (spec_cmd cmd m)"
  by (cases cmd) (auto intro: cache_abs_set cache_abs_remove)

lemma cache_abs_run:
  "cache_abs c m \<Longrightarrow> \<forall>cmd \<in> set cmds. cmd_tags_distinct cmd \<Longrightarrow>
     cache_abs (fold mc_cmd cmds c) (fold spec_cmd cmds m)"
  by (induction cmds arbitrary: c m) (auto intro: cache_abs_cmd)



text \<open>
  \<open>clear\<close> empties the entities but not the tag listings, so iterating a tag after a clear
  yields a "not found" result for every key that carried it, where a fresh cache yields nothing.
\<close>

theorem memory_cache_clear_keeps_tags:
  "iterateEntitiesByTag (memory_ops truthy) t (mc_clear c) =
     map (\<lambda>k. EntityMissing k ''Error: Entity not found'') (mc_keysByTag t c)
   \<and> iterateEntitiesByTag (memory_ops truthy) t mc_new = []"
  by (simp add: iterateEntitiesByTag_def iterateEntities_def mc_ops mc_clear_def mc_keysByTag_def
      mc_new_def split: option.split)

end
