(* ===== verification/ApiService.thy ===== *)
theory ApiService
  imports Errors
begin

text \<open>
  The HTTP layer of \<^verbatim>\<open>internal/apiService/apiService.ts\<close> (\<open>DriveAPIService\<close>) with the
  \<open>SDKEvents\<close> it raises (\<^verbatim>\<open>internal/sdkEvents.ts\<close>).

  The HTTP client is not part of the repository: it is the parameter \<open>client\<close>, the \<open>n\<close>-th call
  being answered by \<open>client n\<close> after a latency. The service state holds its counters, the
  clock (milliseconds), the number of calls made and the trace of what other components see: the
  events, the retry metric and the waits. A wait advances the clock by exactly its length.
  \<open>fetch\<close> retries without a bound of its own, so it runs on fuel, \<open>None\<close> meaning "still
  retrying"; the theorems say when enough fuel exists and when none does.
\<close>

section \<open>Events and their listeners\<close>

datatype sdk_event = TransfersPaused | TransfersResumed | RequestsThrottled | RequestsUnthrottled

type_synonym callback = nat
type_synonym sdk_listeners = "sdk_event \<Rightarrow> callback list"

definition addListener :: "sdk_event \<Rightarrow> callback \<Rightarrow> sdk_listeners \<Rightarrow> sdk_listeners" where
  "addListener e cb ls = ls(e := ls e @ [cb])"

text \<open>The function \<open>addListener\<close> returns.\<close>

definition removeListener :: "sdk_event \<Rightarrow> callback \<Rightarrow> sdk_listeners \<Rightarrow> sdk_listeners" where
  "removeListener e cb ls = ls(e := filter (\<lambda>c. c \<noteq> cb) (ls e))"

definition emit_event :: "sdk_event \<Rightarrow> sdk_listeners \<Rightarrow> callback list" where
  "emit_event e ls = ls e"

section \<open>Requests and responses\<close>

record http_response =
  rs_status :: int
  rs_statusText :: string
  rs_retry_after :: "string option"
  rs_json :: "thrown + api_result"
  rs_body :: "string option"

definition rs_ok :: "http_response \<Rightarrow> bool" where
  "rs_ok r \<longleftrightarrow> 200 \<le> rs_status r \<and> rs_status r \<le> 299"

definition status_of :: "http_response \<Rightarrow> http_status" where
  "status_of r = \<lparr>hs_status = rs_status r, hs_statusText = rs_statusText r\<rparr>"

datatype http_outcome = Responded http_response | Rejected thrown

type_synonym http_client = "nat \<Rightarrow> nat \<times> http_outcome"

datatype payload = NoData | JsonData string | FormData string

record api_request =
  rq_url :: string
  rq_method :: string
  rq_headers :: "(string \<times> string) list"
  rq_json :: "string option"
  rq_form :: "string option"
  rq_timeoutMs :: nat
  rq_abort_at :: "nat option"

section \<open>The state and its small operations\<close>

definition MAX_TIMEOUT_ERROR_RETRY_ATTEMPTS :: nat where "MAX_TIMEOUT_ERROR_RETRY_ATTEMPTS = 3"
definition MAX_NETWORK_ERROR_RETRY_ATTEMPTS :: nat where "MAX_NETWORK_ERROR_RETRY_ATTEMPTS = 3"
definition TOO_MANY_SUBSEQUENT_429_ERRORS :: nat where "TOO_MANY_SUBSEQUENT_429_ERRORS = 50"
definition TOO_MANY_429_TIMEOUT_SECONDS :: nat where "TOO_MANY_429_TIMEOUT_SECONDS = 60"
definition TOO_MANY_SUBSEQUENT_SERVER_ERRORS :: nat where "TOO_MANY_SUBSEQUENT_SERVER_ERRORS = 10"
definition TOO_MANY_SERVER_ERRORS_TIMEOUT_SECONDS :: nat where
  "TOO_MANY_SERVER_ERRORS_TIMEOUT_SECONDS = 60"
definition TOO_MANY_SUBSEQUENT_OFFLINE_ERRORS :: nat where "TOO_MANY_SUBSEQUENT_OFFLINE_ERRORS = 10"
definition SERVER_ERROR_RETRY_DELAY_SECONDS :: int where "SERVER_ERROR_RETRY_DELAY_SECONDS = 1"
definition NETWORK_ERROR_RETRY_DELAY_SECONDS :: int where "NETWORK_ERROR_RETRY_DELAY_SECONDS = 5"
definition OFFLINE_RETRY_DELAY_SECONDS :: int where "OFFLINE_RETRY_DELAY_SECONDS = 5"
definition DEFAULT_429_RETRY_DELAY_SECONDS :: int where "DEFAULT_429_RETRY_DELAY_SECONDS = 10"
definition GENERAL_RETRY_DELAY_SECONDS :: int where "GENERAL_RETRY_DELAY_SECONDS = 1"

lemmas api_consts = MAX_TIMEOUT_ERROR_RETRY_ATTEMPTS_def MAX_NETWORK_ERROR_RETRY_ATTEMPTS_def
  TOO_MANY_SUBSEQUENT_429_ERRORS_def TOO_MANY_429_TIMEOUT_SECONDS_def
  TOO_MANY_SUBSEQUENT_SERVER_ERRORS_def TOO_MANY_SERVER_ERRORS_TIMEOUT_SECONDS_def
  TOO_MANY_SUBSEQUENT_OFFLINE_ERRORS_def SERVER_ERROR_RETRY_DELAY_SECONDS_def
  NETWORK_ERROR_RETRY_DELAY_SECONDS_def OFFLINE_RETRY_DELAY_SECONDS_def
  DEFAULT_429_RETRY_DELAY_SECONDS_def GENERAL_RETRY_DELAY_SECONDS_def HTTP_TOO_MANY_REQUESTS_def

datatype previous_error = PrevThrown thrown | PrevStatus int

datatype api_effect =
    Emitted sdk_event
  | RetryMetric nat string "previous_error option"
  | Waited int

record api_state =
  tooManyRequestsCounter :: nat
  lastTooManyRequestsErrorAt :: "nat option"
  serverErrorsCounter :: nat
  lastServerErrorAt :: "nat option"
  offlineErrorsCounter :: nat
  api_now :: nat
  api_calls :: nat
  api_trace :: "api_effect list"

definition note_effect :: "api_effect \<Rightarrow> api_state \<Rightarrow> api_state" where
  "note_effect e s = s\<lparr>api_trace := api_trace s @ [e]\<rparr>"

definition waitSeconds :: "int \<Rightarrow> api_state \<Rightarrow> api_state" where
  "waitSeconds secs s = note_effect (Waited secs) (s\<lparr>api_now := api_now s + nat (secs * 1000)\<rparr>)"

text \<open>\<open>lastErrorAt || Date.now()\<close>: an unset (or zero) instant counts as the present.\<close>

definition milliseconds_since :: "nat option \<Rightarrow> api_state \<Rightarrow> nat" where
  "milliseconds_since at s =
     api_now s - (case at of None \<Rightarrow> api_now s | Some t \<Rightarrow> if t = 0 then api_now s else t)"

definition hasReachedTooManyRequestsErrorLimit :: "api_state \<Rightarrow> bool" where
  "hasReachedTooManyRequestsErrorLimit s \<longleftrightarrow>
     tooManyRequestsCounter s \<ge> TOO_MANY_SUBSEQUENT_429_ERRORS
     \<and> milliseconds_since (lastTooManyRequestsErrorAt s) s < TOO_MANY_429_TIMEOUT_SECONDS * 1000"

definition tooManyRequestsErrorHappened :: "api_state \<Rightarrow> api_state" where
  "tooManyRequestsErrorHappened s =
     (let s' = s\<lparr>tooManyRequestsCounter := tooManyRequestsCounter s + 1,
                 lastTooManyRequestsErrorAt := Some (api_now s)\<rparr>
      in if tooManyRequestsCounter s' = TOO_MANY_SUBSEQUENT_429_ERRORS
         then note_effect (Emitted RequestsThrottled) s' else s')"

definition clearSubsequentTooManyRequestsError :: "api_state \<Rightarrow> api_state" where
  "clearSubsequentTooManyRequestsError s =
     (let s' = (if tooManyRequestsCounter s \<ge> TOO_MANY_SUBSEQUENT_429_ERRORS
                then note_effect (Emitted RequestsUnthrottled) s else s)
      in s'\<lparr>tooManyRequestsCounter := 0, lastTooManyRequestsErrorAt := None\<rparr>)"

definition hasReachedServerErrorLimit :: "api_state \<Rightarrow> bool" where
  "hasReachedServerErrorLimit s \<longleftrightarrow>
     serverErrorsCounter s \<ge> TOO_MANY_SUBSEQUENT_SERVER_ERRORS
     \<and> milliseconds_since (lastServerErrorAt s) s < TOO_MANY_SERVER_ERRORS_TIMEOUT_SECONDS * 1000"

definition serverErrorHappened :: "api_state \<Rightarrow> api_state" where
  "serverErrorHappened s =
     s\<lparr>serverErrorsCounter := serverErrorsCounter s + 1, lastServerErrorAt := Some (api_now s)\<rparr>"

definition clearSubsequentServerErrors :: "api_state \<Rightarrow> api_state" where
  "clearSubsequentServerErrors s = s\<lparr>serverErrorsCounter := 0, lastServerErrorAt := None\<rparr>"

definition offlineErrorHappened :: "api_state \<Rightarrow> api_state" where
  "offlineErrorHappened s =
     (let s' = s\<lparr>offlineErrorsCounter := offlineErrorsCounter s + 1\<rparr>
      in if offlineErrorsCounter s' = TOO_MANY_SUBSEQUENT_OFFLINE_ERRORS
         then note_effect (Emitted TransfersPaused) s' else s')"

definition clearSubsequentOfflineErrors :: "api_state \<Rightarrow> api_state" where
  "clearSubsequentOfflineErrors s =
     (let s' = (if offlineErrorsCounter s \<ge> TOO_MANY_SUBSEQUENT_OFFLINE_ERRORS
                then note_effect (Emitted TransfersResumed) s else s)
      in s'\<lparr>offlineErrorsCounter := 0\<rparr>)"

section \<open>fetch\<close>

text \<open>\<open>parseInt(h, 10)\<close>: blanks, a sign, then the longest run of digits; \<open>None\<close> is NaN.\<close>

definition is_digit :: "char \<Rightarrow> bool" where
  "is_digit c \<longleftrightarrow> (48::nat) \<le> of_char c \<and> of_char c \<le> (57::nat)"

definition js_parseInt :: "string \<Rightarrow> int option" where
  "js_parseInt str =
     (let s = dropWhile (\<lambda>c. of_char c \<in> {9::nat, 10, 11, 12, 13, 32, 160}) str;
          neg = (case s of c # _ \<Rightarrow> c = CHR ''-'' | [] \<Rightarrow> False);
          body = (case s of c # cs \<Rightarrow> if c = CHR ''-'' \<or> c = CHR ''+'' then cs else s | [] \<Rightarrow> []);
          ds = takeWhile is_digit body;
          n = foldl (\<lambda>a c. 10 * a + (int (of_char c) - 48)) 0 ds
      in if ds = [] then None else Some (if neg then - n else n))"

definition retry_timeout :: "http_response \<Rightarrow> int" where
  "retry_timeout r =
     (case js_parseInt (case present (rs_retry_after r) of None \<Rightarrow> ''0'' | Some h \<Rightarrow> h) of
        None \<Rightarrow> DEFAULT_429_RETRY_DELAY_SECONDS
      | Some n \<Rightarrow> if n = 0 then DEFAULT_429_RETRY_DELAY_SECONDS else n)"

datatype retry_plan = GiveUp thrown | RetryAfter int | RetryOffline

text \<open>The catch block: what a rejected call on the given attempt leads to.\<close>

definition plan_after_throw :: "nat \<Rightarrow> thrown \<Rightarrow> retry_plan" where
  "plan_after_throw attempt error =
     (let name = (case error of ThrownError e \<Rightarrow> Some (err_name e) | ThrownValue v \<Rightarrow> None)
      in if name = Some ''AbortError'' then GiveUp (throw_new AbortError ''Request aborted'')
         else if name = Some ''OfflineError'' then RetryOffline
         else if name = Some ''TimeoutError'' \<and> attempt + 1 < MAX_TIMEOUT_ERROR_RETRY_ATTEMPTS
           then RetryAfter SERVER_ERROR_RETRY_DELAY_SECONDS
         else if name \<noteq> None \<and> isNetworkError error
                 \<and> attempt + 1 < MAX_NETWORK_ERROR_RETRY_ATTEMPTS
           then RetryAfter NETWORK_ERROR_RETRY_DELAY_SECONDS
         else if attempt = 0 then RetryAfter GENERAL_RETRY_DELAY_SECONDS
         else GiveUp error)"

text \<open>Whether a retry that helped is reported: not after a timeout, offline or network error.\<close>

definition is_warning :: "previous_error option \<Rightarrow> bool" where
  "is_warning previous =
     (case previous of
        Some (PrevThrown (ThrownError e)) \<Rightarrow>
          err_name e \<noteq> ''TimeoutError'' \<and> err_name e \<noteq> ''OfflineError''
          \<and> \<not> isNetworkError (ThrownError e)
      | _ \<Rightarrow> True)"

definition note_retry_helped ::
  "nat \<Rightarrow> string \<Rightarrow> previous_error option \<Rightarrow> api_state \<Rightarrow> api_state"
where
  "note_retry_helped attempt url previous s =
     (if attempt > 0 \<and> is_warning previous then note_effect (RetryMetric attempt url previous) s
      else s)"

definition is_aborted :: "api_request \<Rightarrow> api_state \<Rightarrow> bool" where
  "is_aborted rq s = (case rq_abort_at rq of None \<Rightarrow> False | Some t \<Rightarrow> t \<le> api_now s)"

text \<open>
  One run of the body of \<open>fetch\<close>: it ends with a result, or with the tail call
  \<open>this.fetch(request, callback, { attempt: attempt + 1, previousError })\<close>, which every retry
  makes after its wait.
\<close>

datatype fetch_next =
    Finished "thrown + http_response" api_state
  | Retry previous_error api_state

definition after_throw :: "nat \<Rightarrow> thrown \<Rightarrow> api_state \<Rightarrow> fetch_next" where
  "after_throw attempt error s =
     (case plan_after_throw attempt error of
        GiveUp e \<Rightarrow> Finished (Inl e) s
      | RetryOffline \<Rightarrow>
          Retry (PrevThrown error) (waitSeconds OFFLINE_RETRY_DELAY_SECONDS (offlineErrorHappened s))
      | RetryAfter secs \<Rightarrow> Retry (PrevThrown error) (waitSeconds secs s))"

definition after_response ::
  "api_request \<Rightarrow> nat \<Rightarrow> previous_error option \<Rightarrow> http_response \<Rightarrow> api_state \<Rightarrow> fetch_next"
where
  "after_response rq attempt previous response s =
     (let s2 = clearSubsequentOfflineErrors s
      in if rs_status response = HTTP_TOO_MANY_REQUESTS then
           Retry (PrevStatus (rs_status response))
             (waitSeconds (retry_timeout response) (tooManyRequestsErrorHappened s2))
         else
           let s3 = clearSubsequentTooManyRequestsError s2
           in if rs_status response \<ge> 500 then
                (let s4 = serverErrorHappened s3
                 in if attempt > 0 then Finished (Inr response) s4
                    else Retry (PrevStatus (rs_status response))
                           (waitSeconds SERVER_ERROR_RETRY_DELAY_SECONDS s4))
              else Finished (Inr response)
                     (clearSubsequentServerErrors
                       (note_retry_helped attempt (rq_url rq) previous s3)))"

definition fetch_once ::
  "http_client \<Rightarrow> api_request \<Rightarrow> nat \<Rightarrow> previous_error option \<Rightarrow> api_state \<Rightarrow> fetch_next"
where
  "fetch_once client rq attempt previous s =
     (if is_aborted rq s then Finished (Inl (throw_new AbortError ''Request aborted'')) s
      else if hasReachedServerErrorLimit s then
        Finished (Inl (throw_new ServerError ''Too many server errors, please try again later'')) s
      else if hasReachedTooManyRequestsErrorLimit s then
        Finished (Inl (throw_new RateLimitedError ''Too many server requests, please try again later'')) s
      else
        let (latency, outcome) = client (api_calls s);
            s1 = s\<lparr>api_calls := api_calls s + 1, api_now := api_now s + latency\<rparr>
        in case outcome of
             Rejected error \<Rightarrow> after_throw attempt error s1
           | Responded response \<Rightarrow> after_response rq attempt previous response s1)"

fun fetch ::
  "http_client \<Rightarrow> nat \<Rightarrow> api_request \<Rightarrow> nat \<Rightarrow> previous_error option \<Rightarrow> api_state
     \<Rightarrow> ((thrown + http_response) \<times> api_state) option"
where
  "fetch client 0 rq attempt previous s = None"
| "fetch client (Suc fuel) rq attempt previous s =
     (case fetch_once client rq attempt previous s of
        Finished r s' \<Rightarrow> Some (r, s')
      | Retry p s' \<Rightarrow> fetch client fuel rq (attempt + 1) (Some p) s')"

section \<open>JSON and storage requests\<close>

record api_config =
  cfg_baseUrl :: string
  cfg_language :: string
  cfg_version :: string

definition api_headers :: "api_config \<Rightarrow> bool \<Rightarrow> (string \<times> string) list" where
  "api_headers cfg isJson =
     [(''Accept'', ''application/vnd.protonmail.v1+json''), (''Language'', cfg_language cfg),
      (''x-pm-drive-sdk-version'', ''js@'' @ cfg_version cfg)]
     @ (if isJson then [(''Content-Type'', ''application/json'')] else [])"

definition json_request ::
  "api_config \<Rightarrow> string \<Rightarrow> string \<Rightarrow> payload \<Rightarrow> nat option \<Rightarrow> api_request"
where
  "json_request cfg url method data signal =
     \<lparr>rq_url = cfg_baseUrl cfg @ ''/'' @ url, rq_method = method,
      rq_headers = api_headers cfg (case data of FormData f \<Rightarrow> False | _ \<Rightarrow> True),
      rq_json = (case data of JsonData j \<Rightarrow> Some j | _ \<Rightarrow> None),
      rq_form = (case data of FormData f \<Rightarrow> Some f | _ \<Rightarrow> None),
      rq_timeoutMs = 30000, rq_abort_at = signal\<rparr>"

text \<open>The try block around \<open>response.json()\<close>: a translated error, or the parsed result.\<close>

definition read_json_response :: "http_response \<Rightarrow> thrown + api_result" where
  "read_json_response response =
     (case rs_json response of
        Inl error \<Rightarrow>
          if instanceof error ProtonDriveError then Inl error
          else Inl (ThrownError (apiErrorFactory (status_of response) None (Some error)))
      | Inr result \<Rightarrow>
          if \<not> rs_ok response \<or> (case ar_Code result of None \<Rightarrow> True | Some c \<Rightarrow> \<not> isCodeOk c)
          then Inl (ThrownError (apiErrorFactory (status_of response) (Some result) None))
          else Inr result)"

definition makeRequest ::
  "http_client \<Rightarrow> nat \<Rightarrow> api_config \<Rightarrow> string \<Rightarrow> string \<Rightarrow> payload \<Rightarrow> nat option \<Rightarrow> api_state
     \<Rightarrow> ((thrown + api_result) \<times> api_state) option"
where
  "makeRequest client fuel cfg url method data signal s =
     map_option (\<lambda>(r, s'). (try_bind r read_json_response, s'))
       (fetch client fuel (json_request cfg url method data signal) 0 None s)"

definition storage_request ::
  "api_config \<Rightarrow> string \<Rightarrow> string \<Rightarrow> string \<Rightarrow> string option \<Rightarrow> nat option \<Rightarrow> api_request"
where
  "storage_request cfg method url token body signal =
     \<lparr>rq_url = url, rq_method = method,
      rq_headers = [(''pm-storage-token'', token), (''Language'', cfg_language cfg),
                    (''x-pm-drive-sdk-version'', ''js@'' @ cfg_version cfg)],
      rq_json = None, rq_form = body, rq_timeoutMs = 600000, rq_abort_at = signal\<rparr>"

definition check_storage_response :: "http_response \<Rightarrow> thrown + http_response" where
  "check_storage_response response =
     (if rs_status response \<ge> 400 then
        (case rs_json response of
           Inr result \<Rightarrow> Inl (ThrownError (apiErrorFactory (status_of response) (Some result) None))
         | Inl error \<Rightarrow>
             if instanceof error ProtonDriveError then Inl error
             else Inl (ThrownError (apiErrorFactory (status_of response) None (Some error))))
      else Inr response)"

definition makeStorageRequest ::
  "http_client \<Rightarrow> nat \<Rightarrow> api_config \<Rightarrow> string \<Rightarrow> string \<Rightarrow> string \<Rightarrow> string option \<Rightarrow> nat option
     \<Rightarrow> api_state \<Rightarrow> ((thrown + http_response) \<times> api_state) option"
where
  "makeStorageRequest client fuel cfg method url token body signal s =
     map_option (\<lambda>(r, s'). (try_bind r check_storage_response, s'))
       (fetch client fuel (storage_request cfg method url token body signal) 0 None s)"

definition getBlockStream ::
  "http_client \<Rightarrow> nat \<Rightarrow> api_config \<Rightarrow> string \<Rightarrow> string \<Rightarrow> nat option
     \<Rightarrow> api_state \<Rightarrow> ((thrown + string) \<times> api_state) option"
where
  "getBlockStream client fuel cfg baseUrl token signal s =
     map_option (\<lambda>(r, s'). (try_bind r (\<lambda>response.
          case rs_body response of
            None \<Rightarrow> Inl (throw_new JsError ''File download failed due to empty response'')
          | Some b \<Rightarrow> Inr b), s'))
       (makeStorageRequest client fuel cfg ''GET'' baseUrl token None signal s)"

definition postBlockStream ::
  "http_client \<Rightarrow> nat \<Rightarrow> api_config \<Rightarrow> string \<Rightarrow> string \<Rightarrow> string \<Rightarrow> nat option
     \<Rightarrow> api_state \<Rightarrow> ((thrown + unit) \<times> api_state) option"
where
  "postBlockStream client fuel cfg baseUrl token data signal s =
     map_option (\<lambda>(r, s'). (try_bind r (\<lambda>response. Inr ()), s'))
       (makeStorageRequest client fuel cfg ''POST'' baseUrl token (Some data) signal s)"

section \<open>Facts about the small operations\<close>

lemma note_effect_sel [simp]:
  "tooManyRequestsCounter (note_effect e s) = tooManyRequestsCounter s"
  "lastTooManyRequestsErrorAt (note_effect e s) = lastTooManyRequestsErrorAt s"
  "serverErrorsCounter (note_effect e s) = serverErrorsCounter s"
  "lastServerErrorAt (note_effect e s) = lastServerErrorAt s"
  "offlineErrorsCounter (note_effect e s) = offlineErrorsCounter s"
  "api_now (note_effect e s) = api_now s"
  "api_calls (note_effect e s) = api_calls s"
  "api_trace (note_effect e s) = api_trace s @ [e]"
  by (simp_all add: note_effect_def)

lemmas api_ops = waitSeconds_def tooManyRequestsErrorHappened_def
  clearSubsequentTooManyRequestsError_def serverErrorHappened_def clearSubsequentServerErrors_def
  offlineErrorHappened_def clearSubsequentOfflineErrors_def note_retry_helped_def Let_def

lemma api_calls_ops [simp]:
  "api_calls (waitSeconds secs s) = api_calls s"
  "api_calls (tooManyRequestsErrorHappened s) = api_calls s"
  "api_calls (clearSubsequentTooManyRequestsError s) = api_calls s"
  "api_calls (serverErrorHappened s) = api_calls s"
  "api_calls (clearSubsequentServerErrors s) = api_calls s"
  "api_calls (offlineErrorHappened s) = api_calls s"
  "api_calls (clearSubsequentOfflineErrors s) = api_calls s"
  "api_calls (note_retry_helped a u p s) = api_calls s"
  by (simp_all add: api_ops)

lemma server_counter_ops [simp]:
  "serverErrorsCounter (waitSeconds secs s) = serverErrorsCounter s"
  "serverErrorsCounter (tooManyRequestsErrorHappened s) = serverErrorsCounter s"
  "serverErrorsCounter (clearSubsequentTooManyRequestsError s) = serverErrorsCounter s"
  "serverErrorsCounter (serverErrorHappened s) = serverErrorsCounter s + 1"
  "serverErrorsCounter (clearSubsequentServerErrors s) = 0"
  "serverErrorsCounter (offlineErrorHappened s) = serverErrorsCounter s"
  "serverErrorsCounter (clearSubsequentOfflineErrors s) = serverErrorsCounter s"
  "serverErrorsCounter (note_retry_helped a u p s) = serverErrorsCounter s"
  by (simp_all add: api_ops)

lemma tooMany_counter_ops [simp]:
  "tooManyRequestsCounter (waitSeconds secs s) = tooManyRequestsCounter s"
  "tooManyRequestsCounter (tooManyRequestsErrorHappened s) = tooManyRequestsCounter s + 1"
  "tooManyRequestsCounter (clearSubsequentTooManyRequestsError s) = 0"
  "tooManyRequestsCounter (serverErrorHappened s) = tooManyRequestsCounter s"
  "tooManyRequestsCounter (clearSubsequentServerErrors s) = tooManyRequestsCounter s"
  "tooManyRequestsCounter (offlineErrorHappened s) = tooManyRequestsCounter s"
  "tooManyRequestsCounter (clearSubsequentOfflineErrors s) = tooManyRequestsCounter s"
  "tooManyRequestsCounter (note_retry_helped a u p s) = tooManyRequestsCounter s"
  by (simp_all add: api_ops)

lemma plan_later_attempt:
  "2 \<le> attempt \<Longrightarrow> plan_after_throw attempt error = RetryOffline \<or> (\<exists>e. plan_after_throw attempt error = GiveUp e)"
  by (auto simp: plan_after_throw_def Let_def api_consts)

lemma plan_offline_iff:
  "plan_after_throw attempt error = RetryOffline \<longleftrightarrow>
     (\<exists>e. error = ThrownError e \<and> err_name e = ''OfflineError'')"
  by (auto simp: plan_after_throw_def Let_def split: thrown.splits)

section \<open>What fetch returns\<close>

lemma fetch_once_calls:
  "fetch_once client rq attempt previous s = Finished r s' \<Longrightarrow>
     api_calls s \<le> api_calls s' \<and> api_calls s' \<le> api_calls s + 1"
  "fetch_once client rq attempt previous s = Retry p s' \<Longrightarrow> api_calls s' = api_calls s + 1"
  by (auto simp: fetch_once_def after_throw_def after_response_def Let_def
        split: if_splits prod.splits http_outcome.splits retry_plan.splits)

lemma fetch_uses_fuel_calls:
  "fetch client fuel rq attempt previous s = Some (r, s') \<Longrightarrow>
     api_calls s \<le> api_calls s' \<and> api_calls s' \<le> api_calls s + fuel"
proof (induction fuel arbitrary: attempt previous s)
  case (Suc fuel)
  then show ?case
    by (fastforce split: fetch_next.splits dest: fetch_once_calls)
qed simp

lemma fetch_more_fuel:
  "fetch client fuel rq attempt previous s = Some x \<Longrightarrow>
     fetch client (fuel + k) rq attempt previous s = Some x"
  by (induction fuel arbitrary: attempt previous s) (auto split: fetch_next.splits)

text \<open>A response that is handed back: never a 429, and a 5xx only from a second attempt on.\<close>

lemma fetch_once_Inr:
  assumes "fetch_once client rq attempt previous s = Finished (Inr response) s'"
  shows "snd (client (api_calls s)) = Responded response \<and> api_calls s' = api_calls s + 1
       \<and> rs_status response \<noteq> 429 \<and> tooManyRequestsCounter s' = 0
       \<and> (if 500 \<le> rs_status response then 0 < attempt else serverErrorsCounter s' = 0)"
  using assms
  by (auto simp: fetch_once_def after_throw_def after_response_def Let_def api_consts
        split: if_splits prod.splits http_outcome.splits retry_plan.splits)

lemma fetch_Inr:
  assumes "fetch client fuel rq attempt previous s = Some (Inr response, s')"
  shows "snd (client (api_calls s' - 1)) = Responded response \<and> api_calls s < api_calls s'
       \<and> rs_status response \<noteq> 429 \<and> tooManyRequestsCounter s' = 0
       \<and> (if 500 \<le> rs_status response then api_calls s + 1 < api_calls s' + attempt
          else serverErrorsCounter s' = 0)"
  using assms
proof (induction fuel arbitrary: attempt previous s)
  case (Suc fuel)
  show ?case
  proof (cases "fetch_once client rq attempt previous s")
    case (Finished r t)
    with Suc.prems show ?thesis by (auto dest!: fetch_once_Inr split: if_splits)
  next
    case (Retry p t)
    with Suc.prems have "fetch client fuel rq (attempt + 1) (Some p) t = Some (Inr response, s')"
      by simp
    from Suc.IH [OF this] fetch_once_calls(2) [OF Retry] show ?thesis
      by (auto split: if_splits)
  qed
qed simp

section \<open>When fetch stops\<close>

text \<open>
  A client that is never offline, and whose 429 responses ask for a wait below the cool-down
  period, cannot keep a request retrying.
\<close>

definition settling_client :: "http_client \<Rightarrow> bool" where
  "settling_client client \<longleftrightarrow>
     (\<forall>n. case snd (client n) of
            Rejected error \<Rightarrow> \<not> (\<exists>e. error = ThrownError e \<and> err_name e = ''OfflineError'')
          | Responded r \<Rightarrow> rs_status r = 429 \<longrightarrow> retry_timeout r < 60)"

lemma settling_throw:
  "settling_client client \<Longrightarrow> client n = (l, Rejected error) \<Longrightarrow>
     plan_after_throw attempt error \<noteq> RetryOffline"
  unfolding settling_client_def by (drule spec [of _ n]) (auto simp: plan_offline_iff)

lemma settling_429:
  "settling_client client \<Longrightarrow> client n = (l, Responded r) \<Longrightarrow> rs_status r = 429 \<Longrightarrow> retry_timeout r < 60"
  unfolding settling_client_def by (drule spec [of _ n]) auto

text \<open>After the fiftieth 429 in a row and a short wait, the service refuses to go on.\<close>

lemma limit_after_wait:
  assumes "49 \<le> tooManyRequestsCounter s" and "secs < 60"
  shows "hasReachedTooManyRequestsErrorLimit (waitSeconds secs (tooManyRequestsErrorHappened s))"
proof -
  have "nat (secs * 1000) < 60000"
    using assms(2) by linarith
  with assms(1) show ?thesis
    by (simp add: hasReachedTooManyRequestsErrorLimit_def milliseconds_since_def api_ops api_consts)
qed

lemma fetch_limited:
  "hasReachedTooManyRequestsErrorLimit s \<Longrightarrow> \<exists>r s'. fetch client (Suc fuel) rq attempt previous s = Some (r, s')"
  by (auto simp: fetch_once_def)

text \<open>From the third attempt on, only a 429 is retried.\<close>

lemma fetch_once_late_Retry:
  assumes "settling_client client" and "2 \<le> attempt"
    and "fetch_once client rq attempt previous s = Retry p s'"
  shows "tooManyRequestsCounter s' = tooManyRequestsCounter s + 1
       \<and> (50 \<le> tooManyRequestsCounter s' \<longrightarrow> hasReachedTooManyRequestsErrorLimit s')"
proof -
  obtain latency outcome where client: "client (api_calls s) = (latency, outcome)"
    by fastforce
  show ?thesis
  proof (cases outcome)
    case (Rejected error)
    with assms client plan_later_attempt [OF assms(2), of error]
      settling_throw [OF assms(1), of "api_calls s" latency error attempt]
    show ?thesis by (auto simp: fetch_once_def after_throw_def split: if_splits)
  next
    case (Responded r)
    with assms client have status: "rs_status r = 429"
      by (auto simp: fetch_once_def after_response_def Let_def api_consts split: if_splits)
    with assms client Responded settling_429 [OF assms(1), of "api_calls s" latency r]
    show ?thesis
      by (auto simp: fetch_once_def after_response_def Let_def HTTP_TOO_MANY_REQUESTS_def
            split: if_splits intro!: limit_after_wait)
  qed
qed

lemma fetch_stops_late:
  "settling_client client \<Longrightarrow> 2 \<le> attempt \<Longrightarrow> (50 - tooManyRequestsCounter s) + 2 \<le> fuel \<Longrightarrow>
     \<exists>r s'. fetch client fuel rq attempt previous s = Some (r, s')"
proof (induction fuel arbitrary: attempt previous s)
  case (Suc fuel)
  show ?case
  proof (cases "fetch_once client rq attempt previous s")
    case (Retry p t)
    note late = fetch_once_late_Retry [OF Suc.prems(1,2) Retry]
    show ?thesis
    proof (cases "50 \<le> tooManyRequestsCounter t")
      case True
      with late have "hasReachedTooManyRequestsErrorLimit t" by blast
      moreover obtain k where "fuel = Suc k"
        using Suc.prems(3) by (cases fuel) auto
      ultimately show ?thesis
        using Retry fetch_limited by (simp del: fetch.simps(2)) (simp add: Retry fetch_limited)
    next
      case False
      with late Suc.prems have "(50 - tooManyRequestsCounter t) + 2 \<le> fuel" by linarith
      with Suc.prems Retry show ?thesis by (auto intro!: Suc.IH)
    qed
  qed auto
qed simp

lemma fetch_stops_step:
  "(\<And>p t. \<exists>r s'. fetch client fuel rq (attempt + 1) (Some p) t = Some (r, s')) \<Longrightarrow>
     \<exists>r s'. fetch client (Suc fuel) rq attempt previous s = Some (r, s')"
  by (simp split: fetch_next.split)

lemma fetch_stops:
  assumes "settling_client client" and "54 \<le> fuel"
  shows "\<exists>r s'. fetch client fuel rq 0 previous s = Some (r, s')"
proof -
  obtain k where k: "fuel = Suc (Suc k)" and "52 \<le> k"
    using assms(2) by (cases fuel; cases "fuel - 1") auto
  then have "\<exists>r s'. fetch client k rq (0 + 1 + 1) (Some p) t = Some (r, s')" for p t
    using assms(1) by (intro fetch_stops_late) auto
  then show ?thesis
    unfolding k by (intro fetch_stops_step)
qed

text \<open>
  C38: a request to a client that is never offline and whose 429 responses ask for less than the
  cool-down of 60 seconds always ends, after at most 54 calls.
\<close>

theorem fetch_terminates:
  assumes "settling_client client" and "54 \<le> fuel"
  shows "\<exists>r s'. fetch client fuel rq 0 None s = Some (r, s') \<and> api_calls s' \<le> api_calls s + 54"
proof -
  from fetch_stops [OF assms(1) order_refl] obtain r s'
    where "fetch client 54 rq 0 None s = Some (r, s')" by blast
  moreover from this have "api_calls s' \<le> api_calls s + 54"
    using fetch_uses_fuel_calls by blast
  moreover obtain k where "fuel = 54 + k"
    using assms(2) nat_le_iff_add by blast
  ultimately show ?thesis
    using fetch_more_fuel by metis
qed

definition error_response :: "int \<Rightarrow> string option \<Rightarrow> http_response" where
  "error_response status retry_after =
     \<lparr>rs_status = status, rs_statusText = [], rs_retry_after = retry_after,
      rs_json = Inl (ThrownValue []), rs_body = None\<rparr>"

definition fresh_api_state :: "nat \<Rightarrow> api_state" where
  "fresh_api_state now =
     \<lparr>tooManyRequestsCounter = 0, lastTooManyRequestsErrorAt = None, serverErrorsCounter = 0,
      lastServerErrorAt = None, offlineErrorsCounter = 0, api_now = now, api_calls = 0, api_trace = []\<rparr>"

definition volumes_request :: api_request where
  "volumes_request =
     json_request \<lparr>cfg_baseUrl = ''https://drive-api.proton.me'', cfg_language = ''en'', cfg_version = ''1''\<rparr>
       ''drive/volumes'' ''GET'' NoData None"

theorem fetch_terminates_witness:
  "\<exists>r s'. fetch (\<lambda>n. (5, Responded (error_response 429 (Some ''30'')))) 60 volumes_request 0 None
            (fresh_api_state 1000) = Some (r, s')
        \<and> api_calls s' \<le> api_calls (fresh_api_state 1000) + 54"
proof (rule fetch_terminates)
  show "settling_client (\<lambda>n. (5, Responded (error_response 429 (Some ''30''))))"
    by (simp add: settling_client_def error_response_def retry_timeout_def present_def js_parseInt_def
        is_digit_def)
qed simp

section \<open>When fetch does not stop\<close>

definition impatient_client :: "http_client \<Rightarrow> bool" where
  "impatient_client client \<longleftrightarrow>
     (\<forall>n. \<exists>l r. client n = (l, Responded r) \<and> rs_status r = 429 \<and> 60 \<le> retry_timeout r)"

definition offline_client :: "http_client \<Rightarrow> bool" where
  "offline_client client \<longleftrightarrow>
     (\<forall>n. \<exists>l e. client n = (l, Rejected (ThrownError e)) \<and> err_name e = ''OfflineError'')"

definition unlimited :: "api_state \<Rightarrow> bool" where
  "unlimited s \<longleftrightarrow> 0 < api_now s \<and> \<not> hasReachedServerErrorLimit s
     \<and> \<not> hasReachedTooManyRequestsErrorLimit s"

lemma limits_later:
  assumes "lastTooManyRequestsErrorAt t = lastTooManyRequestsErrorAt s"
    and "tooManyRequestsCounter t = tooManyRequestsCounter s"
    and "lastServerErrorAt t = lastServerErrorAt s" and "serverErrorsCounter t = serverErrorsCounter s"
    and "api_now s \<le> api_now t" and "unlimited s"
  shows "unlimited t"
  using assms
  by (auto simp: unlimited_def hasReachedServerErrorLimit_def hasReachedTooManyRequestsErrorLimit_def
        milliseconds_since_def split: option.splits if_splits)

lemma unlimited_after_long_wait:
  assumes "unlimited s" and "60 \<le> secs"
  shows "unlimited (waitSeconds secs (tooManyRequestsErrorHappened s))"
proof -
  have "60000 \<le> nat (secs * 1000)" using assms(2) by linarith
  with assms(1) show ?thesis
    by (auto simp: unlimited_def hasReachedServerErrorLimit_def hasReachedTooManyRequestsErrorLimit_def
          milliseconds_since_def api_ops api_consts split: option.splits if_splits)
qed

lemma unlimited_call:
  "unlimited s \<Longrightarrow> unlimited (s\<lparr>api_calls := n, api_now := api_now s + latency\<rparr>)"
  by (rule limits_later [of _ s]) auto

lemma unlimited_clear_offline: "unlimited s \<Longrightarrow> unlimited (clearSubsequentOfflineErrors s)"
  by (rule limits_later [of _ s]) (auto simp: api_ops)

lemma unlimited_offline: "unlimited s \<Longrightarrow> unlimited (waitSeconds secs (offlineErrorHappened s))"
  by (rule limits_later [of _ s]) (auto simp: api_ops)

lemma fetch_once_livelock:
  assumes "impatient_client client \<or> offline_client client" and "rq_abort_at rq = None" and "unlimited s"
  shows "\<exists>p s'. fetch_once client rq attempt previous s = Retry p s' \<and> unlimited s'"
proof -
  let ?s1 = "\<lambda>l. s\<lparr>api_calls := api_calls s + 1, api_now := api_now s + l\<rparr>"
  have go: "\<not> is_aborted rq s" "\<not> hasReachedServerErrorLimit s" "\<not> hasReachedTooManyRequestsErrorLimit s"
    using assms(2,3) by (simp_all add: is_aborted_def unlimited_def)
  from assms(1) show ?thesis
  proof
    assume "impatient_client client"
    then obtain l r where "client (api_calls s) = (l, Responded r)"
      and "rs_status r = 429" "60 \<le> retry_timeout r"
      unfolding impatient_client_def by blast
    with go assms(3) show ?thesis
      by (simp add: fetch_once_def after_response_def Let_def HTTP_TOO_MANY_REQUESTS_def
          unlimited_after_long_wait unlimited_clear_offline unlimited_call)
  next
    assume "offline_client client"
    then obtain l e where "client (api_calls s) = (l, Rejected (ThrownError e))"
      and "err_name e = ''OfflineError''"
      unfolding offline_client_def by blast
    moreover from this(2) have "plan_after_throw attempt (ThrownError e) = RetryOffline"
      by (simp add: plan_offline_iff)
    ultimately show ?thesis
      using go assms(3)
      by (simp add: fetch_once_def after_throw_def Let_def unlimited_offline unlimited_call)
  qed
qed



section \<open>Events alternate\<close>

text \<open>
  What a listener has been told: \<open>Some b\<close> when the events of the trace come in turn, starting
  with the alarm, \<open>b\<close> telling whether the alarm is on; \<open>None\<close> when one is repeated or missing.
\<close>

fun alarm_step :: "sdk_event \<Rightarrow> sdk_event \<Rightarrow> api_effect \<Rightarrow> bool option \<Rightarrow> bool option" where
  "alarm_step on off eff None = None"
| "alarm_step on off eff (Some b) =
     (if eff = Emitted on then (if b then None else Some True)
      else if eff = Emitted off then (if b then Some False else None)
      else Some b)"

definition alarm :: "sdk_event \<Rightarrow> sdk_event \<Rightarrow> api_effect list \<Rightarrow> bool option" where
  "alarm on off tr = fold (alarm_step on off) tr (Some False)"

definition events_inv :: "api_state \<Rightarrow> bool" where
  "events_inv s \<longleftrightarrow>
     alarm RequestsThrottled RequestsUnthrottled (api_trace s)
       = Some (50 \<le> tooManyRequestsCounter s)
     \<and> alarm TransfersPaused TransfersResumed (api_trace s) = Some (10 \<le> offlineErrorsCounter s)"

lemma alarm_Nil [simp]: "alarm on off [] = Some False"
  by (simp add: alarm_def)

lemma alarm_snoc [simp]: "alarm on off (tr @ [e]) = alarm_step on off e (alarm on off tr)"
  by (simp add: alarm_def)

lemma events_inv_ops:
  "events_inv s \<Longrightarrow> events_inv (waitSeconds secs s)"
  "events_inv s \<Longrightarrow> events_inv (tooManyRequestsErrorHappened s)"
  "events_inv s \<Longrightarrow> events_inv (clearSubsequentTooManyRequestsError s)"
  "events_inv s \<Longrightarrow> events_inv (serverErrorHappened s)"
  "events_inv s \<Longrightarrow> events_inv (clearSubsequentServerErrors s)"
  "events_inv s \<Longrightarrow> events_inv (offlineErrorHappened s)"
  "events_inv s \<Longrightarrow> events_inv (clearSubsequentOfflineErrors s)"
  "events_inv s \<Longrightarrow> events_inv (note_retry_helped a u p s)"
  "events_inv s \<Longrightarrow> events_inv (s\<lparr>api_calls := n, api_now := t\<rparr>)"
  by (auto simp: events_inv_def api_ops api_consts)

lemma fetch_once_events_inv:
  "events_inv s \<Longrightarrow> fetch_once client rq attempt previous s = Finished r t \<Longrightarrow> events_inv t"
  "events_inv s \<Longrightarrow> fetch_once client rq attempt previous s = Retry p t \<Longrightarrow> events_inv t"
  by (auto simp: fetch_once_def after_throw_def after_response_def Let_def
        split: if_splits prod.splits http_outcome.splits retry_plan.splits intro!: events_inv_ops)

lemma fetch_events_inv:
  "events_inv s \<Longrightarrow> fetch client fuel rq attempt previous s = Some (r, t) \<Longrightarrow> events_inv t"
proof (induction fuel arbitrary: attempt previous s)
  case (Suc fuel)
  then show ?case
    by (cases "fetch_once client rq attempt previous s") (auto dest: fetch_once_events_inv)
qed simp

text \<open>The states a service can be in between requests.\<close>

inductive api_reachable :: "http_client \<Rightarrow> api_state \<Rightarrow> bool" for client where
  created: "api_reachable client (fresh_api_state now)"
| requested: "api_reachable client s \<Longrightarrow> fetch client fuel rq 0 None s = Some (r, t) \<Longrightarrow>
     api_reachable client t"
| time_passed: "api_reachable client s \<Longrightarrow> api_reachable client (s\<lparr>api_now := api_now s + d\<rparr>)"

lemma reachable_events_inv: "api_reachable client s \<Longrightarrow> events_inv s"
proof (induction rule: api_reachable.induct)
  case (created now)
  show ?case by (simp add: events_inv_def fresh_api_state_def)
next
  case (requested s fuel rq r t)
  then show ?case by (blast intro: fetch_events_inv)
next
  case (time_passed s d)
  then show ?case by (simp add: events_inv_def)
qed

text \<open>
  Over any run of requests, the throttling events come in pairs and in turn (throttled, then
  unthrottled), as do the pause and resume of transfers; the throttling alarm is on exactly while
  fifty or more 429 responses have come in a row, the pause alarm while ten or more offline errors
  have.
\<close>

theorem api_events_alternate:
  assumes "api_reachable client s"
  shows "alarm RequestsThrottled RequestsUnthrottled (api_trace s) = Some (50 \<le> tooManyRequestsCounter s)
       \<and> alarm TransfersPaused TransfersResumed (api_trace s) = Some (10 \<le> offlineErrorsCounter s)"
  using reachable_events_inv [OF assms] by (simp add: events_inv_def)

theorem api_events_alternate_witness:
  "alarm RequestsThrottled RequestsUnthrottled (api_trace (fresh_api_state 7)) =
     Some (50 \<le> tooManyRequestsCounter (fresh_api_state 7))"
  using api_events_alternate [OF api_reachable.created [of "\<lambda>n. (0, Rejected (ThrownValue []))" 7]]
  by blast

section \<open>What a JSON request returns\<close>

text \<open>Errors the HTTP client itself rejected with, which are rethrown as they are.\<close>

definition client_error :: "http_client \<Rightarrow> thrown \<Rightarrow> bool" where
  "client_error client e \<longleftrightarrow> (\<exists>n. snd (client n) = Rejected e)"

lemma plan_GiveUp:
  "plan_after_throw attempt error = GiveUp e \<Longrightarrow> e = throw_new AbortError ''Request aborted'' \<or> e = error"
  by (auto simp: plan_after_throw_def Let_def split: if_splits)

lemma fetch_once_Inl:
  "fetch_once client rq attempt previous s = Finished (Inl e) t \<Longrightarrow>
     instanceof e ProtonDriveError \<or> client_error client e"
  by (auto simp: fetch_once_def after_throw_def after_response_def Let_def subclass_evals client_error_def
        split: if_splits prod.splits http_outcome.splits retry_plan.splits dest!: plan_GiveUp)
    (metis snd_conv)

lemma fetch_Inl:
  "fetch client fuel rq attempt previous s = Some (Inl e, t) \<Longrightarrow>
     instanceof e ProtonDriveError \<or> client_error client e"
proof (induction fuel arbitrary: attempt previous s)
  case (Suc fuel)
  then show ?case
    by (cases "fetch_once client rq attempt previous s") (auto dest: fetch_once_Inl)
qed simp

lemma read_json_Inl:
  "read_json_response response = Inl e \<Longrightarrow> instanceof e ProtonDriveError"
  by (auto simp: read_json_response_def apiErrorFactory_is_ProtonDriveError
        split: sum.splits if_splits)

lemma read_json_Inr:
  "read_json_response response = Inr result \<Longrightarrow>
     rs_ok response \<and> rs_json response = Inr result \<and> (\<exists>c. ar_Code result = Some c \<and> isCodeOk c)"
  by (auto simp: read_json_response_def split: sum.splits if_splits option.splits)

text \<open>
  C24: a JSON request yields a result only from a response the client gave with a 2xx status and
  one of the three success codes in its body; every other outcome is thrown, as an SDK error
  (whatever the body was) or as the very error the HTTP client rejected with.
\<close>

theorem makeRequest_result:
  assumes "makeRequest client fuel cfg url method data signal s = Some (outcome, t)"
  shows "case outcome of
           Inr result \<Rightarrow>
             (\<exists>response. snd (client (api_calls t - 1)) = Responded response \<and> rs_ok response
                \<and> rs_json response = Inr result
                \<and> ar_Code result \<in> {Some 1000, Some 1001, Some 1002})
         | Inl e \<Rightarrow> instanceof e ProtonDriveError \<or> client_error client e"
proof -
  let ?rq = "json_request cfg url method data signal"
  from assms obtain r where fetch: "fetch client fuel ?rq 0 None s = Some (r, t)"
    and outcome: "outcome = try_bind r read_json_response"
    by (auto simp: makeRequest_def)
  show ?thesis
  proof (cases outcome)
    case (Inl e)
    with outcome have "try_bind r read_json_response = Inl e" by simp
    then have "instanceof e ProtonDriveError \<or> client_error client e"
      using fetch by (auto simp: try_bind_Inl_iff dest: read_json_Inl fetch_Inl)
    with Inl show ?thesis by simp
  next
    case (Inr result)
    with outcome have "try_bind r read_json_response = Inr result" by simp
    then obtain response where "r = Inr response" and "read_json_response response = Inr result"
      by (auto simp: try_bind_Inr_iff)
    with fetch Inr show ?thesis
      by (auto simp: isCodeOk_def dest!: fetch_Inr read_json_Inr)
  qed
qed

definition ok_response :: http_response where
  "ok_response =
     \<lparr>rs_status = 200, rs_statusText = ''OK'', rs_retry_after = None,
      rs_json = Inr \<lparr>ar_Code = Some 1000, ar_Error = None, ar_Details = None, ar_Exception = None,
                     ar_message = None, ar_file = None, ar_line = None, ar_trace = None\<rparr>,
      rs_body = None\<rparr>"

definition slow_start_client :: http_client where
  "slow_start_client n =
     (3, if n = 0 then Responded (error_response 503 None) else Responded ok_response)"

definition demo_config :: api_config where
  "demo_config = \<lparr>cfg_baseUrl = ''https://drive-api.proton.me'', cfg_language = ''en'', cfg_version = ''1''\<rparr>"

theorem makeRequest_result_witness:
  "\<exists>result t. makeRequest slow_start_client (Suc (Suc 0)) demo_config ''drive/volumes'' ''GET'' NoData None
       (fresh_api_state 1000) = Some (Inr result, t)
     \<and> api_calls t = 2 \<and> ar_Code result \<in> {Some 1000, Some 1001, Some 1002}"
proof -
  obtain result t where run: "makeRequest slow_start_client (Suc (Suc 0)) demo_config ''drive/volumes'' ''GET'' NoData None
       (fresh_api_state 1000) = Some (Inr result, t)" and "api_calls t = 2"
    by (simp add: makeRequest_def fetch_once_def after_response_def slow_start_client_def
        fresh_api_state_def is_aborted_def json_request_def hasReachedServerErrorLimit_def
        hasReachedTooManyRequestsErrorLimit_def api_ops api_consts error_response_def ok_response_def
        milliseconds_since_def read_json_response_def rs_ok_def isCodeOk_def note_effect_def is_warning_def)
  with makeRequest_result [OF run] show ?thesis by auto
qed

end
