(* ===== verification/Events.thy ===== *)
theory Events
  imports Uids
begin

text \<open>
  The event pipeline of \<^verbatim>\<open>internal/events/\<close>: the translation of API responses
  (\<open>EventsAPIService\<close>), the two event sources (\<open>VolumeEventManager\<close>, \<open>CoreEventManager\<close>), the
  polling \<open>EventManager\<close> and the subscription service of \<^verbatim>\<open>index.ts\<close>.

  The API answers are parameters. An async generator is the list of what it yields and how it
  ends: normally, or with the thrown value. A manager records the deliveries it made to its
  listeners, and the delay of the timer that will start the next poll.
\<close>

section \<open>Events and the API translation\<close>

datatype drive_event_type =
  NodeCreated | NodeUpdated | NodeDeleted | SharedWithMeUpdated | TreeRefresh | TreeRemove | FastForward

text \<open>A field that an event does not carry is \<open>None\<close>; an unknown event type reads as undefined.\<close>

record drive_event =
  ev_type :: "drive_event_type option"
  ev_nodeUid :: "string option"
  ev_parentNodeUid :: "string option"
  ev_isTrashed :: "bool option"
  ev_isShared :: "bool option"
  ev_treeEventScopeId :: string
  ev_eventId :: string

definition bare_event :: "drive_event_type \<Rightarrow> string \<Rightarrow> string \<Rightarrow> drive_event" where
  "bare_event ty scope eventId =
     \<lparr>ev_type = Some ty, ev_nodeUid = None, ev_parentNodeUid = None, ev_isTrashed = None,
      ev_isShared = None, ev_treeEventScopeId = scope, ev_eventId = eventId\<rparr>"

record events_list =
  el_latestEventId :: string
  el_more :: bool
  el_refresh :: bool
  el_events :: "drive_event list"

record raw_volume_event =
  rv_EventType :: nat
  rv_EventID :: string
  rv_LinkID :: string
  rv_ParentLinkID :: "string option"
  rv_IsTrashed :: "bool option"
  rv_IsShared :: "bool option"

record raw_volume_events =
  rve_EventID :: string
  rve_More :: bool
  rve_Refresh :: bool
  rve_Events :: "raw_volume_event list"

record raw_core_event =
  rc_EventID :: string
  rc_More :: int
  rc_Refresh :: int
  rc_DriveShareRefreshAction :: "int option"

definition VOLUME_EVENT_TYPE_MAP :: "nat \<Rightarrow> drive_event_type option" where
  "VOLUME_EVENT_TYPE_MAP n =
     (if n = 0 then Some NodeDeleted else if n = 1 then Some NodeCreated
      else if n = 2 then Some NodeUpdated else if n = 3 then Some NodeUpdated else None)"

definition to_node_event :: "string \<Rightarrow> raw_volume_event \<Rightarrow> drive_event" where
  "to_node_event volumeId event =
     \<lparr>ev_type = VOLUME_EVENT_TYPE_MAP (rv_EventType event),
      ev_nodeUid = Some (makeNodeUid volumeId (rv_LinkID event)),
      ev_parentNodeUid = map_option (makeNodeUid volumeId) (present (rv_ParentLinkID event)),
      ev_isTrashed = rv_IsTrashed event, ev_isShared = rv_IsShared event,
      ev_treeEventScopeId = volumeId, ev_eventId = rv_EventID event\<rparr>"

definition getVolumeEvents :: "string \<Rightarrow> thrown + raw_volume_events \<Rightarrow> thrown + events_list" where
  "getVolumeEvents volumeId response =
     try_bind response (\<lambda>result. Inr
       \<lparr>el_latestEventId = rve_EventID result, el_more = rve_More result,
        el_refresh = rve_Refresh result, el_events = map (to_node_event volumeId) (rve_Events result)\<rparr>)"

definition getDriveEventsFromCoreEvent :: "raw_core_event \<Rightarrow> drive_event list" where
  "getDriveEventsFromCoreEvent result =
     (if rc_Refresh result > 0 \<or> rc_DriveShareRefreshAction result = Some 2
      then [bare_event SharedWithMeUpdated ''core'' (rc_EventID result)] else [])"

definition getCoreEvents :: "thrown + raw_core_event \<Rightarrow> thrown + events_list" where
  "getCoreEvents response =
     try_bind response (\<lambda>result. Inr
       \<lparr>el_latestEventId = rc_EventID result, el_more = (rc_More result = 1),
        el_refresh = (rc_Refresh result > 0), el_events = getDriveEventsFromCoreEvent result\<rparr>)"

section \<open>The event sources\<close>

type_synonym generated = "drive_event list \<times> thrown option"

text \<open>
  \<open>VolumeEventManager.getEvents\<close>: \<open>raw n id\<close> is the answer to the \<open>n\<close>-th request of this
  iteration. The loop has no bound of its own, hence the fuel.
\<close>

fun volume_getEvents ::
  "(nat \<Rightarrow> string \<Rightarrow> thrown + raw_volume_events) \<Rightarrow> nat \<Rightarrow> nat \<Rightarrow> string \<Rightarrow> string \<Rightarrow> generated option"
where
  "volume_getEvents raw 0 n volumeId eventId = None"
| "volume_getEvents raw (Suc fuel) n volumeId eventId =
     (case getVolumeEvents volumeId (raw n eventId) of
        Inl error \<Rightarrow>
          if instanceof error NotFoundAPIError
          then Some ([bare_event TreeRemove volumeId ''none''], Some error)
          else Some ([], Some error)
      | Inr events \<Rightarrow>
          if el_refresh events
          then Some ([bare_event TreeRefresh volumeId (el_latestEventId events)], None)
          else if el_events events = [] \<and> el_latestEventId events \<noteq> eventId
          then Some ([bare_event FastForward volumeId (el_latestEventId events)], None)
          else if el_more events
          then map_option (\<lambda>(es, end). (el_events events @ es, end))
                 (volume_getEvents raw fuel (n + 1) volumeId (el_latestEventId events))
          else Some (el_events events, None))"

definition volume_getLatestEventId :: "thrown + string \<Rightarrow> thrown + string" where
  "volume_getLatestEventId response =
     (case response of
        Inr eventId \<Rightarrow> Inr eventId
      | Inl error \<Rightarrow>
          if instanceof error NotFoundAPIError
          then Inl (throw_new UnsubscribeFromEventsSourceError (getErrorMessage error))
          else Inl error)"

definition core_getEvents :: "(string \<Rightarrow> thrown + raw_core_event) \<Rightarrow> string \<Rightarrow> generated" where
  "core_getEvents raw eventId =
     (case getCoreEvents (raw eventId) of
        Inl error \<Rightarrow> ([], Some error)
      | Inr events \<Rightarrow>
          if el_events events = [] \<and> el_latestEventId events \<noteq> eventId
          then ([bare_event FastForward ''core'' (el_latestEventId events)], None)
          else (el_events events, None))"

section \<open>EventManager\<close>

type_synonym listener = nat

record event_manager =
  em_latestEventId :: "string option"
  em_timer :: "nat option"
  em_listeners :: "listener list"
  em_retryIndex :: nat
  em_interval :: nat
  em_delivered :: "(listener \<times> drive_event) list"

definition new_event_manager :: "nat \<Rightarrow> string option \<Rightarrow> event_manager" where
  "new_event_manager pollingIntervalInSeconds latestEventId =
     \<lparr>em_latestEventId = latestEventId, em_timer = None, em_listeners = [], em_retryIndex = 0,
      em_interval = pollingIntervalInSeconds, em_delivered = []\<rparr>"

definition FIBONACCI_LIST :: "nat list" where
  "FIBONACCI_LIST = [1, 1, 2, 3, 5, 8, 13]"

definition nextPollTimeout :: "event_manager \<Rightarrow> nat" where
  "nextPollTimeout m =
     em_interval m * 1000 * FIBONACCI_LIST ! min (em_retryIndex m) (length FIBONACCI_LIST - 1)"

definition scheduleNextPoll :: "event_manager \<Rightarrow> event_manager" where
  "scheduleNextPoll m = m\<lparr>em_timer := Some (nextPollTimeout m)\<rparr>"

definition em_addListener :: "listener \<Rightarrow> event_manager \<Rightarrow> event_manager" where
  "em_addListener callback m = m\<lparr>em_listeners := em_listeners m @ [callback]\<rparr>"

text \<open>\<open>splice(indexOf(callback), 1)\<close>: an index of -1 counts from the end of the array.\<close>

definition js_splice_indexOf :: "'a \<Rightarrow> 'a list \<Rightarrow> 'a list" where
  "js_splice_indexOf x xs = (if x \<in> set xs then remove1 x xs else butlast xs)"

definition em_dispose :: "listener \<Rightarrow> event_manager \<Rightarrow> event_manager" where
  "em_dispose callback m = m\<lparr>em_listeners := js_splice_indexOf callback (em_listeners m)\<rparr>"

text \<open>
  A listener is foreign code: \<open>fails l event\<close> is what it throws, if anything. The listeners of
  one event are called in order, up to the first that throws.
\<close>

fun notifyListeners ::
  "(listener \<Rightarrow> drive_event \<Rightarrow> thrown option) \<Rightarrow> listener list \<Rightarrow> drive_event
     \<Rightarrow> (listener \<times> drive_event) list \<times> thrown option"
where
  "notifyListeners fails [] event = ([], None)"
| "notifyListeners fails (l # ls) event =
     (case fails l event of
        Some e \<Rightarrow> ([(l, event)], Some e)
      | None \<Rightarrow> let (d, r) = notifyListeners fails ls event in ((l, event) # d, r))"

fun consume_events ::
  "(listener \<Rightarrow> drive_event \<Rightarrow> thrown option) \<Rightarrow> drive_event list \<Rightarrow> event_manager
     \<Rightarrow> event_manager \<times> thrown option"
where
  "consume_events fails [] m = (m, None)"
| "consume_events fails (event # events) m =
     (case notifyListeners fails (em_listeners m) event of
        (d, Some e) \<Rightarrow> (m\<lparr>em_delivered := em_delivered m @ d\<rparr>, Some e)
      | (d, None) \<Rightarrow>
          consume_events fails events
            (m\<lparr>em_delivered := em_delivered m @ d, em_latestEventId := Some (ev_eventId event)\<rparr>))"

text \<open>
  \<open>processEvents\<close>: a listener error ends the round by being rethrown, before a poll is scheduled;
  an error of the source raises the retry index.
\<close>

definition processEvents ::
  "(listener \<Rightarrow> drive_event \<Rightarrow> thrown option) \<Rightarrow> generated \<Rightarrow> event_manager
     \<Rightarrow> event_manager \<times> thrown option"
where
  "processEvents fails gen m =
     (case consume_events fails (fst gen) m of
        (m', Some listenerError) \<Rightarrow> (m'\<lparr>em_retryIndex := 0\<rparr>, Some listenerError)
      | (m', None) \<Rightarrow>
          (case snd gen of
             None \<Rightarrow> (scheduleNextPoll (m'\<lparr>em_retryIndex := 0\<rparr>), None)
           | Some error \<Rightarrow> (scheduleNextPoll (m'\<lparr>em_retryIndex := em_retryIndex m' + 1\<rparr>), None)))"

text \<open>The timer fires: the round that it starts.\<close>

definition poll_volume ::
  "(listener \<Rightarrow> drive_event \<Rightarrow> thrown option) \<Rightarrow> nat \<Rightarrow> string
     \<Rightarrow> (nat \<Rightarrow> string \<Rightarrow> thrown + raw_volume_events) \<Rightarrow> event_manager
     \<Rightarrow> (event_manager \<times> thrown option) option"
where
  "poll_volume fails fuel volumeId raw m =
     (case em_latestEventId m of
        None \<Rightarrow> None
      | Some eventId \<Rightarrow>
          map_option (\<lambda>gen. processEvents fails gen (m\<lparr>em_timer := None\<rparr>))
            (volume_getEvents raw fuel 0 volumeId eventId))"

record event_source =
  es_getLatestEventId :: "thrown + string"
  es_getEvents :: "string \<Rightarrow> generated"

text \<open>The first round of \<open>start\<close> is not awaited; its listener error rejects \<open>processPromise\<close>.\<close>

definition em_start ::
  "(listener \<Rightarrow> drive_event \<Rightarrow> thrown option) \<Rightarrow> event_source \<Rightarrow> event_manager
     \<Rightarrow> (thrown + unit) \<times> event_manager"
where
  "em_start fails source m =
     (case em_latestEventId m of
        None \<Rightarrow>
          (case es_getLatestEventId source of
             Inl e \<Rightarrow> (Inl e, m)
           | Inr eventId \<Rightarrow> (Inr (), scheduleNextPoll (m\<lparr>em_latestEventId := Some eventId\<rparr>)))
      | Some eventId \<Rightarrow> (Inr (), fst (processEvents fails (es_getEvents source eventId) m)))"

definition em_stop :: "event_manager \<Rightarrow> event_manager" where
  "em_stop m = m\<lparr>em_timer := None\<rparr>"

definition em_setPollingInterval :: "nat \<Rightarrow> event_manager \<Rightarrow> event_manager" where
  "em_setPollingInterval secs m = m\<lparr>em_interval := secs\<rparr>"

section \<open>DriveEventsService\<close>

record events_service =
  sv_core :: "event_manager option"
  sv_volumes :: "string \<rightharpoonup> event_manager"
  sv_subscription_metric :: "nat list"

text \<open>What the service is constructed with; \<open>env_provider\<close> is the optional \<open>LatestEventIdProvider\<close>.\<close>

record events_env =
  env_provider :: "(string \<Rightarrow> thrown + string option) option"
  env_isOwnVolume :: "string \<Rightarrow> thrown + bool"
  env_cacheListeners :: "listener list"
  env_coreSource :: event_source
  env_volumeSource :: "string \<Rightarrow> event_source"
  env_fails :: "listener \<Rightarrow> drive_event \<Rightarrow> thrown option"

definition no_provider_error :: thrown where
  "no_provider_error = throw_new JsError ''Cannot subscribe to events without passing a latestEventIdProvider in ProtonDriveClient initialization''"

definition getDefaultVolumePollingInterval :: "bool \<Rightarrow> nat" where
  "getDefaultVolumePollingInterval isOwnVolume = (if isOwnVolume then 30 else 60)"

definition createVolumeEventManager :: "events_env \<Rightarrow> string \<Rightarrow> thrown + event_manager" where
  "createVolumeEventManager env volumeId =
     (case env_provider env of
        None \<Rightarrow> Inl no_provider_error
      | Some provider \<Rightarrow>
          try_bind (env_isOwnVolume env volumeId) (\<lambda>isOwnVolume.
          try_bind (provider volumeId) (\<lambda>latestEventId.
            Inr (fold em_addListener (env_cacheListeners env)
                   (new_event_manager (getDefaultVolumePollingInterval isOwnVolume) latestEventId)))))"

definition createCoreEventManager :: "events_env \<Rightarrow> thrown + event_manager" where
  "createCoreEventManager env =
     (case env_provider env of
        None \<Rightarrow> Inl no_provider_error
      | Some provider \<Rightarrow>
          try_bind (provider ''core'') (\<lambda>latestEventId.
            Inr (fold em_addListener (env_cacheListeners env) (new_event_manager 30 latestEventId))))"

definition subscribeToTreeEvents ::
  "events_env \<Rightarrow> string \<Rightarrow> listener \<Rightarrow> events_service \<Rightarrow> (thrown + unit) \<times> events_service"
where
  "subscribeToTreeEvents env volumeId callback sv =
     (case sv_volumes sv volumeId of
        Some manager \<Rightarrow>
          (Inr (), sv\<lparr>sv_volumes := (sv_volumes sv)(volumeId \<mapsto> em_addListener callback manager)\<rparr>)
      | None \<Rightarrow>
          (case createVolumeEventManager env volumeId of
             Inl e \<Rightarrow> (Inl e, sv)
           | Inr manager \<Rightarrow>
               (let (result, started) =
                      em_start (env_fails env) (env_volumeSource env volumeId) (em_addListener callback manager);
                    sv' = sv\<lparr>sv_volumes := (sv_volumes sv)(volumeId \<mapsto> started)\<rparr>
                in (case result of
                      Inl e \<Rightarrow> (Inl e, sv')
                    | Inr u \<Rightarrow>
                        (Inr (), sv'\<lparr>sv_subscription_metric :=
                           sv_subscription_metric sv' @ [card (dom (sv_volumes sv'))]\<rparr>)))))"

definition subscribeToCoreEvents ::
  "events_env \<Rightarrow> listener \<Rightarrow> events_service \<Rightarrow> (thrown + unit) \<times> events_service"
where
  "subscribeToCoreEvents env callback sv =
     (case sv_core sv of
        Some manager \<Rightarrow> (Inr (), sv\<lparr>sv_core := Some (em_addListener callback manager)\<rparr>)
      | None \<Rightarrow>
          (case createCoreEventManager env of
             Inl e \<Rightarrow> (Inl e, sv)
           | Inr manager \<Rightarrow>
               (let (result, started) =
                      em_start (env_fails env) (env_coreSource env) (em_addListener callback manager)
                in (result, sv\<lparr>sv_core := Some started\<rparr>))))"

text \<open>
  \<open>processCoreEvent\<close> hands each derived event to the cache listeners in order; the first throw
  rejects the call.
\<close>

fun deliver_all ::
  "(listener \<Rightarrow> drive_event \<Rightarrow> thrown option) \<Rightarrow> listener list \<Rightarrow> drive_event list
     \<Rightarrow> (listener \<times> drive_event) list \<times> thrown option"
where
  "deliver_all fails ls [] = ([], None)"
| "deliver_all fails ls (e # es) =
     (case notifyListeners fails ls e of
        (d, Some t) \<Rightarrow> (d, Some t)
      | (d, None) \<Rightarrow> let (d', r) = deliver_all fails ls es in (d @ d', r))"

definition processCoreEvent ::
  "events_env \<Rightarrow> raw_core_event \<Rightarrow> (thrown + drive_event list) \<times> (listener \<times> drive_event) list"
where
  "processCoreEvent env rawEvent =
     (let driveEvents = getDriveEventsFromCoreEvent rawEvent;
          (d, r) = deliver_all (env_fails env) (env_cacheListeners env) driveEvents
      in (case r of None \<Rightarrow> Inr driveEvents | Some t \<Rightarrow> Inl t, d))"

section \<open>Deliveries\<close>

lemma notify_delivers: "(l, e) \<in> set (fst (notifyListeners fails ls event)) \<Longrightarrow> e = event"
  by (induction ls) (auto split: option.splits prod.splits)

lemma notify_no_failure:
  "\<forall>l \<in> set ls. fails l event = None \<Longrightarrow>
     notifyListeners fails ls event = (map (\<lambda>l. (l, event)) ls, None)"
  by (induction ls) auto

lemma consume_listeners [simp]: "em_listeners (fst (consume_events fails es m)) = em_listeners m"
  by (induction es arbitrary: m) (auto split: prod.split option.split)

lemma consume_interval [simp]: "em_interval (fst (consume_events fails es m)) = em_interval m"
  by (induction es arbitrary: m) (auto split: prod.split option.split)

lemma consume_retryIndex [simp]: "em_retryIndex (fst (consume_events fails es m)) = em_retryIndex m"
  by (induction es arbitrary: m) (auto split: prod.split option.split)

lemma consume_timer [simp]: "em_timer (fst (consume_events fails es m)) = em_timer m"
  by (induction es arbitrary: m) (auto split: prod.split option.split)

section \<open>Every source stamps its own scope\<close>

text \<open>The contract of \<open>EventManagerInterface\<close> the subscription service relies on.\<close>

locale scoped_source =
  fixes getEvents :: "string \<Rightarrow> generated" and scope :: string
  assumes events_in_scope: "e \<in> set (fst (getEvents eventId)) \<Longrightarrow> ev_treeEventScopeId e = scope"
begin

lemma consume_in_scope:
  assumes "\<forall>e \<in> set events. ev_treeEventScopeId e = scope"
    and "\<forall>d \<in> set (em_delivered m). ev_treeEventScopeId (snd d) = scope"
  shows "\<forall>d \<in> set (em_delivered (fst (consume_events fails events m))). ev_treeEventScopeId (snd d) = scope"
  using assms
proof (induction events arbitrary: m)
  case (Cons event events)
  obtain d r where notify: "notifyListeners fails (em_listeners m) event = (d, r)"
    by fastforce
  then have d: "\<forall>x \<in> set d. snd x = event"
    using notify_delivers [of _ _ fails "em_listeners m" event] by auto
  show ?case
  proof (cases r)
    case None
    have "\<forall>x \<in> set (em_delivered m @ d). ev_treeEventScopeId (snd x) = scope"
      using Cons.prems d by auto
    with Cons.prems Cons.IH
      [of "m\<lparr>em_delivered := em_delivered m @ d, em_latestEventId := Some (ev_eventId event)\<rparr>"]
    show ?thesis by (simp add: notify None)
  next
    case (Some e)
    then show ?thesis using Cons.prems notify d by auto
  qed
qed simp

lemma process_in_scope:
  assumes "\<forall>d \<in> set (em_delivered m). ev_treeEventScopeId (snd d) = scope"
  shows "\<forall>d \<in> set (em_delivered (fst (processEvents fails (getEvents eventId) m))).
           ev_treeEventScopeId (snd d) = scope"
proof -
  have "\<forall>e \<in> set (fst (getEvents eventId)). ev_treeEventScopeId e = scope"
    using events_in_scope by blast
  from consume_in_scope [OF this assms, of fails] show ?thesis
    by (simp add: processEvents_def scheduleNextPoll_def split: prod.split option.split)
qed

end

lemma volume_events_in_scope:
  "volume_getEvents raw fuel n volumeId eventId = Some gen \<Longrightarrow> e \<in> set (fst gen) \<Longrightarrow>
     ev_treeEventScopeId e = volumeId"
proof (induction raw fuel n volumeId eventId arbitrary: gen rule: volume_getEvents.induct)
  case (2 raw fuel n volumeId eventId)
  show ?case
  proof (cases "raw n eventId")
    case (Inl error)
    with "2.prems" show ?thesis
      by (auto simp: getVolumeEvents_def bare_event_def split: if_splits)
  next
    case (Inr result)
    with "2.prems" "2.IH" show ?thesis
      by (fastforce simp: getVolumeEvents_def bare_event_def to_node_event_def split: if_splits)
  qed
qed simp

interpretation volume_source: scoped_source
  "\<lambda>eventId. case volume_getEvents raw fuel 0 volumeId eventId of None \<Rightarrow> ([], None) | Some gen \<Rightarrow> gen"
  volumeId for raw fuel volumeId
  by unfold_locales (auto split: option.splits dest: volume_events_in_scope)

interpretation core_source: scoped_source "core_getEvents raw" "''core''" for raw
  by unfold_locales (auto simp: core_getEvents_def getCoreEvents_def getDriveEventsFromCoreEvent_def
      bare_event_def try_bind_Inr_iff split: sum.splits if_splits)

section \<open>Polling a volume\<close>

text \<open>The rounds a started manager makes, one API behaviour per round, as long as a timer is set.\<close>

fun run_polls ::
  "(listener \<Rightarrow> drive_event \<Rightarrow> thrown option) \<Rightarrow> nat \<Rightarrow> string
     \<Rightarrow> (nat \<Rightarrow> string \<Rightarrow> thrown + raw_volume_events) list \<Rightarrow> event_manager \<Rightarrow> event_manager option"
where
  "run_polls fails fuel volumeId [] m = Some m"
| "run_polls fails fuel volumeId (raw # raws) m =
     (if em_timer m = None then Some m
      else case poll_volume fails fuel volumeId raw m of
             None \<Rightarrow> None
           | Some (m', r) \<Rightarrow> run_polls fails fuel volumeId raws m')"

definition received :: "listener \<Rightarrow> event_manager \<Rightarrow> drive_event list" where
  "received l m = map snd (filter (\<lambda>d. fst d = l) (em_delivered m))"

definition log_ids :: "string \<Rightarrow> drive_event list \<Rightarrow> string list" where
  "log_ids start log = start # map ev_eventId log"

text \<open>
  What the server promises for an event log: asked for the events after a known identifier, it
  fails in some way other than "not found", or returns a page of the following events, the
  identifier of the last of them, and a \<open>more\<close> flag that is only set on a page with events.
\<close>

definition serves_log ::
  "string \<Rightarrow> drive_event list \<Rightarrow> string \<Rightarrow> (nat \<Rightarrow> string \<Rightarrow> thrown + raw_volume_events) \<Rightarrow> bool"
where
  "serves_log start log volumeId raw \<longleftrightarrow>
     (\<forall>n i. i \<le> length log \<longrightarrow>
        (case getVolumeEvents volumeId (raw n (log_ids start log ! i)) of
           Inl e \<Rightarrow> \<not> instanceof e NotFoundAPIError
         | Inr page \<Rightarrow>
             \<not> el_refresh page
             \<and> (\<exists>k. i + k \<le> length log \<and> el_events page = take k (drop i log)
                  \<and> el_latestEventId page = log_ids start log ! (i + k) \<and> (el_more page \<longrightarrow> 0 < k))))"

lemma serves_logD:
  assumes "serves_log start log volumeId raw" and "i \<le> length log"
  obtains e where "getVolumeEvents volumeId (raw n (log_ids start log ! i)) = Inl e"
      "\<not> instanceof e NotFoundAPIError"
  | page k where "getVolumeEvents volumeId (raw n (log_ids start log ! i)) = Inr page"
      "\<not> el_refresh page" "i + k \<le> length log" "el_events page = take k (drop i log)"
      "el_latestEventId page = log_ids start log ! (i + k)" "el_more page \<longrightarrow> 0 < k"
  using assms(1) [unfolded serves_log_def, rule_format, OF assms(2), of n]
  by (cases "getVolumeEvents volumeId (raw n (log_ids start log ! i))") auto

lemma take_drop_append: "take k (drop i xs) @ take l (drop (i + k) xs) = take (k + l) (drop i xs)"
  by (simp add: take_add add.commute)

lemma served_getEvents:
  "serves_log start log volumeId raw \<Longrightarrow> i \<le> length log \<Longrightarrow> length log - i < fuel \<Longrightarrow>
     \<exists>k end. i + k \<le> length log
       \<and> volume_getEvents raw fuel n volumeId (log_ids start log ! i) = Some (take k (drop i log), end)"
proof (induction fuel arbitrary: i n)
  case (Suc fuel)
  from Suc.prems(1,2) show ?case
  proof (cases rule: serves_logD [where n = n])
    case (1 e)
    then show ?thesis using Suc.prems by (auto intro!: exI [of _ 0])
  next
    case (2 page k)
    have same: "el_latestEventId page = log_ids start log ! i" if "el_events page = []"
    proof -
      from that 2(3,4) have "k = 0" by auto
      with 2(5) show ?thesis by simp
    qed
    show ?thesis
    proof (cases "el_more page")
      case True
      with 2 Suc.prems have "i + k \<le> length log" and "length log - (i + k) < fuel" by auto
      from Suc.IH [OF Suc.prems(1) this, of "n + 1"] obtain l "end"
        where "i + k + l \<le> length log" and "volume_getEvents raw fuel (n + 1) volumeId
          (log_ids start log ! (i + k)) = Some (take l (drop (i + k) log), end)" by blast
      with 2 True same show ?thesis
        by (auto simp: take_drop_append intro!: exI [of _ "k + l"] split: if_splits)
    next
      case False
      with 2 same show ?thesis by (auto intro!: exI [of _ k])
    qed
  qed
qed simp

lemma consume_no_failure:
  assumes "\<forall>l \<in> set (em_listeners m). \<forall>e. fails l e = None"
  shows "consume_events fails events m =
     (m\<lparr>em_delivered := em_delivered m @ concat (map (\<lambda>e. map (\<lambda>l. (l, e)) (em_listeners m)) events),
        em_latestEventId := (if events = [] then em_latestEventId m else Some (ev_eventId (last events)))\<rparr>,
      None)"
  using assms by (induction events arbitrary: m) (auto simp: notify_no_failure)

lemma process_no_failure:
  assumes "\<forall>l \<in> set (em_listeners m). \<forall>e. fails l e = None"
  shows "\<exists>r. processEvents fails (es, end) m =
     (scheduleNextPoll ((fst (consume_events fails es m))\<lparr>em_retryIndex := r\<rparr>), None)"
  using consume_no_failure [OF assms, of es]
  by (cases "end") (auto simp: processEvents_def)

lemma received_block:
  "distinct ls \<Longrightarrow> l \<in> set ls \<Longrightarrow>
     map snd (filter (\<lambda>d. fst d = l) (concat (map (\<lambda>e. map (\<lambda>l. (l, e)) ls) events))) = events"
proof (induction events)
  case (Cons e events)
  have "filter (\<lambda>d. fst d = l) (map (\<lambda>l. (l, e)) ls) = [(l, e)]"
    using Cons.prems by (induction ls) (auto simp: filter_empty_conv)
  with Cons show ?case by simp
qed simp

definition caught_up :: "string \<Rightarrow> drive_event list \<Rightarrow> nat \<Rightarrow> event_manager \<Rightarrow> bool" where
  "caught_up start log i m \<longleftrightarrow>
     i \<le> length log \<and> em_latestEventId m = Some (log_ids start log ! i)
     \<and> (\<forall>l \<in> set (em_listeners m). received l m = take i log) \<and> em_timer m \<noteq> None"

lemma poll_caught_up:
  assumes "serves_log start log volumeId raw" and "caught_up start log i m"
    and "distinct (em_listeners m)" and "\<forall>l \<in> set (em_listeners m). \<forall>e. fails l e = None"
  shows "\<exists>j m'. poll_volume fails (length log + 1) volumeId raw m = Some (m', None)
           \<and> i \<le> j \<and> caught_up start log j m' \<and> em_listeners m' = em_listeners m"
proof -
  have "i \<le> length log" "length log - i < length log + 1"
    using assms(2) by (auto simp: caught_up_def)
  from served_getEvents [OF assms(1) this, of 0]
  obtain k "end" where k: "i + k \<le> length log"
    and gen: "volume_getEvents raw (length log + 1) 0 volumeId (log_ids start log ! i)
              = Some (take k (drop i log), end)"
    by blast
  let ?es = "take k (drop i log)"
  let ?m = "m\<lparr>em_timer := None\<rparr>"
  have last: "?es \<noteq> [] \<Longrightarrow> ev_eventId (last ?es) = log_ids start log ! (i + k)"
    using k by (auto simp: last_conv_nth log_ids_def nth_Cons')
  have none: "log_ids start log ! i = log_ids start log ! (i + k)" if "?es = []"
  proof -
    from that k have "k = 0" by auto
    then show ?thesis by simp
  qed
  have "received l (fst (consume_events fails ?es ?m)) = take (i + k) log" if "l \<in> set (em_listeners m)" for l
    using that assms(2-4)
    by (simp add: consume_no_failure received_def received_block caught_up_def take_add)
  with assms(2,4) last none k
  have "caught_up start log (i + k) (scheduleNextPoll ((fst (consume_events fails ?es ?m))\<lparr>em_retryIndex := r\<rparr>))" for r
    by (auto simp: caught_up_def consume_no_failure scheduleNextPoll_def received_def)
  moreover obtain r where process: "processEvents fails (?es, end) ?m =
      (scheduleNextPoll ((fst (consume_events fails ?es ?m))\<lparr>em_retryIndex := r\<rparr>), None)"
    using process_no_failure [of ?m fails ?es "end"] assms(4) by auto
  moreover have "poll_volume fails (length log + 1) volumeId raw m = Some (processEvents fails (?es, end) ?m)"
    using assms(2) gen
    by (simp add: poll_volume_def caught_up_def del: volume_getEvents.simps)
  moreover have "em_listeners (scheduleNextPoll ((fst (consume_events fails ?es ?m))\<lparr>em_retryIndex := r\<rparr>))
      = em_listeners m"
    by (simp add: scheduleNextPoll_def)
  ultimately show ?thesis
    by (metis le_add1)
qed


definition demo_raw_event :: raw_volume_event where
  "demo_raw_event =
     \<lparr>rv_EventType = 2, rv_EventID = ''e1'', rv_LinkID = ''n'', rv_ParentLinkID = Some ''p'',
      rv_IsTrashed = Some False, rv_IsShared = Some False\<rparr>"

definition demo_raw :: "nat \<Rightarrow> string \<Rightarrow> thrown + raw_volume_events" where
  "demo_raw n eventId =
     (if eventId = ''e0''
      then Inr \<lparr>rve_EventID = ''e1'', rve_More = True, rve_Refresh = False, rve_Events = [demo_raw_event]\<rparr>
      else if n = 1
      then Inl (throw_new ServerError ''try later'')
      else Inr \<lparr>rve_EventID = eventId, rve_More = False, rve_Refresh = False, rve_Events = []\<rparr>)"

definition demo_manager :: event_manager where
  "demo_manager = scheduleNextPoll (em_addListener 7 (new_event_manager 30 (Some ''e0'')))"

lemma demo_serves: "serves_log ''e0'' [to_node_event ''v'' demo_raw_event] ''v'' demo_raw"
proof -
  have ids: "log_ids ''e0'' [to_node_event ''v'' demo_raw_event] = [''e0'', ''e1'']"
    by (simp add: log_ids_def to_node_event_def demo_raw_event_def)
  have two: "i \<le> Suc 0 \<Longrightarrow> i = 0 \<or> i = Suc 0" for i :: nat by arith
  have "\<exists>k. i + k \<le> Suc 0 \<and> [to_node_event ''v'' demo_raw_event] = take k (drop i [to_node_event ''v'' demo_raw_event])
      \<and> ''e1'' = [''e0'', ''e1''] ! (i + k) \<and> 0 < k"
    if "[''e0'', ''e1''] ! i = ''e0''" "i \<le> Suc 0" for i
    using two [OF that(2)] that(1) by (auto intro!: exI [of _ "Suc 0"])
  then show ?thesis
    unfolding serves_log_def ids
    by (auto simp: demo_raw_def getVolumeEvents_def subclass_evals intro!: exI [of _ 0])
qed


section \<open>Backoff, removal, failing listeners\<close>

text \<open>
  Whatever the source did, a round that is not ended by a listener schedules the next poll,
  after between one and thirteen polling intervals: one after a success, and after the
  \<open>k\<close>-th failure in a row the \<open>k\<close>-th Fibonacci entry, capped at the last.
\<close>

theorem poll_backoff_bounds:
  assumes "processEvents fails gen m = (m', None)"
  shows "\<exists>t. em_timer m' = Some t \<and> em_interval m * 1000 \<le> t \<and> t \<le> 13 * (em_interval m * 1000)
       \<and> t = em_interval m * 1000 * [1, 1, 2, 3, 5, 8, 13] !
               min (if snd gen = None then 0 else em_retryIndex m + 1) 6"
proof -
  obtain c where consumed: "consume_events fails (fst gen) m = (c, None)"
    using assms by (auto simp: processEvents_def split: prod.splits option.splits)
  then have c: "em_interval c = em_interval m" "em_retryIndex c = em_retryIndex m"
    using consume_interval [of fails "fst gen" m] consume_retryIndex [of fails "fst gen" m] by simp_all
  obtain k where k: "k = (if snd gen = None then 0 else em_retryIndex m + 1)" by blast
  have last_step: "length FIBONACCI_LIST - Suc 0 = 6"
    by (simp add: FIBONACCI_LIST_def)
  have "em_retryIndex m' = k \<and> em_timer m' = Some (em_interval m * 1000 * FIBONACCI_LIST ! min (em_retryIndex m') 6)"
    using assms consumed c unfolding k
    by (auto simp: processEvents_def scheduleNextPoll_def nextPollTimeout_def last_step split: option.splits)
  then have timer: "em_timer m' = Some (em_interval m * 1000 * FIBONACCI_LIST ! min k 6)"
    by simp
  have "min k 6 \<in> {0, 1, 2, 3, 4, 5, 6}" by auto
  then have "1 \<le> FIBONACCI_LIST ! min k 6 \<and> FIBONACCI_LIST ! min k 6 \<le> 13"
    by (auto simp: FIBONACCI_LIST_def nth_Cons')
  with timer show ?thesis
    unfolding k by (simp add: FIBONACCI_LIST_def)
qed

theorem poll_backoff_bounds_witness:
  "em_timer (fst (processEvents (\<lambda>_ _. None) ([], Some (throw_new ServerError ''down''))
      (demo_manager\<lparr>em_retryIndex := 8\<rparr>))) = Some 390000"
proof -
  let ?m = "demo_manager\<lparr>em_retryIndex := 8\<rparr>"
  let ?r = "processEvents (\<lambda>_ _. None) ([], Some (throw_new ServerError ''down'')) ?m"
  have run: "?r = (fst ?r, None)"
    by (simp add: processEvents_def)
  have "em_interval ?m = 30"
    by (simp add: demo_manager_def new_event_manager_def em_addListener_def scheduleNextPoll_def)
  with poll_backoff_bounds [OF run] show ?thesis
    by simp
qed

text \<open>
  When the volume is gone, the listeners are told once per poll, the removal's identifier
  \<open>none\<close> becomes the point to continue from, and polling goes on.
\<close>

theorem removed_volume_is_polled_again:
  assumes "\<And>n eventId. raw n eventId = Inl error" and "instanceof error NotFoundAPIError"
    and "\<forall>l \<in> set (em_listeners m). \<forall>e. fails l e = None" and "em_latestEventId m = Some eventId"
  shows "\<exists>m'. poll_volume fails (Suc fuel) volumeId raw m = Some (m', None)
       \<and> em_delivered m' = em_delivered m @ map (\<lambda>l. (l, bare_event TreeRemove volumeId ''none'')) (em_listeners m)
       \<and> em_latestEventId m' = Some ''none''
       \<and> em_timer m' \<noteq> None \<and> em_retryIndex m' = em_retryIndex m + 1"
proof -
  have "volume_getEvents raw (Suc fuel) 0 volumeId eventId
      = Some ([bare_event TreeRemove volumeId ''none''], Some error)"
    using assms(1,2) by (simp add: getVolumeEvents_def)
  with assms(3,4) show ?thesis
    by (simp add: poll_volume_def processEvents_def consume_no_failure scheduleNextPoll_def bare_event_def
        del: volume_getEvents.simps)
qed

theorem removed_volume_is_polled_again_witness:
  "\<exists>m'. poll_volume (\<lambda>_ _. None) 1 ''v'' (\<lambda>_ _. Inl (throw_new NotFoundAPIError ''gone'')) demo_manager = Some (m', None)
      \<and> em_timer m' \<noteq> None \<and> em_latestEventId m' = Some ''none''"
proof -
  have "em_latestEventId demo_manager = Some ''e0''"
    by (simp add: demo_manager_def em_addListener_def new_event_manager_def scheduleNextPoll_def)
  then show ?thesis
    using removed_volume_is_polled_again [of "\<lambda>_ _. Inl (throw_new NotFoundAPIError ''gone'')"
        "throw_new NotFoundAPIError ''gone''" demo_manager "\<lambda>_ _. None" "''e0''" 0 "''v''"]
    by auto
qed

text \<open>
  An event on which a listener throws is not recorded as processed, and no further poll is
  scheduled: the manager resumes, if restarted, at the last event all listeners accepted.
\<close>

theorem failing_listener_stops_polling:
  assumes "\<forall>e \<in> set before. \<forall>l \<in> set (em_listeners m). fails l e = None"
    and "l \<in> set (em_listeners m)" and "fails l event \<noteq> None" and "em_timer m = None"
  shows "\<exists>m' t. processEvents fails (before @ event # after, end) m = (m', Some t) \<and> em_timer m' = None
       \<and> em_latestEventId m' = (if before = [] then em_latestEventId m else Some (ev_eventId (last before)))"
proof -
  have throws: "\<exists>d t. notifyListeners fails ls event = (d, Some t)" if "l \<in> set ls" for ls
    using that assms(3) by (induction ls) (auto split: option.split prod.splits)
  have "\<exists>c t. consume_events fails (before @ event # after) m = (c, Some t) \<and> em_timer c = em_timer m
          \<and> em_latestEventId c = (if before = [] then em_latestEventId m else Some (ev_eventId (last before)))"
    if "\<forall>e \<in> set before. \<forall>l \<in> set (em_listeners m). fails l e = None" "l \<in> set (em_listeners m)" for m
    using that
  proof (induction before arbitrary: m)
    case Nil
    then show ?case using throws [of "em_listeners m"] by auto
  next
    case (Cons e before)
    let ?m = "m\<lparr>em_delivered := em_delivered m @ map (\<lambda>l. (l, e)) (em_listeners m),
                 em_latestEventId := Some (ev_eventId e)\<rparr>"
    have "consume_events fails ((e # before) @ event # after) m = consume_events fails (before @ event # after) ?m"
      using Cons.prems(1) by (simp add: notify_no_failure)
    with Cons.IH [of ?m] Cons.prems show ?case by auto
  qed
  from this [OF assms(1,2)] assms(4) show ?thesis
    by (auto simp: processEvents_def)
qed

theorem failing_listener_stops_polling_witness:
  "\<exists>m' t. processEvents (\<lambda>l e. if ev_eventId e = ''b'' then Some (ThrownValue ''boom'') else None)
       ([bare_event FastForward ''v'' ''a''] @ bare_event FastForward ''v'' ''b'' # [], None)
       (demo_manager\<lparr>em_timer := None\<rparr>) = (m', Some t)
     \<and> em_timer m' = None \<and> em_latestEventId m' = Some ''a''"
proof -
  let ?fails = "\<lambda>(l :: listener) e. if ev_eventId e = ''b'' then Some (ThrownValue ''boom'') else None"
  have "em_listeners (demo_manager\<lparr>em_timer := None\<rparr>) = [7]"
    by (simp add: demo_manager_def em_addListener_def new_event_manager_def scheduleNextPoll_def)
  then show ?thesis
    using failing_listener_stops_polling
      [of "[bare_event FastForward ''v'' ''a'']" "demo_manager\<lparr>em_timer := None\<rparr>" ?fails 7
          "bare_event FastForward ''v'' ''b''" "[]" None]
    by (simp add: bare_event_def)
qed

section \<open>Subscriptions\<close>

text \<open>
  Disposing a subscription a second time removes the listener that was added last, whoever
  it belongs to.
\<close>

theorem second_dispose_removes_another_listener:
  assumes "callback \<notin> set ls" and "em_listeners m = ls @ [callback]"
  shows "em_listeners (em_dispose callback m) = ls
       \<and> em_listeners (em_dispose callback (em_dispose callback m)) = butlast ls"
  using assms by (simp add: em_dispose_def js_splice_indexOf_def remove1_append)

theorem second_dispose_removes_another_listener_witness:
  "em_listeners (em_dispose 2 (em_dispose 2 (em_addListener 2 (em_addListener 1 (new_event_manager 30 None))))) = []"
  using second_dispose_removes_another_listener
    [of 2 "[1]" "em_addListener 2 (em_addListener 1 (new_event_manager 30 None))"]
  by (simp add: em_addListener_def new_event_manager_def)

text \<open>
  When starting the manager of a volume fails, the manager stays registered; a later
  subscription then reports success, but no poll is scheduled for it and no event reaches it.
\<close>

theorem failed_start_leaves_dead_subscription:
  assumes "sv_volumes sv volumeId = None" and "createVolumeEventManager env volumeId = Inr manager"
    and "em_latestEventId manager = None" and "em_timer manager = None"
    and "es_getLatestEventId (env_volumeSource env volumeId) = Inl e"
    and "subscribeToTreeEvents env volumeId callback sv = (r1, sv1)"
    and "subscribeToTreeEvents env volumeId callback' sv1 = (r2, sv2)"
  shows "r1 = Inl e \<and> r2 = Inr ()
       \<and> (\<exists>dead. sv_volumes sv2 volumeId = Some dead \<and> em_timer dead = None
            \<and> em_latestEventId dead = None \<and> em_delivered dead = em_delivered manager)"
  using assms
  by (auto simp: subscribeToTreeEvents_def em_start_def em_addListener_def)

definition demo_env :: events_env where
  "demo_env =
     \<lparr>env_provider = Some (\<lambda>_. Inr None), env_isOwnVolume = (\<lambda>_. Inr True), env_cacheListeners = [1],
      env_coreSource = \<lparr>es_getLatestEventId = Inr ''c'', es_getEvents = (\<lambda>_. ([], None))\<rparr>,
      env_volumeSource = (\<lambda>_. \<lparr>es_getLatestEventId = Inl (throw_new ServerError ''down''),
                                es_getEvents = (\<lambda>_. ([], None))\<rparr>),
      env_fails = (\<lambda>_ _. None)\<rparr>"

definition empty_service :: events_service where
  "empty_service = \<lparr>sv_core = None, sv_volumes = Map.empty, sv_subscription_metric = []\<rparr>"

theorem failed_start_leaves_dead_subscription_witness:
  "fst (subscribeToTreeEvents demo_env ''v'' 3 (snd (subscribeToTreeEvents demo_env ''v'' 2 empty_service))) = Inr ()"
proof -
  obtain r1 sv1 where first: "subscribeToTreeEvents demo_env ''v'' 2 empty_service = (r1, sv1)"
    by fastforce
  obtain r2 sv2 where second: "subscribeToTreeEvents demo_env ''v'' 3 sv1 = (r2, sv2)"
    by fastforce
  have "createVolumeEventManager demo_env ''v'' = Inr (em_addListener 1 (new_event_manager 30 None))"
    by (simp add: createVolumeEventManager_def demo_env_def getDefaultVolumePollingInterval_def)
  from failed_start_leaves_dead_subscription [OF _ this _ _ _ first second]
  have "r2 = Inr ()"
    by (simp add: empty_service_def em_addListener_def new_event_manager_def demo_env_def)
  then show ?thesis by (simp add: first second)
qed

end
