(* ===== verification/Iterators.thy ===== *)
theory Iterators
  imports Errors "HOL-Library.Multiset" "HOL-Library.Word"
begin

text \<open>
  The helpers every listing of the SDK is built from: \<^verbatim>\<open>internal/batch.ts\<close>, \<open>BatchLoading\<close> of
  \<^verbatim>\<open>internal/batchLoading.ts\<close>, the concurrent map of \<^verbatim>\<open>internal/asyncIteratorMap.ts\<close>, the
  race of \<^verbatim>\<open>internal/asyncIteratorRace.ts\<close> and \<open>mergeUint8Arrays\<close> of \<^verbatim>\<open>internal/utils.ts\<close>.

  The two concurrent helpers are step relations: a task may settle, and an iterator may answer,
  at any moment the generator awaits, so a property of all reachable states holds for every
  interleaving.
\<close>

section \<open>Batches\<close>

function batches_from :: "'a list \<Rightarrow> nat \<Rightarrow> nat \<Rightarrow> 'a list list" where
  "batches_from items batchSize i =
     (if 0 < batchSize \<and> i < length items
      then take batchSize (drop i items) # batches_from items batchSize (i + batchSize)
      else [])"
  by pat_completeness auto
termination
  by (relation "measure (\<lambda>(items, batchSize, i). length items - i)") auto

declare batches_from.simps [simp del]

definition batch :: "'a list \<Rightarrow> int \<Rightarrow> thrown + 'a list list" where
  "batch items batchSize =
     (if batchSize \<le> 0 then Inl (throw_new JsError ''Batch size must be greater than 0'')
      else Inr (batches_from items (nat batchSize) 0))"

lemma concat_batches_from: "0 < n \<Longrightarrow> concat (batches_from items n i) = drop i items"
proof (induction items n i rule: batches_from.induct)
  case (1 items n i)
  then show ?case
    using append_take_drop_id [of n "drop i items"]
    by (subst batches_from.simps) (auto simp: add.commute)
qed

lemma batches_from_bounds:
  "b \<in> set (batches_from items n i) \<Longrightarrow> b \<noteq> [] \<and> length b \<le> n"
proof (induction items n i rule: batches_from.induct)
  case (1 items n i)
  then show ?case
    by (subst (asm) batches_from.simps) (auto split: if_splits)
qed

lemma batches_from_full:
  "j + 1 < length (batches_from items n i) \<Longrightarrow> length (batches_from items n i ! j) = n"
proof (induction items n i arbitrary: j rule: batches_from.induct)
  case (1 items n i)
  show ?case
  proof (cases "0 < n \<and> i < length items")
    case True
    then have unfold: "batches_from items n i = take n (drop i items) # batches_from items n (i + n)"
      by (subst batches_from.simps) simp
    show ?thesis
    proof (cases j)
      case 0
      with 1(2) unfold have "batches_from items n (i + n) \<noteq> []" by auto
      then have "i + n < length items"
        by (subst (asm) batches_from.simps) (auto split: if_splits)
      with 0 show ?thesis by (simp add: unfold)
    next
      case (Suc k)
      with 1 True unfold show ?thesis by simp
    qed
  next
    case False
    with 1(2) show ?thesis by (subst (asm) batches_from.simps) simp
  qed
qed

section \<open>BatchLoading\<close>

text \<open>
  \<open>iterateItems\<close> of a list of identifiers is what it yields, the error it then throws, if any, and
  the state it leaves, or \<open>None\<close> when it does not end. An abort is thrown on; any other error is
  kept until \<open>loadRest\<close>.
\<close>

record 'id batch_loading =
  bl_batchSize :: nat
  bl_itemsToFetch :: "'id list"
  bl_errors :: "thrown list"

definition DEFAULT_BATCH_LOADING :: nat where
  "DEFAULT_BATCH_LOADING = 10"

definition batch_size_option :: "nat option \<Rightarrow> nat" where
  "batch_size_option batchSize =
     (case batchSize of Some n \<Rightarrow> if n = 0 then DEFAULT_BATCH_LOADING else n
                      | None \<Rightarrow> DEFAULT_BATCH_LOADING)"

definition new_batch_loading :: "nat option \<Rightarrow> 'id batch_loading" where
  "new_batch_loading batchSize =
     \<lparr>bl_batchSize = batch_size_option batchSize, bl_itemsToFetch = [], bl_errors = []\<rparr>"

type_synonym ('s, 'id, 'item) item_source = "'id list \<Rightarrow> 's \<Rightarrow> ('item list \<times> thrown option \<times> 's) option"

definition iterateItemsWithErrorHandling ::
  "('s, 'id, 'item) item_source \<Rightarrow> 'id list \<Rightarrow> 'id batch_loading \<Rightarrow> 's
     \<Rightarrow> ('item list \<times> thrown option \<times> 'id batch_loading \<times> 's) option"
where
  "iterateItemsWithErrorHandling iterateItems items b s =
     (case iterateItems items s of
        None \<Rightarrow> None
      | Some (yielded, None, s') \<Rightarrow> Some (yielded, None, b, s')
      | Some (yielded, Some error, s') \<Rightarrow>
          if instanceof error AbortError then Some (yielded, Some error, b, s')
          else Some (yielded, None, b\<lparr>bl_errors := bl_errors b @ [error]\<rparr>, s'))"

definition flush_batch ::
  "('s, 'id, 'item) item_source \<Rightarrow> 'id batch_loading \<Rightarrow> 's
     \<Rightarrow> ('item list \<times> thrown option \<times> 'id batch_loading \<times> 's) option"
where
  "flush_batch iterateItems b s =
     (case iterateItemsWithErrorHandling iterateItems (bl_itemsToFetch b) b s of
        None \<Rightarrow> None
      | Some (yielded, Some error, b', s') \<Rightarrow> Some (yielded, Some error, b', s')
      | Some (yielded, None, b', s') \<Rightarrow> Some (yielded, None, b'\<lparr>bl_itemsToFetch := []\<rparr>, s'))"

definition load ::
  "('s, 'id, 'item) item_source \<Rightarrow> 'id \<Rightarrow> 'id batch_loading \<Rightarrow> 's
     \<Rightarrow> ('item list \<times> thrown option \<times> 'id batch_loading \<times> 's) option"
where
  "load iterateItems nodeUid b s =
     (let b = b\<lparr>bl_itemsToFetch := bl_itemsToFetch b @ [nodeUid]\<rparr> in
      if bl_batchSize b \<le> length (bl_itemsToFetch b) then flush_batch iterateItems b s
      else Some ([], None, b, s))"

text \<open>
  How \<open>loadRest\<close> ends: the collected errors are the \<open>cause\<close> of the
  \<open>ProtonDriveError\<close> "Failed to load some items".
\<close>

datatype load_end = LoadedAll | LoadAborted thrown | FailedToLoadSomeItems "thrown list"

definition loadRest ::
  "('s, 'id, 'item) item_source \<Rightarrow> 'id batch_loading \<Rightarrow> 's
     \<Rightarrow> ('item list \<times> load_end \<times> 'id batch_loading \<times> 's) option"
where
  "loadRest iterateItems b s =
     (case (if 0 < length (bl_itemsToFetch b) then flush_batch iterateItems b s else Some ([], None, b, s)) of
        None \<Rightarrow> None
      | Some (yielded, Some error, b', s') \<Rightarrow> Some (yielded, LoadAborted error, b', s')
      | Some (yielded, None, b', s') \<Rightarrow>
          Some (yielded, if 0 < length (bl_errors b') then FailedToLoadSomeItems (bl_errors b') else LoadedAll,
                b', s'))"

text \<open>The loop of the class comment: \<open>load\<close> for every identifier, then \<open>loadRest\<close>.\<close>

fun load_all ::
  "('s, 'id, 'item) item_source \<Rightarrow> 'id list \<Rightarrow> 'id batch_loading \<Rightarrow> 's
     \<Rightarrow> ('item list \<times> load_end \<times> 'id batch_loading \<times> 's) option"
where
  "load_all iterateItems [] b s = loadRest iterateItems b s"
| "load_all iterateItems (nodeUid # rest) b s =
     (case load iterateItems nodeUid b s of
        None \<Rightarrow> None
      | Some (yielded, Some error, b', s') \<Rightarrow> Some (yielded, LoadAborted error, b', s')
      | Some (yielded, None, b', s') \<Rightarrow>
          map_option (\<lambda>(later, result, b'', s''). (yielded @ later, result, b'', s''))
            (load_all iterateItems rest b' s'))"

lemmas load_defs = load_def flush_batch_def iterateItemsWithErrorHandling_def

definition never_aborts :: "('s, 'id, 'item) item_source \<Rightarrow> bool" where
  "never_aborts src \<longleftrightarrow> (\<forall>ids s y e s'. src ids s = Some (y, Some e, s') \<longrightarrow> \<not> instanceof e AbortError)"

definition error_list :: "thrown option \<Rightarrow> thrown list" where
  "error_list e = (case e of None \<Rightarrow> [] | Some e \<Rightarrow> [e])"

text \<open>The source asked for one batch after the other: all it yields and all it throws.\<close>

fun ask_batches :: "('s, 'id, 'item) item_source \<Rightarrow> 'id list list \<Rightarrow> 's \<Rightarrow> ('item list \<times> thrown list \<times> 's) option" where
  "ask_batches src [] s = Some ([], [], s)"
| "ask_batches src (q # bs) s =
     (case src q s of
        None \<Rightarrow> None
      | Some (yielded, e, s') \<Rightarrow>
          map_option (\<lambda>(later, es, s''). (yielded @ later, error_list e @ es, s'')) (ask_batches src bs s'))"

lemma flush_never_aborts:
  "never_aborts src \<Longrightarrow> flush_batch src b s =
     map_option (\<lambda>(y, e, s'). (y, None, b\<lparr>bl_itemsToFetch := [], bl_errors := bl_errors b @ error_list e\<rparr>, s'))
       (src (bl_itemsToFetch b) s)"
proof (cases "src (bl_itemsToFetch b) s")
  case (Some r)
  assume na: "never_aborts src"
  obtain y e s' where r: "src (bl_itemsToFetch b) s = Some (y, e, s')" using Some by (cases r) auto
  with na have "\<not> instanceof t AbortError" if "e = Some t" for t
    using that unfolding never_aborts_def by blast
  then show ?thesis
    using r by (cases e) (auto simp: flush_batch_def iterateItemsWithErrorHandling_def error_list_def)
qed (simp add: flush_batch_def iterateItemsWithErrorHandling_def)

lemma batches_from_Nil [simp]: "batches_from [] n i = []"
  by (subst batches_from.simps) simp

lemma batches_from_shift:
  "length q = n \<Longrightarrow> 0 < n \<Longrightarrow> batches_from (q @ ids) n (n + i) = batches_from ids n i"
proof (induction ids n i rule: batches_from.induct)
  case (1 ids n i)
  then show ?case
    by (subst (1 2) batches_from.simps) (auto simp: add.assoc)
qed

lemma batches_from_append:
  "length q = n \<Longrightarrow> 0 < n \<Longrightarrow> batches_from (q @ ids) n 0 = q # batches_from ids n 0"
  using batches_from_shift [of q n ids 0] by (subst batches_from.simps) auto

lemma batches_from_short:
  "q \<noteq> [] \<Longrightarrow> length q \<le> n \<Longrightarrow> batches_from q n 0 = [q]"
  using batches_from_append [of q n "[]"]
  by (cases "length q = n") (subst batches_from.simps, subst batches_from.simps, auto)+

definition load_result :: "thrown list \<Rightarrow> load_end" where
  "load_result es = (if es = [] then LoadedAll else FailedToLoadSomeItems es)"

lemma load_all_batches:
  assumes "never_aborts src"
  shows "length (bl_itemsToFetch b) < bl_batchSize b \<Longrightarrow>
     map_option (\<lambda>(y, r, b', s'). (y, r, s')) (load_all src ids b s) =
     map_option (\<lambda>(y, es, s'). (y, load_result (bl_errors b @ es), s'))
       (ask_batches src (batches_from (bl_itemsToFetch b @ ids) (bl_batchSize b) 0) s)"
proof (induction ids arbitrary: b s)
  case Nil
  then show ?case
    using flush_never_aborts [OF assms, of b s] batches_from_short [of "bl_itemsToFetch b" "bl_batchSize b"]
    by (cases "bl_itemsToFetch b = []"; cases "src (bl_itemsToFetch b) s")
      (auto simp: loadRest_def load_result_def)
next
  case (Cons i ids)
  let ?b = "b\<lparr>bl_itemsToFetch := bl_itemsToFetch b @ [i]\<rparr>"
  show ?case
  proof (cases "bl_batchSize b \<le> length (bl_itemsToFetch ?b)")
    case True
    let ?q = "bl_itemsToFetch b @ [i]"
    from True Cons.prems have q: "length ?q = bl_batchSize b" "0 < bl_batchSize b" by simp_all
    have bs: "batches_from (bl_itemsToFetch b @ i # ids) (bl_batchSize b) 0 = ?q # batches_from ids (bl_batchSize b) 0"
      using batches_from_append [OF q, of ids] by simp
    have flush: "load src i b s =
        map_option (\<lambda>(y, e, s'). (y, None, ?b\<lparr>bl_itemsToFetch := [], bl_errors := bl_errors b @ error_list e\<rparr>, s')) (src ?q s)"
      using True flush_never_aborts [OF assms, of ?b s] by (simp add: load_def)
    show ?thesis
    proof (cases "src ?q s")
      case None
      with flush bs show ?thesis by simp
    next
      case (Some r)
      then obtain y e s' where r: "src ?q s = Some (y, e, s')" by (cases r) auto
      let ?b' = "?b\<lparr>bl_itemsToFetch := [], bl_errors := bl_errors b @ error_list e\<rparr>"
      have IH: "map_option (\<lambda>(y, r, b', s'). (y, r, s')) (load_all src ids ?b' s') =
          map_option (\<lambda>(y, es, s'). (y, load_result (bl_errors b @ error_list e @ es), s'))
            (ask_batches src (batches_from ids (bl_batchSize b) 0) s')"
        using Cons.IH [of ?b' s'] q(2) by simp
      have "map_option (\<lambda>(y, r, b', s'). (y, r, s')) (load_all src (i # ids) b s) =
          map_option (\<lambda>(z, r, s'). (y @ z, r, s')) (map_option (\<lambda>(y, r, b', s'). (y, r, s')) (load_all src ids ?b' s'))"
        using flush r by (simp add: option.map_comp comp_def case_prod_unfold)
      also have "\<dots> = map_option (\<lambda>(y, es, s'). (y, load_result (bl_errors b @ es), s'))
          (ask_batches src (?q # batches_from ids (bl_batchSize b) 0) s)"
        unfolding IH using r by (simp add: option.map_comp comp_def case_prod_unfold)
      finally show ?thesis unfolding bs .
    qed
  next
    case False
    then have "load src i b s = Some ([], None, ?b, s)" by (simp add: load_def)
    with Cons.IH [of ?b s] False show ?thesis
      by (simp add: option.map_comp comp_def case_prod_unfold)
  qed
qed

text \<open>
  Feeding identifiers one by one and then asking for the rest yields what the source yields
  on consecutive batches of the identifiers, each full but the last and none skipped or asked
  twice; a failing batch does not stop the later ones, and the run ends with the collected
  errors exactly when some batch failed.
\<close>

theorem batch_loading_asks_each_once:
  assumes "\<forall>ids s y e s'. src ids s = Some (y, Some e, s') \<longrightarrow> \<not> instanceof e AbortError"
    and "load_all src ids (new_batch_loading batchSize) s = Some (yielded, result, b, s')"
  shows "\<exists>bs es. concat bs = ids \<and> (\<forall>q \<in> set bs. q \<noteq> [] \<and> length q \<le> batch_size_option batchSize)
       \<and> (\<forall>j. j + 1 < length bs \<longrightarrow> length (bs ! j) = batch_size_option batchSize)
       \<and> ask_batches src bs s = Some (yielded, es, s')
       \<and> result = (if es = [] then LoadedAll else FailedToLoadSomeItems es)"
proof -
  let ?b = "new_batch_loading batchSize :: 'a batch_loading"
  let ?bs = "batches_from ids (batch_size_option batchSize) 0"
  have n: "0 < batch_size_option batchSize"
    by (simp add: batch_size_option_def DEFAULT_BATCH_LOADING_def split: option.split)
  have start: "bl_itemsToFetch ?b = []" "bl_errors ?b = []" "bl_batchSize ?b = batch_size_option batchSize"
    by (simp_all add: new_batch_loading_def)
  have src: "never_aborts src"
    using assms(1) unfolding never_aborts_def by blast
  obtain es where "ask_batches src ?bs s = Some (yielded, es, s')" "result = load_result es"
    using load_all_batches [OF src, of ?b ids s] assms(2) start n
    by (cases "ask_batches src ?bs s") auto
  moreover have "concat ?bs = ids"
    using concat_batches_from [OF n, of ids 0] by simp
  moreover have "\<forall>q \<in> set ?bs. q \<noteq> [] \<and> length q \<le> batch_size_option batchSize"
    using batches_from_bounds by blast
  moreover have "\<forall>j. j + 1 < length ?bs \<longrightarrow> length (?bs ! j) = batch_size_option batchSize"
    using batches_from_full by blast
  ultimately show ?thesis
    unfolding load_result_def by (intro exI [of _ ?bs] exI [of _ es] conjI)
qed

text \<open>A source that logs the batches it is asked for and fails on those with a 3.\<close>

definition demo_source :: "(nat list list, nat, nat) item_source" where
  "demo_source ids s =
     Some (if 3 \<in> set ids then ([], Some (throw_new ServerError ''down''), s @ [ids]) else (ids, None, s @ [ids]))"

theorem batch_loading_asks_each_once_witness:
  "\<exists>b. load_all demo_source [1, 2, 3, 4, 5] (new_batch_loading (Some 2)) [] =
       Some ([1, 2, 5], FailedToLoadSomeItems [throw_new ServerError ''down''], b, [[1, 2], [3, 4], [5]])
     \<and> (\<exists>bs es. concat bs = [1, 2, 3, 4, 5 :: nat] \<and> ask_batches demo_source bs [] = Some ([1, 2, 5], es, [[1, 2], [3, 4], [5]]))"
proof -
  obtain b where run: "load_all demo_source [1, 2, 3, 4, 5] (new_batch_loading (Some 2)) [] =
       Some ([1, 2, 5], FailedToLoadSomeItems [throw_new ServerError ''down''], b, [[1, 2], [3, 4], [5]])"
    by (simp add: new_batch_loading_def batch_size_option_def load_defs loadRest_def demo_source_def subclass_evals)
  have ok: "\<forall>ids s y e s'. demo_source ids s = Some (y, Some e, s') \<longrightarrow> \<not> instanceof e AbortError"
    by (simp add: demo_source_def subclass_evals)
  from batch_loading_asks_each_once [OF ok run] run show ?thesis by blast
qed

section \<open>asyncIteratorMap\<close>

text \<open>
  \<open>input\<close> is what the input iterator still gives and \<open>input_fails\<close> what it throws after that.
  \<open>executing\<close> lists the items whose mapper has not settled. A settled task leaves
  \<open>executing\<close> and adds its result in one step. The phases are the places where the generator
  awaits: the head of the outer loop, the pump loop, and the wait for one task.
\<close>

datatype map_phase = MapTop | MapPumping | MapWaiting | MapFinished | MapThrew thrown | MapAborted

record ('i, 'o) map_state =
  am_input :: "'i list"
  am_input_fails :: "thrown option"
  am_done :: bool
  am_executing :: "'i list"
  am_results :: "(thrown + 'o) list"
  am_yielded :: "'o list"
  am_signalled :: bool
  am_phase :: map_phase

definition am_init :: "'i list \<Rightarrow> thrown option \<Rightarrow> ('i, 'o) map_state" where
  "am_init items fails =
     \<lparr>am_input = items, am_input_fails = fails, am_done = False, am_executing = [], am_results = [],
      am_yielded = [], am_signalled = False, am_phase = MapTop\<rparr>"

definition am_continues :: "('i, 'o) map_state \<Rightarrow> bool" where
  "am_continues s \<longleftrightarrow> \<not> am_done s \<or> am_executing s \<noteq> [] \<or> am_results s \<noteq> []"

definition am_pumped :: "nat \<Rightarrow> ('i, 'o) map_state \<Rightarrow> bool" where
  "am_pumped concurrency s \<longleftrightarrow> am_done s \<or> concurrency \<le> length (am_executing s)"

text \<open>\<open>pump\<close>: take the next item and start its mapper, or note the end or the failure.\<close>

definition am_pump :: "('i, 'o) map_state \<Rightarrow> ('i, 'o) map_state" where
  "am_pump s =
     (case am_input s of
        item # items \<Rightarrow> s\<lparr>am_input := items, am_executing := am_executing s @ [item]\<rparr>
      | [] \<Rightarrow>
          (case am_input_fails s of
             Some error \<Rightarrow> s\<lparr>am_input_fails := None, am_results := am_results s @ [Inl error]\<rparr>
           | None \<Rightarrow> s\<lparr>am_done := True\<rparr>))"

text \<open>After the pump loop: yield or throw the first result, or wait for one.\<close>

definition am_deliver :: "('i, 'o) map_state \<Rightarrow> ('i, 'o) map_state" where
  "am_deliver s =
     (case am_results s of
        Inr v # rs \<Rightarrow> s\<lparr>am_results := rs, am_yielded := am_yielded s @ [v], am_phase := MapTop\<rparr>
      | Inl e # rs \<Rightarrow> s\<lparr>am_results := rs, am_phase := MapThrew e\<rparr>
      | [] \<Rightarrow> s\<lparr>am_phase := (if am_executing s \<noteq> [] then MapWaiting else MapTop)\<rparr>)"

inductive am_step ::
  "('i \<Rightarrow> thrown + 'o) \<Rightarrow> nat \<Rightarrow> ('i, 'o) map_state \<Rightarrow> ('i, 'o) map_state \<Rightarrow> bool"
  for mapper :: "'i \<Rightarrow> thrown + 'o" and concurrency :: nat
where
  finish: "am_phase s = MapTop \<Longrightarrow> \<not> am_continues s \<Longrightarrow>
     am_step mapper concurrency s (s\<lparr>am_phase := MapFinished\<rparr>)"
| enter: "am_phase s = MapTop \<Longrightarrow> am_continues s \<Longrightarrow>
     am_step mapper concurrency s
       (s\<lparr>am_phase := (if am_signalled s then MapAborted else MapPumping)\<rparr>)"
| pump: "am_phase s = MapPumping \<Longrightarrow> \<not> am_pumped concurrency s \<Longrightarrow>
     am_step mapper concurrency s (am_pump s)"
| deliver: "am_phase s = MapPumping \<Longrightarrow> am_pumped concurrency s \<Longrightarrow>
     am_step mapper concurrency s (am_deliver s)"
| wake: "am_phase s = MapWaiting \<Longrightarrow> am_results s \<noteq> [] \<Longrightarrow>
     am_step mapper concurrency s (s\<lparr>am_phase := MapTop\<rparr>)"
| settle: "am_phase s \<in> {MapTop, MapPumping, MapWaiting} \<Longrightarrow> am_executing s = before @ item # after \<Longrightarrow>
     am_step mapper concurrency s
       (s\<lparr>am_executing := before @ after, am_results := am_results s @ [mapper item]\<rparr>)"
| signal: "am_phase s \<in> {MapTop, MapPumping, MapWaiting} \<Longrightarrow> \<not> am_signalled s \<Longrightarrow>
     am_step mapper concurrency s (s\<lparr>am_signalled := True\<rparr>)"

definition am_ended :: "('i, 'o) map_state \<Rightarrow> bool" where
  "am_ended s \<longleftrightarrow> am_phase s \<notin> {MapTop, MapPumping, MapWaiting}"

text \<open>Everything the source and the mapper give, and where it is at a moment of the run.\<close>

definition am_expected :: "('i \<Rightarrow> thrown + 'o) \<Rightarrow> 'i list \<Rightarrow> thrown option \<Rightarrow> (thrown + 'o) multiset" where
  "am_expected mapper items fails =
     image_mset mapper (mset items) + (case fails of None \<Rightarrow> {#} | Some e \<Rightarrow> {#Inl e#})"

definition am_account :: "('i \<Rightarrow> thrown + 'o) \<Rightarrow> ('i, 'o) map_state \<Rightarrow> (thrown + 'o) multiset" where
  "am_account mapper s =
     image_mset Inr (mset (am_yielded s)) + mset (am_results s)
     + image_mset mapper (mset (am_executing s)) + am_expected mapper (am_input s) (am_input_fails s)
     + (case am_phase s of MapThrew e \<Rightarrow> {#Inl e#} | _ \<Rightarrow> {#})"

definition am_struct :: "nat \<Rightarrow> ('i, 'o) map_state \<Rightarrow> bool" where
  "am_struct concurrency s \<longleftrightarrow>
     length (am_executing s) \<le> concurrency
     \<and> (am_done s \<longrightarrow> am_input s = [] \<and> am_input_fails s = None)
     \<and> (am_phase s = MapFinished \<longrightarrow> am_done s \<and> am_executing s = [] \<and> am_results s = [])
     \<and> (am_phase s = MapWaiting \<longrightarrow> am_executing s \<noteq> [] \<or> am_results s \<noteq> [])"

definition am_inv ::
  "('i \<Rightarrow> thrown + 'o) \<Rightarrow> nat \<Rightarrow> 'i list \<Rightarrow> thrown option \<Rightarrow> ('i, 'o) map_state \<Rightarrow> bool"
where
  "am_inv mapper concurrency items fails s \<longleftrightarrow>
     am_account mapper s = am_expected mapper items fails \<and> am_struct concurrency s"

lemma am_inv_init: "am_inv mapper c items fails (am_init items fails)"
  by (simp add: am_inv_def am_struct_def am_init_def am_account_def)

lemma am_account_pump: "am_phase s = MapPumping \<Longrightarrow> am_account mapper (am_pump s) = am_account mapper s"
  by (auto simp: am_account_def am_expected_def am_pump_def split: list.split option.split)

lemma am_account_deliver: "am_phase s = MapPumping \<Longrightarrow> am_account mapper (am_deliver s) = am_account mapper s"
  by (auto simp: am_account_def am_deliver_def add_mset_commute split: list.split sum.split)

lemma am_account_phase:
  "am_phase s \<in> {MapTop, MapPumping, MapWaiting} \<Longrightarrow> p \<in> {MapTop, MapPumping, MapWaiting, MapFinished, MapAborted} \<Longrightarrow>
     am_account mapper (s\<lparr>am_phase := p\<rparr>) = am_account mapper s"
  by (auto simp: am_account_def am_expected_def)

lemma am_account_settle:
  "am_executing s = before @ item # after \<Longrightarrow>
     am_account mapper (s\<lparr>am_executing := before @ after, am_results := am_results s @ [mapper item]\<rparr>)
       = am_account mapper s"
  by (auto simp: am_account_def am_expected_def split: map_phase.split)

lemma am_account_signal: "am_account mapper (s\<lparr>am_signalled := b\<rparr>) = am_account mapper s"
  by (simp add: am_account_def)

lemma am_account_step: "am_step mapper c s s' \<Longrightarrow> am_account mapper s' = am_account mapper s"
  by (induction rule: am_step.induct)
    (simp_all add: am_account_pump am_account_deliver am_account_settle am_account_phase am_account_signal)

lemma am_struct_step:
  "am_step mapper c s s' \<Longrightarrow> am_struct c s \<Longrightarrow> am_struct c s'"
  by (induction rule: am_step.induct)
    (auto simp: am_struct_def am_pump_def am_deliver_def am_continues_def am_pumped_def
        split: list.split sum.split option.splits)

lemma am_inv_step:
  "am_step mapper c s s' \<Longrightarrow> am_inv mapper c items fails s \<Longrightarrow> am_inv mapper c items fails s'"
  by (simp add: am_inv_def am_account_step am_struct_step)

lemma am_inv_reach:
  "(am_step mapper c)\<^sup>*\<^sup>* s s' \<Longrightarrow> am_inv mapper c items fails s \<Longrightarrow> am_inv mapper c items fails s'"
  by (induction rule: rtranclp_induct) (auto intro: am_inv_step)

text \<open>
  Progress: a state that has not ended has a step, and every step makes \<open>am_measure\<close> smaller.
\<close>

definition am_measure :: "('i, 'o) map_state \<Rightarrow> nat" where
  "am_measure s =
     14 * length (am_input s) + (if am_input_fails s = None then 0 else 14) + (if am_done s then 0 else 14)
     + 10 * length (am_executing s) + 5 * length (am_results s) + (if am_signalled s then 0 else 1)
     + (case am_phase s of
          MapTop \<Rightarrow> 2
        | MapPumping \<Rightarrow> (if am_continues s then 1 else 3)
        | MapWaiting \<Rightarrow> (if am_results s = [] then 0 else 3)
        | _ \<Rightarrow> 0)"

lemma am_measure_pump:
  "am_phase s = MapPumping \<Longrightarrow> \<not> am_pumped c s \<Longrightarrow> am_measure (am_pump s) < am_measure s"
  by (cases "am_input s"; cases "am_input_fails s")
    (auto simp: am_measure_def am_pump_def am_continues_def am_pumped_def)

lemma am_measure_deliver:
  assumes "am_phase s = MapPumping" "am_pumped c s" "0 < c"
  shows "am_measure (am_deliver s) < am_measure s"
proof (cases "am_results s")
  case Nil
  then show ?thesis
    using assms by (auto simp: am_measure_def am_deliver_def am_continues_def am_pumped_def)
next
  case (Cons r rs)
  then show ?thesis
    using assms by (cases r) (auto simp: am_measure_def am_deliver_def am_continues_def)
qed

lemma am_measure_settle:
  "am_phase s \<in> {MapTop, MapPumping, MapWaiting} \<Longrightarrow> am_executing s = before @ item # after \<Longrightarrow>
     am_measure (s\<lparr>am_executing := before @ after, am_results := am_results s @ [r]\<rparr>) < am_measure s"
  by (auto simp: am_measure_def am_continues_def)

lemma am_step_decreases:
  "am_step mapper c s s' \<Longrightarrow> 0 < c \<Longrightarrow> am_measure s' < am_measure s"
proof (induction rule: am_step.induct)
  case (settle s before item after)
  then show ?case by (intro am_measure_settle)
qed (auto simp: am_measure_pump am_measure_deliver, auto simp: am_measure_def am_continues_def)

lemma am_progress:
  assumes "\<not> am_ended s" and "am_struct c s"
  shows "\<exists>s'. am_step mapper c s s'"
proof -
  consider "am_phase s = MapTop" | "am_phase s = MapPumping" | "am_phase s = MapWaiting"
    using assms(1) by (auto simp: am_ended_def)
  then show ?thesis
  proof cases
    case 3
    with assms(2) consider "am_results s \<noteq> []" | item rest where "am_executing s = [] @ item # rest"
      by (cases "am_executing s") (auto simp: am_struct_def)
    then show ?thesis
    proof cases
      case 1
      with 3 show ?thesis using am_step.wake [of s mapper c] by blast
    next
      case 2
      with 3 show ?thesis using am_step.settle [of s "[]" item rest mapper c] by auto
    qed
  next
    case 1
    then show ?thesis using am_step.finish [of s mapper c] am_step.enter [of s mapper c] by blast
  next
    case 2
    then show ?thesis using am_step.pump [of s c mapper] am_step.deliver [of s c mapper] by blast
  qed
qed

lemma am_run_bound:
  "(am_step mapper c ^^ n) s s' \<Longrightarrow> 0 < c \<Longrightarrow> n + am_measure s' \<le> am_measure s"
proof (induction n arbitrary: s')
  case (Suc n)
  then obtain t where "(am_step mapper c ^^ n) s t" "am_step mapper c t s'" by auto
  with Suc am_step_decreases [of mapper c t s'] show ?case by fastforce
qed simp

lemma subseteq_mset_notin: "A \<subseteq># add_mset x B \<Longrightarrow> x \<notin># A \<Longrightarrow> A \<subseteq># B"
  by (simp flip: Diff_eq_empty_iff_mset)

text \<open>
  C8: under every interleaving at most \<open>concurrency\<close> mappers run at a time; a run that finishes has
  yielded the image of every item exactly once, in some order, and no mapper failed; a run that
  throws throws the input's error or that of some item's mapper; and what was yielded before an
  error or an abort are images of distinct positions of the input.
\<close>

theorem async_map_outputs:
  assumes "(am_step mapper concurrency)\<^sup>*\<^sup>* (am_init items fails) s"
  shows "length (am_executing s) \<le> concurrency
       \<and> image_mset Inr (mset (am_yielded s)) \<subseteq># image_mset mapper (mset items)
       \<and> (am_phase s = MapFinished \<longrightarrow>
            fails = None \<and> image_mset Inr (mset (am_yielded s)) = image_mset mapper (mset items))
       \<and> (\<forall>e. am_phase s = MapThrew e \<longrightarrow> fails = Some e \<or> Inl e \<in> mapper ` set items)"
proof -
  have inv: "am_account mapper s = am_expected mapper items fails" "am_struct concurrency s"
    using am_inv_reach [OF assms am_inv_init] by (simp_all add: am_inv_def)
  have no_Inl: "Inl e \<notin># image_mset Inr M" for e :: thrown and M :: "'b multiset"
    by auto
  have sub: "image_mset Inr (mset (am_yielded s)) \<subseteq># am_expected mapper items fails"
    unfolding inv(1) [symmetric] am_account_def
    by (simp add: add.assoc)
  then have "image_mset Inr (mset (am_yielded s)) \<subseteq># image_mset mapper (mset items)"
    using no_Inl subseteq_mset_notin
    by (fastforce simp: am_expected_def split: option.splits)
  moreover have "fails = None \<and> image_mset Inr (mset (am_yielded s)) = image_mset mapper (mset items)"
    if "am_phase s = MapFinished"
  proof -
    have eq: "image_mset Inr (mset (am_yielded s)) = am_expected mapper items fails"
      using that inv by (simp add: am_account_def am_struct_def am_expected_def [of mapper "[]"])
    have "fails = None"
    proof (cases fails)
      case (Some e)
      with eq have "Inl e \<in># image_mset Inr (mset (am_yielded s))"
        by (simp add: am_expected_def)
      then show ?thesis by auto
    qed
    with eq show ?thesis by (simp add: am_expected_def)
  qed
  moreover have "fails = Some e \<or> Inl e \<in> mapper ` set items" if "am_phase s = MapThrew e" for e
  proof -
    have "Inl e \<in># am_expected mapper items fails"
      unfolding inv(1) [symmetric] by (simp add: am_account_def that)
    then show ?thesis by (auto simp: am_expected_def split: option.splits)
  qed
  ultimately show ?thesis using inv(2) by (simp add: am_struct_def)
qed

definition demo_mapper :: "nat \<Rightarrow> thrown + nat" where
  "demo_mapper n = (if n = 0 then Inl (throw_new ValidationError ''zero'') else Inr (10 * n))"

theorem async_map_outputs_witness:
  "\<exists>s. (am_step demo_mapper 1)\<^sup>*\<^sup>* (am_init [7] None) s \<and> am_phase s = MapFinished
      \<and> image_mset Inr (mset (am_yielded s)) = {#Inr 70#}"
proof -
  let ?s0 = "am_init [7] None :: (nat, nat) map_state"
  let ?s1 = "?s0\<lparr>am_phase := MapPumping\<rparr>"
  let ?s2 = "?s1\<lparr>am_input := [], am_executing := [7]\<rparr>"
  let ?s3 = "?s2\<lparr>am_executing := [], am_results := [Inr 70]\<rparr>"
  let ?s4 = "?s3\<lparr>am_done := True\<rparr>"
  let ?s5 = "?s4\<lparr>am_results := [], am_yielded := [70], am_phase := MapTop\<rparr>"
  let ?s6 = "?s5\<lparr>am_phase := MapFinished\<rparr>"
  have "am_step demo_mapper 1 ?s0 ?s1"
    using am_step.enter [of ?s0 demo_mapper 1] by (simp add: am_init_def am_continues_def)
  moreover have "am_step demo_mapper 1 ?s1 ?s2"
    using am_step.pump [of ?s1 1 demo_mapper] by (simp add: am_init_def am_pumped_def am_pump_def)
  moreover have "am_step demo_mapper 1 ?s2 ?s3"
    using am_step.settle [of ?s2 "[]" 7 "[]" demo_mapper 1] by (simp add: am_init_def demo_mapper_def)
  moreover have "am_step demo_mapper 1 ?s3 ?s4"
    using am_step.pump [of ?s3 1 demo_mapper] by (simp add: am_init_def am_pumped_def am_pump_def)
  moreover have "am_step demo_mapper 1 ?s4 ?s5"
    using am_step.deliver [of ?s4 1 demo_mapper] by (simp add: am_init_def am_pumped_def am_deliver_def)
  moreover have "am_step demo_mapper 1 ?s5 ?s6"
    using am_step.finish [of ?s5 demo_mapper 1] by (simp add: am_init_def am_continues_def)
  ultimately have run: "(am_step demo_mapper 1)\<^sup>*\<^sup>* ?s0 ?s6"
    by (meson rtranclp.rtrancl_into_rtrancl rtranclp.rtrancl_refl)
  have "am_phase ?s6 = MapFinished" by simp
  with async_map_outputs [OF run] have "image_mset Inr (mset (am_yielded ?s6)) = {#Inr 70#}"
    by (simp add: demo_mapper_def)
  with run show ?thesis
    by (intro exI [of _ ?s6]) simp
qed

text \<open>
  With a positive concurrency the generator never gets stuck and ends within a number of
  steps linear in the input, however its tasks are scheduled, provided they settle.
\<close>

theorem async_map_ends:
  assumes "0 < concurrency" and "(am_step mapper concurrency ^^ n) (am_init items fails) s"
  shows "n \<le> 14 * length items + 31 \<and> (am_ended s \<or> (\<exists>s'. am_step mapper concurrency s s'))"
proof -
  have "am_measure (am_init items fails :: ('a, 'b) map_state) \<le> 14 * length items + 31"
    by (auto simp: am_measure_def am_init_def)
  with am_run_bound [OF assms(2,1)] have "n \<le> 14 * length items + 31" by linarith
  moreover have "(am_step mapper concurrency)\<^sup>*\<^sup>* (am_init items fails) s"
    using assms(2) by (simp add: relpowp_imp_rtranclp)
  then have "am_struct concurrency s"
    using am_inv_reach [OF _ am_inv_init [of mapper concurrency items fails]] by (simp add: am_inv_def)
  ultimately show ?thesis
    using am_progress by blast
qed

theorem async_map_ends_witness:
  "\<exists>s. (am_step demo_mapper 2 ^^ Suc 0) (am_init [7] None) s \<and> (\<exists>s'. am_step demo_mapper 2 s s')"
proof -
  let ?s0 = "am_init [7] None :: (nat, nat) map_state"
  have "am_step demo_mapper 2 ?s0 (?s0\<lparr>am_phase := MapPumping\<rparr>)"
    using am_step.enter [of ?s0 demo_mapper 2] by (simp add: am_init_def am_continues_def)
  then have step: "(am_step demo_mapper 2 ^^ Suc 0) ?s0 (?s0\<lparr>am_phase := MapPumping\<rparr>)"
    by (auto simp: OO_def)
  have "(0::nat) < 2" by simp
  from async_map_ends [OF this step] step show ?thesis
    by (auto simp: am_ended_def)
qed

section \<open>asyncIteratorRace\<close>

text \<open>
  A source is the list of values an inner iterator yields and the error it then throws, if any.
  \<open>active\<close> holds, with its index, what each started iterator still gives; each of them has one
  pending promise, and any of these may be the one the race resolves to.
\<close>

type_synonym 'v source = "'v list \<times> thrown option"

datatype race_phase = RaceStarting | RaceRacing | RaceFinished | RaceThrew thrown

record 'v race_state =
  ar_inputs :: "'v source list"
  ar_exhausted :: bool
  ar_active :: "(nat \<times> 'v source) list"
  ar_next :: nat
  ar_yielded :: "(nat \<times> 'v) list"
  ar_phase :: race_phase

definition ar_init :: "'v source list \<Rightarrow> 'v race_state" where
  "ar_init sources =
     \<lparr>ar_inputs = sources, ar_exhausted = False, ar_active = [], ar_next = 0, ar_yielded = [],
      ar_phase = RaceStarting\<rparr>"

definition startNewIterator :: "nat \<Rightarrow> 'v race_state \<Rightarrow> 'v race_state" where
  "startNewIterator concurrency s =
     (if ar_exhausted s \<or> concurrency \<le> length (ar_active s) then s
      else case ar_inputs s of
        [] \<Rightarrow> s\<lparr>ar_exhausted := True\<rparr>
      | src # srcs \<Rightarrow>
          s\<lparr>ar_inputs := srcs, ar_active := ar_active s @ [(ar_next s, src)], ar_next := ar_next s + 1\<rparr>)"

definition ar_can_start :: "nat \<Rightarrow> 'v race_state \<Rightarrow> bool" where
  "ar_can_start concurrency s \<longleftrightarrow> length (ar_active s) < concurrency \<and> \<not> ar_exhausted s"

inductive ar_step :: "nat \<Rightarrow> 'v race_state \<Rightarrow> 'v race_state \<Rightarrow> bool" for concurrency :: nat
where
  start: "ar_phase s = RaceStarting \<Longrightarrow> ar_can_start concurrency s \<Longrightarrow>
     ar_step concurrency s (startNewIterator concurrency s)"
| started: "ar_phase s = RaceStarting \<Longrightarrow> \<not> ar_can_start concurrency s \<Longrightarrow>
     ar_step concurrency s (s\<lparr>ar_phase := RaceRacing\<rparr>)"
| all_done: "ar_phase s = RaceRacing \<Longrightarrow> ar_active s = [] \<Longrightarrow>
     ar_step concurrency s (s\<lparr>ar_phase := RaceFinished\<rparr>)"
| yields: "ar_phase s = RaceRacing \<Longrightarrow> ar_active s = before @ (k, v # vs, fails) # after \<Longrightarrow>
     ar_step concurrency s
       (s\<lparr>ar_active := before @ (k, vs, fails) # after, ar_yielded := ar_yielded s @ [(k, v)]\<rparr>)"
| exhausts: "ar_phase s = RaceRacing \<Longrightarrow> ar_active s = before @ (k, [], None) # after \<Longrightarrow>
     ar_step concurrency s (startNewIterator concurrency (s\<lparr>ar_active := before @ after\<rparr>))"
| fails: "ar_phase s = RaceRacing \<Longrightarrow> ar_active s = before @ (k, [], Some e) # after \<Longrightarrow>
     ar_step concurrency s (s\<lparr>ar_phase := RaceThrew e\<rparr>)"

text \<open>What was yielded from the iterator of one index, and what that iterator still gives.\<close>

definition yielded_from :: "nat \<Rightarrow> 'v race_state \<Rightarrow> 'v list" where
  "yielded_from k s = map snd (filter (\<lambda>y. fst y = k) (ar_yielded s))"

definition ar_tracks :: "'v source list \<Rightarrow> 'v race_state \<Rightarrow> nat \<Rightarrow> bool" where
  "ar_tracks sources s k \<longleftrightarrow>
     (if ar_next s \<le> k then yielded_from k s = []
      else case map_of (ar_active s) k of
        Some (vs, fl) \<Rightarrow> yielded_from k s @ vs = fst (sources ! k) \<and> fl = snd (sources ! k)
      | None \<Rightarrow> yielded_from k s = fst (sources ! k) \<and> snd (sources ! k) = None)"

definition ar_shape :: "nat \<Rightarrow> 'v source list \<Rightarrow> 'v race_state \<Rightarrow> bool" where
  "ar_shape concurrency sources s \<longleftrightarrow>
     length (ar_active s) \<le> concurrency \<and> ar_next s \<le> length sources
     \<and> ar_inputs s = drop (ar_next s) sources
     \<and> distinct (map fst (ar_active s)) \<and> (\<forall>k \<in> fst ` set (ar_active s). k < ar_next s)
     \<and> (ar_exhausted s \<longrightarrow> ar_inputs s = [])"

definition ar_drained :: "nat \<Rightarrow> 'v race_state \<Rightarrow> bool" where
  "ar_drained concurrency s \<longleftrightarrow>
     (ar_phase s \<noteq> RaceStarting \<longrightarrow> ar_active s = [] \<longrightarrow> 0 < concurrency \<longrightarrow> ar_exhausted s)
     \<and> (ar_phase s = RaceFinished \<longrightarrow> ar_active s = [])"

definition ar_inv :: "nat \<Rightarrow> 'v source list \<Rightarrow> 'v race_state \<Rightarrow> bool" where
  "ar_inv concurrency sources s \<longleftrightarrow>
     ar_shape concurrency sources s \<and> ar_drained concurrency s \<and> (\<forall>k. ar_tracks sources s k)
     \<and> (\<forall>e. ar_phase s = RaceThrew e \<longrightarrow> Some e \<in> snd ` set sources)"

lemma yielded_from_simps [simp]:
  "yielded_from k (s\<lparr>ar_phase := p\<rparr>) = yielded_from k s"
  "yielded_from k (s\<lparr>ar_active := a\<rparr>) = yielded_from k s"
  "yielded_from k (startNewIterator c s) = yielded_from k s"
  "yielded_from k (s\<lparr>ar_active := a, ar_yielded := ar_yielded s @ [(j, v)]\<rparr>) =
     yielded_from k s @ (if j = k then [v] else [])"
  by (auto simp: yielded_from_def startNewIterator_def split: list.split)

lemma drop_eq_Cons:
  "drop n xs = y # ys \<longleftrightarrow> n < length xs \<and> y = xs ! n \<and> ys = drop (Suc n) xs"
  by (cases "n < length xs") (auto simp flip: Cons_nth_drop_Suc)

lemma map_of_middle:
  "distinct (map fst (before @ (k, x) # after)) \<Longrightarrow>
     map_of (before @ (k, y) # after) = (map_of (before @ after))(k \<mapsto> y)"
  by (induction before) (auto simp: fun_upd_twist)

lemma map_of_middle_None:
  "distinct (map fst (before @ (k, x) # after)) \<Longrightarrow> map_of (before @ after) k = None"
  by (auto simp: map_add_None map_of_eq_None_iff)

lemma ar_shape_start: "ar_shape c sources s \<Longrightarrow> ar_shape c sources (startNewIterator c s)"
  by (auto simp: ar_shape_def startNewIterator_def drop_eq_Cons split: list.split)

lemma ar_tracks_phase [simp]: "ar_tracks sources (s\<lparr>ar_phase := p\<rparr>) k = ar_tracks sources s k"
  unfolding ar_tracks_def yielded_from_simps by simp

lemma ar_tracks_start:
  assumes "ar_shape c sources s" and "ar_tracks sources s k"
  shows "ar_tracks sources (startNewIterator c s) k"
proof (cases "ar_exhausted s \<or> c \<le> length (ar_active s) \<or> ar_inputs s = []")
  case True
  then have "ar_next (startNewIterator c s) = ar_next s" "ar_active (startNewIterator c s) = ar_active s"
    by (auto simp: startNewIterator_def split: list.split)
  with assms(2) show ?thesis
    unfolding ar_tracks_def yielded_from_simps by simp
next
  case False
  then obtain src srcs where "ar_inputs s = src # srcs" by (cases "ar_inputs s") auto
  moreover from this assms(1) have "drop (ar_next s) sources = src # srcs"
    by (simp add: ar_shape_def)
  then have "ar_next s < length sources" "src = sources ! ar_next s"
    by (simp_all add: drop_eq_Cons)
  moreover have "map_of (ar_active s) (ar_next s) = None"
    using assms(1) by (auto simp: ar_shape_def map_of_eq_None_iff)
  ultimately show ?thesis
    using assms(2) False yielded_from_simps(3) [of k c s]
    by (cases src) (auto simp: ar_tracks_def startNewIterator_def map_add_def split: option.splits)
qed

lemma ar_shape_remove:
  "ar_shape c sources s \<Longrightarrow> ar_active s = before @ x # after \<Longrightarrow>
     ar_shape c sources (s\<lparr>ar_active := before @ after\<rparr>)"
  by (auto simp: ar_shape_def)

lemma ar_shape_step: "ar_step c s s' \<Longrightarrow> ar_shape c sources s \<Longrightarrow> ar_shape c sources s'"
proof (induction rule: ar_step.induct)
  case (start s)
  then show ?case by (simp add: ar_shape_start)
next
  case (exhausts s before k after)
  then show ?case by (blast intro: ar_shape_start ar_shape_remove)
qed (auto simp: ar_shape_def)

lemma ar_tracks_step:
  "ar_step c s s' \<Longrightarrow> ar_shape c sources s \<Longrightarrow> \<forall>k. ar_tracks sources s k \<Longrightarrow> ar_tracks sources s' j"
proof (induction rule: ar_step.induct)
  case (start s)
  then show ?case by (simp add: ar_tracks_start)
next
  case (yields s before k v vs fl after)
  then have d: "distinct (map fst (before @ (k, v # vs, fl) # after))" and k: "k < ar_next s"
    by (auto simp: ar_shape_def)
  from yields have "ar_tracks sources s k" "ar_tracks sources s j" by blast+
  with yields(1,2) k show ?case
    using map_of_middle [OF d] map_of_middle_None [OF d]
    by (auto simp: ar_tracks_def split: option.splits if_splits)
next
  case (exhausts s before k after)
  let ?s = "s\<lparr>ar_active := before @ after\<rparr>"
  from exhausts have d: "distinct (map fst (before @ (k, [], None) # after))"
    by (simp add: ar_shape_def)
  from exhausts have "ar_tracks sources s j" by blast
  then have "ar_tracks sources ?s j"
    using map_of_middle [OF d] map_of_middle_None [OF d] exhausts(2)
    by (auto simp: ar_tracks_def split: option.splits if_splits)
  then show ?case
    using exhausts(2,3) by (blast intro: ar_tracks_start ar_shape_remove)
qed simp_all

lemma ar_drained_step: "ar_step c s s' \<Longrightarrow> ar_drained c s \<Longrightarrow> ar_drained c s'"
  by (induction rule: ar_step.induct)
    (auto simp: ar_drained_def startNewIterator_def ar_can_start_def split: list.split)

lemma ar_throws_step:
  assumes "ar_step c s s'" and "ar_shape c sources s" and "\<forall>k. ar_tracks sources s k"
    and "ar_phase s' = RaceThrew e"
  shows "Some e \<in> snd ` set sources"
  using assms
proof (cases rule: ar_step.cases)
  case (fails before k e' after)
  then have d: "distinct (map fst (before @ (k, [], Some e') # after))" and k: "k < ar_next s"
    using assms(2) by (auto simp: ar_shape_def)
  have "map_of (ar_active s) k = Some ([], Some e')"
    using map_of_middle [OF d] fails by simp
  moreover have "ar_tracks sources s k" using assms(3) by blast
  ultimately have "Some e' = snd (sources ! k)"
    using k by (simp add: ar_tracks_def)
  moreover have "k < length sources" using k assms(2) by (simp add: ar_shape_def)
  ultimately show ?thesis
    using assms(4) fails by (auto intro!: image_eqI [of _ snd "sources ! k"])
qed (auto simp: startNewIterator_def split: list.splits if_splits)

lemma ar_inv_init: "ar_inv c sources (ar_init sources)"
  by (simp add: ar_inv_def ar_shape_def ar_drained_def ar_tracks_def ar_init_def yielded_from_def)

lemma ar_inv_reach:
  "(ar_step c)\<^sup>*\<^sup>* (ar_init sources) s \<Longrightarrow> ar_inv c sources s"
proof (induction rule: rtranclp_induct)
  case base
  show ?case by (rule ar_inv_init)
next
  case (step s t)
  then show ?case
    using ar_throws_step [of c s t sources] unfolding ar_inv_def
    by (auto intro: ar_shape_step ar_tracks_step ar_drained_step)
qed

definition source_size :: "'v source \<Rightarrow> nat" where
  "source_size src = length (fst src) + 2"

definition ar_measure :: "'v race_state \<Rightarrow> nat" where
  "ar_measure s =
     sum_list (map (\<lambda>src. source_size src + 1) (ar_inputs s))
     + sum_list (map (\<lambda>a. source_size (snd a)) (ar_active s)) + (if ar_exhausted s then 0 else 1)
     + (case ar_phase s of RaceStarting \<Rightarrow> 2 | RaceRacing \<Rightarrow> 1 | _ \<Rightarrow> 0)"

lemma ar_measure_startNew: "ar_measure (startNewIterator c s) \<le> ar_measure s"
  by (auto simp: ar_measure_def startNewIterator_def split: list.split)

lemma ar_step_decreases: "ar_step c s s' \<Longrightarrow> ar_measure s' < ar_measure s"
proof (induction rule: ar_step.induct)
  case (exhausts s before k after)
  then have "ar_measure (s\<lparr>ar_active := before @ after\<rparr>) < ar_measure s"
    by (simp add: ar_measure_def source_size_def)
  then show ?case
    using ar_measure_startNew [of c "s\<lparr>ar_active := before @ after\<rparr>"] by linarith
next
  case (start s)
  then show ?case
    by (auto simp: ar_measure_def startNewIterator_def ar_can_start_def split: list.split)
qed (auto simp: ar_measure_def source_size_def)

lemma ar_run_bound: "(ar_step c ^^ n) s s' \<Longrightarrow> n + ar_measure s' \<le> ar_measure s"
proof (induction n arbitrary: s')
  case (Suc n)
  then obtain t where "(ar_step c ^^ n) s t" "ar_step c t s'" by auto
  with Suc ar_step_decreases [of c t s'] show ?case by fastforce
qed simp

lemma ar_progress:
  assumes "ar_phase s \<in> {RaceStarting, RaceRacing}"
  shows "\<exists>s'. ar_step c s s'"
proof (cases "ar_phase s = RaceStarting")
  case True
  then show ?thesis
    using ar_step.start [of s c] ar_step.started [of s c] by blast
next
  case False
  with assms have racing: "ar_phase s = RaceRacing" by simp
  show ?thesis
  proof (cases "ar_active s")
    case Nil
    with racing show ?thesis using ar_step.all_done [of s c] by blast
  next
    case (Cons a after)
    obtain k vs fl where a: "a = (k, vs, fl)" by (cases a) auto
    consider v ws where "vs = v # ws" | "vs = []" "fl = None" | e where "vs = []" "fl = Some e"
      by (cases vs; cases fl) auto
    then show ?thesis
    proof cases
      case 1
      then show ?thesis
        using ar_step.yields [of s "[]" k v ws fl after c] racing Cons a by auto
    next
      case 2
      then show ?thesis
        using ar_step.exhausts [of s "[]" k after c] racing Cons a by auto
    next
      case 3
      then show ?thesis
        using ar_step.fails [of s "[]" k e after c] racing Cons a by auto
    qed
  qed
qed



section \<open>mergeUint8Arrays\<close>

text \<open>
  \<open>set(arr, position)\<close> on an array of a fixed length throws a \<open>RangeError\<close> when it would write
  past the end.
\<close>

type_synonym bytes = "8 word list"

definition js_set :: "bytes \<Rightarrow> bytes \<Rightarrow> nat \<Rightarrow> bytes option" where
  "js_set target arr position =
     (if position + length arr \<le> length target
      then Some (take position target @ arr @ drop (position + length arr) target) else None)"

fun copy_arrays :: "bytes list \<Rightarrow> nat \<Rightarrow> bytes \<Rightarrow> bytes option" where
  "copy_arrays [] position target = Some target"
| "copy_arrays (arr # arrays) position target =
     (case js_set target arr position of
        None \<Rightarrow> None
      | Some target' \<Rightarrow> copy_arrays arrays (position + length arr) target')"

definition mergeUint8Arrays :: "bytes list \<Rightarrow> bytes option" where
  "mergeUint8Arrays arrays =
     copy_arrays arrays 0 (replicate (sum_list (map length arrays)) 0)"

lemma copy_arrays_fill:
  "length target = position + sum_list (map length arrays) \<Longrightarrow>
     copy_arrays arrays position target = Some (take position target @ concat arrays)"
proof (induction arrays arbitrary: position target)
  case (Cons arr arrays)
  then show ?case
    by (simp add: js_set_def)
qed simp

lemma mergeUint8Arrays_concat: "mergeUint8Arrays arrays = Some (concat arrays)"
  by (simp add: mergeUint8Arrays_def copy_arrays_fill)

end
