(* ===== verification/JsValues.thy ===== *)
theory JsValues
  imports Errors "HOL-Library.AList"
begin

text \<open>
  JavaScript values as the SDK reads them where the type checker does not help: entities that
  come back from a cache and extended attributes that come from other clients. A value is a tree;
  a property that is absent reads as \<open>undefined\<close>.

  The text of a JSON document is represented by its tree: \<open>JsonText v\<close> is the text
  \<open>JSON.stringify\<close> makes of \<open>v\<close>, and \<open>PlainText s\<close> any text that is not JSON. A date is its number
  of milliseconds, \<open>None\<close> for "Invalid Date"; \<open>JIso t\<close> is the string \<open>toISOString\<close> makes of a valid
  date. What \<open>new Date\<close> reads from any other string is a parameter of the definitions that use it.
  Numbers are integers.
\<close>

datatype jsval =
    JUndefined | JNull | JBool bool | JNum int | JStr string | JIso int
  | JDate "int option" | JError string
  | JArr "jsval list" | JObj "(string \<times> jsval) list"

fun js_truthy :: "jsval \<Rightarrow> bool" where
  "js_truthy JUndefined = False"
| "js_truthy JNull = False"
| "js_truthy (JBool b) = b"
| "js_truthy (JNum n) = (n \<noteq> 0)"
| "js_truthy (JStr s) = (s \<noteq> '''')"
| "js_truthy _ = True"

fun js_typeof :: "jsval \<Rightarrow> string" where
  "js_typeof JUndefined = ''undefined''"
| "js_typeof (JBool b) = ''boolean''"
| "js_typeof (JNum n) = ''number''"
| "js_typeof (JStr s) = ''string''"
| "js_typeof (JIso t) = ''string''"
| "js_typeof _ = ''object''"

text \<open>\<open>v?.k\<close> and \<open>v.k\<close>: the second throws on \<open>undefined\<close> and \<open>null\<close>.\<close>

fun js_opt :: "string \<Rightarrow> jsval \<Rightarrow> jsval" where
  "js_opt k (JObj fs) = (case map_of fs k of Some v \<Rightarrow> v | None \<Rightarrow> JUndefined)"
| "js_opt k v = JUndefined"

definition js_get :: "string \<Rightarrow> jsval \<Rightarrow> thrown + jsval" where
  "js_get k v =
     (if v = JUndefined \<or> v = JNull
      then Inl (throw_new JsTypeError ''Cannot read properties of undefined or null'')
      else Inr (js_opt k v))"

text \<open>\<open>{ ...v }\<close>, and an object literal that continues with further properties.\<close>

fun js_spread :: "jsval \<Rightarrow> (string \<times> jsval) list" where
  "js_spread (JObj fs) = fs"
| "js_spread (JArr vs) = map (\<lambda>(i, v). (show_nat i, v)) (enumerate 0 vs)"
| "js_spread (JStr s) = map (\<lambda>(i, c). (show_nat i, JStr [c])) (enumerate 0 s)"
| "js_spread _ = []"

definition js_with :: "(string \<times> jsval) list \<Rightarrow> (string \<times> jsval) list \<Rightarrow> (string \<times> jsval) list" where
  "js_with fs updates = foldl (\<lambda>fs (k, v). AList.update k v fs) fs updates"

text \<open>
  \<open>JSON.stringify\<close>, as a tree: dates become their ISO string or \<open>null\<close>, an \<open>Error\<close> has no own
  enumerable property, and \<open>undefined\<close> is dropped from an object and \<open>null\<close> in an array.
\<close>

fun to_json :: "jsval \<Rightarrow> jsval" where
  "to_json (JDate (Some t)) = JIso t"
| "to_json (JDate None) = JNull"
| "to_json (JError m) = JObj []"
| "to_json (JArr vs) = JArr (map (\<lambda>v. if v = JUndefined then JNull else to_json v) vs)"
| "to_json (JObj fs) = JObj (map (\<lambda>(k, v). (k, to_json v)) (filter (\<lambda>(k, v). v \<noteq> JUndefined) fs))"
| "to_json v = v"

datatype js_text = JsonText jsval | PlainText string

definition text_truthy :: "js_text \<Rightarrow> bool" where
  "text_truthy t \<longleftrightarrow> t \<noteq> PlainText ''''"

definition json_stringify :: "jsval \<Rightarrow> js_text" where
  "json_stringify v = JsonText (to_json v)"

fun json_parse :: "js_text \<Rightarrow> thrown + jsval" where
  "json_parse (JsonText v) = Inr v"
| "json_parse (PlainText s) = Inl (throw_new JsError ''SyntaxError'')"

definition js_new_date :: "(jsval \<Rightarrow> int option) \<Rightarrow> jsval \<Rightarrow> jsval" where
  "js_new_date date_of v =
     JDate (case v of
         JIso t \<Rightarrow> Some t | JNum n \<Rightarrow> Some n | JNull \<Rightarrow> Some 0 | JDate d \<Rightarrow> d
       | JBool b \<Rightarrow> Some (if b then 1 else 0) | JUndefined \<Rightarrow> None | _ \<Rightarrow> date_of v)"

section \<open>Reading back\<close>

lemma js_opt_AList_update:
  "js_opt k (JObj (AList.update k' v fs)) = (if k = k' then v else js_opt k (JObj fs))"
  by (simp add: update_conv')

lemma js_opt_with:
  "js_opt k (JObj (js_with fs [])) = js_opt k (JObj fs)"
  "js_opt k (JObj (js_with fs ((k', v) # us))) = js_opt k (JObj (js_with (AList.update k' v fs) us))"
  by (simp_all add: js_with_def)

lemma map_of_defined:
  "distinct (map fst fs) \<Longrightarrow>
     map_of (filter (\<lambda>(k, v). v \<noteq> JUndefined) fs) k =
       (if map_of fs k = Some JUndefined then None else map_of fs k)"
proof (induction fs)
  case (Cons f fs)
  obtain j v where f: "f = (j, v)" by (cases f)
  have "map_of fs j = None"
    using Cons.prems by (simp add: f map_of_eq_None_iff)
  with Cons show ?case
    by (cases "k = j") (simp_all add: f)
qed simp

lemma to_json_undefined [simp]: "to_json v = JUndefined \<longleftrightarrow> v = JUndefined"
  by (cases v rule: to_json.cases) simp_all

lemma js_opt_to_json:
  assumes "distinct (map fst fs)"
  shows "js_opt k (to_json (JObj fs)) = to_json (js_opt k (JObj fs))"
proof -
  have "map_of (map (\<lambda>(k, v). (k, to_json v)) (filter (\<lambda>(k, v). v \<noteq> JUndefined) fs)) k =
      map_option to_json (if map_of fs k = Some JUndefined then None else map_of fs k)"
    using map_of_defined [OF assms, of k] by (simp add: map_of_map)
  then show ?thesis
    by (cases "map_of fs k") simp_all
qed

lemma to_json_date [simp]: "js_new_date date_of (to_json (JDate (Some t))) = JDate (Some t)"
  by (simp add: js_new_date_def)

end
