(* ===== verification/NodeAttributes.thy ===== *)
theory NodeAttributes
  imports JsValues "HOL-Library.Multiset"
begin

text \<open>
  The attributes of a node that do not need its keys: names (\<^verbatim>\<open>internal/nodes/nodeName.ts\<close>,
  \<^verbatim>\<open>validations.ts\<close>), media types (\<^verbatim>\<open>mediaTypes.ts\<close>) and the extended attributes, which are a JSON
  document written by whichever client uploaded the file (\<^verbatim>\<open>extendedAttributes.ts\<close>). The keys a node
  is signed with, an address of the user or the nodes' own, are the type \<open>node_signing_keys\<close>.
\<close>

datatype 'k node_signing_keys =
    UserAddress (sgn_email: string) string (sgn_key: 'k)
  | NodeKeys "'k option" "'k option"

section \<open>Names\<close>

definition lastIndexOf_dot :: "string \<Rightarrow> int" where
  "lastIndexOf_dot s =
     (if CHR ''.'' \<in> set s then int (length s) - 1 - int (length (takeWhile (\<lambda>c. c \<noteq> CHR ''.'') (rev s))) else -1)"

definition splitExtension :: "string \<Rightarrow> string \<times> string" where
  "splitExtension filename =
     (let endIdx = lastIndexOf_dot filename in
      if endIdx = -1 \<or> endIdx = 0 \<or> endIdx = int (length filename) - 1 then (filename, '''')
      else (take (nat endIdx) filename, drop (nat endIdx + 1) filename))"

definition joinNameAndExtension :: "string \<Rightarrow> nat \<Rightarrow> string \<Rightarrow> string" where
  "joinNameAndExtension name index extension =
     (if name = '''' \<and> extension = '''' then ''('' @ show_nat index @ '')''
      else if name = '''' then ''('' @ show_nat index @ '').'' @ extension
      else if extension = '''' then name @ '' ('' @ show_nat index @ '')''
      else name @ '' ('' @ show_nat index @ '').'' @ extension)"

definition MAX_NODE_NAME_LENGTH :: nat where
  "MAX_NODE_NAME_LENGTH = 255"

definition validateNodeName :: "string \<Rightarrow> thrown + unit" where
  "validateNodeName name =
     (if name = '''' then Inl (throw_new ValidationError ''Name must not be empty'')
      else if length name > MAX_NODE_NAME_LENGTH
      then Inl (throw_new ValidationError ''Name must be 255 characters long at most'')
      else Inr ())"

lemma validateNodeName_ok: "validateNodeName name = Inr () \<longleftrightarrow> 1 \<le> length name \<and> length name \<le> 255"
  by (cases name) (auto simp: validateNodeName_def MAX_NODE_NAME_LENGTH_def)

definition isProtonDocument :: "string option \<Rightarrow> bool" where
  "isProtonDocument mediaType \<longleftrightarrow> mediaType = Some ''application/vnd.proton.doc''"

definition isProtonSheet :: "string option \<Rightarrow> bool" where
  "isProtonSheet mediaType \<longleftrightarrow> mediaType = Some ''application/vnd.proton.sheet''"

lemma lastIndexOf_dot_append:
  assumes "CHR ''.'' \<notin> set e"
  shows "lastIndexOf_dot (n @ CHR ''.'' # e) = int (length n)"
proof -
  have "takeWhile (\<lambda>c. c \<noteq> CHR ''.'') (rev e @ CHR ''.'' # rev n) = rev e"
    using assms by (subst takeWhile_append2) auto
  then show ?thesis by (simp add: lastIndexOf_dot_def)
qed

lemma lastIndexOf_dot_none: "CHR ''.'' \<notin> set s \<Longrightarrow> lastIndexOf_dot s = -1"
  by (simp add: lastIndexOf_dot_def)

lemma splitExtension_dot:
  "CHR ''.'' \<notin> set e \<Longrightarrow> splitExtension (n @ CHR ''.'' # e) =
     (if n = '''' \<or> e = '''' then (n @ CHR ''.'' # e, '''') else (n, e))"
  by (auto simp: splitExtension_def lastIndexOf_dot_append Let_def)

lemma splitExtension_no_dot: "CHR ''.'' \<notin> set s \<Longrightarrow> splitExtension s = (s, '''')"
  by (simp add: splitExtension_def lastIndexOf_dot_none)

lemma last_dot_split:
  assumes "CHR ''.'' \<in> set s"
  obtains n e where "s = n @ CHR ''.'' # e" and "CHR ''.'' \<notin> set e"
  using assms split_list_last [of "CHR ''.''" s] by blast

text \<open>
  Splitting a file name loses nothing and leaves the extension free of dots; numbering a name
  that has an extension keeps both parts, so numbering can be repeated.
\<close>

theorem extension_roundtrip:
  assumes "splitExtension filename = (name, extension)"
  shows "filename = (if extension = '''' then name else name @ CHR ''.'' # extension)
       \<and> CHR ''.'' \<notin> set extension
       \<and> (extension \<noteq> '''' \<longrightarrow>
            splitExtension (joinNameAndExtension name index extension)
              = (name @ '' ('' @ show_nat index @ '')'', extension))"
proof (cases "CHR ''.'' \<in> set filename")
  case True
  then obtain n e where f: "filename = n @ CHR ''.'' # e" "CHR ''.'' \<notin> set e"
    by (rule last_dot_split)
  from assms have s: "(name, extension) = (if n = '''' \<or> e = '''' then (n @ CHR ''.'' # e, '''') else (n, e))"
    by (simp add: f splitExtension_dot)
  have "splitExtension (joinNameAndExtension n index e) = (n @ '' ('' @ show_nat index @ '')'', e)"
    if "n \<noteq> ''''" "e \<noteq> ''''"
    using that f(2) splitExtension_dot [of e "n @ '' ('' @ show_nat index @ '')''"]
    by (simp add: joinNameAndExtension_def)
  with s f show ?thesis by (auto split: if_splits)
next
  case False
  with assms show ?thesis by (auto simp: splitExtension_no_dot)
qed

theorem extension_roundtrip_witness:
  "splitExtension (joinNameAndExtension ''a.b'' 12 ''txt'') = (''a.b ('' @ show_nat 12 @ '')'', ''txt'')"
proof -
  have "splitExtension ''a.b.txt'' = (''a.b'', ''txt'')"
    by (simp add: splitExtension_def lastIndexOf_dot_def Let_def)
  from extension_roundtrip [OF this, of 12] show ?thesis by simp
qed

section \<open>Extended attributes\<close>

text \<open>A date argument is its milliseconds, with the inner \<open>None\<close> for an invalid date.\<close>

definition dateToIsoString :: "int option \<Rightarrow> jsval" where
  "dateToIsoString date = (case date of Some t \<Rightarrow> JIso t | None \<Rightarrow> JUndefined)"

definition generateFolderExtendedAttributes :: "int option option \<Rightarrow> js_text option" where
  "generateFolderExtendedAttributes claimedModificationTime =
     (case claimedModificationTime of
        None \<Rightarrow> None
      | Some date \<Rightarrow>
          Some (json_stringify (JObj [(''Common'', JObj [(''ModificationTime'', dateToIsoString date)])])))"

text \<open>
  The parsers read \<open>xattr?.Common\<close> first. \<open>JSON.stringify\<close> of a date is \<open>null\<close> exactly for an
  invalid one.
\<close>

definition xattr_common :: "string \<Rightarrow> jsval \<Rightarrow> jsval" where
  "xattr_common k xattr = js_opt k (js_opt ''Common'' xattr)"

definition parseSize :: "jsval \<Rightarrow> int option" where
  "parseSize xattr = (case xattr_common ''Size'' xattr of JNum n \<Rightarrow> Some n | _ \<Rightarrow> None)"

definition parseModificationTime :: "(jsval \<Rightarrow> int option) \<Rightarrow> jsval \<Rightarrow> int option" where
  "parseModificationTime date_of xattr =
     (let modificationTime = xattr_common ''ModificationTime'' xattr in
      if modificationTime = JUndefined then None
      else case js_new_date date_of modificationTime of JDate d \<Rightarrow> d | _ \<Rightarrow> None)"

text \<open>\<open>digests.SHA1\<close> throws when \<open>digests\<close> is \<open>null\<close>; the caller catches it.\<close>

definition parseDigests :: "jsval \<Rightarrow> thrown + string option" where
  "parseDigests xattr =
     (let digests = xattr_common ''Digests'' xattr in
      if digests = JUndefined then Inr None
      else try_bind (js_get ''SHA1'' digests) (\<lambda>sha1.
        Inr (case sha1 of JStr s \<Rightarrow> Some s | _ \<Rightarrow> None)))"

fun js_number :: "jsval \<Rightarrow> int option" where
  "js_number (JNum n) = Some n"
| "js_number v = None"

definition year_2025 :: int where
  "year_2025 = 1735689600000"

definition parseBlockSizes :: "int option \<Rightarrow> jsval \<Rightarrow> int list option" where
  "parseBlockSizes creationTime xattr =
     (case xattr_common ''BlockSizes'' xattr of
        JArr blockSizes \<Rightarrow>
          if \<exists>size \<in> set blockSizes. (case js_number size of None \<Rightarrow> True | Some n \<Rightarrow> n \<le> 0) then None
          else if length blockSizes = 0 then None
          else (let sizes = List.map_filter js_number blockSizes in
                Some (case creationTime of
                        Some t \<Rightarrow> if t < year_2025 then sort_key uminus sizes else sizes
                      | None \<Rightarrow> sizes))
      | _ \<Rightarrow> None)"

record file_attributes =
  fa_claimedSize :: "int option"
  fa_claimedModificationTime :: "int option"
  fa_claimedDigests_sha1 :: "string option"
  fa_claimedAdditionalMetadata :: "jsval option"
  fa_claimedBlockSizes :: "int list option"

definition no_file_attributes :: file_attributes where
  "no_file_attributes =
     \<lparr>fa_claimedSize = None, fa_claimedModificationTime = None, fa_claimedDigests_sha1 = None,
      fa_claimedAdditionalMetadata = None, fa_claimedBlockSizes = None\<rparr>"

definition additional_metadata :: "jsval \<Rightarrow> jsval option" where
  "additional_metadata parsed =
     (let rest = filter (\<lambda>f. fst f \<noteq> ''Common'') (js_spread parsed) in
      if length rest = 0 then None else Some (JObj rest))"

definition read_file_attributes ::
  "(jsval \<Rightarrow> int option) \<Rightarrow> int option \<Rightarrow> jsval \<Rightarrow> thrown + file_attributes"
where
  "read_file_attributes date_of creationTime parsed =
     try_bind (parseDigests parsed) (\<lambda>digests.
       Inr \<lparr>fa_claimedSize = parseSize parsed,
            fa_claimedModificationTime = parseModificationTime date_of parsed,
            fa_claimedDigests_sha1 = digests,
            fa_claimedAdditionalMetadata = additional_metadata parsed,
            fa_claimedBlockSizes = parseBlockSizes creationTime parsed\<rparr>)"

definition parseFileExtendedAttributes ::
  "(jsval \<Rightarrow> int option) \<Rightarrow> int option \<Rightarrow> js_text option \<Rightarrow> file_attributes"
where
  "parseFileExtendedAttributes date_of creationTime extendedAttributes =
     (case extendedAttributes of
        None \<Rightarrow> no_file_attributes
      | Some text \<Rightarrow>
          if \<not> text_truthy text then no_file_attributes
          else case try_bind (json_parse text) (read_file_attributes date_of creationTime) of
            Inl error \<Rightarrow> no_file_attributes
          | Inr attributes \<Rightarrow> attributes)"

definition parseFolderExtendedAttributes :: "(jsval \<Rightarrow> int option) \<Rightarrow> js_text option \<Rightarrow> int option" where
  "parseFolderExtendedAttributes date_of extendedAttributes =
     (case extendedAttributes of
        None \<Rightarrow> None
      | Some text \<Rightarrow>
          if \<not> text_truthy text then None
          else case json_parse text of
            Inl error \<Rightarrow> None
          | Inr parsed \<Rightarrow> parseModificationTime date_of parsed)"

record common_attributes =
  ca_modificationTime :: "int option option"
  ca_size :: int
  ca_blockSizes :: "int list"
  ca_sha1 :: string

definition commonAttributes :: "common_attributes \<Rightarrow> jsval" where
  "commonAttributes common =
     JObj ((case ca_modificationTime common of
              Some date \<Rightarrow> [(''ModificationTime'', dateToIsoString date)] | None \<Rightarrow> [])
       @ [(''Size'', JNum (ca_size common)),
          (''BlockSizes'', JArr (map JNum (ca_blockSizes common))),
          (''Digests'', JObj [(''SHA1'', JStr (ca_sha1 common))])])"

text \<open>\<open>additionalMetadata\<close> is the list of its properties.\<close>

definition generateFileExtendedAttributes ::
  "common_attributes \<Rightarrow> (string \<times> jsval) list option \<Rightarrow> thrown + js_text"
where
  "generateFileExtendedAttributes common additionalMetadata =
     (if (case additionalMetadata of None \<Rightarrow> False | Some fs \<Rightarrow> ''Common'' \<in> fst ` set fs)
      then Inl (throw_new JsError ''Common attributes are not allowed in additional metadata'')
      else Inr (json_stringify (JObj ((''Common'', commonAttributes common)
             # (case additionalMetadata of None \<Rightarrow> [] | Some fs \<Rightarrow> fs)))))"

lemma js_number_JNum [simp]: "List.map_filter js_number (map JNum ns) = ns"
  by (induction ns) (simp_all add: List.map_filter_simps)

lemma map_to_json_JNum [simp]: "map (to_json \<circ> JNum) ns = map JNum ns"
  by (induction ns) simp_all

lemma xattr_common_generated:
  "xattr_common k (to_json (JObj ((''Common'', commonAttributes common) # fs))) =
     to_json (js_opt k (commonAttributes common))"
proof -
  have "to_json (JObj ((''Common'', commonAttributes common) # fs)) =
      JObj ((''Common'', to_json (commonAttributes common)) # map (\<lambda>(k, v). (k, to_json v)) (filter (\<lambda>(k, v). v \<noteq> JUndefined) fs))"
    by (simp add: commonAttributes_def)
  moreover have "js_opt k (to_json (commonAttributes common)) = to_json (js_opt k (commonAttributes common))"
    unfolding commonAttributes_def by (rule js_opt_to_json) (simp split: option.split)
  ultimately show ?thesis by (simp add: xattr_common_def)
qed

lemma additional_metadata_generated:
  "''Common'' \<notin> fst ` set fs \<Longrightarrow>
     additional_metadata (to_json (JObj ((''Common'', commonAttributes common) # fs))) =
       (if filter (\<lambda>f. snd f \<noteq> JUndefined) fs = [] then None else Some (to_json (JObj fs)))"
proof -
  assume c: "''Common'' \<notin> fst ` set fs"
  have "filter (\<lambda>f. fst f \<noteq> ''Common'') (map (\<lambda>(k, v). (k, to_json v)) gs) = map (\<lambda>(k, v). (k, to_json v)) gs"
    if "set gs \<subseteq> set fs" for gs
    using that c by (force simp: filter_id_conv)
  from this [of "filter (\<lambda>(k, v). v \<noteq> JUndefined) fs"] show ?thesis
    by (auto simp: additional_metadata_def commonAttributes_def case_prod_unfold Let_def)
qed


definition demo_common :: common_attributes where
  "demo_common = \<lparr>ca_modificationTime = Some (Some 5), ca_size = 7, ca_blockSizes = [4, 3], ca_sha1 = ''ab''\<rparr>"


text \<open>
  Whatever document a file carries, the block sizes read from it are positive, and are those
  of the document in its order, or in descending order for a file created before 2025.
\<close>

theorem block_sizes_read:
  assumes "parseBlockSizes creationTime xattr = Some sizes"
  shows "sizes \<noteq> [] \<and> (\<forall>n \<in> set sizes. 0 < n)
       \<and> (\<exists>ns. xattr_common ''BlockSizes'' xattr = JArr (map JNum ns) \<and> mset sizes = mset ns
            \<and> (case creationTime of
                 Some t \<Rightarrow> if t < year_2025 then sorted_wrt (\<ge>) sizes else sizes = ns
               | None \<Rightarrow> sizes = ns))"
proof -
  obtain vs where vs: "xattr_common ''BlockSizes'' xattr = JArr vs" "vs \<noteq> []"
    "\<forall>v \<in> set vs. \<not> (case js_number v of None \<Rightarrow> True | Some n \<Rightarrow> n \<le> 0)"
    "sizes = (let ns = List.map_filter js_number vs in
       case creationTime of Some t \<Rightarrow> if t < year_2025 then sort_key uminus ns else ns | None \<Rightarrow> ns)"
    using assms
    by (auto simp: parseBlockSizes_def Let_def split: jsval.splits if_splits option.splits)
  have "vs = map JNum (List.map_filter js_number vs)" using vs(3)
    by (induction vs) (auto simp: List.map_filter_simps split: option.splits elim!: js_number.elims)
  then obtain ns where ns: "vs = map JNum ns" by blast
  have sorted: "sorted_wrt (\<ge>) (sort_key uminus ns)" for ns :: "int list"
    using sorted_sort_key [of uminus ns] by (simp add: sorted_map)
  have pos: "\<forall>n \<in> set ns. 0 < n" "ns \<noteq> []"
    using vs(2,3) by (auto simp: ns)
  show ?thesis
    using vs(1,4) pos sorted [of ns]
    by (auto simp: ns Let_def split: option.splits if_splits intro!: exI [of _ ns])
      (simp_all flip: set_empty)
qed

theorem block_sizes_read_witness:
  "parseBlockSizes (Some 0) (JObj [(''Common'', JObj [(''BlockSizes'', JArr [JNum 1, JNum 4, JNum 4])])]) = Some [4, 4, 1]
   \<and> sorted_wrt (\<ge>) [4, 4, 1 :: int]"
proof -
  have run: "parseBlockSizes (Some 0) (JObj [(''Common'', JObj [(''BlockSizes'', JArr [JNum 1, JNum 4, JNum 4])])]) = Some [4, 4, 1]"
    by (simp add: parseBlockSizes_def xattr_common_def year_2025_def List.map_filter_simps)
  from block_sizes_read [OF this] run show ?thesis
    by (simp add: year_2025_def)
qed

end
