(* ===== verification/NodesCache.thy ===== *)
theory NodesCache
  imports JsValues Uids DriveCache Events
begin

text \<open>
  The cache of node metadata: \<open>NodesCacheBase\<close> and \<open>NodesCache\<close> of \<^verbatim>\<open>internal/nodes/cache.ts\<close>,
  \<open>NodesCryptoCache\<close> of \<^verbatim>\<open>cryptoCache.ts\<close> and \<open>NodesEventsHandler\<close> of \<^verbatim>\<open>events.ts\<close>.

  The base class is generic in the type of a node and in the drive cache it writes to. The first
  is a record of what the class does with a node, the second the \<open>cache_ops\<close> of \<open>DriveCache\<close>, and
  the lemmas are proved once in the locale \<open>node_store\<close>, for every cache that keeps what is
  written and every node type whose serialisation can be read back. \<open>NodesCache\<close> over
  \<open>MemoryCache\<close> is an interpretation.

  Removing a node follows the parent tags recursively; the recursion takes fuel and \<open>None\<close> means
  it has run out.
\<close>

record ('n, 'v) node_ops =
  no_uid :: "'n \<Rightarrow> string"
  no_parentUid :: "'n \<Rightarrow> string option"
  no_trashed :: "'n \<Rightarrow> bool"
  no_isStale :: "'n \<Rightarrow> bool"
  no_setStale :: "'n \<Rightarrow> 'n"
  no_setParentUid :: "string option \<Rightarrow> 'n \<Rightarrow> 'n"
  no_setShared :: "bool option \<Rightarrow> 'n \<Rightarrow> 'n"
  no_setTrashTime :: "int option \<Rightarrow> 'n \<Rightarrow> 'n"
  no_serialiseNode :: "'n \<Rightarrow> 'v"
  no_deserialiseNode :: "'v \<Rightarrow> thrown + 'n"

section \<open>Keys and tags\<close>

definition getCacheUid :: "string \<Rightarrow> string" where
  "getCacheUid nodeUid = ''node-'' @ nodeUid"

definition getNodeUid :: "string \<Rightarrow> thrown + string" where
  "getNodeUid cacheUid =
     (if \<not> js_startsWith cacheUid ''node-''
      then Inl (throw_new JsError (''Unexpected cached node uid '' @ cacheUid))
      else Inr (drop 5 cacheUid))"

definition volume_tag :: "string \<Rightarrow> string" where "volume_tag v = ''volume:'' @ v"
definition parent_tag :: "string \<Rightarrow> string" where "parent_tag p = ''nodeParentUid:'' @ p"
definition roots_tag :: "string \<Rightarrow> string" where "roots_tag v = ''nodeRoot:'' @ v"
definition trashed_tag :: string where "trashed_tag = ''nodeTrashed''"
definition children_volume_tag :: "string \<Rightarrow> string" where "children_volume_tag v = ''children-volume:'' @ v"
definition children_key :: "string \<Rightarrow> string" where "children_key nodeUid = ''node-children-'' @ nodeUid"

definition node_tags :: "('n, 'v) node_ops \<Rightarrow> string \<Rightarrow> 'n \<Rightarrow> string list" where
  "node_tags nops volumeId node =
     [volume_tag volumeId]
     @ (case present (no_parentUid nops node) of
          Some p \<Rightarrow> [parent_tag p]
        | None \<Rightarrow> [roots_tag volumeId])
     @ (if no_trashed nops node then [trashed_tag] else [])"

section \<open>Operations\<close>

definition nc_setNode ::
  "('s, 'v) cache_ops \<Rightarrow> ('n, 'v) node_ops \<Rightarrow> 'n \<Rightarrow> 's \<Rightarrow> (thrown + unit) \<times> 's"
where
  "nc_setNode ops nops node s =
     (case splitNodeUid (no_uid nops node) of
        Inl e \<Rightarrow> (Inl e, s)
      | Inr (volumeId, nodeId) \<Rightarrow>
          (Inr (), co_setEntity ops (getCacheUid (no_uid nops node)) (no_serialiseNode nops node)
             (Some (node_tags nops volumeId node)) s))"

text \<open>\<open>getRecursiveChildrenCacheUids\<close>: the loop over one parent's keys, given the recursive call.\<close>

fun collect_children ::
  "(string \<Rightarrow> (thrown + string list) option) \<Rightarrow> string list \<Rightarrow> (thrown + string list) option"
where
  "collect_children rec [] = Some (Inr [])"
| "collect_children rec (key # keys) =
     (case getNodeUid key of
        Inl e \<Rightarrow> Some (Inl e)
      | Inr uid \<Rightarrow>
          (case rec uid of
             None \<Rightarrow> None
           | Some (Inl e) \<Rightarrow> Some (Inl e)
           | Some (Inr children) \<Rightarrow>
               (case collect_children rec keys of
                  None \<Rightarrow> None
                | Some (Inl e) \<Rightarrow> Some (Inl e)
                | Some (Inr rest) \<Rightarrow> Some (Inr (key # children @ rest)))))"

fun getRecursiveChildrenCacheUids ::
  "('s, 'v) cache_ops \<Rightarrow> 's \<Rightarrow> nat \<Rightarrow> string \<Rightarrow> (thrown + string list) option"
where
  "getRecursiveChildrenCacheUids ops s 0 parentNodeUid = None"
| "getRecursiveChildrenCacheUids ops s (Suc fuel) parentNodeUid =
     collect_children (getRecursiveChildrenCacheUids ops s fuel) (co_keysByTag ops (parent_tag parentNodeUid) s)"

fun remove_children_of :: "('s, 'v) cache_ops \<Rightarrow> nat \<Rightarrow> string list \<Rightarrow> 's \<Rightarrow> 's option" where
  "remove_children_of ops fuel [] s = Some s"
| "remove_children_of ops fuel (nodeUid # rest) s =
     (case getRecursiveChildrenCacheUids ops s fuel nodeUid of
        None \<Rightarrow> None
      | Some (Inl error) \<Rightarrow> remove_children_of ops fuel rest s
      | Some (Inr childrenCacheUids) \<Rightarrow>
          remove_children_of ops fuel rest (co_removeEntities ops (rev childrenCacheUids) s))"

definition nc_removeNodes :: "('s, 'v) cache_ops \<Rightarrow> nat \<Rightarrow> string list \<Rightarrow> 's \<Rightarrow> 's option" where
  "nc_removeNodes ops fuel nodeUids s =
     remove_children_of ops fuel nodeUids (co_removeEntities ops (map getCacheUid nodeUids) s)"

text \<open>\<open>removeCorruptedNode\<close> with a node UID, which is tested for truth.\<close>

definition removeCorruptedNode :: "('s, 'v) cache_ops \<Rightarrow> nat \<Rightarrow> string \<Rightarrow> 's \<Rightarrow> 's option" where
  "removeCorruptedNode ops fuel nodeUid s =
     (if nodeUid \<noteq> '''' then nc_removeNodes ops fuel [nodeUid] s else Some s)"

definition nc_getNode ::
  "('s, 'v) cache_ops \<Rightarrow> ('n, 'v) node_ops \<Rightarrow> nat \<Rightarrow> string \<Rightarrow> 's \<Rightarrow> ((thrown + 'n) \<times> 's) option"
where
  "nc_getNode ops nops fuel nodeUid s =
     (case co_getEntity ops (getCacheUid nodeUid) s of
        Inl e \<Rightarrow> Some (Inl e, s)
      | Inr nodeData \<Rightarrow>
          (case no_deserialiseNode nops nodeData of
             Inr node \<Rightarrow> Some (Inr node, s)
           | Inl error \<Rightarrow>
               map_option
                 (\<lambda>s'. (Inl (ThrownError (with_cause
                    (new_error JsError (''Failed to deserialise node: '' @ getErrorMessage error)) error)), s'))
                 (removeCorruptedNode ops fuel nodeUid s)))"

datatype 'n node_result = NodeOk (nr_uid: string) (nr_node: 'n) | NodeMissing (nr_uid: string) string

definition convertCacheResult ::
  "('s, 'v) cache_ops \<Rightarrow> ('n, 'v) node_ops \<Rightarrow> nat \<Rightarrow> 'v entity_result \<Rightarrow> 's
     \<Rightarrow> ('n node_result option \<times> 's) option"
where
  "convertCacheResult ops nops fuel result s =
     (case getNodeUid (er_key result) of
        Inl error \<Rightarrow> Some (None, if er_key result \<noteq> '''' then co_removeEntities ops [er_key result] s else s)
      | Inr nodeUid \<Rightarrow>
          (case result of
             EntityOk key nodeData \<Rightarrow>
               (case no_deserialiseNode nops nodeData of
                  Inl error \<Rightarrow> map_option (Pair None) (removeCorruptedNode ops fuel nodeUid s)
                | Inr node \<Rightarrow> Some (Some (NodeOk nodeUid node), s))
           | EntityMissing key error \<Rightarrow> Some (Some (NodeMissing nodeUid error), s)))"

text \<open>The common loop of the iterators: convert each key in turn and yield what \<open>keep\<close> accepts.\<close>

fun convert_keys ::
  "('s, 'v) cache_ops \<Rightarrow> ('n, 'v) node_ops \<Rightarrow> nat \<Rightarrow> ('n node_result \<Rightarrow> bool) \<Rightarrow> string list \<Rightarrow> 's
     \<Rightarrow> ('n node_result list \<times> 's) option"
where
  "convert_keys ops nops fuel keep [] s = Some ([], s)"
| "convert_keys ops nops fuel keep (key # keys) s =
     (case convertCacheResult ops nops fuel (co_entity ops key s) s of
        None \<Rightarrow> None
      | Some (r, s') \<Rightarrow>
          (case convert_keys ops nops fuel keep keys s' of
             None \<Rightarrow> None
           | Some (rs, s'') \<Rightarrow>
               Some (case r of Some node \<Rightarrow> if keep node then node # rs else rs | None \<Rightarrow> rs, s'')))"

definition nc_iterateNodes where
  "nc_iterateNodes ops nops fuel nodeUids s =
     convert_keys ops nops fuel (\<lambda>_. True) (map getCacheUid nodeUids) s"

definition not_trashed :: "('n, 'v) node_ops \<Rightarrow> 'n node_result \<Rightarrow> bool" where
  "not_trashed nops r = (case r of NodeOk _ node \<Rightarrow> \<not> no_trashed nops node | NodeMissing _ _ \<Rightarrow> True)"

definition nc_iterateChildren where
  "nc_iterateChildren ops nops fuel parentNodeUid s =
     convert_keys ops nops fuel (not_trashed nops) (co_keysByTag ops (parent_tag parentNodeUid) s) s"

definition nc_iterateTrashedNodes where
  "nc_iterateTrashedNodes ops nops fuel s =
     convert_keys ops nops fuel (\<lambda>_. True) (co_keysByTag ops trashed_tag s) s"

fun stale_keys ::
  "('s, 'v) cache_ops \<Rightarrow> ('n, 'v) node_ops \<Rightarrow> nat \<Rightarrow> string list \<Rightarrow> 's \<Rightarrow> ((thrown + unit) \<times> 's) option"
where
  "stale_keys ops nops fuel [] s = Some (Inr (), s)"
| "stale_keys ops nops fuel (key # keys) s =
     (case convertCacheResult ops nops fuel (co_entity ops key s) s of
        None \<Rightarrow> None
      | Some (Some (NodeOk _ node), s') \<Rightarrow>
          (case nc_setNode ops nops (no_setStale nops node) s' of
             (Inl e, s'') \<Rightarrow> Some (Inl e, s'')
           | (Inr _, s'') \<Rightarrow> stale_keys ops nops fuel keys s'')
      | Some (_, s') \<Rightarrow> stale_keys ops nops fuel keys s')"

definition setNodesStaleFromVolume ::
  "('s, 'v) cache_ops \<Rightarrow> ('n, 'v) node_ops \<Rightarrow> nat \<Rightarrow> string \<Rightarrow> 's \<Rightarrow> ((thrown + unit) \<times> 's) option"
where
  "setNodesStaleFromVolume ops nops fuel volumeId s =
     (case stale_keys ops nops fuel (co_keysByTag ops (volume_tag volumeId) s) s of
        None \<Rightarrow> None
      | Some (Inl e, s') \<Rightarrow> Some (Inl e, s')
      | Some (Inr _, s') \<Rightarrow>
          Some (Inr (), fold (\<lambda>key. co_removeEntities ops [key]) (co_keysByTag ops (children_volume_tag volumeId) s') s'))"

text \<open>\<open>removeVolume\<close> hands each root's cache key to \<open>removeNodes\<close>.\<close>

fun remove_each :: "('s, 'v) cache_ops \<Rightarrow> nat \<Rightarrow> string list \<Rightarrow> 's \<Rightarrow> 's option" where
  "remove_each ops fuel [] s = Some s"
| "remove_each ops fuel (key # keys) s =
     (case nc_removeNodes ops fuel [key] s of None \<Rightarrow> None | Some s' \<Rightarrow> remove_each ops fuel keys s')"

definition nc_removeVolume :: "('s, 'v) cache_ops \<Rightarrow> nat \<Rightarrow> string \<Rightarrow> 's \<Rightarrow> 's option" where
  "nc_removeVolume ops fuel volumeId s =
     remove_each ops fuel (map er_key (iterateEntitiesByTag ops (roots_tag volumeId) s)) s"

text \<open>The flag that a folder's listing is complete; its value is the string \<open>loaded\<close>.\<close>

definition setFolderChildrenLoaded ::
  "('s, 'v) cache_ops \<Rightarrow> 'v \<Rightarrow> string \<Rightarrow> 's \<Rightarrow> (thrown + unit) \<times> 's"
where
  "setFolderChildrenLoaded ops loaded nodeUid s =
     (case splitNodeUid nodeUid of
        Inl e \<Rightarrow> (Inl e, s)
      | Inr (volumeId, nodeId) \<Rightarrow>
          (Inr (), co_setEntity ops (children_key nodeUid) loaded (Some [children_volume_tag volumeId]) s))"

definition resetFolderChildrenLoaded :: "('s, 'v) cache_ops \<Rightarrow> string \<Rightarrow> 's \<Rightarrow> 's" where
  "resetFolderChildrenLoaded ops nodeUid s = co_removeEntities ops [children_key nodeUid] s"

definition isFolderChildrenLoaded :: "('s, 'v) cache_ops \<Rightarrow> string \<Rightarrow> 's \<Rightarrow> bool" where
  "isFolderChildrenLoaded ops nodeUid s =
     (case co_getEntity ops (children_key nodeUid) s of Inr _ \<Rightarrow> True | Inl _ \<Rightarrow> False)"

section \<open>NodesCryptoCache\<close>

text \<open>An entry is an object whose \<open>nodeKeys\<close> may be missing.\<close>

definition getCacheKey :: "string \<Rightarrow> string" where
  "getCacheKey nodeUid = ''nodeKeys-'' @ nodeUid"

definition setNodeKeys :: "('s, 'k option) cache_ops \<Rightarrow> string \<Rightarrow> 'k \<Rightarrow> 's \<Rightarrow> 's" where
  "setNodeKeys ops nodeUid keys s = co_setEntity ops (getCacheKey nodeUid) (Some keys) None s"

definition removeNodeKeys :: "('s, 'k option) cache_ops \<Rightarrow> string list \<Rightarrow> 's \<Rightarrow> 's" where
  "removeNodeKeys ops nodeUids s = co_removeEntities ops (map getCacheKey nodeUids) s"

definition cc_getNodeKeys :: "('s, 'k option) cache_ops \<Rightarrow> string \<Rightarrow> 's \<Rightarrow> (thrown + 'k) \<times> 's" where
  "cc_getNodeKeys ops nodeUid s =
     (case co_getEntity ops (getCacheKey nodeUid) s of
        Inl e \<Rightarrow> (Inl e, s)
      | Inr None \<Rightarrow> (Inl (throw_new JsError ''Failed to deserialize node keys''), removeNodeKeys ops [nodeUid] s)
      | Inr (Some keys) \<Rightarrow> (Inr keys, s))"

section \<open>NodesEventsHandler\<close>

text \<open>
  \<open>now\<close> is the current time. An event of a node carries its UID; a thrown error is logged and
  the cache stays as the failing call left it.
\<close>

definition apply_node_update ::
  "('n, 'v) node_ops \<Rightarrow> int \<Rightarrow> drive_event \<Rightarrow> 'n \<Rightarrow> 'n"
where
  "apply_node_update nops now event node =
     (let node = no_setShared nops (ev_isShared event) (no_setParentUid nops (ev_parentNodeUid event)
                   (no_setStale nops node))
      in if ev_isTrashed event = Some True
         then (if no_trashed nops node then node else no_setTrashTime nops (Some now) node)
         else no_setTrashTime nops None node)"

definition updateNodesCacheOnEvent ::
  "('s, 'v) cache_ops \<Rightarrow> ('n, 'v) node_ops \<Rightarrow> nat \<Rightarrow> int \<Rightarrow> drive_event \<Rightarrow> 's \<Rightarrow> 's option"
where
  "updateNodesCacheOnEvent ops nops fuel now event s =
     (case (ev_type event, ev_nodeUid event) of
        (Some TreeRefresh, _) \<Rightarrow>
          map_option snd (setNodesStaleFromVolume ops nops fuel (ev_treeEventScopeId event) s)
      | (Some TreeRemove, _) \<Rightarrow> nc_removeVolume ops fuel (ev_treeEventScopeId event) s
      | (Some NodeDeleted, Some nodeUid) \<Rightarrow> nc_removeNodes ops fuel [nodeUid] s
      | (Some NodeCreated, _) \<Rightarrow>
          Some (case present (ev_parentNodeUid event) of
                  Some parentNodeUid \<Rightarrow> resetFolderChildrenLoaded ops parentNodeUid s
                | None \<Rightarrow> s)
      | (Some NodeUpdated, Some nodeUid) \<Rightarrow>
          (case nc_getNode ops nops fuel nodeUid s of
             None \<Rightarrow> None
           | Some (Inl e, s') \<Rightarrow> Some s'
           | Some (Inr node, s') \<Rightarrow> Some (snd (nc_setNode ops nops (apply_node_update nops now event node) s')))
      | _ \<Rightarrow> Some s)"

section \<open>What the cache holds\<close>

text \<open>
  \<open>nodes_held flag ops nops good s store\<close>: the cache \<open>s\<close> represents the map \<open>store\<close> from UIDs to
  nodes. Every node can be read under its key, and each tag lists exactly the keys it should.
  Nothing is said of a UID for which \<open>flag\<close> holds and that has no node: under the key of the UID
  \<open>children-\<close>\<open>p\<close> the cache keeps whether the children of \<open>p\<close> are all loaded.
\<close>

definition parent_of :: "('n, 'v) node_ops \<Rightarrow> (string \<rightharpoonup> 'n) \<Rightarrow> string \<Rightarrow> string option" where
  "parent_of nops store uid = (case store uid of None \<Rightarrow> None | Some n \<Rightarrow> present (no_parentUid nops n))"

definition volume_of :: "string \<Rightarrow> string option" where
  "volume_of uid = (case splitNodeUid uid of Inr (v, _) \<Rightarrow> Some v | Inl _ \<Rightarrow> None)"

definition tagged :: "('n, 'v) node_ops \<Rightarrow> (string \<rightharpoonup> 'n) \<Rightarrow> string \<Rightarrow> string set" where
  "tagged nops store tag =
     {uid. \<exists>n v. store uid = Some n \<and> volume_of uid = Some v \<and> tag \<in> set (node_tags nops v n)}"

definition node_tag :: "string \<Rightarrow> bool" where
  "node_tag t \<longleftrightarrow> t = trashed_tag \<or> (\<exists>x. t = volume_tag x \<or> t = parent_tag x \<or> t = roots_tag x)"

definition nodes_held ::
  "(string \<Rightarrow> bool) \<Rightarrow> ('s, 'v) cache_ops \<Rightarrow> ('n, 'v) node_ops \<Rightarrow> ('n \<Rightarrow> bool) \<Rightarrow> 's \<Rightarrow> (string \<rightharpoonup> 'n) \<Rightarrow> bool"
where
  "nodes_held flag ops nops good s store \<longleftrightarrow>
     (\<forall>uid. case store uid of
        None \<Rightarrow> flag uid \<or> (\<exists>e. co_getEntity ops (getCacheUid uid) s = Inl e)
      | Some n \<Rightarrow> co_getEntity ops (getCacheUid uid) s = Inr (no_serialiseNode nops n)
           \<and> no_uid nops n = uid \<and> good n \<and> volume_of uid \<noteq> None)
     \<and> (\<forall>t. node_tag t \<longrightarrow> set (co_keysByTag ops t s) = getCacheUid ` tagged nops store t)"

lemma getCacheUid_inj [simp]: "getCacheUid a = getCacheUid b \<longleftrightarrow> a = b"
  by (simp add: getCacheUid_def)

lemma inj_getCacheUid: "inj getCacheUid"
  by (simp add: inj_def)

lemma getNodeUid_getCacheUid [simp]: "getNodeUid (getCacheUid uid) = Inr uid"
  by (simp add: getNodeUid_def getCacheUid_def js_startsWith_def)

lemma tag_simps [simp]:
  "volume_tag a = volume_tag b \<longleftrightarrow> a = b" "parent_tag a = parent_tag b \<longleftrightarrow> a = b"
  "roots_tag a = roots_tag b \<longleftrightarrow> a = b" "volume_tag a \<noteq> parent_tag b" "volume_tag a \<noteq> roots_tag b"
  "parent_tag a \<noteq> roots_tag b" "trashed_tag \<noteq> volume_tag a" "trashed_tag \<noteq> parent_tag a"
  "trashed_tag \<noteq> roots_tag a" "parent_tag a \<noteq> volume_tag b" "roots_tag a \<noteq> volume_tag b"
  "roots_tag a \<noteq> parent_tag b" "volume_tag a \<noteq> trashed_tag" "parent_tag a \<noteq> trashed_tag"
  "roots_tag a \<noteq> trashed_tag"
  by (simp_all add: volume_tag_def parent_tag_def roots_tag_def trashed_tag_def)

lemma node_tag_simps [simp]:
  "node_tag (volume_tag v)" "node_tag (parent_tag p)" "node_tag (roots_tag v)" "node_tag trashed_tag"
  by (auto simp: node_tag_def)

lemma distinct_node_tags [simp]: "distinct (node_tags nops v n)"
  by (simp add: node_tags_def split: option.split)

lemma children_volume_tag_not_node [simp]: "\<not> node_tag (children_volume_tag v)"
  by (auto simp: node_tag_def children_volume_tag_def volume_tag_def parent_tag_def roots_tag_def trashed_tag_def)

lemma tagged_parent:
  "(\<And>uid n. store uid = Some n \<Longrightarrow> volume_of uid \<noteq> None) \<Longrightarrow>
     tagged nops store (parent_tag p) = {uid. parent_of nops store uid = Some p}"
  by (fastforce simp: tagged_def parent_of_def node_tags_def split: option.splits if_splits)

lemma held_lookup:
  assumes "nodes_held flag ops nops good s store"
  shows "store uid = Some n \<Longrightarrow> co_getEntity ops (getCacheUid uid) s = Inr (no_serialiseNode nops n)
           \<and> no_uid nops n = uid \<and> good n \<and> volume_of uid \<noteq> None"
    and "store uid = None \<Longrightarrow> flag uid \<or> (\<exists>e. co_getEntity ops (getCacheUid uid) s = Inl e)"
proof -
  have "case store uid of
        None \<Rightarrow> flag uid \<or> (\<exists>e. co_getEntity ops (getCacheUid uid) s = Inl e)
      | Some n \<Rightarrow> co_getEntity ops (getCacheUid uid) s = Inr (no_serialiseNode nops n)
           \<and> no_uid nops n = uid \<and> good n \<and> volume_of uid \<noteq> None"
    using assms unfolding nodes_held_def by blast
  then show "store uid = Some n \<Longrightarrow> co_getEntity ops (getCacheUid uid) s = Inr (no_serialiseNode nops n)
           \<and> no_uid nops n = uid \<and> good n \<and> volume_of uid \<noteq> None"
    and "store uid = None \<Longrightarrow> flag uid \<or> (\<exists>e. co_getEntity ops (getCacheUid uid) s = Inl e)"
    by simp_all
qed

lemma held_tags:
  "nodes_held flag ops nops good s store \<Longrightarrow> node_tag t \<Longrightarrow>
     set (co_keysByTag ops t s) = getCacheUid ` tagged nops store t"
  by (simp add: nodes_held_def)

lemma held_children:
  assumes "nodes_held flag ops nops good s store"
  shows "set (co_keysByTag ops (parent_tag p) s) = getCacheUid ` {uid. parent_of nops store uid = Some p}"
  using held_tags [OF assms, of "parent_tag p"] tagged_parent [of store nops p] held_lookup(1) [OF assms]
  by simp

text \<open>The contract of a node type whose serialisation can be stored and read back.\<close>

locale node_store = storing_cache ops inv storable
  for ops :: "('s, 'v) cache_ops" and inv :: "'s \<Rightarrow> bool" and storable :: "'v \<Rightarrow> bool" +
  fixes nops :: "('n, 'v) node_ops" and good :: "'n \<Rightarrow> bool" and canon :: "'n \<Rightarrow> 'n"
  assumes ser_storable: "good n \<Longrightarrow> storable (no_serialiseNode nops n)"
    and deser_ser: "good n \<Longrightarrow> no_deserialiseNode nops (no_serialiseNode nops n) = Inr (canon n)"
    and canon_fields: "good n \<Longrightarrow> good (canon n) \<and> no_uid nops (canon n) = no_uid nops n
          \<and> present (no_parentUid nops (canon n)) = present (no_parentUid nops n)
          \<and> no_trashed nops (canon n) = no_trashed nops n
          \<and> no_isStale nops (canon n) = no_isStale nops n"
    and stale_fields: "good n \<Longrightarrow> good (no_setStale nops n) \<and> no_isStale nops (no_setStale nops n)
          \<and> no_uid nops (no_setStale nops n) = no_uid nops n
          \<and> no_parentUid nops (no_setStale nops n) = no_parentUid nops n
          \<and> no_trashed nops (no_setStale nops n) = no_trashed nops n"
begin

lemma setNode_holds:
  assumes held: "nodes_held flag ops nops good s store" and inv: "inv s" and good: "good n"
    and vol: "volume_of (no_uid nops n) = Some v"
  shows "fst (nc_setNode ops nops n s) = Inr ()
       \<and> inv (snd (nc_setNode ops nops n s))
       \<and> nodes_held flag ops nops good (snd (nc_setNode ops nops n s)) (store(no_uid nops n \<mapsto> n))
       \<and> (\<forall>t. \<not> node_tag t \<longrightarrow> set (co_keysByTag ops t (snd (nc_setNode ops nops n s)))
                                = set (co_keysByTag ops t s) - {getCacheUid (no_uid nops n)})"
proof -
  let ?u = "no_uid nops n"
  let ?s = "co_setEntity ops (getCacheUid ?u) (no_serialiseNode nops n) (Some (node_tags nops v n)) s"
  obtain i where split: "splitNodeUid ?u = Inr (v, i)"
    using vol by (auto simp: volume_of_def split: sum.splits)
  have tags: "set (co_keysByTag ops t ?s) = getCacheUid ` tagged nops (store(?u \<mapsto> n)) t" if "node_tag t" for t
  proof -
    have "tagged nops (store(?u \<mapsto> n)) t =
        (tagged nops store t - {?u}) \<union> (if t \<in> set (node_tags nops v n) then {?u} else {})"
      using vol by (auto simp: tagged_def)
    then show ?thesis
      using tag_set [OF inv distinct_node_tags [of nops v n], of t "getCacheUid ?u"] held_tags [OF held that]
      by auto
  qed
  have "case (store(?u \<mapsto> n)) uid of
        None \<Rightarrow> flag uid \<or> (\<exists>e. co_getEntity ops (getCacheUid uid) ?s = Inl e)
      | Some n \<Rightarrow> co_getEntity ops (getCacheUid uid) ?s = Inr (no_serialiseNode nops n)
           \<and> no_uid nops n = uid \<and> good n \<and> volume_of uid \<noteq> None" for uid
    using held_lookup [OF held, of uid] get_set [OF inv ser_storable [OF good]] good vol
    by (simp split: option.split)
  moreover have "set (co_keysByTag ops t ?s) = set (co_keysByTag ops t s) - {getCacheUid ?u}" if "\<not> node_tag t" for t
    using that tag_set [OF inv distinct_node_tags [of nops v n], of t "getCacheUid ?u"]
    by (auto simp: node_tags_def split: option.splits if_splits)
  ultimately show ?thesis
    using inv_set [OF inv distinct_node_tags] tags by (simp add: nc_setNode_def split nodes_held_def)
qed

lemma removeEntities_holds:
  assumes held: "nodes_held flag ops nops good s store" and inv: "inv s"
  shows "inv (co_removeEntities ops (map getCacheUid us) s)
       \<and> nodes_held flag ops nops good (co_removeEntities ops (map getCacheUid us) s) (store |` (- set us))"
proof -
  let ?s = "co_removeEntities ops (map getCacheUid us) s"
  have key: "getCacheUid uid \<in> set (map getCacheUid us) \<longleftrightarrow> uid \<in> set us" for uid
    by auto
  have "tagged nops (store |` (- set us)) t = tagged nops store t - set us" for t
    by (auto simp: tagged_def restrict_map_def split: if_splits)
  then have "set (co_keysByTag ops t ?s) = getCacheUid ` tagged nops (store |` (- set us)) t" if "node_tag t" for t
    using tag_remove [OF inv] held_tags [OF held that] by auto
  moreover have "case (store |` (- set us)) uid of
        None \<Rightarrow> flag uid \<or> (\<exists>e. co_getEntity ops (getCacheUid uid) ?s = Inl e)
      | Some n \<Rightarrow> co_getEntity ops (getCacheUid uid) ?s = Inr (no_serialiseNode nops n)
           \<and> no_uid nops n = uid \<and> good n \<and> volume_of uid \<noteq> None" for uid
    using held_lookup [OF held, of uid] get_removed [of "getCacheUid uid" "map getCacheUid us" s]
      get_remove_other [of "getCacheUid uid" "map getCacheUid us" s] key [of uid]
    by (auto simp: restrict_map_def split: option.split)
  ultimately show ?thesis
    using inv_remove [OF inv] by (simp add: nodes_held_def)
qed

end

text \<open>
  The parent relation the tags record. A node has one parent, so the recursion below a node that
  is itself no longer in the cache cannot return to where it has been: it ends even if the
  cached parents form a cycle.
\<close>

definition child_rel :: "('n, 'v) node_ops \<Rightarrow> (string \<rightharpoonup> 'n) \<Rightarrow> (string \<times> string) set" where
  "child_rel nops store = {(p, c). parent_of nops store c = Some p}"

definition below :: "('n, 'v) node_ops \<Rightarrow> (string \<rightharpoonup> 'n) \<Rightarrow> string \<Rightarrow> string set" where
  "below nops store p = {c. (p, c) \<in> (child_rel nops store)\<^sup>+}"

lemma below_unfold:
  "below nops store p = (\<Union>c \<in> {c. parent_of nops store c = Some p}. insert c (below nops store c))"
  by (auto simp: below_def child_rel_def elim: converse_tranclE intro: trancl_into_trancl2)

lemma child_rel_restrict:
  "child_rel nops (store |` (- X)) = {(p, c) \<in> child_rel nops store. c \<notin> X}"
  by (auto simp: child_rel_def parent_of_def restrict_map_def split: if_splits)

lemma trancl_avoid:
  "(u, c) \<in> R\<^sup>+ \<Longrightarrow> (u, c) \<in> {(a, b) \<in> R. b \<notin> X}\<^sup>+ \<or> (\<exists>x \<in> X. (x, c) \<in> R\<^sup>*)"
proof (induction rule: trancl_induct)
  case (base y)
  then show ?case by (cases "y \<in> X") auto
next
  case (step y z)
  then show ?case
    by (cases "z \<in> X") (auto intro: trancl_into_trancl rtrancl_into_rtrancl)
qed

lemma rtrancl_avoid:
  "(u, c) \<in> R\<^sup>* \<Longrightarrow> u \<in> X \<Longrightarrow> c \<in> X \<or> (\<exists>x \<in> X. (x, c) \<in> {(a, b) \<in> R. b \<notin> X}\<^sup>+)"
proof (induction rule: rtrancl_induct)
  case (step y z)
  then show ?case
    by (cases "z \<in> X") (auto intro: trancl_into_trancl)
qed simp

lemma below_restrict:
  "below nops (store |` (- X)) u \<subseteq> below nops store u"
  "c \<in> below nops store u \<Longrightarrow>
     c \<in> below nops (store |` (- X)) u \<or> (\<exists>x \<in> X. (x, c) \<in> (child_rel nops store)\<^sup>*)"
  using trancl_avoid [of u c "child_rel nops store" X] trancl_mono [of _ "{(p, c) \<in> child_rel nops store. c \<notin> X}"]
  by (auto simp: below_def child_rel_restrict)

lemma collect_children_ok:
  assumes "\<And>u. getCacheUid u \<in> set keys \<Longrightarrow> \<exists>cs. rec u = Some (Inr cs) \<and> set cs = getCacheUid ` F u"
    and "set keys \<subseteq> range getCacheUid"
  shows "\<exists>cs. collect_children rec keys = Some (Inr cs)
       \<and> set cs = getCacheUid ` (\<Union>u \<in> {u. getCacheUid u \<in> set keys}. insert u (F u))"
  using assms
proof (induction keys)
  case (Cons key keys)
  then obtain u where u: "key = getCacheUid u" by auto
  have "\<exists>cs. rec u = Some (Inr cs) \<and> set cs = getCacheUid ` F u"
    by (rule Cons.prems(1)) (simp add: u)
  then obtain cs where "rec u = Some (Inr cs)" "set cs = getCacheUid ` F u" by blast
  moreover obtain ds where "collect_children rec keys = Some (Inr ds)"
    "set ds = getCacheUid ` (\<Union>u \<in> {u. getCacheUid u \<in> set keys}. insert u (F u))"
    using Cons by auto
  ultimately show ?case by (auto simp: u)
qed simp

lemma children_found:
  assumes held: "nodes_held flag ops nops good s store" and fin: "finite (dom store)"
  shows "p \<in> A \<Longrightarrow> \<forall>a \<in> A. \<forall>q. parent_of nops store a = Some q \<longrightarrow> q \<in> A \<and> q \<noteq> p \<Longrightarrow>
     card (dom store - A) < fuel \<Longrightarrow>
     \<exists>cs. getRecursiveChildrenCacheUids ops s fuel p = Some (Inr cs)
        \<and> set cs = getCacheUid ` below nops store p"
proof (induction fuel arbitrary: p A)
  case (Suc fuel)
  let ?keys = "co_keysByTag ops (parent_tag p) s"
  have keys: "set ?keys = getCacheUid ` {c. parent_of nops store c = Some p}"
    by (rule held_children [OF held])
  have rec: "\<exists>cs. getRecursiveChildrenCacheUids ops s fuel c = Some (Inr cs) \<and> set cs = getCacheUid ` below nops store c"
    if "getCacheUid c \<in> set ?keys" for c
  proof (rule Suc.IH [of c "insert c A"])
    have c: "parent_of nops store c = Some p" "c \<in> dom store"
      using that keys by (auto simp: parent_of_def split: option.splits)
    then have "c \<notin> A" using Suc.prems(2) by blast
    then show "\<forall>a \<in> insert c A. \<forall>q. parent_of nops store a = Some q \<longrightarrow> q \<in> insert c A \<and> q \<noteq> c"
      using Suc.prems(1,2) c(1) by auto
    have "dom store - insert c A \<subset> dom store - A"
      using c(2) \<open>c \<notin> A\<close> by blast
    moreover have "finite (dom store - A)"
      using fin by simp
    ultimately have "card (dom store - insert c A) < card (dom store - A)"
      by (simp add: psubset_card_mono)
    then show "card (dom store - insert c A) < fuel"
      using Suc.prems(3) by linarith
  qed simp
  have "{u. getCacheUid u \<in> set ?keys} = {c. parent_of nops store c = Some p}"
    using keys by auto
  then have "(\<Union>u \<in> {u. getCacheUid u \<in> set ?keys}. insert u (below nops store u)) = below nops store p"
    by (simp only:) (rule below_unfold [symmetric])
  moreover have "set ?keys \<subseteq> range getCacheUid"
    using keys by auto
  ultimately show ?case
    using collect_children_ok [of ?keys "getRecursiveChildrenCacheUids ops s fuel" "below nops store", OF rec]
    by simp
qed simp

lemma restrict_compl: "(m |` (- X)) |` (- Y) = m |` (- (X \<union> Y))"
  by (auto simp: restrict_map_def)

lemma Union_below_restrict:
  "below nops store u \<union> (\<Union>v \<in> us. below nops (store |` (- below nops store u)) v) =
     (\<Union>v \<in> insert u us. below nops store v)"
proof -
  have closed: "c \<in> below nops store u" if "x \<in> below nops store u" "(x, c) \<in> (child_rel nops store)\<^sup>*" for x c
    using that by (auto simp: below_def)
  show ?thesis
    using below_restrict [where nops = nops and store = store and X = "below nops store u"] closed by fastforce
qed

context node_store begin

lemma remove_children_holds:
  assumes "finite (dom store)" and "card (dom store) < fuel"
  shows "nodes_held flag ops nops good s store \<Longrightarrow> inv s \<Longrightarrow> \<forall>u \<in> set us. store u = None \<Longrightarrow>
    \<exists>s'. remove_children_of ops fuel us s = Some s' \<and> inv s'
       \<and> nodes_held flag ops nops good s' (store |` (- (\<Union>u \<in> set us. below nops store u)))"
  using assms
proof (induction us arbitrary: s store)
  case Nil
  then show ?case by (auto simp: restrict_map_def)
next
  case (Cons u us)
  have "card (dom store - {u}) < fuel"
    using Cons.prems(4,5) by (meson Diff_subset card_mono le_less_trans)
  then obtain cs where cs: "getRecursiveChildrenCacheUids ops s fuel u = Some (Inr cs)"
    "set cs = getCacheUid ` below nops store u"
    using children_found [OF Cons.prems(1,4), of u "{u}" fuel] Cons.prems(3) by (auto simp: parent_of_def)
  have "\<exists>ds. rev cs = map getCacheUid ds"
    using cs(2) by (metis ex_map_conv imageE set_rev)
  then obtain ds where ds: "rev cs = map getCacheUid ds" by blast
  then have "getCacheUid ` set ds = getCacheUid ` below nops store u"
    using cs(2) by (metis list.set_map set_rev)
  then have set_ds: "set ds = below nops store u"
    by (simp add: inj_image_eq_iff [OF inj_getCacheUid])
  let ?s = "co_removeEntities ops (rev cs) s" and ?store = "store |` (- below nops store u)"
  have "inv ?s \<and> nodes_held flag ops nops good ?s ?store"
    using removeEntities_holds [OF Cons.prems(1,2), of ds] by (simp add: ds set_ds)
  moreover have "finite (dom ?store)" "card (dom ?store) < fuel"
    using Cons.prems(4,5) by (auto intro: le_less_trans [OF card_mono])
  moreover have "\<forall>u' \<in> set us. ?store u' = None"
    using Cons.prems(3) by (auto simp: restrict_map_def)
  ultimately obtain s' where s': "remove_children_of ops fuel us ?s = Some s'" "inv s'"
    "nodes_held flag ops nops good s' (?store |` (- (\<Union>v \<in> set us. below nops ?store v)))"
    using Cons.IH by blast
  have "?store |` (- (\<Union>v \<in> set us. below nops ?store v)) = store |` (- (\<Union>v \<in> set (u # us). below nops store v))"
    using Union_below_restrict [of nops store u "set us"] by (simp only: restrict_compl list.set)
  with cs(1) s' show ?case by simp
qed

lemma removeNodes_holds:
  assumes "nodes_held flag ops nops good s store" and "inv s" and "finite (dom store)" and "card (dom store) < fuel"
  shows "\<exists>s'. nc_removeNodes ops fuel us s = Some s' \<and> inv s'
     \<and> nodes_held flag ops nops good s' (store |` (- ((child_rel nops store)\<^sup>* `` set us)))"
proof -
  let ?s = "co_removeEntities ops (map getCacheUid us) s" and ?store = "store |` (- set us)"
  have "inv ?s \<and> nodes_held flag ops nops good ?s ?store"
    by (rule removeEntities_holds [OF assms(1,2)])
  moreover have "finite (dom ?store)" "card (dom ?store) < fuel"
    using assms(3,4) by (auto intro: le_less_trans [OF card_mono])
  ultimately obtain s' where s': "remove_children_of ops fuel us ?s = Some s'" "inv s'"
    "nodes_held flag ops nops good s' (?store |` (- (\<Union>u \<in> set us. below nops ?store u)))"
    using remove_children_holds [where store = ?store and fuel = fuel and s = ?s and us = us] by (auto simp: restrict_map_def)
  have "set us \<union> (\<Union>u \<in> set us. below nops ?store u) = (child_rel nops store)\<^sup>* `` set us"
  proof (intro equalityI subsetI)
    fix c assume "c \<in> (child_rel nops store)\<^sup>* `` set us"
    then obtain u where "u \<in> set us" "(u, c) \<in> (child_rel nops store)\<^sup>*" by auto
    then show "c \<in> set us \<union> (\<Union>u \<in> set us. below nops ?store u)"
      using rtrancl_avoid [of u c "child_rel nops store" "set us"] by (auto simp: below_def child_rel_restrict)
  next
    fix c assume "c \<in> set us \<union> (\<Union>u \<in> set us. below nops ?store u)"
    then consider "c \<in> set us" | u where "u \<in> set us" "c \<in> below nops store u"
      using below_restrict(1) [where nops = nops and store = store and X = "set us"] by blast
    then show "c \<in> (child_rel nops store)\<^sup>* `` set us"
      by cases (auto simp: below_def dest: trancl_into_rtrancl)
  qed
  then show ?thesis
    using s' unfolding nc_removeNodes_def restrict_compl by simp
qed

end

section \<open>NodesCache: the JSON of a node\<close>

definition obj_set :: "string \<Rightarrow> jsval \<Rightarrow> jsval \<Rightarrow> jsval" where
  "obj_set k v node = JObj (AList.update k v (js_spread node))"

definition string_field :: "string \<Rightarrow> jsval \<Rightarrow> string option" where
  "string_field k node = (case js_opt k node of JStr s \<Rightarrow> Some s | _ \<Rightarrow> None)"

definition js_string_or_undefined :: "string option \<Rightarrow> jsval" where
  "js_string_or_undefined s = (case s of Some s \<Rightarrow> JStr s | None \<Rightarrow> JUndefined)"

text \<open>The tests \<open>!v || typeof v !== t\<close> and \<open>typeof v !== t && v !== undefined\<close>.\<close>

definition not_a :: "string \<Rightarrow> jsval \<Rightarrow> bool" where
  "not_a t v \<longleftrightarrow> \<not> js_truthy v \<or> js_typeof v \<noteq> t"

definition not_optional :: "string \<Rightarrow> jsval \<Rightarrow> bool" where
  "not_optional t v \<longleftrightarrow> js_typeof v \<noteq> t \<and> v \<noteq> JUndefined"

definition invalid_node_data :: "jsval \<Rightarrow> bool" where
  "invalid_node_data node \<longleftrightarrow>
     not_a ''object'' node
     \<or> not_a ''string'' (js_opt ''uid'' node)
     \<or> not_a ''string'' (js_opt ''directRole'' node)
     \<or> not_optional ''object'' (js_opt ''membership'' node)
     \<or> not_a ''string'' (js_opt ''type'' node)
     \<or> not_optional ''string'' (js_opt ''mediaType'' node)
     \<or> js_typeof (js_opt ''isShared'' node) \<noteq> ''boolean''
     \<or> not_a ''string'' (js_opt ''creationTime'' node)
     \<or> js_typeof (js_opt ''modificationTime'' node) \<noteq> ''string''
     \<or> not_optional ''string'' (js_opt ''trashTime'' node)
     \<or> not_optional ''object'' (js_opt ''folder'' node)
     \<or> not_optional ''string'' (js_opt ''claimedModificationTime'' (js_opt ''folder'' node))"

definition date_if :: "(jsval \<Rightarrow> int option) \<Rightarrow> jsval \<Rightarrow> jsval" where
  "date_if date_of v = (if js_truthy v then js_new_date date_of v else JUndefined)"

definition deserialiseRevision :: "(jsval \<Rightarrow> int option) \<Rightarrow> jsval \<Rightarrow> thrown + jsval" where
  "deserialiseRevision date_of revision =
     (if not_optional ''object'' revision \<or> not_optional ''string'' (js_opt ''creationTime'' revision)
      then Inl (throw_new JsError ''Invalid revision data'')
      else if js_truthy (js_opt ''ok'' revision)
      then (let rvalue = js_opt ''value'' revision in
            try_bind (js_get ''creationTime'' rvalue) (\<lambda>creationTime.
              Inr (JObj [(''ok'', JBool True),
                         (''value'', JObj (js_with (js_spread rvalue)
                            [(''creationTime'', js_new_date date_of creationTime),
                             (''claimedModificationTime'',
                              date_if date_of (js_opt ''claimedModificationTime'' rvalue))]))])))
      else Inr revision)"

definition revived_membership :: "(jsval \<Rightarrow> int option) \<Rightarrow> jsval \<Rightarrow> jsval" where
  "revived_membership date_of membership =
     (if js_truthy membership
      then JObj (js_with (js_spread membership)
             [(''inviteTime'', js_new_date date_of (js_opt ''inviteTime'' membership))])
      else JUndefined)"

definition revived_folder :: "(jsval \<Rightarrow> int option) \<Rightarrow> jsval \<Rightarrow> jsval" where
  "revived_folder date_of folder =
     (if js_truthy folder
      then JObj (js_with (js_spread folder)
             [(''claimedModificationTime'', date_if date_of (js_opt ''claimedModificationTime'' folder))])
      else JUndefined)"

definition revive_node :: "(jsval \<Rightarrow> int option) \<Rightarrow> jsval \<Rightarrow> jsval \<Rightarrow> jsval" where
  "revive_node date_of node activeRevision =
     JObj (js_with (js_spread node)
       [(''creationTime'', js_new_date date_of (js_opt ''creationTime'' node)),
        (''modificationTime'', js_new_date date_of (js_opt ''modificationTime'' node)),
        (''trashTime'', date_if date_of (js_opt ''trashTime'' node)),
        (''activeRevision'', activeRevision),
        (''membership'', revived_membership date_of (js_opt ''membership'' node)),
        (''folder'', revived_folder date_of (js_opt ''folder'' node))])"

definition deserialiseNode :: "(jsval \<Rightarrow> int option) \<Rightarrow> js_text \<Rightarrow> thrown + jsval" where
  "deserialiseNode date_of nodeData =
     try_bind (json_parse nodeData) (\<lambda>node.
       if invalid_node_data node then Inl (throw_new JsError ''Invalid node data'')
       else try_bind (if js_truthy (js_opt ''activeRevision'' node)
                      then deserialiseRevision date_of (js_opt ''activeRevision'' node) else Inr JUndefined)
         (\<lambda>activeRevision. Inr (revive_node date_of node activeRevision)))"

definition serialiseNode :: "jsval \<Rightarrow> js_text" where
  "serialiseNode node = json_stringify node"

definition NodesCache_ops :: "(jsval \<Rightarrow> int option) \<Rightarrow> (jsval, js_text) node_ops" where
  "NodesCache_ops date_of =
     \<lparr>no_uid = (\<lambda>n. case string_field ''uid'' n of Some s \<Rightarrow> s | None \<Rightarrow> ''''),
      no_parentUid = string_field ''parentUid'',
      no_trashed = (\<lambda>n. js_truthy (js_opt ''trashTime'' n)),
      no_isStale = (\<lambda>n. js_truthy (js_opt ''isStale'' n)),
      no_setStale = obj_set ''isStale'' (JBool True),
      no_setParentUid = (\<lambda>p. obj_set ''parentUid'' (js_string_or_undefined p)),
      no_setShared = (\<lambda>b. obj_set ''isShared'' (case b of Some b \<Rightarrow> JBool b | None \<Rightarrow> JUndefined)),
      no_setTrashTime = (\<lambda>t. obj_set ''trashTime'' (case t of Some t \<Rightarrow> JDate (Some t) | None \<Rightarrow> JUndefined)),
      no_serialiseNode = serialiseNode,
      no_deserialiseNode = deserialiseNode date_of\<rparr>"

text \<open>The nodes the SDK builds: fields of the declared types, dates valid, no property twice.\<close>

definition valid_date :: "jsval \<Rightarrow> bool" where
  "valid_date v \<longleftrightarrow> (\<exists>t. v = JDate (Some t))"

definition plain_object :: "jsval \<Rightarrow> bool" where
  "plain_object v \<longleftrightarrow> (\<exists>fs. v = JObj fs \<and> distinct (map fst fs))"

definition good_revision :: "jsval \<Rightarrow> bool" where
  "good_revision v \<longleftrightarrow>
     v = JUndefined
     \<or> plain_object v \<and> js_opt ''creationTime'' v = JUndefined
       \<and> (js_opt ''ok'' v = JBool True \<and> plain_object (js_opt ''value'' v) \<or> js_opt ''ok'' v = JBool False)"

definition good_folder :: "jsval \<Rightarrow> bool" where
  "good_folder v \<longleftrightarrow>
     v = JUndefined
     \<or> plain_object v
       \<and> (js_opt ''claimedModificationTime'' v = JUndefined \<or> valid_date (js_opt ''claimedModificationTime'' v))"

definition good_node :: "jsval \<Rightarrow> bool" where
  "good_node n \<longleftrightarrow>
     plain_object n
     \<and> (\<exists>s. js_opt ''uid'' n = JStr s \<and> s \<noteq> '''')
     \<and> (\<exists>s. js_opt ''directRole'' n = JStr s \<and> s \<noteq> '''')
     \<and> (\<exists>s. js_opt ''type'' n = JStr s \<and> s \<noteq> '''')
     \<and> (js_opt ''parentUid'' n = JUndefined \<or> (\<exists>s. js_opt ''parentUid'' n = JStr s))
     \<and> (js_opt ''mediaType'' n = JUndefined \<or> (\<exists>s. js_opt ''mediaType'' n = JStr s))
     \<and> (\<exists>b. js_opt ''isShared'' n = JBool b) \<and> (\<exists>b. js_opt ''isStale'' n = JBool b)
     \<and> valid_date (js_opt ''creationTime'' n) \<and> valid_date (js_opt ''modificationTime'' n)
     \<and> (js_opt ''trashTime'' n = JUndefined \<or> valid_date (js_opt ''trashTime'' n))
     \<and> (js_opt ''membership'' n = JUndefined \<or> plain_object (js_opt ''membership'' n))
     \<and> good_folder (js_opt ''folder'' n) \<and> good_revision (js_opt ''activeRevision'' n)"

lemma plain_opt_to_json: "plain_object v \<Longrightarrow> js_opt k (to_json v) = to_json (js_opt k v)"
  by (auto simp: plain_object_def simp del: js_opt.simps to_json.simps intro: js_opt_to_json)

lemma plain_object_JUndefined [simp]: "\<not> plain_object JUndefined"
  by (simp add: plain_object_def)

lemma map_fst_to_json: "map fst (map (\<lambda>(k, v). (k, to_json v)) gs) = map fst gs"
  by (induction gs) auto

lemma plain_to_json:
  assumes "plain_object v"
  shows "plain_object (to_json v)"
proof -
  obtain fs where "v = JObj fs" "distinct (map fst fs)"
    using assms by (auto simp: plain_object_def)
  moreover from this have "distinct (map fst (filter (\<lambda>(k, v). v \<noteq> JUndefined) fs))"
    by (simp add: distinct_map_filter)
  ultimately show ?thesis
    using map_fst_to_json [of "filter (\<lambda>(k, v). v \<noteq> JUndefined) fs"]
    by (simp add: plain_object_def del: map_map)
qed

lemma plain_with: "plain_object v \<Longrightarrow> plain_object (JObj (js_with (js_spread v) us))"
proof -
  have "distinct (map fst fs) \<Longrightarrow> distinct (map fst (js_with fs us))" for fs
    by (induction us arbitrary: fs) (auto simp: js_with_def distinct_update)
  then show "plain_object v \<Longrightarrow> plain_object (JObj (js_with (js_spread v) us))"
    by (auto simp: plain_object_def)
qed

lemma plain_typeof: "plain_object v \<Longrightarrow> js_truthy v \<and> js_typeof v = ''object'' \<and> v \<noteq> JUndefined \<and> v \<noteq> JNull"
  by (auto simp: plain_object_def)

lemma plain_spread: "plain_object v \<Longrightarrow> JObj (js_spread v) = v"
  by (auto simp: plain_object_def)

lemmas js_opt_with_simps = js_opt_with js_opt_AList_update

lemma opt_obj_set: "plain_object n \<Longrightarrow> js_opt k (obj_set k' v n) = (if k = k' then v else js_opt k n)"
  unfolding obj_set_def js_opt_AList_update by (simp add: plain_spread)

lemma plain_obj_set: "plain_object n \<Longrightarrow> plain_object (obj_set k v n)"
  using plain_with [of n "[(k, v)]"] by (simp add: obj_set_def js_with_def)

lemma revived_opts:
  assumes "plain_object n"
  shows "js_opt k (revive_node date_of n r) =
     (if k = ''creationTime'' then js_new_date date_of (js_opt ''creationTime'' n)
      else if k = ''modificationTime'' then js_new_date date_of (js_opt ''modificationTime'' n)
      else if k = ''trashTime'' then date_if date_of (js_opt ''trashTime'' n)
      else if k = ''activeRevision'' then r
      else if k = ''membership'' then revived_membership date_of (js_opt ''membership'' n)
      else if k = ''folder'' then revived_folder date_of (js_opt ''folder'' n)
      else js_opt k n)"
  unfolding revive_node_def js_opt_with_simps plain_spread [OF assms]
  by (simp del: js_opt.simps)

lemma date_if_valid [simp]: "valid_date v \<Longrightarrow> date_if date_of (to_json v) = v"
  by (auto simp: valid_date_def date_if_def js_new_date_def)

lemma js_new_date_valid [simp]: "valid_date v \<Longrightarrow> js_new_date date_of (to_json v) = v"
  by (auto simp: valid_date_def js_new_date_def)

lemma date_if_undefined [simp]: "date_if date_of JUndefined = JUndefined"
  by (simp add: date_if_def)

lemma revision_roundtrip:
  assumes "good_revision v" and "v \<noteq> JUndefined"
  shows "\<exists>r. deserialiseRevision date_of (to_json v) = Inr r \<and> good_revision r \<and> r \<noteq> JUndefined"
proof -
  from assms have v: "plain_object v" "js_opt ''creationTime'' v = JUndefined"
    and ok: "js_opt ''ok'' v = JBool True \<and> plain_object (js_opt ''value'' v) \<or> js_opt ''ok'' v = JBool False"
    by (auto simp: good_revision_def)
  note opt = plain_opt_to_json [OF v(1)]
  have obj: "\<not> not_optional ''object'' (to_json v)"
    using plain_typeof [OF plain_to_json [OF v(1)]] by (simp add: not_optional_def)
  from ok show ?thesis
  proof
    assume ok: "js_opt ''ok'' v = JBool True \<and> plain_object (js_opt ''value'' v)"
    let ?rvalue = "to_json (js_opt ''value'' v)"
    have pv: "plain_object ?rvalue"
      using ok plain_to_json by blast
    have plain: "plain_object (JObj (js_with (js_spread ?rvalue) us))" for us
      by (rule plain_with [OF pv])
    show ?thesis
      using ok obj v plain plain_typeof [OF pv]
      by (auto simp: deserialiseRevision_def opt js_get_def not_optional_def Let_def good_revision_def
          plain_object_def [of "JObj [(_, _), (_, _)]"])
  next
    assume "js_opt ''ok'' v = JBool False"
    then show ?thesis
      using obj v plain_to_json [OF v(1)] plain_typeof [OF plain_to_json [OF v(1)]]
      by (auto simp: deserialiseRevision_def opt not_optional_def good_revision_def)
  qed
qed

lemma folder_roundtrip:
  assumes "good_folder v"
  shows "good_folder (revived_folder date_of (to_json v))"
proof (cases "v = JUndefined")
  case False
  with assms have v: "plain_object v"
    "js_opt ''claimedModificationTime'' v = JUndefined \<or> valid_date (js_opt ''claimedModificationTime'' v)"
    by (auto simp: good_folder_def)
  let ?f = "to_json v"
  have f: "plain_object ?f" by (rule plain_to_json [OF v(1)])
  have "js_opt ''claimedModificationTime'' (revived_folder date_of ?f)
      = date_if date_of (js_opt ''claimedModificationTime'' ?f)"
    using plain_typeof [OF f] by (simp add: revived_folder_def js_opt_with_simps del: js_opt.simps)
  with v show ?thesis
    using plain_with [OF f] plain_typeof [OF f]
    by (auto simp: good_folder_def revived_folder_def plain_opt_to_json [OF v(1)] simp del: js_opt.simps)
qed (simp add: revived_folder_def good_folder_def)

lemma membership_roundtrip:
  "v = JUndefined \<or> plain_object v \<Longrightarrow>
     revived_membership date_of (to_json v) = JUndefined \<or> plain_object (revived_membership date_of (to_json v))"
  using plain_with [OF plain_to_json, of v] by (auto simp: revived_membership_def)

lemma declared_types:
  "\<exists>s. v = JStr s \<and> s \<noteq> '''' \<Longrightarrow> \<not> not_a ''string'' (to_json v)"
  "valid_date v \<Longrightarrow> \<not> not_a ''string'' (to_json v) \<and> js_typeof (to_json v) = ''string''"
  "v = JUndefined \<or> (\<exists>s. v = JStr s) \<Longrightarrow> \<not> not_optional ''string'' (to_json v)"
  "v = JUndefined \<or> valid_date v \<Longrightarrow> \<not> not_optional ''string'' (to_json v)"
  "v = JUndefined \<or> plain_object v \<Longrightarrow> \<not> not_optional ''object'' (to_json v)"
  "\<exists>b. v = JBool b \<Longrightarrow> js_typeof (to_json v) = ''boolean''"
  using plain_typeof [OF plain_to_json, of v]
  by (auto simp: not_a_def not_optional_def valid_date_def)

lemma good_node_valid:
  assumes "good_node n"
  shows "\<not> invalid_node_data (to_json n)"
proof -
  from assms have n: "plain_object n" by (simp add: good_node_def)
  let ?f = "js_opt ''folder'' n"
  have "good_folder ?f"
    using assms by (simp add: good_node_def)
  then have "js_opt ''claimedModificationTime'' (to_json ?f) = to_json (js_opt ''claimedModificationTime'' ?f)"
    "?f = JUndefined \<or> plain_object ?f"
    "js_opt ''claimedModificationTime'' ?f = JUndefined \<or> valid_date (js_opt ''claimedModificationTime'' ?f)"
    by (auto simp: good_folder_def plain_opt_to_json simp del: js_opt.simps(1))
  moreover have "\<not> not_a ''object'' (to_json n)"
    using plain_typeof [OF plain_to_json [OF n]] by (simp add: not_a_def)
  ultimately show ?thesis
    using assms
    unfolding invalid_node_data_def plain_opt_to_json [OF n] good_node_def
    by (simp add: declared_types del: js_opt.simps)
qed

lemma node_roundtrip:
  assumes "good_node n"
  shows "\<exists>r. deserialiseNode date_of (serialiseNode n) = Inr (revive_node date_of (to_json n) r)
       \<and> good_node (revive_node date_of (to_json n) r)"
proof -
  from assms have n: "plain_object n" by (simp add: good_node_def)
  let ?a = "js_opt ''activeRevision'' n"
  have "\<exists>r. (if js_truthy (js_opt ''activeRevision'' (to_json n))
             then deserialiseRevision date_of (js_opt ''activeRevision'' (to_json n)) else Inr JUndefined) = Inr r
          \<and> good_revision r"
  proof (cases "?a = JUndefined")
    case True
    then show ?thesis by (simp add: plain_opt_to_json [OF n] good_revision_def)
  next
    case False
    then have "good_revision ?a" "plain_object ?a"
      using assms by (auto simp: good_node_def good_revision_def)
    then show ?thesis
      using revision_roundtrip [of ?a date_of] False plain_typeof [OF plain_to_json, of ?a]
      by (auto simp: plain_opt_to_json [OF n])
  qed
  then obtain r where r: "(if js_truthy (js_opt ''activeRevision'' (to_json n))
             then deserialiseRevision date_of (js_opt ''activeRevision'' (to_json n)) else Inr JUndefined) = Inr r"
    "good_revision r" by blast
  have "deserialiseNode date_of (serialiseNode n) = Inr (revive_node date_of (to_json n) r)"
    using good_node_valid [OF assms] r(1) by (simp add: deserialiseNode_def serialiseNode_def json_stringify_def)
  moreover have "good_node (revive_node date_of (to_json n) r)"
  proof -
    let ?n = "revive_node date_of (to_json n) r"
    note opts = revived_opts [OF plain_to_json [OF n], of _ date_of r]
    have same: "js_opt k ?n = to_json (js_opt k n)"
      if "k \<in> {''uid'', ''directRole'', ''type'', ''parentUid'', ''mediaType'', ''isShared'', ''isStale''}" for k
      using that unfolding opts plain_opt_to_json [OF n] by (elim insertE) simp_all
    have keep: "js_opt k n = to_json (js_opt k n)"
      if "k \<in> {''uid'', ''directRole'', ''type'', ''parentUid'', ''mediaType'', ''isShared'', ''isStale''}" for k
      using that assms unfolding good_node_def by (elim insertE conjE exE disjE) simp_all
    have copied: "js_opt k ?n = js_opt k n"
      if "k \<in> {''uid'', ''directRole'', ''type'', ''parentUid'', ''mediaType'', ''isShared'', ''isStale''}" for k
      using same [OF that] keep [OF that] by simp
    have dates: "js_opt ''creationTime'' ?n = js_opt ''creationTime'' n"
      "js_opt ''modificationTime'' ?n = js_opt ''modificationTime'' n"
      "js_opt ''trashTime'' ?n = js_opt ''trashTime'' n"
      using assms unfolding opts plain_opt_to_json [OF n] good_node_def
      by (elim conjE, simp, elim conjE, simp, elim conjE disjE, simp_all)
    have rest: "js_opt ''membership'' ?n = revived_membership date_of (to_json (js_opt ''membership'' n))"
      "js_opt ''folder'' ?n = revived_folder date_of (to_json (js_opt ''folder'' n))"
      "js_opt ''activeRevision'' ?n = r"
      unfolding opts plain_opt_to_json [OF n] by simp_all
    have "plain_object ?n"
      unfolding revive_node_def by (rule plain_with [OF plain_to_json [OF n]])
    then show ?thesis
      using assms folder_roundtrip [of "js_opt ''folder'' n" date_of]
        membership_roundtrip [of "js_opt ''membership'' n" date_of] r(2)
      unfolding good_node_def rest dates
      by (simp only: copied insert_iff simp_thms)
  qed
  ultimately show ?thesis by blast
qed

definition reread_node :: "(jsval \<Rightarrow> int option) \<Rightarrow> jsval \<Rightarrow> jsval" where
  "reread_node date_of n = (case deserialiseNode date_of (serialiseNode n) of Inr m \<Rightarrow> m | Inl _ \<Rightarrow> n)"

lemma good_node_set_stale:
  assumes "good_node n"
  shows "good_node (obj_set ''isStale'' (JBool b) n)"
proof -
  from assms have n: "plain_object n" by (simp add: good_node_def)
  show ?thesis
    using assms plain_obj_set [OF n] unfolding good_node_def opt_obj_set [OF n] by simp
qed

lemma reread_good:
  assumes "good_node n"
  shows "deserialiseNode date_of (serialiseNode n) = Inr (reread_node date_of n)
       \<and> good_node (reread_node date_of n)
       \<and> (\<forall>k \<in> {''uid'', ''parentUid'', ''trashTime'', ''isStale''}. js_opt k (reread_node date_of n) = js_opt k n)"
proof -
  from assms have n: "plain_object n" by (simp add: good_node_def)
  obtain r where r: "deserialiseNode date_of (serialiseNode n) = Inr (revive_node date_of (to_json n) r)"
    "good_node (revive_node date_of (to_json n) r)"
    using node_roundtrip [OF assms] by blast
  have eq: "reread_node date_of n = revive_node date_of (to_json n) r"
    by (simp add: reread_node_def r(1))
  have "js_opt k (revive_node date_of (to_json n) r) = js_opt k n"
    if "k \<in> {''uid'', ''parentUid'', ''trashTime'', ''isStale''}" for k
    using that assms
    unfolding revived_opts [OF plain_to_json [OF n]] plain_opt_to_json [OF n] good_node_def
    by (elim insertE conjE exE disjE) simp_all
  with r eq show ?thesis by simp
qed

interpretation nodes: node_store "memory_ops text_truthy" mc_inv text_truthy "NodesCache_ops date_of"
    good_node "reread_node date_of" for date_of
proof (unfold_locales, goal_cases)
  case (1 n)
  then show ?case by (simp add: NodesCache_ops_def serialiseNode_def json_stringify_def text_truthy_def)
next
  case (2 n)
  then show ?case using reread_good by (simp add: NodesCache_ops_def)
next
  case (3 n)
  then show ?case
    using reread_good [OF 3, of date_of] by (simp add: NodesCache_ops_def string_field_def)
next
  case (4 n)
  then have "plain_object n" by (simp add: good_node_def)
  then show ?case
    using good_node_set_stale [OF 4, of True]
    by (simp add: NodesCache_ops_def string_field_def opt_obj_set)
qed

context node_store begin

lemma convert_held:
  assumes held: "nodes_held flag ops nops good s store" and flag: "store u = None \<Longrightarrow> \<not> flag u"
  shows "\<exists>r. convertCacheResult ops nops fuel (co_entity ops (getCacheUid u) s) s = Some (Some r, s)
     \<and> nr_uid r = u
     \<and> (case store u of Some n \<Rightarrow> r = NodeOk u (canon n) | None \<Rightarrow> \<exists>e. r = NodeMissing u e)"
proof (cases "store u")
  case None
  then obtain m where "co_entity ops (getCacheUid u) s = EntityMissing (getCacheUid u) m"
    using held_lookup(2) [OF held] flag entity_missing_if by blast
  with None show ?thesis by (simp add: convertCacheResult_def)
next
  case (Some n)
  then have "co_entity ops (getCacheUid u) s = EntityOk (getCacheUid u) (no_serialiseNode nops n)" "good n"
    using held_lookup(1) [OF held Some] by (simp_all add: entity_ok)
  with Some show ?thesis by (simp add: convertCacheResult_def deser_ser)
qed

lemma convert_keys_held:
  assumes held: "nodes_held flag ops nops good s store"
  shows "\<forall>u \<in> set us. store u = None \<longrightarrow> \<not> flag u \<Longrightarrow>
    \<exists>rs. convert_keys ops nops fuel keep (map getCacheUid us) s = Some (filter keep rs, s)
     \<and> map nr_uid rs = us
     \<and> (\<forall>r \<in> set rs. case store (nr_uid r) of
          Some n \<Rightarrow> r = NodeOk (nr_uid r) (canon n) | None \<Rightarrow> \<exists>e. r = NodeMissing (nr_uid r) e)"
proof (induction us)
  case (Cons u us)
  have "\<forall>u \<in> set us. store u = None \<longrightarrow> \<not> flag u" using Cons.prems by simp
  from Cons.IH [OF this] obtain rs where rs:
    "convert_keys ops nops fuel keep (map getCacheUid us) s = Some (filter keep rs, s)"
    "map nr_uid rs = us"
    "\<forall>r \<in> set rs. case store (nr_uid r) of
        Some n \<Rightarrow> r = NodeOk (nr_uid r) (canon n) | None \<Rightarrow> \<exists>e. r = NodeMissing (nr_uid r) e"
    by blast
  obtain r where r: "convertCacheResult ops nops fuel (co_entity ops (getCacheUid u) s) s = Some (Some r, s)"
    "nr_uid r = u"
    "case store u of Some n \<Rightarrow> r = NodeOk u (canon n) | None \<Rightarrow> \<exists>e. r = NodeMissing u e"
    using convert_held [OF held, of u] Cons.prems by auto
  show ?case
    using rs r by (intro exI [of _ "r # rs"]) auto
qed simp

lemma keys_of_tag:
  assumes "nodes_held flag ops nops good s store" and "node_tag t"
  obtains us where "co_keysByTag ops t s = map getCacheUid us" and "set us = tagged nops store t"
proof -
  have keys: "set (co_keysByTag ops t s) = getCacheUid ` tagged nops store t"
    by (rule held_tags [OF assms])
  then obtain us where us: "co_keysByTag ops t s = map getCacheUid us"
    by (metis ex_map_conv imageE)
  with keys have "set us = tagged nops store t"
    by (simp add: inj_image_eq_iff [OF inj_getCacheUid])
  with us show thesis by (rule that)
qed

lemma iterateChildren_held:
  assumes held: "nodes_held flag ops nops good s store"
  shows "\<exists>rs. nc_iterateChildren ops nops fuel p s = Some (rs, s)
     \<and> set rs = {NodeOk u (canon n) |u n. store u = Some n \<and> present (no_parentUid nops n) = Some p
                                          \<and> \<not> no_trashed nops n}"
proof -
  obtain us where us: "co_keysByTag ops (parent_tag p) s = map getCacheUid us"
    "set us = tagged nops store (parent_tag p)"
    by (rule keys_of_tag [OF held node_tag_simps(2)])
  then have set_us: "set us = {u. \<exists>n. store u = Some n \<and> present (no_parentUid nops n) = Some p}"
    using tagged_parent [of store nops p] held_lookup(1) [OF held]
    by (auto simp: parent_of_def split: option.splits)
  obtain rs where rs: "convert_keys ops nops fuel (not_trashed nops) (map getCacheUid us) s = Some (filter (not_trashed nops) rs, s)"
    "map nr_uid rs = us"
    "\<forall>r \<in> set rs. case store (nr_uid r) of
        Some n \<Rightarrow> r = NodeOk (nr_uid r) (canon n) | None \<Rightarrow> \<exists>e. r = NodeMissing (nr_uid r) e"
  proof -
    have "\<forall>u \<in> set us. store u = None \<longrightarrow> \<not> flag u" using set_us by auto
    from convert_keys_held [OF held this, of fuel "not_trashed nops"] that show thesis by blast
  qed
  have found: "r = NodeOk u (canon n) \<and> good n" if "r \<in> set rs" "nr_uid r = u" "store u = Some n" for r u n
    using that rs(3) held_lookup(1) [OF held, of u n] by auto
  have "set (filter (not_trashed nops) rs) = {NodeOk u (canon n) |u n. store u = Some n
      \<and> present (no_parentUid nops n) = Some p \<and> \<not> no_trashed nops n}"
  proof (intro equalityI subsetI)
    fix r assume r: "r \<in> set (filter (not_trashed nops) rs)"
    then have "nr_uid r \<in> set us"
      using rs(2) by auto
    then obtain u n where n: "nr_uid r = u" "store u = Some n" "present (no_parentUid nops n) = Some p"
      using set_us by auto
    moreover from this r found [of r] have eq: "r = NodeOk u (canon n)" "good n" by simp_all
    moreover from this r have "\<not> no_trashed nops n"
      by (simp add: not_trashed_def canon_fields)
    ultimately show "r \<in> {NodeOk u (canon n) |u n. store u = Some n
      \<and> present (no_parentUid nops n) = Some p \<and> \<not> no_trashed nops n}"
      by blast
  next
    fix r assume "r \<in> {NodeOk u (canon n) |u n. store u = Some n
      \<and> present (no_parentUid nops n) = Some p \<and> \<not> no_trashed nops n}"
    then obtain u n where n: "r = NodeOk u (canon n)" "store u = Some n" "present (no_parentUid nops n) = Some p"
      "\<not> no_trashed nops n" by blast
    then have "u \<in> set us" using set_us by blast
    then obtain r' where "r' \<in> set rs" "nr_uid r' = u" using rs(2) by auto
    with n found [of r' u n] show "r \<in> set (filter (not_trashed nops) rs)"
      by (simp add: not_trashed_def canon_fields)
  qed
  with us(1) rs(1) show ?thesis by (simp add: nc_iterateChildren_def)
qed

end

context node_store begin

lemma setNode_same_links:
  assumes held: "nodes_held flag ops nops good s store" and inv: "inv s" and n: "store u = Some n"
  shows "\<exists>s'. nc_setNode ops nops (no_setStale nops (canon n)) s = (Inr (), s') \<and> inv s'
     \<and> nodes_held flag ops nops good s' (store(u \<mapsto> no_setStale nops (canon n)))
     \<and> (\<forall>t. \<not> node_tag t \<longrightarrow> set (co_keysByTag ops t s') = set (co_keysByTag ops t s) - {getCacheUid u})"
proof -
  have "good n" "no_uid nops n = u" "volume_of u \<noteq> None"
    using held_lookup(1) [OF held n] by simp_all
  then obtain v where "volume_of (no_uid nops (no_setStale nops (canon n))) = Some v"
    "good (no_setStale nops (canon n))" "no_uid nops (no_setStale nops (canon n)) = u"
    using canon_fields [of n] stale_fields [of "canon n"] by auto
  with setNode_holds [OF held inv, of "no_setStale nops (canon n)" v] show ?thesis
    by (cases "nc_setNode ops nops (no_setStale nops (canon n)) s") simp
qed

text \<open>What \<open>setNodesStaleFromVolume\<close> may change of a node, and what it must.\<close>

lemma stale_keys_held:
  shows "nodes_held flag ops nops good s store \<Longrightarrow> inv s \<Longrightarrow> set us \<subseteq> dom store \<Longrightarrow>
    \<exists>s' store'. stale_keys ops nops fuel (map getCacheUid us) s = Some (Inr (), s') \<and> inv s'
      \<and> nodes_held flag ops nops good s' store' \<and> dom store' = dom store
      \<and> (\<forall>t. \<not> node_tag t \<longrightarrow> set (co_keysByTag ops t s') = set (co_keysByTag ops t s) - getCacheUid ` set us)
      \<and> (\<forall>u. u \<notin> set us \<longrightarrow> store' u = store u)
      \<and> (\<forall>u \<in> set us. no_isStale nops (the (store' u)))
      \<and> (\<forall>u \<in> dom store. present (no_parentUid nops (the (store' u))) = present (no_parentUid nops (the (store u)))
           \<and> no_trashed nops (the (store' u)) = no_trashed nops (the (store u)))"
proof (induction us arbitrary: s store)
  case (Cons u us)
  from Cons.prems obtain n where n: "store u = Some n" by auto
  let ?m = "no_setStale nops (canon n)"
  have good: "good n" using held_lookup(1) [OF Cons.prems(1) n] by simp
  obtain s1 where s1: "nc_setNode ops nops ?m s = (Inr (), s1)" "inv s1"
    "nodes_held flag ops nops good s1 (store(u \<mapsto> ?m))"
    "\<forall>t. \<not> node_tag t \<longrightarrow> set (co_keysByTag ops t s1) = set (co_keysByTag ops t s) - {getCacheUid u}"
    using setNode_same_links [OF Cons.prems(1,2) n] by blast
  have conv: "convertCacheResult ops nops fuel (co_entity ops (getCacheUid u) s) s = Some (Some (NodeOk u (canon n)), s)"
    using convert_held [OF Cons.prems(1), of u fuel] n by auto
  have m: "no_isStale nops ?m" "present (no_parentUid nops ?m) = present (no_parentUid nops n)"
    "no_trashed nops ?m = no_trashed nops n"
    using canon_fields [OF good] stale_fields [of "canon n"] by simp_all
  have sub: "set us \<subseteq> dom (store(u \<mapsto> ?m))" using Cons.prems(3) by auto
  obtain s' store' where IH: "stale_keys ops nops fuel (map getCacheUid us) s1 = Some (Inr (), s')" "inv s'"
    "nodes_held flag ops nops good s' store'" "dom store' = dom (store(u \<mapsto> ?m))"
    "\<forall>v. v \<notin> set us \<longrightarrow> store' v = (store(u \<mapsto> ?m)) v"
    "\<forall>v \<in> set us. no_isStale nops (the (store' v))"
    "\<forall>v \<in> dom (store(u \<mapsto> ?m)).
        present (no_parentUid nops (the (store' v))) = present (no_parentUid nops (the ((store(u \<mapsto> ?m)) v)))
      \<and> no_trashed nops (the (store' v)) = no_trashed nops (the ((store(u \<mapsto> ?m)) v))"
    "\<forall>t. \<not> node_tag t \<longrightarrow> set (co_keysByTag ops t s') = set (co_keysByTag ops t s1) - getCacheUid ` set us"
    using Cons.IH [OF s1(3,2) sub] by blast
  have "stale_keys ops nops fuel (map getCacheUid (u # us)) s = Some (Inr (), s')"
    using conv s1(1) IH(1) by simp
  moreover have "dom store' = dom store" using IH(4) n by auto
  moreover have "\<forall>v. v \<notin> set (u # us) \<longrightarrow> store' v = store v" using IH(5) by simp
  moreover have "\<forall>v \<in> set (u # us). no_isStale nops (the (store' v))"
    using IH(5,6) m(1) by (metis fun_upd_same option.sel set_ConsD)
  moreover have "\<forall>v \<in> dom store. present (no_parentUid nops (the (store' v))) = present (no_parentUid nops (the (store v)))
           \<and> no_trashed nops (the (store' v)) = no_trashed nops (the (store v))"
  proof
    fix v assume "v \<in> dom store"
    then have "v \<in> dom (store(u \<mapsto> ?m))" by simp
    with IH(7) m(2,3) n show "present (no_parentUid nops (the (store' v))) = present (no_parentUid nops (the (store v)))
           \<and> no_trashed nops (the (store' v)) = no_trashed nops (the (store v))"
      by (cases "v = u") (fastforce dest: bspec)+
  qed
  moreover have "\<forall>t. \<not> node_tag t \<longrightarrow> set (co_keysByTag ops t s') = set (co_keysByTag ops t s) - getCacheUid ` set (u # us)"
    using IH(8) s1(4) by auto
  ultimately show ?case using IH(2,3) by blast
qed auto

text \<open>Removing keys that are not keys of held nodes leaves the nodes as they are.\<close>

lemma remove_foreign_keys:
  assumes held: "nodes_held flag ops nops good s store" and inv: "inv s"
    and foreign: "\<forall>u \<in> dom store. getCacheUid u \<notin> set ks"
  shows "inv (co_removeEntities ops ks s) \<and> nodes_held flag ops nops good (co_removeEntities ops ks s) store"
proof -
  let ?s = "co_removeEntities ops ks s"
  have "set (co_keysByTag ops t ?s) = getCacheUid ` tagged nops store t" if "node_tag t" for t
    using tag_remove [OF inv, of t ks] held_tags [OF held that] foreign by (auto simp: tagged_def)
  moreover have "case store uid of
        None \<Rightarrow> flag uid \<or> (\<exists>e. co_getEntity ops (getCacheUid uid) ?s = Inl e)
      | Some n \<Rightarrow> co_getEntity ops (getCacheUid uid) ?s = Inr (no_serialiseNode nops n)
           \<and> no_uid nops n = uid \<and> good n \<and> volume_of uid \<noteq> None" for uid
  proof (cases "getCacheUid uid \<in> set ks")
    case True
    with foreign have "store uid = None" by auto
    with get_removed [OF True, of s] show ?thesis by simp
  next
    case False
    with held_lookup [OF held, of uid] get_remove_other [OF False, of s] show ?thesis
      by (simp split: option.split)
  qed
  ultimately show ?thesis
    using inv_remove [OF inv] by (simp add: nodes_held_def)
qed

lemma remove_each_foreign:
  assumes "\<forall>u \<in> dom store. getCacheUid u \<notin> set ks"
  shows "nodes_held flag ops nops good s store \<Longrightarrow> inv s \<Longrightarrow>
     inv (fold (\<lambda>key. co_removeEntities ops [key]) ks s)
     \<and> nodes_held flag ops nops good (fold (\<lambda>key. co_removeEntities ops [key]) ks s) store
     \<and> (\<forall>k. (\<exists>e. co_getEntity ops k s = Inl e) \<or> k \<in> set ks \<longrightarrow>
          (\<exists>e. co_getEntity ops k (fold (\<lambda>key. co_removeEntities ops [key]) ks s) = Inl e))"
  using assms
proof (induction ks arbitrary: s)
  case (Cons key ks)
  let ?s = "co_removeEntities ops [key] s"
  have "inv ?s" "nodes_held flag ops nops good ?s store"
    using remove_foreign_keys [OF Cons.prems(1,2), of "[key]"] Cons.prems(3) by auto
  moreover have "\<exists>e. co_getEntity ops k ?s = Inl e" if "(\<exists>e. co_getEntity ops k s = Inl e) \<or> k = key" for k
    using that get_removed [of k "[key]" s] get_remove_other [of k "[key]" s] by (cases "k = key") auto
  ultimately show ?case
    using Cons.IH [of ?s] Cons.prems(3) by auto
qed simp

text \<open>\<open>removeVolume\<close>: every root's key is taken for a UID, so nothing that is held goes.\<close>

lemma removeNodes_foreign:
  assumes held: "nodes_held flag ops nops good s store" and inv: "inv s"
    and none: "\<forall>u. store (getCacheUid u) = None" "\<forall>u. parent_of nops store u \<noteq> Some (getCacheUid v)"
  shows "\<exists>s'. nc_removeNodes ops (Suc fuel) [getCacheUid v] s = Some s' \<and> inv s' \<and> nodes_held flag ops nops good s' store"
proof -
  let ?s = "co_removeEntities ops [getCacheUid (getCacheUid v)] s"
  have s: "inv ?s \<and> nodes_held flag ops nops good ?s store"
    using none(1) by (intro remove_foreign_keys [OF held inv]) (auto simp: domIff)
  then have "set (co_keysByTag ops (parent_tag (getCacheUid v)) ?s) = {}"
    using held_children [of flag ops nops good ?s store "getCacheUid v"] none(2) by simp
  then have "getRecursiveChildrenCacheUids ops ?s (Suc fuel) (getCacheUid v) = Some (Inr [])" by simp
  moreover have "inv (co_removeEntities ops [] ?s) \<and> nodes_held flag ops nops good (co_removeEntities ops [] ?s) store"
    using s by (intro remove_foreign_keys) auto
  ultimately show ?thesis
    by (simp add: nc_removeNodes_def del: getRecursiveChildrenCacheUids.simps)
qed

lemma removeVolume_held:
  assumes held: "nodes_held flag ops nops good s store" and inv: "inv s"
    and none: "\<forall>u. store (getCacheUid u) = None" "\<forall>u v. parent_of nops store u \<noteq> Some (getCacheUid v)"
  shows "\<exists>s'. nc_removeVolume ops (Suc fuel) volumeId s = Some s' \<and> inv s' \<and> nodes_held flag ops nops good s' store"
proof -
  have "\<exists>s'. remove_each ops (Suc fuel) (map getCacheUid us) s = Some s' \<and> inv s' \<and> nodes_held flag ops nops good s' store"
    if "nodes_held flag ops nops good s store" "inv s" for us s
    using that
  proof (induction us arbitrary: s)
    case (Cons u us)
    obtain s1 where "nc_removeNodes ops (Suc fuel) [getCacheUid u] s = Some s1" "inv s1" "nodes_held flag ops nops good s1 store"
      using removeNodes_foreign [OF Cons.prems none(1)] none(2) by blast
    with Cons.IH [of s1] show ?case by simp
  qed simp
  moreover have "map er_key (iterateEntitiesByTag ops (roots_tag volumeId) s) = co_keysByTag ops (roots_tag volumeId) s"
    by (simp add: iterateEntitiesByTag_def iterateEntities_def entity_key comp_def)
  moreover obtain us where "co_keysByTag ops (roots_tag volumeId) s = map getCacheUid us"
    by (rule keys_of_tag [OF held node_tag_simps(3)])
  ultimately show ?thesis
    using held inv by (simp add: nc_removeVolume_def)
qed

end

section \<open>NodesCache over MemoryCache\<close>

abbreviation mc :: "(js_text memory_cache, js_text) cache_ops" where
  "mc \<equiv> memory_ops text_truthy"

abbreviation jn :: "(jsval \<Rightarrow> int option) \<Rightarrow> (jsval, js_text) node_ops" where
  "jn \<equiv> NodesCache_ops"

datatype node_cmd = SetNode jsval | RemoveNodes "string list"

fun run_node_cmds ::
  "(jsval \<Rightarrow> int option) \<Rightarrow> nat \<Rightarrow> node_cmd list \<Rightarrow> js_text memory_cache \<Rightarrow> js_text memory_cache option"
where
  "run_node_cmds date_of fuel [] s = Some s"
| "run_node_cmds date_of fuel (SetNode n # cmds) s =
     run_node_cmds date_of fuel cmds (snd (nc_setNode mc (jn date_of) n s))"
| "run_node_cmds date_of fuel (RemoveNodes us # cmds) s =
     (case nc_removeNodes mc fuel us s of None \<Rightarrow> None | Some s' \<Rightarrow> run_node_cmds date_of fuel cmds s')"

text \<open>The specification: a map from UIDs to nodes, where removing a node removes all below it.\<close>

definition node_uid :: "jsval \<Rightarrow> string" where
  "node_uid n = (case string_field ''uid'' n of Some s \<Rightarrow> s | None \<Rightarrow> '''')"

definition node_parent :: "jsval \<Rightarrow> string option" where
  "node_parent n = present (string_field ''parentUid'' n)"

definition is_child :: "(string \<rightharpoonup> jsval) \<Rightarrow> (string \<times> string) set" where
  "is_child store = {(p, c). \<exists>n. store c = Some n \<and> node_parent n = Some p}"

fun spec_node_cmd :: "node_cmd \<Rightarrow> (string \<rightharpoonup> jsval) \<Rightarrow> (string \<rightharpoonup> jsval)" where
  "spec_node_cmd (SetNode n) store = store(node_uid n \<mapsto> n)"
| "spec_node_cmd (RemoveNodes us) store = store |` (- ((is_child store)\<^sup>* `` set us))"

fun good_cmd :: "node_cmd \<Rightarrow> bool" where
  "good_cmd (SetNode n) \<longleftrightarrow> good_node n \<and> volume_of (node_uid n) \<noteq> None"
| "good_cmd (RemoveNodes us) \<longleftrightarrow> True"

abbreviation held :: "(jsval \<Rightarrow> int option) \<Rightarrow> js_text memory_cache \<Rightarrow> (string \<rightharpoonup> jsval) \<Rightarrow> bool" where
  "held date_of \<equiv> nodes_held (\<lambda>_. False) mc (jn date_of) good_node"

lemma jn_fields [simp]:
  "no_uid (jn date_of) n = node_uid n" "present (no_parentUid (jn date_of) n) = node_parent n"
  "no_deserialiseNode (jn date_of) = deserialiseNode date_of" "no_serialiseNode (jn date_of) = serialiseNode"
  "no_trashed (jn date_of) n = js_truthy (js_opt ''trashTime'' n)"
  "no_isStale (jn date_of) n = js_truthy (js_opt ''isStale'' n)"
  by (simp_all add: NodesCache_ops_def node_uid_def node_parent_def)

lemma is_child_rel: "child_rel (jn date_of) store = is_child store"
  by (auto simp: child_rel_def is_child_def parent_of_def split: option.splits)

lemma held_new: "held date_of mc_new Map.empty"
  by (simp add: nodes_held_def tagged_def mc_ops mc_new_def mc_keysByTag_def)

lemma run_node_cmds_held:
  assumes "\<forall>c \<in> set cmds. good_cmd c"
  shows "held date_of s store \<Longrightarrow> mc_inv s \<Longrightarrow> finite (dom store) \<Longrightarrow>
     card (dom store) + length cmds < fuel \<Longrightarrow>
     \<exists>s'. run_node_cmds date_of fuel cmds s = Some s' \<and> mc_inv s'
        \<and> held date_of s' (fold spec_node_cmd cmds store)
        \<and> finite (dom (fold spec_node_cmd cmds store))
        \<and> card (dom (fold spec_node_cmd cmds store)) \<le> card (dom store) + length cmds"
  using assms
proof (induction cmds arbitrary: s store)
  case (Cons c cmds)
  show ?case
  proof (cases c)
    case (SetNode n)
    then obtain v where v: "good_node n" "volume_of (node_uid n) = Some v"
      using Cons.prems(5) by auto
    let ?s = "snd (nc_setNode mc (jn date_of) n s)" and ?store = "store(node_uid n \<mapsto> n)"
    have s: "mc_inv ?s" "held date_of ?s ?store"
      using nodes.setNode_holds [OF Cons.prems(1,2) v(1)] v(2) by simp_all
    have "card (dom ?store) \<le> Suc (card (dom store))"
      using Cons.prems(3) by (simp add: card_insert_if)
    with Cons.IH [OF s(2,1)] Cons.prems SetNode show ?thesis by fastforce
  next
    case (RemoveNodes us)
    let ?store = "store |` (- ((is_child store)\<^sup>* `` set us))"
    have le: "card (dom ?store) \<le> card (dom store)"
      using Cons.prems(3) by (intro card_mono) auto
    obtain s' where s': "nc_removeNodes mc fuel us s = Some s'" "mc_inv s'" "held date_of s' ?store"
      using nodes.removeNodes_holds [OF Cons.prems(1-3), of fuel us] Cons.prems(4) is_child_rel [of date_of store] by auto
    with Cons.IH [OF s'(3,2)] Cons.prems RemoveNodes le show ?thesis by fastforce
  qed
qed auto

lemma run_from_new:
  assumes "\<forall>c \<in> set cmds. good_cmd c" and "length cmds < fuel"
  obtains s where "run_node_cmds date_of fuel cmds mc_new = Some s" "mc_inv s"
    "held date_of s (fold spec_node_cmd cmds Map.empty)"
    "finite (dom (fold spec_node_cmd cmds Map.empty))"
    "card (dom (fold spec_node_cmd cmds Map.empty)) < fuel"
  using run_node_cmds_held [OF assms(1) held_new mc_inv_new, of fuel date_of] assms(2)
  by fastforce

lemma held_getNode:
  assumes "held date_of s store"
  shows "store u = Some n \<Longrightarrow> nc_getNode mc (jn date_of) fuel u s = Some (Inr (reread_node date_of n), s)"
    and "store u = None \<Longrightarrow> \<exists>e. nc_getNode mc (jn date_of) fuel u s = Some (Inl e, s)"
  using held_lookup [OF assms, of u] reread_good [of n date_of] by (auto simp: nc_getNode_def)

text \<open>
  C4: after any sequence of writes and recursive removals the node cache is the tree of its
  writes: a node that was written and not removed with an ancestor reads back as stored, any
  other is not found, and the listing of a parent is exactly its children outside the trash.
  The removals end whatever parents the nodes name, cycles included.
\<close>

theorem nodes_cache_is_tree:
  assumes "\<forall>c \<in> set cmds. good_cmd c" and "length cmds < fuel"
  shows "\<exists>s. run_node_cmds date_of fuel cmds mc_new = Some s
     \<and> (\<forall>u. case fold spec_node_cmd cmds Map.empty u of
            Some n \<Rightarrow> nc_getNode mc (jn date_of) fuel u s = Some (Inr (reread_node date_of n), s)
          | None \<Rightarrow> \<exists>e. nc_getNode mc (jn date_of) fuel u s = Some (Inl e, s))
     \<and> (\<forall>p. \<exists>rs. nc_iterateChildren mc (jn date_of) fuel p s = Some (rs, s)
          \<and> set rs = {NodeOk u (reread_node date_of n) |u n.
               fold spec_node_cmd cmds Map.empty u = Some n \<and> node_parent n = Some p
               \<and> \<not> js_truthy (js_opt ''trashTime'' n)})"
proof -
  obtain s where s: "run_node_cmds date_of fuel cmds mc_new = Some s"
    "held date_of s (fold spec_node_cmd cmds Map.empty)"
    using run_from_new [OF assms, of date_of] by blast
  show ?thesis
    using s held_getNode [OF s(2)] nodes.iterateChildren_held [OF s(2), of fuel]
    by (intro exI [of _ s]) (auto split: option.split)
qed

definition demo_node :: "string \<Rightarrow> string option \<Rightarrow> jsval" where
  "demo_node uid parent =
     JObj [(''uid'', JStr uid), (''parentUid'', js_string_or_undefined parent), (''directRole'', JStr ''admin''),
           (''type'', JStr ''folder''), (''isShared'', JBool False), (''isStale'', JBool False),
           (''creationTime'', JDate (Some 1)), (''modificationTime'', JDate (Some 2)),
           (''name'', JObj [(''ok'', JBool False), (''error'', JError ''bad key'')])]"

lemma demo_node_good: "uid \<noteq> '''' \<Longrightarrow> good_node (demo_node uid parent)"
  by (auto simp: good_node_def demo_node_def plain_object_def valid_date_def good_folder_def good_revision_def
      js_string_or_undefined_def split: option.split)

lemma demo_node_fields: "node_uid (demo_node u p) = u" "node_parent (demo_node u p) = present p"
  by (simp_all add: node_uid_def node_parent_def string_field_def demo_node_def js_string_or_undefined_def
      split: option.split)

lemma volume_of_demo: "volume_of ''v~a'' = Some ''v''" "volume_of ''v~b'' = Some ''v''"
  by (simp_all add: volume_of_def splitNodeUid_def split2_def splitUid_def tilde_def)

theorem nodes_cache_is_tree_witness:
  "\<exists>s e. run_node_cmds (\<lambda>_. None) 9
      [SetNode (demo_node ''v~a'' (Some ''v~b'')), SetNode (demo_node ''v~b'' (Some ''v~a'')), RemoveNodes [''v~a'']] mc_new = Some s
    \<and> nc_getNode mc (jn (\<lambda>_. None)) 9 ''v~b'' s = Some (Inl e, s)"
proof -
  let ?a = "demo_node ''v~a'' (Some ''v~b'')" and ?b = "demo_node ''v~b'' (Some ''v~a'')"
  let ?cmds = "[SetNode ?a, SetNode ?b, RemoveNodes [''v~a'']]"
  let ?store = "[''v~a'' \<mapsto> ?a, ''v~b'' \<mapsto> ?b] :: string \<Rightarrow> jsval option"
  have good: "\<forall>c \<in> set ?cmds. good_cmd c"
    by (simp add: demo_node_good demo_node_fields volume_of_demo)
  have "(''v~a'', ''v~b'') \<in> is_child ?store"
    by (simp add: is_child_def demo_node_fields present_def)
  then have "fold spec_node_cmd ?cmds Map.empty ''v~b'' = None"
    by (auto simp: demo_node_fields restrict_map_def)
  with nodes_cache_is_tree [OF good, of 9 "\<lambda>_. None"] show ?thesis
    by (auto split: option.splits dest: spec [of _ "''v~b''"])
qed

text \<open>
  A refresh of a volume leaves every cached node in place, makes exactly the nodes of that
  volume stale, keeps every parent and every trash mark, and takes no folder of the volume for
  fully listed any more.
\<close>

theorem refresh_makes_volume_stale:
  assumes "held date_of s store" and "mc_inv s"
    and "\<forall>k \<in> set (co_keysByTag mc (children_volume_tag volumeId) s). \<forall>u \<in> dom store. k \<noteq> getCacheUid u"
  shows "\<exists>s'. setNodesStaleFromVolume mc (jn date_of) fuel volumeId s = Some (Inr (), s')
     \<and> (\<forall>u n. store u = Some n \<longrightarrow>
          (\<exists>m. nc_getNode mc (jn date_of) fuel u s' = Some (Inr m, s')
             \<and> (if volume_of u = Some volumeId then js_truthy (js_opt ''isStale'' m)
                else m = reread_node date_of n)
             \<and> node_parent m = node_parent n
             \<and> js_truthy (js_opt ''trashTime'' m) = js_truthy (js_opt ''trashTime'' n)))
     \<and> (\<forall>f. children_key f \<in> set (co_keysByTag mc (children_volume_tag volumeId) s) \<longrightarrow>
          \<not> isFolderChildrenLoaded mc f s')"
proof -
  obtain us where us: "co_keysByTag mc (volume_tag volumeId) s = map getCacheUid us"
    "set us = tagged (jn date_of) store (volume_tag volumeId)"
    by (rule nodes.keys_of_tag [OF assms(1) node_tag_simps(1)])
  have vol: "u \<in> set us \<longleftrightarrow> u \<in> dom store \<and> volume_of u = Some volumeId" for u
    using us(2) held_lookup(1) [OF assms(1), of u]
    by (auto simp: tagged_def node_tags_def split: option.splits if_splits)
  then have sub: "set us \<subseteq> dom store" by blast
  obtain s1 store' where s1: "stale_keys mc (jn date_of) fuel (map getCacheUid us) s = Some (Inr (), s1)"
    "mc_inv s1" "held date_of s1 store'" "dom store' = dom store"
    "\<forall>t. \<not> node_tag t \<longrightarrow> set (co_keysByTag mc t s1) = set (co_keysByTag mc t s) - getCacheUid ` set us"
    "\<forall>u. u \<notin> set us \<longrightarrow> store' u = store u"
    "\<forall>u \<in> set us. js_truthy (js_opt ''isStale'' (the (store' u)))"
    "\<forall>u \<in> dom store. node_parent (the (store' u)) = node_parent (the (store u))
        \<and> js_truthy (js_opt ''trashTime'' (the (store' u))) = js_truthy (js_opt ''trashTime'' (the (store u)))"
    using nodes.stale_keys_held [OF assms(1,2) sub, of fuel] by auto
  let ?ks = "co_keysByTag mc (children_volume_tag volumeId) s1"
  let ?s = "fold (\<lambda>key. co_removeEntities mc [key]) ?ks s1"
  have ks: "set ?ks = set (co_keysByTag mc (children_volume_tag volumeId) s)"
    using s1(5) assms(3) sub by fastforce
  then have "\<forall>u \<in> dom store'. getCacheUid u \<notin> set ?ks"
    using assms(3) s1(4) by auto
  from nodes.remove_each_foreign [OF this s1(3,2)] have final: "held date_of ?s store'"
    "\<forall>k \<in> set ?ks. \<exists>e. co_getEntity mc k ?s = Inl e" by blast+
  have "\<exists>m. nc_getNode mc (jn date_of) fuel u ?s = Some (Inr m, ?s)
             \<and> (if volume_of u = Some volumeId then js_truthy (js_opt ''isStale'' m) else m = reread_node date_of n)
             \<and> node_parent m = node_parent n
             \<and> js_truthy (js_opt ''trashTime'' m) = js_truthy (js_opt ''trashTime'' n)"
    if "store u = Some n" for u n
  proof -
    have "u \<in> dom store'"
      using that s1(4) by (simp add: domI)
    then obtain n' where n': "store' u = Some n'" by blast
    have good: "good_node n'" using held_lookup(1) [OF final(1) n'] by simp
    have "node_parent n' = node_parent n \<and> js_truthy (js_opt ''trashTime'' n') = js_truthy (js_opt ''trashTime'' n)"
      using bspec [OF s1(8), of u] that n' by (simp add: domI)
    moreover have "if volume_of u = Some volumeId then js_truthy (js_opt ''isStale'' n') else n' = n"
    proof (cases "u \<in> set us")
      case True
      then have "js_truthy (js_opt ''isStale'' n')" using s1(7) n' by (metis option.sel)
      with True vol [of u] show ?thesis by simp
    next
      case False
      then have "n' = n" using s1(6) that n' by simp
      with False vol [of u] that show ?thesis by (simp add: domI)
    qed
    ultimately show ?thesis
      using held_getNode(1) [OF final(1) n'] reread_good [OF good, of date_of]
      by (auto simp: node_parent_def string_field_def)
  qed
  moreover have "\<not> isFolderChildrenLoaded mc f ?s"
    if "children_key f \<in> set (co_keysByTag mc (children_volume_tag volumeId) s)" for f
    using that final(2) ks by (auto simp: isFolderChildrenLoaded_def)
  moreover have "setNodesStaleFromVolume mc (jn date_of) fuel volumeId s = Some (Inr (), ?s)"
    by (simp add: setNodesStaleFromVolume_def us(1) s1(1))
  ultimately show ?thesis by blast
qed

lemma held_two_nodes:
  obtains s where "run_node_cmds date_of 9
      [SetNode (demo_node ''v~a'' None), SetNode (demo_node ''v~b'' (Some ''v~a''))] mc_new = Some s"
    "mc_inv s" "held date_of s [''v~a'' \<mapsto> demo_node ''v~a'' None, ''v~b'' \<mapsto> demo_node ''v~b'' (Some ''v~a'')]"
    "co_keysByTag mc (children_volume_tag ''v'') s = []"
proof -
  let ?cmds = "[SetNode (demo_node ''v~a'' None), SetNode (demo_node ''v~b'' (Some ''v~a''))]"
  have good: "\<forall>c \<in> set ?cmds. good_cmd c"
    by (simp add: demo_node_good demo_node_fields volume_of_demo)
  obtain s where s: "run_node_cmds date_of 9 ?cmds mc_new = Some s" "mc_inv s"
    "held date_of s (fold spec_node_cmd ?cmds Map.empty)"
    using run_from_new [OF good, of 9 date_of] by auto
  let ?s1 = "snd (nc_setNode mc (jn date_of) (demo_node ''v~a'' None) mc_new)"
  have run: "s = snd (nc_setNode mc (jn date_of) (demo_node ''v~b'' (Some ''v~a'')) ?s1)"
    using s(1) by simp
  have s1: "held date_of ?s1 [''v~a'' \<mapsto> demo_node ''v~a'' None]" "mc_inv ?s1"
    "set (co_keysByTag mc (children_volume_tag ''v'') ?s1) \<subseteq> set (co_keysByTag mc (children_volume_tag ''v'') mc_new)"
    using nodes.setNode_holds [OF held_new mc_inv_new, where n = "demo_node ''v~a'' None" and v = "''v''"]
    by (simp_all add: demo_node_good demo_node_fields volume_of_demo)
  have sub: "set (co_keysByTag mc (children_volume_tag ''v'') s) \<subseteq> set (co_keysByTag mc (children_volume_tag ''v'') ?s1)"
    using nodes.setNode_holds [OF s1(1,2), where n = "demo_node ''v~b'' (Some ''v~a'')" and v = "''v''"]
    unfolding run by (simp add: demo_node_good demo_node_fields volume_of_demo)
  have none: "set (co_keysByTag mc (children_volume_tag ''v'') mc_new) = {}"
    by (simp add: mc_ops mc_new_def mc_keysByTag_def)
  have "set (co_keysByTag mc (children_volume_tag ''v'') ?s1) = {}"
    using s1(3) unfolding none by (rule subset_empty [THEN iffD1])
  then have "set (co_keysByTag mc (children_volume_tag ''v'') s) = {}"
    using sub by (simp only: subset_empty)
  then have "co_keysByTag mc (children_volume_tag ''v'') s = []"
    by (simp only: set_empty)
  moreover have "fold spec_node_cmd ?cmds Map.empty = [''v~a'' \<mapsto> demo_node ''v~a'' None, ''v~b'' \<mapsto> demo_node ''v~b'' (Some ''v~a'')]"
    by (simp add: demo_node_fields)
  ultimately show thesis using that s by simp
qed

theorem refresh_makes_volume_stale_witness:
  "\<exists>s s' m. run_node_cmds (\<lambda>_. None) 9
      [SetNode (demo_node ''v~a'' None), SetNode (demo_node ''v~b'' (Some ''v~a''))] mc_new = Some s
    \<and> setNodesStaleFromVolume mc (jn (\<lambda>_. None)) 9 ''v'' s = Some (Inr (), s')
    \<and> nc_getNode mc (jn (\<lambda>_. None)) 9 ''v~b'' s' = Some (Inr m, s') \<and> js_truthy (js_opt ''isStale'' m)"
proof -
  obtain s where s: "run_node_cmds (\<lambda>_. None) 9
      [SetNode (demo_node ''v~a'' None), SetNode (demo_node ''v~b'' (Some ''v~a''))] mc_new = Some s"
    "mc_inv s" "held (\<lambda>_. None) s [''v~a'' \<mapsto> demo_node ''v~a'' None, ''v~b'' \<mapsto> demo_node ''v~b'' (Some ''v~a'')]"
    "co_keysByTag mc (children_volume_tag ''v'') s = []"
    by (rule held_two_nodes)
  have "\<forall>k \<in> set (co_keysByTag mc (children_volume_tag ''v'') s).
      \<forall>u \<in> dom [''v~a'' \<mapsto> demo_node ''v~a'' None, ''v~b'' \<mapsto> demo_node ''v~b'' (Some ''v~a'')]. k \<noteq> getCacheUid u"
    by (simp add: s(4))
  from refresh_makes_volume_stale [OF s(3,2) this, of 9] obtain s' where s':
    "setNodesStaleFromVolume mc (jn (\<lambda>_. None)) 9 ''v'' s = Some (Inr (), s')"
    "\<forall>u n. [''v~a'' \<mapsto> demo_node ''v~a'' None, ''v~b'' \<mapsto> demo_node ''v~b'' (Some ''v~a'')] u = Some n \<longrightarrow>
      (\<exists>m. nc_getNode mc (jn (\<lambda>_. None)) 9 u s' = Some (Inr m, s')
         \<and> (if volume_of u = Some ''v'' then js_truthy (js_opt ''isStale'' m) else m = reread_node (\<lambda>_. None) n))"
    by blast
  from s'(2) have "\<exists>m. nc_getNode mc (jn (\<lambda>_. None)) 9 ''v~b'' s' = Some (Inr m, s') \<and> js_truthy (js_opt ''isStale'' m)"
    by (auto simp: volume_of_demo dest: spec [of _ "''v~b''"])
  with s(1) s'(1) show ?thesis by blast
qed

text \<open>
  Losing a volume removes none of its cached nodes: the cache keys of the roots are passed
  where UIDs are expected, so every node can still be read and listed as before.
\<close>

theorem removeVolume_removes_nothing:
  assumes "held date_of s store" and "mc_inv s"
    and "\<forall>u. store (getCacheUid u) = None" and "\<forall>u n v. store u = Some n \<longrightarrow> node_parent n \<noteq> Some (getCacheUid v)"
  shows "\<exists>s'. nc_removeVolume mc (Suc fuel) volumeId s = Some s'
     \<and> (\<forall>u n. store u = Some n \<longrightarrow>
          nc_getNode mc (jn date_of) fuel u s' = Some (Inr (reread_node date_of n), s'))
     \<and> (\<forall>p. \<exists>rs. nc_iterateChildren mc (jn date_of) fuel p s' = Some (rs, s')
          \<and> set rs = {NodeOk u (reread_node date_of n) |u n. store u = Some n \<and> node_parent n = Some p
                                                             \<and> \<not> js_truthy (js_opt ''trashTime'' n)})"
proof -
  have "\<forall>u v. parent_of (jn date_of) store u \<noteq> Some (getCacheUid v)"
    using assms(4) by (auto simp: parent_of_def split: option.splits)
  then obtain s' where s': "nc_removeVolume mc (Suc fuel) volumeId s = Some s'" "held date_of s' store"
    using nodes.removeVolume_held [OF assms(1-3), of fuel volumeId] by blast
  then show ?thesis
    using held_getNode(1) [OF s'(2)] nodes.iterateChildren_held [OF s'(2), of fuel] by auto
qed

theorem removeVolume_removes_nothing_witness:
  "\<exists>s s' m. run_node_cmds (\<lambda>_. None) 9
      [SetNode (demo_node ''v~a'' None), SetNode (demo_node ''v~b'' (Some ''v~a''))] mc_new = Some s
    \<and> nc_removeVolume mc (Suc 9) ''v'' s = Some s'
    \<and> nc_getNode mc (jn (\<lambda>_. None)) 9 ''v~a'' s' = Some (Inr m, s')"
proof -
  let ?store = "[''v~a'' \<mapsto> demo_node ''v~a'' None, ''v~b'' \<mapsto> demo_node ''v~b'' (Some ''v~a'')]"
  obtain s where s: "run_node_cmds (\<lambda>_. None) 9
      [SetNode (demo_node ''v~a'' None), SetNode (demo_node ''v~b'' (Some ''v~a''))] mc_new = Some s"
    "mc_inv s" "held (\<lambda>_. None) s ?store"
    by (rule held_two_nodes)
  have none: "\<forall>u. ?store (getCacheUid u) = None"
    by (simp add: getCacheUid_def)
  have parents: "\<forall>u n v. ?store u = Some n \<longrightarrow> node_parent n \<noteq> Some (getCacheUid v)"
    by (auto simp: demo_node_fields getCacheUid_def present_def)
  from removeVolume_removes_nothing [OF s(3,2) none parents, of 9 "''v''"] s(1) show ?thesis
    by (auto dest: spec [of _ "''v~a''"])
qed

text \<open>
  A node read back from the cache has the fields it was stored with, except that any
  \<open>Error\<close> in it, as the error of a name that could not be decrypted, comes back as an
  empty object: its message is lost.
\<close>

theorem cached_node_fields:
  assumes "good_node n"
  shows "\<exists>m. deserialiseNode date_of (serialiseNode n) = Inr m
     \<and> (\<forall>k. k \<notin> {''creationTime'', ''modificationTime'', ''trashTime'', ''activeRevision'', ''membership'', ''folder''} \<longrightarrow>
          js_opt k m = to_json (js_opt k n))
     \<and> (\<forall>k \<in> {''creationTime'', ''modificationTime'', ''trashTime''}. js_opt k m = js_opt k n)
     \<and> (\<forall>message. js_opt ''name'' n = JObj [(''ok'', JBool False), (''error'', JError message)] \<longrightarrow>
          js_opt ''name'' m = JObj [(''ok'', JBool False), (''error'', JObj [])])"
proof -
  from assms have n: "plain_object n" by (simp add: good_node_def)
  obtain r where r: "deserialiseNode date_of (serialiseNode n) = Inr (revive_node date_of (to_json n) r)"
    using node_roundtrip [OF assms] by blast
  let ?m = "revive_node date_of (to_json n) r"
  note opts = revived_opts [OF plain_to_json [OF n], of _ date_of r]
  have dates: "js_opt k ?m = js_opt k n" if "k \<in> {''creationTime'', ''modificationTime'', ''trashTime''}" for k
    using that assms unfolding opts plain_opt_to_json [OF n] good_node_def
    by (elim insertE conjE exE disjE) simp_all
  have other: "js_opt k ?m = to_json (js_opt k n)"
    if "k \<notin> {''creationTime'', ''modificationTime'', ''trashTime'', ''activeRevision'', ''membership'', ''folder''}" for k
    using that unfolding opts plain_opt_to_json [OF n] by simp
  have "js_opt ''name'' ?m = JObj [(''ok'', JBool False), (''error'', JObj [])]"
    if "js_opt ''name'' n = JObj [(''ok'', JBool False), (''error'', JError message)]" for message
    using other [of "''name''"] that by simp
  with r dates other show ?thesis by blast
qed

theorem cached_node_fields_witness:
  "\<exists>m. deserialiseNode (\<lambda>_. None) (serialiseNode (demo_node ''v~a'' None)) = Inr m
     \<and> js_opt ''name'' m = JObj [(''ok'', JBool False), (''error'', JObj [])]"
proof -
  have "js_opt ''name'' (demo_node ''v~a'' None) = JObj [(''ok'', JBool False), (''error'', JError ''bad key'')]"
    by (simp add: demo_node_def)
  with cached_node_fields [OF demo_node_good, of "''v~a''" "\<lambda>_. None" None] show ?thesis by auto
qed

end
