(* ===== verification/Effects.thy ===== *)
theory Effects
  imports Errors
begin

text \<open>
  Sequencing of asynchronous operations that may throw and that change a state: \<open>await\<close> runs one
  and goes on with its value, a throw ends the sequence with the changes made so far kept, and
  \<open>catch\<close> handles it. The components that only pass their calls on are written with these.
\<close>

type_synonym ('s, 'a) act = "'s \<Rightarrow> (thrown + 'a) \<times> 's"

definition give :: "'a \<Rightarrow> ('s, 'a) act" where
  "give v s = (Inr v, s)"

definition throw_act :: "thrown \<Rightarrow> ('s, 'a) act" where
  "throw_act t s = (Inl t, s)"

definition of_result :: "thrown + 'a \<Rightarrow> ('s, 'a) act" where
  "of_result r s = (r, s)"

definition await :: "('s, 'a) act \<Rightarrow> ('a \<Rightarrow> ('s, 'b) act) \<Rightarrow> ('s, 'b) act" where
  "await m k s = (case m s of (Inl t, s') \<Rightarrow> (Inl t, s') | (Inr v, s') \<Rightarrow> k v s')"

definition catch :: "('s, 'a) act \<Rightarrow> (thrown \<Rightarrow> ('s, 'a) act) \<Rightarrow> ('s, 'a) act" where
  "catch m h s = (case m s of (Inl t, s') \<Rightarrow> h t s' | (Inr v, s') \<Rightarrow> (Inr v, s'))"

named_theorems act_simps "equations that run an operation"

lemma await_give [simp]: "await (give v) k = k v"
  by (simp add: fun_eq_iff await_def give_def)

lemma await_throw [simp]: "await (throw_act t) k = throw_act t"
  by (simp add: fun_eq_iff await_def throw_act_def)

lemma await_await: "await (await m k) l = await m (\<lambda>v. await (k v) l)"
  by (auto simp: fun_eq_iff await_def split: sum.splits prod.splits)

lemma catch_throw [simp]: "catch (throw_act t) h = h t"
  by (simp add: fun_eq_iff catch_def throw_act_def)

lemma catch_give [simp]: "catch (give v) h = give v"
  by (simp add: fun_eq_iff catch_def give_def)

lemma await_Inr: "m s = (Inr v, s') \<Longrightarrow> await m k s = k v s'"
  by (simp add: await_def)

lemma await_Inl: "m s = (Inl t, s') \<Longrightarrow> await m k s = (Inl t, s')"
  by (simp add: await_def)

lemma catch_Inl: "m s = (Inl t, s') \<Longrightarrow> catch m h s = h t s'"
  by (simp add: catch_def)

lemma catch_Inr: "m s = (Inr v, s') \<Longrightarrow> catch m h s = (Inr v, s')"
  by (simp add: catch_def)

lemma await_cases:
  "await m k s = (r, s') \<Longrightarrow>
     (\<exists>t. m s = (Inl t, s') \<and> r = Inl t) \<or> (\<exists>v s1. m s = (Inr v, s1) \<and> k v s1 = (r, s'))"
  by (auto simp: await_def split: sum.splits prod.splits)

lemma catch_cases:
  "catch m h s = (r, s') \<Longrightarrow>
     (\<exists>v. m s = (Inr v, s') \<and> r = Inr v) \<or> (\<exists>t s1. m s = (Inl t, s1) \<and> h t s1 = (r, s'))"
  by (auto simp: catch_def split: sum.splits prod.splits)

lemmas run_act = await_def catch_def give_def throw_act_def of_result_def

text \<open>A loop that runs an operation for each element and threads a value through.\<close>

fun fold_act :: "('x \<Rightarrow> 'a \<Rightarrow> ('s, 'a) act) \<Rightarrow> 'x list \<Rightarrow> 'a \<Rightarrow> ('s, 'a) act" where
  "fold_act f [] a = give a"
| "fold_act f (x # xs) a = await (f x a) (fold_act f xs)"

lemma await_ok: "await m k s = (Inr v, s') \<Longrightarrow> \<exists>u s1. m s = (Inr u, s1) \<and> k u s1 = (Inr v, s')"
  by (auto dest: await_cases)

lemma ran: "\<not> isl (fst q) \<Longrightarrow> \<exists>v s. q = (Inr v, s)"
  by (cases q; cases "fst q") auto

text \<open>The value \<open>v\<close> of the state stays as it is, whatever the operation does.\<close>

definition leaves :: "('s \<Rightarrow> 'v) \<Rightarrow> ('s, 'a) act \<Rightarrow> bool" where
  "leaves v m \<longleftrightarrow> (\<forall>s. v (snd (m s)) = v s)"

lemma leavesD: "leaves v m \<Longrightarrow> m s = (r, s') \<Longrightarrow> v s' = v s"
  unfolding leaves_def by (metis snd_conv)

section \<open>Operations that may not end\<close>

text \<open>The same with \<open>None\<close> for an operation whose recursion has not ended within its fuel.\<close>

type_synonym ('s, 'a) run = "'s \<Rightarrow> ((thrown + 'a) \<times> 's) option"

definition give_run :: "'a \<Rightarrow> ('s, 'a) run" where
  "give_run v s = Some (Inr v, s)"

definition throw_run :: "thrown \<Rightarrow> ('s, 'a) run" where
  "throw_run t s = Some (Inl t, s)"

definition then_run :: "('s, 'a) run \<Rightarrow> ('a \<Rightarrow> ('s, 'b) run) \<Rightarrow> ('s, 'b) run" where
  "then_run m k s =
     (case m s of
        None \<Rightarrow> None
      | Some (Inl t, s') \<Rightarrow> Some (Inl t, s')
      | Some (Inr v, s') \<Rightarrow> k v s')"

definition catch_run :: "('s, 'a) run \<Rightarrow> (thrown \<Rightarrow> ('s, 'a) run) \<Rightarrow> ('s, 'a) run" where
  "catch_run m h s =
     (case m s of
        None \<Rightarrow> None
      | Some (Inl t, s') \<Rightarrow> h t s'
      | Some (Inr v, s') \<Rightarrow> Some (Inr v, s'))"

lemma then_run_cases:
  "then_run m k s = Some (r, s') \<Longrightarrow>
     (\<exists>t. m s = Some (Inl t, s') \<and> r = Inl t) \<or> (\<exists>v s1. m s = Some (Inr v, s1) \<and> k v s1 = Some (r, s'))"
  by (auto simp: then_run_def split: option.splits sum.splits prod.splits)

lemma catch_run_cases:
  "catch_run m h s = Some (r, s') \<Longrightarrow>
     (\<exists>v. m s = Some (Inr v, s') \<and> r = Inr v) \<or> (\<exists>t s1. m s = Some (Inl t, s1) \<and> h t s1 = Some (r, s'))"
  by (auto simp: catch_run_def split: option.splits sum.splits prod.splits)

lemmas run_defs = give_run_def throw_run_def then_run_def catch_run_def

text \<open>\<open>m\<close> ends in every state that satisfies \<open>P\<close>, and in one that does.\<close>

definition ends :: "('s \<Rightarrow> bool) \<Rightarrow> ('s, 'a) run \<Rightarrow> bool" where
  "ends P m \<longleftrightarrow> (\<forall>s. P s \<longrightarrow> (\<exists>r s'. m s = Some (r, s') \<and> P s'))"

named_theorems ends_intros "rules for operations that end"

lemma endsI [intro?]: "(\<And>s. P s \<Longrightarrow> \<exists>r s'. m s = Some (r, s') \<and> P s') \<Longrightarrow> ends P m"
  by (simp add: ends_def)

lemma endsE:
  assumes "ends P m" "P s"
  obtains r s' where "m s = Some (r, s')" "P s'"
  using assms by (auto simp: ends_def)

lemma ends_basic [ends_intros]: "ends P (give_run v)" "ends P (throw_run t)"
  by (auto simp: ends_def run_defs)

lemma ends_then [ends_intros]: "ends P m \<Longrightarrow> (\<And>v. ends P (k v)) \<Longrightarrow> ends P (then_run m k)"
  by (fastforce simp: ends_def then_run_def split: sum.split)

lemma ends_catch [ends_intros]: "ends P m \<Longrightarrow> (\<And>t. ends P (h t)) \<Longrightarrow> ends P (catch_run m h)"
  by (fastforce simp: ends_def catch_run_def split: sum.split)

lemma ends_cases [ends_intros]:
  "(x = None \<Longrightarrow> ends P a) \<Longrightarrow> (\<And>v. x = Some v \<Longrightarrow> ends P (b v)) \<Longrightarrow> ends P (case x of None \<Rightarrow> a | Some v \<Rightarrow> b v)"
  "(\<And>y z. p = (y, z) \<Longrightarrow> ends P (c y z)) \<Longrightarrow> ends P (case p of (y, z) \<Rightarrow> c y z)"
  "(\<And>e. q = Inl e \<Longrightarrow> ends P (f e)) \<Longrightarrow> (\<And>v. q = Inr v \<Longrightarrow> ends P (g v)) \<Longrightarrow>
     ends P (case q of Inl e \<Rightarrow> f e | Inr v \<Rightarrow> g v)"
  "(d \<Longrightarrow> ends P i) \<Longrightarrow> (\<not> d \<Longrightarrow> ends P j) \<Longrightarrow> ends P (if d then i else j)"
  by (simp_all split: option.split prod.split sum.split)

section \<open>Generators\<close>

text \<open>
  An asynchronous generator that is run to its end: what it yields, the error it ends with if it
  throws, and the state it leaves. What was yielded before the error stays yielded.
\<close>

type_synonym ('s, 'y) gen = "'s \<Rightarrow> 'y list \<times> thrown option \<times> 's"

definition yields :: "'y list \<Rightarrow> ('s, 'y) gen" where
  "yields ys s = (ys, None, s)"

definition yield_one :: "'y \<Rightarrow> ('s, 'y) gen" where
  "yield_one y = yields [y]"

definition gen_throw :: "thrown \<Rightarrow> ('s, 'y) gen" where
  "gen_throw t s = ([], Some t, s)"

definition gen_await :: "('s, 'a) act \<Rightarrow> ('a \<Rightarrow> ('s, 'y) gen) \<Rightarrow> ('s, 'y) gen" where
  "gen_await m k s = (case m s of (Inl t, s') \<Rightarrow> ([], Some t, s') | (Inr v, s') \<Rightarrow> k v s')"

definition followed_by :: "('s, 'y) gen \<Rightarrow> ('s, 'y) gen \<Rightarrow> ('s, 'y) gen" where
  "followed_by g h s =
     (case g s of
        (ys, Some t, s') \<Rightarrow> (ys, Some t, s')
      | (ys, None, s') \<Rightarrow> (case h s' of (zs, e, s'') \<Rightarrow> (ys @ zs, e, s'')))"

text \<open>\<open>for await (const y of g) k\<close>, where \<open>k\<close> yields in turn; the generator \<open>g\<close> runs to its end first.\<close>

fun gen_each :: "('y \<Rightarrow> ('s, 'z) gen) \<Rightarrow> 'y list \<Rightarrow> ('s, 'z) gen" where
  "gen_each k [] = yields []"
| "gen_each k (y # ys) = followed_by (k y) (gen_each k ys)"

definition for_await :: "('s, 'y) gen \<Rightarrow> ('y \<Rightarrow> ('s, 'z) gen) \<Rightarrow> ('s, 'z) gen" where
  "for_await g k s =
     (case g s of (ys, e, s') \<Rightarrow> followed_by (gen_each k ys) (\<lambda>s''. ([], e, s'')) s')"

text \<open>An operation whose own generator still runs when it is left by \<open>finally\<close>.\<close>

definition gen_finally :: "('s, 'y) gen \<Rightarrow> ('s, unit) act \<Rightarrow> ('s, 'y) gen" where
  "gen_finally g f s =
     (case g s of (ys, e, s') \<Rightarrow>
        (case f s' of (Inl t, s'') \<Rightarrow> (ys, Some t, s'') | (Inr _, s'') \<Rightarrow> (ys, e, s'')))"

lemmas run_gen = yields_def yield_one_def gen_throw_def gen_await_def followed_by_def for_await_def gen_finally_def

lemma followed_by_cases:
  assumes "followed_by g h s = (ys, e, s')"
  obtains t where "g s = (ys, Some t, s')" "e = Some t"
  | ys1 s1 zs where "g s = (ys1, None, s1)" "h s1 = (zs, e, s')" "ys = ys1 @ zs"
  using assms by (auto simp: followed_by_def split: prod.splits option.splits)

lemma gen_await_cases:
  assumes "gen_await m k s = (ys, e, s')"
  obtains t where "m s = (Inl t, s')" "ys = []" "e = Some t"
  | v s1 where "m s = (Inr v, s1)" "k v s1 = (ys, e, s')"
  using assms by (auto simp: gen_await_def split: prod.splits sum.splits)

end
