(* ===== verification/NodesAccess.thy ===== *)
theory NodesAccess
  imports Effects Iterators NodesCache NodeAttributes
begin

text \<open>
  Access to nodes: \<^verbatim>\<open>internal/nodes/nodesAccess.ts\<close> and \<^verbatim>\<open>debouncer.ts\<close>. A node is read from the
  cache or loaded from the API, decrypted with its parent's key, which may have to be loaded
  first, parsed, and cached; the listings do so in batches.

  The class is abstract in its node type, and so is the model: the environment holds the API, the
  shares, the OpenPGP operations and the two methods a subclass gives, the state the node cache,
  the key cache, the loading nodes and everything outside. The caches are used through the
  interface \<open>node_cache_ops\<close>, whose laws are the locale \<open>node_cache\<close>.

  One call runs after the other; a generator is run to its end, its items mapped one after the
  other. The recursion up the tree of parents takes fuel, \<open>None\<close> being a call that has not ended.
\<close>

section \<open>NodesDebouncer\<close>

text \<open>
  The UIDs whose promise is pending. Waiting for one ends at the latest when its timer takes it
  away; when calls run one after the other nothing else can.
\<close>

definition loadingNode :: "string \<Rightarrow> string list \<Rightarrow> string list" where
  "loadingNode nodeUid promises = (if nodeUid \<in> set promises then promises else promises @ [nodeUid])"

definition loadingNodes :: "string list \<Rightarrow> string list \<Rightarrow> string list" where
  "loadingNodes nodeUids promises = fold loadingNode nodeUids promises"

definition finishedLoadingNode :: "string \<Rightarrow> string list \<Rightarrow> string list" where
  "finishedLoadingNode nodeUid promises = removeAll nodeUid promises"

definition finishedLoadingNodes :: "string list \<Rightarrow> string list \<Rightarrow> string list" where
  "finishedLoadingNodes nodeUids promises = fold finishedLoadingNode nodeUids promises"

definition waitForLoadingNode :: "string \<Rightarrow> string list \<Rightarrow> string list" where
  "waitForLoadingNode nodeUid promises =
     (if nodeUid \<in> set promises then finishedLoadingNode nodeUid promises else promises)"

definition debouncer_clear :: "string list \<Rightarrow> string list" where
  "debouncer_clear promises = []"

section \<open>State and environment\<close>

text \<open>The node cache as this class uses it: its generators give one entry per key.\<close>

record ('c, 'n) node_cache_ops =
  nci_getNode :: "string \<Rightarrow> ('c, 'n) run"
  nci_setNode :: "'n \<Rightarrow> ('c, unit) act"
  nci_removeNodes :: "string list \<Rightarrow> 'c \<Rightarrow> 'c option"
  nci_key :: "string \<Rightarrow> string"
  nci_entry :: "string \<Rightarrow> 'c \<Rightarrow> ('n node_result option \<times> 'c) option"
  nci_childKeys :: "string \<Rightarrow> 'c \<Rightarrow> string list"
  nci_trashed :: "'n node_result \<Rightarrow> bool"
  nci_isFolderChildrenLoaded :: "string \<Rightarrow> 'c \<Rightarrow> bool"
  nci_setFolderChildrenLoaded :: "string \<Rightarrow> ('c, unit) act"
  nci_resetFolderChildrenLoaded :: "string \<Rightarrow> 'c \<Rightarrow> 'c"

record ('kc, 'k) key_cache_ops =
  kci_getNodeKeys :: "string \<Rightarrow> ('kc, 'k) act"
  kci_setNodeKeys :: "string \<Rightarrow> 'k \<Rightarrow> ('kc, unit) act"

record 'e enc_node =
  en_uid :: string
  en_parentUid :: "string option"
  en_shareId :: "string option"
  en_data :: 'e

text \<open>What is read of a decrypted node and of its keys.\<close>

record 'n node_view =
  nv_uid :: "'n \<Rightarrow> string"
  nv_parentUid :: "'n \<Rightarrow> string option"
  nv_shareId :: "'n \<Rightarrow> string option"
  nv_type :: "'n \<Rightarrow> string"
  nv_mediaType :: "'n \<Rightarrow> string option"
  nv_isStale :: "'n \<Rightarrow> bool"
  nv_setStale :: "'n \<Rightarrow> 'n"
  nv_setParentUid :: "string \<Rightarrow> 'n \<Rightarrow> 'n"

record ('c, 'kc, 'o, 'e, 'u, 'n, 'p, 'k, 'm, 'q) access_env =
  ae_cache :: "('c, 'n) node_cache_ops"
  ae_keys :: "('kc, 'k) key_cache_ops"
  ae_view :: "'n node_view"
  ae_key :: "'k \<Rightarrow> 'p"
  ae_hashKey :: "'k \<Rightarrow> bytes option"
  ae_getRootIDs :: "('o, string \<times> string) act"
  ae_getSharePrivateKey :: "string \<Rightarrow> ('o, 'p) act"
  ae_getContextShareMemberEmailKey :: "string \<Rightarrow> ('o, 'm) act"
  ae_getNode :: "string \<Rightarrow> string \<Rightarrow> ('o, 'e enc_node) act"
  ae_iterateNodes :: "string list \<Rightarrow> string \<Rightarrow> string option \<Rightarrow> 'o \<Rightarrow> 'e enc_node list \<times> thrown option \<times> 'o"
  ae_iterateChildrenNodeUids :: "string \<Rightarrow> bool \<Rightarrow> 'o \<Rightarrow> string list \<times> thrown option \<times> 'o"
  ae_iterateTrashedNodeUids :: "string \<Rightarrow> 'o \<Rightarrow> string list \<times> thrown option \<times> 'o"
  ae_decryptNode :: "'e enc_node \<Rightarrow> 'p \<Rightarrow> thrown + 'u \<times> 'k option"
  ae_getNameSessionKey :: "'n \<Rightarrow> 'p \<Rightarrow> thrown + 'q"
  ae_parseNode :: "'u \<Rightarrow> thrown + 'n"
  ae_degraded :: "'e enc_node \<Rightarrow> js_error \<Rightarrow> thrown + 'n"
  ae_yieldedBeforeError :: "string list \<Rightarrow> nat"

record ('c, 'kc, 'o) access_state =
  na_cache :: 'c
  na_keys :: 'kc
  na_loading :: "string list"
  na_outside :: 'o

definition on_cache :: "('c, 'a) run \<Rightarrow> (('c, 'kc, 'o) access_state, 'a) run" where
  "on_cache m s = map_option (\<lambda>(r, c). (r, s\<lparr>na_cache := c\<rparr>)) (m (na_cache s))"

definition on_keys :: "('kc, 'a) act \<Rightarrow> (('c, 'kc, 'o) access_state, 'a) run" where
  "on_keys m s = (case m (na_keys s) of (r, k) \<Rightarrow> Some (r, s\<lparr>na_keys := k\<rparr>))"

definition on_outside :: "('o, 'a) act \<Rightarrow> (('c, 'kc, 'o) access_state, 'a) run" where
  "on_outside m s = (case m (na_outside s) of (r, w) \<Rightarrow> Some (r, s\<lparr>na_outside := w\<rparr>))"

definition on_loading :: "(string list \<Rightarrow> string list) \<Rightarrow> (('c, 'kc, 'o) access_state, unit) run" where
  "on_loading f s = Some (Inr (), s\<lparr>na_loading := f (na_loading s)\<rparr>)"

definition as_run :: "('s, 'a) act \<Rightarrow> ('s, 'a) run" where
  "as_run m s = Some (m s)"

definition as_run_unit :: "('s \<Rightarrow> 's option) \<Rightarrow> ('s, unit) run" where
  "as_run_unit f s = map_option (Pair (Inr ())) (f s)"

section \<open>Keys and decryption\<close>

text \<open>The recursive call, \<open>loadNode\<close>, is the first argument of what lies between two of them.\<close>

type_synonym ('s, 'n, 'k) loader = "string \<Rightarrow> ('s, 'n \<times> 'k option) run"

definition getNodeKeys_with where
  "getNodeKeys_with env loader nodeUid =
     catch_run
       (then_run (on_loading (waitForLoadingNode nodeUid)) (\<lambda>_.
          on_keys (kci_getNodeKeys (ae_keys env) nodeUid)))
       (\<lambda>_. then_run (loader nodeUid) (\<lambda>(node, keys).
          case keys of
            None \<Rightarrow> throw_run (throw_new DecryptionError ''Item cannot be decrypted'')
          | Some k \<Rightarrow> give_run k))"

definition getParentKeys_with where
  "getParentKeys_with env loader uid parentUid shareId =
     (case present parentUid of
        Some parent \<Rightarrow>
          catch_run (then_run (getNodeKeys_with env loader parent) (\<lambda>k. give_run (ae_key env k, ae_hashKey env k)))
            (\<lambda>error. throw_run
               (if instanceof error DecryptionError
                then ThrownError (with_cause (new_error DecryptionError ''Parent cannot be decrypted'') error)
                else error))
      | None \<Rightarrow>
          (case present shareId of
             Some share \<Rightarrow> then_run (on_outside (ae_getSharePrivateKey env share)) (\<lambda>key. give_run (key, None))
           | None \<Rightarrow> throw_run (throw_new JsError (''Node has neither parent node nor share: '' @ uid))))"

text \<open>A failure to cache is logged; the undecryptable node of the first branch is not cached at all.\<close>

definition swallow :: "('s, unit) run \<Rightarrow> ('s, unit) run" where
  "swallow m = catch_run m (\<lambda>_. give_run ())"

definition decryptNode_with where
  "decryptNode_with env loader encryptedNode s =
     (case getParentKeys_with env loader (en_uid encryptedNode) (en_parentUid encryptedNode)
             (en_shareId encryptedNode) s of
        None \<Rightarrow> None
      | Some (Inl error, s') \<Rightarrow>
          (case error of
             ThrownError e \<Rightarrow>
               if instanceof error DecryptionError
               then Some (map_sum id (\<lambda>node. (node, None)) (ae_degraded env encryptedNode e), s')
               else Some (Inl error, s')
           | ThrownValue _ \<Rightarrow> Some (Inl error, s'))
      | Some (Inr (parentKey, _), s') \<Rightarrow>
          (case ae_decryptNode env encryptedNode parentKey of
             Inl error \<Rightarrow> Some (Inl error, s')
           | Inr (unparsedNode, keys) \<Rightarrow>
               (case ae_parseNode env unparsedNode of
                  Inl error \<Rightarrow> Some (Inl error, s')
                | Inr node \<Rightarrow>
                    then_run (swallow (on_cache (as_run (nci_setNode (ae_cache env) node)))) (\<lambda>_.
                    then_run (case keys of
                                Some k \<Rightarrow> swallow (on_keys (kci_setNodeKeys (ae_keys env) (nv_uid (ae_view env) node) k))
                              | None \<Rightarrow> give_run ()) (\<lambda>_.
                    then_run (on_loading (finishedLoadingNode (nv_uid (ae_view env) node))) (\<lambda>_.
                    give_run (node, keys)))) s')))"

definition getOwnVolumeId where
  "getOwnVolumeId env = then_run (on_outside (ae_getRootIDs env)) (\<lambda>(volumeId, rootNodeId). give_run volumeId)"

text \<open>
  \<open>decryptNode\<close> is returned and not awaited, so the \<open>finally\<close> that takes the node off the loading
  ones runs before its decryption.
\<close>

fun loadNode where
  "loadNode env 0 nodeUid s = None"
| "loadNode env (Suc fuel) nodeUid s =
     then_run (on_loading (loadingNode nodeUid)) (\<lambda>_.
     then_run
       (catch_run
          (then_run (getOwnVolumeId env) (\<lambda>ownVolumeId. on_outside (ae_getNode env nodeUid ownVolumeId)))
          (\<lambda>error. then_run (on_loading (finishedLoadingNode nodeUid)) (\<lambda>_. throw_run error))) (\<lambda>encryptedNode.
     then_run (on_loading (finishedLoadingNode nodeUid)) (\<lambda>_.
     decryptNode_with env (loadNode env fuel) encryptedNode))) s"

definition decryptNode where "decryptNode env fuel = decryptNode_with env (loadNode env fuel)"
definition getNodeKeys where "getNodeKeys env fuel = getNodeKeys_with env (loadNode env fuel)"

definition getParentKeys where
  "getParentKeys env fuel node =
     getParentKeys_with env (loadNode env fuel) (nv_uid (ae_view env) node)
       (nv_parentUid (ae_view env) node) (nv_shareId (ae_view env) node)"

section \<open>Single nodes\<close>

text \<open>The cached node, waited for; a cache error counts as no node.\<close>

definition cached_node where
  "cached_node env nodeUid =
     catch_run
       (then_run (on_loading (waitForLoadingNode nodeUid)) (\<lambda>_.
        then_run (on_cache (nci_getNode (ae_cache env) nodeUid)) (\<lambda>node. give_run (Some node))))
       (\<lambda>_. give_run None)"

definition fresh :: "'n node_view \<Rightarrow> 'n option \<Rightarrow> 'n option" where
  "fresh view node = (case node of Some n \<Rightarrow> if nv_isStale view n then None else Some n | None \<Rightarrow> None)"

definition getNode where
  "getNode env fuel nodeUid =
     then_run (cached_node env nodeUid) (\<lambda>cachedNode.
       case fresh (ae_view env) cachedNode of
         Some node \<Rightarrow> give_run node
       | None \<Rightarrow> then_run (loadNode env fuel nodeUid) (\<lambda>(node, keys). give_run node))"

definition getVolumeRootFolder where
  "getVolumeRootFolder env fuel =
     then_run (on_outside (ae_getRootIDs env)) (\<lambda>(volumeId, rootNodeId).
       getNode env fuel (makeNodeUid volumeId rootNodeId))"

fun getRootNode where
  "getRootNode env 0 nodeUid s = None"
| "getRootNode env (Suc fuel) nodeUid s =
     then_run (getNode env fuel nodeUid) (\<lambda>node.
       case present (nv_parentUid (ae_view env) node) of
         Some parent \<Rightarrow> getRootNode env fuel parent
       | None \<Rightarrow> give_run node) s"

definition getRootNodeEmailKey where
  "getRootNodeEmailKey env fuel nodeUid =
     then_run (getRootNode env fuel nodeUid) (\<lambda>rootNode.
       case present (nv_shareId (ae_view env) rootNode) of
         None \<Rightarrow> throw_run (throw_new JsError (''Node '' @ [CHR 0x22] @ nodeUid @ [CHR 0x22] @ '' is not accessible - missing root shareId''))
       | Some share \<Rightarrow> on_outside (ae_getContextShareMemberEmailKey env share))"

definition getNodeSigningKeys where
  "getNodeSigningKeys env fuel nodeUid parentNodeUid =
     (case present nodeUid of
        Some uid \<Rightarrow> getRootNodeEmailKey env fuel uid
      | None \<Rightarrow>
          (case present parentNodeUid of
             Some uid \<Rightarrow> getRootNodeEmailKey env fuel uid
           | None \<Rightarrow> throw_run (throw_new JsError ''Context node UID is required for signing keys'')))"

definition getNodePrivateAndSessionKeys where
  "getNodePrivateAndSessionKeys env fuel nodeUid =
     then_run (getNode env fuel nodeUid) (\<lambda>node.
     then_run (getParentKeys env fuel node) (\<lambda>(parentKey, _).
     then_run (getNodeKeys env fuel nodeUid) (\<lambda>keys.
       case ae_getNameSessionKey env node parentKey of
         Inl error \<Rightarrow> throw_run error
       | Inr nameSessionKey \<Rightarrow> give_run (keys, nameSessionKey))))"

definition split_or_throw where
  "split_or_throw nodeUid = (case splitNodeUid nodeUid of Inl error \<Rightarrow> throw_run error | Inr p \<Rightarrow> give_run p)"

definition getNodeUrl where
  "getNodeUrl env fuel nodeUid =
     then_run (getNode env fuel nodeUid) (\<lambda>node.
       let mediaType = nv_mediaType (ae_view env) node in
       if isProtonDocument mediaType \<or> isProtonSheet mediaType
       then then_run (split_or_throw nodeUid) (\<lambda>(volumeId, nodeId).
              give_run (''https://docs.proton.me/doc?type='' @ (if isProtonDocument mediaType then ''doc'' else ''sheet'')
                @ ''&mode=open&volumeId='' @ volumeId @ ''&linkId='' @ nodeId))
       else then_run (getRootNode env fuel nodeUid) (\<lambda>rootNode.
         case present (nv_shareId (ae_view env) rootNode) of
           None \<Rightarrow> throw_run (throw_new ProtonDriveError ''Node is not accessible'')
         | Some share \<Rightarrow> then_run (split_or_throw nodeUid) (\<lambda>(volumeId, nodeId).
             give_run (''https://drive.proton.me/'' @ share @ ''/''
               @ (if nv_type (ae_view env) node = ''file'' then ''file'' else ''folder'') @ ''/'' @ nodeId))))"

section \<open>Notifications\<close>

definition notifyChildCreated where
  "notifyChildCreated env nodeUid =
     on_cache (as_run_unit (\<lambda>c. Some (nci_resetFolderChildrenLoaded (ae_cache env) nodeUid c)))"

text \<open>
  \<open>newParentUid === null\<close> is false for a parent that is not given, which is \<open>undefined\<close>: the early
  return of a node that is stale already is never taken.
\<close>

definition notifyNodeChanged where
  "notifyNodeChanged env nodeUid newParentUid =
     swallow
       (then_run (on_cache (nci_getNode (ae_cache env) nodeUid)) (\<lambda>node.
          let view = ae_view env;
              node = nv_setStale view node;
              node = (case present newParentUid of Some p \<Rightarrow> nv_setParentUid view p node | None \<Rightarrow> node)
          in on_cache (as_run (nci_setNode (ae_cache env) node))))"

definition notifyNodeDeleted where
  "notifyNodeDeleted env nodeUid = on_cache (as_run_unit (nci_removeNodes (ae_cache env) [nodeUid]))"

section \<open>Listings\<close>

text \<open>
  A generator gives the items it yields, how it ends, and the state it leaves. Of a bulk request
  that fails, some of the nodes that came before the error are yielded: how many depends on the
  timing of the concurrent map and is the environment's.
\<close>

datatype 'n listed = Listed 'n | MissingNode string

definition BATCH_LOADING_SIZE :: nat where "BATCH_LOADING_SIZE = 30"

fun decrypt_each where
  "decrypt_each env fuel [] s = Some ([], s)"
| "decrypt_each env fuel (encryptedNode # rest) s =
     (case then_run (on_loading (loadingNode (en_uid encryptedNode))) (\<lambda>_. decryptNode env fuel encryptedNode) s of
        None \<Rightarrow> None
      | Some (result, s') \<Rightarrow>
          map_option (\<lambda>(results, s''). (map_sum id fst result # results, s'')) (decrypt_each env fuel rest s'))"

definition node_values :: "(thrown + 'n) list \<Rightarrow> 'n list" where
  "node_values results = List.map_filter (\<lambda>r. case r of Inr n \<Rightarrow> Some n | Inl _ \<Rightarrow> None) results"

definition node_errors :: "(thrown + 'n) list \<Rightarrow> thrown list" where
  "node_errors results = List.map_filter (\<lambda>r. case r of Inl e \<Rightarrow> Some e | Inr _ \<Rightarrow> None) results"

definition loadNodesWithMissingReport where
  "loadNodesWithMissingReport env fuel filterType nodeUids s =
     (case getOwnVolumeId env s of
        None \<Rightarrow> None
      | Some (Inl error, s') \<Rightarrow> Some ([], Some error, s')
      | Some (Inr ownVolumeId, s1) \<Rightarrow>
          (case ae_iterateNodes env nodeUids ownVolumeId filterType (na_outside s1) of (encryptedNodes, apiError, w) \<Rightarrow>
             (case decrypt_each env fuel encryptedNodes (s1\<lparr>na_outside := w\<rparr>) of
                None \<Rightarrow> None
              | Some (results, s2) \<Rightarrow>
                  (let nodes = map Listed (node_values results) in
                   case apiError of
                     Some error \<Rightarrow> Some (take (ae_yieldedBeforeError env nodeUids) nodes, Some error, s2)
                   | None \<Rightarrow>
                       if node_errors results \<noteq> []
                       then Some (nodes, Some (throw_new ProtonDriveError ''Failed to load some nodes''), s2)
                       else
                         (let missing = filter (\<lambda>u. u \<notin> set (map en_uid encryptedNodes)) nodeUids in
                          if missing = [] then Some (nodes, None, s2)
                          else case nci_removeNodes (ae_cache env) missing (na_cache s2) of
                                 None \<Rightarrow> None
                               | Some c \<Rightarrow> Some (nodes @ map MissingNode missing, None, s2\<lparr>na_cache := c\<rparr>))))))"

definition listed_nodes :: "'n listed list \<Rightarrow> 'n list" where
  "listed_nodes items = List.map_filter (\<lambda>i. case i of Listed n \<Rightarrow> Some n | MissingNode _ \<Rightarrow> None) items"

definition loadNodes where
  "loadNodes env fuel filterType nodeUids s =
     map_option (\<lambda>(items, error, s'). (listed_nodes items, error, s'))
       (loadNodesWithMissingReport env fuel filterType nodeUids s)"

text \<open>
  The two loops of the listings: over the entries of the cache, and over UIDs from the API. A fresh
  node gives \<open>item node\<close>, any other goes into the batch.
\<close>

definition load_item where
  "load_item source uid b s rest =
     (case load source uid b s of
        None \<Rightarrow> None
      | Some (yielded, Some error, b', s') \<Rightarrow> Some (yielded, LoadAborted error, b', s')
      | Some (yielded, None, b', s') \<Rightarrow>
          map_option (\<lambda>(later, result, b'', s''). (yielded @ later, result, b'', s'')) (rest b' s'))"

definition yield_items where
  "yield_items items rest = map_option (\<lambda>(later, result, b, s). (items @ later, result, b, s)) rest"

fun iterate_entries where
  "iterate_entries env item source skip [] b s = loadRest source b s"
| "iterate_entries env item source skip (key # keys) b s =
     (case nci_entry (ae_cache env) key (na_cache s) of
        None \<Rightarrow> None
      | Some (None, c) \<Rightarrow> iterate_entries env item source skip keys b (s\<lparr>na_cache := c\<rparr>)
      | Some (Some r, c) \<Rightarrow>
          if skip r then iterate_entries env item source skip keys b (s\<lparr>na_cache := c\<rparr>)
          else case fresh (ae_view env) (case r of NodeOk _ n \<Rightarrow> Some n | NodeMissing _ _ \<Rightarrow> None) of
                 Some node \<Rightarrow> yield_items (item node) (iterate_entries env item source skip keys b (s\<lparr>na_cache := c\<rparr>))
               | None \<Rightarrow> load_item source (nr_uid r) b (s\<lparr>na_cache := c\<rparr>) (iterate_entries env item source skip keys))"

fun iterate_uids where
  "iterate_uids env item source [] apiError b s =
     (case apiError of
        Some error \<Rightarrow> Some ([], LoadAborted error, b, s)
      | None \<Rightarrow> loadRest source b s)"
| "iterate_uids env item source (uid # uids) apiError b s =
     (case cached_node env uid s of
        None \<Rightarrow> None
      | Some (Inl error, s') \<Rightarrow> Some ([], LoadAborted error, b, s')
      | Some (Inr node, s') \<Rightarrow>
          (case fresh (ae_view env) node of
             Some node \<Rightarrow> yield_items (item node) (iterate_uids env item source uids apiError b s')
           | None \<Rightarrow> load_item source uid b s' (iterate_uids env item source uids apiError)))"

definition without_batch where
  "without_batch r = map_option (\<lambda>(items, result, b, s). (items, result, s)) r"

text \<open>\<open>filterOptions\<close> may be absent, and its type too.\<close>

definition iterateFolderChildren where
  "iterateFolderChildren env fuel parentNodeUid filterOptions s =
     (let filterType = (case filterOptions of Some (Some t) \<Rightarrow> Some t | _ \<Rightarrow> None);
          item = (\<lambda>node. if filterType = None \<or> filterType = Some (nv_type (ae_view env) node) then [node] else []);
          source = loadNodes env fuel filterType;
          batch = new_batch_loading (Some BATCH_LOADING_SIZE)
      in case getNode env fuel parentNodeUid s of
           None \<Rightarrow> None
         | Some (Inl error, s') \<Rightarrow> Some ([], LoadAborted error, s')
         | Some (Inr parentNode, s1) \<Rightarrow>
             if nci_isFolderChildrenLoaded (ae_cache env) parentNodeUid (na_cache s1)
             then without_batch
               (iterate_entries env item source (nci_trashed (ae_cache env))
                  (nci_childKeys (ae_cache env) parentNodeUid (na_cache s1)) batch s1)
             else
               (case ae_iterateChildrenNodeUids env (nv_uid (ae_view env) parentNode) (filterType = Some ''folder'')
                       (na_outside s1) of (uids, apiError, w) \<Rightarrow>
                (case without_batch (iterate_uids env item source uids apiError batch (s1\<lparr>na_outside := w\<rparr>)) of
                   None \<Rightarrow> None
                 | Some (items, result, s2) \<Rightarrow>
                     if result = LoadedAll \<and> filterOptions = None
                     then (case nci_setFolderChildrenLoaded (ae_cache env) parentNodeUid (na_cache s2) of
                             (Inl error, c) \<Rightarrow> Some (items, LoadAborted error, s2\<lparr>na_cache := c\<rparr>)
                           | (Inr _, c) \<Rightarrow> Some (items, LoadedAll, s2\<lparr>na_cache := c\<rparr>))
                     else Some (items, result, s2))))"

definition iterateTrashedNodes where
  "iterateTrashedNodes env fuel s =
     (case getOwnVolumeId env s of
        None \<Rightarrow> None
      | Some (Inl error, s') \<Rightarrow> Some ([], LoadAborted error, s')
      | Some (Inr volumeId, s1) \<Rightarrow>
          (case ae_iterateTrashedNodeUids env volumeId (na_outside s1) of (uids, apiError, w) \<Rightarrow>
             without_batch (iterate_uids env (\<lambda>node. [node]) (loadNodes env fuel None) uids apiError
               (new_batch_loading (Some BATCH_LOADING_SIZE)) (s1\<lparr>na_outside := w\<rparr>))))"

definition iterateNodes where
  "iterateNodes env fuel nodeUids s =
     without_batch (iterate_entries env (\<lambda>node. [Listed node]) (loadNodesWithMissingReport env fuel None) (\<lambda>_. False)
       (map (nci_key (ae_cache env)) nodeUids) (new_batch_loading (Some BATCH_LOADING_SIZE)) s)"

section \<open>What the node cache promises\<close>

text \<open>
  \<open>holds c store\<close>: the cache holds the map \<open>store\<close>, whose nodes read back as \<open>canon\<close> makes them. A good
  node is one its serialisation keeps. Of the UIDs \<open>flag\<close> marks nothing is promised unless they have
  a node.
\<close>

locale node_cache =
  fixes cache :: "('c, 'n) node_cache_ops"
    and view :: "'n node_view"
    and holds :: "'c \<Rightarrow> (string \<rightharpoonup> 'n) \<Rightarrow> bool"
    and good :: "'n \<Rightarrow> bool"
    and canon :: "'n \<Rightarrow> 'n"
    and flag :: "string \<Rightarrow> bool"
  assumes get_held: "holds c store \<Longrightarrow> store u = Some n \<Longrightarrow> nci_getNode cache u c = Some (Inr (canon n), c)"
    and get_missing: "holds c store \<Longrightarrow> store u = None \<Longrightarrow> \<not> flag u \<Longrightarrow> \<exists>e. nci_getNode cache u c = Some (Inl e, c)"
    and get_ends: "holds c store \<Longrightarrow> \<exists>r c' store'. nci_getNode cache u c = Some (r, c') \<and> holds c' store'"
    and set_held: "holds c store \<Longrightarrow> good n \<Longrightarrow> volume_of (nv_uid view n) \<noteq> None \<Longrightarrow>
      \<exists>c'. nci_setNode cache n c = (Inr (), c') \<and> holds c' (store(nv_uid view n \<mapsto> n))"
    and set_refused: "holds c store \<Longrightarrow> volume_of (nv_uid view n) = None \<Longrightarrow>
      \<exists>e c'. nci_setNode cache n c = (Inl e, c') \<and> holds c' store"
    and removed: "holds c store \<Longrightarrow> \<exists>c' X. nci_removeNodes cache us c = Some c'
      \<and> set us \<subseteq> X \<and> holds c' (store |` (- X))"
    and entry_held: "holds c store \<Longrightarrow> store u \<noteq> None \<or> \<not> flag u \<Longrightarrow>
      \<exists>r. nci_entry cache (nci_key cache u) c = Some (Some r, c) \<and> nr_uid r = u
      \<and> (case store u of Some n \<Rightarrow> r = NodeOk u (canon n) | None \<Rightarrow> \<exists>e. r = NodeMissing u e)"
    and children_held: "holds c store \<Longrightarrow> \<exists>us. nci_childKeys cache p c = map (nci_key cache) us
      \<and> set us = {u. \<exists>n. store u = Some n \<and> present (nv_parentUid view n) = Some p}"
    and loaded_set: "holds c store \<Longrightarrow> volume_of p \<noteq> None \<Longrightarrow> \<forall>u. store u \<noteq> None \<longrightarrow> \<not> flag u \<Longrightarrow>
      \<exists>c'. nci_setFolderChildrenLoaded cache p c = (Inr (), c') \<and> holds c' store
        \<and> nci_isFolderChildrenLoaded cache p c'"
    and held_nodes: "holds c store \<Longrightarrow> store u = Some n \<Longrightarrow> good n \<and> nv_uid view n = u"
    and canon_view: "good n \<Longrightarrow> nv_uid view (canon n) = nv_uid view n \<and> nv_isStale view (canon n) = nv_isStale view n
      \<and> present (nv_parentUid view (canon n)) = present (nv_parentUid view n)"

section \<open>NodesCache meets the contract\<close>

text \<open>
  \<open>NodesCache\<close> over \<open>MemoryCache\<close>, with the number of nodes written so far: that many it can hold at
  most, so one more is enough fuel for its recursive removals.
\<close>

definition children_flag :: "string \<Rightarrow> bool" where
  "children_flag uid \<longleftrightarrow> js_startsWith uid ''children-''"

definition client_cache :: "(jsval \<Rightarrow> int option) \<Rightarrow> (js_text memory_cache \<times> nat, jsval) node_cache_ops" where
  "client_cache date_of =
     \<lparr>nci_getNode = (\<lambda>u (c, k). map_option (\<lambda>(r, c'). (r, (c', k))) (nc_getNode mc (jn date_of) (Suc k) u c)),
      nci_setNode = (\<lambda>n (c, k). case nc_setNode mc (jn date_of) n c of (r, c') \<Rightarrow> (r, (c', Suc k))),
      nci_removeNodes = (\<lambda>us (c, k). map_option (\<lambda>c'. (c', k)) (nc_removeNodes mc (Suc k) us c)),
      nci_key = getCacheUid,
      nci_entry = (\<lambda>key (c, k). map_option (\<lambda>(r, c'). (r, (c', k)))
                     (convertCacheResult mc (jn date_of) (Suc k) (co_entity mc key c) c)),
      nci_childKeys = (\<lambda>p (c, k). co_keysByTag mc (parent_tag p) c),
      nci_trashed = (\<lambda>r. \<not> not_trashed (jn date_of) r),
      nci_isFolderChildrenLoaded = (\<lambda>p (c, k). isFolderChildrenLoaded mc p c),
      nci_setFolderChildrenLoaded =
        (\<lambda>p (c, k). case setFolderChildrenLoaded mc (PlainText ''loaded'') p c of (r, c') \<Rightarrow> (r, (c', k))),
      nci_resetFolderChildrenLoaded = (\<lambda>p (c, k). (resetFolderChildrenLoaded mc p c, k))\<rparr>"

definition node_view_of_js :: "jsval node_view" where
  "node_view_of_js =
     \<lparr>nv_uid = node_uid,
      nv_parentUid = string_field ''parentUid'',
      nv_shareId = string_field ''shareId'',
      nv_type = (\<lambda>n. case string_field ''type'' n of Some t \<Rightarrow> t | None \<Rightarrow> ''''),
      nv_mediaType = string_field ''mediaType'',
      nv_isStale = (\<lambda>n. js_truthy (js_opt ''isStale'' n)),
      nv_setStale = obj_set ''isStale'' (JBool True),
      nv_setParentUid = (\<lambda>p. obj_set ''parentUid'' (JStr p))\<rparr>"

definition client_holds ::
  "(jsval \<Rightarrow> int option) \<Rightarrow> js_text memory_cache \<times> nat \<Rightarrow> (string \<rightharpoonup> jsval) \<Rightarrow> bool"
where
  "client_holds date_of ck store \<longleftrightarrow>
     mc_inv (fst ck) \<and> nodes_held children_flag mc (jn date_of) good_node (fst ck) store
     \<and> finite (dom store) \<and> card (dom store) \<le> snd ck"

lemma children_key_flag: "children_key p = getCacheUid (''children-'' @ p)" "children_flag (''children-'' @ p)"
  by (simp_all add: children_key_def getCacheUid_def children_flag_def js_startsWith_def)

lemma client_new: "client_holds date_of (mc_new, 0) Map.empty"
  using mc_inv_new by (simp add: client_holds_def nodes_held_def tagged_def mc_ops) (simp add: mc_new_def mc_keysByTag_def)

lemma client_remove:
  assumes "client_holds date_of (c, k) store"
  shows "\<exists>c'. nc_removeNodes mc (Suc k) us c = Some c'
     \<and> client_holds date_of (c', k) (store |` (- ((is_child store)\<^sup>* `` set us)))"
proof -
  let ?store = "store |` (- ((is_child store)\<^sup>* `` set us))"
  obtain c' where "nc_removeNodes mc (Suc k) us c = Some c'" "mc_inv c'"
    "nodes_held children_flag mc (jn date_of) good_node c' ?store"
    using nodes.removeNodes_holds [of children_flag date_of c store "Suc k" us] assms is_child_rel [of date_of store]
    by (auto simp: client_holds_def)
  moreover have "finite (dom ?store)" "card (dom ?store) \<le> k"
    using assms by (auto simp: client_holds_def intro: le_trans [OF card_mono])
  ultimately show ?thesis by (auto simp: client_holds_def)
qed

lemma client_loaded:
  assumes "client_holds date_of (c, k) store" "volume_of p = Some v" "\<forall>u. store u \<noteq> None \<longrightarrow> \<not> children_flag u"
  shows "\<exists>c'. setFolderChildrenLoaded mc (PlainText ''loaded'') p c = (Inr (), c')
     \<and> client_holds date_of (c', k) store \<and> isFolderChildrenLoaded mc p c'"
proof -
  let ?t = "PlainText ''loaded'' :: js_text"
  let ?c = "co_setEntity mc (children_key p) ?t (Some [children_volume_tag v]) c"
  from assms(1) have inv: "mc_inv c" and held: "nodes_held children_flag mc (jn date_of) good_node c store"
    by (simp_all add: client_holds_def)
  have none: "store (''children-'' @ p) = None"
    using assms(3) children_key_flag(2) by blast
  have truthy: "text_truthy ?t" by (simp add: text_truthy_def)
  have "case store uid of
        None \<Rightarrow> children_flag uid \<or> (\<exists>e. co_getEntity mc (getCacheUid uid) ?c = Inl e)
      | Some n \<Rightarrow> co_getEntity mc (getCacheUid uid) ?c = Inr (no_serialiseNode (jn date_of) n)
           \<and> no_uid (jn date_of) n = uid \<and> good_node n \<and> volume_of uid \<noteq> None" for uid
  proof (cases "uid = ''children-'' @ p")
    case True
    with none children_key_flag(2) show ?thesis by simp
  next
    case False
    then have "co_getEntity mc (getCacheUid uid) ?c = co_getEntity mc (getCacheUid uid) c"
      using mem.get_set_other [OF inv, of "getCacheUid uid"] by (simp add: children_key_flag(1))
    with held_lookup [OF held, of uid] show ?thesis by (simp split: option.split)
  qed
  moreover have "set (co_keysByTag mc t ?c) = getCacheUid ` tagged (jn date_of) store t" if "node_tag t" for t
  proof -
    have "t \<noteq> children_volume_tag v" using that by auto
    moreover have "''children-'' @ p \<notin> tagged (jn date_of) store t" using none by (auto simp: tagged_def)
    ultimately show ?thesis
      using mem.tag_set [OF inv, where ts = "[children_volume_tag v]" and t = t] held_tags [OF held that]
      by (auto simp: children_key_flag(1))
  qed
  moreover have "mc_inv ?c" using mem.inv_set [where truthy = text_truthy, OF inv] by simp
  moreover have "isFolderChildrenLoaded mc p ?c"
    using mem.get_set_same [where truthy = text_truthy, OF inv truthy] by (simp add: isFolderChildrenLoaded_def)
  ultimately show ?thesis
    using assms(1,2) by (auto simp: setFolderChildrenLoaded_def volume_of_def client_holds_def nodes_held_def split: sum.splits)
qed

lemmas client_defs = client_cache_def node_view_of_js_def client_holds_def

interpretation client: node_cache "client_cache date_of" node_view_of_js "client_holds date_of" good_node
    "reread_node date_of" children_flag for date_of
proof (unfold_locales, goal_cases)
  case (1 c store u n)
  then have held: "nodes_held children_flag mc (jn date_of) good_node (fst c) store" "store u = Some n"
    by (simp_all add: client_holds_def)
  from held_lookup(1) [OF held] show ?case
    using reread_good [of n date_of] by (cases c) (simp add: client_cache_def nc_getNode_def)
next
  case (2 c store u)
  then have held: "nodes_held children_flag mc (jn date_of) good_node (fst c) store" by (simp add: client_holds_def)
  from held_lookup(2) [OF held 2(2)] 2(3) show ?case
    by (cases c) (auto simp: client_cache_def nc_getNode_def)
next
  case (3 c store u)
  obtain c0 k where c: "c = (c0, k)" by (cases c)
  with client_remove [of date_of c0 k store "[u]"] 3 obtain c' store' where
    r: "nc_removeNodes mc (Suc k) [u] c0 = Some c'" "client_holds date_of (c', k) store'" by auto
  show ?case
    using 3 r unfolding c
    by (auto simp: client_cache_def nc_getNode_def removeCorruptedNode_def split: sum.split)
next
  case (4 c store n)
  obtain c0 k where c: "c = (c0, k)" by (cases c)
  from 4 obtain v where v: "volume_of (node_uid n) = Some v" by (auto simp: node_view_of_js_def)
  with nodes.setNode_holds [of children_flag date_of c0 store n v] 4 c
  have s: "fst (nc_setNode mc (jn date_of) n c0) = Inr ()" "mc_inv (snd (nc_setNode mc (jn date_of) n c0))"
    "nodes_held children_flag mc (jn date_of) good_node (snd (nc_setNode mc (jn date_of) n c0)) (store(node_uid n \<mapsto> n))"
    by (simp_all add: client_holds_def)
  have "card (dom (store(node_uid n \<mapsto> n))) \<le> Suc k"
    using 4 c by (simp add: client_holds_def card_insert_if)
  with s 4 show ?case
    unfolding c by (cases "nc_setNode mc (jn date_of) n c0") (simp add: client_defs)
next
  case (5 c store n)
  then show ?case
    by (cases c) (auto simp: client_defs nc_setNode_def volume_of_def split: sum.splits)
next
  case (6 c store us)
  obtain c0 k where c: "c = (c0, k)" by (cases c)
  let ?X = "(is_child store)\<^sup>* `` set us"
  have "set us \<subseteq> ?X" by auto
  moreover obtain c' where "nc_removeNodes mc (Suc k) us c0 = Some c'" "client_holds date_of (c', k) (store |` (- ?X))"
    using client_remove [of date_of c0 k store us] 6 c by auto
  ultimately show ?case unfolding c by (intro exI [of _ "(c', k)"] exI [of _ ?X]) (simp add: client_cache_def)
next
  case (7 c store u)
  obtain c0 k where c: "c = (c0, k)" by (cases c)
  with 7 have held: "nodes_held children_flag mc (jn date_of) good_node c0 store" by (simp add: client_holds_def)
  have "store u = None \<Longrightarrow> \<not> children_flag u" using 7(2) by auto
  from nodes.convert_held [OF held this, of "Suc k"] show ?case
    unfolding c by (auto simp: client_cache_def)
next
  case (8 c store p)
  obtain c0 k where c: "c = (c0, k)" by (cases c)
  with 8 have held: "nodes_held children_flag mc (jn date_of) good_node c0 store" by (simp add: client_holds_def)
  obtain us where us: "co_keysByTag mc (parent_tag p) c0 = map getCacheUid us"
    "set us = tagged (jn date_of) store (parent_tag p)"
    by (rule nodes.keys_of_tag [OF held node_tag_simps(2)])
  then show ?case
    using tagged_parent [of store "jn date_of" p] held_lookup(1) [OF held]
    unfolding c by (intro exI [of _ us]) (auto simp: client_cache_def node_view_of_js_def parent_of_def
        node_parent_def split: option.splits)
next
  case (9 c store p)
  obtain c0 k where c: "c = (c0, k)" by (cases c)
  from 9(2) obtain v where "volume_of p = Some v" by auto
  from client_loaded [OF 9(1) [unfolded c] this 9(3)] show ?case
    unfolding c by (auto simp: client_cache_def)
next
  case (10 c store u n)
  then have held: "nodes_held children_flag mc (jn date_of) good_node (fst c) store" "store u = Some n"
    by (simp_all add: client_holds_def)
  from held_lookup(1) [OF held] show ?case by (simp add: node_view_of_js_def)
next
  case (11 n)
  then show ?case
    using nodes.canon_fields [of n date_of] by (simp add: node_view_of_js_def node_parent_def)
qed

end
