(* ===== verification/NodeListings.thy ===== *)
theory NodeListings
  imports NodesAccess "HOL-Library.Multiset"
begin

text \<open>
  What node access promises: it ends when the parents of the API form a tree, and a listing of
  given UIDs reports each of them once, as a node or as missing. The lemmas are proved for every
  node cache that meets the contract, the properties are about \<open>NodesCache\<close>.
\<close>

section \<open>What is relied on\<close>

text \<open>
  The parts of a subclass and of the OpenPGP service keep the UID of a node, and what they make can
  be cached.
\<close>

definition keeps_uids ::
  "('n \<Rightarrow> bool) \<Rightarrow> ('c, 'kc, 'o, 'e, 'u, 'n, 'p, 'k, 'm, 'q) access_env \<Rightarrow> bool"
where
  "keeps_uids good env \<longleftrightarrow>
     (\<forall>enc key u ks n. ae_decryptNode env enc key = Inr (u, ks) \<longrightarrow> ae_parseNode env u = Inr n \<longrightarrow>
        good n \<and> nv_uid (ae_view env) n = en_uid enc)
     \<and> (\<forall>enc e n. ae_degraded env enc e = Inr n \<longrightarrow> nv_uid (ae_view env) n = en_uid enc)"

text \<open>A bulk request that ends normally gives nodes that were asked for, each once.\<close>

definition answers_request :: "('c, 'kc, 'o, 'e, 'u, 'n, 'p, 'k, 'm, 'q) access_env \<Rightarrow> bool" where
  "answers_request env \<longleftrightarrow>
     (\<forall>us v f w encs w'. ae_iterateNodes env us v f w = (encs, None, w') \<longrightarrow>
        distinct (map en_uid encs) \<and> set (map en_uid encs) \<subseteq> set us)"

text \<open>The parents the API names lead up a tree of bounded depth.\<close>

definition api_tree ::
  "(string \<Rightarrow> nat) \<Rightarrow> nat \<Rightarrow> ('c, 'kc, 'o, 'e, 'u, 'n, 'p, 'k, 'm, 'q) access_env \<Rightarrow> bool"
where
  "api_tree depth fuel env \<longleftrightarrow>
     (\<forall>u. depth u < fuel)
     \<and> (\<forall>u v w enc w' p. ae_getNode env u v w = (Inr enc, w') \<longrightarrow> present (en_parentUid enc) = Some p \<longrightarrow>
          depth p < depth u)"

lemma keeps_uids_D:
  "keeps_uids good env \<Longrightarrow> ae_decryptNode env enc key = Inr (u, ks) \<Longrightarrow> ae_parseNode env u = Inr n \<Longrightarrow>
     good n \<and> nv_uid (ae_view env) n = en_uid enc"
  "keeps_uids good env \<Longrightarrow> ae_degraded env enc e = Inr n \<Longrightarrow> nv_uid (ae_view env) n = en_uid enc"
  unfolding keeps_uids_def by blast+

lemma answers_request_D:
  "answers_request env \<Longrightarrow> ae_iterateNodes env us v f w = (encs, None, w') \<Longrightarrow>
     distinct (map en_uid encs) \<and> set (map en_uid encs) \<subseteq> set us"
  unfolding answers_request_def by blast

section \<open>Ending\<close>

lemma ends_then_res:
  "ends P m \<Longrightarrow> (\<And>s v s'. m s = Some (Inr v, s') \<Longrightarrow> ends P (k v)) \<Longrightarrow> ends P (then_run m k)"
  unfolding ends_def then_run_def by (fastforce split: sum.split)

context node_cache begin

abbreviation usable :: "('c, 'kc, 'o) access_state \<Rightarrow> bool" where
  "usable s \<equiv> \<exists>store. holds (na_cache s) store"

lemma ends_lifted [ends_intros]:
  "ends usable (on_keys f)" "ends usable (on_outside g)" "ends usable (on_loading h)"
  by (auto simp: ends_def on_keys_def on_outside_def on_loading_def split: prod.split)

lemma ends_getNode [ends_intros]: "ends usable (on_cache (nci_getNode cache u))"
  unfolding ends_def on_cache_def using get_ends by fastforce

lemma set_ends: "holds c store \<Longrightarrow> good n \<Longrightarrow> \<exists>r c' store'. nci_setNode cache n c = (r, c') \<and> holds c' store'"
  using set_held [of c store n] set_refused [of c store n] by (cases "volume_of (nv_uid view n) = None") blast+

lemma ends_setNode: "good n \<Longrightarrow> ends usable (on_cache (as_run (nci_setNode cache n)))"
  unfolding ends_def on_cache_def as_run_def using set_ends by fastforce

lemma ends_swallow [ends_intros]: "ends P m \<Longrightarrow> ends P (swallow m)"
  unfolding swallow_def by (intro ends_intros)

lemma ends_getNodeKeys_with: "ends usable (loader p) \<Longrightarrow> ends usable (getNodeKeys_with env loader p)"
  unfolding getNodeKeys_with_def by (intro ends_intros)

lemma ends_getParentKeys_with:
  "(\<And>p. present parentUid = Some p \<Longrightarrow> ends usable (loader p)) \<Longrightarrow>
     ends usable (getParentKeys_with env loader uid parentUid shareId)"
  unfolding getParentKeys_with_def by (intro ends_intros ends_getNodeKeys_with)

lemma ends_decryptNode_with:
  assumes "ae_cache env = cache" "keeps_uids good env"
    and "\<And>p. present (en_parentUid enc) = Some p \<Longrightarrow> ends usable (loader p)"
  shows "ends usable (decryptNode_with env (loader :: (('c, 'kc, 'o) access_state, 'n, 'k) loader) enc)"
proof
  fix s :: "('c, 'kc, 'o) access_state" assume s: "usable s"
  have "ends usable (getParentKeys_with env loader (en_uid enc) (en_parentUid enc) (en_shareId enc))"
    using assms(3) by (rule ends_getParentKeys_with)
  then obtain r s1 where r: "getParentKeys_with env loader (en_uid enc) (en_parentUid enc) (en_shareId enc) s = Some (r, s1)"
    and s1: "usable s1" using s by (rule endsE)
  show "\<exists>r s'. decryptNode_with env loader enc s = Some (r, s') \<and> usable s'"
  proof (cases r)
    case (Inl e)
    with r s1 show ?thesis unfolding decryptNode_with_def by (auto split: thrown.split)
  next
    case (Inr k)
    then obtain key hash where k: "r = Inr (key, hash)" by (cases k) auto
    show ?thesis
    proof (cases "\<exists>u ks n. ae_decryptNode env enc key = Inr (u, ks) \<and> ae_parseNode env u = Inr n")
      case True
      then obtain u ks n where d: "ae_decryptNode env enc key = Inr (u, ks)" "ae_parseNode env u = Inr n" by blast
      with keeps_uids_D(1) [OF assms(2)] have good: "good n" by blast
      let ?m = "then_run (swallow (on_cache (as_run (nci_setNode (ae_cache env) n)))) (\<lambda>_.
          then_run (case ks of Some k \<Rightarrow> swallow (on_keys (kci_setNodeKeys (ae_keys env) (nv_uid (ae_view env) n) k))
                    | None \<Rightarrow> give_run ()) (\<lambda>_.
          then_run (on_loading (finishedLoadingNode (nv_uid (ae_view env) n))) (\<lambda>_. give_run (n, ks))))"
      have "ends usable ?m"
        unfolding assms(1) by (intro ends_intros ends_setNode good)
      then obtain r' s' where "?m s1 = Some (r', s')" "usable s'" using s1 by (rule endsE)
      with r k d show ?thesis unfolding decryptNode_with_def by simp
    next
      case False
      with r k s1 show ?thesis unfolding decryptNode_with_def
        by (auto split: sum.split)
    qed
  qed
qed

lemma ends_getOwnVolumeId [ends_intros]: "ends usable (getOwnVolumeId env)"
  unfolding getOwnVolumeId_def by (intro ends_intros)

text \<open>The deeper the node, the more fuel: one unit for each parent that may have to be loaded.\<close>

lemma ends_loadNode:
  assumes "ae_cache env = cache" "keeps_uids good env"
    and tree: "\<And>u v w enc w' p. ae_getNode env u v w = (Inr enc, w') \<Longrightarrow> present (en_parentUid enc) = Some p \<Longrightarrow>
          depth p < (depth u :: nat)"
  shows "depth uid < fuel \<Longrightarrow> ends usable (loadNode env fuel uid)"
proof (induction fuel arbitrary: uid)
  case (Suc fuel)
  let ?fetch = "catch_run
       (then_run (getOwnVolumeId env) (\<lambda>ownVolumeId. on_outside (ae_getNode env uid ownVolumeId)))
       (\<lambda>error. then_run (on_loading (finishedLoadingNode uid)) (\<lambda>_. throw_run error))"
  have "ends usable (decryptNode_with env (loadNode env fuel) enc)" if fetched: "?fetch s = Some (Inr enc, s')" for s s' enc
  proof (rule ends_decryptNode_with [OF assms(1,2)])
    fix p assume p: "present (en_parentUid enc) = Some p"
    obtain v w w' where "ae_getNode env uid v w = (Inr enc, w')"
      using fetched by (auto simp: catch_run_def then_run_def on_outside_def on_loading_def throw_run_def
          split: option.splits sum.splits prod.splits)
    from tree [OF this p] Suc.prems show "ends usable (loadNode env fuel p)" by (intro Suc.IH) simp
  qed
  then have "ends usable (then_run ?fetch (\<lambda>enc. then_run (on_loading (finishedLoadingNode uid)) (\<lambda>_.
      decryptNode_with env (loadNode env fuel) enc)))"
    by (intro ends_then_res [of _ ?fetch] ends_intros)
  then have "ends usable (then_run (on_loading (loadingNode uid)) (\<lambda>_. then_run ?fetch (\<lambda>enc.
      then_run (on_loading (finishedLoadingNode uid)) (\<lambda>_. decryptNode_with env (loadNode env fuel) enc))))"
    by (rule ends_then [OF ends_lifted(3)])
  then show ?case by (simp add: ends_def)
qed simp

end

section \<open>The UIDs of what is loaded\<close>

lemma decryptNode_with_uid:
  assumes "keeps_uids good env" and "decryptNode_with env loader enc s = Some (Inr (n, ks), s')"
  shows "nv_uid (ae_view env) n = en_uid enc"
proof -
  obtain r s1 where r: "getParentKeys_with env loader (en_uid enc) (en_parentUid enc) (en_shareId enc) s = Some (r, s1)"
    using assms(2) by (auto simp: decryptNode_with_def split: option.splits)
  show ?thesis
  proof (cases r)
    case (Inl e)
    then have "\<exists>x m. ae_degraded env enc x = Inr m \<and> n = m"
      using assms(2) r by (auto simp: decryptNode_with_def map_sum_def split: thrown.splits if_splits sum.splits)
    with keeps_uids_D(2) [OF assms(1)] show ?thesis by blast
  next
    case (Inr k)
    then obtain key hash where k: "r = Inr (key, hash)" by (cases k) auto
    obtain u ks' m where d: "ae_decryptNode env enc key = Inr (u, ks')" "ae_parseNode env u = Inr m"
      using assms(2) r k by (auto simp: decryptNode_with_def split: sum.splits prod.splits)
    with assms(2) r k have "n = m"
      by (auto simp: decryptNode_with_def give_run_def dest!: then_run_cases)
    with keeps_uids_D(1) [OF assms(1) d] show ?thesis by blast
  qed
qed

definition reported :: "'n node_view \<Rightarrow> 'n listed \<Rightarrow> string" where
  "reported view item = (case item of Listed n \<Rightarrow> nv_uid view n | MissingNode u \<Rightarrow> u)"

lemma reported_simps [simp]: "reported view (Listed n) = nv_uid view n" "reported view (MissingNode u) = u"
  by (simp_all add: reported_def)

lemma decrypt_each_uids:
  assumes "keeps_uids good env"
  shows "decrypt_each env fuel encs s = Some (results, s') \<Longrightarrow> node_errors results = [] \<Longrightarrow>
     map (nv_uid (ae_view env)) (node_values results) = map en_uid encs"
proof (induction encs arbitrary: s results)
  case (Cons enc encs)
  let ?m = "then_run (on_loading (loadingNode (en_uid enc))) (\<lambda>_. decryptNode env fuel enc)"
  from Cons.prems(1) obtain r s1 results' where
    r: "?m s = Some (r, s1)" "decrypt_each env fuel encs s1 = Some (results', s')" "results = map_sum id fst r # results'"
    by (auto split: option.splits)
  from Cons.prems(2) r(3) obtain n ks where n: "r = Inr (n, ks)" "node_errors results' = []"
    by (cases r) (auto simp: node_errors_def List.map_filter_simps)
  then have "nv_uid (ae_view env) n = en_uid enc"
    using r(1) decryptNode_with_uid [OF assms]
    by (auto simp: then_run_def on_loading_def decryptNode_def)
  with Cons.IH [OF r(2) n(2)] r(3) n(1) show ?case by (simp add: node_values_def List.map_filter_simps)
qed (simp add: node_values_def List.map_filter_simps)

lemma mset_missing:
  assumes "distinct us" "distinct vs" "set vs \<subseteq> set us"
  shows "mset vs + mset (filter (\<lambda>u. u \<notin> set vs) us) = mset us"
proof -
  have "mset vs = mset (filter (\<lambda>u. u \<in> set vs) us)"
    using assms by (intro set_eq_iff_mset_eq_distinct [THEN iffD1]) auto
  then show ?thesis by (simp add: mset_filter)
qed

lemma load_reports_each:
  assumes "keeps_uids good env" "answers_request env" "distinct us"
    and "loadNodesWithMissingReport env fuel filterType us s = Some (items, None, s')"
  shows "mset (map (reported (ae_view env)) items) = mset us"
proof -
  obtain v s1 where v: "getOwnVolumeId env s = Some (Inr v, s1)"
    using assms(4) by (auto simp: loadNodesWithMissingReport_def split: option.splits sum.splits prod.splits)
  obtain encs e w where e: "ae_iterateNodes env us v filterType (na_outside s1) = (encs, e, w)"
    by (metis prod_cases3)
  obtain results s2 where d: "decrypt_each env fuel encs (s1\<lparr>na_outside := w\<rparr>) = Some (results, s2)"
    using assms(4) v e by (auto simp: loadNodesWithMissingReport_def split: option.splits)
  have ok: "e = None" "node_errors results = []"
    using assms(4) v e d by (auto simp: loadNodesWithMissingReport_def Let_def split: option.splits if_splits)
  have items: "items = map Listed (node_values results) @ map MissingNode (filter (\<lambda>u. u \<notin> set (map en_uid encs)) us)"
    using assms(4) v e d ok by (auto simp: loadNodesWithMissingReport_def Let_def split: option.splits if_splits)
  have "map (reported (ae_view env)) items = map en_uid encs @ filter (\<lambda>u. u \<notin> set (map en_uid encs)) us"
    using decrypt_each_uids [OF assms(1) d ok(2)] by (simp add: items comp_def)
  moreover have "mset (map en_uid encs) + mset (filter (\<lambda>u. u \<notin> set (map en_uid encs)) us) = mset us"
    using answers_request_D [OF assms(2) e [unfolded ok(1)]] assms(3) by (intro mset_missing) auto
  ultimately show ?thesis by simp
qed

section \<open>Bulk loading ends\<close>

context node_cache begin

lemma decrypt_each_ends:
  assumes "ae_cache env = cache" "keeps_uids good env" "api_tree depth fuel env"
  shows "usable s \<Longrightarrow> \<exists>results s'. decrypt_each env fuel encs s = Some (results, s') \<and> usable s'"
proof (induction encs arbitrary: s)
  case (Cons enc encs)
  have "ends usable (loadNode env fuel p)" for p
    using assms(3) unfolding api_tree_def by (intro ends_loadNode [OF assms(1,2), where depth = depth]) blast+
  then have "ends usable (then_run (on_loading (loadingNode (en_uid enc))) (\<lambda>_. decryptNode env fuel enc))"
    unfolding decryptNode_def by (intro ends_intros ends_decryptNode_with [OF assms(1,2)])
  then obtain r s1 where "then_run (on_loading (loadingNode (en_uid enc))) (\<lambda>_. decryptNode env fuel enc) s = Some (r, s1)"
    "usable s1" using Cons.prems by (rule endsE)
  with Cons.IH [of s1] show ?case by auto
qed auto

lemma loadNodes_ends:
  assumes "ae_cache env = cache" "keeps_uids good env" "api_tree depth fuel env" "usable s"
  shows "\<exists>items e s'. loadNodesWithMissingReport env fuel filterType us s = Some (items, e, s') \<and> usable s'"
proof -
  obtain r s1 where r: "getOwnVolumeId env s = Some (r, s1)" "usable s1"
    using ends_getOwnVolumeId assms(4) by (rule endsE)
  show ?thesis
  proof (cases r)
    case (Inl e)
    with r show ?thesis by (auto simp: loadNodesWithMissingReport_def)
  next
    case (Inr v)
    obtain encs e w where e: "ae_iterateNodes env us v filterType (na_outside s1) = (encs, e, w)"
      by (metis prod_cases3)
    have "usable (s1\<lparr>na_outside := w\<rparr>)" using r(2) by simp
    then obtain results s2 where d: "decrypt_each env fuel encs (s1\<lparr>na_outside := w\<rparr>) = Some (results, s2)" "usable s2"
      using decrypt_each_ends [OF assms(1-3)] by blast
    from d(2) removed obtain c where "nci_removeNodes cache (filter (\<lambda>u. u \<notin> set (map en_uid encs)) us) (na_cache s2) = Some c"
      "\<exists>store. holds c store" by blast
    with r(1) Inr e d show ?thesis
      by (auto simp: loadNodesWithMissingReport_def Let_def assms(1) split: option.split)
  qed
qed

end

section \<open>A listing of given nodes\<close>

text \<open>A source that answers: it ends, and without an error it reports what it was asked for.\<close>

definition answering :: "('s \<Rightarrow> bool) \<Rightarrow> ('i \<Rightarrow> string) \<Rightarrow> ('s, string, 'i) item_source \<Rightarrow> bool" where
  "answering P name_of source \<longleftrightarrow>
     (\<forall>us s. P s \<longrightarrow> (\<exists>items e s'. source us s = Some (items, e, s') \<and> P s'
        \<and> (e = None \<longrightarrow> distinct us \<longrightarrow> mset (map name_of items) = mset us)))"

lemma flush_reports:
  assumes "answering P name_of source" "P s"
  shows "\<exists>items e b' s'. flush_batch source b s = Some (items, e, b', s') \<and> P s'
     \<and> (e = None \<longrightarrow> bl_itemsToFetch b' = [] \<and> bl_batchSize b' = bl_batchSize b
          \<and> (bl_errors b' = [] \<longrightarrow> bl_errors b = []
              \<and> (distinct (bl_itemsToFetch b) \<longrightarrow> mset (map name_of items) = mset (bl_itemsToFetch b))))"
proof -
  obtain items e s' where r: "source (bl_itemsToFetch b) s = Some (items, e, s')" "P s'"
    "e = None \<longrightarrow> distinct (bl_itemsToFetch b) \<longrightarrow> mset (map name_of items) = mset (bl_itemsToFetch b)"
    using assms unfolding answering_def by blast
  then show ?thesis
    by (cases e) (auto simp: flush_batch_def iterateItemsWithErrorHandling_def)
qed

lemma load_reports:
  assumes "answering P name_of source" "P s"
  shows "\<exists>items e b' s'. load source u b s = Some (items, e, b', s') \<and> P s'
     \<and> (e = None \<longrightarrow> (bl_errors b' = [] \<longrightarrow> bl_errors b = []
          \<and> (distinct (bl_itemsToFetch b @ [u]) \<longrightarrow>
               mset (map name_of items) + mset (bl_itemsToFetch b') = mset (bl_itemsToFetch b @ [u])
               \<and> distinct (bl_itemsToFetch b'))))"
  using flush_reports [OF assms, of "b\<lparr>bl_itemsToFetch := bl_itemsToFetch b @ [u]\<rparr>"] assms(2)
  by (fastforce simp: load_def Let_def)

lemma loadRest_reports:
  assumes "answering P name_of source" "P s"
  shows "\<exists>items result b' s'. loadRest source b s = Some (items, result, b', s') \<and> P s'
     \<and> (result = LoadedAll \<longrightarrow> bl_errors b = []
          \<and> (distinct (bl_itemsToFetch b) \<longrightarrow> mset (map name_of items) = mset (bl_itemsToFetch b)))"
proof (cases "bl_itemsToFetch b = []")
  case True
  with assms(2) show ?thesis by (auto simp: loadRest_def)
next
  case False
  obtain items e b' s' where f: "flush_batch source b s = Some (items, e, b', s')" "P s'"
    "e = None \<longrightarrow> bl_itemsToFetch b' = [] \<and> bl_batchSize b' = bl_batchSize b
          \<and> (bl_errors b' = [] \<longrightarrow> bl_errors b = []
              \<and> (distinct (bl_itemsToFetch b) \<longrightarrow> mset (map name_of items) = mset (bl_itemsToFetch b)))"
    using flush_reports [OF assms] by blast
  with False show ?thesis by (cases e) (auto simp: loadRest_def)
qed

context node_cache begin

lemma iterate_entries_reports:
  assumes env: "ae_cache env = cache" "ae_view env = view"
    and source: "answering usable (reported view) source"
  shows "usable s \<Longrightarrow> \<forall>u \<in> set us. \<not> flag u \<Longrightarrow>
    \<exists>items result b' s'. iterate_entries env (\<lambda>n. [Listed n]) source (\<lambda>_. False) (map (nci_key cache) us) b s
        = Some (items, result, b', s') \<and> usable s'
     \<and> (result = LoadedAll \<longrightarrow> bl_errors b = []
          \<and> (distinct (bl_itemsToFetch b @ us) \<longrightarrow>
               mset (map (reported view) items) = mset (bl_itemsToFetch b @ us)))"
proof (induction us arbitrary: b s)
  case Nil
  with loadRest_reports [OF source Nil(1)] show ?case by simp
next
  case (Cons u us)
  then obtain store where store: "holds (na_cache s) store" by blast
  have us: "\<forall>u \<in> set us. \<not> flag u" using Cons.prems(2) by simp
  obtain r where r: "nci_entry cache (nci_key cache u) (na_cache s) = Some (Some r, na_cache s)" "nr_uid r = u"
    "case store u of Some n \<Rightarrow> r = NodeOk u (canon n) | None \<Rightarrow> \<exists>e. r = NodeMissing u e"
    using entry_held [OF store, of u] Cons.prems(2) by auto
  show ?case
  proof (cases "fresh view (case r of NodeOk _ n \<Rightarrow> Some n | NodeMissing _ _ \<Rightarrow> None)")
    case (Some n)
    have "nv_uid view n = u"
      using Some r(3) held_nodes [OF store, of u] canon_view
      by (auto simp: fresh_def split: option.splits if_splits)
    moreover obtain items result b' s' where
      "iterate_entries env (\<lambda>n. [Listed n]) source (\<lambda>_. False) (map (nci_key cache) us) b s = Some (items, result, b', s')"
      "usable s'"
      "result = LoadedAll \<longrightarrow> bl_errors b = [] \<and> (distinct (bl_itemsToFetch b @ us) \<longrightarrow>
          mset (map (reported view) items) = mset (bl_itemsToFetch b @ us))"
      using Cons.IH [OF Cons.prems(1) us, of b] by blast
    ultimately show ?thesis
      using r(1) Some by (auto simp: env yield_items_def)
  next
    case None
    obtain items e b1 s1 where l: "load source u b s = Some (items, e, b1, s1)" "usable s1"
      "e = None \<longrightarrow> (bl_errors b1 = [] \<longrightarrow> bl_errors b = []
          \<and> (distinct (bl_itemsToFetch b @ [u]) \<longrightarrow>
               mset (map (reported view) items) + mset (bl_itemsToFetch b1) = mset (bl_itemsToFetch b @ [u])
               \<and> distinct (bl_itemsToFetch b1)))"
      using load_reports [OF source Cons.prems(1)] by blast
    show ?thesis
    proof (cases e)
      case (Some error)
      with l r None show ?thesis by (auto simp: env load_item_def)
    next
      case no_error: None
      obtain later result b' s' where later:
        "iterate_entries env (\<lambda>n. [Listed n]) source (\<lambda>_. False) (map (nci_key cache) us) b1 s1 = Some (later, result, b', s')"
        "usable s'"
        "result = LoadedAll \<longrightarrow> bl_errors b1 = [] \<and> (distinct (bl_itemsToFetch b1 @ us) \<longrightarrow>
            mset (map (reported view) later) = mset (bl_itemsToFetch b1 @ us))"
        using Cons.IH [OF l(2) us, of b1] by blast
      have "mset (map (reported view) (items @ later)) = mset (bl_itemsToFetch b @ u # us)"
        if all: "result = LoadedAll" and d: "distinct (bl_itemsToFetch b @ u # us)"
      proof -
        have m: "mset (map (reported view) items) + mset (bl_itemsToFetch b1) = mset (bl_itemsToFetch b @ [u])"
          "distinct (bl_itemsToFetch b1)"
          using l(3) later(3) no_error all d by auto
        then have "set (bl_itemsToFetch b1) \<subseteq> set (bl_itemsToFetch b @ [u])"
          by (metis mset_subset_eq_add_right set_mset_mono set_mset_mset)
        with d m(2) have "distinct (bl_itemsToFetch b1 @ us)" by auto
        with later(3) all have "mset (map (reported view) later) = mset (bl_itemsToFetch b1) + mset us" by simp
        with m(1) show ?thesis by (simp add: union_assoc [symmetric])
      qed
      with l(1,3) no_error later r None show ?thesis
        by (auto simp: env load_item_def)
    qed
  qed
qed

end


text \<open>An API whose nodes all hang directly on one share, except \<open>v~x\<close>, which it does not know.\<close>

definition demo_env ::
  "(js_text memory_cache \<times> nat, unit, unit, unit, unit enc_node, jsval, unit, unit, unit, unit) access_env"
where
  "demo_env =
     \<lparr>ae_cache = client_cache (\<lambda>_. None),
      ae_keys = \<lparr>kci_getNodeKeys = (\<lambda>_ k. (Inl (throw_new JsError ''none''), k)), kci_setNodeKeys = (\<lambda>_ _ k. (Inr (), k))\<rparr>,
      ae_view = node_view_of_js,
      ae_key = (\<lambda>_. ()), ae_hashKey = (\<lambda>_. None),
      ae_getRootIDs = (\<lambda>w. (Inr (''v'', ''r''), w)),
      ae_getSharePrivateKey = (\<lambda>_ w. (Inr (), w)),
      ae_getContextShareMemberEmailKey = (\<lambda>_ w. (Inr (), w)),
      ae_getNode = (\<lambda>u _ w. (Inr \<lparr>en_uid = u, en_parentUid = None, en_shareId = Some ''s'', en_data = ()\<rparr>, w)),
      ae_iterateNodes = (\<lambda>us _ _ w.
        (map (\<lambda>u. \<lparr>en_uid = u, en_parentUid = None, en_shareId = Some ''s'', en_data = ()\<rparr>)
           (filter (\<lambda>u. u \<noteq> ''v~x'') (remdups us)), None, w)),
      ae_iterateChildrenNodeUids = (\<lambda>_ _ w. ([], None, w)),
      ae_iterateTrashedNodeUids = (\<lambda>_ w. ([], None, w)),
      ae_decryptNode = (\<lambda>enc _. Inr (enc, Some ())),
      ae_getNameSessionKey = (\<lambda>_ _. Inr ()),
      ae_parseNode = (\<lambda>enc. if en_uid enc = '''' then Inl (throw_new JsError ''no UID'') else Inr (demo_node (en_uid enc) None)),
      ae_degraded = (\<lambda>enc e. Inr (demo_node (en_uid enc) None)),
      ae_yieldedBeforeError = (\<lambda>_. 0)\<rparr>"

lemma demo_env_ok:
  "keeps_uids good_node demo_env" "answers_request demo_env" "api_tree (\<lambda>_. 0) 1 demo_env"
  by (auto simp: keeps_uids_def answers_request_def api_tree_def demo_env_def demo_node_good demo_node_fields
      node_view_of_js_def present_def comp_def split: if_splits)


section \<open>A folder whose keys cannot be decrypted\<close>

text \<open>
  The folder \<open>v~p\<close> hangs on a share and has one child, \<open>v~u\<close>. The folder itself decrypts to a node
  without keys, as the crypto service reports a passphrase it cannot decrypt; no keys are cached.
\<close>

definition undecryptable_env ::
  "(js_text memory_cache \<times> nat, unit, unit, unit, unit enc_node, jsval, unit, unit, unit, unit) access_env"
where
  "undecryptable_env =
     demo_env
       \<lparr>ae_getNode := (\<lambda>u _ w. (Inr \<lparr>en_uid = u, en_parentUid = None, en_shareId = Some ''s'', en_data = ()\<rparr>, w)),
        ae_iterateNodes := (\<lambda>us _ _ w.
          (map (\<lambda>u. \<lparr>en_uid = u, en_parentUid = Some ''v~p'', en_shareId = None, en_data = ()\<rparr>) us, None, w)),
        ae_iterateChildrenNodeUids := (\<lambda>_ _ w. ([''v~u''], None, w)),
        ae_decryptNode := (\<lambda>enc _. Inr (enc, None)),
        ae_degraded := (\<lambda>enc e. Inr (demo_node (en_uid enc) (Some ''v~p'')))\<rparr>"

definition demo_folder :: jsval where "demo_folder = demo_node ''v~p'' None"

definition cache_of_folder :: "js_text memory_cache \<times> nat \<Rightarrow> js_text memory_cache \<times> nat" where
  "cache_of_folder c = snd (nci_setNode (client_cache (\<lambda>_. None)) demo_folder c)"

lemma volume_of_folder: "volume_of ''v~p'' = Some ''v''" "splitNodeUid ''v~p'' = Inr (''v'', ''p'')"
  by (simp_all add: volume_of_def splitNodeUid_def split2_def splitUid_def tilde_def)

lemma set_folder [simp]: "nci_setNode (client_cache (\<lambda>_. None)) demo_folder c = (Inr (), cache_of_folder c)"
  by (cases c) (simp add: cache_of_folder_def client_cache_def nc_setNode_def demo_folder_def demo_node_fields volume_of_folder)

lemma cache_of_folder_holds:
  assumes "client_holds (\<lambda>_. None) c store"
  shows "client_holds (\<lambda>_. None) (cache_of_folder c) (store(''v~p'' \<mapsto> demo_folder))"
proof -
  have "good_node demo_folder" "nv_uid node_view_of_js demo_folder = ''v~p''"
    by (simp_all add: demo_folder_def demo_node_good demo_node_fields node_view_of_js_def)
  with client.set_held [OF assms, of demo_folder] show ?thesis by (simp add: volume_of_folder)
qed

text \<open>
  The listing of a folder whose keys cannot be decrypted shows its children as nodes that cannot be
  decrypted, marks the folder as listed completely, and has cached none of them: the next listing
  of the same folder ends normally without a single child. The child stays among the nodes that
  are being loaded.
\<close>

theorem undecryptable_folder_is_listed_once:
  "\<exists>s1 s2. iterateFolderChildren undecryptable_env 3 ''v~p'' None
       \<lparr>na_cache = (mc_new, 0), na_keys = (), na_loading = [], na_outside = ()\<rparr>
       = Some ([demo_node ''v~u'' (Some ''v~p'')], LoadedAll, s1)
     \<and> iterateFolderChildren undecryptable_env 3 ''v~p'' None s1 = Some ([], LoadedAll, s2)
     \<and> na_loading s1 = [''v~u'']"
proof -
  let ?cc = "client_cache (\<lambda>_. None)" and ?holds = "client_holds (\<lambda>_. None)"
  define c0 where "c0 = (mc_new :: js_text memory_cache, 0 :: nat)"
  define c1 where "c1 = cache_of_folder c0"
  define c2 where "c2 = cache_of_folder c1"
  let ?store = "[''v~p'' \<mapsto> demo_folder]"
  have h0: "?holds c0 Map.empty" unfolding c0_def by (rule client_new)
  have h1: "?holds c1 ?store" using cache_of_folder_holds [OF h0] by (simp add: c1_def)
  have h2: "?holds c2 ?store" using cache_of_folder_holds [OF h1] by (simp add: c2_def)
  have flags: "\<not> children_flag ''v~p''" "\<not> children_flag ''v~u''"
    by (simp_all add: children_flag_def js_startsWith_def)
  obtain e0 where e0: "nci_getNode ?cc ''v~p'' c0 = Some (Inl e0, c0)"
    using client.get_missing [OF h0 _ flags(1)] by auto
  obtain e1 where e1: "nci_getNode ?cc ''v~u'' c1 = Some (Inl e1, c1)"
    using client.get_missing [OF h1 _ flags(2)] by auto
  have unlisted: "\<not> nci_isFolderChildrenLoaded ?cc ''v~p'' c1"
    by (simp add: c1_def c0_def cache_of_folder_def client_cache_def nc_setNode_def demo_folder_def demo_node_fields
        volume_of_folder isFolderChildrenLoaded_def mc_ops children_key_def getCacheUid_def mc_new_def)
  obtain c3 where c3: "nci_setFolderChildrenLoaded ?cc ''v~p'' c2 = (Inr (), c3)" "?holds c3 ?store"
    "nci_isFolderChildrenLoaded ?cc ''v~p'' c3"
  proof -
    have "\<forall>u. ?store u \<noteq> None \<longrightarrow> \<not> children_flag u" using flags by simp
    moreover have "volume_of ''v~p'' \<noteq> None" by (simp add: volume_of_folder)
    ultimately show thesis using client.loaded_set [OF h2] that by blast
  qed
  have again: "nci_getNode ?cc ''v~p'' c3 = Some (Inr (reread_node (\<lambda>_. None) demo_folder), c3)"
    by (rule client.get_held [OF c3(2)]) simp
  have good: "good_node demo_folder" by (simp add: demo_folder_def demo_node_good)
  have fresh_again: "\<not> nv_isStale node_view_of_js (reread_node (\<lambda>_. None) demo_folder)"
    "nv_uid node_view_of_js (reread_node (\<lambda>_. None) demo_folder) = ''v~p''"
    using client.canon_view [OF good, of "\<lambda>_. None"]
    by (simp_all add: node_view_of_js_def demo_folder_def demo_node_fields) (simp add: demo_node_def)
  have none: "nci_childKeys ?cc ''v~p'' c3 = []"
  proof -
    obtain us where us: "nci_childKeys ?cc ''v~p'' c3 = map (nci_key ?cc) us"
      "set us = {u. \<exists>n. ?store u = Some n \<and> present (nv_parentUid node_view_of_js n) = Some ''v~p''}"
      using client.children_held [OF c3(2)] by blast
    have "present (nv_parentUid node_view_of_js demo_folder) = None"
      by (simp add: node_view_of_js_def demo_folder_def node_parent_def [symmetric] demo_node_fields) (simp add: present_def)
    then have "set us = {}" unfolding us(2) by (auto split: if_splits)
    with us(1) show ?thesis by simp
  qed
  note run = run_defs on_cache_def on_keys_def on_outside_def on_loading_def as_run_def swallow_def
    loadNode.simps decryptNode_def decryptNode_with_def getParentKeys_with_def getNodeKeys_with_def getOwnVolumeId_def
    loadingNode_def finishedLoadingNode_def waitForLoadingNode_def present_def
  have parse: "ae_parseNode undecryptable_env \<lparr>en_uid = ''v~p'', en_parentUid = None, en_shareId = Some ''s'', en_data = ()\<rparr>
      = Inr demo_folder"
    by (simp add: undecryptable_env_def demo_env_def demo_folder_def)
  have folder_uid: "nv_uid node_view_of_js demo_folder = ''v~p''" "\<not> nv_isStale node_view_of_js demo_folder"
    by (simp_all add: node_view_of_js_def demo_folder_def demo_node_fields) (simp add: demo_node_def)
  have env: "ae_cache undecryptable_env = ?cc" "ae_view undecryptable_env = node_view_of_js"
    "ae_getRootIDs undecryptable_env = (\<lambda>w. (Inr (''v'', ''r''), w))"
    "ae_getNode undecryptable_env = (\<lambda>u _ w. (Inr \<lparr>en_uid = u, en_parentUid = None, en_shareId = Some ''s'', en_data = ()\<rparr>, w))"
    "ae_getSharePrivateKey undecryptable_env = (\<lambda>_ w. (Inr (), w))"
    "ae_decryptNode undecryptable_env = (\<lambda>enc _. Inr (enc, None))"
    "kci_getNodeKeys (ae_keys undecryptable_env) = (\<lambda>_ k. (Inl (throw_new JsError ''none''), k))"
    "ae_degraded undecryptable_env = (\<lambda>enc e. Inr (demo_node (en_uid enc) (Some ''v~p'')))"
    "ae_iterateNodes undecryptable_env = (\<lambda>us _ _ w.
       (map (\<lambda>u. \<lparr>en_uid = u, en_parentUid = Some ''v~p'', en_shareId = None, en_data = ()\<rparr>) us, None, w))"
    by (simp_all add: undecryptable_env_def demo_env_def)
  have load_folder: "loadNode undecryptable_env (Suc fuel) ''v~p'' \<lparr>na_cache = c, na_keys = (), na_loading = l, na_outside = ()\<rparr>
      = Some (Inr (demo_folder, None), \<lparr>na_cache = cache_of_folder c, na_keys = (), na_loading = removeAll ''v~p'' l, na_outside = ()\<rparr>)" for fuel c l
    using parse folder_uid by (auto simp: run env)
  let ?s = "\<lambda>c l. \<lparr>na_cache = c, na_keys = (), na_loading = l, na_outside = ()\<rparr>"
  have first: "getNode undecryptable_env 3 ''v~p'' (?s c0 []) = Some (Inr demo_folder, ?s c1 [])"
    using e0 load_folder [of 2 c0 "[]"] by (simp add: getNode_def cached_node_def run env fresh_def c1_def)
  have uids: "ae_iterateChildrenNodeUids undecryptable_env x b () = ([''v~u''], None, ())" for x b
    by (simp add: undecryptable_env_def)
  have cached_child: "cached_node undecryptable_env ''v~u'' (?s c1 []) = Some (Inr None, ?s c1 [])"
    using e1 by (simp add: cached_node_def run env)
  have load_child: "loadNodes undecryptable_env 3 None [''v~u''] (?s c1 []) =
      Some ([demo_node ''v~u'' (Some ''v~p'')], None, ?s c2 [''v~u''])"
  proof -
    have "decrypt_each undecryptable_env 3 [\<lparr>en_uid = ''v~u'', en_parentUid = Some ''v~p'', en_shareId = None, en_data = ()\<rparr>]
        (?s c1 []) = Some ([Inr (demo_node ''v~u'' (Some ''v~p''))], ?s c2 [''v~u''])"
      using load_folder [of 2 c1 "[''v~u'']"] by (simp add: run env c2_def subclass_evals)
    then show ?thesis
      by (simp add: loadNodes_def loadNodesWithMissingReport_def run env node_values_def
          node_errors_def listed_nodes_def List.map_filter_simps Let_def)
  qed
  have second: "getNode undecryptable_env 3 ''v~p'' (?s c3 [''v~u'']) = Some (Inr (reread_node (\<lambda>_. None) demo_folder), ?s c3 [''v~u''])"
    using again fresh_again by (simp add: getNode_def cached_node_def run env fresh_def)
  have "iterateFolderChildren undecryptable_env 3 ''v~p'' None (?s c0 []) =
      Some ([demo_node ''v~u'' (Some ''v~p'')], LoadedAll, ?s c3 [''v~u''])"
    using first unlisted cached_child load_child c3(1)
    by (simp add: iterateFolderChildren_def env uids fresh_def load_item_def load_defs loadRest_def
        new_batch_loading_def batch_size_option_def BATCH_LOADING_SIZE_def without_batch_def Let_def)
  moreover have "iterateFolderChildren undecryptable_env 3 ''v~p'' None (?s c3 [''v~u'']) = Some ([], LoadedAll, ?s c3 [''v~u''])"
    using second c3(3) none
    by (simp add: iterateFolderChildren_def env loadRest_def new_batch_loading_def without_batch_def Let_def)
  ultimately show ?thesis unfolding c0_def by (intro exI conjI) (assumption | simp)+
qed

end
