(* ===== verification/NodeParsing.thy ===== *)
theory NodeParsing
  imports NodesCache NodeAttributes
begin

text \<open>
  The two methods \<open>NodesAccess\<close> adds to its base class in \<^verbatim>\<open>internal/nodes/nodesAccess.ts\<close>: \<open>parseNode\<close>,
  which validates the name of a decrypted node and reads its extended attributes, and the node that
  stands for one that cannot be decrypted. Both copy what they are given and override properties,
  so nodes are JavaScript values here, as in the cache.

  \<open>date_of\<close> is what \<open>new Date\<close> reads from a string that is no ISO date, \<open>text_of\<close> the document a string
  property holds.
\<close>

definition resultOk :: "jsval \<Rightarrow> jsval" where
  "resultOk v = JObj [(''ok'', JBool True), (''value'', v)]"

definition resultError :: "jsval \<Rightarrow> jsval" where
  "resultError e = JObj [(''ok'', JBool False), (''error'', e)]"

definition is_ok :: "jsval \<Rightarrow> bool" where
  "is_ok r \<longleftrightarrow> js_truthy (js_opt ''ok'' r)"

section \<open>parseNode\<close>

definition validated_name :: "jsval \<Rightarrow> jsval" where
  "validated_name name =
     (if is_ok name
      then case string_field ''value'' name of
             Some s \<Rightarrow>
               (case validateNodeName s of
                  Inl error \<Rightarrow> resultError (JObj [(''name'', JStr s), (''error'', JStr (getErrorMessage error))])
                | Inr _ \<Rightarrow> name)
           | None \<Rightarrow> name
      else name)"

definition date_value :: "jsval \<Rightarrow> int option" where
  "date_value v = (case v of JDate d \<Rightarrow> d | _ \<Rightarrow> None)"

definition js_of :: "('a \<Rightarrow> jsval) \<Rightarrow> 'a option \<Rightarrow> jsval" where
  "js_of f v = (case v of Some x \<Rightarrow> f x | None \<Rightarrow> JUndefined)"

text \<open>The properties a spread of the file attributes adds to the revision, before its digests are replaced.\<close>

definition claimed_fields :: "file_attributes \<Rightarrow> (string \<times> jsval) list" where
  "claimed_fields a =
     [(''claimedSize'', js_of JNum (fa_claimedSize a)),
      (''claimedModificationTime'', js_of (\<lambda>t. JDate (Some t)) (fa_claimedModificationTime a)),
      (''claimedAdditionalMetadata'', js_of id (fa_claimedAdditionalMetadata a)),
      (''claimedBlockSizes'', js_of (\<lambda>ns. JArr (map JNum ns)) (fa_claimedBlockSizes a))]"

definition parsed_revision :: "(jsval \<Rightarrow> int option) \<Rightarrow> (jsval \<Rightarrow> js_text option) \<Rightarrow> jsval \<Rightarrow> jsval" where
  "parsed_revision date_of text_of revision =
     (let get = (\<lambda>k. js_opt k revision);
          attributes = parseFileExtendedAttributes date_of (date_value (get ''creationTime'')) (text_of (get ''extendedAttributes''))
      in JObj ([(''uid'', get ''uid''), (''state'', get ''state''), (''creationTime'', get ''creationTime''),
                (''storageSize'', get ''storageSize''), (''contentAuthor'', get ''contentAuthor''),
                (''thumbnails'', get ''thumbnails'')]
               @ claimed_fields attributes
               @ [(''claimedDigests'',
                   JObj ((case fa_claimedDigests_sha1 attributes of Some h \<Rightarrow> [(''sha1'', JStr h)] | None \<Rightarrow> [])
                         @ [(''sha1Verified'', if js_truthy (get ''sha1Verified'') then get ''sha1Verified'' else JBool False)]))]))"

text \<open>The branch of a file copies the node without the validated name.\<close>

definition parseNode :: "(jsval \<Rightarrow> int option) \<Rightarrow> (jsval \<Rightarrow> js_text option) \<Rightarrow> jsval \<Rightarrow> thrown + jsval" where
  "parseNode date_of text_of unparsedNode =
     (let nodeName = validated_name (js_opt ''name'' unparsedNode);
          revision = js_opt ''activeRevision'' unparsedNode;
          folder = js_opt ''folder'' unparsedNode
      in try_bind (splitNodeUid (node_uid unparsedNode)) (\<lambda>(treeEventScopeId, nodeId).
           Inr (if string_field ''type'' unparsedNode = Some ''file''
                then JObj (js_with (js_spread unparsedNode)
                  [(''isStale'', JBool False),
                   (''activeRevision'',
                    if is_ok revision then resultOk (parsed_revision date_of text_of (js_opt ''value'' revision)) else revision),
                   (''folder'', JUndefined),
                   (''treeEventScopeId'', JStr treeEventScopeId)])
                else JObj (js_with (js_spread unparsedNode)
                  [(''name'', nodeName),
                   (''isStale'', JBool False),
                   (''activeRevision'', JUndefined),
                   (''folder'',
                    if js_truthy (js_opt ''extendedAttributes'' folder)
                    then JObj [(''claimedModificationTime'', js_of (\<lambda>t. JDate (Some t))
                           (parseFolderExtendedAttributes date_of (text_of (js_opt ''extendedAttributes'' folder))))]
                    else JUndefined),
                   (''treeEventScopeId'', JStr treeEventScopeId)]))))"

section \<open>Undecryptable nodes\<close>

definition author_error :: "jsval \<Rightarrow> string \<Rightarrow> jsval" where
  "author_error claimedAuthor message = resultError (JObj [(''claimedAuthor'', claimedAuthor), (''error'', JStr message)])"

definition getDegradedUndecryptableNodeBase :: "jsval \<Rightarrow> js_error \<Rightarrow> thrown + jsval" where
  "getDegradedUndecryptableNodeBase encryptedNode error =
     (let crypto = js_opt ''encryptedCrypto'' encryptedNode;
          message = getErrorMessage (ThrownError error);
          membership = js_opt ''membership'' encryptedNode
      in try_bind (splitNodeUid (node_uid encryptedNode)) (\<lambda>(treeEventScopeId, nodeId).
           Inr (JObj (js_with (js_spread encryptedNode)
             [(''isStale'', JBool False),
              (''name'', resultError (JError (err_message error))),
              (''keyAuthor'', author_error (js_opt ''signatureEmail'' crypto) message),
              (''nameAuthor'', author_error (js_opt ''nameSignatureEmail'' crypto) message),
              (''membership'',
               if js_truthy membership
               then JObj [(''role'', js_opt ''role'' membership), (''inviteTime'', js_opt ''inviteTime'' membership),
                          (''sharedBy'', author_error (js_opt ''inviterEmail'' (js_opt ''membership'' crypto)) message)]
               else JUndefined),
              (''errors'', JArr [JError (err_message error)]),
              (''treeEventScopeId'', JStr treeEventScopeId)]))))"

section \<open>What parsing keeps and changes\<close>

text \<open>The node the crypto service hands over, in so far as the cache depends on it.\<close>

definition good_unparsed :: "jsval \<Rightarrow> bool" where
  "good_unparsed u \<longleftrightarrow>
     plain_object u
     \<and> (\<exists>s. js_opt ''uid'' u = JStr s \<and> s \<noteq> '''')
     \<and> (\<exists>s. js_opt ''directRole'' u = JStr s \<and> s \<noteq> '''')
     \<and> (\<exists>s. js_opt ''type'' u = JStr s \<and> s \<noteq> '''')
     \<and> (js_opt ''parentUid'' u = JUndefined \<or> (\<exists>s. js_opt ''parentUid'' u = JStr s))
     \<and> (js_opt ''mediaType'' u = JUndefined \<or> (\<exists>s. js_opt ''mediaType'' u = JStr s))
     \<and> (\<exists>b. js_opt ''isShared'' u = JBool b)
     \<and> valid_date (js_opt ''creationTime'' u) \<and> valid_date (js_opt ''modificationTime'' u)
     \<and> (js_opt ''trashTime'' u = JUndefined \<or> valid_date (js_opt ''trashTime'' u))
     \<and> (js_opt ''membership'' u = JUndefined \<or> plain_object (js_opt ''membership'' u))
     \<and> (js_opt ''activeRevision'' u = JUndefined
        \<or> (\<exists>v. js_opt ''activeRevision'' u = resultOk v) \<or> (\<exists>e. js_opt ''activeRevision'' u = resultError e))"

lemma distinct_js_with: "distinct (map fst fs) \<Longrightarrow> distinct (map fst (js_with fs us))"
  unfolding js_with_def by (induction us arbitrary: fs) (auto simp: distinct_update)

lemma js_opt_js_with:
  "js_opt k (JObj (js_with fs us)) = (case map_of (rev us) k of Some v \<Rightarrow> v | None \<Rightarrow> js_opt k (JObj fs))"
proof (induction us arbitrary: fs)
  case (Cons u us)
  obtain j v where u: "u = (j, v)" by (cases u)
  have "map_of (rev (u # us)) k = (case map_of (rev us) k of Some w \<Rightarrow> Some w | None \<Rightarrow> if k = j then Some v else None)"
    by (auto simp: u map_add_def split: option.split)
  then show ?case
    using Cons [of "AList.update j v fs"] by (auto simp: u js_opt_with js_opt_AList_update split: option.splits simp del: js_opt.simps)
qed (simp add: js_with_def)

lemma plain_parsed_revision: "plain_object (parsed_revision date_of text_of revision)"
  by (simp add: plain_object_def parsed_revision_def claimed_fields_def Let_def)

lemma good_revision_simps:
  "good_revision JUndefined" "plain_object v \<Longrightarrow> good_revision (resultOk v)" "good_revision (resultError e)"
  by (simp_all add: good_revision_def resultOk_def resultError_def plain_object_def)

lemma good_folder_simps:
  "good_folder JUndefined"
  "good_folder (JObj [(''claimedModificationTime'', js_of (\<lambda>t. JDate (Some t)) t)])"
  by (simp_all add: good_folder_def plain_object_def js_of_def valid_date_def split: option.split)

lemma parsed_field:
  assumes "parseNode date_of text_of u = Inr n" "plain_object u"
  shows "plain_object n" and "js_opt ''isStale'' n = JBool False"
    and "js_opt ''name'' n = (if string_field ''type'' u = Some ''file'' then js_opt ''name'' u
                              else validated_name (js_opt ''name'' u))"
    and "js_opt ''activeRevision'' n = (if string_field ''type'' u = Some ''file''
           then if is_ok (js_opt ''activeRevision'' u)
                then resultOk (parsed_revision date_of text_of (js_opt ''value'' (js_opt ''activeRevision'' u)))
                else js_opt ''activeRevision'' u
           else JUndefined)"
    and "good_folder (js_opt ''folder'' n)"
    and "k \<notin> {''isStale'', ''name'', ''activeRevision'', ''folder'', ''treeEventScopeId''} \<Longrightarrow> js_opt k n = js_opt k u"
proof -
  from assms(2) obtain fs where fs: "u = JObj fs" "distinct (map fst fs)" by (auto simp: plain_object_def)
  obtain us where n: "n = JObj (js_with fs us)"
    and us: "map_of (rev us) ''isStale'' = Some (JBool False)"
      "map_of (rev us) ''name'' = (if string_field ''type'' u = Some ''file'' then None else Some (validated_name (js_opt ''name'' u)))"
      "map_of (rev us) ''activeRevision'' = Some (if string_field ''type'' u = Some ''file''
           then if is_ok (js_opt ''activeRevision'' u)
                then resultOk (parsed_revision date_of text_of (js_opt ''value'' (js_opt ''activeRevision'' u)))
                else js_opt ''activeRevision'' u
           else JUndefined)"
      "\<exists>f. map_of (rev us) ''folder'' = Some f \<and> good_folder f"
      "k \<notin> {''isStale'', ''name'', ''activeRevision'', ''folder'', ''treeEventScopeId''} \<Longrightarrow> map_of (rev us) k = None"
  proof -
    have spread: "js_spread u = fs" by (simp add: fs(1))
    show thesis
    proof (cases "string_field ''type'' u = Some ''file''")
      case True
      with assms(1) obtain t where n1: "n = JObj (js_with fs
          [(''isStale'', JBool False),
           (''activeRevision'', if is_ok (js_opt ''activeRevision'' u)
             then resultOk (parsed_revision date_of text_of (js_opt ''value'' (js_opt ''activeRevision'' u)))
             else js_opt ''activeRevision'' u),
           (''folder'', JUndefined), (''treeEventScopeId'', JStr t)])"
        by (auto simp: parseNode_def Let_def try_bind_Inr_iff spread)
      show thesis by (rule that [OF n1]) (use True in \<open>simp_all add: good_folder_simps\<close>)
    next
      case False
      with assms(1) obtain t where n1: "n = JObj (js_with fs
          [(''name'', validated_name (js_opt ''name'' u)), (''isStale'', JBool False), (''activeRevision'', JUndefined),
           (''folder'', if js_truthy (js_opt ''extendedAttributes'' (js_opt ''folder'' u))
              then JObj [(''claimedModificationTime'', js_of (\<lambda>t. JDate (Some t))
                     (parseFolderExtendedAttributes date_of (text_of (js_opt ''extendedAttributes'' (js_opt ''folder'' u)))))]
              else JUndefined),
           (''treeEventScopeId'', JStr t)])"
        by (auto simp: parseNode_def Let_def try_bind_Inr_iff spread)
      show thesis by (rule that [OF n1]) (use False in \<open>simp_all add: good_folder_simps\<close>)
    qed
  qed
  show "plain_object n" unfolding n plain_object_def using distinct_js_with [OF fs(2)] by blast
  note get = n js_opt_js_with us
  show "js_opt ''isStale'' n = JBool False" by (simp add: get del: js_opt.simps)
  show "js_opt ''name'' n = (if string_field ''type'' u = Some ''file'' then js_opt ''name'' u
                              else validated_name (js_opt ''name'' u))"
    by (simp add: get fs(1) [symmetric] del: js_opt.simps)
  show "js_opt ''activeRevision'' n = (if string_field ''type'' u = Some ''file''
           then if is_ok (js_opt ''activeRevision'' u)
                then resultOk (parsed_revision date_of text_of (js_opt ''value'' (js_opt ''activeRevision'' u)))
                else js_opt ''activeRevision'' u
           else JUndefined)"
    by (simp add: get del: js_opt.simps)
  show "good_folder (js_opt ''folder'' n)" using us(4) by (auto simp: n js_opt_js_with simp del: js_opt.simps)
  show "js_opt k n = js_opt k u" if "k \<notin> {''isStale'', ''name'', ''activeRevision'', ''folder'', ''treeEventScopeId''}"
    using that by (simp add: get fs(1) [symmetric] del: js_opt.simps)
qed

lemma parsed_facts:
  assumes "good_unparsed u" "parseNode date_of text_of u = Inr n"
  shows "good_node n \<and> node_uid n = node_uid u \<and> node_parent n = node_parent u
     \<and> js_opt ''isStale'' n = JBool False
     \<and> deserialiseNode date_of (serialiseNode n) = Inr (reread_node date_of n)"
proof -
  note u = assms(1) [unfolded good_unparsed_def]
  have plain: "plain_object u" using u by blast
  note field = parsed_field [OF assms(2) plain]
  have "good_revision (js_opt ''activeRevision'' n)"
  proof -
    have "good_revision (if is_ok r then resultOk (parsed_revision date_of text_of (js_opt ''value'' r)) else r)"
      if "r = JUndefined \<or> (\<exists>v. r = resultOk v) \<or> (\<exists>e. r = resultError e)" for r
      using that good_revision_simps(1,3) good_revision_simps(2) [OF plain_parsed_revision]
      by (elim disjE exE) (simp_all add: is_ok_def resultOk_def resultError_def)
    with u show ?thesis unfolding field(4) by (simp add: good_revision_simps)
  qed
  moreover note others = field(6) [of "''uid''"] field(6) [of "''directRole''"] field(6) [of "''type''"]
    field(6) [of "''parentUid''"] field(6) [of "''mediaType''"] field(6) [of "''isShared''"]
    field(6) [of "''creationTime''"] field(6) [of "''modificationTime''"] field(6) [of "''trashTime''"]
    field(6) [of "''membership''"]
  ultimately have good: "good_node n"
    using u field(1,2,5) unfolding good_node_def by (simp; blast)
  then show ?thesis
    using reread_good [OF good] field(2) others(1,4) by (simp add: node_uid_def node_parent_def string_field_def)
qed

lemma parsed_name:
  assumes "good_unparsed u" "parseNode date_of text_of u = Inr n" "js_opt ''name'' u = resultOk (JStr s)"
  shows "js_opt ''name'' n =
           (if string_field ''type'' u = Some ''file'' \<or> 1 \<le> length s \<and> length s \<le> 255 then js_opt ''name'' u
            else resultError (JObj [(''name'', JStr s), (''error'', JStr (getErrorMessage (projl (validateNodeName s))))]))"
proof -
  have "plain_object u" using assms(1) unfolding good_unparsed_def by blast
  note field = parsed_field(3) [OF assms(2) this]
  have "validated_name (resultOk (JStr s)) = (if 1 \<le> length s \<and> length s \<le> 255 then resultOk (JStr s)
        else resultError (JObj [(''name'', JStr s), (''error'', JStr (getErrorMessage (projl (validateNodeName s))))]))"
    using validateNodeName_ok [of s]
    by (auto simp: validated_name_def is_ok_def resultOk_def string_field_def split: sum.split)
  with assms(3) show ?thesis unfolding field by simp
qed

text \<open>
  Parsing a decrypted node gives a node the cache keeps: it is of the types the cache checks, fresh,
  of the same UID and parent, and reads back as written. Of a folder whose decrypted name is empty
  or too long the name becomes an error that carries it; the name of a file is never replaced.
\<close>

theorem parsed_node_is_cacheable:
  assumes "good_unparsed u" "parseNode date_of text_of u = Inr n"
  shows "good_node n \<and> node_uid n = node_uid u \<and> node_parent n = node_parent u
     \<and> js_opt ''isStale'' n = JBool False
     \<and> deserialiseNode date_of (serialiseNode n) = Inr (reread_node date_of n)
     \<and> (js_opt ''name'' u = resultOk (JStr s) \<longrightarrow>
          js_opt ''name'' n =
            (if string_field ''type'' u = Some ''file'' \<or> 1 \<le> length s \<and> length s \<le> 255 then js_opt ''name'' u
             else resultError (JObj [(''name'', JStr s), (''error'', JStr (getErrorMessage (projl (validateNodeName s))))])))"
  using parsed_facts [OF assms] parsed_name [OF assms] by blast

text \<open>A file with an empty name.\<close>

definition demo_unparsed :: jsval where
  "demo_unparsed =
     JObj [(''uid'', JStr ''v~a''), (''directRole'', JStr ''admin''), (''type'', JStr ''file''), (''isShared'', JBool False),
           (''creationTime'', JDate (Some 1)), (''modificationTime'', JDate (Some 2)),
           (''name'', resultOk (JStr ''''))]"

theorem parsed_node_is_cacheable_witness:
  "\<exists>n. parseNode (\<lambda>_. None) (\<lambda>_. None) demo_unparsed = Inr n \<and> good_node n
     \<and> js_opt ''name'' n = resultOk (JStr '''')"
proof -
  have good: "good_unparsed demo_unparsed"
    by (auto simp: good_unparsed_def demo_unparsed_def plain_object_def valid_date_def)
  obtain n where n: "parseNode (\<lambda>_. None) (\<lambda>_. None) demo_unparsed = Inr n"
    by (simp add: parseNode_def demo_unparsed_def node_uid_def string_field_def splitNodeUid_def split2_def splitUid_def tilde_def)
  from parsed_node_is_cacheable [OF good n, of "''''"] show ?thesis
    using n by (simp add: demo_unparsed_def string_field_def)
qed

end
