(* ===== verification/SeekableStream.thy ===== *)
theory SeekableStream
  imports Errors Iterators
begin

text \<open>
  Random access to a file while it is downloaded: \<^verbatim>\<open>internal/download/blockIndex.ts\<close>, the source
  \<open>getSeekableStream\<close> and \<open>downloadDataFromPosition\<close> of \<^verbatim>\<open>fileDownloader.ts\<close>, and
  \<open>BufferedSeekableStream\<close> of \<^verbatim>\<open>seekableStream.ts\<close>.

  The platform's \<open>ReadableStream\<close>, with a high water mark of zero, is a flag and the source it
  pulls: once the source has closed the stream every reader of it is told \<open>done\<close>, and once the
  source has failed every read rejects with the same error. What fetching a block gives is a
  parameter.
\<close>

section \<open>The block of a position\<close>

definition DEFAULT_FILE_CHUNK_SIZE :: nat where
  "DEFAULT_FILE_CHUNK_SIZE = 4 * 1024 * 1024"

fun find_block :: "nat list \<Rightarrow> nat \<Rightarrow> nat \<Rightarrow> nat \<Rightarrow> (nat \<times> nat) option" where
  "find_block [] i currentPosition position = None"
| "find_block (blockSize # rest) i currentPosition position =
     (if position < currentPosition + blockSize then Some (i + 1, position - currentPosition)
      else find_block rest (i + 1) (currentPosition + blockSize) position)"

text \<open>\<open>None\<close> is \<open>done\<close>; otherwise the block's index, from one, and the offset in it.\<close>

definition getBlockIndex :: "nat list option \<Rightarrow> nat \<Rightarrow> (nat \<times> nat) option" where
  "getBlockIndex claimedBlockSizes position =
     (case claimedBlockSizes of
        Some sizes \<Rightarrow>
          if length sizes = 0
          then Some (position div DEFAULT_FILE_CHUNK_SIZE + 1, position mod DEFAULT_FILE_CHUNK_SIZE)
          else find_block sizes 0 0 position
      | None \<Rightarrow> Some (position div DEFAULT_FILE_CHUNK_SIZE + 1, position mod DEFAULT_FILE_CHUNK_SIZE))"

lemma find_block_spec:
  "currentPosition \<le> position \<Longrightarrow>
     (case find_block sizes i currentPosition position of
        None \<Rightarrow> currentPosition + sum_list sizes \<le> position
      | Some (b, off) \<Rightarrow> i < b \<and> b - i \<le> length sizes \<and> off < sizes ! (b - i - 1)
          \<and> position = currentPosition + sum_list (take (b - i - 1) sizes) + off)"
proof (induction sizes arbitrary: i currentPosition)
  case (Cons blockSize rest)
  show ?case
  proof (cases "position < currentPosition + blockSize")
    case False
    then have "currentPosition + blockSize \<le> position" by simp
    note IH = Cons.IH [OF this, of "i + 1"]
    show ?thesis
    proof (cases "find_block rest (i + 1) (currentPosition + blockSize) position")
      case None
      with False IH show ?thesis by simp
    next
      case (Some r)
      obtain b off where r: "r = (b, off)" by (cases r)
      with Some IH have b: "i + 1 < b" "b - (i + 1) \<le> length rest" "off < rest ! (b - (i + 1) - 1)"
        "position = currentPosition + blockSize + sum_list (take (b - (i + 1) - 1) rest) + off"
        by simp_all
      then have "b - i - 1 = Suc (b - (i + 1) - 1)" by simp
      with False Some b show ?thesis by (simp add: r)
    qed
  qed (use Cons.prems in auto)
qed simp

section \<open>The source\<close>

definition downloadDataFromPosition ::
  "(nat \<Rightarrow> thrown + 'b list) \<Rightarrow> nat list \<Rightarrow> nat \<Rightarrow> thrown + 'b list option"
where
  "downloadDataFromPosition fetchBlock claimedBlockSizes position =
     (case getBlockIndex (Some claimedBlockSizes) position of
        None \<Rightarrow> Inr None
      | Some (blockIndex, blockOffset) \<Rightarrow>
          (case fetchBlock blockIndex of
             Inl error \<Rightarrow> Inl (ThrownError (createErrorFromUnknown error))
           | Inr blockData \<Rightarrow> Inr (Some (drop blockOffset blockData))))"

definition no_block_sizes_error :: thrown where
  "no_block_sizes_error = throw_new JsError ''Revision does not have defined claimed block sizes''"

datatype stream_status = Readable | Closed | Errored thrown

record 'b seek_stream =
  ss_position :: nat
  ss_status :: stream_status
  ss_buffer :: "'b list"
  ss_bufferPosition :: nat
  ss_streamClosed :: bool
  ss_currentPosition :: nat

definition getSeekableStream :: "nat list option \<Rightarrow> thrown + 'b seek_stream" where
  "getSeekableStream claimedBlockSizes =
     (case claimedBlockSizes of
        None \<Rightarrow> Inl no_block_sizes_error
      | Some _ \<Rightarrow> Inr \<lparr>ss_position = 0, ss_status = Readable, ss_buffer = [], ss_bufferPosition = 0,
                     ss_streamClosed = False, ss_currentPosition = 0\<rparr>)"

text \<open>One \<open>reader.read()\<close>: the source is pulled only when the stream is readable.\<close>

definition reader_read ::
  "(nat \<Rightarrow> thrown + 'b list) \<Rightarrow> nat list \<Rightarrow> 'b seek_stream \<Rightarrow> (thrown + 'b list option) \<times> 'b seek_stream"
where
  "reader_read fetchBlock sizes s =
     (case ss_status s of
        Closed \<Rightarrow> (Inr None, s)
      | Errored e \<Rightarrow> (Inl e, s)
      | Readable \<Rightarrow>
          (case downloadDataFromPosition fetchBlock sizes (ss_position s) of
             Inl error \<Rightarrow> (Inl error, s\<lparr>ss_status := Errored error\<rparr>)
           | Inr None \<Rightarrow> (Inr None, s\<lparr>ss_status := Closed\<rparr>)
           | Inr (Some chunk) \<Rightarrow>
               (Inr (Some chunk), s\<lparr>ss_position := ss_position s + length chunk\<rparr>)))"

section \<open>BufferedSeekableStream\<close>

text \<open>
  The loop of \<open>ensureBufferSize\<close>, which ends once enough bytes or the end have been read; the
  number of pulls is bounded by the fuel, of which the needed bytes plus one suffice when no
  block is empty.
\<close>

fun read_chunks ::
  "(nat \<Rightarrow> thrown + 'b list) \<Rightarrow> nat list \<Rightarrow> nat \<Rightarrow> nat \<Rightarrow> 'b list list \<Rightarrow> nat \<Rightarrow> 'b seek_stream
     \<Rightarrow> ((thrown + 'b list list) \<times> 'b seek_stream) option"
where
  "read_chunks fetchBlock sizes 0 neededBytes chunks totalBytesRead s = None"
| "read_chunks fetchBlock sizes (Suc fuel) neededBytes chunks totalBytesRead s =
     (if totalBytesRead < neededBytes \<and> \<not> ss_streamClosed s
      then (case reader_read fetchBlock sizes s of
              (Inl e, s') \<Rightarrow> Some (Inl e, s')
            | (Inr None, s') \<Rightarrow> Some (Inr chunks, s'\<lparr>ss_streamClosed := True\<rparr>)
            | (Inr (Some value), s') \<Rightarrow>
                read_chunks fetchBlock sizes fuel neededBytes (chunks @ [value])
                  (totalBytesRead + length value) s')
      else Some (Inr chunks, s))"

definition ensureBufferSize ::
  "(nat \<Rightarrow> thrown + 'b list) \<Rightarrow> nat list \<Rightarrow> nat \<Rightarrow> nat \<Rightarrow> 'b seek_stream
     \<Rightarrow> ((thrown + unit) \<times> 'b seek_stream) option"
where
  "ensureBufferSize fetchBlock sizes fuel minBytes s =
     (let availableBytes = int (length (ss_buffer s)) - int (ss_bufferPosition s);
          neededBytes = int minBytes - availableBytes
      in if neededBytes \<le> 0 \<or> ss_streamClosed s then Some (Inr (), s)
         else case read_chunks fetchBlock sizes fuel (nat neededBytes) [] 0 s of
           None \<Rightarrow> None
         | Some (Inl e, s') \<Rightarrow> Some (Inl e, s')
         | Some (Inr chunks, s') \<Rightarrow>
             if chunks = [] then Some (Inr (), s')
             else Some (Inr (), s'\<lparr>ss_buffer := drop (ss_bufferPosition s') (ss_buffer s') @ concat chunks,
                                   ss_bufferPosition := 0\<rparr>))"

definition stream_read ::
  "(nat \<Rightarrow> thrown + 'b list) \<Rightarrow> nat list \<Rightarrow> nat \<Rightarrow> nat \<Rightarrow> 'b seek_stream
     \<Rightarrow> ((thrown + 'b list \<times> bool) \<times> 'b seek_stream) option"
where
  "stream_read fetchBlock sizes fuel numBytes s =
     (if numBytes = 0 then Some (Inl (throw_new JsError ''Invalid number of bytes to read''), s)
      else case ensureBufferSize fetchBlock sizes fuel numBytes s of
        None \<Rightarrow> None
      | Some (Inl e, s') \<Rightarrow> Some (Inl e, s')
      | Some (Inr _, s') \<Rightarrow>
          Some (Inr (take numBytes (drop (ss_bufferPosition s') (ss_buffer s')), ss_streamClosed s'),
                s'\<lparr>ss_bufferPosition := ss_bufferPosition s' + numBytes,
                   ss_currentPosition := ss_currentPosition s' + numBytes\<rparr>))"

definition stream_seek :: "nat \<Rightarrow> 'b seek_stream \<Rightarrow> 'b seek_stream" where
  "stream_seek position s =
     (let endOfBufferPosition =
            int (ss_currentPosition s) + (int (length (ss_buffer s)) - int (ss_bufferPosition s))
      in if int position > endOfBufferPosition \<or> position < ss_currentPosition s
         then s\<lparr>ss_buffer := [], ss_bufferPosition := 0, ss_position := position,
                ss_streamClosed := False, ss_currentPosition := position\<rparr>
         else s\<lparr>ss_bufferPosition := ss_bufferPosition s + (position - ss_currentPosition s),
                ss_currentPosition := position\<rparr>)"

section \<open>Reads are slices of the file\<close>

text \<open>
  \<open>serves_file fetchBlock sizes file\<close>: the blocks have the claimed sizes, none is empty, and the
  file is their concatenation.
\<close>

definition serves_file :: "(nat \<Rightarrow> thrown + 'b list) \<Rightarrow> nat list \<Rightarrow> 'b list \<Rightarrow> bool" where
  "serves_file fetchBlock sizes file \<longleftrightarrow>
     sizes \<noteq> [] \<and> 0 \<notin> set sizes \<and> length file = sum_list sizes
     \<and> (\<forall>i < length sizes.
          fetchBlock (i + 1) = Inr (take (sizes ! i) (drop (sum_list (take i sizes)) file)))"

lemma sum_list_take_Suc:
  "i < length xs \<Longrightarrow> sum_list (take (Suc i) xs) = sum_list (take i xs) + (xs ! i :: nat)"
  by (simp add: take_Suc_conv_app_nth)

lemma sum_list_take_le: "sum_list (take i xs) \<le> sum_list (xs :: nat list)"
  using sum_list_append [of "take i xs" "drop i xs"] by simp

lemma download_slice:
  assumes "serves_file fetchBlock sizes file"
  shows "length file \<le> position \<Longrightarrow> downloadDataFromPosition fetchBlock sizes position = Inr None"
    and "position < length file \<Longrightarrow>
      \<exists>k. 0 < k \<and> position + k \<le> length file
        \<and> downloadDataFromPosition fetchBlock sizes position = Inr (Some (take k (drop position file)))"
proof -
  have sizes: "sizes \<noteq> []" "length file = sum_list sizes"
    using assms by (simp_all add: serves_file_def)
  note spec = find_block_spec [of 0 position sizes 0, simplified]
  show "downloadDataFromPosition fetchBlock sizes position = Inr None" if "length file \<le> position"
  proof (cases "find_block sizes 0 0 position")
    case (Some r)
    obtain b off where r: "r = (b, off)" by (cases r)
    with Some spec have b: "0 < b" "b \<le> length sizes" "off < sizes ! (b - 1)"
      "position = sum_list (take (b - 1) sizes) + off" by simp_all
    then have "position < sum_list (take b sizes)"
      using sum_list_take_Suc [of "b - 1" sizes] by simp
    with that sizes sum_list_take_le [of b sizes] show ?thesis by simp
  qed (use sizes in \<open>simp add: downloadDataFromPosition_def getBlockIndex_def\<close>)
  show "\<exists>k. 0 < k \<and> position + k \<le> length file
        \<and> downloadDataFromPosition fetchBlock sizes position = Inr (Some (take k (drop position file)))"
    if "position < length file"
  proof (cases "find_block sizes 0 0 position")
    case None
    with spec that sizes show ?thesis by simp
  next
    case (Some r)
    obtain b off where r: "r = (b, off)" by (cases r)
    with Some spec have b: "0 < b" "b \<le> length sizes" "off < sizes ! (b - 1)"
      "position = sum_list (take (b - 1) sizes) + off" by simp_all
    have "fetchBlock (b - 1 + 1) = Inr (take (sizes ! (b - 1)) (drop (sum_list (take (b - 1) sizes)) file))"
      using assms b(1,2) unfolding serves_file_def by (metis Suc_pred' less_eq_Suc_le Suc_eq_plus1)
    then have "downloadDataFromPosition fetchBlock sizes position
        = Inr (Some (take (sizes ! (b - 1) - off) (drop position file)))"
      using Some r sizes b(1,4)
      by (simp add: downloadDataFromPosition_def getBlockIndex_def drop_take add.commute)
    moreover have "position + (sizes ! (b - 1) - off) \<le> length file"
      using b sum_list_take_Suc [of "b - 1" sizes] sum_list_take_le [of b sizes] sizes(2) by simp
    ultimately show ?thesis
      using b(3) by (intro exI [of _ "sizes ! (b - 1) - off"]) simp
  qed
qed

text \<open>
  The invariant: the unread part of the buffer is the file from the current position up to the
  source's position, and the stream is closed only once the source is at the end of the file.
\<close>

definition stream_inv :: "'b list \<Rightarrow> 'b seek_stream \<Rightarrow> bool" where
  "stream_inv file s \<longleftrightarrow>
     ss_currentPosition s + length (ss_buffer s) = ss_position s + ss_bufferPosition s
     \<and> drop (ss_bufferPosition s) (ss_buffer s)
         = take (length (ss_buffer s) - ss_bufferPosition s) (drop (ss_currentPosition s) file)
     \<and> (ss_bufferPosition s \<le> length (ss_buffer s) \<or> ss_streamClosed s)
     \<and> (ss_status s = Readable \<and> \<not> ss_streamClosed s
        \<or> ss_status s = Closed \<and> length file \<le> ss_position s)"

lemma read_chunks_closed:
  "ss_status s = Closed \<Longrightarrow> got < want \<Longrightarrow> \<not> ss_streamClosed s \<Longrightarrow>
     read_chunks fetchBlock sizes (Suc fuel) want chunks got s
       = Some (Inr chunks, s\<lparr>ss_streamClosed := True\<rparr>)"
  by (simp add: reader_read_def)

lemma read_chunks_slice:
  assumes "serves_file fetchBlock sizes file"
  shows "ss_status s = Readable \<Longrightarrow> \<not> ss_streamClosed s \<Longrightarrow> want < fuel + got \<and> 0 < fuel \<Longrightarrow>
    \<exists>cs closed. read_chunks fetchBlock sizes fuel want chunks got s
        = Some (Inr (chunks @ cs),
            s\<lparr>ss_position := ss_position s + length (concat cs),
              ss_status := (if closed then Closed else Readable), ss_streamClosed := closed\<rparr>)
      \<and> concat cs = take (length (concat cs)) (drop (ss_position s) file)
      \<and> (if closed then length file \<le> ss_position s + length (concat cs) \<and> got + length (concat cs) < want
         else want \<le> got + length (concat cs))"
proof (induction fuel arbitrary: chunks got s)
  case (Suc fuel)
  show ?case
  proof (cases "got < want")
    case False
    then show ?thesis
      using Suc.prems(1,2) by (intro exI [of _ "[]"] exI [of _ False]) simp
  next
    case more: True
    show ?thesis
    proof (cases "ss_position s < length file")
      case False
      then have "reader_read fetchBlock sizes s = (Inr None, s\<lparr>ss_status := Closed\<rparr>)"
        using download_slice(1) [OF assms] Suc.prems(1) by (simp add: reader_read_def)
      with more False Suc.prems(2) show ?thesis
        by (intro exI [of _ "[]"] exI [of _ True]) simp
    next
      case True
      then obtain k where k: "0 < k" "ss_position s + k \<le> length file"
        "downloadDataFromPosition fetchBlock sizes (ss_position s) = Inr (Some (take k (drop (ss_position s) file)))"
        using download_slice(2) [OF assms] by blast
      let ?chunk = "take k (drop (ss_position s) file)" and ?s = "s\<lparr>ss_position := ss_position s + k\<rparr>"
      have len: "length ?chunk = k" using k(2) by simp
      have read: "reader_read fetchBlock sizes s = (Inr (Some ?chunk), ?s)"
        using k(3) len Suc.prems(1) by (simp add: reader_read_def)
      have "want < fuel + (got + k) \<and> 0 < fuel" using Suc.prems(3) k(1) more by auto
      then obtain cs closed where IH:
        "read_chunks fetchBlock sizes fuel want (chunks @ [?chunk]) (got + k) ?s
          = Some (Inr ((chunks @ [?chunk]) @ cs),
              ?s\<lparr>ss_position := ss_position ?s + length (concat cs),
                 ss_status := (if closed then Closed else Readable), ss_streamClosed := closed\<rparr>)"
        "concat cs = take (length (concat cs)) (drop (ss_position ?s) file)"
        "if closed then length file \<le> ss_position ?s + length (concat cs) \<and> got + k + length (concat cs) < want
         else want \<le> got + k + length (concat cs)"
        using Suc.IH [of ?s "got + k" "chunks @ [?chunk]"] Suc.prems(1,2) by auto
      have "read_chunks fetchBlock sizes (Suc fuel) want chunks got s
          = Some (Inr (chunks @ (?chunk # cs)),
              s\<lparr>ss_position := ss_position s + length (concat (?chunk # cs)),
                 ss_status := (if closed then Closed else Readable), ss_streamClosed := closed\<rparr>)"
        using more Suc.prems(2) read len IH(1) by (simp add: add.assoc)
      moreover have "concat (?chunk # cs) = take (length (concat (?chunk # cs))) (drop (ss_position s) file)"
        using IH(2) len by (simp add: take_add add.commute)
      moreover have "if closed
         then length file \<le> ss_position s + length (concat (?chunk # cs)) \<and> got + length (concat (?chunk # cs)) < want
         else want \<le> got + length (concat (?chunk # cs))"
        using IH(3) len by (auto simp: add.assoc)
      ultimately show ?thesis by blast
    qed
  qed
qed simp

lemma ensure_slice:
  assumes srv: "serves_file fetchBlock sizes file" and inv: "stream_inv file s" and fuel: "n < fuel"
  shows "\<exists>s'. ensureBufferSize fetchBlock sizes fuel n s = Some (Inr (), s') \<and> stream_inv file s'
     \<and> ss_currentPosition s' = ss_currentPosition s
     \<and> (ss_bufferPosition s' + n \<le> length (ss_buffer s') \<or> ss_streamClosed s')
     \<and> (ss_status s' = Closed \<longrightarrow> ss_status s = Closed \<or> length file < ss_currentPosition s + n)"
proof (cases "ss_bufferPosition s + n \<le> length (ss_buffer s) \<or> ss_streamClosed s")
  case True
  with inv show ?thesis
    by (intro exI [of _ s]) (auto simp: ensureBufferSize_def Let_def)
next
  case False
  let ?u = "length (ss_buffer s) - ss_bufferPosition s"
  let ?want = "n - ?u"
  from inv False have s: "ss_bufferPosition s \<le> length (ss_buffer s)" "\<not> ss_streamClosed s"
    "ss_currentPosition s + ?u = ss_position s"
    "drop (ss_bufferPosition s) (ss_buffer s) = take ?u (drop (ss_currentPosition s) file)"
    by (auto simp: stream_inv_def)
  have want: "nat (int n - (int (length (ss_buffer s)) - int (ss_bufferPosition s))) = ?want" "0 < ?want"
    using False s(1) by auto
  have ensure: "ensureBufferSize fetchBlock sizes fuel n s =
      (case read_chunks fetchBlock sizes fuel ?want [] 0 s of
           None \<Rightarrow> None
         | Some (Inl e, s') \<Rightarrow> Some (Inl e, s')
         | Some (Inr chunks, s') \<Rightarrow>
             if chunks = [] then Some (Inr (), s')
             else Some (Inr (), s'\<lparr>ss_buffer := drop (ss_bufferPosition s') (ss_buffer s') @ concat chunks,
                                   ss_bufferPosition := 0\<rparr>))"
    using False s(1) want by (simp add: ensureBufferSize_def Let_def)
  obtain f where f: "fuel = Suc f" using fuel by (cases fuel) auto
  from inv s(2) consider "ss_status s = Readable" | "ss_status s = Closed" "length file \<le> ss_position s"
    by (auto simp: stream_inv_def)
  then show ?thesis
  proof cases
    case 2
    then have "read_chunks fetchBlock sizes fuel ?want [] 0 s = Some (Inr [], s\<lparr>ss_streamClosed := True\<rparr>)"
      unfolding f using want(2) s(2) by (intro read_chunks_closed) auto
    with 2 inv ensure show ?thesis by (auto simp: stream_inv_def)
  next
    case 1
    have "?want < fuel + 0 \<and> 0 < fuel" using fuel by simp
    note slice = read_chunks_slice [OF srv 1 s(2) this, of "[]", unfolded append_Nil add_0]
    obtain cs closed where cs:
      "read_chunks fetchBlock sizes fuel ?want [] 0 s = Some (Inr cs,
          s\<lparr>ss_position := ss_position s + length (concat cs),
            ss_status := (if closed then Closed else Readable), ss_streamClosed := closed\<rparr>)"
      "concat cs = take (length (concat cs)) (drop (ss_position s) file)"
      "if closed then length file \<le> ss_position s + length (concat cs) \<and> length (concat cs) < ?want
       else ?want \<le> length (concat cs)"
      using slice by blast
    let ?m = "length (concat cs)"
    have u: "length (drop (ss_bufferPosition s) (ss_buffer s)) = ?u" by simp
    have joined: "drop (ss_bufferPosition s) (ss_buffer s) @ concat cs = take (?u + ?m) (drop (ss_currentPosition s) file)"
    proof -
      have "?u + ss_currentPosition s = ss_position s" using s(3) by linarith
      then show ?thesis
        using cs(2) unfolding s(4) take_add drop_drop by (simp only:)
    qed
    have fits: "?u + ?m \<le> length file - ss_currentPosition s"
    proof -
      have "length (drop (ss_bufferPosition s) (ss_buffer s) @ concat cs) \<le> length (drop (ss_currentPosition s) file)"
        unfolding joined by simp
      then show ?thesis by simp
    qed
    have late: "length file < ss_currentPosition s + n" if closed
      using that cs(3) s(3) by (auto simp: less_diff_conv)
    show ?thesis
    proof (cases "cs = []")
      case True
      with cs(3) want(2) have closed by (auto split: if_splits)
      with True cs ensure inv late 1 s show ?thesis
        by (auto simp: stream_inv_def)
    next
      case False
      then show ?thesis
        using cs ensure joined u late fits s(1-3) 1
        by (auto simp: stream_inv_def split: if_splits)
    qed
  qed
qed

lemma read_slice:
  assumes srv: "serves_file fetchBlock sizes file" and inv: "stream_inv file s" and n: "0 < n" and fuel: "n < fuel"
  shows "\<exists>done s'. stream_read fetchBlock sizes fuel n s = Some (Inr (take n (drop (ss_currentPosition s) file), done), s')
     \<and> stream_inv file s' \<and> ss_currentPosition s' = ss_currentPosition s + n
     \<and> (ss_status s' = Closed \<longrightarrow> ss_status s = Closed \<or> length file < ss_currentPosition s + n)"
proof -
  obtain s1 where s1: "ensureBufferSize fetchBlock sizes fuel n s = Some (Inr (), s1)" "stream_inv file s1"
    "ss_currentPosition s1 = ss_currentPosition s"
    "ss_bufferPosition s1 + n \<le> length (ss_buffer s1) \<or> ss_streamClosed s1"
    "ss_status s1 = Closed \<longrightarrow> ss_status s = Closed \<or> length file < ss_currentPosition s + n"
    using ensure_slice [OF srv inv fuel] by blast
  let ?c = "ss_currentPosition s1" and ?u = "length (ss_buffer s1) - ss_bufferPosition s1"
  let ?s' = "s1\<lparr>ss_bufferPosition := ss_bufferPosition s1 + n, ss_currentPosition := ?c + n\<rparr>"
  have buffer: "drop (ss_bufferPosition s1) (ss_buffer s1) = take ?u (drop ?c file)"
    "?c + length (ss_buffer s1) = ss_position s1 + ss_bufferPosition s1"
    using s1(2) by (simp_all add: stream_inv_def)
  have "n \<le> ?u \<or> length file - ?c \<le> ?u"
    using s1(2,4) buffer(2) by (auto simp: stream_inv_def)
  then have "take n (drop (ss_bufferPosition s1) (ss_buffer s1)) = take n (drop ?c file)"
    unfolding buffer(1) by (auto simp: min_def)
  moreover have "stream_inv file ?s'"
  proof -
    have "drop (ss_bufferPosition s1 + n) (ss_buffer s1) = drop n (drop (ss_bufferPosition s1) (ss_buffer s1))"
      by (simp add: add.commute)
    also have "\<dots> = take (length (ss_buffer s1) - (ss_bufferPosition s1 + n)) (drop (?c + n) file)"
      unfolding buffer(1) by (simp add: drop_take add.commute)
    finally show ?thesis
      using s1(2,4) by (auto simp: stream_inv_def)
  qed
  ultimately show ?thesis
    using s1(1,3,5) n by (simp add: stream_read_def)
qed

lemma seek_inv:
  assumes "stream_inv file s" and "ss_status s = Readable \<or> ss_currentPosition s \<le> q"
  shows "stream_inv file (stream_seek q s) \<and> ss_currentPosition (stream_seek q s) = q
     \<and> ss_status (stream_seek q s) = ss_status s"
proof -
  let ?buffered = "int (ss_currentPosition s) + (int (length (ss_buffer s)) - int (ss_bufferPosition s))"
  show ?thesis
  proof (cases "int q > ?buffered \<or> q < ss_currentPosition s")
    case True
    then show ?thesis
      using assms by (auto simp: stream_seek_def Let_def stream_inv_def)
  next
    case False
    then have q: "ss_currentPosition s \<le> q" "int q \<le> ?buffered" by simp_all
    let ?d = "q - ss_currentPosition s"
    have le: "ss_bufferPosition s + ?d \<le> length (ss_buffer s)" using q by linarith
    have unread: "drop (ss_bufferPosition s) (ss_buffer s)
        = take (length (ss_buffer s) - ss_bufferPosition s) (drop (ss_currentPosition s) file)"
      "ss_currentPosition s + length (ss_buffer s) = ss_position s + ss_bufferPosition s"
      using assms(1) by (simp_all add: stream_inv_def)
    have "drop (ss_bufferPosition s + ?d) (ss_buffer s) = drop ?d (drop (ss_bufferPosition s) (ss_buffer s))"
      by (simp add: add.commute)
    also have "\<dots> = take (length (ss_buffer s) - (ss_bufferPosition s + ?d)) (drop q file)"
      unfolding unread(1) using q(1) by (simp add: drop_take)
    finally show ?thesis
      using assms False le q(1) unread(2) by (auto simp: stream_seek_def Let_def stream_inv_def)
  qed
qed

text \<open>A client's session: seeks and reads, with what the reads give.\<close>

datatype stream_op = Seek nat | Read nat

fun run_stream ::
  "(nat \<Rightarrow> thrown + 'b list) \<Rightarrow> nat list \<Rightarrow> stream_op list \<Rightarrow> 'b seek_stream \<Rightarrow> 'b list list option"
where
  "run_stream fetchBlock sizes [] s = Some []"
| "run_stream fetchBlock sizes (Seek q # ops) s = run_stream fetchBlock sizes ops (stream_seek q s)"
| "run_stream fetchBlock sizes (Read n # ops) s =
     (case stream_read fetchBlock sizes (n + 1) n s of
        Some (Inr (data, done), s') \<Rightarrow> map_option (\<lambda>rest. data # rest) (run_stream fetchBlock sizes ops s')
      | _ \<Rightarrow> None)"

fun spec_stream :: "'b list \<Rightarrow> stream_op list \<Rightarrow> nat \<Rightarrow> 'b list list" where
  "spec_stream file [] p = []"
| "spec_stream file (Seek q # ops) p = spec_stream file ops q"
| "spec_stream file (Read n # ops) p = take n (drop p file) # spec_stream file ops (p + n)"

text \<open>No read of zero bytes, and no seek backwards once a read went past the end.\<close>

fun allowed_ops :: "nat \<Rightarrow> stream_op list \<Rightarrow> nat \<Rightarrow> bool \<Rightarrow> bool" where
  "allowed_ops len [] p ended \<longleftrightarrow> True"
| "allowed_ops len (Seek q # ops) p ended \<longleftrightarrow> (\<not> ended \<or> p \<le> q) \<and> allowed_ops len ops q ended"
| "allowed_ops len (Read n # ops) p ended \<longleftrightarrow> 0 < n \<and> allowed_ops len ops (p + n) (ended \<or> len < p + n)"

lemma run_stream_spec:
  assumes srv: "serves_file fetchBlock sizes file"
  shows "stream_inv file s \<Longrightarrow> ss_status s = Closed \<longrightarrow> ended \<Longrightarrow>
     allowed_ops (length file) ops (ss_currentPosition s) ended \<Longrightarrow>
     run_stream fetchBlock sizes ops s = Some (spec_stream file ops (ss_currentPosition s))"
proof (induction ops arbitrary: s ended)
  case (Cons op ops)
  show ?case
  proof (cases op)
    case (Seek q)
    have "ss_status s = Readable \<or> ss_currentPosition s \<le> q"
      using Cons.prems Seek by (auto simp: stream_inv_def)
    from seek_inv [OF Cons.prems(1) this] Cons.IH [of "stream_seek q s" ended] Cons.prems Seek show ?thesis
      by simp
  next
    case (Read n)
    then have n: "0 < n" using Cons.prems(3) by simp
    obtain d s' where s': "stream_read fetchBlock sizes (n + 1) n s = Some (Inr (take n (drop (ss_currentPosition s) file), d), s')"
      "stream_inv file s'" "ss_currentPosition s' = ss_currentPosition s + n"
      "ss_status s' = Closed \<longrightarrow> ss_status s = Closed \<or> length file < ss_currentPosition s + n"
      using read_slice [OF srv Cons.prems(1) n, of "n + 1"] by auto
    from Cons.IH [OF s'(2), of "ended \<or> length file < ss_currentPosition s + n"] s' Cons.prems Read show ?thesis
      by auto
  qed
qed simp


definition demo_blocks :: "nat \<Rightarrow> thrown + nat list" where
  "demo_blocks i = (if i = 1 then Inr [10, 11, 12] else if i = 2 then Inr [13, 14] else Inl (throw_new ValidationError ''no block''))"

lemma demo_serves_file: "serves_file demo_blocks [3, 2] [10, 11, 12, 13, 14]"
proof -
  have "(\<forall>i < length [3, 2 :: nat]. Q i) = (Q 0 \<and> Q 1)" for Q
    by (auto simp: less_Suc_eq)
  then show ?thesis by (simp add: serves_file_def demo_blocks_def)
qed


text \<open>
  Once a read has gone past the end, the stream stays closed: after seeking back to any
  position before the current one, every read gives no data and reports the end, though the
  file has bytes there.
\<close>

theorem seek_back_after_end_reads_nothing:
  assumes "ss_status s = Closed" and "q < ss_currentPosition s" and "0 < n"
  shows "\<exists>s'. stream_read fetchBlock sizes (Suc fuel) n (stream_seek q s) = Some (Inr ([], True), s')"
proof -
  let ?s = "stream_seek q s"
  have s: "ss_status ?s = Closed" "\<not> ss_streamClosed ?s" "ss_buffer ?s = []" "ss_bufferPosition ?s = 0"
    using assms(1,2) by (simp_all add: stream_seek_def Let_def)
  have "read_chunks fetchBlock sizes (Suc fuel) n [] 0 ?s = Some (Inr [], ?s\<lparr>ss_streamClosed := True\<rparr>)"
    using read_chunks_closed [OF s(1) assms(3) s(2)] by blast
  with s assms(3) show ?thesis
    by (simp add: stream_read_def ensureBufferSize_def Let_def del: read_chunks.simps)
qed

theorem seek_back_after_end_reads_nothing_witness:
  "\<exists>s s1 s2. getSeekableStream (Some [3, 2]) = Inr s
     \<and> stream_read demo_blocks [3, 2] (Suc (Suc (Suc 0))) 6 s = Some (Inr ([10, 11, 12, 13, 14], True), s1)
     \<and> stream_read demo_blocks [3, 2] (Suc 0) 2 (stream_seek 0 s1) = Some (Inr ([], True), s2)"
proof -
  obtain s where s: "getSeekableStream (Some [3, 2]) = Inr (s :: nat seek_stream)"
    by (simp add: getSeekableStream_def)
  have "\<exists>s1. stream_read demo_blocks [3, 2] (Suc (Suc (Suc 0))) 6 s = Some (Inr ([10, 11, 12, 13, 14], True), s1)
      \<and> ss_status s1 = Closed \<and> ss_currentPosition s1 = 6"
    using s by (auto simp: getSeekableStream_def stream_read_def ensureBufferSize_def reader_read_def
        downloadDataFromPosition_def getBlockIndex_def demo_blocks_def)
  then obtain s1 where s1: "stream_read demo_blocks [3, 2] (Suc (Suc (Suc 0))) 6 s = Some (Inr ([10, 11, 12, 13, 14], True), s1)"
    "ss_status s1 = Closed" "ss_currentPosition s1 = 6" by blast
  from seek_back_after_end_reads_nothing [OF s1(2), of 0 2 demo_blocks "[3, 2]" 0] s s1 show ?thesis by auto
qed

end
