(* ===== verification/FileDownload.thy ===== *)
theory FileDownload
  imports Errors Uids Iterators "HOL-Library.AList"
begin

text \<open>
  Downloading a revision: the API part \<^verbatim>\<open>internal/download/apiService.ts\<close>, the checks of
  \<^verbatim>\<open>cryptoService.ts\<close>, and the block loop and the in-order writer of \<^verbatim>\<open>fileDownloader.ts\<close>.

  Hashing, decryption, signature verification and the account's keys are third-party code and
  come in as a record of functions. What the server answers is a parameter too. The writer is a
  step relation: a block's download may settle at any time, and pausing, resuming and aborting
  may happen between any two steps.
\<close>

section \<open>The API\<close>

record raw_block =
  rb_Index :: nat
  rb_BareURL :: string
  rb_Token :: string
  rb_Hash :: string
  rb_SignatureEmail :: "string option"

record block_metadata =
  bm_index :: nat
  bm_bareUrl :: string
  bm_token :: string
  bm_base64sha256Hash :: string
  bm_signatureEmail :: "string option"

definition transformBlock :: "raw_block \<Rightarrow> block_metadata" where
  "transformBlock block =
     \<lparr>bm_index = rb_Index block, bm_bareUrl = rb_BareURL block, bm_token = rb_Token block,
      bm_base64sha256Hash = rb_Hash block, bm_signatureEmail = present (rb_SignatureEmail block)\<rparr>"

record revision_page =
  rp_ManifestSignature :: "string option"
  rp_Thumbnails :: "string list"
  rp_Blocks :: "raw_block list"

datatype block_item =
  ManifestSignature "string option" | ThumbnailHash string | BlockItem block_metadata

text \<open>
  \<open>page n i\<close> is what the server answers to the \<open>n\<close>-th request, for the blocks from index \<open>i\<close>, and
  \<open>aborted n\<close> whether the signal is set before it. The result is what the generator yields and
  the error it then throws.
\<close>

definition page_header :: "nat \<Rightarrow> revision_page \<Rightarrow> block_item list" where
  "page_header fromBlockIndex result =
     (if fromBlockIndex = 1
      then ManifestSignature (present (rp_ManifestSignature result)) # map ThumbnailHash (rp_Thumbnails result)
      else [])"

fun iterateRevisionBlocks ::
  "(nat \<Rightarrow> nat \<Rightarrow> thrown + revision_page) \<Rightarrow> (nat \<Rightarrow> bool) \<Rightarrow> nat \<Rightarrow> nat \<Rightarrow> nat
     \<Rightarrow> (block_item list \<times> thrown option) option"
where
  "iterateRevisionBlocks page aborted 0 n fromBlockIndex = None"
| "iterateRevisionBlocks page aborted (Suc fuel) n fromBlockIndex =
     (if aborted n then Some ([], None)
      else case page n fromBlockIndex of
        Inl error \<Rightarrow> Some ([], Some error)
      | Inr result \<Rightarrow>
          if rp_Blocks result = [] then Some (page_header fromBlockIndex result, None)
          else map_option
            (\<lambda>(items, end). (page_header fromBlockIndex result
                @ map (BlockItem \<circ> transformBlock) (rp_Blocks result) @ items, end))
            (iterateRevisionBlocks page aborted fuel (n + 1) (rb_Index (last (rp_Blocks result)) + 1)))"

definition getRevisionBlockToken :: "thrown + revision_page \<Rightarrow> thrown + block_metadata" where
  "getRevisionBlockToken response =
     try_bind response (\<lambda>result.
       case rp_Blocks result of
         [] \<Rightarrow> Inl (throw_new JsTypeError ''Cannot read properties of undefined'')
       | block # _ \<Rightarrow> Inr (transformBlock block))"

section \<open>Crypto checks\<close>

record 'key download_crypto =
  cr_sha256_base64 :: "bytes \<Rightarrow> string"
  cr_decrypt :: "bytes \<Rightarrow> thrown + bytes"
  cr_fromBase64 :: "string \<Rightarrow> bytes"
  cr_getPublicKeys :: "string \<Rightarrow> thrown + 'key list"
  cr_verifyManifest :: "bytes \<Rightarrow> string \<Rightarrow> 'key list \<Rightarrow> thrown + verification_status"

definition verifyBlockIntegrity :: "'key download_crypto \<Rightarrow> bytes \<Rightarrow> string \<Rightarrow> thrown + unit" where
  "verifyBlockIntegrity cr encryptedBlock base64sha256Hash =
     (if cr_sha256_base64 cr encryptedBlock \<noteq> base64sha256Hash
      then Inl (throw_new IntegrityError ''Data integrity check of one part failed'')
      else Inr ())"

definition decryptBlock :: "'key download_crypto \<Rightarrow> bytes \<Rightarrow> thrown + bytes" where
  "decryptBlock cr encryptedBlock =
     (case cr_decrypt cr encryptedBlock of
        Inl error \<Rightarrow> Inl (ThrownError (with_cause
          (new_error DecryptionError (''Failed to decrypt block: '' @ getErrorMessage error)) error))
      | Inr block \<Rightarrow> Inr block)"

text \<open>The content author: its email, \<open>None\<close> for an anonymous user, or the claim that was not verified.\<close>

datatype content_author = VerifiedAuthor "string option" | UnverifiedAuthor "string option"

fun author_email :: "content_author \<Rightarrow> string option" where
  "author_email (VerifiedAuthor email) = email"
| "author_email (UnverifiedAuthor claimedAuthor) = claimedAuthor"

definition getRevisionVerificationKeys :: "'key download_crypto \<Rightarrow> content_author \<Rightarrow> 'key \<Rightarrow> thrown + 'key list" where
  "getRevisionVerificationKeys cr author nodeKey =
     (case present (author_email author) of
        Some email \<Rightarrow> cr_getPublicKeys cr email
      | None \<Rightarrow> Inr [nodeKey])"

definition verifyManifest ::
  "'key download_crypto \<Rightarrow> content_author \<Rightarrow> 'key \<Rightarrow> bytes list \<Rightarrow> string option \<Rightarrow> thrown + unit"
where
  "verifyManifest cr author nodeKey allBlockHashes armoredManifestSignature =
     (case present armoredManifestSignature of
        None \<Rightarrow> Inl (throw_new IntegrityError ''Missing integrity signature'')
      | Some signature \<Rightarrow>
          (case getRevisionVerificationKeys cr author nodeKey of
             Inl error \<Rightarrow> Inl (ThrownError (with_cause
               (new_error SignatureVerificationError ''Failed to get verification keys'') error))
           | Inr verificationKeys \<Rightarrow>
               try_bind (cr_verifyManifest cr (concat allBlockHashes) signature verificationKeys) (\<lambda>verified.
                 if verified \<noteq> SIGNED_AND_VALID
                 then Inl (throw_new SignatureVerificationError ''Data integrity check failed'')
                 else Inr ())))"

section \<open>One block\<close>

text \<open>An attempt: the progress callbacks it makes, and the encrypted bytes or the error.\<close>

record attempt =
  at_progress :: "nat list"
  at_result :: "thrown + bytes"

definition attempt_block ::
  "'key download_crypto \<Rightarrow> bool \<Rightarrow> block_metadata \<Rightarrow> attempt \<Rightarrow> thrown + bytes"
where
  "attempt_block cr ignoreIntegrityErrors blockMetadata a =
     try_bind (at_result a) (\<lambda>encryptedBlock.
       try_bind (if ignoreIntegrityErrors then Inr ()
                 else verifyBlockIntegrity cr encryptedBlock (bm_base64sha256Hash blockMetadata)) (\<lambda>_.
         decryptBlock cr encryptedBlock))"

definition token_expired :: "thrown \<Rightarrow> bool" where
  "token_expired error \<longleftrightarrow>
     (case error of ThrownError e \<Rightarrow> instanceof error APIHTTPError \<and> err_statusCode e = Some 404
                  | ThrownValue _ \<Rightarrow> False)"

text \<open>
  \<open>downloadBlockData\<close>: the \<open>k\<close>-th attempt of the loop, with what it reports to \<open>onProgress\<close>. A
  failed attempt takes back its own progress, an abort excepted.
\<close>

fun downloadBlockData ::
  "'key download_crypto \<Rightarrow> bool \<Rightarrow> (nat \<Rightarrow> block_metadata \<Rightarrow> attempt) \<Rightarrow> (nat \<Rightarrow> thrown + block_metadata)
     \<Rightarrow> (nat \<Rightarrow> bool) \<Rightarrow> nat \<Rightarrow> nat \<Rightarrow> nat \<Rightarrow> block_metadata
     \<Rightarrow> ((thrown + bytes) \<times> int list) option"
where
  "downloadBlockData cr ign attempts token aborted 0 k retries blockMetadata = None"
| "downloadBlockData cr ign attempts token aborted (Suc fuel) k retries blockMetadata =
     (let a = attempts k blockMetadata;
          progress = map int (at_progress a);
          again = (\<lambda>retries blockMetadata.
             map_option (\<lambda>(r, ps). (r, progress @ (if sum_list progress \<noteq> 0 then [- sum_list progress] else []) @ ps))
               (downloadBlockData cr ign attempts token aborted fuel (k + 1) retries blockMetadata));
          stop = (\<lambda>error. Some (Inl error, progress @ (if sum_list progress \<noteq> 0 then [- sum_list progress] else [])))
      in case attempt_block cr ign blockMetadata a of
           Inr decryptedBlock \<Rightarrow> Some (Inr decryptedBlock, progress)
         | Inl error \<Rightarrow>
             if aborted k then Some (Inl (throw_new AbortError ''Operation aborted''), progress)
             else if token_expired error
             then (case token k of
                     Inl error' \<Rightarrow> stop error'
                   | Inr blockMetadata' \<Rightarrow> again retries blockMetadata')
             else if retries = 0 then again 1 blockMetadata
             else stop error)"

declare downloadBlockData.simps(2) [simp del]

lemma block_data_cases:
  assumes "downloadBlockData cr ign attempts token aborted (Suc fuel) k retries m = Some (r, ps)"
  obtains d where "attempt_block cr ign m (attempts k m) = Inr d" "r = Inr d" "ps = map int (at_progress (attempts k m))"
  | e where "attempt_block cr ign m (attempts k m) = Inl e" "\<exists>e'. r = Inl e'" "aborted k \<or> sum_list ps = 0"
  | e retries' m' ps' where "attempt_block cr ign m (attempts k m) = Inl e" "m' = m \<or> token k = Inr m'"
      "downloadBlockData cr ign attempts token aborted fuel (k + 1) retries' m' = Some (r, ps')"
      "sum_list ps = sum_list ps'"
proof -
  note again = that(3)
  define progress where "progress = map int (at_progress (attempts k m))"
  define undo where "undo = (if sum_list progress \<noteq> 0 then [- sum_list progress] else [])"
  have undone: "sum_list (progress @ undo @ qs) = sum_list qs" for qs
    by (simp add: undo_def)
  note run = assms [unfolded downloadBlockData.simps(2) Let_def, folded progress_def, folded undo_def]
  show thesis
  proof (cases "attempt_block cr ign m (attempts k m)")
    case (Inr d)
    with run have "r = Inr d \<and> ps = progress" by simp
    with that(1) [OF Inr] show thesis unfolding progress_def by blast
  next
    case (Inl e)
    have retry: thesis
      if "downloadBlockData cr ign attempts token aborted fuel (k + 1) retries' m' = Some (r, qs)"
        "ps = progress @ undo @ qs" "m' = m \<or> token k = Inr m'" for retries' m' qs
      using again [OF Inl that(3) that(1)] undone that(2) by simp
    show thesis
    proof (cases "aborted k")
      case True
      with run Inl have "\<exists>e'. r = Inl e'" by auto
      with that(2) [OF Inl] True show thesis by blast
    next
      case False
      then consider e' where "token_expired e" "token k = Inl e'" | m' where "token_expired e" "token k = Inr m'"
        | "\<not> token_expired e" by (cases "token k") blast+
      then show thesis
      proof cases
        case 1
        with run Inl False have "r = Inl e' \<and> ps = progress @ undo" by auto
        with that(2) [OF Inl] undone [of "[]"] show thesis by auto
      next
        case 2
        with run Inl False obtain qs where
          "downloadBlockData cr ign attempts token aborted fuel (k + 1) retries m' = Some (r, qs)" "ps = progress @ undo @ qs"
          by (auto simp: map_option_case split: option.splits)
        with retry 2(2) show thesis by blast
      next
        case 3
        show thesis
        proof (cases "retries = 0")
          case True
          with run Inl False 3 obtain qs where
            "downloadBlockData cr ign attempts token aborted fuel (k + 1) 1 m = Some (r, qs)" "ps = progress @ undo @ qs"
            by (auto simp: map_option_case split: option.splits)
          with retry show thesis by blast
        next
          assume "retries \<noteq> 0"
          with run Inl False 3 have "r = Inl e \<and> ps = progress @ undo" by auto
          with that(2) [OF Inl] undone [of "[]"] show thesis by auto
        qed
      qed
    qed
  qed
qed

lemma block_data_success:
  "downloadBlockData cr ign attempts token aborted fuel k retries m = Some (Inr d, ps) \<Longrightarrow>
     \<exists>j m'. k \<le> j \<and> (m' = m \<or> (\<exists>i. token i = Inr m')) \<and> attempt_block cr ign m' (attempts j m') = Inr d
        \<and> sum_list ps = int (sum_list (at_progress (attempts j m')))"
proof (induction fuel arbitrary: k retries m ps)
  case (Suc fuel)
  from Suc.prems show ?case
  proof (cases rule: block_data_cases)
    case (1 d')
    have "sum_list (map int xs) = int (sum_list xs)" for xs by (induction xs) auto
    with 1 show ?thesis by (intro exI [of _ k] exI [of _ m]) auto
  next
    case (3 e retries' m' ps')
    then obtain j m'' where "k + 1 \<le> j" "m'' = m' \<or> (\<exists>i. token i = Inr m'')"
      "attempt_block cr ign m'' (attempts j m'') = Inr d" "sum_list ps' = int (sum_list (at_progress (attempts j m'')))"
      using Suc.IH [OF 3(3)] by blast
    with 3(2,4) show ?thesis by (intro exI [of _ j] exI [of _ m'']) auto
  qed auto
qed simp

lemma attempt_block_Inr:
  "attempt_block cr ign m a = Inr d \<longleftrightarrow>
     (\<exists>enc. at_result a = Inr enc \<and> (ign \<or> cr_sha256_base64 cr enc = bm_base64sha256Hash m) \<and> cr_decrypt cr enc = Inr d)"
  by (cases "at_result a") (auto simp: attempt_block_def verifyBlockIntegrity_def decryptBlock_def split: sum.splits)

lemma block_data_ends:
  "\<forall>j \<ge> k. \<forall>m. case attempt_block cr ign m (attempts j m) of Inl e \<Rightarrow> \<not> token_expired e | Inr _ \<Rightarrow> True \<Longrightarrow>
     2 \<le> fuel + retries \<Longrightarrow> 0 < fuel \<Longrightarrow> retries \<le> 1 \<Longrightarrow>
     downloadBlockData cr ign attempts token aborted fuel k retries m \<noteq> None"
proof (induction fuel arbitrary: k retries m)
  case (Suc fuel)
  show ?case
  proof (cases "attempt_block cr ign m (attempts k m)")
    case (Inl e)
    with Suc.prems(1) have "\<not> token_expired e" by (auto dest!: spec [of _ k] spec [of _ m])
    moreover have "retries = 0 \<Longrightarrow> downloadBlockData cr ign attempts token aborted fuel (k + 1) 1 m \<noteq> None"
      using Suc.IH [of "k + 1" 1 m] Suc.prems by auto
    ultimately show ?thesis
      using Inl by (subst downloadBlockData.simps(2)) (auto simp: Let_def)
  qed (subst downloadBlockData.simps(2), simp add: Let_def)
qed simp

lemma block_data_skips_expired:
  "(\<And>k' m'. k + n \<le> k' \<Longrightarrow> downloadBlockData cr ign attempts token aborted (Suc (Suc fuel)) k' 0 m' \<noteq> None
       \<and> downloadBlockData cr ign attempts token aborted (Suc (Suc fuel)) k' 1 m' \<noteq> None) \<Longrightarrow> retries \<le> 1 \<Longrightarrow>
     downloadBlockData cr ign attempts token aborted (n + Suc (Suc fuel)) k retries m \<noteq> None"
proof (induction n arbitrary: k retries m)
  case 0
  then show ?case by (cases retries) auto
next
  case (Suc n)
  have "downloadBlockData cr ign attempts token aborted (n + Suc (Suc fuel)) (k + 1) r m' \<noteq> None" if "r \<le> 1" for r m'
    using Suc.IH [of "k + 1" r m'] Suc.prems(1) that by auto
  with Suc.prems(2) show ?case
    by (subst add_Suc, subst downloadBlockData.simps(2)) (auto simp: Let_def split: sum.split)
qed

text \<open>
  A block download returns once tokens stop expiring, after at most one retry of any other
  failure. What it returns is the decryption of bytes some attempt received, and unless integrity
  is ignored their hash is the one the block's metadata, or the metadata fetched for an expired
  token, names. The progress reported adds up to that attempt alone.
\<close>

theorem block_data_is_verified:
  assumes "\<forall>k \<ge> n. \<forall>m. case attempt_block cr ign m (attempts k m) of Inl e \<Rightarrow> \<not> token_expired e | Inr _ \<Rightarrow> True"
  shows "\<exists>r progress. downloadBlockData cr ign attempts token aborted (n + 2) 0 0 blockMetadata = Some (r, progress)
     \<and> (\<forall>data. r = Inr data \<longrightarrow>
          (\<exists>k m encrypted. (m = blockMetadata \<or> (\<exists>i. token i = Inr m))
             \<and> at_result (attempts k m) = Inr encrypted \<and> cr_decrypt cr encrypted = Inr data
             \<and> (ign \<or> cr_sha256_base64 cr encrypted = bm_base64sha256Hash m)
             \<and> sum_list progress = int (sum_list (at_progress (attempts k m)))))"
proof -
  have "downloadBlockData cr ign attempts token aborted (Suc (Suc 0)) k 0 m \<noteq> None
      \<and> downloadBlockData cr ign attempts token aborted (Suc (Suc 0)) k 1 m \<noteq> None" if "0 + n \<le> k" for k m
    using that assms block_data_ends [of k cr ign attempts "Suc (Suc 0)" 0 token aborted m]
      block_data_ends [of k cr ign attempts "Suc (Suc 0)" 1 token aborted m] by simp
  then have "downloadBlockData cr ign attempts token aborted (n + Suc (Suc 0)) 0 0 blockMetadata \<noteq> None"
    by (rule block_data_skips_expired) simp_all
  then obtain r progress where run: "downloadBlockData cr ign attempts token aborted (n + 2) 0 0 blockMetadata = Some (r, progress)"
    by (auto simp: numeral_2_eq_2)
  show ?thesis
  proof (rule exI [of _ r], rule exI [of _ progress], intro conjI allI impI)
    show "downloadBlockData cr ign attempts token aborted (n + 2) 0 0 blockMetadata = Some (r, progress)" by (rule run)
    fix data assume "r = Inr data"
    with run obtain k m where "m = blockMetadata \<or> (\<exists>i. token i = Inr m)"
      "attempt_block cr ign m (attempts k m) = Inr data" "sum_list progress = int (sum_list (at_progress (attempts k m)))"
      using block_data_success by metis
    then show "\<exists>k m encrypted. (m = blockMetadata \<or> (\<exists>i. token i = Inr m))
        \<and> at_result (attempts k m) = Inr encrypted \<and> cr_decrypt cr encrypted = Inr data
        \<and> (ign \<or> cr_sha256_base64 cr encrypted = bm_base64sha256Hash m)
        \<and> sum_list progress = int (sum_list (at_progress (attempts k m)))"
      unfolding attempt_block_Inr by blast
  qed
qed

text \<open>
  An instance: hashing is the text of the first byte, the first token has expired, and the block
  the server then names is another one.
\<close>

definition example_crypto :: "nat download_crypto" where
  "example_crypto = \<lparr>cr_sha256_base64 = (\<lambda>b. if b = [7] then ''h7'' else ''h0''), cr_decrypt = Inr, cr_fromBase64 = (\<lambda>h. if h = ''h7'' then [7] else [0]),
     cr_getPublicKeys = (\<lambda>_. Inr [1]), cr_verifyManifest = (\<lambda>_ _ _. Inr SIGNED_AND_VALID)\<rparr>"

definition example_block :: "nat \<Rightarrow> string \<Rightarrow> block_metadata" where
  "example_block i h = \<lparr>bm_index = i, bm_bareUrl = [], bm_token = [], bm_base64sha256Hash = h, bm_signatureEmail = None\<rparr>"

definition example_attempts :: "nat \<Rightarrow> block_metadata \<Rightarrow> attempt" where
  "example_attempts k m =
     (if k = 0 then \<lparr>at_progress = [1, 2], at_result = Inl (ThrownError (Js_Error APIHTTPError ''x'' ''x'' None (Some 404) None None))\<rparr>
      else \<lparr>at_progress = [1], at_result = Inr [7]\<rparr>)"

lemma example_attempt_block:
  "attempt_block example_crypto ign m (example_attempts 0 m')
     = Inl (ThrownError (Js_Error APIHTTPError ''x'' ''x'' None (Some 404) None None))"
  "k \<noteq> 0 \<Longrightarrow> attempt_block example_crypto ign m (example_attempts k m')
     = (if ign \<or> bm_base64sha256Hash m = ''h7'' then Inr [7]
        else Inl (throw_new IntegrityError ''Data integrity check of one part failed''))"
  by (auto simp: attempt_block_def example_attempts_def example_crypto_def verifyBlockIntegrity_def decryptBlock_def)

theorem block_data_is_verified_witness:
  "\<exists>r progress. downloadBlockData example_crypto False example_attempts (\<lambda>_. Inr (example_block 1 ''h7'')) (\<lambda>_. False)
     (1 + 2) 0 0 (example_block 1 ''h0'') = Some (r, progress)"
proof -
  have "\<forall>k \<ge> 1. \<forall>m. case attempt_block example_crypto False m (example_attempts k m) of
      Inl e \<Rightarrow> \<not> token_expired e | Inr _ \<Rightarrow> True"
    by (simp add: example_attempt_block token_expired_def throw_new_def new_error_def)
  from block_data_is_verified [OF this, of "\<lambda>_. Inr (example_block 1 ''h7'')" "\<lambda>_. False" "example_block 1 ''h0''"]
  show ?thesis by blast
qed

text \<open>
  The hash that is checked after a token expired is the one the server sent with the new
  token. The blocks' hashes the manifest signs are collected from the listing, so a block whose
  bytes do not have the signed hash passes both checks.
\<close>

theorem refreshed_token_replaces_signed_hash:
  "\<exists>(cr :: nat download_crypto) attempts token m encrypted.
     at_result (attempts 1 m) = Inr encrypted
     \<and> verifyManifest cr (VerifiedAuthor (Some ''a'')) 0 [cr_fromBase64 cr (bm_base64sha256Hash m)] (Some ''signature'') = Inr ()
     \<and> cr_sha256_base64 cr encrypted \<noteq> bm_base64sha256Hash m
     \<and> downloadBlockData cr False attempts token (\<lambda>_. False) 2 0 0 m = Some (Inr encrypted, [1, 2, - 3, 1])"
proof (intro exI conjI)
  let ?token = "\<lambda>_. Inr (example_block 1 ''h7'')"
  let ?m = "example_block 1 ''h0''"
  show "at_result (example_attempts 1 ?m) = Inr [7]" by (simp add: example_attempts_def)
  show "verifyManifest example_crypto (VerifiedAuthor (Some ''a'')) 0
      [cr_fromBase64 example_crypto (bm_base64sha256Hash ?m)] (Some ''signature'') = Inr ()"
    by (simp add: verifyManifest_def getRevisionVerificationKeys_def example_crypto_def present_def)
  show "cr_sha256_base64 example_crypto [7] \<noteq> bm_base64sha256Hash ?m"
    by (simp add: example_crypto_def example_block_def)
  have "token_expired (ThrownError (Js_Error APIHTTPError ''x'' ''x'' None (Some 404) None None))"
    by (simp add: token_expired_def)
  then show "downloadBlockData example_crypto False example_attempts ?token (\<lambda>_. False) 2 0 0 ?m = Some (Inr [7], [1, 2, - 3, 1])"
    unfolding numeral_2_eq_2 downloadBlockData.simps(2) Let_def example_attempt_block
    by (simp add: example_attempt_block example_block_def) (simp add: example_attempts_def)
qed

section \<open>The in-order writer\<close>

definition MAX_DOWNLOAD_BLOCK_SIZE :: nat where "MAX_DOWNLOAD_BLOCK_SIZE = 10"

text \<open>What a download is given. \<open>de_block m r\<close>: the download of block \<open>m\<close> may end with \<open>r\<close>.\<close>

record 'key dl_env =
  de_crypto :: "'key download_crypto"
  de_author :: content_author
  de_nodeKey :: 'key
  de_ignoreIntegrityErrors :: bool
  de_ignoreManifestVerification :: bool
  de_block :: "block_metadata \<Rightarrow> thrown + bytes \<Rightarrow> bool"

datatype promise_state = Running | Fulfilled | Rejected thrown

datatype dl_phase =
    DlKeys | DlIterate | DlWaitPaused block_metadata | DlWaitCapacity | DlFlush bool | DlAwaitAll | DlFinish
  | DlDone | DlThrew thrown

text \<open>
  The state of a \<open>FileDownloader\<close> in \<open>internalDownloadToStream\<close>. \<open>dl_promises\<close> are the block
  downloads started so far. \<open>ongoingDownloads\<close> is a \<open>Map\<close> from the block's index to its promise, by
  number, and the decrypted block once there is one.
\<close>

record dl_state =
  dl_phase :: dl_phase
  dl_source :: "block_item list"
  dl_source_end :: "thrown option"
  dl_allBlockHashes :: "bytes list"
  dl_armoredManifestSignature :: "string option"
  dl_nextBlockIndex :: nat
  dl_promises :: "(block_metadata \<times> promise_state) list"
  dl_ongoingDownloads :: "(nat \<times> nat \<times> bytes option) list"
  dl_written :: "bytes list"
  dl_paused :: bool
  dl_aborted :: bool
  dl_signatureIssues :: bool
  dl_finishCalls :: nat

definition dl_init :: "block_item list \<Rightarrow> thrown option \<Rightarrow> dl_state" where
  "dl_init items end =
     \<lparr>dl_phase = DlKeys, dl_source = items, dl_source_end = end, dl_allBlockHashes = [], dl_armoredManifestSignature = None,
      dl_nextBlockIndex = 1, dl_promises = [], dl_ongoingDownloads = [], dl_written = [], dl_paused = False,
      dl_aborted = False, dl_signatureIssues = False, dl_finishCalls = 0\<rparr>"

definition isNextBlockDownloaded :: "dl_state \<Rightarrow> bool" where
  "isNextBlockDownloaded s \<longleftrightarrow>
     (case map_of (dl_ongoingDownloads s) (dl_nextBlockIndex s) of Some (_, Some _) \<Rightarrow> True | _ \<Rightarrow> False)"

definition ongoingDownloadPromises :: "dl_state \<Rightarrow> nat list" where
  "ongoingDownloadPromises s = map (fst \<circ> snd) (filter (\<lambda>(_, _, block). block = None) (dl_ongoingDownloads s))"

text \<open>The \<open>catch\<close> and the \<open>finally\<close> of \<open>internalDownloadToStream\<close>.\<close>

definition dl_catch :: "thrown \<Rightarrow> dl_state \<Rightarrow> dl_state" where
  "dl_catch error s =
     (case error of
        ThrownError e \<Rightarrow>
          if instanceof error SignatureVerificationError
          then s\<lparr>dl_phase := DlThrew (ThrownError (with_cause (new_error IntegrityError (err_message e)) error)),
                 dl_signatureIssues := True, dl_finishCalls := dl_finishCalls s + 1\<rparr>
          else s\<lparr>dl_phase := DlThrew error, dl_finishCalls := dl_finishCalls s + 1\<rparr>
      | ThrownValue _ \<Rightarrow> s\<lparr>dl_phase := DlThrew error, dl_finishCalls := dl_finishCalls s + 1\<rparr>)"

text \<open>A block's promise settles: \<open>downloadBlock\<close> puts the data into the entry its index now has.\<close>

definition dl_settle :: "nat \<Rightarrow> thrown + bytes \<Rightarrow> dl_state \<Rightarrow> dl_state" where
  "dl_settle i r s =
     (let m = fst (dl_promises s ! i)
      in case r of
           Inl error \<Rightarrow> s\<lparr>dl_promises := (dl_promises s)[i := (m, Rejected error)]\<rparr>
         | Inr blockData \<Rightarrow>
             (case map_of (dl_ongoingDownloads s) (bm_index m) of
                Some (p, _) \<Rightarrow>
                  s\<lparr>dl_ongoingDownloads := AList.update (bm_index m) (p, Some blockData) (dl_ongoingDownloads s),
                    dl_promises := (dl_promises s)[i := (m, Fulfilled)]\<rparr>
              | None \<Rightarrow>
                  s\<lparr>dl_promises := (dl_promises s)[i :=
                      (m, Rejected (throw_new JsTypeError ''Cannot set properties of undefined''))]\<rparr>))"

text \<open>The loop body up to \<open>waitWhilePaused\<close>, and what follows it up to \<open>waitForDownloadCapacity\<close>.\<close>

definition dl_receive :: "'key dl_env \<Rightarrow> block_item \<Rightarrow> dl_state \<Rightarrow> dl_state" where
  "dl_receive env item s =
     (let s = s\<lparr>dl_source := tl (dl_source s)\<rparr>
      in case item of
           ManifestSignature signature \<Rightarrow> s\<lparr>dl_armoredManifestSignature := signature\<rparr>
         | ThumbnailHash h \<Rightarrow> s\<lparr>dl_allBlockHashes := dl_allBlockHashes s @ [cr_fromBase64 (de_crypto env) h]\<rparr>
         | BlockItem m \<Rightarrow>
             s\<lparr>dl_allBlockHashes := dl_allBlockHashes s @ [cr_fromBase64 (de_crypto env) (bm_base64sha256Hash m)],
               dl_phase := DlWaitPaused m\<rparr>)"

definition dl_start :: "block_metadata \<Rightarrow> dl_state \<Rightarrow> dl_state" where
  "dl_start m s =
     s\<lparr>dl_promises := dl_promises s @ [(m, Running)],
       dl_ongoingDownloads := AList.update (bm_index m) (length (dl_promises s), None) (dl_ongoingDownloads s),
       dl_phase := DlWaitCapacity\<rparr>"

text \<open>One block flushed, and the end of the run.\<close>

definition dl_flush :: "dl_state \<Rightarrow> dl_state" where
  "dl_flush s =
     (case map_of (dl_ongoingDownloads s) (dl_nextBlockIndex s) of
        Some (_, Some decryptedBlock) \<Rightarrow>
          s\<lparr>dl_written := dl_written s @ [decryptedBlock],
            dl_ongoingDownloads := AList.delete (dl_nextBlockIndex s) (dl_ongoingDownloads s),
            dl_nextBlockIndex := dl_nextBlockIndex s + 1\<rparr>
      | _ \<Rightarrow> s)"

definition dl_finish :: "'key dl_env \<Rightarrow> dl_state \<Rightarrow> dl_state" where
  "dl_finish env s =
     (let s' = s\<lparr>dl_phase := DlDone, dl_finishCalls := dl_finishCalls s + 1\<rparr>
      in if dl_ongoingDownloads s \<noteq> []
         then dl_catch (throw_new JsError ''Some blocks were not downloaded'') s
         else if de_ignoreIntegrityErrors env \<or> de_ignoreManifestVerification env then s'
         else case verifyManifest (de_crypto env) (de_author env) (de_nodeKey env) (dl_allBlockHashes s)
                     (dl_armoredManifestSignature s) of
                Inl error \<Rightarrow> dl_catch error s
              | Inr _ \<Rightarrow> s')"

text \<open>
  The steps. A step of the loop is what happens between two of its suspension points; between
  any two of them a promise may settle and the client may pause, resume or abort.
\<close>

inductive dl_step :: "'key dl_env \<Rightarrow> dl_state \<Rightarrow> dl_state \<Rightarrow> bool" for env where
  keys_ok: "dl_phase s = DlKeys \<Longrightarrow> dl_step env s (s\<lparr>dl_phase := DlIterate\<rparr>)"
| keys_fail: "dl_phase s = DlKeys \<Longrightarrow> dl_step env s (s\<lparr>dl_phase := DlThrew error\<rparr>)"
| receive: "dl_phase s = DlIterate \<Longrightarrow> dl_source s = item # rest \<Longrightarrow> dl_step env s (dl_receive env item s)"
| source_fail: "dl_phase s = DlIterate \<Longrightarrow> dl_source s = [] \<Longrightarrow> dl_source_end s = Some error \<Longrightarrow>
    dl_step env s (dl_catch error s)"
| source_end: "dl_phase s = DlIterate \<Longrightarrow> dl_source s = [] \<Longrightarrow> dl_source_end s = None \<Longrightarrow>
    dl_step env s (s\<lparr>dl_phase := DlAwaitAll\<rparr>)"
| start: "dl_phase s = DlWaitPaused m \<Longrightarrow> \<not> dl_paused s \<or> dl_aborted s \<Longrightarrow> dl_step env s (dl_start m s)"
| capacity_ok: "dl_phase s = DlWaitCapacity \<Longrightarrow>
    length (dl_ongoingDownloads s) < MAX_DOWNLOAD_BLOCK_SIZE \<or> isNextBlockDownloaded s \<or> ongoingDownloadPromises s = [] \<Longrightarrow>
    dl_step env s (s\<lparr>dl_phase := DlFlush False\<rparr>)"
| capacity_fail: "dl_phase s = DlWaitCapacity \<Longrightarrow> MAX_DOWNLOAD_BLOCK_SIZE \<le> length (dl_ongoingDownloads s) \<Longrightarrow>
    \<not> isNextBlockDownloaded s \<Longrightarrow> p \<in> set (ongoingDownloadPromises s) \<Longrightarrow> p < length (dl_promises s) \<Longrightarrow>
    snd (dl_promises s ! p) = Rejected error \<Longrightarrow> dl_step env s (dl_catch error s)"
| flush_block: "dl_phase s = DlFlush final \<Longrightarrow> isNextBlockDownloaded s \<Longrightarrow> dl_step env s (dl_flush s)"
| flush_fail: "dl_phase s = DlFlush final \<Longrightarrow> isNextBlockDownloaded s \<Longrightarrow> dl_step env s (dl_catch error s)"
| flush_end: "dl_phase s = DlFlush final \<Longrightarrow> \<not> isNextBlockDownloaded s \<Longrightarrow>
    dl_step env s (s\<lparr>dl_phase := (if final then DlFinish else DlIterate)\<rparr>)"
| all_ok: "dl_phase s = DlAwaitAll \<Longrightarrow>
    \<forall>(k, p, b) \<in> set (dl_ongoingDownloads s). p < length (dl_promises s) \<and> snd (dl_promises s ! p) = Fulfilled \<Longrightarrow>
    dl_step env s (s\<lparr>dl_phase := DlFlush True\<rparr>)"
| all_fail: "dl_phase s = DlAwaitAll \<Longrightarrow> (k, p, b) \<in> set (dl_ongoingDownloads s) \<Longrightarrow> p < length (dl_promises s) \<Longrightarrow>
    snd (dl_promises s ! p) = Rejected error \<Longrightarrow> dl_step env s (dl_catch error s)"
| finish: "dl_phase s = DlFinish \<Longrightarrow> dl_step env s (dl_finish env s)"
| settle: "i < length (dl_promises s) \<Longrightarrow> dl_promises s ! i = (m, Running) \<Longrightarrow> de_block env m r \<Longrightarrow>
    dl_step env s (dl_settle i r s)"
| pause: "dl_step env s (s\<lparr>dl_paused := True\<rparr>)"
| resume: "dl_step env s (s\<lparr>dl_paused := False\<rparr>)"
| abort: "dl_step env s (s\<lparr>dl_aborted := True\<rparr>)"

inductive dl_reach :: "'key dl_env \<Rightarrow> dl_state \<Rightarrow> dl_state \<Rightarrow> bool" for env s0 where
  dl_reach_refl: "dl_reach env s0 s0"
| dl_reach_step: "dl_reach env s0 s \<Longrightarrow> dl_step env s s' \<Longrightarrow> dl_reach env s0 s'"

text \<open>What the listing says: its blocks, the hashes of its blocks and thumbnails, and its signature.\<close>

fun listed_blocks :: "block_item list \<Rightarrow> block_metadata list" where
  "listed_blocks [] = []"
| "listed_blocks (BlockItem m # items) = m # listed_blocks items"
| "listed_blocks (ManifestSignature signature # items) = listed_blocks items"
| "listed_blocks (ThumbnailHash h # items) = listed_blocks items"

fun listed_hashes :: "block_item list \<Rightarrow> string list" where
  "listed_hashes [] = []"
| "listed_hashes (BlockItem m # items) = bm_base64sha256Hash m # listed_hashes items"
| "listed_hashes (ManifestSignature signature # items) = listed_hashes items"
| "listed_hashes (ThumbnailHash h # items) = h # listed_hashes items"

fun listed_signature :: "string option \<Rightarrow> block_item list \<Rightarrow> string option" where
  "listed_signature signature [] = signature"
| "listed_signature signature (ManifestSignature signature' # items) = listed_signature signature' items"
| "listed_signature signature (BlockItem m # items) = listed_signature signature items"
| "listed_signature signature (ThumbnailHash h # items) = listed_signature signature items"

text \<open>
  The invariant of a download that has not thrown: what was received is a prefix of the listing,
  every block received was started once, the entries and the blocks written are what became of
  the started ones, and with blocks listed from index 1 on no more than ten are kept.
\<close>

definition waiting_block :: "dl_phase \<Rightarrow> block_metadata list" where
  "waiting_block ph = (case ph of DlWaitPaused m \<Rightarrow> [m] | _ \<Rightarrow> [])"

definition started :: "dl_state \<Rightarrow> block_metadata list" where
  "started s = map fst (dl_promises s)"

definition entry_ok :: "'key dl_env \<Rightarrow> dl_state \<Rightarrow> nat \<Rightarrow> nat \<times> bytes option \<Rightarrow> bool" where
  "entry_ok env s k e \<longleftrightarrow>
     fst e < length (dl_promises s) \<and> bm_index (fst (dl_promises s ! fst e)) = k
     \<and> (case snd e of
          Some block \<Rightarrow> snd (dl_promises s ! fst e) = Fulfilled \<and> de_block env (fst (dl_promises s ! fst e)) (Inr block)
        | None \<Rightarrow> snd (dl_promises s ! fst e) \<noteq> Fulfilled)"

definition dl_received :: "'key dl_env \<Rightarrow> block_item list \<Rightarrow> dl_state \<Rightarrow> bool" where
  "dl_received env items s \<longleftrightarrow>
     (\<exists>received. items = received @ dl_source s
        \<and> dl_allBlockHashes s = map (cr_fromBase64 (de_crypto env)) (listed_hashes received)
        \<and> dl_armoredManifestSignature s = listed_signature None received
        \<and> listed_blocks received = started s @ waiting_block (dl_phase s))"

definition dl_entries :: "'key dl_env \<Rightarrow> dl_state \<Rightarrow> bool" where
  "dl_entries env s \<longleftrightarrow>
     distinct (map fst (dl_ongoingDownloads s))
     \<and> (\<forall>k e. map_of (dl_ongoingDownloads s) k = Some e \<longrightarrow> entry_ok env s k e \<and> k \<notin> {1..<dl_nextBlockIndex s})
     \<and> (\<forall>i < length (dl_promises s). snd (dl_promises s ! i) \<noteq> Fulfilled \<longrightarrow>
          map_of (dl_ongoingDownloads s) (bm_index (fst (dl_promises s ! i))) = Some (i, None))
     \<and> 1 \<le> dl_nextBlockIndex s \<and> length (dl_written s) = dl_nextBlockIndex s - 1
     \<and> bm_index ` set (started s) = dom (map_of (dl_ongoingDownloads s)) \<union> {1..<dl_nextBlockIndex s}
     \<and> (\<forall>i < length (dl_written s). \<exists>m \<in> set (started s). bm_index m = i + 1 \<and> de_block env m (Inr (dl_written s ! i)))"

definition dl_phase_ok :: "'key dl_env \<Rightarrow> block_item list \<Rightarrow> dl_state \<Rightarrow> bool" where
  "dl_phase_ok env items s \<longleftrightarrow>
     (dl_phase s = DlKeys \<longrightarrow> dl_promises s = [])
     \<and> (dl_phase s \<in> {DlAwaitAll, DlFlush True, DlFinish, DlDone} \<longrightarrow> dl_source s = [] \<and> dl_source_end s = None)
     \<and> (dl_phase s = DlDone \<longrightarrow> dl_ongoingDownloads s = []
          \<and> (de_ignoreIntegrityErrors env \<or> de_ignoreManifestVerification env
             \<or> verifyManifest (de_crypto env) (de_author env) (de_nodeKey env) (dl_allBlockHashes s)
                 (dl_armoredManifestSignature s) = Inr ()))"

definition dl_threw :: "dl_state \<Rightarrow> bool" where
  "dl_threw s \<longleftrightarrow> (case dl_phase s of DlThrew e \<Rightarrow> True | _ \<Rightarrow> False)"

definition dl_inv :: "'key dl_env \<Rightarrow> block_item list \<Rightarrow> dl_state \<Rightarrow> bool" where
  "dl_inv env items s \<longleftrightarrow> dl_threw s \<or> dl_received env items s \<and> dl_entries env s \<and> dl_phase_ok env items s"

lemma dl_catch_threw [simp]: "dl_threw (dl_catch error s)"
  by (auto simp: dl_catch_def dl_threw_def split: thrown.split)

lemma dl_threw_update [simp]: "dl_threw (s\<lparr>dl_phase := DlThrew error\<rparr>)"
  by (simp add: dl_threw_def)

lemma listed_append [simp]:
  "listed_blocks (xs @ ys) = listed_blocks xs @ listed_blocks ys"
  "listed_hashes (xs @ ys) = listed_hashes xs @ listed_hashes ys"
  "listed_signature sig (xs @ ys) = listed_signature (listed_signature sig xs) ys"
  by (induction xs arbitrary: sig rule: listed_blocks.induct) simp_all

lemma isNextBlockDownloaded_iff:
  "isNextBlockDownloaded s \<longleftrightarrow> (\<exists>p b. map_of (dl_ongoingDownloads s) (dl_nextBlockIndex s) = Some (p, Some b))"
  by (auto simp: isNextBlockDownloaded_def split: option.splits)

lemma dl_entries_same:
  "dl_ongoingDownloads s' = dl_ongoingDownloads s \<Longrightarrow> dl_promises s' = dl_promises s \<Longrightarrow>
   dl_nextBlockIndex s' = dl_nextBlockIndex s \<Longrightarrow> dl_written s' = dl_written s \<Longrightarrow> dl_entries env s' = dl_entries env s"
  by (simp only: dl_entries_def entry_ok_def started_def)

lemma dl_entries_init: "dl_entries env (dl_init items end)"
  by (simp add: dl_entries_def dl_init_def started_def)

lemma dl_entries_start:
  assumes "dl_entries env s" "bm_index m \<notin> bm_index ` set (started s)"
  shows "dl_entries env (dl_start m s)"
proof -
  let ?n = "length (dl_promises s)"
  from assms have fresh: "map_of (dl_ongoingDownloads s) (bm_index m) = None" "bm_index m \<notin> {1..<dl_nextBlockIndex s}"
    by (auto simp: dl_entries_def)
  have other: "bm_index (fst (dl_promises s ! i)) \<noteq> bm_index m" if "i < ?n" for i
  proof -
    have "fst (dl_promises s ! i) \<in> set (started s)" using that by (simp add: started_def)
    with assms(2) show ?thesis by (metis imageI)
  qed
  show ?thesis
    unfolding dl_entries_def
  proof (intro conjI allI impI)
    show "distinct (map fst (dl_ongoingDownloads (dl_start m s)))"
      using assms(1) by (simp add: dl_start_def dl_entries_def distinct_update)
    show "1 \<le> dl_nextBlockIndex (dl_start m s)"
      "length (dl_written (dl_start m s)) = dl_nextBlockIndex (dl_start m s) - 1"
      using assms(1) by (simp_all add: dl_start_def dl_entries_def)
    show "bm_index ` set (started (dl_start m s)) =
        dom (map_of (dl_ongoingDownloads (dl_start m s))) \<union> {1..<dl_nextBlockIndex (dl_start m s)}"
      using assms(1) by (simp add: dl_start_def dl_entries_def started_def update_conv' insert_commute)
    fix k e assume "map_of (dl_ongoingDownloads (dl_start m s)) k = Some e"
    then have "k = bm_index m \<and> e = (?n, None) \<or> k \<noteq> bm_index m \<and> map_of (dl_ongoingDownloads s) k = Some e"
      by (auto simp: dl_start_def update_conv' split: if_splits)
    moreover have "entry_ok env (dl_start m s) k e" if "entry_ok env s k e"
      using that by (auto simp: dl_start_def entry_ok_def nth_append split: option.splits)
    moreover have "entry_ok env (dl_start m s) (bm_index m) (?n, None)"
      by (simp add: dl_start_def entry_ok_def nth_append)
    moreover have "dl_nextBlockIndex (dl_start m s) = dl_nextBlockIndex s" by (simp add: dl_start_def)
    ultimately show "entry_ok env (dl_start m s) k e" "k \<notin> {1..<dl_nextBlockIndex (dl_start m s)}"
      using assms(1) fresh(2) unfolding dl_entries_def by metis+
  qed (use assms(1) other in \<open>auto simp: dl_start_def dl_entries_def started_def update_conv' nth_append\<close>)
qed

lemma dl_entries_flush:
  assumes "dl_entries env s" "map_of (dl_ongoingDownloads s) (dl_nextBlockIndex s) = Some (p, Some b)"
  shows "dl_entries env (dl_flush s)"
proof -
  let ?n = "dl_nextBlockIndex s"
  from assms have e: "entry_ok env s ?n (p, Some b)" and n: "1 \<le> ?n" "length (dl_written s) = ?n - 1"
    unfolding dl_entries_def by blast+
  have flushed: "dl_flush s = s\<lparr>dl_written := dl_written s @ [b], dl_ongoingDownloads := AList.delete ?n (dl_ongoingDownloads s),
      dl_nextBlockIndex := ?n + 1\<rparr>"
    using assms(2) by (simp add: dl_flush_def)
  show ?thesis
    unfolding dl_entries_def
  proof (intro conjI allI impI)
    show "distinct (map fst (dl_ongoingDownloads (dl_flush s)))"
      using assms(1) by (simp add: flushed dl_entries_def distinct_delete)
    show "1 \<le> dl_nextBlockIndex (dl_flush s)" "length (dl_written (dl_flush s)) = dl_nextBlockIndex (dl_flush s) - 1"
      using n by (simp_all add: flushed)
    have "{1..<?n + 1} = insert ?n {1..<?n}" using n by auto
    moreover have "?n \<in> dom (map_of (dl_ongoingDownloads s))" using assms(2) by (simp add: dom_def)
    ultimately show "bm_index ` set (started (dl_flush s)) =
        dom (map_of (dl_ongoingDownloads (dl_flush s))) \<union> {1..<dl_nextBlockIndex (dl_flush s)}"
      using assms(1) by (auto simp: flushed dl_entries_def started_def delete_conv')
  next
    fix k e assume "map_of (dl_ongoingDownloads (dl_flush s)) k = Some e"
    then have k: "k \<noteq> ?n" "map_of (dl_ongoingDownloads s) k = Some e" by (auto simp: flushed delete_conv' split: if_splits)
    with assms(1) have "entry_ok env s k e" "k \<notin> {1..<?n}" unfolding dl_entries_def by blast+
    with k(1) show "entry_ok env (dl_flush s) k e" "k \<notin> {1..<dl_nextBlockIndex (dl_flush s)}"
      by (auto simp: flushed entry_ok_def split: option.splits)
  next
    fix i assume i: "i < length (dl_promises (dl_flush s))" "snd (dl_promises (dl_flush s) ! i) \<noteq> Fulfilled"
    with assms(1) have "map_of (dl_ongoingDownloads s) (bm_index (fst (dl_promises s ! i))) = Some (i, None)"
      by (simp add: flushed dl_entries_def)
    moreover from this assms(2) have "bm_index (fst (dl_promises s ! i)) \<noteq> ?n" by auto
    ultimately show "map_of (dl_ongoingDownloads (dl_flush s)) (bm_index (fst (dl_promises (dl_flush s) ! i))) = Some (i, None)"
      by (simp add: flushed delete_conv')
  next
    fix i assume i: "i < length (dl_written (dl_flush s))"
    show "\<exists>m \<in> set (started (dl_flush s)). bm_index m = i + 1 \<and> de_block env m (Inr (dl_written (dl_flush s) ! i))"
    proof (cases "i < length (dl_written s)")
      case True
      with assms(1) show ?thesis by (auto simp: flushed dl_entries_def started_def nth_append)
    next
      case False
      with i n have "i + 1 = ?n" "i = length (dl_written s)" by (simp_all add: flushed)
      moreover have "fst (dl_promises s ! p) \<in> set (started s)" using e by (simp add: entry_ok_def started_def)
      ultimately show ?thesis using e by (intro bexI [of _ "fst (dl_promises s ! p)"]) (simp_all add: flushed entry_ok_def started_def)
    qed
  qed
qed

lemma dl_entries_settle:
  assumes "dl_entries env s" "i < length (dl_promises s)" "dl_promises s ! i = (m, Running)" "de_block env m r"
  shows "dl_entries env (dl_settle i r s)"
proof -
  from assms have entry: "map_of (dl_ongoingDownloads s) (bm_index m) = Some (i, None)"
    unfolding dl_entries_def by force
  have started: "started (dl_settle i r s) = started s"
    using assms(2,3) by (auto simp: dl_settle_def started_def map_update Let_def entry split: sum.split)
      (metis fst_conv length_map list_update_id nth_map)+
  show ?thesis
  proof (cases r)
    case (Inl error)
    then have s': "dl_settle i r s = s\<lparr>dl_promises := (dl_promises s)[i := (m, Rejected error)]\<rparr>"
      using assms(3) by (simp add: dl_settle_def)
    have "entry_ok env (dl_settle i r s) k e" if "entry_ok env s k e" for k e
      using that assms(2,3) by (auto simp: s' entry_ok_def nth_list_update split: option.splits)
    moreover have "map_of (dl_ongoingDownloads (dl_settle i r s)) (bm_index (fst (dl_promises (dl_settle i r s) ! j))) = Some (j, None)"
      if "j < length (dl_promises (dl_settle i r s))" "snd (dl_promises (dl_settle i r s) ! j) \<noteq> Fulfilled" for j
      using that assms(1,2) entry unfolding s' dl_entries_def by (cases "j = i") simp_all
    ultimately show ?thesis
      using assms(1) started unfolding dl_entries_def by (simp add: s')
  next
    case (Inr b)
    then have s': "dl_settle i r s = s\<lparr>dl_ongoingDownloads := AList.update (bm_index m) (i, Some b) (dl_ongoingDownloads s),
        dl_promises := (dl_promises s)[i := (m, Fulfilled)]\<rparr>"
      using assms(3) entry by (simp add: dl_settle_def)
    have old: "entry_ok env (dl_settle i r s) k e" if "entry_ok env s k e" "k \<noteq> bm_index m" for k e
      using that assms(2,3) by (auto simp: s' entry_ok_def nth_list_update split: option.splits)
    have fresh: "entry_ok env (dl_settle i r s) (bm_index m) (i, Some b)"
      unfolding s' entry_ok_def using assms(2,4) Inr by simp
    have "entry_ok env (dl_settle i r s) k e \<and> k \<notin> {1..<dl_nextBlockIndex s}"
      if "map_of (dl_ongoingDownloads (dl_settle i r s)) k = Some e" for k e
    proof (cases "k = bm_index m")
      case True
      with that have "e = (i, Some b)" by (simp add: s' update_conv')
      moreover have "k \<notin> {1..<dl_nextBlockIndex s}"
        using assms(1) entry True unfolding dl_entries_def by blast
      ultimately show ?thesis using fresh True by simp
    next
      case False
      with that have "map_of (dl_ongoingDownloads s) k = Some e" by (simp add: s' update_conv')
      with assms(1) old False show ?thesis unfolding dl_entries_def by blast
    qed
    moreover have "map_of (dl_ongoingDownloads (dl_settle i r s)) (bm_index (fst (dl_promises (dl_settle i r s) ! j))) = Some (j, None)"
      if j: "j < length (dl_promises (dl_settle i r s))" "snd (dl_promises (dl_settle i r s) ! j) \<noteq> Fulfilled" for j
    proof -
      from j assms(2) have ji: "j \<noteq> i" by (auto simp: s')
      with j assms(1) have "map_of (dl_ongoingDownloads s) (bm_index (fst (dl_promises s ! j))) = Some (j, None)"
        unfolding s' dl_entries_def by simp
      moreover from this entry ji have "bm_index (fst (dl_promises s ! j)) \<noteq> bm_index m" by auto
      ultimately show ?thesis using ji by (simp add: s' update_conv')
    qed
    moreover have "dom (map_of (dl_ongoingDownloads (dl_settle i r s))) = dom (map_of (dl_ongoingDownloads s))"
      using entry by (auto simp: s' update_conv' split: if_splits)
    moreover have "distinct (map fst (dl_ongoingDownloads (dl_settle i r s)))"
      using assms(1) by (simp add: s' dl_entries_def distinct_update)
    moreover have "dl_nextBlockIndex (dl_settle i r s) = dl_nextBlockIndex s" "dl_written (dl_settle i r s) = dl_written s"
      by (simp_all add: s')
    ultimately show ?thesis
      using assms(1) started unfolding dl_entries_def by metis
  qed
qed

lemma dl_settle_phase [simp]:
  "dl_phase (dl_settle i r s) = dl_phase s" "dl_source (dl_settle i r s) = dl_source s"
  "dl_source_end (dl_settle i r s) = dl_source_end s" "dl_allBlockHashes (dl_settle i r s) = dl_allBlockHashes s"
  "dl_armoredManifestSignature (dl_settle i r s) = dl_armoredManifestSignature s"
  "dl_finishCalls (dl_settle i r s) = dl_finishCalls s" "length (dl_promises (dl_settle i r s)) = length (dl_promises s)"
  "dl_nextBlockIndex (dl_settle i r s) = dl_nextBlockIndex s" "dl_written (dl_settle i r s) = dl_written s"
  by (auto simp: dl_settle_def Let_def split: sum.split option.split)

lemma dl_flush_phase [simp]:
  "dl_phase (dl_flush s) = dl_phase s" "dl_source (dl_flush s) = dl_source s" "dl_source_end (dl_flush s) = dl_source_end s"
  "dl_allBlockHashes (dl_flush s) = dl_allBlockHashes s" "dl_promises (dl_flush s) = dl_promises s"
  "dl_armoredManifestSignature (dl_flush s) = dl_armoredManifestSignature s" "dl_finishCalls (dl_flush s) = dl_finishCalls s"
  by (auto simp: dl_flush_def split: option.split)

lemma started_settle:
  assumes "i < length (dl_promises s)"
  shows "started (dl_settle i r s) = started s"
proof (rule nth_equalityI)
  show "started (dl_settle i r s) ! j = started s ! j" if "j < length (started (dl_settle i r s))" for j
    using that assms by (auto simp: dl_settle_def started_def Let_def nth_list_update split: sum.split option.split)
qed (simp add: started_def)

lemma dl_received_same:
  "dl_source s' = dl_source s \<Longrightarrow> dl_allBlockHashes s' = dl_allBlockHashes s \<Longrightarrow>
   dl_armoredManifestSignature s' = dl_armoredManifestSignature s \<Longrightarrow> started s' = started s \<Longrightarrow>
   waiting_block (dl_phase s') = waiting_block (dl_phase s) \<Longrightarrow> dl_received env items s' = dl_received env items s"
  by (simp only: dl_received_def)

lemma dl_received_receive:
  assumes "dl_received env items s" "dl_phase s = DlIterate" "dl_source s = item # rest"
  shows "dl_received env items (dl_receive env item s)"
proof -
  from assms obtain received where r: "items = received @ item # rest"
    "dl_allBlockHashes s = map (cr_fromBase64 (de_crypto env)) (listed_hashes received)"
    "dl_armoredManifestSignature s = listed_signature None received" "listed_blocks received = started s"
    by (auto simp: dl_received_def waiting_block_def)
  show ?thesis
    unfolding dl_received_def
    by (rule exI [of _ "received @ [item]"], cases item)
      (use r assms(2,3) in \<open>simp_all add: dl_receive_def waiting_block_def started_def\<close>)
qed

lemma dl_received_start:
  "dl_received env items s \<Longrightarrow> dl_phase s = DlWaitPaused m \<Longrightarrow> dl_received env items (dl_start m s)"
  by (simp add: dl_received_def dl_start_def waiting_block_def started_def)

lemma dl_threw_stays: "dl_step env s s' \<Longrightarrow> dl_threw s \<Longrightarrow> dl_threw s'"
  by (erule dl_step.cases) (auto simp: dl_threw_def split: dl_phase.splits)

lemma dl_inv_step:
  assumes "dl_step env s s'" "dl_inv env items s" "distinct (map bm_index (listed_blocks items))"
  shows "dl_inv env items s'"
proof (cases "dl_threw s")
  case True
  with dl_threw_stays [OF assms(1)] show ?thesis by (simp add: dl_inv_def)
next
  case False
  with assms(2) have inv: "dl_received env items s" "dl_entries env s" "dl_phase_ok env items s"
    by (auto simp: dl_inv_def)
  show ?thesis
    using assms(1)
  proof cases
    case (receive item rest)
    have "dl_entries env s'"
      using dl_entries_same [of s' s env] inv(2) receive by (cases item) (simp_all add: dl_receive_def)
    moreover have "dl_phase_ok env items s'"
      using receive by (cases item) (simp_all add: dl_phase_ok_def dl_receive_def)
    ultimately show ?thesis
      using dl_received_receive [OF inv(1) receive(2,3)] receive(1) by (simp add: dl_inv_def)
  next
    case (start m)
    have "m \<in> set (listed_blocks items)" "bm_index m \<notin> bm_index ` set (started s)"
    proof -
      from inv(1) start(2) obtain received where "items = received @ dl_source s" "listed_blocks received = started s @ [m]"
        by (auto simp: dl_received_def waiting_block_def)
      with assms(3) show "m \<in> set (listed_blocks items)" "bm_index m \<notin> bm_index ` set (started s)" by auto
    qed
    then have "dl_entries env s'" using dl_entries_start inv(2) start(1) by blast
    moreover have "dl_phase_ok env items s'" using start by (simp add: dl_phase_ok_def dl_start_def)
    ultimately show ?thesis using dl_received_start [OF inv(1) start(2)] start(1) by (simp add: dl_inv_def)
  next
    case (flush_block final)
    then have "dl_entries env s'"
      using dl_entries_flush [OF inv(2)] by (auto simp: isNextBlockDownloaded_iff)
    moreover have "dl_received env items s'"
      using dl_received_same [of s' s env items] inv(1) flush_block by (simp add: started_def)
    moreover have "dl_phase_ok env items s'" using inv(3) flush_block by (simp add: dl_phase_ok_def)
    ultimately show ?thesis by (simp add: dl_inv_def)
  next
    case finish
    show ?thesis
    proof (cases "dl_threw s'")
      case False
      with finish have done_: "s' = s\<lparr>dl_phase := DlDone, dl_finishCalls := dl_finishCalls s + 1\<rparr>" "dl_ongoingDownloads s = []"
        "de_ignoreIntegrityErrors env \<or> de_ignoreManifestVerification env
         \<or> verifyManifest (de_crypto env) (de_author env) (de_nodeKey env) (dl_allBlockHashes s) (dl_armoredManifestSignature s) = Inr ()"
        by (auto simp: dl_finish_def Let_def split: if_splits sum.splits)
      have "dl_entries env s'" using dl_entries_same [of s' s env] inv(2) done_(1) by simp
      moreover have "dl_received env items s'"
        using dl_received_same [of s' s env items] inv(1) done_(1) finish by (simp add: started_def waiting_block_def)
      moreover have "dl_phase_ok env items s'"
        unfolding done_(1) using inv(3) finish(2) done_(2,3) by (simp add: dl_phase_ok_def)
      ultimately show ?thesis by (simp add: dl_inv_def)
    qed (simp add: dl_inv_def)
  next
    case (settle i m r)
    have "dl_entries env s'" using dl_entries_settle [OF inv(2) settle(2,3,4)] settle(1) by simp
    moreover have "dl_received env items s'"
      using dl_received_same [of s' s env items] inv(1) settle started_settle [OF settle(2)] by simp
    moreover have "dl_ongoingDownloads s \<noteq> []" "dl_promises s \<noteq> []"
      using inv(2) settle(2,3) unfolding dl_entries_def by force+
    then have "dl_phase_ok env items s'"
      using inv(3) settle(1) by (simp add: dl_phase_ok_def)
    ultimately show ?thesis by (simp add: dl_inv_def)
  next
    case keys_ok
    then show ?thesis
      using inv dl_entries_same [of s' s env] dl_received_same [of s' s env items]
      by (simp add: dl_inv_def dl_phase_ok_def started_def waiting_block_def)
  next
    case source_end
    then show ?thesis
      using inv dl_entries_same [of s' s env] dl_received_same [of s' s env items]
      by (simp add: dl_inv_def dl_phase_ok_def started_def waiting_block_def)
  next
    case capacity_ok
    then show ?thesis
      using inv dl_entries_same [of s' s env] dl_received_same [of s' s env items]
      by (simp add: dl_inv_def dl_phase_ok_def started_def waiting_block_def)
  next
    case (flush_end final)
    then show ?thesis
      using inv dl_entries_same [of s' s env] dl_received_same [of s' s env items]
      by (cases final) (simp_all add: dl_inv_def dl_phase_ok_def started_def waiting_block_def)
  next
    case all_ok
    then show ?thesis
      using inv dl_entries_same [of s' s env] dl_received_same [of s' s env items]
      by (simp add: dl_inv_def dl_phase_ok_def started_def waiting_block_def)
  next
    case pause
    then show ?thesis
      using inv dl_entries_same [of s' s env] dl_received_same [of s' s env items]
      by (simp add: dl_inv_def dl_phase_ok_def started_def)
  next
    case resume
    then show ?thesis
      using inv dl_entries_same [of s' s env] dl_received_same [of s' s env items]
      by (simp add: dl_inv_def dl_phase_ok_def started_def)
  next
    case abort
    then show ?thesis
      using inv dl_entries_same [of s' s env] dl_received_same [of s' s env items]
      by (simp add: dl_inv_def dl_phase_ok_def started_def)
  qed (simp_all add: dl_inv_def)
qed

lemma dl_inv_reach:
  "dl_reach env (dl_init items end) s \<Longrightarrow> distinct (map bm_index (listed_blocks items)) \<Longrightarrow> dl_inv env items s"
proof (induction rule: dl_reach.induct)
  case dl_reach_refl
  have "dl_received env items (dl_init items end)"
    by (simp add: dl_received_def dl_init_def started_def waiting_block_def)
  moreover have "dl_phase_ok env items (dl_init items end)"
    by (simp add: dl_phase_ok_def dl_init_def)
  ultimately show ?case by (simp add: dl_inv_def dl_entries_init)
qed (blast intro: dl_inv_step)

lemma dl_source_end_reach: "dl_reach env (dl_init items end) s \<Longrightarrow> dl_source_end s = end"
proof (induction rule: dl_reach.induct)
  case (dl_reach_step s s')
  from dl_reach_step(2) have "dl_source_end s' = dl_source_end s"
    by cases (auto simp: dl_receive_def dl_catch_def dl_start_def dl_finish_def Let_def
        split: block_item.split thrown.split sum.split)
  with dl_reach_step(3) show ?case by simp
qed (simp add: dl_init_def)

text \<open>
  How a block's download may end: as \<^const>\<open>downloadBlockData\<close> does, with the server naming the same
  hash when it renews a token.
\<close>

definition block_outcome :: "'key download_crypto \<Rightarrow> bool \<Rightarrow> block_metadata \<Rightarrow> thrown + bytes \<Rightarrow> bool" where
  "block_outcome cr ign m r \<longleftrightarrow>
     (\<exists>attempts token aborted fuel progress.
        (\<forall>k m'. token k = Inr m' \<longrightarrow> bm_base64sha256Hash m' = bm_base64sha256Hash m)
        \<and> downloadBlockData cr ign attempts token aborted fuel 0 0 m = Some (r, progress))"

lemma block_outcome_Inr:
  assumes "block_outcome cr ign m (Inr d)"
  shows "\<exists>encrypted. cr_decrypt cr encrypted = Inr d \<and> (ign \<or> cr_sha256_base64 cr encrypted = bm_base64sha256Hash m)"
proof -
  from assms obtain attempts token aborted fuel progress where
    t: "\<forall>k m'. token k = Inr m' \<longrightarrow> bm_base64sha256Hash m' = bm_base64sha256Hash m" and
    run: "downloadBlockData cr ign attempts token aborted fuel 0 0 m = Some (Inr d, progress)"
    unfolding block_outcome_def by blast
  obtain j m' where "m' = m \<or> (\<exists>i. token i = Inr m')" "attempt_block cr ign m' (attempts j m') = Inr d"
    using block_data_success [OF run] by blast
  with t show ?thesis unfolding attempt_block_Inr by metis
qed

lemma dl_done_blocks:
  assumes "dl_inv env items s" "dl_phase s = DlDone" "distinct (map bm_index (listed_blocks items))"
  shows "length (dl_written s) = length (listed_blocks items)"
    "bm_index ` set (listed_blocks items) = {1..length (dl_written s)}"
    "\<forall>m \<in> set (listed_blocks items). de_block env m (Inr (dl_written s ! (bm_index m - 1)))"
proof -
  from assms(1,2) have inv: "dl_received env items s" "dl_entries env s" "dl_phase_ok env items s"
    by (auto simp: dl_inv_def dl_threw_def)
  from inv(3) assms(2) have fin: "dl_source s = []" "dl_ongoingDownloads s = []" by (simp_all add: dl_phase_ok_def)
  from inv(1) fin(1) assms(2) have all: "started s = listed_blocks items"
    by (auto simp: dl_received_def waiting_block_def)
  from inv(2) have e: "1 \<le> dl_nextBlockIndex s" "length (dl_written s) = dl_nextBlockIndex s - 1"
    "bm_index ` set (listed_blocks items) = {1..<dl_nextBlockIndex s}"
    "\<forall>i < length (dl_written s). \<exists>m \<in> set (listed_blocks items). bm_index m = i + 1 \<and> de_block env m (Inr (dl_written s ! i))"
    by (auto simp: dl_entries_def fin(2) all)
  show ix: "bm_index ` set (listed_blocks items) = {1..length (dl_written s)}"
    using e(1-3) by auto
  have "card (bm_index ` set (listed_blocks items)) = length (listed_blocks items)"
    using assms(3) by (metis distinct_card length_map set_map)
  then show "length (dl_written s) = length (listed_blocks items)" by (simp add: ix)
  show "\<forall>m \<in> set (listed_blocks items). de_block env m (Inr (dl_written s ! (bm_index m - 1)))"
  proof
    fix m assume m: "m \<in> set (listed_blocks items)"
    with ix have i: "bm_index m \<in> {1..length (dl_written s)}" by blast
    then have "bm_index m - 1 < length (dl_written s)" by simp arith
    with e(4) obtain m' where m': "m' \<in> set (listed_blocks items)" "bm_index m' = bm_index m - 1 + 1"
      "de_block env m' (Inr (dl_written s ! (bm_index m - 1)))" by blast
    from i m'(2) have "bm_index m' = bm_index m" by simp
    with assms(3) m m'(1) have "m' = m" by (metis distinct_map inj_onD)
    with m'(3) show "de_block env m (Inr (dl_written s ! (bm_index m - 1)))" by simp
  qed
qed


text \<open>The size of \<open>ongoingDownloads\<close>, by phase.\<close>

definition dl_small :: "dl_state \<Rightarrow> bool" where
  "dl_small s \<longleftrightarrow>
     length (dl_ongoingDownloads s) \<le> MAX_DOWNLOAD_BLOCK_SIZE
     \<and> (case dl_phase s of
          DlKeys \<Rightarrow> length (dl_ongoingDownloads s) < MAX_DOWNLOAD_BLOCK_SIZE
        | DlIterate \<Rightarrow> length (dl_ongoingDownloads s) < MAX_DOWNLOAD_BLOCK_SIZE
        | DlWaitPaused m \<Rightarrow> length (dl_ongoingDownloads s) < MAX_DOWNLOAD_BLOCK_SIZE
        | DlFlush final \<Rightarrow> length (dl_ongoingDownloads s) < MAX_DOWNLOAD_BLOCK_SIZE \<or> isNextBlockDownloaded s \<or> final
        | _ \<Rightarrow> True)"

lemma dl_small_settle:
  assumes "dl_entries env s" "i < length (dl_promises s)" "dl_promises s ! i = (m, Running)" "de_block env m r"
  shows "length (dl_ongoingDownloads (dl_settle i r s)) = length (dl_ongoingDownloads s)
     \<and> (isNextBlockDownloaded s \<longrightarrow> isNextBlockDownloaded (dl_settle i r s))"
proof -
  have entry: "map_of (dl_ongoingDownloads s) (bm_index m) = Some (i, None)"
    using assms unfolding dl_entries_def by force
  have "dom (map_of (dl_ongoingDownloads (dl_settle i r s))) = dom (map_of (dl_ongoingDownloads s))"
    using entry assms(3) by (auto simp: dl_settle_def update_conv' split: sum.splits if_splits)
  moreover have "distinct (map fst (dl_ongoingDownloads s))" "distinct (map fst (dl_ongoingDownloads (dl_settle i r s)))"
    using assms(1) dl_entries_settle [OF assms] unfolding dl_entries_def by blast+
  ultimately have "length (dl_ongoingDownloads (dl_settle i r s)) = length (dl_ongoingDownloads s)"
    by (simp add: alist_length)
  moreover have "isNextBlockDownloaded s \<longrightarrow> isNextBlockDownloaded (dl_settle i r s)"
    using entry assms(3) by (auto simp: isNextBlockDownloaded_iff dl_settle_def update_conv' split: sum.splits)
  ultimately show ?thesis by blast
qed

lemma dl_next_is_kept:
  assumes "dl_received env items s" "dl_entries env s" "map bm_index (listed_blocks items) = [1..<Suc n]"
    "dl_ongoingDownloads s \<noteq> []"
  shows "\<exists>e. map_of (dl_ongoingDownloads s) (dl_nextBlockIndex s) = Some e"
proof -
  from assms(1) obtain k where "map bm_index (started s) = take k [1..<Suc n]"
  proof (unfold dl_received_def, elim exE conjE)
    fix received assume "items = received @ dl_source s" "listed_blocks received = started s @ waiting_block (dl_phase s)"
    then have "[1..<Suc n] = map bm_index (started s) @ map bm_index (waiting_block (dl_phase s) @ listed_blocks (dl_source s))"
      using assms(3) by simp
    then show thesis using that [of "length (started s)"] by simp
  qed
  moreover have "set (take k [1..<Suc n]) = {1..<1 + min k n}"
    by (cases "k \<le> n") (auto simp: take_upt min_def simp del: upt_Suc)
  ultimately have k: "bm_index ` set (started s) = {1..<1 + min k n}"
    by (metis set_map)
  from assms(2) have all: "dom (map_of (dl_ongoingDownloads s)) \<union> {1..<dl_nextBlockIndex s} = {1..<1 + min k n}"
    and kept: "\<And>k e. map_of (dl_ongoingDownloads s) k = Some e \<Longrightarrow> k \<notin> {1..<dl_nextBlockIndex s}"
    and one: "1 \<le> dl_nextBlockIndex s"
    unfolding dl_entries_def k by blast+
  from assms(4) obtain j where j: "j \<in> dom (map_of (dl_ongoingDownloads s))"
    by (cases "dl_ongoingDownloads s") auto
  with kept have "j \<notin> {1..<dl_nextBlockIndex s}" by blast
  moreover from all j have "j \<in> {1..<1 + min k n}" by blast
  ultimately have "dl_nextBlockIndex s \<in> {1..<1 + min k n}" using one by auto
  with all have "dl_nextBlockIndex s \<in> dom (map_of (dl_ongoingDownloads s))" by auto
  then show ?thesis by blast
qed

lemma dl_capacity_has_room:
  assumes "dl_received env items s" "dl_entries env s" "map bm_index (listed_blocks items) = [1..<Suc n]"
    "ongoingDownloadPromises s = []"
  shows "length (dl_ongoingDownloads s) < MAX_DOWNLOAD_BLOCK_SIZE \<or> isNextBlockDownloaded s"
proof (cases "dl_ongoingDownloads s = []")
  case False
  then obtain p b where e: "map_of (dl_ongoingDownloads s) (dl_nextBlockIndex s) = Some (p, b)"
    using dl_next_is_kept [OF assms(1-3)] by auto
  then have "(dl_nextBlockIndex s, p, b) \<in> set (dl_ongoingDownloads s)" by (rule map_of_SomeD)
  with assms(4) have "b \<noteq> None" by (auto simp: ongoingDownloadPromises_def filter_empty_conv)
  with e show ?thesis by (auto simp: isNextBlockDownloaded_iff)
qed (simp add: MAX_DOWNLOAD_BLOCK_SIZE_def)

lemma dl_small_step:
  assumes "dl_step env s s'" "dl_inv env items s" "map bm_index (listed_blocks items) = [1..<Suc n]"
    "dl_small s" "\<not> dl_threw s"
  shows "dl_threw s' \<or> dl_small s'"
proof -
  from assms(2,5) have inv: "dl_received env items s" "dl_entries env s" by (auto simp: dl_inv_def)
  show ?thesis
    using assms(1)
  proof cases
    case (receive item rest)
    with assms(4) show ?thesis by (cases item) (simp_all add: dl_small_def dl_receive_def)
  next
    case (start m)
    have "length (AList.update k e al) \<le> Suc (length al)" for k e and al :: "(nat \<times> nat \<times> bytes option) list"
      by (induction al) auto
    with start assms(4) show ?thesis by (simp add: dl_small_def dl_start_def) (meson Suc_leI le_trans)
  next
    case capacity_ok
    with dl_capacity_has_room [OF inv assms(3)] assms(4) show ?thesis
      by (auto simp: dl_small_def isNextBlockDownloaded_def)
  next
    case (flush_block final)
    have "distinct (map fst (dl_ongoingDownloads s))" using inv(2) by (simp add: dl_entries_def)
    moreover obtain p b where e: "map_of (dl_ongoingDownloads s) (dl_nextBlockIndex s) = Some (p, Some b)"
      using flush_block(3) by (auto simp: isNextBlockDownloaded_iff)
    moreover from e have "card (dom (map_of (dl_ongoingDownloads s)) - {dl_nextBlockIndex s})
        = card (dom (map_of (dl_ongoingDownloads s))) - 1"
      by (intro card_Diff_singleton) (simp add: dom_def)
    ultimately have "length (AList.delete (dl_nextBlockIndex s) (dl_ongoingDownloads s)) = length (dl_ongoingDownloads s) - 1"
      by (simp add: alist_length distinct_delete delete_conv')
    moreover have "0 < length (dl_ongoingDownloads s)" using e by (cases "dl_ongoingDownloads s") auto
    moreover have "length (dl_ongoingDownloads s) \<le> MAX_DOWNLOAD_BLOCK_SIZE" using assms(4) by (simp add: dl_small_def)
    ultimately have "length (AList.delete (dl_nextBlockIndex s) (dl_ongoingDownloads s)) < MAX_DOWNLOAD_BLOCK_SIZE"
      by linarith
    then show ?thesis
      using flush_block(1,2) e by (simp add: dl_small_def dl_flush_def)
  next
    case (settle i m r)
    with dl_small_settle [OF inv(2) settle(2-4)] assms(4) show ?thesis
      by (auto simp: dl_small_def split: dl_phase.splits)
  next
    case finish
    with assms(4) show ?thesis
      by (auto simp: dl_small_def dl_finish_def Let_def split: sum.split)
  qed (use assms(4) in \<open>auto simp: dl_small_def isNextBlockDownloaded_def split: dl_phase.splits\<close>)
qed

text \<open>
  With blocks listed from index 1 on without gaps, at any moment of a download that has not
  failed at most ten blocks are downloading or buffered, and what has been written is the data of
  the first blocks, in order.
\<close>

theorem download_window:
  assumes "map bm_index (listed_blocks items) = [1..<Suc n]" and "dl_reach env (dl_init items end) s"
  shows "(\<exists>error. dl_phase s = DlThrew error)
     \<or> length (dl_ongoingDownloads s) \<le> 10
       \<and> length (dl_written s) \<le> n
       \<and> (\<forall>i < length (dl_written s). de_block env (listed_blocks items ! i) (Inr (dl_written s ! i)))"
proof (cases "dl_threw s")
  case True
  then show ?thesis by (auto simp: dl_threw_def split: dl_phase.splits)
next
  case False
  have distinct: "distinct (map bm_index (listed_blocks items))" by (simp only: assms(1) distinct_upt)
  have "dl_threw s \<or> dl_small s"
    using assms(2)
  proof (induction rule: dl_reach.induct)
    case dl_reach_refl
    show ?case by (simp add: dl_small_def dl_init_def MAX_DOWNLOAD_BLOCK_SIZE_def)
  next
    case (dl_reach_step s s')
    then show ?case
      using dl_small_step [OF dl_reach_step(2) dl_inv_reach [OF dl_reach_step(1) distinct] assms(1)]
        dl_threw_stays [OF dl_reach_step(2)] by blast
  qed
  with False have size: "length (dl_ongoingDownloads s) \<le> 10" by (simp add: dl_small_def MAX_DOWNLOAD_BLOCK_SIZE_def)
  from dl_inv_reach [OF assms(2) distinct] False have inv: "dl_received env items s" "dl_entries env s"
    by (auto simp: dl_inv_def)
  from inv(1) have sub: "set (started s) \<subseteq> set (listed_blocks items)"
    by (auto simp: dl_received_def)
  have len: "length (listed_blocks items) = n" using arg_cong [OF assms(1), of length] by (simp del: upt_Suc)
  have at: "listed_blocks items ! i = m" if "m \<in> set (listed_blocks items)" "bm_index m = i + 1" for m i
  proof -
    from that(1) obtain j where j: "j < n" "listed_blocks items ! j = m" by (auto simp: in_set_conv_nth len)
    then have "bm_index m = map bm_index (listed_blocks items) ! j" by (simp add: len)
    then have "bm_index m = 1 + j" using j(1) by (simp add: assms(1) del: upt_Suc)
    with that(2) j(2) show ?thesis by simp
  qed
  have written: "i < n \<and> de_block env (listed_blocks items ! i) (Inr (dl_written s ! i))" if "i < length (dl_written s)" for i
  proof -
    from inv(2) that obtain m where m: "m \<in> set (started s)" "bm_index m = i + 1" "de_block env m (Inr (dl_written s ! i))"
      unfolding dl_entries_def by blast
    with sub have l: "m \<in> set (listed_blocks items)" by blast
    then have "bm_index m \<in> set (map bm_index (listed_blocks items))" by simp
    then have "bm_index m < Suc n" by (simp only: assms(1)) auto
    with m at [OF l m(2)] show ?thesis by simp
  qed
  then have "length (dl_written s) \<le> n" by (meson leI less_irrefl)
  with size written show ?thesis by blast
qed

text \<open>The work a download still has to do, and that every step but the client's own three reduces it.\<close>

definition phase_rank :: "dl_phase \<Rightarrow> nat" where
  "phase_rank ph = (case ph of DlKeys \<Rightarrow> 6 | DlIterate \<Rightarrow> 5 | DlWaitPaused m \<Rightarrow> 10 | DlWaitCapacity \<Rightarrow> 7
     | DlFlush final \<Rightarrow> (if final then 3 else 6) | DlAwaitAll \<Rightarrow> 4 | DlFinish \<Rightarrow> 2 | DlDone \<Rightarrow> 0 | DlThrew e \<Rightarrow> 0)"

definition running :: "(block_metadata \<times> promise_state) list \<Rightarrow> nat" where
  "running ps = length (filter (\<lambda>p. snd p = Running) ps)"

definition dl_work :: "dl_state \<Rightarrow> nat" where
  "dl_work s = 10 * length (dl_source s) + running (dl_promises s) + length (dl_ongoingDownloads s) + phase_rank (dl_phase s)"

lemma running_settled:
  "i < length ps \<Longrightarrow> snd (ps ! i) = Running \<Longrightarrow> snd p \<noteq> Running \<Longrightarrow> running (ps[i := p]) + 1 = running ps"
proof (induction ps arbitrary: i)
  case (Cons q ps)
  then show ?case by (cases i) (auto simp: running_def)
qed simp

lemma length_update_le: "length (AList.update k e al) = (if k \<in> dom (map_of al) then length al else Suc (length al))"
  by (induction al) (auto simp: dom_def)

lemma dl_work_catch: "dl_work (dl_catch error s) = dl_work s - phase_rank (dl_phase s)"
  by (auto simp: dl_catch_def dl_work_def phase_rank_def split: thrown.split)

lemma dl_work_catch_less: "0 < phase_rank (dl_phase s) \<Longrightarrow> dl_work (dl_catch error s) < dl_work s"
  by (simp only: dl_work_catch) (simp add: dl_work_def)

lemma dl_work_settle:
  assumes "i < length (dl_promises s)" "dl_promises s ! i = (m, Running)"
  shows "dl_work (dl_settle i r s) < dl_work s"
proof -
  have "running ((dl_promises s)[i := (m, st)]) + 1 = running (dl_promises s)" if "st \<noteq> Running" for st
    using running_settled [of i "dl_promises s" "(m, st)"] assms that by simp
  then have less: "running ((dl_promises s)[i := (m, st)]) < running (dl_promises s)" if "st \<noteq> Running" for st
    using that by (metis less_add_one)
  have m: "fst (dl_promises s ! i) = m" using assms(2) by simp
  show ?thesis
  proof (cases r)
    case (Inl error)
    with less [of "Rejected error"] show ?thesis by (simp add: dl_settle_def dl_work_def m)
  next
    case (Inr b)
    show ?thesis
    proof (cases "map_of (dl_ongoingDownloads s) (bm_index m)")
      case None
      with less [of "Rejected e" for e] Inr show ?thesis by (simp add: dl_settle_def dl_work_def m)
    next
      case (Some q)
      with less [of Fulfilled] Inr show ?thesis
        by (cases q) (simp add: dl_settle_def dl_work_def m length_update_le dom_def)
    qed
  qed
qed

lemma dl_work_step:
  "dl_step env s s' \<Longrightarrow> dl_work s' < dl_work s \<or> (\<exists>b. s' = s\<lparr>dl_paused := b\<rparr> \<or> s' = s\<lparr>dl_aborted := True\<rparr>)"
proof (induction rule: dl_step.induct)
  case (receive s item rest)
  then show ?case by (cases item) (simp_all add: dl_receive_def dl_work_def phase_rank_def)
next
  case (flush_block s final)
  then obtain p b where "map_of (dl_ongoingDownloads s) (dl_nextBlockIndex s) = Some (p, Some b)"
    by (auto simp: isNextBlockDownloaded_iff)
  then show ?case using length_delete_less [of "dl_ongoingDownloads s" "dl_nextBlockIndex s"]
    by (simp add: dl_flush_def dl_work_def)
next
  case (finish s)
  moreover have "dl_work (dl_catch error s) < dl_work s" for error
    using finish by (simp add: dl_work_catch_less phase_rank_def)
  ultimately show ?case
    by (auto simp: dl_finish_def Let_def split: sum.split) (simp_all add: dl_work_def phase_rank_def)
next
  case (settle i s m r)
  then show ?case using dl_work_settle by blast
next
  case (source_fail s error)
  then show ?case by (simp add: dl_work_catch_less phase_rank_def)
next
  case (capacity_fail s p error)
  then show ?case by (simp add: dl_work_catch_less phase_rank_def)
next
  case (flush_fail s final error)
  then show ?case by (simp add: dl_work_catch_less phase_rank_def)
next
  case (all_fail s k p b error)
  then show ?case by (simp add: dl_work_catch_less phase_rank_def)
qed (auto simp: dl_work_def phase_rank_def dl_start_def running_def length_update_le)

lemma dl_not_stuck:
  assumes inv: "dl_inv env items s" and unpaused: "\<not> dl_paused s" and settles: "\<forall>m. \<exists>r. de_block env m r"
    and going: "dl_phase s \<noteq> DlDone" "\<not> dl_threw s"
  shows "\<exists>s'. dl_step env s s' \<and> dl_work s' < dl_work s"
proof -
  have entries: "dl_entries env s" using inv going by (simp add: dl_inv_def)
  have settle: ?thesis if "p < length (dl_promises s)" "snd (dl_promises s ! p) = Running" for p
  proof -
    from that(2) obtain m where m: "dl_promises s ! p = (m, Running)" by (cases "dl_promises s ! p") auto
    moreover from settles obtain r where "de_block env m r" by blast
    ultimately show ?thesis using dl_step.settle [of p s m env r] dl_work_settle [of p s m r] that(1) by blast
  qed
  have lt: "dl_work (dl_catch error s) < dl_work s" if "0 < phase_rank (dl_phase s)" for error
    using that by (rule dl_work_catch_less)
  show ?thesis
  proof (cases "dl_phase s")
    case DlKeys
    then show ?thesis by (intro exI conjI, rule keys_ok) (simp_all add: dl_work_def phase_rank_def)
  next
    case DlIterate
    show ?thesis
    proof (cases "dl_source s")
      case (Cons item rest)
      then have "dl_work (dl_receive env item s) < dl_work s"
        by (cases item) (simp_all add: dl_work_def dl_receive_def phase_rank_def DlIterate)
      with receive [OF DlIterate Cons] show ?thesis by blast
    next
      case Nil
      show ?thesis
      proof (cases "dl_source_end s")
        case None
        then show ?thesis
          by (intro exI conjI, rule source_end [OF DlIterate Nil]) (simp_all add: dl_work_def phase_rank_def DlIterate)
      next
        case (Some error)
        have "dl_work (dl_catch error s) < dl_work s" by (simp add: lt phase_rank_def DlIterate)
        with source_fail [OF DlIterate Nil Some] show ?thesis by blast
      qed
    qed
  next
    case (DlWaitPaused m)
    then show ?thesis
      using start [OF DlWaitPaused] unpaused
      by (intro exI conjI, blast) (simp add: dl_work_def dl_start_def running_def phase_rank_def length_update_le)
  next
    case DlWaitCapacity
    show ?thesis
    proof (cases "length (dl_ongoingDownloads s) < MAX_DOWNLOAD_BLOCK_SIZE \<or> isNextBlockDownloaded s \<or> ongoingDownloadPromises s = []")
      case True
      then show ?thesis
        by (intro exI conjI, rule capacity_ok [OF DlWaitCapacity]) (simp_all add: dl_work_def phase_rank_def DlWaitCapacity)
    next
      case False
      then obtain p where p: "p \<in> set (ongoingDownloadPromises s)" by (cases "ongoingDownloadPromises s") auto
      then obtain k where "(k, p, None) \<in> set (dl_ongoingDownloads s)" by (auto simp: ongoingDownloadPromises_def)
      with entries have "map_of (dl_ongoingDownloads s) k = Some (p, None)" by (simp add: dl_entries_def)
      with entries have e: "p < length (dl_promises s)" "snd (dl_promises s ! p) \<noteq> Fulfilled"
        unfolding dl_entries_def entry_ok_def by fastforce+
      show ?thesis
      proof (cases "snd (dl_promises s ! p)")
        case (Rejected error)
        have "dl_work (dl_catch error s) < dl_work s" by (simp add: lt phase_rank_def DlWaitCapacity)
        moreover have "dl_step env s (dl_catch error s)"
          using False by (intro capacity_fail [OF DlWaitCapacity _ _ p e(1) Rejected]) simp_all
        ultimately show ?thesis by blast
      qed (use e settle in auto)
    qed
  next
    case (DlFlush final)
    show ?thesis
    proof (cases "isNextBlockDownloaded s")
      case True
      then obtain p b where "map_of (dl_ongoingDownloads s) (dl_nextBlockIndex s) = Some (p, Some b)"
        by (auto simp: isNextBlockDownloaded_iff)
      then have "dl_work (dl_flush s) < dl_work s"
        using length_delete_less [of "dl_ongoingDownloads s" "dl_nextBlockIndex s"] by (simp add: dl_flush_def dl_work_def)
      with flush_block [OF DlFlush True] show ?thesis by blast
    next
      case False
      have "dl_work (s\<lparr>dl_phase := (if final then DlFinish else DlIterate)\<rparr>) < dl_work s"
        by (simp add: dl_work_def phase_rank_def DlFlush)
      with flush_end [OF DlFlush False] show ?thesis by blast
    qed
  next
    case DlAwaitAll
    show ?thesis
    proof (cases "\<forall>(k, p, b) \<in> set (dl_ongoingDownloads s). p < length (dl_promises s) \<and> snd (dl_promises s ! p) = Fulfilled")
      case True
      have "dl_work (s\<lparr>dl_phase := DlFlush True\<rparr>) < dl_work s"
        by (simp add: dl_work_def phase_rank_def DlAwaitAll)
      with all_ok [OF DlAwaitAll True] show ?thesis by blast
    next
      case False
      then obtain k p b where kp: "(k, p, b) \<in> set (dl_ongoingDownloads s)"
        "\<not> (p < length (dl_promises s) \<and> snd (dl_promises s ! p) = Fulfilled)" by blast
      with entries have "map_of (dl_ongoingDownloads s) k = Some (p, b)" by (simp add: dl_entries_def)
      with entries have p: "p < length (dl_promises s)" unfolding dl_entries_def entry_ok_def by fastforce
      show ?thesis
      proof (cases "snd (dl_promises s ! p)")
        case (Rejected error)
        have "dl_work (dl_catch error s) < dl_work s" by (simp add: lt phase_rank_def DlAwaitAll)
        with all_fail [OF DlAwaitAll kp(1) p Rejected] show ?thesis by blast
      qed (use kp(2) p settle in auto)
    qed
  next
    case DlFinish
    have "dl_work (dl_finish env s) < dl_work s"
      using lt by (auto simp: dl_finish_def Let_def DlFinish phase_rank_def split: sum.split)
        (simp_all add: dl_work_def phase_rank_def DlFinish)
    then show ?thesis using finish [OF DlFinish] by blast
  qed (use going in \<open>auto simp: dl_threw_def\<close>)
qed


text \<open>A run of a download of one block, to its end.\<close>

definition example_items :: "block_item list" where
  "example_items = [ManifestSignature (Some ''s''), BlockItem (example_block 1 ''h7'')]"

definition example_env :: "nat dl_env" where
  "example_env = \<lparr>de_crypto = example_crypto, de_author = VerifiedAuthor None, de_nodeKey = 1, de_ignoreIntegrityErrors = False,
     de_ignoreManifestVerification = False, de_block = block_outcome example_crypto False\<rparr>"

lemma block_outcome_example: "block_outcome example_crypto False (example_block 1 ''h7'') (Inr [7])"
  unfolding block_outcome_def
  by (rule exI [of _ "\<lambda>_ _. \<lparr>at_progress = [], at_result = Inr [7]\<rparr>"], rule exI [of _ "\<lambda>_. Inl (ThrownValue [])"],
      rule exI [of _ "\<lambda>_. False"], rule exI [of _ "Suc 0"], rule exI [of _ "[]"])
    (simp add: downloadBlockData.simps(2) attempt_block_Inr attempt_block_def verifyBlockIntegrity_def decryptBlock_def
      example_crypto_def example_block_def)

lemma block_outcome_total: "\<exists>r. block_outcome cr ign m r"
proof -
  show ?thesis
    unfolding block_outcome_def
    by (rule exI [of _ "Inl (throw_new AbortError ''Operation aborted'')"],
        rule exI [of _ "\<lambda>_ _. \<lparr>at_progress = [], at_result = Inl (ThrownValue [])\<rparr>"],
        rule exI [of _ "\<lambda>_. Inl (ThrownValue [])"], rule exI [of _ "\<lambda>_. True"], rule exI [of _ "Suc 0"],
        rule exI [of _ "[]"])
      (simp add: downloadBlockData.simps(2) attempt_block_def)
qed

lemma example_run:
  "\<exists>s. dl_reach example_env (dl_init example_items None) s \<and> dl_phase s = DlDone \<and> dl_written s = [[7]]"
proof -
  let ?m = "example_block 1 ''h7''"
  define s0 where "s0 = dl_init example_items None"
  define s1 where "s1 = s0\<lparr>dl_phase := DlIterate\<rparr>"
  define s2 where "s2 = dl_receive example_env (ManifestSignature (Some ''s'')) s1"
  define s3 where "s3 = dl_receive example_env (BlockItem ?m) s2"
  define s4 where "s4 = dl_start ?m s3"
  define s5 where "s5 = s4\<lparr>dl_phase := DlFlush False\<rparr>"
  define s6 where "s6 = s5\<lparr>dl_phase := DlIterate\<rparr>"
  define s7 where "s7 = s6\<lparr>dl_phase := DlAwaitAll\<rparr>"
  define s8 where "s8 = dl_settle 0 (Inr [7]) s7"
  define s9 where "s9 = s8\<lparr>dl_phase := DlFlush True\<rparr>"
  define s10 where "s10 = dl_flush s9"
  define s11 where "s11 = s10\<lparr>dl_phase := DlFinish\<rparr>"
  note defs = s0_def s1_def s2_def s3_def s4_def s5_def s6_def s7_def s8_def s9_def s10_def s11_def
  note eval = dl_init_def dl_receive_def dl_start_def dl_settle_def dl_flush_def example_items_def example_block_def
    isNextBlockDownloaded_def MAX_DOWNLOAD_BLOCK_SIZE_def
  have "dl_reach example_env s0 s1"
    unfolding s1_def by (rule dl_reach_step [OF dl_reach_refl keys_ok]) (simp add: s0_def dl_init_def)
  then have "dl_reach example_env s0 s2"
    unfolding s2_def by (rule dl_reach_step [OF _ receive]) (simp_all add: defs eval)
  then have "dl_reach example_env s0 s3"
    unfolding s3_def by (rule dl_reach_step [OF _ receive]) (simp_all add: defs eval)
  then have "dl_reach example_env s0 s4"
    unfolding s4_def by (rule dl_reach_step [OF _ start]) (simp_all add: defs eval)
  then have "dl_reach example_env s0 s5"
    unfolding s5_def by (rule dl_reach_step [OF _ capacity_ok]) (simp_all add: defs eval)
  then have "dl_reach example_env s0 (s5\<lparr>dl_phase := (if False then DlFinish else DlIterate)\<rparr>)"
    by (rule dl_reach_step [OF _ flush_end]) (simp_all add: defs eval)
  then have "dl_reach example_env s0 s6" by (simp add: s6_def)
  then have "dl_reach example_env s0 s7"
    unfolding s7_def by (rule dl_reach_step [OF _ source_end]) (simp_all add: defs eval)
  then have "dl_reach example_env s0 s8"
    unfolding s8_def by (rule dl_reach_step [OF _ settle [where m = ?m]])
      (use block_outcome_example in \<open>simp_all add: defs eval example_env_def\<close>)
  then have "dl_reach example_env s0 s9"
    unfolding s9_def by (rule dl_reach_step [OF _ all_ok]) (simp_all add: defs eval)
  then have "dl_reach example_env s0 s10"
    unfolding s10_def by (rule dl_reach_step [OF _ flush_block]) (simp_all add: defs eval)
  then have "dl_reach example_env s0 (s10\<lparr>dl_phase := (if True then DlFinish else DlIterate)\<rparr>)"
    by (rule dl_reach_step [OF _ flush_end]) (simp_all add: defs eval)
  then have "dl_reach example_env s0 s11" by (simp add: s11_def)
  then have "dl_reach example_env s0 (dl_finish example_env s11)"
    by (rule dl_reach_step [OF _ finish]) (simp add: defs eval)
  moreover have "dl_phase (dl_finish example_env s11) = DlDone" "dl_written (dl_finish example_env s11) = [[7]]"
    by (simp_all add: dl_finish_def defs eval example_env_def verifyManifest_def getRevisionVerificationKeys_def
        example_crypto_def present_def)
  ultimately show ?thesis unfolding s0_def by blast
qed

lemma example_listing:
  "listed_blocks example_items = [example_block 1 ''h7'']" "map bm_index (listed_blocks example_items) = [1..<Suc 1]"
  by (simp_all add: example_items_def example_block_def)


theorem download_window_witness:
  "\<exists>s. dl_reach example_env (dl_init example_items None) s \<and> dl_phase s = DlDone
     \<and> length (dl_ongoingDownloads s) \<le> 10 \<and> block_outcome example_crypto False (example_block 1 ''h7'') (Inr (dl_written s ! 0))"
proof -
  obtain s where s: "dl_reach example_env (dl_init example_items None) s" "dl_phase s = DlDone" "dl_written s = [[7]]"
    using example_run by blast
  from download_window [OF example_listing(2) s(1)] s show ?thesis
    by (auto simp: example_env_def example_listing)
qed


text \<open>
  Aborting between pages is not an error to the block loop. A download whose signal is
  already aborted when it starts lists nothing, and then succeeds without writing anything if the
  checks are waived, and otherwise fails for a missing signature instead of with an abort.
\<close>

theorem aborted_download_is_empty_success:
  "\<exists>items end s. iterateRevisionBlocks page (\<lambda>_. True) (Suc fuel) 0 1 = Some (items, end)
     \<and> dl_reach env (dl_init items end) s \<and> dl_aborted s \<and> dl_written s = []
     \<and> dl_phase s = (if de_ignoreIntegrityErrors env \<or> de_ignoreManifestVerification env then DlDone
                     else DlThrew (throw_new IntegrityError ''Missing integrity signature''))"
proof -
  define s0 where "s0 = dl_init [] None"
  define s1 where "s1 = s0\<lparr>dl_aborted := True\<rparr>"
  define s2 where "s2 = s1\<lparr>dl_phase := DlIterate\<rparr>"
  define s3 where "s3 = s2\<lparr>dl_phase := DlAwaitAll\<rparr>"
  define s4 where "s4 = s3\<lparr>dl_phase := DlFlush True\<rparr>"
  define s5 where "s5 = s4\<lparr>dl_phase := (if True then DlFinish else DlIterate)\<rparr>"
  note defs = s0_def s1_def s2_def s3_def s4_def s5_def dl_init_def
  have "dl_reach env s0 s1" unfolding s1_def by (rule dl_reach_step [OF dl_reach_refl dl_step.abort])
  then have "dl_reach env s0 s2" unfolding s2_def by (rule dl_reach_step [OF _ keys_ok]) (simp add: defs)
  then have "dl_reach env s0 s3" unfolding s3_def by (rule dl_reach_step [OF _ source_end]) (simp_all add: defs)
  then have "dl_reach env s0 s4" unfolding s4_def by (rule dl_reach_step [OF _ all_ok]) (simp_all add: defs)
  then have "dl_reach env s0 s5" unfolding s5_def
    by (rule dl_reach_step [OF _ flush_end]) (simp_all add: defs isNextBlockDownloaded_def)
  then have "dl_reach env s0 (dl_finish env s5)" by (rule dl_reach_step [OF _ finish]) (simp add: defs)
  moreover have "dl_aborted (dl_finish env s5) \<and> dl_written (dl_finish env s5) = []
      \<and> dl_phase (dl_finish env s5) = (if de_ignoreIntegrityErrors env \<or> de_ignoreManifestVerification env then DlDone
                     else DlThrew (throw_new IntegrityError ''Missing integrity signature''))"
    by (simp add: dl_finish_def defs verifyManifest_def present_def dl_catch_def throw_new_def Let_def subclass_evals)
  moreover have "iterateRevisionBlocks page (\<lambda>_. True) (Suc fuel) 0 1 = Some ([], None)" by simp
  ultimately show ?thesis unfolding s0_def by blast
qed

definition dl_released :: "block_item list \<Rightarrow> dl_state \<Rightarrow> bool" where
  "dl_released items s \<longleftrightarrow>
     (case dl_phase s of
        DlDone \<Rightarrow> dl_finishCalls s = 1
      | DlThrew e \<Rightarrow> dl_finishCalls s = 1 \<or> dl_finishCalls s = 0 \<and> dl_source s = items \<and> dl_promises s = []
      | DlKeys \<Rightarrow> dl_finishCalls s = 0 \<and> dl_source s = items \<and> dl_promises s = []
      | _ \<Rightarrow> dl_finishCalls s = 0)"

lemma dl_released_catch: "dl_finishCalls s = 0 \<Longrightarrow> dl_released items (dl_catch error s)"
  by (auto simp: dl_released_def dl_catch_def split: thrown.split)

lemma dl_released_step:
  assumes "dl_step env s s'" "dl_released items s"
  shows "dl_released items s'"
  using assms(1)
proof cases
  case (receive item rest)
  with assms(2) show ?thesis by (cases item) (simp_all add: dl_released_def dl_receive_def)
next
  case (settle i m r)
  then have "dl_promises s \<noteq> []" by auto
  with settle(1) assms(2) show ?thesis by (auto simp: dl_released_def split: dl_phase.splits)
next
  case finish
  with assms(2) have "dl_finishCalls s = 0" by (simp add: dl_released_def)
  with finish show ?thesis
    by (auto simp: dl_finish_def Let_def dl_released_catch split: sum.split) (simp_all add: dl_released_def)
next
  case source_fail
  with assms(2) show ?thesis by (auto simp: dl_released_def intro!: dl_released_catch [unfolded dl_released_def])
next
  case capacity_fail
  with assms(2) show ?thesis by (auto simp: dl_released_def intro!: dl_released_catch [unfolded dl_released_def])
next
  case (flush_fail final)
  with assms(2) show ?thesis by (auto simp: dl_released_def intro!: dl_released_catch [unfolded dl_released_def])
next
  case all_fail
  with assms(2) show ?thesis by (auto simp: dl_released_def intro!: dl_released_catch [unfolded dl_released_def])
qed (use assms(2) in \<open>auto simp: dl_released_def dl_start_def split: dl_phase.splits\<close>)

text \<open>
  \<open>onFinish\<close>, which gives the download's place in the queue back, is called exactly once when
  a download succeeds and once when it fails, except when getting the revision's keys fails: that
  is outside the \<open>try\<close>, the download has failed and its place is never given back.
\<close>

theorem download_releases_its_slot:
  assumes "dl_reach env (dl_init items end) s"
  shows "(case dl_phase s of
        DlDone \<Rightarrow> dl_finishCalls s = 1
      | DlThrew e \<Rightarrow> dl_finishCalls s = 1 \<or> dl_finishCalls s = 0 \<and> dl_source s = items \<and> dl_promises s = []
      | _ \<Rightarrow> dl_finishCalls s = 0)
     \<and> (\<exists>s. dl_reach env (dl_init items end) s \<and> dl_phase s = DlThrew error \<and> dl_finishCalls s = 0)"
proof
  have "dl_released items s"
    using assms
  proof (induction rule: dl_reach.induct)
    case dl_reach_refl
    show ?case by (simp add: dl_released_def dl_init_def)
  qed (rule dl_released_step)
  then show "case dl_phase s of
        DlDone \<Rightarrow> dl_finishCalls s = 1
      | DlThrew e \<Rightarrow> dl_finishCalls s = 1 \<or> dl_finishCalls s = 0 \<and> dl_source s = items \<and> dl_promises s = []
      | _ \<Rightarrow> dl_finishCalls s = 0"
    by (auto simp: dl_released_def split: dl_phase.splits)
  have "dl_reach env (dl_init items end) ((dl_init items end)\<lparr>dl_phase := DlThrew error\<rparr>)"
    by (rule dl_reach_step [OF dl_reach_refl keys_fail]) (simp add: dl_init_def)
  then show "\<exists>s. dl_reach env (dl_init items end) s \<and> dl_phase s = DlThrew error \<and> dl_finishCalls s = 0"
    by (rule exI [of _ "(dl_init items end)\<lparr>dl_phase := DlThrew error\<rparr>", OF conjI]) (simp add: dl_init_def)
qed

theorem download_releases_its_slot_witness:
  "\<exists>s. dl_reach example_env (dl_init example_items None) s \<and> dl_phase s = DlDone \<and> dl_finishCalls s = 1"
  using example_run download_releases_its_slot [of example_env example_items None] by fastforce

end
