(* ===== verification/UploadStream.thy ===== *)
theory UploadStream
  imports Errors Iterators
begin

text \<open>
  Reading the content of an upload: \<^verbatim>\<open>internal/upload/chunkStreamReader.ts\<close>,
  \<^verbatim>\<open>streamReader.ts\<close> and the verification token of \<^verbatim>\<open>cryptoService.ts\<close>. A stream is the
  list of the values its reader gives before \<open>done\<close>.
\<close>

section \<open>Chunks\<close>

text \<open>\<open>buffer.set(value, position)\<close>, the value fitting into the buffer.\<close>

definition buffer_set :: "'b list \<Rightarrow> nat \<Rightarrow> 'b list \<Rightarrow> 'b list" where
  "buffer_set buffer position v = take position buffer @ v @ drop (position + length v) buffer"

text \<open>
  The inner loop of \<open>iterateChunks\<close> on one value: the chunks it yields, each the content of the
  reused buffer at that moment, the buffer and the position after it. With a chunk size of 0 it
  never ends, which is \<open>None\<close>.
\<close>

partial_function (option) chunk_value ::
  "nat \<Rightarrow> 'b list \<Rightarrow> nat \<Rightarrow> 'b list \<Rightarrow> ('b list list \<times> 'b list \<times> nat) option"
where
  "chunk_value chunkSize buffer position remainingValue =
     (if remainingValue = [] then Some ([], buffer, position)
      else if position + length remainingValue < chunkSize
      then Some ([], buffer_set buffer position remainingValue, position + length remainingValue)
      else
        let remainingToFillBuffer = chunkSize - position;
            buffer' = buffer_set buffer position (take remainingToFillBuffer remainingValue)
        in Option.bind (chunk_value chunkSize buffer' 0 (drop remainingToFillBuffer remainingValue))
             (\<lambda>(chunks, result). Some (buffer' # chunks, result)))"

declare chunk_value.simps [code]

fun iterate_chunks :: "nat \<Rightarrow> 'b list \<Rightarrow> nat \<Rightarrow> 'b list list \<Rightarrow> 'b list list option" where
  "iterate_chunks chunkSize buffer position [] = Some (if position > 0 then [take position buffer] else [])"
| "iterate_chunks chunkSize buffer position (v # vs) =
     (case chunk_value chunkSize buffer position v of
        None \<Rightarrow> None
      | Some (chunks, buffer', position') \<Rightarrow> map_option ((@) chunks) (iterate_chunks chunkSize buffer' position' vs))"

text \<open>The buffer starts with zeros.\<close>

definition iterateChunks :: "nat \<Rightarrow> bytes list \<Rightarrow> bytes list option" where
  "iterateChunks chunkSize stream = iterate_chunks chunkSize (replicate chunkSize 0) 0 stream"

text \<open>The reference: a list cut into pieces of a given length.\<close>

function chop :: "nat \<Rightarrow> 'b list \<Rightarrow> 'b list list" where
  "chop n xs = (if n = 0 \<or> xs = [] then [] else take n xs # chop n (drop n xs))"
  by pat_completeness auto
termination
  by (relation "measure (length \<circ> snd)") auto

declare chop.simps [simp del]

lemma chop_Nil [simp]: "chop n [] = []"
  by (simp add: chop.simps)

lemma chop_short: "xs \<noteq> [] \<Longrightarrow> length xs \<le> n \<Longrightarrow> chop n xs = [xs]"
  by (cases n) (simp_all add: chop.simps [of "Suc m" xs for m])

lemma chop_step: "length xs = n \<Longrightarrow> 0 < n \<Longrightarrow> chop n (xs @ ys) = xs # chop n ys"
  by (subst chop.simps) auto

lemma concat_chop: "0 < n \<Longrightarrow> concat (chop n xs) = xs"
  by (induction n xs rule: chop.induct) (subst chop.simps, auto)

lemma chop_sizes: "0 < n \<Longrightarrow> c \<in> set (chop n xs) \<Longrightarrow> c \<noteq> [] \<and> length c \<le> n"
proof (induction n xs rule: chop.induct)
  case (1 n xs)
  then show ?case
    by (cases "xs = []") (auto simp: chop.simps [of n xs])
qed

lemma length_chop: "0 < n \<Longrightarrow> length (chop n xs) = (length xs + n - 1) div n"
proof (induction n xs rule: chop.induct)
  case (1 n xs)
  show ?case
  proof (cases "xs = []")
    case True
    with 1 show ?thesis by simp
  next
    case False
    with 1 have "length (chop n xs) = 1 + (length (drop n xs) + n - 1) div n"
      by (subst chop.simps) simp
    also have "\<dots> = (length xs + n - 1) div n"
    proof (cases "length xs \<le> n")
      case True
      have "(length xs + n - 1) div n = 1"
        using True False 1(2) by (intro div_nat_eqI) (cases xs; simp)+
      moreover have "(0 + n - 1) div n = 0" using 1(2) by simp
      ultimately show ?thesis using True by simp
    next
      case False
      then obtain d where "length xs = d + n" by (metis add.commute le_Suc_ex less_imp_le_nat not_le)
      have shift: "d + n + n - 1 = (d + n - 1) + n" using 1(2) by simp
      have "(d + n + n - 1) div n = (d + n - 1) div n + 1"
        unfolding shift using 1(2) by (simp only: div_add_self2)
      with \<open>length xs = d + n\<close> show ?thesis by simp
    qed
    finally show ?thesis .
  qed
qed

lemma length_buffer_set: "position + length v \<le> length buffer \<Longrightarrow> length (buffer_set buffer position v) = length buffer"
  by (simp add: buffer_set_def)

lemma take_buffer_set: "position + length v \<le> length buffer \<Longrightarrow>
    take (position + length v) (buffer_set buffer position v) = take position buffer @ v"
  by (simp add: buffer_set_def)

lemma chunk_value_chops:
  assumes "0 < n" "length buffer = n" "position < n"
  shows "\<exists>chunks buffer' position'. chunk_value n buffer position v = Some (chunks, buffer', position')
     \<and> length buffer' = n \<and> position' < n
     \<and> (\<forall>rest. chop n (take position buffer @ v @ rest) = chunks @ chop n (take position' buffer' @ rest))"
  using assms
proof (induction "length v" arbitrary: v buffer position rule: less_induct)
  case less
  show ?case
  proof (cases "v = [] \<or> position + length v < n")
    case True
    with less.prems show ?thesis
      by (subst chunk_value.simps)
        (auto simp: length_buffer_set take_buffer_set)
  next
    case False
    define k where "k = n - position"
    define filled where "filled = buffer_set buffer position (take k v)"
    from False less.prems have k: "0 < k" "k \<le> length v" "position + k = n" by (auto simp: k_def)
    then have filled: "length filled = n" "filled = take position buffer @ take k v"
      using less.prems by (auto simp: filled_def buffer_set_def)
    have "length (drop k v) < length v" using k by auto
    from less.hyps [OF this less.prems(1) filled(1) less.prems(1)] obtain chunks buffer' position' where
      r: "chunk_value n filled 0 (drop k v) = Some (chunks, buffer', position')" "length buffer' = n" "position' < n"
        "\<And>rest. chop n (drop k v @ rest) = chunks @ chop n (take position' buffer' @ rest)" by auto
    have "chunk_value n buffer position v = Some (filled # chunks, buffer', position')"
      using False r(1) by (subst chunk_value.simps) (simp add: Let_def k_def [symmetric] filled_def [symmetric])
    moreover have "chop n (take position buffer @ v @ rest) = (filled # chunks) @ chop n (take position' buffer' @ rest)" for rest
    proof -
      have "take position buffer @ v @ rest = filled @ drop k v @ rest" by (simp add: filled(2))
      then show ?thesis using chop_step [OF filled(1) less.prems(1)] r(4) by (simp only: append_Cons)
    qed
    ultimately show ?thesis using r(2,3) by blast
  qed
qed

lemma iterate_chunks_chops:
  "0 < n \<Longrightarrow> length buffer = n \<Longrightarrow> position < n \<Longrightarrow>
     iterate_chunks n buffer position vs = Some (chop n (take position buffer @ concat vs))"
proof (induction vs arbitrary: buffer position)
  case Nil
  then have "chop n (take position buffer) = [take position buffer]" if "position \<noteq> 0"
    using that by (intro chop_short) auto
  then show ?case by simp
next
  case (Cons v vs)
  from chunk_value_chops [OF Cons.prems, of v] obtain chunks buffer' position' where
    r: "chunk_value n buffer position v = Some (chunks, buffer', position')" "length buffer' = n" "position' < n"
      "\<And>rest. chop n (take position buffer @ v @ rest) = chunks @ chop n (take position' buffer' @ rest)" by blast
  with Cons.IH [OF Cons.prems(1) r(2,3)] show ?case by simp
qed

text \<open>
  C11: whatever pieces a stream delivers its bytes in, the chunk reader ends and yields these bytes
  cut into pieces of the chunk size: none empty, all but the last full, as many as the size
  divided by the chunk size rounded up, and nothing lost or repeated.
\<close>

theorem chunks_are_content:
  assumes "0 < chunkSize"
  shows "\<exists>chunks. iterateChunks chunkSize stream = Some chunks \<and> chunks = chop chunkSize (concat stream)
     \<and> concat chunks = concat stream \<and> (\<forall>c \<in> set chunks. c \<noteq> [] \<and> length c \<le> chunkSize)
     \<and> (\<forall>i. i + 1 < length chunks \<longrightarrow> length (chunks ! i) = chunkSize)
     \<and> length chunks = (length (concat stream) + chunkSize - 1) div chunkSize"
proof -
  have full: "i + 1 < length (chop n xs) \<Longrightarrow> length (chop n xs ! i) = n" for i n and xs :: bytes
  proof (induction n xs arbitrary: i rule: chop.induct)
    case (1 n xs)
    then show ?case
      by (cases "n = 0 \<or> xs = []"; cases i; cases "length xs \<le> n") (auto simp: chop.simps [of n xs])
  qed
  have "iterateChunks chunkSize stream = Some (chop chunkSize (concat stream))"
    using assms by (simp add: iterateChunks_def iterate_chunks_chops)
  moreover have "\<forall>c \<in> set (chop chunkSize (concat stream)). c \<noteq> [] \<and> length c \<le> chunkSize"
    using chop_sizes [OF assms] by blast
  ultimately show ?thesis
    using assms by (simp add: concat_chop length_chop full)
qed

theorem chunks_are_content_witness:
  "iterateChunks 3 [[1, 2], [], [3, 4, 5, 6, 7]] = Some [[1, 2, 3], [4, 5, 6], [7]]"
  using chunks_are_content [of 3 "[[1, 2], [], [3, 4, 5, 6, 7]]"] by (simp add: chop.simps)

section \<open>Whole streams\<close>

text \<open>
  \<open>readStreamToUint8Array\<close>: \<open>aborted n\<close> is the signal after the \<open>n\<close>-th value.
\<close>

fun read_values :: "(nat \<Rightarrow> bool) \<Rightarrow> nat \<Rightarrow> bytes list \<Rightarrow> thrown + bytes list" where
  "read_values aborted n [] = Inr []"
| "read_values aborted n (v # vs) =
     (if aborted n then Inl (throw_new AbortError '''')
      else try_bind (read_values aborted (n + 1) vs) (\<lambda>chunks. Inr (v # chunks)))"

definition readStreamToUint8Array :: "(nat \<Rightarrow> bool) \<Rightarrow> bytes list \<Rightarrow> thrown + bytes" where
  "readStreamToUint8Array aborted stream = try_bind (read_values aborted 0 stream) (\<lambda>chunks. Inr (concat chunks))"

section \<open>Block verification\<close>

text \<open>\<open>verifyBlock\<close>: \<open>decrypts\<close> says whether the encrypted block can be decrypted again.\<close>

definition verificationToken :: "bytes \<Rightarrow> bytes \<Rightarrow> bytes" where
  "verificationToken verificationCode encryptedData =
     map (\<lambda>(i, v). xor v (if i < length encryptedData then encryptedData ! i else 0))
       (enumerate 0 verificationCode)"

definition verifyBlock :: "(bytes \<Rightarrow> bool) \<Rightarrow> bytes \<Rightarrow> bytes \<Rightarrow> thrown + bytes" where
  "verifyBlock decrypts verificationCode encryptedData =
     (if decrypts encryptedData then Inr (verificationToken verificationCode encryptedData)
      else Inl (throw_new IntegrityError ''Data integrity check of one part failed''))"

end
