(* ===== verification/StreamUpload.thy ===== *)
theory StreamUpload
  imports UploadStream "HOL-Library.AList" "HOL-Library.Multiset"
begin

text \<open>
  Uploading a file's content: \<^verbatim>\<open>internal/upload/streamUploader.ts\<close>. The retry loops of a block's
  encryption and upload are functions of what each attempt gives. The uploader itself is a step
  relation: encryption reads and encrypts chunk after chunk while the main loop requests upload
  tokens and starts uploads, which settle at any time, and the client may pause, resume and abort
  between any two steps.

  Encryption, hashing, the token requests and the commit are third-party or other components:
  the first are functions of the environment, the others may answer anything. After the upload
  has ended only the encryption goes on being modelled.
\<close>

section \<open>One block\<close>

definition FILE_CHUNK_SIZE :: nat where "FILE_CHUNK_SIZE = 4 * 1024 * 1024"
definition MAX_BUFFERED_BLOCKS :: nat where "MAX_BUFFERED_BLOCKS = 15"
definition MAX_UPLOADING_BLOCKS :: nat where "MAX_UPLOADING_BLOCKS = 5"
definition MAX_BLOCK_ENCRYPTION_RETRIES :: nat where "MAX_BLOCK_ENCRYPTION_RETRIES = 1"
definition MAX_BLOCK_UPLOAD_RETRIES :: nat where "MAX_BLOCK_UPLOAD_RETRIES = 3"

text \<open>The encryption loop: \<open>result n\<close> is what the \<open>n\<close>-th attempt, from 1 on, gives.\<close>

function encrypt_attempts :: "(nat \<Rightarrow> thrown + 'e) \<Rightarrow> nat \<Rightarrow> thrown + 'e" where
  "encrypt_attempts result attempt =
     (case result attempt of
        Inr encryptedBlock \<Rightarrow> Inr encryptedBlock
      | Inl error \<Rightarrow>
          if instanceof error AbortError then Inl error
          else if attempt \<le> MAX_BLOCK_ENCRYPTION_RETRIES then encrypt_attempts result (attempt + 1)
          else Inl error)"
  by pat_completeness auto
termination
  by (relation "measure (\<lambda>(result, attempt). 2 - attempt)") (auto simp: MAX_BLOCK_ENCRYPTION_RETRIES_def)

declare encrypt_attempts.simps [simp del]

text \<open>
  \<open>uploadBlock\<close>: the loop from its \<open>k\<close>-th round on. \<open>stopped k\<close> is \<open>isUploadAborted\<close> before the
  round's request, with the error then thrown, \<open>aborted k\<close> after it; \<open>token k\<close> answers the request
  for a new token. The result is the error and whether it aborts the whole upload; beside it is
  what is reported to \<open>onProgress\<close>.
\<close>

definition rollback :: "nat list \<Rightarrow> int list" where
  "rollback progress = map int progress @ (if sum_list progress \<noteq> 0 then [- int (sum_list progress)] else [])"

definition upload_timeout :: "thrown \<Rightarrow> bool" where
  "upload_timeout error \<longleftrightarrow> (case error of ThrownError e \<Rightarrow> err_name e = ''TimeoutError'' | ThrownValue _ \<Rightarrow> False)"

definition upload_token_expired :: "thrown \<Rightarrow> bool" where
  "upload_token_expired error \<longleftrightarrow>
     (case error of ThrownError e \<Rightarrow> instanceof error APIHTTPError \<and> err_statusCode e = Some HTTP_NOT_FOUND
                  | ThrownValue _ \<Rightarrow> False)
     \<or> instanceof error NotFoundAPIError"

fun uploadBlock ::
  "(nat \<Rightarrow> nat list \<times> (thrown + unit)) \<Rightarrow> (nat \<Rightarrow> thrown option) \<Rightarrow> (nat \<Rightarrow> bool) \<Rightarrow> (nat \<Rightarrow> thrown + unit)
     \<Rightarrow> nat \<Rightarrow> nat \<Rightarrow> nat \<Rightarrow> (((thrown \<times> bool) + unit) \<times> int list) option"
where
  "uploadBlock request stopped aborted token 0 k attempt = None"
| "uploadBlock request stopped aborted token (Suc fuel) k attempt =
     (case stopped k of
        Some error \<Rightarrow> Some (Inl (error, False), [])
      | None \<Rightarrow>
          let progress = fst (request k);
              again = map_option (\<lambda>(r, ps). (r, rollback progress @ ps))
                (uploadBlock request stopped aborted token fuel (k + 1) (attempt + 1))
          in case snd (request k) of
               Inr _ \<Rightarrow> Some (Inr (), map int progress)
             | Inl error \<Rightarrow>
                 if instanceof error AbortError \<or> aborted k then Some (Inl (error, False), map int progress)
                 else if upload_timeout error then again
                 else if upload_token_expired error
                 then (case token k of
                         Inl error' \<Rightarrow> Some (Inl (error', False), rollback progress)
                       | Inr _ \<Rightarrow> again)
                 else if attempt + 1 \<le> MAX_BLOCK_UPLOAD_RETRIES then again
                 else Some (Inl (error, True), rollback progress))"

declare uploadBlock.simps(2) [simp del]

lemma sum_rollback [simp]: "sum_list (rollback progress) = 0"
proof -
  have "sum_list (map int progress) = int (sum_list progress)" by (induction progress) auto
  then show ?thesis by (simp add: rollback_def)
qed

lemma uploadBlock_progress:
  "uploadBlock request stopped aborted token fuel k attempt = Some (r, ps) \<Longrightarrow>
     case r of
       Inr _ \<Rightarrow> \<exists>j \<ge> k. snd (request j) = Inr () \<and> sum_list ps = int (sum_list (fst (request j)))
     | Inl (error, abort) \<Rightarrow> (abort \<longrightarrow> sum_list ps = 0 \<and> \<not> instanceof error AbortError)"
proof (induction fuel arbitrary: k attempt ps)
  case (Suc fuel)
  have sum: "sum_list (map int xs) = int (sum_list xs)" for xs by (induction xs) auto
  have again: ?case
    if "map_option (\<lambda>(r, ps). (r, rollback (fst (request k)) @ ps))
          (uploadBlock request stopped aborted token fuel (k + 1) (attempt + 1)) = Some (r, ps)"
  proof -
    from that obtain ps' where ps': "uploadBlock request stopped aborted token fuel (k + 1) (attempt + 1) = Some (r, ps')"
      "ps = rollback (fst (request k)) @ ps'" by auto
    from Suc.IH [OF ps'(1)] show ?thesis
      by (auto simp: ps'(2) split: sum.splits dest: Suc_leD)
  qed
  show ?case
  proof (cases "stopped k")
    case (Some error)
    with Suc.prems show ?thesis by (auto simp: uploadBlock.simps(2))
  next
    case None
    show ?thesis
    proof (cases "snd (request k)")
      case (Inr u)
      with Suc.prems None show ?thesis by (auto simp: uploadBlock.simps(2) sum)
    next
      case (Inl error)
      show ?thesis
      proof (cases "instanceof error AbortError \<or> aborted k")
        case True
        with Suc.prems None Inl show ?thesis by (auto simp: uploadBlock.simps(2))
      next
        case False
        with Suc.prems None Inl again show ?thesis
          by (auto simp: uploadBlock.simps(2) Let_def split: if_splits sum.splits simp del: sum_list_append)
      qed
    qed
  qed
qed simp

lemma uploadBlock_ends:
  assumes "\<forall>j \<ge> k. \<forall>error. snd (request j) = Inl error \<longrightarrow> \<not> upload_timeout error \<and> \<not> upload_token_expired error"
    and "4 < fuel + attempt" and "0 < fuel"
  shows "uploadBlock request stopped aborted token fuel k attempt \<noteq> None"
  using assms
proof (induction fuel arbitrary: k attempt)
  case (Suc fuel)
  have "uploadBlock request stopped aborted token fuel (k + 1) (attempt + 1) \<noteq> None" if "attempt + 1 \<le> 3"
  proof (rule Suc.IH)
    show "\<forall>j \<ge> k + 1. \<forall>error. snd (request j) = Inl error \<longrightarrow> \<not> upload_timeout error \<and> \<not> upload_token_expired error"
      using Suc.prems(1) by (meson add_leD1)
  qed (use Suc.prems that in simp_all)
  moreover have "snd (request k) = Inl error \<Longrightarrow> \<not> upload_timeout error \<and> \<not> upload_token_expired error" for error
    using Suc.prems(1) by blast
  ultimately show ?case
    by (auto simp: uploadBlock.simps(2) Let_def MAX_BLOCK_UPLOAD_RETRIES_def split: option.split sum.split)
qed simp

text \<open>
  A block upload ends after at most four requests once timeouts and expired tokens stop. If it
  succeeds, the progress it reported is that of the successful request alone; if its failure
  aborts the upload, all of the progress has been taken back and the failure is not an abort.
\<close>

theorem block_upload_ends:
  assumes "\<forall>j \<ge> n. \<forall>error. snd (request j) = Inl error \<longrightarrow> \<not> upload_timeout error \<and> \<not> upload_token_expired error"
  shows "\<exists>r ps. uploadBlock request stopped aborted token (n + 5) 0 0 = Some (r, ps)
     \<and> (case r of
          Inr _ \<Rightarrow> \<exists>j. snd (request j) = Inr () \<and> sum_list ps = int (sum_list (fst (request j)))
        | Inl (error, abort) \<Rightarrow> (abort \<longrightarrow> sum_list ps = 0 \<and> \<not> instanceof error AbortError))"
proof -
  have skip: "uploadBlock request stopped aborted token (m + 5) k attempt \<noteq> None" if "n \<le> k + m" for m k attempt
    using that
  proof (induction m arbitrary: k attempt)
    case 0
    then have "n \<le> k" by simp
    with assms have "\<forall>j \<ge> k. \<forall>error. snd (request j) = Inl error \<longrightarrow> \<not> upload_timeout error \<and> \<not> upload_token_expired error"
      by (meson le_trans)
    then show ?case by (rule uploadBlock_ends) simp_all
  next
    case (Suc m)
    have "uploadBlock request stopped aborted token (m + 5) (k + 1) (attempt + 1) \<noteq> None"
      using Suc.prems by (intro Suc.IH) simp
    then show ?case
      unfolding add_Suc uploadBlock.simps(2) Let_def by (auto split: option.split sum.split)
  qed
  obtain r ps where run: "uploadBlock request stopped aborted token (n + 5) 0 0 = Some (r, ps)"
    using skip [of 0 n 0] by fastforce
  with uploadBlock_progress [OF run] show ?thesis
    by (intro exI [of _ r] exI [of _ ps] conjI) (auto split: sum.splits)
qed

theorem block_upload_ends_witness:
  "\<exists>r ps. uploadBlock (\<lambda>k. if k = 0 then ([3, 4], Inl (throw_new ConnectionError ''Lost'')) else ([5], Inr ()))
      (\<lambda>_. None) (\<lambda>_. False) (\<lambda>_. Inr ()) (1 + 5) 0 0 = Some (r, ps)"
proof -
  have "\<forall>j \<ge> (1 :: nat). \<forall>error. snd ((\<lambda>k. if k = 0 then ([3, 4], Inl (throw_new ConnectionError ''Lost'')) else ([5], Inr ())) j) = Inl error \<longrightarrow>
      \<not> upload_timeout error \<and> \<not> upload_token_expired error" by simp
  from block_upload_ends [OF this, of "\<lambda>_. None" "\<lambda>_. False" "\<lambda>_. Inr ()"] show ?thesis by blast
qed

section \<open>The uploader\<close>

record encrypted_block =
  eb_index :: nat
  eb_encryptedData :: bytes
  eb_originalSize :: nat

text \<open>
  What an upload is given. \<open>ue_encryptBlock block index data\<close>: encrypting the block may give the
  data; \<open>ue_sha256\<close> hashes encrypted data, \<open>ue_sha1\<close> the content.
\<close>

record up_env =
  ue_expectedSize :: nat
  ue_expectedSha1 :: "string option"
  ue_thumbnails :: "nat list"
  ue_encryptThumbnail :: "nat \<Rightarrow> bytes \<Rightarrow> bool"
  ue_encryptBlock :: "bytes \<Rightarrow> nat \<Rightarrow> bytes \<Rightarrow> bool"
  ue_sha256 :: "bytes \<Rightarrow> bytes"
  ue_sha1 :: "bytes \<Rightarrow> string"

datatype up_phase =
    UpThumbnails "nat list" | UpLoop | UpWaitPaused | UpWaitCapacity | UpWaitBuffered | UpRequest
  | UpCheck | UpJoinEncryption | UpJoinUploads | UpCommit | UpDone | UpThrew thrown

datatype enc_phase = EncNotStarted | EncRead | EncWaitPaused bytes | EncWaitBuffer bytes | EncEncrypt bytes | EncEnded

datatype upload_key = ThumbnailKey nat | BlockKey nat

text \<open>
  The state of a \<open>StreamUploader\<close>: its maps in the order of insertion, the phase of the main loop
  and that of \<open>encryptBlocks\<close> with the chunks it has not read. \<open>up_committed\<close> is what
  \<open>commitDraft\<close> was given: the manifest, the block sizes and whether the checksum was verified.
\<close>

record up_state =
  up_phase :: up_phase
  up_enc :: enc_phase
  up_chunks :: "bytes list"
  up_index :: nat
  up_digests :: "bytes list"
  up_encryptionError :: "thrown option"
  up_encryptedThumbnails :: "(nat \<times> bytes) list"
  up_encryptedBlocks :: "(nat \<times> encrypted_block) list"
  up_encryptionFinished :: bool
  up_ongoingUploads :: "(upload_key \<times> encrypted_block) list"
  up_uploadedThumbnails :: "(nat \<times> bytes) list"
  up_uploadedBlocks :: "encrypted_block list"
  up_maxUploadingBlocks :: nat
  up_error :: "thrown option"
  up_aborted :: bool
  up_paused :: bool
  up_finish :: "bool list"
  up_committed :: "(bytes \<times> nat list \<times> bool) option"

definition up_init :: "up_env \<Rightarrow> bytes list \<Rightarrow> up_state" where
  "up_init env chunks =
     \<lparr>up_phase = UpThumbnails (ue_thumbnails env), up_enc = EncNotStarted, up_chunks = chunks, up_index = 0, up_digests = [],
      up_encryptionError = None, up_encryptedThumbnails = [], up_encryptedBlocks = [], up_encryptionFinished = False,
      up_ongoingUploads = [], up_uploadedThumbnails = [], up_uploadedBlocks = [], up_maxUploadingBlocks = MAX_UPLOADING_BLOCKS,
      up_error = None, up_aborted = False, up_paused = False, up_finish = [], up_committed = None\<rparr>"

definition isUploadAborted :: "up_state \<Rightarrow> bool" where
  "isUploadAborted s \<longleftrightarrow> up_error s \<noteq> None \<or> up_aborted s"

definition isEncryptionFullyFinished :: "up_state \<Rightarrow> bool" where
  "isEncryptionFullyFinished s \<longleftrightarrow>
     up_encryptionFinished s \<and> up_encryptedBlocks s = [] \<and> up_encryptedThumbnails s = []"

definition abortUpload :: "thrown \<Rightarrow> up_state \<Rightarrow> up_state" where
  "abortUpload error s = (if isUploadAborted s then s else s\<lparr>up_error := Some error, up_aborted := True\<rparr>)"

text \<open>The \<open>finally\<close> of \<open>start\<close>, and a failure of it.\<close>

definition up_cleanup :: "bool \<Rightarrow> up_state \<Rightarrow> up_state" where
  "up_cleanup failure s =
     s\<lparr>up_encryptedBlocks := [], up_encryptedThumbnails := [], up_ongoingUploads := [], up_uploadedBlocks := [],
       up_uploadedThumbnails := [], up_encryptionFinished := False, up_finish := up_finish s @ [failure]\<rparr>"

definition up_fail :: "thrown \<Rightarrow> up_state \<Rightarrow> up_state" where
  "up_fail error s = (up_cleanup True s)\<lparr>up_phase := UpThrew error\<rparr>"

text \<open>The error thrown once the upload is aborted.\<close>

definition abort_reason :: "up_state \<Rightarrow> thrown" where
  "abort_reason s = (case up_error s of Some error \<Rightarrow> error | None \<Rightarrow> throw_new AbortError '''')"

text \<open>
  The uploads \<open>requestAndInitiateUpload\<close> starts for the tokens it got, thumbnails first. A token
  nobody asked for is an error, with the uploads before it started.
\<close>

definition initiate_thumbnail :: "nat \<Rightarrow> up_state \<Rightarrow> (thrown + unit) \<times> up_state" where
  "initiate_thumbnail t s =
     (case map_of (up_encryptedThumbnails s) t of
        None \<Rightarrow> (Inl (throw_new JsError ''Thumbnail not found''), s)
      | Some data \<Rightarrow>
          (Inr (), s\<lparr>up_encryptedThumbnails := AList.delete t (up_encryptedThumbnails s),
             up_ongoingUploads := AList.update (ThumbnailKey t) \<lparr>eb_index = 0, eb_encryptedData = data, eb_originalSize = 0\<rparr>
               (up_ongoingUploads s)\<rparr>))"

definition initiate_block :: "nat \<Rightarrow> up_state \<Rightarrow> (thrown + unit) \<times> up_state" where
  "initiate_block i s =
     (case map_of (up_encryptedBlocks s) i of
        None \<Rightarrow> (Inl (throw_new JsError ''Block not found''), s)
      | Some block \<Rightarrow>
          (Inr (), s\<lparr>up_encryptedBlocks := AList.delete i (up_encryptedBlocks s),
             up_ongoingUploads := AList.update (BlockKey i) block (up_ongoingUploads s)\<rparr>))"

fun initiate_all :: "(nat \<Rightarrow> up_state \<Rightarrow> (thrown + unit) \<times> up_state) \<Rightarrow> nat list \<Rightarrow> up_state \<Rightarrow> (thrown + unit) \<times> up_state" where
  "initiate_all initiate [] s = (Inr (), s)"
| "initiate_all initiate (t # ts) s =
     (case initiate t s of
        (Inl error, s') \<Rightarrow> (Inl error, s')
      | (Inr _, s') \<Rightarrow> initiate_all initiate ts s')"

definition initiateUpload :: "nat list \<Rightarrow> nat list \<Rightarrow> up_state \<Rightarrow> (thrown + unit) \<times> up_state" where
  "initiateUpload thumbnailTokens blockTokens s =
     (if isUploadAborted s then (Inl (abort_reason s), s)
      else case initiate_all initiate_thumbnail thumbnailTokens s of
             (Inl error, s') \<Rightarrow> (Inl error, s')
           | (Inr _, s') \<Rightarrow> initiate_all initiate_block blockTokens s')"

text \<open>A finished upload is recorded and leaves the map.\<close>

definition upload_done :: "upload_key \<Rightarrow> encrypted_block \<Rightarrow> up_state \<Rightarrow> up_state" where
  "upload_done key block s =
     (case key of
        ThumbnailKey t \<Rightarrow> s\<lparr>up_uploadedThumbnails := up_uploadedThumbnails s @ [(t, eb_encryptedData block)],
                         up_ongoingUploads := AList.delete key (up_ongoingUploads s)\<rparr>
      | BlockKey i \<Rightarrow> s\<lparr>up_uploadedBlocks := up_uploadedBlocks s @ [block],
                     up_ongoingUploads := AList.delete key (up_ongoingUploads s)\<rparr>)"

definition upload_failed :: "upload_key \<Rightarrow> thrown \<Rightarrow> bool \<Rightarrow> up_state \<Rightarrow> up_state" where
  "upload_failed key error abort s =
     (let s' = s\<lparr>up_ongoingUploads := AList.delete key (up_ongoingUploads s)\<rparr>
      in if abort then abortUpload error s' else s')"

section \<open>The commit\<close>

definition uploadedBlockCount :: "up_state \<Rightarrow> nat" where
  "uploadedBlockCount s = length (up_uploadedBlocks s) + length (up_uploadedThumbnails s)"

definition uploadedOriginalFileSize :: "up_state \<Rightarrow> nat" where
  "uploadedOriginalFileSize s = sum_list (map eb_originalSize (up_uploadedBlocks s))"

definition expectedBlockCount :: "up_env \<Rightarrow> nat" where
  "expectedBlockCount env = (ue_expectedSize env + FILE_CHUNK_SIZE - 1) div FILE_CHUNK_SIZE + length (ue_thumbnails env)"

definition verifyIntegrity :: "up_env \<Rightarrow> string \<Rightarrow> up_state \<Rightarrow> thrown + bool" where
  "verifyIntegrity env sha1 s =
     (if uploadedBlockCount s \<noteq> expectedBlockCount env
      then Inl (throw_new IntegrityError ''Some file parts failed to upload'')
      else if uploadedOriginalFileSize s \<noteq> ue_expectedSize env
      then Inl (throw_new IntegrityError ''Some file bytes failed to upload'')
      else case present (ue_expectedSha1 env) of
             None \<Rightarrow> Inr False
           | Some expectedSha1 \<Rightarrow>
               if sha1 \<noteq> expectedSha1
               then Inl (throw_new IntegrityError ''File hash does not match expected hash'')
               else Inr True)"

definition uploadedBlockSizes :: "up_state \<Rightarrow> nat list" where
  "uploadedBlockSizes s = map eb_originalSize (sort_key eb_index (up_uploadedBlocks s))"

definition getManifest :: "up_env \<Rightarrow> up_state \<Rightarrow> bytes option" where
  "getManifest env s =
     mergeUint8Arrays (map (ue_sha256 env \<circ> snd) (sort_key fst (up_uploadedThumbnails s))
       @ map (ue_sha256 env \<circ> eb_encryptedData) (sort_key eb_index (up_uploadedBlocks s)))"

text \<open>\<open>commitFile\<close> up to the call of \<open>commitDraft\<close>: what that is given.\<close>

definition commitFile :: "up_env \<Rightarrow> up_state \<Rightarrow> thrown + bytes \<times> nat list \<times> bool" where
  "commitFile env s =
     try_bind (verifyIntegrity env (ue_sha1 env (concat (up_digests s))) s) (\<lambda>checksumVerified.
       case getManifest env s of
         None \<Rightarrow> Inl (throw_new JsError ''offset is out of bounds'')
       | Some manifest \<Rightarrow> Inr (manifest, uploadedBlockSizes s, checksumVerified))"

section \<open>Steps\<close>

definition enc_end :: "thrown option \<Rightarrow> up_state \<Rightarrow> up_state" where
  "enc_end error s =
     (let s' = s\<lparr>up_enc := EncEnded, up_encryptionFinished := True, up_encryptionError := error\<rparr>
      in case error of None \<Rightarrow> s' | Some e \<Rightarrow> abortUpload e s')"

definition up_request_end :: "(thrown + unit) \<times> up_state \<Rightarrow> up_state" where
  "up_request_end r =
     (case fst r of
        Inl error \<Rightarrow> up_fail error (snd r)
      | Inr _ \<Rightarrow> (snd r)\<lparr>up_phase := (if isEncryptionFullyFinished (snd r) then UpCheck else UpLoop)\<rparr>)"

definition up_waiting_for :: "up_state \<Rightarrow> bool" where
  "up_waiting_for s \<longleftrightarrow>
     up_phase s = UpJoinUploads \<or> up_phase s = UpWaitCapacity \<and> up_maxUploadingBlocks s \<le> length (up_ongoingUploads s)"

definition up_ended :: "up_state \<Rightarrow> bool" where
  "up_ended s \<longleftrightarrow> (case up_phase s of UpDone \<Rightarrow> True | UpThrew e \<Rightarrow> True | _ \<Rightarrow> False)"

text \<open>
  A failing upload makes the main loop throw when it waits for the uploads at that moment. With
  other uploads settling at the same time \<open>Promise.race\<close> may have been won already, so that a
  main loop waiting for capacity may also miss it.
\<close>

inductive up_step :: "up_env \<Rightarrow> up_state \<Rightarrow> up_state \<Rightarrow> bool" for env where
  thumbnails_duplicate: "up_phase s = UpThumbnails ts \<Longrightarrow> \<not> distinct (ue_thumbnails env) \<Longrightarrow>
    up_step env s (up_fail (throw_new JsError ''Duplicate thumbnail types'') s)"
| thumbnail_ok: "up_phase s = UpThumbnails (t # ts) \<Longrightarrow> distinct (ue_thumbnails env) \<Longrightarrow> \<not> isUploadAborted s \<Longrightarrow>
    ue_encryptThumbnail env t data \<Longrightarrow>
    up_step env s (s\<lparr>up_encryptedThumbnails := AList.update t data (up_encryptedThumbnails s), up_phase := UpThumbnails ts\<rparr>)"
| thumbnail_fail: "up_phase s = UpThumbnails (t # ts) \<Longrightarrow> distinct (ue_thumbnails env) \<Longrightarrow> \<not> isUploadAborted s \<Longrightarrow>
    up_step env s (up_fail error s)"
| thumbnails_end: "up_phase s = UpThumbnails ts \<Longrightarrow> distinct (ue_thumbnails env) \<Longrightarrow> ts = [] \<or> isUploadAborted s \<Longrightarrow>
    up_step env s (s\<lparr>up_phase := UpLoop, up_enc := EncRead\<rparr>)"
| loop: "up_phase s = UpLoop \<Longrightarrow> up_step env s (s\<lparr>up_phase := (if isUploadAborted s then UpCheck else UpWaitPaused)\<rparr>)"
| unpaused: "up_phase s = UpWaitPaused \<Longrightarrow> \<not> up_paused s \<or> up_aborted s \<Longrightarrow> up_step env s (s\<lparr>up_phase := UpWaitCapacity\<rparr>)"
| capacity: "up_phase s = UpWaitCapacity \<Longrightarrow> length (up_ongoingUploads s) < up_maxUploadingBlocks s \<Longrightarrow>
    up_step env s (s\<lparr>up_phase := UpWaitBuffered\<rparr>)"
| buffered: "up_phase s = UpWaitBuffered \<Longrightarrow> up_encryptedBlocks s \<noteq> [] \<or> up_encryptionFinished s \<or> up_aborted s \<Longrightarrow>
    up_step env s (s\<lparr>up_phase := (if isEncryptionFullyFinished s \<or> isUploadAborted s then UpCheck else UpRequest)\<rparr>)"
| request_ok: "up_phase s = UpRequest \<Longrightarrow> up_step env s (up_request_end (initiateUpload thumbnailTokens blockTokens s))"
| request_fail: "up_phase s = UpRequest \<Longrightarrow> up_step env s (up_fail error s)"
| check: "up_phase s = UpCheck \<Longrightarrow>
    up_step env s (if isUploadAborted s then up_fail (abort_reason s) s else s\<lparr>up_phase := UpJoinEncryption\<rparr>)"
| join_encryption: "up_phase s = UpJoinEncryption \<Longrightarrow> up_enc s = EncEnded \<Longrightarrow>
    up_step env s (case up_encryptionError s of Some error \<Rightarrow> up_fail error s | None \<Rightarrow> s\<lparr>up_phase := UpJoinUploads\<rparr>)"
| join_uploads: "up_phase s = UpJoinUploads \<Longrightarrow> up_ongoingUploads s = [] \<Longrightarrow> up_step env s (s\<lparr>up_phase := UpCommit\<rparr>)"
| commit_ok: "up_phase s = UpCommit \<Longrightarrow> commitFile env s = Inr commit \<Longrightarrow>
    up_step env s ((up_cleanup False s)\<lparr>up_committed := Some commit, up_phase := UpDone\<rparr>)"
| commit_refused: "up_phase s = UpCommit \<Longrightarrow> commitFile env s = Inl error \<Longrightarrow> up_step env s (up_fail error s)"
| commit_fail: "up_phase s = UpCommit \<Longrightarrow> commitFile env s = Inr commit \<Longrightarrow>
    up_step env s (up_fail error (s\<lparr>up_committed := Some commit\<rparr>))"
| upload_ok: "(key, block) \<in> set (up_ongoingUploads s) \<Longrightarrow> up_step env s (upload_done key block s)"
| upload_fail: "(key, block) \<in> set (up_ongoingUploads s) \<Longrightarrow> up_phase s \<noteq> UpJoinUploads \<Longrightarrow>
    up_step env s (upload_failed key error abort s)"
| upload_fail_throws: "(key, block) \<in> set (up_ongoingUploads s) \<Longrightarrow> up_waiting_for s \<Longrightarrow>
    up_step env s (up_fail error (upload_failed key error abort s))"
| limit: "(BlockKey i, block) \<in> set (up_ongoingUploads s) \<Longrightarrow> up_step env s (s\<lparr>up_maxUploadingBlocks := 1\<rparr>)"
| enc_read: "up_enc s = EncRead \<Longrightarrow> up_chunks s = block # chunks \<Longrightarrow>
    up_step env s (s\<lparr>up_chunks := chunks, up_index := up_index s + 1, up_digests := up_digests s @ [block],
      up_enc := EncWaitPaused block\<rparr>)"
| enc_read_fail: "up_enc s = EncRead \<Longrightarrow> up_step env s (enc_end (Some error) s)"
| enc_read_end: "up_enc s = EncRead \<Longrightarrow> up_chunks s = [] \<Longrightarrow> up_step env s (enc_end None s)"
| enc_unpaused: "up_enc s = EncWaitPaused block \<Longrightarrow> \<not> up_paused s \<or> up_aborted s \<Longrightarrow>
    up_step env s (s\<lparr>up_enc := EncWaitBuffer block\<rparr>)"
| enc_buffer: "up_enc s = EncWaitBuffer block \<Longrightarrow> length (up_encryptedBlocks s) < MAX_BUFFERED_BLOCKS \<or> up_aborted s \<Longrightarrow>
    up_step env s (if isUploadAborted s then enc_end None s else s\<lparr>up_enc := EncEncrypt block\<rparr>)"
| enc_ok: "up_enc s = EncEncrypt block \<Longrightarrow> ue_encryptBlock env block (up_index s) data \<Longrightarrow>
    up_step env s (s\<lparr>up_enc := EncRead, up_encryptedBlocks := AList.update (up_index s)
      \<lparr>eb_index = up_index s, eb_encryptedData = data, eb_originalSize = length block\<rparr> (up_encryptedBlocks s)\<rparr>)"
| enc_fail: "up_enc s = EncEncrypt block \<Longrightarrow> up_step env s (enc_end (Some error) s)"
| pause: "up_step env s (s\<lparr>up_paused := True\<rparr>)"
| resume: "up_step env s (s\<lparr>up_paused := False\<rparr>)"
| abort: "up_step env s (s\<lparr>up_aborted := True\<rparr>)"

inductive up_reach :: "up_env \<Rightarrow> up_state \<Rightarrow> up_state \<Rightarrow> bool" for env s0 where
  up_reach_refl: "up_reach env s0 s0"
| up_reach_step: "up_reach env s0 s \<Longrightarrow> up_step env s s' \<Longrightarrow> up_reach env s0 s'"

text \<open>
  The invariant of an upload that has not ended. \<open>block_of\<close> relates an encrypted block to the chunk
  of its index; the blocks waiting, being uploaded and uploaded are different ones, and so are the
  thumbnails.
\<close>

definition block_of :: "up_env \<Rightarrow> bytes list \<Rightarrow> nat \<Rightarrow> encrypted_block \<Rightarrow> bool" where
  "block_of env chunks i b \<longleftrightarrow>
     eb_index b = i \<and> 1 \<le> i \<and> i \<le> length chunks
     \<and> ue_encryptBlock env (chunks ! (i - 1)) i (eb_encryptedData b) \<and> eb_originalSize b = length (chunks ! (i - 1))"

fun block_entry :: "upload_key \<times> encrypted_block \<Rightarrow> (nat \<times> encrypted_block) multiset" where
  "block_entry (BlockKey i, b) = {#(i, b)#}"
| "block_entry (ThumbnailKey t, b) = {#}"

fun thumbnail_entry :: "upload_key \<times> encrypted_block \<Rightarrow> (nat \<times> bytes) multiset" where
  "thumbnail_entry (BlockKey i, b) = {#}"
| "thumbnail_entry (ThumbnailKey t, b) = {#(t, eb_encryptedData b)#}"

definition block_entries :: "up_state \<Rightarrow> (nat \<times> encrypted_block) multiset" where
  "block_entries s = mset (up_encryptedBlocks s) + sum_list (map block_entry (up_ongoingUploads s))
     + mset (map (\<lambda>b. (eb_index b, b)) (up_uploadedBlocks s))"

definition thumbnail_entries :: "up_state \<Rightarrow> (nat \<times> bytes) multiset" where
  "thumbnail_entries s = mset (up_encryptedThumbnails s) + sum_list (map thumbnail_entry (up_ongoingUploads s))
     + mset (up_uploadedThumbnails s)"

definition once :: "('k \<times> 'v) multiset \<Rightarrow> bool" where
  "once M \<longleftrightarrow> (\<exists>al. mset al = M \<and> distinct (map fst al))"

lemma once_mset: "once (mset al) \<longleftrightarrow> distinct (map fst al)"
  unfolding once_def by (metis mset_eq_imp_distinct_iff mset_map)

lemma once_union:
  "once (M + N) \<longleftrightarrow> once M \<and> once N \<and> fst ` set_mset M \<inter> fst ` set_mset N = {}"
proof -
  obtain xs ys where "M = mset xs" "N = mset ys" by (metis ex_mset)
  then show ?thesis by (simp add: once_mset flip: mset_append)
qed

lemma once_subset: "once M \<Longrightarrow> N \<subseteq># M \<Longrightarrow> once N"
  by (metis once_union subset_mset.add_diff_inverse)

lemma once_add: "once (add_mset (k, v) M) \<longleftrightarrow> once M \<and> k \<notin> fst ` set_mset M"
proof -
  obtain xs where "M = mset xs" by (metis ex_mset)
  then show ?thesis using once_mset [of "(k, v) # xs"] by (auto simp: once_mset)
qed

lemma once_disjoint: "once (M + N) \<Longrightarrow> (k, v) \<in># M \<Longrightarrow> k \<notin> fst ` set_mset N"
  unfolding once_union by force

lemma sum_list_delete:
  fixes f :: "_ \<Rightarrow> 'a multiset"
  assumes "distinct (map fst al)" "(k, v) \<in> set al"
  shows "sum_list (map f al) = f (k, v) + sum_list (map f (AList.delete k al))"
proof -
  have "sum_list (map f xs) = sum_mset (image_mset f (mset xs))" for xs
    by (induction xs) auto
  then show ?thesis by (simp add: mset_delete [OF assms])
qed

text \<open>
  The chunks' bookkeeping, which also holds after the end, and what else holds before it.
\<close>

definition enc_chunk :: "enc_phase \<Rightarrow> bytes option" where
  "enc_chunk e = (case e of EncWaitPaused b \<Rightarrow> Some b | EncWaitBuffer b \<Rightarrow> Some b | EncEncrypt b \<Rightarrow> Some b | _ \<Rightarrow> None)"

definition up_reading :: "bytes list \<Rightarrow> up_state \<Rightarrow> bool" where
  "up_reading chunks s \<longleftrightarrow>
     chunks = up_digests s @ up_chunks s \<and> up_index s = length (up_digests s)
     \<and> (\<forall>b. enc_chunk (up_enc s) = Some b \<longrightarrow> 1 \<le> up_index s \<and> chunks ! (up_index s - 1) = b)"

definition up_blocks :: "up_env \<Rightarrow> bytes list \<Rightarrow> up_state \<Rightarrow> bool" where
  "up_blocks env chunks s \<longleftrightarrow>
     (\<forall>(i, b) \<in># block_entries s. block_of env chunks i b \<and> i \<le> up_index s \<and> (enc_chunk (up_enc s) \<noteq> None \<longrightarrow> i \<noteq> up_index s))
     \<and> once (block_entries s) \<and> distinct (map fst (up_ongoingUploads s))"

definition up_thumbnails :: "up_env \<Rightarrow> up_state \<Rightarrow> bool" where
  "up_thumbnails env s \<longleftrightarrow>
     (\<forall>(t, d) \<in># thumbnail_entries s. t \<in> set (ue_thumbnails env) \<and> ue_encryptThumbnail env t d)
     \<and> once (thumbnail_entries s)
     \<and> (\<forall>ts. up_phase s = UpThumbnails ts \<longrightarrow> set ts \<subseteq> set (ue_thumbnails env)
          \<and> (distinct (ue_thumbnails env) \<longrightarrow> distinct ts \<and> (\<forall>(t, d) \<in># thumbnail_entries s. t \<notin> set ts)))"

definition up_order :: "up_state \<Rightarrow> bool" where
  "up_order s \<longleftrightarrow>
     up_encryptionFinished s = (up_enc s = EncEnded)
     \<and> (up_enc s = EncEnded \<longrightarrow> up_encryptionError s \<noteq> None \<or> up_chunks s = [] \<or> isUploadAborted s)
     \<and> (up_encryptionError s \<noteq> None \<longrightarrow> isUploadAborted s \<and> up_enc s = EncEnded)
     \<and> (case up_phase s of
          UpThumbnails ts \<Rightarrow> up_enc s = EncNotStarted \<and> up_ongoingUploads s = [] \<and> up_encryptedBlocks s = []
        | UpCheck \<Rightarrow> isUploadAborted s \<or> isEncryptionFullyFinished s
        | UpJoinEncryption \<Rightarrow> isEncryptionFullyFinished s \<and> up_chunks s = []
        | UpJoinUploads \<Rightarrow> isEncryptionFullyFinished s \<and> up_chunks s = []
        | UpCommit \<Rightarrow> isEncryptionFullyFinished s \<and> up_chunks s = [] \<and> up_ongoingUploads s = []
        | _ \<Rightarrow> True)
     \<and> up_committed s = None \<and> up_finish s = []"

lemma sum_entries_in: "(i, b) \<in># sum_list (map block_entry al) \<longleftrightarrow> (BlockKey i, b) \<in> set al"
proof (induction al)
  case (Cons p al)
  then show ?case by (cases p; cases "fst p") auto
qed simp

lemma sum_thumbnails_in: "(t, d) \<in># sum_list (map thumbnail_entry al) \<longleftrightarrow> (\<exists>b. (ThumbnailKey t, b) \<in> set al \<and> d = eb_encryptedData b)"
proof (induction al)
  case (Cons p al)
  then show ?case by (cases p; cases "fst p") auto
qed simp

lemma upload_done_entries:
  assumes "distinct (map fst (up_ongoingUploads s))" "(key, b) \<in> set (up_ongoingUploads s)"
    "\<And>i. key = BlockKey i \<Longrightarrow> eb_index b = i"
  shows "block_entries (upload_done key b s) = block_entries s" "thumbnail_entries (upload_done key b s) = thumbnail_entries s"
  using assms(3) sum_list_delete [OF assms(1,2), of block_entry] sum_list_delete [OF assms(1,2), of thumbnail_entry]
  by (cases key; simp add: upload_done_def block_entries_def thumbnail_entries_def)+

lemma upload_failed_sel [simp]:
  "up_phase (upload_failed key error abort s) = up_phase s" "up_enc (upload_failed key error abort s) = up_enc s"
  "up_chunks (upload_failed key error abort s) = up_chunks s" "up_index (upload_failed key error abort s) = up_index s"
  "up_digests (upload_failed key error abort s) = up_digests s"
  "up_ongoingUploads (upload_failed key error abort s) = AList.delete key (up_ongoingUploads s)"
  "up_encryptedBlocks (upload_failed key error abort s) = up_encryptedBlocks s"
  "up_encryptedThumbnails (upload_failed key error abort s) = up_encryptedThumbnails s"
  "up_uploadedBlocks (upload_failed key error abort s) = up_uploadedBlocks s"
  "up_uploadedThumbnails (upload_failed key error abort s) = up_uploadedThumbnails s"
  "up_encryptionFinished (upload_failed key error abort s) = up_encryptionFinished s"
  "up_encryptionError (upload_failed key error abort s) = up_encryptionError s"
  "up_committed (upload_failed key error abort s) = up_committed s" "up_finish (upload_failed key error abort s) = up_finish s"
  "isUploadAborted s \<Longrightarrow> isUploadAborted (upload_failed key error abort s)"
  by (simp_all add: upload_failed_def abortUpload_def Let_def isUploadAborted_def)

lemma upload_failed_entries:
  assumes "distinct (map fst (up_ongoingUploads s))" "(key, b) \<in> set (up_ongoingUploads s)"
  shows "block_entries (upload_failed key error abort s) \<subseteq># block_entries s"
    "thumbnail_entries (upload_failed key error abort s) \<subseteq># thumbnail_entries s"
  using sum_list_delete [OF assms, of block_entry] sum_list_delete [OF assms, of thumbnail_entry]
  by (simp_all add: block_entries_def thumbnail_entries_def)

text \<open>Starting an upload changes the two maps only, and moves an entry from one to the other.\<close>

definition same_but_maps :: "up_state \<Rightarrow> up_state \<Rightarrow> bool" where
  "same_but_maps s s' \<longleftrightarrow>
     (\<exists>ts bs os. s' = s\<lparr>up_encryptedThumbnails := ts, up_encryptedBlocks := bs, up_ongoingUploads := os\<rparr>
        \<and> (up_encryptedThumbnails s = [] \<longrightarrow> ts = []) \<and> (up_encryptedBlocks s = [] \<longrightarrow> bs = [])
        \<and> length bs \<le> length (up_encryptedBlocks s) \<and> length ts \<le> length (up_encryptedThumbnails s)
        \<and> length os + length bs + length ts
            \<le> length (up_ongoingUploads s) + length (up_encryptedBlocks s) + length (up_encryptedThumbnails s))"

lemma same_but_maps_refl [simp]: "same_but_maps s s"
  unfolding same_but_maps_def
  by (rule exI [of _ "up_encryptedThumbnails s"], rule exI [of _ "up_encryptedBlocks s"], rule exI [of _ "up_ongoingUploads s"]) simp

lemma same_but_maps_trans:
  assumes "same_but_maps s s'" "same_but_maps s' s''"
  shows "same_but_maps s s''"
proof -
  from assms(1) obtain ts bs os where 1: "s' = s\<lparr>up_encryptedThumbnails := ts, up_encryptedBlocks := bs, up_ongoingUploads := os\<rparr>"
    "up_encryptedThumbnails s = [] \<longrightarrow> ts = []" "up_encryptedBlocks s = [] \<longrightarrow> bs = []" "length bs \<le> length (up_encryptedBlocks s)"
    "length ts \<le> length (up_encryptedThumbnails s)"
    "length os + length bs + length ts \<le> length (up_ongoingUploads s) + length (up_encryptedBlocks s) + length (up_encryptedThumbnails s)"
    unfolding same_but_maps_def by blast
  from assms(2) obtain ts' bs' os' where 2: "s'' = s'\<lparr>up_encryptedThumbnails := ts', up_encryptedBlocks := bs', up_ongoingUploads := os'\<rparr>"
    "ts = [] \<longrightarrow> ts' = []" "bs = [] \<longrightarrow> bs' = []" "length bs' \<le> length bs" "length ts' \<le> length ts"
    "length os' + length bs' + length ts' \<le> length os + length bs + length ts"
    unfolding same_but_maps_def by (auto simp: 1(1))
  have "s'' = s\<lparr>up_encryptedThumbnails := ts', up_encryptedBlocks := bs', up_ongoingUploads := os'\<rparr>"
    by (simp add: 2(1) 1(1))
  then show ?thesis
    unfolding same_but_maps_def
    by (rule exI [of _ os', THEN exI [of _ bs', THEN exI [of _ ts']], OF conjI]) (use 1(2-6) 2(2-6) in simp)
qed

lemma alist_update_length: "length (AList.update k e al) \<le> Suc (length al)"
  by (induction al) auto

lemma initiate_block_same:
  assumes "initiate_block i s = (r, s')"
  shows "same_but_maps s s'"
proof (cases "map_of (up_encryptedBlocks s) i")
  case None
  with assms show ?thesis by (simp add: initiate_block_def)
next
  case (Some b)
  with assms have s': "s' = s\<lparr>up_encryptedThumbnails := up_encryptedThumbnails s, up_encryptedBlocks := AList.delete i (up_encryptedBlocks s),
      up_ongoingUploads := AList.update (BlockKey i) b (up_ongoingUploads s)\<rparr>"
    by (auto simp: initiate_block_def)
  show ?thesis
    unfolding same_but_maps_def
    by (intro exI conjI, rule s')
      (use length_delete_less [OF Some] alist_update_length [of "BlockKey i" b "up_ongoingUploads s"] in auto)
qed

lemma initiate_thumbnail_same:
  assumes "initiate_thumbnail t s = (r, s')"
  shows "same_but_maps s s'"
proof (cases "map_of (up_encryptedThumbnails s) t")
  case None
  with assms show ?thesis by (simp add: initiate_thumbnail_def)
next
  case (Some d)
  let ?b = "\<lparr>eb_index = 0, eb_encryptedData = d, eb_originalSize = 0\<rparr>"
  from Some assms have s': "s' = s\<lparr>up_encryptedThumbnails := AList.delete t (up_encryptedThumbnails s), up_encryptedBlocks := up_encryptedBlocks s,
      up_ongoingUploads := AList.update (ThumbnailKey t) ?b (up_ongoingUploads s)\<rparr>"
    by (auto simp: initiate_thumbnail_def)
  show ?thesis
    unfolding same_but_maps_def
    by (intro exI conjI, rule s')
      (use length_delete_less [OF Some] alist_update_length [of "ThumbnailKey t" ?b "up_ongoingUploads s"] in auto)
qed

lemma initiate_block_entries:
  assumes "initiate_block i s = (r, s')" "once (block_entries s)" "distinct (map fst (up_ongoingUploads s))"
  shows "block_entries s' = block_entries s \<and> thumbnail_entries s' = thumbnail_entries s
     \<and> distinct (map fst (up_ongoingUploads s'))"
proof (cases "map_of (up_encryptedBlocks s) i")
  case None
  with assms show ?thesis by (simp add: initiate_block_def)
next
  case (Some b)
  from assms(2) have d: "distinct (map fst (up_encryptedBlocks s))"
    by (simp add: block_entries_def once_union once_mset)
  have mem: "(i, b) \<in># mset (up_encryptedBlocks s)" using map_of_SomeD [OF Some] by simp
  have "BlockKey i \<notin> fst ` set (up_ongoingUploads s)"
  proof
    assume "BlockKey i \<in> fst ` set (up_ongoingUploads s)"
    then obtain b' where "(BlockKey i, b') \<in> set (up_ongoingUploads s)" by auto
    then have "(i, b') \<in># sum_list (map block_entry (up_ongoingUploads s))"
      using sum_entries_in by blast
    with once_disjoint [OF assms(2) [unfolded block_entries_def add.assoc] mem] show False by force
  qed
  then have os: "AList.update (BlockKey i) b (up_ongoingUploads s) = up_ongoingUploads s @ [(BlockKey i, b)]"
    by (rule update_fresh)
  have s': "s' = s\<lparr>up_encryptedBlocks := AList.delete i (up_encryptedBlocks s),
      up_ongoingUploads := up_ongoingUploads s @ [(BlockKey i, b)]\<rparr>"
    using assms(1) Some by (auto simp: initiate_block_def os)
  show ?thesis
    using mset_delete [OF d, of i b] mem assms(3) \<open>BlockKey i \<notin> _\<close>
    by (simp add: s' block_entries_def thumbnail_entries_def)
qed

lemma initiate_thumbnail_entries:
  assumes "initiate_thumbnail t s = (r, s')" "once (thumbnail_entries s)" "distinct (map fst (up_ongoingUploads s))"
  shows "block_entries s' = block_entries s \<and> thumbnail_entries s' = thumbnail_entries s
     \<and> distinct (map fst (up_ongoingUploads s'))"
proof (cases "map_of (up_encryptedThumbnails s) t")
  case None
  with assms show ?thesis by (simp add: initiate_thumbnail_def)
next
  case (Some d)
  let ?b = "\<lparr>eb_index = 0, eb_encryptedData = d, eb_originalSize = 0\<rparr>"
  from assms(2) have dist: "distinct (map fst (up_encryptedThumbnails s))"
    by (simp add: thumbnail_entries_def once_union once_mset)
  have mem: "(t, d) \<in># mset (up_encryptedThumbnails s)" using map_of_SomeD [OF Some] by simp
  have "ThumbnailKey t \<notin> fst ` set (up_ongoingUploads s)"
  proof
    assume "ThumbnailKey t \<in> fst ` set (up_ongoingUploads s)"
    then obtain b where "(ThumbnailKey t, b) \<in> set (up_ongoingUploads s)" by auto
    then have "(t, eb_encryptedData b) \<in># sum_list (map thumbnail_entry (up_ongoingUploads s))"
      using sum_thumbnails_in by blast
    with once_disjoint [OF assms(2) [unfolded thumbnail_entries_def add.assoc] mem] show False by force
  qed
  then have os: "AList.update (ThumbnailKey t) ?b (up_ongoingUploads s) = up_ongoingUploads s @ [(ThumbnailKey t, ?b)]"
    by (rule update_fresh)
  have s': "s' = s\<lparr>up_encryptedThumbnails := AList.delete t (up_encryptedThumbnails s),
      up_ongoingUploads := up_ongoingUploads s @ [(ThumbnailKey t, ?b)]\<rparr>"
    using assms(1) Some by (auto simp: initiate_thumbnail_def os)
  show ?thesis
    using mset_delete [OF dist, of t d] mem assms(3) \<open>ThumbnailKey t \<notin> _\<close>
    by (simp add: s' block_entries_def thumbnail_entries_def)
qed

lemma initiate_all_keeps:
  assumes "\<And>t s r s'. initiate t s = (r, s') \<Longrightarrow> P s \<Longrightarrow> P s'"
  shows "initiate_all initiate ts s = (r, s') \<Longrightarrow> P s \<Longrightarrow> P s'"
proof (induction ts arbitrary: s)
  case (Cons t ts)
  obtain r1 s1 where "initiate t s = (r1, s1)" by force
  with Cons assms [of t s r1 s1] show ?case by (cases r1) auto
qed simp

definition initiate_inv :: "up_state \<Rightarrow> up_state \<Rightarrow> bool" where
  "initiate_inv s s' \<longleftrightarrow> same_but_maps s s' \<and> block_entries s' = block_entries s \<and> thumbnail_entries s' = thumbnail_entries s
     \<and> distinct (map fst (up_ongoingUploads s'))"

lemma initiateUpload_keeps:
  assumes "initiateUpload thumbnailTokens blockTokens s = (r, s')" "once (block_entries s)" "once (thumbnail_entries s)"
    "distinct (map fst (up_ongoingUploads s))"
  shows "initiate_inv s s'"
proof -
  have start: "initiate_inv s s" using assms(4) by (simp add: initiate_inv_def)
  have t: "initiate_inv s u'" if "initiate_thumbnail t u = (q, u')" "initiate_inv s u" for t u q u'
    using initiate_thumbnail_same [OF that(1)] initiate_thumbnail_entries [OF that(1)] that(2) assms(2,3)
    unfolding initiate_inv_def by (metis same_but_maps_trans)
  have b: "initiate_inv s u'" if "initiate_block t u = (q, u')" "initiate_inv s u" for t u q u'
    using initiate_block_same [OF that(1)] initiate_block_entries [OF that(1)] that(2) assms(2,3)
    unfolding initiate_inv_def by (metis same_but_maps_trans)
  show ?thesis
  proof (cases "isUploadAborted s")
    case True
    with assms(1) start show ?thesis by (simp add: initiateUpload_def)
  next
    case False
    obtain r1 s1 where 1: "initiate_all initiate_thumbnail thumbnailTokens s = (r1, s1)" by force
    then have "initiate_inv s s1" by (rule initiate_all_keeps [where P = "initiate_inv s", rotated]) (use t start in auto)
    moreover have "initiate_inv s s2" if "initiate_all initiate_block blockTokens s1 = (r2, s2)" "initiate_inv s s1" for r2 s2
      using that by (rule initiate_all_keeps [where P = "initiate_inv s", rotated]) (use b in auto)
    ultimately show ?thesis using assms(1) False 1 by (cases r1) (auto simp: initiateUpload_def)
  qed
qed

end
