(* ===== verification/UploadInvariant.thy ===== *)
theory UploadInvariant
  imports StreamUpload
begin

text \<open>
  The invariant of \<^verbatim>\<open>streamUploader.ts\<close>: what was committed is the whole content. The proof follows
  the blocks through the maps of the uploader: each step moves an entry from one to the next, drops
  it or, when a block has been encrypted, adds a new one.
\<close>

section \<open>The commit\<close>

definition good_commit :: "up_env \<Rightarrow> bytes list \<Rightarrow> bytes \<times> nat list \<times> bool \<Rightarrow> bool" where
  "good_commit env chunks commit \<longleftrightarrow>
     (\<exists>thumbnails blocks.
        list_all2 (ue_encryptThumbnail env) (sort (ue_thumbnails env)) thumbnails
        \<and> length blocks = length chunks \<and> (\<forall>i < length chunks. ue_encryptBlock env (chunks ! i) (i + 1) (blocks ! i))
        \<and> commit = (concat (map (ue_sha256 env) (thumbnails @ blocks)), map length chunks, present (ue_expectedSha1 env) \<noteq> None)
        \<and> (\<forall>h. present (ue_expectedSha1 env) = Some h \<longrightarrow> ue_sha1 env (concat chunks) = h))"

lemma sum_lengths_full:
  fixes xs :: "nat list" and f :: "nat \<Rightarrow> nat"
  assumes "distinct xs" "set xs \<subseteq> {1..n}" "\<forall>i \<in> {1..n}. 0 < f i" "sum_list (map f xs) = (\<Sum>i \<in> {1..n}. f i)"
  shows "set xs = {1..n}"
proof (rule ccontr)
  assume "set xs \<noteq> {1..n}"
  with assms(2) obtain j where "j \<in> {1..n} - set xs" by blast
  then have "0 < (\<Sum>i \<in> {1..n} - set xs. f i)" using assms(3) by (intro sum_pos2 [of _ j]) auto
  moreover have "(\<Sum>i \<in> {1..n}. f i) = (\<Sum>i \<in> {1..n} - set xs. f i) + (\<Sum>i \<in> set xs. f i)"
    using assms(2) by (intro sum.subset_diff) auto
  moreover have "sum_list (map f xs) = (\<Sum>i \<in> set xs. f i)" using assms(1) by (simp add: sum_list_distinct_conv_sum_set)
  ultimately show False using assms(4) by simp
qed

lemma sum_chunk_lengths: "(\<Sum>i \<in> {1..length chunks}. length (chunks ! (i - 1))) = length (concat chunks)"
proof -
  have "(\<Sum>i \<in> {1..length chunks}. length (chunks ! (i - 1))) = (\<Sum>i < length chunks. length (chunks ! i))"
    by (rule sum.reindex_bij_witness [of _ Suc "\<lambda>i. i - 1"]) auto
  also have "\<dots> = sum_list (map length chunks)"
    by (simp add: sum_list_sum_nth atLeast0LessThan)
  finally show ?thesis by (simp add: length_concat)
qed

lemma FILE_CHUNK_SIZE_pos: "0 < FILE_CHUNK_SIZE"
  by (simp add: FILE_CHUNK_SIZE_def)

lemma uploaded_blocks_complete:
  assumes "\<forall>b \<in> set bs. block_of env chunks (eb_index b) b" "distinct (map eb_index bs)"
    "\<forall>c \<in> set chunks. c \<noteq> []" "sum_list (map eb_originalSize bs) = length (concat chunks)"
  shows "map eb_index (sort_key eb_index bs) = [1..<Suc (length chunks)]"
    "length bs = length chunks" "map eb_originalSize (sort_key eb_index bs) = map length chunks"
    "\<forall>i < length chunks. ue_encryptBlock env (chunks ! i) (i + 1) (map eb_encryptedData (sort_key eb_index bs) ! i)"
proof -
  let ?f = "\<lambda>i. length (chunks ! (i - 1))" and ?n = "length chunks"
  have sub: "set (map eb_index bs) \<subseteq> {1..?n}" using assms(1) by (auto simp: block_of_def)
  have "map eb_originalSize bs = map ?f (map eb_index bs)"
    using assms(1) by (simp add: block_of_def)
  then have "sum_list (map ?f (map eb_index bs)) = (\<Sum>i \<in> {1..?n}. ?f i)"
    using assms(4) sum_chunk_lengths [of chunks] by (simp del: map_map)
  then have all: "set (map eb_index bs) = {1..?n}"
    by (intro sum_lengths_full [OF assms(2) sub, of ?f]) (use assms(3) in \<open>auto simp: Suc_le_eq\<close>)
  show idx: "map eb_index (sort_key eb_index bs) = [1..<Suc ?n]"
  proof (rule sorted_distinct_set_unique)
    show "distinct (map eb_index (sort_key eb_index bs))"
      using assms(2) mset_eq_imp_distinct_iff by (metis mset_map mset_sort)
    show "set (map eb_index (sort_key eb_index bs)) = set [1..<Suc ?n]" using all by auto
  qed (simp_all del: upt_Suc)
  show len0: "length bs = ?n" using arg_cong [OF idx, of length] by (simp del: upt_Suc)
  then have len: "length (sort_key eb_index bs) = ?n" by simp
  have at: "sort_key eb_index bs ! i \<in> set bs \<and> eb_index (sort_key eb_index bs ! i) = i + 1" if "i < ?n" for i
  proof -
    have "eb_index (sort_key eb_index bs ! i) = map eb_index (sort_key eb_index bs) ! i" using that len by simp
    also have "\<dots> = i + 1" unfolding idx using that by (simp del: upt_Suc)
    finally show ?thesis using that len by (metis nth_mem set_sort)
  qed
  then have "block_of env chunks (i + 1) (sort_key eb_index bs ! i)" if "i < ?n" for i
    using assms(1) that by metis
  then have b: "eb_originalSize (sort_key eb_index bs ! i) = length (chunks ! i)"
    "ue_encryptBlock env (chunks ! i) (i + 1) (eb_encryptedData (sort_key eb_index bs ! i))" if "i < ?n" for i
    using that by (auto simp: block_of_def)
  show "map eb_originalSize (sort_key eb_index bs) = map length chunks"
    by (rule nth_equalityI) (simp_all add: len0 b)
  show "\<forall>i < ?n. ue_encryptBlock env (chunks ! i) (i + 1) (map eb_encryptedData (sort_key eb_index bs) ! i)"
    using b(2) len by simp
qed

lemma uploaded_thumbnails_complete:
  assumes "\<forall>(t, d) \<in> set ts. t \<in> set types \<and> P t d" "distinct (map fst ts)" "length ts = length types"
  shows "list_all2 P (sort types) (map snd (sort_key fst ts))"
proof -
  have "set (map fst ts) \<subseteq> set types" using assms(1) by auto
  moreover have "card (set types) \<le> card (set (map fst ts))"
    using assms(2,3) card_length [of types] distinct_card [OF assms(2)] by simp
  ultimately have all: "set (map fst ts) = set types" by (simp add: card_seteq)
  then have "distinct types" using assms(2,3) distinct_card [OF assms(2)] card_distinct [of types] by simp
  then have "map fst (sort_key fst ts) = sort types"
    using assms(2) all mset_eq_imp_distinct_iff [of "map fst (sort_key fst ts)" "map fst ts"]
    by (intro sorted_distinct_set_unique) simp_all
  moreover have "list_all2 P (map fst (sort_key fst ts)) (map snd (sort_key fst ts))"
    using assms(1) by (auto simp: list_all2_conv_all_nth in_set_conv_nth split: prod.splits)
      (metis (no_types, lifting) assms(1) case_prod_unfold length_sort nth_mem set_sort)
  ultimately show ?thesis by simp
qed
lemma commit_is_good:
  assumes "commitFile env s = Inr commit"
    and "up_reading chunks s" "up_blocks env chunks s" "up_thumbnails env s"
    and joined: "up_chunks s = []" "isEncryptionFullyFinished s" "up_ongoingUploads s = []"
    and content: "chunks = chop FILE_CHUNK_SIZE content" "ue_expectedSize env = length content"
  shows "good_commit env chunks commit"
proof -
  have cc: "concat chunks = content" using content(1) FILE_CHUNK_SIZE_pos by (simp add: concat_chop)
  have nonempty: "\<forall>c \<in> set chunks. c \<noteq> []"
    using chop_sizes [OF FILE_CHUNK_SIZE_pos] by (auto simp: content(1))
  have n: "length chunks = (length content + FILE_CHUNK_SIZE - 1) div FILE_CHUNK_SIZE"
    using length_chop [OF FILE_CHUNK_SIZE_pos] by (simp add: content(1))
  obtain manifest sizes verified where commit: "commit = (manifest, sizes, verified)" by (cases commit)
  with assms(1) have ok: "verifyIntegrity env (ue_sha1 env (concat (up_digests s))) s = Inr verified"
    "getManifest env s = Some manifest" "sizes = uploadedBlockSizes s"
    by (auto simp: commitFile_def try_bind_Inr_iff split: option.splits)
  have digests: "up_digests s = chunks" using assms(2) joined(1) by (simp add: up_reading_def)
  have blocks: "block_entries s = mset (map (\<lambda>b. (eb_index b, b)) (up_uploadedBlocks s))"
    "thumbnail_entries s = mset (up_uploadedThumbnails s)"
    using joined(2,3) by (simp_all add: block_entries_def thumbnail_entries_def isEncryptionFullyFinished_def)
  from ok(1) have count: "length (up_uploadedBlocks s) + length (up_uploadedThumbnails s) = expectedBlockCount env"
    and bytes: "sum_list (map eb_originalSize (up_uploadedBlocks s)) = length (concat chunks)"
    and sha1: "verified = (present (ue_expectedSha1 env) \<noteq> None)"
      "\<forall>h. present (ue_expectedSha1 env) = Some h \<longrightarrow> ue_sha1 env (concat chunks) = h"
    by (auto simp: verifyIntegrity_def uploadedBlockCount_def uploadedOriginalFileSize_def content(2) cc digests
        split: if_splits option.splits)
  from assms(3) have bs: "\<forall>b \<in> set (up_uploadedBlocks s). block_of env chunks (eb_index b) b"
    "distinct (map eb_index (up_uploadedBlocks s))"
    by (auto simp: up_blocks_def blocks once_mset comp_def simp del: mset_map)
  note complete = uploaded_blocks_complete [OF bs nonempty bytes]
  have "length (up_uploadedThumbnails s) = length (ue_thumbnails env)"
    using count complete(2) n by (simp add: expectedBlockCount_def content(2))
  then have thumbnails: "list_all2 (ue_encryptThumbnail env) (sort (ue_thumbnails env))
      (map snd (sort_key fst (up_uploadedThumbnails s)))"
    using assms(4) by (intro uploaded_thumbnails_complete) (auto simp: up_thumbnails_def blocks once_mset)
  have manifest: "manifest = concat (map (ue_sha256 env) (map snd (sort_key fst (up_uploadedThumbnails s))
      @ map eb_encryptedData (sort_key eb_index (up_uploadedBlocks s))))"
    using ok(2) by (simp add: getManifest_def mergeUint8Arrays_concat)
  show ?thesis
    unfolding good_commit_def commit
    using thumbnails complete manifest ok(3) sha1
    by (intro exI [of _ "map snd (sort_key fst (up_uploadedThumbnails s))"]
        exI [of _ "map eb_encryptedData (sort_key eb_index (up_uploadedBlocks s))"])
      (simp add: uploadedBlockSizes_def)
qed

section \<open>The steps\<close>

definition up_live :: "up_env \<Rightarrow> bytes list \<Rightarrow> up_state \<Rightarrow> bool" where
  "up_live env chunks s \<longleftrightarrow> \<not> up_ended s \<and> up_blocks env chunks s \<and> up_thumbnails env s \<and> up_order s"

definition up_final :: "up_env \<Rightarrow> bytes list \<Rightarrow> up_state \<Rightarrow> bool" where
  "up_final env chunks s \<longleftrightarrow>
     up_ended s \<and> up_finish s = [up_phase s \<noteq> UpDone] \<and> (up_phase s = UpDone \<longrightarrow> up_committed s \<noteq> None)
     \<and> (\<forall>c. up_committed s = Some c \<longrightarrow> good_commit env chunks c)"

definition up_inv :: "up_env \<Rightarrow> bytes list \<Rightarrow> up_state \<Rightarrow> bool" where
  "up_inv env chunks s \<longleftrightarrow> up_reading chunks s \<and> (up_live env chunks s \<or> up_final env chunks s)"

lemma up_cleanup_sel [simp]:
  "up_phase (up_cleanup f s) = up_phase s" "up_enc (up_cleanup f s) = up_enc s" "up_chunks (up_cleanup f s) = up_chunks s"
  "up_index (up_cleanup f s) = up_index s" "up_digests (up_cleanup f s) = up_digests s"
  "up_committed (up_cleanup f s) = up_committed s" "up_finish (up_cleanup f s) = up_finish s @ [f]"
  by (simp_all add: up_cleanup_def)

lemma up_fail_sel [simp]:
  "up_phase (up_fail e s) = UpThrew e" "up_enc (up_fail e s) = up_enc s" "up_chunks (up_fail e s) = up_chunks s"
  "up_index (up_fail e s) = up_index s" "up_digests (up_fail e s) = up_digests s"
  "up_committed (up_fail e s) = up_committed s" "up_finish (up_fail e s) = up_finish s @ [True]"
  by (simp_all add: up_fail_def)

lemma enc_end_sel [simp]:
  "up_phase (enc_end e s) = up_phase s" "up_enc (enc_end e s) = EncEnded" "up_chunks (enc_end e s) = up_chunks s"
  "up_index (enc_end e s) = up_index s" "up_digests (enc_end e s) = up_digests s"
  "up_committed (enc_end e s) = up_committed s" "up_finish (enc_end e s) = up_finish s"
  "up_encryptionError (enc_end e s) = e" "up_encryptionFinished (enc_end e s)"
  "up_encryptedBlocks (enc_end e s) = up_encryptedBlocks s" "up_encryptedThumbnails (enc_end e s) = up_encryptedThumbnails s"
  "up_ongoingUploads (enc_end e s) = up_ongoingUploads s" "up_uploadedBlocks (enc_end e s) = up_uploadedBlocks s"
  "up_uploadedThumbnails (enc_end e s) = up_uploadedThumbnails s"
  "isUploadAborted (enc_end e s) \<longleftrightarrow> e \<noteq> None \<or> isUploadAborted s"
  by (auto simp: enc_end_def abortUpload_def isUploadAborted_def Let_def split: option.splits)

lemma upload_done_sel [simp]:
  "up_phase (upload_done k b s) = up_phase s" "up_enc (upload_done k b s) = up_enc s" "up_chunks (upload_done k b s) = up_chunks s"
  "up_index (upload_done k b s) = up_index s" "up_digests (upload_done k b s) = up_digests s"
  "up_committed (upload_done k b s) = up_committed s" "up_finish (upload_done k b s) = up_finish s"
  "up_encryptionError (upload_done k b s) = up_encryptionError s"
  "up_encryptionFinished (upload_done k b s) = up_encryptionFinished s"
  "up_encryptedBlocks (upload_done k b s) = up_encryptedBlocks s"
  "up_encryptedThumbnails (upload_done k b s) = up_encryptedThumbnails s"
  "up_ongoingUploads (upload_done k b s) = AList.delete k (up_ongoingUploads s)"
  "isUploadAborted (upload_done k b s) = isUploadAborted s"
  by (simp_all add: upload_done_def isUploadAborted_def split: upload_key.split)

lemma up_blocks_mono:
  assumes "up_blocks env chunks s" "block_entries s' \<subseteq># block_entries s" "up_index s' = up_index s"
    "enc_chunk (up_enc s') \<noteq> None \<longrightarrow> enc_chunk (up_enc s) \<noteq> None" "distinct (map fst (up_ongoingUploads s'))"
  shows "up_blocks env chunks s'"
  unfolding up_blocks_def
proof (intro conjI ballI)
  fix p assume "p \<in># block_entries s'"
  then have "p \<in># block_entries s" using assms(2) by (rule mset_subset_eqD [rotated])
  with assms(1) have "case p of (i, b) \<Rightarrow> block_of env chunks i b \<and> i \<le> up_index s \<and> (enc_chunk (up_enc s) \<noteq> None \<longrightarrow> i \<noteq> up_index s)"
    unfolding up_blocks_def by blast
  with assms(3,4) show "case p of (i, b) \<Rightarrow> block_of env chunks i b \<and> i \<le> up_index s' \<and> (enc_chunk (up_enc s') \<noteq> None \<longrightarrow> i \<noteq> up_index s')"
    by auto
qed (use assms once_subset in \<open>auto simp: up_blocks_def\<close>)

lemma up_thumbnails_mono:
  assumes "up_thumbnails env s" "thumbnail_entries s' \<subseteq># thumbnail_entries s"
    "\<And>ts. up_phase s' = UpThumbnails ts \<Longrightarrow> up_phase s = UpThumbnails ts"
  shows "up_thumbnails env s'"
proof -
  have "p \<in># thumbnail_entries s" if "p \<in># thumbnail_entries s'" for p
    using that assms(2) by (rule mset_subset_eqD [rotated])
  then show ?thesis
    using assms once_subset unfolding up_thumbnails_def by fastforce
qed

lemma up_entries_same:
  "up_encryptedBlocks s' = up_encryptedBlocks s \<Longrightarrow> up_ongoingUploads s' = up_ongoingUploads s \<Longrightarrow>
   up_uploadedBlocks s' = up_uploadedBlocks s \<Longrightarrow> block_entries s' = block_entries s"
  "up_encryptedThumbnails s' = up_encryptedThumbnails s \<Longrightarrow> up_ongoingUploads s' = up_ongoingUploads s \<Longrightarrow>
   up_uploadedThumbnails s' = up_uploadedThumbnails s \<Longrightarrow> thumbnail_entries s' = thumbnail_entries s"
  by (simp_all add: block_entries_def thumbnail_entries_def)

text \<open>A step that leaves the maps and the reading alone.\<close>

lemma up_quiet:
  assumes "up_blocks env chunks s" "up_thumbnails env s"
    "up_encryptedBlocks s' = up_encryptedBlocks s" "up_encryptedThumbnails s' = up_encryptedThumbnails s"
    "up_ongoingUploads s' = up_ongoingUploads s" "up_uploadedBlocks s' = up_uploadedBlocks s"
    "up_uploadedThumbnails s' = up_uploadedThumbnails s" "up_index s' = up_index s"
    "enc_chunk (up_enc s') \<noteq> None \<longrightarrow> enc_chunk (up_enc s) \<noteq> None"
    "\<And>ts. up_phase s' = UpThumbnails ts \<Longrightarrow> up_phase s = UpThumbnails ts"
  shows "up_blocks env chunks s' \<and> up_thumbnails env s'"
  using up_blocks_mono [OF assms(1), of s'] up_thumbnails_mono [OF assms(2), of s'] assms
    up_entries_same [of s' s] by (auto simp: up_blocks_def)

lemma up_fail_final:
  "up_finish s = [] \<Longrightarrow> (\<And>c. up_committed s = Some c \<Longrightarrow> good_commit env chunks c) \<Longrightarrow> up_final env chunks (up_fail e s)"
  by (simp add: up_final_def up_ended_def)

lemma up_thumbnail_ok:
  assumes "up_thumbnails env s" "up_order s" "up_phase s = UpThumbnails (t # ts)" "distinct (ue_thumbnails env)"
    "ue_encryptThumbnail env t d"
  shows "up_thumbnails env (s\<lparr>up_encryptedThumbnails := AList.update t d (up_encryptedThumbnails s), up_phase := UpThumbnails ts\<rparr>)"
proof -
  have t: "t \<in> set (ue_thumbnails env)" "t \<notin> set ts" "distinct ts" "set ts \<subseteq> set (ue_thumbnails env)"
    "\<forall>(u, d) \<in># thumbnail_entries s. u \<noteq> t \<and> u \<notin> set ts"
    using assms(1,3,4) by (fastforce simp: up_thumbnails_def)+
  then have fresh: "t \<notin> fst ` set_mset (thumbnail_entries s)" by fastforce
  then have "t \<notin> fst ` set (up_encryptedThumbnails s)" by (simp add: thumbnail_entries_def image_Un)
  then have "thumbnail_entries (s\<lparr>up_encryptedThumbnails := AList.update t d (up_encryptedThumbnails s), up_phase := UpThumbnails ts\<rparr>)
      = add_mset (t, d) (thumbnail_entries s)"
    by (simp add: thumbnail_entries_def update_fresh)
  then show ?thesis
    using assms(1,5) t fresh by (auto simp: up_thumbnails_def once_add)
qed

lemma up_enc_ok:
  assumes "up_reading chunks s" "up_blocks env chunks s" "up_enc s = EncEncrypt block" "ue_encryptBlock env block (up_index s) data"
  shows "up_blocks env chunks (s\<lparr>up_enc := EncRead, up_encryptedBlocks := AList.update (up_index s)
      \<lparr>eb_index = up_index s, eb_encryptedData = data, eb_originalSize = length block\<rparr> (up_encryptedBlocks s)\<rparr>)"
proof -
  let ?b = "\<lparr>eb_index = up_index s, eb_encryptedData = data, eb_originalSize = length block\<rparr>"
  let ?s = "s\<lparr>up_enc := EncRead, up_encryptedBlocks := AList.update (up_index s) ?b (up_encryptedBlocks s)\<rparr>"
  from assms(1,3) have r: "1 \<le> up_index s" "chunks ! (up_index s - 1) = block" "up_index s \<le> length chunks"
    by (auto simp: up_reading_def enc_chunk_def)
  have fresh: "up_index s \<notin> fst ` set_mset (block_entries s)"
    using assms(2,3) by (auto simp: up_blocks_def enc_chunk_def)
  then have "up_index s \<notin> fst ` set (up_encryptedBlocks s)" by (simp add: block_entries_def image_Un)
  then have "block_entries ?s = add_mset (up_index s, ?b) (block_entries s)"
    by (simp add: block_entries_def update_fresh)
  moreover have "block_of env chunks (up_index s) ?b" using r assms(4) by (simp add: block_of_def)
  ultimately show ?thesis
    using assms(2) fresh by (auto simp: up_blocks_def once_add enc_chunk_def)
qed

lemma up_enc_read:
  assumes "up_blocks env chunks s" "up_enc s = EncRead"
  shows "up_blocks env chunks (s\<lparr>up_chunks := cs, up_index := up_index s + 1, up_digests := ds, up_enc := EncWaitPaused block\<rparr>)"
    (is "up_blocks env chunks ?s")
proof -
  have "block_entries ?s = block_entries s" by (simp add: block_entries_def)
  moreover have "case p of (i, b) \<Rightarrow> block_of env chunks i b \<and> i \<le> up_index s" if "p \<in># block_entries s" for p
    using assms that by (auto simp: up_blocks_def)
  ultimately show ?thesis using assms by (fastforce simp: up_blocks_def)
qed

lemma up_initiated:
  assumes "initiate_inv s s'" "up_blocks env chunks s" "up_thumbnails env s" "up_order s" "up_phase s = UpRequest"
  shows "up_blocks env chunks (s'\<lparr>up_phase := ph\<rparr>)" "(\<And>ts. ph \<noteq> UpThumbnails ts) \<Longrightarrow> up_thumbnails env (s'\<lparr>up_phase := ph\<rparr>)"
    "up_order s'" "up_phase s' = UpRequest" "up_digests s' = up_digests s" "up_chunks s' = up_chunks s"
    "up_index s' = up_index s" "up_enc s' = up_enc s"
proof -
  from assms(1) obtain ts bs os where s': "s' = s\<lparr>up_encryptedThumbnails := ts, up_encryptedBlocks := bs, up_ongoingUploads := os\<rparr>"
    unfolding initiate_inv_def same_but_maps_def by blast
  have e: "block_entries (s'\<lparr>up_phase := ph\<rparr>) = block_entries s" "thumbnail_entries (s'\<lparr>up_phase := ph\<rparr>) = thumbnail_entries s"
    using assms(1) by (simp_all add: initiate_inv_def block_entries_def thumbnail_entries_def)
  show "up_blocks env chunks (s'\<lparr>up_phase := ph\<rparr>)"
  proof (rule up_blocks_mono [OF assms(2)])
    show "distinct (map fst (up_ongoingUploads (s'\<lparr>up_phase := ph\<rparr>)))" using assms(1) by (simp add: initiate_inv_def)
  qed (simp_all only: e subset_mset.order_refl, simp_all add: s')
  show "(\<And>ts. ph \<noteq> UpThumbnails ts) \<Longrightarrow> up_thumbnails env (s'\<lparr>up_phase := ph\<rparr>)"
    by (intro up_thumbnails_mono [OF assms(3)]) (simp_all add: e)
  show "up_order s'" using assms(4,5) by (simp add: s' up_order_def isUploadAborted_def)
qed (use assms(1,5) in \<open>auto simp: initiate_inv_def same_but_maps_def\<close>)

lemma up_live_quiet:
  assumes "up_live env chunks s" "up_order s'" "\<not> up_ended s'"
    "up_encryptedBlocks s' = up_encryptedBlocks s" "up_encryptedThumbnails s' = up_encryptedThumbnails s"
    "up_ongoingUploads s' = up_ongoingUploads s" "up_uploadedBlocks s' = up_uploadedBlocks s"
    "up_uploadedThumbnails s' = up_uploadedThumbnails s" "up_index s' = up_index s"
    "enc_chunk (up_enc s') \<noteq> None \<longrightarrow> enc_chunk (up_enc s) \<noteq> None"
    "\<And>ts. up_phase s' = UpThumbnails ts \<Longrightarrow> up_phase s = UpThumbnails ts"
  shows "up_live env chunks s'"
  using assms(1-3) up_quiet [OF _ _ assms(4-11), of env chunks] by (auto simp: up_live_def)

lemmas up_order_simps = up_order_def up_ended_def isUploadAborted_def isEncryptionFullyFinished_def enc_chunk_def

lemma up_order_settled:
  "up_order s \<Longrightarrow> up_order (upload_done key b s)"
  "up_order s \<Longrightarrow> up_order (upload_failed key error abort s)"
  by (auto simp: up_order_def isEncryptionFullyFinished_def split: up_phase.splits)

lemma up_ended_settled:
  "up_ended (upload_done key b s) = up_ended s" "up_ended (upload_failed key error abort s) = up_ended s"
  by (simp_all add: up_ended_def)

lemma up_live_enc_end:
  assumes "up_live env chunks s" "up_enc s \<noteq> EncEnded" "up_enc s \<noteq> EncNotStarted"
    "e \<noteq> None \<or> up_chunks s = [] \<or> isUploadAborted s"
  shows "up_live env chunks (enc_end e s)"
proof (rule up_live_quiet [OF assms(1)])
  have "up_order s" "\<not> up_ended s" using assms(1) by (auto simp: up_live_def)
  then show "up_order (enc_end e s)" "\<not> up_ended (enc_end e s)"
    using assms(2-4) by (auto simp: up_order_def isEncryptionFullyFinished_def up_ended_def split: up_phase.splits)
qed (simp_all add: enc_chunk_def)

lemma up_live_step:
  assumes "up_step env s s'" "up_reading chunks s" "up_live env chunks s"
    and content: "chunks = chop FILE_CHUNK_SIZE content" "ue_expectedSize env = length content"
  shows "up_live env chunks s' \<or> up_final env chunks s'"
proof -
  from assms(3) have live: "\<not> up_ended s" "up_blocks env chunks s" "up_thumbnails env s" "up_order s"
    by (auto simp: up_live_def)
  from live(4) have fin: "up_finish s = []" "up_committed s = None" by (auto simp: up_order_def)
  have failing: "up_final env chunks (up_fail e u)"
    if "up_finish u = []" "up_committed u = None \<or> up_committed u = Some c \<and> good_commit env chunks c" for e u c
    using that by (intro up_fail_final) auto
  have fails: "up_final env chunks (up_fail e s)" for e using failing fin by blast
  note order = live(4) [unfolded up_order_def]
  show ?thesis
    using assms(1)
  proof cases
    case (thumbnail_ok t ts data)
    then have "up_thumbnails env s'" using up_thumbnail_ok live(3,4) by blast
    moreover have "up_blocks env chunks s'"
      using thumbnail_ok(1) live(2) by (intro up_blocks_mono [OF live(2)]) (simp_all add: block_entries_def up_blocks_def)
    ultimately show ?thesis using order thumbnail_ok(1,2) by (auto simp: up_live_def up_order_simps)
  next
    case (thumbnails_end ts)
    show ?thesis
      by (rule disjI1, rule up_live_quiet [OF assms(3)]) (use order thumbnails_end in \<open>auto simp: up_order_simps split: if_splits\<close>)
  next
    case loop
    show ?thesis
      by (rule disjI1, rule up_live_quiet [OF assms(3)]) (use order loop in \<open>auto simp: up_order_simps split: if_splits\<close>)
  next
    case unpaused
    show ?thesis
      by (rule disjI1, rule up_live_quiet [OF assms(3)]) (use order unpaused in \<open>auto simp: up_order_simps split: if_splits\<close>)
  next
    case capacity
    show ?thesis
      by (rule disjI1, rule up_live_quiet [OF assms(3)]) (use order capacity in \<open>auto simp: up_order_simps split: if_splits\<close>)
  next
    case buffered
    show ?thesis
      by (rule disjI1, rule up_live_quiet [OF assms(3)]) (use order buffered in \<open>auto simp: up_order_simps split: if_splits\<close>)
  next
    case (request_ok thumbnailTokens blockTokens)
    obtain r s1 where r: "initiateUpload thumbnailTokens blockTokens s = (r, s1)" by force
    have "initiate_inv s s1"
      using live(2,3) by (intro initiateUpload_keeps [OF r]) (auto simp: up_blocks_def up_thumbnails_def)
    note init = up_initiated [OF this live(2-4) request_ok(2)]
    show ?thesis
    proof (cases r)
      case (Inl error)
      have "up_finish s1 = []" "up_committed s1 = None" using init(3) by (auto simp: up_order_def)
      then show ?thesis using failing [where u = s1 and e = error] request_ok(1) r Inl by (simp add: up_request_end_def)
    next
      case (Inr u)
      then have s': "s' = s1\<lparr>up_phase := (if isEncryptionFullyFinished s1 then UpCheck else UpLoop)\<rparr>"
        using request_ok(1) r by (simp add: up_request_end_def)
      have "up_order s'" "\<not> up_ended s'"
        using init(3,4) by (auto simp: s' up_order_def up_ended_def isUploadAborted_def isEncryptionFullyFinished_def)
      then show ?thesis using init(1,2) by (simp add: s' up_live_def)
    qed
  next
    case check
    show ?thesis
    proof (cases "isUploadAborted s")
      case True
      with check fails show ?thesis by simp
    next
      case False
      with order check(2) have "isEncryptionFullyFinished s" "up_chunks s = []"
        by (auto simp: isEncryptionFullyFinished_def)
      then have "up_live env chunks s'"
        by (intro up_live_quiet [OF assms(3)])
          (use order check False in \<open>auto simp: up_order_simps split: if_splits\<close>)
      then show ?thesis ..
    qed
  next
    case join_encryption
    show ?thesis
    proof (cases "up_encryptionError s")
      case (Some e)
      with join_encryption fails show ?thesis by simp
    next
      case None
      have "up_live env chunks s'"
        by (rule up_live_quiet [OF assms(3)])
          (use order join_encryption None in \<open>auto simp: up_order_simps split: if_splits\<close>)
      then show ?thesis ..
    qed
  next
    case join_uploads
    show ?thesis
      by (rule disjI1, rule up_live_quiet [OF assms(3)]) (use order join_uploads in \<open>auto simp: up_order_simps split: if_splits\<close>)
  next
    case (commit_ok commit)
    have "good_commit env chunks commit"
      using commit_is_good [OF commit_ok(3) assms(2) live(2,3) _ _ _ content] order commit_ok(2) by simp
    with commit_ok(1) fin have "up_final env chunks s'" by (simp add: up_final_def up_ended_def)
    then show ?thesis ..
  next
    case (commit_fail commit error)
    have "good_commit env chunks commit"
      using commit_is_good [OF commit_fail(3) assms(2) live(2,3) _ _ _ content] order commit_fail(2) by simp
    with fin show ?thesis unfolding commit_fail(1) by - (rule disjI2, rule failing [where c = commit], simp_all)
  next
    case (upload_ok key block)
    have d: "distinct (map fst (up_ongoingUploads s))" using live(2) by (simp add: up_blocks_def)
    have ix: "eb_index block = i" if "key = BlockKey i" for i
    proof -
      have "(i, block) \<in># block_entries s"
        using upload_ok(2) that sum_entries_in [of i block "up_ongoingUploads s"] by (simp add: block_entries_def)
      with live(2) show ?thesis by (auto simp: up_blocks_def block_of_def)
    qed
    note e = upload_done_entries [OF d upload_ok(2) ix]
    have "up_blocks env chunks s'"
      using d upload_ok(1) by (intro up_blocks_mono [OF live(2)]) (simp_all add: e distinct_delete)
    moreover have "up_thumbnails env s'"
      using upload_ok(1) by (intro up_thumbnails_mono [OF live(3)]) (simp_all add: e)
    moreover have "up_order s'" "\<not> up_ended s'"
      using live(1,4) upload_ok(1) by (simp_all add: up_order_settled up_ended_settled)
    ultimately show ?thesis by (simp add: up_live_def)
  next
    case (upload_fail key block error abort)
    have d: "distinct (map fst (up_ongoingUploads s))" using live(2) by (simp add: up_blocks_def)
    note e = upload_failed_entries [OF d upload_fail(2)]
    have "up_blocks env chunks s'"
      using d upload_fail(1) e by (intro up_blocks_mono [OF live(2)]) (simp_all add: distinct_delete)
    moreover have "up_thumbnails env s'"
      using upload_fail(1) e by (intro up_thumbnails_mono [OF live(3)]) simp_all
    moreover have "up_order s'" "\<not> up_ended s'"
      using live(1,4) upload_fail(1) by (simp_all add: up_order_settled up_ended_settled)
    ultimately show ?thesis by (simp add: up_live_def)
  next
    case (upload_fail_throws key block error abort)
    show ?thesis unfolding upload_fail_throws(1) by (rule disjI2, rule failing) (simp_all add: fin)
  next
    case (enc_read block chunks')
    have "up_blocks env chunks s'" unfolding enc_read(1) by (rule up_enc_read [OF live(2) enc_read(2)])
    moreover have "up_thumbnails env s'"
      using enc_read(1) by (intro up_thumbnails_mono [OF live(3)]) (simp_all add: thumbnail_entries_def)
    moreover have "up_order s'" "\<not> up_ended s'"
      using order live(1) enc_read by (auto simp: up_order_simps split: if_splits up_phase.splits)
    ultimately show ?thesis by (simp add: up_live_def)
  next
    case (enc_read_fail error)
    then show ?thesis using up_live_enc_end [OF assms(3)] by simp
  next
    case enc_read_end
    then show ?thesis using up_live_enc_end [OF assms(3)] by simp
  next
    case (enc_unpaused block)
    show ?thesis
      by (rule disjI1, rule up_live_quiet [OF assms(3)]) (use order enc_unpaused live(1) in \<open>auto simp: up_order_simps split: if_splits up_phase.splits\<close>)
  next
    case (enc_buffer block)
    show ?thesis
    proof (cases "isUploadAborted s")
      case True
      then show ?thesis using enc_buffer up_live_enc_end [OF assms(3), of None] by simp
    next
      case False
      then show ?thesis
        by (intro disjI1 up_live_quiet [OF assms(3)])
          (use order enc_buffer live(1) in \<open>auto simp: up_order_simps split: up_phase.splits\<close>)
    qed
  next
    case (enc_ok block data)
    have "up_blocks env chunks s'" unfolding enc_ok(1) by (rule up_enc_ok [OF assms(2) live(2) enc_ok(2,3)])
    moreover have "up_thumbnails env s'"
      using enc_ok(1) by (intro up_thumbnails_mono [OF live(3)]) (simp_all add: thumbnail_entries_def)
    moreover have "up_order s'" "\<not> up_ended s'"
      using order live(1) enc_ok(1,2) by (auto simp: up_order_simps split: if_splits up_phase.splits)
    ultimately show ?thesis by (simp add: up_live_def)
  next
    case (enc_fail block error)
    then show ?thesis using up_live_enc_end [OF assms(3)] by simp
  next
    case (limit i block)
    show ?thesis
      by (rule disjI1, rule up_live_quiet [OF assms(3)]) (use order limit live(1) in \<open>auto simp: up_order_simps split: if_splits up_phase.splits\<close>)
  next
    case pause
    show ?thesis
      by (rule disjI1, rule up_live_quiet [OF assms(3)]) (use order pause live(1) in \<open>auto simp: up_order_simps split: if_splits up_phase.splits\<close>)
  next
    case resume
    show ?thesis
      by (rule disjI1, rule up_live_quiet [OF assms(3)]) (use order resume live(1) in \<open>auto simp: up_order_simps split: if_splits up_phase.splits\<close>)
  next
    case abort
    show ?thesis
      by (rule disjI1, rule up_live_quiet [OF assms(3)]) (use order abort live(1) in \<open>auto simp: up_order_simps split: if_splits up_phase.splits\<close>)
  qed (use fails in simp_all)
qed

lemma up_final_step:
  assumes "up_step env s s'" "up_final env chunks s"
  shows "up_final env chunks s'"
proof -
  from assms(2) have ended: "up_phase s = UpDone \<or> (\<exists>e. up_phase s = UpThrew e)"
    by (auto simp: up_final_def up_ended_def split: up_phase.splits)
  have keep: ?thesis if "up_phase s' = up_phase s" "up_finish s' = up_finish s" "up_committed s' = up_committed s"
    using assms(2) that by (simp add: up_final_def up_ended_def)
  from assms(1) show ?thesis
  proof cases
    case (upload_fail_throws key block error abort)
    with ended show ?thesis by (auto simp: up_waiting_for_def)
  qed (use ended keep in auto)
qed

lemma up_reading_step:
  assumes "up_step env s s'" "up_reading chunks s" "up_live env chunks s \<or> up_final env chunks s"
  shows "up_reading chunks s'"
proof -
  have same: ?thesis if "up_digests s' = up_digests s" "up_chunks s' = up_chunks s" "up_index s' = up_index s"
    "enc_chunk (up_enc s') = enc_chunk (up_enc s) \<or> enc_chunk (up_enc s') = None"
    using assms(2) that by (auto simp: up_reading_def)
  from assms(1) show ?thesis
  proof cases
    case (request_ok thumbnailTokens blockTokens)
    obtain r s1 where r: "initiateUpload thumbnailTokens blockTokens s = (r, s1)" by force
    from assms(3) request_ok(2) have live: "up_blocks env chunks s" "up_thumbnails env s" "up_order s"
      by (auto simp: up_live_def up_final_def up_ended_def)
    then have "initiate_inv s s1"
      by (intro initiateUpload_keeps [OF r]) (auto simp: up_blocks_def up_thumbnails_def)
    note init = up_initiated [OF this live request_ok(2)]
    show ?thesis
      by (rule same) (use init request_ok(1) r in \<open>auto simp: up_request_end_def split: sum.splits\<close>)
  next
    case (enc_read block chunks')
    with assms(2) show ?thesis by (auto simp: up_reading_def enc_chunk_def nth_append)
  qed (rule same; auto simp: enc_chunk_def split: option.splits)+
qed

lemma up_inv_reach:
  assumes "up_reach env (up_init env chunks) s" "chunks = chop FILE_CHUNK_SIZE content" "ue_expectedSize env = length content"
  shows "up_inv env chunks s"
  using assms(1)
proof (induction rule: up_reach.induct)
  case up_reach_refl
  have "up_blocks env chunks (up_init env chunks)" "up_thumbnails env (up_init env chunks)"
    "up_order (up_init env chunks)" "up_reading chunks (up_init env chunks)" "\<not> up_ended (up_init env chunks)"
    by (simp_all add: up_init_def up_blocks_def up_thumbnails_def up_order_simps up_reading_def block_entries_def
        thumbnail_entries_def once_mset [of "[]", simplified])
  then show ?case by (simp add: up_inv_def up_live_def)
next
  case (up_reach_step s s')
  then show ?case
    using up_reading_step up_live_step [OF _ _ _ assms(2,3)] up_final_step unfolding up_inv_def by blast
qed

section \<open>Properties\<close>

text \<open>An upload of one byte, to its end.\<close>

definition example_upload :: up_env where
  "example_upload = \<lparr>ue_expectedSize = 1, ue_expectedSha1 = Some ''7'', ue_thumbnails = [], ue_encryptThumbnail = (\<lambda>t d. True),
     ue_encryptBlock = (\<lambda>block i data. data = 0 # block), ue_sha256 = (\<lambda>data. data), ue_sha1 = (\<lambda>content. ''7'')\<rparr>"

lemma example_chunks: "iterateChunks FILE_CHUNK_SIZE [[7]] = Some [[7]]"
proof -
  have "chop FILE_CHUNK_SIZE [7 :: 8 word] = [[7]]" by (intro chop_short) (simp_all add: FILE_CHUNK_SIZE_def)
  then show ?thesis
    by (simp add: iterateChunks_def iterate_chunks_chops FILE_CHUNK_SIZE_pos del: iterate_chunks.simps)
qed

lemma example_upload_run:
  "\<exists>s. up_reach example_upload (up_init example_upload [[7]]) s \<and> up_phase s = UpDone"
proof -
  let ?env = example_upload and ?b = "\<lparr>eb_index = 1, eb_encryptedData = [0, 7], eb_originalSize = 1\<rparr>"
  define s0 where "s0 = up_init ?env [[7]]"
  define s1 where "s1 = s0\<lparr>up_phase := UpLoop, up_enc := EncRead\<rparr>"
  define s2 where "s2 = s1\<lparr>up_chunks := [], up_index := up_index s1 + 1, up_digests := up_digests s1 @ [[7]], up_enc := EncWaitPaused [7]\<rparr>"
  define s3 where "s3 = s2\<lparr>up_enc := EncWaitBuffer [7]\<rparr>"
  define s4 where "s4 = (if isUploadAborted s3 then enc_end None s3 else s3\<lparr>up_enc := EncEncrypt [7]\<rparr>)"
  define s5 where "s5 = s4\<lparr>up_enc := EncRead, up_encryptedBlocks := AList.update (up_index s4)
      \<lparr>eb_index = up_index s4, eb_encryptedData = [0, 7], eb_originalSize = length [7 :: 8 word]\<rparr> (up_encryptedBlocks s4)\<rparr>"
  define s6 where "s6 = enc_end None s5"
  define s7 where "s7 = s6\<lparr>up_phase := (if isUploadAborted s6 then UpCheck else UpWaitPaused)\<rparr>"
  define s8 where "s8 = s7\<lparr>up_phase := UpWaitCapacity\<rparr>"
  define s9 where "s9 = s8\<lparr>up_phase := UpWaitBuffered\<rparr>"
  define s10 where "s10 = s9\<lparr>up_phase := (if isEncryptionFullyFinished s9 \<or> isUploadAborted s9 then UpCheck else UpRequest)\<rparr>"
  define s11 where "s11 = up_request_end (initiateUpload [] [1] s10)"
  define s12 where "s12 = (if isUploadAborted s11 then up_fail (abort_reason s11) s11 else s11\<lparr>up_phase := UpJoinEncryption\<rparr>)"
  define s13 where "s13 = (case up_encryptionError s12 of Some error \<Rightarrow> up_fail error s12 | None \<Rightarrow> s12\<lparr>up_phase := UpJoinUploads\<rparr>)"
  define s14 where "s14 = upload_done (BlockKey 1) ?b s13"
  define s15 where "s15 = s14\<lparr>up_phase := UpCommit\<rparr>"
  note defs = s1_def s2_def s3_def s4_def s5_def s6_def s7_def s8_def s9_def s10_def s11_def s12_def s13_def s14_def s15_def
  note eval = s0_def up_init_def example_upload_def isUploadAborted_def isEncryptionFullyFinished_def enc_end_def
    up_request_end_def initiateUpload_def initiate_block_def upload_done_def MAX_BUFFERED_BLOCKS_def MAX_UPLOADING_BLOCKS_def
  have "up_reach ?env s0 s1" unfolding s1_def
    by (rule up_reach_step [OF up_reach_refl thumbnails_end [where ts = "[]"]]) (simp_all add: eval)
  then have "up_reach ?env s0 s2" unfolding s2_def by (rule up_reach_step [OF _ enc_read]) (simp_all add: s1_def eval)
  then have "up_reach ?env s0 s3" unfolding s3_def by (rule up_reach_step [OF _ enc_unpaused]) (simp_all add: s1_def s2_def eval)
  then have "up_reach ?env s0 s4" unfolding s4_def by (rule up_reach_step [OF _ enc_buffer]) (simp_all add: s1_def s2_def s3_def eval)
  moreover have s4: "s4 = \<lparr>up_phase = UpLoop, up_enc = EncEncrypt [7], up_chunks = [], up_index = 1, up_digests = [[7]],
      up_encryptionError = None, up_encryptedThumbnails = [], up_encryptedBlocks = [], up_encryptionFinished = False,
      up_ongoingUploads = [], up_uploadedThumbnails = [], up_uploadedBlocks = [], up_maxUploadingBlocks = 5,
      up_error = None, up_aborted = False, up_paused = False, up_finish = [], up_committed = None\<rparr>"
    by (simp add: s1_def s2_def s3_def s4_def eval)
  ultimately have "up_reach ?env s0 s5" unfolding s5_def
    by - (rule up_reach_step [OF _ enc_ok [where block = "[7]"]], simp_all add: eval)
  then have "up_reach ?env s0 s6" unfolding s6_def by (rule up_reach_step [OF _ enc_read_end]) (simp_all add: s5_def s4)
  moreover have s6: "s6 = s4\<lparr>up_enc := EncEnded, up_encryptedBlocks := [(1, ?b)], up_encryptionFinished := True\<rparr>"
    by (simp add: s6_def s5_def s4 enc_end_def)
  ultimately have "up_reach ?env s0 s7" unfolding s7_def by - (rule up_reach_step [OF _ loop], simp_all add: s4)
  then have "up_reach ?env s0 s8" unfolding s8_def by (rule up_reach_step [OF _ unpaused]) (simp_all add: s7_def s6 s4 isUploadAborted_def)
  then have "up_reach ?env s0 s9" unfolding s9_def by (rule up_reach_step [OF _ capacity]) (simp_all add: s8_def s7_def s6 s4)
  then have "up_reach ?env s0 s10" unfolding s10_def by (rule up_reach_step [OF _ buffered]) (simp_all add: s9_def s8_def s7_def s6 s4)
  moreover have s10: "s10 = s6\<lparr>up_phase := UpRequest\<rparr>"
    by (simp add: s10_def s9_def s8_def s7_def s6 s4 isUploadAborted_def isEncryptionFullyFinished_def)
  ultimately have "up_reach ?env s0 s11" unfolding s11_def by - (rule up_reach_step [OF _ request_ok], simp_all)
  moreover have s11: "s11 = s6\<lparr>up_phase := UpCheck, up_encryptedBlocks := [], up_ongoingUploads := [(BlockKey 1, ?b)]\<rparr>"
    by (simp add: s11_def s10 s6 s4 eval)
  ultimately have "up_reach ?env s0 s12" unfolding s12_def by - (rule up_reach_step [OF _ check], simp_all)
  then have "up_reach ?env s0 s13" unfolding s13_def
    by (rule up_reach_step [OF _ join_encryption]) (simp_all add: s12_def s11 s6 s4 isUploadAborted_def)
  moreover have s13: "s13 = s11\<lparr>up_phase := UpJoinUploads\<rparr>"
    by (simp add: s13_def s12_def s11 s6 s4 isUploadAborted_def)
  ultimately have "up_reach ?env s0 s14" unfolding s14_def by - (rule up_reach_step [OF _ upload_ok], simp_all add: s11)
  then have "up_reach ?env s0 s15" unfolding s15_def
    by (rule up_reach_step [OF _ join_uploads]) (simp_all add: s14_def s13 s11 upload_done_def)
  moreover have "commitFile ?env s15 = Inr ([0, 7], [1], True)"
    by (simp add: commitFile_def verifyIntegrity_def uploadedBlockCount_def uploadedOriginalFileSize_def expectedBlockCount_def
        uploadedBlockSizes_def getManifest_def mergeUint8Arrays_concat s15_def s14_def s13 s11 s6 s4 upload_done_def
        example_upload_def present_def FILE_CHUNK_SIZE_def)
  ultimately have "up_reach ?env s0 ((up_cleanup False s15)\<lparr>up_committed := Some ([0, 7], [1], True), up_phase := UpDone\<rparr>)"
    by - (rule up_reach_step [OF _ commit_ok], simp_all add: s15_def)
  moreover have "up_phase ((up_cleanup False s15)\<lparr>up_committed := Some ([0, 7], [1], True), up_phase := UpDone\<rparr>) = UpDone"
    by simp
  ultimately show ?thesis unfolding s0_def by blast
qed

text \<open>
  C1: an upload whose stream has the expected size commits the whole stream, and only when it
  succeeds or the commit itself fails: the manifest is the hashes of every thumbnail in the order
  of their types and of every block in the order of the content, whatever order the server gave
  the tokens in and the uploads finished in. The block sizes are those of the content, and a given
  SHA-1 is the content's.
\<close>

theorem committed_upload_is_content:
  assumes "iterateChunks FILE_CHUNK_SIZE stream = Some chunks" and "ue_expectedSize env = length (concat stream)"
    and "up_reach env (up_init env chunks) s"
  shows "(up_phase s = UpDone \<longrightarrow> up_committed s \<noteq> None)
     \<and> (\<forall>commit. up_committed s = Some commit \<longrightarrow>
          (\<exists>thumbnails blocks.
             list_all2 (ue_encryptThumbnail env) (sort (ue_thumbnails env)) thumbnails
             \<and> length blocks = length chunks \<and> (\<forall>i < length chunks. ue_encryptBlock env (chunks ! i) (i + 1) (blocks ! i))
             \<and> commit = (concat (map (ue_sha256 env) (thumbnails @ blocks)), map length chunks,
                 present (ue_expectedSha1 env) \<noteq> None)
             \<and> (\<forall>h. present (ue_expectedSha1 env) = Some h \<longrightarrow> ue_sha1 env (concat stream) = h)))"
proof -
  have chunks: "chunks = chop FILE_CHUNK_SIZE (concat stream)"
    using assms(1) FILE_CHUNK_SIZE_pos by (simp add: iterateChunks_def iterate_chunks_chops)
  then have "concat chunks = concat stream" by (simp add: concat_chop FILE_CHUNK_SIZE_pos)
  moreover have "up_inv env chunks s" by (rule up_inv_reach [OF assms(3) chunks assms(2)])
  ultimately show ?thesis
    by (auto simp: up_inv_def up_live_def up_order_def up_final_def good_commit_def up_ended_def)
qed

theorem committed_upload_is_content_witness:
  "\<exists>s. up_reach example_upload (up_init example_upload [[7]]) s \<and> up_phase s = UpDone
     \<and> up_committed s = Some ([0, 7], [1], True)"
proof -
  obtain s where s: "up_reach example_upload (up_init example_upload [[7]]) s" "up_phase s = UpDone"
    using example_upload_run by blast
  have size: "ue_expectedSize example_upload = length (concat [[7 :: 8 word]])" by (simp add: example_upload_def)
  from committed_upload_is_content [OF example_chunks size s(1)] s(2) obtain commit where
    "up_committed s = Some commit" "\<exists>thumbnails blocks.
       list_all2 (ue_encryptThumbnail example_upload) (sort (ue_thumbnails example_upload)) thumbnails
       \<and> length blocks = length [[7 :: 8 word]]
       \<and> (\<forall>i < length [[7 :: 8 word]]. ue_encryptBlock example_upload ([[7]] ! i) (i + 1) (blocks ! i))
       \<and> commit = (concat (map (ue_sha256 example_upload) (thumbnails @ blocks)), map length [[7 :: 8 word]],
           present (ue_expectedSha1 example_upload) \<noteq> None)" by blast
  then have "up_committed s = Some ([0, 7], [1], True)"
    by (auto simp: example_upload_def present_def length_Suc_conv)
  with s show ?thesis by blast
qed



section \<open>Buffers\<close>

definition up_bounded :: "up_env \<Rightarrow> up_state \<Rightarrow> bool" where
  "up_bounded env s \<longleftrightarrow>
     length (up_encryptedBlocks s) \<le> MAX_BUFFERED_BLOCKS
     \<and> (\<forall>b. up_enc s = EncEncrypt b \<longrightarrow> length (up_encryptedBlocks s) < MAX_BUFFERED_BLOCKS)
     \<and> up_maxUploadingBlocks s \<le> MAX_UPLOADING_BLOCKS
     \<and> length (up_ongoingUploads s) + length (up_encryptedThumbnails s)
         < MAX_UPLOADING_BLOCKS + MAX_BUFFERED_BLOCKS + length (ue_thumbnails env)
     \<and> length (up_encryptedThumbnails s) \<le> length (ue_thumbnails env)
     \<and> (case up_phase s of
          UpThumbnails ts \<Rightarrow> up_ongoingUploads s = [] \<and> length (up_encryptedThumbnails s) + length ts \<le> length (ue_thumbnails env)
        | UpWaitBuffered \<Rightarrow> length (up_ongoingUploads s) < MAX_UPLOADING_BLOCKS
        | UpRequest \<Rightarrow> length (up_ongoingUploads s) < MAX_UPLOADING_BLOCKS
        | _ \<Rightarrow> True)"

lemma initiateUpload_same: "initiateUpload thumbnailTokens blockTokens s = (r, s') \<Longrightarrow> same_but_maps s s'"
proof -
  assume run: "initiateUpload thumbnailTokens blockTokens s = (r, s')"
  note keeps = initiate_all_keeps [where P = "same_but_maps s"]
  have thumbnails: "same_but_maps s u'" if "initiate_all initiate_thumbnail ts u = (q, u')" "same_but_maps s u" for ts u q u'
    using that by (rule keeps [rotated]) (use initiate_thumbnail_same same_but_maps_trans in blast)
  have blocks: "same_but_maps s u'" if "initiate_all initiate_block ts u = (q, u')" "same_but_maps s u" for ts u q u'
    using that by (rule keeps [rotated]) (use initiate_block_same same_but_maps_trans in blast)
  obtain q u where t: "initiate_all initiate_thumbnail thumbnailTokens s = (q, u)" by force
  have "same_but_maps s u" using thumbnails [OF t same_but_maps_refl] .
  with run t blocks show ?thesis
    by (cases q) (auto simp: initiateUpload_def split: if_splits)
qed

lemma up_bounded_cleanup: "up_bounded env s \<Longrightarrow> up_bounded env (up_fail e s)"
  by (auto simp: up_bounded_def up_fail_def up_cleanup_def MAX_BUFFERED_BLOCKS_def)

lemma up_bounded_settled:
  "up_bounded env s \<Longrightarrow> up_bounded env (upload_done key b s)"
  "up_bounded env s \<Longrightarrow> up_bounded env (upload_failed key error abort s)"
proof -
  have len: "length (AList.delete key (up_ongoingUploads s)) \<le> length (up_ongoingUploads s)" by (rule length_delete_le)
  have "up_maxUploadingBlocks (upload_done key b s) = up_maxUploadingBlocks s"
    "up_maxUploadingBlocks (upload_failed key error abort s) = up_maxUploadingBlocks s"
    by (simp_all add: upload_done_def upload_failed_def abortUpload_def Let_def split: upload_key.split)
  with len show "up_bounded env s \<Longrightarrow> up_bounded env (upload_done key b s)"
    "up_bounded env s \<Longrightarrow> up_bounded env (upload_failed key error abort s)"
    by (auto simp: up_bounded_def split: up_phase.splits)
qed

lemma up_bounded_enc_end: "up_bounded env s \<Longrightarrow> up_bounded env (enc_end e s)"
proof -
  have "up_maxUploadingBlocks (enc_end e s) = up_maxUploadingBlocks s"
    by (simp add: enc_end_def abortUpload_def Let_def split: option.split)
  then show "up_bounded env s \<Longrightarrow> up_bounded env (enc_end e s)"
    by (cases "up_phase s") (simp_all add: up_bounded_def)
qed

lemma up_bounded_same:
  assumes "up_bounded env s" "up_encryptedBlocks s' = up_encryptedBlocks s" "up_encryptedThumbnails s' = up_encryptedThumbnails s"
    "up_ongoingUploads s' = up_ongoingUploads s" "up_maxUploadingBlocks s' = up_maxUploadingBlocks s"
    "\<And>b. up_enc s' = EncEncrypt b \<Longrightarrow> up_enc s = EncEncrypt b"
    "up_phase s' = up_phase s \<or> (\<forall>ts. up_phase s' \<noteq> UpThumbnails ts)
       \<and> (up_phase s' = UpWaitBuffered \<or> up_phase s' = UpRequest \<longrightarrow> up_phase s = UpWaitBuffered)"
  shows "up_bounded env s'"
proof -
  have "length (up_encryptedBlocks s) < MAX_BUFFERED_BLOCKS" if "up_enc s' = EncEncrypt b" for b
    using assms(1) assms(6) [OF that] by (simp add: up_bounded_def)
  with assms(1-5,7) show ?thesis
    by (cases "up_phase s = up_phase s'"; cases "up_phase s'"; cases "up_phase s"; simp add: up_bounded_def)
qed

lemma up_bounded_step:
  assumes "up_step env s s'" "up_bounded env s"
  shows "up_bounded env s'"
  using assms(1)
proof cases
  case (thumbnail_ok t ts data)
  with assms(2) alist_update_length [of t data "up_encryptedThumbnails s"] show ?thesis
    by (auto simp: up_bounded_def MAX_UPLOADING_BLOCKS_def)
next
  case (capacity)
  with assms(2) show ?thesis by (auto simp: up_bounded_def)
next
  case (request_ok thumbnailTokens blockTokens)
  obtain r s1 where r: "initiateUpload thumbnailTokens blockTokens s = (r, s1)" by force
  then obtain ts bs os where s1: "s1 = s\<lparr>up_encryptedThumbnails := ts, up_encryptedBlocks := bs, up_ongoingUploads := os\<rparr>"
    "length bs \<le> length (up_encryptedBlocks s)"
    "length os + length bs + length ts \<le> length (up_ongoingUploads s) + length (up_encryptedBlocks s) + length (up_encryptedThumbnails s)"
    "length ts \<le> length (up_encryptedThumbnails s)"
    using initiateUpload_same [OF r] unfolding same_but_maps_def by blast
  have b1: "up_bounded env (s1\<lparr>up_phase := ph\<rparr>)" if "ph = UpCheck \<or> ph = UpLoop" for ph
    using that assms(2) request_ok(2) s1(2-4) by (auto simp: s1(1) up_bounded_def)
  show ?thesis
  proof (cases r)
    case (Inl e)
    have "up_fail e s1 = up_fail e (s1\<lparr>up_phase := UpLoop\<rparr>)" by (simp add: up_fail_def up_cleanup_def)
    then show ?thesis using b1 up_bounded_cleanup request_ok(1) r Inl by (simp add: up_request_end_def)
  next
    case (Inr u)
    then show ?thesis using b1 request_ok(1) r by (simp add: up_request_end_def)
  qed
next
  case (check)
  then show ?thesis using assms(2) up_bounded_cleanup by (auto simp: up_bounded_def)
next
  case (upload_ok key block)
  then show ?thesis using assms(2) up_bounded_settled(1) by simp
next
  case (upload_fail key block error abort)
  then show ?thesis using assms(2) up_bounded_settled(2) by simp
next
  case (upload_fail_throws key block error abort)
  then show ?thesis using assms(2) up_bounded_settled(2) up_bounded_cleanup by simp
next
  case (enc_ok block data)
  let ?b = "\<lparr>eb_index = up_index s, eb_encryptedData = data, eb_originalSize = length block\<rparr>"
  have "length (AList.update (up_index s) ?b (up_encryptedBlocks s)) \<le> MAX_BUFFERED_BLOCKS"
    using alist_update_length [of "up_index s" ?b "up_encryptedBlocks s"] assms(2) enc_ok(2) by (simp add: up_bounded_def)
  then show ?thesis using assms(2) enc_ok(1) by (cases "up_phase s") (simp_all add: up_bounded_def)
next
  case (commit_ok commit)
  with assms(2) show ?thesis by (auto simp: up_bounded_def up_cleanup_def MAX_BUFFERED_BLOCKS_def)
next
  case (commit_fail commit error)
  then have "up_bounded env (s\<lparr>up_committed := Some commit\<rparr>)" using assms(2) by (simp add: up_bounded_def)
  with commit_fail(1) up_bounded_cleanup show ?thesis by simp
next
  case (enc_buffer block)
  have "up_bounded env (s\<lparr>up_enc := EncEncrypt block\<rparr>)" if "\<not> isUploadAborted s"
    using that assms(2) enc_buffer(3) by (cases "up_phase s") (simp_all add: up_bounded_def isUploadAborted_def)
  with enc_buffer(1) assms(2) up_bounded_enc_end show ?thesis by simp
next
  case thumbnails_duplicate
  then show ?thesis using assms(2) up_bounded_cleanup by simp
next
  case thumbnail_fail
  then show ?thesis using assms(2) up_bounded_cleanup by simp
next
  case request_fail
  then show ?thesis using assms(2) up_bounded_cleanup by simp
next
  case commit_refused
  then show ?thesis using assms(2) up_bounded_cleanup by simp
next
  case enc_read_fail
  then show ?thesis using assms(2) up_bounded_enc_end by simp
next
  case enc_read_end
  then show ?thesis using assms(2) up_bounded_enc_end by simp
next
  case enc_fail
  then show ?thesis using assms(2) up_bounded_enc_end by simp
next
  case join_encryption
  then show ?thesis
    using assms(2) up_bounded_cleanup by (cases "up_encryptionError s") (auto intro: up_bounded_same)
next
  case limit
  then show ?thesis using assms(2) by (cases "up_phase s") (simp_all add: up_bounded_def MAX_UPLOADING_BLOCKS_def)
qed (rule up_bounded_same [OF assms(2)]; simp)+

text \<open>
  C31: at any moment at most 15 encrypted blocks wait, and fewer than 20 blocks, besides the
  thumbnails, are being uploaded: a request is made with fewer than five uploads running, but then
  starts all the blocks that wait.
\<close>

theorem upload_buffers_bounded:
  assumes "up_reach env (up_init env chunks) s"
  shows "length (up_encryptedBlocks s) \<le> 15 \<and> length (up_ongoingUploads s) < 20 + length (ue_thumbnails env)
     \<and> up_maxUploadingBlocks s \<le> 5"
proof -
  have "up_bounded env s"
    using assms
  proof (induction rule: up_reach.induct)
    case up_reach_refl
    show ?case by (simp add: up_bounded_def up_init_def MAX_BUFFERED_BLOCKS_def MAX_UPLOADING_BLOCKS_def)
  qed (rule up_bounded_step)
  then show ?thesis by (simp add: up_bounded_def MAX_BUFFERED_BLOCKS_def MAX_UPLOADING_BLOCKS_def)
qed

theorem upload_buffers_bounded_witness:
  "\<exists>s. up_reach example_upload (up_init example_upload [[7]]) s \<and> up_phase s = UpDone \<and> length (up_ongoingUploads s) < 20"
proof -
  obtain s where s: "up_reach example_upload (up_init example_upload [[7]]) s" "up_phase s = UpDone"
    using example_upload_run by blast
  with upload_buffers_bounded [OF s(1)] show ?thesis by (auto simp: example_upload_def)
qed

end
