(* ===== verification/UploadManager.thy ===== *)
theory UploadManager
  imports Uids Effects NodeAttributes UploadStream
begin

text \<open>
  Drafts and commits of uploads: \<^verbatim>\<open>internal/upload/manager.ts\<close> and the key handling of
  \<^verbatim>\<open>internal/upload/cryptoService.ts\<close> it calls. The API, the nodes module and the OpenPGP library
  are a record of operations on a state of their own, \<open>'s\<close>; the requests sent are logged with
  their answers, so that the properties can speak about what was asked in which order.

  Creating a draft repeats itself for as long as the server reports a draft of this client in the
  way and lets it be deleted. The repetition takes fuel: \<open>None\<close> is the answer of a call that has
  not ended after that many attempts.
\<close>

section \<open>Data\<close>

record 'k signing_keys =
  sg_email :: "string option"
  sg_addressId :: "string option"
  sg_nameAndPassphraseSigningKey :: 'k
  sg_contentSigningKey :: 'k

record ('k, 'p) generated_keys =
  gk_armoredKey :: string
  gk_armoredPassphrase :: string
  gk_armoredPassphraseSignature :: string
  gk_passphrase :: string
  gk_key :: 'k
  gk_passphraseSessionKey :: 'p

record 'p content_key =
  ck_contentKeyPacket :: bytes
  ck_base64ContentKeyPacket :: string
  ck_armoredContentKeyPacketSignature :: string
  ck_contentKeyPacketSessionKey :: 'p

record ('k, 'p) node_crypto =
  gc_nodeKeys :: "('k, 'p) generated_keys"
  gc_contentKey :: "'p content_key"
  gc_encryptedName :: string
  gc_hash :: string
  gc_signingKeys :: "'k signing_keys"

record ('k, 'p) service_keys =
  sv_key :: 'k
  sv_passphraseSessionKey :: 'p
  sv_contentKeyPacket :: "bytes option"
  sv_contentKeyPacketSessionKey :: "'p option"
  sv_hashKey :: "bytes option"

text \<open>The active revision is absent, failed, or known by its UID.\<close>

record service_node =
  sn_uid :: string
  sn_parentUid :: "string option"
  sn_activeRevision :: "(js_error + string) option"

record upload_metadata =
  um_mediaType :: "string option"
  um_expectedSize :: nat
  um_overrideExistingDraftByOtherClient :: bool

record new_node_info =
  nn_parentUid :: string
  nn_name :: string
  nn_encryptedName :: string
  nn_hash :: string

record ('k, 'p) revision_draft =
  rd_nodeUid :: string
  rd_nodeRevisionUid :: string
  rd_key :: 'k
  rd_contentKeyPacketSessionKey :: 'p
  rd_signingKeys :: "'k signing_keys"
  rd_parentHashKey :: "bytes option"
  rd_newNodeInfo :: "new_node_info option"

record draft_request =
  dr_armoredEncryptedName :: string
  dr_hash :: string
  dr_mediaType :: "string option"
  dr_intendedUploadSize :: nat
  dr_armoredNodeKey :: string
  dr_armoredNodePassphrase :: string
  dr_armoredNodePassphraseSignature :: string
  dr_base64ContentKeyPacket :: string
  dr_armoredContentKeyPacketSignature :: string
  dr_signatureEmail :: "string option"

record small_block =
  sb_encryptedData :: bytes
  sb_armoredSignature :: string
  sb_verificationToken :: bytes

record commit_payload =
  cp_armoredManifestSignature :: string
  cp_armoredExtendedAttributes :: string
  cp_checksumVerified :: "bool option"

record small_file_request =
  sf_armoredEncryptedName :: string
  sf_hash :: string
  sf_mediaType :: string
  sf_armoredNodeKey :: string
  sf_armoredNodePassphrase :: string
  sf_armoredNodePassphraseSignature :: string
  sf_base64ContentKeyPacket :: string
  sf_armoredContentKeyPacketSignature :: string
  sf_armoredExtendedAttributes :: string
  sf_signatureEmail :: "string option"

record small_content =
  sc_armoredManifestSignature :: string
  sc_checksumVerified :: "bool option"
  sc_block :: "small_block option"
  sc_thumbnails :: "(nat \<times> bytes) list"

record commit_crypto =
  cc_armoredManifestSignature :: string
  cc_signatureEmail :: "string option"
  cc_armoredExtendedAttributes :: string
  cc_checksumVerified :: "bool option"

text \<open>What the server tells about the node in the way.\<close>

record conflict_details =
  cd_ConflictLinkID :: string
  cd_ConflictDraftRevisionID :: "string option"
  cd_ConflictDraftClientUID :: "string option"

section \<open>Services\<close>

record ('k, 'p) drive_crypto =
  dc_enableAead :: "thrown + bool"
  dc_generateKey :: "'k list \<Rightarrow> 'k \<Rightarrow> bool \<Rightarrow> thrown + ('k, 'p) generated_keys"
  dc_encryptNodeName :: "string \<Rightarrow> 'k \<Rightarrow> 'k \<Rightarrow> thrown + string"
  dc_generateLookupHash :: "string \<Rightarrow> bytes \<Rightarrow> thrown + string"
  dc_generateContentKey :: "'k \<Rightarrow> thrown + 'p content_key"
  dc_signManifest :: "bytes \<Rightarrow> 'k \<Rightarrow> thrown + string"
  dc_encryptExtendedAttributes :: "js_text \<Rightarrow> 'k \<Rightarrow> 'k \<Rightarrow> thrown + string"

record ('s, 'k, 'p) upload_services =
  us_clientUid :: "string option"
  us_details :: "details \<Rightarrow> conflict_details"
  us_crypto :: "('k, 'p) drive_crypto"
  us_getNode :: "string \<Rightarrow> ('s, service_node) act"
  us_getNodeKeys :: "string \<Rightarrow> ('s, ('k, 'p) service_keys) act"
  us_getNodeSigningKeys :: "string option \<Rightarrow> string option \<Rightarrow> ('s, 'k node_signing_keys) act"
  us_notifyChildCreated :: "string \<Rightarrow> ('s, unit) act"
  us_notifyNodeChanged :: "string \<Rightarrow> ('s, unit) act"
  us_createDraft :: "string \<Rightarrow> draft_request \<Rightarrow> ('s, string \<times> string) act"
  us_uploadSmallFile :: "string \<Rightarrow> small_file_request \<Rightarrow> small_content \<Rightarrow> ('s, string \<times> string) act"
  us_uploadSmallRevision ::
    "string \<Rightarrow> string \<Rightarrow> string option \<times> string \<Rightarrow> small_content \<Rightarrow> ('s, string \<times> string) act"
  us_deleteDraft :: "string \<Rightarrow> ('s, unit) act"
  us_createDraftRevision :: "string \<Rightarrow> string \<times> nat \<Rightarrow> ('s, string) act"
  us_deleteDraftRevision :: "string \<Rightarrow> ('s, unit) act"
  us_commitDraftRevision :: "string \<Rightarrow> commit_crypto \<Rightarrow> ('s, unit) act"
  us_isRevisionUploaded :: "string \<Rightarrow> ('s, bool) act"

datatype request =
    CreateDraft string "thrown + string \<times> string"
  | UploadSmallFile string "thrown + string \<times> string"
  | UploadSmallRevision string "thrown + string \<times> string"
  | DeleteDraft string "thrown + unit"
  | CreateDraftRevision string "thrown + string"
  | DeleteDraftRevision string "thrown + unit"
  | CommitDraftRevision string commit_crypto "thrown + unit"
  | IsRevisionUploaded string "thrown + bool"
  | ChildCreated string "thrown + unit"
  | NodeChanged string "thrown + unit"

record 's world =
  w_outside :: 's
  w_log :: "request list"

definition read_from :: "('s, 'a) act \<Rightarrow> ('s world, 'a) act" where
  "read_from m w = (case m (w_outside w) of (r, s) \<Rightarrow> (r, w\<lparr>w_outside := s\<rparr>))"

definition send :: "((thrown + 'a) \<Rightarrow> request) \<Rightarrow> ('s, 'a) act \<Rightarrow> ('s world, 'a) act" where
  "send entry m w = (case m (w_outside w) of (r, s) \<Rightarrow> (r, \<lparr>w_outside = s, w_log = w_log w @ [entry r]\<rparr>))"

section \<open>Keys\<close>

definition getSigningKeys ::
  "('s, 'k, 'p) upload_services \<Rightarrow> string option \<Rightarrow> string option \<Rightarrow>
     ('s world, string option \<times> string option \<times> 'k option \<times> 'k option) act"
where
  "getSigningKeys svc nodeUid parentNodeUid =
     await (read_from (us_getNodeSigningKeys svc nodeUid parentNodeUid)) (\<lambda>keys.
       give (case keys of
               UserAddress email addressId key \<Rightarrow> (Some email, Some addressId, Some key, Some key)
             | NodeKeys nodeKey parentNodeKey \<Rightarrow> (None, None, parentNodeKey, nodeKey)))"

definition getSigningKeysForExistingNode ::
  "('s, 'k, 'p) upload_services \<Rightarrow> string \<Rightarrow> string option \<Rightarrow> ('s world, 'k signing_keys) act"
where
  "getSigningKeysForExistingNode svc nodeUid parentNodeUid =
     await (getSigningKeys svc (Some nodeUid) parentNodeUid) (\<lambda>(email, addressId, nameKey, contentKey).
       case (nameKey, contentKey) of
         (None, _) \<Rightarrow> throw_act (throw_new JsError ''Cannot get name and passphrase signing key for existing node'')
       | (Some n, None) \<Rightarrow> throw_act (throw_new JsError ''Cannot get content signing key for existing node'')
       | (Some n, Some k) \<Rightarrow> give \<lparr>sg_email = email, sg_addressId = addressId,
                                  sg_nameAndPassphraseSigningKey = n, sg_contentSigningKey = k\<rparr>)"

text \<open>The three calls of \<open>Promise.all\<close> do not depend on each other; the first error of the list is thrown.\<close>

definition generateFileCrypto ::
  "('s, 'k, 'p) upload_services \<Rightarrow> string \<Rightarrow> 'k \<Rightarrow> bytes \<Rightarrow> string \<Rightarrow> ('s world, ('k, 'p) node_crypto) act"
where
  "generateFileCrypto svc parentUid parentKey parentHashKey name =
     (let crypto = us_crypto svc in
      await (of_result (dc_enableAead crypto)) (\<lambda>useAeadFeatureFlag.
      await (getSigningKeys svc None (Some parentUid)) (\<lambda>(email, addressId, nameKey, contentKey).
      case nameKey of
        None \<Rightarrow> throw_act (throw_new JsError ''Cannot create new node without a name and passphrase signing key'')
      | Some nameAndPassphraseSigningKey \<Rightarrow>
          await (of_result (dc_generateKey crypto [parentKey] nameAndPassphraseSigningKey useAeadFeatureFlag)) (\<lambda>nodeKeys.
          await (of_result (dc_encryptNodeName crypto name parentKey nameAndPassphraseSigningKey)) (\<lambda>armoredNodeName.
          await (of_result (dc_generateLookupHash crypto name parentHashKey)) (\<lambda>hash.
          await (of_result (dc_generateContentKey crypto (gk_key nodeKeys))) (\<lambda>newContentKey.
          give \<lparr>gc_nodeKeys = nodeKeys, gc_contentKey = newContentKey,
                gc_encryptedName = armoredNodeName, gc_hash = hash,
                gc_signingKeys = \<lparr>sg_email = email, sg_addressId = addressId,
                  sg_nameAndPassphraseSigningKey = nameAndPassphraseSigningKey,
                  sg_contentSigningKey = (case contentKey of Some k \<Rightarrow> k | None \<Rightarrow> gk_key nodeKeys)\<rparr>\<rparr>)))))))"

definition commitFile_crypto ::
  "('k, 'p) drive_crypto \<Rightarrow> ('k, 'p) revision_draft \<Rightarrow> bytes \<Rightarrow> js_text \<Rightarrow> thrown + string \<times> string option \<times> string"
where
  "commitFile_crypto crypto draft manifest extendedAttributes =
     try_bind (dc_signManifest crypto manifest (sg_contentSigningKey (rd_signingKeys draft)))
       (\<lambda>armoredManifestSignature.
          try_bind (dc_encryptExtendedAttributes crypto extendedAttributes (rd_key draft)
                      (sg_contentSigningKey (rd_signingKeys draft)))
            (\<lambda>armoredExtendedAttributes.
               Inr (armoredManifestSignature, sg_email (rd_signingKeys draft), armoredExtendedAttributes)))"

definition generateNewFileCrypto ::
  "('s, 'k, 'p) upload_services \<Rightarrow> string \<Rightarrow> string \<Rightarrow> ('s world, ('k, 'p) node_crypto \<times> bytes) act"
where
  "generateNewFileCrypto svc parentFolderUid name =
     await (read_from (us_getNodeKeys svc parentFolderUid)) (\<lambda>parentKeys.
       case sv_hashKey parentKeys of
         None \<Rightarrow> throw_act (throw_new ValidationError ''Creating files in non-folders is not allowed'')
       | Some hashKey \<Rightarrow>
           await (generateFileCrypto svc parentFolderUid (sv_key parentKeys) hashKey name) (\<lambda>crypto.
             give (crypto, hashKey)))"

text \<open>\<open>!node.activeRevision?.ok\<close> fails on an absent revision and on one that could not be decrypted.\<close>

definition active_revision :: "service_node \<Rightarrow> string option" where
  "active_revision node = (case sn_activeRevision node of Some (Inr uid) \<Rightarrow> Some uid | _ \<Rightarrow> None)"

definition getExistingFileNodeCrypto ::
  "('s, 'k, 'p) upload_services \<Rightarrow> string \<Rightarrow> ('s world, 'k \<times> bytes \<times> 'p \<times> 'k signing_keys) act"
where
  "getExistingFileNodeCrypto svc nodeUid =
     await (read_from (us_getNode svc nodeUid)) (\<lambda>node.
     await (read_from (us_getNodeKeys svc nodeUid)) (\<lambda>nodeKeys.
       case (active_revision node, sv_contentKeyPacketSessionKey nodeKeys) of
         (Some _, Some sessionKey) \<Rightarrow>
           (case sv_contentKeyPacket nodeKeys of
              None \<Rightarrow> throw_act (throw_new ValidationError ''Content key packet is required for small revision upload'')
            | Some packet \<Rightarrow>
                await (getSigningKeysForExistingNode svc nodeUid (sn_parentUid node)) (\<lambda>signingKeys.
                  give (sv_key nodeKeys, packet, sessionKey, signingKeys)))
       | _ \<Rightarrow> throw_act (throw_new ValidationError ''Creating revisions in non-files is not allowed'')))"

section \<open>Conflicts\<close>

text \<open>The clear text size is not sent.\<close>

definition reduceSizePrecision :: "nat \<Rightarrow> nat" where
  "reduceSizePrecision size_bytes =
     (let precision = 100000 in
      if size_bytes = 0 then 0
      else if size_bytes < 4096 then 4095
      else if size_bytes < precision then precision
      else size_bytes div precision * precision)"

definition is_set :: "string option \<Rightarrow> bool" where
  "is_set s \<longleftrightarrow> present s \<noteq> None"

definition isOwnDraftConflict :: "string option \<Rightarrow> conflict_details option \<Rightarrow> bool" where
  "isOwnDraftConflict clientUid typedDetails \<longleftrightarrow>
     (case typedDetails of
        None \<Rightarrow> False
      | Some d \<Rightarrow> is_set (cd_ConflictDraftRevisionID d) \<and> is_set clientUid
                  \<and> cd_ConflictDraftClientUID d = clientUid)"

definition conflict_error :: "thrown \<Rightarrow> js_error option" where
  "conflict_error error =
     (case error of
        ThrownError e \<Rightarrow>
          if instanceof error ValidationError \<and> err_code e = Some (CodeNum (code_number ALREADY_EXISTS))
          then Some e else None
      | ThrownValue _ \<Rightarrow> None)"

definition conflicting_node :: "string \<Rightarrow> conflict_details \<Rightarrow> thrown + string" where
  "conflicting_node parentFolderUid d =
     try_bind (splitNodeUid parentFolderUid)
       (\<lambda>(volumeId, nodeId). Inr (makeNodeUid volumeId (cd_ConflictLinkID d)))"

definition name_exists_error :: "js_error \<Rightarrow> string option \<Rightarrow> bool \<Rightarrow> thrown" where
  "name_exists_error e existingNodeUid isUnfinishedUpload =
     ThrownError (Js_Error NodeWithSameNameExistsValidationError
       (class_name NodeWithSameNameExistsValidationError) (err_message e) (err_code e) None
       (Some (NodeExistsFields existingNodeUid isUnfinishedUpload)) None)"

text \<open>The end of \<open>handleConflictError\<close>: the conflict is reported to the caller.\<close>

definition report_conflict :: "string \<Rightarrow> js_error \<Rightarrow> conflict_details option \<Rightarrow> thrown" where
  "report_conflict parentFolderUid e typedDetails =
     (case typedDetails of
        None \<Rightarrow> name_exists_error e None False
      | Some d \<Rightarrow>
          (case conflicting_node parentFolderUid d of
             Inl error \<Rightarrow> error
           | Inr existingNodeUid \<Rightarrow>
               name_exists_error e (Some existingNodeUid) (is_set (cd_ConflictDraftRevisionID d))))"

type_synonym ('s, 'a) fuelled = "'s world \<Rightarrow> ((thrown + 'a) \<times> 's world) option"

definition handleConflictError ::
  "('s, 'k, 'p) upload_services \<Rightarrow> string \<Rightarrow> upload_metadata \<Rightarrow> thrown \<Rightarrow> ('s, 'a) fuelled \<Rightarrow> ('s, 'a) fuelled"
where
  "handleConflictError svc parentFolderUid metadata error onRetryAfterDraftDeleted w =
     (case conflict_error error of
        None \<Rightarrow> Some (Inl error, w)
      | Some e \<Rightarrow>
          (let typedDetails = map_option (us_details svc) (err_details e);
               reported = report_conflict parentFolderUid e typedDetails
           in case typedDetails of
                None \<Rightarrow> Some (Inl reported, w)
              | Some d \<Rightarrow>
                  if is_set (cd_ConflictDraftRevisionID d)
                     \<and> (isOwnDraftConflict (us_clientUid svc) typedDetails
                        \<or> um_overrideExistingDraftByOtherClient metadata)
                  then (case conflicting_node parentFolderUid d of
                          Inl t \<Rightarrow> Some (Inl t, w)
                        | Inr existingDraftNodeUid \<Rightarrow>
                            (case send (DeleteDraft existingDraftNodeUid) (us_deleteDraft svc existingDraftNodeUid) w of
                               (Inr _, w') \<Rightarrow> onRetryAfterDraftDeleted w'
                             | (Inl _, w') \<Rightarrow> Some (Inl reported, w')))
                  else Some (Inl reported, w)))"

definition draft_request_of :: "upload_metadata \<Rightarrow> ('k, 'p) node_crypto \<Rightarrow> draft_request" where
  "draft_request_of metadata crypto =
     \<lparr>dr_armoredEncryptedName = gc_encryptedName crypto,
      dr_hash = gc_hash crypto,
      dr_mediaType = um_mediaType metadata,
      dr_intendedUploadSize = reduceSizePrecision (um_expectedSize metadata),
      dr_armoredNodeKey = gk_armoredKey (gc_nodeKeys crypto),
      dr_armoredNodePassphrase = gk_armoredPassphrase (gc_nodeKeys crypto),
      dr_armoredNodePassphraseSignature = gk_armoredPassphraseSignature (gc_nodeKeys crypto),
      dr_base64ContentKeyPacket = ck_base64ContentKeyPacket (gc_contentKey crypto),
      dr_armoredContentKeyPacketSignature = ck_armoredContentKeyPacketSignature (gc_contentKey crypto),
      dr_signatureEmail = sg_email (gc_signingKeys crypto)\<rparr>"

fun createDraftOnAPI ::
  "('s, 'k, 'p) upload_services \<Rightarrow> nat \<Rightarrow> string \<Rightarrow> upload_metadata \<Rightarrow> ('k, 'p) node_crypto \<Rightarrow>
     ('s, string \<times> string) fuelled"
where
  "createDraftOnAPI svc 0 parentFolderUid metadata crypto w = None"
| "createDraftOnAPI svc (Suc fuel) parentFolderUid metadata crypto w =
     (case send (CreateDraft parentFolderUid)
             (us_createDraft svc parentFolderUid (draft_request_of metadata crypto)) w of
        (Inr result, w') \<Rightarrow> Some (Inr result, w')
      | (Inl error, w') \<Rightarrow>
          handleConflictError svc parentFolderUid metadata error
            (createDraftOnAPI svc fuel parentFolderUid metadata crypto) w')"

definition small_file_request_of ::
  "upload_metadata \<Rightarrow> ('k, 'p) node_crypto \<Rightarrow> commit_payload \<Rightarrow> small_file_request"
where
  "small_file_request_of metadata crypto payload =
     \<lparr>sf_armoredEncryptedName = gc_encryptedName crypto,
      sf_hash = gc_hash crypto,
      sf_mediaType = (case um_mediaType metadata of Some t \<Rightarrow> t | None \<Rightarrow> ''application/octet-stream''),
      sf_armoredNodeKey = gk_armoredKey (gc_nodeKeys crypto),
      sf_armoredNodePassphrase = gk_armoredPassphrase (gc_nodeKeys crypto),
      sf_armoredNodePassphraseSignature = gk_armoredPassphraseSignature (gc_nodeKeys crypto),
      sf_base64ContentKeyPacket = ck_base64ContentKeyPacket (gc_contentKey crypto),
      sf_armoredContentKeyPacketSignature = ck_armoredContentKeyPacketSignature (gc_contentKey crypto),
      sf_armoredExtendedAttributes = cp_armoredExtendedAttributes payload,
      sf_signatureEmail = sg_email (gc_signingKeys crypto)\<rparr>"

text \<open>The \<open>try\<close> of \<open>uploadFile\<close>: the parent is told inside it.\<close>

definition upload_file_once ::
  "('s, 'k, 'p) upload_services \<Rightarrow> string \<Rightarrow> ('k, 'p) node_crypto \<Rightarrow> upload_metadata \<Rightarrow> commit_payload \<Rightarrow>
     small_block option \<Rightarrow> (nat \<times> bytes) list \<Rightarrow> ('s world, string \<times> string) act"
where
  "upload_file_once svc parentFolderUid crypto metadata payload encryptedBlock encryptedThumbnails =
     await (send (UploadSmallFile parentFolderUid)
              (us_uploadSmallFile svc parentFolderUid (small_file_request_of metadata crypto payload)
                 \<lparr>sc_armoredManifestSignature = cp_armoredManifestSignature payload,
                  sc_checksumVerified = cp_checksumVerified payload,
                  sc_block = encryptedBlock, sc_thumbnails = encryptedThumbnails\<rparr>)) (\<lambda>result.
     await (send (ChildCreated parentFolderUid) (us_notifyChildCreated svc parentFolderUid)) (\<lambda>_.
     give result))"

fun uploadFile ::
  "('s, 'k, 'p) upload_services \<Rightarrow> nat \<Rightarrow> string \<Rightarrow> ('k, 'p) node_crypto \<Rightarrow> upload_metadata \<Rightarrow> commit_payload \<Rightarrow>
     small_block option \<Rightarrow> (nat \<times> bytes) list \<Rightarrow> ('s, string \<times> string) fuelled"
where
  "uploadFile svc 0 parentFolderUid crypto metadata payload encryptedBlock encryptedThumbnails w = None"
| "uploadFile svc (Suc fuel) parentFolderUid crypto metadata payload encryptedBlock encryptedThumbnails w =
     (case upload_file_once svc parentFolderUid crypto metadata payload encryptedBlock encryptedThumbnails w of
        (Inr result, w') \<Rightarrow> Some (Inr result, w')
      | (Inl error, w') \<Rightarrow>
          handleConflictError svc parentFolderUid metadata error
            (uploadFile svc fuel parentFolderUid crypto metadata payload encryptedBlock encryptedThumbnails) w')"

section \<open>Drafts and commits\<close>

definition createDraftNode ::
  "('s, 'k, 'p) upload_services \<Rightarrow> nat \<Rightarrow> string \<Rightarrow> string \<Rightarrow> upload_metadata \<Rightarrow> ('s, ('k, 'p) revision_draft) fuelled"
where
  "createDraftNode svc fuel parentFolderUid name metadata w =
     (case generateNewFileCrypto svc parentFolderUid name w of
        (Inl error, w') \<Rightarrow> Some (Inl error, w')
      | (Inr (crypto, parentHashKey), w') \<Rightarrow>
          map_option
            (\<lambda>(result, w''). (map_sum id (\<lambda>(nodeUid, nodeRevisionUid).
               \<lparr>rd_nodeUid = nodeUid, rd_nodeRevisionUid = nodeRevisionUid,
                rd_key = gk_key (gc_nodeKeys crypto),
                rd_contentKeyPacketSessionKey = ck_contentKeyPacketSessionKey (gc_contentKey crypto),
                rd_signingKeys = gc_signingKeys crypto,
                rd_parentHashKey = Some parentHashKey,
                rd_newNodeInfo = Some \<lparr>nn_parentUid = parentFolderUid, nn_name = name,
                  nn_encryptedName = gc_encryptedName crypto, nn_hash = gc_hash crypto\<rparr>\<rparr>) result, w''))
            (createDraftOnAPI svc fuel parentFolderUid metadata crypto w'))"

definition uploadSmallRevision ::
  "('s, 'k, 'p) upload_services \<Rightarrow> string \<Rightarrow> 'k signing_keys \<Rightarrow> string \<times> string \<Rightarrow>
     small_block option \<Rightarrow> (nat \<times> bytes) list \<Rightarrow> ('s world, string \<times> string) act"
where
  "uploadSmallRevision svc nodeUid signingKeys payload encryptedBlock encryptedThumbnails =
     (case payload of (armoredManifestSignature, armoredExtendedAttributes) \<Rightarrow>
      await (read_from (us_getNode svc nodeUid)) (\<lambda>node.
        case active_revision node of
          None \<Rightarrow> throw_act (throw_new ValidationError ''File has no revision'')
        | Some revisionUid \<Rightarrow>
            await (send (UploadSmallRevision nodeUid)
                     (us_uploadSmallRevision svc nodeUid revisionUid
                        (sg_email signingKeys, armoredExtendedAttributes)
                        \<lparr>sc_armoredManifestSignature = armoredManifestSignature, sc_checksumVerified = None,
                         sc_block = encryptedBlock, sc_thumbnails = encryptedThumbnails\<rparr>)) (\<lambda>result.
            await (send (NodeChanged nodeUid) (us_notifyNodeChanged svc nodeUid)) (\<lambda>_.
            give result))))"

definition deleteDraftNode :: "('s, 'k, 'p) upload_services \<Rightarrow> string \<Rightarrow> ('s world, unit) act" where
  "deleteDraftNode svc nodeUid =
     catch (send (DeleteDraft nodeUid) (us_deleteDraft svc nodeUid)) (\<lambda>error. give ())"

definition deleteDraftRevision :: "('s, 'k, 'p) upload_services \<Rightarrow> string \<Rightarrow> ('s world, unit) act" where
  "deleteDraftRevision svc nodeRevisionUid =
     catch (send (DeleteDraftRevision nodeRevisionUid) (us_deleteDraftRevision svc nodeRevisionUid)) (\<lambda>error. give ())"

definition createDraftRevision ::
  "('s, 'k, 'p) upload_services \<Rightarrow> string \<Rightarrow> upload_metadata \<Rightarrow> ('s world, ('k, 'p) revision_draft) act"
where
  "createDraftRevision svc nodeUid metadata =
     await (read_from (us_getNode svc nodeUid)) (\<lambda>node.
     await (read_from (us_getNodeKeys svc nodeUid)) (\<lambda>nodeKeys.
       case (active_revision node, sv_contentKeyPacketSessionKey nodeKeys) of
         (Some revisionUid, Some sessionKey) \<Rightarrow>
           await (getSigningKeysForExistingNode svc nodeUid (sn_parentUid node)) (\<lambda>signingKeys.
           await (send (CreateDraftRevision nodeUid)
                    (us_createDraftRevision svc nodeUid (revisionUid, reduceSizePrecision (um_expectedSize metadata))))
             (\<lambda>nodeRevisionUid.
           give \<lparr>rd_nodeUid = nodeUid, rd_nodeRevisionUid = nodeRevisionUid,
                 rd_key = sv_key nodeKeys, rd_contentKeyPacketSessionKey = sessionKey,
                 rd_signingKeys = signingKeys, rd_parentHashKey = None, rd_newNodeInfo = None\<rparr>))
       | _ \<Rightarrow> throw_act (throw_new ValidationError ''Creating revisions in non-files is not allowed'')))"

definition notifyNodeUploaded ::
  "('s, 'k, 'p) upload_services \<Rightarrow> ('k, 'p) revision_draft \<Rightarrow> ('s world, unit) act"
where
  "notifyNodeUploaded svc draft =
     (case rd_newNodeInfo draft of
        Some info \<Rightarrow> send (ChildCreated (nn_parentUid info)) (us_notifyChildCreated svc (nn_parentUid info))
      | None \<Rightarrow> send (NodeChanged (rd_nodeUid draft)) (us_notifyNodeChanged svc (rd_nodeUid draft)))"

definition commitDraft ::
  "('s, 'k, 'p) upload_services \<Rightarrow> ('k, 'p) revision_draft \<Rightarrow> bytes \<Rightarrow> common_attributes \<Rightarrow>
     (string \<times> jsval) list option \<Rightarrow> bool option \<Rightarrow> ('s world, unit) act"
where
  "commitDraft svc draft manifest extendedAttributes additionalExtendedAttributes checksumVerified =
     (let revisionUid = rd_nodeRevisionUid draft in
      await (of_result (generateFileExtendedAttributes extendedAttributes additionalExtendedAttributes))
        (\<lambda>generatedExtendedAttributes.
      await (of_result (commitFile_crypto (us_crypto svc) draft manifest generatedExtendedAttributes))
        (\<lambda>(armoredManifestSignature, signatureEmail, armoredExtendedAttributes).
      let commit = \<lparr>cc_armoredManifestSignature = armoredManifestSignature, cc_signatureEmail = signatureEmail,
                    cc_armoredExtendedAttributes = armoredExtendedAttributes,
                    cc_checksumVerified = checksumVerified\<rparr>
      in await
           (catch (send (CommitDraftRevision revisionUid commit) (us_commitDraftRevision svc revisionUid commit))
              (\<lambda>error.
                 catch (await (send (IsRevisionUploaded revisionUid) (us_isRevisionUploaded svc revisionUid))
                          (\<lambda>isRevisionUploaded. if isRevisionUploaded then give () else throw_act error))
                   (\<lambda>_. throw_act error)))
           (\<lambda>_. notifyNodeUploaded svc draft))))"

section \<open>What a conflict may delete\<close>

text \<open>
  The error reports a node of the same name that is an unfinished draft, of this client or one the
  caller asked to override, and \<open>uid\<close> is that node.
\<close>

definition deletable :: "('s, 'k, 'p) upload_services \<Rightarrow> string \<Rightarrow> upload_metadata \<Rightarrow> thrown \<Rightarrow> string \<Rightarrow> bool" where
  "deletable svc parentFolderUid metadata error uid \<longleftrightarrow>
     (\<exists>e d. conflict_error error = Some e \<and> map_option (us_details svc) (err_details e) = Some d
        \<and> is_set (cd_ConflictDraftRevisionID d)
        \<and> (is_set (us_clientUid svc) \<and> cd_ConflictDraftClientUID d = us_clientUid svc
            \<or> um_overrideExistingDraftByOtherClient metadata)
        \<and> conflicting_node parentFolderUid d = Inr uid)"

text \<open>
  The requests of one call: attempts, each with the requests \<open>tries\<close> allows, and between two of
  them the deletion of the draft the first one met.
\<close>

inductive conflict_run ::
  "('s, 'k, 'p) upload_services \<Rightarrow> string \<Rightarrow> upload_metadata \<Rightarrow> (request list \<Rightarrow> thrown + 'a \<Rightarrow> bool) \<Rightarrow>
     request list \<Rightarrow> thrown + 'a \<Rightarrow> bool"
  for svc parentFolderUid metadata tries
where
  run_ok: "tries l (Inr v) \<Longrightarrow> conflict_run svc parentFolderUid metadata tries l (Inr v)"
| run_fail: "tries l (Inl e) \<Longrightarrow> conflict_run svc parentFolderUid metadata tries l (Inl t)"
| run_kept: "tries l (Inl e) \<Longrightarrow> deletable svc parentFolderUid metadata e uid \<Longrightarrow>
    conflict_run svc parentFolderUid metadata tries (l @ [DeleteDraft uid (Inl u)]) (Inl t)"
| run_again: "tries l (Inl e) \<Longrightarrow> deletable svc parentFolderUid metadata e uid \<Longrightarrow>
    conflict_run svc parentFolderUid metadata tries m r \<Longrightarrow>
    conflict_run svc parentFolderUid metadata tries (l @ DeleteDraft uid (Inr ()) # m) r"

lemma send_log: "send entry m w = (r, w') \<Longrightarrow> w_log w' = w_log w @ [entry r]"
  by (auto simp: send_def split: prod.splits)

lemma read_from_log: "read_from m w = (r, w') \<Longrightarrow> w_log w' = w_log w"
  by (auto simp: read_from_def split: prod.splits)

lemma isOwnDraftConflict_Some:
  "is_set (cd_ConflictDraftRevisionID d) \<Longrightarrow>
     isOwnDraftConflict clientUid (Some d) \<longleftrightarrow> is_set clientUid \<and> cd_ConflictDraftClientUID d = clientUid"
  by (simp add: isOwnDraftConflict_def)

lemma handleConflictError_cases:
  assumes "handleConflictError svc parent metadata error retry w = Some (r, w')"
  shows "(w' = w \<and> (\<exists>t. r = Inl t))
    \<or> (\<exists>uid w1. deletable svc parent metadata error uid
         \<and> send (DeleteDraft uid) (us_deleteDraft svc uid) w = (Inr (), w1) \<and> retry w1 = Some (r, w'))
    \<or> (\<exists>uid u t. deletable svc parent metadata error uid
         \<and> send (DeleteDraft uid) (us_deleteDraft svc uid) w = (Inl u, w') \<and> r = Inl t)"
proof (cases "\<exists>e d uid. conflict_error error = Some e \<and> map_option (us_details svc) (err_details e) = Some d
      \<and> is_set (cd_ConflictDraftRevisionID d)
      \<and> (isOwnDraftConflict (us_clientUid svc) (Some d) \<or> um_overrideExistingDraftByOtherClient metadata)
      \<and> conflicting_node parent d = Inr uid")
  case True
  then obtain e d uid where c: "conflict_error error = Some e"
    "map_option (us_details svc) (err_details e) = Some d" "is_set (cd_ConflictDraftRevisionID d)"
    "isOwnDraftConflict (us_clientUid svc) (Some d) \<or> um_overrideExistingDraftByOtherClient metadata"
    "conflicting_node parent d = Inr uid" by blast
  then have "deletable svc parent metadata error uid"
    unfolding deletable_def by (auto simp: isOwnDraftConflict_Some)
  moreover have "(\<exists>w1. send (DeleteDraft uid) (us_deleteDraft svc uid) w = (Inr (), w1) \<and> retry w1 = Some (r, w'))
      \<or> (\<exists>u t. send (DeleteDraft uid) (us_deleteDraft svc uid) w = (Inl u, w') \<and> r = Inl t)"
    using assms c unfolding handleConflictError_def Let_def by (auto split: prod.splits sum.splits)
  ultimately show ?thesis by blast
next
  case False
  with assms have "w' = w \<and> (\<exists>t. r = Inl t)"
    unfolding handleConflictError_def Let_def
    by (auto split: option.splits sum.splits if_splits prod.splits)
  then show ?thesis by blast
qed

text \<open>Both callers repeat an attempt in the same way.\<close>

fun conflict_loop ::
  "('s, 'k, 'p) upload_services \<Rightarrow> nat \<Rightarrow> string \<Rightarrow> upload_metadata \<Rightarrow> ('s world, 'a) act \<Rightarrow> ('s, 'a) fuelled"
where
  "conflict_loop svc 0 parentFolderUid metadata attempt w = None"
| "conflict_loop svc (Suc fuel) parentFolderUid metadata attempt w =
     (case attempt w of
        (Inr v, w') \<Rightarrow> Some (Inr v, w')
      | (Inl error, w') \<Rightarrow>
          handleConflictError svc parentFolderUid metadata error
            (conflict_loop svc fuel parentFolderUid metadata attempt) w')"

lemma createDraftOnAPI_loop:
  "createDraftOnAPI svc fuel parent metadata crypto =
     conflict_loop svc fuel parent metadata
       (send (CreateDraft parent) (us_createDraft svc parent (draft_request_of metadata crypto)))"
  by (induction fuel) (rule ext, simp split: prod.split sum.split)+

lemma uploadFile_loop:
  "uploadFile svc fuel parent crypto metadata payload block thumbnails =
     conflict_loop svc fuel parent metadata (upload_file_once svc parent crypto metadata payload block thumbnails)"
  by (induction fuel) (rule ext, simp split: prod.split sum.split)+

lemma conflict_loop_run:
  assumes tries: "\<And>w r w'. attempt w = (r, w') \<Longrightarrow> \<exists>l. w_log w' = w_log w @ l \<and> tries l r"
    and "conflict_loop svc fuel parent metadata attempt w = Some (r, w')"
  shows "\<exists>m. w_log w' = w_log w @ m \<and> conflict_run svc parent metadata tries m r"
  using assms(2)
proof (induction fuel arbitrary: w)
  case (Suc fuel)
  obtain a w1 where a: "attempt w = (a, w1)" by fastforce
  from tries [OF this] obtain l where l: "w_log w1 = w_log w @ l" "tries l a" by blast
  show ?case
  proof (cases a)
    case (Inr v)
    with a l Suc.prems show ?thesis by (auto intro: run_ok)
  next
    case (Inl e)
    with a Suc.prems have "handleConflictError svc parent metadata e
        (conflict_loop svc fuel parent metadata attempt) w1 = Some (r, w')" by simp
    from handleConflictError_cases [OF this] show ?thesis
    proof (elim disjE exE conjE)
      fix t assume "w' = w1" "r = Inl t"
      with l Inl show ?thesis by (auto intro: run_fail)
    next
      fix uid w2
      assume d: "deletable svc parent metadata e uid"
        "send (DeleteDraft uid) (us_deleteDraft svc uid) w1 = (Inr (), w2)"
        "conflict_loop svc fuel parent metadata attempt w2 = Some (r, w')"
      from Suc.IH [OF d(3)] obtain m where m: "w_log w' = w_log w2 @ m" "conflict_run svc parent metadata tries m r"
        by blast
      with send_log [OF d(2)] l(1) have "w_log w' = w_log w @ (l @ DeleteDraft uid (Inr ()) # m)" by simp
      moreover have "conflict_run svc parent metadata tries (l @ DeleteDraft uid (Inr ()) # m) r"
        using l(2) d(1) m(2) unfolding Inl by (rule run_again)
      ultimately show ?thesis by blast
    next
      fix uid u t
      assume d: "deletable svc parent metadata e uid"
        "send (DeleteDraft uid) (us_deleteDraft svc uid) w1 = (Inl u, w')" "r = Inl t"
      with send_log [OF d(2)] l(1) have "w_log w' = w_log w @ (l @ [DeleteDraft uid (Inl u)])" by simp
      moreover have "conflict_run svc parent metadata tries (l @ [DeleteDraft uid (Inl u)]) r"
        unfolding d(3) using l(2) d(1) unfolding Inl by (rule run_kept)
      ultimately show ?thesis by blast
    qed
  qed
qed simp

lemma conflict_loop_ends:
  assumes attempt: "\<And>w e w'. attempt w = (Inl e, w') \<Longrightarrow> (left (w_outside w') :: nat) \<le> left (w_outside w)"
    and deleted: "\<And>uid s s'. us_deleteDraft svc uid s = (Inr (), s') \<Longrightarrow> left s' < left s"
  shows "left (w_outside w) < fuel \<Longrightarrow> \<exists>r w'. conflict_loop svc fuel parent metadata attempt w = Some (r, w')"
proof (induction fuel arbitrary: w)
  case (Suc fuel)
  obtain a w1 where a: "attempt w = (a, w1)" by fastforce
  show ?case
  proof (cases a)
    case (Inl e)
    with a attempt have w1: "left (w_outside w1) \<le> left (w_outside w)" by blast
    have retry: "\<exists>r w'. conflict_loop svc fuel parent metadata attempt w2 = Some (r, w')"
      if "send (DeleteDraft uid) (us_deleteDraft svc uid) w1 = (Inr (), w2)" for uid w2
    proof -
      from that have "left (w_outside w2) < left (w_outside w1)"
        by (auto simp: send_def split: prod.splits dest: deleted)
      with w1 Suc.prems have "left (w_outside w2) < fuel" by linarith
      then show ?thesis by (rule Suc.IH)
    qed
    show ?thesis
      using a Inl by (auto simp: handleConflictError_def Let_def split: option.split sum.split prod.split dest: retry)
  qed (use a in auto)
qed simp

section \<open>Operations that send nothing\<close>

definition quiet :: "('s world, 'a) act \<Rightarrow> bool" where
  "quiet m \<longleftrightarrow> (\<forall>w r w'. m w = (r, w') \<longrightarrow> w_log w' = w_log w)"

named_theorems quiet_intros "operations that send nothing"

lemma quiet_await [quiet_intros]:
  assumes "quiet m" "\<And>v. quiet (k v)"
  shows "quiet (await m k)"
  unfolding quiet_def
proof (intro allI impI)
  fix w r w' assume "await m k w = (r, w')"
  with assms show "w_log w' = w_log w"
    by (elim await_cases [elim_format] disjE exE conjE) (simp_all add: quiet_def)
qed

lemma quiet_cases [quiet_intros]:
  "quiet a \<Longrightarrow> (\<And>v. quiet (b v)) \<Longrightarrow> quiet (case x of None \<Rightarrow> a | Some v \<Rightarrow> b v)"
  "(\<And>y z. quiet (c y z)) \<Longrightarrow> quiet (case p of (y, z) \<Rightarrow> c y z)"
  by (simp_all split: option.split prod.split)

lemma quiet_basic [quiet_intros]:
  "quiet (read_from f)" "quiet (give v)" "quiet (throw_act t)" "quiet (of_result x)"
  by (auto simp: quiet_def read_from_log give_def throw_act_def of_result_def)

lemma quiet_generateNewFileCrypto: "quiet (generateNewFileCrypto svc parent name)"
  unfolding generateNewFileCrypto_def generateFileCrypto_def getSigningKeys_def Let_def
  by (intro quiet_intros)

text \<open>Operations that leave no more drafts than there were.\<close>

definition lowers :: "('s \<Rightarrow> nat) \<Rightarrow> ('s world, 'a) act \<Rightarrow> bool" where
  "lowers left m \<longleftrightarrow> (\<forall>w r w'. m w = (r, w') \<longrightarrow> left (w_outside w') \<le> left (w_outside w))"

lemma lowers_await [quiet_intros]:
  assumes "lowers left m" "\<And>v. lowers left (k v)"
  shows "lowers left (await m k)"
  unfolding lowers_def
proof (intro allI impI)
  fix w r w' assume "await m k w = (r, w')"
  with assms show "left (w_outside w') \<le> left (w_outside w)"
    by (elim await_cases [elim_format] disjE exE conjE) (fastforce simp: lowers_def intro: order_trans)+
qed

lemma lowers_cases [quiet_intros]:
  "lowers left a \<Longrightarrow> (\<And>v. lowers left (b v)) \<Longrightarrow> lowers left (case x of None \<Rightarrow> a | Some v \<Rightarrow> b v)"
  "(\<And>y z. lowers left (c y z)) \<Longrightarrow> lowers left (case p of (y, z) \<Rightarrow> c y z)"
  by (simp_all split: option.split prod.split)

lemma lowers_basic [quiet_intros]:
  "(\<And>s. left (snd (f s)) \<le> left s) \<Longrightarrow> lowers left (read_from f)"
  "lowers left (give v)" "lowers left (throw_act t)" "lowers left (of_result x)"
  by (auto simp: lowers_def read_from_def give_def throw_act_def of_result_def split: prod.splits)
     (metis snd_conv)

lemma lowers_generateNewFileCrypto:
  "(\<And>uid s. left (snd (us_getNodeKeys svc uid s)) \<le> left s) \<Longrightarrow>
   (\<And>n p s. left (snd (us_getNodeSigningKeys svc n p s)) \<le> left s) \<Longrightarrow>
     lowers left (generateNewFileCrypto svc parent name)"
  unfolding generateNewFileCrypto_def generateFileCrypto_def getSigningKeys_def Let_def
  by (intro quiet_intros) simp_all

section \<open>Properties\<close>

definition creates :: "string \<Rightarrow> request list \<Rightarrow> thrown + string \<times> string \<Rightarrow> bool" where
  "creates parentFolderUid l r \<longleftrightarrow> l = [CreateDraft parentFolderUid r]"

lemma run_deletes_reported:
  "conflict_run svc parent metadata (creates parent) m r \<Longrightarrow> m = pre @ DeleteDraft uid ans # post \<Longrightarrow>
     \<exists>pre' e. pre = pre' @ [CreateDraft parent (Inl e)] \<and> deletable svc parent metadata e uid"
proof (induction arbitrary: pre rule: conflict_run.induct)
  case (run_again l e uid' m r)
  then have l: "l = [CreateDraft parent (Inl e)]" by (simp add: creates_def)
  consider "pre = l" "uid' = uid"
    | pre2 where "pre = l @ DeleteDraft uid' (Inr ()) # pre2" "m = pre2 @ DeleteDraft uid ans # post"
    using run_again.prems l by (auto simp: Cons_eq_append_conv)
  then show ?case
  proof cases
    case 1
    with l run_again.hyps(2) show ?thesis by auto
  next
    case 2
    from run_again.IH [OF 2(2)] 2(1) show ?thesis by auto
  qed
qed (auto simp: creates_def append_eq_Cons_conv Cons_eq_append_conv)

lemma run_ends_with_answer:
  "conflict_run svc parent metadata (creates parent) m r \<Longrightarrow>
     m \<noteq> [] \<and> (\<forall>v. r = Inr v \<longrightarrow> last m = CreateDraft parent (Inr v))
     \<and> (\<forall>v. CreateDraft parent (Inr v) \<in> set m \<longrightarrow> r = Inr v)
     \<and> (\<forall>x \<in> set m. (\<exists>ans. x = CreateDraft parent ans) \<or> (\<exists>uid ans. x = DeleteDraft uid ans))"
  by (induction rule: conflict_run.induct) (auto simp: creates_def)

lemma createDraftOnAPI_run:
  "createDraftOnAPI svc fuel parent metadata crypto w = Some (r, w') \<Longrightarrow>
     \<exists>m. w_log w' = w_log w @ m \<and> conflict_run svc parent metadata (creates parent) m r"
  unfolding createDraftOnAPI_loop
  by (erule conflict_loop_run [rotated]) (auto simp: creates_def dest: send_log)

lemma createDraftNode_log:
  assumes "createDraftNode svc fuel parent name metadata w = Some (r, w')"
  shows "\<exists>m. w_log w' = w_log w @ m
    \<and> (\<forall>pre uid ans post. m = pre @ DeleteDraft uid ans # post \<longrightarrow>
         (\<exists>pre' e. pre = pre' @ [CreateDraft parent (Inl e)] \<and> deletable svc parent metadata e uid))
    \<and> (\<forall>draft. r = Inr draft \<longrightarrow>
         last m = CreateDraft parent (Inr (rd_nodeUid draft, rd_nodeRevisionUid draft)))
    \<and> (\<forall>uids. CreateDraft parent (Inr uids) \<in> set m \<longrightarrow>
         (\<exists>draft. r = Inr draft \<and> uids = (rd_nodeUid draft, rd_nodeRevisionUid draft)))
    \<and> (\<forall>x \<in> set m. (\<exists>ans. x = CreateDraft parent ans) \<or> (\<exists>uid ans. x = DeleteDraft uid ans))"
proof -
  obtain g w1 where g: "generateNewFileCrypto svc parent name w = (g, w1)" by fastforce
  with quiet_generateNewFileCrypto have log: "w_log w1 = w_log w" by (metis quiet_def)
  show ?thesis
  proof (cases g)
    case (Inl t)
    with assms g log show ?thesis by (auto simp: createDraftNode_def intro!: exI [of _ "[]"])
  next
    case (Inr p)
    then obtain crypto hashKey where p: "g = Inr (crypto, hashKey)" by (cases p) auto
    define made where "made = (\<lambda>(nodeUid, nodeRevisionUid). \<lparr>rd_nodeUid = nodeUid,
        rd_nodeRevisionUid = nodeRevisionUid, rd_key = gk_key (gc_nodeKeys crypto),
        rd_contentKeyPacketSessionKey = ck_contentKeyPacketSessionKey (gc_contentKey crypto),
        rd_signingKeys = gc_signingKeys crypto, rd_parentHashKey = Some hashKey,
        rd_newNodeInfo = Some \<lparr>nn_parentUid = parent, nn_name = name,
          nn_encryptedName = gc_encryptedName crypto, nn_hash = gc_hash crypto\<rparr>\<rparr>)"
    have made: "(rd_nodeUid (made uids), rd_nodeRevisionUid (made uids)) = uids" for uids
      by (simp add: made_def split: prod.split)
    from assms g p obtain r1 where c: "createDraftOnAPI svc fuel parent metadata crypto w1 = Some (r1, w')"
      and r1: "r = map_sum id made r1"
      by (auto simp: createDraftNode_def made_def)
    have r: "r = Inr draft \<Longrightarrow> r1 = Inr (rd_nodeUid draft, rd_nodeRevisionUid draft)"
      "r1 = Inr uids \<Longrightarrow> \<exists>draft. r = Inr draft \<and> uids = (rd_nodeUid draft, rd_nodeRevisionUid draft)" for draft uids
      using made by (cases r1; fastforce simp: r1)+
    from createDraftOnAPI_run [OF c] obtain m where
      m: "w_log w' = w_log w @ m" "conflict_run svc parent metadata (creates parent) m r1"
      by (auto simp: log)
    have "\<forall>pre uid ans post. m = pre @ DeleteDraft uid ans # post \<longrightarrow>
         (\<exists>pre' e. pre = pre' @ [CreateDraft parent (Inl e)] \<and> deletable svc parent metadata e uid)"
      using run_deletes_reported [OF m(2)] by blast
    moreover have "\<forall>draft. r = Inr draft \<longrightarrow>
         last m = CreateDraft parent (Inr (rd_nodeUid draft, rd_nodeRevisionUid draft))"
      using run_ends_with_answer [OF m(2)] r(1) by simp
    moreover have "\<forall>uids. CreateDraft parent (Inr uids) \<in> set m \<longrightarrow>
         (\<exists>draft. r = Inr draft \<and> uids = (rd_nodeUid draft, rd_nodeRevisionUid draft))"
    proof (intro allI impI)
      fix uids assume "CreateDraft parent (Inr uids) \<in> set m"
      with run_ends_with_answer [OF m(2)] have "r1 = Inr uids" by blast
      then show "\<exists>draft. r = Inr draft \<and> uids = (rd_nodeUid draft, rd_nodeRevisionUid draft)" by (rule r(2))
    qed
    ultimately show ?thesis using m(1) run_ends_with_answer [OF m(2)] by (intro exI [of _ m] conjI) blast+
  qed
qed

text \<open>
  C6: creating a draft deletes nothing but what stands in its way and is known to be unfinished: each
  deletion follows directly on an attempt the server refused because a draft of the same name
  exists, which this client made, having a client UID, or which the caller asked to override, and
  names that draft. The call succeeds exactly when one of its attempts did, which then was its
  last request, with that attempt's UIDs; other requests it does not send.
\<close>

theorem only_conflicting_drafts_deleted:
  assumes "createDraftNode svc fuel parent name metadata w = Some (r, w')"
  shows "\<exists>m. w_log w' = w_log w @ m
    \<and> (\<forall>pre uid ans post. m = pre @ DeleteDraft uid ans # post \<longrightarrow>
         (\<exists>pre' e. pre = pre' @ [CreateDraft parent (Inl e)] \<and> deletable svc parent metadata e uid))
    \<and> (\<forall>draft. r = Inr draft \<longrightarrow>
         last m = CreateDraft parent (Inr (rd_nodeUid draft, rd_nodeRevisionUid draft)))
    \<and> (\<forall>uids. CreateDraft parent (Inr uids) \<in> set m \<longrightarrow>
         (\<exists>draft. r = Inr draft \<and> uids = (rd_nodeUid draft, rd_nodeRevisionUid draft)))
    \<and> (\<forall>x \<in> set m. (\<exists>ans. x = CreateDraft parent ans) \<or> (\<exists>uid ans. x = DeleteDraft uid ans))"
  using assms by (rule createDraftNode_log)

text \<open>A server with \<open>n\<close> drafts of this client in the way, and keys that are all the same.\<close>

definition demo_conflict :: thrown where
  "demo_conflict = ThrownError (Js_Error ValidationError ''ValidationError'' ''exists''
     (Some (CodeNum 2500)) None (Some (DetailsObject ''{}'')) None)"

definition demo_services :: "(nat, unit, unit) upload_services" where
  "demo_services =
     \<lparr>us_clientUid = Some ''me'',
      us_details = (\<lambda>_. \<lparr>cd_ConflictLinkID = ''d'', cd_ConflictDraftRevisionID = Some ''r'',
                         cd_ConflictDraftClientUID = Some ''me''\<rparr>),
      us_crypto = \<lparr>dc_enableAead = Inr False,
        dc_generateKey = (\<lambda>_ _ _. Inr \<lparr>gk_armoredKey = ''k'', gk_armoredPassphrase = ''p'',
          gk_armoredPassphraseSignature = ''s'', gk_passphrase = ''x'', gk_key = (), gk_passphraseSessionKey = ()\<rparr>),
        dc_encryptNodeName = (\<lambda>name _ _. Inr name),
        dc_generateLookupHash = (\<lambda>name _. Inr name),
        dc_generateContentKey = (\<lambda>_. Inr \<lparr>ck_contentKeyPacket = [1], ck_base64ContentKeyPacket = ''c'',
          ck_armoredContentKeyPacketSignature = ''s'', ck_contentKeyPacketSessionKey = ()\<rparr>),
        dc_signManifest = (\<lambda>_ _. Inr ''m''),
        dc_encryptExtendedAttributes = (\<lambda>_ _ _. Inr ''x'')\<rparr>,
      us_getNode = (\<lambda>uid n. (Inr \<lparr>sn_uid = uid, sn_parentUid = None, sn_activeRevision = None\<rparr>, n)),
      us_getNodeKeys = (\<lambda>uid n. (Inr \<lparr>sv_key = (), sv_passphraseSessionKey = (), sv_contentKeyPacket = None,
        sv_contentKeyPacketSessionKey = None, sv_hashKey = Some [7]\<rparr>, n)),
      us_getNodeSigningKeys = (\<lambda>_ _ n. (Inr (UserAddress ''e'' ''a'' ()), n)),
      us_notifyChildCreated = (\<lambda>_ n. (Inr (), n)),
      us_notifyNodeChanged = (\<lambda>_ n. (Inr (), n)),
      us_createDraft = (\<lambda>_ _ n. if n = 0 then (Inr (''v~n'', ''v~n~r''), 0) else (Inl demo_conflict, n)),
      us_uploadSmallFile = (\<lambda>_ _ _ n. (Inr (''v~n'', ''v~n~r''), n)),
      us_uploadSmallRevision = (\<lambda>_ _ _ _ n. (Inr (''v~n'', ''v~n~r''), n)),
      us_deleteDraft = (\<lambda>_ n. if n = 0 then (Inl (throw_new JsError ''none''), 0) else (Inr (), n - 1)),
      us_createDraftRevision = (\<lambda>_ _ n. (Inr ''v~n~r'', n)),
      us_deleteDraftRevision = (\<lambda>_ n. (Inr (), n)),
      us_commitDraftRevision = (\<lambda>_ _ n. (Inl (throw_new JsError ''lost''), n)),
      us_isRevisionUploaded = (\<lambda>_ n. (Inr (n = 0), n))\<rparr>"

definition demo_metadata :: upload_metadata where
  "demo_metadata = \<lparr>um_mediaType = None, um_expectedSize = 5, um_overrideExistingDraftByOtherClient = False\<rparr>"

lemmas demo_defs = demo_services_def demo_metadata_def demo_conflict_def

lemma demo_conflict_error: "conflict_error demo_conflict =
    Some (Js_Error ValidationError ''ValidationError'' ''exists'' (Some (CodeNum 2500)) None (Some (DetailsObject ''{}'')) None)"
  by (simp add: demo_conflict_def conflict_error_def)

lemma demo_splitNodeUid: "splitNodeUid ''v~p'' = Inr (''v'', ''p'')"
  by (simp add: splitNodeUid_Inr_iff makeNodeUid_def makeUid_def tilde_def)

lemma demo_run:
  "\<exists>draft w'. createDraftNode demo_services 2 ''v~p'' ''a'' demo_metadata \<lparr>w_outside = 1, w_log = []\<rparr> = Some (Inr draft, w')
     \<and> w_log w' = [CreateDraft ''v~p'' (Inl demo_conflict), DeleteDraft ''v~d'' (Inr ()), CreateDraft ''v~p'' (Inr (''v~n'', ''v~n~r''))]"
  by (simp add: createDraftNode_def generateNewFileCrypto_def generateFileCrypto_def getSigningKeys_def
      read_from_def send_def run_act handleConflictError_def demo_conflict_error isOwnDraftConflict_def is_set_def
      present_def conflicting_node_def demo_splitNodeUid makeNodeUid_def makeUid_def tilde_def Let_def numeral_2_eq_2
      demo_services_def demo_metadata_def)

theorem only_conflicting_drafts_deleted_witness:
  "\<exists>draft w'. createDraftNode demo_services 2 ''v~p'' ''a'' demo_metadata \<lparr>w_outside = 1, w_log = []\<rparr> = Some (Inr draft, w')
     \<and> DeleteDraft ''v~d'' (Inr ()) \<in> set (w_log w')
     \<and> deletable demo_services ''v~p'' demo_metadata demo_conflict ''v~d''"
proof -
  from demo_run obtain draft w' where r: "createDraftNode demo_services 2 ''v~p'' ''a'' demo_metadata
      \<lparr>w_outside = 1, w_log = []\<rparr> = Some (Inr draft, w')"
    and log: "w_log w' = [CreateDraft ''v~p'' (Inl demo_conflict)] @ DeleteDraft ''v~d'' (Inr ())
        # [CreateDraft ''v~p'' (Inr (''v~n'', ''v~n~r''))]" by auto
  from only_conflicting_drafts_deleted [OF r] obtain m where m: "w_log w' = m"
    "\<forall>pre uid ans post. m = pre @ DeleteDraft uid ans # post \<longrightarrow>
       (\<exists>pre' e. pre = pre' @ [CreateDraft ''v~p'' (Inl e)] \<and> deletable demo_services ''v~p'' demo_metadata e uid)"
    by auto
  from m(2) [rule_format, OF trans [OF m(1) [symmetric] log]]
  have "deletable demo_services ''v~p'' demo_metadata demo_conflict ''v~d''" by auto
  with r log show ?thesis by auto
qed

text \<open>
  If each deletion the server accepts leaves fewer drafts behind, and no other request of the call adds
  one, then creating a draft ends: as many attempts as there are drafts, and one, are enough.
\<close>

theorem draft_creation_ends:
  assumes "\<And>uid s s'. us_deleteDraft svc uid s = (Inr (), s') \<Longrightarrow> left s' < left s"
    and "\<And>uid request s. left (snd (us_createDraft svc uid request s)) \<le> left s"
    and "\<And>uid s. left (snd (us_getNodeKeys svc uid s)) \<le> left s"
    and "\<And>n p s. left (snd (us_getNodeSigningKeys svc n p s)) \<le> left s"
    and "left (w_outside w) < fuel"
  shows "\<exists>r w'. createDraftNode svc fuel parent name metadata w = Some (r, w')"
proof (cases "generateNewFileCrypto svc parent name w")
  case (Pair g w1)
  have "lowers left (generateNewFileCrypto svc parent name)"
    using assms(3,4) by (rule lowers_generateNewFileCrypto)
  with Pair assms(5) have w1: "left (w_outside w1) < fuel" by (fastforce simp: lowers_def)
  have "\<exists>r w'. createDraftOnAPI svc fuel parent metadata crypto w1 = Some (r, w')" for crypto
    unfolding createDraftOnAPI_loop using w1
  proof (rule conflict_loop_ends [rotated 2])
    fix w2 e w3
    assume "send (CreateDraft parent) (us_createDraft svc parent (draft_request_of metadata crypto)) w2 = (Inl e, w3)"
    then show "left (w_outside w3) \<le> left (w_outside w2)"
      using assms(2) by (auto simp: send_def split: prod.splits) (metis snd_conv)
  qed (rule assms(1))
  with Pair show ?thesis by (cases g) (fastforce simp: createDraftNode_def)+
qed

theorem draft_creation_ends_witness:
  "\<exists>r w'. createDraftNode demo_services 4 ''v~p'' ''a'' demo_metadata \<lparr>w_outside = 3, w_log = []\<rparr> = Some (r, w')"
  by (rule draft_creation_ends [where left = "\<lambda>n. n"])
    (auto simp: demo_services_def split: if_splits)

definition announcement :: "('k, 'p) revision_draft \<Rightarrow> thrown + unit \<Rightarrow> request" where
  "announcement draft =
     (case rd_newNodeInfo draft of
        Some info \<Rightarrow> ChildCreated (nn_parentUid info)
      | None \<Rightarrow> NodeChanged (rd_nodeUid draft))"

lemma notifyNodeUploaded_log:
  "notifyNodeUploaded svc draft w = (r, w') \<Longrightarrow> w_log w' = w_log w @ [announcement draft r]"
  by (auto simp: notifyNodeUploaded_def announcement_def split: option.splits dest: send_log)

text \<open>The request to commit, with the question that follows its failure.\<close>

lemma commit_request_log:
  assumes "catch (send (CommitDraftRevision revision commit) c)
      (\<lambda>error. catch (await (send (IsRevisionUploaded revision) q)
                 (\<lambda>uploaded. if uploaded then give () else throw_act error)) (\<lambda>_. throw_act error)) w = (r, w')"
  shows "(r = Inr () \<and> w_log w' = w_log w @ [CommitDraftRevision revision commit (Inr ())])
    \<or> (\<exists>e a. w_log w' = w_log w @ [CommitDraftRevision revision commit (Inl e), IsRevisionUploaded revision a]
         \<and> r = (if a = Inr True then Inr () else Inl e))"
proof -
  obtain x w1 where x: "send (CommitDraftRevision revision commit) c w = (x, w1)" by fastforce
  obtain a w2 where a: "send (IsRevisionUploaded revision) q w1 = (a, w2)" by fastforce
  show ?thesis
  proof (cases x)
    case (Inr v)
    with assms x have "r = Inr ()" "w' = w1" by (auto simp: catch_def)
    with send_log [OF x] Inr show ?thesis by simp
  next
    case (Inl e)
    have "r = (if a = Inr True then Inr () else Inl e)" "w' = w2"
      using assms x a Inl by (auto simp: run_act split: sum.splits if_splits)
    with send_log [OF x] send_log [OF a] Inl show ?thesis by auto
  qed
qed

text \<open>
  C12: committing a draft succeeds only if the revision is on the server: the commit was accepted, or it
  failed and the server then answered that the revision is uploaded. If it failed and was not
  confirmed the caller gets the error of the commit itself, whatever the second request gave, and
  nobody is told of a new node. A revision that is on the server is announced, to the parent for a
  new file and to the node for a new revision; a failure of that announcement is the result.
\<close>

theorem commit_result_is_confirmed:
  assumes "commitDraft svc draft manifest attributes additional checksum w = (r, w')"
  shows "\<exists>m commit e a. w_log w' = w_log w @ m
    \<and> (let revision = rd_nodeRevisionUid draft
       in (m = [] \<and> (\<exists>t. r = Inl t))
          \<or> m = [CommitDraftRevision revision commit (Inr ()), announcement draft r]
          \<or> m = [CommitDraftRevision revision commit (Inl e), IsRevisionUploaded revision (Inr True),
                 announcement draft r]
          \<or> (m = [CommitDraftRevision revision commit (Inl e), IsRevisionUploaded revision a]
                \<and> a \<noteq> Inr True \<and> r = Inl e))"
proof -
  have prepared: ?thesis if "w' = w" "\<exists>t. r = Inl t" using that by (auto simp: Let_def)
  show ?thesis
  proof (cases "generateFileExtendedAttributes attributes additional")
    case (Inl t)
    with assms show ?thesis by (intro prepared) (auto simp: commitDraft_def Let_def run_act)
  next
    case xattr: (Inr doc)
    show ?thesis
    proof (cases "commitFile_crypto (us_crypto svc) draft manifest doc")
      case (Inl t)
      with assms xattr show ?thesis by (intro prepared) (auto simp: commitDraft_def Let_def run_act)
    next
      case (Inr p)
      then obtain sig email arm where p: "commitFile_crypto (us_crypto svc) draft manifest doc = Inr (sig, email, arm)"
        by (cases p) auto
      define commit where "commit = \<lparr>cc_armoredManifestSignature = sig, cc_signatureEmail = email,
        cc_armoredExtendedAttributes = arm, cc_checksumVerified = checksum\<rparr>"
      let ?rev = "rd_nodeRevisionUid draft"
      let ?request = "catch (send (CommitDraftRevision ?rev commit) (us_commitDraftRevision svc ?rev commit))
          (\<lambda>error. catch (await (send (IsRevisionUploaded ?rev) (us_isRevisionUploaded svc ?rev))
             (\<lambda>uploaded. if uploaded then give () else throw_act error)) (\<lambda>_. throw_act error))"
      have run: "await ?request (\<lambda>_. notifyNodeUploaded svc draft) w = (r, w')"
        using assms xattr p unfolding commitDraft_def Let_def commit_def
        by (simp add: await_def [of "of_result _"] of_result_def)
      from await_cases [OF run] show ?thesis
      proof (elim disjE exE conjE)
        fix t assume "?request w = (Inl t, w')" "r = Inl t"
        with commit_request_log [OF this(1)] show ?thesis unfolding Let_def by (auto split: if_splits)
      next
        fix v w1 assume q: "?request w = (Inr v, w1)" "notifyNodeUploaded svc draft w1 = (r, w')"
        from commit_request_log [OF q(1)] notifyNodeUploaded_log [OF q(2)]
        show ?thesis unfolding Let_def by (auto split: if_splits)
      qed
    qed
  qed
qed

theorem commit_result_is_confirmed_witness:
  "\<exists>r w'. commitDraft demo_services
       \<lparr>rd_nodeUid = ''v~n'', rd_nodeRevisionUid = ''v~n~r'', rd_key = (), rd_contentKeyPacketSessionKey = (),
        rd_signingKeys = \<lparr>sg_email = None, sg_addressId = None, sg_nameAndPassphraseSigningKey = (),
          sg_contentSigningKey = ()\<rparr>, rd_parentHashKey = None, rd_newNodeInfo = None\<rparr>
       [] \<lparr>ca_modificationTime = None, ca_size = 0, ca_blockSizes = [], ca_sha1 = ''a''\<rparr> None None
       \<lparr>w_outside = 0, w_log = []\<rparr> = (r, w')
     \<and> r = Inr () \<and> NodeChanged ''v~n'' r \<in> set (w_log w')"
proof -
  let ?draft = "\<lparr>rd_nodeUid = ''v~n'', rd_nodeRevisionUid = ''v~n~r'', rd_key = (), rd_contentKeyPacketSessionKey = (),
        rd_signingKeys = \<lparr>sg_email = None, sg_addressId = None, sg_nameAndPassphraseSigningKey = (),
          sg_contentSigningKey = ()\<rparr>, rd_parentHashKey = None, rd_newNodeInfo = None\<rparr>"
  let ?xattr = "\<lparr>ca_modificationTime = None, ca_size = 0, ca_blockSizes = [], ca_sha1 = ''a''\<rparr>"
  obtain r w' where c: "commitDraft demo_services ?draft [] ?xattr None None \<lparr>w_outside = 0, w_log = []\<rparr> = (r, w')"
    by fastforce
  then have "r = Inr ()"
    by (auto simp: commitDraft_def commitFile_crypto_def generateFileExtendedAttributes_def notifyNodeUploaded_def
        run_act send_def demo_services_def Let_def)
  with commit_result_is_confirmed [OF c] have "NodeChanged ''v~n'' r \<in> set (w_log w')"
    by (auto simp: Let_def announcement_def)
  with c \<open>r = Inr ()\<close> show ?thesis by auto
qed

end
