(* ===== verification/Queues.thy ===== *)
theory Queues
  imports StreamUpload
begin

text \<open>
  Waiting: \<^verbatim>\<open>internal/wait.ts\<close>, the two queues that limit how many files are transferred at once
  (\<^verbatim>\<open>internal/download/queue.ts\<close>, \<^verbatim>\<open>internal/upload/queue.ts\<close>) and the controllers that pause a
  transfer (\<^verbatim>\<open>internal/download/controller.ts\<close>, \<^verbatim>\<open>internal/upload/controller.ts\<close>).

  A condition is checked when the wait begins and then by a timer. What follows a check that
  succeeded, the count of the new transfer, runs only when the turn of the event loop that made the
  check is over. Turns are the steps of the model: a client's turn that asks for any number of
  slots, one timer, one transfer that ends.
\<close>

section \<open>wait.ts\<close>

datatype wait_outcome = WaitRejected thrown | WaitResolved | WaitAgain

definition wait_check :: "bool \<Rightarrow> bool \<Rightarrow> wait_outcome" where
  "wait_check aborted condition =
     (if aborted then WaitRejected (throw_new AbortError '''')
      else if condition then WaitResolved
      else WaitAgain)"

text \<open>\<open>waitForCondition\<close> over the checks it makes, of which there may be no more; \<open>None\<close> is still waiting.\<close>

fun waitForCondition :: "(bool \<times> bool) list \<Rightarrow> (thrown + unit) option" where
  "waitForCondition [] = None"
| "waitForCondition ((aborted, condition) # checks) =
     (case wait_check aborted condition of
        WaitRejected error \<Rightarrow> Some (Inl error)
      | WaitResolved \<Rightarrow> Some (Inr ())
      | WaitAgain \<Rightarrow> waitForCondition checks)"

section \<open>Controllers\<close>

record transfer_controller =
  tc_paused :: bool
  tc_started :: bool
  tc_signatureIssues :: bool

definition tc_new :: transfer_controller where
  "tc_new = \<lparr>tc_paused = False, tc_started = False, tc_signatureIssues = False\<rparr>"

definition tc_pause :: "transfer_controller \<Rightarrow> transfer_controller" where
  "tc_pause c = c\<lparr>tc_paused := True\<rparr>"

definition tc_resume :: "transfer_controller \<Rightarrow> transfer_controller" where
  "tc_resume c = c\<lparr>tc_paused := False\<rparr>"

definition setIsDownloadCompleteWithSignatureIssues :: "bool \<Rightarrow> transfer_controller \<Rightarrow> transfer_controller" where
  "setIsDownloadCompleteWithSignatureIssues v c = c\<lparr>tc_signatureIssues := v\<rparr>"

text \<open>
  \<open>waitWhilePaused\<close> sees the controller as it is at each check; an abort ends the wait without an error.
\<close>

definition waitWhilePaused :: "(bool \<times> transfer_controller) list \<Rightarrow> (thrown + unit) option" where
  "waitWhilePaused checks =
     map_option (\<lambda>r. case r of
         Inl error \<Rightarrow> if instanceof error AbortError then Inr () else Inl error
       | Inr v \<Rightarrow> Inr v)
       (waitForCondition (map (\<lambda>(aborted, c). (aborted, \<not> tc_paused c)) checks))"

text \<open>\<open>completion\<close>: that of an upload throws before the start, that of a download returns.\<close>

definition upload_completion :: "transfer_controller \<Rightarrow> thrown + 'a \<Rightarrow> thrown + 'a" where
  "upload_completion c promise =
     (if tc_started c then promise
      else Inl (throw_new JsError ''UploadController.completion() called before upload started''))"

definition download_completion :: "transfer_controller \<Rightarrow> thrown + unit \<Rightarrow> thrown + unit" where
  "download_completion c promise = (if tc_started c then promise else Inr ())"

lemma waitForCondition_Inl: "waitForCondition checks = Some (Inl e) \<Longrightarrow> e = throw_new AbortError ''''"
  by (induction checks rule: waitForCondition.induct) (auto simp: wait_check_def split: if_splits)

lemma waitWhilePaused_never_throws: "waitWhilePaused checks \<noteq> Some (Inl e)"
proof
  let ?r = "waitForCondition (map (\<lambda>(aborted, c). (aborted, \<not> tc_paused c)) checks)"
  assume w: "waitWhilePaused checks = Some (Inl e)"
  show False
  proof (cases ?r)
    case (Some r)
    with w waitForCondition_Inl [of "map (\<lambda>(aborted, c). (aborted, \<not> tc_paused c)) checks"] show False
      by (cases r) (auto simp: waitWhilePaused_def)
  qed (use w in \<open>simp add: waitWhilePaused_def\<close>)
qed

section \<open>Queues\<close>

definition MAX_CONCURRENT_DOWNLOADS :: int where "MAX_CONCURRENT_DOWNLOADS = 5"
definition MAX_CONCURRENT_FILE_UPLOADS :: int where "MAX_CONCURRENT_FILE_UPLOADS = 5"
definition MAX_CONCURRENT_UPLOAD_SIZE :: int where "MAX_CONCURRENT_UPLOAD_SIZE = 10 * int FILE_CHUNK_SIZE"

record download_queue =
  dq_capacity :: int

definition dq_new :: download_queue where "dq_new = \<lparr>dq_capacity = 0\<rparr>"

definition dq_free :: "download_queue \<Rightarrow> bool" where
  "dq_free q \<longleftrightarrow> dq_capacity q < MAX_CONCURRENT_DOWNLOADS"

definition dq_enter :: "nat \<Rightarrow> download_queue \<Rightarrow> download_queue" where
  "dq_enter expectedSize q = q\<lparr>dq_capacity := dq_capacity q + 1\<rparr>"

definition dq_releaseCapacity :: "nat \<Rightarrow> download_queue \<Rightarrow> download_queue" where
  "dq_releaseCapacity expectedSize q = q\<lparr>dq_capacity := dq_capacity q - 1\<rparr>"

record upload_queue =
  uq_totalFileUploads :: int
  uq_totalExpectedSize :: int

definition uq_new :: upload_queue where "uq_new = \<lparr>uq_totalFileUploads = 0, uq_totalExpectedSize = 0\<rparr>"

definition uq_free :: "upload_queue \<Rightarrow> bool" where
  "uq_free q \<longleftrightarrow> uq_totalFileUploads q < MAX_CONCURRENT_FILE_UPLOADS
     \<and> uq_totalExpectedSize q < MAX_CONCURRENT_UPLOAD_SIZE"

definition uq_enter :: "nat \<Rightarrow> upload_queue \<Rightarrow> upload_queue" where
  "uq_enter expectedSize q =
     \<lparr>uq_totalFileUploads = uq_totalFileUploads q + 1,
      uq_totalExpectedSize = uq_totalExpectedSize q + int expectedSize\<rparr>"

definition uq_releaseCapacity :: "nat \<Rightarrow> upload_queue \<Rightarrow> upload_queue" where
  "uq_releaseCapacity expectedSize q =
     \<lparr>uq_totalFileUploads = uq_totalFileUploads q - 1,
      uq_totalExpectedSize = uq_totalExpectedSize q - int expectedSize\<rparr>"

text \<open>
  A queue with the transfers that hold a slot and those that wait for one, by expected size.
\<close>

record 'q slots =
  sl_queue :: 'q
  sl_active :: "nat list"
  sl_waiting :: "nat list"

datatype turn =
    Ask "(bool \<times> nat) list"
  | Timer bool nat
  | Finish nat

text \<open>
  \<open>Ask\<close>: the calls of one turn, each with its signal, all check the same count. \<open>Timer\<close>: the check of
  one waiting call. \<open>Finish\<close>: a transfer that holds a slot gives it back.
\<close>

fun take_turn ::
  "('q \<Rightarrow> bool) \<Rightarrow> (nat \<Rightarrow> 'q \<Rightarrow> 'q) \<Rightarrow> (nat \<Rightarrow> 'q \<Rightarrow> 'q) \<Rightarrow> turn \<Rightarrow> 'q slots \<Rightarrow> 'q slots"
where
  "take_turn free enter leave (Ask calls) s =
     (let outcome = (\<lambda>(aborted, n). wait_check aborted (free (sl_queue s)));
          admitted = map snd (filter (\<lambda>c. outcome c = WaitResolved) calls);
          waiting = map snd (filter (\<lambda>c. outcome c = WaitAgain) calls)
      in \<lparr>sl_queue = fold enter admitted (sl_queue s), sl_active = sl_active s @ admitted,
          sl_waiting = sl_waiting s @ waiting\<rparr>)"
| "take_turn free enter leave (Timer aborted n) s =
     (if n \<in> set (sl_waiting s)
      then case wait_check aborted (free (sl_queue s)) of
             WaitRejected _ \<Rightarrow> s\<lparr>sl_waiting := remove1 n (sl_waiting s)\<rparr>
           | WaitResolved \<Rightarrow> \<lparr>sl_queue = enter n (sl_queue s), sl_active = sl_active s @ [n],
                              sl_waiting = remove1 n (sl_waiting s)\<rparr>
           | WaitAgain \<Rightarrow> s
      else s)"
| "take_turn free enter leave (Finish n) s =
     (if n \<in> set (sl_active s)
      then s\<lparr>sl_queue := leave n (sl_queue s), sl_active := remove1 n (sl_active s)\<rparr>
      else s)"

fun turn_calls :: "turn \<Rightarrow> nat" where
  "turn_calls (Ask calls) = length calls"
| "turn_calls _ = 1"

section \<open>What a queue promises\<close>

text \<open>
  A queue that counts what holds a slot: \<open>counts q xs\<close> is the count of the transfers \<open>xs\<close>, in any
  order, and a queue that is free counts fewer than the limit.
\<close>

locale counting_queue =
  fixes free :: "'q \<Rightarrow> bool"
    and enter leave :: "nat \<Rightarrow> 'q \<Rightarrow> 'q"
    and counts :: "'q \<Rightarrow> nat list \<Rightarrow> bool"
    and limit :: nat
  assumes counts_enter: "counts q xs \<Longrightarrow> counts (enter n q) (xs @ [n])"
    and counts_leave: "counts q xs \<Longrightarrow> n \<in> set xs \<Longrightarrow> counts (leave n q) (remove1 n xs)"
    and free_below: "counts q xs \<Longrightarrow> free q \<Longrightarrow> length xs < limit"
begin

lemma counts_fold: "counts q xs \<Longrightarrow> counts (fold enter ys q) (xs @ ys)"
  using counts_enter by (induction ys arbitrary: q xs) (simp, fastforce)

lemma turn_counts:
  "counts (sl_queue s) (sl_active s) \<Longrightarrow>
     counts (sl_queue (take_turn free enter leave t s)) (sl_active (take_turn free enter leave t s))"
  by (cases t) (auto simp: Let_def counts_fold counts_enter counts_leave split: wait_outcome.split)

lemma turn_bound:
  assumes "counts (sl_queue s) (sl_active s)" "turn_calls t \<le> k" "1 \<le> k"
    and "length (sl_active s) \<le> limit - 1 + k"
  shows "length (sl_active (take_turn free enter leave t s)) \<le> limit - 1 + k"
proof (cases t)
  case (Ask calls)
  show ?thesis
  proof (cases "free (sl_queue s)")
    case True
    then have "length (sl_active s) < limit" using assms(1) free_below by blast
    moreover have "length (filter P calls) \<le> k" for P
      using assms(2) Ask by (auto intro: le_trans [OF length_filter_le])
    ultimately have "length (sl_active s) + length (filter P calls) \<le> limit - 1 + k" for P
      using add_mono [of "length (sl_active s)" "limit - 1" "length (filter P calls)" k] by simp
    with Ask show ?thesis by (simp add: Let_def)
  next
    case False
    then have "filter (\<lambda>c. (case c of (aborted, n) \<Rightarrow> wait_check aborted (free (sl_queue s))) = WaitResolved) calls = []"
      by (auto simp: wait_check_def filter_empty_conv split: if_splits)
    with Ask assms(4) show ?thesis by (simp add: Let_def)
  qed
next
  case (Timer aborted n)
  show ?thesis
  proof (cases "free (sl_queue s)")
    case True
    then have "length (sl_active s) < limit" using assms(1) free_below by blast
    with assms(3) have "length (sl_active s) + 1 \<le> limit - 1 + k" by linarith
    with assms(4) Timer show ?thesis by (simp split: wait_outcome.split)
  next
    case False
    with assms(4) Timer show ?thesis by (simp add: wait_check_def)
  qed
next
  case (Finish n)
  with assms(4) show ?thesis by (simp add: length_remove1 le_diff_conv)
qed

lemma turns_bound:
  assumes "counts q []" "\<forall>t \<in> set turns. turn_calls t \<le> k" "1 \<le> k"
  shows "length (sl_active (fold (take_turn free enter leave) turns \<lparr>sl_queue = q, sl_active = [], sl_waiting = []\<rparr>))
     \<le> limit - 1 + k"
proof -
  have "counts (sl_queue s) (sl_active s) \<Longrightarrow> length (sl_active s) \<le> limit - 1 + k \<Longrightarrow>
      length (sl_active (fold (take_turn free enter leave) turns s)) \<le> limit - 1 + k" for s
    using assms(2)
  proof (induction turns arbitrary: s)
    case (Cons t ts)
    then show ?case using turn_counts [of s t] turn_bound [of s t k] assms(3) by simp
  qed simp
  from this [of "\<lparr>sl_queue = q, sl_active = [], sl_waiting = []\<rparr>"] assms(1) show ?thesis by simp
qed

end

definition dq_counts :: "download_queue \<Rightarrow> nat list \<Rightarrow> bool" where
  "dq_counts q xs \<longleftrightarrow> dq_capacity q = int (length xs)"

definition uq_counts :: "upload_queue \<Rightarrow> nat list \<Rightarrow> bool" where
  "uq_counts q xs \<longleftrightarrow> uq_totalFileUploads q = int (length xs) \<and> uq_totalExpectedSize q = int (sum_list xs)"

lemma length_remove1_int: "n \<in> set xs \<Longrightarrow> int (length (remove1 n xs)) = int (length xs) - 1"
  using length_pos_if_in_set [of n xs] by (simp add: length_remove1 of_nat_diff Suc_leI)

lemma sum_list_remove1: "n \<in> set xs \<Longrightarrow> int (sum_list (remove1 n xs)) = int (sum_list xs) - int n"
  by (induction xs) auto

interpretation dq: counting_queue dq_free dq_enter dq_releaseCapacity dq_counts 5
  by unfold_locales (auto simp: dq_counts_def dq_enter_def dq_releaseCapacity_def dq_free_def
      MAX_CONCURRENT_DOWNLOADS_def length_remove1_int)

interpretation uq: counting_queue uq_free uq_enter uq_releaseCapacity uq_counts 5
  by unfold_locales (auto simp: uq_counts_def uq_enter_def uq_releaseCapacity_def uq_free_def
      MAX_CONCURRENT_FILE_UPLOADS_def length_remove1_int sum_list_remove1)

text \<open>
  The queues keep the number of files transferred at once to five, plus as many as one turn of the
  client asks for beyond its first: the calls of a turn all check the count before any of them is
  counted. Asked for one slot per turn both queues keep their limit; a client that asks for
  \<open>n\<close> in one turn of an idle queue gets all \<open>n\<close> at once.
\<close>

theorem queue_limits:
  assumes "\<forall>t \<in> set turns. turn_calls t \<le> Suc k"
  shows "length (sl_active (fold (take_turn dq_free dq_enter dq_releaseCapacity) turns
           \<lparr>sl_queue = dq_new, sl_active = [], sl_waiting = []\<rparr>)) \<le> 5 + k
    \<and> length (sl_active (fold (take_turn uq_free uq_enter uq_releaseCapacity) turns
           \<lparr>sl_queue = uq_new, sl_active = [], sl_waiting = []\<rparr>)) \<le> 5 + k
    \<and> sl_active (take_turn dq_free dq_enter dq_releaseCapacity (Ask (replicate n (False, size_bytes)))
           \<lparr>sl_queue = dq_new, sl_active = [], sl_waiting = []\<rparr>) = replicate n size_bytes
    \<and> sl_active (take_turn uq_free uq_enter uq_releaseCapacity (Ask (replicate n (False, size_bytes)))
           \<lparr>sl_queue = uq_new, sl_active = [], sl_waiting = []\<rparr>) = replicate n size_bytes"
proof -
  have "dq_counts dq_new []" "uq_counts uq_new []"
    by (simp_all add: dq_counts_def dq_new_def uq_counts_def uq_new_def)
  then show ?thesis
    using dq.turns_bound [of dq_new turns "Suc k"] uq.turns_bound [of uq_new turns "Suc k"] assms
    by (simp add: Let_def wait_check_def dq_free_def dq_new_def MAX_CONCURRENT_DOWNLOADS_def
        uq_free_def uq_new_def MAX_CONCURRENT_FILE_UPLOADS_def MAX_CONCURRENT_UPLOAD_SIZE_def FILE_CHUNK_SIZE_def)
qed

theorem queue_limits_witness:
  "length (sl_active (fold (take_turn dq_free dq_enter dq_releaseCapacity)
      [Ask [(False, 1), (False, 2)], Finish 1, Timer False 2, Ask [(True, 7)]]
      \<lparr>sl_queue = dq_new, sl_active = [], sl_waiting = []\<rparr>)) \<le> 6"
  using queue_limits [of "[Ask [(False, 1), (False, 2)], Finish 1, Timer False 2, Ask [(True, 7)]]" 1 0 0]
  by simp

end
