(* ===== verification/PhotoTransfers.thy ===== *)
theory PhotoTransfers
  imports NodesAccess NodeAttributes Uids Effects "HOL-Library.AList"
begin

text \<open>
  Adding photos to albums and saving them to the timeline: \<^verbatim>\<open>internal/photos/addToAlbum.ts\<close>,
  \<^verbatim>\<open>photosTransferPayloadBuilder.ts\<close>, \<^verbatim>\<open>photosManager.ts\<close>, the albums' operations of
  \<^verbatim>\<open>albumsManager.ts\<close>, the encryption of a photo for its album (\<^verbatim>\<open>albumsCrypto.ts\<close>) and the requests of
  \<^verbatim>\<open>apiService.ts\<close> that transfer photos.

  The nodes module, the server and the OpenPGP library are a record of operations on a state of
  their own, \<open>'s\<close>. A photo the server wants together with photos it misses is queued again, once,
  so the loops over the queue take fuel: \<open>None\<close> is a loop that has not ended after that many rounds.
\<close>

section \<open>Data\<close>

text \<open>\<open>activeRevision?.ok ? activeRevision.value.claimedDigests?.sha1\<close> is \<open>pn_contentSha1\<close>.\<close>

record photo_node =
  pn_uid :: string
  pn_parentUid :: "string option"
  pn_hash :: "string option"
  pn_name :: "thrown + string"
  pn_keyAuthor :: "thrown + string option"
  pn_contentSha1 :: "string option"
  pn_relatedPhotoNodeUids :: "string list option"

record 'p photo_keys =
  pk_passphrase :: string
  pk_passphraseSessionKey :: 'p
  pk_nameSessionKey :: 'p

record photo_payload =
  pp_nodeUid :: string
  pp_contentHash :: string
  pp_nameHash :: string
  pp_originalNameHash :: "string option"
  pp_encryptedName :: string
  pp_nameSignatureEmail :: string
  pp_nodePassphrase :: string
  pp_nodePassphraseSignature :: "string option"
  pp_signatureEmail :: "string option"

record transfer_payload =
  tp_photo :: photo_payload
  tp_relatedPhotos :: "photo_payload list"

record photo_item =
  pi_photoNodeUid :: string
  pi_additionalRelatedPhotoNodeUids :: "string list"

text \<open>\<open>NodeResultWithError\<close>.\<close>

datatype node_outcome = is_done: NodeDone (no_uid: string) | NodeFailed (no_uid: string) js_error

record encrypted_photo =
  ep_encryptedName :: string
  ep_hash :: string
  ep_contentHash :: string
  ep_armoredNodePassphrase :: string
  ep_armoredNodePassphraseSignature :: string
  ep_signatureEmail :: string
  ep_nameSignatureEmail :: string

record ('k, 'p) album_crypto =
  ac_encryptNodeName :: "string \<Rightarrow> 'p \<Rightarrow> 'k \<Rightarrow> 'k \<Rightarrow> thrown + string"
  ac_generateLookupHash :: "string \<Rightarrow> bytes \<Rightarrow> thrown + string"
  ac_encryptPassphrase :: "string \<Rightarrow> 'p \<Rightarrow> 'k list \<Rightarrow> 'k \<Rightarrow> thrown + string \<times> string"

text \<open>What the server is sent for a photo, and what it answers.\<close>

record link_data =
  ld_LinkID :: string
  ld_Hash :: string
  ld_OriginalHash :: "string option"
  ld_Name :: string
  ld_NameSignatureEmail :: "string option"
  ld_NodePassphrase :: string
  ld_ContentHash :: string
  ld_NodePassphraseSignature :: "string option"
  ld_SignatureEmail :: "string option"

record transfer_response =
  tr_LinkID :: string
  tr_Code :: int
  tr_Error :: "string option"
  tr_Missing :: "string list option"

record copy_request =
  cr_TargetVolumeID :: string
  cr_TargetParentLinkID :: string
  cr_Hash :: string
  cr_Name :: string
  cr_NameSignatureEmail :: string
  cr_NodePassphrase :: string
  cr_NodePassphraseSignature :: "string option"
  cr_SignatureEmail :: "string option"
  cr_ContentHash :: string
  cr_RelatedPhotos :: "link_data list"

record 'k target_keys =
  tk_key :: 'k
  tk_hashKey :: "bytes option"

record ('s, 'k, 'p) photo_services =
  ps_iterateNodes :: "string list \<Rightarrow> ('s, photo_node listed) gen"
  ps_getNodePrivateAndSessionKeys :: "string \<Rightarrow> ('s, 'p photo_keys) act"
  ps_getVolumeRootFolder :: "('s, string) act"
  ps_getNodeKeys :: "string \<Rightarrow> ('s, 'k target_keys) act"
  ps_getNodeSigningKeys :: "string \<Rightarrow> ('s, 'k node_signing_keys) act"
  ps_notifyNodeChanged :: "string \<Rightarrow> ('s, unit) act"
  ps_notifyChildCreated :: "string \<Rightarrow> ('s, unit) act"
  ps_notifyNodeDeleted :: "string \<Rightarrow> ('s, unit) act"
  ps_addMultiple :: "string \<Rightarrow> string \<Rightarrow> link_data list \<Rightarrow> ('s, transfer_response list) act"
  ps_transferMultiple :: "string \<Rightarrow> string \<Rightarrow> string \<Rightarrow> link_data list \<Rightarrow> ('s, transfer_response list) act"
  ps_copyLink :: "string \<Rightarrow> string \<Rightarrow> copy_request \<Rightarrow> ('s, string) act"
  ps_removeMultiple :: "string \<Rightarrow> string \<Rightarrow> string list \<Rightarrow> ('s, unit) act"
  ps_deleteAlbum :: "string \<Rightarrow> string \<Rightarrow> bool \<Rightarrow> ('s, unit) act"
  ps_Missing :: "details \<Rightarrow> string list option"
  ps_ChildLinkIDs :: "details \<Rightarrow> string list"
  ps_crypto :: "('k, 'p) album_crypto"

text \<open>\<open>error instanceof Error ? error : new Error(\`Unknown error\`, \{ cause: error \})\<close>\<close>

definition error_or_unknown :: "thrown \<Rightarrow> js_error" where
  "error_or_unknown t =
     (case t of ThrownError e \<Rightarrow> e | ThrownValue _ \<Rightarrow> with_cause (new_error JsError ''Unknown error'') t)"

section \<open>Payloads\<close>

definition encryptPhotoForAlbum ::
  "('k, 'p) album_crypto \<Rightarrow> thrown + string \<Rightarrow> string \<Rightarrow> 'p photo_keys \<Rightarrow> 'k \<Rightarrow> bytes \<Rightarrow> 'k node_signing_keys
     \<Rightarrow> thrown + encrypted_photo"
where
  "encryptPhotoForAlbum crypto nodeName sha1 nodeKeys key hashKey signingKeys =
     (case nodeName of
        Inl _ \<Rightarrow> Inl (throw_new ValidationError ''Cannot add photo to album without a valid name'')
      | Inr name \<Rightarrow>
          (case signingKeys of
             NodeKeys _ _ \<Rightarrow> Inl (throw_new JsError ''Adding photos to album by anonymous user is not supported'')
           | UserAddress email _ signingKey \<Rightarrow>
               try_bind (ac_encryptNodeName crypto name (pk_nameSessionKey nodeKeys) key signingKey) (\<lambda>armoredNodeName.
               try_bind (ac_generateLookupHash crypto name hashKey) (\<lambda>hash.
               try_bind (ac_generateLookupHash crypto sha1 hashKey) (\<lambda>contentHash.
               try_bind (ac_encryptPassphrase crypto (pk_passphrase nodeKeys) (pk_passphraseSessionKey nodeKeys)
                           [key] signingKey) (\<lambda>(armoredPassphrase, armoredPassphraseSignature).
                 Inr \<lparr>ep_encryptedName = armoredNodeName, ep_hash = hash, ep_contentHash = contentHash,
                      ep_armoredNodePassphrase = armoredPassphrase,
                      ep_armoredNodePassphraseSignature = armoredPassphraseSignature,
                      ep_signatureEmail = email, ep_nameSignatureEmail = email\<rparr>))))))"

definition encryptPhotoForTarget where
  "encryptPhotoForTarget svc photoNode key hashKey signingKeys =
     await (ps_getNodePrivateAndSessionKeys svc (pn_uid photoNode)) (\<lambda>nodeKeys.
       case present (pn_contentSha1 photoNode) of
         None \<Rightarrow> throw_act (throw_new JsError ''Cannot build photo payload without a content hash'')
       | Some contentSha1 \<Rightarrow>
           await (of_result (encryptPhotoForAlbum (ps_crypto svc) (pn_name photoNode) contentSha1 nodeKeys
                               key hashKey signingKeys)) (\<lambda>encryptedCrypto.
             let anonymousKey = (pn_keyAuthor photoNode = Inr None)
             in give \<lparr>pp_nodeUid = pn_uid photoNode, pp_contentHash = ep_contentHash encryptedCrypto,
                      pp_nameHash = ep_hash encryptedCrypto, pp_originalNameHash = pn_hash photoNode,
                      pp_encryptedName = ep_encryptedName encryptedCrypto,
                      pp_nameSignatureEmail = ep_nameSignatureEmail encryptedCrypto,
                      pp_nodePassphrase = ep_armoredNodePassphrase encryptedCrypto,
                      pp_nodePassphraseSignature =
                        (if anonymousKey then Some (ep_armoredNodePassphraseSignature encryptedCrypto) else None),
                      pp_signatureEmail = (if anonymousKey then Some (ep_signatureEmail encryptedCrypto) else None)\<rparr>))"

fun encrypt_listed where
  "encrypt_listed svc key hashKey signingKeys [] = give []"
| "encrypt_listed svc key hashKey signingKeys (MissingNode _ # nodes) = encrypt_listed svc key hashKey signingKeys nodes"
| "encrypt_listed svc key hashKey signingKeys (Listed photoNode # nodes) =
     await (encryptPhotoForTarget svc photoNode key hashKey signingKeys) (\<lambda>payload.
     await (encrypt_listed svc key hashKey signingKeys nodes) (\<lambda>payloads. give (payload # payloads)))"

definition prepareRelatedPhotoPayloads where
  "prepareRelatedPhotoPayloads svc nodeUids key hashKey signingKeys s =
     (case ps_iterateNodes svc nodeUids s of (nodes, listingError, s1) \<Rightarrow>
        await (encrypt_listed svc key hashKey signingKeys nodes)
          (\<lambda>payloads. case listingError of None \<Rightarrow> give payloads | Some error \<Rightarrow> throw_act error) s1)"

definition preparePhotoPayload where
  "preparePhotoPayload svc photoNode additionalRelatedPhotoNodeUids key hashKey signingKeys =
     await (encryptPhotoForTarget svc photoNode key hashKey signingKeys) (\<lambda>photoData.
       let relatedNodeUids = set_of
             ((case pn_relatedPhotoNodeUids photoNode of None \<Rightarrow> [] | Some uids \<Rightarrow> uids)
              @ additionalRelatedPhotoNodeUids)
       in await (if relatedNodeUids \<noteq> []
                 then prepareRelatedPhotoPayloads svc relatedNodeUids key hashKey signingKeys
                 else give [])
            (\<lambda>relatedPhotos. give \<lparr>tp_photo = photoData, tp_relatedPhotos = relatedPhotos\<rparr>))"

text \<open>\<open>errors\<close> is a \<open>Map\<close>: setting a key again keeps its place.\<close>

type_synonym photo_errors = "(string \<times> js_error) list"

definition additional_related :: "photo_item list \<Rightarrow> string \<Rightarrow> string list" where
  "additional_related items uid =
     (case map_of (rev (map (\<lambda>item. (pi_photoNodeUid item, pi_additionalRelatedPhotoNodeUids item)) items)) uid of
        None \<Rightarrow> [] | Some uids \<Rightarrow> uids)"

fun prepare_listed where
  "prepare_listed svc items targetNodeUid key hashKey signingKeys [] payloads errors s = ((payloads, errors), s)"
| "prepare_listed svc items targetNodeUid key hashKey signingKeys (MissingNode uid # nodes) payloads errors s =
     prepare_listed svc items targetNodeUid key hashKey signingKeys nodes payloads
       (AList.update uid (new_error ValidationError ''Photo not found'') errors) s"
| "prepare_listed svc items targetNodeUid key hashKey signingKeys (Listed photoNode # nodes) payloads errors s =
     (if pn_parentUid photoNode = Some targetNodeUid
      then prepare_listed svc items targetNodeUid key hashKey signingKeys nodes payloads
             (AList.update (pn_uid photoNode)
                (new_error PhotoAlreadyInTargetError ''Photo is already in the target album'') errors) s
      else case preparePhotoPayload svc photoNode (additional_related items (pn_uid photoNode)) key hashKey signingKeys s of
             (Inr payload, s') \<Rightarrow>
               prepare_listed svc items targetNodeUid key hashKey signingKeys nodes (payloads @ [payload]) errors s'
           | (Inl error, s') \<Rightarrow>
               prepare_listed svc items targetNodeUid key hashKey signingKeys nodes payloads
                 (AList.update (pn_uid photoNode) (error_or_unknown error) errors) s')"

definition preparePhotoPayloads ::
  "('s, 'k, 'p) photo_services \<Rightarrow> photo_item list \<Rightarrow> string \<Rightarrow> 'k target_keys \<Rightarrow> 'k node_signing_keys
     \<Rightarrow> ('s, transfer_payload list \<times> photo_errors) act"
where
  "preparePhotoPayloads svc items targetNodeUid targetKeys signingKeys s =
     (case tk_hashKey targetKeys of
        None \<Rightarrow> (Inl (throw_new JsError ''Target hash key is required to build photo payloads''), s)
      | Some hashKey \<Rightarrow>
          (case ps_iterateNodes svc (map pi_photoNodeUid items) s of (nodes, listingError, s1) \<Rightarrow>
             (case prepare_listed svc items targetNodeUid (tk_key targetKeys) hashKey signingKeys nodes [] [] s1 of
                (prepared, s2) \<Rightarrow>
                  ((case listingError of None \<Rightarrow> Inr prepared | Some error \<Rightarrow> Inl error), s2))))"

section \<open>Batches\<close>

definition ADD_PHOTOS_BATCH_SIZE :: nat where "ADD_PHOTOS_BATCH_SIZE = 10"

definition payload_size :: "transfer_payload \<Rightarrow> nat" where
  "payload_size payload = 1 + length (tp_relatedPhotos payload)"

fun batches_of :: "transfer_payload list \<Rightarrow> nat \<Rightarrow> transfer_payload list \<Rightarrow> transfer_payload list list" where
  "batches_of current currentSize [] = (if current \<noteq> [] then [current] else [])"
| "batches_of current currentSize (payload # payloads) =
     (if current \<noteq> [] \<and> currentSize + payload_size payload > ADD_PHOTOS_BATCH_SIZE
      then current # batches_of [payload] (payload_size payload) payloads
      else batches_of (current @ [payload]) (currentSize + payload_size payload) payloads)"

definition createBatches :: "transfer_payload list \<Rightarrow> transfer_payload list list" where
  "createBatches payloads = batches_of [] 0 payloads"

section \<open>Requests\<close>

text \<open>The link ID of a photo, or the error its UID is not valid with.\<close>

definition node_id :: "string \<Rightarrow> thrown + string" where
  "node_id uid = try_bind (splitNodeUid uid) (\<lambda>(_, nodeId). Inr nodeId)"

definition all_photos :: "transfer_payload list \<Rightarrow> photo_payload list" where
  "all_photos payloads = concat (map (\<lambda>p. tp_photo p # tp_relatedPhotos p) payloads)"

definition album_link :: "photo_payload \<Rightarrow> thrown + link_data" where
  "album_link p =
     try_bind (node_id (pp_nodeUid p)) (\<lambda>nodeId.
       Inr \<lparr>ld_LinkID = nodeId, ld_Hash = pp_nameHash p, ld_OriginalHash = None, ld_Name = pp_encryptedName p,
            ld_NameSignatureEmail = Some (pp_nameSignatureEmail p), ld_NodePassphrase = pp_nodePassphrase p,
            ld_ContentHash = pp_contentHash p, ld_NodePassphraseSignature = None, ld_SignatureEmail = None\<rparr>)"

definition transfer_link :: "photo_payload \<Rightarrow> thrown + link_data" where
  "transfer_link p =
     try_bind (node_id (pp_nodeUid p)) (\<lambda>nodeId.
       Inr \<lparr>ld_LinkID = nodeId, ld_Hash = pp_nameHash p, ld_OriginalHash = pp_originalNameHash p,
            ld_Name = pp_encryptedName p, ld_NameSignatureEmail = None, ld_NodePassphrase = pp_nodePassphrase p,
            ld_ContentHash = pp_contentHash p, ld_NodePassphraseSignature = None, ld_SignatureEmail = None\<rparr>)"

definition related_link :: "photo_payload \<Rightarrow> thrown + link_data" where
  "related_link p =
     try_bind (node_id (pp_nodeUid p)) (\<lambda>nodeId.
       Inr \<lparr>ld_LinkID = nodeId, ld_Hash = pp_nameHash p, ld_OriginalHash = None, ld_Name = pp_encryptedName p,
            ld_NameSignatureEmail = None, ld_NodePassphrase = pp_nodePassphrase p,
            ld_ContentHash = pp_contentHash p, ld_NodePassphraseSignature = None, ld_SignatureEmail = None\<rparr>)"

definition missing_photos :: "string list \<Rightarrow> js_error" where
  "missing_photos uids =
     Js_Error MissingRelatedPhotosError ''MissingRelatedPhotosError'' ''Operation failed, try again later''
       None None (Some (PhotoUids uids)) None"

definition response_failed :: "transfer_response \<Rightarrow> bool" where
  "response_failed r \<longleftrightarrow> tr_Code r = 0 \<or> \<not> isCodeOk (tr_Code r) \<or> present (tr_Error r) \<noteq> None"

definition response_error :: "string \<Rightarrow> transfer_response \<Rightarrow> js_error" where
  "response_error volumeId r =
     (case tr_Missing r of
        Some missing \<Rightarrow> missing_photos (map (makeNodeUid volumeId) missing)
      | None \<Rightarrow>
          api_code_error APICodeError (case present (tr_Error r) of None \<Rightarrow> ''Unknown error'' | Some m \<Rightarrow> m)
            (tr_Code r) None)"

fun response_errors :: "string \<Rightarrow> transfer_response list \<Rightarrow> (string \<rightharpoonup> js_error) \<Rightarrow> (string \<rightharpoonup> js_error)" where
  "response_errors volumeId [] errors = errors"
| "response_errors volumeId (r # rs) errors =
     response_errors volumeId rs
       (if response_failed r then errors(makeNodeUid volumeId (tr_LinkID r) \<mapsto> response_error volumeId r) else errors)"

definition outcomes :: "string \<Rightarrow> transfer_response list \<Rightarrow> transfer_payload list \<Rightarrow> node_outcome list" where
  "outcomes volumeId responses payloads =
     map (\<lambda>p. let uid = pp_nodeUid (tp_photo p)
               in case response_errors volumeId responses Map.empty uid of
                    Some error \<Rightarrow> NodeFailed uid error
                  | None \<Rightarrow> NodeDone uid) payloads"

definition addPhotosToAlbum ::
  "('s, 'k, 'p) photo_services \<Rightarrow> string \<Rightarrow> transfer_payload list \<Rightarrow> ('s, node_outcome list) act"
where
  "addPhotosToAlbum svc albumNodeUid payloads =
     await (of_result (splitNodeUid albumNodeUid)) (\<lambda>(volumeId, albumLinkId).
     await (of_result (try_map album_link (all_photos payloads))) (\<lambda>links.
     await (ps_addMultiple svc volumeId albumLinkId links) (\<lambda>responses.
       give (outcomes volumeId responses payloads))))"

definition transferPhotos ::
  "('s, 'k, 'p) photo_services \<Rightarrow> string \<Rightarrow> transfer_payload list \<Rightarrow> ('s, node_outcome list) act"
where
  "transferPhotos svc newParentNodeUid payloads =
     await (of_result (splitNodeUid newParentNodeUid)) (\<lambda>(volumeId, newParentNodeId).
       case payloads of
         [] \<Rightarrow> give []
       | first # _ \<Rightarrow>
           let nameSignatureEmail = pp_nameSignatureEmail (tp_photo first)
           in if \<exists>p \<in> set payloads. pp_nameSignatureEmail (tp_photo p) \<noteq> nameSignatureEmail
              then throw_act (throw_new JsError ''All photos must have the same name signature email'')
              else await (of_result (try_map transfer_link (all_photos payloads))) (\<lambda>links.
                   await (ps_transferMultiple svc volumeId newParentNodeId nameSignatureEmail links) (\<lambda>responses.
                     give (outcomes volumeId responses payloads))))"

text \<open>\<open>error.details.Missing\<close> of an error that may carry neither.\<close>

definition missing_links :: "('s, 'k, 'p) photo_services \<Rightarrow> thrown \<Rightarrow> string list option" where
  "missing_links svc error =
     (case error of
        ThrownError e \<Rightarrow> Option.bind (err_details e) (ps_Missing svc)
      | ThrownValue _ \<Rightarrow> None)"

definition copyPhoto ::
  "('s, 'k, 'p) photo_services \<Rightarrow> string \<Rightarrow> transfer_payload \<Rightarrow> ('s, string) act"
where
  "copyPhoto svc targetNodeUid payload =
     (let p = tp_photo payload in
      await (of_result (splitNodeUid (pp_nodeUid p))) (\<lambda>(sourceVolumeId, sourceLinkId).
      await (of_result (splitNodeUid targetNodeUid)) (\<lambda>(targetVolumeId, targetNodeId).
      await (catch
              (await (of_result (try_map related_link (tp_relatedPhotos payload))) (\<lambda>related.
                 ps_copyLink svc sourceVolumeId sourceLinkId
                   \<lparr>cr_TargetVolumeID = targetVolumeId, cr_TargetParentLinkID = targetNodeId, cr_Hash = pp_nameHash p,
                    cr_Name = pp_encryptedName p, cr_NameSignatureEmail = pp_nameSignatureEmail p,
                    cr_NodePassphrase = pp_nodePassphrase p,
                    cr_NodePassphraseSignature = pp_nodePassphraseSignature p,
                    cr_SignatureEmail = pp_signatureEmail p, cr_ContentHash = pp_contentHash p,
                    cr_RelatedPhotos = related\<rparr>))
              (\<lambda>error.
                 if instanceof error InvalidRequirementsAPIError
                 then (case missing_links svc error of
                         None \<Rightarrow> throw_act (throw_new JsTypeError ''Cannot destructure property Missing'')
                       | Some missingLinkIds \<Rightarrow>
                           if missingLinkIds \<noteq> []
                           then throw_act (ThrownError (missing_photos (map (makeNodeUid sourceVolumeId) missingLinkIds)))
                           else throw_act error)
                 else throw_act error))
        (\<lambda>linkId. give (makeNodeUid targetVolumeId linkId)))))"

section \<open>Transfers\<close>

text \<open>The queue of photos, those queued a second time, and everything outside.\<close>

record 's transfer_state =
  ts_queue :: "photo_item list"
  ts_retried :: "string list"
  ts_outside :: 's

definition outside :: "('s, 'a) act \<Rightarrow> ('s transfer_state, 'a) act" where
  "outside m ts = (case m (ts_outside ts) of (r, s) \<Rightarrow> (r, ts\<lparr>ts_outside := s\<rparr>))"

definition TRANSFER_BATCH_LOADING_SIZE :: nat where "TRANSFER_BATCH_LOADING_SIZE = 20"

definition missing_uids :: "js_error \<Rightarrow> string list" where
  "missing_uids e = (case err_details e of Some (PhotoUids uids) \<Rightarrow> uids | _ \<Rightarrow> [])"

text \<open>\<open>None\<close> if the photo has been retried already.\<close>

definition createRetryQueueItem :: "string \<Rightarrow> js_error \<Rightarrow> 's transfer_state \<Rightarrow> 's transfer_state option" where
  "createRetryQueueItem uid e ts =
     (if uid \<in> set (ts_retried ts) then None
      else Some (ts\<lparr>ts_retried := ts_retried ts @ [uid],
                    ts_queue := ts_queue ts @
                      [\<lparr>pi_photoNodeUid = uid, pi_additionalRelatedPhotoNodeUids = missing_uids e\<rparr>]\<rparr>))"

definition handleMissingRelatedPhotosError :: "node_outcome \<Rightarrow> 's transfer_state \<Rightarrow> 's transfer_state option" where
  "handleMissingRelatedPhotosError result ts =
     (case result of
        NodeFailed uid e \<Rightarrow>
          if instanceof (ThrownError e) MissingRelatedPhotosError then createRetryQueueItem uid e ts else None
      | NodeDone _ \<Rightarrow> None)"

text \<open>\<open>k\<close> is what the caller's loop does with a result before it asks for the next one.\<close>

definition report_result ::
  "('s, 'k, 'p) photo_services \<Rightarrow> (node_outcome \<Rightarrow> ('s transfer_state, 'y) gen) \<Rightarrow> node_outcome
     \<Rightarrow> ('s transfer_state, 'y) gen"
where
  "report_result svc k result ts =
     (case handleMissingRelatedPhotosError result ts of
        Some ts' \<Rightarrow> ([], None, ts')
      | None \<Rightarrow>
          (case result of
             NodeDone uid \<Rightarrow> gen_await (outside (ps_notifyNodeChanged svc uid)) (\<lambda>_. k result) ts
           | NodeFailed _ _ \<Rightarrow> k result ts))"

text \<open>One request for a batch of photos of the same volume, and one for a photo of another volume.\<close>

definition transfer_batch where
  "transfer_batch svc k request current =
     gen_await (outside (request current)) (gen_each (report_result svc k))"

definition copy_photo ::
  "(node_outcome \<Rightarrow> ('s transfer_state, 'y) gen) \<Rightarrow> (transfer_payload \<Rightarrow> ('s, unit) act) \<Rightarrow> transfer_payload
     \<Rightarrow> ('s transfer_state, 'y) gen"
where
  "copy_photo k request payload ts =
     (let uid = pp_nodeUid (tp_photo payload) in
      case outside (request payload) ts of
        (Inr _, ts') \<Rightarrow> k (NodeDone uid) ts'
      | (Inl error, ts') \<Rightarrow>
          (case (if instanceof error MissingRelatedPhotosError
                 then createRetryQueueItem uid (error_or_unknown error) ts' else None) of
             Some ts'' \<Rightarrow> ([], None, ts'')
           | None \<Rightarrow> k (NodeFailed uid (error_or_unknown error)) ts'))"

text \<open>
  One round of a queue: the next photos are taken from it, prepared, and \<open>transfer\<close> sends the
  payloads.
\<close>

definition queue_round where
  "queue_round svc k targetNodeUid targetKeys signingKeys transfer ts =
     gen_await
       (outside (preparePhotoPayloads svc (take TRANSFER_BATCH_LOADING_SIZE (ts_queue ts)) targetNodeUid
          targetKeys signingKeys))
       (\<lambda>(payloads, errors).
          followed_by (gen_each k (map (\<lambda>(uid, error). NodeFailed uid error) errors)) (transfer payloads))
       (ts\<lparr>ts_queue := drop TRANSFER_BATCH_LOADING_SIZE (ts_queue ts)\<rparr>)"

fun queue_loop ::
  "('s transfer_state, 'y) gen \<Rightarrow> nat \<Rightarrow> 's transfer_state \<Rightarrow>
     ('y list \<times> thrown option \<times> 's transfer_state) option"
where
  "queue_loop r 0 ts = (if ts_queue ts = [] then Some ([], None, ts) else None)"
| "queue_loop r (Suc fuel) ts =
     (if ts_queue ts = [] then Some ([], None, ts)
      else case r ts of
             (ys, Some error, ts') \<Rightarrow> Some (ys, Some error, ts')
           | (ys, None, ts') \<Rightarrow>
               map_option (\<lambda>(zs, error, ts''). (ys @ zs, error, ts'')) (queue_loop r fuel ts'))"

section \<open>Albums\<close>

definition processSameVolumeQueue where
  "processSameVolumeQueue svc albumNodeUid albumKeys signingKeys =
     queue_loop (queue_round svc yield_one albumNodeUid albumKeys signingKeys
       (\<lambda>payloads. gen_each (transfer_batch svc yield_one (addPhotosToAlbum svc albumNodeUid)) (createBatches payloads)))"

definition copy_to_album where
  "copy_to_album svc albumNodeUid payload =
     await (copyPhoto svc albumNodeUid payload) (ps_notifyChildCreated svc)"

definition processDifferentVolumeQueue where
  "processDifferentVolumeQueue svc albumNodeUid albumKeys signingKeys =
     queue_loop (queue_round svc yield_one albumNodeUid albumKeys signingKeys
       (gen_each (copy_photo yield_one (copy_to_album svc albumNodeUid))))"

definition new_photo_item :: "string \<Rightarrow> photo_item" where
  "new_photo_item uid = \<lparr>pi_photoNodeUid = uid, pi_additionalRelatedPhotoNodeUids = []\<rparr>"

fun splitByVolume :: "string list \<Rightarrow> string \<Rightarrow> thrown + photo_item list \<times> photo_item list" where
  "splitByVolume [] albumVolumeId = Inr ([], [])"
| "splitByVolume (uid # uids) albumVolumeId =
     try_bind (splitNodeUid uid) (\<lambda>(volumeId, _).
     try_bind (splitByVolume uids albumVolumeId) (\<lambda>(sameVolumeQueue, differentVolumeQueue).
       Inr (if volumeId = albumVolumeId then (new_photo_item uid # sameVolumeQueue, differentVolumeQueue)
            else (sameVolumeQueue, new_photo_item uid # differentVolumeQueue))))"

definition add_to_album_execute where
  "add_to_album_execute svc fuel albumNodeUid albumKeys signingKeys photoNodeUids s =
     (case try_bind (splitNodeUid albumNodeUid) (\<lambda>(albumVolumeId, _). splitByVolume photoNodeUids albumVolumeId) of
        Inl error \<Rightarrow> Some ([], Some error, s)
      | Inr (sameVolumeQueue, differentVolumeQueue) \<Rightarrow>
          (case processSameVolumeQueue svc albumNodeUid albumKeys signingKeys fuel
                  \<lparr>ts_queue = sameVolumeQueue, ts_retried = [], ts_outside = s\<rparr> of
             None \<Rightarrow> None
           | Some (ys, Some error, ts) \<Rightarrow> Some (ys, Some error, ts_outside ts)
           | Some (ys, None, ts) \<Rightarrow>
               map_option (\<lambda>(zs, error, ts'). (ys @ zs, error, ts_outside ts'))
                 (processDifferentVolumeQueue svc albumNodeUid albumKeys signingKeys fuel
                    (ts\<lparr>ts_queue := differentVolumeQueue\<rparr>))))"

definition with_finally where
  "with_finally r f =
     map_option (\<lambda>(ys, error, s). gen_finally (\<lambda>s. (ys, error, s)) f s) r"

definition addPhotos where
  "addPhotos svc fuel albumNodeUid photoNodeUids s =
     (case ps_getNodeKeys svc albumNodeUid s of
        (Inl error, s1) \<Rightarrow> Some ([], Some error, s1)
      | (Inr albumKeys, s1) \<Rightarrow>
          if tk_hashKey albumKeys = None
          then Some ([], Some (throw_new JsError ''Cannot add photos to album: album hash key not available''), s1)
          else case ps_getNodeSigningKeys svc albumNodeUid s1 of
                 (Inl error, s2) \<Rightarrow> Some ([], Some error, s2)
               | (Inr signingKeys, s2) \<Rightarrow>
                   with_finally (add_to_album_execute svc fuel albumNodeUid albumKeys signingKeys photoNodeUids s2)
                     (ps_notifyNodeChanged svc albumNodeUid))"

text \<open>The server answers for a whole batch; \<open>k\<close> is the body of the loop over the results.\<close>

fun remove_batches where
  "remove_batches svc k volumeId albumLinkId [] = yields []"
| "remove_batches svc k volumeId albumLinkId (uids # rest) =
     gen_await (of_result (try_map node_id uids)) (\<lambda>linkIds.
       followed_by
         (\<lambda>s. case ps_removeMultiple svc volumeId albumLinkId linkIds s of
                (Inr _, s') \<Rightarrow> gen_each k (map NodeDone uids) s'
              | (Inl (ThrownError e), s') \<Rightarrow> gen_each k (map (\<lambda>uid. NodeFailed uid e) uids) s'
              | (Inl (ThrownValue _), s') \<Rightarrow>
                  gen_each k (map (\<lambda>uid. NodeFailed uid (new_error JsError ''Unknown error'')) uids) s')
         (remove_batches svc k volumeId albumLinkId rest))"

definition removePhotosFromAlbum where
  "removePhotosFromAlbum svc k albumNodeUid photoNodeUids =
     gen_await (of_result (splitNodeUid albumNodeUid)) (\<lambda>(volumeId, albumLinkId).
     gen_await (of_result (batch photoNodeUids 10)) (remove_batches svc k volumeId albumLinkId))"

definition removed_result where
  "removed_result svc result =
     (case result of
        NodeDone uid \<Rightarrow> gen_await (ps_notifyNodeChanged svc uid) (\<lambda>_. yields [result])
      | NodeFailed _ _ \<Rightarrow> yields [result])"

definition removePhotos where
  "removePhotos svc albumNodeUid photoNodeUids =
     gen_finally (removePhotosFromAlbum svc (removed_result svc) albumNodeUid photoNodeUids)
       (ps_notifyNodeChanged svc albumNodeUid)"

section \<open>The timeline\<close>

fun partition_volume :: "string \<Rightarrow> transfer_payload list \<Rightarrow> thrown + transfer_payload list \<times> transfer_payload list" where
  "partition_volume userVolumeId [] = Inr ([], [])"
| "partition_volume userVolumeId (p # ps) =
     try_bind (splitNodeUid (pp_nodeUid (tp_photo p))) (\<lambda>(volumeId, _).
     try_bind (partition_volume userVolumeId ps) (\<lambda>(same, cross).
       Inr (if volumeId = userVolumeId then (p # same, cross) else (same, p # cross))))"

definition copy_to_timeline where
  "copy_to_timeline svc rootNodeUid payload =
     await (ps_getVolumeRootFolder svc) (\<lambda>root.
     await (copyPhoto svc root payload) (\<lambda>_. ps_notifyChildCreated svc rootNodeUid))"

definition timeline_transfer where
  "timeline_transfer svc k rootNodeUid userVolumeId payloads =
     gen_await (of_result (partition_volume userVolumeId payloads)) (\<lambda>(same, cross).
       followed_by (gen_each (transfer_batch svc k (transferPhotos svc rootNodeUid)) (createBatches same))
         (gen_each (copy_photo k (copy_to_timeline svc rootNodeUid)) cross))"

definition saveToTimeline where
  "saveToTimeline svc k fuel nodeUids s =
     (case ps_getVolumeRootFolder svc s of
        (Inl error, s1) \<Rightarrow> Some ([], Some error, s1)
      | (Inr rootNodeUid, s1) \<Rightarrow>
          (case splitNodeUid rootNodeUid of
             Inl error \<Rightarrow> Some ([], Some error, s1)
           | Inr (userVolumeId, _) \<Rightarrow>
               (case await (ps_getNodeKeys svc rootNodeUid) (\<lambda>volumeRootKeys.
                      await (ps_getNodeSigningKeys svc rootNodeUid) (\<lambda>signingKeys.
                        give (volumeRootKeys, signingKeys))) s1 of
                  (Inl error, s2) \<Rightarrow> Some ([], Some error, s2)
                | (Inr (volumeRootKeys, signingKeys), s2) \<Rightarrow>
                    map_option (\<lambda>(ys, error, ts). (ys, error, ts_outside ts))
                      (queue_loop (queue_round svc k rootNodeUid volumeRootKeys signingKeys
                           (timeline_transfer svc k rootNodeUid userVolumeId)) fuel
                         \<lparr>ts_queue = map new_photo_item nodeUids, ts_retried = [], ts_outside = s2\<rparr>))))"

section \<open>Deleting an album\<close>

text \<open>The server refuses an album whose photos are nowhere else with the error code 200302.\<close>

definition ALBUM_CONTAINS_PHOTOS_NOT_IN_TIMELINE :: int where "ALBUM_CONTAINS_PHOTOS_NOT_IN_TIMELINE = 200302"

definition deleteAlbum_request where
  "deleteAlbum_request svc albumNodeUid force =
     await (of_result (splitNodeUid albumNodeUid)) (\<lambda>(volumeId, linkId).
       catch (ps_deleteAlbum svc volumeId linkId force)
         (\<lambda>error.
            case error of
              ThrownError e \<Rightarrow>
                if instanceof error APICodeError \<and> err_code e = Some (CodeNum ALBUM_CONTAINS_PHOTOS_NOT_IN_TIMELINE)
                then throw_act (ThrownError (Js_Error AlbumContainsPhotosNotInTimelineError
                       (class_name AlbumContainsPhotosNotInTimelineError) (err_message e) (err_code e) None
                       (Some (PhotoUids (map (makeNodeUid volumeId)
                          (case err_details e of None \<Rightarrow> [] | Some d \<Rightarrow> ps_ChildLinkIDs svc d)))) None))
                else throw_act error
            | ThrownValue _ \<Rightarrow> throw_act error))"

definition stop_on_failure :: "node_outcome \<Rightarrow> ('s, unit) gen" where
  "stop_on_failure result =
     (case result of NodeDone _ \<Rightarrow> yields [] | NodeFailed _ error \<Rightarrow> gen_throw (ThrownError error))"

definition photos_only_in_album :: "thrown \<Rightarrow> string list" where
  "photos_only_in_album error =
     (case error of
        ThrownError e \<Rightarrow> if instanceof error AlbumContainsPhotosNotInTimelineError then missing_uids e else []
      | ThrownValue _ \<Rightarrow> [])"

text \<open>\<open>options\<close> are \<open>force\<close> and \<open>saveToTimeline\<close>.\<close>

definition deleteAlbum ::
  "('s, 'k, 'p) photo_services \<Rightarrow> nat \<Rightarrow> string \<Rightarrow> bool \<Rightarrow> bool \<Rightarrow> ('s, unit) run"
where
  "deleteAlbum svc fuel nodeUid force save =
     then_run
       (\<lambda>s. case deleteAlbum_request svc nodeUid force s of
              (Inr _, s1) \<Rightarrow> Some (Inr (), s1)
            | (Inl error, s1) \<Rightarrow>
                if save \<and> photos_only_in_album error \<noteq> []
                then (case saveToTimeline svc stop_on_failure fuel (photos_only_in_album error) s1 of
                        None \<Rightarrow> None
                      | Some (_, Some failure, s2) \<Rightarrow> Some (Inl failure, s2)
                      | Some (_, None, s2) \<Rightarrow> as_run (deleteAlbum_request svc nodeUid force) s2)
                else Some (Inl error, s1))
       (\<lambda>_. as_run (ps_notifyNodeDeleted svc nodeUid))"

end
