(* ===== verification/PhotoProofs.thy ===== *)
theory PhotoProofs
  imports PhotoTransfers
begin

text \<open>
  What the transfers of \<^verbatim>\<open>addToAlbum.ts\<close> and \<^verbatim>\<open>photosManager.ts\<close> promise: the requests respect the limit
  of the API, and every photo asked for is reported once, as transferred only if the server says
  so. \<open>inside\<close> stands for being in the album or the timeline, as the server knows it.
\<close>

section \<open>Batches\<close>

lemma batches_of_concat: "concat (batches_of current n payloads) = current @ payloads"
  by (induction current n payloads rule: batches_of.induct) auto

definition batch_ok :: "transfer_payload list \<Rightarrow> bool" where
  "batch_ok ps \<longleftrightarrow> ps \<noteq> [] \<and> (sum_list (map payload_size ps) \<le> ADD_PHOTOS_BATCH_SIZE \<or> length ps = 1)"

lemma batches_of_ok:
  "n = sum_list (map payload_size current) \<Longrightarrow> current = [] \<or> batch_ok current \<Longrightarrow>
     ps \<in> set (batches_of current n payloads) \<Longrightarrow> batch_ok ps"
proof (induction current n payloads rule: batches_of.induct)
  case (2 current n payload payloads)
  show ?case
  proof (cases "current \<noteq> [] \<and> n + payload_size payload > ADD_PHOTOS_BATCH_SIZE")
    case True
    then have "ps = current \<or> ps \<in> set (batches_of [payload] (payload_size payload) payloads)"
      using "2.prems"(3) by simp
    moreover have "batch_ok [payload]" by (simp add: batch_ok_def)
    ultimately show ?thesis using "2.IH"(1) [OF True] "2.prems"(2) True by auto
  next
    case False
    then have "batch_ok (current @ [payload])"
      using "2.prems"(1) by (cases current) (auto simp: batch_ok_def)
    moreover have "ps \<in> set (batches_of (current @ [payload]) (n + payload_size payload) payloads)"
      using "2.prems"(3) False by (simp only: batches_of.simps if_False)
    ultimately show ?thesis using "2.IH"(2) [OF False] "2.prems"(1) by simp
  qed
qed (auto split: if_splits)

lemma batches_of_first:
  assumes "batches_of current n payloads = b # bs" and "current \<noteq> []"
  shows "\<exists>rest. b = current @ rest"
  using assms
proof (induction current n payloads arbitrary: b bs rule: batches_of.induct)
  case (2 current n payload payloads)
  then show ?case by (cases "n + payload_size payload > ADD_PHOTOS_BATCH_SIZE") auto
qed auto

lemma batches_of_maximal:
  "n = sum_list (map payload_size current) \<Longrightarrow> Suc i < length (batches_of current n payloads) \<Longrightarrow>
     sum_list (map payload_size (batches_of current n payloads ! i))
       + payload_size (hd (batches_of current n payloads ! Suc i)) > ADD_PHOTOS_BATCH_SIZE"
proof (induction current n payloads arbitrary: i rule: batches_of.induct)
  case (2 current n payload payloads)
  show ?case
  proof (cases "current \<noteq> [] \<and> n + payload_size payload > ADD_PHOTOS_BATCH_SIZE")
    case True
    let ?rest = "batches_of [payload] (payload_size payload) payloads"
    obtain b bs where rest: "?rest = b # bs"
      using 2(4) True by (cases ?rest) auto
    show ?thesis
    proof (cases i)
      case 0
      then show ?thesis using True rest batches_of_first [OF rest] 2(3) by auto
    next
      case (Suc j)
      then show ?thesis using 2(1) [OF True, of j] 2(3,4) True by auto
    qed
  next
    case False
    then show ?thesis using 2(2) [OF False] 2(3,4) by auto
  qed
qed (auto split: if_splits)

section \<open>Accounting\<close>

definition load_of :: "string set \<Rightarrow> 's transfer_state \<Rightarrow> nat" where
  "load_of U ts = length (ts_queue ts) + card (U - set (ts_retried ts))"

text \<open>
  \<open>g\<close> handles the photos \<open>W\<close>, some of which, \<open>D\<close>, are known to be inside: it reports each of them once
  or queues it again, reports as done only what is inside, and keeps inside what is.
\<close>

definition handles ::
  "string set \<Rightarrow> (string \<Rightarrow> 's \<Rightarrow> bool) \<Rightarrow> string set \<Rightarrow> string multiset \<Rightarrow> ('s transfer_state, node_outcome) gen \<Rightarrow> bool"
where
  "handles U inside D W g \<longleftrightarrow>
     (\<forall>ts ys e ts'. g ts = (ys, e, ts') \<longrightarrow> (\<forall>u \<in> D. inside u (ts_outside ts)) \<longrightarrow>
        (\<forall>u. inside u (ts_outside ts) \<longrightarrow> inside u (ts_outside ts'))
      \<and> (\<forall>u. NodeDone u \<in> set ys \<longrightarrow> inside u (ts_outside ts'))
      \<and> mset (map no_uid ys) \<subseteq># W
      \<and> load_of U ts' \<le> load_of U ts
      \<and> (e = None \<longrightarrow> (\<exists>items. ts_queue ts' = ts_queue ts @ items
            \<and> mset (map no_uid ys) + mset (map pi_photoNodeUid items) = W)))"

lemma handlesI:
  assumes "\<And>ts ys e ts'. g ts = (ys, e, ts') \<Longrightarrow> \<forall>u \<in> D. inside u (ts_outside ts) \<Longrightarrow>
      (\<forall>u. inside u (ts_outside ts) \<longrightarrow> inside u (ts_outside ts'))
    \<and> (\<forall>u. NodeDone u \<in> set ys \<longrightarrow> inside u (ts_outside ts'))
    \<and> mset (map no_uid ys) \<subseteq># W \<and> load_of U ts' \<le> load_of U ts
    \<and> (e = None \<longrightarrow> (\<exists>items. ts_queue ts' = ts_queue ts @ items
          \<and> mset (map no_uid ys) + mset (map pi_photoNodeUid items) = W))"
  shows "handles U inside D W g"
  using assms by (simp add: handles_def)

lemma handlesD:
  assumes "handles U inside D W g" "g ts = (ys, e, ts')" "\<forall>u \<in> D. inside u (ts_outside ts)"
  shows "inside u (ts_outside ts) \<Longrightarrow> inside u (ts_outside ts')"
    and "NodeDone u \<in> set ys \<Longrightarrow> inside u (ts_outside ts')"
    and "mset (map no_uid ys) \<subseteq># W" and "load_of U ts' \<le> load_of U ts"
    and "e = None \<Longrightarrow> \<exists>items. ts_queue ts' = ts_queue ts @ items
           \<and> mset (map no_uid ys) + mset (map pi_photoNodeUid items) = W"
  using assms unfolding handles_def by blast+

lemma handles_weaken: "handles U inside D W g \<Longrightarrow> D \<subseteq> D' \<Longrightarrow> handles U inside D' W g"
  unfolding handles_def by blast

lemma handles_followed_by:
  assumes g: "handles U inside D V g" and h: "handles U inside D W h"
  shows "handles U inside D (V + W) (followed_by g h)"
proof (rule handlesI)
  fix ts ys e ts'
  assume run: "followed_by g h ts = (ys, e, ts')" and D: "\<forall>u \<in> D. inside u (ts_outside ts)"
  from run show "(\<forall>u. inside u (ts_outside ts) \<longrightarrow> inside u (ts_outside ts'))
    \<and> (\<forall>u. NodeDone u \<in> set ys \<longrightarrow> inside u (ts_outside ts'))
    \<and> mset (map no_uid ys) \<subseteq># V + W \<and> load_of U ts' \<le> load_of U ts
    \<and> (e = None \<longrightarrow> (\<exists>items. ts_queue ts' = ts_queue ts @ items
          \<and> mset (map no_uid ys) + mset (map pi_photoNodeUid items) = V + W))"
  proof (cases rule: followed_by_cases)
    case (1 t)
    have "mset (map no_uid ys) \<subseteq># V + W"
      using handlesD(3) [OF g 1(1) D] by (metis mset_subset_eq_add_left subset_mset.order_trans)
    then show ?thesis using handlesD(1,2,4) [OF g 1(1) D] 1(2) by blast
  next
    case (2 ys1 ts1 zs)
    have D1: "\<forall>u \<in> D. inside u (ts_outside ts1)" using handlesD(1) [OF g 2(1) D] D by blast
    note first = handlesD [OF g 2(1) D] and second = handlesD [OF h 2(2) D1]
    have sub: "mset (map no_uid ys) \<subseteq># V + W"
      using first(3) second(3) 2(3) by (simp add: subset_mset.add_mono)
    have "\<exists>items. ts_queue ts' = ts_queue ts @ items
          \<and> mset (map no_uid ys) + mset (map pi_photoNodeUid items) = V + W" if normal: "e = None"
    proof -
      obtain items where "ts_queue ts1 = ts_queue ts @ items"
        "mset (map no_uid ys1) + mset (map pi_photoNodeUid items) = V" using first(5) by blast
      moreover obtain items' where "ts_queue ts' = ts_queue ts1 @ items'"
        "mset (map no_uid zs) + mset (map pi_photoNodeUid items') = W" using second(5) normal by blast
      ultimately have "ts_queue ts' = ts_queue ts @ items @ items'"
        "mset (map no_uid ys) + mset (map pi_photoNodeUid (items @ items')) = V + W"
        using 2(3) by (auto simp: ac_simps)
      then show ?thesis by blast
    qed
    then show ?thesis using first(1,2,4) second(1,2,4) sub 2(3) by (metis Un_iff order_trans set_append)
  qed
qed

lemma handles_yields_nothing: "handles U inside D {#} (yields [])"
  by (simp add: handles_def yields_def)

lemma handles_each:
  "(\<And>y. y \<in> set ys \<Longrightarrow> handles U inside D (w y) (k y)) \<Longrightarrow> handles U inside D (\<Sum>y \<leftarrow> ys. w y) (gen_each k ys)"
proof (induction ys)
  case Nil
  show ?case by (simp add: handles_yields_nothing)
next
  case (Cons y ys)
  have "handles U inside D (w y + (\<Sum>y \<leftarrow> ys. w y)) (followed_by (k y) (gen_each k ys))"
    by (intro handles_followed_by) (use Cons in auto)
  then show ?case by simp
qed

lemma sum_list_singletons: "(\<Sum>y \<leftarrow> ys. {#f y#}) = mset (map f ys)"
  by (induction ys) auto

lemma sum_list_mset_map: "(\<Sum>y \<leftarrow> ys. mset (map f (g y))) = mset (map f (concat (map g ys)))"
  by (induction ys) auto

section \<open>Operations\<close>

text \<open>An operation of another module takes no photo out.\<close>

definition keeps :: "(string \<Rightarrow> 's \<Rightarrow> bool) \<Rightarrow> ('s, 'a) act \<Rightarrow> bool" where
  "keeps inside m \<longleftrightarrow> (\<forall>s r s' u. m s = (r, s') \<longrightarrow> inside u s \<longrightarrow> inside u s')"

named_theorems keeps_intros

lemma keepsD: "keeps inside m \<Longrightarrow> m s = (r, s') \<Longrightarrow> inside u s \<Longrightarrow> inside u s'"
  by (simp add: keeps_def)

lemma keeps_pure [keeps_intros]:
  "keeps inside (give v)" "keeps inside (throw_act t)" "keeps inside (of_result q)"
  by (auto simp: keeps_def run_act)

lemma keeps_await [keeps_intros]:
  assumes "keeps inside m" "\<And>v. keeps inside (k v)"
  shows "keeps inside (await m k)"
  unfolding keeps_def
proof (intro allI impI)
  fix s r s' u
  assume "await m k s = (r, s')" "inside u s"
  then show "inside u s'" using await_cases [of m k s r s'] assms by (metis keepsD)
qed

lemma keeps_catch [keeps_intros]:
  assumes "keeps inside m" "\<And>t. keeps inside (h t)"
  shows "keeps inside (catch m h)"
  unfolding keeps_def
proof (intro allI impI)
  fix s r s' u
  assume "catch m h s = (r, s')" "inside u s"
  then show "inside u s'" using catch_cases [of m h s r s'] assms by (metis keepsD)
qed

lemma keeps_cases [keeps_intros]:
  "(\<And>y z. p = (y, z) \<Longrightarrow> keeps inside (c y z)) \<Longrightarrow> keeps inside (case p of (y, z) \<Rightarrow> c y z)"
  "(d \<Longrightarrow> keeps inside i) \<Longrightarrow> (\<not> d \<Longrightarrow> keeps inside j) \<Longrightarrow> keeps inside (if d then i else j)"
  "(x = None \<Longrightarrow> keeps inside a) \<Longrightarrow> (\<And>v. x = Some v \<Longrightarrow> keeps inside (b v)) \<Longrightarrow>
     keeps inside (case x of None \<Rightarrow> a | Some v \<Rightarrow> b v)"
  "(xs = [] \<Longrightarrow> keeps inside n) \<Longrightarrow> (\<And>y ys. xs = y # ys \<Longrightarrow> keeps inside (l y ys)) \<Longrightarrow>
     keeps inside (case xs of [] \<Rightarrow> n | y # ys \<Rightarrow> l y ys)"
  by (simp_all split: prod.split option.split list.split)

text \<open>What the services are relied on for.\<close>

definition reported_photo :: "photo_node listed \<Rightarrow> string" where
  "reported_photo x = (case x of Listed photoNode \<Rightarrow> pn_uid photoNode | MissingNode uid \<Rightarrow> uid)"

definition lists_asked :: "('s, 'k, 'p) photo_services \<Rightarrow> bool" where
  "lists_asked svc \<longleftrightarrow>
     (\<forall>us s items e s'. distinct us \<longrightarrow> ps_iterateNodes svc us s = (items, e, s') \<longrightarrow>
        mset (map reported_photo items) \<subseteq># mset us
      \<and> (e = None \<longrightarrow> mset (map reported_photo items) = mset us))"

definition keeps_photos :: "(string \<Rightarrow> 's \<Rightarrow> bool) \<Rightarrow> ('s, 'k, 'p) photo_services \<Rightarrow> bool" where
  "keeps_photos inside svc \<longleftrightarrow>
     (\<forall>us s items e s' u. ps_iterateNodes svc us s = (items, e, s') \<longrightarrow> inside u s \<longrightarrow> inside u s')
   \<and> (\<forall>uid. keeps inside (ps_getNodePrivateAndSessionKeys svc uid) \<and> keeps inside (ps_getNodeKeys svc uid)
        \<and> keeps inside (ps_getNodeSigningKeys svc uid) \<and> keeps inside (ps_notifyNodeChanged svc uid)
        \<and> keeps inside (ps_notifyChildCreated svc uid))
   \<and> keeps inside (ps_getVolumeRootFolder svc)
   \<and> (\<forall>v n links. keeps inside (ps_addMultiple svc v n links))
   \<and> (\<forall>v n email links. keeps inside (ps_transferMultiple svc v n email links))
   \<and> (\<forall>v n r. keeps inside (ps_copyLink svc v n r))"

lemma keeps_photos_ops [keeps_intros]:
  assumes "keeps_photos inside svc"
  shows "keeps inside (ps_getNodePrivateAndSessionKeys svc uid)" "keeps inside (ps_getNodeKeys svc uid)"
    "keeps inside (ps_getNodeSigningKeys svc uid)" "keeps inside (ps_notifyNodeChanged svc uid)"
    "keeps inside (ps_notifyChildCreated svc uid)" "keeps inside (ps_getVolumeRootFolder svc)"
    "keeps inside (ps_addMultiple svc v n links)" "keeps inside (ps_transferMultiple svc v n email links)"
    "keeps inside (ps_copyLink svc v n r)"
  using assms by (simp_all add: keeps_photos_def)

text \<open>
  The server adds to the target \<open>(tv, tn)\<close> every photo of an accepted request it reports no error
  for, and the photo it accepts a copy of; \<open>inside\<close> is told of the original.
\<close>

definition no_failure :: "transfer_response list \<Rightarrow> string \<Rightarrow> bool" where
  "no_failure responses linkId \<longleftrightarrow> (\<forall>r \<in> set responses. tr_LinkID r = linkId \<longrightarrow> \<not> response_failed r)"

definition adds_photos :: "(string \<Rightarrow> 's \<Rightarrow> bool) \<Rightarrow> string \<Rightarrow> string \<Rightarrow> ('s, 'k, 'p) photo_services \<Rightarrow> bool" where
  "adds_photos inside tv tn svc \<longleftrightarrow>
     (\<forall>links s responses s' l. ps_addMultiple svc tv tn links s = (Inr responses, s') \<longrightarrow> l \<in> set links \<longrightarrow>
        no_failure responses (ld_LinkID l) \<longrightarrow> inside (makeNodeUid tv (ld_LinkID l)) s')
   \<and> (\<forall>email links s responses s' l. ps_transferMultiple svc tv tn email links s = (Inr responses, s') \<longrightarrow>
        l \<in> set links \<longrightarrow> no_failure responses (ld_LinkID l) \<longrightarrow> inside (makeNodeUid tv (ld_LinkID l)) s')
   \<and> (\<forall>v n r s linkId s'. ps_copyLink svc v n r s = (Inr linkId, s') \<longrightarrow> cr_TargetVolumeID r = tv \<longrightarrow>
        cr_TargetParentLinkID r = tn \<longrightarrow> inside (makeNodeUid v n) s')"

section \<open>Payloads\<close>

lemma await_Inr_cases:
  assumes "await m k s = (Inr v, s')"
  obtains u s1 where "m s = (Inr u, s1)" "k u s1 = (Inr v, s')"
  using await_cases [OF assms] by blast

lemma encryptPhotoForTarget_uid:
  "encryptPhotoForTarget svc photoNode key hashKey signingKeys s = (Inr p, s') \<Longrightarrow> pp_nodeUid p = pn_uid photoNode"
  by (auto simp: encryptPhotoForTarget_def Let_def run_act split: prod.splits sum.splits option.splits)

lemma preparePhotoPayload_uid:
  assumes "preparePhotoPayload svc photoNode additional key hashKey signingKeys s = (Inr payload, s')"
  shows "pp_nodeUid (tp_photo payload) = pn_uid photoNode"
proof -
  from assms [unfolded preparePhotoPayload_def] obtain p s1 where p:
    "encryptPhotoForTarget svc photoNode key hashKey signingKeys s = (Inr p, s1)" and rest:
    "(let relatedNodeUids = set_of
             ((case pn_relatedPhotoNodeUids photoNode of None \<Rightarrow> [] | Some uids \<Rightarrow> uids) @ additional)
       in await (if relatedNodeUids \<noteq> []
                 then prepareRelatedPhotoPayloads svc relatedNodeUids key hashKey signingKeys
                 else give [])
            (\<lambda>relatedPhotos. give \<lparr>tp_photo = p, tp_relatedPhotos = relatedPhotos\<rparr>)) s1 = (Inr payload, s')"
    by (rule await_Inr_cases)
  from rest have "tp_photo payload = p"
    unfolding Let_def by (elim await_Inr_cases) (auto simp: give_def)
  with encryptPhotoForTarget_uid [OF p] show ?thesis by simp
qed

definition payload_uid :: "transfer_payload \<Rightarrow> string" where
  "payload_uid p = pp_nodeUid (tp_photo p)"

lemma update_new: "x \<notin> set (map fst al) \<Longrightarrow> AList.update x e al = al @ [(x, e)]"
  by (induction al) auto

lemma prepare_listed_accounts:
  assumes "distinct (map fst errors @ map reported_photo nodes)"
    and "prepare_listed svc items target key hashKey signingKeys nodes payloads errors s = ((payloads', errors'), s')"
  shows "mset (map payload_uid payloads') + mset (map fst errors')
       = mset (map payload_uid payloads) + mset (map fst errors) + mset (map reported_photo nodes)"
  using assms
proof (induction svc items target key hashKey signingKeys nodes payloads errors s rule: prepare_listed.induct)
  case (2 svc items target key hashKey signingKeys uid nodes payloads errors s)
  then show ?case by (simp add: update_new reported_photo_def)
next
  case (3 svc items target key hashKey signingKeys photoNode nodes payloads errors s)
  have new: "AList.update (pn_uid photoNode) e errors = errors @ [(pn_uid photoNode, e)]" for e
    using 3(4) by (intro update_new) (auto simp: reported_photo_def)
  show ?case
  proof (cases "pn_parentUid photoNode = Some target")
    case True
    then show ?thesis using 3(1) [OF True] 3(4,5) by (simp add: new reported_photo_def)
  next
    case False
    obtain q s1 where q: "preparePhotoPayload svc photoNode (additional_related items (pn_uid photoNode)) key hashKey
        signingKeys s = (q, s1)" by fastforce
    show ?thesis
    proof (cases q)
      case (Inl error)
      then show ?thesis using 3(2) [OF False q [symmetric] Inl] 3(4,5) False q by (simp add: new reported_photo_def)
    next
      case (Inr payload)
      have "payload_uid payload = pn_uid photoNode"
        using preparePhotoPayload_uid q Inr by (auto simp: payload_uid_def)
      then show ?thesis using 3(3) [OF False q [symmetric] Inr] 3(4,5) False q Inr by (simp add: reported_photo_def)
    qed
  qed
qed simp

lemma keeps_encryptPhotoForTarget [keeps_intros]:
  "keeps_photos inside svc \<Longrightarrow> keeps inside (encryptPhotoForTarget svc photoNode key hashKey signingKeys)"
  unfolding encryptPhotoForTarget_def Let_def by (intro keeps_intros)

lemma keeps_encrypt_listed [keeps_intros]:
  "keeps_photos inside svc \<Longrightarrow> keeps inside (encrypt_listed svc key hashKey signingKeys nodes)"
  by (induction svc key hashKey signingKeys nodes rule: encrypt_listed.induct)
    (simp_all, (intro keeps_intros; assumption)+)

lemma keeps_preparePhotoPayload:
  assumes "keeps_photos inside svc"
  shows "keeps inside (preparePhotoPayload svc photoNode additional key hashKey signingKeys)"
proof -
  have "keeps inside (prepareRelatedPhotoPayloads svc uids key hashKey signingKeys)" for uids
    unfolding keeps_def
  proof (intro allI impI)
    fix s r s' u
    assume run: "prepareRelatedPhotoPayloads svc uids key hashKey signingKeys s = (r, s')" and u: "inside u s"
    obtain nodes e s1 where l: "ps_iterateNodes svc uids s = (nodes, e, s1)" by (metis prod_cases3)
    have k: "keeps inside (await (encrypt_listed svc key hashKey signingKeys nodes)
        (\<lambda>payloads. case e of None \<Rightarrow> give payloads | Some error \<Rightarrow> throw_act error))"
      by (intro keeps_intros assms)
    have "inside u s1" using l u assms by (simp add: keeps_photos_def)
    then show "inside u s'" using keepsD [OF k] run l by (simp add: prepareRelatedPhotoPayloads_def)
  qed
  then show ?thesis unfolding preparePhotoPayload_def Let_def by (intro keeps_intros assms)
qed

lemma keeps_prepare_listed:
  assumes "keeps_photos inside svc" "inside u s"
    and "prepare_listed svc items target key hashKey signingKeys nodes payloads errors s = (q, s')"
  shows "inside u s'"
  using assms
proof (induction svc items target key hashKey signingKeys nodes payloads errors s rule: prepare_listed.induct)
  case (3 svc items target key hashKey signingKeys photoNode nodes payloads errors s)
  obtain r s1 where r: "preparePhotoPayload svc photoNode (additional_related items (pn_uid photoNode)) key hashKey
        signingKeys s = (r, s1)" by fastforce
  have "inside u s1" using keepsD [OF keeps_preparePhotoPayload [OF 3(4)] r 3(5)] .
  then show ?case using 3 r by (auto split: if_splits sum.splits)
qed auto

lemma preparePhotoPayloads_accounts:
  assumes "preparePhotoPayloads svc items target keys signingKeys s = (r, s')"
    and "lists_asked svc" "keeps_photos inside svc" "distinct (map pi_photoNodeUid items)"
  shows "inside u s \<Longrightarrow> inside u s'"
    and "r = Inr (payloads, errors) \<Longrightarrow>
      mset (map payload_uid payloads) + mset (map fst errors) = mset (map pi_photoNodeUid items)"
proof -
  obtain nodes e s1 where l: "ps_iterateNodes svc (map pi_photoNodeUid items) s = (nodes, e, s1)" by (metis prod_cases3)
  note asked = assms(2) [unfolded lists_asked_def, rule_format, OF assms(4) l]
  have keep1: "inside u s \<Longrightarrow> inside u s1" for u using l assms(3) by (simp add: keeps_photos_def)
  show "inside u s'" if "inside u s"
  proof (cases "tk_hashKey keys")
    case None
    then show ?thesis using assms(1) that by (simp add: preparePhotoPayloads_def)
  next
    case (Some hashKey)
    obtain q s2 where q: "prepare_listed svc items target (tk_key keys) hashKey signingKeys nodes [] [] s1 = (q, s2)"
      by fastforce
    show ?thesis
      using keeps_prepare_listed [OF assms(3) keep1 [OF that] q] assms(1) Some l q
      by (simp add: preparePhotoPayloads_def)
  qed
  assume r: "r = Inr (payloads, errors)"
  then obtain hashKey where h: "tk_hashKey keys = Some hashKey"
    using assms(1) by (auto simp: preparePhotoPayloads_def split: option.splits)
  have "e = None" and
    p: "prepare_listed svc items target (tk_key keys) hashKey signingKeys nodes [] [] s1 = ((payloads, errors), s')"
    using assms(1) r h l by (auto simp: preparePhotoPayloads_def split: option.splits prod.splits)
  then have all: "mset (map reported_photo nodes) = mset (map pi_photoNodeUid items)" using asked by blast
  have "distinct (map reported_photo nodes)" using mset_eq_imp_distinct_iff [OF all] assms(4) by blast
  then have "distinct (map fst ([] :: photo_errors) @ map reported_photo nodes)" by simp
  from prepare_listed_accounts [OF this p] all
  show "mset (map payload_uid payloads) + mset (map fst errors) = mset (map pi_photoNodeUid items)" by simp
qed

section \<open>Requests\<close>

lemma keeps_addPhotosToAlbum [keeps_intros]:
  "keeps_photos inside svc \<Longrightarrow> keeps inside (addPhotosToAlbum svc albumNodeUid payloads)"
  unfolding addPhotosToAlbum_def by (intro keeps_intros)

lemma keeps_transferPhotos [keeps_intros]:
  "keeps_photos inside svc \<Longrightarrow> keeps inside (transferPhotos svc newParentNodeUid payloads)"
  unfolding transferPhotos_def Let_def by (intro keeps_intros)

lemma keeps_copyPhoto [keeps_intros]:
  "keeps_photos inside svc \<Longrightarrow> keeps inside (copyPhoto svc targetNodeUid payload)"
  unfolding copyPhoto_def Let_def by (intro keeps_intros)

lemma makeNodeUid_inject: "makeNodeUid v a = makeNodeUid v b \<longleftrightarrow> a = b"
  by (simp add: makeNodeUid_def makeUid_def)

lemma response_errors_Some:
  "response_errors v rs errors uid = None \<longleftrightarrow>
     errors uid = None \<and> (\<forall>r \<in> set rs. response_failed r \<longrightarrow> makeNodeUid v (tr_LinkID r) \<noteq> uid)"
  by (induction v rs errors rule: response_errors.induct) auto

lemma outcomes_uids: "map no_uid (outcomes v responses payloads) = map payload_uid payloads"
  by (induction payloads) (auto simp: outcomes_def Let_def payload_uid_def split: option.splits)

text \<open>The photos of one volume are found under the link IDs the server answers for.\<close>

definition in_volume :: "string \<Rightarrow> string \<Rightarrow> bool" where
  "in_volume v uid \<longleftrightarrow> (\<exists>n. splitNodeUid uid = Inr (v, n))"

lemma outcomes_done:
  assumes "NodeDone u \<in> set (outcomes v responses payloads)" and "in_volume v u"
    and "\<And>p n. p \<in> set payloads \<Longrightarrow> splitNodeUid (payload_uid p) = Inr (v, n) \<Longrightarrow> \<exists>l \<in> set links. ld_LinkID l = n"
  shows "\<exists>l \<in> set links. makeNodeUid v (ld_LinkID l) = u \<and> no_failure responses (ld_LinkID l)"
proof -
  obtain p where p: "p \<in> set payloads" "payload_uid p = u" "response_errors v responses Map.empty u = None"
    using assms(1) by (auto simp: outcomes_def Let_def payload_uid_def split: option.splits)
  obtain n where n: "splitNodeUid u = Inr (v, n)" using assms(2) by (auto simp: in_volume_def)
  then have u: "u = makeNodeUid v n" by (simp add: splitNodeUid_Inr_iff)
  obtain l where "l \<in> set links" "ld_LinkID l = n" using assms(3) [OF p(1), of n] p(2) n by auto
  moreover have "no_failure responses n"
    using p(3) by (auto simp: no_failure_def response_errors_Some u)
  ultimately show ?thesis using u by auto
qed

lemma linked:
  assumes "try_map f (all_photos payloads) = Inr links" "\<And>q l. f q = Inr l \<Longrightarrow> node_id (pp_nodeUid q) = Inr (ld_LinkID l)"
    and "p \<in> set payloads" "splitNodeUid (payload_uid p) = Inr (v, m)"
  shows "\<exists>l \<in> set links. ld_LinkID l = m"
proof -
  have "tp_photo p \<in> set (all_photos payloads)" using assms(3) by (auto simp: all_photos_def)
  from try_map_Inr [OF assms(1) this] obtain l where "f (tp_photo p) = Inr l" "l \<in> set links" by blast
  moreover from assms(2) [OF this(1)] have "ld_LinkID l = m" using assms(4) by (simp add: node_id_def payload_uid_def)
  ultimately show ?thesis by blast
qed

lemma addPhotosToAlbum_accounts:
  assumes "addPhotosToAlbum svc album payloads s = (Inr results, s')"
    and "splitNodeUid album = Inr (v, n)" "adds_photos inside v n svc" "\<forall>p \<in> set payloads. in_volume v (payload_uid p)"
  shows "map no_uid results = map payload_uid payloads" and "NodeDone u \<in> set results \<Longrightarrow> inside u s'"
proof -
  obtain links responses where links: "try_map album_link (all_photos payloads) = Inr links"
    and sent: "ps_addMultiple svc v n links s = (Inr responses, s')" and results: "results = outcomes v responses payloads"
    using assms(1,2) by (auto simp: addPhotosToAlbum_def run_act split: sum.splits prod.splits)
  show uids: "map no_uid results = map payload_uid payloads" by (simp add: results outcomes_uids)
  assume u: "NodeDone u \<in> set results"
  then have "u \<in> payload_uid ` set payloads" using uids by (metis image_eqI image_set node_outcome.sel(1))
  then have "in_volume v u" using assms(4) by auto
  moreover have "\<exists>l \<in> set links. ld_LinkID l = m"
    if "p \<in> set payloads" "splitNodeUid (payload_uid p) = Inr (v, m)" for p m
    by (rule linked [OF links _ that]) (auto simp: album_link_def try_bind_Inr_iff)
  ultimately obtain l where "l \<in> set links" "makeNodeUid v (ld_LinkID l) = u" "no_failure responses (ld_LinkID l)"
    using outcomes_done [of u v responses payloads links] u results by blast
  then show "inside u s'" using assms(3) sent unfolding adds_photos_def by blast
qed

lemma transferPhotos_accounts:
  assumes "transferPhotos svc parent payloads s = (Inr results, s')"
    and "splitNodeUid parent = Inr (v, n)" "adds_photos inside v n svc" "\<forall>p \<in> set payloads. in_volume v (payload_uid p)"
  shows "map no_uid results = map payload_uid payloads" and "NodeDone u \<in> set results \<Longrightarrow> inside u s'"
proof -
  have cases: "payloads = [] \<and> results = [] \<or>
    (\<exists>email links responses. try_map transfer_link (all_photos payloads) = Inr links
       \<and> ps_transferMultiple svc v n email links s = (Inr responses, s') \<and> results = outcomes v responses payloads)"
    using assms(1,2)
    by (cases payloads) (auto simp: transferPhotos_def Let_def run_act split: sum.splits prod.splits if_splits)
  then show uids: "map no_uid results = map payload_uid payloads" by (auto simp: outcomes_uids)
  assume u: "NodeDone u \<in> set results"
  with cases obtain email links responses where links: "try_map transfer_link (all_photos payloads) = Inr links"
    and sent: "ps_transferMultiple svc v n email links s = (Inr responses, s')"
    and results: "results = outcomes v responses payloads" by auto
  have "u \<in> payload_uid ` set payloads" using uids u by (metis image_eqI image_set node_outcome.sel(1))
  then have "in_volume v u" using assms(4) by auto
  moreover have "\<exists>l \<in> set links. ld_LinkID l = m"
    if "p \<in> set payloads" "splitNodeUid (payload_uid p) = Inr (v, m)" for p m
    by (rule linked [OF links _ that]) (auto simp: transfer_link_def try_bind_Inr_iff)
  ultimately obtain l where "l \<in> set links" "makeNodeUid v (ld_LinkID l) = u" "no_failure responses (ld_LinkID l)"
    using outcomes_done [of u v responses payloads links] u results by blast
  then show "inside u s'" using assms(3) sent unfolding adds_photos_def by blast
qed

lemma copyPhoto_inside:
  assumes "copyPhoto svc target payload s = (Inr linkUid, s')"
    and "splitNodeUid target = Inr (v, n)" "adds_photos inside v n svc"
  shows "inside (payload_uid payload) s'"
proof -
  obtain sv sn where src: "splitNodeUid (payload_uid payload) = Inr (sv, sn)"
    using assms(1) by (auto simp: copyPhoto_def Let_def payload_uid_def run_act split: sum.splits prod.splits)
  obtain r linkId where "ps_copyLink svc sv sn r s = (Inr linkId, s')" "cr_TargetVolumeID r = v" "cr_TargetParentLinkID r = n"
    using assms(1,2) src
    by (auto simp: copyPhoto_def Let_def payload_uid_def run_act split: sum.splits prod.splits if_splits option.splits)
  then have "inside (makeNodeUid sv sn) s'" using assms(3) unfolding adds_photos_def by blast
  moreover have "payload_uid payload = makeNodeUid sv sn" using src by (simp add: splitNodeUid_Inr_iff)
  ultimately show ?thesis by simp
qed

lemma outside_cases:
  assumes "outside m ts = (r, ts')"
  obtains s where "m (ts_outside ts) = (r, s)" "ts' = ts\<lparr>ts_outside := s\<rparr>"
  using assms by (auto simp: outside_def split: prod.splits)

lemma load_of_outside [simp]: "load_of U (ts\<lparr>ts_outside := s\<rparr>) = load_of U ts"
  by (simp add: load_of_def)

lemma retry_load:
  assumes "createRetryQueueItem uid e ts = Some ts'" "finite U" "uid \<in> U"
  shows "load_of U ts' \<le> load_of U ts" "\<exists>x. ts_queue ts' = ts_queue ts @ [x] \<and> pi_photoNodeUid x = uid"
    "ts_outside ts' = ts_outside ts"
proof -
  have ts': "uid \<notin> set (ts_retried ts)" "ts' = ts\<lparr>ts_retried := ts_retried ts @ [uid],
                    ts_queue := ts_queue ts @ [\<lparr>pi_photoNodeUid = uid, pi_additionalRelatedPhotoNodeUids = missing_uids e\<rparr>]\<rparr>"
    using assms(1) by (auto simp: createRetryQueueItem_def split: if_splits)
  have "U - set (ts_retried ts') = (U - set (ts_retried ts)) - {uid}" using ts' by auto
  moreover have "card ((U - set (ts_retried ts)) - {uid}) + 1 = card (U - set (ts_retried ts))"
    using ts'(1) assms(2,3) by (subst card.remove [of _ uid]) auto
  ultimately show "load_of U ts' \<le> load_of U ts" using ts'(2) by (simp add: load_of_def)
  show "\<exists>x. ts_queue ts' = ts_queue ts @ [x] \<and> pi_photoNodeUid x = uid" "ts_outside ts' = ts_outside ts"
    using ts'(2) by auto
qed

lemma handles_retry:
  assumes "createRetryQueueItem uid e ts = Some ts'" "finite U" "uid \<in> U"
  shows "load_of U ts' \<le> load_of U ts \<and> (\<exists>items. ts_queue ts' = ts_queue ts @ items
           \<and> mset (map pi_photoNodeUid items) = {#uid#})"
proof -
  obtain x where "ts_queue ts' = ts_queue ts @ [x]" "pi_photoNodeUid x = uid" using retry_load(2) [OF assms] by blast
  then have "\<exists>items. ts_queue ts' = ts_queue ts @ items \<and> mset (map pi_photoNodeUid items) = {#uid#}"
    by (intro exI [of _ "[x]"]) simp
  with retry_load(1) [OF assms] show ?thesis by (rule conjI)
qed

lemma handles_report_result:
  assumes "finite U" "no_uid result \<in> U" "keeps_photos inside svc" "is_done result \<Longrightarrow> no_uid result \<in> D"
  shows "handles U inside D {#no_uid result#} (report_result svc yield_one result)"
proof (rule handlesI)
  fix ts ys e ts'
  assume run: "report_result svc yield_one result ts = (ys, e, ts')" and D: "\<forall>u \<in> D. inside u (ts_outside ts)"
  show "(\<forall>u. inside u (ts_outside ts) \<longrightarrow> inside u (ts_outside ts'))
    \<and> (\<forall>u. NodeDone u \<in> set ys \<longrightarrow> inside u (ts_outside ts'))
    \<and> mset (map no_uid ys) \<subseteq># {#no_uid result#} \<and> load_of U ts' \<le> load_of U ts
    \<and> (e = None \<longrightarrow> (\<exists>items. ts_queue ts' = ts_queue ts @ items
          \<and> mset (map no_uid ys) + mset (map pi_photoNodeUid items) = {#no_uid result#}))"
  proof (cases "handleMissingRelatedPhotosError result ts")
    case (Some ts1)
    then obtain err where retry: "createRetryQueueItem (no_uid result) err ts = Some ts1"
      by (auto simp: handleMissingRelatedPhotosError_def split: node_outcome.splits if_splits)
    have "ys = []" "ts' = ts1" using run Some by (simp_all add: report_result_def)
    then show ?thesis using handles_retry [OF retry assms(1,2)] retry_load(3) [OF retry assms(1,2)] by simp
  next
    case None
    show ?thesis
    proof (cases result)
      case (NodeFailed uid err)
      then show ?thesis using run None by (auto simp: report_result_def run_gen)
    next
      case (NodeDone uid)
      obtain r s1 where n: "ps_notifyNodeChanged svc uid (ts_outside ts) = (r, s1)" by fastforce
      have keep: "inside u (ts_outside ts) \<Longrightarrow> inside u s1" for u
        using keepsD [OF keeps_photos_ops(4) [OF assms(3)] n] .
      have "uid \<in> D" using assms(4) NodeDone by simp
      then have "inside uid s1" using keep D by blast
      then show ?thesis
        using run None NodeDone n keep by (cases r) (auto simp: report_result_def run_gen outside_def)
    qed
  qed
qed

lemma handles_transfer_batch:
  assumes "finite U" "keeps_photos inside svc" "keeps inside (request payloads)" "payload_uid ` set payloads \<subseteq> U"
    and accounts: "\<And>s results s'. request payloads s = (Inr results, s') \<Longrightarrow>
      map no_uid results = map payload_uid payloads \<and> (\<forall>u. NodeDone u \<in> set results \<longrightarrow> inside u s')"
  shows "handles U inside {} (mset (map payload_uid payloads)) (transfer_batch svc yield_one request payloads)"
proof (rule handlesI)
  fix ts ys e ts'
  assume run: "transfer_batch svc yield_one request payloads ts = (ys, e, ts')"
  show "(\<forall>u. inside u (ts_outside ts) \<longrightarrow> inside u (ts_outside ts'))
    \<and> (\<forall>u. NodeDone u \<in> set ys \<longrightarrow> inside u (ts_outside ts'))
    \<and> mset (map no_uid ys) \<subseteq># mset (map payload_uid payloads) \<and> load_of U ts' \<le> load_of U ts
    \<and> (e = None \<longrightarrow> (\<exists>items. ts_queue ts' = ts_queue ts @ items
          \<and> mset (map no_uid ys) + mset (map pi_photoNodeUid items) = mset (map payload_uid payloads)))"
    using run [unfolded transfer_batch_def]
  proof (cases rule: gen_await_cases)
    case (1 t)
    from 1(1) obtain s where "request payloads (ts_outside ts) = (Inl t, s)" "ts' = ts\<lparr>ts_outside := s\<rparr>"
      by (rule outside_cases)
    then show ?thesis using keepsD [OF assms(3)] 1(2,3) by auto
  next
    case (2 results ts1)
    from 2(1) obtain s where s: "request payloads (ts_outside ts) = (Inr results, s)" and ts1: "ts1 = ts\<lparr>ts_outside := s\<rparr>"
      by (rule outside_cases)
    let ?D = "{u. NodeDone u \<in> set results}"
    have uids: "map no_uid results = map payload_uid payloads" and D: "\<forall>u \<in> ?D. inside u (ts_outside ts1)"
      using accounts [OF s] ts1 by auto
    have "no_uid r \<in> U" if "r \<in> set results" for r
      using assms(4) uids that by (metis image_eqI image_set subsetD)
    then have h: "handles U inside ?D (\<Sum>r \<leftarrow> results. {#no_uid r#}) (gen_each (report_result svc yield_one) results)"
      by (intro handles_each handles_report_result assms(1,2)) (auto simp: is_done_def)
    have W: "(\<Sum>r \<leftarrow> results. {#no_uid r#}) = mset (map payload_uid payloads)"
      by (simp only: sum_list_singletons uids)
    have keep: "inside u (ts_outside ts) \<Longrightarrow> inside u (ts_outside ts1)" for u
      using keepsD [OF assms(3) s] ts1 by simp
    have same: "ts_queue ts1 = ts_queue ts" "load_of U ts1 = load_of U ts" using ts1 by simp_all
    show ?thesis
      using handlesD(1) [OF h 2(2) D] handlesD(2-5) [OF h 2(2) D] keep unfolding W same by blast
  qed
qed

lemma handles_copy_photo:
  assumes "finite U" "payload_uid payload \<in> U" "keeps inside (request payload)"
    and accounts: "\<And>s r s'. request payload s = (Inr r, s') \<Longrightarrow> inside (payload_uid payload) s'"
  shows "handles U inside {} {#payload_uid payload#} (copy_photo yield_one request payload)"
proof (rule handlesI)
  fix ts ys e ts'
  assume run: "copy_photo yield_one request payload ts = (ys, e, ts')"
  let ?uid = "payload_uid payload"
  obtain r s where r: "request payload (ts_outside ts) = (r, s)" by fastforce
  have keep: "inside u (ts_outside ts) \<Longrightarrow> inside u s" for u using keepsD [OF assms(3) r] .
  show "(\<forall>u. inside u (ts_outside ts) \<longrightarrow> inside u (ts_outside ts'))
    \<and> (\<forall>u. NodeDone u \<in> set ys \<longrightarrow> inside u (ts_outside ts'))
    \<and> mset (map no_uid ys) \<subseteq># {#?uid#} \<and> load_of U ts' \<le> load_of U ts
    \<and> (e = None \<longrightarrow> (\<exists>items. ts_queue ts' = ts_queue ts @ items
          \<and> mset (map no_uid ys) + mset (map pi_photoNodeUid items) = {#?uid#}))"
  proof (cases r)
    case (Inr v)
    then show ?thesis
      using run r keep accounts [of "ts_outside ts" v s]
      by (auto simp: copy_photo_def outside_def payload_uid_def run_gen)
  next
    case (Inl error)
    let ?retry = "if instanceof error MissingRelatedPhotosError
        then createRetryQueueItem ?uid (error_or_unknown error) (ts\<lparr>ts_outside := s\<rparr>) else None"
    have eq: "copy_photo yield_one request payload ts =
        (case ?retry of Some ts'' \<Rightarrow> ([], None, ts'')
         | None \<Rightarrow> ([NodeFailed ?uid (error_or_unknown error)], None, ts\<lparr>ts_outside := s\<rparr>))"
      by (simp add: copy_photo_def outside_def payload_uid_def run_gen r Inl Let_def split: option.split)
    show ?thesis
    proof (cases ?retry)
      case None
      then have "ys = [NodeFailed ?uid (error_or_unknown error)]" "e = None" "ts' = ts\<lparr>ts_outside := s\<rparr>"
        using eq run by simp_all
      then show ?thesis using keep by simp
    next
      case (Some ts1)
      then have retry: "createRetryQueueItem ?uid (error_or_unknown error) (ts\<lparr>ts_outside := s\<rparr>) = Some ts1"
        by (simp split: if_splits)
      have "ys = []" "ts' = ts1" using eq run Some by simp_all
      then show ?thesis
        using handles_retry [OF retry assms(1,2)] retry_load(3) [OF retry assms(1,2)] keep by auto
    qed
  qed
qed

lemma handles_album_batches:
  assumes "finite U" "keeps_photos inside svc" "splitNodeUid album = Inr (v, n)" "adds_photos inside v n svc"
    and "\<forall>u \<in> U. in_volume v u" "payload_uid ` set payloads \<subseteq> U"
  shows "handles U inside {} (mset (map payload_uid payloads))
    (gen_each (transfer_batch svc yield_one (addPhotosToAlbum svc album)) (createBatches payloads))"
proof -
  have all: "concat (createBatches payloads) = payloads" by (simp add: createBatches_def batches_of_concat)
  have one: "handles U inside {} (mset (map payload_uid ps)) (transfer_batch svc yield_one (addPhotosToAlbum svc album) ps)"
    if "ps \<in> set (createBatches payloads)" for ps
  proof (rule handles_transfer_batch [OF assms(1,2)])
    have ps: "set ps \<subseteq> set payloads" using that all by (metis Union_upper image_eqI set_concat)
    then show "payload_uid ` set ps \<subseteq> U" using assms(6) by blast
    then have "\<forall>p \<in> set ps. in_volume v (payload_uid p)" using assms(5) by blast
    then show "map no_uid results = map payload_uid ps \<and> (\<forall>u. NodeDone u \<in> set results \<longrightarrow> inside u s')"
      if "addPhotosToAlbum svc album ps s = (Inr results, s')" for s results s'
      using addPhotosToAlbum_accounts [OF that assms(3,4)] by blast
  qed (intro keeps_intros assms)
  have "(\<Sum>ps \<leftarrow> createBatches payloads. mset (map payload_uid ps)) = mset (map payload_uid payloads)"
    using sum_list_mset_map [of payload_uid "\<lambda>ps. ps" "createBatches payloads"] all by simp
  with handles_each [of "createBatches payloads" U inside "{}" "\<lambda>ps. mset (map payload_uid ps)", OF one]
  show ?thesis by simp
qed

lemma handles_copies:
  assumes "finite U" "payload_uid ` set payloads \<subseteq> U" "\<And>p. keeps inside (request p)"
    and "\<And>p s r s'. request p s = (Inr r, s') \<Longrightarrow> inside (payload_uid p) s'"
  shows "handles U inside {} (mset (map payload_uid payloads)) (gen_each (copy_photo yield_one request) payloads)"
proof -
  have "handles U inside {} {#payload_uid p#} (copy_photo yield_one request p)" if "p \<in> set payloads" for p
    by (rule handles_copy_photo) (use assms that in auto)
  from handles_each [OF this, of payloads] show ?thesis by (simp only: sum_list_singletons)
qed

lemma handles_album_copies:
  assumes "finite U" "keeps_photos inside svc" "splitNodeUid album = Inr (v, n)" "adds_photos inside v n svc"
    and "payload_uid ` set payloads \<subseteq> U"
  shows "handles U inside {} (mset (map payload_uid payloads)) (gen_each (copy_photo yield_one (copy_to_album svc album)) payloads)"
proof (rule handles_copies [OF assms(1,5)])
  show "keeps inside (copy_to_album svc album p)" for p
    unfolding copy_to_album_def by (intro keeps_intros assms)
  show "inside (payload_uid p) s'" if "copy_to_album svc album p s = (Inr r, s')" for p s r s'
    using that [unfolded copy_to_album_def]
  proof (rule await_Inr_cases)
    fix uid s1
    assume "copyPhoto svc album p s = (Inr uid, s1)" "ps_notifyChildCreated svc uid s1 = (Inr r, s')"
    then show ?thesis using copyPhoto_inside [OF _ assms(3,4)] keepsD [OF keeps_photos_ops(5) [OF assms(2)]] by blast
  qed
qed

section \<open>Rounds\<close>

definition accounts ::
  "string set \<Rightarrow> (string \<Rightarrow> 's \<Rightarrow> bool) \<Rightarrow> ('s transfer_state, node_outcome) gen \<Rightarrow> bool"
where
  "accounts U inside r \<longleftrightarrow>
     (\<forall>ts ys e ts'. r ts = (ys, e, ts') \<longrightarrow> distinct (map pi_photoNodeUid (ts_queue ts)) \<longrightarrow>
        pi_photoNodeUid ` set (ts_queue ts) \<subseteq> U \<longrightarrow>
          (\<forall>u. inside u (ts_outside ts) \<longrightarrow> inside u (ts_outside ts'))
        \<and> (\<forall>u. NodeDone u \<in> set ys \<longrightarrow> inside u (ts_outside ts'))
        \<and> mset (map no_uid ys) \<subseteq># mset (map pi_photoNodeUid (ts_queue ts))
        \<and> (e = None \<longrightarrow> mset (map no_uid ys) + mset (map pi_photoNodeUid (ts_queue ts'))
              = mset (map pi_photoNodeUid (ts_queue ts))
            \<and> (ts_queue ts \<noteq> [] \<longrightarrow> load_of U ts' < load_of U ts)))"

lemma handles_failures:
  "handles U inside D (mset (map fst errors)) (gen_each yield_one (map (\<lambda>(uid, error). NodeFailed uid error) errors))"
proof -
  have "handles U inside D {#uid#} (yield_one (NodeFailed uid error))" for uid error
    by (auto simp: handles_def run_gen)
  then have "handles U inside D (\<Sum>r \<leftarrow> map (\<lambda>(uid, error). NodeFailed uid error) errors. {#no_uid r#})
      (gen_each yield_one (map (\<lambda>(uid, error). NodeFailed uid error) errors))"
    by (intro handles_each) auto
  moreover have "map no_uid (map (\<lambda>(uid, error). NodeFailed uid error) errors) = map fst errors"
    by (induction errors) auto
  ultimately show ?thesis by (simp only: sum_list_singletons)
qed

lemma round_accounts:
  assumes "lists_asked svc" "keeps_photos inside svc"
    and transfer: "\<And>payloads. payload_uid ` set payloads \<subseteq> U \<Longrightarrow>
      handles U inside {} (mset (map payload_uid payloads)) (transfer payloads)"
  shows "accounts U inside (queue_round svc yield_one target keys signingKeys transfer)"
  unfolding accounts_def
proof (intro allI impI)
  fix ts ys e ts'
  assume run: "queue_round svc yield_one target keys signingKeys transfer ts = (ys, e, ts')"
    and dist: "distinct (map pi_photoNodeUid (ts_queue ts))" and U: "pi_photoNodeUid ` set (ts_queue ts) \<subseteq> U"
  let ?n = TRANSFER_BATCH_LOADING_SIZE
  let ?items = "take ?n (ts_queue ts)" and ?rest = "drop ?n (ts_queue ts)"
  let ?ts0 = "ts\<lparr>ts_queue := ?rest\<rparr>"
  have split: "mset (map pi_photoNodeUid ?items) + mset (map pi_photoNodeUid ?rest) = mset (map pi_photoNodeUid (ts_queue ts))"
    by (metis append_take_drop_id map_append mset_append)
  have dist_items: "distinct (map pi_photoNodeUid ?items)" using dist by (simp add: take_map [symmetric])
  have load0: "load_of U ?ts0 + length ?items = load_of U ts" by (simp add: load_of_def)
  show "(\<forall>u. inside u (ts_outside ts) \<longrightarrow> inside u (ts_outside ts'))
        \<and> (\<forall>u. NodeDone u \<in> set ys \<longrightarrow> inside u (ts_outside ts'))
        \<and> mset (map no_uid ys) \<subseteq># mset (map pi_photoNodeUid (ts_queue ts))
        \<and> (e = None \<longrightarrow> mset (map no_uid ys) + mset (map pi_photoNodeUid (ts_queue ts'))
              = mset (map pi_photoNodeUid (ts_queue ts))
            \<and> (ts_queue ts \<noteq> [] \<longrightarrow> load_of U ts' < load_of U ts))"
    using run [unfolded queue_round_def]
  proof (cases rule: gen_await_cases)
    case (1 t)
    from 1(1) obtain s where "preparePhotoPayloads svc ?items target keys signingKeys (ts_outside ts) = (Inl t, s)"
      "ts' = ?ts0\<lparr>ts_outside := s\<rparr>" by (rule outside_cases) simp
    then show ?thesis using preparePhotoPayloads_accounts(1) [OF _ assms(1,2) dist_items] 1(2,3) by auto
  next
    case (2 prepared ts1)
    obtain payloads errors where prepared: "prepared = (payloads, errors)" by fastforce
    from 2(1) obtain s where s: "preparePhotoPayloads svc ?items target keys signingKeys (ts_outside ts) = (Inr prepared, s)"
      and ts1: "ts1 = ?ts0\<lparr>ts_outside := s\<rparr>" by (rule outside_cases) simp
    have W: "mset (map payload_uid payloads) + mset (map fst errors) = mset (map pi_photoNodeUid ?items)"
      using preparePhotoPayloads_accounts(2) [OF s assms(1,2) dist_items] prepared by simp
    have "set_mset (mset (map payload_uid payloads)) \<subseteq> set_mset (mset (map pi_photoNodeUid ?items))"
      using W by (metis mset_subset_eq_add_left set_mset_mono)
    then have "payload_uid ` set payloads \<subseteq> U" using U by (auto dest!: in_set_takeD)
    from handles_followed_by [OF handles_failures transfer [OF this]] have h:
      "handles U inside {} (mset (map pi_photoNodeUid ?items))
         (followed_by (gen_each yield_one (map (\<lambda>(uid, error). NodeFailed uid error) errors)) (transfer payloads))"
      using W by (metis add.commute)
    have run1: "followed_by (gen_each yield_one (map (\<lambda>(uid, error). NodeFailed uid error) errors)) (transfer payloads) ts1
      = (ys, e, ts')" using 2(2) prepared by simp
    note facts = handlesD [OF h run1, simplified]
    have keep: "inside u (ts_outside ts) \<Longrightarrow> inside u (ts_outside ts1)" for u
      using preparePhotoPayloads_accounts(1) [OF s assms(1,2) dist_items] ts1 by simp
    have sub: "mset (map no_uid ys) \<subseteq># mset (map pi_photoNodeUid (ts_queue ts))"
      using facts(3) split by (metis mset_map mset_subset_eq_add_left subset_mset.order_trans)
    have "mset (map no_uid ys) + mset (map pi_photoNodeUid (ts_queue ts')) = mset (map pi_photoNodeUid (ts_queue ts))"
      if normal: "e = None"
    proof -
      obtain more where q: "ts_queue ts' = ?rest @ more"
        and W': "mset (map no_uid ys) + mset (map pi_photoNodeUid more) = mset (map pi_photoNodeUid ?items)"
        using facts(5) normal ts1 by auto
      have "mset (map no_uid ys) + mset (map pi_photoNodeUid (ts_queue ts'))
          = (mset (map no_uid ys) + mset (map pi_photoNodeUid more)) + mset (map pi_photoNodeUid ?rest)"
        using q by (simp add: ac_simps)
      then show ?thesis unfolding W' split .
    qed
    moreover have "load_of U ts' < load_of U ts" if "ts_queue ts \<noteq> []"
    proof -
      have "0 < length ?items" using that by (cases "ts_queue ts") (simp_all add: TRANSFER_BATCH_LOADING_SIZE_def)
      moreover have "load_of U ts' \<le> load_of U ?ts0" using facts(4) ts1 by simp
      ultimately show ?thesis using load0 by linarith
    qed
    ultimately show ?thesis using facts(1,2) keep sub by blast
  qed
qed

lemma queue_loop_reports:
  assumes "accounts U inside r" "load_of U ts \<le> fuel"
    and "distinct (map pi_photoNodeUid (ts_queue ts))" "pi_photoNodeUid ` set (ts_queue ts) \<subseteq> U"
  shows "\<exists>ys e ts'. queue_loop r fuel ts = Some (ys, e, ts')
    \<and> (\<forall>u. inside u (ts_outside ts) \<longrightarrow> inside u (ts_outside ts'))
    \<and> (\<forall>u. NodeDone u \<in> set ys \<longrightarrow> inside u (ts_outside ts'))
    \<and> mset (map no_uid ys) \<subseteq># mset (map pi_photoNodeUid (ts_queue ts))
    \<and> (e = None \<longrightarrow> mset (map no_uid ys) = mset (map pi_photoNodeUid (ts_queue ts)))"
  using assms(2-)
proof (induction fuel arbitrary: ts)
  case 0
  then have "ts_queue ts = []" by (simp add: load_of_def)
  then show ?case by simp
next
  case (Suc fuel)
  show ?case
  proof (cases "ts_queue ts = []")
    case True
    then show ?thesis by simp
  next
    case False
    obtain ys e ts1 where run: "r ts = (ys, e, ts1)" by (metis prod_cases3)
    note facts = assms(1) [unfolded accounts_def, rule_format, OF run Suc.prems(2,3)]
    show ?thesis
    proof (cases e)
      case (Some t)
      then have "queue_loop r (Suc fuel) ts = Some (ys, Some t, ts1)" using run False by simp
      then show ?thesis using facts by blast
    next
      case None
      then have all: "mset (map no_uid ys) + mset (map pi_photoNodeUid (ts_queue ts1)) = mset (map pi_photoNodeUid (ts_queue ts))"
        and less: "load_of U ts1 < load_of U ts" using facts False by blast+
      have "set_mset (mset (map pi_photoNodeUid (ts_queue ts1))) \<subseteq> set_mset (mset (map pi_photoNodeUid (ts_queue ts)))"
        using all by (metis mset_subset_eq_add_right set_mset_mono)
      then have U1: "pi_photoNodeUid ` set (ts_queue ts1) \<subseteq> U" using Suc.prems(3) by simp
      have dist1: "distinct (map pi_photoNodeUid (ts_queue ts1))"
        using mset_eq_imp_distinct_iff [of "map no_uid ys @ map pi_photoNodeUid (ts_queue ts1)"
            "map pi_photoNodeUid (ts_queue ts)"] all Suc.prems(2) by simp
      obtain zs e2 ts2 where rest: "queue_loop r fuel ts1 = Some (zs, e2, ts2)"
        and keep: "\<forall>u. inside u (ts_outside ts1) \<longrightarrow> inside u (ts_outside ts2)"
        and dones: "\<forall>u. NodeDone u \<in> set zs \<longrightarrow> inside u (ts_outside ts2)"
        and sub: "mset (map no_uid zs) \<subseteq># mset (map pi_photoNodeUid (ts_queue ts1))"
        and eq: "e2 = None \<longrightarrow> mset (map no_uid zs) = mset (map pi_photoNodeUid (ts_queue ts1))"
        using Suc.IH [OF _ dist1 U1] less Suc.prems(1) by auto
      have "queue_loop r (Suc fuel) ts = Some (ys @ zs, e2, ts2)" using run False None rest by simp
      moreover have "mset (map no_uid (ys @ zs)) \<subseteq># mset (map pi_photoNodeUid (ts_queue ts))"
        using sub unfolding all [symmetric] map_append mset_append by simp
      moreover have "e2 = None \<longrightarrow> mset (map no_uid (ys @ zs)) = mset (map pi_photoNodeUid (ts_queue ts))"
        using eq unfolding all [symmetric] map_append mset_append by simp
      ultimately show ?thesis using facts keep dones by (metis Un_iff set_append)
    qed
  qed
qed

section \<open>Albums\<close>

lemma splitByVolume_parts:
  "splitByVolume uids v = Inr (same, cross) \<Longrightarrow>
     mset (map pi_photoNodeUid same) + mset (map pi_photoNodeUid cross) = mset uids
   \<and> (\<forall>x \<in> set same. in_volume v (pi_photoNodeUid x))"
proof (induction uids arbitrary: same cross)
  case (Cons uid uids)
  then show ?case
    by (fastforce simp: try_bind_Inr_iff new_photo_item_def in_volume_def split: if_splits prod.splits)
qed simp

lemma load_of_fresh:
  "distinct (map pi_photoNodeUid (ts_queue ts)) \<Longrightarrow>
     load_of (pi_photoNodeUid ` set (ts_queue ts)) ts \<le> 2 * length (ts_queue ts)"
proof -
  have "card (pi_photoNodeUid ` set (ts_queue ts) - set (ts_retried ts)) \<le> card (pi_photoNodeUid ` set (ts_queue ts))"
    by (intro card_mono) auto
  also have "\<dots> \<le> length (ts_queue ts)" by (metis card_length length_map list.set_map)
  finally show ?thesis by (simp add: load_of_def)
qed

definition reports_photos ::
  "(string \<Rightarrow> 's \<Rightarrow> bool) \<Rightarrow> string multiset \<Rightarrow> 's \<Rightarrow> node_outcome list \<times> thrown option \<times> 's \<Rightarrow> bool"
where
  "reports_photos inside W s q \<longleftrightarrow>
     (case q of (results, e, s') \<Rightarrow>
        mset (map no_uid results) \<subseteq># W
      \<and> (e = None \<longrightarrow> mset (map no_uid results) = W)
      \<and> (\<forall>u. NodeDone u \<in> set results \<longrightarrow> inside u s')
      \<and> (\<forall>u. inside u s \<longrightarrow> inside u s'))"

lemma reports_photos_append:
  assumes "reports_photos inside V s (ys, None, s1)" "reports_photos inside W s1 (zs, e, s2)"
  shows "reports_photos inside (V + W) s (ys @ zs, e, s2)"
  using assms by (auto simp: reports_photos_def)

lemma reports_photos_error:
  "reports_photos inside V s (ys, Some e, s1) \<Longrightarrow> reports_photos inside (V + W) s (ys, Some e, s1)"
  by (auto simp: reports_photos_def intro: subset_mset.add_increasing2)

lemma queue_reports:
  assumes "accounts (pi_photoNodeUid ` set (ts_queue ts)) inside r"
    and "distinct (map pi_photoNodeUid (ts_queue ts))" "2 * length (ts_queue ts) \<le> fuel"
  shows "\<exists>ys e ts'. queue_loop r fuel ts = Some (ys, e, ts')
    \<and> reports_photos inside (mset (map pi_photoNodeUid (ts_queue ts))) (ts_outside ts) (ys, e, ts_outside ts')"
proof -
  let ?U = "pi_photoNodeUid ` set (ts_queue ts)"
  have "load_of ?U ts \<le> fuel" using load_of_fresh [OF assms(2)] assms(3) by linarith
  from queue_loop_reports [OF assms(1) this assms(2) subset_refl]
  show ?thesis unfolding reports_photos_def by fastforce
qed

lemma execute_reports:
  assumes svc: "lists_asked svc" "keeps_photos inside svc"
    and album: "splitNodeUid album = Inr (v, n)" "adds_photos inside v n svc"
    and "distinct uids" "2 * length uids \<le> fuel"
  shows "\<exists>q. add_to_album_execute svc fuel album keys signingKeys uids s = Some q \<and> reports_photos inside (mset uids) s q"
proof (cases "splitByVolume uids v")
  case (Inl error)
  then show ?thesis using album(1) by (simp add: add_to_album_execute_def reports_photos_def)
next
  case (Inr parts)
  obtain same cross where parts: "parts = (same, cross)" by fastforce
  note split = splitByVolume_parts [OF Inr [unfolded parts]]
  have all: "mset (map pi_photoNodeUid (same @ cross)) = mset uids" using split by simp
  then have "distinct (map pi_photoNodeUid (same @ cross))" "length (same @ cross) = length uids"
    using assms(5) mset_eq_imp_distinct_iff mset_eq_length by (metis, metis length_map)
  then have dist: "distinct (map pi_photoNodeUid same)" "distinct (map pi_photoNodeUid cross)"
    and len: "2 * length same \<le> fuel" "2 * length cross \<le> fuel" using assms(6) by simp_all
  let ?ts = "\<lparr>ts_queue = same, ts_retried = [], ts_outside = s\<rparr>"
  have "accounts (pi_photoNodeUid ` set (ts_queue ?ts)) inside (queue_round svc yield_one album keys signingKeys
      (\<lambda>payloads. gen_each (transfer_batch svc yield_one (addPhotosToAlbum svc album)) (createBatches payloads)))"
    using split by (intro round_accounts [OF svc] handles_album_batches [OF _ svc(2) album]) auto
  from queue_reports [OF this, of fuel] obtain ys e ts1 where
    first: "processSameVolumeQueue svc album keys signingKeys fuel ?ts = Some (ys, e, ts1)"
    and f: "reports_photos inside (mset (map pi_photoNodeUid same)) s (ys, e, ts_outside ts1)"
    using dist len unfolding processSameVolumeQueue_def by auto
  show ?thesis
  proof (cases e)
    case (Some t)
    then have "add_to_album_execute svc fuel album keys signingKeys uids s = Some (ys, Some t, ts_outside ts1)"
      using album(1) Inr parts first by (simp add: add_to_album_execute_def)
    moreover have "reports_photos inside (mset uids) s (ys, Some t, ts_outside ts1)"
      using reports_photos_error [OF f [unfolded Some], of "mset (map pi_photoNodeUid cross)"] all by simp
    ultimately show ?thesis by blast
  next
    case None
    let ?ts2 = "ts1\<lparr>ts_queue := cross\<rparr>"
    have "accounts (pi_photoNodeUid ` set (ts_queue ?ts2)) inside (queue_round svc yield_one album keys signingKeys
        (gen_each (copy_photo yield_one (copy_to_album svc album))))"
      by (intro round_accounts [OF svc] handles_album_copies [OF _ svc(2) album]) simp_all
    from queue_reports [OF this, of fuel] obtain zs e2 ts3 where
      second: "processDifferentVolumeQueue svc album keys signingKeys fuel ?ts2 = Some (zs, e2, ts3)"
      and g: "reports_photos inside (mset (map pi_photoNodeUid cross)) (ts_outside ts1) (zs, e2, ts_outside ts3)"
      using dist len unfolding processDifferentVolumeQueue_def by auto
    have "add_to_album_execute svc fuel album keys signingKeys uids s = Some (ys @ zs, e2, ts_outside ts3)"
      using album(1) Inr parts first None second by (simp add: add_to_album_execute_def)
    then show ?thesis using reports_photos_append [OF f [unfolded None] g] all by auto
  qed
qed

text \<open>
  C10: Adding photos to an album ends; every photo is reported at most once, and exactly once if
  the listing of nodes and the requests do not fail, and as added only if the server has put it
  into the album, provided the nodes module lists what it is asked for and the server adds the
  photos it reports no error for.
\<close>

theorem add_photos_reports_each_once:
  assumes "lists_asked svc" "keeps_photos inside svc"
    and "splitNodeUid albumNodeUid = Inr (v, n)" "adds_photos inside v n svc"
    and "distinct photoNodeUids" "2 * length photoNodeUids \<le> fuel"
  shows "\<exists>results error s'. addPhotos svc fuel albumNodeUid photoNodeUids s = Some (results, error, s')
    \<and> mset (map no_uid results) \<subseteq># mset photoNodeUids
    \<and> (error = None \<longrightarrow> mset (map no_uid results) = mset photoNodeUids)
    \<and> (\<forall>uid. NodeDone uid \<in> set results \<longrightarrow> inside uid s')"
proof -
  obtain keys s1 where keys: "ps_getNodeKeys svc albumNodeUid s = (keys, s1)" by fastforce
  show ?thesis
  proof (cases "\<exists>k. keys = Inr k \<and> tk_hashKey k \<noteq> None")
    case False
    then show ?thesis using keys by (cases keys) (auto simp: addPhotos_def)
  next
    case True
    then obtain k where k: "keys = Inr k" "tk_hashKey k \<noteq> None" by blast
    obtain signing s2 where signing: "ps_getNodeSigningKeys svc albumNodeUid s1 = (signing, s2)" by fastforce
    show ?thesis
    proof (cases signing)
      case (Inl error)
      then show ?thesis using keys k signing by (simp add: addPhotos_def)
    next
      case (Inr sk)
      obtain results e s3 where run: "add_to_album_execute svc fuel albumNodeUid k sk photoNodeUids s2 = Some (results, e, s3)"
        and rep: "reports_photos inside (mset photoNodeUids) s2 (results, e, s3)"
        using execute_reports [OF assms, of k sk s2] by (metis prod_cases3)
      obtain r s4 where final: "ps_notifyNodeChanged svc albumNodeUid s3 = (r, s4)" by fastforce
      have keep: "inside u s3 \<Longrightarrow> inside u s4" for u using keepsD [OF keeps_photos_ops(4) [OF assms(2)] final] .
      show ?thesis
        using keys k signing Inr run rep final keep
        by (cases r) (auto simp: addPhotos_def with_finally_def gen_finally_def reports_photos_def)
    qed
  qed
qed

text \<open>The demonstration: an album \<open>v~a\<close> to which the server adds one photo and asks for a related one.\<close>

definition demo_photo :: "string \<Rightarrow> photo_node" where
  "demo_photo uid = \<lparr>pn_uid = uid, pn_parentUid = Some ''v~r'', pn_hash = None, pn_name = Inr ''name'',
     pn_keyAuthor = Inr (Some ''e''), pn_contentSha1 = Some ''sha1'', pn_relatedPhotoNodeUids = None\<rparr>"

definition demo_photo_services :: "(string list, unit, unit) photo_services" where
  "demo_photo_services =
     \<lparr>ps_iterateNodes = (\<lambda>uids s. (map (\<lambda>uid. Listed (demo_photo uid)) uids, None, s)),
      ps_getNodePrivateAndSessionKeys = (\<lambda>_. give \<lparr>pk_passphrase = '''', pk_passphraseSessionKey = (), pk_nameSessionKey = ()\<rparr>),
      ps_getVolumeRootFolder = give ''v~r'',
      ps_getNodeKeys = (\<lambda>_. give \<lparr>tk_key = (), tk_hashKey = Some []\<rparr>),
      ps_getNodeSigningKeys = (\<lambda>_. give (UserAddress ''e'' ''a'' ())),
      ps_notifyNodeChanged = (\<lambda>_. give ()), ps_notifyChildCreated = (\<lambda>_. give ()), ps_notifyNodeDeleted = (\<lambda>_. give ()),
      ps_addMultiple = (\<lambda>v n links s. (Inr [], map (\<lambda>l. makeNodeUid v (ld_LinkID l)) links @ s)),
      ps_transferMultiple = (\<lambda>v n email links s. (Inr [], map (\<lambda>l. makeNodeUid v (ld_LinkID l)) links @ s)),
      ps_copyLink = (\<lambda>v n r s. (Inr n, makeNodeUid v n # s)),
      ps_removeMultiple = (\<lambda>_ _ _. give ()), ps_deleteAlbum = (\<lambda>_ _ _. give ()),
      ps_Missing = (\<lambda>_. None), ps_ChildLinkIDs = (\<lambda>_. []),
      ps_crypto = \<lparr>ac_encryptNodeName = (\<lambda>name _ _ _. Inr name), ac_generateLookupHash = (\<lambda>name _. Inr name),
        ac_encryptPassphrase = (\<lambda>p _ _ _. Inr (p, p))\<rparr>\<rparr>"

definition among :: "string \<Rightarrow> string list \<Rightarrow> bool" where
  "among uid s \<longleftrightarrow> uid \<in> set s"

lemma demo_photo_services_ok:
  "lists_asked demo_photo_services" "keeps_photos among demo_photo_services" "adds_photos among v n demo_photo_services"
proof -
  have uids: "map reported_photo (map (\<lambda>uid. Listed (demo_photo uid)) us) = us" for us
    by (simp add: comp_def reported_photo_def demo_photo_def)
  show "lists_asked demo_photo_services"
    unfolding lists_asked_def demo_photo_services_def using uids by (auto simp del: map_map mset_map)
  show "keeps_photos among demo_photo_services" "adds_photos among v n demo_photo_services"
    by (auto simp: keeps_photos_def adds_photos_def keeps_def among_def demo_photo_services_def give_def)
qed

theorem add_photos_reports_each_once_witness:
  "\<exists>results error s'. addPhotos demo_photo_services 4 ''v~a'' [''v~x'', ''w~y''] [] = Some (results, error, s')
    \<and> mset (map no_uid results) \<subseteq># {#''v~x'', ''w~y''#}
    \<and> (error = None \<longrightarrow> mset (map no_uid results) = {#''v~x'', ''w~y''#})
    \<and> (\<forall>uid. NodeDone uid \<in> set results \<longrightarrow> among uid s')"
proof -
  have "splitNodeUid ''v~a'' = Inr (''v'', ''a'')" by code_simp
  from add_photos_reports_each_once [OF demo_photo_services_ok(1,2) this demo_photo_services_ok(3), of "[''v~x'', ''w~y'']" 4]
  show ?thesis by simp
qed

section \<open>The timeline\<close>

lemma partition_volume_parts:
  "partition_volume v payloads = Inr (same, cross) \<Longrightarrow>
     mset (map payload_uid same) + mset (map payload_uid cross) = mset (map payload_uid payloads)
   \<and> (\<forall>p \<in> set same. in_volume v (payload_uid p)) \<and> set same \<subseteq> set payloads \<and> set cross \<subseteq> set payloads"
proof (induction payloads arbitrary: same cross)
  case (Cons p payloads)
  obtain x m same1 cross1 where x: "splitNodeUid (payload_uid p) = Inr (x, m)"
    and rest: "partition_volume v payloads = Inr (same1, cross1)"
    and now: "(same, cross) = (if x = v then (p # same1, cross1) else (same1, p # cross1))"
    using Cons.prems by (auto simp: try_bind_Inr_iff payload_uid_def)
  show ?case using Cons.IH [OF rest] x now by (cases "x = v") (auto simp: in_volume_def)
qed simp

lemma handles_await_pure:
  "handles U inside D W (gen_await (of_result (Inr v)) k) = handles U inside D W (k v)"
  "handles U inside D W (gen_await (of_result (Inl t)) k)"
  by (simp_all add: handles_def gen_await_def of_result_def)

lemma handles_timeline_batches:
  assumes "finite U" "keeps_photos inside svc" "splitNodeUid root = Inr (v, n)" "adds_photos inside v n svc"
    and "\<forall>p \<in> set payloads. in_volume v (payload_uid p)" "payload_uid ` set payloads \<subseteq> U"
  shows "handles U inside {} (mset (map payload_uid payloads))
    (gen_each (transfer_batch svc yield_one (transferPhotos svc root)) (createBatches payloads))"
proof -
  have all: "concat (createBatches payloads) = payloads" by (simp add: createBatches_def batches_of_concat)
  have one: "handles U inside {} (mset (map payload_uid ps)) (transfer_batch svc yield_one (transferPhotos svc root) ps)"
    if "ps \<in> set (createBatches payloads)" for ps
  proof (rule handles_transfer_batch [OF assms(1,2)])
    have ps: "set ps \<subseteq> set payloads" using that all by (metis Union_upper image_eqI set_concat)
    then show "payload_uid ` set ps \<subseteq> U" using assms(6) by blast
    from ps have "\<forall>p \<in> set ps. in_volume v (payload_uid p)" using assms(5) by blast
    then show "map no_uid results = map payload_uid ps \<and> (\<forall>u. NodeDone u \<in> set results \<longrightarrow> inside u s')"
      if "transferPhotos svc root ps s = (Inr results, s')" for s results s'
      using transferPhotos_accounts [OF that assms(3,4)] by blast
  qed (intro keeps_intros assms)
  have "(\<Sum>ps \<leftarrow> createBatches payloads. mset (map payload_uid ps)) = mset (map payload_uid payloads)"
    using sum_list_mset_map [of payload_uid "\<lambda>ps. ps" "createBatches payloads"] all by simp
  with handles_each [of "createBatches payloads" U inside "{}" "\<lambda>ps. mset (map payload_uid ps)", OF one]
  show ?thesis by simp
qed

lemma handles_timeline_transfer:
  assumes "finite U" "keeps_photos inside svc" "splitNodeUid root = Inr (v, n)" "adds_photos inside v n svc"
    and root: "\<And>s r s'. ps_getVolumeRootFolder svc s = (Inr r, s') \<Longrightarrow> r = root"
    and "payload_uid ` set payloads \<subseteq> U"
  shows "handles U inside {} (mset (map payload_uid payloads)) (timeline_transfer svc yield_one root v payloads)"
proof (cases "partition_volume v payloads")
  case (Inl t)
  then show ?thesis by (simp add: timeline_transfer_def handles_await_pure)
next
  case (Inr parts)
  obtain same cross where parts: "parts = (same, cross)" by fastforce
  note split = partition_volume_parts [OF Inr [unfolded parts]]
  have U: "payload_uid ` set same \<subseteq> U" "payload_uid ` set cross \<subseteq> U" using split assms(6) by blast+
  have copies: "handles U inside {} (mset (map payload_uid cross)) (gen_each (copy_photo yield_one (copy_to_timeline svc root)) cross)"
  proof (rule handles_copies [OF assms(1) U(2)])
    show "keeps inside (copy_to_timeline svc root p)" for p
      unfolding copy_to_timeline_def by (intro keeps_intros assms)
    show "inside (payload_uid p) s'" if "copy_to_timeline svc root p s = (Inr r, s')" for p s r s'
    proof -
      from that [unfolded copy_to_timeline_def] obtain x s1 where x: "ps_getVolumeRootFolder svc s = (Inr x, s1)"
        and rest: "await (copyPhoto svc x p) (\<lambda>_. ps_notifyChildCreated svc root) s1 = (Inr r, s')" by (rule await_Inr_cases)
      from rest obtain y s2 where "copyPhoto svc x p s1 = (Inr y, s2)" "ps_notifyChildCreated svc root s2 = (Inr r, s')"
        by (rule await_Inr_cases)
      then show ?thesis
        using copyPhoto_inside [OF _ assms(3,4)] keepsD [OF keeps_photos_ops(5) [OF assms(2)]] root [OF x] by blast
    qed
  qed
  have "\<forall>p \<in> set same. in_volume v (payload_uid p)" using split by blast
  from handles_followed_by [OF handles_timeline_batches [OF assms(1-4) this U(1)] copies]
  have "handles U inside {} (mset (map payload_uid payloads))
      (followed_by (gen_each (transfer_batch svc yield_one (transferPhotos svc root)) (createBatches same))
        (gen_each (copy_photo yield_one (copy_to_timeline svc root)) cross))"
    using split by metis
  then show ?thesis using Inr parts by (simp add: timeline_transfer_def handles_await_pure)
qed

text \<open>
  Saving photos to the timeline ends; every photo is reported at most once, and exactly once
  if nothing but the photos fails, and as saved only if the server has put it into the root folder
  of the user's volume.
\<close>

theorem save_to_timeline_reports_each_once:
  assumes "lists_asked svc" "keeps_photos inside svc"
    and "splitNodeUid root = Inr (v, n)" "adds_photos inside v n svc"
    and "\<And>s r s'. ps_getVolumeRootFolder svc s = (Inr r, s') \<Longrightarrow> r = root"
    and "distinct nodeUids" "2 * length nodeUids \<le> fuel"
  shows "\<exists>results error s'. saveToTimeline svc yield_one fuel nodeUids s = Some (results, error, s')
    \<and> mset (map no_uid results) \<subseteq># mset nodeUids
    \<and> (error = None \<longrightarrow> mset (map no_uid results) = mset nodeUids)
    \<and> (\<forall>uid. NodeDone uid \<in> set results \<longrightarrow> inside uid s')"
proof -
  obtain r s1 where r: "ps_getVolumeRootFolder svc s = (r, s1)" by fastforce
  show ?thesis
  proof (cases r)
    case (Inl t)
    then show ?thesis using r by (simp add: saveToTimeline_def)
  next
    case (Inr x)
    then have x: "x = root" using assms(5) r by blast
    obtain q s2 where q: "await (ps_getNodeKeys svc root) (\<lambda>volumeRootKeys.
        await (ps_getNodeSigningKeys svc root) (\<lambda>signingKeys. give (volumeRootKeys, signingKeys))) s1 = (q, s2)" by fastforce
    show ?thesis
    proof (cases q)
      case (Inl t)
      then show ?thesis using r Inr x assms(3) q by (simp add: saveToTimeline_def)
    next
      case (Inr p)
      obtain keys signing where p: "p = (keys, signing)" by fastforce
      let ?ts = "\<lparr>ts_queue = map new_photo_item nodeUids, ts_retried = [], ts_outside = s2\<rparr>"
      have uids: "map pi_photoNodeUid (ts_queue ?ts) = nodeUids" by (simp add: comp_def new_photo_item_def)
      have "accounts (pi_photoNodeUid ` set (ts_queue ?ts)) inside
          (queue_round svc yield_one root keys signing (timeline_transfer svc yield_one root v))"
        by (intro round_accounts [OF assms(1,2)] handles_timeline_transfer [OF _ assms(2-5)]) simp_all
      from queue_reports [OF this, of fuel] obtain ys e ts1 where
        "queue_loop (queue_round svc yield_one root keys signing (timeline_transfer svc yield_one root v)) fuel ?ts
           = Some (ys, e, ts1)" "reports_photos inside (mset nodeUids) s2 (ys, e, ts_outside ts1)"
        using assms(6,7) unfolding uids by auto
      then show ?thesis
        using r \<open>r = Inr x\<close> x assms(3) q Inr p by (simp add: saveToTimeline_def reports_photos_def)
    qed
  qed
qed

theorem save_to_timeline_reports_each_once_witness:
  "\<exists>results error s'. saveToTimeline demo_photo_services yield_one 4 [''v~x'', ''w~y''] [] = Some (results, error, s')
    \<and> mset (map no_uid results) \<subseteq># {#''v~x'', ''w~y''#}
    \<and> (error = None \<longrightarrow> mset (map no_uid results) = {#''v~x'', ''w~y''#})
    \<and> (\<forall>uid. NodeDone uid \<in> set results \<longrightarrow> among uid s')"
proof -
  have root: "splitNodeUid ''v~r'' = Inr (''v'', ''r'')" by code_simp
  have same: "ps_getVolumeRootFolder demo_photo_services s = (Inr r, s') \<Longrightarrow> r = ''v~r''" for s r s'
    by (simp add: demo_photo_services_def give_def)
  from save_to_timeline_reports_each_once [OF demo_photo_services_ok(1,2) root demo_photo_services_ok(3) same,
      where nodeUids = "[''v~x'', ''w~y'']" and fuel = 4]
  show ?thesis by simp
qed

section \<open>The limit of a request\<close>

text \<open>
  The batches of an album or timeline request are the payloads in order; none is empty, each
  counts at most ten photos with their related ones unless it is a single photo, and no batch had
  room for the first photo of the next one.
\<close>

theorem photo_batches_fit:
  "concat (createBatches payloads) = payloads
   \<and> (\<forall>b \<in> set (createBatches payloads). b \<noteq> [] \<and> (sum_list (map payload_size b) \<le> 10 \<or> length b = 1))
   \<and> (\<forall>i. Suc i < length (createBatches payloads) \<longrightarrow>
        10 < sum_list (map payload_size (createBatches payloads ! i))
               + payload_size (hd (createBatches payloads ! Suc i)))"
proof -
  have "batch_ok b" if "b \<in> set (createBatches payloads)" for b
    using batches_of_ok [of 0 "[]" b payloads] that by (simp add: createBatches_def)
  moreover have "ADD_PHOTOS_BATCH_SIZE
      < sum_list (map payload_size (createBatches payloads ! i)) + payload_size (hd (createBatches payloads ! Suc i))"
    if "Suc i < length (createBatches payloads)" for i
    using batches_of_maximal [of 0 "[]" i payloads] that by (simp add: createBatches_def)
  ultimately show ?thesis
    unfolding batch_ok_def ADD_PHOTOS_BATCH_SIZE_def by (simp add: createBatches_def batches_of_concat)
qed

definition demo_payload :: transfer_payload where
  "demo_payload = \<lparr>tp_photo = \<lparr>pp_nodeUid = ''v~x'', pp_contentHash = '''', pp_nameHash = '''', pp_originalNameHash = None,
     pp_encryptedName = '''', pp_nameSignatureEmail = '''', pp_nodePassphrase = '''', pp_nodePassphraseSignature = None,
     pp_signatureEmail = None\<rparr>, tp_relatedPhotos = []\<rparr>"

theorem photo_batches_fit_witness:
  "10 < sum_list (map payload_size (createBatches (replicate 12 demo_payload) ! 0))
      + payload_size (hd (createBatches (replicate 12 demo_payload) ! Suc 0))"
proof -
  have "Suc 0 < length (createBatches (replicate 12 demo_payload))"
    by (simp add: createBatches_def eval_nat_numeral payload_size_def ADD_PHOTOS_BATCH_SIZE_def demo_payload_def)
  then show ?thesis using photo_batches_fit [of "replicate 12 demo_payload"] by blast
qed

end
