(* ===== verification/SharingLists.thy ===== *)
theory SharingLists
  imports DriveCache Events NodesAccess
begin

text \<open>
  The lists of nodes shared by the user and with the user: \<open>SharingCache\<close> of
  \<^verbatim>\<open>internal/sharing/cache.ts\<close>, the events that keep it current (\<^verbatim>\<open>events.ts\<close>) and the listings and
  invitations of \<open>SharingAccess\<close> in \<^verbatim>\<open>sharingAccess.ts\<close>.

  What the clients of the cache rely on is the locale \<open>shared_lists\<close>; its interpretation \<open>lists\<close> is
  \<open>SharingCache\<close> over \<open>MemoryCache\<close>.
\<close>

section \<open>SharingCache\<close>

datatype sharing_type = SharedByMe | SharedWithMe

fun sharing_type_text :: "sharing_type \<Rightarrow> string" where
  "sharing_type_text SharedByMe = ''sharedByMe''"
| "sharing_type_text SharedWithMe = ''sharedWithMe''"

definition sharing_key :: "sharing_type \<Rightarrow> string" where
  "sharing_key t = ''sharing-'' @ sharing_type_text t @ ''-nodeUids''"

text \<open>The map of the lists read or written so far, and the drive cache.\<close>

record 's sharing_cache =
  sc_cache :: "sharing_type \<rightharpoonup> string list"
  sc_driveCache :: 's

definition comma :: char where "comma = CHR 0x2C"

definition sc_getNodeUids :: "('s, string) cache_ops \<Rightarrow> sharing_type \<Rightarrow> ('s sharing_cache, string list) act" where
  "sc_getNodeUids ops t c =
     (case sc_cache c t of
        Some nodeUids \<Rightarrow> (Inr nodeUids, c)
      | None \<Rightarrow>
          (case co_getEntity ops (sharing_key t) (sc_driveCache c) of
             Inl error \<Rightarrow> (Inl error, c)
           | Inr nodeUidsString \<Rightarrow>
               (let nodeUids = js_split comma nodeUidsString
                in (Inr nodeUids, c\<lparr>sc_cache := (sc_cache c)(t \<mapsto> nodeUids)\<rparr>))))"

definition sc_setNodeUids ::
  "('s, string) cache_ops \<Rightarrow> sharing_type \<Rightarrow> string list option \<Rightarrow> ('s sharing_cache, unit) act"
where
  "sc_setNodeUids ops t nodeUids c =
     (case nodeUids of
        Some uids \<Rightarrow>
          (Inr (), c\<lparr>sc_cache := (sc_cache c)(t \<mapsto> uids),
                     sc_driveCache := co_setEntity ops (sharing_key t) (js_join comma uids) None (sc_driveCache c)\<rparr>)
      | None \<Rightarrow>
          (Inr (), c\<lparr>sc_cache := (sc_cache c)(t := None),
                     sc_driveCache := co_removeEntities ops [sharing_key t] (sc_driveCache c)\<rparr>))"

definition sc_hasLoaded :: "('s, string) cache_ops \<Rightarrow> sharing_type \<Rightarrow> ('s sharing_cache, bool) act" where
  "sc_hasLoaded ops t = catch (await (sc_getNodeUids ops t) (\<lambda>_. give True)) (\<lambda>_. give False)"

definition sc_addNodeUid :: "('s, string) cache_ops \<Rightarrow> sharing_type \<Rightarrow> string \<Rightarrow> ('s sharing_cache, unit) act" where
  "sc_addNodeUid ops t nodeUid =
     await (catch (sc_getNodeUids ops t) (\<lambda>_. throw_act (throw_new JsError ''Calling add before setting the loaded items'')))
       (\<lambda>nodeUids.
          let uids = set_of nodeUids
          in if nodeUid \<in> set uids then give () else sc_setNodeUids ops t (Some (uids @ [nodeUid])))"

definition sc_removeNodeUid :: "('s, string) cache_ops \<Rightarrow> sharing_type \<Rightarrow> string \<Rightarrow> ('s sharing_cache, unit) act" where
  "sc_removeNodeUid ops t nodeUid =
     await (catch (sc_getNodeUids ops t) (\<lambda>_. throw_act (throw_new JsError ''Calling remove before setting the loaded items'')))
       (\<lambda>nodeUids.
          let uids = set_of nodeUids
          in if nodeUid \<notin> set uids then give () else sc_setNodeUids ops t (Some (remove1 nodeUid uids)))"

text \<open>The interface: one operation for both types of list.\<close>

record 'c shared_list_ops =
  sl_get :: "sharing_type \<Rightarrow> ('c, string list) act"
  sl_hasLoaded :: "sharing_type \<Rightarrow> ('c, bool) act"
  sl_add :: "sharing_type \<Rightarrow> string \<Rightarrow> ('c, unit) act"
  sl_remove :: "sharing_type \<Rightarrow> string \<Rightarrow> ('c, unit) act"
  sl_set :: "sharing_type \<Rightarrow> string list option \<Rightarrow> ('c, unit) act"

definition SharingCache_ops :: "('s, string) cache_ops \<Rightarrow> 's sharing_cache shared_list_ops" where
  "SharingCache_ops ops =
     \<lparr>sl_get = sc_getNodeUids ops, sl_hasLoaded = sc_hasLoaded ops, sl_add = sc_addNodeUid ops,
      sl_remove = sc_removeNodeUid ops, sl_set = sc_setNodeUids ops\<rparr>"

section \<open>The events\<close>

record ('c, 's) sharing_state =
  sh_lists :: 'c
  sh_outside :: 's

definition on_lists :: "('c, 'a) act \<Rightarrow> (('c, 's) sharing_state, 'a) act" where
  "on_lists m s = (case m (sh_lists s) of (r, c) \<Rightarrow> (r, s\<lparr>sh_lists := c\<rparr>))"

definition from_outside :: "('s, 'a) act \<Rightarrow> (('c, 's) sharing_state, 'a) act" where
  "from_outside m s = (case m (sh_outside s) of (r, w) \<Rightarrow> (r, s\<lparr>sh_outside := w\<rparr>))"

record ('s, 'n, 'i) sharing_services =
  sv_notifyNodeChanged :: "string \<Rightarrow> ('s, unit) act"
  sv_isOwnVolume :: "string \<Rightarrow> ('s, bool) act"
  sv_getRootVolumeId :: "('s, string) act"
  sv_iterateNodes :: "string list \<Rightarrow> ('s, 'n listed) gen"
  sv_iterateSharedNodeUids :: "string \<Rightarrow> ('s, string) gen"
  sv_iterateSharedWithMeNodeUids :: "('s, string) gen"
  sv_getNodeShareId :: "string \<Rightarrow> ('s, string option) act"
  sv_loadMemberUid :: "string \<Rightarrow> ('s, string option) act"
  sv_removeMember :: "string \<Rightarrow> ('s, unit) act"
  sv_getInvitation :: "string \<Rightarrow> ('s, 'i) act"
  sv_signAcceptance :: "'i \<Rightarrow> ('s, string) act"
  sv_invitationNodeUid :: "'i \<Rightarrow> string"
  sv_acceptInvitation :: "string \<Rightarrow> string \<Rightarrow> ('s, unit) act"
  sv_rejectInvitation :: "string \<Rightarrow> ('s, unit) act"

fun each_act :: "('a \<Rightarrow> ('s, unit) act) \<Rightarrow> 'a list \<Rightarrow> ('s, unit) act" where
  "each_act f [] = give ()"
| "each_act f (x # xs) = await (f x) (\<lambda>_. each_act f xs)"

definition handleSharedWithMe ::
  "'c shared_list_ops \<Rightarrow> ('s, 'n, 'i) sharing_services \<Rightarrow> drive_event \<Rightarrow> (('c, 's) sharing_state, unit) act"
where
  "handleSharedWithMe ul svc event =
     (if ev_type event \<notin> {Some SharedWithMeUpdated, Some TreeRefresh, Some TreeRemove} then give ()
      else await (on_lists (sl_hasLoaded ul SharedWithMe)) (\<lambda>hasSharedWithMeLoaded.
           await (if ev_type event = Some SharedWithMeUpdated \<and> hasSharedWithMeLoaded
                  then catch (await (on_lists (sl_get ul SharedWithMe))
                                (each_act (\<lambda>nodeUid. from_outside (sv_notifyNodeChanged svc nodeUid))))
                         (\<lambda>_. give ())
                  else give ())
             (\<lambda>_. on_lists (sl_set ul SharedWithMe None))))"

definition handleSharedByMe ::
  "'c shared_list_ops \<Rightarrow> ('s, 'n, 'i) sharing_services \<Rightarrow> drive_event \<Rightarrow> (('c, 's) sharing_state, unit) act"
where
  "handleSharedByMe ul svc event =
     (if ev_type event \<notin> {Some NodeCreated, Some NodeUpdated, Some NodeDeleted} then give ()
      else await (on_lists (sl_hasLoaded ul SharedByMe)) (\<lambda>hasSharedByMeLoaded.
           if \<not> hasSharedByMeLoaded then give ()
           else await (from_outside (sv_isOwnVolume svc (ev_treeEventScopeId event))) (\<lambda>isOwnVolume.
             if \<not> isOwnVolume then give ()
             else case ev_nodeUid event of
                    None \<Rightarrow> give ()
                  | Some nodeUid \<Rightarrow>
                      if ev_type event \<noteq> Some NodeDeleted \<and> ev_isShared event = Some True \<and> ev_isTrashed event \<noteq> Some True
                      then on_lists (sl_add ul SharedByMe nodeUid)
                      else on_lists (sl_remove ul SharedByMe nodeUid))))"

definition handleDriveEvent ::
  "'c shared_list_ops \<Rightarrow> ('s, 'n, 'i) sharing_services \<Rightarrow> drive_event \<Rightarrow> ('c, 's) sharing_state \<Rightarrow> ('c, 's) sharing_state"
where
  "handleDriveEvent ul svc event s =
     snd (catch (await (handleSharedWithMe ul svc event) (\<lambda>_. handleSharedByMe ul svc event)) (\<lambda>_. give ()) s)"

section \<open>Listings\<close>

definition SHARING_BATCH_LOADING_SIZE :: nat where "SHARING_BATCH_LOADING_SIZE = 30"

definition load_error :: "load_end \<Rightarrow> thrown option" where
  "load_error r =
     (case r of
        LoadedAll \<Rightarrow> None
      | LoadAborted error \<Rightarrow> Some error
      | FailedToLoadSomeItems _ \<Rightarrow> Some (throw_new ProtonDriveError ''Failed to load some items''))"

definition iterateNodesAndIgnoreMissingOnes ::
  "('s, 'n, 'i) sharing_services \<Rightarrow> (('c, 's) sharing_state, string, 'n) item_source"
where
  "iterateNodesAndIgnoreMissingOnes svc nodeUids s =
     (case sv_iterateNodes svc nodeUids (sh_outside s) of (nodes, error, w) \<Rightarrow>
        Some (listed_nodes nodes, error, s\<lparr>sh_outside := w\<rparr>))"

definition iterateSharedNodesFromCache where
  "iterateSharedNodesFromCache svc nodeUids s =
     map_option (\<lambda>(nodes, result, b, s'). (nodes, load_error result, s'))
       (load_all (iterateNodesAndIgnoreMissingOnes svc) nodeUids (new_batch_loading (Some SHARING_BATCH_LOADING_SIZE)) s)"

text \<open>The UIDs come from a generator, which may throw after the last of them.\<close>

fun load_listed where
  "load_listed source [] apiError b s =
     (case apiError of
        Some error \<Rightarrow> Some ([], LoadAborted error, b, s)
      | None \<Rightarrow> loadRest source b s)"
| "load_listed source (uid # uids) apiError b s =
     (case load source uid b s of
        None \<Rightarrow> None
      | Some (yielded, Some error, b', s') \<Rightarrow> Some (yielded, LoadAborted error, b', s')
      | Some (yielded, None, b', s') \<Rightarrow>
          map_option (\<lambda>(later, result, b'', s''). (yielded @ later, result, b'', s''))
            (load_listed source uids apiError b' s'))"

definition iterateSharedNodesFromAPI where
  "iterateSharedNodesFromAPI ul svc t uidsIterator s =
     (case uidsIterator (sh_outside s) of (uids, apiError, w) \<Rightarrow>
        (case load_listed (iterateNodesAndIgnoreMissingOnes svc) uids apiError
                (new_batch_loading (Some SHARING_BATCH_LOADING_SIZE)) (s\<lparr>sh_outside := w\<rparr>) of
           None \<Rightarrow> None
         | Some (nodes, result, b, s') \<Rightarrow>
             (case load_error result of
                Some error \<Rightarrow> Some (nodes, Some error, s')
              | None \<Rightarrow>
                  (case on_lists (sl_set ul t (Some uids)) s' of
                     (Inl error, s'') \<Rightarrow> Some (nodes, Some error, s'')
                   | (Inr _, s'') \<Rightarrow> Some (nodes, None, s'')))))"

definition gen_then :: "'y list \<times> thrown option \<times> 's \<Rightarrow> 'y list \<Rightarrow> 'y list \<times> thrown option \<times> 's" where
  "gen_then q ys = (case q of (zs, error, s) \<Rightarrow> (ys @ zs, error, s))"

text \<open>What the cache holds is tried first; whatever fails, the list is loaded from the API.\<close>

definition iterate_shared where
  "iterate_shared ul svc t from_api s =
     (case on_lists (sl_get ul t) s of
        (Inl _, s1) \<Rightarrow> from_api s1
      | (Inr nodeUids, s1) \<Rightarrow>
          (case iterateSharedNodesFromCache svc nodeUids s1 of
             None \<Rightarrow> None
           | Some (nodes, None, s2) \<Rightarrow> Some (nodes, None, s2)
           | Some (nodes, Some _, s2) \<Rightarrow> map_option (\<lambda>q. gen_then q nodes) (from_api s2)))"

definition iterateSharedNodes where
  "iterateSharedNodes ul svc =
     iterate_shared ul svc SharedByMe
       (\<lambda>s. case from_outside (sv_getRootVolumeId svc) s of
              (Inl error, s') \<Rightarrow> Some ([], Some error, s')
            | (Inr volumeId, s') \<Rightarrow>
                iterateSharedNodesFromAPI ul svc SharedByMe (sv_iterateSharedNodeUids svc volumeId) s')"

definition iterateSharedNodesWithMe where
  "iterateSharedNodesWithMe ul svc =
     iterate_shared ul svc SharedWithMe
       (iterateSharedNodesFromAPI ul svc SharedWithMe (sv_iterateSharedWithMeNodeUids svc))"

section \<open>Leaving and joining\<close>

definition if_loaded where
  "if_loaded ul t m = await (on_lists (sl_hasLoaded ul t)) (\<lambda>loaded. if loaded then on_lists m else give ())"

definition removeSharedNodeWithMe ::
  "'c shared_list_ops \<Rightarrow> ('s, 'n, 'i) sharing_services \<Rightarrow> string \<Rightarrow> (('c, 's) sharing_state, unit) act"
where
  "removeSharedNodeWithMe ul svc nodeUid =
     await (from_outside (sv_getNodeShareId svc nodeUid)) (\<lambda>shareId.
       case present shareId of
         None \<Rightarrow> give ()
       | Some share \<Rightarrow>
           await (from_outside (sv_loadMemberUid svc share)) (\<lambda>memberUid.
             case present memberUid of
               None \<Rightarrow> throw_act (throw_new ValidationError ''You can leave only item that is shared with you'')
             | Some member \<Rightarrow>
                 await (from_outside (sv_removeMember svc member)) (\<lambda>_.
                   if_loaded ul SharedWithMe (sl_remove ul SharedWithMe nodeUid))))"

definition acceptInvitation ::
  "'c shared_list_ops \<Rightarrow> ('s, 'n, 'i) sharing_services \<Rightarrow> string \<Rightarrow> (('c, 's) sharing_state, unit) act"
where
  "acceptInvitation ul svc invitationUid =
     await (from_outside (sv_getInvitation svc invitationUid)) (\<lambda>encryptedInvitation.
     await (from_outside (sv_signAcceptance svc encryptedInvitation)) (\<lambda>base64SessionKeySignature.
     await (from_outside (sv_acceptInvitation svc invitationUid base64SessionKeySignature)) (\<lambda>_.
       if_loaded ul SharedWithMe (sl_add ul SharedWithMe (sv_invitationNodeUid svc encryptedInvitation)))))"

definition rejectInvitation ::
  "('s, 'n, 'i) sharing_services \<Rightarrow> string \<Rightarrow> (('c, 's) sharing_state, unit) act"
where
  "rejectInvitation svc invitationUid = from_outside (sv_rejectInvitation svc invitationUid)"

section \<open>What the clients rely on\<close>

text \<open>\<open>listed c t\<close> is the list of type \<open>t\<close>, \<open>None\<close> while it is not loaded.\<close>

locale shared_lists =
  fixes ul :: "'c shared_list_ops" and listed :: "'c \<Rightarrow> sharing_type \<Rightarrow> string list option" and good :: "'c \<Rightarrow> bool"
  assumes got: "good c \<Longrightarrow> listed c t = Some us \<Longrightarrow>
      \<exists>c'. sl_get ul t c = (Inr us, c') \<and> good c' \<and> listed c' = listed c"
    and not_got: "good c \<Longrightarrow> listed c t = None \<Longrightarrow> \<exists>e. sl_get ul t c = (Inl e, c)"
    and loaded: "good c \<Longrightarrow> \<exists>c'. sl_hasLoaded ul t c = (Inr (listed c t \<noteq> None), c') \<and> good c' \<and> listed c' = listed c"
    and added: "good c \<Longrightarrow> listed c t = Some us \<Longrightarrow>
      \<exists>c' us'. sl_add ul t u c = (Inr (), c') \<and> good c' \<and> listed c' = (listed c)(t \<mapsto> us') \<and> set us' = insert u (set us)"
    and removed: "good c \<Longrightarrow> listed c t = Some us \<Longrightarrow>
      \<exists>c' us'. sl_remove ul t u c = (Inr (), c') \<and> good c' \<and> listed c' = (listed c)(t \<mapsto> us') \<and> set us' = set us - {u}"
    and was_set: "good c \<Longrightarrow> \<exists>c'. sl_set ul t v c = (Inr (), c') \<and> good c' \<and> listed c' = (listed c)(t := v)"

text \<open>The sets an event leaves of the sets before it.\<close>

definition shared_sets_after ::
  "(string \<Rightarrow> bool) \<Rightarrow> drive_event \<Rightarrow> (sharing_type \<rightharpoonup> string set) \<Rightarrow> (sharing_type \<rightharpoonup> string set)"
where
  "shared_sets_after own event m =
     (if ev_type event \<in> {Some SharedWithMeUpdated, Some TreeRefresh, Some TreeRemove} then m(SharedWithMe := None)
      else if ev_type event \<in> {Some NodeCreated, Some NodeUpdated, Some NodeDeleted} \<and> own (ev_treeEventScopeId event)
      then (case (m SharedByMe, ev_nodeUid event) of
              (Some uids, Some uid) \<Rightarrow>
                m(SharedByMe \<mapsto>
                    (if ev_type event \<noteq> Some NodeDeleted \<and> ev_isShared event = Some True \<and> ev_isTrashed event \<noteq> Some True
                     then insert uid uids else uids - {uid}))
            | _ \<Rightarrow> m)
      else m)"

definition knows_own_volumes :: "('s, 'n, 'i) sharing_services \<Rightarrow> (string \<Rightarrow> bool) \<Rightarrow> bool" where
  "knows_own_volumes svc own \<longleftrightarrow> (\<forall>v w. \<exists>w'. sv_isOwnVolume svc v w = (Inr (own v), w'))"

context shared_lists
begin

lemma on_loaded:
  assumes "good (sh_lists s)"
  shows "\<exists>c'. on_lists (sl_hasLoaded ul t) s = (Inr (listed (sh_lists s) t \<noteq> None), s\<lparr>sh_lists := c'\<rparr>)
    \<and> good c' \<and> listed c' = listed (sh_lists s)"
  using loaded [OF assms, of t] by (auto simp: on_lists_def)

lemma each_notified:
  "sh_lists (snd (each_act (\<lambda>u. from_outside (f u)) us s)) = sh_lists s"
proof (induction us arbitrary: s)
  case (Cons u us)
  obtain r w where "f u (sh_outside s) = (r, w)" by fastforce
  then show ?case using Cons [of "s\<lparr>sh_outside := w\<rparr>"] by (cases r) (simp_all add: await_def from_outside_def)
qed (simp add: give_def)

lemma notified:
  assumes "good (sh_lists s)"
  shows "\<exists>s'. catch (await (on_lists (sl_get ul t)) (each_act (\<lambda>u. from_outside (f u)))) (\<lambda>_. give ()) s = (Inr (), s')
    \<and> good (sh_lists s') \<and> listed (sh_lists s') = listed (sh_lists s)"
proof (cases "listed (sh_lists s) t")
  case None
  then obtain e where "sl_get ul t (sh_lists s) = (Inl e, sh_lists s)" using not_got [OF assms] by blast
  then show ?thesis using assms by (simp add: catch_def await_def on_lists_def give_def)
next
  case (Some us)
  then obtain c where c: "sl_get ul t (sh_lists s) = (Inr us, c)" "good c" "listed c = listed (sh_lists s)"
    using got [OF assms] by blast
  obtain r s' where q: "each_act (\<lambda>u. from_outside (f u)) us (s\<lparr>sh_lists := c\<rparr>) = (r, s')" by fastforce
  then have "sh_lists s' = c" using each_notified [of f us "s\<lparr>sh_lists := c\<rparr>"] by simp
  then show ?thesis using c q by (cases r) (simp_all add: catch_def await_def on_lists_def give_def)
qed

lemma withme_handled:
  assumes "good (sh_lists s)"
  shows "\<exists>s'. handleSharedWithMe ul svc event s = (Inr (), s') \<and> good (sh_lists s')
    \<and> listed (sh_lists s') =
        (if ev_type event \<in> {Some SharedWithMeUpdated, Some TreeRefresh, Some TreeRemove}
         then (listed (sh_lists s))(SharedWithMe := None) else listed (sh_lists s))"
proof (cases "ev_type event \<in> {Some SharedWithMeUpdated, Some TreeRefresh, Some TreeRemove}")
  case False
  then show ?thesis using assms by (simp add: handleSharedWithMe_def give_def)
next
  case True
  obtain c1 where has: "on_lists (sl_hasLoaded ul SharedWithMe) s
      = (Inr (listed (sh_lists s) SharedWithMe \<noteq> None), s\<lparr>sh_lists := c1\<rparr>)"
    and c1: "good c1" "listed c1 = listed (sh_lists s)" using on_loaded [OF assms] by blast
  let ?notify = "if ev_type event = Some SharedWithMeUpdated \<and> listed (sh_lists s) SharedWithMe \<noteq> None
      then catch (await (on_lists (sl_get ul SharedWithMe)) (each_act (\<lambda>nodeUid. from_outside (sv_notifyNodeChanged svc nodeUid))))
             (\<lambda>_. give ())
      else give ()"
  have "\<exists>s2. ?notify (s\<lparr>sh_lists := c1\<rparr>) = (Inr (), s2) \<and> good (sh_lists s2) \<and> listed (sh_lists s2) = listed (sh_lists s)"
    using notified [of "s\<lparr>sh_lists := c1\<rparr>" SharedWithMe "sv_notifyNodeChanged svc"] c1
    by (cases "ev_type event = Some SharedWithMeUpdated \<and> listed (sh_lists s) SharedWithMe \<noteq> None")
      (simp_all add: give_def)
  then obtain s2 where s2: "?notify (s\<lparr>sh_lists := c1\<rparr>) = (Inr (), s2)" "good (sh_lists s2)"
    "listed (sh_lists s2) = listed (sh_lists s)" by blast
  obtain c3 where c3: "sl_set ul SharedWithMe None (sh_lists s2) = (Inr (), c3)" "good c3"
    "listed c3 = (listed (sh_lists s2))(SharedWithMe := None)" using was_set [OF s2(2)] by blast
  have in_true: "\<not> ev_type event \<notin> {Some SharedWithMeUpdated, Some TreeRefresh, Some TreeRemove}" using True by blast
  have "handleSharedWithMe ul svc event s = await ?notify (\<lambda>_. on_lists (sl_set ul SharedWithMe None)) (s\<lparr>sh_lists := c1\<rparr>)"
    unfolding handleSharedWithMe_def if_not_P [OF in_true] await_def [of "on_lists (sl_hasLoaded ul SharedWithMe)"] has
    by (simp only: prod.case sum.case)
  then have "handleSharedWithMe ul svc event s = (Inr (), s2\<lparr>sh_lists := c3\<rparr>)"
    using c3(1) by (simp only: await_def s2(1) on_lists_def prod.case sum.case)
  then show ?thesis using True c3 s2(3) by auto
qed

lemma byme_handled:
  assumes "good (sh_lists s)" "knows_own_volumes svc own"
    and sets: "m = (\<lambda>t. map_option set (listed (sh_lists s) t))"
    and other: "ev_type event \<notin> {Some SharedWithMeUpdated, Some TreeRefresh, Some TreeRemove}"
  shows "\<exists>s'. handleSharedByMe ul svc event s = (Inr (), s') \<and> good (sh_lists s')
    \<and> (\<lambda>t. map_option set (listed (sh_lists s') t)) = shared_sets_after own event m"
proof (cases "ev_type event \<in> {Some NodeCreated, Some NodeUpdated, Some NodeDeleted}")
  case False
  then show ?thesis using assms by (simp add: handleSharedByMe_def shared_sets_after_def give_def)
next
  case True
  obtain c1 where has: "on_lists (sl_hasLoaded ul SharedByMe) s
      = (Inr (listed (sh_lists s) SharedByMe \<noteq> None), s\<lparr>sh_lists := c1\<rparr>)"
    and c1: "good c1" "listed c1 = listed (sh_lists s)" using on_loaded [OF assms(1)] by blast
  obtain w where w: "from_outside (sv_isOwnVolume svc (ev_treeEventScopeId event)) (s\<lparr>sh_lists := c1\<rparr>)
      = (Inr (own (ev_treeEventScopeId event)), s\<lparr>sh_lists := c1, sh_outside := w\<rparr>)"
    using assms(2) unfolding knows_own_volumes_def from_outside_def
    by (metis (no_types, lifting) case_prod_conv sharing_state.select_convs(2) sharing_state.surjective sharing_state.update_convs(1,2))
  show ?thesis
  proof (cases "listed (sh_lists s) SharedByMe")
    case None
    then have "handleSharedByMe ul svc event s = (Inr (), s\<lparr>sh_lists := c1\<rparr>)"
      using True has by (simp add: handleSharedByMe_def await_def give_def)
    then show ?thesis using None True c1 sets other by (auto simp: shared_sets_after_def fun_eq_iff split: option.splits)
  next
    case (Some us)
    then have start: "handleSharedByMe ul svc event s =
      (if \<not> own (ev_treeEventScopeId event) then give ()
       else case ev_nodeUid event of None \<Rightarrow> give ()
         | Some nodeUid \<Rightarrow>
             if ev_type event \<noteq> Some NodeDeleted \<and> ev_isShared event = Some True \<and> ev_isTrashed event \<noteq> Some True
             then on_lists (sl_add ul SharedByMe nodeUid) else on_lists (sl_remove ul SharedByMe nodeUid))
        (s\<lparr>sh_lists := c1, sh_outside := w\<rparr>)"
      using True by (simp add: handleSharedByMe_def await_def has w)
    have us: "listed c1 SharedByMe = Some us" using Some c1(2) by simp
    show ?thesis
    proof (cases "own (ev_treeEventScopeId event) \<and> ev_nodeUid event \<noteq> None")
      case False
      then show ?thesis
        using start True c1 sets other Some
        by (auto simp: shared_sets_after_def give_def fun_eq_iff split: option.splits)
    next
      case uid: True
      then obtain u where u: "ev_nodeUid event = Some u" by blast
      let ?add = "ev_type event \<noteq> Some NodeDeleted \<and> ev_isShared event = Some True \<and> ev_isTrashed event \<noteq> Some True"
      obtain c' us' where c': "(if ?add then sl_add ul SharedByMe u c1 else sl_remove ul SharedByMe u c1) = (Inr (), c')"
        "good c'" "listed c' = (listed c1)(SharedByMe \<mapsto> us')" "set us' = (if ?add then insert u (set us) else set us - {u})"
        using added [OF c1(1) us, of u] removed [OF c1(1) us, of u] by (cases ?add) auto
      have "handleSharedByMe ul svc event s = (Inr (), s\<lparr>sh_lists := c', sh_outside := w\<rparr>)"
        using start uid u c'(1) by (cases ?add) (simp_all add: on_lists_def)
      moreover have "(\<lambda>t. map_option set (listed c' t)) = shared_sets_after own event m"
        using uid u c'(3,4) c1(2) sets other True Some
        by (auto simp: shared_sets_after_def fun_eq_iff)
      ultimately show ?thesis using c'(2) by simp
    qed
  qed
qed

lemma event_handled:
  assumes "good (sh_lists s)" "knows_own_volumes svc own"
  shows "good (sh_lists (handleDriveEvent ul svc event s))
    \<and> (\<lambda>t. map_option set (listed (sh_lists (handleDriveEvent ul svc event s)) t))
      = shared_sets_after own event (\<lambda>t. map_option set (listed (sh_lists s) t))"
proof -
  obtain s1 where s1: "handleSharedWithMe ul svc event s = (Inr (), s1)" "good (sh_lists s1)"
    "listed (sh_lists s1) = (if ev_type event \<in> {Some SharedWithMeUpdated, Some TreeRefresh, Some TreeRemove}
         then (listed (sh_lists s))(SharedWithMe := None) else listed (sh_lists s))"
    using withme_handled [OF assms(1)] by blast
  show ?thesis
  proof (cases "ev_type event \<in> {Some SharedWithMeUpdated, Some TreeRefresh, Some TreeRemove}")
    case True
    then have "handleSharedByMe ul svc event s1 = (Inr (), s1)" by (auto simp: handleSharedByMe_def give_def)
    then have "handleDriveEvent ul svc event s = s1" using s1(1) by (simp add: handleDriveEvent_def catch_def await_def)
    then show ?thesis using s1(2,3) True by (auto simp: shared_sets_after_def fun_eq_iff)
  next
    case False
    obtain s2 where "handleSharedByMe ul svc event s1 = (Inr (), s2)" "good (sh_lists s2)"
      "(\<lambda>t. map_option set (listed (sh_lists s2) t)) = shared_sets_after own event (\<lambda>t. map_option set (listed (sh_lists s) t))"
      using byme_handled [OF s1(2) assms(2) refl False] s1(3) False by auto
    moreover then have "handleDriveEvent ul svc event s = s2" using s1(1) by (simp add: handleDriveEvent_def catch_def await_def)
    ultimately show ?thesis by simp
  qed
qed

end

section \<open>SharingCache keeps the lists\<close>

definition sharing_listed :: "('s, string) cache_ops \<Rightarrow> 's sharing_cache \<Rightarrow> sharing_type \<Rightarrow> string list option" where
  "sharing_listed ops c t =
     (case sc_cache c t of
        Some nodeUids \<Rightarrow> Some nodeUids
      | None \<Rightarrow> (case co_getEntity ops (sharing_key t) (sc_driveCache c) of
                  Inl _ \<Rightarrow> None
                | Inr nodeUidsString \<Rightarrow> Some (js_split comma nodeUidsString)))"

lemma sharing_key_inj [simp]: "sharing_key t = sharing_key t' \<longleftrightarrow> t = t'"
  by (cases t; cases t') (simp_all add: sharing_key_def)

locale text_cache = drive_cache ops inv
  for ops :: "('s, string) cache_ops" and inv :: "'s \<Rightarrow> bool"
begin

lemma get_listed:
  "inv (sc_driveCache c) \<Longrightarrow>
     case sharing_listed ops c t of
       None \<Rightarrow> \<exists>e. sc_getNodeUids ops t c = (Inl e, c)
     | Some us \<Rightarrow> \<exists>c'. sc_getNodeUids ops t c = (Inr us, c') \<and> sc_driveCache c' = sc_driveCache c
                   \<and> sharing_listed ops c' = sharing_listed ops c"
  by (auto simp: sharing_listed_def sc_getNodeUids_def Let_def fun_eq_iff split: option.splits sum.splits)

lemma set_listed:
  assumes "inv (sc_driveCache c)"
  shows "\<exists>c'. sc_setNodeUids ops t v c = (Inr (), c') \<and> inv (sc_driveCache c')
    \<and> sharing_listed ops c' = (sharing_listed ops c)(t := v)"
proof (cases v)
  case None
  obtain e where "co_getEntity ops (sharing_key t) (co_removeEntities ops [sharing_key t] (sc_driveCache c)) = Inl e"
    using get_removed [of "sharing_key t" "[sharing_key t]"] by auto
  then show ?thesis using None assms
    by (auto simp: sc_setNodeUids_def sharing_listed_def fun_eq_iff inv_remove get_remove_other split: option.splits)
next
  case (Some us)
  then show ?thesis using assms
    by (auto simp: sc_setNodeUids_def sharing_listed_def fun_eq_iff inv_set_untagged get_set_other split: option.splits)
qed

end

sublocale text_cache \<subseteq> lists: shared_lists "SharingCache_ops ops" "sharing_listed ops" "\<lambda>c. inv (sc_driveCache c)"
proof (unfold_locales, goal_cases)
  case (1 c t us)
  then show ?case using get_listed [of c t] by (auto simp: SharingCache_ops_def)
next
  case (2 c t)
  then show ?case using get_listed [of c t] by (simp add: SharingCache_ops_def)
next
  case (3 c t)
  then show ?case using get_listed [of c t]
    by (cases "sharing_listed ops c t") (auto simp: SharingCache_ops_def sc_hasLoaded_def run_act)
next
  case (4 c t us u)
  then obtain c1 where c1: "sc_getNodeUids ops t c = (Inr us, c1)" "inv (sc_driveCache c1)" "sharing_listed ops c1 = sharing_listed ops c"
    using get_listed [of c t] by auto
  show ?case
  proof (cases "u \<in> set us")
    case True
    then show ?thesis using c1 4
      by (auto simp: SharingCache_ops_def sc_addNodeUid_def run_act intro!: exI [of _ us] fun_upd_triv [symmetric])
  next
    case False
    then show ?thesis using c1 set_listed [OF c1(2), of t "Some (set_of us @ [u])"]
      by (fastforce simp: SharingCache_ops_def sc_addNodeUid_def run_act Let_def)
  qed
next
  case (5 c t us u)
  then obtain c1 where c1: "sc_getNodeUids ops t c = (Inr us, c1)" "inv (sc_driveCache c1)" "sharing_listed ops c1 = sharing_listed ops c"
    using get_listed [of c t] by auto
  show ?case
  proof (cases "u \<in> set us")
    case False
    then show ?thesis using c1 5
      by (auto simp: SharingCache_ops_def sc_removeNodeUid_def run_act intro!: exI [of _ us] fun_upd_triv [symmetric])
  next
    case True
    then show ?thesis using c1 set_listed [OF c1(2), of t "Some (remove1 u (set_of us))"]
      by (fastforce simp: SharingCache_ops_def sc_removeNodeUid_def run_act Let_def)
  qed
next
  case (6 c t v)
  then show ?case using set_listed [of c t v] by (simp add: SharingCache_ops_def)
qed

text \<open>The text \<open>''''\<close> is not truthy, so \<open>MemoryCache\<close> does not return it.\<close>

interpretation mem_lists: text_cache "memory_ops (\<lambda>s. s \<noteq> '''')" mc_inv ..

interpretation null_lists: text_cache null_ops "\<lambda>c. True" ..

section \<open>What a listing leaves\<close>

definition src_keeps :: "('s \<Rightarrow> bool) \<Rightarrow> ('s, 'id, 'item) item_source \<Rightarrow> bool" where
  "src_keeps P src \<longleftrightarrow> (\<forall>ids s. P s \<longrightarrow> (\<exists>y e s'. src ids s = Some (y, e, s') \<and> P s'))"

lemma flush_keeps:
  assumes "src_keeps P src" "P s"
  shows "\<exists>y e b' s'. flush_batch src b s = Some (y, e, b', s') \<and> P s'"
proof -
  obtain y e s' where "src (bl_itemsToFetch b) s = Some (y, e, s')" "P s'"
    using assms unfolding src_keeps_def by blast
  then show ?thesis
    by (cases e) (simp_all add: flush_batch_def iterateItemsWithErrorHandling_def)
qed

lemma loadRest_keeps:
  assumes "src_keeps P src" "P s"
  shows "\<exists>y r b' s'. loadRest src b s = Some (y, r, b', s') \<and> P s'"
proof (cases "0 < length (bl_itemsToFetch b)")
  case True
  obtain y e b' s' where "flush_batch src b s = Some (y, e, b', s')" "P s'" using flush_keeps [OF assms] by blast
  then show ?thesis using True by (cases e) (simp_all add: loadRest_def)
qed (simp add: loadRest_def assms)

lemma load_keeps:
  assumes "src_keeps P src" "P s"
  shows "\<exists>y e b' s'. load src i b s = Some (y, e, b', s') \<and> P s'"
  using flush_keeps [OF assms] assms(2) by (simp add: load_def Let_def)

lemma load_listed_keeps:
  assumes "src_keeps P src"
  shows "P s \<Longrightarrow> \<exists>y r b' s'. load_listed src ids e b s = Some (y, r, b', s') \<and> P s' \<and> (e \<noteq> None \<longrightarrow> load_error r \<noteq> None)"
proof (induction ids arbitrary: b s)
  case Nil
  then show ?case using loadRest_keeps [OF assms, of s b] by (cases e) (auto simp: load_error_def)
next
  case (Cons i ids)
  obtain y e1 b1 s1 where l: "load src i b s = Some (y, e1, b1, s1)" "P s1" using load_keeps [OF assms Cons.prems] by blast
  show ?case
  proof (cases e1)
    case None
    then show ?thesis using l(1) Cons.IH [OF l(2), of b1] by auto
  next
    case (Some error)
    then show ?thesis using l by (simp add: load_error_def)
  qed
qed

lemma load_listed_complete: "load_listed src ids None b s = load_all src ids b s"
  by (induction ids arbitrary: b s) (auto split: option.splits)

text \<open>A source that never fails and yields \<open>f\<close> of what it is asked for.\<close>

lemma ask_batches_all:
  assumes "\<And>ids s. P s \<Longrightarrow> \<exists>s'. src ids s = Some (f ids, None, s') \<and> P s'"
  shows "P s \<Longrightarrow> \<exists>s'. ask_batches src bs s = Some (concat (map f bs), [], s') \<and> P s'"
proof (induction bs arbitrary: s)
  case (Cons q bs)
  obtain s1 where "src q s = Some (f q, None, s1)" "P s1" using assms [OF Cons.prems] by blast
  then show ?case using Cons.IH [of s1] by (auto simp: error_list_def)
qed simp

lemma iterating_keeps:
  "src_keeps (\<lambda>s. sh_lists s = c) (iterateNodesAndIgnoreMissingOnes svc)"
  unfolding src_keeps_def iterateNodesAndIgnoreMissingOnes_def by (auto split: prod.splits)

text \<open>The nodes service with no failures: every UID is a known node or missing.\<close>

definition serves_nodes :: "('s, 'n, 'i) sharing_services \<Rightarrow> (string \<Rightarrow> 'n listed) \<Rightarrow> bool" where
  "serves_nodes svc known \<longleftrightarrow> (\<forall>uids w. \<exists>w'. sv_iterateNodes svc uids w = (map known uids, None, w'))"

lemma listed_nodes_append: "listed_nodes (xs @ ys) = listed_nodes xs @ listed_nodes ys"
  by (simp add: listed_nodes_def List.map_filter_def)

lemma listed_nodes_concat: "concat (map (\<lambda>q. listed_nodes (map f q)) bs) = listed_nodes (map f (concat bs))"
  by (induction bs) (simp_all add: listed_nodes_append, simp add: listed_nodes_def List.map_filter_def)

lemma source_served:
  assumes "serves_nodes svc known"
  shows "\<exists>s'. iterateNodesAndIgnoreMissingOnes svc q s = Some (listed_nodes (map known q), None, s') \<and> sh_lists s' = sh_lists s"
proof -
  obtain w where "sv_iterateNodes svc q (sh_outside s) = (map known q, None, w)"
    using assms unfolding serves_nodes_def by blast
  then show ?thesis by (simp add: iterateNodesAndIgnoreMissingOnes_def)
qed

lemma load_all_served:
  fixes svc :: "('s, 'n, 'i) sharing_services" and s :: "('c, 's) sharing_state"
  assumes "serves_nodes svc known" "length (bl_itemsToFetch b) < bl_batchSize b" "bl_errors b = []"
  shows "\<exists>b' s'. load_all (iterateNodesAndIgnoreMissingOnes svc) uids b s
      = Some (listed_nodes (map known (bl_itemsToFetch b @ uids)), LoadedAll, b', s') \<and> sh_lists s' = sh_lists s"
proof -
  let ?src = "iterateNodesAndIgnoreMissingOnes svc :: (('c, 's) sharing_state, string, 'n) item_source"
  let ?bs = "batches_from (bl_itemsToFetch b @ uids) (bl_batchSize b) 0"
  have served: "\<exists>t'. ?src q t = Some (listed_nodes (map known q), None, t') \<and> sh_lists t' = sh_lists s"
    if "sh_lists t = sh_lists s" for q t
    using source_served [OF assms(1), of q t] that by auto
  have never: "never_aborts ?src"
    using source_served [OF assms(1)] unfolding never_aborts_def by (metis (no_types) option.distinct(1) option.inject prod.inject)
  obtain s' where "ask_batches ?src ?bs s = Some (concat (map (\<lambda>q. listed_nodes (map known q)) ?bs), [], s')"
    "sh_lists s' = sh_lists s"
    using ask_batches_all [of "\<lambda>t. sh_lists t = sh_lists s" ?src "\<lambda>q. listed_nodes (map known q)", OF served refl] by blast
  moreover have "concat ?bs = bl_itemsToFetch b @ uids" using concat_batches_from [of "bl_batchSize b" _ 0] assms(2) by simp
  ultimately show ?thesis
    using load_all_batches [OF never assms(2), of uids s] assms(3)
    by (auto simp: listed_nodes_concat load_result_def)
qed

context shared_lists
begin

lemma events_handled:
  assumes "good (sh_lists s)" "knows_own_volumes svc own"
  shows "good (sh_lists (fold (handleDriveEvent ul svc) events s))
    \<and> (\<lambda>t. map_option set (listed (sh_lists (fold (handleDriveEvent ul svc) events s)) t))
      = fold (shared_sets_after own) events (\<lambda>t. map_option set (listed (sh_lists s) t))"
  using assms(1)
proof (induction events arbitrary: s)
  case (Cons e es)
  then show ?case using event_handled [OF Cons.prems assms(2), of e] Cons.IH [of "handleDriveEvent ul svc e s"] by simp
qed simp

lemma listed_from_api:
  assumes "good (sh_lists s)" and from_api: "from_api (sh_outside s) = (uids, apiError, w)"
  shows "\<exists>nodes error s'. iterateSharedNodesFromAPI ul svc t from_api s = Some (nodes, error, s') \<and> good (sh_lists s')
    \<and> (case error of
         Some _ \<Rightarrow> listed (sh_lists s') = listed (sh_lists s)
       | None \<Rightarrow> apiError = None \<and> listed (sh_lists s') = (listed (sh_lists s))(t \<mapsto> uids))"
proof -
  let ?b = "new_batch_loading (Some SHARING_BATCH_LOADING_SIZE)" and ?s = "s\<lparr>sh_outside := w\<rparr>"
  obtain nodes r b' s' where l: "load_listed (iterateNodesAndIgnoreMissingOnes svc) uids apiError ?b ?s = Some (nodes, r, b', s')"
    and s': "sh_lists s' = sh_lists s" and r: "apiError \<noteq> None \<longrightarrow> load_error r \<noteq> None"
    using load_listed_keeps [OF iterating_keeps, of ?s "sh_lists s" svc uids apiError ?b] by auto
  have start: "iterateSharedNodesFromAPI ul svc t from_api s =
      (case load_error r of
         Some error \<Rightarrow> Some (nodes, Some error, s')
       | None \<Rightarrow> (case on_lists (sl_set ul t (Some uids)) s' of
                   (Inl error, s'') \<Rightarrow> Some (nodes, Some error, s'')
                 | (Inr _, s'') \<Rightarrow> Some (nodes, None, s'')))"
    by (simp add: iterateSharedNodesFromAPI_def from_api l)
  show ?thesis
  proof (cases "load_error r")
    case None
    obtain c where "sl_set ul t (Some uids) (sh_lists s) = (Inr (), c)" "good c" "listed c = (listed (sh_lists s))(t \<mapsto> uids)"
      using was_set [OF assms(1)] by blast
    then show ?thesis using start None r s' by (simp add: on_lists_def)
  qed (simp add: start s' assms(1))
qed

lemma listed_from_served_api:
  assumes "good (sh_lists s)" "serves_nodes svc known" and from_api: "from_api (sh_outside s) = (uids, None, w)"
  shows "\<exists>s'. iterateSharedNodesFromAPI ul svc t from_api s = Some (listed_nodes (map known uids), None, s') \<and> good (sh_lists s')
    \<and> (\<exists>c. sl_set ul t (Some uids) (sh_lists s) = (Inr (), c) \<and> sh_lists s' = c)
    \<and> listed (sh_lists s') = (listed (sh_lists s))(t \<mapsto> uids)"
proof -
  let ?b = "new_batch_loading (Some SHARING_BATCH_LOADING_SIZE) :: string batch_loading" and ?s = "s\<lparr>sh_outside := w\<rparr>"
  have b: "bl_itemsToFetch ?b = []" "bl_errors ?b = []" "0 < bl_batchSize ?b"
    by (simp_all add: new_batch_loading_def batch_size_option_def SHARING_BATCH_LOADING_SIZE_def)
  obtain b' s' where l: "load_all (iterateNodesAndIgnoreMissingOnes svc) uids ?b ?s
      = Some (listed_nodes (map known uids), LoadedAll, b', s')" and s': "sh_lists s' = sh_lists s"
    using load_all_served [OF assms(2), of ?b uids ?s] b by auto
  obtain c where c: "sl_set ul t (Some uids) (sh_lists s) = (Inr (), c)" "good c" "listed c = (listed (sh_lists s))(t \<mapsto> uids)"
    using was_set [OF assms(1)] by blast
  then have "iterateSharedNodesFromAPI ul svc t from_api s = Some (listed_nodes (map known uids), None, s'\<lparr>sh_lists := c\<rparr>)"
    by (simp add: iterateSharedNodesFromAPI_def from_api load_listed_complete l load_error_def on_lists_def s')
  then show ?thesis using c by simp
qed

lemma listed_from_cache:
  assumes "good (sh_lists s)" "serves_nodes svc known" "listed (sh_lists s) t = Some uids"
  shows "\<exists>s'. iterate_shared ul svc t from_api s = Some (listed_nodes (map known uids), None, s') \<and> good (sh_lists s')
    \<and> listed (sh_lists s') = listed (sh_lists s)"
proof -
  let ?b = "new_batch_loading (Some SHARING_BATCH_LOADING_SIZE) :: string batch_loading"
  have b: "bl_itemsToFetch ?b = []" "bl_errors ?b = []" "0 < bl_batchSize ?b"
    by (simp_all add: new_batch_loading_def batch_size_option_def SHARING_BATCH_LOADING_SIZE_def)
  obtain c where c: "sl_get ul t (sh_lists s) = (Inr uids, c)" "good c" "listed c = listed (sh_lists s)"
    using got [OF assms(1,3)] by blast
  obtain b' s' where "load_all (iterateNodesAndIgnoreMissingOnes svc) uids ?b (s\<lparr>sh_lists := c\<rparr>)
      = Some (listed_nodes (map known uids), LoadedAll, b', s')" and "sh_lists s' = c"
    using load_all_served [OF assms(2), of ?b uids "s\<lparr>sh_lists := c\<rparr>"] b by auto
  then show ?thesis using c
    by (simp add: iterate_shared_def on_lists_def iterateSharedNodesFromCache_def load_error_def)
qed

lemma not_listed_goes_to_api:
  assumes "good (sh_lists s)" "listed (sh_lists s) t = None"
  shows "iterate_shared ul svc t from_api s = from_api s"
proof -
  obtain e where "sl_get ul t (sh_lists s) = (Inl e, sh_lists s)" using not_got [OF assms] by blast
  then show ?thesis by (simp add: iterate_shared_def on_lists_def)
qed

end

section \<open>Properties\<close>

abbreviation text_memory :: "(string memory_cache, string) cache_ops" where
  "text_memory \<equiv> memory_ops (\<lambda>s. s \<noteq> '''')"

abbreviation memory_sharing :: "string memory_cache sharing_cache shared_list_ops" where
  "memory_sharing \<equiv> SharingCache_ops text_memory"


definition demo_sharing :: "(nat, string, unit) sharing_services" where
  "demo_sharing =
     \<lparr>sv_notifyNodeChanged = (\<lambda>_ n. (Inr (), n)), sv_isOwnVolume = (\<lambda>v n. (Inr (v = ''mine''), n)),
      sv_getRootVolumeId = (\<lambda>n. (Inr ''mine'', n)),
      sv_iterateNodes = (\<lambda>uids n. (map (\<lambda>u. if u = ''gone'' then MissingNode u else Listed u) uids, None, n)),
      sv_iterateSharedNodeUids = (\<lambda>v n. ([''a'', ''b''], None, Suc n)),
      sv_iterateSharedWithMeNodeUids = (\<lambda>n. ([''a'', ''gone'', ''b''], None, Suc n)),
      sv_getNodeShareId = (\<lambda>_ n. (Inr None, n)), sv_loadMemberUid = (\<lambda>_ n. (Inr None, n)),
      sv_removeMember = (\<lambda>_ n. (Inr (), n)), sv_getInvitation = (\<lambda>_ n. (Inr (), n)),
      sv_signAcceptance = (\<lambda>_ n. (Inr '''', n)), sv_invitationNodeUid = (\<lambda>_. '''' ),
      sv_acceptInvitation = (\<lambda>_ _ n. (Inr (), n)), sv_rejectInvitation = (\<lambda>_ n. (Inr (), n))\<rparr>"

definition demo_lists :: "(string memory_cache sharing_cache, nat) sharing_state" where
  "demo_lists = \<lparr>sh_lists = \<lparr>sc_cache = [SharedByMe \<mapsto> [''a'', ''b'']], sc_driveCache = mc_new\<rparr>, sh_outside = 0\<rparr>"



definition nothing_listed :: "(string memory_cache sharing_cache, nat) sharing_state" where
  "nothing_listed = \<lparr>sh_lists = \<lparr>sc_cache = Map.empty, sc_driveCache = mc_new\<rparr>, sh_outside = 0\<rparr>"

lemma nothing_listed_facts:
  "mc_inv (sc_driveCache (sh_lists nothing_listed))" "sharing_listed text_memory (sh_lists nothing_listed) t = None"
  by (simp_all add: nothing_listed_def sharing_listed_def memory_ops_def mc_getEntity_def mc_new_def
    mc_inv_def mc_keysByTag_def)


text \<open>
  Once a complete listing of the nodes shared with the user has run, the next one shows the
  same nodes in the same order without asking the API for the list, whatever the API would answer,
  and so does the first listing after a restart, when the client has only its drive cache left and
  the list was not empty.
\<close>

theorem shared_list_is_reused:
  assumes "mc_inv (sc_driveCache (sh_lists s))" "serves_nodes svc known"
    and "sharing_listed text_memory (sh_lists s) SharedWithMe = None"
    and "sv_iterateSharedWithMeNodeUids svc (sh_outside s) = (uids, None, w)"
  shows "\<exists>s1. iterateSharedNodesWithMe memory_sharing svc s = Some (listed_nodes (map known uids), None, s1)
    \<and> (\<forall>api o1. \<exists>s2. iterateSharedNodesWithMe memory_sharing (svc\<lparr>sv_iterateSharedWithMeNodeUids := api\<rparr>) (s1\<lparr>sh_outside := o1\<rparr>)
         = Some (listed_nodes (map known uids), None, s2))
    \<and> (uids \<noteq> [] \<and> (\<forall>u \<in> set uids. u \<noteq> '''' \<and> comma \<notin> set u) \<longrightarrow>
        (\<forall>api o1. \<exists>s2. iterateSharedNodesWithMe memory_sharing (svc\<lparr>sv_iterateSharedWithMeNodeUids := api\<rparr>)
            (s1\<lparr>sh_lists := (sh_lists s1)\<lparr>sc_cache := Map.empty\<rparr>, sh_outside := o1\<rparr>)
         = Some (listed_nodes (map known uids), None, s2)))"
proof -
  obtain s1 where s1: "iterateSharedNodesWithMe memory_sharing svc s = Some (listed_nodes (map known uids), None, s1)"
    "mc_inv (sc_driveCache (sh_lists s1))"
    "sl_set memory_sharing SharedWithMe (Some uids) (sh_lists s) = (Inr (), sh_lists s1)"
    "sharing_listed text_memory (sh_lists s1) = (sharing_listed text_memory (sh_lists s))(SharedWithMe \<mapsto> uids)"
    using mem_lists.lists.listed_from_served_api [where from_api = "sv_iterateSharedWithMeNodeUids svc", OF assms(1,2,4), of SharedWithMe]
      mem_lists.lists.not_listed_goes_to_api [OF assms(1,3)] unfolding iterateSharedNodesWithMe_def by metis
  have again: "\<exists>s2. iterateSharedNodesWithMe memory_sharing (svc\<lparr>sv_iterateSharedWithMeNodeUids := api\<rparr>) t
      = Some (listed_nodes (map known uids), None, s2)"
    if "mc_inv (sc_driveCache (sh_lists t))" "sharing_listed text_memory (sh_lists t) SharedWithMe = Some uids" for t api
  proof -
    have "serves_nodes (svc\<lparr>sv_iterateSharedWithMeNodeUids := api\<rparr>) known" using assms(2) by (simp add: serves_nodes_def)
    from mem_lists.lists.listed_from_cache [OF that(1) this that(2)] show ?thesis
      unfolding iterateSharedNodesWithMe_def by metis
  qed
  have kept: "sharing_listed text_memory ((sh_lists s1)\<lparr>sc_cache := Map.empty\<rparr>) SharedWithMe = Some uids"
    if "uids \<noteq> []" "\<forall>u \<in> set uids. u \<noteq> '''' \<and> comma \<notin> set u"
  proof -
    have "js_join comma uids \<noteq> ''''" using that by (cases "(comma, uids)" rule: js_join.cases) auto
    moreover have "sc_driveCache (sh_lists s1) =
        co_setEntity text_memory (sharing_key SharedWithMe) (js_join comma uids) None (sc_driveCache (sh_lists s))"
      using arg_cong [OF s1(3), of "\<lambda>q. sc_driveCache (snd q)"] by (simp add: SharingCache_ops_def sc_setNodeUids_def)
    ultimately show ?thesis
      using that js_split_join [of uids comma] assms(1) by (simp add: sharing_listed_def mem.get_set_same)
  qed
  show ?thesis using s1 again kept by auto
qed

theorem shared_list_is_reused_witness:
  "\<exists>s1 s2. iterateSharedNodesWithMe memory_sharing demo_sharing nothing_listed = Some ([''a'', ''b''], None, s1)
     \<and> iterateSharedNodesWithMe memory_sharing (demo_sharing\<lparr>sv_iterateSharedWithMeNodeUids := \<lambda>n. ([], None, n)\<rparr>)
         (s1\<lparr>sh_lists := (sh_lists s1)\<lparr>sc_cache := Map.empty\<rparr>, sh_outside := 7\<rparr>) = Some ([''a'', ''b''], None, s2)"
proof -
  let ?known = "\<lambda>u. if u = ''gone'' then MissingNode u else Listed u" and ?uids = "[''a'', ''gone'', ''b'']"
  have serves: "serves_nodes demo_sharing ?known" by (simp add: serves_nodes_def demo_sharing_def)
  have api: "sv_iterateSharedWithMeNodeUids demo_sharing (sh_outside nothing_listed) = (?uids, None, 1)"
    by (simp add: demo_sharing_def nothing_listed_def)
  have nodes: "listed_nodes (map ?known ?uids) = [''a'', ''b'']" by (simp add: listed_nodes_def List.map_filter_def)
  have uids: "?uids \<noteq> [] \<and> (\<forall>u \<in> set ?uids. u \<noteq> '''' \<and> comma \<notin> set u)" by (simp add: comma_def)
  show ?thesis
    using shared_list_is_reused [OF nothing_listed_facts(1) serves nothing_listed_facts(2) api] uids
    unfolding nodes by blast
qed

end
