(* ===== verification/SharingLinks.thy ===== *)
theory SharingLinks
  imports Effects Uids "HOL-Library.Word"
begin

text \<open>
  Public links: what \<open>SharingAPIService\<close> (\<^verbatim>\<open>internal/sharing/apiService.ts\<close>) sends and reads,
  the passwords of \<open>SharingCryptoService\<close> (\<^verbatim>\<open>cryptoService.ts\<close>), and the link operations of
  \<open>SharingManagement\<close> (\<^verbatim>\<open>sharingManagement.ts\<close>). The HTTP endpoints, OpenPGP, the account and the
  random numbers are parameters; a date is its number of milliseconds.
\<close>

section \<open>Roles and permissions\<close>

datatype member_role = Viewer | Editor | Admin | Inherited

definition permissionsToMemberRole :: "int option \<Rightarrow> member_role" where
  "permissionsToMemberRole permissionsNumber =
     (case permissionsNumber of
        None \<Rightarrow> Inherited
      | Some n \<Rightarrow> if n = 4 then Viewer else if n = 6 then Editor else if n = 22 then Admin else Viewer)"

fun memberRoleToPermission :: "member_role \<Rightarrow> thrown + int" where
  "memberRoleToPermission Inherited = Inl (throw_new JsError ''Cannot convert inherited role to permission'')"
| "memberRoleToPermission Viewer = Inr 4"
| "memberRoleToPermission Editor = Inr 6"
| "memberRoleToPermission Admin = Inr 22"

lemma role_roundtrip: "memberRoleToPermission role = Inr p \<Longrightarrow> permissionsToMemberRole (Some p) = role"
  by (cases role) (auto simp: permissionsToMemberRole_def)

section \<open>Data\<close>

text \<open>A link on the server, and the fields a request sets of it.\<close>

record share_url =
  su_ShareID :: string
  su_ShareURLID :: string
  su_CreateTime :: int
  su_ExpirationTime :: "int option"
  su_Permissions :: "int option"
  su_Flags :: int
  su_CreatorEmail :: string
  su_PublicUrl :: string
  su_NumAccesses :: nat
  su_Password :: string

record link_payload =
  lp_Permissions :: int
  lp_Flags :: int
  lp_ExpirationTime :: "int option"
  lp_SharePasswordSalt :: string
  lp_SharePassphraseKeyPacket :: string
  lp_Password :: string
  lp_UrlPasswordSalt :: string
  lp_SRPVerifier :: string
  lp_SRPModulusID :: string
  lp_MaxAccesses :: nat

record link_crypto =
  lc_base64SharePasswordSalt :: string
  lc_base64SharePassphraseKeyPacket :: string
  lc_armoredPassword :: string

record srp_verifier =
  srp_salt :: string
  srp_verifier :: string
  srp_modulusId :: string

record encrypted_public_link =
  el_uid :: string
  el_creationTime :: int
  el_expirationTime :: "int option"
  el_role :: member_role
  el_flags :: int
  el_creatorEmail :: string
  el_publicUrl :: string
  el_numberOfInitializedDownloads :: nat
  el_armoredUrlPassword :: string

record public_link =
  pl_uid :: string
  pl_creationTime :: int
  pl_role :: member_role
  pl_url :: string
  pl_customPassword :: "string option"
  pl_expirationTime :: "int option"
  pl_numberOfInitializedDownloads :: nat
  pl_creatorEmail :: string

record link_options =
  lo_role :: member_role
  lo_customPassword :: "string option"
  lo_expiration :: "int option"

record link_request =
  lr_creatorEmail :: string
  lr_role :: member_role
  lr_includesCustomPassword :: bool
  lr_expirationTime :: "int option"
  lr_crypto :: link_crypto
  lr_srp :: srp_verifier

record 'sk share =
  sh_volumeId :: string
  sh_shareId :: string
  sh_creatorEmail :: string
  sh_passphraseSessionKey :: 'sk

record 'k context_address =
  ca_addressId :: string
  ca_addressKey :: 'k
  ca_email :: string

text \<open>What the code calls: the four endpoints, the root volume, the account, OpenPGP, random numbers and the clock.\<close>

record ('s, 'k, 'sk) link_services =
  ls_getShareUrls :: "string \<Rightarrow> ('s, share_url list option) act"
  ls_postShareUrl :: "string \<Rightarrow> string \<Rightarrow> link_payload \<Rightarrow> ('s, string \<times> string) act"
  ls_putShareUrl :: "string \<Rightarrow> string \<Rightarrow> link_payload \<Rightarrow> ('s, unit) act"
  ls_deleteShareUrl :: "string \<Rightarrow> string \<Rightarrow> ('s, unit) act"
  ls_getRootVolumeId :: "('s, string) act"
  ls_getOwnAddress :: "string \<Rightarrow> ('s, 'k list \<times> nat) act"
  ls_encryptPassword :: "string \<Rightarrow> 'k \<Rightarrow> 'sk \<Rightarrow> ('s, link_crypto \<times> srp_verifier) act"
  ls_decryptShareUrlPassword :: "string \<Rightarrow> 'k list \<Rightarrow> ('s, string) act"
  ls_getRandomValues :: "('s, nat \<Rightarrow> 32 word) act"
  ls_now :: "('s, int) act"

section \<open>Passwords\<close>

definition PUBLIC_LINK_GENERATED_PASSWORD_LENGTH :: nat where
  "PUBLIC_LINK_GENERATED_PASSWORD_LENGTH = 12"

definition charset :: string where
  "charset = ''ABCDEFGHIJKLMNOPQRSTUVWXYZabcdefghijklmnopqrstuvwxyz0123456789''"

definition generatePublicLinkPassword :: "('s, 'k, 'sk) link_services \<Rightarrow> ('s, string) act" where
  "generatePublicLinkPassword svc =
     await (ls_getRandomValues svc) (\<lambda>values.
       give (map (\<lambda>i. charset ! (unat (values i) mod length charset)) [0..<PUBLIC_LINK_GENERATED_PASSWORD_LENGTH]))"

definition splitGeneratedAndCustomPassword :: "string \<Rightarrow> string \<times> string option" where
  "splitGeneratedAndCustomPassword concatenatedPassword =
     (take PUBLIC_LINK_GENERATED_PASSWORD_LENGTH concatenatedPassword,
      present (Some (drop PUBLIC_LINK_GENERATED_PASSWORD_LENGTH concatenatedPassword)))"

definition with_custom_password :: "string \<Rightarrow> string option \<Rightarrow> string" where
  "with_custom_password generatedPassword customPassword =
     (case present customPassword of Some custom \<Rightarrow> generatedPassword @ custom | None \<Rightarrow> generatedPassword)"

definition encryptPublicLink ::
  "('s, 'k, 'sk) link_services \<Rightarrow> string \<Rightarrow> 'sk \<Rightarrow> string \<Rightarrow> ('s, link_crypto \<times> srp_verifier) act"
where
  "encryptPublicLink svc creatorEmail shareSessionKey password =
     await (ls_getOwnAddress svc creatorEmail) (\<lambda>(keys, primaryKeyIndex).
       if primaryKeyIndex < length keys then ls_encryptPassword svc password (keys ! primaryKeyIndex) shareSessionKey
       else throw_act (throw_new JsTypeError ''Cannot read properties of undefined''))"

definition decryptShareUrlPassword ::
  "('s, 'k, 'sk) link_services \<Rightarrow> encrypted_public_link \<Rightarrow> 'k list \<Rightarrow> ('s, string \<times> string option) act"
where
  "decryptShareUrlPassword svc link addressKeys =
     await (ls_decryptShareUrlPassword svc (el_armoredUrlPassword link) addressKeys) (\<lambda>password.
       if el_flags link = 0 \<or> el_flags link = 1 then give (password, None)
       else if el_flags link = 2 \<or> el_flags link = 3 then give (splitGeneratedAndCustomPassword password)
       else throw_act (throw_new JsError ''Unsupported public link with flags''))"

definition hash_sign :: char where "hash_sign = CHR 0x23"

definition decryptPublicLink :: "('s, 'k, 'sk) link_services \<Rightarrow> encrypted_public_link \<Rightarrow> ('s, public_link) act" where
  "decryptPublicLink svc link =
     await (ls_getOwnAddress svc (el_creatorEmail link)) (\<lambda>(keys, _).
     await (decryptShareUrlPassword svc link keys) (\<lambda>(password, customPassword).
       give \<lparr>pl_uid = el_uid link, pl_creationTime = el_creationTime link, pl_role = el_role link,
             pl_url = el_publicUrl link @ hash_sign # password, pl_customPassword = customPassword,
             pl_expirationTime = el_expirationTime link,
             pl_numberOfInitializedDownloads = el_numberOfInitializedDownloads link,
             pl_creatorEmail = el_creatorEmail link\<rparr>))"

section \<open>SharingAPIService\<close>

text \<open>\<open>publicLink.expirationTime || null\<close>: a time of 0 is sent as none, and 0 is read as none.\<close>

definition nonzero :: "int option \<Rightarrow> int option" where
  "nonzero t = (if t = Some 0 then None else t)"

definition api_getPublicLink :: "('s, 'k, 'sk) link_services \<Rightarrow> string \<Rightarrow> ('s, encrypted_public_link option) act" where
  "api_getPublicLink svc shareId =
     await (ls_getShareUrls svc shareId) (\<lambda>shareURLs.
       give (case shareURLs of
           Some (shareUrl # _) \<Rightarrow>
             Some \<lparr>el_uid = makePublicLinkUid (su_ShareID shareUrl) (su_ShareURLID shareUrl),
                   el_creationTime = su_CreateTime shareUrl * 1000,
                   el_expirationTime = map_option (\<lambda>t. t * 1000) (nonzero (su_ExpirationTime shareUrl)),
                   el_role = permissionsToMemberRole (su_Permissions shareUrl), el_flags = su_Flags shareUrl,
                   el_creatorEmail = su_CreatorEmail shareUrl, el_publicUrl = su_PublicUrl shareUrl,
                   el_numberOfInitializedDownloads = su_NumAccesses shareUrl,
                   el_armoredUrlPassword = su_Password shareUrl\<rparr>
         | _ \<Rightarrow> None))"

definition generatePublicLinkRequestPayload :: "link_request \<Rightarrow> thrown + link_payload" where
  "generatePublicLinkRequestPayload publicLink =
     (case memberRoleToPermission (lr_role publicLink) of
        Inl error \<Rightarrow> Inl error
      | Inr permissions \<Rightarrow>
          Inr \<lparr>lp_Permissions = permissions, lp_Flags = (if lr_includesCustomPassword publicLink then 3 else 2),
               lp_ExpirationTime = nonzero (lr_expirationTime publicLink),
               lp_SharePasswordSalt = lc_base64SharePasswordSalt (lr_crypto publicLink),
               lp_SharePassphraseKeyPacket = lc_base64SharePassphraseKeyPacket (lr_crypto publicLink),
               lp_Password = lc_armoredPassword (lr_crypto publicLink),
               lp_UrlPasswordSalt = srp_salt (lr_srp publicLink),
               lp_SRPVerifier = srp_verifier (lr_srp publicLink),
               lp_SRPModulusID = srp_modulusId (lr_srp publicLink), lp_MaxAccesses = 0\<rparr>)"

definition createPublicLink ::
  "('s, 'k, 'sk) link_services \<Rightarrow> string \<Rightarrow> link_request \<Rightarrow> ('s, string \<times> string) act"
where
  "createPublicLink svc shareId publicLink =
     (if lr_role publicLink = Admin then throw_act (throw_new JsError ''Cannot set admin role for public link.'')
      else await (of_result (generatePublicLinkRequestPayload publicLink)) (\<lambda>payload.
           await (ls_postShareUrl svc shareId (lr_creatorEmail publicLink) payload) (\<lambda>(shareURLID, publicUrl).
             give (makePublicLinkUid shareId shareURLID, publicUrl))))"

definition updatePublicLink :: "('s, 'k, 'sk) link_services \<Rightarrow> string \<Rightarrow> link_request \<Rightarrow> ('s, unit) act" where
  "updatePublicLink svc publicLinkUid publicLink =
     (if lr_role publicLink = Admin then throw_act (throw_new JsError ''Cannot set admin role for public link.'')
      else await (of_result (splitPublicLinkUid publicLinkUid)) (\<lambda>(shareId, publicLinkId).
           await (of_result (generatePublicLinkRequestPayload publicLink)) (\<lambda>payload.
             ls_putShareUrl svc shareId publicLinkId payload)))"

definition removePublicLink :: "('s, 'k, 'sk) link_services \<Rightarrow> string \<Rightarrow> ('s, unit) act" where
  "removePublicLink svc publicLinkUid =
     await (of_result (splitPublicLinkUid publicLinkUid)) (\<lambda>(shareId, publicLinkId).
       ls_deleteShareUrl svc shareId publicLinkId)"

section \<open>SharingManagement\<close>

definition getPublicLink :: "('s, 'k, 'sk) link_services \<Rightarrow> string \<Rightarrow> string \<Rightarrow> ('s, public_link option) act" where
  "getPublicLink svc shareId volumeId =
     await (ls_getRootVolumeId svc) (\<lambda>rootVolumeId.
       if volumeId \<noteq> rootVolumeId then give None
       else await (api_getPublicLink svc shareId) (\<lambda>encryptedPublicLink.
            case encryptedPublicLink of
              None \<Rightarrow> give None
            | Some link \<Rightarrow> await (decryptPublicLink svc link) (\<lambda>publicLink. give (Some publicLink))))"

definition link_request_of :: "string \<Rightarrow> link_options \<Rightarrow> link_crypto \<times> srp_verifier \<Rightarrow> link_request" where
  "link_request_of creatorEmail options c =
     \<lparr>lr_creatorEmail = creatorEmail, lr_role = lo_role options,
      lr_includesCustomPassword = (present (lo_customPassword options) \<noteq> None),
      lr_expirationTime = map_option (\<lambda>t. t div 1000) (lo_expiration options),
      lr_crypto = fst c, lr_srp = snd c\<rparr>"

definition new_public_link where
  "new_public_link creatorEmail options generatedPassword uid publicUrl now =
     \<lparr>pl_uid = uid, pl_creationTime = now, pl_role = lo_role options,
      pl_url = publicUrl @ hash_sign # generatedPassword,
      pl_customPassword = lo_customPassword options, pl_expirationTime = lo_expiration options,
      pl_numberOfInitializedDownloads = 0, pl_creatorEmail = creatorEmail\<rparr>"

definition shareViaLink ::
  "('s, 'k, 'sk) link_services \<Rightarrow> 'k context_address \<Rightarrow> 'sk share \<Rightarrow> link_options \<Rightarrow> ('s, public_link) act"
where
  "shareViaLink svc inviter share options =
     await (ls_getRootVolumeId svc) (\<lambda>rootVolumeId.
       if sh_volumeId share \<noteq> rootVolumeId
       then throw_act (throw_new ValidationError ''Cannot create public link for volume not owned by the user'')
       else await (generatePublicLinkPassword svc) (\<lambda>generatedPassword.
            await (encryptPublicLink svc (ca_email inviter) (sh_passphraseSessionKey share)
                     (with_custom_password generatedPassword (lo_customPassword options))) (\<lambda>c.
            await (createPublicLink svc (sh_shareId share) (link_request_of (ca_email inviter) options c)) (\<lambda>(uid, publicUrl).
            await (ls_now svc) (\<lambda>now.
              give (new_public_link (ca_email inviter) options generatedPassword uid publicUrl now))))))"

text \<open>\<open>publicLink.url.split('#')[1]\<close>, \<open>None\<close> for \<open>undefined\<close> and for the empty string.\<close>

definition generated_password_of :: "string \<Rightarrow> string option" where
  "generated_password_of url = (case js_split hash_sign url of _ # password # _ \<Rightarrow> present (Some password) | _ \<Rightarrow> None)"

definition updateSharedLink ::
  "('s, 'k, 'sk) link_services \<Rightarrow> 'sk share \<Rightarrow> public_link \<Rightarrow> link_options \<Rightarrow> ('s, public_link) act"
where
  "updateSharedLink svc share publicLink options =
     await (ls_getRootVolumeId svc) (\<lambda>rootVolumeId.
       if sh_volumeId share \<noteq> rootVolumeId
       then throw_act (throw_new ValidationError ''Cannot update public link for volume not owned by the user'')
       else
         (case generated_password_of (pl_url publicLink) of
            Some generatedPassword \<Rightarrow>
              if length generatedPassword \<noteq> PUBLIC_LINK_GENERATED_PASSWORD_LENGTH
              then throw_act (throw_new ValidationError ''Legacy public link cannot be updated. Please re-create a new public link.'')
              else await (encryptPublicLink svc (pl_creatorEmail publicLink) (sh_passphraseSessionKey share)
                            (with_custom_password generatedPassword (lo_customPassword options))) (\<lambda>c.
                   await (updatePublicLink svc (pl_uid publicLink) (link_request_of (pl_creatorEmail publicLink) options c)) (\<lambda>_.
                     give (publicLink\<lparr>pl_role := lo_role options, pl_customPassword := lo_customPassword options,
                                      pl_expirationTime := lo_expiration options\<rparr>)))
          | None \<Rightarrow>
              throw_act (throw_new ValidationError ''Legacy public link cannot be updated. Please re-create a new public link.'')))"

definition removeSharedLink :: "('s, 'k, 'sk) link_services \<Rightarrow> string \<Rightarrow> ('s, unit) act" where
  "removeSharedLink svc publicLinkUid = removePublicLink svc publicLinkUid"

lemma nonzero_twice [simp]: "nonzero (nonzero t) = nonzero t"
  by (simp add: nonzero_def)

section \<open>A server that stores links\<close>

text \<open>
  What the server keeps of a link is \<open>view s shareId\<close>: a request that succeeds changes just that, and
  reading gives it back. OpenPGP opens a password with any keys among which is the one it was encrypted
  with, the own volume is \<open>vol\<close> and \<open>keys\<close> are those of the addresses.
\<close>

definition payload_of :: "link_payload \<Rightarrow> share_url \<Rightarrow> share_url" where
  "payload_of p u =
     u\<lparr>su_ExpirationTime := lp_ExpirationTime p, su_Permissions := Some (lp_Permissions p), su_Flags := lp_Flags p,
       su_Password := lp_Password p\<rparr>"

definition stores_links :: "('s, 'k, 'sk) link_services \<Rightarrow> ('s \<Rightarrow> string \<Rightarrow> share_url option) \<Rightarrow> bool" where
  "stores_links svc view \<longleftrightarrow>
     (\<forall>sid creator p s i url s'. ls_postShareUrl svc sid creator p s = (Inr (i, url), s') \<longrightarrow>
        hash_sign \<notin> set url \<and> tilde \<notin> set i \<and>
        (\<exists>u. view s' sid = Some (payload_of p u) \<and> su_ShareID u = sid \<and> su_ShareURLID u = i
             \<and> su_CreatorEmail u = creator \<and> su_PublicUrl u = url)) \<and>
     (\<forall>sid p s s' u. view s sid = Some u \<longrightarrow> ls_putShareUrl svc sid (su_ShareURLID u) p s = (Inr (), s') \<longrightarrow>
        view s' sid = Some (payload_of p u)) \<and>
     (\<forall>sid s. \<exists>s'. ls_getShareUrls svc sid s = (Inr (map_option (\<lambda>u. [u]) (view s sid)), s'))"

definition knows_keys ::
  "('s, 'k, 'sk) link_services \<Rightarrow> ('s \<Rightarrow> string \<Rightarrow> share_url option) \<Rightarrow> string \<Rightarrow> (string \<Rightarrow> 'k list) \<Rightarrow> bool"
where
  "knows_keys svc view vol keys \<longleftrightarrow>
     (\<forall>s. \<exists>s'. ls_getRootVolumeId svc s = (Inr vol, s') \<and> view s' = view s) \<and>
     (\<forall>e s. \<exists>i s'. ls_getOwnAddress svc e s = (Inr (keys e, i), s') \<and> view s' = view s) \<and>
     (\<forall>password k sk s c v s'. ls_encryptPassword svc password k sk s = (Inr (c, v), s') \<longrightarrow>
        (\<forall>ks t. k \<in> set ks \<longrightarrow> (\<exists>t'. ls_decryptShareUrlPassword svc (lc_armoredPassword c) ks t = (Inr password, t')))) \<and>
     (\<forall>password k sk. leaves view (ls_encryptPassword svc password k sk)) \<and>
     leaves view (ls_getRandomValues svc) \<and> leaves view (ls_now svc)"

text \<open>The link \<open>l\<close> of the client is the one the server keeps, with the settings \<open>opt\<close>.\<close>

definition link_agrees ::
  "('s, 'k, 'sk) link_services \<Rightarrow> (string \<Rightarrow> 'k list) \<Rightarrow> string \<Rightarrow> public_link \<Rightarrow> link_options \<Rightarrow> share_url \<Rightarrow> bool"
where
  "link_agrees svc keys sid l opt u \<longleftrightarrow>
     su_ShareID u = sid \<and> tilde \<notin> set (su_ShareURLID u) \<and> hash_sign \<notin> set (su_PublicUrl u)
     \<and> pl_uid l = makePublicLinkUid sid (su_ShareURLID u) \<and> pl_creatorEmail l = su_CreatorEmail u
     \<and> su_Flags u \<in> {2, 3} \<and> su_ExpirationTime u = nonzero (map_option (\<lambda>t. t div 1000) (lo_expiration opt))
     \<and> (\<exists>permissions. su_Permissions u = Some permissions \<and> memberRoleToPermission (lo_role opt) = Inr permissions)
     \<and> (\<exists>password. pl_url l = su_PublicUrl u @ hash_sign # password
          \<and> length password = PUBLIC_LINK_GENERATED_PASSWORD_LENGTH \<and> set password \<subseteq> set charset
          \<and> (\<forall>t. \<exists>t'. ls_decryptShareUrlPassword svc (su_Password u) (keys (su_CreatorEmail u)) t
                = (Inr (with_custom_password password (lo_customPassword opt)), t')))"

lemma charset_plain: "hash_sign \<notin> set charset" "0 < length charset"
  by (simp_all add: charset_def hash_sign_def)

lemma split_generated:
  "length password = PUBLIC_LINK_GENERATED_PASSWORD_LENGTH \<Longrightarrow>
     splitGeneratedAndCustomPassword (with_custom_password password custom) = (password, present custom)"
  by (auto simp: splitGeneratedAndCustomPassword_def with_custom_password_def present_def split: option.splits list.splits)

lemma generated_password:
  assumes "hash_sign \<notin> set base" "hash_sign \<notin> set password" "password \<noteq> ''''"
  shows "generated_password_of (base @ hash_sign # password) = Some password"
  using assms by (simp add: generated_password_of_def js_split_append_sep js_split_no_sep present_def split: list.splits)

lemma payload_ok:
  "generatePublicLinkRequestPayload (link_request_of e opt c) = Inr p \<Longrightarrow>
     memberRoleToPermission (lo_role opt) = Inr (lp_Permissions p) \<and> lp_Flags p \<in> {2, 3}
     \<and> lp_ExpirationTime p = nonzero (map_option (\<lambda>t. t div 1000) (lo_expiration opt))
     \<and> lp_Password p = lc_armoredPassword (fst c)"
  by (auto simp: generatePublicLinkRequestPayload_def link_request_of_def split: sum.splits if_splits)

lemma encrypted_with_own_key:
  assumes "knows_keys svc view vol keys" "encryptPublicLink svc e sk password s = (Inr c, s')"
  shows "view s' = view s \<and> (\<forall>t. \<exists>t'. ls_decryptShareUrlPassword svc (lc_armoredPassword (fst c)) (keys e) t = (Inr password, t'))"
proof -
  obtain i s1 where a: "ls_getOwnAddress svc e s = (Inr (keys e, i), s1)" "view s1 = view s"
    using assms(1) unfolding knows_keys_def by blast
  then have i: "i < length (keys e)" and enc: "ls_encryptPassword svc password (keys e ! i) sk s1 = (Inr c, s')"
    using assms(2) by (auto simp: encryptPublicLink_def await_def throw_act_def split: if_splits)
  have "view s' = view s1" using assms(1) enc leavesD [of view] unfolding knows_keys_def by blast
  moreover have "keys e ! i \<in> set (keys e)" using i by simp
  ultimately show ?thesis using assms(1) enc a(2) unfolding knows_keys_def by (cases c) fastforce
qed

lemma generated:
  assumes "knows_keys svc view vol keys" "generatePublicLinkPassword svc s = (Inr password, s')"
  shows "view s' = view s \<and> length password = PUBLIC_LINK_GENERATED_PASSWORD_LENGTH \<and> set password \<subseteq> set charset"
proof -
  obtain vs where v: "ls_getRandomValues svc s = (Inr vs, s')"
    and password: "password = map (\<lambda>i. charset ! (unat (vs i) mod length charset)) [0..<PUBLIC_LINK_GENERATED_PASSWORD_LENGTH]"
    using assms(2) by (auto simp: generatePublicLinkPassword_def give_def dest!: await_ok)
  have "view s' = view s" using assms(1) v leavesD [of view] unfolding knows_keys_def by blast
  moreover have "charset ! (n mod length charset) \<in> set charset" for n using charset_plain(2) by simp
  ultimately show ?thesis unfolding password by auto
qed

lemma encrypted_for_settings:
  assumes "memberRoleToPermission (lo_role opt) = Inr (lp_Permissions p)" "lp_Flags p \<in> {2, 3}"
    and "lp_ExpirationTime p = nonzero (map_option (\<lambda>t. t div 1000) (lo_expiration opt))"
    and "\<forall>t. \<exists>t'. ls_decryptShareUrlPassword svc (lp_Password p) (keys (su_CreatorEmail u)) t
           = (Inr (with_custom_password password (lo_customPassword opt)), t')"
    and "su_ShareID u = sid" "tilde \<notin> set (su_ShareURLID u)" "hash_sign \<notin> set (su_PublicUrl u)"
    and "pl_uid l = makePublicLinkUid sid (su_ShareURLID u)" "pl_creatorEmail l = su_CreatorEmail u"
    and "pl_url l = su_PublicUrl u @ hash_sign # password"
    and "length password = PUBLIC_LINK_GENERATED_PASSWORD_LENGTH" "set password \<subseteq> set charset"
  shows "link_agrees svc keys sid l opt (payload_of p u)"
  using assms by (simp add: link_agrees_def payload_of_def)

lemma shared_link_agrees:
  assumes "stores_links svc view" "knows_keys svc view vol keys"
    and run: "shareViaLink svc inviter share opt s = (Inr l, s')"
  shows "\<exists>u. view s' (sh_shareId share) = Some u \<and> link_agrees svc keys (sh_shareId share) l opt u"
proof -
  obtain password c uid publicUrl s1 s2 s3 s4 now where gen: "generatePublicLinkPassword svc s1 = (Inr password, s2)"
    and enc: "encryptPublicLink svc (ca_email inviter) (sh_passphraseSessionKey share)
        (with_custom_password password (lo_customPassword opt)) s2 = (Inr c, s3)"
    and create: "createPublicLink svc (sh_shareId share) (link_request_of (ca_email inviter) opt c) s3 = (Inr (uid, publicUrl), s4)"
    and now: "ls_now svc s4 = (Inr now, s')"
    and l: "l = new_public_link (ca_email inviter) opt password uid publicUrl now"
    using run unfolding shareViaLink_def
    by (auto simp: throw_act_def give_def split: if_splits dest!: await_ok)
  obtain p i where p: "generatePublicLinkRequestPayload (link_request_of (ca_email inviter) opt c) = Inr p"
    and post: "ls_postShareUrl svc (sh_shareId share) (ca_email inviter) p s3 = (Inr (i, publicUrl), s4)"
    and uid: "uid = makePublicLinkUid (sh_shareId share) i"
    using create by (auto simp: createPublicLink_def link_request_of_def of_result_def await_def give_def throw_act_def
        split: if_splits sum.splits prod.splits)
  obtain u where u: "view s4 (sh_shareId share) = Some (payload_of p u)" "su_ShareID u = sh_shareId share"
    "su_ShareURLID u = i" "su_CreatorEmail u = ca_email inviter" "su_PublicUrl u = publicUrl"
    and plain: "hash_sign \<notin> set publicUrl" "tilde \<notin> set i"
    using assms(1) post unfolding stores_links_def by blast
  have "view s' = view s4" using assms(2) now leavesD [of view] unfolding knows_keys_def by blast
  moreover have "link_agrees svc keys (sh_shareId share) l opt (payload_of p u)"
    using payload_ok [OF p] generated [OF assms(2) gen] encrypted_with_own_key [OF assms(2) enc] u plain uid unfolding l new_public_link_def
    by (intro encrypted_for_settings [where password = password]) auto
  ultimately show ?thesis using u(1) by auto
qed

lemma updated_link_agrees:
  assumes "stores_links svc view" "knows_keys svc view vol keys"
    and sid: "tilde \<notin> set (sh_shareId share)" and u: "view s (sh_shareId share) = Some u"
    and agrees: "link_agrees svc keys (sh_shareId share) l opt0 u"
    and run: "updateSharedLink svc share l opt s = (Inr l', s')"
  shows "pl_uid l' = pl_uid l \<and> pl_url l' = pl_url l \<and>
    (\<exists>u'. view s' (sh_shareId share) = Some u' \<and> su_PublicUrl u' = su_PublicUrl u \<and> link_agrees svc keys (sh_shareId share) l' opt u')"
proof -
  let ?sid = "sh_shareId share"
  obtain password where l: "pl_uid l = makePublicLinkUid ?sid (su_ShareURLID u)" "pl_creatorEmail l = su_CreatorEmail u"
    "su_ShareID u = ?sid" "tilde \<notin> set (su_ShareURLID u)" "hash_sign \<notin> set (su_PublicUrl u)"
    and pw: "pl_url l = su_PublicUrl u @ hash_sign # password"
      "length password = PUBLIC_LINK_GENERATED_PASSWORD_LENGTH" "set password \<subseteq> set charset"
    using agrees unfolding link_agrees_def by blast
  have "hash_sign \<notin> set password" "password \<noteq> ''''"
    using pw(2,3) charset_plain(1) by (auto simp: PUBLIC_LINK_GENERATED_PASSWORD_LENGTH_def)
  then have "generated_password_of (pl_url l) = Some password"
    using generated_password [of "su_PublicUrl u" password] pw(1) l(5) by simp
  then obtain c s1 s2 s3 where own: "view s1 = view s"
    and enc: "encryptPublicLink svc (pl_creatorEmail l) (sh_passphraseSessionKey share)
        (with_custom_password password (lo_customPassword opt)) s1 = (Inr c, s2)"
    and upd: "updatePublicLink svc (pl_uid l) (link_request_of (pl_creatorEmail l) opt c) s2 = (Inr (), s')"
    and l': "l' = l\<lparr>pl_role := lo_role opt, pl_customPassword := lo_customPassword opt, pl_expirationTime := lo_expiration opt\<rparr>"
    using run pw(2) assms(2) [unfolded knows_keys_def, THEN conjunct1, rule_format, of s] unfolding updateSharedLink_def
    by (auto simp: throw_act_def give_def split: if_splits dest!: await_ok)
  have split: "splitPublicLinkUid (pl_uid l) = Inr (?sid, su_ShareURLID u)"
    using l(1,4) sid by (simp add: uid_split_defs uid_defs split2_Inr_iff)
  obtain p where p: "generatePublicLinkRequestPayload (link_request_of (pl_creatorEmail l) opt c) = Inr p"
    and put: "ls_putShareUrl svc ?sid (su_ShareURLID u) p s2 = (Inr (), s')"
    using upd by (auto simp: updatePublicLink_def split of_result_def throw_act_def split: if_splits dest!: await_ok)
  have keep: "view s2 = view s" using encrypted_with_own_key [OF assms(2) enc] own by simp
  then have "view s' ?sid = Some (payload_of p u)" using assms(1) u put unfolding stores_links_def by metis
  moreover have "link_agrees svc keys ?sid l' opt (payload_of p u)"
    using payload_ok [OF p] encrypted_with_own_key [OF assms(2) enc] l pw unfolding l'
    by (intro encrypted_for_settings [where password = password]) auto
  ultimately show ?thesis unfolding l' by (auto simp: payload_of_def)
qed

lemma agreed_link_is_read:
  assumes "stores_links svc view" "knows_keys svc view vol keys"
    and u: "view s sid = Some u" and agrees: "link_agrees svc keys sid l opt u"
  shows "\<exists>r s'. getPublicLink svc sid vol s = (Inr (Some r), s') \<and> pl_uid r = pl_uid l \<and> pl_url r = pl_url l
    \<and> pl_creatorEmail r = pl_creatorEmail l \<and> pl_role r = lo_role opt \<and> pl_customPassword r = present (lo_customPassword opt)
    \<and> pl_expirationTime r = map_option (\<lambda>t. t * 1000) (nonzero (map_option (\<lambda>t. t div 1000) (lo_expiration opt)))"
proof -
  obtain password permissions where pw: "pl_url l = su_PublicUrl u @ hash_sign # password"
      "length password = PUBLIC_LINK_GENERATED_PASSWORD_LENGTH"
    and perm: "su_Permissions u = Some permissions" "memberRoleToPermission (lo_role opt) = Inr permissions"
    and dec: "\<And>t. \<exists>t'. ls_decryptShareUrlPassword svc (su_Password u) (keys (su_CreatorEmail u)) t
                = (Inr (with_custom_password password (lo_customPassword opt)), t')"
    using agrees unfolding link_agrees_def by blast
  obtain s1 where s1: "ls_getRootVolumeId svc s = (Inr vol, s1)" "view s1 = view s"
    using assms(2) unfolding knows_keys_def by blast
  obtain s2 where s2: "ls_getShareUrls svc sid s1 = (Inr (Some [u]), s2)"
    using assms(1) u s1(2) unfolding stores_links_def by (metis option.simps(9))
  obtain i s3 where s3: "ls_getOwnAddress svc (su_CreatorEmail u) s2 = (Inr (keys (su_CreatorEmail u), i), s3)"
    using assms(2) unfolding knows_keys_def by blast
  obtain s4 where s4: "ls_decryptShareUrlPassword svc (su_Password u) (keys (su_CreatorEmail u)) s3
      = (Inr (with_custom_password password (lo_customPassword opt)), s4)" using dec by blast
  have flags: "su_Flags u = 2 \<or> su_Flags u = 3" using agrees by (simp add: link_agrees_def)
  show ?thesis
    using agrees pw(1) perm role_roundtrip [OF perm(2)] flags split_generated [OF pw(2), of "lo_customPassword opt"]
    by (auto simp: getPublicLink_def api_getPublicLink_def decryptPublicLink_def decryptShareUrlPassword_def
        await_def give_def s1 s2 s3 s4 link_agrees_def)
qed

lemma updates_keep_link:
  assumes "stores_links svc view" "knows_keys svc view vol keys" "tilde \<notin> set (sh_shareId share)"
  shows "view s (sh_shareId share) = Some u \<Longrightarrow> link_agrees svc keys (sh_shareId share) l opt0 u \<Longrightarrow>
    fold_act (\<lambda>opt l. updateSharedLink svc share l opt) opts l s = (Inr l', s') \<Longrightarrow>
    \<exists>u'. view s' (sh_shareId share) = Some u' \<and> pl_uid l' = pl_uid l \<and> pl_url l' = pl_url l
      \<and> link_agrees svc keys (sh_shareId share) l' (last (opt0 # opts)) u'"
proof (induction opts arbitrary: opt0 l s u)
  case (Cons opt opts)
  obtain l1 s1 where run1: "updateSharedLink svc share l opt s = (Inr l1, s1)"
    and run2: "fold_act (\<lambda>opt l. updateSharedLink svc share l opt) opts l1 s1 = (Inr l', s')"
    using Cons.prems(3) by (auto dest: await_ok)
  show ?case
    using updated_link_agrees [OF assms Cons.prems(1,2) run1] Cons.IH [OF _ _ run2] by fastforce
qed (simp add: give_def)

text \<open>
  C27: a public link the client creates, and then updates any number of times, is read back from the
  server with the same URL, the generated password of twelve plain characters in it, and the settings
  of the last update: its role, its custom password and its expiration rounded down to seconds.
\<close>

theorem public_link_reads_back:
  assumes "stores_links svc view" "knows_keys svc view vol keys" "tilde \<notin> set (sh_shareId share)"
    and "shareViaLink svc inviter share opt s = (Inr link, s1)"
    and "fold_act (\<lambda>o' l. updateSharedLink svc share l o') opts link s1 = (Inr link', s2)"
  shows "\<exists>r s3 base password. getPublicLink svc (sh_shareId share) vol s2 = (Inr (Some r), s3)
    \<and> pl_uid r = pl_uid link \<and> pl_url r = pl_url link
    \<and> pl_url link = base @ hash_sign # password \<and> length password = 12 \<and> set password \<subseteq> set charset
    \<and> pl_role r = lo_role (last (opt # opts))
    \<and> pl_customPassword r = present (lo_customPassword (last (opt # opts)))
    \<and> pl_expirationTime r =
        map_option (\<lambda>t. t * 1000) (nonzero (map_option (\<lambda>t. t div 1000) (lo_expiration (last (opt # opts)))))"
proof -
  obtain u where u: "view s1 (sh_shareId share) = Some u" "link_agrees svc keys (sh_shareId share) link opt u"
    using shared_link_agrees [OF assms(1,2,4)] by blast
  obtain u' where u': "view s2 (sh_shareId share) = Some u'" "pl_uid link' = pl_uid link" "pl_url link' = pl_url link"
    "link_agrees svc keys (sh_shareId share) link' (last (opt # opts)) u'"
    using updates_keep_link [OF assms(1-3) u assms(5)] by blast
  have "\<exists>base password. pl_url link = base @ hash_sign # password \<and> length password = 12 \<and> set password \<subseteq> set charset"
    using u(2) unfolding link_agrees_def PUBLIC_LINK_GENERATED_PASSWORD_LENGTH_def by blast
  then show ?thesis using agreed_link_is_read [OF assms(1,2) u'(1,4)] u'(2,3) by metis
qed

text \<open>A server for one state of links, with an OpenPGP that leaves the password as it is.\<close>

definition demo_links :: "(string \<Rightarrow> share_url option, unit, unit) link_services" where
  "demo_links =
     \<lparr>ls_getShareUrls = (\<lambda>sid s. (Inr (map_option (\<lambda>u. [u]) (s sid)), s)),
      ls_postShareUrl = (\<lambda>sid creator p s.
        (Inr (''id'', ''drive''),
         s(sid \<mapsto> payload_of p \<lparr>su_ShareID = sid, su_ShareURLID = ''id'', su_CreateTime = 1, su_ExpirationTime = None,
             su_Permissions = None, su_Flags = 0, su_CreatorEmail = creator, su_PublicUrl = ''drive'', su_NumAccesses = 0,
             su_Password = ''''\<rparr>))),
      ls_putShareUrl = (\<lambda>sid i p s. (Inr (), s(sid := map_option (payload_of p) (s sid)))),
      ls_deleteShareUrl = (\<lambda>sid i s. (Inr (), s(sid := None))),
      ls_getRootVolumeId = (\<lambda>s. (Inr ''volume'', s)),
      ls_getOwnAddress = (\<lambda>e s. (Inr ([()], 0), s)),
      ls_encryptPassword = (\<lambda>password k sk s.
        (Inr (\<lparr>lc_base64SharePasswordSalt = '''', lc_base64SharePassphraseKeyPacket = '''', lc_armoredPassword = password\<rparr>,
              \<lparr>srp_salt = '''', srp_verifier = '''', srp_modulusId = ''''\<rparr>), s)),
      ls_decryptShareUrlPassword = (\<lambda>armored ks s. (Inr armored, s)),
      ls_getRandomValues = (\<lambda>s. (Inr (\<lambda>i. 64), s)),
      ls_now = (\<lambda>s. (Inr 1000, s))\<rparr>"

lemma demo_links_server: "stores_links demo_links (\<lambda>s. s)" "knows_keys demo_links (\<lambda>s. s) ''volume'' (\<lambda>e. [()])"
  unfolding stores_links_def knows_keys_def leaves_def
  by (auto simp: demo_links_def hash_sign_def tilde_def)

theorem public_link_reads_back_witness:
  "\<exists>link s1 link' s2 r s3.
     shareViaLink demo_links \<lparr>ca_addressId = ''a'', ca_addressKey = (), ca_email = ''me''\<rparr>
       \<lparr>sh_volumeId = ''volume'', sh_shareId = ''share'', sh_creatorEmail = ''me'', sh_passphraseSessionKey = ()\<rparr>
       \<lparr>lo_role = Viewer, lo_customPassword = None, lo_expiration = None\<rparr> Map.empty = (Inr link, s1)
   \<and> fold_act (\<lambda>o' l. updateSharedLink demo_links
        \<lparr>sh_volumeId = ''volume'', sh_shareId = ''share'', sh_creatorEmail = ''me'', sh_passphraseSessionKey = ()\<rparr> l o')
        [\<lparr>lo_role = Editor, lo_customPassword = Some ''secret'', lo_expiration = Some 12345\<rparr>] link s1 = (Inr link', s2)
   \<and> getPublicLink demo_links ''share'' ''volume'' s2 = (Inr (Some r), s3)
   \<and> pl_role r = Editor \<and> pl_customPassword r = Some ''secret'' \<and> pl_expirationTime r = Some 12000"
proof -
  let ?share = "\<lparr>sh_volumeId = ''volume'', sh_shareId = ''share'', sh_creatorEmail = ''me'', sh_passphraseSessionKey = ()\<rparr>"
    and ?me = "\<lparr>ca_addressId = ''a'', ca_addressKey = (), ca_email = ''me''\<rparr>"
    and ?o0 = "\<lparr>lo_role = Viewer, lo_customPassword = None, lo_expiration = None\<rparr>"
    and ?o1 = "\<lparr>lo_role = Editor, lo_customPassword = Some ''secret'', lo_expiration = Some 12345\<rparr>"
  have "\<exists>link s1. shareViaLink demo_links ?me ?share ?o0 Map.empty = (Inr link, s1)"
    by (simp add: shareViaLink_def generatePublicLinkPassword_def encryptPublicLink_def createPublicLink_def
        generatePublicLinkRequestPayload_def link_request_of_def demo_links_def run_act present_def)
  then obtain link s1 where a: "shareViaLink demo_links ?me ?share ?o0 Map.empty = (Inr link, s1)" by blast
  obtain u where u: "s1 ''share'' = Some u" "link_agrees demo_links (\<lambda>e. [()]) ''share'' link ?o0 u"
    using shared_link_agrees [OF demo_links_server a] by auto
  then obtain password where pw: "pl_url link = su_PublicUrl u @ hash_sign # password" "length password = 12"
    "set password \<subseteq> set charset" "hash_sign \<notin> set (su_PublicUrl u)" "pl_uid link = makePublicLinkUid ''share'' (su_ShareURLID u)"
    "tilde \<notin> set (su_ShareURLID u)"
    unfolding link_agrees_def PUBLIC_LINK_GENERATED_PASSWORD_LENGTH_def by blast
  have "generated_password_of (pl_url link) = Some password"
    unfolding pw(1) using pw charset_plain(1) by (intro generated_password) auto
  moreover have "splitPublicLinkUid (pl_uid link) = Inr (''share'', su_ShareURLID u)"
    using pw(5,6) by (simp add: uid_split_defs uid_defs split2_Inr_iff tilde_def)
  ultimately have "\<exists>link' s2. fold_act (\<lambda>o' l. updateSharedLink demo_links ?share l o') [?o1] link s1 = (Inr link', s2)"
    using pw(2)
    by (simp add: updateSharedLink_def encryptPublicLink_def updatePublicLink_def PUBLIC_LINK_GENERATED_PASSWORD_LENGTH_def
        generatePublicLinkRequestPayload_def link_request_of_def demo_links_def run_act present_def)
  then obtain link' s2 where b: "fold_act (\<lambda>o' l. updateSharedLink demo_links ?share l o') [?o1] link s1 = (Inr link', s2)" by blast
  have "tilde \<notin> set (sh_shareId ?share)" by (simp add: tilde_def)
  from public_link_reads_back [OF demo_links_server this a b] a b show ?thesis
    by (auto simp: present_def nonzero_def)
qed

end
