(* ===== verification/SharingManagement.thy ===== *)
theory SharingManagement
  imports SharingLists SharingLinks
begin

text \<open>
  Sharing of a node with other users: \<open>SharingManagement\<close> of \<^verbatim>\<open>internal/sharing/sharingManagement.ts\<close>
  and the methods of \<open>SharingAPIService\<close> (\<^verbatim>\<open>apiService.ts\<close>) and \<open>SharingCryptoService\<close>
  (\<^verbatim>\<open>cryptoService.ts\<close>) it uses. The HTTP endpoints, the nodes and shares modules, the account and
  OpenPGP are parameters. The five reads \<open>getSharingInfo\<close> makes side by side are made one after the other.
\<close>

section \<open>Data\<close>

record shared_node =
  shn_shareId :: "string option"
  shn_parentUid :: "string option"
  shn_name :: "string + string"
  shn_directRole :: member_role

definition node_name :: "shared_node \<Rightarrow> string" where
  "node_name node = (case shn_name node of Inr value \<Rightarrow> value | Inl name \<Rightarrow> name)"

text \<open>What the API sends of invitations and members; the key packets, which nothing here reads, are left out.\<close>

record invitation_data =
  iv_InvitationID :: string
  iv_InviterEmail :: string
  iv_InviteeEmail :: string
  iv_CreateTime :: int
  iv_Permissions :: "int option"

record external_invitation_data =
  xv_ExternalInvitationID :: string
  xv_InviterEmail :: string
  xv_InviteeEmail :: string
  xv_CreateTime :: int
  xv_Permissions :: "int option"
  xv_State :: int

record member_data =
  mb_MemberID :: string
  mb_InviterEmail :: string
  mb_Email :: string
  mb_CreateTime :: int
  mb_Permissions :: "int option"

record encrypted_invitation =
  ei_uid :: string
  ei_addedByEmail :: string
  ei_inviteeEmail :: string
  ei_invitationTime :: int
  ei_role :: member_role

datatype non_proton_state = Pending | UserRegistered

record encrypted_external_invitation = encrypted_invitation +
  ex_state :: non_proton_state

text \<open>The author is an error, with the author claimed, or an email address.\<close>

record member_entry =
  me_uid :: string
  me_invitationTime :: int
  me_addedByEmail :: "(string option \<times> string) + string"
  me_inviteeEmail :: string
  me_role :: member_role

record non_proton_invitation = member_entry +
  np_state :: non_proton_state

record share_result =
  sr_protonInvitations :: "member_entry list"
  sr_nonProtonInvitations :: "non_proton_invitation list"
  sr_members :: "member_entry list"
  sr_publicLink :: "public_link option"
  sr_editorsCanShare :: bool

record 'sk internal_share_result = share_result +
  is_share :: "'sk share"
  is_nodeName :: string

record 'e encrypted_share =
  es_creatorEmail :: string
  es_editorsCanShare :: bool
  es_crypto :: 'e

record email_options =
  eo_message :: "string option"
  eo_nodeName :: "string option"

datatype share_user = UserEmail string | UserRole string member_role

fun user_of :: "share_user \<Rightarrow> string \<times> member_role" where
  "user_of (UserEmail email) = (email, Viewer)"
| "user_of (UserRole email role) = (email, role)"

datatype link_setting = LinkFlag bool | LinkSettings link_options

record share_settings =
  st_users :: "share_user list option"
  st_publicLink :: "link_setting option"
  st_emailOptions :: "(string option \<times> bool) option"
  st_editorsCanShare :: "bool option"

record unshare_settings =
  un_users :: "string list option"
  un_removePublicLink :: bool

text \<open>The endpoints with a body, and what the other modules give.\<close>

record ('s, 'k, 'sk, 'e) manage_services =
  mg_links :: "('s, 'k, 'sk) link_services"
  mg_hasProtonAccount :: "string \<Rightarrow> ('s, bool) act"
  mg_getNode :: "string \<Rightarrow> ('s, shared_node) act"
  mg_getNodeKey :: "string \<Rightarrow> ('s, 'k) act"
  mg_getNodePrivateAndSessionKeys :: "string \<Rightarrow> ('s, 'k \<times> 'sk \<times> 'sk) act"
  mg_getRootNodeEmailKey :: "string \<Rightarrow> ('s, 'k context_address) act"
  mg_notifyNodeChanged :: "string \<Rightarrow> ('s, unit) act"
  mg_loadEncryptedShare :: "string \<Rightarrow> ('s, 'e encrypted_share) act"
  mg_decryptShare :: "'e encrypted_share \<Rightarrow> 'k \<Rightarrow> ('s, 'sk) act"
  mg_generateShareKeys :: "'k \<times> 'sk \<times> 'sk \<Rightarrow> 'k \<Rightarrow> ('s, 'e \<times> 'sk) act"
  mg_encryptInvitation :: "'sk \<Rightarrow> 'k \<Rightarrow> string \<Rightarrow> bool \<Rightarrow> ('s, 'e) act"
  mg_encryptExternalInvitation :: "'sk \<Rightarrow> 'k \<Rightarrow> string \<Rightarrow> ('s, 'e) act"
  mg_postShare :: "string \<Rightarrow> string \<Rightarrow> string \<Rightarrow> 'e \<Rightarrow> ('s, string \<times> bool) act"
  mg_deleteShare :: "string \<Rightarrow> bool \<Rightarrow> ('s, unit) act"
  mg_putEditorsCanShare :: "string \<Rightarrow> bool \<Rightarrow> ('s, unit) act"
  mg_getInvitations :: "string \<Rightarrow> ('s, invitation_data list) act"
  mg_getExternalInvitations :: "string \<Rightarrow> ('s, external_invitation_data list) act"
  mg_getMembers :: "string \<Rightarrow> ('s, member_data list) act"
  mg_postInvitation :: "string \<Rightarrow> string \<Rightarrow> string \<Rightarrow> int \<Rightarrow> 'e \<Rightarrow> string option \<Rightarrow> email_options \<Rightarrow> ('s, invitation_data) act"
  mg_putInvitation :: "string \<Rightarrow> string \<Rightarrow> int \<Rightarrow> ('s, unit) act"
  mg_postInvitationEmail :: "string \<Rightarrow> string \<Rightarrow> ('s, unit) act"
  mg_deleteInvitation :: "string \<Rightarrow> string \<Rightarrow> ('s, unit) act"
  mg_postExternalInvitation :: "string \<Rightarrow> string \<Rightarrow> string \<Rightarrow> int \<Rightarrow> 'e \<Rightarrow> email_options \<Rightarrow> ('s, external_invitation_data) act"
  mg_putExternalInvitation :: "string \<Rightarrow> string \<Rightarrow> int \<Rightarrow> ('s, unit) act"
  mg_postExternalInvitationEmail :: "string \<Rightarrow> string \<Rightarrow> ('s, unit) act"
  mg_deleteExternalInvitation :: "string \<Rightarrow> string \<Rightarrow> ('s, unit) act"
  mg_putMember :: "string \<Rightarrow> string \<Rightarrow> int \<Rightarrow> ('s, unit) act"
  mg_deleteMember :: "string \<Rightarrow> string \<Rightarrow> ('s, unit) act"

section \<open>SharingAPIService\<close>

definition convertInternalInvitation :: "string \<Rightarrow> invitation_data \<Rightarrow> encrypted_invitation" where
  "convertInternalInvitation shareId invitation =
     \<lparr>ei_uid = makeInvitationUid shareId (iv_InvitationID invitation), ei_addedByEmail = iv_InviterEmail invitation,
      ei_inviteeEmail = iv_InviteeEmail invitation, ei_invitationTime = iv_CreateTime invitation * 1000,
      ei_role = permissionsToMemberRole (iv_Permissions invitation)\<rparr>"

definition convertExternalInvitation :: "string \<Rightarrow> external_invitation_data \<Rightarrow> encrypted_external_invitation" where
  "convertExternalInvitation shareId invitation =
     \<lparr>ei_uid = makeInvitationUid shareId (xv_ExternalInvitationID invitation), ei_addedByEmail = xv_InviterEmail invitation,
      ei_inviteeEmail = xv_InviteeEmail invitation, ei_invitationTime = xv_CreateTime invitation * 1000,
      ei_role = permissionsToMemberRole (xv_Permissions invitation),
      ex_state = (if xv_State invitation = 1 then Pending else UserRegistered)\<rparr>"

definition convertMember :: "string \<Rightarrow> member_data \<Rightarrow> encrypted_invitation" where
  "convertMember shareId member =
     \<lparr>ei_uid = makeMemberUid shareId (mb_MemberID member), ei_addedByEmail = mb_InviterEmail member,
      ei_inviteeEmail = mb_Email member, ei_invitationTime = mb_CreateTime member * 1000,
      ei_role = permissionsToMemberRole (mb_Permissions member)\<rparr>"

definition getShareInvitations :: "('s, 'k, 'sk, 'e) manage_services \<Rightarrow> string \<Rightarrow> ('s, encrypted_invitation list) act" where
  "getShareInvitations svc shareId =
     await (mg_getInvitations svc shareId) (\<lambda>invitations. give (map (convertInternalInvitation shareId) invitations))"

definition getShareExternalInvitations ::
  "('s, 'k, 'sk, 'e) manage_services \<Rightarrow> string \<Rightarrow> ('s, encrypted_external_invitation list) act"
where
  "getShareExternalInvitations svc shareId =
     await (mg_getExternalInvitations svc shareId) (\<lambda>invitations. give (map (convertExternalInvitation shareId) invitations))"

definition getShareMembers :: "('s, 'k, 'sk, 'e) manage_services \<Rightarrow> string \<Rightarrow> ('s, encrypted_invitation list) act" where
  "getShareMembers svc shareId =
     await (mg_getMembers svc shareId) (\<lambda>members. give (map (convertMember shareId) members))"

definition createStandardShare ::
  "('s, 'k, 'sk, 'e) manage_services \<Rightarrow> string \<Rightarrow> string \<Rightarrow> 'e \<Rightarrow> ('s, string \<times> bool) act"
where
  "createStandardShare svc nodeUid addressId keys =
     await (of_result (splitNodeUid nodeUid)) (\<lambda>(volumeId, nodeId). mg_postShare svc volumeId nodeId addressId keys)"

definition inviteProtonUserRequest ::
  "('s, 'k, 'sk, 'e) manage_services \<Rightarrow> string \<Rightarrow> string \<Rightarrow> string \<Rightarrow> member_role \<Rightarrow> 'e \<Rightarrow> email_options \<Rightarrow> string option
     \<Rightarrow> ('s, encrypted_invitation) act"
where
  "inviteProtonUserRequest svc shareId addedByEmail inviteeEmail role crypto emailDetails externalInvitationId =
     await (of_result (memberRoleToPermission role)) (\<lambda>permissions.
     await (mg_postInvitation svc shareId addedByEmail inviteeEmail permissions crypto externalInvitationId emailDetails)
       (\<lambda>invitation. give (convertInternalInvitation shareId invitation)))"

definition inviteExternalUserRequest ::
  "('s, 'k, 'sk, 'e) manage_services \<Rightarrow> string \<Rightarrow> string \<Rightarrow> string \<Rightarrow> member_role \<Rightarrow> 'e \<Rightarrow> email_options
     \<Rightarrow> ('s, encrypted_external_invitation) act"
where
  "inviteExternalUserRequest svc shareId inviterAddressId inviteeEmail role signature emailDetails =
     await (of_result (memberRoleToPermission role)) (\<lambda>permissions.
     await (mg_postExternalInvitation svc shareId inviterAddressId inviteeEmail permissions signature emailDetails)
       (\<lambda>invitation. give (convertExternalInvitation shareId invitation)))"

text \<open>The requests about one invitation or member: its UID is split, a role is sent as permissions.\<close>

definition updateInvitation :: "('s, 'k, 'sk, 'e) manage_services \<Rightarrow> string \<Rightarrow> member_role \<Rightarrow> ('s, unit) act" where
  "updateInvitation svc invitationUid role =
     await (of_result (splitInvitationUid invitationUid)) (\<lambda>(shareId, invitationId).
     await (of_result (memberRoleToPermission role)) (\<lambda>permissions. mg_putInvitation svc shareId invitationId permissions))"

definition updateExternalInvitation :: "('s, 'k, 'sk, 'e) manage_services \<Rightarrow> string \<Rightarrow> member_role \<Rightarrow> ('s, unit) act" where
  "updateExternalInvitation svc invitationUid role =
     await (of_result (splitInvitationUid invitationUid)) (\<lambda>(shareId, invitationId).
     await (of_result (memberRoleToPermission role)) (\<lambda>permissions. mg_putExternalInvitation svc shareId invitationId permissions))"

definition updateMember :: "('s, 'k, 'sk, 'e) manage_services \<Rightarrow> string \<Rightarrow> member_role \<Rightarrow> ('s, unit) act" where
  "updateMember svc memberUid role =
     await (of_result (splitMemberUid memberUid)) (\<lambda>(shareId, memberId).
     await (of_result (memberRoleToPermission role)) (\<lambda>permissions. mg_putMember svc shareId memberId permissions))"

definition deleteInvitation :: "('s, 'k, 'sk, 'e) manage_services \<Rightarrow> string \<Rightarrow> ('s, unit) act" where
  "deleteInvitation svc invitationUid =
     await (of_result (splitInvitationUid invitationUid)) (\<lambda>(shareId, invitationId). mg_deleteInvitation svc shareId invitationId)"

definition deleteExternalInvitation :: "('s, 'k, 'sk, 'e) manage_services \<Rightarrow> string \<Rightarrow> ('s, unit) act" where
  "deleteExternalInvitation svc invitationUid =
     await (of_result (splitInvitationUid invitationUid)) (\<lambda>(shareId, invitationId).
       mg_deleteExternalInvitation svc shareId invitationId)"

definition removeMember :: "('s, 'k, 'sk, 'e) manage_services \<Rightarrow> string \<Rightarrow> ('s, unit) act" where
  "removeMember svc memberUid =
     await (of_result (splitMemberUid memberUid)) (\<lambda>(shareId, memberId). mg_deleteMember svc shareId memberId)"

definition resendInvitationEmail_request :: "('s, 'k, 'sk, 'e) manage_services \<Rightarrow> string \<Rightarrow> ('s, unit) act" where
  "resendInvitationEmail_request svc invitationUid =
     await (of_result (splitInvitationUid invitationUid)) (\<lambda>(shareId, invitationId). mg_postInvitationEmail svc shareId invitationId)"

definition resendExternalInvitationEmail :: "('s, 'k, 'sk, 'e) manage_services \<Rightarrow> string \<Rightarrow> ('s, unit) act" where
  "resendExternalInvitationEmail svc invitationUid =
     await (of_result (splitInvitationUid invitationUid)) (\<lambda>(shareId, invitationId).
       mg_postExternalInvitationEmail svc shareId invitationId)"

section \<open>SharingCryptoService\<close>

definition decryptInvitation :: "encrypted_invitation \<Rightarrow> member_entry" where
  "decryptInvitation i =
     \<lparr>me_uid = ei_uid i, me_invitationTime = ei_invitationTime i, me_addedByEmail = Inr (ei_addedByEmail i),
      me_inviteeEmail = ei_inviteeEmail i, me_role = ei_role i\<rparr>"

definition decryptExternalInvitation :: "encrypted_external_invitation \<Rightarrow> non_proton_invitation" where
  "decryptExternalInvitation i =
     \<lparr>me_uid = ei_uid i, me_invitationTime = ei_invitationTime i, me_addedByEmail = Inr (ei_addedByEmail i),
      me_inviteeEmail = ei_inviteeEmail i, me_role = ei_role i, np_state = ex_state i\<rparr>"

section \<open>Reading\<close>

definition getSharingInfo :: "('s, 'k, 'sk, 'e) manage_services \<Rightarrow> string \<Rightarrow> ('s, share_result option) act" where
  "getSharingInfo svc nodeUid =
     await (mg_getNode svc nodeUid) (\<lambda>node.
       case present (shn_shareId node) of
         None \<Rightarrow> give None
       | Some shareId \<Rightarrow>
           await (of_result (splitNodeUid nodeUid)) (\<lambda>(volumeId, _).
           await (getShareInvitations svc shareId) (\<lambda>protonInvitations.
           await (getShareExternalInvitations svc shareId) (\<lambda>nonProtonInvitations.
           await (getShareMembers svc shareId) (\<lambda>members.
           await (getPublicLink (mg_links svc) shareId volumeId) (\<lambda>publicLink.
           await (mg_loadEncryptedShare svc shareId) (\<lambda>share.
             give (Some \<lparr>sr_protonInvitations = map decryptInvitation protonInvitations,
                         sr_nonProtonInvitations = map decryptExternalInvitation nonProtonInvitations,
                         sr_members = map decryptInvitation members, sr_publicLink = publicLink,
                         sr_editorsCanShare = es_editorsCanShare share\<rparr>))))))))"

definition getInternalSharingInfo ::
  "('s, 'k, 'sk, 'e) manage_services \<Rightarrow> string \<Rightarrow> ('s, 'sk internal_share_result option) act"
where
  "getInternalSharingInfo svc nodeUid =
     await (mg_getNode svc nodeUid) (\<lambda>node.
       case present (shn_shareId node) of
         None \<Rightarrow> give None
       | Some shareId \<Rightarrow>
           await (getSharingInfo svc nodeUid) (\<lambda>sharingInfo.
             case sharingInfo of
               None \<Rightarrow> give None
             | Some info \<Rightarrow>
                 await (of_result (splitNodeUid nodeUid)) (\<lambda>(volumeId, _).
                 await (mg_getNodeKey svc nodeUid) (\<lambda>nodeKey.
                 await (mg_loadEncryptedShare svc shareId) (\<lambda>encryptedShare.
                 await (mg_decryptShare svc encryptedShare nodeKey) (\<lambda>passphraseSessionKey.
                   give (Some (share_result.extend info (internal_share_result.fields
                     \<lparr>sh_volumeId = volumeId, sh_shareId = shareId, sh_creatorEmail = es_creatorEmail encryptedShare,
                      sh_passphraseSessionKey = passphraseSessionKey\<rparr> (node_name node))))))))))"

section \<open>Creating and deleting a share\<close>

definition createShare ::
  "'c shared_list_ops \<Rightarrow> ('s, 'k, 'sk, 'e) manage_services \<Rightarrow> string
     \<Rightarrow> (('c, 's) sharing_state, 'sk share \<times> 'k context_address \<times> bool) act"
where
  "createShare ul svc nodeUid =
     await (from_outside (mg_getNode svc nodeUid)) (\<lambda>node.
       case present (shn_parentUid node) of
         None \<Rightarrow> throw_act (throw_new ValidationError ''Cannot share root folder'')
       | Some _ \<Rightarrow>
           await (of_result (splitNodeUid nodeUid)) (\<lambda>(volumeId, _).
           await (from_outside (mg_getRootNodeEmailKey svc nodeUid)) (\<lambda>address.
           await (from_outside (mg_getNodePrivateAndSessionKeys svc nodeUid)) (\<lambda>nodeKeys.
           await (from_outside (mg_generateShareKeys svc nodeKeys (ca_addressKey address))) (\<lambda>(encrypted, passphraseSessionKey).
           await (from_outside (createStandardShare svc nodeUid (ca_addressId address) encrypted)) (\<lambda>(shareId, editorsCanShare).
           await (from_outside (mg_notifyNodeChanged svc nodeUid)) (\<lambda>_.
           await (if_loaded ul SharedByMe (sl_add ul SharedByMe nodeUid)) (\<lambda>_.
             give (\<lparr>sh_volumeId = volumeId, sh_shareId = shareId, sh_creatorEmail = ca_email address,
                    sh_passphraseSessionKey = passphraseSessionKey\<rparr>, address, editorsCanShare)))))))))"

definition deleteShareWithForce ::
  "'c shared_list_ops \<Rightarrow> ('s, 'k, 'sk, 'e) manage_services \<Rightarrow> string \<Rightarrow> string \<Rightarrow> (('c, 's) sharing_state, unit) act"
where
  "deleteShareWithForce ul svc shareId nodeUid =
     await (from_outside (mg_deleteShare svc shareId True)) (\<lambda>_.
     await (from_outside (mg_notifyNodeChanged svc nodeUid)) (\<lambda>_.
       if_loaded ul SharedByMe (sl_remove ul SharedByMe nodeUid)))"

section \<open>Sharing with users\<close>

definition inviteProtonUser ::
  "('s, 'k, 'sk, 'e) manage_services \<Rightarrow> 'k context_address \<Rightarrow> 'sk share \<Rightarrow> string \<Rightarrow> member_role \<Rightarrow> email_options
     \<Rightarrow> ('s, member_entry) act"
where
  "inviteProtonUser svc inviter share inviteeEmail role emailOptions =
     await (mg_encryptInvitation svc (sh_passphraseSessionKey share) (ca_addressKey inviter) inviteeEmail False) (\<lambda>invitationCrypto.
     await (inviteProtonUserRequest svc (sh_shareId share) (ca_email inviter) inviteeEmail role invitationCrypto emailOptions None)
       (\<lambda>encryptedInvitation. give (decryptInvitation encryptedInvitation)))"

definition inviteExternalUser ::
  "('s, 'k, 'sk, 'e) manage_services \<Rightarrow> 'k context_address \<Rightarrow> 'sk share \<Rightarrow> string \<Rightarrow> member_role \<Rightarrow> email_options
     \<Rightarrow> ('s, non_proton_invitation) act"
where
  "inviteExternalUser svc inviter share inviteeEmail role emailOptions =
     await (mg_encryptExternalInvitation svc (sh_passphraseSessionKey share) (ca_addressKey inviter) inviteeEmail) (\<lambda>signature.
     await (inviteExternalUserRequest svc (sh_shareId share) (ca_addressId inviter) inviteeEmail role signature emailOptions)
       (\<lambda>encryptedInvitation.
          give \<lparr>me_uid = ei_uid encryptedInvitation, me_invitationTime = ei_invitationTime encryptedInvitation,
                me_addedByEmail = Inr (ca_email inviter), me_inviteeEmail = inviteeEmail, me_role = role,
                np_state = ex_state encryptedInvitation\<rparr>))"

text \<open>\<open>entry.role = role\<close> on the entry \<open>find\<close> returned, the first that satisfies the condition.\<close>

fun set_role :: "string \<Rightarrow> member_role \<Rightarrow> 'x member_entry_scheme list \<Rightarrow> 'x member_entry_scheme list" where
  "set_role email role [] = []"
| "set_role email role (x # xs) =
     (if me_inviteeEmail x = email then x\<lparr>me_role := role\<rparr> # xs else x # set_role email role xs)"

definition share_with_member where
  "share_with_member svc email role existingMember sharing =
     (if me_role existingMember = role then give sharing
      else await (updateMember svc (me_uid existingMember) role) (\<lambda>_.
        give (sharing\<lparr>sr_members := set_role email role (sr_members sharing)\<rparr>)))"

definition share_with_proton_user ::
  "('s, 'k, 'sk, 'e) manage_services \<Rightarrow> 'k context_address \<Rightarrow> email_options \<Rightarrow> string \<times> member_role
     \<Rightarrow> 'sk internal_share_result \<Rightarrow> ('s, 'sk internal_share_result) act"
where
  "share_with_proton_user svc contextShareAddress emailOptions user sharing =
     (let (email, role) = user in
      case find (\<lambda>i. me_inviteeEmail i = email) (sr_protonInvitations sharing) of
        Some existingInvitation \<Rightarrow>
          if me_role existingInvitation = role then give sharing
          else await (updateInvitation svc (me_uid existingInvitation) role) (\<lambda>_.
            give (sharing\<lparr>sr_protonInvitations := set_role email role (sr_protonInvitations sharing)\<rparr>))
      | None \<Rightarrow>
          (case find (\<lambda>m. me_inviteeEmail m = email) (sr_members sharing) of
             Some existingMember \<Rightarrow> share_with_member svc email role existingMember sharing
           | None \<Rightarrow>
               await (inviteProtonUser svc contextShareAddress (is_share sharing) email role emailOptions) (\<lambda>invitation.
                 give (sharing\<lparr>sr_protonInvitations := sr_protonInvitations sharing @ [invitation]\<rparr>))))"

definition share_with_external_user ::
  "('s, 'k, 'sk, 'e) manage_services \<Rightarrow> 'k context_address \<Rightarrow> email_options \<Rightarrow> string \<times> member_role
     \<Rightarrow> 'sk internal_share_result \<Rightarrow> ('s, 'sk internal_share_result) act"
where
  "share_with_external_user svc contextShareAddress emailOptions user sharing =
     (let (email, role) = user in
      case find (\<lambda>i. me_inviteeEmail i = email) (sr_nonProtonInvitations sharing) of
        Some existingExternalInvitation \<Rightarrow>
          if me_role existingExternalInvitation = role then give sharing
          else await (updateExternalInvitation svc (me_uid existingExternalInvitation) role) (\<lambda>_.
            give (sharing\<lparr>sr_nonProtonInvitations := set_role email role (sr_nonProtonInvitations sharing)\<rparr>))
      | None \<Rightarrow>
          (case find (\<lambda>m. me_inviteeEmail m = email) (sr_members sharing) of
             Some existingMember \<Rightarrow> share_with_member svc email role existingMember sharing
           | None \<Rightarrow>
               await (inviteExternalUser svc contextShareAddress (is_share sharing) email role emailOptions) (\<lambda>invitation.
                 give (sharing\<lparr>sr_nonProtonInvitations := sr_nonProtonInvitations sharing @ [invitation]\<rparr>))))"

text \<open>Who of the requested users has a Proton account, in the order of the request.\<close>

definition sort_user where
  "sort_user svc user acc =
     (let (email, role) = user_of user in
      await (mg_hasProtonAccount svc email) (\<lambda>isProtonUser.
        give (if isProtonUser then (fst acc @ [(email, role)], snd acc) else (fst acc, snd acc @ [(email, role)]))))"

definition check_expiration :: "('s, 'k, 'sk, 'e) manage_services \<Rightarrow> share_settings \<Rightarrow> ('s, unit) act" where
  "check_expiration svc settings =
     (case st_publicLink settings of
        Some (LinkSettings options) \<Rightarrow>
          (case lo_expiration options of
             Some expiration \<Rightarrow>
               await (ls_now (mg_links svc)) (\<lambda>now.
                 if expiration < now then throw_act (throw_new ValidationError ''Expiration date cannot be in the past'')
                 else give ())
           | None \<Rightarrow> give ())
      | _ \<Rightarrow> give ())"

definition share_exists :: "thrown \<Rightarrow> bool" where
  "share_exists error \<longleftrightarrow>
     instanceof error ValidationError
     \<and> (case error of ThrownError e \<Rightarrow> err_code e = Some (CodeNum (code_number ALREADY_EXISTS)) | ThrownValue _ \<Rightarrow> False)"

text \<open>The sharing there is, or a new share; \<open>None\<close> when a share that exists cannot be read.\<close>

definition current_sharing ::
  "'c shared_list_ops \<Rightarrow> ('s, 'k, 'sk, 'e) manage_services \<Rightarrow> string
     \<Rightarrow> (('c, 's) sharing_state, 'sk internal_share_result option \<times> 'k context_address option) act"
where
  "current_sharing ul svc nodeUid =
     await (from_outside (getInternalSharingInfo svc nodeUid)) (\<lambda>currentSharing.
       case currentSharing of
         Some sharing \<Rightarrow> give (Some sharing, None)
       | None \<Rightarrow>
           await (from_outside (mg_getNode svc nodeUid)) (\<lambda>node.
             catch
               (await (createShare ul svc nodeUid) (\<lambda>(share, address, editorsCanShare).
                  give (Some \<lparr>sr_protonInvitations = [], sr_nonProtonInvitations = [], sr_members = [],
                              sr_publicLink = None, sr_editorsCanShare = editorsCanShare,
                              is_share = share, is_nodeName = node_name node\<rparr>, Some address)))
               (\<lambda>error.
                  if share_exists error
                  then await (from_outside (mg_notifyNodeChanged svc nodeUid)) (\<lambda>_.
                       await (from_outside (getInternalSharingInfo svc nodeUid)) (\<lambda>sharing. give (sharing, None)))
                  else throw_act error)))"

definition share_link ::
  "('s, 'k, 'sk, 'e) manage_services \<Rightarrow> 'k context_address \<Rightarrow> link_setting option
     \<Rightarrow> 'sk internal_share_result \<Rightarrow> ('s, 'sk internal_share_result) act"
where
  "share_link svc contextShareAddress setting sharing =
     (let share_with = (\<lambda>options.
        await (case sr_publicLink sharing of
                 Some publicLink \<Rightarrow> updateSharedLink (mg_links svc) (is_share sharing) publicLink options
               | None \<Rightarrow> shareViaLink (mg_links svc) contextShareAddress (is_share sharing) options)
          (\<lambda>publicLink. give (sharing\<lparr>sr_publicLink := Some publicLink\<rparr>)))
      in case setting of
           None \<Rightarrow> give sharing
         | Some (LinkFlag b) \<Rightarrow>
             if b then share_with \<lparr>lo_role = Viewer, lo_customPassword = None, lo_expiration = None\<rparr> else give sharing
         | Some (LinkSettings options) \<Rightarrow> share_with options)"

definition set_editors_can_share ::
  "('s, 'k, 'sk, 'e) manage_services \<Rightarrow> bool option \<Rightarrow> 'sk internal_share_result \<Rightarrow> ('s, 'sk internal_share_result) act"
where
  "set_editors_can_share svc setting sharing =
     (case setting of
        None \<Rightarrow> give sharing
      | Some editorsCanShare \<Rightarrow>
          await (mg_putEditorsCanShare svc (sh_shareId (is_share sharing)) editorsCanShare) (\<lambda>_.
            give (sharing\<lparr>sr_editorsCanShare := editorsCanShare\<rparr>)))"

definition email_options_of :: "share_settings \<Rightarrow> 'sk internal_share_result \<Rightarrow> email_options" where
  "email_options_of settings sharing =
     (case st_emailOptions settings of
        None \<Rightarrow> \<lparr>eo_message = None, eo_nodeName = None\<rparr>
      | Some (message, includeNodeName) \<Rightarrow>
          \<lparr>eo_message = message, eo_nodeName = (if includeNodeName then Some (is_nodeName sharing) else None)\<rparr>)"

text \<open>What \<open>shareNode\<close> does once it has the sharing and the address.\<close>

definition apply_settings ::
  "('s, 'k, 'sk, 'e) manage_services \<Rightarrow> share_settings \<Rightarrow> (string \<times> member_role) list \<Rightarrow> (string \<times> member_role) list
     \<Rightarrow> 'k context_address \<Rightarrow> 'sk internal_share_result \<Rightarrow> ('s, share_result) act"
where
  "apply_settings svc settings protonUsers nonProtonUsers contextShareAddress sharing =
     await (set_editors_can_share svc (st_editorsCanShare settings) sharing) (\<lambda>sharing.
       let emailOptions = email_options_of settings sharing in
       await (fold_act (share_with_proton_user svc contextShareAddress emailOptions) protonUsers sharing) (\<lambda>sharing.
       await (fold_act (share_with_external_user svc contextShareAddress emailOptions) nonProtonUsers sharing) (\<lambda>sharing.
       await (share_link svc contextShareAddress (st_publicLink settings) sharing) (\<lambda>sharing.
         give (share_result.truncate sharing)))))"

definition shareNode ::
  "'c shared_list_ops \<Rightarrow> ('s, 'k, 'sk, 'e) manage_services \<Rightarrow> string \<Rightarrow> share_settings
     \<Rightarrow> (('c, 's) sharing_state, share_result) act"
where
  "shareNode ul svc nodeUid settings =
     await (from_outside (fold_act (sort_user svc) (case st_users settings of Some us \<Rightarrow> us | None \<Rightarrow> []) ([], [])))
       (\<lambda>(protonUsers, nonProtonUsers).
     await (from_outside (check_expiration svc settings)) (\<lambda>_.
     await (current_sharing ul svc nodeUid) (\<lambda>(currentSharing, address).
       case currentSharing of
         None \<Rightarrow> throw_act (throw_new ValidationError (''Failed to get sharing info for node '' @ nodeUid))
       | Some sharing \<Rightarrow>
           await (case address of
                    Some a \<Rightarrow> give a
                  | None \<Rightarrow> from_outside (mg_getRootNodeEmailKey svc nodeUid)) (\<lambda>contextShareAddress.
             from_outside (apply_settings svc settings protonUsers nonProtonUsers contextShareAddress sharing)))))"

section \<open>Unsharing\<close>

definition unshare_user ::
  "('s, 'k, 'sk, 'e) manage_services \<Rightarrow> string \<Rightarrow> 'sk internal_share_result \<Rightarrow> ('s, 'sk internal_share_result) act"
where
  "unshare_user svc userEmail sharing =
     (case find (\<lambda>i. me_inviteeEmail i = userEmail) (sr_protonInvitations sharing) of
        Some existingInvitation \<Rightarrow>
          await (deleteInvitation svc (me_uid existingInvitation)) (\<lambda>_.
            give (sharing\<lparr>sr_protonInvitations :=
              filter (\<lambda>i. me_uid i \<noteq> me_uid existingInvitation) (sr_protonInvitations sharing)\<rparr>))
      | None \<Rightarrow>
          (case find (\<lambda>i. me_inviteeEmail i = userEmail) (sr_nonProtonInvitations sharing) of
             Some existingExternalInvitation \<Rightarrow>
               await (deleteExternalInvitation svc (me_uid existingExternalInvitation)) (\<lambda>_.
                 give (sharing\<lparr>sr_nonProtonInvitations :=
                   filter (\<lambda>i. me_uid i \<noteq> me_uid existingExternalInvitation) (sr_nonProtonInvitations sharing)\<rparr>))
           | None \<Rightarrow>
               (case find (\<lambda>m. me_inviteeEmail m = userEmail) (sr_members sharing) of
                  Some existingMember \<Rightarrow>
                    await (removeMember svc (me_uid existingMember)) (\<lambda>_.
                      give (sharing\<lparr>sr_members := filter (\<lambda>m. me_uid m \<noteq> me_uid existingMember) (sr_members sharing)\<rparr>))
                | None \<Rightarrow> give sharing)))"

definition unshare_link ::
  "('s, 'k, 'sk, 'e) manage_services \<Rightarrow> bool \<Rightarrow> 'sk internal_share_result \<Rightarrow> ('s, 'sk internal_share_result) act"
where
  "unshare_link svc remove sharing =
     (if remove
      then await (case sr_publicLink sharing of
                    Some publicLink \<Rightarrow> removeSharedLink (mg_links svc) (pl_uid publicLink)
                  | None \<Rightarrow> give ())
             (\<lambda>_. give (sharing\<lparr>sr_publicLink := None\<rparr>))
      else give sharing)"

definition nobody_left :: "'x share_result_scheme \<Rightarrow> bool" where
  "nobody_left sharing \<longleftrightarrow>
     sr_protonInvitations sharing = [] \<and> sr_nonProtonInvitations sharing = [] \<and> sr_members sharing = []
     \<and> sr_publicLink sharing = None"

definition unshareNode ::
  "'c shared_list_ops \<Rightarrow> ('s, 'k, 'sk, 'e) manage_services \<Rightarrow> string \<Rightarrow> unshare_settings option
     \<Rightarrow> (('c, 's) sharing_state, share_result option) act"
where
  "unshareNode ul svc nodeUid settings =
     await (from_outside (getInternalSharingInfo svc nodeUid)) (\<lambda>currentSharing.
       case currentSharing of
         None \<Rightarrow> give None
       | Some sharing \<Rightarrow>
           (case settings of
              None \<Rightarrow> await (deleteShareWithForce ul svc (sh_shareId (is_share sharing)) nodeUid) (\<lambda>_. give None)
            | Some settings \<Rightarrow>
                await (from_outside (fold_act (unshare_user svc)
                        (case un_users settings of Some us \<Rightarrow> us | None \<Rightarrow> []) sharing)) (\<lambda>sharing.
                await (from_outside (unshare_link svc (un_removePublicLink settings) sharing)) (\<lambda>sharing.
                  if nobody_left sharing
                  then await (catch (deleteShareWithForce ul svc (sh_shareId (is_share sharing)) nodeUid) (\<lambda>_. give ()))
                         (\<lambda>_. give None)
                  else give (Some (share_result.truncate sharing))))))"

section \<open>Single invitations\<close>

definition resendInvitationEmail :: "('s, 'k, 'sk, 'e) manage_services \<Rightarrow> string \<Rightarrow> string \<Rightarrow> ('s, unit) act" where
  "resendInvitationEmail svc nodeUid invitationUid =
     await (getInternalSharingInfo svc nodeUid) (\<lambda>currentSharing.
       case currentSharing of
         None \<Rightarrow> throw_act (throw_new ValidationError ''Node is not shared'')
       | Some sharing \<Rightarrow>
           (case find (\<lambda>i. me_uid i = invitationUid) (sr_protonInvitations sharing) of
              Some protonInvite \<Rightarrow> resendInvitationEmail_request svc (me_uid protonInvite)
            | None \<Rightarrow>
                (case find (\<lambda>i. me_uid i = invitationUid) (sr_nonProtonInvitations sharing) of
                   Some nonProtonInvite \<Rightarrow> resendExternalInvitationEmail svc (me_uid nonProtonInvite)
                 | None \<Rightarrow> throw_act (throw_new ValidationError ''Invitation not found''))))"

definition convertNonProtonInvitation ::
  "('s, 'k, 'sk, 'e) manage_services \<Rightarrow> string \<Rightarrow> string \<Rightarrow> ('s, member_entry) act"
where
  "convertNonProtonInvitation svc nodeUid nonProtonInvitationUid =
     await (of_result (splitInvitationUid nonProtonInvitationUid)) (\<lambda>(_, externalInvitationId).
     await (mg_getNode svc nodeUid) (\<lambda>node.
       if shn_directRole node \<noteq> Admin
       then throw_act (throw_new ValidationError ''Only admins can convert non-Proton invitations'')
       else
         await (getInternalSharingInfo svc nodeUid) (\<lambda>currentSharing.
         await (mg_getRootNodeEmailKey svc nodeUid) (\<lambda>inviter.
           case currentSharing of
             None \<Rightarrow> throw_act (throw_new ValidationError ''The node is not shared anymore'')
           | Some sharing \<Rightarrow>
               (case find (\<lambda>i. me_uid i = nonProtonInvitationUid) (sr_nonProtonInvitations sharing) of
                  None \<Rightarrow> throw_act (throw_new ValidationError ''Invitation not found'')
                | Some externalInvitation \<Rightarrow>
                    await (mg_encryptInvitation svc (sh_passphraseSessionKey (is_share sharing)) (ca_addressKey inviter)
                             (me_inviteeEmail externalInvitation) True) (\<lambda>invitationCrypto.
                    await (inviteProtonUserRequest svc (sh_shareId (is_share sharing)) (ca_email inviter)
                             (me_inviteeEmail externalInvitation) (me_role externalInvitation) invitationCrypto
                             \<lparr>eo_message = None, eo_nodeName = None\<rparr> (Some externalInvitationId)) (\<lambda>encryptedInvitation.
                      give (decryptInvitation encryptedInvitation))))))))"

end
