(* ===== verification/SharingProofs.thy ===== *)
theory SharingProofs
  imports SharingManagement
begin

text \<open>
  What \<open>SharingManagement\<close> makes of the people a node is shared with, against a server whose part
  is described by the people it keeps for every share.
\<close>

section \<open>The people of a share\<close>

text \<open>A person is the id of the invitation or member, the email address and the permissions.\<close>

type_synonym person = "string \<times> string \<times> int option"

record people =
  pp_invitations :: "person list"
  pp_externals :: "person list"
  pp_members :: "person list"

definition nobody :: people where
  "nobody = \<lparr>pp_invitations = [], pp_externals = [], pp_members = []\<rparr>"

definition ids_ok :: "person list \<Rightarrow> bool" where
  "ids_ok ps \<longleftrightarrow> distinct (map fst ps) \<and> (\<forall>p \<in> set ps. tilde \<notin> set (fst p))"

definition people_ok :: "people \<Rightarrow> bool" where
  "people_ok p \<longleftrightarrow> ids_ok (pp_invitations p) \<and> ids_ok (pp_externals p) \<and> ids_ok (pp_members p)"

definition with_permission :: "string \<Rightarrow> int \<Rightarrow> person list \<Rightarrow> person list" where
  "with_permission i permissions = map (\<lambda>(j, e, q). (j, e, if j = i then Some permissions else q))"

definition without_id :: "string \<Rightarrow> person list \<Rightarrow> person list" where
  "without_id i = filter (\<lambda>p. fst p \<noteq> i)"

definition iv_person :: "invitation_data \<Rightarrow> person" where
  "iv_person d = (iv_InvitationID d, iv_InviteeEmail d, iv_Permissions d)"

definition xv_person :: "external_invitation_data \<Rightarrow> person" where
  "xv_person d = (xv_ExternalInvitationID d, xv_InviteeEmail d, xv_Permissions d)"

definition mb_person :: "member_data \<Rightarrow> person" where
  "mb_person d = (mb_MemberID d, mb_Email d, mb_Permissions d)"

text \<open>
  The server: \<open>view s shareId\<close> are the people of a share. A request that succeeds changes them as its
  name says, the reads give them, ids are unique and hold no separator.
\<close>

definition changes ::
  "('s \<Rightarrow> string \<Rightarrow> people) \<Rightarrow> string \<Rightarrow> ('s, 'a) act \<Rightarrow> ('a \<Rightarrow> people \<Rightarrow> people) \<Rightarrow> bool"
where
  "changes view sid m f \<longleftrightarrow> (\<forall>s a s'. m s = (Inr a, s') \<longrightarrow> view s' = (view s)(sid := f a (view s sid)))"

definition updates_people :: "('s, 'k, 'sk, 'e) manage_services \<Rightarrow> ('s \<Rightarrow> string \<Rightarrow> people) \<Rightarrow> bool" where
  "updates_people svc view \<longleftrightarrow>
     (\<forall>s sid. people_ok (view s sid)) \<and>
     (\<forall>sid i p. changes view sid (mg_putInvitation svc sid i p) (\<lambda>_. pp_invitations_update (with_permission i p))) \<and>
     (\<forall>sid i p. changes view sid (mg_putExternalInvitation svc sid i p) (\<lambda>_. pp_externals_update (with_permission i p))) \<and>
     (\<forall>sid i p. changes view sid (mg_putMember svc sid i p) (\<lambda>_. pp_members_update (with_permission i p))) \<and>
     (\<forall>sid i. changes view sid (mg_deleteInvitation svc sid i) (\<lambda>_. pp_invitations_update (without_id i))) \<and>
     (\<forall>sid i. changes view sid (mg_deleteExternalInvitation svc sid i) (\<lambda>_. pp_externals_update (without_id i))) \<and>
     (\<forall>sid i. changes view sid (mg_deleteMember svc sid i) (\<lambda>_. pp_members_update (without_id i))) \<and>
     (\<forall>sid by e p c o'. changes view sid (mg_postInvitation svc sid by e p c None o')
        (\<lambda>d. pp_invitations_update (\<lambda>ps. ps @ [(iv_InvitationID d, e, Some p)]))) \<and>
     (\<forall>sid by e p c o' s d s'. mg_postInvitation svc sid by e p c None o' s = (Inr d, s') \<longrightarrow>
        iv_InviteeEmail d = e \<and> iv_Permissions d = Some p) \<and>
     (\<forall>sid by e p c o'. changes view sid (mg_postExternalInvitation svc sid by e p c o')
        (\<lambda>d. pp_externals_update (\<lambda>ps. ps @ [(xv_ExternalInvitationID d, e, Some p)]))) \<and>
     (\<forall>sid s r s'. mg_deleteShare svc sid True s = (r, s') \<longrightarrow>
        view s' = (case r of Inl _ \<Rightarrow> view s | Inr _ \<Rightarrow> (view s)(sid := nobody)))"

definition reads_people :: "('s, 'k, 'sk, 'e) manage_services \<Rightarrow> ('s \<Rightarrow> string \<Rightarrow> people) \<Rightarrow> bool" where
  "reads_people svc view \<longleftrightarrow>
     (\<forall>sid s ds s'. mg_getInvitations svc sid s = (Inr ds, s') \<longrightarrow> view s' = view s \<and> map iv_person ds = pp_invitations (view s sid)) \<and>
     (\<forall>sid s ds s'. mg_getExternalInvitations svc sid s = (Inr ds, s') \<longrightarrow> view s' = view s \<and> map xv_person ds = pp_externals (view s sid)) \<and>
     (\<forall>sid s ds s'. mg_getMembers svc sid s = (Inr ds, s') \<longrightarrow> view s' = view s \<and> map mb_person ds = pp_members (view s sid))"

definition links_leave :: "('s, 'k, 'sk) link_services \<Rightarrow> ('s \<Rightarrow> 'v) \<Rightarrow> bool" where
  "links_leave l view \<longleftrightarrow>
     (\<forall>a. leaves view (ls_getShareUrls l a)) \<and> (\<forall>a b c. leaves view (ls_postShareUrl l a b c)) \<and>
     (\<forall>a b c. leaves view (ls_putShareUrl l a b c)) \<and> (\<forall>a b. leaves view (ls_deleteShareUrl l a b)) \<and>
     leaves view (ls_getRootVolumeId l) \<and> (\<forall>a. leaves view (ls_getOwnAddress l a)) \<and>
     (\<forall>a b c. leaves view (ls_encryptPassword l a b c)) \<and> (\<forall>a b. leaves view (ls_decryptShareUrlPassword l a b)) \<and>
     leaves view (ls_getRandomValues l) \<and> leaves view (ls_now l)"

definition others_leave :: "('s, 'k, 'sk, 'e) manage_services \<Rightarrow> ('s \<Rightarrow> 'v) \<Rightarrow> bool" where
  "others_leave svc view \<longleftrightarrow>
     links_leave (mg_links svc) view \<and>
     (\<forall>a. leaves view (mg_hasProtonAccount svc a)) \<and> (\<forall>a. leaves view (mg_getNode svc a)) \<and>
     (\<forall>a. leaves view (mg_getNodeKey svc a)) \<and> (\<forall>a. leaves view (mg_getRootNodeEmailKey svc a)) \<and>
     (\<forall>a. leaves view (mg_notifyNodeChanged svc a)) \<and> (\<forall>a. leaves view (mg_loadEncryptedShare svc a)) \<and>
     (\<forall>a b. leaves view (mg_decryptShare svc a b)) \<and> (\<forall>a b c d. leaves view (mg_encryptInvitation svc a b c d)) \<and>
     (\<forall>a b c. leaves view (mg_encryptExternalInvitation svc a b c)) \<and> (\<forall>a b. leaves view (mg_putEditorsCanShare svc a b))"

section \<open>Operations that leave the people alone\<close>

named_theorems leaves_intros

lemma leaves_give [leaves_intros]: "leaves v (give a)"
  by (simp add: leaves_def give_def)

lemma leaves_throw [leaves_intros]: "leaves v (throw_act a)"
  by (simp add: leaves_def throw_act_def)

lemma leaves_result [leaves_intros]: "leaves v (of_result a)"
  by (simp add: leaves_def of_result_def)

lemma leaves_await [leaves_intros]: "leaves v m \<Longrightarrow> (\<And>a. leaves v (k a)) \<Longrightarrow> leaves v (await m k)"
  unfolding leaves_def await_def by (simp split: prod.split sum.split) (metis snd_conv)

lemma links_leaveD [leaves_intros]:
  assumes "links_leave l view"
  shows "leaves view (ls_getShareUrls l a)" "leaves view (ls_postShareUrl l a b c)" "leaves view (ls_putShareUrl l a b c)"
    "leaves view (ls_deleteShareUrl l a b)" "leaves view (ls_getRootVolumeId l)" "leaves view (ls_getOwnAddress l a)"
    "leaves view (ls_encryptPassword l a k sk)" "leaves view (ls_decryptShareUrlPassword l a ks)"
    "leaves view (ls_getRandomValues l)" "leaves view (ls_now l)"
  using assms unfolding links_leave_def by blast+

lemma others_leaveD [leaves_intros]:
  assumes "others_leave svc view"
  shows "links_leave (mg_links svc) view"
    and "leaves view (mg_hasProtonAccount svc a)" "leaves view (mg_getNode svc a)" "leaves view (mg_getNodeKey svc a)"
    and "leaves view (mg_getRootNodeEmailKey svc a)" "leaves view (mg_notifyNodeChanged svc a)"
    and "leaves view (mg_loadEncryptedShare svc a)"
    and "leaves view (mg_encryptInvitation svc sk k a b)" "leaves view (mg_encryptExternalInvitation svc sk k a)"
    and "leaves view (mg_decryptShare svc es k)" "leaves view (mg_putEditorsCanShare svc a b)"
  using assms unfolding others_leave_def by (elim conjE, simp)+

lemma link_operations_leave:
  assumes "links_leave l view"
  shows "leaves view (shareViaLink l inviter share opt)" "leaves view (updateSharedLink l share link opt)"
    "leaves view (removeSharedLink l uid)" "leaves view (getPublicLink l sid vol)"
  using assms
  by (auto simp: shareViaLink_def updateSharedLink_def removeSharedLink_def getPublicLink_def generatePublicLinkPassword_def
      encryptPublicLink_def createPublicLink_def updatePublicLink_def removePublicLink_def api_getPublicLink_def
      decryptPublicLink_def decryptShareUrlPassword_def split: option.split prod.split if_splits intro!: leaves_intros)

section \<open>The client's lists and the server's\<close>

definition entry_key :: "'x member_entry_scheme \<Rightarrow> string \<times> string \<times> member_role" where
  "entry_key x = (me_uid x, me_inviteeEmail x, me_role x)"

definition person_key :: "string \<Rightarrow> person \<Rightarrow> string \<times> string \<times> member_role" where
  "person_key sid p = (makeInvitationUid sid (fst p), fst (snd p), permissionsToMemberRole (snd (snd p)))"

definition same_people :: "string \<Rightarrow> 'x member_entry_scheme list \<Rightarrow> person list \<Rightarrow> bool" where
  "same_people sid xs ps \<longleftrightarrow> map entry_key xs = map (person_key sid) ps"

definition agrees :: "string \<Rightarrow> 'x share_result_scheme \<Rightarrow> people \<Rightarrow> bool" where
  "agrees sid r p \<longleftrightarrow>
     same_people sid (sr_protonInvitations r) (pp_invitations p)
     \<and> same_people sid (sr_nonProtonInvitations r) (pp_externals p)
     \<and> same_people sid (sr_members r) (pp_members p)"

lemma member_uid: "makeMemberUid = makeInvitationUid" "splitMemberUid u = Inr (a, b) \<longleftrightarrow> splitInvitationUid u = Inr (a, b)"
  by (simp_all add: fun_eq_iff uid_defs uid_split_defs split2_Inr_iff)

lemma invitation_uid_inj:
  "tilde \<notin> set sid \<Longrightarrow> tilde \<notin> set i \<Longrightarrow> tilde \<notin> set j \<Longrightarrow> makeInvitationUid sid i = makeInvitationUid sid j \<longleftrightarrow> i = j"
  using split2_Inr_iff [of "makeInvitationUid sid i" _ sid] unfolding uid_defs by (metis prod.inject sum.inject(2))

lemma same_people_Cons:
  "same_people sid (x # xs) ps \<longleftrightarrow>
     (\<exists>i e q qs. ps = (i, e, q) # qs \<and> me_uid x = makeInvitationUid sid i \<and> me_inviteeEmail x = e
        \<and> me_role x = permissionsToMemberRole q \<and> same_people sid xs qs)"
  by (cases ps) (auto simp: same_people_def entry_key_def person_key_def)

lemma same_people_Nil [simp]: "same_people sid [] ps \<longleftrightarrow> ps = []"
  by (auto simp: same_people_def)

lemma same_people_append:
  "same_people sid xs ps \<Longrightarrow> same_people sid ys qs \<Longrightarrow> same_people sid (xs @ ys) (ps @ qs)"
  by (simp add: same_people_def)

text \<open>The entry \<open>find\<close> returns is about one person of the server, whose id its UID holds.\<close>

lemma found_person:
  assumes "same_people sid xs ps" "ids_ok ps" "tilde \<notin> set sid" "find P xs = Some x"
  shows "\<exists>i. me_uid x = makeInvitationUid sid i \<and> splitInvitationUid (me_uid x) = Inr (sid, i) \<and> tilde \<notin> set i"
proof -
  have "x \<in> set xs" using assms(4) by (auto simp: find_Some_iff)
  then have "entry_key x \<in> set (map (person_key sid) ps)" using assms(1) unfolding same_people_def by (metis image_eqI set_map)
  then obtain p where p: "p \<in> set ps" "me_uid x = makeInvitationUid sid (fst p)" by (auto simp: entry_key_def person_key_def)
  moreover have "tilde \<notin> set (fst p)" using p(1) assms(2) by (auto simp: ids_ok_def)
  ultimately show ?thesis using assms(3) by (auto simp: uid_defs uid_split_defs split2_Inr_iff)
qed

lemma without_other: "i \<notin> fst ` set ps \<Longrightarrow> with_permission i q ps = ps \<and> without_id i ps = ps"
  by (induction ps) (auto simp: with_permission_def without_id_def)

lemma role_set:
  assumes "same_people sid xs ps" "ids_ok ps" "tilde \<notin> set sid"
    and "find (\<lambda>x. me_inviteeEmail x = e) xs = Some x" "me_uid x = makeInvitationUid sid i" "tilde \<notin> set i"
    and "memberRoleToPermission role = Inr q"
  shows "same_people sid (set_role e role xs) (with_permission i q ps)"
  using assms(1,2,4)
proof (induction xs arbitrary: ps)
  case (Cons y ys)
  obtain j e' p qs where ps: "ps = (j, e', p) # qs" and y: "me_uid y = makeInvitationUid sid j" "me_inviteeEmail y = e'"
    "me_role y = permissionsToMemberRole p" and rest: "same_people sid ys qs"
    using Cons.prems(1) unfolding same_people_Cons by blast
  have ok: "ids_ok qs" "tilde \<notin> set j" "j \<notin> fst ` set qs" using Cons.prems(2) by (auto simp: ps ids_ok_def)
  show ?case
  proof (cases "e' = e")
    case True
    then have "x = y" using Cons.prems(3) y(2) by simp
    then have "j = i" using y(1) assms(5) invitation_uid_inj [OF assms(3) ok(2) assms(6)] by simp
    then show ?thesis
      using True y rest ok(3) without_other [of i qs q] role_roundtrip [OF assms(7)]
      by (simp add: ps same_people_Cons with_permission_def)
  next
    case False
    have found: "find (\<lambda>x. me_inviteeEmail x = e) ys = Some x" using Cons.prems(3) False y(2) by simp
    have "i \<noteq> j"
    proof
      assume "i = j"
      have "x \<in> set ys" using found by (auto simp: find_Some_iff)
      then have "entry_key x \<in> set (map (person_key sid) qs)" using rest unfolding same_people_def by (metis image_eqI set_map)
      then obtain p' where p': "p' \<in> set qs" "me_uid x = makeInvitationUid sid (fst p')" by (auto simp: entry_key_def person_key_def)
      moreover have "tilde \<notin> set (fst p')" using p'(1) ok(1) by (auto simp: ids_ok_def)
      ultimately have "fst p' = i" using assms(5) invitation_uid_inj [OF assms(3) _ assms(6)] by metis
      then show False using p'(1) ok(3) \<open>i = j\<close> by force
    qed
    then show ?thesis using False y Cons.IH [OF rest ok(1) found]
      by (simp add: ps same_people_Cons with_permission_def)
  qed
qed simp

lemma entry_removed:
  assumes "same_people sid xs ps" "ids_ok ps" "tilde \<notin> set sid" "tilde \<notin> set i"
  shows "same_people sid (filter (\<lambda>x. me_uid x \<noteq> makeInvitationUid sid i) xs) (without_id i ps)"
  using assms(1,2)
proof (induction xs arbitrary: ps)
  case (Cons y ys)
  obtain j e' p qs where ps: "ps = (j, e', p) # qs" and y: "me_uid y = makeInvitationUid sid j" "me_inviteeEmail y = e'"
    "me_role y = permissionsToMemberRole p" and rest: "same_people sid ys qs"
    using Cons.prems(1) unfolding same_people_Cons by blast
  have ok: "ids_ok qs" "tilde \<notin> set j" using Cons.prems(2) by (auto simp: ps ids_ok_def)
  then show ?case
    using Cons.IH [OF rest] y invitation_uid_inj [OF assms(3) ok(2) assms(4)]
    by (auto simp: ps same_people_Cons without_id_def)
qed (simp add: without_id_def)

section \<open>One user\<close>

definition same_for :: "string \<Rightarrow> 'x share_result_scheme \<Rightarrow> 'x share_result_scheme \<Rightarrow> bool" where
  "same_for e r r' \<longleftrightarrow>
     filter (\<lambda>x. me_inviteeEmail x = e) (sr_protonInvitations r') = filter (\<lambda>x. me_inviteeEmail x = e) (sr_protonInvitations r)
     \<and> filter (\<lambda>x. me_inviteeEmail x = e) (sr_nonProtonInvitations r') = filter (\<lambda>x. me_inviteeEmail x = e) (sr_nonProtonInvitations r)
     \<and> filter (\<lambda>x. me_inviteeEmail x = e) (sr_members r') = filter (\<lambda>x. me_inviteeEmail x = e) (sr_members r)"

text \<open>The role of an email address: that of its first invitation, else of its first membership.\<close>

definition role_in :: "string \<Rightarrow> 'x member_entry_scheme list \<Rightarrow> member_role option" where
  "role_in e xs = map_option me_role (find (\<lambda>x. me_inviteeEmail x = e) xs)"

definition role_of :: "bool \<Rightarrow> 'x share_result_scheme \<Rightarrow> string \<Rightarrow> member_role option" where
  "role_of isProton r e =
     (case (if isProton then role_in e (sr_protonInvitations r) else role_in e (sr_nonProtonInvitations r)) of
        Some role \<Rightarrow> Some role
      | None \<Rightarrow> role_in e (sr_members r))"

lemma same_for_refl [simp]: "same_for e r r"
  by (simp add: same_for_def)

lemma same_for_trans: "same_for e r r' \<Longrightarrow> same_for e r' r'' \<Longrightarrow> same_for e r r''"
  by (simp add: same_for_def)

lemma find_by_filter: "find P xs = (case filter P xs of [] \<Rightarrow> None | x # _ \<Rightarrow> Some x)"
  by (induction xs) auto

lemma role_in_cong:
  "filter (\<lambda>x. me_inviteeEmail x = e) xs = filter (\<lambda>x. me_inviteeEmail x = e) ys \<Longrightarrow> role_in e xs = role_in e ys"
  by (simp add: role_in_def find_by_filter)

lemma role_of_same:
  assumes "same_for e r r'"
  shows "role_of b r' e = role_of b r e"
proof -
  have same: "role_in e (sr_protonInvitations r') = role_in e (sr_protonInvitations r)"
    "role_in e (sr_nonProtonInvitations r') = role_in e (sr_nonProtonInvitations r)"
    "role_in e (sr_members r') = role_in e (sr_members r)"
    using assms by (auto simp: same_for_def intro!: role_in_cong)
  show ?thesis unfolding role_of_def same ..
qed

lemma set_role_other: "e' \<noteq> e \<Longrightarrow> filter (\<lambda>x. me_inviteeEmail x = e') (set_role e role xs) = filter (\<lambda>x. me_inviteeEmail x = e') xs"
  by (induction xs) auto

lemma set_role_found: "role_in e xs \<noteq> None \<Longrightarrow> role_in e (set_role e role xs) = Some role"
  by (induction xs) (auto simp: role_in_def)

lemma role_in_append: "role_in e xs = None \<Longrightarrow> role_in e (xs @ [x]) = (if me_inviteeEmail x = e then Some (me_role x) else None)"
  by (induction xs) (auto simp: role_in_def split: if_splits)

lemma changesD: "changes view sid m f \<Longrightarrow> m s = (Inr a, s') \<Longrightarrow> view s' = (view s)(sid := f a (view s sid))"
  by (auto simp: changes_def)

lemma updates_peopleD:
  assumes "updates_people svc view"
  shows "people_ok (view s sid)"
    and "changes view sid (mg_putInvitation svc sid i p) (\<lambda>_. pp_invitations_update (with_permission i p))"
    and "changes view sid (mg_putExternalInvitation svc sid i p) (\<lambda>_. pp_externals_update (with_permission i p))"
    and "changes view sid (mg_putMember svc sid i p) (\<lambda>_. pp_members_update (with_permission i p))"
    and "changes view sid (mg_deleteInvitation svc sid i) (\<lambda>_. pp_invitations_update (without_id i))"
    and "changes view sid (mg_deleteExternalInvitation svc sid i) (\<lambda>_. pp_externals_update (without_id i))"
    and "changes view sid (mg_deleteMember svc sid i) (\<lambda>_. pp_members_update (without_id i))"
    and "changes view sid (mg_postInvitation svc sid by' e p c None opt)
           (\<lambda>d. pp_invitations_update (\<lambda>ps. ps @ [(iv_InvitationID d, e, Some p)]))"
    and "mg_postInvitation svc sid by' e p c None opt s = (Inr d, s') \<Longrightarrow> iv_InviteeEmail d = e \<and> iv_Permissions d = Some p"
    and "changes view sid (mg_postExternalInvitation svc sid by' e p c opt)
           (\<lambda>d. pp_externals_update (\<lambda>ps. ps @ [(xv_ExternalInvitationID d, e, Some p)]))"
    and "mg_deleteShare svc sid True s = (r, s') \<Longrightarrow>
           view s' = (case r of Inl _ \<Rightarrow> view s | Inr _ \<Rightarrow> (view s)(sid := nobody))"
  using assms unfolding updates_people_def by (elim conjE, metis)+

lemma role_request:
  assumes "splitInvitationUid uid = Inr (sid, i)" "\<And>p. changes view sid (put sid i p) (\<lambda>_. f p)"
    and "await (of_result (splitInvitationUid uid)) (\<lambda>(a, b). await (of_result (memberRoleToPermission role)) (put a b)) s = (Inr x, s')"
  shows "\<exists>q. memberRoleToPermission role = Inr q \<and> view s' = (view s)(sid := f q (view s sid))"
proof -
  obtain q where "memberRoleToPermission role = Inr q" "put sid i q s = (Inr x, s')"
    using assms(1,3) by (auto simp: of_result_def dest!: await_ok)
  then show ?thesis using changesD [OF assms(2)] by blast
qed

lemma id_request:
  assumes "splitInvitationUid uid = Inr (sid, i)" "changes view sid (del sid i) (\<lambda>_. f)"
    and "await (of_result (splitInvitationUid uid)) (\<lambda>(a, b). del a b) s = (Inr x, s')"
  shows "view s' = (view s)(sid := f (view s sid))"
  using assms(1,3) changesD [OF assms(2)] by (auto simp: of_result_def dest!: await_ok)

lemma splitMember: "splitMemberUid u = Inr q \<longleftrightarrow> splitInvitationUid u = Inr q"
  using member_uid(2) [of u "fst q" "snd q"] by simp

lemma requests_change:
  assumes "updates_people svc view" and uid: "splitInvitationUid uid = Inr (sid, i)"
  shows "updateInvitation svc uid role s = (Inr (), s') \<Longrightarrow>
      \<exists>q. memberRoleToPermission role = Inr q \<and> view s' = (view s)(sid := pp_invitations_update (with_permission i q) (view s sid))"
    and "updateExternalInvitation svc uid role s = (Inr (), s') \<Longrightarrow>
      \<exists>q. memberRoleToPermission role = Inr q \<and> view s' = (view s)(sid := pp_externals_update (with_permission i q) (view s sid))"
    and "updateMember svc uid role s = (Inr (), s') \<Longrightarrow>
      \<exists>q. memberRoleToPermission role = Inr q \<and> view s' = (view s)(sid := pp_members_update (with_permission i q) (view s sid))"
    and "deleteInvitation svc uid s = (Inr (), s') \<Longrightarrow> view s' = (view s)(sid := pp_invitations_update (without_id i) (view s sid))"
    and "deleteExternalInvitation svc uid s = (Inr (), s') \<Longrightarrow> view s' = (view s)(sid := pp_externals_update (without_id i) (view s sid))"
    and "removeMember svc uid s = (Inr (), s') \<Longrightarrow> view s' = (view s)(sid := pp_members_update (without_id i) (view s sid))"
proof -
  have same: "splitMemberUid uid = splitInvitationUid uid" using uid splitMember by simp
  show "updateInvitation svc uid role s = (Inr (), s') \<Longrightarrow>
      \<exists>q. memberRoleToPermission role = Inr q \<and> view s' = (view s)(sid := pp_invitations_update (with_permission i q) (view s sid))"
    unfolding updateInvitation_def
    by (rule role_request [where put = "mg_putInvitation svc", OF uid updates_peopleD(2) [OF assms(1)]])
  show "updateExternalInvitation svc uid role s = (Inr (), s') \<Longrightarrow>
      \<exists>q. memberRoleToPermission role = Inr q \<and> view s' = (view s)(sid := pp_externals_update (with_permission i q) (view s sid))"
    unfolding updateExternalInvitation_def
    by (rule role_request [where put = "mg_putExternalInvitation svc", OF uid updates_peopleD(3) [OF assms(1)]])
  show "updateMember svc uid role s = (Inr (), s') \<Longrightarrow>
      \<exists>q. memberRoleToPermission role = Inr q \<and> view s' = (view s)(sid := pp_members_update (with_permission i q) (view s sid))"
    unfolding updateMember_def same
    by (rule role_request [where put = "mg_putMember svc", OF uid updates_peopleD(4) [OF assms(1)]])
  show "deleteInvitation svc uid s = (Inr (), s') \<Longrightarrow> view s' = (view s)(sid := pp_invitations_update (without_id i) (view s sid))"
    unfolding deleteInvitation_def
    by (rule id_request [where del = "mg_deleteInvitation svc", OF uid updates_peopleD(5) [OF assms(1)]])
  show "deleteExternalInvitation svc uid s = (Inr (), s') \<Longrightarrow> view s' = (view s)(sid := pp_externals_update (without_id i) (view s sid))"
    unfolding deleteExternalInvitation_def
    by (rule id_request [where del = "mg_deleteExternalInvitation svc", OF uid updates_peopleD(6) [OF assms(1)]])
  show "removeMember svc uid s = (Inr (), s') \<Longrightarrow> view s' = (view s)(sid := pp_members_update (without_id i) (view s sid))"
    unfolding removeMember_def same
    by (rule id_request [where del = "mg_deleteMember svc", OF uid updates_peopleD(7) [OF assms(1)]])
qed

text \<open>
  What a step for the user \<open>e\<close> leaves of the sharing \<open>r\<close>: it is still what the server has, the other
  shares and the entries of other users are untouched, and the user has the role.
\<close>

definition user_step ::
  "('s \<Rightarrow> string \<Rightarrow> people) \<Rightarrow> string \<Rightarrow> string
     \<Rightarrow> 'sk internal_share_result \<Rightarrow> 's \<Rightarrow> 'sk internal_share_result \<Rightarrow> 's \<Rightarrow> bool"
where
  "user_step view sid e r s r' s' \<longleftrightarrow>
     agrees sid r' (view s' sid) \<and> (\<forall>t. t \<noteq> sid \<longrightarrow> view s' t = view s t) \<and> is_share r' = is_share r
     \<and> (\<forall>e'. e' \<noteq> e \<longrightarrow> same_for e' r r')"

lemma role_in_None: "find (\<lambda>x. me_inviteeEmail x = e) xs = None \<Longrightarrow> role_in e xs = None"
  by (simp add: role_in_def)

lemma role_in_Some: "find (\<lambda>x. me_inviteeEmail x = e) xs = Some x \<Longrightarrow> role_in e xs = Some (me_role x)"
  by (simp add: role_in_def)

lemma member_step:
  assumes U: "updates_people svc view" and sid: "tilde \<notin> set sid" and A: "agrees sid r (view s sid)"
    and found: "find (\<lambda>x. me_inviteeEmail x = e) (sr_members r) = Some x"
    and run: "share_with_member svc e role x r s = (Inr r', s')"
  shows "user_step view sid e r s r' s' \<and> role_in e (sr_members r') = Some role
    \<and> sr_protonInvitations r' = sr_protonInvitations r \<and> sr_nonProtonInvitations r' = sr_nonProtonInvitations r"
proof (cases "me_role x = role")
  case True
  then show ?thesis using run A found
    by (simp add: share_with_member_def give_def user_step_def role_in_Some)
next
  case False
  have S: "same_people sid (sr_members r) (pp_members (view s sid))" and ok: "ids_ok (pp_members (view s sid))"
    using A updates_peopleD(1) [OF U] by (auto simp: agrees_def people_ok_def)
  obtain i where i: "me_uid x = makeInvitationUid sid i" "splitInvitationUid (me_uid x) = Inr (sid, i)" "tilde \<notin> set i"
    using found_person [OF S ok sid found] by blast
  have upd: "updateMember svc (me_uid x) role s = (Inr (), s')"
    and r': "r' = r\<lparr>sr_members := set_role e role (sr_members r)\<rparr>"
    using run False by (auto simp: share_with_member_def give_def dest!: await_ok)
  obtain q where q: "memberRoleToPermission role = Inr q"
    and v: "view s' = (view s)(sid := pp_members_update (with_permission i q) (view s sid))"
    using requests_change(3) [OF U i(2) upd] by blast
  have "role_in e (sr_members r) \<noteq> None" using role_in_Some [OF found] by simp
  then show ?thesis
    using A v role_set [OF S ok sid found i(1,3) q] set_role_found [of e "sr_members r" role]
    by (auto simp: user_step_def agrees_def r' same_for_def set_role_other)
qed

lemma invited_step:
  assumes U: "updates_people svc view" and sid: "tilde \<notin> set sid" and A: "agrees sid r (view s sid)"
    and found: "find (\<lambda>x. me_inviteeEmail x = e) (sr_protonInvitations r) = Some x"
    and run: "share_with_proton_user svc a opt (e, role) r s = (Inr r', s')"
  shows "user_step view sid e r s r' s' \<and> role_of True r' e = Some role"
proof (cases "me_role x = role")
  case True
  then show ?thesis using run A found
    by (simp add: share_with_proton_user_def give_def user_step_def role_in_Some role_of_def)
next
  case False
  have S: "same_people sid (sr_protonInvitations r) (pp_invitations (view s sid))"
    and ok: "ids_ok (pp_invitations (view s sid))"
    using A updates_peopleD(1) [OF U] by (auto simp: agrees_def people_ok_def)
  obtain i where i: "me_uid x = makeInvitationUid sid i" "splitInvitationUid (me_uid x) = Inr (sid, i)" "tilde \<notin> set i"
    using found_person [OF S ok sid found] by blast
  have upd: "updateInvitation svc (me_uid x) role s = (Inr (), s')"
    and r': "r' = r\<lparr>sr_protonInvitations := set_role e role (sr_protonInvitations r)\<rparr>"
    using run False found by (auto simp: share_with_proton_user_def give_def dest!: await_ok)
  obtain q where q: "memberRoleToPermission role = Inr q"
    and v: "view s' = (view s)(sid := pp_invitations_update (with_permission i q) (view s sid))"
    using requests_change(1) [OF U i(2) upd] by blast
  have "role_in e (sr_protonInvitations r) \<noteq> None" using role_in_Some [OF found] by simp
  then show ?thesis
    using A v role_set [OF S ok sid found i(1,3) q] set_role_found [of e "sr_protonInvitations r" role]
    by (auto simp: user_step_def agrees_def r' same_for_def set_role_other role_of_def)
qed

lemma new_invitation_step:
  assumes U: "updates_people svc view" and O: "others_leave svc view"
    and A: "agrees sid r (view s sid)" and share: "sh_shareId (is_share r) = sid"
    and new: "find (\<lambda>x. me_inviteeEmail x = e) (sr_protonInvitations r) = None" "find (\<lambda>x. me_inviteeEmail x = e) (sr_members r) = None"
    and run: "share_with_proton_user svc a opt (e, role) r s = (Inr r', s')"
  shows "user_step view sid e r s r' s' \<and> role_of True r' e = Some role"
proof -
  have S: "same_people sid (sr_protonInvitations r) (pp_invitations (view s sid))" using A by (simp add: agrees_def)
  obtain c d q s1 where enc: "mg_encryptInvitation svc (sh_passphraseSessionKey (is_share r)) (ca_addressKey a) e False s = (Inr c, s1)"
    and q: "memberRoleToPermission role = Inr q"
    and post: "mg_postInvitation svc sid (ca_email a) e q c None opt s1 = (Inr d, s')"
    and r': "r' = r\<lparr>sr_protonInvitations := sr_protonInvitations r @ [decryptInvitation (convertInternalInvitation sid d)]\<rparr>"
    using run new share
    by (auto simp: share_with_proton_user_def inviteProtonUser_def inviteProtonUserRequest_def give_def of_result_def
        dest!: await_ok)
  have v: "view s' = (view s)(sid := pp_invitations_update (\<lambda>ps. ps @ [(iv_InvitationID d, e, Some q)]) (view s sid))"
    using changesD [OF updates_peopleD(8) [OF U] post] leavesD [OF others_leaveD(8) [OF O] enc] by simp
  have d: "iv_InviteeEmail d = e" "iv_Permissions d = Some q" using updates_peopleD(9) [OF U post] by auto
  have "same_people sid [decryptInvitation (convertInternalInvitation sid d)] [(iv_InvitationID d, e, Some q)]"
    using d by (simp add: same_people_Cons decryptInvitation_def convertInternalInvitation_def)
  then show ?thesis
    using A v d role_in_None [OF new(1)] role_roundtrip [OF q] same_people_append [OF S]
    by (auto simp: user_step_def agrees_def r' same_for_def role_of_def role_in_append
        decryptInvitation_def convertInternalInvitation_def)
qed

lemma proton_step:
  assumes U: "updates_people svc view" and O: "others_leave svc view" and sid: "tilde \<notin> set sid"
    and A: "agrees sid r (view s sid)" and share: "sh_shareId (is_share r) = sid"
    and run: "share_with_proton_user svc a opt (e, role) r s = (Inr r', s')"
  shows "user_step view sid e r s r' s' \<and> role_of True r' e = Some role"
proof (cases "find (\<lambda>x. me_inviteeEmail x = e) (sr_protonInvitations r)")
  case None
  show ?thesis
  proof (cases "find (\<lambda>x. me_inviteeEmail x = e) (sr_members r)")
    case (Some x)
    then have "share_with_member svc e role x r s = (Inr r', s')"
      using run None by (simp add: share_with_proton_user_def)
    from member_step [OF U sid A Some this] show ?thesis using role_in_None [OF None] by (simp add: role_of_def)
  qed (rule new_invitation_step [OF U O A share None _ run])
qed (rule invited_step [OF U sid A _ run])

lemma externally_invited_step:
  assumes U: "updates_people svc view" and sid: "tilde \<notin> set sid" and A: "agrees sid r (view s sid)"
    and found: "find (\<lambda>x. me_inviteeEmail x = e) (sr_nonProtonInvitations r) = Some x"
    and run: "share_with_external_user svc a opt (e, role) r s = (Inr r', s')"
  shows "user_step view sid e r s r' s' \<and> role_of False r' e = Some role"
proof (cases "me_role x = role")
  case True
  then show ?thesis using run A found
    by (simp add: share_with_external_user_def give_def user_step_def role_in_Some role_of_def)
next
  case False
  have S: "same_people sid (sr_nonProtonInvitations r) (pp_externals (view s sid))"
    and ok: "ids_ok (pp_externals (view s sid))"
    using A updates_peopleD(1) [OF U] by (auto simp: agrees_def people_ok_def)
  obtain i where i: "me_uid x = makeInvitationUid sid i" "splitInvitationUid (me_uid x) = Inr (sid, i)" "tilde \<notin> set i"
    using found_person [OF S ok sid found] by blast
  have upd: "updateExternalInvitation svc (me_uid x) role s = (Inr (), s')"
    and r': "r' = r\<lparr>sr_nonProtonInvitations := set_role e role (sr_nonProtonInvitations r)\<rparr>"
    using run False found by (auto simp: share_with_external_user_def give_def dest!: await_ok)
  obtain q where q: "memberRoleToPermission role = Inr q"
    and v: "view s' = (view s)(sid := pp_externals_update (with_permission i q) (view s sid))"
    using requests_change(2) [OF U i(2) upd] by blast
  have "role_in e (sr_nonProtonInvitations r) \<noteq> None" using role_in_Some [OF found] by simp
  then show ?thesis
    using A v role_set [OF S ok sid found i(1,3) q] set_role_found [of e "sr_nonProtonInvitations r" role]
    by (auto simp: user_step_def agrees_def r' same_for_def set_role_other role_of_def)
qed

lemma new_external_step:
  assumes U: "updates_people svc view" and O: "others_leave svc view"
    and A: "agrees sid r (view s sid)" and share: "sh_shareId (is_share r) = sid"
    and new: "find (\<lambda>x. me_inviteeEmail x = e) (sr_nonProtonInvitations r) = None" "find (\<lambda>x. me_inviteeEmail x = e) (sr_members r) = None"
    and run: "share_with_external_user svc a opt (e, role) r s = (Inr r', s')"
  shows "user_step view sid e r s r' s' \<and> role_of False r' e = Some role"
proof -
  have S: "same_people sid (sr_nonProtonInvitations r) (pp_externals (view s sid))" using A by (simp add: agrees_def)
  obtain c d q s1 where enc: "mg_encryptExternalInvitation svc (sh_passphraseSessionKey (is_share r)) (ca_addressKey a) e s = (Inr c, s1)"
    and q: "memberRoleToPermission role = Inr q"
    and post: "mg_postExternalInvitation svc sid (ca_addressId a) e q c opt s1 = (Inr d, s')"
    and r': "r' = r\<lparr>sr_nonProtonInvitations := sr_nonProtonInvitations r @
        [\<lparr>me_uid = makeInvitationUid sid (xv_ExternalInvitationID d), me_invitationTime = xv_CreateTime d * 1000,
          me_addedByEmail = Inr (ca_email a), me_inviteeEmail = e, me_role = role,
          np_state = (if xv_State d = 1 then Pending else UserRegistered)\<rparr>]\<rparr>"
    using run new share
    by (auto simp: share_with_external_user_def inviteExternalUser_def inviteExternalUserRequest_def give_def of_result_def
        convertExternalInvitation_def dest!: await_ok)
  have v: "view s' = (view s)(sid := pp_externals_update (\<lambda>ps. ps @ [(xv_ExternalInvitationID d, e, Some q)]) (view s sid))"
    using changesD [OF updates_peopleD(10) [OF U] post] leavesD [OF others_leaveD(9) [OF O] enc] by simp
  show ?thesis
    using A v role_in_None [OF new(1)] role_roundtrip [OF q] same_people_append [OF S]
    by (auto simp: user_step_def agrees_def r' same_for_def role_of_def role_in_append same_people_Cons)
qed

lemma external_step:
  assumes U: "updates_people svc view" and O: "others_leave svc view" and sid: "tilde \<notin> set sid"
    and A: "agrees sid r (view s sid)" and share: "sh_shareId (is_share r) = sid"
    and run: "share_with_external_user svc a opt (e, role) r s = (Inr r', s')"
  shows "user_step view sid e r s r' s' \<and> role_of False r' e = Some role"
proof (cases "find (\<lambda>x. me_inviteeEmail x = e) (sr_nonProtonInvitations r)")
  case None
  show ?thesis
  proof (cases "find (\<lambda>x. me_inviteeEmail x = e) (sr_members r)")
    case (Some x)
    then have "share_with_member svc e role x r s = (Inr r', s')"
      using run None by (simp add: share_with_external_user_def)
    from member_step [OF U sid A Some this] show ?thesis using role_in_None [OF None] by (simp add: role_of_def)
  qed (rule new_external_step [OF U O A share None _ run])
qed (rule externally_invited_step [OF U sid A _ run])

section \<open>All users\<close>

lemma users_loop:
  assumes step: "\<forall>u r s r' s'. agrees sid r (view s sid) \<and> sh_shareId (is_share r) = sid \<and> f u r s = (Inr r', s') \<longrightarrow>
      user_step view sid (fst u) r s r' s' \<and> role_of b r' (fst u) = Some (snd u)"
  shows "agrees sid r (view s sid) \<Longrightarrow> sh_shareId (is_share r) = sid \<Longrightarrow> fold_act f us r s = (Inr r', s') \<Longrightarrow>
    agrees sid r' (view s' sid) \<and> (\<forall>t. t \<noteq> sid \<longrightarrow> view s' t = view s t) \<and> is_share r' = is_share r
    \<and> (\<forall>e. e \<notin> fst ` set us \<longrightarrow> same_for e r r')
    \<and> (\<forall>e role. map_of (rev us) e = Some role \<longrightarrow> role_of b r' e = Some role)"
proof (induction us arbitrary: r s)
  case (Cons u us)
  obtain r1 s1 where run: "f u r s = (Inr r1, s1)" "fold_act f us r1 s1 = (Inr r', s')"
    using Cons.prems(3) by (auto dest: await_ok)
  have one: "user_step view sid (fst u) r s r1 s1" "role_of b r1 (fst u) = Some (snd u)"
    using step Cons.prems(1,2) run(1) by blast+
  have IH: "agrees sid r' (view s' sid)" "\<forall>t. t \<noteq> sid \<longrightarrow> view s' t = view s1 t" "is_share r' = is_share r1"
    "\<forall>e. e \<notin> fst ` set us \<longrightarrow> same_for e r1 r'" "\<forall>e role. map_of (rev us) e = Some role \<longrightarrow> role_of b r' e = Some role"
    using Cons.IH [of r1 s1] one(1) Cons.prems(2) run(2) by (auto simp: user_step_def)
  have "role_of b r' e = Some role" if "map_of (rev (u # us)) e = Some role" for e role
  proof (cases "map_of (rev us) e")
    case None
    then have "e \<notin> fst ` set us" by (simp add: map_of_eq_None_iff)
    then have "role_of b r' e = role_of b r1 e" using IH(4) role_of_same by blast
    moreover have "e = fst u" "role = snd u" using that None by (auto simp: map_add_def split: if_splits)
    ultimately show ?thesis using one(2) by simp
  next
    case (Some role')
    then show ?thesis using that IH(5) by (simp add: map_add_def)
  qed
  moreover have "same_for e r r'" if "e \<notin> fst ` set (u # us)" for e
  proof -
    have "same_for e r r1" using that one(1) unfolding user_step_def by simp
    moreover have "same_for e r1 r'" using that IH(4) by simp
    ultimately show ?thesis by (rule same_for_trans)
  qed
  ultimately show ?case using one(1) IH(1-3) unfolding user_step_def by simp
qed (simp add: give_def)

text \<open>Who has a Proton account does not change while a node is shared.\<close>

definition tells_accounts :: "('s, 'k, 'sk, 'e) manage_services \<Rightarrow> (string \<Rightarrow> bool) \<Rightarrow> bool" where
  "tells_accounts svc isProton \<longleftrightarrow> (\<forall>e s b s'. mg_hasProtonAccount svc e s = (Inr b, s') \<longrightarrow> b = isProton e)"

lemma users_sorted:
  assumes "tells_accounts svc isProton" "others_leave svc view"
  shows "fold_act (sort_user svc) us acc s = (Inr acc', s') \<Longrightarrow>
    fst acc' = fst acc @ filter (\<lambda>u. isProton (fst u)) (map user_of us)
    \<and> snd acc' = snd acc @ filter (\<lambda>u. \<not> isProton (fst u)) (map user_of us) \<and> view s' = view s"
proof (induction us arbitrary: acc s)
  case (Cons u us)
  obtain e role where u: "user_of u = (e, role)" by fastforce
  obtain acc1 s1 where run: "sort_user svc u acc s = (Inr acc1, s1)" "fold_act (sort_user svc) us acc1 s1 = (Inr acc', s')"
    using Cons.prems by (auto dest: await_ok)
  obtain b where b: "mg_hasProtonAccount svc e s = (Inr b, s1)"
    and acc1: "acc1 = (if b then (fst acc @ [(e, role)], snd acc) else (fst acc, snd acc @ [(e, role)]))"
    using run(1) by (auto simp: sort_user_def u give_def split: if_splits dest!: await_ok)
  have "b = isProton e" using assms(1) b unfolding tells_accounts_def by blast
  moreover have "view s1 = view s" using leavesD [OF others_leaveD(2) [OF assms(2)] b] .
  ultimately show ?case using Cons.IH [OF run(2)] acc1 u by (cases b) auto
qed (simp add: give_def)

section \<open>Reading\<close>

definition shared_as :: "('s, 'k, 'sk, 'e) manage_services \<Rightarrow> string \<Rightarrow> string \<Rightarrow> bool" where
  "shared_as svc nodeUid sid \<longleftrightarrow>
     sid \<noteq> '''' \<and> (\<forall>s node s'. mg_getNode svc nodeUid s = (Inr node, s') \<longrightarrow> shn_shareId node = Some sid)"

lemma read_people:
  assumes "reads_people svc view"
  shows "getShareInvitations svc sid s = (Inr xs, s') \<Longrightarrow>
      view s' = view s \<and> same_people sid (map decryptInvitation xs) (pp_invitations (view s sid))"
    and "getShareExternalInvitations svc sid s = (Inr ys, s') \<Longrightarrow>
      view s' = view s \<and> same_people sid (map decryptExternalInvitation ys) (pp_externals (view s sid))"
    and "getShareMembers svc sid s = (Inr zs, s') \<Longrightarrow>
      view s' = view s \<and> same_people sid (map decryptInvitation zs) (pp_members (view s sid))"
proof -
  have keys: "entry_key (decryptInvitation (convertInternalInvitation sid d)) = person_key sid (iv_person d)"
    "entry_key (decryptExternalInvitation (convertExternalInvitation sid x)) = person_key sid (xv_person x)"
    "entry_key (decryptInvitation (convertMember sid m)) = person_key sid (mb_person m)" for d x m
    by (simp_all add: entry_key_def person_key_def iv_person_def xv_person_def mb_person_def decryptInvitation_def
        decryptExternalInvitation_def convertInternalInvitation_def convertExternalInvitation_def convertMember_def member_uid(1))
  have laws: "mg_getInvitations svc sid t = (Inr ds, t') \<Longrightarrow> view t' = view t \<and> pp_invitations (view t sid) = map iv_person ds"
    "mg_getExternalInvitations svc sid t = (Inr es, t') \<Longrightarrow> view t' = view t \<and> pp_externals (view t sid) = map xv_person es"
    "mg_getMembers svc sid t = (Inr ms, t') \<Longrightarrow> view t' = view t \<and> pp_members (view t sid) = map mb_person ms" for t t' ds es ms
    using assms unfolding reads_people_def by metis+
  show "getShareInvitations svc sid s = (Inr xs, s') \<Longrightarrow>
      view s' = view s \<and> same_people sid (map decryptInvitation xs) (pp_invitations (view s sid))"
    by (auto simp: getShareInvitations_def give_def same_people_def comp_def keys dest!: await_ok laws(1))
  show "getShareExternalInvitations svc sid s = (Inr ys, s') \<Longrightarrow>
      view s' = view s \<and> same_people sid (map decryptExternalInvitation ys) (pp_externals (view s sid))"
    by (auto simp: getShareExternalInvitations_def give_def same_people_def comp_def keys dest!: await_ok laws(2))
  show "getShareMembers svc sid s = (Inr zs, s') \<Longrightarrow>
      view s' = view s \<and> same_people sid (map decryptInvitation zs) (pp_members (view s sid))"
    by (auto simp: getShareMembers_def give_def same_people_def comp_def keys dest!: await_ok laws(3))
qed

lemma shared_present:
  assumes "shared_as svc nodeUid sid" "mg_getNode svc nodeUid s = (Inr node, s1)"
  shows "present (shn_shareId node) = Some sid"
proof -
  have "shn_shareId node = Some sid" "sid \<noteq> []" using assms unfolding shared_as_def by blast+
  then show ?thesis by (simp add: present_def split: list.split)
qed

lemma sharing_info_agrees:
  assumes R: "reads_people svc view" and O: "others_leave svc view" and N: "shared_as svc nodeUid sid"
    and run: "getSharingInfo svc nodeUid s = (Inr info, s')"
  shows "\<exists>r. info = Some r \<and> agrees sid r (view s sid) \<and> view s' = view s"
proof -
  obtain node s1 where n: "mg_getNode svc nodeUid s = (Inr node, s1)" using run by (auto simp: getSharingInfo_def dest!: await_ok)
  then have sid: "present (shn_shareId node) = Some sid" by (rule shared_present [OF N])
  obtain vol xs ys zs l es s2 s3 s4 s5 where
    xs: "getShareInvitations svc sid s1 = (Inr xs, s2)" and ys: "getShareExternalInvitations svc sid s2 = (Inr ys, s3)"
    and zs: "getShareMembers svc sid s3 = (Inr zs, s4)" and l: "getPublicLink (mg_links svc) sid vol s4 = (Inr l, s5)"
    and es: "mg_loadEncryptedShare svc sid s5 = (Inr es, s')"
    and info: "info = Some \<lparr>sr_protonInvitations = map decryptInvitation xs,
        sr_nonProtonInvitations = map decryptExternalInvitation ys, sr_members = map decryptInvitation zs,
        sr_publicLink = l, sr_editorsCanShare = es_editorsCanShare es\<rparr>"
    using run n sid by (auto simp: getSharingInfo_def give_def of_result_def dest!: await_ok)
  note quiet = others_leaveD [OF O]
  have "view s1 = view s" "view s5 = view s4" "view s' = view s5"
    using leavesD [OF quiet(3) n] leavesD [OF link_operations_leave(4) [OF quiet(1)] l] leavesD [OF quiet(7) es] by auto
  then show ?thesis
    using read_people(1) [OF R xs] read_people(2) [OF R ys] read_people(3) [OF R zs] by (simp add: info agrees_def)
qed

lemma internal_info_agrees:
  assumes R: "reads_people svc view" and O: "others_leave svc view" and N: "shared_as svc nodeUid sid"
    and run: "getInternalSharingInfo svc nodeUid s = (Inr info, s')"
  shows "\<exists>r. info = Some r \<and> agrees sid r (view s sid) \<and> sh_shareId (is_share r) = sid \<and> view s' = view s"
proof -
  obtain node s1 where n: "mg_getNode svc nodeUid s = (Inr node, s1)"
    using run by (auto simp: getInternalSharingInfo_def dest!: await_ok)
  then have sid: "present (shn_shareId node) = Some sid" by (rule shared_present [OF N])
  obtain i s2 where i: "getSharingInfo svc nodeUid s1 = (Inr i, s2)"
    using run n sid by (auto simp: getInternalSharingInfo_def dest!: await_ok)
  then obtain r where r: "i = Some r" "agrees sid r (view s1 sid)" "view s2 = view s1"
    using sharing_info_agrees [OF R O N] by blast
  then obtain key es sk vol s3 s4 where key: "mg_getNodeKey svc nodeUid s2 = (Inr key, s3)"
    and es: "mg_loadEncryptedShare svc sid s3 = (Inr es, s4)" and sk: "mg_decryptShare svc es key s4 = (Inr sk, s')"
    and info: "info = Some (share_result.extend r (internal_share_result.fields
        \<lparr>sh_volumeId = vol, sh_shareId = sid, sh_creatorEmail = es_creatorEmail es, sh_passphraseSessionKey = sk\<rparr> (node_name node)))"
    using run n i sid
    by (auto simp: getInternalSharingInfo_def give_def of_result_def dest!: await_ok)
  note quiet = others_leaveD [OF O]
  have "view s1 = view s" "view s3 = view s2" "view s4 = view s3" "view s' = view s4"
    using leavesD [OF quiet(3) n] leavesD [OF quiet(4) key] leavesD [OF quiet(7) es] leavesD [OF quiet(10) sk] by auto
  then show ?thesis using r by (simp add: info agrees_def share_result.defs internal_share_result.defs)
qed

section \<open>shareNode\<close>

lemma role_of_lists:
  assumes "sr_protonInvitations r' = sr_protonInvitations r" "sr_nonProtonInvitations r' = sr_nonProtonInvitations r"
    and "sr_members r' = sr_members r"
  shows "role_of b r' e = role_of b r e"
  unfolding role_of_def assms ..

lemma agrees_truncate [simp]: "agrees sid (share_result.truncate r) p = agrees sid r p"
  by (simp add: agrees_def share_result.defs)

lemma role_truncate [simp]: "role_of b (share_result.truncate r) e = role_of b r e"
  by (rule role_of_lists) (simp_all add: share_result.defs)

lemma editors_step:
  assumes "others_leave svc view" "set_editors_can_share svc setting r s = (Inr r', s')"
  shows "view s' = view s \<and> is_share r' = is_share r \<and> sr_protonInvitations r' = sr_protonInvitations r
    \<and> sr_nonProtonInvitations r' = sr_nonProtonInvitations r \<and> sr_members r' = sr_members r"
  using assms leavesD [OF others_leaveD(11) [OF assms(1)]]
  by (auto simp: set_editors_can_share_def give_def split: option.splits dest!: await_ok)

lemma link_step:
  assumes "others_leave svc view" "share_link svc a setting r s = (Inr r', s')"
  shows "view s' = view s \<and> sr_protonInvitations r' = sr_protonInvitations r
    \<and> sr_nonProtonInvitations r' = sr_nonProtonInvitations r \<and> sr_members r' = sr_members r"
proof -
  let ?share = "\<lambda>opt. case sr_publicLink r of
      Some publicLink \<Rightarrow> updateSharedLink (mg_links svc) (is_share r) publicLink opt
    | None \<Rightarrow> shareViaLink (mg_links svc) a (is_share r) opt"
  have quiet: "leaves view (?share opt)" for opt
    using link_operations_leave [OF others_leaveD(1) [OF assms(1)]] by (simp split: option.split)
  have "(r' = r \<and> s' = s) \<or> (\<exists>opt l. ?share opt s = (Inr l, s') \<and> r' = r\<lparr>sr_publicLink := Some l\<rparr>)"
  proof -
    have shared: "\<exists>l. ?share opt s = (Inr l, s') \<and> r' = r\<lparr>sr_publicLink := Some l\<rparr>"
      if "await (?share opt) (\<lambda>l. give (r\<lparr>sr_publicLink := Some l\<rparr>)) s = (Inr r', s')" for opt
      using await_ok [OF that] by (auto simp: give_def)
    show ?thesis
    proof (cases setting)
      case None
      then show ?thesis using assms(2) by (simp add: share_link_def Let_def give_def)
    next
      case (Some x)
      then show ?thesis using assms(2) shared unfolding share_link_def Let_def
        by (cases x) (auto simp: give_def split: if_splits)
    qed
  qed
  then show ?thesis using leavesD [OF quiet] by auto
qed

lemma settings_applied:
  assumes U: "updates_people svc view" and O: "others_leave svc view" and sid: "tilde \<notin> set sid"
    and A: "agrees sid r (view s sid)" and share: "sh_shareId (is_share r) = sid"
    and disjoint: "fst ` set ps \<inter> fst ` set ns = {}"
    and run: "apply_settings svc settings ps ns a r s = (Inr res, s')"
  shows "agrees sid res (view s' sid) \<and> (\<forall>t. t \<noteq> sid \<longrightarrow> view s' t = view s t)
    \<and> (\<forall>e role. map_of (rev ps) e = Some role \<longrightarrow> role_of True res e = Some role)
    \<and> (\<forall>e role. map_of (rev ns) e = Some role \<longrightarrow> role_of False res e = Some role)
    \<and> (\<forall>e b. e \<notin> fst ` set ps \<union> fst ` set ns \<longrightarrow> role_of b res e = role_of b r e)"
proof -
  obtain r1 r2 r3 r4 s1 s2 s3 opt where e1: "set_editors_can_share svc (st_editorsCanShare settings) r s = (Inr r1, s1)"
    and e2: "fold_act (share_with_proton_user svc a opt) ps r1 s1 = (Inr r2, s2)"
    and e3: "fold_act (share_with_external_user svc a opt) ns r2 s2 = (Inr r3, s3)"
    and e4: "share_link svc a (st_publicLink settings) r3 s3 = (Inr r4, s')" and res: "res = share_result.truncate r4"
    using run by (auto simp: apply_settings_def Let_def give_def dest!: await_ok)
  note E = editors_step [OF O e1] and L = link_step [OF O e4]
  have A1: "agrees sid r1 (view s1 sid)" "sh_shareId (is_share r1) = sid" using A E share by (simp_all add: agrees_def)
  have stepP: "\<forall>u r s r' s'. agrees sid r (view s sid) \<and> sh_shareId (is_share r) = sid \<and> share_with_proton_user svc a opt u r s = (Inr r', s') \<longrightarrow>
      user_step view sid (fst u) r s r' s' \<and> role_of True r' (fst u) = Some (snd u)"
    using proton_step [OF U O sid] by (metis prod.collapse)
  note loopP = users_loop [where f = "share_with_proton_user svc a opt" and b = True, OF stepP A1 e2]
  note P = loopP [THEN conjunct1]
    loopP [THEN conjunct2, THEN conjunct1]
    loopP [THEN conjunct2, THEN conjunct2, THEN conjunct1]
    loopP [THEN conjunct2, THEN conjunct2, THEN conjunct2, THEN conjunct1]
    loopP [THEN conjunct2, THEN conjunct2, THEN conjunct2, THEN conjunct2]
  have A2: "sh_shareId (is_share r2) = sid" unfolding P(3) by (rule A1(2))
  have stepN: "\<forall>u r s r' s'. agrees sid r (view s sid) \<and> sh_shareId (is_share r) = sid \<and> share_with_external_user svc a opt u r s = (Inr r', s') \<longrightarrow>
      user_step view sid (fst u) r s r' s' \<and> role_of False r' (fst u) = Some (snd u)"
    using external_step [OF U O sid] by (metis prod.collapse)
  note loopN = users_loop [where f = "share_with_external_user svc a opt" and b = False, OF stepN P(1) A2 e3]
  note N = loopN [THEN conjunct1]
    loopN [THEN conjunct2, THEN conjunct1]
    loopN [THEN conjunct2, THEN conjunct2, THEN conjunct1]
    loopN [THEN conjunct2, THEN conjunct2, THEN conjunct2, THEN conjunct1]
    loopN [THEN conjunct2, THEN conjunct2, THEN conjunct2, THEN conjunct2]
  have roles: "role_of b res e = role_of b r3 e" "role_of b r1 e = role_of b r e" for b e
    unfolding res role_truncate by (rule role_of_lists; use L E in simp)+
  have "role_of True res e = Some role" if "map_of (rev ps) e = Some role" for e role
  proof -
    have "e \<in> fst ` set ps" using that by (metis map_of_eq_None_iff option.distinct(1) set_rev)
    then have "e \<notin> fst ` set ns" using disjoint by blast
    then have "same_for e r2 r3" using N(4) by simp
    then show ?thesis using role_of_same [of e r2 r3 True] P(5) that unfolding roles(1) by simp
  qed
  moreover have "role_of b res e = role_of b r e" if "e \<notin> fst ` set ps \<union> fst ` set ns" for e b
  proof -
    have "same_for e r1 r2" "same_for e r2 r3" using that P(4) N(4) by simp_all
    then show ?thesis using role_of_same [of e r1 r2 b] role_of_same [of e r2 r3 b] unfolding roles by simp
  qed
  moreover have "agrees sid res (view s' sid)" using N(1) L by (simp add: res) (simp add: agrees_def)
  ultimately show ?thesis using N(2,5) P(2) E L unfolding roles(1) by simp
qed

lemma from_outside_ok: "from_outside m s = (Inr v, s') \<longleftrightarrow> (\<exists>w. m (sh_outside s) = (Inr v, w) \<and> s' = s\<lparr>sh_outside := w\<rparr>)"
  by (auto simp: from_outside_def split: prod.splits)

lemma check_leaves: "others_leave svc view \<Longrightarrow> leaves view (check_expiration svc settings)"
  unfolding check_expiration_def
  by (auto split: option.split link_setting.split if_splits intro!: leaves_intros)

text \<open>The users a request names, each with the role of its last mention.\<close>

definition requested :: "share_settings \<Rightarrow> string \<Rightarrow> member_role option" where
  "requested settings = map_of (rev (map user_of (case st_users settings of Some us \<Rightarrow> us | None \<Rightarrow> [])))"

lemma requested_filter:
  "map_of (rev (filter (\<lambda>u. P (fst u)) us)) e = (if P e then map_of (rev us) e else None)"
proof (induction us rule: rev_induct)
  case (snoc u us)
  then show ?case by (cases u) auto
qed simp

lemma not_requested: "map_of (rev us) e = None \<longleftrightarrow> e \<notin> fst ` set us"
  by (simp add: map_of_eq_None_iff)


section \<open>unshareNode\<close>

text \<open>Taking a user out: its first invitation goes, else its first external one, else its membership.\<close>

definition has_person :: "string \<Rightarrow> person list \<Rightarrow> bool" where
  "has_person e ps \<longleftrightarrow> e \<in> set (map (\<lambda>p. fst (snd p)) ps)"

fun without_first :: "string \<Rightarrow> person list \<Rightarrow> person list" where
  "without_first e [] = []"
| "without_first e (p # ps) = (if fst (snd p) = e then ps else p # without_first e ps)"

definition without_person :: "string \<Rightarrow> people \<Rightarrow> people" where
  "without_person e p =
     (if has_person e (pp_invitations p) then pp_invitations_update (without_first e) p
      else if has_person e (pp_externals p) then pp_externals_update (without_first e) p
      else pp_members_update (without_first e) p)"

lemma without_first_absent: "\<not> has_person e ps \<Longrightarrow> without_first e ps = ps"
  by (induction ps) (auto simp: has_person_def)

lemma not_found: "same_people sid xs ps \<Longrightarrow> find (\<lambda>x. me_inviteeEmail x = e) xs = None \<longleftrightarrow> \<not> has_person e ps"
proof (induction xs arbitrary: ps)
  case (Cons x xs)
  obtain j e' p qs where "ps = (j, e', p) # qs" "me_inviteeEmail x = e'" "same_people sid xs qs"
    using Cons.prems unfolding same_people_Cons by blast
  then show ?case using Cons.IH [of qs] by (simp add: has_person_def)
qed (simp add: has_person_def)

lemma people_update_cong:
  "f (pp_invitations p) = g (pp_invitations p) \<Longrightarrow> pp_invitations_update f p = pp_invitations_update g p"
  "f (pp_externals p) = g (pp_externals p) \<Longrightarrow> pp_externals_update f p = pp_externals_update g p"
  "f (pp_members p) = g (pp_members p) \<Longrightarrow> pp_members_update f p = pp_members_update g p"
  by (cases p; simp)+

lemma found_first:
  assumes "tilde \<notin> set sid"
  shows "same_people sid xs ps \<Longrightarrow> ids_ok ps \<Longrightarrow> find (\<lambda>x. me_inviteeEmail x = e) xs = Some x \<Longrightarrow>
    \<exists>i. me_uid x = makeInvitationUid sid i \<and> splitInvitationUid (me_uid x) = Inr (sid, i) \<and> tilde \<notin> set i
      \<and> i \<in> fst ` set ps \<and> without_first e ps = without_id i ps"
proof (induction xs arbitrary: ps)
  case (Cons y ys)
  obtain j e' p qs where ps: "ps = (j, e', p) # qs" and y: "me_uid y = makeInvitationUid sid j" "me_inviteeEmail y = e'"
    and rest: "same_people sid ys qs"
    using Cons.prems(1) unfolding same_people_Cons by blast
  have ok: "ids_ok qs" "tilde \<notin> set j" "j \<notin> fst ` set qs" using Cons.prems(2) by (auto simp: ps ids_ok_def)
  show ?case
  proof (cases "e' = e")
    case True
    then have "x = y" using Cons.prems(3) y(2) by simp
    then show ?thesis using True y ok assms without_other [of j qs]
      by (auto simp: ps without_id_def uid_defs uid_split_defs split2_Inr_iff)
  next
    case False
    have found: "find (\<lambda>x. me_inviteeEmail x = e) ys = Some x" using Cons.prems(3) False y(2) by simp
    obtain i where "me_uid x = makeInvitationUid sid i" "splitInvitationUid (me_uid x) = Inr (sid, i)" "tilde \<notin> set i"
      "i \<in> fst ` set qs" "without_first e qs = without_id i qs"
      using Cons.IH [OF rest ok(1) found] by blast
    moreover then have "i \<noteq> j" using ok(3) by blast
    ultimately show ?thesis using False by (auto simp: ps without_id_def)
  qed
qed simp

lemma found_and_removed:
  assumes "tilde \<notin> set sid" "same_people sid xs ps" "ids_ok ps" "find (\<lambda>x. me_inviteeEmail x = e) xs = Some x"
  shows "\<exists>i. splitInvitationUid (me_uid x) = Inr (sid, i) \<and> has_person e ps \<and> without_first e ps = without_id i ps
    \<and> same_people sid (filter (\<lambda>y. me_uid y \<noteq> me_uid x) xs) (without_id i ps)"
proof -
  obtain i where i: "me_uid x = makeInvitationUid sid i" "splitInvitationUid (me_uid x) = Inr (sid, i)" "tilde \<notin> set i"
    "without_first e ps = without_id i ps" using found_first [OF assms] by blast
  have "has_person e ps" using not_found [OF assms(2), of e] assms(4) by simp
  then show ?thesis using i entry_removed [OF assms(2,3,1) i(3)] by auto
qed

lemma unshare_step:
  assumes U: "updates_people svc view" and sid: "tilde \<notin> set sid" and A: "agrees sid r (view s sid)"
    and run: "unshare_user svc e r s = (Inr r', s')"
  shows "agrees sid r' (view s' sid) \<and> is_share r' = is_share r \<and> view s' = (view s)(sid := without_person e (view s sid))"
proof -
  have S: "same_people sid (sr_protonInvitations r) (pp_invitations (view s sid))"
    "same_people sid (sr_nonProtonInvitations r) (pp_externals (view s sid))"
    "same_people sid (sr_members r) (pp_members (view s sid))" using A by (simp_all add: agrees_def)
  have ok: "ids_ok (pp_invitations (view s sid))" "ids_ok (pp_externals (view s sid))" "ids_ok (pp_members (view s sid))"
    using updates_peopleD(1) [OF U, of s sid] by (simp_all add: people_ok_def)
  show ?thesis
  proof (cases "find (\<lambda>i. me_inviteeEmail i = e) (sr_protonInvitations r)")
    case (Some x)
    obtain i where i: "splitInvitationUid (me_uid x) = Inr (sid, i)" "has_person e (pp_invitations (view s sid))"
      "without_first e (pp_invitations (view s sid)) = without_id i (pp_invitations (view s sid))"
      "same_people sid (filter (\<lambda>y. me_uid y \<noteq> me_uid x) (sr_protonInvitations r)) (without_id i (pp_invitations (view s sid)))"
      using found_and_removed [OF sid S(1) ok(1) Some] by blast
    have del: "deleteInvitation svc (me_uid x) s = (Inr (), s')"
      and r': "r' = r\<lparr>sr_protonInvitations := filter (\<lambda>y. me_uid y \<noteq> me_uid x) (sr_protonInvitations r)\<rparr>"
      using run Some by (auto simp: unshare_user_def give_def dest!: await_ok)
    have v: "view s' = (view s)(sid := pp_invitations_update (without_first e) (view s sid))"
      unfolding people_update_cong(1) [where f = "without_first e" and g = "without_id i", OF i(3)]
      by (rule requests_change(4) [OF U i(1) del])
    show ?thesis using A i(2-4)
      by (simp add: r' v agrees_def without_person_def)
  next
    case none1: None
    show ?thesis
    proof (cases "find (\<lambda>i. me_inviteeEmail i = e) (sr_nonProtonInvitations r)")
      case (Some x)
      obtain i where i: "splitInvitationUid (me_uid x) = Inr (sid, i)" "has_person e (pp_externals (view s sid))"
        "without_first e (pp_externals (view s sid)) = without_id i (pp_externals (view s sid))"
        "same_people sid (filter (\<lambda>y. me_uid y \<noteq> me_uid x) (sr_nonProtonInvitations r)) (without_id i (pp_externals (view s sid)))"
        using found_and_removed [OF sid S(2) ok(2) Some] by blast
      have del: "deleteExternalInvitation svc (me_uid x) s = (Inr (), s')"
        and r': "r' = r\<lparr>sr_nonProtonInvitations := filter (\<lambda>y. me_uid y \<noteq> me_uid x) (sr_nonProtonInvitations r)\<rparr>"
        using run none1 Some by (auto simp: unshare_user_def give_def dest!: await_ok)
      have v: "view s' = (view s)(sid := pp_externals_update (without_first e) (view s sid))"
        unfolding people_update_cong(2) [where f = "without_first e" and g = "without_id i", OF i(3)]
        by (rule requests_change(5) [OF U i(1) del])
      show ?thesis using A i(2-4) not_found [OF S(1)] none1
        by (simp add: r' v agrees_def without_person_def)
    next
      case none2: None
      note absent = not_found [OF S(1), of e] not_found [OF S(2), of e]
      show ?thesis
      proof (cases "find (\<lambda>i. me_inviteeEmail i = e) (sr_members r)")
        case (Some x)
        obtain i where i: "splitInvitationUid (me_uid x) = Inr (sid, i)" "has_person e (pp_members (view s sid))"
          "without_first e (pp_members (view s sid)) = without_id i (pp_members (view s sid))"
          "same_people sid (filter (\<lambda>y. me_uid y \<noteq> me_uid x) (sr_members r)) (without_id i (pp_members (view s sid)))"
          using found_and_removed [OF sid S(3) ok(3) Some] by blast
        have del: "removeMember svc (me_uid x) s = (Inr (), s')"
          and r': "r' = r\<lparr>sr_members := filter (\<lambda>y. me_uid y \<noteq> me_uid x) (sr_members r)\<rparr>"
          using run none1 none2 Some by (auto simp: unshare_user_def give_def dest!: await_ok)
        have v: "view s' = (view s)(sid := pp_members_update (without_first e) (view s sid))"
          unfolding people_update_cong(3) [where f = "without_first e" and g = "without_id i", OF i(3)]
          by (rule requests_change(6) [OF U i(1) del])
        show ?thesis using A i(2-4) absent none1 none2
          by (simp add: r' v agrees_def without_person_def)
      next
        case None
        then have "without_first e (pp_members (view s sid)) = pp_members (view s sid)"
          using not_found [OF S(3), of e] without_first_absent by simp
        then have "pp_members_update (without_first e) (view s sid) = view s sid"
          by (cases "view s sid") simp
        then have "without_person e (view s sid) = view s sid"
          using absent none1 none2 by (simp add: without_person_def)
        then show ?thesis using run none1 none2 None A by (simp add: unshare_user_def give_def)
      qed
    qed
  qed
qed

lemma unshare_loop:
  assumes U: "updates_people svc view" and sid: "tilde \<notin> set sid"
  shows "agrees sid r (view s sid) \<Longrightarrow> fold_act (unshare_user svc) es r s = (Inr r', s') \<Longrightarrow>
    agrees sid r' (view s' sid) \<and> is_share r' = is_share r \<and> view s' = (view s)(sid := fold without_person es (view s sid))"
proof (induction es arbitrary: r s)
  case (Cons e es)
  obtain r1 s1 where run: "unshare_user svc e r s = (Inr r1, s1)" "fold_act (unshare_user svc) es r1 s1 = (Inr r', s')"
    using Cons.prems(2) by (auto dest: await_ok)
  have one: "agrees sid r1 (view s1 sid)" "is_share r1 = is_share r" "view s1 = (view s)(sid := without_person e (view s sid))"
    using unshare_step [OF U sid Cons.prems(1) run(1)] by auto
  note IH = Cons.IH [OF one(1) run(2)]
  have "view s' = (view s)(sid := fold without_person (e # es) (view s sid))"
    using IH one(3) by (auto simp: fun_eq_iff)
  moreover have "agrees sid r' (view s' sid)" using IH by blast
  moreover have "is_share r' = is_share r" using IH unfolding one(2) by blast
  ultimately show ?case by blast
qed (simp add: give_def)

lemma unshare_link_step:
  assumes "others_leave svc view" "unshare_link svc remove r s = (Inr r', s')"
  shows "view s' = view s \<and> is_share r' = is_share r \<and> sr_protonInvitations r' = sr_protonInvitations r
    \<and> sr_nonProtonInvitations r' = sr_nonProtonInvitations r \<and> sr_members r' = sr_members r"
proof (cases remove)
  case True
  let ?remove = "case sr_publicLink r of Some publicLink \<Rightarrow> removeSharedLink (mg_links svc) (pl_uid publicLink) | None \<Rightarrow> give ()"
  have "leaves view ?remove"
    using link_operations_leave(3) [OF others_leaveD(1) [OF assms(1)]] by (simp add: leaves_give split: option.split)
  moreover obtain u where "?remove s = (Inr u, s')" "r' = r\<lparr>sr_publicLink := None\<rparr>"
    using assms(2) True by (auto simp: unshare_link_def give_def dest!: await_ok)
  ultimately show ?thesis using leavesD [of view] by simp
next
  case False
  then show ?thesis using assms(2) by (simp add: unshare_link_def give_def)
qed

lemma if_loaded_outside: "if_loaded ul t m s = (q, s') \<Longrightarrow> sh_outside s' = sh_outside s"
  by (auto simp: if_loaded_def await_def on_lists_def give_def split: prod.splits sum.splits if_splits)

lemma share_deleted:
  assumes "updates_people svc view" "others_leave svc view" "deleteShareWithForce ul svc sid nodeUid s = (q, s')"
  shows "view (sh_outside s') = (view (sh_outside s))(sid := nobody)
    \<or> (view (sh_outside s') = view (sh_outside s) \<and> q \<noteq> Inr ())"
proof -
  obtain d w where d: "mg_deleteShare svc sid True (sh_outside s) = (d, w)" by fastforce
  note v = updates_peopleD(11) [OF assms(1) d]
  show ?thesis
  proof (cases d)
    case (Inl e)
    then show ?thesis using assms(3) d v by (auto simp: deleteShareWithForce_def await_def from_outside_def)
  next
    case (Inr u)
    obtain n w' where n: "mg_notifyNodeChanged svc nodeUid w = (n, w')" by fastforce
    have "sh_outside s' = w'"
      using assms(3) d n Inr if_loaded_outside
      by (cases n) (fastforce simp: deleteShareWithForce_def await_def from_outside_def)+
    then show ?thesis using v Inr leavesD [OF others_leaveD(6) [OF assms(2)] n] by simp
  qed
qed

lemma agrees_nobody: "agrees sid r p \<Longrightarrow> nobody_left r \<Longrightarrow> p = nobody"
  by (cases p) (simp add: agrees_def nobody_left_def nobody_def)


section \<open>What is granted already\<close>

lemma user_satisfied:
  "role_of True r (fst u) = Some (snd u) \<Longrightarrow> share_with_proton_user svc a opt u r s = (Inr r, s)"
  "role_of False r (fst u) = Some (snd u) \<Longrightarrow> share_with_external_user svc a opt u r s = (Inr r, s)"
  by (cases u; auto simp: role_of_def role_in_def share_with_proton_user_def share_with_external_user_def
      share_with_member_def give_def split: option.splits)+

text \<open>
  Users who already have the role they are to get cost no request: the loops over the users of
  both kinds leave the sharing and everything outside as they are. So sharing a node again with the
  same settings sends nothing about them.
\<close>

theorem satisfied_users_cost_nothing:
  assumes "\<forall>(e, role) \<in> set ps. role_of True r e = Some role" "\<forall>(e, role) \<in> set ns. role_of False r e = Some role"
  shows "await (fold_act (share_with_proton_user svc a opt) ps r) (fold_act (share_with_external_user svc a opt) ns) s = (Inr r, s)"
proof -
  have "fold_act (share_with_proton_user svc a opt) ps r s = (Inr r, s)"
    using assms(1) by (induction ps) (auto simp: await_def user_satisfied give_def)
  moreover have "fold_act (share_with_external_user svc a opt) ns r s = (Inr r, s)"
    using assms(2) by (induction ns) (auto simp: await_def user_satisfied give_def)
  ultimately show ?thesis by (simp add: await_def)
qed

section \<open>A server\<close>

text \<open>The people of every share; a new id is longer than all there are.\<close>

definition kept :: "(string \<Rightarrow> people) \<Rightarrow> string \<Rightarrow> people" where
  "kept s sid = (if people_ok (s sid) then s sid else nobody)"

definition changing :: "string \<Rightarrow> (people \<Rightarrow> people) \<Rightarrow> 'a \<Rightarrow> (string \<Rightarrow> people, 'a) act" where
  "changing sid f a s = (Inr a, (kept s)(sid := f (kept s sid)))"

definition new_id :: "person list \<Rightarrow> string" where
  "new_id ps = replicate (Suc (sum_list (map (\<lambda>p. length (fst p)) ps))) (CHR ''i'')"

definition server_links :: "('s, unit, unit) link_services" where
  "server_links =
     \<lparr>ls_getShareUrls = (\<lambda>_. give None), ls_postShareUrl = (\<lambda>_ _ _. give ('''', '''')), ls_putShareUrl = (\<lambda>_ _ _. give ()),
      ls_deleteShareUrl = (\<lambda>_ _. give ()), ls_getRootVolumeId = give ''other'', ls_getOwnAddress = (\<lambda>_. give ([()], 0)),
      ls_encryptPassword = (\<lambda>_ _ _. give (\<lparr>lc_base64SharePasswordSalt = '''', lc_base64SharePassphraseKeyPacket = '''', lc_armoredPassword = ''''\<rparr>,
         \<lparr>srp_salt = '''', srp_verifier = '''', srp_modulusId = ''''\<rparr>)),
      ls_decryptShareUrlPassword = (\<lambda>_ _. give ''''), ls_getRandomValues = give (\<lambda>_. 0), ls_now = give 0\<rparr>"

definition server :: "(string \<Rightarrow> people, unit, unit, unit) manage_services" where
  "server =
     \<lparr>mg_links = server_links,
      mg_hasProtonAccount = (\<lambda>e. give (e \<noteq> ''x'')),
      mg_getNode = (\<lambda>_. give \<lparr>shn_shareId = Some ''share'', shn_parentUid = Some ''p'', shn_name = Inr ''n'', shn_directRole = Admin\<rparr>),
      mg_getNodeKey = (\<lambda>_. give ()), mg_getNodePrivateAndSessionKeys = (\<lambda>_. give ((), (), ())),
      mg_getRootNodeEmailKey = (\<lambda>_. give \<lparr>ca_addressId = ''a'', ca_addressKey = (), ca_email = ''me''\<rparr>),
      mg_notifyNodeChanged = (\<lambda>_. give ()),
      mg_loadEncryptedShare = (\<lambda>_. give \<lparr>es_creatorEmail = ''me'', es_editorsCanShare = True, es_crypto = ()\<rparr>),
      mg_decryptShare = (\<lambda>_ _. give ()), mg_generateShareKeys = (\<lambda>_ _. give ((), ())),
      mg_encryptInvitation = (\<lambda>_ _ _ _. give ()), mg_encryptExternalInvitation = (\<lambda>_ _ _. give ()),
      mg_postShare = (\<lambda>_ _ _ _. give (''share'', True)),
      mg_deleteShare = (\<lambda>sid _. changing sid (\<lambda>_. nobody) ()), mg_putEditorsCanShare = (\<lambda>_ _. give ()),
      mg_getInvitations = (\<lambda>sid s. (Inr (map (\<lambda>(i, e, p). \<lparr>iv_InvitationID = i, iv_InviterEmail = ''me'', iv_InviteeEmail = e,
         iv_CreateTime = 0, iv_Permissions = p\<rparr>) (pp_invitations (kept s sid))), s)),
      mg_getExternalInvitations = (\<lambda>sid s. (Inr (map (\<lambda>(i, e, p). \<lparr>xv_ExternalInvitationID = i, xv_InviterEmail = ''me'',
         xv_InviteeEmail = e, xv_CreateTime = 0, xv_Permissions = p, xv_State = 1\<rparr>) (pp_externals (kept s sid))), s)),
      mg_getMembers = (\<lambda>sid s. (Inr (map (\<lambda>(i, e, p). \<lparr>mb_MemberID = i, mb_InviterEmail = ''me'', mb_Email = e,
         mb_CreateTime = 0, mb_Permissions = p\<rparr>) (pp_members (kept s sid))), s)),
      mg_postInvitation = (\<lambda>sid _ e p _ _ _ s. let i = new_id (pp_invitations (kept s sid)) in
         changing sid (pp_invitations_update (\<lambda>ps. ps @ [(i, e, Some p)]))
           \<lparr>iv_InvitationID = i, iv_InviterEmail = ''me'', iv_InviteeEmail = e, iv_CreateTime = 0, iv_Permissions = Some p\<rparr> s),
      mg_putInvitation = (\<lambda>sid i p. changing sid (pp_invitations_update (with_permission i p)) ()),
      mg_postInvitationEmail = (\<lambda>_ _. give ()),
      mg_deleteInvitation = (\<lambda>sid i. changing sid (pp_invitations_update (without_id i)) ()),
      mg_postExternalInvitation = (\<lambda>sid _ e p _ _ s. let i = new_id (pp_externals (kept s sid)) in
         changing sid (pp_externals_update (\<lambda>ps. ps @ [(i, e, Some p)]))
           \<lparr>xv_ExternalInvitationID = i, xv_InviterEmail = ''me'', xv_InviteeEmail = e, xv_CreateTime = 0,
            xv_Permissions = Some p, xv_State = 1\<rparr> s),
      mg_putExternalInvitation = (\<lambda>sid i p. changing sid (pp_externals_update (with_permission i p)) ()),
      mg_postExternalInvitationEmail = (\<lambda>_ _. give ()),
      mg_deleteExternalInvitation = (\<lambda>sid i. changing sid (pp_externals_update (without_id i)) ()),
      mg_putMember = (\<lambda>sid i p. changing sid (pp_members_update (with_permission i p)) ()),
      mg_deleteMember = (\<lambda>sid i. changing sid (pp_members_update (without_id i)) ())\<rparr>"

lemma kept_ok [simp]: "people_ok (kept s sid)"
  by (simp add: kept_def people_ok_def nobody_def ids_ok_def)

lemma kept_changed: "people_ok (f (kept s sid)) \<Longrightarrow> changing sid f a s = (Inr b, s') \<Longrightarrow> kept s' = (kept s)(sid := f (kept s sid))"
proof -
  assume "people_ok (f (kept s sid))" "changing sid f a s = (Inr b, s')"
  then have "s' = (kept s)(sid := f (kept s sid))" "\<forall>x. people_ok (s' x)" by (auto simp: changing_def)
  moreover have "kept s' = s'" using calculation(2) by (simp add: fun_eq_iff kept_def)
  ultimately show ?thesis by simp
qed

lemma ids_with_permission [simp]: "ids_ok (with_permission i p ps) \<longleftrightarrow> ids_ok ps"
  by (auto simp: ids_ok_def with_permission_def comp_def case_prod_unfold)

lemma ids_without_id: "ids_ok ps \<Longrightarrow> ids_ok (without_id i ps)"
  by (auto simp: ids_ok_def without_id_def distinct_map inj_on_def)

lemma new_id_longer: "p \<in> set ps \<Longrightarrow> length (fst p) < length (new_id ps)"
  using member_le_sum_list [of "length (fst p)" "map (\<lambda>p. length (fst p)) ps"] by (auto simp: new_id_def)

lemma ids_new: "ids_ok ps \<Longrightarrow> ids_ok (ps @ [(new_id ps, e, q)])"
  using new_id_longer [of _ ps] by (fastforce simp: ids_ok_def new_id_def tilde_def)

lemma server_changes:
  "(\<And>p. people_ok p \<Longrightarrow> people_ok (f p)) \<Longrightarrow> changes kept sid (changing sid f a) (\<lambda>_. f)"
  using kept_changed unfolding changes_def by (metis kept_ok)

lemma changing_value: "changing sid f a s = (Inr b, s') \<Longrightarrow> b = a"
  by (simp add: changing_def)

lemma server_posts:
  "changes kept sid (mg_postInvitation server sid by' e q c x opt)
     (\<lambda>d. pp_invitations_update (\<lambda>ps. ps @ [(iv_InvitationID d, e, Some q)]))"
  "changes kept sid (mg_postExternalInvitation server sid by' e q c opt)
     (\<lambda>d. pp_externals_update (\<lambda>ps. ps @ [(xv_ExternalInvitationID d, e, Some q)]))"
proof -
  have "kept s' = (kept s)(sid := pp_invitations_update (\<lambda>ps. ps @ [(iv_InvitationID d, e, Some q)]) (kept s sid))"
    if "mg_postInvitation server sid by' e q c x opt s = (Inr d, s')" for s d s'
  proof -
    let ?i = "new_id (pp_invitations (kept s sid))"
    have run: "changing sid (pp_invitations_update (\<lambda>ps. ps @ [(?i, e, Some q)]))
        \<lparr>iv_InvitationID = ?i, iv_InviterEmail = ''me'', iv_InviteeEmail = e, iv_CreateTime = 0, iv_Permissions = Some q\<rparr> s = (Inr d, s')"
      using that by (simp add: server_def Let_def)
    have "people_ok (pp_invitations_update (\<lambda>ps. ps @ [(?i, e, Some q)]) (kept s sid))"
      using kept_ok [of s sid] by (simp add: people_ok_def ids_new)
    then show ?thesis using kept_changed [OF _ run] changing_value [OF run] by simp
  qed
  then show "changes kept sid (mg_postInvitation server sid by' e q c x opt)
     (\<lambda>d. pp_invitations_update (\<lambda>ps. ps @ [(iv_InvitationID d, e, Some q)]))" unfolding changes_def by blast
next
  have "kept s' = (kept s)(sid := pp_externals_update (\<lambda>ps. ps @ [(xv_ExternalInvitationID d, e, Some q)]) (kept s sid))"
    if "mg_postExternalInvitation server sid by' e q c opt s = (Inr d, s')" for s d s'
  proof -
    let ?i = "new_id (pp_externals (kept s sid))"
    have run: "changing sid (pp_externals_update (\<lambda>ps. ps @ [(?i, e, Some q)]))
        \<lparr>xv_ExternalInvitationID = ?i, xv_InviterEmail = ''me'', xv_InviteeEmail = e, xv_CreateTime = 0,
         xv_Permissions = Some q, xv_State = 1\<rparr> s = (Inr d, s')"
      using that by (simp add: server_def Let_def)
    have "people_ok (pp_externals_update (\<lambda>ps. ps @ [(?i, e, Some q)]) (kept s sid))"
      using kept_ok [of s sid] by (simp add: people_ok_def ids_new)
    then show ?thesis using kept_changed [OF _ run] changing_value [OF run] by simp
  qed
  then show "changes kept sid (mg_postExternalInvitation server sid by' e q c opt)
     (\<lambda>d. pp_externals_update (\<lambda>ps. ps @ [(xv_ExternalInvitationID d, e, Some q)]))" unfolding changes_def by blast
qed

lemma server_updates: "updates_people server kept"
  unfolding updates_people_def
proof (intro conjI allI impI)
  fix sid by' e p c opt s d s' assume "mg_postInvitation server sid by' e p c None opt s = (Inr d, s')"
  then have "iv_InviteeEmail d = e \<and> iv_Permissions d = Some p" by (auto simp: server_def Let_def dest!: changing_value)
  then show "iv_InviteeEmail d = e" "iv_Permissions d = Some p" by simp_all
next
  fix sid s r s' assume "mg_deleteShare server sid True s = (r, s')"
  then have r: "r = Inr ()" and run: "changing sid (\<lambda>_. nobody) () s = (Inr (), s')" by (auto simp: server_def changing_def)
  have "kept s' = (kept s)(sid := nobody)"
    by (rule kept_changed [OF _ run]) (simp add: people_ok_def nobody_def ids_ok_def)
  then show "kept s' = (case r of Inl _ \<Rightarrow> kept s | Inr _ \<Rightarrow> (kept s)(sid := nobody))" using r by simp
next
  fix sid i p
  show "changes kept sid (mg_putInvitation server sid i p) (\<lambda>_. pp_invitations_update (with_permission i p))"
    "changes kept sid (mg_putExternalInvitation server sid i p) (\<lambda>_. pp_externals_update (with_permission i p))"
    "changes kept sid (mg_putMember server sid i p) (\<lambda>_. pp_members_update (with_permission i p))"
    by (simp_all add: server_def, (rule server_changes; simp add: people_ok_def)+)
next
  fix sid i
  show "changes kept sid (mg_deleteInvitation server sid i) (\<lambda>_. pp_invitations_update (without_id i))"
    "changes kept sid (mg_deleteExternalInvitation server sid i) (\<lambda>_. pp_externals_update (without_id i))"
    "changes kept sid (mg_deleteMember server sid i) (\<lambda>_. pp_members_update (without_id i))"
    by (simp_all add: server_def, (rule server_changes; simp add: people_ok_def ids_without_id)+)
qed (rule kept_ok server_posts)+

lemma server_laws:
  "reads_people server kept" "others_leave server kept" "tells_accounts server (\<lambda>e. e \<noteq> ''x'')" "shared_as server nodeUid ''share''"
  by (auto simp: reads_people_def others_leave_def links_leave_def tells_accounts_def shared_as_def server_def server_links_def
      leaves_give give_def iv_person_def xv_person_def mb_person_def comp_def case_prod_unfold)

definition people_at_first :: "(string memory_cache sharing_cache, string \<Rightarrow> people) sharing_state" where
  "people_at_first =
     \<lparr>sh_lists = \<lparr>sc_cache = Map.empty, sc_driveCache = mc_new\<rparr>,
      sh_outside = (\<lambda>_. \<lparr>pp_invitations = [(''1'', ''b'', Some 4)], pp_externals = [], pp_members = [(''2'', ''c'', Some 22)]\<rparr>)\<rparr>"

lemma share_id: "tilde \<notin> set ''share''"
  by (simp add: tilde_def)

theorem satisfied_users_cost_nothing_witness:
  "await (fold_act (share_with_proton_user server \<lparr>ca_addressId = ''a'', ca_addressKey = (), ca_email = ''me''\<rparr>
        \<lparr>eo_message = None, eo_nodeName = None\<rparr>) [(''b'', Viewer)]
      \<lparr>sr_protonInvitations = [\<lparr>me_uid = ''share~1'', me_invitationTime = 0, me_addedByEmail = Inr ''me'', me_inviteeEmail = ''b'',
         me_role = Viewer\<rparr>], sr_nonProtonInvitations = [], sr_members = [], sr_publicLink = None, sr_editorsCanShare = True,
       is_share = \<lparr>sh_volumeId = ''v'', sh_shareId = ''share'', sh_creatorEmail = ''me'', sh_passphraseSessionKey = ()\<rparr>,
       is_nodeName = ''n''\<rparr>)
     (fold_act (share_with_external_user server \<lparr>ca_addressId = ''a'', ca_addressKey = (), ca_email = ''me''\<rparr>
        \<lparr>eo_message = None, eo_nodeName = None\<rparr>) []) (sh_outside people_at_first)
   = (Inr \<lparr>sr_protonInvitations = [\<lparr>me_uid = ''share~1'', me_invitationTime = 0, me_addedByEmail = Inr ''me'', me_inviteeEmail = ''b'',
         me_role = Viewer\<rparr>], sr_nonProtonInvitations = [], sr_members = [], sr_publicLink = None, sr_editorsCanShare = True,
       is_share = \<lparr>sh_volumeId = ''v'', sh_shareId = ''share'', sh_creatorEmail = ''me'', sh_passphraseSessionKey = ()\<rparr>,
       is_nodeName = ''n''\<rparr>, sh_outside people_at_first)"
  by (rule satisfied_users_cost_nothing) (simp_all add: role_of_def role_in_def)

end
