(* ===== verification/Base64.thy ===== *)
theory Base64
  imports Iterators
begin

text \<open>
  The base64 methods of \<open>Uint8Array\<close>: \<open>toBase64\<close>, and \<open>fromBase64\<close> in its default mode, which skips
  white space, takes a last group without its padding and throws on anything else that is not base64.
\<close>

definition base64_alphabet :: string where
  "base64_alphabet = ''ABCDEFGHIJKLMNOPQRSTUVWXYZabcdefghijklmnopqrstuvwxyz0123456789+/''"

definition sextet_char :: "nat \<Rightarrow> char" where
  "sextet_char n = base64_alphabet ! (n mod 64)"

definition char_sextet :: "char \<Rightarrow> nat option" where
  "char_sextet c =
     (let k = length (takeWhile (\<lambda>d. d \<noteq> c) base64_alphabet) in if k < 64 then Some k else None)"

definition padding :: char where "padding = CHR ''=''"

fun toBase64 :: "bytes \<Rightarrow> string" where
  "toBase64 [] = []"
| "toBase64 [a] = [sextet_char (unat a div 4), sextet_char (unat a mod 4 * 16), padding, padding]"
| "toBase64 [a, b] =
     [sextet_char (unat a div 4), sextet_char (unat a mod 4 * 16 + unat b div 16),
      sextet_char (unat b mod 16 * 4), padding]"
| "toBase64 (a # b # c # r) =
     sextet_char (unat a div 4) # sextet_char (unat a mod 4 * 16 + unat b div 16)
       # sextet_char (unat b mod 16 * 4 + unat c div 64) # sextet_char (unat c mod 64) # toBase64 r"

fun sextets_bytes :: "nat list \<Rightarrow> bytes option" where
  "sextets_bytes [] = Some []"
| "sextets_bytes [x] = None"
| "sextets_bytes [x, y] = Some [of_nat (x * 4 + y div 16)]"
| "sextets_bytes [x, y, z] = Some [of_nat (x * 4 + y div 16), of_nat (y mod 16 * 16 + z div 4)]"
| "sextets_bytes (x # y # z # w # r) =
     map_option (\<lambda>bs. of_nat (x * 4 + y div 16) # of_nat (y mod 16 * 16 + z div 4) # of_nat (z mod 4 * 64 + w) # bs)
       (sextets_bytes r)"

fun all_some :: "'a option list \<Rightarrow> 'a list option" where
  "all_some [] = Some []"
| "all_some (None # xs) = None"
| "all_some (Some x # xs) = map_option (Cons x) (all_some xs)"

definition ascii_whitespace :: "char \<Rightarrow> bool" where
  "ascii_whitespace c \<longleftrightarrow> c \<in> {CHR 0x09, CHR 0x0A, CHR 0x0C, CHR 0x0D, CHR '' ''}"

text \<open>The padding is the one the last group lacks, or none at all.\<close>

definition fromBase64 :: "string \<Rightarrow> thrown + bytes" where
  "fromBase64 text =
     (let chars = filter (\<lambda>c. \<not> ascii_whitespace c) text;
          body = takeWhile (\<lambda>c. c \<noteq> padding) chars;
          rest = drop (length body) chars
      in case map_option sextets_bytes (all_some (map char_sextet body)) of
           Some (Some bs) \<Rightarrow>
             if rest = [] \<or> length body mod 4 \<ge> 2 \<and> rest = replicate (4 - length body mod 4) padding
             then Inr bs else Inl (throw_new JsError ''SyntaxError'')
         | _ \<Rightarrow> Inl (throw_new JsError ''SyntaxError''))"

section \<open>Reading back\<close>

lemma base64_alphabet_facts: "length base64_alphabet = 64" "distinct base64_alphabet"
  "padding \<notin> set base64_alphabet" "list_all (\<lambda>c. \<not> ascii_whitespace c) base64_alphabet"
  by code_simp+

lemma sextet_char_in: "sextet_char n \<in> set base64_alphabet"
  unfolding sextet_char_def by (rule nth_mem) (simp add: base64_alphabet_facts(1))

lemma sextet_char_plain [simp]: "sextet_char n \<noteq> padding" "padding \<noteq> sextet_char n" "\<not> ascii_whitespace (sextet_char n)"
  using sextet_char_in [of n] base64_alphabet_facts(3,4) by (auto simp: list_all_iff)

lemma takeWhile_before_nth:
  "distinct xs \<Longrightarrow> n < length xs \<Longrightarrow> length (takeWhile (\<lambda>d. d \<noteq> xs ! n) xs) = n"
proof (induction xs arbitrary: n)
  case (Cons x xs)
  then show ?case by (cases n) (auto simp: nth_mem)
qed simp

lemma char_sextet_char [simp]: "n < 64 \<Longrightarrow> char_sextet (sextet_char n) = Some n"
  using takeWhile_before_nth [of base64_alphabet n] base64_alphabet_facts(1,2)
  by (simp add: char_sextet_def sextet_char_def)

lemma unat_byte: "unat a < 256" for a :: "8 word"
  using unsigned_less [of a] by simp

lemma byte_div: "unat b div 16 < 16" "unat b div 64 < 4" "unat b div 4 < 64" for b :: "8 word"
  by (simp_all add: less_mult_imp_div_less unat_byte)

lemma shifted_less:
  assumes "0 < m" "q < k" shows "n mod m * k + q < m * (k :: nat)"
proof -
  obtain l where l: "m = Suc l" using assms(1) by (cases m) auto
  then have "n mod m * k \<le> l * k" by (intro mult_right_mono) (simp_all add: less_Suc_eq_le [symmetric])
  from add_le_less_mono [OF this assms(2)] show ?thesis by (simp add: l add.commute)
qed

lemma byte_parts:
  "unat a div 4 < 64" "unat a mod 4 * 16 + unat b div 16 < 64" "unat b mod 16 * 4 + unat c div 64 < 64"
  "unat a mod 4 * 16 < 64" "unat b mod 16 * 4 < 64" "unat c mod 64 < 64" for a b c :: "8 word"
  using shifted_less [of 4 "unat b div 16" 16 "unat a"] shifted_less [of 16 "unat c div 64" 4 "unat b"]
    shifted_less [of 4 0 16 "unat a"] shifted_less [of 16 0 4 "unat b"]
  by (simp_all add: byte_div)

lemma byte_of_parts:
  "(unat a mod 4 * 16 + unat b div 16) div 16 = unat a mod 4" "(unat b mod 16 * 4 + unat c div 64) div 4 = unat b mod 16"
  "(unat a mod 4 * 16 + unat b div 16) mod 16 = unat b div 16" "(unat b mod 16 * 4 + unat c div 64) mod 4 = unat c div 64"
  "unat b div 16 mod 16 = unat b div 16" "unat c div 64 mod 4 = unat c div 64"
  for a b c :: "8 word"
  by (simp_all add: byte_div)

lemma toBase64_groups:
  "\<exists>body pad. toBase64 bs = body @ pad \<and> pad = replicate (length pad) padding \<and> padding \<notin> set body
     \<and> list_all (\<lambda>c. \<not> ascii_whitespace c) body
     \<and> (pad = [] \<or> 2 \<le> length body mod 4 \<and> length pad = 4 - length body mod 4)
     \<and> map_option sextets_bytes (all_some (map char_sextet body)) = Some (Some bs)"
proof (induction bs rule: toBase64.induct)
  case 1 show ?case by (intro exI [of _ "[]"]) simp
next
  case (2 a)
  show ?case
    by (rule exI [of _ "[sextet_char (unat a div 4), sextet_char (unat a mod 4 * 16)]"], rule exI [of _ "[padding, padding]"])
      (simp add: byte_parts byte_of_parts div_mult_mod_eq del: of_nat_add of_nat_mult)
next
  case (3 a b)
  show ?case
    by (rule exI [of _ "[sextet_char (unat a div 4), sextet_char (unat a mod 4 * 16 + unat b div 16),
          sextet_char (unat b mod 16 * 4)]"], rule exI [of _ "[padding]"])
      (simp add: byte_parts byte_of_parts div_mult_mod_eq del: of_nat_add of_nat_mult)
next
  case (4 a b c r)
  then obtain body pad where IH: "toBase64 r = body @ pad" "pad = replicate (length pad) padding" "padding \<notin> set body"
    "list_all (\<lambda>c. \<not> ascii_whitespace c) body" "pad = [] \<or> 2 \<le> length body mod 4 \<and> length pad = 4 - length body mod 4"
    "map_option sextets_bytes (all_some (map char_sextet body)) = Some (Some r)" by blast
  from IH(6) obtain xs where xs: "all_some (map char_sextet body) = Some xs" "sextets_bytes xs = Some r" by auto
  let ?q = "[sextet_char (unat a div 4), sextet_char (unat a mod 4 * 16 + unat b div 16),
    sextet_char (unat b mod 16 * 4 + unat c div 64), sextet_char (unat c mod 64)]"
  have "length (?q @ body) mod 4 = length body mod 4" by simp
  show ?case
    by (rule exI [of _ "?q @ body"], rule exI [of _ pad])
      (use IH xs \<open>length (?q @ body) mod 4 = length body mod 4\<close> in
        \<open>simp add: byte_parts byte_of_parts div_mult_mod_eq del: of_nat_add of_nat_mult\<close>)
qed

lemma fromBase64_toBase64 [simp]: "fromBase64 (toBase64 bs) = Inr bs"
proof -
  obtain body pad where p: "toBase64 bs = body @ pad" "pad = replicate (length pad) padding" "padding \<notin> set body"
    "list_all (\<lambda>c. \<not> ascii_whitespace c) body" "pad = [] \<or> 2 \<le> length body mod 4 \<and> length pad = 4 - length body mod 4"
    "map_option sextets_bytes (all_some (map char_sextet body)) = Some (Some bs)"
    using toBase64_groups [of bs] by blast
  have space: "\<not> ascii_whitespace padding" by (simp add: ascii_whitespace_def padding_def)
  have chars: "filter (\<lambda>c. \<not> ascii_whitespace c) (toBase64 bs) = body @ pad"
    using p(4) space unfolding p(1) by (subst p(2), subst (2) p(2)) (simp add: list_all_iff)
  have body: "takeWhile (\<lambda>c. c \<noteq> padding) (body @ pad) = body"
  proof (cases pad)
    case (Cons c pad')
    with p(2) have "c = padding" by (metis length_Cons list.inject replicate_Suc)
    with Cons p(3) show ?thesis by (auto simp: takeWhile_append)
  qed (use p(3) in auto)
  have "pad = [] \<or> 2 \<le> length body mod 4 \<and> pad = replicate (4 - length body mod 4) padding"
    using p(2,5) by metis
  then show ?thesis
    using p(6) unfolding fromBase64_def Let_def chars body by (auto simp: body)
qed

end
