(* ===== verification/DriveCrypto.thy ===== *)
theory DriveCrypto
  imports Effects Base64
begin

text \<open>
  \<open>DriveCrypto\<close> of \<^verbatim>\<open>crypto/driveCrypto.ts\<close>: how keys, passphrases, names, attributes, contents and
  invitations are encrypted, signed and opened. The interface \<open>OpenPGPCrypto\<close> (\<^verbatim>\<open>crypto/interface.ts\<close>),
  the SRP module, HMAC and the platform's UTF-8 coder are the parameter \<open>openpgp\<close>. What encrypts or generates
  is an operation on a state \<open>'s\<close>, as it draws random numbers; what opens or verifies depends on its arguments
  only. Performance metrics are left out.
\<close>

section \<open>The interface\<close>

type_synonym verification = "verification_status \<times> js_error list option"

record srp =
  sv_modulusId :: string
  sv_version :: nat
  sv_salt :: string
  sv_verifier :: string

record ('s, 'k, 'sk) openpgp =
  pg_generatePassphrase :: "('s, string) act"
  pg_generateSessionKey :: "'k list \<Rightarrow> bool \<Rightarrow> ('s, 'sk) act"
  pg_encryptSessionKey :: "'sk \<Rightarrow> 'k list \<Rightarrow> ('s, bytes) act"
  pg_encryptSessionKeyWithPassword :: "'sk \<Rightarrow> string \<Rightarrow> ('s, bytes) act"
  pg_generateKey :: "string \<Rightarrow> bool \<Rightarrow> ('s, 'k \<times> string) act"
  pg_encryptArmored :: "bytes \<Rightarrow> 'k list \<Rightarrow> 'sk option \<Rightarrow> bool \<Rightarrow> ('s, string) act"
  pg_encryptAndSign :: "bytes \<Rightarrow> 'sk \<Rightarrow> 'k list \<Rightarrow> 'k \<Rightarrow> bool \<Rightarrow> ('s, bytes) act"
  pg_encryptAndSignArmored :: "bytes \<Rightarrow> 'sk option \<Rightarrow> 'k list \<Rightarrow> 'k \<Rightarrow> bool \<Rightarrow> bool \<Rightarrow> ('s, string) act"
  pg_encryptAndSignDetached :: "bytes \<Rightarrow> 'sk \<Rightarrow> 'k list \<Rightarrow> 'k \<Rightarrow> bool \<Rightarrow> ('s, bytes \<times> bytes) act"
  pg_encryptAndSignDetachedArmored :: "bytes \<Rightarrow> 'sk \<Rightarrow> 'k list \<Rightarrow> 'k \<Rightarrow> bool \<Rightarrow> ('s, string \<times> string) act"
  pg_sign :: "bytes \<Rightarrow> 'k \<Rightarrow> string \<Rightarrow> ('s, bytes) act"
  pg_signArmored :: "bytes \<Rightarrow> 'k list \<Rightarrow> ('s, string) act"
  pg_verifyArmored :: "bytes \<Rightarrow> string \<Rightarrow> 'k list \<Rightarrow> string option \<Rightarrow> thrown + verification"
  pg_decryptSessionKey :: "bytes \<Rightarrow> 'k list \<Rightarrow> thrown + 'sk"
  pg_decryptArmoredSessionKey :: "string \<Rightarrow> 'k list \<Rightarrow> thrown + 'sk"
  pg_decryptKey :: "string \<Rightarrow> string \<Rightarrow> thrown + 'k"
  pg_decryptAndVerify :: "bytes \<Rightarrow> 'sk \<Rightarrow> 'k list \<Rightarrow> thrown + bytes \<times> verification"
  pg_decryptArmored :: "string \<Rightarrow> 'k list \<Rightarrow> thrown + bytes"
  pg_decryptArmoredAndVerify :: "string \<Rightarrow> 'k list \<Rightarrow> 'k list \<Rightarrow> thrown + bytes \<times> verification"
  pg_decryptArmoredAndVerifyDetached :: "string \<Rightarrow> string option \<Rightarrow> 'sk \<Rightarrow> 'k list \<Rightarrow> thrown + bytes \<times> verification"
  pg_decryptArmoredWithPassword :: "string \<Rightarrow> string \<Rightarrow> thrown + bytes"
  pg_data :: "'sk \<Rightarrow> bytes"
  pg_generateKeySalt :: "('s, string) act"
  pg_computeKeyPassword :: "string \<Rightarrow> string \<Rightarrow> thrown + string"
  pg_getSrpVerifier :: "string \<Rightarrow> ('s, srp) act"
  pg_hmac :: "bytes \<Rightarrow> bytes \<Rightarrow> thrown + bytes"
  pg_encode :: "string \<Rightarrow> bytes"
  pg_decode :: "bytes \<Rightarrow> thrown + string"
  pg_decodeLoosely :: "bytes \<Rightarrow> string"

definition SHARING_INVITER :: string where "SHARING_INVITER = ''drive.share-member.inviter''"
definition SHARING_INVITER_EXTERNAL_INVITATION :: string where
  "SHARING_INVITER_EXTERNAL_INVITATION = ''drive.share-member.external-invitation''"
definition SHARING_MEMBER :: string where "SHARING_MEMBER = ''drive.share-member.member''"

section \<open>Node keys\<close>

record encrypted_key =
  nk_armoredKey :: string
  nk_armoredPassphrase :: string
  nk_armoredPassphraseSignature :: string

record ('k, 'sk) opened_key =
  ok_passphrase :: string
  ok_key :: 'k
  ok_passphraseSessionKey :: 'sk

record 'sk file_content_key =
  fk_contentKeyPacket :: bytes
  fk_base64ContentKeyPacket :: string
  fk_armoredContentKeyPacketSignature :: string
  fk_contentKeyPacketSessionKey :: 'sk

definition dc_encryptPassphrase ::
  "('s, 'k, 'sk) openpgp \<Rightarrow> string \<Rightarrow> 'sk \<Rightarrow> 'k list \<Rightarrow> 'k \<Rightarrow> ('s, string \<times> string) act"
where
  "dc_encryptPassphrase pg passphrase sessionKey encryptionKeys signingKey =
     pg_encryptAndSignDetachedArmored pg (pg_encode pg passphrase) sessionKey encryptionKeys signingKey False"

definition dc_generateKey ::
  "('s, 'k, 'sk) openpgp \<Rightarrow> 'k list \<Rightarrow> 'k \<Rightarrow> bool \<Rightarrow> ('s, encrypted_key \<times> ('k, 'sk) opened_key) act"
where
  "dc_generateKey pg encryptionKeys signingKey enableAead =
     await (pg_generatePassphrase pg) (\<lambda>passphrase.
     await (pg_generateKey pg passphrase enableAead) (\<lambda>(privateKey, armoredKey).
     await (pg_generateSessionKey pg encryptionKeys False) (\<lambda>passphraseSessionKey.
     await (dc_encryptPassphrase pg passphrase passphraseSessionKey encryptionKeys signingKey)
       (\<lambda>(armoredPassphrase, armoredPassphraseSignature).
       give (\<lparr>nk_armoredKey = armoredKey, nk_armoredPassphrase = armoredPassphrase,
              nk_armoredPassphraseSignature = armoredPassphraseSignature\<rparr>,
             \<lparr>ok_passphrase = passphrase, ok_key = privateKey, ok_passphraseSessionKey = passphraseSessionKey\<rparr>)))))"

definition dc_generateContentKey :: "('s, 'k, 'sk) openpgp \<Rightarrow> 'k \<Rightarrow> ('s, 'sk file_content_key) act" where
  "dc_generateContentKey pg encryptionKey =
     await (pg_generateSessionKey pg [encryptionKey] True) (\<lambda>sessionKey.
     await (pg_signArmored pg (pg_data pg sessionKey) [encryptionKey]) (\<lambda>signature.
     await (pg_encryptSessionKey pg sessionKey [encryptionKey]) (\<lambda>keyPacket.
       give \<lparr>fk_contentKeyPacket = keyPacket, fk_base64ContentKeyPacket = toBase64 keyPacket,
             fk_armoredContentKeyPacketSignature = signature, fk_contentKeyPacketSessionKey = sessionKey\<rparr>)))"

definition dc_decryptKey ::
  "('s, 'k, 'sk) openpgp \<Rightarrow> string \<Rightarrow> string \<Rightarrow> string option \<Rightarrow> 'k list \<Rightarrow> 'k list
     \<Rightarrow> thrown + ('k, 'sk) opened_key \<times> verification"
where
  "dc_decryptKey pg armoredKey armoredPassphrase armoredPassphraseSignature decryptionKeys verificationKeys =
     try_bind (pg_decryptArmoredSessionKey pg armoredPassphrase decryptionKeys) (\<lambda>passphraseSessionKey.
     try_bind (pg_decryptArmoredAndVerifyDetached pg armoredPassphrase armoredPassphraseSignature
                 passphraseSessionKey verificationKeys) (\<lambda>(decryptedPassphrase, verified).
     try_bind (pg_decode pg decryptedPassphrase) (\<lambda>passphrase.
     try_bind (pg_decryptKey pg armoredKey passphrase) (\<lambda>key.
       Inr (\<lparr>ok_passphrase = passphrase, ok_key = key, ok_passphraseSessionKey = passphraseSessionKey\<rparr>, verified)))))"

definition dc_encryptSessionKey :: "('s, 'k, 'sk) openpgp \<Rightarrow> 'sk \<Rightarrow> 'k \<Rightarrow> ('s, string) act" where
  "dc_encryptSessionKey pg sessionKey encryptionKey =
     await (pg_encryptSessionKey pg sessionKey [encryptionKey]) (\<lambda>keyPacket. give (toBase64 keyPacket))"

definition dc_decryptSessionKey :: "('s, 'k, 'sk) openpgp \<Rightarrow> string \<Rightarrow> 'k list \<Rightarrow> thrown + 'sk" where
  "dc_decryptSessionKey pg armoredData decryptionKeys = pg_decryptArmoredSessionKey pg armoredData decryptionKeys"

text \<open>The verification is \<open>None\<close> when there is no signature.\<close>

definition decryptAndVerifySessionKey ::
  "('s, 'k, 'sk) openpgp \<Rightarrow> string \<Rightarrow> string option \<Rightarrow> 'k list \<Rightarrow> 'k list \<Rightarrow> thrown + 'sk \<times> verification option"
where
  "decryptAndVerifySessionKey pg base64data armoredSignature decryptionKeys verificationKeys =
     try_bind (fromBase64 base64data) (\<lambda>packet.
     try_bind (pg_decryptSessionKey pg packet decryptionKeys) (\<lambda>sessionKey.
       case present armoredSignature of
         None \<Rightarrow> Inr (sessionKey, None)
       | Some signature \<Rightarrow>
           try_bind (pg_verifyArmored pg (pg_data pg sessionKey) signature verificationKeys None) (\<lambda>verified.
             Inr (sessionKey, Some verified))))"

definition decryptUnsignedKey :: "('s, 'k, 'sk) openpgp \<Rightarrow> string \<Rightarrow> string \<Rightarrow> 'k list \<Rightarrow> thrown + 'k" where
  "decryptUnsignedKey pg armoredKey armoredPassphrase decryptionKeys =
     try_bind (pg_decryptArmoredAndVerify pg armoredPassphrase decryptionKeys []) (\<lambda>(decryptedPassphrase, _).
     try_bind (pg_decode pg decryptedPassphrase) (\<lambda>passphrase. pg_decryptKey pg armoredKey passphrase))"

section \<open>Hash keys, names and attributes\<close>

definition generateHashKey :: "('s, 'k, 'sk) openpgp \<Rightarrow> 'k \<Rightarrow> ('s, string \<times> bytes) act" where
  "generateHashKey pg encryptionAndSigningKey =
     await (pg_generatePassphrase pg) (\<lambda>passphrase.
       let hashKey = pg_encode pg passphrase in
       await (pg_encryptAndSignArmored pg hashKey None [encryptionAndSigningKey] encryptionAndSigningKey False False)
         (\<lambda>armoredHashKey. give (armoredHashKey, hashKey)))"

definition hex_digit :: "nat \<Rightarrow> char" where
  "hex_digit n = ''0123456789abcdef'' ! n"

definition toHex :: "bytes \<Rightarrow> string" where
  "toHex bs = concat (map (\<lambda>b. [hex_digit (unat b div 16), hex_digit (unat b mod 16)]) bs)"

definition generateLookupHash :: "('s, 'k, 'sk) openpgp \<Rightarrow> string \<Rightarrow> bytes \<Rightarrow> thrown + string" where
  "generateLookupHash pg newName parentHashKey =
     try_bind (pg_hmac pg parentHashKey (pg_encode pg newName)) (\<lambda>signature. Inr (toHex signature))"

definition encryptNodeName ::
  "('s, 'k, 'sk) openpgp \<Rightarrow> string \<Rightarrow> 'sk option \<Rightarrow> 'k option \<Rightarrow> 'k \<Rightarrow> ('s, string) act"
where
  "encryptNodeName pg nodeName sessionKey encryptionKey signingKey =
     (if sessionKey = None \<and> encryptionKey = None
      then throw_act (throw_new JsError ''Neither session nor encryption key provided for encrypting node name'')
      else pg_encryptAndSignArmored pg (pg_encode pg nodeName) sessionKey
             (case encryptionKey of Some k \<Rightarrow> [k] | None \<Rightarrow> []) signingKey False False)"

definition dc_decryptText where
  "dc_decryptText pg armored decryptionKey verificationKeys =
     try_bind (pg_decryptArmoredAndVerify pg armored [decryptionKey] verificationKeys) (\<lambda>(content, verified).
     try_bind (pg_decode pg content) (\<lambda>decoded. Inr (decoded, verified)))"

definition decryptNodeName ::
  "('s, 'k, 'sk) openpgp \<Rightarrow> string \<Rightarrow> 'k \<Rightarrow> 'k list \<Rightarrow> thrown + string \<times> verification"
where
  "decryptNodeName pg armoredNodeName decryptionKey verificationKeys =
     dc_decryptText pg armoredNodeName decryptionKey verificationKeys"

definition decryptNodeHashKey ::
  "('s, 'k, 'sk) openpgp \<Rightarrow> string \<Rightarrow> 'k \<Rightarrow> 'k list \<Rightarrow> thrown + bytes \<times> verification"
where
  "decryptNodeHashKey pg armoredHashKey decryptionAndVerificationKey extraVerificationKeys =
     pg_decryptArmoredAndVerify pg armoredHashKey [decryptionAndVerificationKey]
       (decryptionAndVerificationKey # extraVerificationKeys)"

definition encryptExtendedAttributes :: "('s, 'k, 'sk) openpgp \<Rightarrow> string \<Rightarrow> 'k \<Rightarrow> 'k \<Rightarrow> ('s, string) act" where
  "encryptExtendedAttributes pg extendedAttributes encryptionKey signingKey =
     pg_encryptAndSignArmored pg (pg_encode pg extendedAttributes) None [encryptionKey] signingKey True False"

definition dc_decryptExtendedAttributes ::
  "('s, 'k, 'sk) openpgp \<Rightarrow> string \<Rightarrow> 'k \<Rightarrow> 'k list \<Rightarrow> thrown + string \<times> verification"
where
  "dc_decryptExtendedAttributes pg armoredExtendedAttributes decryptionKey verificationKeys =
     dc_decryptText pg armoredExtendedAttributes decryptionKey verificationKeys"

section \<open>Public links and invitations\<close>

record public_link_crypto =
  pc_armoredPassword :: string
  pc_base64SharePassphraseKeyPacket :: string
  pc_base64SharePasswordSalt :: string
  pc_srp :: srp

definition computeSrpKeySaltAndPassphrase :: "('s, 'k, 'sk) openpgp \<Rightarrow> string \<Rightarrow> ('s, string \<times> string) act" where
  "computeSrpKeySaltAndPassphrase pg password =
     (if password = '''' then throw_act (throw_new JsError ''Password required.'')
      else await (pg_generateKeySalt pg) (\<lambda>base64Salt.
           await (of_result (pg_computeKeyPassword pg password base64Salt)) (\<lambda>saltedPassphrase.
             give (base64Salt, saltedPassphrase))))"

definition encryptPublicLinkPasswordAndSessionKey ::
  "('s, 'k, 'sk) openpgp \<Rightarrow> string \<Rightarrow> 'k \<Rightarrow> 'sk \<Rightarrow> ('s, public_link_crypto) act"
where
  "encryptPublicLinkPasswordAndSessionKey pg password addressKey sharePassphraseSessionKey =
     await (computeSrpKeySaltAndPassphrase pg password) (\<lambda>(base64SharePasswordSalt, saltedPassphrase).
     await (pg_encryptArmored pg (pg_encode pg password) [addressKey] None False) (\<lambda>armoredPassword.
     await (pg_encryptSessionKeyWithPassword pg sharePassphraseSessionKey saltedPassphrase) (\<lambda>keyPacket.
     await (pg_getSrpVerifier pg password) (\<lambda>srp.
       give \<lparr>pc_armoredPassword = armoredPassword, pc_base64SharePassphraseKeyPacket = toBase64 keyPacket,
             pc_base64SharePasswordSalt = base64SharePasswordSalt, pc_srp = srp\<rparr>))))"

definition decryptKeyWithSrpPassword ::
  "('s, 'k, 'sk) openpgp \<Rightarrow> string \<Rightarrow> string \<Rightarrow> string \<Rightarrow> string \<Rightarrow> thrown + 'k"
where
  "decryptKeyWithSrpPassword pg password salt armoredKey armoredPassphrase =
     try_bind (pg_computeKeyPassword pg password salt) (\<lambda>keyPassword.
     try_bind (pg_decryptArmoredWithPassword pg armoredPassphrase keyPassword) (\<lambda>passphrase.
       pg_decryptKey pg armoredKey (pg_decodeLoosely pg passphrase)))"

definition dc_encryptInvitation :: "('s, 'k, 'sk) openpgp \<Rightarrow> 'sk \<Rightarrow> 'k \<Rightarrow> 'k \<Rightarrow> ('s, string \<times> string) act" where
  "dc_encryptInvitation pg shareSessionKey encryptionKey signingKey =
     await (pg_encryptSessionKey pg shareSessionKey [encryptionKey]) (\<lambda>keyPacket.
     await (pg_sign pg keyPacket signingKey SHARING_INVITER) (\<lambda>keyPacketSignature.
       give (toBase64 keyPacket, toBase64 keyPacketSignature)))"

definition verifyInvitation :: "('s, 'k, 'sk) openpgp \<Rightarrow> string \<Rightarrow> string \<Rightarrow> 'k list \<Rightarrow> thrown + verification" where
  "verifyInvitation pg base64KeyPacket armoredKeyPacketSignature verificationKeys =
     try_bind (fromBase64 base64KeyPacket) (\<lambda>keyPacket.
       pg_verifyArmored pg keyPacket armoredKeyPacketSignature verificationKeys (Some SHARING_INVITER))"

definition dc_acceptInvitation :: "('s, 'k, 'sk) openpgp \<Rightarrow> string \<Rightarrow> 'k list \<Rightarrow> 'k \<Rightarrow> ('s, string) act" where
  "dc_acceptInvitation pg base64KeyPacket decryptionKeys signingKey =
     await (of_result (fromBase64 base64KeyPacket)) (\<lambda>keyPacket.
     await (of_result (pg_decryptSessionKey pg keyPacket decryptionKeys)) (\<lambda>sessionKey.
     await (pg_sign pg (pg_data pg sessionKey) signingKey SHARING_MEMBER) (\<lambda>signature. give (toBase64 signature))))"

definition dc_encryptExternalInvitation :: "('s, 'k, 'sk) openpgp \<Rightarrow> 'sk \<Rightarrow> 'k \<Rightarrow> string \<Rightarrow> ('s, string) act" where
  "dc_encryptExternalInvitation pg shareSessionKey signingKey inviteeEmail =
     await (pg_sign pg (pg_encode pg (inviteeEmail @ ''|'' @ toBase64 (pg_data pg shareSessionKey))) signingKey
              SHARING_INVITER_EXTERNAL_INVITATION) (\<lambda>signature. give (toBase64 signature))"

definition dc_decryptShareUrlPassword :: "('s, 'k, 'sk) openpgp \<Rightarrow> string \<Rightarrow> 'k list \<Rightarrow> thrown + string" where
  "dc_decryptShareUrlPassword pg armoredPassword decryptionKeys =
     try_bind (pg_decryptArmored pg armoredPassword decryptionKeys) (pg_decode pg)"

definition encryptShareUrlPassword :: "('s, 'k, 'sk) openpgp \<Rightarrow> string \<Rightarrow> 'k \<Rightarrow> 'k \<Rightarrow> ('s, string) act" where
  "encryptShareUrlPassword pg password encryptionKey signingKey =
     pg_encryptAndSignArmored pg (pg_encode pg password) None [encryptionKey] signingKey False False"

section \<open>Contents\<close>

definition dc_encryptSignature :: "('s, 'k, 'sk) openpgp \<Rightarrow> bytes \<Rightarrow> 'k \<Rightarrow> 'sk \<Rightarrow> ('s, string) act" where
  "dc_encryptSignature pg signature encryptionKey sessionKey =
     pg_encryptArmored pg signature [encryptionKey] (Some sessionKey) False"

definition encryptThumbnailBlock :: "('s, 'k, 'sk) openpgp \<Rightarrow> bytes \<Rightarrow> 'sk \<Rightarrow> 'k \<Rightarrow> ('s, bytes) act" where
  "encryptThumbnailBlock pg thumbnailData sessionKey signingKey =
     pg_encryptAndSign pg thumbnailData sessionKey [] signingKey True"

definition decryptThumbnailBlock :: "('s, 'k, 'sk) openpgp \<Rightarrow> bytes \<Rightarrow> 'sk \<Rightarrow> 'k list \<Rightarrow> thrown + bytes \<times> verification" where
  "decryptThumbnailBlock pg encryptedThumbnail sessionKey verificationKeys =
     pg_decryptAndVerify pg encryptedThumbnail sessionKey verificationKeys"

definition dc_encryptBlock :: "('s, 'k, 'sk) openpgp \<Rightarrow> bytes \<Rightarrow> 'k \<Rightarrow> 'sk \<Rightarrow> 'k \<Rightarrow> ('s, bytes \<times> string) act" where
  "dc_encryptBlock pg blockData encryptionKey sessionKey signingKey =
     await (pg_encryptAndSignDetached pg blockData sessionKey [] signingKey True) (\<lambda>(encryptedData, signature).
     await (dc_encryptSignature pg signature encryptionKey sessionKey) (\<lambda>armoredSignature.
       give (encryptedData, armoredSignature)))"

definition dc_decryptBlock :: "('s, 'k, 'sk) openpgp \<Rightarrow> bytes \<Rightarrow> 'sk \<Rightarrow> thrown + bytes" where
  "dc_decryptBlock pg encryptedBlock sessionKey =
     try_bind (pg_decryptAndVerify pg encryptedBlock sessionKey []) (\<lambda>(decryptedBlock, _). Inr decryptedBlock)"

definition dc_signManifest :: "('s, 'k, 'sk) openpgp \<Rightarrow> bytes \<Rightarrow> 'k \<Rightarrow> ('s, string) act" where
  "dc_signManifest pg manifest signingKey = pg_signArmored pg manifest [signingKey]"

definition dc_verifyManifest :: "('s, 'k, 'sk) openpgp \<Rightarrow> bytes \<Rightarrow> string \<Rightarrow> 'k list \<Rightarrow> thrown + verification" where
  "dc_verifyManifest pg manifest armoredSignature verificationKeys =
     pg_verifyArmored pg manifest armoredSignature verificationKeys None"

section \<open>What the library promises\<close>

text \<open>
  What is encrypted for some keys with a session key is opened with any of these keys to the session key
  and the data; an embedded signature is valid for its signer. A detached signature \<open>signs\<close> is valid for
  whatever message opens to the data it was made of. Of a signature nobody made nothing is said.
\<close>

definition opens_to :: "('s, 'k, 'sk) openpgp \<Rightarrow> string \<Rightarrow> 'sk \<Rightarrow> 'k list \<Rightarrow> bool" where
  "opens_to pg m sk ks \<longleftrightarrow> (\<forall>ds. set ds \<inter> set ks \<noteq> {} \<longrightarrow> pg_decryptArmoredSessionKey pg m ds = Inr sk)"

definition embeds :: "('s, 'k, 'sk) openpgp \<Rightarrow> string \<Rightarrow> 'k list \<Rightarrow> bytes \<Rightarrow> 'k \<Rightarrow> bool" where
  "embeds pg m ks content signer \<longleftrightarrow>
     (\<forall>ds vks. set ds \<inter> set ks \<noteq> {} \<longrightarrow>
        (\<exists>st es. pg_decryptArmoredAndVerify pg m ds vks = Inr (content, st, es)
           \<and> (signer \<in> set vks \<longrightarrow> st = SIGNED_AND_VALID)))"

definition seals :: "('s, 'k, 'sk) openpgp \<Rightarrow> (string \<Rightarrow> bytes \<Rightarrow> 'k \<Rightarrow> bool) \<Rightarrow> string \<Rightarrow> 'sk \<Rightarrow> bytes \<Rightarrow> bool" where
  "seals pg signs m sk content \<longleftrightarrow>
     (\<forall>sig vks. \<exists>st es. pg_decryptArmoredAndVerifyDetached pg m sig sk vks = Inr (content, st, es)
        \<and> (\<forall>x k. sig = Some x \<longrightarrow> signs x content k \<longrightarrow> k \<in> set vks \<longrightarrow> st = SIGNED_AND_VALID))"

definition openpgp_laws :: "('s, 'k, 'sk) openpgp \<Rightarrow> (string \<Rightarrow> bytes \<Rightarrow> 'k \<Rightarrow> bool) \<Rightarrow> bool" where
  "openpgp_laws pg signs \<longleftrightarrow>
     (\<forall>content sk ks k c a s m s'. pg_encryptAndSignArmored pg content sk ks k c a s = (Inr m, s') \<longrightarrow>
        (\<exists>sk'. (sk = None \<or> sk = Some sk') \<and> opens_to pg m sk' ks) \<and> embeds pg m ks content k \<and> m \<noteq> '''')
     \<and> (\<forall>content sk ks k a s m sig s'. pg_encryptAndSignDetachedArmored pg content sk ks k a s = (Inr (m, sig), s') \<longrightarrow>
        opens_to pg m sk ks \<and> seals pg signs m sk content \<and> signs sig content k)
     \<and> (\<forall>p a s key armored s'. pg_generateKey pg p a s = (Inr (key, armored), s') \<longrightarrow> pg_decryptKey pg armored p = Inr key)
     \<and> (\<forall>sk ks s packet s' ds d. pg_encryptSessionKey pg sk ks s = (Inr packet, s') \<longrightarrow> d \<in> set ds \<longrightarrow> d \<in> set ks \<longrightarrow>
        pg_decryptSessionKey pg packet ds = Inr sk)
     \<and> (\<forall>content ks s sig s' vks d. pg_signArmored pg content ks s = (Inr sig, s') \<longrightarrow> d \<in> set vks \<longrightarrow> d \<in> set ks \<longrightarrow>
        sig \<noteq> '''' \<and> (\<exists>es. pg_verifyArmored pg content sig vks None = Inr (SIGNED_AND_VALID, es)))
     \<and> (\<forall>content sk ks k a s m s' vks. pg_encryptAndSign pg content sk ks k a s = (Inr m, s') \<longrightarrow>
        (\<exists>st es. pg_decryptAndVerify pg m sk vks = Inr (content, st, es) \<and> (k \<in> set vks \<longrightarrow> st = SIGNED_AND_VALID)))
     \<and> (\<forall>content sk ks k a s m sig s' vks. pg_encryptAndSignDetached pg content sk ks k a s = (Inr (m, sig), s') \<longrightarrow>
        (\<exists>st es. pg_decryptAndVerify pg m sk vks = Inr (content, st, es)))
     \<and> (\<forall>t. pg_decode pg (pg_encode pg t) = Inr t)"

lemma opensD: "opens_to pg m sk ks \<Longrightarrow> d \<in> set ks \<Longrightarrow> d \<in> set ds \<Longrightarrow> pg_decryptArmoredSessionKey pg m ds = Inr sk"
  unfolding opens_to_def by blast

lemma embedsE:
  assumes "embeds pg m ks content signer" "d \<in> set ks" "d \<in> set ds"
  obtains st es where "pg_decryptArmoredAndVerify pg m ds vks = Inr (content, st, es)"
    "signer \<in> set vks \<Longrightarrow> st = SIGNED_AND_VALID"
  using assms unfolding embeds_def by blast

lemma sealsE:
  assumes "seals pg signs m sk content"
  obtains st es where "pg_decryptArmoredAndVerifyDetached pg m sig sk vks = Inr (content, st, es)"
    "\<And>x k. sig = Some x \<Longrightarrow> signs x content k \<Longrightarrow> k \<in> set vks \<Longrightarrow> st = SIGNED_AND_VALID"
  using assms unfolding seals_def by metis

lemma openpgp_lawsD:
  assumes "openpgp_laws pg signs"
  shows "pg_encryptAndSignArmored pg content sk ks k c a s = (Inr m, s') \<Longrightarrow>
      (\<exists>sk'. (sk = None \<or> sk = Some sk') \<and> opens_to pg m sk' ks) \<and> embeds pg m ks content k \<and> m \<noteq> ''''"
    and "pg_encryptAndSignDetachedArmored pg content sk1 ks k a s = (Inr (m, sig), s') \<Longrightarrow>
      opens_to pg m sk1 ks \<and> seals pg signs m sk1 content \<and> signs sig content k"
    and "pg_generateKey pg p a s = (Inr (key, armored), s') \<Longrightarrow> pg_decryptKey pg armored p = Inr key"
    and "pg_encryptSessionKey pg sk1 ks s = (Inr packet, s') \<Longrightarrow> d \<in> set ds \<Longrightarrow> d \<in> set ks \<Longrightarrow>
      pg_decryptSessionKey pg packet ds = Inr sk1"
    and "pg_signArmored pg content ks s = (Inr sig, s') \<Longrightarrow> d \<in> set vks \<Longrightarrow> d \<in> set ks \<Longrightarrow>
      sig \<noteq> '''' \<and> (\<exists>es. pg_verifyArmored pg content sig vks None = Inr (SIGNED_AND_VALID, es))"
    and "pg_encryptAndSign pg content sk1 ks k a s = (Inr b, s') \<Longrightarrow>
      \<exists>st es. pg_decryptAndVerify pg b sk1 vks = Inr (content, st, es) \<and> (k \<in> set vks \<longrightarrow> st = SIGNED_AND_VALID)"
    and "pg_encryptAndSignDetached pg content sk1 ks k a s = (Inr (b, sg), s') \<Longrightarrow>
      \<exists>st es. pg_decryptAndVerify pg b sk1 vks = Inr (content, st, es)"
    and "pg_decode pg (pg_encode pg t) = Inr t"
proof -
  note laws = assms [unfolded openpgp_laws_def]
  note laws1 = laws [THEN conjunct2] and laws2 = laws [THEN conjunct2, THEN conjunct2]
  note laws3 = laws2 [THEN conjunct2] and laws4 = laws2 [THEN conjunct2, THEN conjunct2]
  note laws5 = laws4 [THEN conjunct2] and laws6 = laws4 [THEN conjunct2, THEN conjunct2]
  show "pg_encryptAndSignArmored pg content sk ks k c a s = (Inr m, s') \<Longrightarrow>
      (\<exists>sk'. (sk = None \<or> sk = Some sk') \<and> opens_to pg m sk' ks) \<and> embeds pg m ks content k \<and> m \<noteq> ''''"
    using laws [THEN conjunct1] by blast
  show "pg_encryptAndSignDetachedArmored pg content sk1 ks k a s = (Inr (m, sig), s') \<Longrightarrow>
      opens_to pg m sk1 ks \<and> seals pg signs m sk1 content \<and> signs sig content k"
    using laws1 [THEN conjunct1] by blast
  show "pg_generateKey pg p a s = (Inr (key, armored), s') \<Longrightarrow> pg_decryptKey pg armored p = Inr key"
    using laws2 [THEN conjunct1] by blast
  show "pg_encryptSessionKey pg sk1 ks s = (Inr packet, s') \<Longrightarrow> d \<in> set ds \<Longrightarrow> d \<in> set ks \<Longrightarrow>
      pg_decryptSessionKey pg packet ds = Inr sk1"
    using laws3 [THEN conjunct1] by blast
  show "pg_signArmored pg content ks s = (Inr sig, s') \<Longrightarrow> d \<in> set vks \<Longrightarrow> d \<in> set ks \<Longrightarrow>
      sig \<noteq> '''' \<and> (\<exists>es. pg_verifyArmored pg content sig vks None = Inr (SIGNED_AND_VALID, es))"
    using laws4 [THEN conjunct1] by blast
  show "pg_encryptAndSign pg content sk1 ks k a s = (Inr b, s') \<Longrightarrow>
      \<exists>st es. pg_decryptAndVerify pg b sk1 vks = Inr (content, st, es) \<and> (k \<in> set vks \<longrightarrow> st = SIGNED_AND_VALID)"
    using laws5 [THEN conjunct1] by blast
  show "pg_encryptAndSignDetached pg content sk1 ks k a s = (Inr (b, sg), s') \<Longrightarrow>
      \<exists>st es. pg_decryptAndVerify pg b sk1 vks = Inr (content, st, es)"
    using laws6 [THEN conjunct1] by blast
  show "pg_decode pg (pg_encode pg t) = Inr t"
    using laws6 [THEN conjunct2] by blast
qed

section \<open>Round trips\<close>

lemma passphrase_opens_any:
  assumes laws: "openpgp_laws pg signs" and d: "d \<in> set ks" "d \<in> set ds"
    and run: "dc_encryptPassphrase pg passphrase sk ks k s = (Inr (armored, sig), s')"
    and key: "pg_decryptKey pg armoredKey passphrase = Inr key"
  shows "\<exists>st es. dc_decryptKey pg armoredKey armored sig' ds vks =
           Inr (\<lparr>ok_passphrase = passphrase, ok_key = key, ok_passphraseSessionKey = sk\<rparr>, st, es)
         \<and> (\<forall>x j. sig' = Some x \<longrightarrow> signs x (pg_encode pg passphrase) j \<longrightarrow> j \<in> set vks \<longrightarrow> st = SIGNED_AND_VALID)"
    and "signs sig (pg_encode pg passphrase) k"
proof -
  note sealed = openpgp_lawsD(2) [OF laws run [unfolded dc_encryptPassphrase_def]]
  then show "signs sig (pg_encode pg passphrase) k" by blast
  obtain st es where "pg_decryptArmoredAndVerifyDetached pg armored sig' sk vks = Inr (pg_encode pg passphrase, st, es)"
    "\<And>x j. sig' = Some x \<Longrightarrow> signs x (pg_encode pg passphrase) j \<Longrightarrow> j \<in> set vks \<Longrightarrow> st = SIGNED_AND_VALID"
    using sealsE [OF conjunct1 [OF conjunct2 [OF sealed]]] by metis
  moreover have "pg_decryptArmoredSessionKey pg armored ds = Inr sk"
    by (rule opensD [OF conjunct1 [OF sealed] d])
  ultimately show "\<exists>st es. dc_decryptKey pg armoredKey armored sig' ds vks =
           Inr (\<lparr>ok_passphrase = passphrase, ok_key = key, ok_passphraseSessionKey = sk\<rparr>, st, es)
         \<and> (\<forall>x j. sig' = Some x \<longrightarrow> signs x (pg_encode pg passphrase) j \<longrightarrow> j \<in> set vks \<longrightarrow> st = SIGNED_AND_VALID)"
    using key openpgp_lawsD(8) [OF laws] by (auto simp: dc_decryptKey_def)
qed

lemmas passphrase_opens = passphrase_opens_any [where ds = "[d]" and d = d for d, OF _ _ list.set_intros(1)]

lemma text_opens:
  assumes laws: "openpgp_laws pg signs" and d: "d \<in> set ks"
    and run: "pg_encryptAndSignArmored pg (pg_encode pg t) sk ks k c a s = (Inr m, s')"
  shows "\<exists>st es. dc_decryptText pg m d vks = Inr (t, st, es) \<and> (k \<in> set vks \<longrightarrow> st = SIGNED_AND_VALID)"
proof -
  obtain st es where "pg_decryptArmoredAndVerify pg m [d] vks = Inr (pg_encode pg t, st, es)"
    "k \<in> set vks \<Longrightarrow> st = SIGNED_AND_VALID"
    using embedsE [OF conjunct1 [OF conjunct2 [OF openpgp_lawsD(1) [OF laws run]]] d] by (metis list.set_intros(1))
  then show ?thesis using openpgp_lawsD(8) [OF laws] by (auto simp: dc_decryptText_def)
qed

lemma generated_key_opens_any:
  assumes laws: "openpgp_laws pg signs" and d: "d \<in> set ks" "d \<in> set ds"
    and run: "dc_generateKey pg ks k aead s = (Inr (enc, dec), s')"
  shows "\<exists>st es. dc_decryptKey pg (nk_armoredKey enc) (nk_armoredPassphrase enc) (Some (nk_armoredPassphraseSignature enc))
             ds vks = Inr (dec, st, es) \<and> (k \<in> set vks \<longrightarrow> st = SIGNED_AND_VALID)"
proof -
  from run obtain p s1 s2 s3 key armored sk where
    key: "pg_generateKey pg p aead s1 = (Inr (key, armored), s2)"
    and sealed: "dc_encryptPassphrase pg p sk ks k s3 = (Inr (nk_armoredPassphrase enc, nk_armoredPassphraseSignature enc), s')"
    and parts: "nk_armoredKey enc = armored" "dec = \<lparr>ok_passphrase = p, ok_key = key, ok_passphraseSessionKey = sk\<rparr>"
    unfolding dc_generateKey_def
    by (auto dest!: await_ok simp: give_def split: prod.splits)
  have opened: "pg_decryptKey pg armored p = Inr key" by (rule openpgp_lawsD(3) [OF laws key])
  from passphrase_opens_any [OF laws d sealed opened] show ?thesis unfolding parts by blast
qed

lemmas generated_key_opens = generated_key_opens_any [where ds = "[d]" and d = d for d, OF _ _ list.set_intros(1)]

lemma hash_key_opens:
  assumes laws: "openpgp_laws pg signs" and run: "generateHashKey pg k s = (Inr (armored, hashKey), s')"
  shows "\<exists>es. decryptNodeHashKey pg armored k extra = Inr (hashKey, SIGNED_AND_VALID, es)"
proof -
  from run obtain s1 where "pg_encryptAndSignArmored pg hashKey None [k] k False False s1 = (Inr armored, s')"
    unfolding generateHashKey_def by (auto dest!: await_ok simp: give_def Let_def)
  from openpgp_lawsD(1) [OF laws this] have "embeds pg armored [k] hashKey k" by blast
  from embedsE [OF this, of k "[k]" "k # extra"] show ?thesis unfolding decryptNodeHashKey_def by auto
qed

section \<open>Contents of files\<close>

lemma content_key_opens:
  assumes laws: "openpgp_laws pg signs" and run: "dc_generateContentKey pg k s = (Inr c, s')"
  shows "\<exists>es. decryptAndVerifySessionKey pg (fk_base64ContentKeyPacket c) (Some (fk_armoredContentKeyPacketSignature c))
             [k] (k # vks) = Inr (fk_contentKeyPacketSessionKey c, Some (SIGNED_AND_VALID, es))"
    and "fromBase64 (fk_base64ContentKeyPacket c) = Inr (fk_contentKeyPacket c)"
proof -
  from run obtain s1 s2 where
    signature: "pg_signArmored pg (pg_data pg (fk_contentKeyPacketSessionKey c)) [k] s1
      = (Inr (fk_armoredContentKeyPacketSignature c), s2)"
    and packet: "pg_encryptSessionKey pg (fk_contentKeyPacketSessionKey c) [k] s2 = (Inr (fk_contentKeyPacket c), s')"
    and parts: "fk_base64ContentKeyPacket c = toBase64 (fk_contentKeyPacket c)"
    unfolding dc_generateContentKey_def by (auto dest!: await_ok simp: give_def split: prod.splits)
  show "fromBase64 (fk_base64ContentKeyPacket c) = Inr (fk_contentKeyPacket c)" by (simp add: parts)
  obtain es where "fk_armoredContentKeyPacketSignature c \<noteq> ''''" "pg_verifyArmored pg (pg_data pg (fk_contentKeyPacketSessionKey c))
      (fk_armoredContentKeyPacketSignature c) (k # vks) None = Inr (SIGNED_AND_VALID, es)"
    using openpgp_lawsD(5) [OF laws signature, where d = k and vks = "k # vks"] by auto
  moreover have "pg_decryptSessionKey pg (fk_contentKeyPacket c) [k] = Inr (fk_contentKeyPacketSessionKey c)"
    using openpgp_lawsD(4) [OF laws packet, where d = k and ds = "[k]"] by simp
  ultimately show "\<exists>es. decryptAndVerifySessionKey pg (fk_base64ContentKeyPacket c)
      (Some (fk_armoredContentKeyPacketSignature c)) [k] (k # vks)
        = Inr (fk_contentKeyPacketSessionKey c, Some (SIGNED_AND_VALID, es))"
    by (cases "fk_armoredContentKeyPacketSignature c")
      (auto simp: decryptAndVerifySessionKey_def parts present_def)
qed

lemma block_opens:
  assumes laws: "openpgp_laws pg signs" and run: "dc_encryptBlock pg block nodeKey sk k s = (Inr (enc, sig), s')"
  shows "dc_decryptBlock pg enc sk = Inr block"
proof -
  from run obtain sg s1 where "pg_encryptAndSignDetached pg block sk [] k True s = (Inr (enc, sg), s1)"
    unfolding dc_encryptBlock_def by (auto dest!: await_ok simp: give_def split: prod.splits)
  from openpgp_lawsD(7) [OF laws this, where vks = "[]"] show ?thesis by (auto simp: dc_decryptBlock_def)
qed

lemma thumbnail_opens:
  assumes laws: "openpgp_laws pg signs" and run: "encryptThumbnailBlock pg thumbnail sk k s = (Inr enc, s')"
  shows "\<exists>st es. decryptThumbnailBlock pg enc sk vks = Inr (thumbnail, st, es) \<and> (k \<in> set vks \<longrightarrow> st = SIGNED_AND_VALID)"
  using openpgp_lawsD(6) [OF laws run [unfolded encryptThumbnailBlock_def]] unfolding decryptThumbnailBlock_def by blast

text \<open>
  C35: whoever has the key of a file opens its content key packet to the session key its blocks
  and thumbnails were encrypted with, with a valid signature, and with that reads blocks and thumbnails
  as they were written; a thumbnail verifies with the key it was signed with.
\<close>

theorem file_content_reads_back:
  assumes "openpgp_laws pg signs"
    and "dc_generateContentKey pg nodeKey s0 = (Inr c, s1)"
    and "dc_encryptBlock pg block nodeKey (fk_contentKeyPacketSessionKey c) signer s2 = (Inr (encryptedBlock, signature), s3)"
    and "encryptThumbnailBlock pg thumbnail (fk_contentKeyPacketSessionKey c) signer s4 = (Inr encryptedThumbnail, s5)"
  shows "(\<exists>es. decryptAndVerifySessionKey pg (fk_base64ContentKeyPacket c)
            (Some (fk_armoredContentKeyPacketSignature c)) [nodeKey] (nodeKey # keys)
              = Inr (fk_contentKeyPacketSessionKey c, Some (SIGNED_AND_VALID, es)))
     \<and> dc_decryptBlock pg encryptedBlock (fk_contentKeyPacketSessionKey c) = Inr block
     \<and> (\<exists>es. decryptThumbnailBlock pg encryptedThumbnail (fk_contentKeyPacketSessionKey c) (signer # keys)
              = Inr (thumbnail, SIGNED_AND_VALID, es))"
proof -
  obtain es where "decryptThumbnailBlock pg encryptedThumbnail (fk_contentKeyPacketSessionKey c) (signer # keys)
       = Inr (thumbnail, SIGNED_AND_VALID, es)"
    using thumbnail_opens [OF assms(1,4), where vks = "signer # keys"] by auto
  moreover note content_key_opens(1) [OF assms(1,2), of keys] block_opens [OF assms(1,3)]
  ultimately show ?thesis by (auto split: if_splits)
qed

section \<open>A symbolic library\<close>

text \<open>
  Keys and session keys are bytes, a message lists its session key, its signer, the keys that open it
  and its content. The state counts the keys that were generated.
\<close>

definition sym_armor :: "bytes \<Rightarrow> string" where "sym_armor bs = map (\<lambda>b. char_of (unat b)) bs"
definition sym_dearmor :: "string \<Rightarrow> bytes" where "sym_dearmor t = map (\<lambda>c. of_nat (of_char c)) t"

definition sym_message :: "8 word \<Rightarrow> 8 word list \<Rightarrow> 8 word \<Rightarrow> bytes \<Rightarrow> bytes" where
  "sym_message sk ks signer content = sk # signer # of_nat (length ks) # ks @ content"

definition sym_open :: "bytes \<Rightarrow> thrown + 8 word \<times> 8 word \<times> 8 word list \<times> bytes" where
  "sym_open m =
     (case m of sk # signer # n # r \<Rightarrow> Inr (sk, signer, take (unat n) r, drop (unat n) r)
      | _ \<Rightarrow> Inl (throw_new JsError ''Not a message''))"

definition sym_encrypt :: "8 word \<Rightarrow> 8 word list \<Rightarrow> 8 word \<Rightarrow> bytes \<Rightarrow> thrown + bytes" where
  "sym_encrypt sk ks signer content =
     (if length ks < 256 then Inr (sym_message sk ks signer content) else Inl (throw_new JsError ''Too many keys''))"

definition sym_verified :: "bool \<Rightarrow> verification" where
  "sym_verified b = (if b then SIGNED_AND_VALID else SIGNED_AND_INVALID, None)"

definition sym_read :: "bytes \<Rightarrow> 8 word list \<Rightarrow> thrown + 8 word \<times> 8 word \<times> bytes" where
  "sym_read m ds =
     try_bind (sym_open m) (\<lambda>(sk, signer, ks, content).
       if set ds \<inter> set ks \<noteq> {} then Inr (sk, signer, content) else Inl (throw_new JsError ''Could not decrypt session key''))"

definition sym_detached :: "string \<Rightarrow> bytes \<Rightarrow> 8 word \<Rightarrow> bool" where
  "sym_detached x content k \<longleftrightarrow> x = sym_armor (k # content)"

definition symbolic :: "(nat, 8 word, 8 word) openpgp" where
  "symbolic =
     \<lparr>pg_generatePassphrase = (\<lambda>n. (Inr (show_nat n), Suc n)),
      pg_generateSessionKey = (\<lambda>_ _ n. (Inr (of_nat n), Suc n)),
      pg_encryptSessionKey = (\<lambda>sk ks n. (sym_encrypt sk ks 0 [], n)),
      pg_encryptSessionKeyWithPassword = (\<lambda>sk p n. (Inr (sk # sym_dearmor p), n)),
      pg_generateKey = (\<lambda>p _ n. (Inr (of_nat n, sym_armor (of_nat n # sym_dearmor p)), Suc n)),
      pg_encryptArmored = (\<lambda>content ks sk _ n.
        (map_sum id sym_armor (sym_encrypt (case sk of Some k \<Rightarrow> k | None \<Rightarrow> of_nat n) ks 0 content), Suc n)),
      pg_encryptAndSign = (\<lambda>content sk ks k _ n. (sym_encrypt sk ks k content, n)),
      pg_encryptAndSignArmored = (\<lambda>content sk ks k _ _ n.
        (map_sum id sym_armor (sym_encrypt (case sk of Some k \<Rightarrow> k | None \<Rightarrow> of_nat n) ks k content), Suc n)),
      pg_encryptAndSignDetached = (\<lambda>content sk ks k _ n.
        (map_sum id (\<lambda>m. (m, k # content)) (sym_encrypt sk ks 0 content), n)),
      pg_encryptAndSignDetachedArmored = (\<lambda>content sk ks k _ n.
        (map_sum id (\<lambda>m. (sym_armor m, sym_armor (k # content))) (sym_encrypt sk ks 0 content), n)),
      pg_sign = (\<lambda>content k context n. (Inr (k # content), n)),
      pg_signArmored = (\<lambda>content ks n.
        (case ks of k # _ \<Rightarrow> if length ks = 1 then Inr (sym_armor (k # content)) else Inl (throw_new JsError ''One key'')
         | [] \<Rightarrow> Inl (throw_new JsError ''No key''), n)),
      pg_verifyArmored = (\<lambda>content sig ks _. Inr (sym_verified (\<exists>k \<in> set ks. sym_detached sig content k))),
      pg_decryptSessionKey = (\<lambda>m ds. map_sum id fst (sym_read m ds)),
      pg_decryptArmoredSessionKey = (\<lambda>m ds. map_sum id fst (sym_read (sym_dearmor m) ds)),
      pg_decryptKey = (\<lambda>armored p.
        case sym_dearmor armored of
          k # r \<Rightarrow> if r = sym_dearmor p then Inr k else Inl (throw_new JsError ''Wrong passphrase'')
        | [] \<Rightarrow> Inl (throw_new JsError ''Not a key'')),
      pg_decryptAndVerify = (\<lambda>m sk vks.
        try_bind (sym_open m) (\<lambda>(sk', signer, _, content).
          if sk = sk' then Inr (content, sym_verified (signer \<in> set vks)) else Inl (throw_new JsError ''Wrong key''))),
      pg_decryptArmored = (\<lambda>m ds. map_sum id (snd \<circ> snd) (sym_read (sym_dearmor m) ds)),
      pg_decryptArmoredAndVerify = (\<lambda>m ds vks.
        map_sum id (\<lambda>(_, signer, content). (content, sym_verified (signer \<in> set vks))) (sym_read (sym_dearmor m) ds)),
      pg_decryptArmoredAndVerifyDetached = (\<lambda>m sig sk vks.
        try_bind (sym_open (sym_dearmor m)) (\<lambda>(sk', _, _, content).
          if sk = sk'
          then Inr (content, case sig of None \<Rightarrow> (NOT_SIGNED, None)
                             | Some x \<Rightarrow> sym_verified (\<exists>k \<in> set vks. sym_detached x content k))
          else Inl (throw_new JsError ''Wrong key''))),
      pg_decryptArmoredWithPassword = (\<lambda>m p. Inr (sym_dearmor m)),
      pg_data = (\<lambda>sk. [sk]),
      pg_generateKeySalt = (\<lambda>n. (Inr ''salt'', n)),
      pg_computeKeyPassword = (\<lambda>p salt. Inr (p @ salt)),
      pg_getSrpVerifier = (\<lambda>p n. (Inr \<lparr>sv_modulusId = ''m'', sv_version = 4, sv_salt = ''s'', sv_verifier = p\<rparr>, n)),
      pg_hmac = (\<lambda>key content. Inr (key @ content)),
      pg_encode = sym_dearmor,
      pg_decode = (\<lambda>bs. Inr (sym_armor bs)),
      pg_decodeLoosely = sym_armor\<rparr>"

lemma sym_armor_inverse [simp]: "sym_armor (sym_dearmor t) = t" "sym_dearmor (sym_armor bs) = bs"
proof -
  show "sym_armor (sym_dearmor t) = t"
    by (induction t) (simp_all add: sym_armor_def sym_dearmor_def unat_of_nat)
  have "of_nat (of_char (char_of (unat b) :: char)) = b" for b :: "8 word"
    using unat_byte [of b] by simp
  then show "sym_dearmor (sym_armor bs) = bs"
    by (simp add: sym_armor_def sym_dearmor_def comp_def)
qed

lemma sym_open_message: "length ks < 256 \<Longrightarrow> sym_open (sym_message sk ks signer content) = Inr (sk, signer, ks, content)"
  by (simp add: sym_open_def sym_message_def unat_of_nat)

lemma sym_read_message:
  "length ks < 256 \<Longrightarrow> set ds \<inter> set ks \<noteq> {} \<Longrightarrow> sym_read (sym_message sk ks signer content) ds = Inr (sk, signer, content)"
  by (simp add: sym_read_def sym_open_message)

lemma sym_encrypt_Inr:
  "sym_encrypt sk ks signer content = Inr m \<longleftrightarrow> length ks < 256 \<and> m = sym_message sk ks signer content"
  by (auto simp: sym_encrypt_def)

lemma map_sum_Inr_iff: "map_sum f g r = Inr v \<longleftrightarrow> (\<exists>u. r = Inr u \<and> v = g u)"
  by (cases r) auto

lemma symbolic_laws: "openpgp_laws symbolic sym_detached"
  unfolding openpgp_laws_def
proof (intro conjI allI impI)
  fix content sk ks k c a s m s'
  assume "pg_encryptAndSignArmored symbolic content sk ks k c a s = (Inr m, s')"
  then have m: "length ks < 256" "sym_dearmor m = sym_message (case sk of Some k \<Rightarrow> k | None \<Rightarrow> of_nat s) ks k content"
    by (auto simp: symbolic_def map_sum_Inr_iff sym_encrypt_Inr)
  show "\<exists>sk'. (sk = None \<or> sk = Some sk') \<and> opens_to symbolic m sk' ks"
    by (rule exI [of _ "case sk of Some k \<Rightarrow> k | None \<Rightarrow> of_nat s"])
      (use m in \<open>auto simp: opens_to_def symbolic_def sym_read_message split: option.split\<close>)
  show "m \<noteq> ''''" using m(2) by (auto simp: sym_dearmor_def sym_message_def)
  show "embeds symbolic m ks content k"
    using m by (auto simp: embeds_def symbolic_def sym_read_message sym_verified_def)
next
  fix content sk ks k a s m sig s'
  assume "pg_encryptAndSignDetachedArmored symbolic content sk ks k a s = (Inr (m, sig), s')"
  then have m: "length ks < 256" "sym_dearmor m = sym_message sk ks 0 content" "sig = sym_armor (k # content)"
    by (auto simp: symbolic_def map_sum_Inr_iff sym_encrypt_Inr)
  then show "opens_to symbolic m sk ks" "sym_detached sig content k"
    by (auto simp: opens_to_def symbolic_def sym_read_message sym_detached_def)
  show "seals symbolic sym_detached m sk content"
    using m by (auto simp: seals_def symbolic_def sym_open_message sym_verified_def split: option.split)
next
  fix p a s key armored s'
  assume "pg_generateKey symbolic p a s = (Inr (key, armored), s')"
  then show "pg_decryptKey symbolic armored p = Inr key" by (auto simp: symbolic_def)
next
  fix sk ks s packet s' ds d
  assume "pg_encryptSessionKey symbolic sk ks s = (Inr packet, s')" "d \<in> set ds" "d \<in> set ks"
  moreover from this(2,3) have "set ds \<inter> set ks \<noteq> {}" by blast
  ultimately show "pg_decryptSessionKey symbolic packet ds = Inr sk"
    by (auto simp: symbolic_def sym_encrypt_Inr sym_read_message)
next
  fix content ks s sig s' vks d
  assume "pg_signArmored symbolic content ks s = (Inr sig, s')" "d \<in> set vks" "d \<in> set ks"
  then have "sym_detached sig content d" "sig \<noteq> ''''"
    by (auto simp: symbolic_def sym_detached_def sym_armor_def split: list.splits if_splits)
  with \<open>d \<in> set vks\<close> show "sig \<noteq> ''''" "\<exists>es. pg_verifyArmored symbolic content sig vks None = Inr (SIGNED_AND_VALID, es)"
    by (auto simp: symbolic_def sym_verified_def)
next
  fix content sk ks k a s m s' vks
  assume "pg_encryptAndSign symbolic content sk ks k a s = (Inr m, s')"
  then show "\<exists>st es. pg_decryptAndVerify symbolic m sk vks = Inr (content, st, es) \<and> (k \<in> set vks \<longrightarrow> st = SIGNED_AND_VALID)"
    by (auto simp: symbolic_def sym_encrypt_Inr sym_open_message sym_verified_def)
next
  fix content sk ks k a s m sig s' vks
  assume "pg_encryptAndSignDetached symbolic content sk ks k a s = (Inr (m, sig), s')"
  then show "\<exists>st es. pg_decryptAndVerify symbolic m sk vks = Inr (content, st, es)"
    by (auto simp: symbolic_def map_sum_Inr_iff sym_encrypt_Inr sym_open_message sym_verified_def)
qed (simp add: symbolic_def)

theorem file_content_reads_back_witness:
  "\<exists>c s1 encryptedBlock signature s2.
     dc_generateContentKey symbolic 7 0 = (Inr c, s1)
     \<and> dc_encryptBlock symbolic [1, 2, 3] 7 (fk_contentKeyPacketSessionKey c) 9 s1 = (Inr (encryptedBlock, signature), s2)
     \<and> dc_decryptBlock symbolic encryptedBlock (fk_contentKeyPacketSessionKey c) = Inr [1, 2, 3]"
proof -
  obtain c s1 where c: "dc_generateContentKey symbolic 7 0 = (Inr c, s1)"
    by (simp add: dc_generateContentKey_def symbolic_def run_act sym_encrypt_def)
  obtain b x s2 where b: "dc_encryptBlock symbolic [1, 2, 3] 7 (fk_contentKeyPacketSessionKey c) 9 s1 = (Inr (b, x), s2)"
    by (simp add: dc_encryptBlock_def dc_encryptSignature_def symbolic_def run_act sym_encrypt_def)
  obtain t s3 where t: "encryptThumbnailBlock symbolic [4] (fk_contentKeyPacketSessionKey c) 9 s2 = (Inr t, s3)"
    by (simp add: encryptThumbnailBlock_def symbolic_def sym_encrypt_def)
  from file_content_reads_back [OF symbolic_laws c b t] c b show ?thesis by blast
qed

end
