(* ===== verification/NodesApi.thy ===== *)
theory NodesApi
  imports NodesCache Iterators SharingLinks
begin

text \<open>
  \<open>NodeAPIService\<close> of \<^verbatim>\<open>internal/nodes/apiService.ts\<close>: what it sends for the operations on nodes and
  how it reads the answers. The HTTP endpoints are the parameter \<open>node_endpoints\<close>, operations on a state \<open>'s\<close>
  that throw what \<open>DriveAPIService\<close> throws.

  A generator gives what it yields, the error it ends with and its final state. The volumes of one listing,
  which the code may read side by side, are read one after the other.
\<close>

section \<open>Data\<close>

record api_thumbnail =
  th_ThumbnailID :: string
  th_Type :: int

record api_revision =
  av_ID :: string
  av_State :: int
  av_CreateTime :: int
  av_Size :: int
  av_SignatureEmail :: "string option"
  av_XAttr :: "string option"
  av_Thumbnails :: "api_thumbnail list option"
  av_ChecksumVerified :: "bool option"

record api_membership =
  ms_Permissions :: "int option"
  ms_InviteTime :: int
  ms_InviterEmail :: string
  ms_MemberSharePassphraseKeyPacket :: string
  ms_InviterSharePassphraseKeyPacketSignature :: string
  ms_InviteeSharePassphraseSessionKeySignature :: string

record api_folder =
  fd_XAttr :: "string option"
  fd_NodeHashKey :: string

record api_active_revision =
  ar_RevisionID :: string
  ar_CreateTime :: int
  ar_EncryptedSize :: int
  ar_SignatureEmail :: "string option"
  ar_XAttr :: "string option"
  ar_Thumbnails :: "api_thumbnail list option"

record api_file =
  fl_TotalEncryptedSize :: int
  fl_MediaType :: "string option"
  fl_ContentKeyPacket :: string
  fl_ContentKeyPacketSignature :: "string option"
  fl_ActiveRevision :: "api_active_revision option"

text \<open>A link, its sharing (the share and its public link) and its owner (email and organization).\<close>

record api_link =
  lk_LinkID :: string
  lk_Type :: int
  lk_ParentLinkID :: "string option"
  lk_NameHash :: "string option"
  lk_Name :: string
  lk_CreateTime :: int
  lk_ModifyTime :: int
  lk_TrashTime :: "int option"
  lk_SignatureEmail :: "string option"
  lk_NameSignatureEmail :: "string option"
  lk_NodeKey :: string
  lk_NodePassphrase :: string
  lk_NodePassphraseSignature :: string
  lk_OwnedBy :: "(string option \<times> string option) option"
  lk_Membership :: "api_membership option"
  lk_Sharing :: "(string \<times> string option) option"
  lk_Folder :: "api_folder option"
  lk_File :: "api_file option"

datatype revision_state = Active | Superseded

record encrypted_revision =
  er_uid :: string
  er_state :: revision_state
  er_creationTime :: "int option"
  er_storageSize :: int
  er_signatureEmail :: "string option"
  er_armoredExtendedAttributes :: "string option"
  er_thumbnails :: "(string \<times> int) list"
  er_sha1Verified :: "bool option"

record membership_crypto =
  mc_inviterEmail :: string
  mc_base64MemberSharePassphraseKeyPacket :: string
  mc_armoredInviterSharePassphraseKeyPacketSignature :: string
  mc_armoredInviteeSharePassphraseSessionKeySignature :: string

datatype kind_crypto =
    FolderCrypto (fc_armoredExtendedAttributes: "string option") (fc_armoredHashKey: string)
  | FileCrypto string "string option" encrypted_revision
  | AlbumCrypto

record encrypted_crypto =
  ec_signatureEmail :: "string option"
  ec_nameSignatureEmail :: "string option"
  ec_armoredKey :: string
  ec_armoredNodePassphrase :: string
  ec_armoredNodePassphraseSignature :: "string option"
  ec_membership :: "membership_crypto option"
  ec_kind :: kind_crypto

text \<open>An encrypted node is the object of its metadata with its cryptographic part.\<close>

type_synonym encrypted_node = "jsval \<times> encrypted_crypto"

text \<open>The largest time a date can hold, in milliseconds; the server counts seconds.\<close>

definition js_time :: "int \<Rightarrow> int option" where
  "js_time ms = (if \<bar>ms\<bar> \<le> 8640000000000000 then Some ms else None)"

definition date_of_seconds :: "int \<Rightarrow> jsval" where
  "date_of_seconds t = JDate (js_time (t * 1000))"

section \<open>Nodes\<close>

definition nodeTypeNumberToNodeType :: "int \<Rightarrow> string" where
  "nodeTypeNumberToNodeType n = (if n = 1 then ''folder'' else if n = 2 then ''file'' else if n = 3 then ''album'' else ''file'')"

fun role_text :: "member_role \<Rightarrow> string" where
  "role_text Viewer = ''viewer''"
| "role_text Editor = ''editor''"
| "role_text Admin = ''admin''"
| "role_text Inherited = ''inherited''"

definition js_str :: "string option \<Rightarrow> jsval" where
  "js_str s = js_string_or_undefined (present s)"

definition linkToEncryptedNodeBaseMetadata :: "string \<Rightarrow> api_link \<Rightarrow> bool \<Rightarrow> (string \<times> jsval) list \<times> (kind_crypto \<Rightarrow> encrypted_crypto)" where
  "linkToEncryptedNodeBaseMetadata volumeId link isAdmin =
     (let membershipRole = permissionsToMemberRole (Option.bind (lk_Membership link) ms_Permissions);
          owner = (case lk_OwnedBy link of Some o' \<Rightarrow> o' | None \<Rightarrow> (None, None))
      in ([(''hash'', js_str (lk_NameHash link)),
           (''encryptedName'', JStr (lk_Name link)),
           (''uid'', JStr (makeNodeUid volumeId (lk_LinkID link))),
           (''parentUid'', js_string_or_undefined (map_option (makeNodeUid volumeId) (present (lk_ParentLinkID link)))),
           (''type'', JStr (nodeTypeNumberToNodeType (lk_Type link))),
           (''creationTime'', date_of_seconds (lk_CreateTime link)),
           (''modificationTime'', date_of_seconds (lk_ModifyTime link)),
           (''trashTime'', case nonzero (lk_TrashTime link) of Some t \<Rightarrow> date_of_seconds t | None \<Rightarrow> JUndefined),
           (''shareId'', js_str (map_option fst (lk_Sharing link))),
           (''isShared'', JBool (lk_Sharing link \<noteq> None)),
           (''isSharedPublicly'', JBool (present (Option.bind (lk_Sharing link) snd) \<noteq> None)),
           (''directRole'', JStr (role_text (if isAdmin then Admin else membershipRole))),
           (''membership'',
            case lk_Membership link of
              Some m \<Rightarrow> JObj [(''role'', JStr (role_text membershipRole)), (''inviteTime'', date_of_seconds (ms_InviteTime m))]
            | None \<Rightarrow> JUndefined),
           (''ownedBy'', JObj [(''email'', js_str (fst owner)), (''organization'', js_str (snd owner))])],
          \<lambda>kind. \<lparr>ec_signatureEmail = present (lk_SignatureEmail link),
             ec_nameSignatureEmail = present (lk_NameSignatureEmail link),
             ec_armoredKey = lk_NodeKey link, ec_armoredNodePassphrase = lk_NodePassphrase link,
             ec_armoredNodePassphraseSignature = Some (lk_NodePassphraseSignature link),
             ec_membership = map_option (\<lambda>m. \<lparr>mc_inviterEmail = ms_InviterEmail m,
               mc_base64MemberSharePassphraseKeyPacket = ms_MemberSharePassphraseKeyPacket m,
               mc_armoredInviterSharePassphraseKeyPacketSignature = ms_InviterSharePassphraseKeyPacketSignature m,
               mc_armoredInviteeSharePassphraseSessionKeySignature = ms_InviteeSharePassphraseSessionKeySignature m\<rparr>)
               (lk_Membership link),
             ec_kind = kind\<rparr>))"

definition transformThumbnail :: "string \<Rightarrow> string \<Rightarrow> api_thumbnail \<Rightarrow> string \<times> int" where
  "transformThumbnail volumeId nodeId thumbnail =
     (makeNodeThumbnailUid volumeId nodeId (th_ThumbnailID thumbnail), th_Type thumbnail)"

definition thumbnails_of :: "string \<Rightarrow> string \<Rightarrow> api_thumbnail list option \<Rightarrow> (string \<times> int) list" where
  "thumbnails_of volumeId nodeId thumbnails =
     (case thumbnails of Some ts \<Rightarrow> map (transformThumbnail volumeId nodeId) ts | None \<Rightarrow> [])"

definition active_revision_of :: "string \<Rightarrow> string \<Rightarrow> api_active_revision \<Rightarrow> encrypted_revision" where
  "active_revision_of volumeId nodeId revision =
     \<lparr>er_uid = makeNodeRevisionUid volumeId nodeId (ar_RevisionID revision), er_state = Active,
      er_creationTime = js_time (ar_CreateTime revision * 1000), er_storageSize = ar_EncryptedSize revision,
      er_signatureEmail = present (ar_SignatureEmail revision),
      er_armoredExtendedAttributes = present (ar_XAttr revision),
      er_thumbnails = thumbnails_of volumeId nodeId (ar_Thumbnails revision), er_sha1Verified = None\<rparr>"

text \<open>A node, nothing for a draft, or an error for a link of another type.\<close>

definition linkToEncryptedNode :: "string \<Rightarrow> api_link \<Rightarrow> bool \<Rightarrow> thrown + encrypted_node option" where
  "linkToEncryptedNode volumeId link isAdmin =
     (case linkToEncryptedNodeBaseMetadata volumeId link isAdmin of (base, crypto) \<Rightarrow>
        case (lk_Type link, lk_Folder link, lk_File link) of
          (n, folder, content) \<Rightarrow>
            if n = 1 \<and> folder \<noteq> None
            then Inr (Some (JObj base, crypto (FolderCrypto (present (fd_XAttr (the folder))) (fd_NodeHashKey (the folder)))))
            else if n = 2 \<and> content \<noteq> None
            then (case fl_ActiveRevision (the content) of
                    None \<Rightarrow> Inr None
                  | Some revision \<Rightarrow>
                      Inr (Some (JObj (base @ [(''totalStorageSize'', JNum (fl_TotalEncryptedSize (the content))),
                                               (''mediaType'', js_str (fl_MediaType (the content)))]),
                                 crypto (FileCrypto (fl_ContentKeyPacket (the content))
                                   (present (fl_ContentKeyPacketSignature (the content)))
                                   (active_revision_of volumeId (lk_LinkID link) revision)))))
            else if n = 3 then Inr (Some (JObj base, crypto AlbumCrypto))
            else Inl (throw_new JsError ''Unknown node type''))"

definition transformRevisionResponse :: "string \<Rightarrow> string \<Rightarrow> api_revision \<Rightarrow> encrypted_revision" where
  "transformRevisionResponse volumeId nodeId revision =
     \<lparr>er_uid = makeNodeRevisionUid volumeId nodeId (av_ID revision),
      er_state = (if av_State revision = 1 then Active else Superseded),
      er_creationTime = js_time (av_CreateTime revision * 1000), er_storageSize = av_Size revision,
      er_signatureEmail = present (av_SignatureEmail revision),
      er_armoredExtendedAttributes = present (av_XAttr revision),
      er_thumbnails = thumbnails_of volumeId nodeId (av_Thumbnails revision),
      er_sha1Verified = av_ChecksumVerified revision\<rparr>"

section \<open>The endpoints\<close>

record children_page =
  cp_LinkIDs :: "string list"
  cp_More :: bool
  cp_AnchorID :: "string option"

text \<open>The outcome of one link in the answer to a bulk request.\<close>

record link_response =
  lr_LinkID :: string
  lr_Code :: "int option"
  lr_Error :: "string option"

record rename_request =
  rr_Name :: string
  rr_NameSignatureEmail :: "string option"
  rr_Hash :: "string option"
  rr_OriginalHash :: "string option"

text \<open>A field that is \<open>undefined\<close> is not sent; a \<open>SignatureEmail\<close> may be sent as \<open>null\<close>.\<close>

record parent_request =
  pr_ParentLinkID :: string
  pr_NodePassphrase :: string
  pr_NodePassphraseSignature :: "string option"
  pr_SignatureEmail :: "string option option"
  pr_Name :: string
  pr_NameSignatureEmail :: "string option option"
  pr_Hash :: string

record move_request = parent_request +
  mr_OriginalHash :: string
  mr_ContentHash :: "string option"

record folder_request =
  fr_ParentLinkID :: string
  fr_NodeKey :: string
  fr_NodeHashKey :: string
  fr_NodePassphrase :: string
  fr_NodePassphraseSignature :: string
  fr_SignatureEmail :: "string option"
  fr_Name :: string
  fr_Hash :: string
  fr_XAttr :: "string option"

record pending_hash =
  ph_Hash :: string
  ph_LinkID :: string
  ph_RevisionID :: string
  ph_ClientUID :: "string option"

record 's node_endpoints =
  ep_postLinks :: "string \<Rightarrow> string list \<Rightarrow> ('s, api_link list) act"
  ep_getChildren :: "string \<Rightarrow> string \<Rightarrow> bool \<Rightarrow> string \<Rightarrow> ('s, children_page) act"
  ep_getTrash :: "string \<Rightarrow> nat \<Rightarrow> ('s, string list list) act"
  ep_putRename :: "string \<Rightarrow> string \<Rightarrow> rename_request \<Rightarrow> ('s, unit) act"
  ep_putMove :: "string \<Rightarrow> string \<Rightarrow> move_request \<Rightarrow> ('s, unit) act"
  ep_postCopy :: "string \<Rightarrow> string \<Rightarrow> string \<Rightarrow> parent_request \<Rightarrow> ('s, string) act"
  ep_deleteTrash :: "string \<Rightarrow> ('s, unit) act"
  ep_postTrashMultiple :: "string \<Rightarrow> string list \<Rightarrow> ('s, link_response list) act"
  ep_putRestoreMultiple :: "string \<Rightarrow> string list \<Rightarrow> ('s, link_response list) act"
  ep_postDeleteMultiple :: "string \<Rightarrow> string list \<Rightarrow> ('s, link_response list) act"
  ep_postRemoveMine :: "string \<Rightarrow> string list \<Rightarrow> ('s, link_response list) act"
  ep_postFolder :: "string \<Rightarrow> folder_request \<Rightarrow> ('s, string) act"
  ep_getRevision :: "string \<Rightarrow> string \<Rightarrow> string \<Rightarrow> ('s, api_revision) act"
  ep_getRevisions :: "string \<Rightarrow> string \<Rightarrow> ('s, api_revision list) act"
  ep_postRestoreRevision :: "string \<Rightarrow> string \<Rightarrow> string \<Rightarrow> ('s, unit) act"
  ep_deleteRevision :: "string \<Rightarrow> string \<Rightarrow> string \<Rightarrow> ('s, unit) act"
  ep_postCheckAvailableHashes :: "string \<Rightarrow> string \<Rightarrow> string list \<Rightarrow> string list option \<Rightarrow> ('s, string list \<times> pending_hash list) act"
  ep_conflictLinkID :: "details option \<Rightarrow> string option"
  ep_clientUid :: "string option"

section \<open>Listings\<close>

definition API_NODES_BATCH_SIZE :: nat where "API_NODES_BATCH_SIZE = 100"

text \<open>The nodes of the wanted type among the links, and the errors of the links that are none.\<close>

fun nodes_of_links ::
  "string \<Rightarrow> bool \<Rightarrow> string option \<Rightarrow> api_link list \<Rightarrow> encrypted_node list \<times> thrown list"
where
  "nodes_of_links volumeId own nodeType [] = ([], [])"
| "nodes_of_links volumeId own nodeType (link # links) =
     (case nodes_of_links volumeId own nodeType links of (nodes, errors) \<Rightarrow>
        case linkToEncryptedNode volumeId link own of
          Inl error \<Rightarrow> (nodes, error # errors)
        | Inr None \<Rightarrow> (nodes, errors)
        | Inr (Some node) \<Rightarrow>
            if present nodeType \<noteq> None \<and> string_field ''type'' (fst node) \<noteq> nodeType then (nodes, errors)
            else (node # nodes, errors))"

fun batches_nodes ::
  "'s node_endpoints \<Rightarrow> string \<Rightarrow> bool \<Rightarrow> string option \<Rightarrow> string list list
     \<Rightarrow> 's \<Rightarrow> encrypted_node list \<times> (thrown + thrown list) \<times> 's"
where
  "batches_nodes ep volumeId own nodeType [] s = ([], Inr [], s)"
| "batches_nodes ep volumeId own nodeType (ids # idss) s =
     (case ep_postLinks ep volumeId ids s of
        (Inl error, s1) \<Rightarrow> ([], Inl error, s1)
      | (Inr links, s1) \<Rightarrow>
          (case (nodes_of_links volumeId own nodeType links, batches_nodes ep volumeId own nodeType idss s1) of
             ((nodes, errors), (nodes', result, s2)) \<Rightarrow> (nodes @ nodes', map_sum id ((@) errors) result, s2)))"

definition iterateNodesPerVolume where
  "iterateNodesPerVolume ep volumeId nodeIds own nodeType =
     batches_nodes ep volumeId own nodeType (batches_from nodeIds API_NODES_BATCH_SIZE 0)"

text \<open>The IDs by volume, volumes and IDs in the order they come.\<close>

definition by_volume :: "(string \<times> 'a) list \<Rightarrow> (string \<times> 'a list) list" where
  "by_volume pairs = map (\<lambda>v. (v, map snd (filter (\<lambda>p. fst p = v) pairs))) (set_of (map fst pairs))"

fun volumes_nodes ::
  "'s node_endpoints \<Rightarrow> string option \<Rightarrow> string option \<Rightarrow> (string \<times> string list) list
     \<Rightarrow> 's \<Rightarrow> encrypted_node list \<times> (thrown + thrown list) \<times> 's"
where
  "volumes_nodes ep ownVolumeId nodeType [] s = ([], Inr [], s)"
| "volumes_nodes ep ownVolumeId nodeType ((volumeId, nodeIds) # volumes) s =
     (case iterateNodesPerVolume ep volumeId nodeIds (Some volumeId = ownVolumeId) nodeType s of
        (nodes, Inl error, s1) \<Rightarrow> (nodes, Inl error, s1)
      | (nodes, Inr errors, s1) \<Rightarrow>
          (case volumes_nodes ep ownVolumeId nodeType volumes s1 of
             (nodes', result, s2) \<Rightarrow> (nodes @ nodes', map_sum id ((@) errors) result, s2)))"

definition api_iterateNodes ::
  "'s node_endpoints \<Rightarrow> string list \<Rightarrow> string option \<Rightarrow> string option \<Rightarrow> ('s, encrypted_node) gen"
where
  "api_iterateNodes ep nodeUids ownVolumeId nodeType s =
     (case try_map splitNodeUid nodeUids of
        Inl error \<Rightarrow> ([], Some error, s)
      | Inr allNodeIds \<Rightarrow>
          (case volumes_nodes ep ownVolumeId nodeType (by_volume allNodeIds) s of
             (nodes, Inl error, s') \<Rightarrow> (nodes, Some error, s')
           | (nodes, Inr errors, s') \<Rightarrow>
               (nodes, if errors = [] then None else Some (throw_new ProtonDriveError ''Failed to load some nodes''), s')))"

definition api_getNode :: "'s node_endpoints \<Rightarrow> string \<Rightarrow> string option \<Rightarrow> ('s, encrypted_node) act" where
  "api_getNode ep nodeUid ownVolumeId s =
     (case api_iterateNodes ep [nodeUid] ownVolumeId None s of
        (node # _, _, s') \<Rightarrow> (Inr node, s')
      | ([], Some error, s') \<Rightarrow> (Inl error, s')
      | ([], None, s') \<Rightarrow> (Inl (throw_new ValidationError ''Node not found''), s'))"

text \<open>The pages of a folder, \<open>None\<close> for a listing that has not ended within the fuel.\<close>

fun children_pages where
  "children_pages ep volumeId nodeId onlyFolders 0 anchor s = None"
| "children_pages ep volumeId nodeId onlyFolders (Suc fuel) anchor s =
     (case ep_getChildren ep volumeId nodeId onlyFolders anchor s of
        (Inl error, s') \<Rightarrow> Some ([], Some error, s')
      | (Inr page, s') \<Rightarrow>
          (let uids = map (makeNodeUid volumeId) (cp_LinkIDs page) in
           case (cp_More page, present (cp_AnchorID page)) of
             (True, Some next_anchor) \<Rightarrow>
               map_option (\<lambda>(rest, e, s''). (uids @ rest, e, s''))
                 (children_pages ep volumeId nodeId onlyFolders fuel next_anchor s')
           | _ \<Rightarrow> Some (uids, None, s')))"

definition iterateChildrenNodeUids where
  "iterateChildrenNodeUids ep fuel parentNodeUid onlyFolders s =
     (case splitNodeUid parentNodeUid of
        Inl error \<Rightarrow> Some ([], Some error, s)
      | Inr (volumeId, nodeId) \<Rightarrow> children_pages ep volumeId nodeId onlyFolders fuel '''' s)"

fun trash_pages where
  "trash_pages ep volumeId 0 page s = None"
| "trash_pages ep volumeId (Suc fuel) page s =
     (case ep_getTrash ep volumeId page s of
        (Inl error, s') \<Rightarrow> Some ([], Some error, s')
      | (Inr trash, s') \<Rightarrow>
          (let uids = map (makeNodeUid volumeId) (concat trash) in
           if uids = [] then Some ([], None, s')
           else map_option (\<lambda>(rest, e, s''). (uids @ rest, e, s'')) (trash_pages ep volumeId fuel (Suc page) s')))"

definition iterateTrashedNodeUids where
  "iterateTrashedNodeUids ep fuel volumeId = trash_pages ep volumeId fuel 0"

section \<open>Mutations\<close>

text \<open>What the server reports of a node of the same name.\<close>

definition same_name_error :: "'s node_endpoints \<Rightarrow> string \<Rightarrow> thrown \<Rightarrow> thrown" where
  "same_name_error ep volumeId error =
     (case error of
        ThrownError e \<Rightarrow>
          if instanceof error ValidationError \<and> err_code e = Some (CodeNum (code_number ALREADY_EXISTS))
          then ThrownError (Js_Error NodeWithSameNameExistsValidationError
                 (class_name NodeWithSameNameExistsValidationError) (err_message e) (err_code e) None
                 (Some (NodeExistsFields
                   (map_option (makeNodeUid volumeId) (present (ep_conflictLinkID ep (err_details e)))) False)) None)
          else error
      | ThrownValue _ \<Rightarrow> error)"

text \<open>The cause of the new error is passed as its details, which is where the constructor puts it.\<close>

definition out_of_sync_error :: "thrown \<Rightarrow> thrown" where
  "out_of_sync_error error =
     (case error of
        ThrownError e \<Rightarrow>
          if instanceof error InvalidRequirementsAPIError
          then ThrownError (Js_Error NodeOutOfSyncError (class_name NodeOutOfSyncError) (err_message e) (err_code e) None
                 (Some (DetailsObject ''cause'')) None)
          else error
      | ThrownValue _ \<Rightarrow> error)"

definition api_renameNode ::
  "'s node_endpoints \<Rightarrow> string \<Rightarrow> string option \<Rightarrow> string \<Rightarrow> string option \<Rightarrow> string option \<Rightarrow> ('s, unit) act"
where
  "api_renameNode ep nodeUid originalHash encryptedName nameSignatureEmail hash =
     await (of_result (splitNodeUid nodeUid)) (\<lambda>(volumeId, nodeId).
       catch (ep_putRename ep volumeId nodeId
                \<lparr>rr_Name = encryptedName, rr_NameSignatureEmail = nameSignatureEmail, rr_Hash = hash,
                 rr_OriginalHash = present originalHash\<rparr>)
         (\<lambda>error. throw_act (out_of_sync_error error)))"

record new_parent =
  np_parentUid :: string
  np_armoredNodePassphrase :: string
  np_armoredNodePassphraseSignature :: "string option"
  np_signatureEmail :: "string option option"
  np_encryptedName :: string
  np_nameSignatureEmail :: "string option"
  np_hash :: string

definition api_moveNode :: "'s node_endpoints \<Rightarrow> string \<Rightarrow> string \<Rightarrow> new_parent \<Rightarrow> ('s, unit) act" where
  "api_moveNode ep nodeUid oldHash newNode =
     await (of_result (splitNodeUid nodeUid)) (\<lambda>(volumeId, nodeId).
     await (of_result (splitNodeUid (np_parentUid newNode))) (\<lambda>(_, newParentNodeId).
       catch (ep_putMove ep volumeId nodeId
                \<lparr>pr_ParentLinkID = newParentNodeId, pr_NodePassphrase = np_armoredNodePassphrase newNode,
                 pr_NodePassphraseSignature = np_armoredNodePassphraseSignature newNode,
                 pr_SignatureEmail = np_signatureEmail newNode, pr_Name = np_encryptedName newNode,
                 pr_NameSignatureEmail = Some (np_nameSignatureEmail newNode), pr_Hash = np_hash newNode,
                 mr_OriginalHash = oldHash, mr_ContentHash = None\<rparr>)
         (\<lambda>error. throw_act (same_name_error ep volumeId error))))"

definition api_copyNode :: "'s node_endpoints \<Rightarrow> string \<Rightarrow> new_parent \<Rightarrow> ('s, string) act" where
  "api_copyNode ep nodeUid newNode =
     await (of_result (splitNodeUid nodeUid)) (\<lambda>(volumeId, nodeId).
     await (of_result (splitNodeUid (np_parentUid newNode))) (\<lambda>(parentVolumeId, parentNodeId).
     await (catch (ep_postCopy ep volumeId nodeId parentVolumeId
                \<lparr>pr_ParentLinkID = parentNodeId, pr_NodePassphrase = np_armoredNodePassphrase newNode,
                 pr_NodePassphraseSignature = np_armoredNodePassphraseSignature newNode,
                 pr_SignatureEmail = np_signatureEmail newNode, pr_Name = np_encryptedName newNode,
                 pr_NameSignatureEmail = Some (np_nameSignatureEmail newNode), pr_Hash = np_hash newNode\<rparr>)
              (\<lambda>error. throw_act (same_name_error ep volumeId error)))
       (\<lambda>linkId. give (makeNodeUid volumeId linkId))))"

definition api_emptyTrash :: "'s node_endpoints \<Rightarrow> string \<Rightarrow> ('s, unit) act" where
  "api_emptyTrash ep volumeId = ep_deleteTrash ep volumeId"

record new_folder =
  nf_armoredKey :: string
  nf_armoredHashKey :: string
  nf_armoredNodePassphrase :: string
  nf_armoredNodePassphraseSignature :: string
  nf_signatureEmail :: "string option"
  nf_encryptedName :: string
  nf_hash :: string
  nf_armoredExtendedAttributes :: "string option"

definition api_createFolder :: "'s node_endpoints \<Rightarrow> string \<Rightarrow> new_folder \<Rightarrow> ('s, string) act" where
  "api_createFolder ep parentUid newNode =
     await (of_result (splitNodeUid parentUid)) (\<lambda>(volumeId, parentId).
     await (catch (ep_postFolder ep volumeId
                \<lparr>fr_ParentLinkID = parentId, fr_NodeKey = nf_armoredKey newNode, fr_NodeHashKey = nf_armoredHashKey newNode,
                 fr_NodePassphrase = nf_armoredNodePassphrase newNode,
                 fr_NodePassphraseSignature = nf_armoredNodePassphraseSignature newNode,
                 fr_SignatureEmail = nf_signatureEmail newNode, fr_Name = nf_encryptedName newNode,
                 fr_Hash = nf_hash newNode, fr_XAttr = nf_armoredExtendedAttributes newNode\<rparr>)
              (\<lambda>error. throw_act (same_name_error ep volumeId error)))
       (\<lambda>folderId. give (makeNodeUid volumeId folderId)))"

section \<open>Bulk requests\<close>

datatype bulk_result = bulk_ok: BulkOk (bulk_uid: string) | BulkFailed (bulk_uid: string) (bulk_error: string)

text \<open>The IDs and UIDs of one request.\<close>

definition groupNodeUidsByVolumeAndIteratePerBatch ::
  "string list \<Rightarrow> thrown + (string \<times> (string \<times> string) list) list"
where
  "groupNodeUidsByVolumeAndIteratePerBatch nodeUids =
     try_bind (try_map (\<lambda>nodeUid. try_bind (splitNodeUid nodeUid) (\<lambda>(volumeId, nodeId). Inr (volumeId, nodeId, nodeUid)))
                 nodeUids) (\<lambda>allNodeIds.
       Inr (concat (map (\<lambda>(volumeId, nodeIds). map (Pair volumeId) (batches_from nodeIds API_NODES_BATCH_SIZE 0))
              (by_volume allNodeIds))))"

definition response_is_error :: "link_response \<Rightarrow> bool" where
  "response_is_error r \<longleftrightarrow>
     (case lr_Code r of None \<Rightarrow> True | Some code \<Rightarrow> code = 0 \<or> \<not> isCodeOk code) \<or> present (lr_Error r) \<noteq> None"

definition handleResponseErrors :: "string list \<Rightarrow> string \<Rightarrow> link_response list \<Rightarrow> bulk_result list" where
  "handleResponseErrors nodeUids volumeId responses =
     (let errors = map_of (rev (map (\<lambda>r. (makeNodeUid volumeId (lr_LinkID r),
                                  case present (lr_Error r) of Some m \<Rightarrow> m | None \<Rightarrow> ''Unknown error''))
                            (filter response_is_error responses)))
      in map (\<lambda>uid. case errors uid of Some error \<Rightarrow> BulkFailed uid error | None \<Rightarrow> BulkOk uid) nodeUids)"

fun bulk_batches ::
  "(string \<Rightarrow> string list \<Rightarrow> ('s, link_response list) act) \<Rightarrow> (string \<times> (string \<times> string) list) list \<Rightarrow> ('s, bulk_result) gen"
where
  "bulk_batches request [] = yields []"
| "bulk_batches request ((volumeId, nodeIds) # rest) =
     followed_by (gen_await (request volumeId (map fst nodeIds)) (\<lambda>responses.
                    yields (handleResponseErrors (map snd nodeIds) volumeId responses)))
       (bulk_batches request rest)"

definition bulk_request ::
  "(string \<Rightarrow> string list \<Rightarrow> ('s, link_response list) act) \<Rightarrow> string list \<Rightarrow> ('s, bulk_result) gen"
where
  "bulk_request request nodeUids =
     gen_await (of_result (groupNodeUidsByVolumeAndIteratePerBatch nodeUids)) (bulk_batches request)"

definition api_trashNodes :: "'s node_endpoints \<Rightarrow> string list \<Rightarrow> ('s, bulk_result) gen" where
  "api_trashNodes ep = bulk_request (ep_postTrashMultiple ep)"

definition api_restoreNodes :: "'s node_endpoints \<Rightarrow> string list \<Rightarrow> ('s, bulk_result) gen" where
  "api_restoreNodes ep = bulk_request (ep_putRestoreMultiple ep)"

definition api_deleteTrashedNodes :: "'s node_endpoints \<Rightarrow> string list \<Rightarrow> ('s, bulk_result) gen" where
  "api_deleteTrashedNodes ep = bulk_request (ep_postDeleteMultiple ep)"

definition deleteMyNodes :: "'s node_endpoints \<Rightarrow> string list \<Rightarrow> ('s, bulk_result) gen" where
  "deleteMyNodes ep = bulk_request (ep_postRemoveMine ep)"

section \<open>Revisions and names\<close>

definition api_getRevision :: "'s node_endpoints \<Rightarrow> string \<Rightarrow> ('s, encrypted_revision) act" where
  "api_getRevision ep nodeRevisionUid =
     await (of_result (splitNodeRevisionUid nodeRevisionUid)) (\<lambda>(volumeId, nodeId, revisionId).
     await (ep_getRevision ep volumeId nodeId revisionId) (\<lambda>revision.
       give (transformRevisionResponse volumeId nodeId revision)))"

definition api_getRevisions :: "'s node_endpoints \<Rightarrow> string \<Rightarrow> ('s, encrypted_revision list) act" where
  "api_getRevisions ep nodeUid =
     await (of_result (splitNodeUid nodeUid)) (\<lambda>(volumeId, nodeId).
     await (ep_getRevisions ep volumeId nodeId) (\<lambda>revisions.
       give (map (transformRevisionResponse volumeId nodeId)
               (filter (\<lambda>r. av_State r = 1 \<or> av_State r = 2) revisions))))"

definition api_restoreRevision :: "'s node_endpoints \<Rightarrow> string \<Rightarrow> ('s, unit) act" where
  "api_restoreRevision ep nodeRevisionUid =
     await (of_result (splitNodeRevisionUid nodeRevisionUid)) (\<lambda>(volumeId, nodeId, revisionId).
       ep_postRestoreRevision ep volumeId nodeId revisionId)"

definition api_deleteRevision :: "'s node_endpoints \<Rightarrow> string \<Rightarrow> ('s, unit) act" where
  "api_deleteRevision ep nodeRevisionUid =
     await (of_result (splitNodeRevisionUid nodeRevisionUid)) (\<lambda>(volumeId, nodeId, revisionId).
       ep_deleteRevision ep volumeId nodeId revisionId)"

record pending_upload =
  pu_hash :: string
  pu_nodeUid :: string
  pu_revisionUid :: string
  pu_clientUid :: "string option"

definition checkAvailableHashes ::
  "'s node_endpoints \<Rightarrow> string \<Rightarrow> string list \<Rightarrow> ('s, string list \<times> pending_upload list) act"
where
  "checkAvailableHashes ep parentNodeUid hashes =
     await (of_result (splitNodeUid parentNodeUid)) (\<lambda>(volumeId, parentNodeId).
     await (ep_postCheckAvailableHashes ep volumeId parentNodeId hashes (map_option (\<lambda>c. [c]) (present (ep_clientUid ep))))
       (\<lambda>(availableHashes, pendingHashes).
       give (availableHashes,
             map (\<lambda>h. \<lparr>pu_hash = ph_Hash h, pu_nodeUid = makeNodeUid volumeId (ph_LinkID h),
                        pu_revisionUid = makeNodeRevisionUid volumeId (ph_LinkID h) (ph_RevisionID h),
                        pu_clientUid = present (ph_ClientUID h)\<rparr>) pendingHashes)))"

end
