(* ===== verification/NodesCrypto.thy ===== *)
theory NodesCrypto
  imports DriveCrypto NodesApi NodeParsing
begin

text \<open>
  \<open>NodesCryptoService\<close> of \<^verbatim>\<open>internal/nodes/cryptoService.ts\<close> and the authors of \<^verbatim>\<open>cryptoReporter.ts\<close>:
  decrypting a node with the key of its parent, and encrypting names and passphrases for a new node, a new name
  or a new parent. It calls \<open>DriveCrypto\<close>; the account and the shares are parameters. What is reported to the
  telemetry is left out, and so are log lines.

  What the account answers does not change between the calls of one decryption; promises that
  are started early are run where their result is used.
\<close>

section \<open>Services and keys\<close>

text \<open>\<open>cs_localDate\<close> is the time of a date's midnight in the local time zone.\<close>

record ('s, 'k, 'sk) crypto_services =
  cs_openpgp :: "('s, 'k, 'sk) openpgp"
  cs_getPublicKeys :: "string \<Rightarrow> thrown + 'k list"
  cs_getOwnVolumeId :: "thrown + string"
  cs_getOwnKeys :: "thrown + 'k list"
  cs_localDate :: "nat \<Rightarrow> nat \<Rightarrow> nat \<Rightarrow> int"
  cs_allowFallback :: bool

record ('k, 'sk) node_keys =
  ky_passphrase :: string
  ky_key :: 'k
  ky_passphraseSessionKey :: 'sk
  ky_contentKeyPacket :: "bytes option"
  ky_contentKeyPacketSessionKey :: "'sk option"
  ky_hashKey :: "bytes option"

definition js_thrown :: "thrown \<Rightarrow> jsval" where
  "js_thrown error = (case error of ThrownError e \<Rightarrow> JError (err_message e) | ThrownValue v \<Rightarrow> JStr v)"

definition before :: "jsval \<Rightarrow> int \<Rightarrow> bool" where
  "before v t = (case date_value v of Some d \<Rightarrow> d < t | None \<Rightarrow> False)"

definition after :: "jsval \<Rightarrow> int \<Rightarrow> bool" where
  "after v t = (case date_value v of Some d \<Rightarrow> d > t | None \<Rightarrow> False)"

section \<open>Authors\<close>

definition handleClaimedAuthor ::
  "string \<Rightarrow> verification_status \<Rightarrow> js_error list option \<Rightarrow> string option \<Rightarrow> bool \<Rightarrow> jsval"
where
  "handleClaimedAuthor signatureType verified verificationErrors claimedAuthor notAvailableVerificationKeys =
     (if present claimedAuthor = None \<and> notAvailableVerificationKeys then resultOk JNull
      else if verified = SIGNED_AND_VALID
      then resultOk (case present claimedAuthor of Some email \<Rightarrow> JStr email | None \<Rightarrow> JNull)
      else resultError (JObj
        [(''claimedAuthor'', js_string_or_undefined claimedAuthor),
         (''error'', JStr (getVerificationMessage verified verificationErrors (Some signatureType)
                             notAvailableVerificationKeys))]))"

definition getClaimedAuthor :: "string option \<Rightarrow> bool \<Rightarrow> jsval" where
  "getClaimedAuthor claimedAuthor notAvailableVerificationKeys =
     (if present claimedAuthor = None \<and> notAvailableVerificationKeys then JNull
      else js_string_or_undefined claimedAuthor)"

section \<open>Decrypting the parts of a node\<close>

definition decryptKey where
  "decryptKey svc crypto parentKey verificationKeys =
     try_bind (dc_decryptKey (cs_openpgp svc) (ec_armoredKey crypto) (ec_armoredNodePassphrase crypto)
                 (ec_armoredNodePassphraseSignature crypto) [parentKey] verificationKeys) (\<lambda>(key, verified, errors).
       Inr (key, handleClaimedAuthor ''key'' verified errors (ec_signatureEmail crypto) (verificationKeys = [])))"

definition unsigned_before :: "jsval \<Rightarrow> int \<Rightarrow> verification_status \<Rightarrow> verification_status" where
  "unsigned_before creationTime t verified =
     (if verified = NOT_SIGNED \<and> before creationTime t then SIGNED_AND_VALID else verified)"

text \<open>The name, or the error it could not be decrypted with, and its author.\<close>

definition decryptName where
  "decryptName svc node crypto parentKey verificationKeys =
     (case decryptNodeName (cs_openpgp svc) (case string_field ''encryptedName'' node of Some t \<Rightarrow> t | None \<Rightarrow> '''')
             parentKey verificationKeys of
        Inr (name, verified, errors) \<Rightarrow>
          (resultOk (JStr name),
           handleClaimedAuthor ''name'' (unsigned_before (js_opt ''creationTime'' node) (cs_localDate svc 2021 0 1) verified)
             errors (ec_nameSignatureEmail crypto) (verificationKeys = []))
      | Inl error \<Rightarrow>
          (resultError (JError (getErrorMessage error)),
           author_error (getClaimedAuthor (ec_nameSignatureEmail crypto) (verificationKeys = [])) (getErrorMessage error)))"

definition getNameSessionKey :: "('s, 'k, 'sk) crypto_services \<Rightarrow> string \<Rightarrow> 'k \<Rightarrow> thrown + 'sk" where
  "getNameSessionKey svc encryptedName parentKey = dc_decryptSessionKey (cs_openpgp svc) encryptedName [parentKey]"

definition decryptMembership where
  "decryptMembership svc node crypto =
     (let membership = js_opt ''membership'' node in
      if \<not> js_truthy membership then JUndefined
      else JObj [(''role'', js_opt ''role'' membership), (''inviteTime'', js_opt ''inviteTime'' membership),
        (''sharedBy'',
         case ec_membership crypto of
           None \<Rightarrow> resultError (JObj [(''error'', JStr ''Missing inviter email'')])
         | Some m \<Rightarrow>
             (let keys = (case cs_getPublicKeys svc (mc_inviterEmail m) of Inr ks \<Rightarrow> ks | Inl _ \<Rightarrow> []) in
              case verifyInvitation (cs_openpgp svc) (mc_base64MemberSharePassphraseKeyPacket m)
                     (mc_armoredInviterSharePassphraseKeyPacketSignature m) keys of
                Inr (verified, errors) \<Rightarrow>
                  handleClaimedAuthor ''membership'' verified errors (Some (mc_inviterEmail m)) False
              | Inl _ \<Rightarrow> author_error (JStr (mc_inviterEmail m)) ''Failed to verify invitation''))])"

definition decryptHashKey where
  "decryptHashKey svc node crypto armoredHashKey nodeKey addressKeys =
     try_bind (decryptNodeHashKey (cs_openpgp svc) armoredHashKey nodeKey addressKeys) (\<lambda>(hashKey, verified, errors).
       Inr (hashKey,
            handleClaimedAuthor ''hash key''
              (unsigned_before (js_opt ''creationTime'' node) (cs_localDate svc 2021 7 1) verified)
              errors (ec_signatureEmail crypto) False))"

definition decryptExtendedAttributes where
  "decryptExtendedAttributes svc encryptedExtendedAttributes nodeKey addressKeys signatureEmail =
     (case present encryptedExtendedAttributes of
        None \<Rightarrow> Inr (JUndefined, resultOk (js_string_or_undefined signatureEmail))
      | Some armored \<Rightarrow>
          try_bind (dc_decryptExtendedAttributes (cs_openpgp svc) armored nodeKey addressKeys)
            (\<lambda>(extendedAttributes, verified, errors).
              Inr (JStr extendedAttributes, handleClaimedAuthor ''attributes'' verified errors signatureEmail False)))"

fun revision_state_text :: "revision_state \<Rightarrow> string" where
  "revision_state_text Active = ''active''"
| "revision_state_text Superseded = ''superseded''"

definition decryptRevision where
  "decryptRevision svc revision nodeKey =
     try_bind (case present (er_signatureEmail revision) of
                 Some email \<Rightarrow> cs_getPublicKeys svc email | None \<Rightarrow> Inr [nodeKey]) (\<lambda>verificationKeys.
     try_bind (decryptExtendedAttributes svc (er_armoredExtendedAttributes revision) nodeKey verificationKeys
                 (er_signatureEmail revision)) (\<lambda>(extendedAttributes, contentAuthor).
       Inr (JObj [(''uid'', JStr (er_uid revision)), (''state'', JStr (revision_state_text (er_state revision))),
                  (''creationTime'', JDate (er_creationTime revision)), (''storageSize'', JNum (er_storageSize revision)),
                  (''contentAuthor'', contentAuthor), (''extendedAttributes'', extendedAttributes),
                  (''thumbnails'', JArr (map (\<lambda>(uid, n). JObj [(''uid'', JStr uid), (''type'', JNum n)]) (er_thumbnails revision))),
                  (''sha1Verified'', js_of JBool (er_sha1Verified revision))])))"

text \<open>The verification by all keys of the own addresses is tried for old files of the own volume.\<close>

definition decryptContentKeyPacket where
  "decryptContentKeyPacket svc node base64ContentKeyPacket armoredSignature key keyVerificationKeys =
     try_bind (decryptAndVerifySessionKey (cs_openpgp svc) base64ContentKeyPacket armoredSignature [key]
                 (key # keyVerificationKeys)) (\<lambda>result.
       if map_option fst (snd result) \<noteq> Some SIGNED_AND_INVALID \<or> after (js_opt ''creationTime'' node) (cs_localDate svc 2023 0 1)
       then Inr result
       else if \<not> cs_allowFallback svc then Inr result
       else try_bind (cs_getOwnVolumeId svc) (\<lambda>ownVolumeId.
            try_bind (splitNodeUid (node_uid node)) (\<lambda>(nodesVolumeId, _).
              if ownVolumeId \<noteq> nodesVolumeId then Inr result
              else try_bind (cs_getOwnKeys svc) (\<lambda>allKeys.
                   try_bind (decryptAndVerifySessionKey (cs_openpgp svc) base64ContentKeyPacket armoredSignature [key]
                               allKeys) (\<lambda>resultWithAllKeys.
                     Inr (if map_option fst (snd resultWithAllKeys) = Some SIGNED_AND_VALID then resultWithAllKeys
                          else result))))))"

section \<open>Decrypting a node\<close>

text \<open>What the parts of a folder and of a file give: keys, authors, the part of the node, and the errors.\<close>

record 'sk node_parts =
  pt_hashKey :: "bytes option"
  pt_contentKeyPacket :: "bytes option"
  pt_contentKeyPacketSessionKey :: "'sk option"
  pt_authors :: "jsval list"
  pt_activeRevision :: jsval
  pt_folder :: jsval
  pt_errors :: "thrown list"

definition folder_parts where
  "folder_parts svc node crypto armoredExtendedAttributes armoredHashKey key signatureEmailKeys =
     (let hashKey = decryptHashKey svc node crypto armoredHashKey key signatureEmailKeys;
          attributes = decryptExtendedAttributes svc armoredExtendedAttributes key
            (if present (ec_signatureEmail crypto) \<noteq> None then signatureEmailKeys else [key]) (ec_signatureEmail crypto)
      in \<lparr>pt_hashKey = (case hashKey of Inr (k, _) \<Rightarrow> Some k | Inl _ \<Rightarrow> None),
          pt_contentKeyPacket = None, pt_contentKeyPacketSessionKey = None,
          pt_authors = (case hashKey of Inr (_, a) \<Rightarrow> [a] | Inl _ \<Rightarrow> [])
            @ (case attributes of Inr (_, a) \<Rightarrow> [a] | Inl _ \<Rightarrow> []),
          pt_activeRevision = JUndefined,
          pt_folder = (case attributes of Inr (x, _) \<Rightarrow> JObj [(''extendedAttributes'', x)] | Inl _ \<Rightarrow> JUndefined),
          pt_errors = (case hashKey of Inr _ \<Rightarrow> [] | Inl e \<Rightarrow> [e]) @ (case attributes of Inr _ \<Rightarrow> [] | Inl e \<Rightarrow> [e])\<rparr>)"

definition file_parts where
  "file_parts svc node crypto base64ContentKeyPacket armoredSignature revision key keyVerificationKeys =
     try_bind (fromBase64 base64ContentKeyPacket) (\<lambda>contentKeyPacket.
       let contentKey = decryptContentKeyPacket svc node base64ContentKeyPacket armoredSignature key keyVerificationKeys
       in Inr \<lparr>pt_hashKey = None, pt_contentKeyPacket = Some contentKeyPacket,
            pt_contentKeyPacketSessionKey = (case contentKey of Inr (sessionKey, _) \<Rightarrow> Some sessionKey | Inl _ \<Rightarrow> None),
            pt_authors =
              (case contentKey of
                 Inr (_, Some (verified, errors)) \<Rightarrow>
                   [handleClaimedAuthor ''content key'' verified errors (ec_signatureEmail crypto) False]
               | Inr (_, None) \<Rightarrow> []
               | Inl e \<Rightarrow> [author_error (js_string_or_undefined (ec_signatureEmail crypto))
                             (''Failed to decrypt content key: '' @ getErrorMessage e)]),
            pt_activeRevision =
              (case decryptRevision svc revision key of
                 Inr r \<Rightarrow> resultOk r
               | Inl e \<Rightarrow> resultError (JError (''Failed to decrypt active revision: '' @ getErrorMessage e))),
            pt_folder = JUndefined,
            pt_errors = (case contentKey of Inr _ \<Rightarrow> [] | Inl e \<Rightarrow> [e])\<rparr>)"

definition parts_of where
  "parts_of svc node crypto key signatureEmailKeys keyVerificationKeys =
     (case ec_kind crypto of
        FolderCrypto armoredExtendedAttributes armoredHashKey \<Rightarrow>
          Inr (folder_parts svc node crypto armoredExtendedAttributes armoredHashKey key signatureEmailKeys)
      | FileCrypto base64ContentKeyPacket armoredSignature revision \<Rightarrow>
          file_parts svc node crypto base64ContentKeyPacket armoredSignature revision key keyVerificationKeys
      | AlbumCrypto \<Rightarrow>
          Inr \<lparr>pt_hashKey = None, pt_contentKeyPacket = None, pt_contentKeyPacketSessionKey = None, pt_authors = [],
               pt_activeRevision = JUndefined, pt_folder = JUndefined, pt_errors = []\<rparr>)"

definition is_file :: "encrypted_crypto \<Rightarrow> bool" where
  "is_file crypto \<longleftrightarrow> (case ec_kind crypto of FileCrypto _ _ _ \<Rightarrow> True | _ \<Rightarrow> False)"

text \<open>The first author that could not be verified, or the author of the key.\<close>

definition final_author :: "jsval \<Rightarrow> jsval list \<Rightarrow> jsval" where
  "final_author keyAuthor authors =
     (case filter (\<lambda>a. \<not> is_ok a) (keyAuthor # authors) of a # _ \<Rightarrow> a | [] \<Rightarrow> keyAuthor)"

definition unparsed_node where
  "unparsed_node node name keyAuthor nameAuthor membership activeRevision folder errors =
     JObj (js_with (js_spread node)
       [(''encryptedCrypto'', JUndefined), (''name'', name), (''keyAuthor'', keyAuthor), (''nameAuthor'', nameAuthor),
        (''membership'', membership), (''activeRevision'', activeRevision), (''folder'', folder),
        (''errors'', if errors = [] then JUndefined else JArr (map js_thrown errors))])"

definition keys_of_email where
  "keys_of_email svc email others =
     (case present email of Some e \<Rightarrow> cs_getPublicKeys svc e | None \<Rightarrow> Inr others)"

definition decrypted_node where
  "decrypted_node svc node crypto parentKey signatureEmailKeys keyVerificationKeys nameVerificationKeys =
     (let (name, nameAuthor) = decryptName svc node crypto parentKey nameVerificationKeys;
          membership = decryptMembership svc node crypto
      in case decryptKey svc crypto parentKey keyVerificationKeys of
           Inl error \<Rightarrow>
             (let message = ''Failed to decrypt node key: '' @ getErrorMessage error in
              Inr (unparsed_node node name
                     (author_error (getClaimedAuthor (ec_signatureEmail crypto) (keyVerificationKeys = [])) message)
                     nameAuthor membership (if is_file crypto then resultError (JError message) else JUndefined)
                     JUndefined [error],
                   None))
         | Inr (key, keyAuthor) \<Rightarrow>
             try_bind (parts_of svc node crypto (ok_key key) signatureEmailKeys keyVerificationKeys) (\<lambda>parts.
               Inr (unparsed_node node name (final_author keyAuthor (pt_authors parts)) nameAuthor membership
                      (pt_activeRevision parts) (pt_folder parts) (pt_errors parts),
                    Some \<lparr>ky_passphrase = ok_passphrase key, ky_key = ok_key key,
                      ky_passphraseSessionKey = ok_passphraseSessionKey key,
                      ky_contentKeyPacket = pt_contentKeyPacket parts,
                      ky_contentKeyPacketSessionKey = pt_contentKeyPacketSessionKey parts,
                      ky_hashKey = pt_hashKey parts\<rparr>)))"

definition crypto_decryptNode ::
  "('s, 'k, 'sk) crypto_services \<Rightarrow> encrypted_node \<Rightarrow> 'k \<Rightarrow> thrown + jsval \<times> ('k, 'sk) node_keys option"
where
  "crypto_decryptNode svc encryptedNode parentKey =
     (case encryptedNode of (node, crypto) \<Rightarrow>
        let nodeParentKeys = (if present (string_field ''parentUid'' node) \<noteq> None then [parentKey] else []) in
        try_bind (keys_of_email svc (ec_signatureEmail crypto) []) (\<lambda>signatureEmailKeys.
          let keyVerificationKeys =
                (if present (ec_signatureEmail crypto) \<noteq> None then signatureEmailKeys else nodeParentKeys)
          in try_bind (if ec_nameSignatureEmail crypto = ec_signatureEmail crypto then Inr keyVerificationKeys
                       else keys_of_email svc (ec_nameSignatureEmail crypto) nodeParentKeys) (\<lambda>nameVerificationKeys.
               decrypted_node svc node crypto parentKey signatureEmailKeys keyVerificationKeys nameVerificationKeys)))"

section \<open>Encrypting\<close>

record folder_crypto =
  fo_encryptedName :: string
  fo_hash :: string
  fo_armoredKey :: string
  fo_armoredNodePassphrase :: string
  fo_armoredNodePassphraseSignature :: string
  fo_armoredExtendedAttributes :: "string option"
  fo_armoredHashKey :: string
  fo_signatureEmail :: "string option"
  fo_nameSignatureEmail :: "string option"

fun signing_email :: "'k node_signing_keys \<Rightarrow> string option" where
  "signing_email (UserAddress email _ _) = Some email"
| "signing_email (NodeKeys _ _) = None"

fun parent_signing_key :: "'k node_signing_keys \<Rightarrow> 'k option" where
  "parent_signing_key (UserAddress _ _ key) = Some key"
| "parent_signing_key (NodeKeys _ parentNodeKey) = parentNodeKey"

fun node_signing_key :: "'k node_signing_keys \<Rightarrow> 'k option" where
  "node_signing_key (UserAddress _ _ key) = Some key"
| "node_signing_key (NodeKeys nodeKey _) = nodeKey"

definition createFolder_crypto ::
  "('s, 'k, 'sk) crypto_services \<Rightarrow> 'k \<Rightarrow> bytes \<Rightarrow> 'k node_signing_keys \<Rightarrow> string \<Rightarrow> string option
     \<Rightarrow> ('s, folder_crypto \<times> ('k, 'sk) node_keys) act"
where
  "createFolder_crypto svc parentKey parentHashKey signingKeys name extendedAttributes =
     (case parent_signing_key signingKeys of
        None \<Rightarrow> throw_act (throw_new JsError ''Cannot create new node without a name and passphrase signing key'')
      | Some signingKey \<Rightarrow>
          await (dc_generateKey (cs_openpgp svc) [parentKey] signingKey False) (\<lambda>(encrypted, decrypted).
          await (encryptNodeName (cs_openpgp svc) name None (Some parentKey) signingKey) (\<lambda>armoredNodeName.
          await (of_result (generateLookupHash (cs_openpgp svc) name parentHashKey)) (\<lambda>hash.
          await (generateHashKey (cs_openpgp svc) (ok_key decrypted)) (\<lambda>(armoredHashKey, hashKey).
          await (case present extendedAttributes of
                   None \<Rightarrow> give None
                 | Some attributes \<Rightarrow>
                     await (encryptExtendedAttributes (cs_openpgp svc) attributes (ok_key decrypted)
                              (case node_signing_key signingKeys of Some k \<Rightarrow> k | None \<Rightarrow> ok_key decrypted))
                       (\<lambda>armored. give (Some armored))) (\<lambda>armoredExtendedAttributes.
            give (\<lparr>fo_encryptedName = armoredNodeName, fo_hash = hash, fo_armoredKey = nk_armoredKey encrypted,
                   fo_armoredNodePassphrase = nk_armoredPassphrase encrypted,
                   fo_armoredNodePassphraseSignature = nk_armoredPassphraseSignature encrypted,
                   fo_armoredExtendedAttributes = armoredExtendedAttributes, fo_armoredHashKey = armoredHashKey,
                   fo_signatureEmail = signing_email signingKeys, fo_nameSignatureEmail = signing_email signingKeys\<rparr>,
                  \<lparr>ky_passphrase = ok_passphrase decrypted, ky_key = ok_key decrypted,
                   ky_passphraseSessionKey = ok_passphraseSessionKey decrypted, ky_contentKeyPacket = None,
                   ky_contentKeyPacketSessionKey = None, ky_hashKey = Some hashKey\<rparr>)))))))"

definition encryptNewName ::
  "('s, 'k, 'sk) crypto_services \<Rightarrow> 'k \<times> bytes option \<Rightarrow> 'sk \<Rightarrow> 'k node_signing_keys \<Rightarrow> string
     \<Rightarrow> ('s, string option \<times> string \<times> string option) act"
where
  "encryptNewName svc parentKeys nodeNameSessionKey signingKeys newName =
     (case parent_signing_key signingKeys of
        None \<Rightarrow> throw_act (throw_new JsError ''Cannot encrypt new node name without a name signing key'')
      | Some nameSigningKey \<Rightarrow>
          await (encryptNodeName (cs_openpgp svc) newName (Some nodeNameSessionKey) (Some (fst parentKeys)) nameSigningKey)
            (\<lambda>armoredNodeName.
          await (case snd parentKeys of
                   None \<Rightarrow> give None
                 | Some hashKey \<Rightarrow> of_result (map_sum id Some (generateLookupHash (cs_openpgp svc) newName hashKey)))
            (\<lambda>hash. give (signing_email signingKeys, armoredNodeName, hash))))"

record new_parent_crypto =
  nc_encryptedName :: string
  nc_hash :: string
  nc_armoredNodePassphrase :: string
  nc_armoredNodePassphraseSignature :: string
  nc_signatureEmail :: "string option"
  nc_nameSignatureEmail :: "string option"

definition encryptNodeWithNewParent ::
  "('s, 'k, 'sk) crypto_services \<Rightarrow> jsval \<Rightarrow> ('k, 'sk) node_keys \<times> 'sk \<Rightarrow> 'k \<times> bytes \<Rightarrow> 'k node_signing_keys
     \<Rightarrow> ('s, new_parent_crypto) act"
where
  "encryptNodeWithNewParent svc nodeName keys parentKeys signingKeys =
     (case (if is_ok nodeName then string_field ''value'' nodeName else None) of
        None \<Rightarrow> throw_act (throw_new ValidationError
                  ''Cannot move item without a valid name, please rename the item first'')
      | Some name \<Rightarrow>
          (case node_signing_key signingKeys of
             None \<Rightarrow> throw_act (throw_new JsError ''Cannot re-encrypt node without a name and passphrase signing key'')
           | Some signingKey \<Rightarrow>
               await (encryptNodeName (cs_openpgp svc) name (Some (snd keys)) (Some (fst parentKeys)) signingKey) (\<lambda>armoredNodeName.
               await (of_result (generateLookupHash (cs_openpgp svc) name (snd parentKeys))) (\<lambda>hash.
               await (dc_encryptPassphrase (cs_openpgp svc) (ky_passphrase (fst keys)) (ky_passphraseSessionKey (fst keys))
                        [fst parentKeys] signingKey) (\<lambda>(armoredPassphrase, armoredPassphraseSignature).
                 give \<lparr>nc_encryptedName = armoredNodeName, nc_hash = hash, nc_armoredNodePassphrase = armoredPassphrase,
                       nc_armoredNodePassphraseSignature = armoredPassphraseSignature,
                       nc_signatureEmail = signing_email signingKeys, nc_nameSignatureEmail = signing_email signingKeys\<rparr>)))))"

fun generateNameHashes ::
  "('s, 'k, 'sk) crypto_services \<Rightarrow> bytes \<Rightarrow> string list \<Rightarrow> thrown + (string \<times> string) list"
where
  "generateNameHashes svc parentHashKey names =
     try_map (\<lambda>name. try_bind (generateLookupHash (cs_openpgp svc) name parentHashKey) (\<lambda>hash. Inr (name, hash))) names"

end
