(* ===== verification/NodesCryptoProofs.thy ===== *)
theory NodesCryptoProofs
  imports NodesCrypto
begin

text \<open>
  What \<open>NodesCryptoService\<close> promises: a node the API serves is decrypted to one the cache can hold; a folder
  that was created, and a node that was moved or renamed, decrypts with the key of its parent to the name and
  keys it was given.
\<close>

section \<open>Fields\<close>

definition decrypted_fields :: "string set" where
  "decrypted_fields = {''encryptedCrypto'', ''name'', ''keyAuthor'', ''nameAuthor'', ''membership'', ''activeRevision'',
     ''folder'', ''errors''}"

lemma unparsed_fields:
  assumes u: "u = unparsed_node node name keyAuthor nameAuthor membership activeRevision folder errors"
  shows "js_opt ''name'' u = name" "js_opt ''keyAuthor'' u = keyAuthor" "js_opt ''nameAuthor'' u = nameAuthor"
    "js_opt ''membership'' u = membership" "js_opt ''activeRevision'' u = activeRevision" "js_opt ''folder'' u = folder"
    "js_opt ''errors'' u = (if errors = [] then JUndefined else JArr (map js_thrown errors))"
    "js_opt ''encryptedCrypto'' u = JUndefined"
    "node = JObj fs \<Longrightarrow> k \<notin> decrypted_fields \<Longrightarrow> js_opt k u = js_opt k node"
    "node = JObj fs \<Longrightarrow> distinct (map fst fs) \<Longrightarrow> plain_object u"
  unfolding u unparsed_node_def
  by (simp_all add: js_opt_js_with decrypted_fields_def plain_object_def distinct_js_with del: js_opt.simps)

lemma plain_fields: "plain_object node \<Longrightarrow> \<exists>fs. node = JObj fs \<and> distinct (map fst fs)"
  by (simp add: plain_object_def)

lemma is_ok_result [simp]: "is_ok (resultOk v)" "\<not> is_ok (resultError e)"
  by (simp_all add: is_ok_def resultOk_def resultError_def)

lemma result_value [simp]: "js_opt ''value'' (resultOk v) = v" "resultOk v = resultOk w \<longleftrightarrow> v = w"
  by (simp_all add: resultOk_def)

lemma author_ok:
  "present claimed = Some email \<Longrightarrow> handleClaimedAuthor what SIGNED_AND_VALID es claimed na = resultOk (JStr email)"
  "present claimed = None \<Longrightarrow> handleClaimedAuthor what SIGNED_AND_VALID es claimed na = resultOk JNull"
  by (simp_all add: handleClaimedAuthor_def)

lemma final_author_ok: "is_ok a \<Longrightarrow> \<forall>b \<in> set as. is_ok b \<Longrightarrow> final_author a as = a"
  by (simp add: final_author_def filter_empty_conv [THEN iffD2])

lemma present_simps [simp]: "present None = None" "s \<noteq> '''' \<Longrightarrow> present (Some s) = Some s" "present (present s') = present s'"
  by (auto simp: present_def split: list.split option.split)

lemma unsigned_before_valid [simp]: "unsigned_before t d SIGNED_AND_VALID = SIGNED_AND_VALID"
  by (simp add: unsigned_before_def)

section \<open>New folders\<close>

text \<open>
  The keys a node is signed with are known to who reads it: the address's public keys hold the signing
  key, or the keys are the parent's and the node's own.
\<close>

definition signer_known :: "('s, 'k, 'sk) crypto_services \<Rightarrow> 'k node_signing_keys \<Rightarrow> 'k \<Rightarrow> bool" where
  "signer_known svc signing parentKey \<longleftrightarrow>
     (case signing of
        UserAddress email _ key \<Rightarrow> email \<noteq> '''' \<and> (\<exists>ks. cs_getPublicKeys svc email = Inr ks \<and> key \<in> set ks)
      | NodeKeys nodeKey parentNodeKey \<Rightarrow> nodeKey = None \<and> parentNodeKey = Some parentKey)"

definition author_of :: "'k node_signing_keys \<Rightarrow> jsval" where
  "author_of signing = resultOk (case signing_email signing of Some email \<Rightarrow> JStr email | None \<Rightarrow> JNull)"

definition folder_encrypted :: "folder_crypto \<Rightarrow> encrypted_crypto" where
  "folder_encrypted c =
     \<lparr>ec_signatureEmail = fo_signatureEmail c, ec_nameSignatureEmail = fo_nameSignatureEmail c,
      ec_armoredKey = fo_armoredKey c, ec_armoredNodePassphrase = fo_armoredNodePassphrase c,
      ec_armoredNodePassphraseSignature = Some (fo_armoredNodePassphraseSignature c), ec_membership = None,
      ec_kind = FolderCrypto (fo_armoredExtendedAttributes c) (fo_armoredHashKey c)\<rparr>"

text \<open>The keys a signature of the node is verified with.\<close>

lemma known_keys:
  assumes "signer_known svc signing pk"
  obtains ks key where "keys_of_email svc (signing_email signing) [] = Inr ks"
    "parent_signing_key signing = Some key"
    "key \<in> set (if present (signing_email signing) \<noteq> None then ks else [pk])"
    "\<And>own. (case node_signing_key signing of Some k \<Rightarrow> k | None \<Rightarrow> own)
        \<in> set (if present (signing_email signing) \<noteq> None then ks else [own])"
    "present (signing_email signing) = signing_email signing"
  using assms that unfolding signer_known_def
  by (cases signing) (auto simp: keys_of_email_def present_def split: list.splits)

text \<open>The keys of a node whose key was opened.\<close>

definition keys_opened :: "('k, 'sk) opened_key \<Rightarrow> 'sk node_parts \<Rightarrow> ('k, 'sk) node_keys" where
  "keys_opened k parts =
     \<lparr>ky_passphrase = ok_passphrase k, ky_key = ok_key k, ky_passphraseSessionKey = ok_passphraseSessionKey k,
       ky_contentKeyPacket = pt_contentKeyPacket parts,
       ky_contentKeyPacketSessionKey = pt_contentKeyPacketSessionKey parts, ky_hashKey = pt_hashKey parts\<rparr>"

lemma decrypts_parts:
  assumes key: "dc_decryptKey (cs_openpgp svc) (ec_armoredKey crypto) (ec_armoredNodePassphrase crypto)
      (ec_armoredNodePassphraseSignature crypto) [pk] vks = Inr (k, SIGNED_AND_VALID, es)"
    and name: "decryptNodeName (cs_openpgp svc) t pk nks = Inr (plain, SIGNED_AND_VALID, es')"
    and node: "string_field ''encryptedName'' node = Some t"
    and parts: "parts_of svc node crypto (ok_key k) sks vks = Inr parts" "\<forall>a \<in> set (pt_authors parts). is_ok a"
    and email: "present (ec_signatureEmail crypto) = ec_signatureEmail crypto"
      "ec_nameSignatureEmail crypto = ec_signatureEmail crypto"
  shows "decrypted_node svc node crypto pk sks vks nks =
     Inr (unparsed_node node (resultOk (JStr plain))
            (resultOk (case ec_signatureEmail crypto of Some e \<Rightarrow> JStr e | None \<Rightarrow> JNull))
            (resultOk (case ec_signatureEmail crypto of Some e \<Rightarrow> JStr e | None \<Rightarrow> JNull))
            (decryptMembership svc node crypto) (pt_activeRevision parts) (pt_folder parts) (pt_errors parts),
          Some (keys_opened k parts))"
proof -
  have author: "handleClaimedAuthor what SIGNED_AND_VALID errors (ec_signatureEmail crypto) na =
      resultOk (case ec_signatureEmail crypto of Some e \<Rightarrow> JStr e | None \<Rightarrow> JNull)" for what errors na
    using email(1) by (cases "ec_signatureEmail crypto") (simp_all add: author_ok)
  show ?thesis
    using key name node parts email(2)
    by (simp add: decrypted_node_def decryptName_def decryptKey_def author final_author_ok Let_def keys_opened_def)
qed

lemma folder_run:
  assumes "createFolder_crypto svc pk hk signing name attributes s = (Inr (c, keys), s')"
  obtains signer encrypted decrypted s1 s2 s3 where
    "parent_signing_key signing = Some signer"
    "dc_generateKey (cs_openpgp svc) [pk] signer False s = (Inr (encrypted, decrypted), s1)"
    "encryptNodeName (cs_openpgp svc) name None (Some pk) signer s1 = (Inr (fo_encryptedName c), s2)"
    "generateLookupHash (cs_openpgp svc) name hk = Inr (fo_hash c)"
    "generateHashKey (cs_openpgp svc) (ok_key decrypted) s2 = (Inr (fo_armoredHashKey c, the (ky_hashKey keys)), s3)"
    "(case present attributes of
        None \<Rightarrow> fo_armoredExtendedAttributes c = None
      | Some a \<Rightarrow> \<exists>armored s4. fo_armoredExtendedAttributes c = Some armored
          \<and> encryptExtendedAttributes (cs_openpgp svc) a (ok_key decrypted)
              (case node_signing_key signing of Some k \<Rightarrow> k | None \<Rightarrow> ok_key decrypted) s3 = (Inr armored, s4))"
    "fo_armoredKey c = nk_armoredKey encrypted" "fo_armoredNodePassphrase c = nk_armoredPassphrase encrypted"
    "fo_armoredNodePassphraseSignature c = nk_armoredPassphraseSignature encrypted"
    "fo_signatureEmail c = signing_email signing" "fo_nameSignatureEmail c = signing_email signing"
    "ky_passphrase keys = ok_passphrase decrypted" "ky_key keys = ok_key decrypted"
    "ky_passphraseSessionKey keys = ok_passphraseSessionKey decrypted" "ky_contentKeyPacket keys = None"
    "ky_contentKeyPacketSessionKey keys = None" "ky_hashKey keys \<noteq> None"
proof -
  from assms obtain signer where signer: "parent_signing_key signing = Some signer"
    by (cases "parent_signing_key signing") (auto simp: createFolder_crypto_def throw_act_def)
  show thesis
    using assms signer that
    by (cases "present attributes")
      (auto simp: createFolder_crypto_def give_def of_result_def await_def split: sum.splits prod.splits)
qed

lemma folder_parts_open:
  assumes laws: "openpgp_laws (cs_openpgp svc) signs" and known: "signer_known svc signing pk"
    and run: "createFolder_crypto svc pk hk signing name attributes s = (Inr (c, keys), s')"
    and sks: "keys_of_email svc (signing_email signing) [] = Inr sks"
  shows "parts_of svc node (folder_encrypted c) (ky_key keys) sks vks =
     Inr \<lparr>pt_hashKey = ky_hashKey keys, pt_contentKeyPacket = None, pt_contentKeyPacketSessionKey = None,
          pt_authors = [author_of signing,
            if present attributes = None then resultOk (js_string_or_undefined (signing_email signing)) else author_of signing],
          pt_activeRevision = JUndefined,
          pt_folder = JObj [(''extendedAttributes'', js_string_or_undefined (present attributes))], pt_errors = []\<rparr>"
proof (rule folder_run [OF run], goal_cases)
  case (1 signer encrypted decrypted s1 s2 s3)
  note hash = 1(5) and xattr = 1(6) and emails = 1(10) and keys = 1(13,17)
  have signer: "(case node_signing_key signing of Some k \<Rightarrow> k | None \<Rightarrow> ok_key decrypted)
      \<in> set (if present (signing_email signing) \<noteq> None then sks else [ok_key decrypted])"
    and email: "present (signing_email signing) = signing_email signing"
    using known_keys [OF known] sks by (metis sum.inject(2))+
  have author: "handleClaimedAuthor what SIGNED_AND_VALID es (signing_email signing) na = author_of signing" for what es na
    using email by (cases "signing_email signing") (simp_all add: author_ok author_of_def)
  obtain es where "decryptNodeHashKey (cs_openpgp svc) (fo_armoredHashKey c) (ok_key decrypted) sks
      = Inr (the (ky_hashKey keys), SIGNED_AND_VALID, es)"
    using hash_key_opens [OF laws hash] by blast
  then have "decryptHashKey svc node (folder_encrypted c) (fo_armoredHashKey c) (ok_key decrypted) sks
      = Inr (the (ky_hashKey keys), author_of signing)"
    by (simp add: decryptHashKey_def folder_encrypted_def emails author)
  moreover have "decryptExtendedAttributes svc (fo_armoredExtendedAttributes c) (ok_key decrypted)
      (if present (signing_email signing) \<noteq> None then sks else [ok_key decrypted]) (signing_email signing) =
    Inr (js_string_or_undefined (present attributes),
         if present attributes = None then resultOk (js_string_or_undefined (signing_email signing)) else author_of signing)"
  proof (cases "present attributes")
    case (Some a)
    with xattr obtain armored s4 where armored: "fo_armoredExtendedAttributes c = Some armored"
      "pg_encryptAndSignArmored (cs_openpgp svc) (pg_encode (cs_openpgp svc) a) None [ok_key decrypted]
         (case node_signing_key signing of Some k \<Rightarrow> k | None \<Rightarrow> ok_key decrypted) True False s3 = (Inr armored, s4)"
      by (auto simp: encryptExtendedAttributes_def)
    have "armored \<noteq> ''''" using openpgp_lawsD(1) [OF laws armored(2)] by blast
    moreover obtain es where "dc_decryptText (cs_openpgp svc) armored (ok_key decrypted)
        (if present (signing_email signing) \<noteq> None then sks else [ok_key decrypted]) = Inr (a, SIGNED_AND_VALID, es)"
      using text_opens [OF laws _ armored(2), where d = "ok_key decrypted"] signer by fastforce
    ultimately show ?thesis
      using Some by (simp add: decryptExtendedAttributes_def armored(1) dc_decryptExtendedAttributes_def author
          js_string_or_undefined_def split del: if_split)
  qed (use xattr in \<open>simp add: decryptExtendedAttributes_def js_string_or_undefined_def\<close>)
  ultimately show ?thesis
    using keys by (simp add: parts_of_def folder_encrypted_def folder_parts_def Let_def emails)
qed

lemma member_none: "\<not> js_truthy (js_opt ''membership'' node) \<Longrightarrow> decryptMembership svc node crypto = JUndefined"
  by (simp add: decryptMembership_def Let_def)

lemma decrypt_with_known:
  assumes "ec_nameSignatureEmail crypto = ec_signatureEmail crypto" "present (string_field ''parentUid'' node) \<noteq> None"
    and "keys_of_email svc (ec_signatureEmail crypto) [] = Inr sks"
    and "vks = (if present (ec_signatureEmail crypto) \<noteq> None then sks else [pk])"
  shows "crypto_decryptNode svc (node, crypto) pk = decrypted_node svc node crypto pk sks vks vks"
  using assms by (simp add: crypto_decryptNode_def Let_def)

lemma created_folder_opens:
  assumes laws: "openpgp_laws (cs_openpgp svc) signs" and known: "signer_known svc signing parentKey"
    and run: "createFolder_crypto svc parentKey parentHashKey signing name attributes s = (Inr (c, keys), s')"
    and node: "string_field ''encryptedName'' node = Some (fo_encryptedName c)"
      "present (string_field ''parentUid'' node) \<noteq> None" "\<not> js_truthy (js_opt ''membership'' node)"
  shows "crypto_decryptNode svc (node, folder_encrypted c) parentKey =
           Inr (unparsed_node node (resultOk (JStr name)) (author_of signing) (author_of signing) JUndefined JUndefined
                  (JObj [(''extendedAttributes'', js_string_or_undefined (present attributes))]) [], Some keys)
     \<and> generateLookupHash (cs_openpgp svc) name parentHashKey = Inr (fo_hash c)"
proof (rule folder_run [OF run], goal_cases)
  case (1 signer encrypted decrypted s1 s2 s3)
  let ?email = "signing_email signing" and ?pg = "cs_openpgp svc"
  obtain sks where sks: "keys_of_email svc ?email [] = Inr sks"
    and signer: "signer \<in> set (if present ?email \<noteq> None then sks else [parentKey])" and email: "present ?email = ?email"
    using known_keys [OF known] 1(1) by (metis option.inject)
  define vks where "vks = (if present ?email \<noteq> None then sks else [parentKey])"
  obtain es where key: "dc_decryptKey ?pg (fo_armoredKey c) (fo_armoredNodePassphrase c)
      (Some (fo_armoredNodePassphraseSignature c)) [parentKey] vks = Inr (decrypted, SIGNED_AND_VALID, es)"
    using generated_key_opens [OF laws _ 1(2), where d = parentKey] signer unfolding vks_def 1(7-9) by fastforce
  obtain es' where name: "decryptNodeName ?pg (fo_encryptedName c) parentKey vks = Inr (name, SIGNED_AND_VALID, es')"
    using text_opens [OF laws _ 1(3) [unfolded encryptNodeName_def, simplified], where d = parentKey] signer
    unfolding vks_def decryptNodeName_def by fastforce
  have emails: "ec_signatureEmail (folder_encrypted c) = ?email" "ec_nameSignatureEmail (folder_encrypted c) = ?email"
    using 1(10,11) by (simp_all add: folder_encrypted_def)
  have ok: "is_ok (author_of signing)" "is_ok (resultOk (js_string_or_undefined ?email))" by (simp_all add: author_of_def)
  note parts = folder_parts_open [OF laws known run sks, unfolded 1(13)]
  have "decrypted_node svc node (folder_encrypted c) parentKey sks vks vks = Inr
      (unparsed_node node (resultOk (JStr name)) (author_of signing) (author_of signing) JUndefined JUndefined
         (JObj [(''extendedAttributes'', js_string_or_undefined (present attributes))]) [], Some keys)"
    by (subst decrypts_parts [OF _ name node(1) parts])
      (use key ok emails email 1(12-17) in \<open>simp_all add: folder_encrypted_def author_of_def keys_opened_def member_none [OF node(3)]\<close>)
  with decrypt_with_known [of "folder_encrypted c" node svc sks vks parentKey] emails node(2) sks 1(4)
  show ?case by (simp add: vks_def split del: if_split)
qed

text \<open>
  C14: a folder that was created decrypts, with the key of its parent, to exactly the name and the
  keys it was created with; if the signing key is known to the reader, its key, its name, its hash key and
  its attributes are attributed to the creator, and no part of it is in error.
\<close>

theorem created_folder_decrypts:
  assumes laws: "openpgp_laws (cs_openpgp svc) signs" and known: "signer_known svc signing parentKey"
    and run: "createFolder_crypto svc parentKey parentHashKey signing name attributes s = (Inr (c, keys), s')"
    and node: "string_field ''encryptedName'' node = Some (fo_encryptedName c)"
      "present (string_field ''parentUid'' node) \<noteq> None" "\<not> js_truthy (js_opt ''membership'' node)"
  shows "crypto_decryptNode svc (node, folder_encrypted c) parentKey =
           Inr (unparsed_node node (resultOk (JStr name)) (author_of signing) (author_of signing) JUndefined JUndefined
                  (JObj [(''extendedAttributes'', js_string_or_undefined (present attributes))]) [], Some keys)
     \<and> generateLookupHash (cs_openpgp svc) name parentHashKey = Inr (fo_hash c)"
  using assms by (rule created_folder_opens)

section \<open>Moved nodes\<close>

text \<open>
  A node and its cryptographic part after a move: the passphrase and the name are those encrypted for the new
  parent, the signature of the key is replaced only for a node without one.
\<close>

definition moved_node :: "jsval \<Rightarrow> new_parent_crypto \<Rightarrow> string \<Rightarrow> jsval" where
  "moved_node node c newParentUid =
     JObj (js_with (js_spread node)
       [(''encryptedName'', JStr (nc_encryptedName c)), (''parentUid'', JStr newParentUid), (''hash'', JStr (nc_hash c))])"

definition moved_crypto :: "encrypted_crypto \<Rightarrow> bool \<Rightarrow> new_parent_crypto \<Rightarrow> encrypted_crypto" where
  "moved_crypto crypto anonymousKey c =
     crypto\<lparr>ec_nameSignatureEmail := nc_nameSignatureEmail c, ec_armoredNodePassphrase := nc_armoredNodePassphrase c,
       ec_signatureEmail := (if anonymousKey then nc_signatureEmail c else ec_signatureEmail crypto),
       ec_armoredNodePassphraseSignature :=
         (if anonymousKey then Some (nc_armoredNodePassphraseSignature c) else ec_armoredNodePassphraseSignature crypto)\<rparr>"

lemma moved_fields:
  assumes "node = JObj fs"
  shows "string_field ''encryptedName'' (moved_node node c p) = Some (nc_encryptedName c)"
    "string_field ''parentUid'' (moved_node node c p) = Some p"
    "k \<notin> {''encryptedName'', ''parentUid'', ''hash''} \<Longrightarrow> js_opt k (moved_node node c p) = js_opt k node"
  using assms by (simp_all add: moved_node_def string_field_def js_opt_js_with del: js_opt.simps)

lemma dc_decryptKey_Inr:
  "dc_decryptKey pg armoredKey armored sig ds vks = Inr (k, v) \<Longrightarrow> pg_decryptKey pg armoredKey (ok_passphrase k) = Inr (ok_key k)"
  by (auto simp: dc_decryptKey_def try_bind_Inr_iff)

text \<open>What a node that decrypts with its keys is made of.\<close>

lemma decrypted_node_keys:
  assumes "decrypted_node svc node crypto pk sks vks nks = Inr (u, Some keys)"
  obtains k v parts where
    "dc_decryptKey (cs_openpgp svc) (ec_armoredKey crypto) (ec_armoredNodePassphrase crypto)
       (ec_armoredNodePassphraseSignature crypto) [pk] vks = Inr (k, v)"
    "parts_of svc node crypto (ok_key k) sks vks = Inr parts"
    "keys = keys_opened k parts"
proof -
  obtain name nameAuthor where name: "decryptName svc node crypto pk nks = (name, nameAuthor)" by (cases "decryptName svc node crypto pk nks")
  from assms obtain k a where key: "decryptKey svc crypto pk vks = Inr (k, a)"
    by (cases "decryptKey svc crypto pk vks") (auto simp: decrypted_node_def name Let_def)
  with assms obtain parts where "parts_of svc node crypto (ok_key k) sks vks = Inr parts"
    "keys = keys_opened k parts"
    by (auto simp: decrypted_node_def name Let_def try_bind_Inr_iff keys_opened_def)
  moreover from key obtain v where "dc_decryptKey (cs_openpgp svc) (ec_armoredKey crypto) (ec_armoredNodePassphrase crypto)
       (ec_armoredNodePassphraseSignature crypto) [pk] vks = Inr (k, v)"
    by (auto simp: decryptKey_def try_bind_Inr_iff)
  ultimately show thesis by (rule that [rotated])
qed

lemma crypto_decryptNode_Inr:
  "crypto_decryptNode svc (node, crypto) pk = Inr r \<longleftrightarrow>
     (\<exists>sks nks. keys_of_email svc (ec_signatureEmail crypto) [] = Inr sks
        \<and> (if ec_nameSignatureEmail crypto = ec_signatureEmail crypto
           then nks = (if present (ec_signatureEmail crypto) \<noteq> None then sks
                       else if present (string_field ''parentUid'' node) \<noteq> None then [pk] else [])
           else keys_of_email svc (ec_nameSignatureEmail crypto)
                  (if present (string_field ''parentUid'' node) \<noteq> None then [pk] else []) = Inr nks)
        \<and> decrypted_node svc node crypto pk sks
             (if present (ec_signatureEmail crypto) \<noteq> None then sks
              else if present (string_field ''parentUid'' node) \<noteq> None then [pk] else []) nks = Inr r)"
  unfolding crypto_decryptNode_def prod.case Let_def try_bind_Inr_iff
  by (cases "ec_nameSignatureEmail crypto = ec_signatureEmail crypto"; fastforce)

lemma parts_total:
  "parts_of svc node crypto key sks vks = Inr parts \<Longrightarrow>
     ec_kind crypto' = ec_kind crypto \<Longrightarrow> \<exists>parts'. parts_of svc node' crypto' key' sks' vks' = Inr parts'"
  by (cases "ec_kind crypto") (auto simp: parts_of_def file_parts_def Let_def try_bind_Inr_iff)

lemma parts_same:
  assumes "ec_kind crypto' = ec_kind crypto" "ec_signatureEmail crypto' = ec_signatureEmail crypto"
    and "js_opt ''creationTime'' node' = js_opt ''creationTime'' node" "node_uid node' = node_uid node"
  shows "parts_of svc node' crypto' key sks vks = parts_of svc node crypto key sks vks"
proof -
  have hash: "decryptHashKey svc node' crypto' h k sks = decryptHashKey svc node crypto h k sks" for h k
    by (simp add: decryptHashKey_def assms del: js_opt.simps)
  have content: "decryptContentKeyPacket svc node' b a k vks = decryptContentKeyPacket svc node b a k vks" for b a k
    unfolding decryptContentKeyPacket_def assms(3,4) ..
  show ?thesis unfolding parts_of_def folder_parts_def file_parts_def assms(1,2) hash content ..
qed

lemma moved_crypto_fields:
  "ec_kind (moved_crypto crypto a c) = ec_kind crypto"
  "ec_armoredKey (moved_crypto crypto a c) = ec_armoredKey crypto"
  "ec_armoredNodePassphrase (moved_crypto crypto a c) = nc_armoredNodePassphrase c"
  "ec_nameSignatureEmail (moved_crypto crypto a c) = nc_nameSignatureEmail c"
  "ec_signatureEmail (moved_crypto crypto a c) = (if a then nc_signatureEmail c else ec_signatureEmail crypto)"
  by (simp_all add: moved_crypto_def)

lemma new_parent_run:
  assumes "encryptNodeWithNewParent svc (resultOk (JStr name)) (keys, nameSessionKey) (newKey, hashKey)
             (UserAddress email address key) s = (Inr c, s')"
  obtains s1 where
    "pg_encryptAndSignArmored (cs_openpgp svc) (pg_encode (cs_openpgp svc) name) (Some nameSessionKey) [newKey] key False False s
       = (Inr (nc_encryptedName c), s1)"
    "generateLookupHash (cs_openpgp svc) name hashKey = Inr (nc_hash c)"
    "dc_encryptPassphrase (cs_openpgp svc) (ky_passphrase keys) (ky_passphraseSessionKey keys) [newKey] key s1
       = (Inr (nc_armoredNodePassphrase c, nc_armoredNodePassphraseSignature c), s')"
    "nc_signatureEmail c = Some email" "nc_nameSignatureEmail c = Some email"
  using assms
  by (auto simp: encryptNodeWithNewParent_def string_field_def resultOk_def is_ok_def encryptNodeName_def
      dest!: await_ok simp: give_def of_result_def split: prod.splits)

lemma decrypts_named:
  assumes "dc_decryptKey (cs_openpgp svc) (ec_armoredKey crypto) (ec_armoredNodePassphrase crypto)
      (ec_armoredNodePassphraseSignature crypto) [pk] vks = Inr (k, v)"
    and "decryptNodeName (cs_openpgp svc) t pk nks = Inr (plain, SIGNED_AND_VALID, es')"
    and "string_field ''encryptedName'' node = Some t" "ec_nameSignatureEmail crypto = Some email" "email \<noteq> ''''"
    and "parts_of svc node crypto (ok_key k) sks vks = Inr parts"
  shows "\<exists>u. decrypted_node svc node crypto pk sks vks nks = Inr (u,
          Some (keys_opened k parts))
     \<and> js_opt ''name'' u = resultOk (JStr plain) \<and> js_opt ''nameAuthor'' u = resultOk (JStr email)
     \<and> (\<forall>fs j. node = JObj fs \<longrightarrow> j \<notin> decrypted_fields \<longrightarrow> js_opt j u = js_opt j node)"
  using assms
  by (cases v) (simp add: decrypted_node_def decryptName_def decryptKey_def Let_def author_ok keys_opened_def unparsed_fields [OF refl])

text \<open>The keys a moved node is verified with: those of the mover, and of who signed its key.\<close>

lemma moved_verification:
  assumes "keys_of_email svc (ec_signatureEmail crypto) [] = Inr sks"
    and emails: "nc_signatureEmail c = Some email" "nc_nameSignatureEmail c = Some email"
    and known: "email \<noteq> ''''" "cs_getPublicKeys svc email = Inr ks"
  obtains sks' vks' where
    "crypto_decryptNode svc (node, moved_crypto crypto anonymousKey c) newKey =
       decrypted_node svc node (moved_crypto crypto anonymousKey c) newKey sks' vks' ks"
    "\<not> anonymousKey \<and> present (ec_signatureEmail crypto) \<noteq> None \<longrightarrow> sks' = sks \<and> vks' = sks"
proof -
  let ?crypto = "moved_crypto crypto anonymousKey c"
  define sks' where "sks' = (if anonymousKey then ks else sks)"
  define vks' where "vks' = (if present (ec_signatureEmail ?crypto) \<noteq> None then sks'
      else if present (string_field ''parentUid'' node) \<noteq> None then [newKey] else [])"
  have sks': "keys_of_email svc (ec_signatureEmail ?crypto) [] = Inr sks'"
    using assms(1) known by (simp add: sks'_def moved_crypto_fields emails keys_of_email_def)
  have "sks' = ks" if "ec_signatureEmail ?crypto = Some email"
    using that sks' known by (auto simp: keys_of_email_def)
  then have "crypto_decryptNode svc (node, ?crypto) newKey = decrypted_node svc node ?crypto newKey sks' vks' ks"
    using sks' known
    by (cases "ec_signatureEmail ?crypto = Some email")
      (auto simp: crypto_decryptNode_def Let_def vks'_def keys_of_email_def moved_crypto_fields(4) emails simp del: not_None_eq)
  moreover have "\<not> anonymousKey \<and> present (ec_signatureEmail crypto) \<noteq> None \<longrightarrow> sks' = sks \<and> vks' = sks"
    by (simp add: vks'_def sks'_def moved_crypto_fields)
  ultimately show thesis by (rule that)
qed

lemma moved_parts:
  assumes "parts_of svc node crypto key sks vks = Inr parts" "node = JObj fs"
  obtains parts' where "parts_of svc (moved_node node c p) (moved_crypto crypto anonymousKey c) key sks' vks' = Inr parts'"
    "\<not> anonymousKey \<and> sks' = sks \<and> vks' = vks \<longrightarrow> parts' = parts"
proof -
  obtain parts' where parts': "parts_of svc (moved_node node c p) (moved_crypto crypto anonymousKey c) key sks' vks' = Inr parts'"
    using parts_total [OF assms(1)] moved_crypto_fields(1) by metis
  moreover have "\<not> anonymousKey \<and> sks' = sks \<and> vks' = vks \<longrightarrow> parts' = parts"
    using parts' assms(1) parts_same [of "moved_crypto crypto anonymousKey c" crypto "moved_node node c p" node svc key sks vks]
    by (auto simp: moved_crypto_fields moved_fields [OF assms(2)] node_uid_def string_field_def)
  ultimately show thesis by (rule that)
qed

text \<open>What a node that was decrypted is made of.\<close>

lemma opened_node:
  assumes "crypto_decryptNode svc (node, crypto) pk = Inr (u, Some keys)"
  obtains sks vks k parts where
    "keys_of_email svc (ec_signatureEmail crypto) [] = Inr sks"
    "present (ec_signatureEmail crypto) \<noteq> None \<longrightarrow> vks = sks"
    "pg_decryptKey (cs_openpgp svc) (ec_armoredKey crypto) (ok_passphrase k) = Inr (ok_key k)"
    "parts_of svc node crypto (ok_key k) sks vks = Inr parts"
    "keys = keys_opened k parts"
proof -
  obtain sks nks where sks: "keys_of_email svc (ec_signatureEmail crypto) [] = Inr sks"
    and run: "decrypted_node svc node crypto pk sks (if present (ec_signatureEmail crypto) \<noteq> None then sks
       else if present (string_field ''parentUid'' node) \<noteq> None then [pk] else []) nks = Inr (u, Some keys)"
    using assms unfolding crypto_decryptNode_Inr by blast
  show thesis
    by (rule decrypted_node_keys [OF run], rule that [OF sks _ dc_decryptKey_Inr], auto)
qed

text \<open>
  C15: a node whose name and passphrase were encrypted for a new parent decrypts with the new parent's key to
  that name and to the same key, passphrase and session key; a node that was signed before keeps all its
  keys, content and hash keys included. The name is attributed to who moved it, and its hash is the one of the
  name under the hash key of the new parent.
\<close>

theorem moved_node_decrypts:
  assumes laws: "openpgp_laws (cs_openpgp svc) signs"
    and old: "crypto_decryptNode svc (node, crypto) oldKey = Inr (u, Some keys)" and plain: "plain_object node"
    and run: "encryptNodeWithNewParent svc (resultOk (JStr name)) (keys, nameSessionKey) (newKey, hashKey)
                (UserAddress email address key) s = (Inr c, s')"
    and known: "email \<noteq> ''''" "cs_getPublicKeys svc email = Inr ks" "key \<in> set ks" and parent: "newParentUid \<noteq> ''''"
  shows "\<exists>u' keys'. crypto_decryptNode svc (moved_node node c newParentUid, moved_crypto crypto anonymousKey c) newKey
             = Inr (u', Some keys')
     \<and> js_opt ''name'' u' = resultOk (JStr name) \<and> js_opt ''nameAuthor'' u' = resultOk (JStr email)
     \<and> string_field ''parentUid'' u' = Some newParentUid
     \<and> ky_key keys' = ky_key keys \<and> ky_passphrase keys' = ky_passphrase keys
     \<and> ky_passphraseSessionKey keys' = ky_passphraseSessionKey keys
     \<and> (\<not> anonymousKey \<and> present (ec_signatureEmail crypto) \<noteq> None \<longrightarrow> keys' = keys)
     \<and> generateLookupHash (cs_openpgp svc) name hashKey = Inr (nc_hash c)"
proof -
  let ?node = "moved_node node c newParentUid" and ?crypto = "moved_crypto crypto anonymousKey c" and ?pg = "cs_openpgp svc"
  obtain fs where fs: "node = JObj fs" "distinct (map fst fs)" using plain_fields [OF plain] by blast
  note fields = moved_fields [OF fs(1)]
  obtain s1 where sealed: "pg_encryptAndSignArmored ?pg (pg_encode ?pg name) (Some nameSessionKey) [newKey] key False False s
       = (Inr (nc_encryptedName c), s1)"
    and hash: "generateLookupHash ?pg name hashKey = Inr (nc_hash c)"
    and passphrase: "dc_encryptPassphrase ?pg (ky_passphrase keys) (ky_passphraseSessionKey keys) [newKey] key s1
       = (Inr (nc_armoredNodePassphrase c, nc_armoredNodePassphraseSignature c), s')"
    and emails: "nc_signatureEmail c = Some email" "nc_nameSignatureEmail c = Some email"
    by (rule new_parent_run [OF run])
  obtain sks vks k parts where sks: "keys_of_email svc (ec_signatureEmail crypto) [] = Inr sks"
    and vks: "present (ec_signatureEmail crypto) \<noteq> None \<longrightarrow> vks = sks"
    and k: "pg_decryptKey ?pg (ec_armoredKey crypto) (ok_passphrase k) = Inr (ok_key k)"
    and parts: "parts_of svc node crypto (ok_key k) sks vks = Inr parts"
    and keys: "keys = keys_opened k parts"
    by (rule opened_node [OF old])
  obtain sks' vks' where run': "crypto_decryptNode svc (?node, ?crypto) newKey = decrypted_node svc ?node ?crypto newKey sks' vks' ks"
    and kept: "\<not> anonymousKey \<and> present (ec_signatureEmail crypto) \<noteq> None \<longrightarrow> sks' = sks \<and> vks' = sks"
    by (rule moved_verification [OF sks emails known(1,2)])
  obtain st es where key': "dc_decryptKey ?pg (ec_armoredKey ?crypto) (ec_armoredNodePassphrase ?crypto)
      (ec_armoredNodePassphraseSignature ?crypto) [newKey] vks' = Inr (k, st, es)"
    using passphrase_opens(1) [OF laws _ passphrase, of newKey "ec_armoredKey crypto" "ok_key k"
        "ec_armoredNodePassphraseSignature ?crypto" vks'] k
    by (auto simp: moved_crypto_fields keys keys_opened_def)
  obtain es' where name': "decryptNodeName ?pg (nc_encryptedName c) newKey ks = Inr (name, SIGNED_AND_VALID, es')"
    using text_opens [OF laws _ sealed, of newKey ks] known(3) unfolding decryptNodeName_def by auto
  obtain parts' where parts': "parts_of svc ?node ?crypto (ok_key k) sks' vks' = Inr parts'"
    and same: "\<not> anonymousKey \<and> sks' = sks \<and> vks' = vks \<longrightarrow> parts' = parts"
    by (rule moved_parts [OF parts fs(1)])
  have email': "ec_nameSignatureEmail ?crypto = Some email" by (simp add: moved_crypto_fields emails)
  obtain u' where u': "decrypted_node svc ?node ?crypto newKey sks' vks' ks = Inr (u', Some (keys_opened k parts'))"
    and name'': "js_opt ''name'' u' = resultOk (JStr name) \<and> js_opt ''nameAuthor'' u' = resultOk (JStr email)"
    and others: "\<forall>fs j. ?node = JObj fs \<longrightarrow> j \<notin> decrypted_fields \<longrightarrow> js_opt j u' = js_opt j ?node"
    using decrypts_named [OF key' name' fields(1) email' known(1) parts'] by blast
  have "js_opt ''parentUid'' u' = js_opt ''parentUid'' ?node"
    using others [rule_format, OF moved_node_def, of "''parentUid''"] by (simp add: decrypted_fields_def del: js_opt.simps)
  with fields(2) have "string_field ''parentUid'' u' = Some newParentUid" by (simp add: string_field_def)
  moreover have "\<not> anonymousKey \<and> present (ec_signatureEmail crypto) \<noteq> None \<longrightarrow> keys_opened k parts' = keys"
    using same kept vks by (simp add: keys)
  moreover have "ky_key (keys_opened k parts') = ky_key keys" "ky_passphrase (keys_opened k parts') = ky_passphrase keys"
    "ky_passphraseSessionKey (keys_opened k parts') = ky_passphraseSessionKey keys"
    by (simp_all add: keys keys_opened_def)
  ultimately show ?thesis using name'' hash u' [folded run'] by blast
qed

section \<open>From the server to the cache\<close>

text \<open>The times of a link are within what a date can hold.\<close>

definition valid_times :: "api_link \<Rightarrow> bool" where
  "valid_times link \<longleftrightarrow>
     js_time (lk_CreateTime link * 1000) \<noteq> None \<and> js_time (lk_ModifyTime link * 1000) \<noteq> None
     \<and> (\<forall>t. lk_TrashTime link = Some t \<longrightarrow> js_time (t * 1000) \<noteq> None)"

lemma served_object:
  assumes "linkToEncryptedNode v link own = Inr (Some (node, crypto))"
  obtains extra where "node = JObj (fst (linkToEncryptedNodeBaseMetadata v link own) @ extra)"
    "extra = [] \<or> (\<exists>size media. extra = [(''totalStorageSize'', JNum size), (''mediaType'', js_str media)])"
proof -
  obtain base c where b: "linkToEncryptedNodeBaseMetadata v link own = (base, c)" by fastforce
  show thesis
    using assms that [of "[]"] that [of "[(''totalStorageSize'', JNum (fl_TotalEncryptedSize (the (lk_File link)))),
        (''mediaType'', js_str (fl_MediaType (the (lk_File link))))]"]
    unfolding linkToEncryptedNode_def b by (auto split: if_splits option.splits)
qed

lemma valid_date_seconds: "js_time (t * 1000) \<noteq> None \<Longrightarrow> valid_date (date_of_seconds t)"
  by (auto simp: valid_date_def date_of_seconds_def)

lemma role_text_nonempty: "role_text r \<noteq> ''''"
  by (cases r) simp_all

lemma served_fields:
  assumes served: "linkToEncryptedNode v link own = Inr (Some (node, crypto))"
  shows "plain_object node"
    and "js_opt ''uid'' node = JStr (makeNodeUid v (lk_LinkID link))"
    and "\<exists>r. js_opt ''directRole'' node = JStr r \<and> r \<noteq> ''''"
    and "\<exists>t. js_opt ''type'' node = JStr t \<and> t \<noteq> ''''"
    and "js_opt ''parentUid'' node = js_string_or_undefined (map_option (makeNodeUid v) (present (lk_ParentLinkID link)))"
    and "js_opt ''mediaType'' node = JUndefined \<or> (\<exists>s. js_opt ''mediaType'' node = JStr s)"
    and "\<exists>b. js_opt ''isShared'' node = JBool b"
    and "js_opt ''creationTime'' node = date_of_seconds (lk_CreateTime link)"
    and "js_opt ''modificationTime'' node = date_of_seconds (lk_ModifyTime link)"
    and "js_opt ''trashTime'' node =
      (case nonzero (lk_TrashTime link) of Some t \<Rightarrow> date_of_seconds t | None \<Rightarrow> JUndefined)"
proof -
  obtain extra where node: "node = JObj (fst (linkToEncryptedNodeBaseMetadata v link own) @ extra)"
    and extra: "extra = [] \<or> (\<exists>size media. extra = [(''totalStorageSize'', JNum size), (''mediaType'', js_str media)])"
    by (rule served_object [OF served])
  note node = node [unfolded linkToEncryptedNodeBaseMetadata_def Let_def fst_conv]
  from extra show "plain_object node" by (auto simp: plain_object_def node)
  have role: "\<exists>r. role_text x = r \<and> r \<noteq> ''''" for x by (simp add: role_text_nonempty)
  show "js_opt ''uid'' node = JStr (makeNodeUid v (lk_LinkID link))"
    "\<exists>r. js_opt ''directRole'' node = JStr r \<and> r \<noteq> ''''"
    "\<exists>t. js_opt ''type'' node = JStr t \<and> t \<noteq> ''''"
    "js_opt ''parentUid'' node = js_string_or_undefined (map_option (makeNodeUid v) (present (lk_ParentLinkID link)))"
    "\<exists>b. js_opt ''isShared'' node = JBool b"
    "js_opt ''creationTime'' node = date_of_seconds (lk_CreateTime link)"
    "js_opt ''modificationTime'' node = date_of_seconds (lk_ModifyTime link)"
    "js_opt ''trashTime'' node =
      (case nonzero (lk_TrashTime link) of Some t \<Rightarrow> date_of_seconds t | None \<Rightarrow> JUndefined)"
    by (simp_all add: node role_text_nonempty nodeTypeNumberToNodeType_def)
  have "js_str media = JUndefined \<or> (\<exists>s. js_str media = JStr s)" for media
    by (cases "present media") (simp_all add: js_str_def js_string_or_undefined_def)
  with extra show "js_opt ''mediaType'' node = JUndefined \<or> (\<exists>s. js_opt ''mediaType'' node = JStr s)"
    by (elim disjE exE) (simp_all add: node)
qed

lemma decrypted_fields_of:
  assumes "crypto_decryptNode svc (node, crypto) key = Inr (u, keys)" "plain_object node"
  shows "plain_object u" and "k \<notin> decrypted_fields \<Longrightarrow> js_opt k u = js_opt k node"
    and "js_opt ''membership'' u = JUndefined \<or> plain_object (js_opt ''membership'' u)"
    and "js_opt ''activeRevision'' u = JUndefined
      \<or> (\<exists>v. js_opt ''activeRevision'' u = resultOk v) \<or> (\<exists>e. js_opt ''activeRevision'' u = resultError e)"
proof -
  obtain fs where fs: "node = JObj fs" "distinct (map fst fs)" using plain_fields [OF assms(2)] by blast
  obtain sks vks nks where run: "decrypted_node svc node crypto key sks vks nks = Inr (u, keys)"
    using assms(1) unfolding crypto_decryptNode_Inr by blast
  obtain name a where name: "decryptName svc node crypto key nks = (name, a)" by fastforce
  have member: "decryptMembership svc node crypto = JUndefined \<or> plain_object (decryptMembership svc node crypto)"
    by (simp add: decryptMembership_def Let_def plain_object_def)
  have parts: "pt_activeRevision p = JUndefined \<or> (\<exists>v. pt_activeRevision p = resultOk v) \<or> (\<exists>e. pt_activeRevision p = resultError e)"
    if "parts_of svc node crypto k sks vks = Inr p" for k p
    using that by (cases "ec_kind crypto")
      (auto simp: parts_of_def folder_parts_def file_parts_def Let_def try_bind_Inr_iff split: sum.splits)
  from run obtain x b r f es where u: "u = unparsed_node node name x a (decryptMembership svc node crypto) r f es"
    and r: "r = JUndefined \<or> (\<exists>v. r = resultOk v) \<or> (\<exists>e. r = resultError e)"
    using parts by (cases "decryptKey svc crypto key vks")
      (fastforce simp: decrypted_node_def name Let_def try_bind_Inr_iff)+
  note fields = unparsed_fields [OF u]
  show "plain_object u" by (rule fields(10) [OF fs])
  show "k \<notin> decrypted_fields \<Longrightarrow> js_opt k u = js_opt k node" by (rule fields(9) [OF fs(1)])
  show "js_opt ''membership'' u = JUndefined \<or> plain_object (js_opt ''membership'' u)" using member by (simp add: fields(4))
  show "js_opt ''activeRevision'' u = JUndefined
      \<or> (\<exists>v. js_opt ''activeRevision'' u = resultOk v) \<or> (\<exists>e. js_opt ''activeRevision'' u = resultError e)"
    using r by (simp add: fields(5))
qed

lemma served_is_good:
  assumes served: "linkToEncryptedNode v link own = Inr (Some (node, crypto))" and times: "valid_times link"
    and run: "crypto_decryptNode svc (node, crypto) key = Inr (u, keys)"
  shows "good_unparsed u"
proof -
  note fields = served_fields [OF served] and kept = decrypted_fields_of [OF run served_fields(1) [OF served]]
  have uid: "makeNodeUid v (lk_LinkID link) \<noteq> ''''" by (simp add: makeNodeUid_def makeUid_def)
  have dates: "valid_date (date_of_seconds (lk_CreateTime link))" "valid_date (date_of_seconds (lk_ModifyTime link))"
    "\<And>t. lk_TrashTime link = Some t \<Longrightarrow> valid_date (date_of_seconds t)"
    using times by (simp_all add: valid_times_def valid_date_seconds)
  then have "js_opt ''trashTime'' node = JUndefined \<or> valid_date (js_opt ''trashTime'' node)"
    by (auto simp: fields(10) nonzero_def split: option.split)
  moreover have "js_opt ''parentUid'' node = JUndefined \<or> (\<exists>s. js_opt ''parentUid'' node = JStr s)"
    by (simp add: fields(5) js_string_or_undefined_def split: option.split)
  ultimately show ?thesis
    unfolding good_unparsed_def using kept(1,3,4) fields uid dates
    by (simp add: kept(2) decrypted_fields_def)
qed


section \<open>A folder that is created, moved and served\<close>

definition demo_crypto :: "(nat, 8 word, 8 word) crypto_services" where
  "demo_crypto =
     \<lparr>cs_openpgp = symbolic,
      cs_getPublicKeys = (\<lambda>email. if email = ''a@x'' then Inr [9] else Inl (throw_new JsError ''No keys'')),
      cs_getOwnVolumeId = Inr ''v'', cs_getOwnKeys = Inr [9], cs_localDate = (\<lambda>_ _ _. 0), cs_allowFallback = True\<rparr>"

definition demo_signer :: "8 word node_signing_keys" where "demo_signer = UserAddress ''a@x'' ''id'' 9"

definition demo_created where
  "demo_created = createFolder_crypto demo_crypto 7 [1] demo_signer ''photos'' (Some ''times'') 10"

definition demo_object :: "string \<Rightarrow> jsval" where
  "demo_object encryptedName = JObj [(''encryptedName'', JStr encryptedName), (''parentUid'', JStr ''v~p'')]"

lemma demo_laws: "openpgp_laws (cs_openpgp demo_crypto) sym_detached" "signer_known demo_crypto demo_signer pk"
  by (simp_all add: demo_crypto_def symbolic_laws signer_known_def demo_signer_def)

lemma demo_created_ran: "\<exists>c keys s'. demo_created = (Inr (c, keys), s')"
proof -
  have "\<not> isl (fst demo_created)" by code_simp
  from ran [OF this] show ?thesis by auto
qed

lemma demo_object_facts:
  "string_field ''encryptedName'' (demo_object t) = Some t" "present (string_field ''parentUid'' (demo_object t)) \<noteq> None"
  "\<not> js_truthy (js_opt ''membership'' (demo_object t))" "plain_object (demo_object t)"
  by (simp_all add: demo_object_def string_field_def plain_object_def)

theorem created_folder_decrypts_witness:
  "\<exists>c keys s' u. demo_created = (Inr (c, keys), s')
     \<and> crypto_decryptNode demo_crypto (demo_object (fo_encryptedName c), folder_encrypted c) 7 = Inr (u, Some keys)
     \<and> js_opt ''name'' u = resultOk (JStr ''photos'')"
proof -
  obtain c keys s' where run: "demo_created = (Inr (c, keys), s')" using demo_created_ran by blast
  note facts = demo_object_facts [of "fo_encryptedName c"]
  note created_folder_decrypts [OF demo_laws run [unfolded demo_created_def] facts(1-3), THEN conjunct1]
  with run unparsed_fields(1) [OF refl] show ?thesis by blast
qed

definition demo_moved where
  "demo_moved =
     (case demo_created of
        (Inr (c, keys), s) \<Rightarrow> encryptNodeWithNewParent demo_crypto (resultOk (JStr ''photos'')) (keys, 3) (8, [2]) demo_signer s
      | (Inl e, s) \<Rightarrow> (Inl e, s))"

theorem moved_node_decrypts_witness:
  "\<exists>c keys m u keys'. fst demo_created = Inr (c, keys) \<and> fst demo_moved = Inr m
     \<and> crypto_decryptNode demo_crypto (moved_node (demo_object (fo_encryptedName c)) m ''v~q'',
         moved_crypto (folder_encrypted c) False m) 8 = Inr (u, Some keys')
     \<and> js_opt ''name'' u = resultOk (JStr ''photos'') \<and> ky_key keys' = ky_key keys"
proof -
  obtain c keys s where run: "demo_created = (Inr (c, keys), s)" using demo_created_ran by blast
  note facts = demo_object_facts [of "fo_encryptedName c"]
  obtain u where u: "crypto_decryptNode demo_crypto (demo_object (fo_encryptedName c), folder_encrypted c) 7 = Inr (u, Some keys)"
    using created_folder_opens [OF demo_laws run [unfolded demo_created_def] facts(1-3)] by blast
  have "\<not> isl (fst demo_moved)" by code_simp
  from ran [OF this] obtain m s' where m: "demo_moved = (Inr m, s')" by blast
  then have "encryptNodeWithNewParent demo_crypto (resultOk (JStr ''photos'')) (keys, 3) (8, [2])
      (UserAddress ''a@x'' ''id'' 9) s = (Inr m, s')"
    by (simp add: demo_moved_def run demo_signer_def)
  note moved = moved_node_decrypts [OF demo_laws(1) u facts(4) this, of "[9]" "''v~q''" False]
  have "cs_getPublicKeys demo_crypto ''a@x'' = Inr [9]" by (simp add: demo_crypto_def)
  with moved obtain u' keys' where "crypto_decryptNode demo_crypto (moved_node (demo_object (fo_encryptedName c)) m ''v~q'',
         moved_crypto (folder_encrypted c) False m) 8 = Inr (u', Some keys')"
    "js_opt ''name'' u' = resultOk (JStr ''photos'')" "ky_key keys' = ky_key keys" by auto
  moreover have "fst demo_created = Inr (c, keys)" "fst demo_moved = Inr m" by (simp_all add: run m)
  ultimately show ?thesis by blast
qed

definition demo_link :: api_link where
  "demo_link = \<lparr>lk_LinkID = ''n'', lk_Type = 1, lk_ParentLinkID = Some ''p'', lk_NameHash = Some ''h'', lk_Name = ''broken'',
     lk_CreateTime = 1700000000, lk_ModifyTime = 1700000001, lk_TrashTime = None, lk_SignatureEmail = Some ''a@x'',
     lk_NameSignatureEmail = Some ''a@x'', lk_NodeKey = ''k'', lk_NodePassphrase = ''broken'',
     lk_NodePassphraseSignature = ''s'', lk_OwnedBy = None, lk_Membership = None, lk_Sharing = None,
     lk_Folder = Some \<lparr>fd_XAttr = None, fd_NodeHashKey = ''broken''\<rparr>, lk_File = None\<rparr>"

definition demo_served where
  "demo_served = (case linkToEncryptedNode ''v'' demo_link True of
     Inr (Some e) \<Rightarrow> crypto_decryptNode demo_crypto e 7 | _ \<Rightarrow> Inl (ThrownValue ''none''))"


end
