(* ===== verification/NodesManagement.thy ===== *)
theory NodesManagement
  imports NodesAccess NodesCrypto
begin

text \<open>
  The operations that change nodes: \<^verbatim>\<open>internal/nodes/nodesManagement.ts\<close> and \<^verbatim>\<open>nodesRevisions.ts\<close>, and the
  environment \<^verbatim>\<open>internal/nodes/index.ts\<close> gives node access. They call node access, the crypto service and
  the API service, whose state is the outside of the access state.

  Calls that are started together are run one after the other. A result of \<open>None\<close> is a call that
  has not ended within its fuel, as in \<open>NodesAccess\<close>.
\<close>

section \<open>The environment\<close>

type_synonym ('c, 'kc, 'o, 'e, 'u, 'k, 'sk) nodes_access =
  "('c, 'kc, 'o, 'e, 'u, jsval, 'k, ('k, 'sk) node_keys, 'k node_signing_keys, 'sk) access_env"

text \<open>What the shares service gives, and the two listings of UIDs, which page through the API.\<close>

record ('o, 'k) shares_service =
  ss_getRootIDs :: "('o, string \<times> string) act"
  ss_getSharePrivateKey :: "string \<Rightarrow> ('o, 'k) act"
  ss_getContextShareMemberEmailKey :: "string \<Rightarrow> ('o, 'k node_signing_keys) act"
  ss_children :: "string \<Rightarrow> bool \<Rightarrow> ('o, string) gen"
  ss_trashed :: "string \<Rightarrow> ('o, string) gen"

definition enc_node_of :: "encrypted_node \<Rightarrow> encrypted_node enc_node" where
  "enc_node_of e =
     \<lparr>en_uid = node_uid (fst e), en_parentUid = string_field ''parentUid'' (fst e),
      en_shareId = string_field ''shareId'' (fst e), en_data = e\<rparr>"

text \<open>The part of an encrypted node the undecryptable node is made of.\<close>

definition with_crypto :: "encrypted_node \<Rightarrow> jsval" where
  "with_crypto e =
     JObj (js_with (js_spread (fst e))
       [(''encryptedCrypto'',
         JObj [(''signatureEmail'', js_string_or_undefined (ec_signatureEmail (snd e))),
               (''nameSignatureEmail'', js_string_or_undefined (ec_nameSignatureEmail (snd e))),
               (''membership'',
                case ec_membership (snd e) of
                  Some m \<Rightarrow> JObj [(''inviterEmail'', JStr (mc_inviterEmail m))] | None \<Rightarrow> JUndefined)])])"

definition nodes_env ::
  "(jsval \<Rightarrow> int option) \<Rightarrow> (jsval \<Rightarrow> js_text option) \<Rightarrow> ('kc, ('k, 'sk) node_keys) key_cache_ops
     \<Rightarrow> ('o, 'k, 'sk) crypto_services \<Rightarrow> 'o node_endpoints \<Rightarrow> ('o, 'k) shares_service \<Rightarrow> (string list \<Rightarrow> nat)
     \<Rightarrow> (js_text memory_cache \<times> nat, 'kc, 'o, encrypted_node, jsval, 'k, 'sk) nodes_access"
where
  "nodes_env date_of text_of keys svc ep shares early =
     \<lparr>ae_cache = client_cache date_of, ae_keys = keys, ae_view = node_view_of_js, ae_key = ky_key, ae_hashKey = ky_hashKey,
      ae_getRootIDs = ss_getRootIDs shares, ae_getSharePrivateKey = ss_getSharePrivateKey shares,
      ae_getContextShareMemberEmailKey = ss_getContextShareMemberEmailKey shares,
      ae_getNode = (\<lambda>uid own. await (api_getNode ep uid (Some own)) (\<lambda>e. give (enc_node_of e))),
      ae_iterateNodes = (\<lambda>uids own nodeType s.
        case api_iterateNodes ep uids (Some own) nodeType s of (es, e, s') \<Rightarrow> (map enc_node_of es, e, s')),
      ae_iterateChildrenNodeUids = ss_children shares, ae_iterateTrashedNodeUids = ss_trashed shares,
      ae_decryptNode = (\<lambda>e key. crypto_decryptNode svc (en_data e) key),
      ae_getNameSessionKey = (\<lambda>node key.
        getNameSessionKey svc (case string_field ''encryptedName'' node of Some t \<Rightarrow> t | None \<Rightarrow> '''') key),
      ae_parseNode = parseNode date_of text_of,
      ae_degraded = (\<lambda>e error. getDegradedUndecryptableNodeBase (with_crypto (en_data e)) error),
      ae_yieldedBeforeError = early\<rparr>"

section \<open>Names and places\<close>

definition of_res :: "thrown + 'a \<Rightarrow> ('s, 'a) run" where
  "of_res r s = Some (r, s)"

definition resultOk_email :: "string option \<Rightarrow> jsval" where
  "resultOk_email email = resultOk (case email of Some e \<Rightarrow> JStr e | None \<Rightarrow> JNull)"

definition renameNode where
  "renameNode (env :: ('c, 'kc, 'o, 'e, 'u, 'k, 'sk) nodes_access) svc ep fuel allowRenameRootNode nodeUid newName =
     then_run (of_res (validateNodeName newName)) (\<lambda>_.
     then_run (getNode env fuel nodeUid) (\<lambda>node.
     then_run (getNodePrivateAndSessionKeys env fuel nodeUid) (\<lambda>(_, nodeNameSessionKey).
     then_run (getParentKeys env fuel node) (\<lambda>parentKeys.
     then_run (getNodeSigningKeys env fuel (Some nodeUid) (string_field ''parentUid'' node)) (\<lambda>signingKeys.
       if \<not> allowRenameRootNode \<and> (present (string_field ''hash'' node) = None \<or> snd parentKeys = None)
       then throw_run (throw_new ValidationError ''Renaming root item is not allowed'')
       else then_run (on_outside (encryptNewName svc parentKeys nodeNameSessionKey signingKeys newName))
         (\<lambda>(signatureEmail, armoredNodeName, hash).
       if \<not> allowRenameRootNode \<and> present hash = None then throw_run (throw_new JsError ''Node hash not generated'')
       else then_run (catch_run
              (on_outside (api_renameNode ep nodeUid (string_field ''hash'' node) armoredNodeName signatureEmail hash))
              (\<lambda>error. then_run (if instanceof error NodeOutOfSyncError then notifyNodeChanged env nodeUid None else give_run ())
                 (\<lambda>_. throw_run error))) (\<lambda>_.
       then_run (notifyNodeChanged env nodeUid None) (\<lambda>_.
       give_run (JObj (js_with (js_spread node)
         [(''name'', resultOk (JStr newName)), (''encryptedName'', JStr armoredNodeName),
          (''nameAuthor'', resultOk_email (present signatureEmail)), (''hash'', js_string_or_undefined hash)]))))))))))"

text \<open>A node whose key nobody claims; only then are the signature of the passphrase and its email sent.\<close>

definition anonymous_key :: "jsval \<Rightarrow> bool" where
  "anonymous_key node \<longleftrightarrow> is_ok (js_opt ''keyAuthor'' node) \<and> js_opt ''value'' (js_opt ''keyAuthor'' node) = JNull"

definition new_parent_of :: "string \<Rightarrow> jsval \<Rightarrow> new_parent_crypto \<Rightarrow> new_parent" where
  "new_parent_of newParentUid node c =
     \<lparr>np_parentUid = newParentUid, np_armoredNodePassphrase = nc_armoredNodePassphrase c,
      np_armoredNodePassphraseSignature =
        (if anonymous_key node then Some (nc_armoredNodePassphraseSignature c) else None),
      np_signatureEmail = (if anonymous_key node then Some (nc_signatureEmail c) else None),
      np_encryptedName = nc_encryptedName c, np_nameSignatureEmail = nc_nameSignatureEmail c, np_hash = nc_hash c\<rparr>"

text \<open>The keys a node is moved or copied with.\<close>

definition keys_for_parent where
  "keys_for_parent (env :: ('c, 'kc, 'o, 'e, 'u, 'k, 'sk) nodes_access) fuel nodeUid newParentUid =
     then_run (getNodePrivateAndSessionKeys env fuel nodeUid) (\<lambda>keys.
     then_run (getNodeKeys env fuel newParentUid) (\<lambda>newParentKeys.
     then_run (getNodeSigningKeys env fuel (Some nodeUid) (Some newParentUid)) (\<lambda>signingKeys.
     give_run (keys, newParentKeys, signingKeys))))"

definition node_moved_to :: "jsval \<Rightarrow> string \<Rightarrow> new_parent_crypto \<Rightarrow> (string \<times> jsval) list \<Rightarrow> jsval" where
  "node_moved_to node newParentUid c others =
     JObj (js_with (js_spread node) (others @
       [(''encryptedName'', JStr (nc_encryptedName c)), (''parentUid'', JStr newParentUid), (''hash'', JStr (nc_hash c)),
        (''keyAuthor'', resultOk_email (nc_signatureEmail c)), (''nameAuthor'', resultOk_email (nc_nameSignatureEmail c))]))"

definition moveNode where
  "moveNode (env :: ('c, 'kc, 'o, 'e, 'u, 'k, 'sk) nodes_access) svc ep fuel nodeUid newParentUid =
     then_run (getNode env fuel nodeUid) (\<lambda>node.
     then_run (keys_for_parent env fuel nodeUid newParentUid) (\<lambda>(keys, newParentKeys, signingKeys).
       case present (string_field ''hash'' node) of
         None \<Rightarrow> throw_run (throw_new ValidationError ''Moving root item is not allowed'')
       | Some oldHash \<Rightarrow>
           (case ky_hashKey newParentKeys of
              None \<Rightarrow> throw_run (throw_new ValidationError ''Moving item to a non-folder is not allowed'')
            | Some hashKey \<Rightarrow>
                then_run (on_outside (encryptNodeWithNewParent svc (js_opt ''name'' node) keys
                                        (ky_key newParentKeys, hashKey) signingKeys)) (\<lambda>c.
                then_run (on_outside (api_moveNode ep nodeUid oldHash (new_parent_of newParentUid node c))) (\<lambda>_.
                then_run (notifyNodeChanged env (node_uid node) (Some newParentUid)) (\<lambda>_.
                give_run (node_moved_to node newParentUid c [])))))))"

definition copyNode where
  "copyNode (env :: ('c, 'kc, 'o, 'e, 'u, 'k, 'sk) nodes_access) svc ep fuel nodeUid newParentUid name =
     then_run (of_res (case name of Some s \<Rightarrow> validateNodeName s | None \<Rightarrow> Inr ())) (\<lambda>_.
     then_run (getNode env fuel nodeUid) (\<lambda>node.
     let nodeName = (case name of Some s \<Rightarrow> resultOk (JStr s) | None \<Rightarrow> js_opt ''name'' node) in
     then_run (keys_for_parent env fuel nodeUid newParentUid) (\<lambda>(keys, newParentKeys, signingKeys).
       case ky_hashKey newParentKeys of
         None \<Rightarrow> throw_run (throw_new ValidationError ''Copying item to a non-folder is not allowed'')
       | Some hashKey \<Rightarrow>
           then_run (on_outside (encryptNodeWithNewParent svc nodeName keys (ky_key newParentKeys, hashKey) signingKeys)) (\<lambda>c.
           then_run (on_outside (api_copyNode ep nodeUid (new_parent_of newParentUid node c))) (\<lambda>newNodeUid.
           then_run (notifyChildCreated env newParentUid) (\<lambda>_.
           give_run (node_moved_to node newParentUid c [(''name'', nodeName), (''uid'', JStr newNodeUid)])))))))"

datatype 'r node_result_for = DoneFor string 'r | FailedFor string js_error

fun result_uid :: "'r node_result_for \<Rightarrow> string" where
  "result_uid (DoneFor uid _) = uid"
| "result_uid (FailedFor uid _) = uid"

text \<open>One call for each item, unless the signal is aborted before it; its error is the item's result.\<close>

fun each_unless_aborted ::
  "('o \<Rightarrow> bool) \<Rightarrow> string \<Rightarrow> ('i \<Rightarrow> string) \<Rightarrow> ('i \<Rightarrow> (('c, 'kc, 'o) access_state, 'r) run) \<Rightarrow> 'i list
     \<Rightarrow> ('c, 'kc, 'o) access_state \<Rightarrow> ('r node_result_for list \<times> thrown option \<times> ('c, 'kc, 'o) access_state) option"
where
  "each_unless_aborted aborted message uid_of run [] s = Some ([], None, s)"
| "each_unless_aborted aborted message uid_of run (item # items) s =
     (if aborted (na_outside s) then Some ([], Some (throw_new AbortError message), s)
      else case run item s of
        None \<Rightarrow> None
      | Some (r, s1) \<Rightarrow>
          map_option (\<lambda>(results, e, s2).
              ((case r of Inr v \<Rightarrow> DoneFor (uid_of item) v
                | Inl error \<Rightarrow> FailedFor (uid_of item) (createErrorFromUnknown error)) # results, e, s2))
            (each_unless_aborted aborted message uid_of run items s1))"

definition moveNodes where
  "moveNodes (env :: ('c, 'kc, 'o, 'e, 'u, 'k, 'sk) nodes_access) svc ep fuel aborted nodeUids newParentNodeUid =
     each_unless_aborted aborted ''Move operation aborted'' id
       (\<lambda>nodeUid. then_run (moveNode env svc ep fuel nodeUid newParentNodeUid) (\<lambda>_. give_run ())) nodeUids"

text \<open>An item is a UID, or a UID and the name of the copy.\<close>

definition copyNodes where
  "copyNodes (env :: ('c, 'kc, 'o, 'e, 'u, 'k, 'sk) nodes_access) svc ep fuel aborted nodeUidsOrWithNames newParentNodeUid =
     each_unless_aborted aborted ''Copy operation aborted'' fst
       (\<lambda>(nodeUid, name). then_run (copyNode env svc ep fuel nodeUid newParentNodeUid name) (\<lambda>node. give_run (node_uid node)))
       nodeUidsOrWithNames"

section \<open>The trash\<close>

definition emptyTrash where
  "emptyTrash (env :: ('c, 'kc, 'o, 'e, 'u, 'k, 'sk) nodes_access) ep fuel =
     then_run (getVolumeRootFolder env fuel) (\<lambda>node.
     then_run (of_res (splitNodeUid (node_uid node))) (\<lambda>(volumeId, _).
     on_outside (api_emptyTrash ep volumeId)))"

text \<open>Results are told to the cache, where they are successes, before they are passed on.\<close>

fun tell_cache where
  "tell_cache notify [] s = Some ([], None, s)"
| "tell_cache notify (result # results) s =
     (case (if bulk_ok result then notify (bulk_uid result) s else Some (Inr (), s)) of
        None \<Rightarrow> None
      | Some (Inl error, s1) \<Rightarrow> Some ([], Some error, s1)
      | Some (Inr _, s1) \<Rightarrow> map_option (\<lambda>(rest, e, s2). (result # rest, e, s2)) (tell_cache notify results s1))"

definition bulk_with_cache where
  "bulk_with_cache notify (request :: ('o, bulk_result) gen) (s :: ('c, 'kc, 'o) access_state) =
     (case request (na_outside s) of
        (results, e, w) \<Rightarrow>
          map_option (\<lambda>(rs, e', s'). (rs, case e' of Some t \<Rightarrow> Some t | None \<Rightarrow> e, s'))
            (tell_cache notify results (s\<lparr>na_outside := w\<rparr>)))"

definition trashNodes where
  "trashNodes env ep nodeUids = bulk_with_cache (\<lambda>uid. notifyNodeChanged env uid None) (api_trashNodes ep nodeUids)"

definition restoreNodes where
  "restoreNodes env ep nodeUids = bulk_with_cache (\<lambda>uid. notifyNodeChanged env uid None) (api_restoreNodes ep nodeUids)"

definition deleteTrashedNodes where
  "deleteTrashedNodes env ep nodeUids = bulk_with_cache (notifyNodeDeleted env) (api_deleteTrashedNodes ep nodeUids)"

section \<open>New folders\<close>

text \<open>\<open>now\<close> is the time of the new node.\<close>

definition generateNodeFolderBase :: "int \<Rightarrow> jsval \<Rightarrow> string \<Rightarrow> string \<Rightarrow> folder_crypto \<Rightarrow> thrown + jsval" where
  "generateNodeFolderBase now parentNode nodeUid name encryptedCrypto =
     (let author = resultOk_email (present (fo_signatureEmail encryptedCrypto)) in
      try_bind (splitNodeUid nodeUid) (\<lambda>(volumeId, _).
       Inr (JObj
        [(''hash'', JStr (fo_hash encryptedCrypto)), (''encryptedName'', JStr (fo_encryptedName encryptedCrypto)),
         (''uid'', JStr nodeUid), (''parentUid'', js_opt ''uid'' parentNode), (''type'', JStr ''folder''),
         (''mediaType'', JStr ''Folder''), (''creationTime'', JDate (Some now)), (''modificationTime'', JDate (Some now)),
         (''isShared'', JBool False), (''isSharedPublicly'', JBool False), (''directRole'', JStr ''inherited''),
         (''ownedBy'', js_opt ''ownedBy'' parentNode), (''isStale'', JBool False), (''keyAuthor'', author),
         (''nameAuthor'', author), (''name'', resultOk (JStr name)), (''treeEventScopeId'', JStr volumeId)])))"

definition folder_request_of :: "folder_crypto \<Rightarrow> new_folder" where
  "folder_request_of c =
     \<lparr>nf_armoredKey = fo_armoredKey c, nf_armoredHashKey = fo_armoredHashKey c,
      nf_armoredNodePassphrase = fo_armoredNodePassphrase c,
      nf_armoredNodePassphraseSignature = fo_armoredNodePassphraseSignature c,
      nf_signatureEmail = fo_signatureEmail c, nf_encryptedName = fo_encryptedName c, nf_hash = fo_hash c,
      nf_armoredExtendedAttributes = fo_armoredExtendedAttributes c\<rparr>"

text \<open>\<open>render\<close> gives the text of the extended attributes as the string that is encrypted.\<close>

definition createFolder where
  "createFolder (env :: ('c, 'kc, 'o, 'e, 'u, 'k, 'sk) nodes_access) svc ep fuel render now
     parentNodeUid folderName modificationTime =
     then_run (of_res (validateNodeName folderName)) (\<lambda>_.
     then_run (getNode env fuel parentNodeUid) (\<lambda>parentNode.
     then_run (getNodeKeys env fuel parentNodeUid) (\<lambda>parentKeys.
       case ky_hashKey parentKeys of
         None \<Rightarrow> throw_run (throw_new ValidationError ''Creating folders in non-folders is not allowed'')
       | Some hashKey \<Rightarrow>
           then_run (getNodeSigningKeys env fuel None (Some parentNodeUid)) (\<lambda>signingKeys.
           then_run (on_outside (createFolder_crypto svc (ky_key parentKeys) hashKey signingKeys folderName
                      (map_option render (generateFolderExtendedAttributes modificationTime)))) (\<lambda>(encryptedCrypto, keys).
           then_run (on_outside (api_createFolder ep parentNodeUid (folder_request_of encryptedCrypto))) (\<lambda>nodeUid.
           then_run (notifyChildCreated env parentNodeUid) (\<lambda>_.
           then_run (of_res (generateNodeFolderBase now parentNode nodeUid folderName encryptedCrypto)) (\<lambda>node.
           then_run (on_keys (kci_setNodeKeys (ae_keys env) nodeUid keys)) (\<lambda>_.
           give_run node)))))))))"

section \<open>Available names\<close>

definition AVAILABLE_NAME_BATCH_SIZE :: nat where "AVAILABLE_NAME_BATCH_SIZE = 10"
definition AVAILABLE_NAME_LIMIT :: nat where "AVAILABLE_NAME_LIMIT = 1000"

definition names_from :: "string \<Rightarrow> nat \<Rightarrow> string list" where
  "names_from name startIndex =
     (case splitExtension name of (namePart, extension) \<Rightarrow>
        (if startIndex = 1 then [name] else [])
        @ map (\<lambda>i. joinNameAndExtension namePart i extension) [startIndex ..< startIndex + AVAILABLE_NAME_BATCH_SIZE])"

function available_name ::
  "('o, 'k, 'sk) crypto_services \<Rightarrow> 'o node_endpoints \<Rightarrow> string \<Rightarrow> bytes \<Rightarrow> string \<Rightarrow> nat \<Rightarrow> 'o \<Rightarrow> (thrown + string) \<times> 'o"
where
  "available_name svc ep parentFolderUid hashKey name startIndex s =
     (if startIndex < AVAILABLE_NAME_LIMIT
      then await (of_result (generateNameHashes svc hashKey (names_from name startIndex))) (\<lambda>hashes.
           await (checkAvailableHashes ep parentFolderUid (map snd hashes)) (\<lambda>(availableHashes, _).
             case availableHashes of
               [] \<Rightarrow> available_name svc ep parentFolderUid hashKey name (startIndex + AVAILABLE_NAME_BATCH_SIZE)
             | first # _ \<Rightarrow>
                 (case find (\<lambda>(_, hash). hash = first) hashes of
                    None \<Rightarrow> throw_act (throw_new JsError ''Backend returned unexpected hash'')
                  | Some (n, _) \<Rightarrow> give n))) s
      else (Inl (throw_new ValidationError ''No available name found''), s))"
  by pat_completeness auto

termination
  by (relation "measure (\<lambda>(svc, ep, uid, key, name, startIndex, s). AVAILABLE_NAME_LIMIT - startIndex)")
    (auto simp: AVAILABLE_NAME_LIMIT_def AVAILABLE_NAME_BATCH_SIZE_def)

declare available_name.simps [simp del]

definition findAvailableName where
  "findAvailableName (env :: ('c, 'kc, 'o, 'e, 'u, 'k, 'sk) nodes_access) svc ep fuel parentFolderUid name =
     then_run (getNodeKeys env fuel parentFolderUid) (\<lambda>parentKeys.
       case ky_hashKey parentKeys of
         None \<Rightarrow> throw_run (throw_new ValidationError ''Creating files in non-folders is not allowed'')
       | Some hashKey \<Rightarrow> on_outside (available_name svc ep parentFolderUid hashKey name 1))"

section \<open>Revisions\<close>

definition full_revision :: "(jsval \<Rightarrow> int option) \<Rightarrow> (jsval \<Rightarrow> js_text option) \<Rightarrow> jsval \<Rightarrow> jsval" where
  "full_revision date_of text_of revision =
     (let attributes = parseFileExtendedAttributes date_of (date_value (js_opt ''creationTime'' revision))
            (text_of (js_opt ''extendedAttributes'' revision));
          verified = js_opt ''sha1Verified'' revision
      in JObj (js_with (js_spread revision) (claimed_fields attributes @
           [(''claimedDigests'',
             JObj ((case fa_claimedDigests_sha1 attributes of Some h \<Rightarrow> [(''sha1'', JStr h)] | None \<Rightarrow> [])
                   @ [(''sha1Verified'', if js_truthy verified then verified else JBool False)]))])))"

definition rv_getRevision where
  "rv_getRevision date_of text_of (env :: ('c, 'kc, 'o, 'e, 'u, 'k, 'sk) nodes_access) svc ep fuel nodeRevisionUid =
     then_run (of_res (makeNodeUidFromRevisionUid nodeRevisionUid)) (\<lambda>nodeUid.
     then_run (getNodeKeys env fuel nodeUid) (\<lambda>keys.
     then_run (on_outside (api_getRevision ep nodeRevisionUid)) (\<lambda>encryptedRevision.
     then_run (of_res (decryptRevision svc encryptedRevision (ky_key keys))) (\<lambda>revision.
     give_run (full_revision date_of text_of revision)))))"

text \<open>Revisions are decrypted as they are yielded: those before one that fails have been yielded.\<close>

fun decrypt_revisions where
  "decrypt_revisions date_of text_of svc key [] = ([], None)"
| "decrypt_revisions date_of text_of svc key (encryptedRevision # rest) =
     (case decryptRevision svc encryptedRevision key of
        Inl error \<Rightarrow> ([], Some error)
      | Inr revision \<Rightarrow>
          (case decrypt_revisions date_of text_of svc key rest of
             (revisions, e) \<Rightarrow> (full_revision date_of text_of revision # revisions, e)))"

definition iterateRevisions where
  "iterateRevisions date_of text_of (env :: ('c, 'kc, 'o, 'e, 'u, 'k, 'sk) nodes_access) svc ep fuel nodeUid s =
     (case then_run (getNodeKeys env fuel nodeUid) (\<lambda>keys.
           then_run (on_outside (api_getRevisions ep nodeUid)) (\<lambda>encryptedRevisions. give_run (keys, encryptedRevisions))) s of
        None \<Rightarrow> None
      | Some (Inl error, s') \<Rightarrow> Some ([], Some error, s')
      | Some (Inr (keys, encryptedRevisions), s') \<Rightarrow>
          (case decrypt_revisions date_of text_of svc (ky_key keys) encryptedRevisions of
             (revisions, e) \<Rightarrow> Some (revisions, e, s')))"

definition rv_restoreRevision where
  "rv_restoreRevision env ep nodeRevisionUid =
     then_run (on_outside (api_restoreRevision ep nodeRevisionUid)) (\<lambda>_.
     then_run (of_res (makeNodeUidFromRevisionUid nodeRevisionUid)) (\<lambda>nodeUid.
     notifyNodeChanged env nodeUid None))"

definition rv_deleteRevision :: "'o node_endpoints \<Rightarrow> string \<Rightarrow> (('c, 'kc, 'o) access_state, unit) run" where
  "rv_deleteRevision ep nodeRevisionUid = on_outside (api_deleteRevision ep nodeRevisionUid)"

end
