(* ===== verification/NodesManagementProofs.thy ===== *)
theory NodesManagementProofs
  imports NodesManagement NodesCryptoProofs "HOL-Library.Multiset"
begin

text \<open>
  What the operations on nodes promise: a free name is found, if there is one, and is the best of its batch;
  listings page through all of a folder; bulk operations report each node once and leave the cache in step.
\<close>

section \<open>Available names\<close>

text \<open>The server says which of the hashes it is asked about are not taken.\<close>

definition tells_free :: "'o node_endpoints \<Rightarrow> string set \<Rightarrow> bool" where
  "tells_free ep taken \<longleftrightarrow>
     (\<forall>v n hashes c s. \<exists>free pending s'. ep_postCheckAvailableHashes ep v n hashes c s = (Inr (free, pending), s')
        \<and> set free = set hashes - taken)"

definition candidates :: "string \<Rightarrow> string list" where
  "candidates name = name # map (\<lambda>i. joinNameAndExtension (fst (splitExtension name)) i (snd (splitExtension name)))
     [1 ..< 1001]"

lemma hashes_of_names:
  assumes "\<forall>n \<in> set names. generateLookupHash (cs_openpgp svc) n hashKey = Inr (hash n)"
  shows "generateNameHashes svc hashKey names = Inr (map (\<lambda>n. (n, hash n)) names)"
  using assms by (induction names) simp_all

declare generateNameHashes.simps [simp del]

lemma check_free:
  assumes "tells_free ep taken" "splitNodeUid uid = Inr p"
  obtains free pending s' where "checkAvailableHashes ep uid hashes s = (Inr (free, pending), s')"
    "set free = set hashes - taken"
proof -
  obtain v n where p: "p = (v, n)" by (cases p)
  obtain free pending s' where "ep_postCheckAvailableHashes ep v n hashes (map_option (\<lambda>c. [c]) (present (ep_clientUid ep))) s
      = (Inr (free, pending), s')" "set free = set hashes - taken"
    using assms(1) unfolding tells_free_def by blast
  then show thesis
    using assms(2) that p by (simp add: checkAvailableHashes_def run_act)
qed

abbreviation taken_batches :: "string set \<Rightarrow> (string \<Rightarrow> string) \<Rightarrow> string \<Rightarrow> nat set \<Rightarrow> bool" where
  "taken_batches taken hash name js \<equiv> \<forall>j \<in> js. \<forall>m \<in> set (names_from name (10 * j + 1)). hash m \<in> taken"

lemma candidate_batches: "set (candidates name) = (\<Union>j < 100. set (names_from name (10 * j + 1)))"
proof -
  obtain n e where split: "splitExtension name = (n, e)" by fastforce
  have batch: "set (names_from name (10 * j + 1)) =
      (if j = 0 then {name} else {}) \<union> (\<lambda>i. joinNameAndExtension n i e) ` {10 * j + 1 ..< 10 * j + 11}" for j
    by (simp add: names_from_def split AVAILABLE_NAME_BATCH_SIZE_def add.commute)
  have "(\<Union>j < 100. {10 * j + 1 ..< 10 * j + 11}) = {1 ..< 1001 :: nat}"
  proof (rule set_eqI, rule iffI)
    fix i :: nat assume "i \<in> {1 ..< 1001}"
    then have "(i - 1) div 10 < 100" "i \<in> {10 * ((i - 1) div 10) + 1 ..< 10 * ((i - 1) div 10) + 11}" by auto
    then show "i \<in> (\<Union>j < 100. {10 * j + 1 ..< 10 * j + 11})" by blast
  qed auto
  then have "(\<Union>j < 100. (\<lambda>i. joinNameAndExtension n i e) ` {10 * j + 1 ..< 10 * j + 11})
      = (\<lambda>i. joinNameAndExtension n i e) ` {1 ..< 1001}" by (simp add: image_UN [symmetric])
  moreover have "(\<Union>j < (100 :: nat). if j = 0 then {name} else {}) = {name}" by (auto split: if_splits)
  ultimately show ?thesis unfolding batch UN_Un_distrib by (simp add: candidates_def split)
qed

lemma search_from:
  assumes "tells_free ep taken" "splitNodeUid uid = Inr p"
    and hash: "\<forall>n \<in> set (candidates name). generateLookupHash (cs_openpgp svc) n hashKey = Inr (hash n)"
    and "j \<le> 100"
  shows "\<exists>r s'. available_name svc ep uid hashKey name (10 * j + 1) s = (r, s') \<and>
    (case r of
       Inr n \<Rightarrow> hash n \<notin> taken
         \<and> (\<exists>k < 100. j \<le> k \<and> n \<in> set (names_from name (10 * k + 1)) \<and> taken_batches taken hash name {j ..< k})
     | Inl e \<Rightarrow> e = throw_new ValidationError ''No available name found'' \<and> taken_batches taken hash name {j ..< 100})"
  using \<open>j \<le> 100\<close>
proof (induction "100 - j" arbitrary: j s)
  case 0
  then have "available_name svc ep uid hashKey name (10 * j + 1) s
      = (Inl (throw_new ValidationError ''No available name found''), s)"
    by (subst available_name.simps) (simp add: AVAILABLE_NAME_LIMIT_def)
  with 0 show ?case by auto
next
  case (Suc d)
  then have j: "j < 100" "d = 100 - Suc j" "Suc j \<le> 100" by auto
  let ?names = "names_from name (10 * j + 1)"
  have "set ?names \<subseteq> set (candidates name)" using j(1) by (auto simp: candidate_batches)
  then have hashes: "generateNameHashes svc hashKey ?names = Inr (map (\<lambda>n. (n, hash n)) ?names)"
    using hash by (intro hashes_of_names) auto
  obtain free pending s1 where free: "checkAvailableHashes ep uid (map hash ?names) s = (Inr (free, pending), s1)"
    "set free = hash ` set ?names - taken"
    using check_free [OF assms(1,2)] by (metis set_map)
  have step: "available_name svc ep uid hashKey name (10 * j + 1) s =
      (case free of [] \<Rightarrow> available_name svc ep uid hashKey name (10 * Suc j + 1)
       | first # _ \<Rightarrow> (case find (\<lambda>(_, hash). hash = first) (map (\<lambda>n. (n, hash n)) ?names) of
           None \<Rightarrow> throw_act (throw_new JsError ''Backend returned unexpected hash'') | Some (n, _) \<Rightarrow> give n)) s1"
  proof -
    have "10 * j + 1 + AVAILABLE_NAME_BATCH_SIZE = 10 * Suc j + 1" "10 * j + 1 < AVAILABLE_NAME_LIMIT"
      using j(1) by (simp_all add: AVAILABLE_NAME_BATCH_SIZE_def AVAILABLE_NAME_LIMIT_def)
    with free(1) show ?thesis
      by (subst available_name.simps) (simp only: hashes await_def of_result_def if_True sum.case prod.case map_map comp_def snd_conv)
  qed
  show ?case
  proof (cases free)
    case Nil
    with free(2) have batch: "\<forall>m \<in> set ?names. hash m \<in> taken" by auto
    obtain r s' where r: "available_name svc ep uid hashKey name (10 * Suc j + 1) s1 = (r, s')"
      and outcome: "case r of
         Inr n \<Rightarrow> hash n \<notin> taken
           \<and> (\<exists>k < 100. Suc j \<le> k \<and> n \<in> set (names_from name (10 * k + 1)) \<and> taken_batches taken hash name {Suc j ..< k})
       | Inl e \<Rightarrow> e = throw_new ValidationError ''No available name found'' \<and> taken_batches taken hash name {Suc j ..< 100}"
      using Suc.hyps(1) [OF j(2,3)] by blast
    have more: "taken_batches taken hash name {j ..< k}" if "taken_batches taken hash name {Suc j ..< k}" for k
      using that batch by (metis atLeastLessThan_iff le_neq_implies_less Suc_leI)
    have "available_name svc ep uid hashKey name (10 * j + 1) s = (r, s')" using step r Nil by simp
    moreover have "case r of
         Inr n \<Rightarrow> hash n \<notin> taken
           \<and> (\<exists>k < 100. j \<le> k \<and> n \<in> set (names_from name (10 * k + 1)) \<and> taken_batches taken hash name {j ..< k})
       | Inl e \<Rightarrow> e = throw_new ValidationError ''No available name found'' \<and> taken_batches taken hash name {j ..< 100}"
      using outcome more by (cases r) (auto dest: Suc_leD)
    ultimately show ?thesis by blast
  next
    case (Cons first rest)
    with free(2) have "first \<in> hash ` set ?names" "first \<notin> taken" by auto
    then have "\<exists>x \<in> set (map (\<lambda>n. (n, hash n)) ?names). (\<lambda>(_, h). h = first) x" by auto
    then obtain n h where found: "find (\<lambda>(_, hash). hash = first) (map (\<lambda>n. (n, hash n)) ?names) = Some (n, h)"
      by (cases "find (\<lambda>(_, hash). hash = first) (map (\<lambda>n. (n, hash n)) ?names)") (auto simp: find_None_iff)
    then have n: "n \<in> set ?names" "hash n = first" by (auto simp: find_Some_iff)
    have "available_name svc ep uid hashKey name (10 * j + 1) s = (Inr n, s1)"
      using step unfolding Cons list.case found option.case prod.case give_def .
    moreover have "\<exists>k < 100. j \<le> k \<and> n \<in> set (names_from name (10 * k + 1)) \<and> taken_batches taken hash name {j ..< k}"
      using n(1) j(1) by (intro exI [of _ j]) simp
    ultimately show ?thesis using n \<open>first \<notin> taken\<close> by simp
  qed
qed


section \<open>Pages\<close>

text \<open>
  The children of a folder are \<open>ids\<close>: after the anchor, the last one given so far, each page gives at least one
  of them and says truly whether there are more. The trash is the pages \<open>ps\<close>, none of them empty.
\<close>

definition pages_children :: "'o node_endpoints \<Rightarrow> string \<Rightarrow> string \<Rightarrow> bool \<Rightarrow> string list \<Rightarrow> bool" where
  "pages_children ep v p onlyFolders ids \<longleftrightarrow>
     (\<forall>given rest s. ids = given @ rest \<longrightarrow>
        (\<exists>n page s'. ep_getChildren ep v p onlyFolders (if given = [] then '''' else last given) s = (Inr page, s')
           \<and> cp_LinkIDs page = take n rest \<and> (rest \<noteq> [] \<longrightarrow> 0 < n) \<and> (cp_More page \<longleftrightarrow> n < length rest)
           \<and> (cp_More page \<longrightarrow> cp_AnchorID page = Some (last (take n rest)))))"

definition pages_trash :: "'o node_endpoints \<Rightarrow> string \<Rightarrow> string list list list \<Rightarrow> bool" where
  "pages_trash ep v ps \<longleftrightarrow>
     (\<forall>page s. \<exists>s'. ep_getTrash ep v page s = (Inr (if page < length ps then ps ! page else []), s'))
     \<and> (\<forall>trash \<in> set ps. concat trash \<noteq> [])"

lemma children_from:
  assumes "pages_children ep v p onlyFolders ids" "'''' \<notin> set ids"
  shows "ids = given @ rest \<Longrightarrow> length rest < fuel \<Longrightarrow>
     \<exists>s'. children_pages ep v p onlyFolders fuel (if given = [] then '''' else last given) s
       = Some (map (makeNodeUid v) rest, None, s')"
proof (induction fuel arbitrary: given rest s)
  case (Suc fuel)
  obtain n page s1 where page: "ep_getChildren ep v p onlyFolders (if given = [] then '''' else last given) s = (Inr page, s1)"
    "cp_LinkIDs page = take n rest" "rest \<noteq> [] \<longrightarrow> 0 < n" "cp_More page \<longleftrightarrow> n < length rest"
    "cp_More page \<longrightarrow> cp_AnchorID page = Some (last (take n rest))"
    using assms(1) Suc.prems(1) unfolding pages_children_def by metis
  show ?case
  proof (cases "n < length rest")
    case True
    let ?given = "given @ take n rest"
    from True page(3) have ne: "take n rest \<noteq> []" by auto
    have "last (take n rest) \<in> set ids"
      using last_in_set [OF ne] Suc.prems(1) by (auto dest: in_set_takeD)
    with assms(2) have "present (cp_AnchorID page) = Some (last ?given)"
      using True page(4,5) ne by (auto simp: present_def split: list.split)
    moreover have "0 < n" "length (drop n rest) < fuel" using Suc.prems(2) True page(3) by auto
    then obtain s' where "children_pages ep v p onlyFolders fuel (last ?given) s1
        = Some (map (makeNodeUid v) (drop n rest), None, s')"
      using Suc.IH [of ?given "drop n rest" s1] Suc.prems(1) ne by auto
    ultimately show ?thesis
      using page True by (simp add: drop_map [symmetric] take_map [symmetric])
  qed (use page in \<open>simp split: option.split\<close>)
qed simp

lemma trash_from:
  assumes "pages_trash ep v ps"
  shows "length ps - page < fuel \<Longrightarrow> \<exists>s'. trash_pages ep v fuel page s
       = Some (map (makeNodeUid v) (concat (concat (drop page ps))), None, s')"
proof (induction fuel arbitrary: page s)
  case (Suc fuel)
  obtain s1 where s1: "ep_getTrash ep v page s = (Inr (if page < length ps then ps ! page else []), s1)"
    using assms unfolding pages_trash_def by blast
  show ?case
  proof (cases "page < length ps")
    case True
    then have "concat (ps ! page) \<noteq> []" using assms by (simp add: pages_trash_def)
    moreover have "length ps - Suc page < fuel" using Suc.prems True by arith
    then obtain s' where "trash_pages ep v fuel (Suc page) s1
        = Some (map (makeNodeUid v) (concat (concat (drop (Suc page) ps))), None, s')"
      using Suc.IH by blast
    ultimately show ?thesis using s1 True by (simp add: Cons_nth_drop_Suc [symmetric]) blast
  qed (use s1 in simp)
qed simp

text \<open>
  C37: the listings of a folder and of the trash end, after at most one page for each child and one more, and
  at most one page more than the trash has, and they yield every child and every trashed node, in the
  order of the server and once.
\<close>

theorem listings_are_complete:
  assumes "pages_children ep v p onlyFolders ids" "'''' \<notin> set ids" "splitNodeUid folderUid = Inr (v, p)" "length ids < fuel"
    and "pages_trash ep v ps" "length ps < fuel"
  shows "(\<exists>s'. iterateChildrenNodeUids ep fuel folderUid onlyFolders s = Some (map (makeNodeUid v) ids, None, s'))
    \<and> (\<exists>s'. iterateTrashedNodeUids ep fuel v s = Some (map (makeNodeUid v) (concat (concat ps)), None, s'))"
  using children_from [OF assms(1,2), of "[]" ids fuel s] trash_from [OF assms(5), of 0 fuel s] assms(3,4,6)
  by (simp_all add: iterateChildrenNodeUids_def iterateTrashedNodeUids_def)

section \<open>Bulk operations\<close>

lemma mset_by_volume: "mset (concat (map snd (by_volume ps))) = mset (map snd ps)"
proof -
  have "mset (concat (map (\<lambda>v. map snd (filter (\<lambda>p. fst p = v) ps)) ks)) = mset (map snd ps)"
    if "distinct ks" "fst ` set ps \<subseteq> set ks" for ks
    using that
  proof (induction ks arbitrary: ps)
    case (Cons k ks)
    let ?qs = "filter (\<lambda>p. fst p \<noteq> k) ps"
    have same: "map (\<lambda>v. map snd (filter (\<lambda>p. fst p = v) ?qs)) ks = map (\<lambda>v. map snd (filter (\<lambda>p. fst p = v) ps)) ks"
      using Cons.prems(1) by (intro map_cong refl arg_cong [where f = "map snd"]) (auto intro!: filter_cong)
    have "mset (concat (map (\<lambda>v. map snd (filter (\<lambda>p. fst p = v) ?qs)) ks)) = mset (map snd ?qs)"
      using Cons.prems by (intro Cons.IH) auto
    then have "mset (concat (map (\<lambda>v. map snd (filter (\<lambda>p. fst p = v) ps)) ks)) = mset (map snd ?qs)" unfolding same .
    moreover have "mset (map snd ps) = mset (map snd (filter (\<lambda>p. fst p = k) ps)) + mset (map snd ?qs)"
      by (induction ps) auto
    ultimately show ?case by simp
  qed simp
  from this [of "set_of (map fst ps)"] show ?thesis by (simp add: by_volume_def comp_def)
qed

lemma group_uids:
  assumes "groupNodeUidsByVolumeAndIteratePerBatch uids = Inr groups"
  shows "mset (concat (map (map snd \<circ> snd) groups)) = mset uids" and "\<forall>u \<in> set uids. volume_of u \<noteq> None"
proof -
  obtain all where all: "try_map (\<lambda>u. try_bind (splitNodeUid u) (\<lambda>(v, n). Inr (v, n, u))) uids = Inr all"
    and groups: "groups = concat (map (\<lambda>(v, ids). map (Pair v) (batches_from ids API_NODES_BATCH_SIZE 0)) (by_volume all))"
    using assms by (auto simp: groupNodeUidsByVolumeAndIteratePerBatch_def try_bind_Inr_iff)
  from all have pairs: "list_all2 (\<lambda>u a. \<exists>v n. splitNodeUid u = Inr (v, n) \<and> a = (v, n, u)) uids all"
    by (auto simp: try_map_Inr_iff try_bind_Inr_iff elim!: list_all2_mono)
  have all_uids: "map (snd \<circ> snd) all = uids" using pairs by (induction rule: list_all2_induct) auto
  have each: "concat (map (map snd \<circ> snd) (map (Pair v) (batches_from ids API_NODES_BATCH_SIZE 0))) = map snd ids"
    for v and ids :: "(string \<times> string) list"
    using concat_batches_from [of API_NODES_BATCH_SIZE ids 0] by (simp add: comp_def map_concat [symmetric] API_NODES_BATCH_SIZE_def)
  have "concat (map (map snd \<circ> snd) (concat (map (\<lambda>(v, ids). map (Pair v) (batches_from ids API_NODES_BATCH_SIZE 0)) vs)))
      = map snd (concat (map snd vs))" for vs :: "(string \<times> (string \<times> string) list) list"
    by (induction vs) (use each [unfolded comp_def] in \<open>auto simp del: map_map simp: comp_def\<close>)
  then have "concat (map (map snd \<circ> snd) groups) = map snd (concat (map snd (by_volume all)))" unfolding groups .
  then have "mset (concat (map (map snd \<circ> snd) groups)) = image_mset snd (mset (concat (map snd (by_volume all))))"
    by (simp only: mset_map)
  also have "\<dots> = mset (map (snd \<circ> snd) all)" unfolding mset_by_volume by (simp add: multiset.map_comp)
  finally show "mset (concat (map (map snd \<circ> snd) groups)) = mset uids" unfolding all_uids .
  show "\<forall>u \<in> set uids. volume_of u \<noteq> None"
    using pairs by (induction rule: list_all2_induct) (auto simp: volume_of_def)
qed

lemma response_uids: "map bulk_uid (handleResponseErrors uids v responses) = uids"
  unfolding handleResponseErrors_def Let_def map_map by (rule map_idI) (simp split: option.split)

lemma batches_uids:
  "bulk_batches request groups w = (rs, e, w') \<Longrightarrow>
     \<exists>us. concat (map (map snd \<circ> snd) groups) = map bulk_uid rs @ us \<and> (e = None \<longrightarrow> us = [])"
proof (induction groups arbitrary: w rs)
  case (Cons g groups)
  obtain v ids where g: "g = (v, ids)" by (cases g)
  show ?case
  proof (cases "request v (map fst ids) w")
    case (Pair r w1)
    then show ?thesis
    proof (cases r)
      case (Inr responses)
      with Pair Cons.prems obtain rs' where rs': "bulk_batches request groups w1 = (rs', e, w')"
        "rs = handleResponseErrors (map snd ids) v responses @ rs'"
        by (auto simp: g run_gen split: prod.splits)
      with Cons.IH [OF rs'(1)] show ?thesis by (auto simp: g response_uids)
    qed (use Pair Cons.prems in \<open>auto simp: g run_gen\<close>)
  qed
qed (simp add: run_gen)

text \<open>Every UID is reported at most once, and once if the operation does not throw.\<close>

definition accounts :: "string list \<Rightarrow> bulk_result list \<Rightarrow> thrown option \<Rightarrow> bool" where
  "accounts uids results e \<longleftrightarrow>
     mset (map bulk_uid results) \<subseteq># mset uids \<and> (e = None \<longrightarrow> mset (map bulk_uid results) = mset uids)"

lemma bulk_accounts:
  assumes "bulk_request request uids w = (rs, e, w')"
  shows "accounts uids rs e" and "\<forall>r \<in> set rs. volume_of (bulk_uid r) \<noteq> None"
proof -
  have "accounts uids rs e \<and> (\<forall>r \<in> set rs. volume_of (bulk_uid r) \<noteq> None)"
  proof (cases "groupNodeUidsByVolumeAndIteratePerBatch uids")
    case (Inr groups)
    with assms have "bulk_batches request groups w = (rs, e, w')" by (simp add: bulk_request_def gen_await_def of_result_def)
    from batches_uids [OF this] obtain us where us: "concat (map (map snd \<circ> snd) groups) = map bulk_uid rs @ us" "e = None \<longrightarrow> us = []"
      by blast
    have all: "mset (map bulk_uid rs) + mset us = mset uids" using group_uids(1) [OF Inr] us(1) by simp
    from all have sub: "mset (map bulk_uid rs) \<subseteq># mset uids" by (metis mset_subset_eq_add_left)
    have "\<forall>r \<in> set rs. volume_of (bulk_uid r) \<noteq> None"
    proof
      fix r assume "r \<in> set rs"
      then have "bulk_uid r \<in> set (map bulk_uid rs)" by simp
      with mset_subset_eqD [OF sub] have "bulk_uid r \<in> set uids" unfolding set_mset_mset by blast
      with group_uids(2) [OF Inr] show "volume_of (bulk_uid r) \<noteq> None" by blast
    qed
    with sub show ?thesis using us(2) all by (auto simp: accounts_def)
  qed (use assms in \<open>auto simp: bulk_request_def gen_await_def of_result_def accounts_def\<close>)
  then show "accounts uids rs e" "\<forall>r \<in> set rs. volume_of (bulk_uid r) \<noteq> None" by blast+
qed

text \<open>
  What a mark does to a node that is kept: it is stale from then on, and still one the cache can hold.
\<close>

locale marked_cache = node_cache cache view holds good canon flag
  for cache :: "('c, 'n) node_cache_ops" and view holds good canon flag +
  assumes stale_good: "good n \<Longrightarrow> good (nv_setStale view (canon n)) \<and> nv_isStale view (nv_setStale view (canon n))
    \<and> nv_uid view (nv_setStale view (canon n)) = nv_uid view n"

text \<open>The nodes of \<open>us\<close> have become stale, or are gone with others; the rest is as it was.\<close>

definition goes_stale :: "'n node_view \<Rightarrow> (string \<rightharpoonup> 'n) \<Rightarrow> string set \<Rightarrow> (string \<rightharpoonup> 'n) \<Rightarrow> bool" where
  "goes_stale view store us store' \<longleftrightarrow>
     dom store' = dom store \<and> (\<forall>u n. store' u = Some n \<longrightarrow> (if u \<in> us then nv_isStale view n else store u = Some n))"

definition goes_away :: "(string \<rightharpoonup> 'n) \<Rightarrow> string set \<Rightarrow> (string \<rightharpoonup> 'n) \<Rightarrow> bool" where
  "goes_away store us store' \<longleftrightarrow> (\<exists>gone. us \<subseteq> gone \<and> store' = store |` (- gone))"

lemma goes_stale_more:
  "goes_stale view store {u} store1 \<Longrightarrow> goes_stale view store1 us store2 \<Longrightarrow> goes_stale view store (insert u us) store2"
  unfolding goes_stale_def by (metis domD domI insert_iff singletonD)

lemma goes_away_more:
  "goes_away store {u} store1 \<Longrightarrow> goes_away store1 us store2 \<Longrightarrow> goes_away store (insert u us) store2"
proof -
  assume "goes_away store {u} store1" "goes_away store1 us store2"
  then obtain X Y where "u \<in> X" "us \<subseteq> Y" "store2 = store |` (- X) |` (- Y)" by (auto simp: goes_away_def)
  then show ?thesis unfolding goes_away_def by (intro exI [of _ "X \<union> Y"]) (auto simp: Int_commute)
qed

abbreviation done_uids :: "bulk_result list \<Rightarrow> string set" where
  "done_uids results \<equiv> {u. BulkOk u \<in> set results}"

lemma done_uids_Cons:
  "done_uids (r # rs) = (if bulk_ok r then insert (bulk_uid r) (done_uids rs) else done_uids rs)"
  by (cases r) auto

text \<open>Whatever a notification of one node does, and is transitive, the notifications of the successes do.\<close>

lemma tell_each:
  assumes one: "\<And>u (s :: ('c, 'kc, 'o) access_state) store. P u \<Longrightarrow> hold (na_cache s) store \<Longrightarrow>
      \<exists>c' store'. notify u s = Some (Inr (), s\<lparr>na_cache := c'\<rparr>) \<and> hold c' store' \<and> R store {u} store'"
    and more: "\<And>a b c u us. R a {u} b \<Longrightarrow> R b us c \<Longrightarrow> R a (insert u us) c" and none: "\<And>a. R a {} a"
  shows "\<forall>r \<in> set rs. P (bulk_uid r) \<Longrightarrow> hold (na_cache s) store \<Longrightarrow>
     \<exists>c' store'. tell_cache notify rs s = Some (rs, None, s\<lparr>na_cache := c'\<rparr>) \<and> hold c' store'
       \<and> R store (done_uids rs) store'"
proof (induction rs arbitrary: s store)
  case Nil
  then show ?case using none by (intro exI [of _ "na_cache s"] exI [of _ store]) simp
next
  case (Cons r rs)
  show ?case
  proof (cases "bulk_ok r")
    case True
    obtain c1 store1 where s1: "notify (bulk_uid r) s = Some (Inr (), s\<lparr>na_cache := c1\<rparr>)" "hold c1 store1"
      "R store {bulk_uid r} store1" using one Cons.prems by fastforce
    obtain c2 store2 where s2: "tell_cache notify rs (s\<lparr>na_cache := c1\<rparr>) = Some (rs, None, s\<lparr>na_cache := c2\<rparr>)"
      "hold c2 store2" "R store1 (done_uids rs) store2"
      using Cons.IH [of "s\<lparr>na_cache := c1\<rparr>" store1] Cons.prems s1 by auto
    have "tell_cache notify (r # rs) s = Some (r # rs, None, s\<lparr>na_cache := c2\<rparr>)" using s1(1) s2(1) True by simp
    moreover have "R store (done_uids (r # rs)) store2" using more [OF s1(3) s2(3)] True unfolding done_uids_Cons by simp
    ultimately show ?thesis using s2(2) by blast
  next
    case False
    then have "done_uids (r # rs) = done_uids rs" by (simp only: done_uids_Cons if_False)
    with False Cons.IH [of s store] Cons.prems show ?thesis by fastforce
  qed
qed

lemma on_cache_eq: "m (na_cache s) = Some (r, c') \<Longrightarrow> on_cache m s = Some (r, s\<lparr>na_cache := c'\<rparr>)"
  by (simp add: on_cache_def)

context marked_cache begin

lemma change_marks:
  fixes s :: "('c, 'kc, 'o) access_state"
  assumes "ae_cache env = cache" "ae_view env = view" and held: "holds (na_cache s) store"
    and u: "\<not> flag u" "volume_of u \<noteq> None"
  shows "\<exists>c' store'. notifyNodeChanged env u None s = Some (Inr (), s\<lparr>na_cache := c'\<rparr>) \<and> holds c' store'
    \<and> goes_stale view store {u} store'"
proof (cases "store u")
  case None
  obtain e where "on_cache (nci_getNode cache u) s = Some (Inl e, s)"
    using on_cache_eq get_missing [OF held None u(1)] by fastforce
  then have "notifyNodeChanged env u None s = Some (Inr (), s\<lparr>na_cache := na_cache s\<rparr>)"
    by (simp add: notifyNodeChanged_def swallow_def run_defs assms(1))
  moreover have "goes_stale view store {u} store" using None by (auto simp: goes_stale_def)
  ultimately show ?thesis using held by blast
next
  case (Some n)
  let ?n = "nv_setStale view (canon n)"
  have n: "good ?n" "nv_isStale view ?n" "nv_uid view ?n = u"
    using stale_good held_nodes [OF held Some] by auto
  obtain c' where c': "nci_setNode cache ?n (na_cache s) = (Inr (), c')" "holds c' (store(u \<mapsto> ?n))"
    using set_held [OF held n(1)] u(2) n(3) by auto
  have "on_cache (nci_getNode cache u) s = Some (Inr (canon n), s)"
    using on_cache_eq [of "nci_getNode cache u" s, OF get_held [OF held Some]] by simp
  moreover have "on_cache (as_run (nci_setNode cache ?n)) s = Some (Inr (), s\<lparr>na_cache := c'\<rparr>)"
    using c'(1) by (intro on_cache_eq) (simp add: as_run_def)
  ultimately have "notifyNodeChanged env u None s = Some (Inr (), s\<lparr>na_cache := c'\<rparr>)"
    by (simp add: notifyNodeChanged_def swallow_def run_defs assms(1,2) Let_def present_def)
  moreover have "goes_stale view store {u} (store(u \<mapsto> ?n))" using Some n(2) by (auto simp: goes_stale_def)
  ultimately show ?thesis using c'(2) by blast
qed

lemma delete_removes:
  fixes s :: "('c, 'kc, 'o) access_state"
  assumes "ae_cache env = cache" and held: "holds (na_cache s) store"
  shows "\<exists>c' store'. notifyNodeDeleted env u s = Some (Inr (), s\<lparr>na_cache := c'\<rparr>) \<and> holds c' store' \<and> goes_away store {u} store'"
proof -
  obtain c' X where c': "nci_removeNodes cache [u] (na_cache s) = Some c'" "u \<in> X" "holds c' (store |` (- X))"
    using removed [OF held, of "[u]"] by auto
  then have "notifyNodeDeleted env u s = Some (Inr (), s\<lparr>na_cache := c'\<rparr>)"
    unfolding notifyNodeDeleted_def assms(1) by (intro on_cache_eq) (simp add: as_run_unit_def)
  with c' show ?thesis by (auto simp: goes_away_def)
qed

end

interpretation marked: marked_cache "client_cache date_of" node_view_of_js "client_holds date_of" good_node
    "reread_node date_of" children_flag for date_of
proof (unfold_locales, goal_cases)
  case (1 n)
  have good: "good_node (reread_node date_of n)" using reread_good [OF 1] by blast
  then have plain: "plain_object (reread_node date_of n)" by (simp add: good_node_def)
  have "node_uid (reread_node date_of n) = node_uid n"
    using client.canon_view [OF 1, of date_of] by (simp add: node_view_of_js_def)
  with good_node_set_stale [OF good, of True] opt_obj_set [OF plain] show ?case
    by (simp add: node_view_of_js_def node_uid_def string_field_def)
qed

text \<open>A bulk operation ends, accounts for its UIDs and changes the cached nodes as the relation says.\<close>

definition bulk_in_step ::
  "('s \<Rightarrow> (bulk_result list \<times> thrown option \<times> ('c, 'kc, 'o) access_state) option) \<Rightarrow> 's \<Rightarrow> ('c \<Rightarrow> (string \<rightharpoonup> 'n) \<Rightarrow> bool)
     \<Rightarrow> (string set \<Rightarrow> (string \<rightharpoonup> 'n) \<Rightarrow> bool) \<Rightarrow> string list \<Rightarrow> bool"
where
  "bulk_in_step m s hold change uids \<longleftrightarrow>
     (\<exists>results e s' store'. m s = Some (results, e, s') \<and> accounts uids results e
        \<and> hold (na_cache s') store' \<and> change (done_uids results) store')"

lemma bulk_step:
  assumes "\<And>rs (s :: ('c, 'kc, 'o) access_state). \<forall>r \<in> set rs. P (bulk_uid r) \<Longrightarrow> hold (na_cache s) store \<Longrightarrow>
      \<exists>c' store'. tell_cache notify rs s = Some (rs, None, s\<lparr>na_cache := c'\<rparr>) \<and> hold c' store' \<and> change (done_uids rs) store'"
    and "hold (na_cache s) store" and P: "\<And>u. u \<in> set uids \<Longrightarrow> volume_of u \<noteq> None \<Longrightarrow> P u"
  shows "bulk_in_step (bulk_with_cache notify (bulk_request request uids)) (s :: ('c, 'kc, 'o) access_state) hold change uids"
proof -
  obtain rs e w where run: "bulk_request request uids (na_outside s) = (rs, e, w)" by (metis prod_cases3)
  have acc: "accounts uids rs e" by (rule bulk_accounts(1) [OF run])
  have "P (bulk_uid r)" if "r \<in> set rs" for r
  proof (rule P)
    from acc have sub: "mset (map bulk_uid rs) \<subseteq># mset uids" by (simp add: accounts_def)
    have "bulk_uid r \<in> set (map bulk_uid rs)" using that by simp
    with mset_subset_eqD [OF sub] show "bulk_uid r \<in> set uids" unfolding set_mset_mset by blast
    show "volume_of (bulk_uid r) \<noteq> None" using bulk_accounts(2) [OF run] that by blast
  qed
  then obtain c' store' where "tell_cache notify rs (s\<lparr>na_outside := w\<rparr>) = Some (rs, None, s\<lparr>na_outside := w, na_cache := c'\<rparr>)"
    "hold c' store'" "change (done_uids rs) store'"
    using assms(1) [of rs "s\<lparr>na_outside := w\<rparr>"] assms(2) by auto
  with acc show ?thesis
    unfolding bulk_in_step_def bulk_with_cache_def run
    by (intro exI [of _ rs] exI [of _ e] exI [of _ "s\<lparr>na_outside := w, na_cache := c'\<rparr>"] exI [of _ store']) simp
qed


section \<open>A small server\<close>

definition demo_server :: "nat node_endpoints" where
  "demo_server =
     \<lparr>ep_postLinks = (\<lambda>v ids n. (Inr (map (\<lambda>i. demo_link\<lparr>lk_LinkID := i\<rparr>) ids), Suc n)),
      ep_getChildren = (\<lambda>v p f a n.
        (Inr (if a = '''' then \<lparr>cp_LinkIDs = [''a'', ''b''], cp_More = True, cp_AnchorID = Some ''b''\<rparr>
              else if a = ''a'' then \<lparr>cp_LinkIDs = [''b''], cp_More = True, cp_AnchorID = Some ''b''\<rparr>
              else if a = ''b'' then \<lparr>cp_LinkIDs = [''c''], cp_More = False, cp_AnchorID = Some ''c''\<rparr>
              else \<lparr>cp_LinkIDs = [], cp_More = False, cp_AnchorID = None\<rparr>), Suc n)),
      ep_getTrash = (\<lambda>v page n. (Inr (if page = 0 then [[''s''], [''t'']] else []), Suc n)),
      ep_putRename = (\<lambda>v i r n. (Inr (), Suc n)), ep_putMove = (\<lambda>v i r n. (Inr (), Suc n)),
      ep_postCopy = (\<lambda>v i w r n. (Inr ''copy'', Suc n)), ep_deleteTrash = (\<lambda>v n. (Inr (), Suc n)),
      ep_postTrashMultiple = (\<lambda>v ids n. (Inr [\<lparr>lr_LinkID = ''b'', lr_Code = Some 2501, lr_Error = Some ''gone''\<rparr>], Suc n)),
      ep_putRestoreMultiple = (\<lambda>v ids n. (Inr [], Suc n)), ep_postDeleteMultiple = (\<lambda>v ids n. (Inr [], Suc n)),
      ep_postRemoveMine = (\<lambda>v ids n. (Inr [], Suc n)), ep_postFolder = (\<lambda>v r n. (Inr ''folder'', Suc n)),
      ep_getRevision = (\<lambda>v i r n. (Inl (throw_new JsError ''No revision''), Suc n)),
      ep_getRevisions = (\<lambda>v i n. (Inr [], Suc n)), ep_postRestoreRevision = (\<lambda>v i r n. (Inr (), Suc n)),
      ep_deleteRevision = (\<lambda>v i r n. (Inr (), Suc n)),
      ep_postCheckAvailableHashes = (\<lambda>v i hashes c n. (Inr (tl hashes, []), Suc n)),
      ep_conflictLinkID = (\<lambda>_. None), ep_clientUid = None\<rparr>"


lemma three_splits:
  "[a, b, c] = xs @ ys \<Longrightarrow> xs = [] \<and> ys = [a, b, c] \<or> xs = [a] \<and> ys = [b, c] \<or> xs = [a, b] \<and> ys = [c] \<or> xs = [a, b, c] \<and> ys = []"
  by (cases xs; cases "tl xs"; cases "tl (tl xs)"; cases "tl (tl (tl xs))") auto

lemma demo_pages: "pages_children demo_server ''v'' ''p'' False [''a'', ''b'', ''c'']"
proof -
  have "\<exists>n page s'. ep_getChildren demo_server ''v'' ''p'' False (if given = [] then '''' else last given) s = (Inr page, s')
      \<and> cp_LinkIDs page = take n rest \<and> (rest \<noteq> [] \<longrightarrow> 0 < n) \<and> (cp_More page \<longleftrightarrow> n < length rest)
      \<and> (cp_More page \<longrightarrow> cp_AnchorID page = Some (last (take n rest)))"
    if "[''a'', ''b'', ''c''] = given @ rest" for given rest and s :: nat
  proof -
    from three_splits [OF that] consider "given = []" "rest = [''a'', ''b'', ''c'']" | "given = [''a'']" "rest = [''b'', ''c'']"
      | "given = [''a'', ''b'']" "rest = [''c'']" | "given = [''a'', ''b'', ''c'']" "rest = []"
      by blast
    then show ?thesis
    proof cases
      case 1 then show ?thesis by (intro exI [of _ 2]) (simp add: demo_server_def)
    next
      case 2 then show ?thesis by (intro exI [of _ 1]) (simp add: demo_server_def)
    next
      case 3 then show ?thesis by (intro exI [of _ 1]) (simp add: demo_server_def)
    next
      case 4 then show ?thesis by (intro exI [of _ 0]) (simp add: demo_server_def)
    qed
  qed
  then show ?thesis unfolding pages_children_def by blast
qed

theorem listings_are_complete_witness:
  "(\<exists>s'. iterateChildrenNodeUids demo_server 4 ''v~p'' False 0 = Some ([''v~a'', ''v~b'', ''v~c''], None, s'))
   \<and> (\<exists>s'. iterateTrashedNodeUids demo_server 4 ''v'' 0 = Some ([''v~s'', ''v~t''], None, s'))"
proof -
  have trash: "pages_trash demo_server ''v'' [[[''s''], [''t'']]]" by (simp add: pages_trash_def demo_server_def)
  have uid: "splitNodeUid ''v~p'' = Inr (''v'', ''p'')" by code_simp
  have names: "map (makeNodeUid ''v'') [''a'', ''b'', ''c''] = [''v~a'', ''v~b'', ''v~c'']"
    "map (makeNodeUid ''v'') (concat (concat [[[''s''], [''t'']]])) = [''v~s'', ''v~t'']" by code_simp+
  show ?thesis
    using listings_are_complete [OF demo_pages _ uid _ trash, of 4 0] unfolding names by simp
qed

definition demo_folder_keys :: "(8 word, 8 word) node_keys" where
  "demo_folder_keys = \<lparr>ky_passphrase = ''p'', ky_key = 7, ky_passphraseSessionKey = 1, ky_contentKeyPacket = None,
     ky_contentKeyPacketSessionKey = None, ky_hashKey = Some [1]\<rparr>"

definition demo_shares :: "(nat, 8 word) shares_service" where
  "demo_shares = \<lparr>ss_getRootIDs = give (''v'', ''root''), ss_getSharePrivateKey = (\<lambda>_. give 7),
     ss_getContextShareMemberEmailKey = (\<lambda>_. give demo_signer), ss_children = (\<lambda>_ _. yields []), ss_trashed = (\<lambda>_. yields [])\<rparr>"

definition demo_key_cache :: "(unit, (8 word, 8 word) node_keys) key_cache_ops" where
  "demo_key_cache = \<lparr>kci_getNodeKeys = (\<lambda>_. give demo_folder_keys), kci_setNodeKeys = (\<lambda>_ _. give ())\<rparr>"

definition demo_access where
  "demo_access = nodes_env (\<lambda>_. None) (\<lambda>_. None) demo_key_cache demo_crypto demo_server demo_shares (\<lambda>_. 0)"

definition demo_state where
  "demo_state c = \<lparr>na_cache = c, na_keys = (), na_loading = [], na_outside = 0 :: nat\<rparr>"

lemma demo_access_simps:
  "ae_cache demo_access = client_cache (\<lambda>_. None)" "ae_view demo_access = node_view_of_js"
  "ae_keys demo_access = demo_key_cache"
  by (simp_all add: demo_access_def nodes_env_def)

lemma demo_hash: "generateLookupHash (cs_openpgp demo_crypto) n [1] = Inr (toHex ([1] @ sym_dearmor n))"
  by (simp add: generateLookupHash_def demo_crypto_def symbolic_def)

lemma demo_getNodeKeys: "getNodeKeys demo_access fuel uid (demo_state c) = Some (Inr demo_folder_keys, demo_state c)"
  by (simp add: getNodeKeys_def getNodeKeys_with_def run_defs on_loading_def on_keys_def demo_access_simps demo_key_cache_def
      give_def demo_state_def waitForLoadingNode_def)



end
