(* ===== verification/Shares.thy ===== *)
theory Shares
  imports NodesCrypto
begin

text \<open>
  Shares and the user's own volume, \<^verbatim>\<open>internal/shares/\<close>: the requests of \<open>SharesAPIService\<close>, the caches of
  volumes and of share keys, \<open>SharesCryptoService\<close> and \<open>SharesManager\<close>. The endpoints, the two caches, OpenPGP
  and the account are the parameter \<open>shares_env\<close>; the state of the manager and of its services is \<open>shares_state\<close>.
\<close>

section \<open>Requests\<close>

datatype share_type = MainShare | StandardShare | DeviceShare | PhotoShare

text \<open>The answers of the server, \<open>gs_Memberships\<close> the IDs of the members.\<close>

record api_share =
  gs_VolumeID :: string
  gs_ShareID :: string
  gs_LinkID :: string
  gs_Creator :: string
  gs_CreateTime :: "int option"
  gs_Key :: string
  gs_Passphrase :: string
  gs_PassphraseSignature :: string
  gs_AddressID :: "string option"
  gs_Memberships :: "string list option"
  gs_Type :: int
  gs_EditorsCanShare :: bool

record api_my_files =
  mf_VolumeID :: string
  mf_ShareID :: string
  mf_LinkID :: string
  mf_CreatorEmail :: string
  mf_Key :: string
  mf_Passphrase :: string
  mf_PassphraseSignature :: string
  mf_AddressID :: string

record volume_request =
  vr_AddressID :: string
  vr_AddressKeyID :: string
  vr_ShareKey :: string
  vr_SharePassphrase :: string
  vr_SharePassphraseSignature :: string
  vr_FolderName :: string
  vr_FolderKey :: string
  vr_FolderPassphrase :: string
  vr_FolderPassphraseSignature :: string
  vr_FolderHashKey :: string

record share_request =
  sr_AddressID :: string
  sr_ShareKey :: string
  sr_SharePassphrase :: string
  sr_SharePassphraseSignature :: string
  sr_RootLinkID :: string
  sr_NameKeyPacket :: string
  sr_PassphraseKeyPacket :: string

record volume_ids =
  vi_volumeId :: string
  vi_shareId :: string
  vi_rootNodeId :: string

record 'o shares_endpoints =
  se_getMyFiles :: "('o, api_my_files) act"
  se_getVolume :: "string \<Rightarrow> ('o, string) act"
  se_getShare :: "string \<Rightarrow> ('o, api_share) act"
  se_postVolume :: "volume_request \<Rightarrow> ('o, volume_ids) act"
  se_postShare :: "string \<Rightarrow> share_request \<Rightarrow> ('o, string) act"

text \<open>A share as the API service gives it; a root share has the address it is opened with.\<close>

record base_share =
  bs_ids :: volume_ids
  bs_creatorEmail :: string
  bs_creationTime :: jsval
  bs_crypto :: encrypted_key
  bs_memberUid :: "string option"
  bs_type :: "share_type option"
  bs_editorsCanShare :: "bool option"

record root_share = base_share +
  rs_addressId :: string

definition convertShareTypeNumberToEnum :: "int \<Rightarrow> thrown + share_type option" where
  "convertShareTypeNumberToEnum n =
     (if n = 1 then Inr (Some MainShare) else if n = 2 then Inr (Some StandardShare)
      else if n = 3 then Inr (Some DeviceShare) else if n = 4 then Inr (Some PhotoShare)
      else if n = 5 then Inl (throw_new JsError ''Organization shares are not supported yet'') else Inr None)"

definition convertSharePayload :: "api_share \<Rightarrow> thrown + base_share" where
  "convertSharePayload response =
     try_bind (convertShareTypeNumberToEnum (gs_Type response)) (\<lambda>shareType.
       Inr \<lparr>bs_ids = \<lparr>vi_volumeId = gs_VolumeID response, vi_shareId = gs_ShareID response, vi_rootNodeId = gs_LinkID response\<rparr>,
            bs_creatorEmail = gs_Creator response,
            bs_creationTime = (case nonzero (gs_CreateTime response) of Some t \<Rightarrow> date_of_seconds t | None \<Rightarrow> JUndefined),
            bs_crypto = \<lparr>nk_armoredKey = gs_Key response, nk_armoredPassphrase = gs_Passphrase response,
              nk_armoredPassphraseSignature = gs_PassphraseSignature response\<rparr>,
            bs_memberUid = (case gs_Memberships response of
               Some (memberId # _) \<Rightarrow> Some (makeMemberUid (gs_ShareID response) memberId) | _ \<Rightarrow> None),
            bs_type = shareType, bs_editorsCanShare = Some (gs_EditorsCanShare response)\<rparr>)"

definition my_files_share :: "api_my_files \<Rightarrow> root_share" where
  "my_files_share response =
     \<lparr>bs_ids = \<lparr>vi_volumeId = mf_VolumeID response, vi_shareId = mf_ShareID response, vi_rootNodeId = mf_LinkID response\<rparr>,
      bs_creatorEmail = mf_CreatorEmail response, bs_creationTime = JUndefined,
      bs_crypto = \<lparr>nk_armoredKey = mf_Key response, nk_armoredPassphrase = mf_Passphrase response,
        nk_armoredPassphraseSignature = mf_PassphraseSignature response\<rparr>,
      bs_memberUid = None, bs_type = Some MainShare, bs_editorsCanShare = None, rs_addressId = mf_AddressID response\<rparr>"

definition api_getMyFiles :: "'o shares_endpoints \<Rightarrow> ('o, root_share) act" where
  "api_getMyFiles ep = await (se_getMyFiles ep) (\<lambda>response. give (my_files_share response))"

definition api_getVolume :: "'o shares_endpoints \<Rightarrow> string \<Rightarrow> ('o, string) act" where
  "api_getVolume ep volumeId = se_getVolume ep volumeId"

definition api_getShare :: "'o shares_endpoints \<Rightarrow> string \<Rightarrow> ('o, base_share) act" where
  "api_getShare ep shareId = await (se_getShare ep shareId) (\<lambda>response. of_result (convertSharePayload response))"

definition with_address :: "base_share \<Rightarrow> string \<Rightarrow> root_share" where
  "with_address share addressId =
     \<lparr>bs_ids = bs_ids share, bs_creatorEmail = bs_creatorEmail share, bs_creationTime = bs_creationTime share,
      bs_crypto = bs_crypto share, bs_memberUid = bs_memberUid share, bs_type = bs_type share,
      bs_editorsCanShare = bs_editorsCanShare share, rs_addressId = addressId\<rparr>"

definition api_getRootShare :: "'o shares_endpoints \<Rightarrow> string \<Rightarrow> ('o, root_share) act" where
  "api_getRootShare ep shareId =
     await (se_getShare ep shareId) (\<lambda>response.
       case present (gs_AddressID response) of
         None \<Rightarrow> throw_act (throw_new JsError ''Loading share without direct access is not supported'')
       | Some addressId \<Rightarrow>
           await (of_result (convertSharePayload response)) (\<lambda>share. give (with_address share addressId)))"

definition api_createVolume ::
  "'o shares_endpoints \<Rightarrow> string \<Rightarrow> string \<Rightarrow> encrypted_key \<Rightarrow> encrypted_key \<Rightarrow> string \<Rightarrow> string \<Rightarrow> ('o, volume_ids) act"
where
  "api_createVolume ep addressId addressKeyId shareKey rootKey encryptedName armoredHashKey =
     se_postVolume ep \<lparr>vr_AddressID = addressId, vr_AddressKeyID = addressKeyId,
       vr_ShareKey = nk_armoredKey shareKey, vr_SharePassphrase = nk_armoredPassphrase shareKey,
       vr_SharePassphraseSignature = nk_armoredPassphraseSignature shareKey,
       vr_FolderName = encryptedName, vr_FolderKey = nk_armoredKey rootKey,
       vr_FolderPassphrase = nk_armoredPassphrase rootKey,
       vr_FolderPassphraseSignature = nk_armoredPassphraseSignature rootKey, vr_FolderHashKey = armoredHashKey\<rparr>"

definition api_createShare ::
  "'o shares_endpoints \<Rightarrow> string \<Rightarrow> string \<Rightarrow> encrypted_key \<Rightarrow> string \<Rightarrow> string \<Rightarrow> string \<Rightarrow> ('o, string) act"
where
  "api_createShare ep volumeId addressId shareKey nodeId nameKeyPacket passphraseKeyPacket =
     se_postShare ep volumeId \<lparr>sr_AddressID = addressId, sr_ShareKey = nk_armoredKey shareKey,
       sr_SharePassphrase = nk_armoredPassphrase shareKey,
       sr_SharePassphraseSignature = nk_armoredPassphraseSignature shareKey, sr_RootLinkID = nodeId,
       sr_NameKeyPacket = nameKeyPacket, sr_PassphraseKeyPacket = passphraseKeyPacket\<rparr>"

section \<open>The caches\<close>

text \<open>A cached volume, and the tests that a text is one.\<close>

record volume =
  vo_ids :: volume_ids
  vo_creatorEmail :: string
  vo_addressId :: string

definition vc_getCacheUid :: "string \<Rightarrow> string" where "vc_getCacheUid volumeId = ''volume-'' @ volumeId"

definition serializeVolume :: "volume \<Rightarrow> js_text" where
  "serializeVolume v =
     json_stringify (JObj [(''volumeId'', JStr (vi_volumeId (vo_ids v))), (''shareId'', JStr (vi_shareId (vo_ids v))),
       (''rootNodeId'', JStr (vi_rootNodeId (vo_ids v))), (''creatorEmail'', JStr (vo_creatorEmail v)),
       (''addressId'', JStr (vo_addressId v))])"

definition deserializeVolume :: "js_text \<Rightarrow> thrown + jsval" where
  "deserializeVolume shareData =
     try_bind (json_parse shareData) (\<lambda>v.
       if not_a ''object'' v \<or> not_a ''string'' (js_opt ''volumeId'' v) \<or> not_a ''string'' (js_opt ''shareId'' v)
         \<or> not_a ''string'' (js_opt ''rootNodeId'' v) \<or> not_a ''string'' (js_opt ''creatorEmail'' v)
         \<or> not_a ''string'' (js_opt ''addressId'' v)
       then Inl (throw_new JsError ''Invalid volume data'') else Inr v)"

definition vc_setVolume :: "('c, js_text) cache_ops \<Rightarrow> volume \<Rightarrow> 'c \<Rightarrow> 'c" where
  "vc_setVolume ops v c = co_setEntity ops (vc_getCacheUid (vi_volumeId (vo_ids v))) (serializeVolume v) None c"

definition vc_removeVolume :: "('c, js_text) cache_ops \<Rightarrow> string \<Rightarrow> 'c \<Rightarrow> 'c" where
  "vc_removeVolume ops volumeId c = co_removeEntities ops [vc_getCacheUid volumeId] c"

definition vc_getVolume :: "('c, js_text) cache_ops \<Rightarrow> string \<Rightarrow> ('c, jsval) act" where
  "vc_getVolume ops volumeId c =
     (case co_getEntity ops (vc_getCacheUid volumeId) c of
        Inl e \<Rightarrow> (Inl e, c)
      | Inr volumeData \<Rightarrow>
          (case deserializeVolume volumeData of
             Inr v \<Rightarrow> (Inr v, c)
           | Inl error \<Rightarrow>
               (Inl (throw_new JsError (''Failed to deserialize volume: '' @ getErrorMessage error)),
                vc_removeVolume ops volumeId c)))"

text \<open>The cached key of a share; an entry is an object whose \<open>shareKey\<close> may be missing.\<close>

record ('k, 'sk) share_key =
  sk_key :: 'k
  sk_passphraseSessionKey :: 'sk

definition kc_getCacheKey :: "string \<Rightarrow> string" where "kc_getCacheKey shareId = ''shareKey-'' @ shareId"

definition setShareKey :: "('kc, 'v option) cache_ops \<Rightarrow> string \<Rightarrow> 'v \<Rightarrow> 'kc \<Rightarrow> 'kc" where
  "setShareKey ops shareId key c = co_setEntity ops (kc_getCacheKey shareId) (Some key) None c"

definition removeShareKeys :: "('kc, 'v option) cache_ops \<Rightarrow> string list \<Rightarrow> 'kc \<Rightarrow> 'kc" where
  "removeShareKeys ops shareIds c = co_removeEntities ops (map kc_getCacheKey shareIds) c"

definition getShareKey :: "('kc, 'v option) cache_ops \<Rightarrow> string \<Rightarrow> ('kc, 'v) act" where
  "getShareKey ops shareId c =
     (case co_getEntity ops (kc_getCacheKey shareId) c of
        Inl e \<Rightarrow> (Inl e, c)
      | Inr None \<Rightarrow> (Inl (throw_new JsError ''Failed to deserialize node keys''), removeShareKeys ops [shareId] c)
      | Inr (Some key) \<Rightarrow> (Inr key, c))"

section \<open>State and environment\<close>

datatype volume_metric_type = OwnVolume | SharedVolume

text \<open>Both metrics have the type of the volume, whether it is from before 2024, and the share.\<close>

datatype share_metric =
    ShareDecryptionError "volume_metric_type option" "bool option" thrown string
  | ShareVerificationError "volume_metric_type option" "bool option" string

record 'k own_address =
  oa_email :: string
  oa_addressId :: string
  oa_keys :: "(string \<times> 'k) list"
  oa_primaryKeyIndex :: nat

record ('o, 'k) account =
  ac_getOwnPrimaryAddress :: "('o, 'k own_address) act"
  ac_getOwnAddress :: "string \<Rightarrow> ('o, 'k own_address) act"
  ac_getPublicKeys :: "string \<Rightarrow> ('o, 'k list) act"

record ('c, 'kc, 'o) shares_state =
  sm_myFilesIds :: "volume_ids option"
  sm_rootShares :: "string \<rightharpoonup> root_share"
  sm_cache :: 'c
  sm_cryptoCache :: 'kc
  sm_reportedDecryptionErrors :: "string list"
  sm_reportedVerificationErrors :: "string list"
  sm_metrics :: "share_metric list"
  sm_world :: 'o

record ('c, 'kc, 'o, 'k, 'sk) shares_env =
  sn_api :: "'o shares_endpoints"
  sn_cache :: "('c, js_text) cache_ops"
  sn_cryptoCache :: "('kc, ('k, 'sk) share_key option) cache_ops"
  sn_openpgp :: "('o, 'k, 'sk) openpgp"
  sn_account :: "('o, 'k) account"

type_synonym ('c, 'kc, 'o, 'a) shares_act = "(('c, 'kc, 'o) shares_state, 'a) act"

definition in_world :: "('o, 'a) act \<Rightarrow> ('c, 'kc, 'o, 'a) shares_act" where
  "in_world m s = (case m (sm_world s) of (r, w) \<Rightarrow> (r, s\<lparr>sm_world := w\<rparr>))"

definition in_cache :: "('c, 'a) act \<Rightarrow> ('c, 'kc, 'o, 'a) shares_act" where
  "in_cache m s = (case m (sm_cache s) of (r, c) \<Rightarrow> (r, s\<lparr>sm_cache := c\<rparr>))"

definition in_keys :: "('kc, 'a) act \<Rightarrow> ('c, 'kc, 'o, 'a) shares_act" where
  "in_keys m s = (case m (sm_cryptoCache s) of (r, c) \<Rightarrow> (r, s\<lparr>sm_cryptoCache := c\<rparr>))"

definition update_act :: "('s \<Rightarrow> 's) \<Rightarrow> ('s, unit) act" where
  "update_act f s = (Inr (), f s)"

section \<open>SharesCryptoService\<close>

fun shareTypeToMetricContext :: "share_type \<Rightarrow> volume_metric_type" where
  "shareTypeToMetricContext MainShare = OwnVolume"
| "shareTypeToMetricContext DeviceShare = OwnVolume"
| "shareTypeToMetricContext PhotoShare = OwnVolume"
| "shareTypeToMetricContext StandardShare = SharedVolume"

definition before_2024 :: "root_share \<Rightarrow> bool option" where
  "before_2024 share =
     (if js_truthy (bs_creationTime share) then Some (before (bs_creationTime share) 1704067200000) else None)"

definition metric_type :: "root_share \<Rightarrow> volume_metric_type option" where
  "metric_type share = map_option shareTypeToMetricContext (bs_type share)"

definition reportDecryptionError :: "root_share \<Rightarrow> thrown \<Rightarrow> ('c, 'kc, 'o) shares_state \<Rightarrow> ('c, 'kc, 'o) shares_state" where
  "reportDecryptionError share error s =
     (let uid = vi_shareId (bs_ids share) in
      if isNotApplicationError error \<or> uid \<in> set (sm_reportedDecryptionErrors s) then s
      else s\<lparr>sm_metrics := sm_metrics s @ [ShareDecryptionError (metric_type share) (before_2024 share) error uid],
             sm_reportedDecryptionErrors := uid # sm_reportedDecryptionErrors s\<rparr>)"

definition reportVerificationError :: "root_share \<Rightarrow> ('c, 'kc, 'o) shares_state \<Rightarrow> ('c, 'kc, 'o) shares_state" where
  "reportVerificationError share s =
     (let uid = vi_shareId (bs_ids share) in
      if uid \<in> set (sm_reportedVerificationErrors s) then s
      else s\<lparr>sm_metrics := sm_metrics s @ [ShareVerificationError (metric_type share) (before_2024 share) uid],
             sm_reportedVerificationErrors := uid # sm_reportedVerificationErrors s\<rparr>)"

text \<open>The keys of a new tree: of the share and of its root, the name of the root and its hash key.\<close>

record ('k, 'sk) tree_bootstrap =
  tb_shareKey :: encrypted_key
  tb_shareKeys :: "('k, 'sk) opened_key"
  tb_rootKey :: encrypted_key
  tb_rootKeys :: "('k, 'sk) opened_key"
  tb_encryptedName :: string
  tb_armoredHashKey :: string

definition generate_tree :: "('s, 'k, 'sk) openpgp \<Rightarrow> string \<Rightarrow> 'k \<Rightarrow> ('s, ('k, 'sk) tree_bootstrap) act" where
  "generate_tree pg name addressKey =
     await (dc_generateKey pg [addressKey] addressKey False) (\<lambda>(shareKey, shareKeys).
     await (dc_generateKey pg [ok_key shareKeys] addressKey False) (\<lambda>(rootKey, rootKeys).
     await (encryptNodeName pg name None (Some (ok_key shareKeys)) addressKey) (\<lambda>armoredNodeName.
     await (generateHashKey pg (ok_key rootKeys)) (\<lambda>(armoredHashKey, _).
       give \<lparr>tb_shareKey = shareKey, tb_shareKeys = shareKeys, tb_rootKey = rootKey, tb_rootKeys = rootKeys,
             tb_encryptedName = armoredNodeName, tb_armoredHashKey = armoredHashKey\<rparr>))))"

definition generateVolumeBootstrap :: "('s, 'k, 'sk) openpgp \<Rightarrow> 'k \<Rightarrow> ('s, ('k, 'sk) tree_bootstrap) act" where
  "generateVolumeBootstrap pg addressKey = generate_tree pg ''root'' addressKey"

definition share_author :: "root_share \<Rightarrow> verification \<Rightarrow> jsval" where
  "share_author share verified =
     (if fst verified = SIGNED_AND_VALID then resultOk (JStr (bs_creatorEmail share))
      else author_error (JStr (bs_creatorEmail share)) (getVerificationMessage (fst verified) (snd verified) None False))"

definition decryptRootShare ::
  "('c, 'kc, 'o, 'k, 'sk) shares_env \<Rightarrow> root_share \<Rightarrow> ('c, 'kc, 'o, (root_share \<times> jsval) \<times> ('k, 'sk) share_key) shares_act"
where
  "decryptRootShare env share =
     await (in_world (ac_getOwnAddress (sn_account env) (rs_addressId share))) (\<lambda>address.
     await (in_world (ac_getPublicKeys (sn_account env) (bs_creatorEmail share))) (\<lambda>addressPublicKeys.
       case dc_decryptKey (sn_openpgp env) (nk_armoredKey (bs_crypto share)) (nk_armoredPassphrase (bs_crypto share))
              (Some (nk_armoredPassphraseSignature (bs_crypto share))) (map snd (oa_keys address)) addressPublicKeys of
         Inl error \<Rightarrow> await (update_act (reportDecryptionError share error)) (\<lambda>_. throw_act error)
       | Inr (opened, verified) \<Rightarrow>
           await (if fst verified = SIGNED_AND_VALID then give () else update_act (reportVerificationError share)) (\<lambda>_.
           give ((share, share_author share verified),
                 \<lparr>sk_key = ok_key opened, sk_passphraseSessionKey = ok_passphraseSessionKey opened\<rparr>))))"

section \<open>SharesManager\<close>

definition primary_key :: "'k own_address \<Rightarrow> thrown + string \<times> 'k" where
  "primary_key address =
     (if oa_primaryKeyIndex address < length (oa_keys address) then Inr (oa_keys address ! oa_primaryKeyIndex address)
      else Inl (throw_new JsTypeError ''Cannot read properties of undefined''))"

text \<open>The key in the cache is the object of the opened key, of which the passphrase is not read again.\<close>

definition cached_key :: "('k, 'sk) opened_key \<Rightarrow> ('k, 'sk) share_key" where
  "cached_key opened = \<lparr>sk_key = ok_key opened, sk_passphraseSessionKey = ok_passphraseSessionKey opened\<rparr>"

definition createVolume :: "('c, 'kc, 'o, 'k, 'sk) shares_env \<Rightarrow> ('c, 'kc, 'o, volume_ids) shares_act" where
  "createVolume env =
     await (in_world (ac_getOwnPrimaryAddress (sn_account env))) (\<lambda>address.
     await (of_result (primary_key address)) (\<lambda>(keyId, key).
     await (in_world (generateVolumeBootstrap (sn_openpgp env) key)) (\<lambda>bootstrap.
     await (in_world (api_createVolume (sn_api env) (oa_addressId address) keyId (tb_shareKey bootstrap)
              (tb_rootKey bootstrap) (tb_encryptedName bootstrap) (tb_armoredHashKey bootstrap))) (\<lambda>ids.
     await (in_keys (update_act (setShareKey (sn_cryptoCache env) (vi_shareId ids) (cached_key (tb_shareKeys bootstrap)))))
       (\<lambda>_. give ids)))))"

definition volume_of_share :: "root_share \<Rightarrow> volume" where
  "volume_of_share share =
     \<lparr>vo_ids = bs_ids share, vo_creatorEmail = bs_creatorEmail share, vo_addressId = rs_addressId share\<rparr>"

definition load_my_files :: "('c, 'kc, 'o, 'k, 'sk) shares_env \<Rightarrow> ('c, 'kc, 'o, volume_ids) shares_act" where
  "load_my_files env =
     await (in_world (api_getMyFiles (sn_api env))) (\<lambda>encryptedShare.
     await (decryptRootShare env encryptedShare) (\<lambda>((myFilesShare, _), key).
     await (in_keys (update_act (setShareKey (sn_cryptoCache env) (vi_shareId (bs_ids myFilesShare)) key))) (\<lambda>_.
     await (in_cache (update_act (vc_setVolume (sn_cache env) (volume_of_share encryptedShare)))) (\<lambda>_.
     await (update_act (\<lambda>s. s\<lparr>sm_myFilesIds := Some (bs_ids myFilesShare)\<rparr>)) (\<lambda>_.
       give (bs_ids myFilesShare))))))"

definition getRootIDs :: "('c, 'kc, 'o, 'k, 'sk) shares_env \<Rightarrow> ('c, 'kc, 'o, volume_ids) shares_act" where
  "getRootIDs env s =
     (case sm_myFilesIds s of
        Some ids \<Rightarrow> (Inr ids, s)
      | None \<Rightarrow>
          catch (load_my_files env)
            (\<lambda>error. if instanceof error NotFoundAPIError then createVolume env else throw_act error) s)"

definition getSharePrivateKey :: "('c, 'kc, 'o, 'k, 'sk) shares_env \<Rightarrow> string \<Rightarrow> ('c, 'kc, 'o, 'k) shares_act" where
  "getSharePrivateKey env shareId =
     catch (await (in_keys (getShareKey (sn_cryptoCache env) shareId)) (\<lambda>key. give (sk_key key)))
       (\<lambda>_. await (in_world (api_getRootShare (sn_api env) shareId)) (\<lambda>encryptedShare.
            await (decryptRootShare env encryptedShare) (\<lambda>(_, key).
            await (in_keys (update_act (setShareKey (sn_cryptoCache env) shareId key))) (\<lambda>_. give (sk_key key)))))"

record 'k member_key =
  mk_email :: string
  mk_addressId :: string
  mk_addressKey :: 'k
  mk_addressKeyId :: string

definition member_key_of :: "('c, 'kc, 'o, 'k, 'sk) shares_env \<Rightarrow> string \<Rightarrow> ('c, 'kc, 'o, 'k member_key) shares_act" where
  "member_key_of env addressId =
     await (in_world (ac_getOwnAddress (sn_account env) addressId)) (\<lambda>address.
     await (of_result (primary_key address)) (\<lambda>(keyId, key).
       give \<lparr>mk_email = oa_email address, mk_addressId = addressId, mk_addressKey = key, mk_addressKeyId = keyId\<rparr>))"

definition getMyFilesShareMemberEmailKey ::
  "('c, 'kc, 'o, 'k, 'sk) shares_env \<Rightarrow> ('c, 'kc, 'o, 'k member_key) shares_act"
where
  "getMyFilesShareMemberEmailKey env =
     await (getRootIDs env) (\<lambda>ids.
       catch (await (in_cache (vc_getVolume (sn_cache env) (vi_volumeId ids))) (\<lambda>v.
                member_key_of env (case string_field ''addressId'' v of Some a \<Rightarrow> a | None \<Rightarrow> '''')))
         (\<lambda>_. await (in_world (api_getVolume (sn_api env) (vi_volumeId ids))) (\<lambda>shareId.
              await (in_world (api_getRootShare (sn_api env) shareId)) (\<lambda>share.
              await (in_cache (update_act (vc_setVolume (sn_cache env) (volume_of_share share)))) (\<lambda>_.
              member_key_of env (rs_addressId share))))))"

definition root_share_of :: "('c, 'kc, 'o, 'k, 'sk) shares_env \<Rightarrow> string \<Rightarrow> ('c, 'kc, 'o, root_share) shares_act" where
  "root_share_of env shareId s =
     (case sm_rootShares s shareId of
        Some share \<Rightarrow> (Inr share, s)
      | None \<Rightarrow>
          await (in_world (api_getRootShare (sn_api env) shareId)) (\<lambda>share.
          await (update_act (\<lambda>s. s\<lparr>sm_rootShares := (sm_rootShares s)(shareId \<mapsto> share)\<rparr>)) (\<lambda>_. give share)) s)"

definition getContextShareMemberEmailKey ::
  "('c, 'kc, 'o, 'k, 'sk) shares_env \<Rightarrow> string \<Rightarrow> ('c, 'kc, 'o, 'k member_key) shares_act"
where
  "getContextShareMemberEmailKey env shareId =
     await (root_share_of env shareId) (\<lambda>share. member_key_of env (rs_addressId share))"

definition isOwnVolume :: "('c, 'kc, 'o, 'k, 'sk) shares_env \<Rightarrow> string \<Rightarrow> ('c, 'kc, 'o, bool) shares_act" where
  "isOwnVolume env volumeId = await (getRootIDs env) (\<lambda>ids. give (vi_volumeId ids = volumeId))"

definition getVolumeMetricContext ::
  "('c, 'kc, 'o, 'k, 'sk) shares_env \<Rightarrow> string \<Rightarrow> ('c, 'kc, 'o, volume_metric_type) shares_act"
where
  "getVolumeMetricContext env volumeId =
     await (getRootIDs env) (\<lambda>ids. give (if volumeId = vi_volumeId ids then OwnVolume else SharedVolume))"

definition loadEncryptedShare :: "('c, 'kc, 'o, 'k, 'sk) shares_env \<Rightarrow> string \<Rightarrow> ('c, 'kc, 'o, base_share) shares_act" where
  "loadEncryptedShare env shareId = in_world (api_getShare (sn_api env) shareId)"

end
