(* ===== verification/SharesProofs.thy ===== *)
theory SharesProofs
  imports Shares NodesCryptoProofs
begin

text \<open>
  What the shares module promises: a volume that was created is opened by every later session with the same
  keys, its root decrypts, and what the manager answers does not depend on what its caches hold.
\<close>

section \<open>A new tree\<close>

text \<open>The root of a tree as the server gives it, signed by the address that made it.\<close>

definition root_encrypted :: "string \<Rightarrow> encrypted_key \<Rightarrow> string \<Rightarrow> encrypted_crypto" where
  "root_encrypted email key armoredHashKey =
     \<lparr>ec_signatureEmail = Some email, ec_nameSignatureEmail = Some email, ec_armoredKey = nk_armoredKey key,
      ec_armoredNodePassphrase = nk_armoredPassphrase key,
      ec_armoredNodePassphraseSignature = Some (nk_armoredPassphraseSignature key), ec_membership = None,
      ec_kind = FolderCrypto None armoredHashKey\<rparr>"

lemma tree_run:
  assumes "generate_tree pg name k s = (Inr b, s')"
  obtains s1 s2 s3 hashKey where
    "dc_generateKey pg [k] k False s = (Inr (tb_shareKey b, tb_shareKeys b), s1)"
    "dc_generateKey pg [ok_key (tb_shareKeys b)] k False s1 = (Inr (tb_rootKey b, tb_rootKeys b), s2)"
    "encryptNodeName pg name None (Some (ok_key (tb_shareKeys b))) k s2 = (Inr (tb_encryptedName b), s3)"
    "generateHashKey pg (ok_key (tb_rootKeys b)) s3 = (Inr (tb_armoredHashKey b, hashKey), s')"
  using assms that unfolding generate_tree_def
  by (auto dest!: await_ok simp: give_def split: prod.splits)

lemma tree_share_opens:
  assumes laws: "openpgp_laws pg signs" and run: "generate_tree pg name k s = (Inr b, s')"
    and "k \<in> set ds" "k \<in> set vks"
  shows "\<exists>es. dc_decryptKey pg (nk_armoredKey (tb_shareKey b)) (nk_armoredPassphrase (tb_shareKey b))
      (Some (nk_armoredPassphraseSignature (tb_shareKey b))) ds vks = Inr (tb_shareKeys b, SIGNED_AND_VALID, es)"
proof (rule tree_run [OF run], goal_cases)
  case (1 s1 s2 s3 hashKey)
  from generated_key_opens_any [OF laws _ assms(3) 1(1), of vks] assms(4) show ?case by fastforce
qed

lemma tree_root_opens:
  assumes laws: "openpgp_laws (cs_openpgp svc) signs" and run: "generate_tree (cs_openpgp svc) name k s = (Inr b, s')"
    and keys: "cs_getPublicKeys svc email = Inr ks" "k \<in> set ks" "email \<noteq> ''''"
    and node: "string_field ''encryptedName'' node = Some (tb_encryptedName b)" "\<not> js_truthy (js_opt ''membership'' node)"
  shows "\<exists>u keys. crypto_decryptNode svc (node, root_encrypted email (tb_rootKey b) (tb_armoredHashKey b))
        (ok_key (tb_shareKeys b)) = Inr (u, Some keys)
      \<and> js_opt ''name'' u = resultOk (JStr name) \<and> js_opt ''keyAuthor'' u = resultOk (JStr email)
      \<and> ky_key keys = ok_key (tb_rootKeys b) \<and> ky_hashKey keys \<noteq> None"
proof (rule tree_run [OF run], goal_cases)
  case (1 s1 s2 s3 hashKey)
  let ?pg = "cs_openpgp svc" and ?crypto = "root_encrypted email (tb_rootKey b) (tb_armoredHashKey b)"
    and ?pk = "ok_key (tb_shareKeys b)"
  let ?parts = "\<lparr>pt_hashKey = Some hashKey, pt_contentKeyPacket = None, pt_contentKeyPacketSessionKey = None,
      pt_authors = [resultOk (JStr email), resultOk (JStr email)], pt_activeRevision = JUndefined,
      pt_folder = JObj [(''extendedAttributes'', JUndefined)], pt_errors = []\<rparr>"
  have email: "present (Some email) = Some email" using keys(3) by simp
  obtain es where key: "dc_decryptKey ?pg (nk_armoredKey (tb_rootKey b)) (nk_armoredPassphrase (tb_rootKey b))
      (Some (nk_armoredPassphraseSignature (tb_rootKey b))) [?pk] ks = Inr (tb_rootKeys b, SIGNED_AND_VALID, es)"
    using generated_key_opens [OF laws _ 1(2), of ?pk ks] keys(2) by fastforce
  obtain es' where name: "decryptNodeName ?pg (tb_encryptedName b) ?pk ks = Inr (name, SIGNED_AND_VALID, es')"
    using text_opens [OF laws _ 1(3) [unfolded encryptNodeName_def, simplified], where d = ?pk and vks = ks] keys(2)
    unfolding decryptNodeName_def by fastforce
  obtain es'' where "decryptNodeHashKey ?pg (tb_armoredHashKey b) (ok_key (tb_rootKeys b)) ks
      = Inr (hashKey, SIGNED_AND_VALID, es'')"
    using hash_key_opens [OF laws 1(4)] by blast
  then have parts: "parts_of svc node ?crypto (ok_key (tb_rootKeys b)) ks ks = Inr ?parts"
    by (simp add: parts_of_def root_encrypted_def folder_parts_def decryptHashKey_def decryptExtendedAttributes_def
        author_ok email js_string_or_undefined_def)
  have fields: "ec_signatureEmail ?crypto = Some email" "ec_nameSignatureEmail ?crypto = Some email"
    by (simp_all add: root_encrypted_def)
  have "decrypted_node svc node ?crypto ?pk ks ks ks = Inr
      (unparsed_node node (resultOk (JStr name)) (resultOk (JStr email)) (resultOk (JStr email)) JUndefined JUndefined
         (JObj [(''extendedAttributes'', JUndefined)]) [], Some (keys_opened (tb_rootKeys b) ?parts))"
    by (subst decrypts_parts [OF _ name node(1) parts])
      (use key email in \<open>simp_all add: root_encrypted_def member_none [OF node(2)]\<close>)
  then have "crypto_decryptNode svc (node, ?crypto) ?pk = Inr
      (unparsed_node node (resultOk (JStr name)) (resultOk (JStr email)) (resultOk (JStr email)) JUndefined JUndefined
         (JObj [(''extendedAttributes'', JUndefined)]) [], Some (keys_opened (tb_rootKeys b) ?parts))"
    using keys(1) email by (simp add: crypto_decryptNode_Inr fields keys_of_email_def)
  then show ?case using unparsed_fields(1,2) [OF refl] by (fastforce simp: keys_opened_def)
qed

section \<open>A volume that is created\<close>

text \<open>A server that keeps the volume it is sent, and gives its share with the creator's email.\<close>

definition my_files_of :: "volume_ids \<Rightarrow> volume_request \<Rightarrow> string \<Rightarrow> api_my_files" where
  "my_files_of ids req email =
     \<lparr>mf_VolumeID = vi_volumeId ids, mf_ShareID = vi_shareId ids, mf_LinkID = vi_rootNodeId ids,
      mf_CreatorEmail = email, mf_Key = vr_ShareKey req, mf_Passphrase = vr_SharePassphrase req,
      mf_PassphraseSignature = vr_SharePassphraseSignature req, mf_AddressID = vr_AddressID req\<rparr>"

definition keeps_volume ::
  "'o shares_endpoints \<Rightarrow> string \<Rightarrow> ('o \<Rightarrow> (volume_ids \<times> volume_request) option) \<Rightarrow> bool"
where
  "keeps_volume ep email stored \<longleftrightarrow>
     (\<forall>req w ids w'. se_postVolume ep req w = (Inr ids, w') \<longrightarrow> stored w' = Some (ids, req))
     \<and> (\<forall>w. case stored w of
              Some (ids, req) \<Rightarrow> se_getMyFiles ep w = (Inr (my_files_of ids req email), w)
            | None \<Rightarrow> \<exists>e. instanceof e NotFoundAPIError \<and> se_getMyFiles ep w = (Inl e, w))"

definition knows_address :: "('o, 'k) account \<Rightarrow> 'k own_address \<Rightarrow> 'k list \<Rightarrow> bool" where
  "knows_address account address ks \<longleftrightarrow>
     (\<forall>w. ac_getOwnPrimaryAddress account w = (Inr address, w)
        \<and> ac_getOwnAddress account (oa_addressId address) w = (Inr address, w)
        \<and> ac_getPublicKeys account (oa_email address) w = (Inr ks, w))
     \<and> snd ` set (oa_keys address) \<subseteq> set ks \<and> oa_email address \<noteq> ''''"

definition root_of_request :: "string \<Rightarrow> volume_request \<Rightarrow> encrypted_crypto" where
  "root_of_request email req =
     root_encrypted email \<lparr>nk_armoredKey = vr_FolderKey req, nk_armoredPassphrase = vr_FolderPassphrase req,
       nk_armoredPassphraseSignature = vr_FolderPassphraseSignature req\<rparr> (vr_FolderHashKey req)"

lemma keeps_volumeD:
  assumes "keeps_volume ep email stored"
  shows "stored w = None \<Longrightarrow> \<exists>e. se_getMyFiles ep w = (Inl e, w) \<and> instanceof e NotFoundAPIError"
    and "stored w = Some (ids, req) \<Longrightarrow> se_getMyFiles ep w = (Inr (my_files_of ids req email), w)"
    and "se_postVolume ep req w = (Inr ids, w') \<Longrightarrow> stored w' = Some (ids, req)"
proof -
  have "case stored w of Some (ids, req) \<Rightarrow> se_getMyFiles ep w = (Inr (my_files_of ids req email), w)
      | None \<Rightarrow> \<exists>e. instanceof e NotFoundAPIError \<and> se_getMyFiles ep w = (Inl e, w)"
    using assms unfolding keeps_volume_def by blast
  then show "stored w = None \<Longrightarrow> \<exists>e. se_getMyFiles ep w = (Inl e, w) \<and> instanceof e NotFoundAPIError"
    "stored w = Some (ids, req) \<Longrightarrow> se_getMyFiles ep w = (Inr (my_files_of ids req email), w)"
    by auto
  show "se_postVolume ep req w = (Inr ids, w') \<Longrightarrow> stored w' = Some (ids, req)"
    using assms unfolding keeps_volume_def by blast
qed

lemma primary_key_known:
  assumes "primary_key address = Inr (keyId, key)" "knows_address account address ks"
  shows "key \<in> set ks" "key \<in> set (map snd (oa_keys address))"
proof -
  have "(keyId, key) \<in> set (oa_keys address)"
    using assms(1) by (simp add: primary_key_def split: if_splits) (metis nth_mem)
  then show "key \<in> set (map snd (oa_keys address))" by force
  with assms(2) show "key \<in> set ks" by (auto simp: knows_address_def)
qed

lemma in_world_pure: "(\<And>w. m w = (r, w)) \<Longrightarrow> in_world m s = (r, s)"
  by (simp add: in_world_def)

lemma created_volume_run:
  assumes "createVolume env s = (Inr ids, s1)" and know: "knows_address (sn_account env) address ks"
  obtains keyId key b w w' w'' where
    "primary_key address = Inr (keyId, key)" "generate_tree (sn_openpgp env) ''root'' key w = (Inr b, w')"
    "api_createVolume (sn_api env) (oa_addressId address) keyId (tb_shareKey b) (tb_rootKey b) (tb_encryptedName b)
       (tb_armoredHashKey b) w' = (Inr ids, w'')"
    "s1 = s\<lparr>sm_world := w'', sm_cryptoCache :=
       setShareKey (sn_cryptoCache env) (vi_shareId ids) (cached_key (tb_shareKeys b)) (sm_cryptoCache s)\<rparr>"
proof -
  have "in_world (ac_getOwnPrimaryAddress (sn_account env)) s = (Inr address, s)"
    using know by (intro in_world_pure) (simp add: knows_address_def)
  with assms(1) that show thesis
    unfolding createVolume_def generateVolumeBootstrap_def
    by (auto dest!: await_ok simp: in_world_def of_result_def give_def in_keys_def update_act_def split: prod.splits)
qed

lemma getShareKey_set:
  assumes "storing_cache ops holds (\<lambda>_. True)" "holds c"
  shows "getShareKey ops i (setShareKey ops i k c) = (Inr k, setShareKey ops i k c)"
  using storing_cache.get_set_same [OF assms(1,2)] by (simp add: getShareKey_def setShareKey_def)

lemma getSharePrivateKey_cached:
  assumes "getShareKey (sn_cryptoCache env) i (sm_cryptoCache s) = (Inr k, sm_cryptoCache s)"
  shows "getSharePrivateKey env i s = (Inr (sk_key k), s)"
  using assms by (simp add: getSharePrivateKey_def catch_def await_def in_keys_def give_def)

lemma load_my_files_run:
  assumes "se_getMyFiles (sn_api env) (sm_world s) = (Inr mf, sm_world s)"
    and "decryptRootShare env (my_files_share mf) s = (Inr ((my_files_share mf, author), key), s)"
  shows "load_my_files env s =
    (Inr (bs_ids (my_files_share mf)),
     s\<lparr>sm_cryptoCache := setShareKey (sn_cryptoCache env) (mf_ShareID mf) key (sm_cryptoCache s),
       sm_cache := vc_setVolume (sn_cache env) (volume_of_share (my_files_share mf)) (sm_cache s),
       sm_myFilesIds := Some (bs_ids (my_files_share mf))\<rparr>)"
  using assms
  by (simp add: load_my_files_def api_getMyFiles_def await_def in_world_def give_def in_keys_def in_cache_def update_act_def
      my_files_share_def)

lemma decryptRootShare_run:
  assumes "ac_getOwnAddress (sn_account env) (rs_addressId share) (sm_world s) = (Inr address, sm_world s)"
    and "ac_getPublicKeys (sn_account env) (bs_creatorEmail share) (sm_world s) = (Inr ks, sm_world s)"
    and "dc_decryptKey (sn_openpgp env) (nk_armoredKey (bs_crypto share)) (nk_armoredPassphrase (bs_crypto share))
              (Some (nk_armoredPassphraseSignature (bs_crypto share))) (map snd (oa_keys address)) ks
         = Inr (opened, SIGNED_AND_VALID, es)"
  shows "decryptRootShare env share s =
    (Inr ((share, resultOk (JStr (bs_creatorEmail share))), cached_key opened), s)"
  using assms by (simp add: decryptRootShare_def await_def in_world_def give_def share_author_def cached_key_def)

lemma loaded_volume_opens:
  assumes laws: "openpgp_laws (sn_openpgp env) signs" and know: "knows_address (sn_account env) address ks"
    and key: "primary_key address = Inr (keyId, key)" "generate_tree (sn_openpgp env) ''root'' key w = (Inr b, w')"
    and served: "se_getMyFiles (sn_api env) (sm_world s) = (Inr mf, sm_world s)"
      "mf_AddressID mf = oa_addressId address" "mf_CreatorEmail mf = oa_email address"
      "mf_Key mf = nk_armoredKey (tb_shareKey b)" "mf_Passphrase mf = nk_armoredPassphrase (tb_shareKey b)"
      "mf_PassphraseSignature mf = nk_armoredPassphraseSignature (tb_shareKey b)"
    and cache: "storing_cache (sn_cryptoCache env) holds (\<lambda>_. True)" "holds (sm_cryptoCache s)" "sm_myFilesIds s = None"
  shows "\<exists>s'. getRootIDs env s = (Inr (bs_ids (my_files_share mf)), s') \<and> sm_metrics s' = sm_metrics s
     \<and> getSharePrivateKey env (mf_ShareID mf) s' = (Inr (ok_key (tb_shareKeys b)), s')"
proof -
  note known = primary_key_known [OF key(1) know]
  have "decryptRootShare env (my_files_share mf) s =
      (Inr ((my_files_share mf, resultOk (JStr (mf_CreatorEmail mf))), cached_key (tb_shareKeys b)), s)"
    using tree_share_opens [OF laws key(2) known(2,1)] know served(2-6)
    by (auto simp: decryptRootShare_run my_files_share_def knows_address_def)
  from load_my_files_run [OF served(1) this] show ?thesis
    using cache by (auto simp: getRootIDs_def catch_def getSharePrivateKey_cached getShareKey_set cached_key_def)
qed

lemma root_of_request_opens:
  fixes env :: "('c, 'kc, 'o, 'k, 'sk) shares_env"
  assumes "openpgp_laws (sn_openpgp env) signs" "knows_address (sn_account env) address ks"
    and "primary_key address = Inr (keyId, key)" "generate_tree (sn_openpgp env) ''root'' key w = (Inr b, w')"
    and "vr_FolderName req = tb_encryptedName b" "vr_FolderHashKey req = tb_armoredHashKey b"
      "vr_FolderKey req = nk_armoredKey (tb_rootKey b)" "vr_FolderPassphrase req = nk_armoredPassphrase (tb_rootKey b)"
      "vr_FolderPassphraseSignature req = nk_armoredPassphraseSignature (tb_rootKey b)"
  shows "\<forall>(svc :: ('o, 'k, 'sk) crypto_services) node. cs_openpgp svc = sn_openpgp env \<and> cs_getPublicKeys svc (oa_email address) = Inr ks
          \<and> string_field ''encryptedName'' node = Some (vr_FolderName req) \<and> \<not> js_truthy (js_opt ''membership'' node)
          \<longrightarrow> (\<exists>u keys. crypto_decryptNode svc (node, root_of_request (oa_email address) req) (ok_key (tb_shareKeys b))
                  = Inr (u, Some keys)
                \<and> js_opt ''name'' u = resultOk (JStr ''root'') \<and> js_opt ''keyAuthor'' u = resultOk (JStr (oa_email address))
                \<and> ky_hashKey keys \<noteq> None)"
proof (intro allI impI, elim conjE)
  fix svc :: "('o, 'k, 'sk) crypto_services" and node
  assume svc: "cs_openpgp svc = sn_openpgp env" "cs_getPublicKeys svc (oa_email address) = Inr ks"
    "string_field ''encryptedName'' node = Some (vr_FolderName req)" "\<not> js_truthy (js_opt ''membership'' node)"
  have email: "oa_email address \<noteq> ''''" using assms(2) by (simp add: knows_address_def)
  have crypto: "root_of_request (oa_email address) req = root_encrypted (oa_email address) (tb_rootKey b) (tb_armoredHashKey b)"
    using assms(6-9) by (simp add: root_of_request_def root_encrypted_def)
  from tree_root_opens [where svc = svc and k = key and b = b and s = w and s' = w' and name = "''root''", unfolded svc(1),
      OF assms(1,4) svc(2) primary_key_known(1) [OF assms(3,2)] email svc(3) [unfolded assms(5)] svc(4)]
  show "\<exists>u keys. crypto_decryptNode svc (node, root_of_request (oa_email address) req) (ok_key (tb_shareKeys b))
                  = Inr (u, Some keys)
                \<and> js_opt ''name'' u = resultOk (JStr ''root'') \<and> js_opt ''keyAuthor'' u = resultOk (JStr (oa_email address))
                \<and> ky_hashKey keys \<noteq> None"
    unfolding crypto by blast
qed

lemma created_from_nothing:
  assumes "getRootIDs env s = (Inr ids, s1)" "sm_myFilesIds s = None"
    and "se_getMyFiles (sn_api env) (sm_world s) = (Inl e, sm_world s)" "instanceof e NotFoundAPIError"
  shows "createVolume env s = (Inr ids, s1)"
proof -
  have "load_my_files env s = (Inl e, s)"
    using assms(3) by (simp add: load_my_files_def api_getMyFiles_def await_def in_world_def)
  with assms show ?thesis by (simp add: getRootIDs_def catch_def)
qed


section \<open>The caches do not show\<close>

text \<open>
  What a server and an account that do not change answer, and what is computed from it: the reference
  the manager is compared with. It has no state.
\<close>

record 'k shares_facts =
  fx_myFiles :: api_my_files
  fx_share :: "string \<Rightarrow> thrown + api_share"
  fx_address :: "string \<Rightarrow> thrown + 'k own_address"
  fx_publicKeys :: "string \<Rightarrow> thrown + 'k list"

definition answers :: "('c, 'kc, 'o, 'k, 'sk) shares_env \<Rightarrow> 'k shares_facts \<Rightarrow> bool" where
  "answers env facts \<longleftrightarrow>
     (\<forall>w. se_getMyFiles (sn_api env) w = (Inr (fx_myFiles facts), w)
        \<and> se_getVolume (sn_api env) (mf_VolumeID (fx_myFiles facts)) w = (Inr (mf_ShareID (fx_myFiles facts)), w))
     \<and> (\<forall>x w. se_getShare (sn_api env) x w = (fx_share facts x, w)
        \<and> ac_getOwnAddress (sn_account env) x w = (fx_address facts x, w)
        \<and> ac_getPublicKeys (sn_account env) x w = (fx_publicKeys facts x, w))"

definition fact_root_share :: "'k shares_facts \<Rightarrow> string \<Rightarrow> thrown + root_share" where
  "fact_root_share facts shareId =
     try_bind (fx_share facts shareId) (\<lambda>response.
       case present (gs_AddressID response) of
         None \<Rightarrow> Inl (throw_new JsError ''Loading share without direct access is not supported'')
       | Some addressId \<Rightarrow> try_bind (convertSharePayload response) (\<lambda>share. Inr (with_address share addressId)))"

definition fact_opened :: "('o, 'k, 'sk) openpgp \<Rightarrow> 'k shares_facts \<Rightarrow> root_share \<Rightarrow> thrown + ('k, 'sk) share_key" where
  "fact_opened pg facts share =
     try_bind (fx_address facts (rs_addressId share)) (\<lambda>address.
     try_bind (fx_publicKeys facts (bs_creatorEmail share)) (\<lambda>keys.
     try_bind (dc_decryptKey pg (nk_armoredKey (bs_crypto share)) (nk_armoredPassphrase (bs_crypto share))
       (Some (nk_armoredPassphraseSignature (bs_crypto share))) (map snd (oa_keys address)) keys) (\<lambda>(opened, _).
       Inr (cached_key opened))))"

definition fact_key where
  "fact_key pg facts shareId = try_bind (fact_root_share facts shareId) (fact_opened pg facts)"

definition fact_member :: "'k shares_facts \<Rightarrow> string \<Rightarrow> thrown + 'k member_key" where
  "fact_member facts addressId =
     try_bind (fx_address facts addressId) (\<lambda>address.
     try_bind (primary_key address) (\<lambda>(keyId, key).
       Inr \<lparr>mk_email = oa_email address, mk_addressId = addressId, mk_addressKey = key, mk_addressKeyId = keyId\<rparr>))"

text \<open>The user has a volume that can be opened, and the server gives its share in both ways alike.\<close>

definition own_volume :: "('o, 'k, 'sk) openpgp \<Rightarrow> 'k shares_facts \<Rightarrow> bool" where
  "own_volume pg facts \<longleftrightarrow>
     (let share = my_files_share (fx_myFiles facts) in
      (\<exists>key. fact_opened pg facts share = Inr key)
      \<and> (\<exists>r. fact_root_share facts (mf_ShareID (fx_myFiles facts)) = Inr r \<and> rs_addressId r = rs_addressId share
           \<and> bs_creatorEmail r = bs_creatorEmail share \<and> bs_crypto r = bs_crypto share \<and> bs_ids r = bs_ids share))"

text \<open>What the caches hold is what the reference gives.\<close>

definition coherent where
  "coherent env facts goodc goodk s \<longleftrightarrow>
     goodc (sm_cache s) \<and> goodk (sm_cryptoCache s)
     \<and> (sm_myFilesIds s = None \<or> sm_myFilesIds s = Some (bs_ids (my_files_share (fx_myFiles facts))))
     \<and> (\<forall>i r. sm_rootShares s i = Some r \<longrightarrow> fact_root_share facts i = Inr r)
     \<and> (\<forall>i key. co_getEntity (sn_cryptoCache env) (kc_getCacheKey i) (sm_cryptoCache s) = Inr (Some key)
          \<longrightarrow> fact_key (sn_openpgp env) facts i = Inr key)
     \<and> (\<forall>t v. co_getEntity (sn_cache env) (vc_getCacheUid (mf_VolumeID (fx_myFiles facts))) (sm_cache s) = Inr t
          \<longrightarrow> deserializeVolume t = Inr v \<longrightarrow> string_field ''addressId'' v = Some (mf_AddressID (fx_myFiles facts)))"

text \<open>An operation that answers \<open>r\<close> in every state that satisfies \<open>P\<close>, and keeps it.\<close>

definition settles :: "('s \<Rightarrow> bool) \<Rightarrow> ('s, 'a) act \<Rightarrow> thrown + 'a \<Rightarrow> bool" where
  "settles P m r \<longleftrightarrow> (\<forall>s. P s \<longrightarrow> (\<exists>s'. m s = (r, s') \<and> P s'))"

named_theorems settles_intros "rules for operations whose answer is settled"

lemma settles_give [settles_intros]: "settles P (give v) (Inr v)" "settles P (throw_act t) (Inl t)" "settles P (of_result r) r"
  by (simp_all add: settles_def run_act)

lemma settles_await [settles_intros]:
  "settles P m x \<Longrightarrow> (\<And>v. x = Inr v \<Longrightarrow> settles P (k v) (f v)) \<Longrightarrow> settles P (await m k) (try_bind x f)"
  by (cases x) (fastforce simp: settles_def await_def)+

lemma settles_update: "(\<And>s. P s \<Longrightarrow> P (f s)) \<Longrightarrow> settles P (update_act f) (Inr ())"
  by (simp add: settles_def update_act_def)

lemma settles_then_give: "settles P m (Inr v) \<Longrightarrow> settles P (k v) r \<Longrightarrow> settles P (await m k) r"
  by (fastforce simp: settles_def await_def)

lemma settles_via:
  "settles P m x \<Longrightarrow> (\<And>e. x = Inl e \<Longrightarrow> r = Inl e) \<Longrightarrow> (\<And>v. x = Inr v \<Longrightarrow> settles P (k v) r) \<Longrightarrow> settles P (await m k) r"
  by (cases x) (fastforce simp: settles_def await_def)+

lemma settles_world: "(\<And>w. m w = (r, w)) \<Longrightarrow> settles P (in_world m) r"
  by (simp add: settles_def in_world_def)

lemma settlesE:
  assumes "settles P m r" "P s"
  obtains s' where "m s = (r, s')" "P s'"
  using assms by (auto simp: settles_def)

lemma answersD:
  assumes "answers env facts"
  shows "se_getMyFiles (sn_api env) w = (Inr (fx_myFiles facts), w)"
    "se_getVolume (sn_api env) (mf_VolumeID (fx_myFiles facts)) w = (Inr (mf_ShareID (fx_myFiles facts)), w)"
    "se_getShare (sn_api env) x w = (fx_share facts x, w)"
    "ac_getOwnAddress (sn_account env) x w = (fx_address facts x, w)"
    "ac_getPublicKeys (sn_account env) x w = (fx_publicKeys facts x, w)"
  using assms by (simp_all add: answers_def)

lemma api_getRootShare_settled:
  assumes "answers env facts"
  shows "api_getRootShare (sn_api env) i w = (fact_root_share facts i, w)"
  using answersD(3) [OF assms, of i w]
  by (cases "fx_share facts i")
    (auto simp: api_getRootShare_def fact_root_share_def run_act split: option.split sum.split)

lemma member_key_settles:
  assumes "answers env facts"
  shows "settles P (member_key_of env addressId) (fact_member facts addressId)"
  unfolding member_key_of_def fact_member_def
  by (rule settles_intros settles_world answersD(4) [OF assms] | clarsimp)+

lemma try_bind_case: "try_bind x f = (case x of Inl e \<Rightarrow> Inl e | Inr v \<Rightarrow> f v)"
  by (cases x) simp_all

text \<open>What an operation that decrypts a share goes on with is its key.\<close>

lemma decrypt_settles:
  assumes env: "answers env facts"
    and reports: "\<And>s e. P s \<Longrightarrow> P (reportDecryptionError share e s)" "\<And>s. P s \<Longrightarrow> P (reportVerificationError share s)"
    and k: "\<And>a key. fact_opened (sn_openpgp env) facts share = Inr key \<Longrightarrow> settles P (k ((share, a), key)) (f key)"
  shows "settles P (await (decryptRootShare env share) k) (try_bind (fact_opened (sn_openpgp env) facts share) f)"
proof -
  have "settles P (decryptRootShare env share)
      (try_bind (fx_address facts (rs_addressId share)) (\<lambda>address.
       try_bind (fx_publicKeys facts (bs_creatorEmail share)) (\<lambda>keys.
         case dc_decryptKey (sn_openpgp env) (nk_armoredKey (bs_crypto share)) (nk_armoredPassphrase (bs_crypto share))
              (Some (nk_armoredPassphraseSignature (bs_crypto share))) (map snd (oa_keys address)) keys of
           Inl e \<Rightarrow> Inl e
         | Inr (opened, v) \<Rightarrow> Inr ((share, share_author share v), cached_key opened))))"
    unfolding decryptRootShare_def cached_key_def
    by (intro settles_await settles_world answersD(4,5) [OF env])
      (auto intro!: settles_then_give [OF settles_update] settles_give reports split: sum.split)
  then show ?thesis
    by (rule settles_via)
      (use k in \<open>auto simp: fact_opened_def try_bind_case split: sum.splits prod.splits\<close>)
qed

text \<open>An operation that answers \<open>r\<close> or throws, and what catches the throw and answers \<open>r\<close>.\<close>

definition may_settle :: "('s \<Rightarrow> bool) \<Rightarrow> ('s, 'a) act \<Rightarrow> thrown + 'a \<Rightarrow> bool" where
  "may_settle P m r \<longleftrightarrow> (\<forall>s. P s \<longrightarrow> (\<exists>x s'. m s = (x, s') \<and> P s' \<and> (isl x \<or> x = r)))"

lemma settles_catch: "may_settle P m r \<Longrightarrow> (\<And>e. settles P (h e) r) \<Longrightarrow> settles P (catch m h) r"
  by (fastforce simp: may_settle_def settles_def catch_def split: sum.split)

lemma may_settle_await:
  "(\<And>s. P s \<Longrightarrow> \<exists>x s'. m s = (x, s') \<and> P s' \<and> (\<forall>v. x = Inr v \<longrightarrow> Q v)) \<Longrightarrow>
   (\<And>v. Q v \<Longrightarrow> settles P (k v) r) \<Longrightarrow> may_settle P (await m k) r"
  by (fastforce simp: may_settle_def settles_def await_def split: sum.split)

section \<open>What keeps the caches coherent\<close>

lemma cache_keys [simp]: "kc_getCacheKey i = kc_getCacheKey j \<longleftrightarrow> i = j" "vc_getCacheUid i = vc_getCacheUid j \<longleftrightarrow> i = j"
  by (simp_all add: kc_getCacheKey_def vc_getCacheUid_def)

lemma coherentI:
  assumes "coherent env facts goodc goodk s" "goodc (sm_cache s')" "goodk (sm_cryptoCache s')"
    and "sm_myFilesIds s' = sm_myFilesIds s \<or> sm_myFilesIds s' = Some (bs_ids (my_files_share (fx_myFiles facts)))"
    and "\<And>i r. sm_rootShares s' i = Some r \<Longrightarrow> sm_rootShares s i = Some r \<or> fact_root_share facts i = Inr r"
    and "\<And>i key. co_getEntity (sn_cryptoCache env) (kc_getCacheKey i) (sm_cryptoCache s') = Inr (Some key) \<Longrightarrow>
          co_getEntity (sn_cryptoCache env) (kc_getCacheKey i) (sm_cryptoCache s) = Inr (Some key)
          \<or> fact_key (sn_openpgp env) facts i = Inr key"
    and "\<And>t v. co_getEntity (sn_cache env) (vc_getCacheUid (mf_VolumeID (fx_myFiles facts))) (sm_cache s') = Inr t \<Longrightarrow>
          deserializeVolume t = Inr v \<Longrightarrow>
          co_getEntity (sn_cache env) (vc_getCacheUid (mf_VolumeID (fx_myFiles facts))) (sm_cache s) = Inr t
          \<or> string_field ''addressId'' v = Some (mf_AddressID (fx_myFiles facts))"
  shows "coherent env facts goodc goodk s'"
  unfolding coherent_def
proof (intro conjI allI impI)
  note parts = assms(1) [unfolded coherent_def]
  show "sm_myFilesIds s' = None \<or> sm_myFilesIds s' = Some (bs_ids (my_files_share (fx_myFiles facts)))"
    using parts assms(4) by auto
  show "fact_root_share facts i = Inr r" if "sm_rootShares s' i = Some r" for i r
    using parts assms(5) [OF that] by auto
  show "fact_key (sn_openpgp env) facts i = Inr key"
    if "co_getEntity (sn_cryptoCache env) (kc_getCacheKey i) (sm_cryptoCache s') = Inr (Some key)" for i key
    using parts assms(6) [OF that] by auto
  show "string_field ''addressId'' v = Some (mf_AddressID (fx_myFiles facts))"
    if "co_getEntity (sn_cache env) (vc_getCacheUid (mf_VolumeID (fx_myFiles facts))) (sm_cache s') = Inr t"
      "deserializeVolume t = Inr v" for t v
    using parts assms(7) [OF that] that(2) by auto
qed (fact assms(2,3))+

lemma coherent_reports:
  assumes "coherent env facts goodc goodk s"
  shows "coherent env facts goodc goodk (reportDecryptionError share e s)"
    "coherent env facts goodc goodk (reportVerificationError share s)"
  using assms by (simp_all add: coherent_def reportDecryptionError_def reportVerificationError_def Let_def)

lemma coherent_fields:
  assumes "coherent env facts goodc goodk s"
  shows "coherent env facts goodc goodk (s\<lparr>sm_myFilesIds := Some (bs_ids (my_files_share (fx_myFiles facts)))\<rparr>)"
    and "fact_root_share facts i = Inr r \<Longrightarrow> coherent env facts goodc goodk (s\<lparr>sm_rootShares := (sm_rootShares s)(i \<mapsto> r)\<rparr>)"
  by (rule coherentI [OF assms]; use assms in \<open>auto simp: coherent_def split: if_splits\<close>)+

lemma coherent_set_key:
  assumes cache: "drive_cache (sn_cryptoCache env) goodk" and s: "coherent env facts goodc goodk s"
    and key: "fact_key (sn_openpgp env) facts i = Inr key"
  shows "coherent env facts goodc goodk
    (s\<lparr>sm_cryptoCache := setShareKey (sn_cryptoCache env) i key (sm_cryptoCache s)\<rparr>)"
proof (rule coherentI [OF s])
  have good: "goodk (sm_cryptoCache s)" "goodc (sm_cache s)" using s by (simp_all add: coherent_def)
  show "goodk (sm_cryptoCache (s\<lparr>sm_cryptoCache := setShareKey (sn_cryptoCache env) i key (sm_cryptoCache s)\<rparr>))"
    using drive_cache.inv_set_untagged [OF cache good(1)] by (simp add: setShareKey_def)
  fix j k
  assume "co_getEntity (sn_cryptoCache env) (kc_getCacheKey j)
    (sm_cryptoCache (s\<lparr>sm_cryptoCache := setShareKey (sn_cryptoCache env) i key (sm_cryptoCache s)\<rparr>)) = Inr (Some k)"
  then show "co_getEntity (sn_cryptoCache env) (kc_getCacheKey j) (sm_cryptoCache s) = Inr (Some k)
      \<or> fact_key (sn_openpgp env) facts j = Inr k"
    using drive_cache.get_set_cases [OF cache good(1)] key by (fastforce simp: setShareKey_def)
qed (use s in \<open>simp_all add: coherent_def\<close>)

lemma deserialize_serialized:
  "deserializeVolume (serializeVolume v) = Inr u \<Longrightarrow> string_field ''addressId'' u = Some (vo_addressId v)"
  by (auto simp: deserializeVolume_def serializeVolume_def json_stringify_def string_field_def split: if_splits)

lemma coherent_set_volume:
  assumes cache: "drive_cache (sn_cache env) goodc" and s: "coherent env facts goodc goodk s"
    and share: "rs_addressId share = mf_AddressID (fx_myFiles facts)"
  shows "coherent env facts goodc goodk (s\<lparr>sm_cache := vc_setVolume (sn_cache env) (volume_of_share share) (sm_cache s)\<rparr>)"
proof (rule coherentI [OF s])
  let ?key = "vc_getCacheUid (mf_VolumeID (fx_myFiles facts))"
  have good: "goodk (sm_cryptoCache s)" "goodc (sm_cache s)" using s by (simp_all add: coherent_def)
  show "goodc (sm_cache (s\<lparr>sm_cache := vc_setVolume (sn_cache env) (volume_of_share share) (sm_cache s)\<rparr>))"
    using drive_cache.inv_set_untagged [OF cache good(2)] by (simp add: vc_setVolume_def)
  fix t v
  assume t: "co_getEntity (sn_cache env) ?key
      (sm_cache (s\<lparr>sm_cache := vc_setVolume (sn_cache env) (volume_of_share share) (sm_cache s)\<rparr>)) = Inr t"
    "deserializeVolume t = Inr v"
  show "co_getEntity (sn_cache env) ?key (sm_cache s) = Inr t
      \<or> string_field ''addressId'' v = Some (mf_AddressID (fx_myFiles facts))"
  proof (cases "vi_volumeId (bs_ids share) = mf_VolumeID (fx_myFiles facts)")
    case True
    with t(1) drive_cache.get_set_sound [OF cache good(2)] have "t = serializeVolume (volume_of_share share)"
      by (simp add: vc_setVolume_def volume_of_share_def)
    with t(2) show ?thesis using deserialize_serialized share by (auto simp: volume_of_share_def)
  next
    case False
    with t(1) show ?thesis
      using drive_cache.get_set_other [OF cache good(2), of ?key] by (auto simp: vc_setVolume_def volume_of_share_def)
  qed
qed (use s in \<open>simp_all add: coherent_def\<close>)

lemma coherent_remove_keys:
  assumes cache: "drive_cache (sn_cryptoCache env) goodk" and s: "coherent env facts goodc goodk s"
  shows "coherent env facts goodc goodk (s\<lparr>sm_cryptoCache := removeShareKeys (sn_cryptoCache env) is (sm_cryptoCache s)\<rparr>)"
proof (rule coherentI [OF s])
  show "goodk (sm_cryptoCache (s\<lparr>sm_cryptoCache := removeShareKeys (sn_cryptoCache env) is (sm_cryptoCache s)\<rparr>))"
    using drive_cache.inv_remove [OF cache] s by (simp add: removeShareKeys_def coherent_def)
  show "co_getEntity (sn_cryptoCache env) (kc_getCacheKey i) (sm_cryptoCache s) = Inr (Some key)
      \<or> fact_key (sn_openpgp env) facts i = Inr key"
    if "co_getEntity (sn_cryptoCache env) (kc_getCacheKey i)
        (sm_cryptoCache (s\<lparr>sm_cryptoCache := removeShareKeys (sn_cryptoCache env) is (sm_cryptoCache s)\<rparr>)) = Inr (Some key)" for i key
    using that by (auto simp: removeShareKeys_def dest: drive_cache.get_remove_sound [OF cache])
qed (use s in \<open>simp_all add: coherent_def\<close>)

lemma coherent_remove_volume:
  assumes cache: "drive_cache (sn_cache env) goodc" and s: "coherent env facts goodc goodk s"
  shows "coherent env facts goodc goodk (s\<lparr>sm_cache := vc_removeVolume (sn_cache env) v (sm_cache s)\<rparr>)"
proof (rule coherentI [OF s])
  show "goodc (sm_cache (s\<lparr>sm_cache := vc_removeVolume (sn_cache env) v (sm_cache s)\<rparr>))"
    using drive_cache.inv_remove [OF cache] s by (simp add: vc_removeVolume_def coherent_def)
  show "co_getEntity (sn_cache env) (vc_getCacheUid (mf_VolumeID (fx_myFiles facts))) (sm_cache s) = Inr t
      \<or> string_field ''addressId'' u = Some (mf_AddressID (fx_myFiles facts))"
    if "co_getEntity (sn_cache env) (vc_getCacheUid (mf_VolumeID (fx_myFiles facts)))
        (sm_cache (s\<lparr>sm_cache := vc_removeVolume (sn_cache env) v (sm_cache s)\<rparr>)) = Inr t" for t u
    using that by (auto simp: vc_removeVolume_def dest: drive_cache.get_remove_sound [OF cache])
qed (use s in \<open>simp_all add: coherent_def\<close>)

section \<open>What the manager answers\<close>

lemma cached_share_key:
  assumes cache: "drive_cache (sn_cryptoCache env) goodk" and s: "coherent env facts goodc goodk s"
  shows "\<exists>x s'. in_keys (getShareKey (sn_cryptoCache env) i) s = (x, s') \<and> coherent env facts goodc goodk s'
     \<and> (\<forall>key. x = Inr key \<longrightarrow> fact_key (sn_openpgp env) facts i = Inr key)"
proof (cases "co_getEntity (sn_cryptoCache env) (kc_getCacheKey i) (sm_cryptoCache s)")
  case (Inr entry)
  then show ?thesis
    using s coherent_remove_keys [OF cache s, of "[i]"]
    by (cases entry) (auto simp: in_keys_def getShareKey_def coherent_def)
qed (use s in \<open>simp add: in_keys_def getShareKey_def\<close>)

lemma cached_volume:
  assumes cache: "drive_cache (sn_cache env) goodc" and s: "coherent env facts goodc goodk s"
  shows "\<exists>x s'. in_cache (vc_getVolume (sn_cache env) (mf_VolumeID (fx_myFiles facts))) s = (x, s')
     \<and> coherent env facts goodc goodk s'
     \<and> (\<forall>v. x = Inr v \<longrightarrow> string_field ''addressId'' v = Some (mf_AddressID (fx_myFiles facts)))"
proof (cases "co_getEntity (sn_cache env) (vc_getCacheUid (mf_VolumeID (fx_myFiles facts))) (sm_cache s)")
  case (Inr t)
  then show ?thesis
    using s coherent_remove_volume [OF cache s, of "mf_VolumeID (fx_myFiles facts)"]
    by (cases "deserializeVolume t") (auto simp: in_cache_def vc_getVolume_def coherent_def)
qed (use s in \<open>simp add: in_cache_def vc_getVolume_def\<close>)

lemma update_key_settles:
  assumes "drive_cache (sn_cryptoCache env) goodk" "fact_key (sn_openpgp env) facts i = Inr key"
  shows "settles (coherent env facts goodc goodk) (in_keys (update_act (setShareKey (sn_cryptoCache env) i key))) (Inr ())"
  by (auto simp: settles_def in_keys_def update_act_def intro: coherent_set_key [OF assms(1) _ assms(2)])

lemma update_volume_settles:
  assumes "drive_cache (sn_cache env) goodc" "rs_addressId share = mf_AddressID (fx_myFiles facts)"
  shows "settles (coherent env facts goodc goodk)
    (in_cache (update_act (vc_setVolume (sn_cache env) (volume_of_share share)))) (Inr ())"
  by (auto simp: settles_def in_cache_def update_act_def intro: coherent_set_volume [OF assms(1) _ assms(2)])

lemma own_volumeD:
  assumes "own_volume pg facts"
  obtains key r where "fact_opened pg facts (my_files_share (fx_myFiles facts)) = Inr key"
    "fact_key pg facts (mf_ShareID (fx_myFiles facts)) = Inr key"
    "fact_root_share facts (mf_ShareID (fx_myFiles facts)) = Inr r"
    "rs_addressId r = mf_AddressID (fx_myFiles facts)"
proof -
  let ?share = "my_files_share (fx_myFiles facts)"
  from assms obtain key r where 1: "fact_opened pg facts ?share = Inr key"
    "fact_root_share facts (mf_ShareID (fx_myFiles facts)) = Inr r" "rs_addressId r = rs_addressId ?share"
    "bs_creatorEmail r = bs_creatorEmail ?share" "bs_crypto r = bs_crypto ?share"
    by (auto simp: own_volume_def Let_def)
  then have "fact_opened pg facts r = fact_opened pg facts ?share" by (simp add: fact_opened_def)
  with 1 that show thesis by (simp add: fact_key_def my_files_share_def)
qed

lemma getSharePrivateKey_settles:
  assumes env: "answers env facts" and cache: "drive_cache (sn_cryptoCache env) goodk"
  shows "settles (coherent env facts goodc goodk) (getSharePrivateKey env i)
    (try_bind (fact_key (sn_openpgp env) facts i) (\<lambda>key. Inr (sk_key key)))"
  unfolding getSharePrivateKey_def
proof (rule settles_catch)
  show "may_settle (coherent env facts goodc goodk)
      (await (in_keys (getShareKey (sn_cryptoCache env) i)) (\<lambda>key. give (sk_key key)))
      (try_bind (fact_key (sn_openpgp env) facts i) (\<lambda>key. Inr (sk_key key)))"
    by (rule may_settle_await [where Q = "\<lambda>key. fact_key (sn_openpgp env) facts i = Inr key"])
      (use cached_share_key [OF cache] in \<open>auto intro: settles_give\<close>)
next
  have "settles (coherent env facts goodc goodk)
      (await (in_world (api_getRootShare (sn_api env) i)) (\<lambda>encryptedShare.
            await (decryptRootShare env encryptedShare) (\<lambda>(_, key).
            await (in_keys (update_act (setShareKey (sn_cryptoCache env) i key))) (\<lambda>_. give (sk_key key)))))
      (try_bind (fact_root_share facts i) (\<lambda>share.
         try_bind (fact_opened (sn_openpgp env) facts share) (\<lambda>key. Inr (sk_key key))))"
    by (intro settles_await settles_world api_getRootShare_settled [OF env] decrypt_settles [OF env] coherent_reports)
      (auto intro!: settles_then_give [OF update_key_settles [OF cache]] settles_give simp: fact_key_def)
  then show "settles (coherent env facts goodc goodk)
      (await (in_world (api_getRootShare (sn_api env) i)) (\<lambda>encryptedShare.
            await (decryptRootShare env encryptedShare) (\<lambda>(_, key).
            await (in_keys (update_act (setShareKey (sn_cryptoCache env) i key))) (\<lambda>_. give (sk_key key)))))
      (try_bind (fact_key (sn_openpgp env) facts i) (\<lambda>key. Inr (sk_key key)))" for e
    by (cases "fact_root_share facts i") (simp_all add: fact_key_def)
qed

lemma getRootIDs_settles:
  assumes env: "answers env facts" and own: "own_volume (sn_openpgp env) facts"
    and cache: "drive_cache (sn_cache env) goodc" "drive_cache (sn_cryptoCache env) goodk"
  shows "settles (coherent env facts goodc goodk) (getRootIDs env) (Inr (bs_ids (my_files_share (fx_myFiles facts))))"
proof (rule own_volumeD [OF own], goal_cases)
  case (1 key r)
  let ?share = "my_files_share (fx_myFiles facts)"
  have ids: "vi_shareId (bs_ids ?share) = mf_ShareID (fx_myFiles facts)" "rs_addressId ?share = mf_AddressID (fx_myFiles facts)"
    by (simp_all add: my_files_share_def)
  have load: "api_getMyFiles (sn_api env) w = (Inr ?share, w)" for w
    by (simp add: api_getMyFiles_def await_def answersD(1) [OF env] give_def)
  have "settles (coherent env facts goodc goodk) (load_my_files env)
      (try_bind (fact_opened (sn_openpgp env) facts ?share) (\<lambda>_. Inr (bs_ids ?share)))"
    unfolding load_my_files_def
    by (rule settles_then_give [OF settles_world [OF load]], rule decrypt_settles [OF env])
      (auto intro!: coherent_reports settles_then_give [OF update_key_settles [OF cache(2)]]
         settles_then_give [OF update_volume_settles [OF cache(1)]] settles_then_give [OF settles_update]
         settles_give coherent_fields(1)
       simp: 1 ids)
  then have "settles (coherent env facts goodc goodk) (load_my_files env) (Inr (bs_ids ?share))"
    by (simp add: 1(1))
  then show ?case
    by (fastforce simp: settles_def getRootIDs_def catch_def coherent_def split: option.split)
qed

lemma getMyFilesShareMemberEmailKey_settles:
  assumes env: "answers env facts" and own: "own_volume (sn_openpgp env) facts"
    and cache: "drive_cache (sn_cache env) goodc" "drive_cache (sn_cryptoCache env) goodk"
  shows "settles (coherent env facts goodc goodk) (getMyFilesShareMemberEmailKey env)
    (fact_member facts (mf_AddressID (fx_myFiles facts)))"
proof (rule own_volumeD [OF own], goal_cases)
  case (1 key r)
  let ?P = "coherent env facts goodc goodk" and ?own = "mf_AddressID (fx_myFiles facts)"
  have id: "vi_volumeId (bs_ids (my_files_share (fx_myFiles facts))) = mf_VolumeID (fx_myFiles facts)"
    by (simp add: my_files_share_def)
  have root: "api_getRootShare (sn_api env) (mf_ShareID (fx_myFiles facts)) w = (Inr r, w)" for w
    using api_getRootShare_settled [OF env] 1(3) by metis
  have volume: "api_getVolume (sn_api env) (mf_VolumeID (fx_myFiles facts)) w = (Inr (mf_ShareID (fx_myFiles facts)), w)" for w
    by (simp add: api_getVolume_def answersD(2) [OF env])
  show ?case
    unfolding getMyFilesShareMemberEmailKey_def
  proof (rule settles_then_give [OF getRootIDs_settles [OF env own cache]], rule settles_catch, goal_cases)
    case 1
    show ?case
      unfolding id
      by (rule may_settle_await [where Q = "\<lambda>v. string_field ''addressId'' v = Some ?own"])
        (use cached_volume [OF cache(1)] in \<open>auto intro: member_key_settles [OF env]\<close>)
  next
    case (2 e)
    show ?case
      unfolding id
      by (rule settles_then_give [OF settles_world [OF volume]], rule settles_then_give [OF settles_world [OF root]],
          rule settles_then_give [OF update_volume_settles [OF cache(1) 1(4)]], subst 1(4), rule member_key_settles [OF env])
  qed
qed

lemma getContextShareMemberEmailKey_settles:
  assumes env: "answers env facts"
  shows "settles (coherent env facts goodc goodk) (getContextShareMemberEmailKey env i)
    (try_bind (fact_root_share facts i) (\<lambda>share. fact_member facts (rs_addressId share)))"
proof -
  have "settles (coherent env facts goodc goodk)
      (await (in_world (api_getRootShare (sn_api env) i)) (\<lambda>share.
       await (update_act (\<lambda>s. s\<lparr>sm_rootShares := (sm_rootShares s)(i \<mapsto> share)\<rparr>)) (\<lambda>_. give share)))
      (try_bind (fact_root_share facts i) Inr)"
    by (intro settles_await settles_world api_getRootShare_settled [OF env])
      (auto intro!: settles_then_give [OF settles_update] settles_give coherent_fields(2))
  then have "settles (coherent env facts goodc goodk) (root_share_of env i) (fact_root_share facts i)"
    by (cases "fact_root_share facts i") (fastforce simp: settles_def root_share_of_def coherent_def split: option.split)+
  then show ?thesis
    unfolding getContextShareMemberEmailKey_def
    by (rule settles_await) (rule member_key_settles [OF env])
qed

text \<open>
  C17: as long as the server and the account answer the same, so does the manager, whatever the caches hold of
  earlier answers, whichever cache it is given and in whatever order it is asked, and what it adds to the
  caches is right: the IDs of the own volume, the key of a share, errors included, and the addresses.
\<close>

theorem shares_caches_transparent:
  assumes "answers env facts" "own_volume (sn_openpgp env) facts"
    and "drive_cache (sn_cache env) goodc" "drive_cache (sn_cryptoCache env) goodk"
  shows "settles (coherent env facts goodc goodk) (getRootIDs env) (Inr (bs_ids (my_files_share (fx_myFiles facts))))
     \<and> settles (coherent env facts goodc goodk) (getSharePrivateKey env i)
         (try_bind (fact_key (sn_openpgp env) facts i) (\<lambda>key. Inr (sk_key key)))
     \<and> settles (coherent env facts goodc goodk) (getMyFilesShareMemberEmailKey env)
         (fact_member facts (mf_AddressID (fx_myFiles facts)))
     \<and> settles (coherent env facts goodc goodk) (getContextShareMemberEmailKey env i)
         (try_bind (fact_root_share facts i) (\<lambda>share. fact_member facts (rs_addressId share)))
     \<and> settles (coherent env facts goodc goodk) (isOwnVolume env i) (Inr (mf_VolumeID (fx_myFiles facts) = i))"
proof (intro conjI)
  show "settles (coherent env facts goodc goodk) (isOwnVolume env i) (Inr (mf_VolumeID (fx_myFiles facts) = i))"
    unfolding isOwnVolume_def
    by (rule settles_then_give [OF getRootIDs_settles [OF assms]]) (simp add: my_files_share_def settles_give)
qed (rule assms getRootIDs_settles getSharePrivateKey_settles getMyFilesShareMemberEmailKey_settles
       getContextShareMemberEmailKey_settles)+

section \<open>A user without a volume\<close>

text \<open>The symbolic library beside a server that keeps the volume, both parts of one state.\<close>

definition beside :: "('s, 'a) act \<Rightarrow> ('s \<times> 'x, 'a) act" where
  "beside m w = (case m (fst w) of (r, t) \<Rightarrow> (r, (t, snd w)))"

definition pg_beside :: "('s, 'k, 'sk) openpgp \<Rightarrow> ('s \<times> 'x, 'k, 'sk) openpgp" where
  "pg_beside pg =
     \<lparr>pg_generatePassphrase = beside (pg_generatePassphrase pg),
      pg_generateSessionKey = (\<lambda>ks a. beside (pg_generateSessionKey pg ks a)),
      pg_encryptSessionKey = (\<lambda>sk ks. beside (pg_encryptSessionKey pg sk ks)),
      pg_encryptSessionKeyWithPassword = (\<lambda>sk p. beside (pg_encryptSessionKeyWithPassword pg sk p)),
      pg_generateKey = (\<lambda>p a. beside (pg_generateKey pg p a)),
      pg_encryptArmored = (\<lambda>b ks sk c. beside (pg_encryptArmored pg b ks sk c)),
      pg_encryptAndSign = (\<lambda>b sk ks k a. beside (pg_encryptAndSign pg b sk ks k a)),
      pg_encryptAndSignArmored = (\<lambda>b sk ks k c a. beside (pg_encryptAndSignArmored pg b sk ks k c a)),
      pg_encryptAndSignDetached = (\<lambda>b sk ks k a. beside (pg_encryptAndSignDetached pg b sk ks k a)),
      pg_encryptAndSignDetachedArmored = (\<lambda>b sk ks k a. beside (pg_encryptAndSignDetachedArmored pg b sk ks k a)),
      pg_sign = (\<lambda>b k c. beside (pg_sign pg b k c)), pg_signArmored = (\<lambda>b ks. beside (pg_signArmored pg b ks)),
      pg_verifyArmored = pg_verifyArmored pg, pg_decryptSessionKey = pg_decryptSessionKey pg,
      pg_decryptArmoredSessionKey = pg_decryptArmoredSessionKey pg, pg_decryptKey = pg_decryptKey pg,
      pg_decryptAndVerify = pg_decryptAndVerify pg, pg_decryptArmored = pg_decryptArmored pg,
      pg_decryptArmoredAndVerify = pg_decryptArmoredAndVerify pg,
      pg_decryptArmoredAndVerifyDetached = pg_decryptArmoredAndVerifyDetached pg,
      pg_decryptArmoredWithPassword = pg_decryptArmoredWithPassword pg, pg_data = pg_data pg,
      pg_generateKeySalt = beside (pg_generateKeySalt pg), pg_computeKeyPassword = pg_computeKeyPassword pg,
      pg_getSrpVerifier = (\<lambda>p. beside (pg_getSrpVerifier pg p)), pg_hmac = pg_hmac pg, pg_encode = pg_encode pg,
      pg_decode = pg_decode pg, pg_decodeLoosely = pg_decodeLoosely pg\<rparr>"

lemma besideD: "beside m w = (Inr v, w') \<Longrightarrow> m (fst w) = (Inr v, fst w')"
  by (auto simp: beside_def split: prod.splits)

lemma beside_laws:
  fixes pg :: "('s, 'k, 'sk) openpgp"
  assumes "openpgp_laws pg signs"
  shows "openpgp_laws (pg_beside pg :: ('s \<times> 'x, 'k, 'sk) openpgp) signs"
proof -
  let ?pg = "pg_beside pg :: ('s \<times> 'x, 'k, 'sk) openpgp"
  note laws = openpgp_lawsD [OF assms]
  have same: "opens_to ?pg = opens_to pg" "embeds ?pg = embeds pg" "seals ?pg = seals pg"
    by (simp_all add: fun_eq_iff opens_to_def embeds_def seals_def pg_beside_def)
  have fields: "pg_encryptAndSignArmored ?pg = (\<lambda>b sk ks k c a. beside (pg_encryptAndSignArmored pg b sk ks k c a))"
    "pg_encryptAndSignDetachedArmored ?pg = (\<lambda>b sk ks k a. beside (pg_encryptAndSignDetachedArmored pg b sk ks k a))"
    "pg_generateKey ?pg = (\<lambda>p a. beside (pg_generateKey pg p a))" "pg_decryptKey ?pg = pg_decryptKey pg"
    "pg_encryptSessionKey ?pg = (\<lambda>sk ks. beside (pg_encryptSessionKey pg sk ks))"
    "pg_decryptSessionKey ?pg = pg_decryptSessionKey pg" "pg_signArmored ?pg = (\<lambda>b ks. beside (pg_signArmored pg b ks))"
    "pg_verifyArmored ?pg = pg_verifyArmored pg" "pg_decryptAndVerify ?pg = pg_decryptAndVerify pg"
    "pg_encryptAndSign ?pg = (\<lambda>b sk ks k a. beside (pg_encryptAndSign pg b sk ks k a))"
    "pg_encryptAndSignDetached ?pg = (\<lambda>b sk ks k a. beside (pg_encryptAndSignDetached pg b sk ks k a))"
    "pg_decode ?pg = pg_decode pg" "pg_encode ?pg = pg_encode pg"
    by (simp_all add: pg_beside_def)
  show ?thesis
    unfolding openpgp_laws_def same fields
    by (intro conjI allI impI; (drule besideD)?; blast dest: laws(1-7) intro: laws(8))
qed

definition demo_address :: "8 word own_address" where
  "demo_address = \<lparr>oa_email = ''a@x'', oa_addressId = ''id'', oa_keys = [(''k'', 9)], oa_primaryKeyIndex = 0\<rparr>"

definition demo_account :: "('o, 8 word) account" where
  "demo_account = \<lparr>ac_getOwnPrimaryAddress = give demo_address, ac_getOwnAddress = (\<lambda>_. give demo_address),
     ac_getPublicKeys = (\<lambda>_. give [9])\<rparr>"

definition demo_ids :: volume_ids where
  "demo_ids = \<lparr>vi_volumeId = ''v'', vi_shareId = ''s'', vi_rootNodeId = ''r''\<rparr>"

definition volume_server :: "('s \<times> (volume_ids \<times> volume_request) option) shares_endpoints" where
  "volume_server =
     \<lparr>se_getMyFiles = (\<lambda>w. case snd w of
        Some (ids, req) \<Rightarrow> (Inr (my_files_of ids req ''a@x''), w) | None \<Rightarrow> (Inl (throw_new NotFoundAPIError ''None''), w)),
      se_getVolume = (\<lambda>_. throw_act (ThrownValue ''unused'')), se_getShare = (\<lambda>_. throw_act (ThrownValue ''unused'')),
      se_postVolume = (\<lambda>req w. (Inr demo_ids, (fst w, Some (demo_ids, req)))),
      se_postShare = (\<lambda>_ _. throw_act (ThrownValue ''unused''))\<rparr>"

definition demo_shares where
  "demo_shares = \<lparr>sn_api = volume_server, sn_cache = memory_ops text_truthy, sn_cryptoCache = memory_ops (\<lambda>_. True),
     sn_openpgp = pg_beside symbolic, sn_account = demo_account\<rparr>"

definition session_in :: "'o \<Rightarrow> (js_text memory_cache, ('k, 'sk) share_key option memory_cache, 'o) shares_state" where
  "session_in w = \<lparr>sm_myFilesIds = None, sm_rootShares = Map.empty, sm_cache = mc_new, sm_cryptoCache = mc_new,
     sm_reportedDecryptionErrors = [], sm_reportedVerificationErrors = [], sm_metrics = [], sm_world = w\<rparr>"


section \<open>A server that does not change\<close>

definition demo_key :: encrypted_key where
  "demo_key = (case fst (generate_tree symbolic ''root'' 9 0) of
     Inr b \<Rightarrow> tb_shareKey b
   | Inl _ \<Rightarrow> \<lparr>nk_armoredKey = '''', nk_armoredPassphrase = '''', nk_armoredPassphraseSignature = ''''\<rparr>)"

definition demo_facts :: "8 word shares_facts" where
  "demo_facts =
     \<lparr>fx_myFiles = \<lparr>mf_VolumeID = ''v'', mf_ShareID = ''s'', mf_LinkID = ''r'', mf_CreatorEmail = ''a@x'',
        mf_Key = nk_armoredKey demo_key, mf_Passphrase = nk_armoredPassphrase demo_key,
        mf_PassphraseSignature = nk_armoredPassphraseSignature demo_key, mf_AddressID = ''id''\<rparr>,
      fx_share = (\<lambda>_. Inr \<lparr>gs_VolumeID = ''v'', gs_ShareID = ''s'', gs_LinkID = ''r'', gs_Creator = ''a@x'', gs_CreateTime = None,
        gs_Key = nk_armoredKey demo_key, gs_Passphrase = nk_armoredPassphrase demo_key,
        gs_PassphraseSignature = nk_armoredPassphraseSignature demo_key, gs_AddressID = Some ''id'', gs_Memberships = None,
        gs_Type = 1, gs_EditorsCanShare = False\<rparr>),
      fx_address = (\<lambda>_. Inr demo_address), fx_publicKeys = (\<lambda>_. Inr [9])\<rparr>"

definition served_by :: "8 word shares_facts \<Rightarrow>
    (js_text memory_cache, (8 word, 8 word) share_key option memory_cache, nat, 8 word, 8 word) shares_env" where
  "served_by facts =
     \<lparr>sn_api = \<lparr>se_getMyFiles = give (fx_myFiles facts), se_getVolume = (\<lambda>_. give (mf_ShareID (fx_myFiles facts))),
        se_getShare = (\<lambda>i. of_result (fx_share facts i)), se_postVolume = (\<lambda>_. throw_act (ThrownValue ''unused'')),
        se_postShare = (\<lambda>_ _. throw_act (ThrownValue ''unused''))\<rparr>,
      sn_cache = memory_ops text_truthy, sn_cryptoCache = memory_ops (\<lambda>_. True), sn_openpgp = symbolic,
      sn_account = \<lparr>ac_getOwnPrimaryAddress = give demo_address, ac_getOwnAddress = (\<lambda>i. of_result (fx_address facts i)),
        ac_getPublicKeys = (\<lambda>i. of_result (fx_publicKeys facts i))\<rparr>\<rparr>"

theorem shares_caches_transparent_witness:
  "\<exists>key s1 s2. getSharePrivateKey (served_by demo_facts) ''s'' (session_in 0) = (Inr key, s1)
     \<and> getSharePrivateKey (served_by demo_facts) ''s'' s1 = (Inr key, s2)"
proof -
  let ?env = "served_by demo_facts"
  have env: "answers ?env demo_facts" by (simp add: answers_def served_by_def give_def of_result_def)
  have "\<not> isl (fst (generate_tree symbolic ''root'' 9 0))" by code_simp
  from ran [OF this] obtain b s' where run: "generate_tree symbolic ''root'' 9 0 = (Inr b, s')" by blast
  obtain es where "dc_decryptKey symbolic (nk_armoredKey demo_key) (nk_armoredPassphrase demo_key)
      (Some (nk_armoredPassphraseSignature demo_key)) [9] [9] = Inr (tb_shareKeys b, SIGNED_AND_VALID, es)"
    using tree_share_opens [OF symbolic_laws run, of "[9]" "[9]"] by (auto simp: demo_key_def run)
  then have opened: "fact_opened symbolic demo_facts (my_files_share (fx_myFiles demo_facts)) = Inr (cached_key (tb_shareKeys b))"
    by (simp add: fact_opened_def demo_facts_def my_files_share_def demo_address_def)
  have root: "fact_root_share demo_facts ''s'' = Inr (my_files_share (fx_myFiles demo_facts) \<lparr>bs_editorsCanShare := Some False\<rparr>)"
    by (simp add: fact_root_share_def demo_facts_def convertSharePayload_def nonzero_def
        convertShareTypeNumberToEnum_def with_address_def my_files_share_def present_def)
  have own: "own_volume (sn_openpgp ?env) demo_facts"
    using opened root by (simp add: own_volume_def served_by_def) (simp add: demo_facts_def)
  have cache: "drive_cache (sn_cache ?env) mc_inv" "drive_cache (sn_cryptoCache ?env) mc_inv"
    by (simp_all add: served_by_def mem.drive_cache_axioms)
  have key: "settles (coherent ?env demo_facts mc_inv mc_inv) (getSharePrivateKey ?env ''s'')
     (try_bind (fact_key (sn_openpgp ?env) demo_facts ''s'') (\<lambda>key. Inr (sk_key key)))"
    by (rule shares_caches_transparent [OF env own cache, THEN conjunct2, THEN conjunct1])
  have "fact_key (sn_openpgp ?env) demo_facts ''s'' = Inr (cached_key (tb_shareKeys b))"
    using opened root by (simp add: fact_key_def served_by_def fact_opened_def)
  then have settled: "settles (coherent ?env demo_facts mc_inv mc_inv) (getSharePrivateKey ?env ''s'') (Inr (ok_key (tb_shareKeys b)))"
    using key by (simp add: cached_key_def)
  have "coherent ?env demo_facts mc_inv mc_inv (session_in 0)"
    by (simp add: coherent_def session_in_def mc_inv_new [unfolded mc_new_def] served_by_def memory_ops_def mc_getEntity_def
        mc_new_def)
  then obtain s1 where s1: "getSharePrivateKey ?env ''s'' (session_in 0) = (Inr (ok_key (tb_shareKeys b)), s1)"
    "coherent ?env demo_facts mc_inv mc_inv s1"
    by (rule settlesE [OF settled])
  obtain s2 where "getSharePrivateKey ?env ''s'' s1 = (Inr (ok_key (tb_shareKeys b)), s2)"
    by (rule settlesE [OF settled s1(2)])
  with s1(1) show ?thesis by blast
qed

end
