(* ===== verification/Devices.thy ===== *)
theory Devices
  imports SharesProofs NodesAccess
begin

text \<open>
  Devices, \<^verbatim>\<open>internal/devices/\<close>: the requests of \<open>DevicesAPIService\<close>, \<open>DevicesCryptoService\<close> and
  \<open>DevicesManager\<close>. The shares service, the listing and the renaming of nodes, and the endpoints are the parameter
  \<open>device_services\<close>, operations on a state \<open>'s\<close>.
\<close>

section \<open>Requests\<close>

record api_device =
  ad_VolumeID :: string
  ad_DeviceID :: string
  ad_Type :: int
  ad_CreateTime :: int
  ad_LastSyncTime :: "int option"
  ad_LinkID :: string
  ad_Name :: "string option"
  ad_ShareID :: string

record device_metadata =
  dm_uid :: string
  dm_type :: string
  dm_rootFolderUid :: string
  dm_creationTime :: jsval
  dm_lastSyncTime :: jsval
  dm_hasDeprecatedName :: bool
  dm_shareId :: string

text \<open>A device is its metadata with the name of its root node.\<close>

record device = device_metadata +
  dv_name :: jsval

record device_request =
  dr_Type :: int
  dr_AddressID :: string
  dr_AddressKeyID :: string
  dr_shareKey :: encrypted_key
  dr_Name :: string
  dr_rootKey :: encrypted_key
  dr_NodeHashKey :: string

record device_ids =
  di_DeviceID :: string
  di_LinkID :: string
  di_ShareID :: string

record ('s, 'k, 'sk) device_services =
  ds_openpgp :: "('s, 'k, 'sk) openpgp"
  ds_getDevices :: "('s, api_device list) act"
  ds_putEmptyName :: "string \<Rightarrow> ('s, unit) act"
  ds_postDevice :: "device_request \<Rightarrow> ('s, device_ids) act"
  ds_deleteDevice :: "string \<Rightarrow> ('s, unit) act"
  ds_getRootIDs :: "('s, volume_ids) act"
  ds_getMyFilesShareMemberEmailKey :: "('s, 'k member_key) act"
  ds_iterateNodes :: "string list \<Rightarrow> ('s, jsval listed) gen"
  ds_renameNode :: "bool \<Rightarrow> string \<Rightarrow> string \<Rightarrow> ('s, jsval) act"
  ds_now :: "'s \<Rightarrow> int"

definition show_int :: "int \<Rightarrow> string" where
  "show_int n = (if n < 0 then ''-'' @ show_nat (nat (- n)) else show_nat (nat n))"

definition deviceTypeNumberToEnum :: "int \<Rightarrow> thrown + string" where
  "deviceTypeNumberToEnum n =
     (if n = 1 then Inr ''Windows'' else if n = 2 then Inr ''MacOS'' else if n = 3 then Inr ''Linux''
      else Inl (throw_new JsError (''Unknown device type: '' @ show_int n)))"

definition deviceTypeEnumToNumber :: "string \<Rightarrow> thrown + int" where
  "deviceTypeEnumToNumber deviceType =
     (let t = js_toLowerCase deviceType in
      if t = js_toLowerCase ''Windows'' then Inr 1 else if t = js_toLowerCase ''MacOS'' then Inr 2
      else if t = js_toLowerCase ''Linux'' then Inr 3
      else Inl (throw_new JsError (''Unknown device type: '' @ deviceType)))"

definition device_of_api :: "api_device \<Rightarrow> thrown + device_metadata" where
  "device_of_api d =
     try_bind (deviceTypeNumberToEnum (ad_Type d)) (\<lambda>deviceType.
       Inr \<lparr>dm_uid = makeDeviceUid (ad_VolumeID d) (ad_DeviceID d), dm_type = deviceType,
            dm_rootFolderUid = makeNodeUid (ad_VolumeID d) (ad_LinkID d),
            dm_creationTime = date_of_seconds (ad_CreateTime d),
            dm_lastSyncTime = (case nonzero (ad_LastSyncTime d) of Some t \<Rightarrow> date_of_seconds t | None \<Rightarrow> JUndefined),
            dm_hasDeprecatedName = (present (ad_Name d) \<noteq> None), dm_shareId = ad_ShareID d\<rparr>)"

definition api_getDevices :: "('s, 'k, 'sk) device_services \<Rightarrow> ('s, device_metadata list) act" where
  "api_getDevices svc = await (ds_getDevices svc) (\<lambda>devices. of_result (try_map device_of_api devices))"

definition removeNameFromDevice :: "('s, 'k, 'sk) device_services \<Rightarrow> string \<Rightarrow> ('s, unit) act" where
  "removeNameFromDevice svc deviceUid =
     await (of_result (splitDeviceUid deviceUid)) (\<lambda>(_, deviceId). ds_putEmptyName svc deviceId)"

definition api_createDevice ::
  "('s, 'k, 'sk) device_services \<Rightarrow> string \<Rightarrow> string \<Rightarrow> string \<Rightarrow> string \<Rightarrow> encrypted_key \<Rightarrow> string \<Rightarrow> encrypted_key \<Rightarrow> string
     \<Rightarrow> ('s, device_metadata) act"
where
  "api_createDevice svc volumeId deviceType addressId addressKeyId shareKey encryptedName rootKey armoredHashKey =
     await (of_result (deviceTypeEnumToNumber deviceType)) (\<lambda>n.
     await (ds_postDevice svc \<lparr>dr_Type = n, dr_AddressID = addressId, dr_AddressKeyID = addressKeyId, dr_shareKey = shareKey,
              dr_Name = encryptedName, dr_rootKey = rootKey, dr_NodeHashKey = armoredHashKey\<rparr>) (\<lambda>ids s.
       (Inr \<lparr>dm_uid = makeDeviceUid volumeId (di_DeviceID ids), dm_type = deviceType,
             dm_rootFolderUid = makeNodeUid volumeId (di_LinkID ids), dm_creationTime = JDate (Some (ds_now svc s)),
             dm_lastSyncTime = JUndefined, dm_hasDeprecatedName = False, dm_shareId = di_ShareID ids\<rparr>, s)))"

definition api_deleteDevice :: "('s, 'k, 'sk) device_services \<Rightarrow> string \<Rightarrow> ('s, unit) act" where
  "api_deleteDevice svc deviceUid =
     await (of_result (splitDeviceUid deviceUid)) (\<lambda>(_, deviceId). ds_deleteDevice svc deviceId)"

section \<open>DevicesCryptoService\<close>

definition createDevice_crypto ::
  "('s, 'k, 'sk) device_services \<Rightarrow> string \<Rightarrow> ('s, 'k member_key \<times> ('k, 'sk) tree_bootstrap) act"
where
  "createDevice_crypto svc deviceName =
     await (ds_getMyFilesShareMemberEmailKey svc) (\<lambda>address.
     await (generate_tree (ds_openpgp svc) deviceName (mk_addressKey address)) (\<lambda>tree. give (address, tree)))"

section \<open>DevicesManager\<close>

definition with_name :: "device_metadata \<Rightarrow> jsval \<Rightarrow> device" where
  "with_name d name =
     \<lparr>dm_uid = dm_uid d, dm_type = dm_type d, dm_rootFolderUid = dm_rootFolderUid d, dm_creationTime = dm_creationTime d,
      dm_lastSyncTime = dm_lastSyncTime d, dm_hasDeprecatedName = dm_hasDeprecatedName d, dm_shareId = dm_shareId d,
      dv_name = name\<rparr>"

definition device_not_found :: thrown where
  "device_not_found = throw_new ValidationError ''Device not found''"

definition getDeviceMetadata :: "('s, 'k, 'sk) device_services \<Rightarrow> string \<Rightarrow> ('s, device_metadata) act" where
  "getDeviceMetadata svc deviceUid =
     await (api_getDevices svc) (\<lambda>devices.
       case find (\<lambda>d. dm_uid d = deviceUid) devices of Some d \<Rightarrow> give d | None \<Rightarrow> throw_act device_not_found)"

text \<open>\<open>Array.fromAsync\<close>: all that a generator yields, or the error it ends with.\<close>

definition array_from :: "('s, 'y) gen \<Rightarrow> ('s, 'y list) act" where
  "array_from g s = (case g s of (_, Some error, s') \<Rightarrow> (Inl error, s') | (ys, None, s') \<Rightarrow> (Inr ys, s'))"

definition getDevice :: "('s, 'k, 'sk) device_services \<Rightarrow> string \<Rightarrow> ('s, device) act" where
  "getDevice svc deviceUid =
     await (getDeviceMetadata svc deviceUid) (\<lambda>d.
     await (array_from (ds_iterateNodes svc [dm_rootFolderUid d])) (\<lambda>nodes.
       case nodes of
         Listed node # _ \<Rightarrow> give (with_name d (js_opt ''name'' node))
       | _ \<Rightarrow> throw_act device_not_found))"

text \<open>The map from root folders to devices: the last device of a folder counts, at the place of the first.\<close>

definition device_at :: "device_metadata list \<Rightarrow> string \<Rightarrow> device_metadata option" where
  "device_at devices uid = find (\<lambda>d. dm_rootFolderUid d = uid) (rev devices)"

definition named_device :: "device_metadata list \<Rightarrow> jsval listed \<Rightarrow> device list" where
  "named_device devices item =
     (case item of
        MissingNode _ \<Rightarrow> []
      | Listed node \<Rightarrow>
          (case device_at devices (node_uid node) of Some d \<Rightarrow> [with_name d (js_opt ''name'' node)] | None \<Rightarrow> []))"

definition iterateDevices :: "('s, 'k, 'sk) device_services \<Rightarrow> ('s, device) gen" where
  "iterateDevices svc =
     gen_await (api_getDevices svc) (\<lambda>devices.
       for_await (ds_iterateNodes svc (set_of (map dm_rootFolderUid devices))) (\<lambda>item. yields (named_device devices item)))"

definition createDevice :: "('s, 'k, 'sk) device_services \<Rightarrow> string \<Rightarrow> string \<Rightarrow> ('s, device) act" where
  "createDevice svc name deviceType =
     await (ds_getRootIDs svc) (\<lambda>ids.
     await (createDevice_crypto svc name) (\<lambda>(address, tree).
     await (api_createDevice svc (vi_volumeId ids) deviceType (mk_addressId address) (mk_addressKeyId address)
              (tb_shareKey tree) (tb_encryptedName tree) (tb_rootKey tree) (tb_armoredHashKey tree)) (\<lambda>d.
       give (with_name d (resultOk (JStr name))))))"

definition renameDevice :: "('s, 'k, 'sk) device_services \<Rightarrow> string \<Rightarrow> string \<Rightarrow> ('s, device) act" where
  "renameDevice svc deviceUid name =
     await (getDeviceMetadata svc deviceUid) (\<lambda>d.
     await (if dm_hasDeprecatedName d then catch (removeNameFromDevice svc deviceUid) (\<lambda>_. give ()) else give ()) (\<lambda>_.
     await (ds_renameNode svc True (dm_rootFolderUid d) name) (\<lambda>_.
       give (with_name d (resultOk (JStr name))))))"

definition deleteDevice :: "('s, 'k, 'sk) device_services \<Rightarrow> string \<Rightarrow> ('s, unit) act" where
  "deleteDevice svc deviceUid = api_deleteDevice svc deviceUid"

section \<open>Listing devices\<close>

definition item_uid :: "jsval listed \<Rightarrow> string" where
  "item_uid item = (case item of Listed node \<Rightarrow> node_uid node | MissingNode uid \<Rightarrow> uid)"

lemma item_uid_simps [simp]: "item_uid (Listed node) = node_uid node" "item_uid (MissingNode uid) = uid"
  by (simp_all add: item_uid_def)

lemma gen_each_yields: "gen_each (\<lambda>y. yields (f y)) ys s = (concat (map f ys), None, s)"
  by (induction ys) (simp_all add: followed_by_def yields_def)

lemma device_at_unique:
  assumes "distinct (map dm_rootFolderUid devices)" "d \<in> set devices"
  shows "device_at devices (dm_rootFolderUid d) = Some d"
proof -
  obtain x where x: "find (\<lambda>x. dm_rootFolderUid x = dm_rootFolderUid d) (rev devices) = Some x"
    using assms(2) by (cases "find (\<lambda>x. dm_rootFolderUid x = dm_rootFolderUid d) (rev devices)") (auto simp: find_None_iff)
  then have "x \<in> set (rev devices)" "dm_rootFolderUid x = dm_rootFolderUid d"
    unfolding find_Some_iff by (metis nth_mem, blast)
  then have "x \<in> set devices" by simp
  with assms \<open>dm_rootFolderUid x = dm_rootFolderUid d\<close> have "x = d" by (metis distinct_map inj_onD)
  with x show ?thesis by (simp add: device_at_def)
qed

lemma device_at_uid: "device_at devices u = Some d \<Longrightarrow> dm_rootFolderUid d = u"
  by (auto simp: device_at_def find_Some_iff)

lemma named_deviceD:
  "y \<in> set (named_device devices item) \<Longrightarrow>
     \<exists>node. item = Listed node \<and> node_uid node = dm_rootFolderUid y \<and> dv_name y = js_opt ''name'' node"
  by (auto simp: named_device_def with_name_def dest: device_at_uid [OF sym] split: listed.splits option.splits)

lemma truncate_with_name [simp]: "device_metadata.truncate (with_name d name) = d"
  by (simp add: device_metadata.truncate_def with_name_def)

lemma named_devices:
  assumes devices: "distinct (map dm_rootFolderUid devices)"
  shows "distinct (map item_uid items) \<Longrightarrow> \<forall>item \<in> set items. item_uid item \<in> dm_rootFolderUid ` set devices \<Longrightarrow>
    map device_metadata.truncate (concat (map (named_device devices) items))
      = map (\<lambda>u. the (device_at devices u)) (filter (\<lambda>u. MissingNode u \<notin> set items) (map item_uid items))"
proof (induction items)
  case (Cons item items)
  then obtain d where d: "d \<in> set devices" "item_uid item = dm_rootFolderUid d" by auto
  have new: "item_uid item \<notin> item_uid ` set items" using Cons.prems(1) by simp
  then have "MissingNode u \<notin> set (item # items) \<longleftrightarrow> MissingNode u \<notin> set items" if "u \<in> set (map item_uid items)" for u
    using that by (cases item) (auto simp: item_uid_def)
  then have rest: "filter (\<lambda>u. MissingNode u \<notin> set (item # items)) (map item_uid items)
      = filter (\<lambda>u. MissingNode u \<notin> set items) (map item_uid items)"
    by (rule filter_cong [OF refl])
  have "MissingNode (item_uid item) \<notin> set items"
    using new by (metis image_eqI item_uid_def listed.simps(6))
  then show ?case
    using Cons rest d device_at_unique [OF devices d(1)]
    by (cases item) (auto simp: named_device_def)
qed simp


section \<open>A device that is created\<close>

lemma created_device_run:
  assumes "createDevice svc name deviceType s = (Inr d, s')"
  obtains volume member tree n ids w1 w2 w3 w4 w5 where
    "ds_getMyFilesShareMemberEmailKey svc w1 = (Inr member, w2)"
    "generate_tree (ds_openpgp svc) name (mk_addressKey member) w2 = (Inr tree, w3)"
    "deviceTypeEnumToNumber deviceType = Inr n"
    "ds_postDevice svc \<lparr>dr_Type = n, dr_AddressID = mk_addressId member, dr_AddressKeyID = mk_addressKeyId member,
       dr_shareKey = tb_shareKey tree, dr_Name = tb_encryptedName tree, dr_rootKey = tb_rootKey tree,
       dr_NodeHashKey = tb_armoredHashKey tree\<rparr> w4 = (Inr ids, w5)"
    "dm_rootFolderUid d = makeNodeUid (vi_volumeId volume) (di_LinkID ids)" "dm_shareId d = di_ShareID ids"
    "dm_uid d = makeDeviceUid (vi_volumeId volume) (di_DeviceID ids)" "dv_name d = resultOk (JStr name)"
    "ds_getRootIDs svc s = (Inr volume, w1)"
  using assms that unfolding createDevice_def createDevice_crypto_def api_createDevice_def
  by (auto dest!: await_ok simp: of_result_def give_def with_name_def split: prod.splits)

text \<open>
  Who holds the address's key opens what is sent: the share's passphrase is signed by the address, and with
  the share's key the root decrypts, signed by the address, to the device's name and has a hash key.
\<close>

definition opens_device :: "('s, 'k, 'sk) openpgp \<Rightarrow> 'k \<Rightarrow> string \<Rightarrow> device_request \<Rightarrow> bool" where
  "opens_device pg addressKey name req \<longleftrightarrow>
     (\<forall>ds vks. addressKey \<in> set ds \<and> addressKey \<in> set vks \<longrightarrow>
        (\<exists>opened es. dc_decryptKey pg (nk_armoredKey (dr_shareKey req)) (nk_armoredPassphrase (dr_shareKey req))
              (Some (nk_armoredPassphraseSignature (dr_shareKey req))) ds vks = Inr (opened, SIGNED_AND_VALID, es)
            \<and> (\<forall>(csvc :: ('s, 'k, 'sk) crypto_services) node email. cs_openpgp csvc = pg
                 \<and> cs_getPublicKeys csvc email = Inr vks \<and> email \<noteq> ''''
                 \<and> string_field ''encryptedName'' node = Some (dr_Name req) \<and> \<not> js_truthy (js_opt ''membership'' node) \<longrightarrow>
                 (\<exists>u keys. crypto_decryptNode csvc (node, root_encrypted email (dr_rootKey req) (dr_NodeHashKey req)) (ok_key opened)
                      = Inr (u, Some keys)
                    \<and> js_opt ''name'' u = resultOk (JStr name) \<and> js_opt ''keyAuthor'' u = resultOk (JStr email)
                    \<and> ky_hashKey keys \<noteq> None))))"

lemma tree_opens_device:
  fixes pg :: "('s, 'k, 'sk) openpgp"
  assumes laws: "openpgp_laws pg signs" and run: "generate_tree pg name k s = (Inr tree, s')"
    and req: "dr_shareKey req = tb_shareKey tree" "dr_Name req = tb_encryptedName tree" "dr_rootKey req = tb_rootKey tree"
      "dr_NodeHashKey req = tb_armoredHashKey tree"
  shows "opens_device pg k name req"
  unfolding opens_device_def req
proof (intro allI impI, elim conjE)
  fix ds vks
  assume k: "k \<in> set ds" "k \<in> set vks"
  from tree_share_opens [OF laws run k] obtain es where
    "dc_decryptKey pg (nk_armoredKey (tb_shareKey tree)) (nk_armoredPassphrase (tb_shareKey tree))
       (Some (nk_armoredPassphraseSignature (tb_shareKey tree))) ds vks = Inr (tb_shareKeys tree, SIGNED_AND_VALID, es)" ..
  moreover have "\<exists>u keys. crypto_decryptNode csvc (node, root_encrypted email (tb_rootKey tree) (tb_armoredHashKey tree))
         (ok_key (tb_shareKeys tree)) = Inr (u, Some keys)
       \<and> js_opt ''name'' u = resultOk (JStr name) \<and> js_opt ''keyAuthor'' u = resultOk (JStr email) \<and> ky_hashKey keys \<noteq> None"
    if "cs_openpgp csvc = pg" "cs_getPublicKeys csvc email = Inr vks" "email \<noteq> ''''"
      "string_field ''encryptedName'' node = Some (tb_encryptedName tree)" "\<not> js_truthy (js_opt ''membership'' node)"
    for csvc :: "('s, 'k, 'sk) crypto_services" and node email
    using tree_root_opens [where svc = csvc, unfolded that(1), OF laws run that(2) k(2) that(3-5)] by blast
  ultimately show "\<exists>opened es. dc_decryptKey pg (nk_armoredKey (tb_shareKey tree)) (nk_armoredPassphrase (tb_shareKey tree))
       (Some (nk_armoredPassphraseSignature (tb_shareKey tree))) ds vks = Inr (opened, SIGNED_AND_VALID, es)
     \<and> (\<forall>(csvc :: ('s, 'k, 'sk) crypto_services) node email. cs_openpgp csvc = pg
          \<and> cs_getPublicKeys csvc email = Inr vks \<and> email \<noteq> ''''
          \<and> string_field ''encryptedName'' node = Some (tb_encryptedName tree) \<and> \<not> js_truthy (js_opt ''membership'' node) \<longrightarrow>
          (\<exists>u keys. crypto_decryptNode csvc (node, root_encrypted email (tb_rootKey tree) (tb_armoredHashKey tree)) (ok_key opened)
               = Inr (u, Some keys)
             \<and> js_opt ''name'' u = resultOk (JStr name) \<and> js_opt ''keyAuthor'' u = resultOk (JStr email)
             \<and> ky_hashKey keys \<noteq> None))"
    by blast
qed

text \<open>
  What is sent for a new device can be opened by who holds the key of the address it is sent for, down
  to the name of its root; the device that is returned has the IDs the server gave and the name asked for.
\<close>

theorem created_device_opens:
  assumes laws: "openpgp_laws (ds_openpgp svc) signs"
    and run: "createDevice svc name deviceType s = (Inr d, s')"
  shows "\<exists>volume member req ids w w'. ds_postDevice svc req w = (Inr ids, w')
     \<and> dm_uid d = makeDeviceUid volume (di_DeviceID ids) \<and> dm_rootFolderUid d = makeNodeUid volume (di_LinkID ids)
     \<and> dv_name d = resultOk (JStr name) \<and> dr_AddressID req = mk_addressId member
     \<and> (\<exists>w w'. ds_getMyFilesShareMemberEmailKey svc w = (Inr member, w'))
     \<and> opens_device (ds_openpgp svc) (mk_addressKey member) name req"
proof (rule created_device_run [OF run], goal_cases)
  case (1 volume member tree n ids w1 w2 w3 w4 w5)
  show ?case
    by (intro exI conjI) (rule 1(1,4-8) tree_opens_device [OF laws 1(2)] | simp)+
qed

section \<open>Two devices, one without a root\<close>

definition demo_device :: "string \<Rightarrow> string \<Rightarrow> api_device" where
  "demo_device i root = \<lparr>ad_VolumeID = ''v'', ad_DeviceID = i, ad_Type = 1, ad_CreateTime = 1, ad_LastSyncTime = None,
     ad_LinkID = root, ad_Name = None, ad_ShareID = ''s''\<rparr>"

definition demo_device_services :: "(nat, 8 word, 8 word) device_services" where
  "demo_device_services =
     \<lparr>ds_openpgp = symbolic, ds_getDevices = give [demo_device ''1'' ''a'', demo_device ''2'' ''b''],
      ds_putEmptyName = (\<lambda>_. give ()), ds_postDevice = (\<lambda>_. give \<lparr>di_DeviceID = ''3'', di_LinkID = ''c'', di_ShareID = ''t''\<rparr>),
      ds_deleteDevice = (\<lambda>_. give ()), ds_getRootIDs = give demo_ids,
      ds_getMyFilesShareMemberEmailKey =
        give \<lparr>mk_email = ''a@x'', mk_addressId = ''id'', mk_addressKey = 9, mk_addressKeyId = ''k''\<rparr>,
      ds_iterateNodes = (\<lambda>_. yields
        [MissingNode ''v~b'', Listed (JObj [(''uid'', JStr ''v~a''), (''name'', resultOk (JStr ''laptop''))])]),
      ds_renameNode = (\<lambda>_ _ _. give JUndefined), ds_now = (\<lambda>_. 0)\<rparr>"


theorem created_device_opens_witness:
  "\<exists>d s' req. createDevice demo_device_services ''laptop'' ''linux'' 0 = (Inr d, s') \<and> dv_name d = resultOk (JStr ''laptop'')
     \<and> opens_device symbolic 9 ''laptop'' req"
proof -
  have "\<not> isl (fst (createDevice demo_device_services ''laptop'' ''linux'' 0))" by code_simp
  from ran [OF this] obtain d s' where run: "createDevice demo_device_services ''laptop'' ''linux'' 0 = (Inr d, s')" by blast
  have svc: "ds_openpgp demo_device_services = symbolic" by (simp add: demo_device_services_def)
  have key: "mk_addressKey member = 9" if "ds_getMyFilesShareMemberEmailKey demo_device_services w = (Inr member, w')" for w member w'
    using that by (auto simp: demo_device_services_def give_def)
  from created_device_opens [OF _ run, unfolded svc, OF symbolic_laws] run key show ?thesis by metis
qed

end
