(* ===== verification/UploadEntry.thy ===== *)
theory UploadEntry
  imports UploadManager StreamUpload DriveCrypto
begin

text \<open>
  How an upload is started: \<^verbatim>\<open>internal/upload/fileUploader.ts\<close> (the uploader of a new file and of a new
  revision), \<^verbatim>\<open>smallFileUploader.ts\<close> (an upload in one request), \<^verbatim>\<open>index.ts\<close>, and of \<^verbatim>\<open>blockVerifier.ts\<close>
  and \<^verbatim>\<open>cryptoService.ts\<close> what they call. Drafts, conflicts and requests are those of \<open>UploadManager\<close>; the
  stream uploader of \<open>StreamUpload\<close> is here an operation that uploads and commits a draft's content.

  The state is the one of the manager with the events the caller and the queue see: capacity given back,
  progress, and what is reported of an upload that failed to start or has finished. Calls that are started
  together are run one after the other; callbacks do not throw; the debug details of integrity errors are left
  out. A result of \<open>None\<close> is a call that has not
  ended within its fuel.
\<close>

section \<open>Data\<close>

record entry_metadata = upload_metadata +
  um_expectedSha1 :: "string option"
  um_modificationTime :: "int option option"
  um_additionalMetadata :: "(string \<times> jsval) list option"

datatype upload_event =
    Released nat
  | Progressed nat
  | InitFailed string thrown nat
  | Uploaded string nat

datatype upload_target = NewFile string string | NewRevision string

type_synonym ('s, 'a) entry_run = "('s world \<times> upload_event list, 'a) run"

text \<open>
  The verification data of a draft are its code and its content key packet; \<open>et_stream\<close> uploads the
  content of a draft and commits it.
\<close>

record ('s, 'k, 'p) entry_services =
  et_upload :: "('s, 'k, 'p) upload_services"
  et_openpgp :: "('s, 'k, 'p) openpgp"
  et_sha256 :: "bytes \<Rightarrow> bytes"
  et_sha1 :: "bytes \<Rightarrow> string"
  et_render :: "js_text \<Rightarrow> string"
  et_getVerificationData :: "string \<Rightarrow> ('s, bytes \<times> string) act"
  et_isSmallFileUploadEnabled :: "('s, bool) act"
  et_allowSmallFileUpload :: bool
  et_stream :: "('k, 'p) revision_draft \<Rightarrow> bytes \<times> 'p \<Rightarrow> entry_metadata \<Rightarrow> bytes list \<Rightarrow> (nat \<times> bytes) list \<Rightarrow>
     ('s world, unit) run"

definition managed :: "('s world, 'a) run \<Rightarrow> ('s, 'a) entry_run" where
  "managed m s = map_option (\<lambda>(r, w). (r, (w, snd s))) (m (fst s))"

definition at_once :: "('s, 'a) act \<Rightarrow> ('s, 'a) run" where
  "at_once m s = Some (m s)"

definition emit :: "upload_event \<Rightarrow> ('s, unit) entry_run" where
  "emit event s = Some (Inr (), (fst s, snd s @ [event]))"

text \<open>\<open>try m finally f\<close>; \<open>f\<close> is told whether \<open>m\<close> failed.\<close>

definition finally_run :: "('s, 'a) run \<Rightarrow> (bool \<Rightarrow> ('s, unit) run) \<Rightarrow> ('s, 'a) run" where
  "finally_run m f s =
     (case m s of
        None \<Rightarrow> None
      | Some (r, s1) \<Rightarrow>
          (case f (isl r) s1 of
             None \<Rightarrow> None
           | Some (Inl error, s2) \<Rightarrow> Some (Inl error, s2)
           | Some (Inr _, s2) \<Rightarrow> Some (r, s2)))"

section \<open>Small files\<close>

record ('k, 'p) small_keys =
  ny_key :: 'k
  ny_contentKeyPacket :: bytes
  ny_contentKeyPacketSessionKey :: 'p
  ny_signingKeys :: "'k signing_keys"

definition integrity_error :: "string \<Rightarrow> thrown" where
  "integrity_error message = throw_new IntegrityError message"

text \<open>The signal the stream is read with is never aborted.\<close>

definition readStreamContent :: "('s, 'k, 'p) entry_services \<Rightarrow> entry_metadata \<Rightarrow> bytes list \<Rightarrow> thrown + bytes \<times> string" where
  "readStreamContent env metadata stream =
     try_bind (readStreamToUint8Array (\<lambda>_. False) stream) (\<lambda>content.
       if length content \<noteq> um_expectedSize metadata
       then Inl (integrity_error ''Stream size does not match expected size'')
       else let contentSha1 = et_sha1 env content in
            if (case present (um_expectedSha1 metadata) of Some expected \<Rightarrow> contentSha1 \<noteq> expected | None \<Rightarrow> False)
            then Inl (integrity_error ''File hash does not match expected hash'')
            else Inr (content, contentSha1))"

text \<open>A thumbnail and a block with the hash of what is sent.\<close>

fun small_encryptThumbnails ::
  "('s, 'k, 'p) entry_services \<Rightarrow> ('k, 'p) small_keys \<Rightarrow> (nat \<times> bytes) list \<Rightarrow> ('s, (nat \<times> bytes \<times> bytes) list) act"
where
  "small_encryptThumbnails env keys [] = give []"
| "small_encryptThumbnails env keys ((thumbnailType, thumbnail) # thumbnails) =
     await (encryptThumbnailBlock (et_openpgp env) thumbnail (ny_contentKeyPacketSessionKey keys)
              (sg_contentSigningKey (ny_signingKeys keys))) (\<lambda>encryptedData.
     await (small_encryptThumbnails env keys thumbnails) (\<lambda>rest.
       give ((thumbnailType, encryptedData, et_sha256 env encryptedData) # rest)))"

definition verifyBlockWithContentKey ::
  "('s, 'k, 'p) openpgp \<Rightarrow> bytes \<Rightarrow> 'p \<Rightarrow> bytes \<Rightarrow> thrown + bytes"
where
  "verifyBlockWithContentKey pg contentKeyPacket contentKeyPacketSessionKey encryptedBlock =
     verifyBlock (\<lambda>b. \<not> isl (dc_decryptBlock pg b contentKeyPacketSessionKey))
       (drop (length contentKeyPacket - 32) contentKeyPacket) encryptedBlock"

definition small_encryptBlock ::
  "('s, 'k, 'p) entry_services \<Rightarrow> ('k, 'p) small_keys \<Rightarrow> bytes \<Rightarrow> ('s, small_block \<times> bytes) act"
where
  "small_encryptBlock env keys content =
     await (dc_encryptBlock (et_openpgp env) content (ny_key keys) (ny_contentKeyPacketSessionKey keys)
              (sg_contentSigningKey (ny_signingKeys keys))) (\<lambda>(encryptedData, armoredSignature).
     await (of_result (verifyBlockWithContentKey (et_openpgp env) (ny_contentKeyPacket keys)
              (ny_contentKeyPacketSessionKey keys) encryptedData)) (\<lambda>token.
       give (\<lparr>sb_encryptedData = encryptedData, sb_armoredSignature = armoredSignature, sb_verificationToken = token\<rparr>,
             et_sha256 env encryptedData)))"

text \<open>The loop around an encryption: an abort is thrown, another failure repeated \<open>n\<close> times.\<close>

fun encrypt_again :: "nat \<Rightarrow> ('s, 'a) act \<Rightarrow> ('s, 'a) act" where
  "encrypt_again 0 m = m"
| "encrypt_again (Suc n) m = catch m (\<lambda>error. if instanceof error AbortError then throw_act error else encrypt_again n m)"

definition encryptContentBlock ::
  "('s, 'k, 'p) entry_services \<Rightarrow> ('k, 'p) small_keys \<Rightarrow> bytes \<Rightarrow> ('s, (small_block \<times> bytes) option) act"
where
  "encryptContentBlock env keys content =
     (if content = [] then give None
      else await (encrypt_again MAX_BLOCK_ENCRYPTION_RETRIES (small_encryptBlock env keys content)) (\<lambda>b. give (Some b)))"

definition small_manifest :: "(small_block \<times> bytes) option \<Rightarrow> (nat \<times> bytes \<times> bytes) list \<Rightarrow> bytes" where
  "small_manifest encryptedBlock sortedThumbnails =
     concat (map (\<lambda>(_, _, blockHash). blockHash) sortedThumbnails
             @ (case encryptedBlock of Some (_, blockHash) \<Rightarrow> [blockHash] | None \<Rightarrow> []))"

definition encryptCommitPayload ::
  "('s, 'k, 'p) entry_services \<Rightarrow> ('k, 'p) small_keys \<Rightarrow> entry_metadata \<Rightarrow> string \<Rightarrow> bytes \<Rightarrow> ('s, commit_payload) act"
where
  "encryptCommitPayload env keys metadata contentSha1 manifest =
     (let signer = sg_contentSigningKey (ny_signingKeys keys); size = um_expectedSize metadata in
      await (of_result (generateFileExtendedAttributes
               \<lparr>ca_modificationTime = um_modificationTime metadata, ca_size = int size,
                ca_blockSizes = (if size > 0 then [int size] else []), ca_sha1 = contentSha1\<rparr>
               (um_additionalMetadata metadata))) (\<lambda>extendedAttributes.
      await (DriveCrypto.dc_signManifest (et_openpgp env) manifest signer) (\<lambda>armoredManifestSignature.
      await (encryptExtendedAttributes (et_openpgp env) (et_render env extendedAttributes) (ny_key keys) signer)
        (\<lambda>armoredExtendedAttributes.
        give \<lparr>cp_armoredManifestSignature = armoredManifestSignature,
              cp_armoredExtendedAttributes = armoredExtendedAttributes,
              cp_checksumVerified = Some (present (um_expectedSha1 metadata) = Some contentSha1)\<rparr>))))"

text \<open>The thumbnails are sorted by type where they are, before the manifest is made of them.\<close>

definition buildPayloads ::
  "('s, 'k, 'p) entry_services \<Rightarrow> ('k, 'p) small_keys \<Rightarrow> entry_metadata \<Rightarrow> bytes list \<Rightarrow> (nat \<times> bytes) list \<Rightarrow>
     ('s, commit_payload \<times> small_block option \<times> (nat \<times> bytes) list) act"
where
  "buildPayloads env keys metadata stream thumbnails =
     await (of_result (readStreamContent env metadata stream)) (\<lambda>(content, contentSha1).
     await (small_encryptThumbnails env keys thumbnails) (\<lambda>encryptedThumbnails.
     await (encryptContentBlock env keys content) (\<lambda>encryptedBlock.
     let sortedThumbnails = sort_key fst encryptedThumbnails in
     await (encryptCommitPayload env keys metadata contentSha1 (small_manifest encryptedBlock sortedThumbnails)) (\<lambda>payload.
       give (payload, map_option fst encryptedBlock,
             map (\<lambda>(thumbnailType, encryptedData, _). (thumbnailType, encryptedData)) sortedThumbnails)))))"

fun handleUpload ::
  "('s, 'k, 'p) entry_services \<Rightarrow> nat \<Rightarrow> upload_target \<Rightarrow> entry_metadata \<Rightarrow> bytes list \<Rightarrow> (nat \<times> bytes) list \<Rightarrow>
     ('s world, string \<times> string) run"
where
  "handleUpload env fuel (NewFile parentFolderUid name) metadata stream thumbnails =
     then_run (at_once (generateNewFileCrypto (et_upload env) parentFolderUid name)) (\<lambda>(crypto, _).
     then_run (at_once (read_from (buildPayloads env
        \<lparr>ny_key = gk_key (gc_nodeKeys crypto), ny_contentKeyPacket = ck_contentKeyPacket (gc_contentKey crypto),
         ny_contentKeyPacketSessionKey = ck_contentKeyPacketSessionKey (gc_contentKey crypto),
         ny_signingKeys = gc_signingKeys crypto\<rparr> metadata stream thumbnails))) (\<lambda>(payload, block, encryptedThumbnails).
     uploadFile (et_upload env) fuel parentFolderUid crypto (upload_metadata.truncate metadata) payload block
       encryptedThumbnails))"
| "handleUpload env fuel (NewRevision nodeUid) metadata stream thumbnails =
     then_run (at_once (getExistingFileNodeCrypto (et_upload env) nodeUid)) (\<lambda>(key, packet, sessionKey, signingKeys).
     then_run (at_once (read_from (buildPayloads env
        \<lparr>ny_key = key, ny_contentKeyPacket = packet, ny_contentKeyPacketSessionKey = sessionKey,
         ny_signingKeys = signingKeys\<rparr> metadata stream thumbnails))) (\<lambda>(payload, block, encryptedThumbnails).
     at_once (uploadSmallRevision (et_upload env) nodeUid signingKeys
       (cp_armoredManifestSignature payload, cp_armoredExtendedAttributes payload) block encryptedThumbnails)))"

fun context_uid :: "upload_target \<Rightarrow> string" where
  "context_uid (NewFile parentFolderUid _) = parentFolderUid"
| "context_uid (NewRevision nodeUid) = nodeUid"

definition small_upload ::
  "('s, 'k, 'p) entry_services \<Rightarrow> nat \<Rightarrow> upload_target \<Rightarrow> entry_metadata \<Rightarrow> bytes list \<Rightarrow> (nat \<times> bytes) list \<Rightarrow>
     ('s, string \<times> string) entry_run"
where
  "small_upload env fuel target metadata stream thumbnails =
     (let size = um_expectedSize metadata in
      finally_run
        (catch_run
           (then_run (managed (handleUpload env fuel target metadata stream thumbnails)) (\<lambda>(nodeUid, nodeRevisionUid).
            then_run (emit (Progressed size)) (\<lambda>_.
            then_run (emit (Uploaded nodeRevisionUid size)) (\<lambda>_. give_run (nodeUid, nodeRevisionUid)))))
           (\<lambda>error. then_run (emit (InitFailed (context_uid target) error size)) (\<lambda>_. throw_run error)))
        (\<lambda>_. emit (Released size)))"

section \<open>Large files\<close>

definition loadVerificationData ::
  "('s, 'k, 'p) entry_services \<Rightarrow> ('k, 'p) revision_draft \<Rightarrow> ('s world, bytes \<times> 'p) act"
where
  "loadVerificationData env draft =
     await (read_from (et_getVerificationData env (rd_nodeRevisionUid draft))) (\<lambda>(verificationCode, packet).
     await (of_result (decryptAndVerifySessionKey (et_openpgp env) packet None [rd_key draft] [])) (\<lambda>(sessionKey, _).
       give (verificationCode, sessionKey)))"

fun create_draft ::
  "('s, 'k, 'p) entry_services \<Rightarrow> nat \<Rightarrow> upload_target \<Rightarrow> entry_metadata \<Rightarrow> ('s world, ('k, 'p) revision_draft) run"
where
  "create_draft env fuel (NewFile parentFolderUid name) metadata =
     createDraftNode (et_upload env) fuel parentFolderUid name (upload_metadata.truncate metadata)"
| "create_draft env fuel (NewRevision nodeUid) metadata =
     at_once (createDraftRevision (et_upload env) nodeUid (upload_metadata.truncate metadata))"

fun deleteRevisionDraft ::
  "('s, 'k, 'p) entry_services \<Rightarrow> upload_target \<Rightarrow> ('k, 'p) revision_draft \<Rightarrow> ('s world, unit) act"
where
  "deleteRevisionDraft env (NewFile _ _) draft = deleteDraftNode (et_upload env) (rd_nodeUid draft)"
| "deleteRevisionDraft env (NewRevision _) draft = deleteDraftRevision (et_upload env) (rd_nodeRevisionUid draft)"

text \<open>The \<open>catch\<close> of \<open>createRevisionDraft\<close>: capacity is given back first, then a draft that was made is deleted.\<close>

definition init_failed ::
  "('s, 'k, 'p) entry_services \<Rightarrow> upload_target \<Rightarrow> entry_metadata \<Rightarrow> ('k, 'p) revision_draft option \<Rightarrow> thrown \<Rightarrow> ('s, 'a) entry_run"
where
  "init_failed env target metadata draft error =
     (let size = um_expectedSize metadata in
      then_run (emit (Released size)) (\<lambda>_.
      then_run (case draft of
                  Some d \<Rightarrow> managed (at_once (deleteRevisionDraft env target d)) | None \<Rightarrow> give_run ()) (\<lambda>_.
      then_run (emit (InitFailed (context_uid target) error size)) (\<lambda>_. throw_run error))))"

definition createRevisionDraft ::
  "('s, 'k, 'p) entry_services \<Rightarrow> nat \<Rightarrow> upload_target \<Rightarrow> entry_metadata \<Rightarrow>
     ('s, ('k, 'p) revision_draft \<times> bytes \<times> 'p) entry_run"
where
  "createRevisionDraft env fuel target metadata s =
     (case managed (create_draft env fuel target metadata) s of
        None \<Rightarrow> None
      | Some (Inl error, s1) \<Rightarrow> init_failed env target metadata None error s1
      | Some (Inr draft, s1) \<Rightarrow>
          catch_run (then_run (managed (at_once (loadVerificationData env draft))) (\<lambda>verifier. give_run (draft, verifier)))
            (init_failed env target metadata (Some draft)) s1)"

text \<open>\<open>onFinish\<close> of the stream uploader, which it calls once when it is done.\<close>

definition stream_upload ::
  "('s, 'k, 'p) entry_services \<Rightarrow> nat \<Rightarrow> upload_target \<Rightarrow> entry_metadata \<Rightarrow> bytes list \<Rightarrow> (nat \<times> bytes) list \<Rightarrow>
     ('s, string \<times> string) entry_run"
where
  "stream_upload env fuel target metadata stream thumbnails =
     then_run (createRevisionDraft env fuel target metadata) (\<lambda>(draft, verifier).
     finally_run
       (then_run (managed (et_stream env draft verifier metadata stream thumbnails)) (\<lambda>_.
          give_run (rd_nodeUid draft, rd_nodeRevisionUid draft)))
       (\<lambda>failure.
          then_run (emit (Released (um_expectedSize metadata))) (\<lambda>_.
          if failure then managed (at_once (deleteRevisionDraft env target draft)) else give_run ())))"

section \<open>Starting\<close>

definition SMALL_FILE_SIZE_LIMIT :: nat where "SMALL_FILE_SIZE_LIMIT = 128 * 1024"

text \<open>The size with a tenth added for the encryption is compared with the limit, both taken tenfold.\<close>

definition expected_tenths :: "entry_metadata \<Rightarrow> (nat \<times> bytes) list \<Rightarrow> nat" where
  "expected_tenths metadata thumbnails =
     11 * (um_expectedSize metadata + sum_list (map (\<lambda>(_, thumbnail). length thumbnail) thumbnails))"

definition shouldUseSmallFileUpload :: "('s, 'k, 'p) entry_services \<Rightarrow> nat \<Rightarrow> ('s, bool) act" where
  "shouldUseSmallFileUpload env tenths =
     await (if et_allowSmallFileUpload env then et_isSmallFileUploadEnabled env else give False) (\<lambda>isEnabled.
       give (isEnabled \<and> tenths < 10 * SMALL_FILE_SIZE_LIMIT))"

definition startUpload ::
  "('s, 'k, 'p) entry_services \<Rightarrow> nat \<Rightarrow> upload_target \<Rightarrow> entry_metadata \<Rightarrow> bytes list \<Rightarrow> (nat \<times> bytes) list \<Rightarrow>
     ('s, string \<times> string) entry_run"
where
  "startUpload env fuel target metadata stream thumbnails =
     then_run (managed (at_once (read_from (shouldUseSmallFileUpload env (expected_tenths metadata thumbnails))))) (\<lambda>small.
       if small then small_upload env fuel target metadata stream thumbnails
       else stream_upload env fuel target metadata stream thumbnails)"

text \<open>The uploader of one file; the promise of the upload is the operation that is started.\<close>

record uploader =
  ul_target :: upload_target
  ul_metadata :: entry_metadata
  ul_started :: bool

record file_object =
  fo_type :: string
  fo_size :: nat
  fo_lastModified :: int
  fo_stream :: "bytes list"

definition assert_startable :: "uploader \<Rightarrow> (nat \<times> bytes) list \<Rightarrow> thrown + unit" where
  "assert_startable u thumbnails =
     (if ul_started u then Inl (throw_new JsError ''Upload already started'')
      else if \<not> distinct (map fst thumbnails) then Inl (throw_new JsError ''Duplicate thumbnail types'')
      else Inr ())"

definition uploadFromStream ::
  "('s, 'k, 'p) entry_services \<Rightarrow> nat \<Rightarrow> uploader \<Rightarrow> bytes list \<Rightarrow> (nat \<times> bytes) list \<Rightarrow>
     thrown + uploader \<times> ('s, string \<times> string) entry_run"
where
  "uploadFromStream env fuel u stream thumbnails =
     try_bind (assert_startable u thumbnails) (\<lambda>_.
       Inr (u\<lparr>ul_started := True\<rparr>, startUpload env fuel (ul_target u) (ul_metadata u) stream thumbnails))"

text \<open>The metadata the caller left out are those of the file; a size of 0 counts as left out.\<close>

definition completed_metadata :: "entry_metadata \<Rightarrow> file_object \<Rightarrow> entry_metadata" where
  "completed_metadata metadata f =
     metadata\<lparr>um_mediaType := (case present (um_mediaType metadata) of None \<Rightarrow> Some (fo_type f) | t \<Rightarrow> t),
       um_expectedSize := (if um_expectedSize metadata = 0 then fo_size f else um_expectedSize metadata),
       um_modificationTime :=
         (case um_modificationTime metadata of None \<Rightarrow> Some (Some (fo_lastModified f)) | t \<Rightarrow> t)\<rparr>"

definition uploadFromFile ::
  "('s, 'k, 'p) entry_services \<Rightarrow> nat \<Rightarrow> uploader \<Rightarrow> file_object \<Rightarrow> (nat \<times> bytes) list \<Rightarrow>
     thrown + uploader \<times> ('s, string \<times> string) entry_run"
where
  "uploadFromFile env fuel u f thumbnails =
     try_bind (assert_startable u thumbnails) (\<lambda>_.
       let metadata = completed_metadata (ul_metadata u) f in
       Inr (u\<lparr>ul_metadata := metadata, ul_started := True\<rparr>,
            startUpload env fuel (ul_target u) metadata (fo_stream f) thumbnails))"

definition new_uploader :: "upload_target \<Rightarrow> entry_metadata \<Rightarrow> uploader" where
  "new_uploader target metadata = \<lparr>ul_target = target, ul_metadata = metadata, ul_started = False\<rparr>"

section \<open>Capacity\<close>

fun released :: "upload_event list \<Rightarrow> nat list" where
  "released [] = []"
| "released (Released n # events) = n # released events"
| "released (_ # events) = released events"

lemma released_append [simp]: "released (xs @ ys) = released xs @ released ys"
  by (induction xs rule: released.induct) simp_all

text \<open>An operation that gives back \<open>xs\<close> if it succeeds and \<open>ys\<close> if it fails.\<close>

definition gives_back :: "nat list \<Rightarrow> nat list \<Rightarrow> ('s, 'a) entry_run \<Rightarrow> bool" where
  "gives_back xs ys m \<longleftrightarrow>
     (\<forall>s r s'. m s = Some (r, s') \<longrightarrow> released (snd s') = released (snd s) @ (if isl r then ys else xs))"

lemma gives_backD:
  "gives_back xs ys m \<Longrightarrow> m s = Some (r, s') \<Longrightarrow> released (snd s') = released (snd s) @ (if isl r then ys else xs)"
  unfolding gives_back_def by blast

named_theorems capacity_rules "what operations give back"

lemma gives_back_basic [capacity_rules]:
  "gives_back [] [] (managed m)" "gives_back [] ys (give_run v)" "gives_back xs [] (throw_run t)"
  by (auto simp: gives_back_def managed_def run_defs)

lemma gives_back_emit [capacity_rules]:
  "gives_back [n] ys (emit (Released n))" "gives_back [] ys (emit (Progressed n))"
  "gives_back [] ys (emit (InitFailed uid e n))" "gives_back [] ys (emit (Uploaded uid n))"
  by (auto simp: gives_back_def emit_def)

lemma gives_back_then_nothing [capacity_rules]:
  "gives_back [] ys m \<Longrightarrow> (\<And>v. gives_back xs ys (k v)) \<Longrightarrow> gives_back xs ys (then_run m k)"
  by (fastforce simp: gives_back_def then_run_def split: option.splits sum.splits prod.splits)

lemma gives_back_catch:
  "gives_back xs [] m \<Longrightarrow> (\<And>t. gives_back xs ys (h t)) \<Longrightarrow> gives_back xs ys (catch_run m h)"
  by (fastforce simp: gives_back_def catch_run_def split: option.splits sum.splits prod.splits)

lemma gives_back_finally:
  "gives_back [] [] m \<Longrightarrow> (\<And>b. gives_back xs xs (f b)) \<Longrightarrow> gives_back xs xs (finally_run m f)"
  by (fastforce simp: gives_back_def finally_run_def split: option.splits sum.splits prod.splits)

lemma emit_then: "gives_back [] [] (k ()) \<Longrightarrow> gives_back [n] [n] (then_run (emit (Released n)) k)"
  by (fastforce simp: gives_back_def then_run_def emit_def split: option.splits sum.splits prod.splits)

lemma gives_back_cases [capacity_rules]:
  "(\<And>y z. gives_back xs ys (c y z)) \<Longrightarrow> gives_back xs ys (case p of (y, z) \<Rightarrow> c y z)"
  "gives_back xs ys a \<Longrightarrow> (\<And>v. gives_back xs ys (b v)) \<Longrightarrow> gives_back xs ys (case x of None \<Rightarrow> a | Some v \<Rightarrow> b v)"
  "gives_back xs ys a \<Longrightarrow> gives_back xs ys d \<Longrightarrow> gives_back xs ys (if q then a else d)"
  by (simp_all split: prod.split option.split)

lemma small_upload_gives_back:
  "gives_back [um_expectedSize metadata] [um_expectedSize metadata] (small_upload env fuel target metadata stream thumbnails)"
  unfolding small_upload_def Let_def
  by (intro gives_back_finally gives_back_catch capacity_rules)

lemma init_failed_gives_back:
  "gives_back xs [um_expectedSize metadata] (init_failed env target metadata draft error)"
proof -
  have "gives_back [um_expectedSize metadata] [um_expectedSize metadata] (init_failed env target metadata draft error)"
    unfolding init_failed_def Let_def by (intro emit_then capacity_rules)
  moreover have "isl r" if "init_failed env target metadata draft error s = Some (r, s')" for s s' and r :: "thrown + 'z"
    using that by (auto simp: init_failed_def Let_def run_defs emit_def split: option.splits sum.splits prod.splits)
  ultimately show ?thesis by (fastforce simp: gives_back_def)
qed

lemma createRevisionDraft_gives_back:
  "gives_back [] [um_expectedSize metadata] (createRevisionDraft env fuel target metadata)"
proof -
  have "released (snd s') = released (snd s) @ (if isl r then [um_expectedSize metadata] else [])"
    if run: "createRevisionDraft env fuel target metadata s = Some (r, s')" for s r s'
  proof (cases "managed (create_draft env fuel target metadata) s")
    case None
    then show ?thesis using run by (simp add: createRevisionDraft_def)
  next
    case (Some rs)
    obtain d s1 where rs: "rs = (d, s1)" by (cases rs) simp
    have before: "released (snd s1) = released (snd s)"
      using Some rs by (auto simp: managed_def split: option.splits)
    show ?thesis
    proof (cases d)
      case (Inl error)
      then have "init_failed env target metadata None error s1 = Some (r, s')"
        using run Some rs by (simp add: createRevisionDraft_def)
      from gives_backD[OF init_failed_gives_back this, of "[]"] before show ?thesis by simp
    next
      case (Inr draft)
      have verify: "gives_back [] [] (then_run (managed (at_once (loadVerificationData env draft))) (\<lambda>verifier. give_run (draft, verifier)))"
        by (intro capacity_rules)
      have "gives_back [] [um_expectedSize metadata]
          (catch_run (then_run (managed (at_once (loadVerificationData env draft))) (\<lambda>verifier. give_run (draft, verifier)))
            (init_failed env target metadata (Some draft)))"
        by (rule gives_back_catch[OF verify init_failed_gives_back])
      from gives_backD[OF this, of s1 r s'] run Some rs Inr before show ?thesis by (simp add: createRevisionDraft_def)
    qed
  qed
  then show ?thesis unfolding gives_back_def by blast
qed

lemma gives_back_then:
  "gives_back [] ys m \<Longrightarrow> (\<And>v. gives_back ys ys (k v)) \<Longrightarrow> gives_back ys ys (then_run m k)"
  by (fastforce simp: gives_back_def then_run_def split: option.splits sum.splits prod.splits)

lemma stream_upload_gives_back:
  "gives_back [um_expectedSize metadata] [um_expectedSize metadata] (stream_upload env fuel target metadata stream thumbnails)"
  unfolding stream_upload_def
  by (intro gives_back_then[OF createRevisionDraft_gives_back] gives_back_finally emit_then capacity_rules)

lemma startUpload_gives_back:
  assumes answers: "\<forall>w. \<exists>b w'. et_isSmallFileUploadEnabled env w = (Inr b, w')"
  shows "gives_back [um_expectedSize metadata] [um_expectedSize metadata] (startUpload env fuel target metadata stream thumbnails)"
proof -
  have flag: "\<not> isl (fst (shouldUseSmallFileUpload env n w))" for n w
    using answers[rule_format, of w] by (auto simp: shouldUseSmallFileUpload_def await_def give_def split: prod.splits)
  have "gives_back [] [um_expectedSize metadata]
      (managed (at_once (read_from (shouldUseSmallFileUpload env (expected_tenths metadata thumbnails)))))"
    using flag by (auto simp: gives_back_def managed_def at_once_def read_from_def split: prod.splits; metis fst_conv)
  then show ?thesis
    unfolding startUpload_def
    by (intro gives_back_then gives_back_cases(3) small_upload_gives_back stream_upload_gives_back)
qed

section \<open>Drafts\<close>

fun makes_draft :: "request \<Rightarrow> bool" where
  "makes_draft (CreateDraft _ (Inr _)) = True"
| "makes_draft (CreateDraftRevision _ (Inr _)) = True"
| "makes_draft _ = False"

fun asks_deletion_of :: "request \<Rightarrow> request \<Rightarrow> bool" where
  "asks_deletion_of (CreateDraft _ (Inr (nodeUid, _))) (DeleteDraft uid _) \<longleftrightarrow> uid = nodeUid"
| "asks_deletion_of (CreateDraftRevision _ (Inr nodeRevisionUid)) (DeleteDraftRevision uid _) \<longleftrightarrow> uid = nodeRevisionUid"
| "asks_deletion_of _ _ \<longleftrightarrow> False"

text \<open>Each draft that was made was asked to be deleted later.\<close>

fun none_left :: "request list \<Rightarrow> bool" where
  "none_left [] \<longleftrightarrow> True"
| "none_left (x # xs) \<longleftrightarrow> (makes_draft x \<longrightarrow> list_ex (asks_deletion_of x) xs) \<and> none_left xs"

lemma none_left_quiet: "\<forall>x \<in> set l. \<not> makes_draft x \<Longrightarrow> none_left l"
  by (induction l) simp_all

lemma none_left_deleted: "\<forall>x \<in> set l. makes_draft x \<longrightarrow> asks_deletion_of x d \<Longrightarrow> \<not> makes_draft d \<Longrightarrow> none_left (l @ [d])"
  by (induction l) auto

text \<open>Operations that make no draft; \<open>log\<close> is the log of their state.\<close>

definition no_draft :: "('t \<Rightarrow> request list) \<Rightarrow> ('t, 'a) run \<Rightarrow> bool" where
  "no_draft log m \<longleftrightarrow>
     (\<forall>s r s'. m s = Some (r, s') \<longrightarrow> (\<exists>l. log s' = log s @ l \<and> (\<forall>x \<in> set l. \<not> makes_draft x)))"

lemma no_draftD: "no_draft log m \<Longrightarrow> m s = Some (r, s') \<Longrightarrow> \<exists>l. log s' = log s @ l \<and> (\<forall>x \<in> set l. \<not> makes_draft x)"
  unfolding no_draft_def by blast

named_theorems draft_rules "operations that make no draft"

lemma no_draft_then [draft_rules]:
  assumes m: "no_draft log m" and k: "\<And>v. no_draft log (k v)"
  shows "no_draft log (then_run m k)"
  unfolding no_draft_def
proof (intro allI impI)
  fix s r s' assume run: "then_run m k s = Some (r, s')"
  then obtain x s1 where x: "m s = Some (x, s1)" by (auto simp: then_run_def split: option.splits)
  from no_draftD[OF m x] obtain l where l: "log s1 = log s @ l" "\<forall>x \<in> set l. \<not> makes_draft x" by blast
  show "\<exists>l. log s' = log s @ l \<and> (\<forall>x \<in> set l. \<not> makes_draft x)"
  proof (cases x)
    case (Inl t)
    with run x l show ?thesis by (auto simp: then_run_def)
  next
    case (Inr v)
    with run x have "k v s1 = Some (r, s')" by (simp add: then_run_def)
    from no_draftD[OF k this] l show ?thesis by fastforce
  qed
qed

lemma no_draft_catch [draft_rules]:
  assumes m: "no_draft log m" and h: "\<And>t. no_draft log (h t)"
  shows "no_draft log (catch_run m h)"
  unfolding no_draft_def
proof (intro allI impI)
  fix s r s' assume run: "catch_run m h s = Some (r, s')"
  then obtain x s1 where x: "m s = Some (x, s1)" by (auto simp: catch_run_def split: option.splits)
  from no_draftD[OF m x] obtain l where l: "log s1 = log s @ l" "\<forall>x \<in> set l. \<not> makes_draft x" by blast
  show "\<exists>l. log s' = log s @ l \<and> (\<forall>x \<in> set l. \<not> makes_draft x)"
  proof (cases x)
    case (Inr v)
    with run x l show ?thesis by (auto simp: catch_run_def)
  next
    case (Inl t)
    with run x have "h t s1 = Some (r, s')" by (simp add: catch_run_def)
    from no_draftD[OF h this] l show ?thesis by fastforce
  qed
qed

lemma no_draft_finally [draft_rules]:
  assumes m: "no_draft log m" and f: "\<And>b. no_draft log (f b)"
  shows "no_draft log (finally_run m f)"
  unfolding no_draft_def
proof (intro allI impI)
  fix s r s' assume run: "finally_run m f s = Some (r, s')"
  then obtain x s1 where x: "m s = Some (x, s1)" by (auto simp: finally_run_def split: option.splits)
  with run obtain y where y: "f (isl x) s1 = Some (y, s')"
    by (auto simp: finally_run_def split: option.splits sum.splits)
  from no_draftD[OF m x] no_draftD[OF f y] show "\<exists>l. log s' = log s @ l \<and> (\<forall>x \<in> set l. \<not> makes_draft x)"
    by fastforce
qed

lemma no_draft_basic [draft_rules]:
  "no_draft (\<lambda>s. w_log (fst s)) (emit e)" "no_draft log (give_run v)" "no_draft log (throw_run t)"
  "no_draft w_log n \<Longrightarrow> no_draft (\<lambda>s. w_log (fst s)) (managed n)"
  "quiet q \<Longrightarrow> no_draft w_log (at_once q)"
  by (auto simp: no_draft_def emit_def run_defs managed_def quiet_def at_once_def)

lemma no_draft_cases [draft_rules]:
  "(\<And>y z. no_draft log (c y z)) \<Longrightarrow> no_draft log (case p of (y, z) \<Rightarrow> c y z)"
  by (simp split: prod.split)

text \<open>The requests of a small upload; none of them makes a draft.\<close>

lemma uploadFile_no_draft [draft_rules]: "no_draft w_log (uploadFile svc fuel parent crypto metadata payload block thumbnails)"
proof -
  define sent where "sent = (\<lambda>(l :: request list) (r :: thrown + string \<times> string). \<forall>x \<in> set l. \<not> makes_draft x)"
  have once: "\<exists>l. w_log w' = w_log w @ l \<and> sent l r"
    if "upload_file_once svc parent crypto metadata payload block thumbnails w = (r, w')" for w r w'
    using that unfolding upload_file_once_def sent_def
    by (auto simp: run_act dest!: send_log split: prod.splits sum.splits)
  have sent: "conflict_run svc parent metadata sent m r \<Longrightarrow> \<forall>x \<in> set m. \<not> makes_draft x" for m and r :: "thrown + string \<times> string"
    by (induction rule: conflict_run.induct) (auto simp: sent_def)
  show ?thesis
    unfolding no_draft_def uploadFile_loop
  proof (intro allI impI)
    fix s r s'
    assume "conflict_loop svc fuel parent metadata (upload_file_once svc parent crypto metadata payload block thumbnails) s = Some (r, s')"
    from conflict_loop_run[where tries = sent, OF once this] sent
    show "\<exists>l. w_log s' = w_log s @ l \<and> (\<forall>x \<in> set l. \<not> makes_draft x)" by blast
  qed
qed

lemma quiet_getExistingFileNodeCrypto [quiet_intros]: "quiet (getExistingFileNodeCrypto svc nodeUid)"
  unfolding getExistingFileNodeCrypto_def getSigningKeysForExistingNode_def getSigningKeys_def
  by (auto intro!: quiet_intros split: option.split)

lemma uploadSmallRevision_no_draft [draft_rules]:
  "no_draft w_log (at_once (uploadSmallRevision svc nodeUid keys payload block thumbnails))"
  by (auto simp: no_draft_def at_once_def uploadSmallRevision_def run_act dest!: send_log read_from_log
      split: prod.splits sum.splits option.splits)

lemmas [quiet_intros] = quiet_generateNewFileCrypto

lemma handleUpload_no_draft [draft_rules]: "no_draft w_log (handleUpload env fuel target metadata stream thumbnails)"
  by (cases target) (simp_all, (intro draft_rules quiet_intros)+)

lemma small_upload_no_draft:
  "no_draft (\<lambda>s. w_log (fst s)) (small_upload env fuel target metadata stream thumbnails)"
  unfolding small_upload_def Let_def by (intro draft_rules)

text \<open>The requests of a large upload.\<close>

fun made_by :: "upload_target \<Rightarrow> ('k, 'p) revision_draft \<Rightarrow> request" where
  "made_by (NewFile parentFolderUid _) draft = CreateDraft parentFolderUid (Inr (rd_nodeUid draft, rd_nodeRevisionUid draft))"
| "made_by (NewRevision nodeUid) draft = CreateDraftRevision nodeUid (Inr (rd_nodeRevisionUid draft))"

lemma create_draft_log:
  assumes "create_draft env fuel target metadata w = Some (r, w')"
  shows "\<exists>l. w_log w' = w_log w @ l \<and> (\<forall>x \<in> set l. makes_draft x \<longrightarrow> (\<exists>d. r = Inr d \<and> x = made_by target d))"
proof (cases target)
  case (NewFile parentFolderUid name)
  with assms have "createDraftNode (et_upload env) fuel parentFolderUid name (upload_metadata.truncate metadata) w = Some (r, w')"
    by simp
  from createDraftNode_log[OF this] obtain l where l: "w_log w' = w_log w @ l"
    "\<forall>uids. CreateDraft parentFolderUid (Inr uids) \<in> set l \<longrightarrow> (\<exists>d. r = Inr d \<and> uids = (rd_nodeUid d, rd_nodeRevisionUid d))"
    "\<forall>x \<in> set l. (\<exists>ans. x = CreateDraft parentFolderUid ans) \<or> (\<exists>uid ans. x = DeleteDraft uid ans)"
    by blast
  have "\<exists>d. r = Inr d \<and> x = made_by target d" if x: "x \<in> set l" "makes_draft x" for x
  proof -
    from l(3) x obtain uids where "x = CreateDraft parentFolderUid (Inr uids)" by (cases x rule: makes_draft.cases) auto
    with l(2) x(1) NewFile show ?thesis by fastforce
  qed
  with l(1) show ?thesis by blast
next
  case (NewRevision nodeUid)
  with assms have run: "createDraftRevision (et_upload env) nodeUid (upload_metadata.truncate metadata) w = (r, w')"
    by (simp add: at_once_def)
  have quiet: "quiet (getSigningKeysForExistingNode (et_upload env) nodeUid p)" for p
    unfolding getSigningKeysForExistingNode_def getSigningKeys_def by (auto intro!: quiet_intros split: option.split)
  show ?thesis
    using run unfolding createDraftRevision_def NewRevision
    by (auto simp: run_act dest!: send_log read_from_log quiet[unfolded quiet_def, rule_format]
        split: prod.splits sum.splits option.splits)
qed

lemma deleteRevisionDraft_log:
  assumes "deleteRevisionDraft env target d w = (r, w')"
  shows "\<exists>x. w_log w' = w_log w @ [x] \<and> asks_deletion_of (made_by target d) x \<and> \<not> makes_draft x \<and> r = Inr ()"
  using assms
  by (cases target) (auto simp: deleteDraftNode_def deleteDraftRevision_def run_act dest!: send_log split: prod.splits sum.splits)

lemma quiet_loadVerificationData [quiet_intros]: "quiet (loadVerificationData env draft)"
  unfolding loadVerificationData_def by (intro quiet_intros)

lemma init_failed_log:
  assumes run: "init_failed env target metadata draft error s = Some (r, s')"
    and l: "\<forall>x \<in> set l. makes_draft x \<longrightarrow> (\<exists>d. draft = Some d \<and> x = made_by target d)"
  shows "\<exists>k. w_log (fst s') = w_log (fst s) @ k \<and> none_left (l @ k) \<and> isl r"
proof (cases draft)
  case None
  with run l show ?thesis
    by (auto simp: init_failed_def Let_def run_defs emit_def intro: none_left_quiet)
next
  case (Some d)
  obtain x w1 where del: "deleteRevisionDraft env target d (fst s) = (x, w1)" by fastforce
  from deleteRevisionDraft_log[OF this] obtain k where
    k: "w_log w1 = w_log (fst s) @ [k]" "asks_deletion_of (made_by target d) k" "\<not> makes_draft k" "x = Inr ()"
    by blast
  have "none_left (l @ [k])" using l Some k by (intro none_left_deleted) auto
  with run del k Some show ?thesis
    by (auto simp: init_failed_def Let_def run_defs emit_def managed_def at_once_def)
qed

lemma createRevisionDraft_log:
  assumes run: "createRevisionDraft env fuel target metadata s = Some (r, s')"
  shows "\<exists>l. w_log (fst s') = w_log (fst s) @ l
    \<and> (case r of Inl _ \<Rightarrow> none_left l | Inr (d, _) \<Rightarrow> \<forall>x \<in> set l. makes_draft x \<longrightarrow> x = made_by target d)"
proof -
  from run obtain x w1 where c: "create_draft env fuel target metadata (fst s) = Some (x, w1)"
    by (auto simp: createRevisionDraft_def managed_def split: option.splits)
  from create_draft_log[OF c] obtain l where l: "w_log w1 = w_log (fst s) @ l"
    "\<forall>y \<in> set l. makes_draft y \<longrightarrow> (\<exists>d. x = Inr d \<and> y = made_by target d)" by blast
  show ?thesis
  proof (cases x)
    case (Inl t)
    with run c have f: "init_failed env target metadata None t (w1, snd s) = Some (r, s')"
      by (simp add: createRevisionDraft_def managed_def)
    from init_failed_log[OF f, of l] l Inl show ?thesis by (auto split: sum.split)
  next
    case (Inr d)
    obtain v w2 where v: "loadVerificationData env d w1 = (v, w2)" by fastforce
    with quiet_loadVerificationData[of env d] have w2: "w_log w2 = w_log w1" unfolding quiet_def by blast
    show ?thesis
    proof (cases v)
      case (Inl t)
      with run c Inr v have f: "init_failed env target metadata (Some d) t (w2, snd s) = Some (r, s')"
        by (simp add: createRevisionDraft_def managed_def run_defs at_once_def)
      from init_failed_log[OF f, of l] l Inr w2 show ?thesis by (auto split: sum.split)
    next
      case (Inr verifier)
      with run c \<open>x = Inr d\<close> v l w2 show ?thesis
        by (auto simp: createRevisionDraft_def managed_def run_defs at_once_def)
    qed
  qed
qed

lemma stream_upload_log:
  assumes streams: "\<And>d v m st t. no_draft w_log (et_stream env d v m st t)"
    and run: "stream_upload env fuel target metadata stream thumbnails s = Some (Inl error, s')"
  shows "\<exists>l. w_log (fst s') = w_log (fst s) @ l \<and> none_left l"
proof -
  from run obtain x s1 where c: "createRevisionDraft env fuel target metadata s = Some (x, s1)"
    by (auto simp: stream_upload_def then_run_def split: option.splits)
  from createRevisionDraft_log[OF this] obtain l where l: "w_log (fst s1) = w_log (fst s) @ l"
    "case x of Inl _ \<Rightarrow> none_left l | Inr (d, _) \<Rightarrow> \<forall>y \<in> set l. makes_draft y \<longrightarrow> y = made_by target d" by blast
  show ?thesis
  proof (cases x)
    case (Inl t)
    with run c l show ?thesis by (auto simp: stream_upload_def run_defs)
  next
    case (Inr p)
    obtain d v where p: "p = (d, v)" by (cases p)
    from run c Inr p obtain y w2 where y: "et_stream env d v metadata stream thumbnails (fst s1) = Some (y, w2)"
      by (auto simp: stream_upload_def run_defs finally_run_def managed_def split: option.splits)
    from no_draftD[OF streams y] obtain k where k: "w_log w2 = w_log (fst s1) @ k" "\<forall>z \<in> set k. \<not> makes_draft z" by blast
    have failed: "isl y" using run c Inr p y
      by (auto simp: stream_upload_def run_defs finally_run_def managed_def emit_def split: sum.splits)
    obtain z w3 where del: "deleteRevisionDraft env target d w2 = (z, w3)" by fastforce
    from deleteRevisionDraft_log[OF this] obtain q where
      q: "w_log w3 = w_log w2 @ [q]" "asks_deletion_of (made_by target d) q" "\<not> makes_draft q" "z = Inr ()" by blast
    have "fst s' = w3" using run c Inr p y failed del q
      by (auto simp: stream_upload_def run_defs finally_run_def managed_def emit_def at_once_def split: sum.splits)
    moreover have "none_left ((l @ k) @ [q])" using l(2) k q Inr p by (intro none_left_deleted) auto
    ultimately show ?thesis using l(1) k(1) q(1) by (intro exI[of _ "(l @ k) @ [q]"]) simp
  qed
qed

lemma startUpload_log:
  assumes streams: "\<And>d v m st t. no_draft w_log (et_stream env d v m st t)"
    and run: "startUpload env fuel target metadata stream thumbnails s = Some (Inl error, s')"
  shows "\<exists>l. w_log (fst s') = w_log (fst s) @ l \<and> none_left l"
proof -
  obtain b w1 where b: "read_from (shouldUseSmallFileUpload env (expected_tenths metadata thumbnails)) (fst s) = (b, w1)"
    by fastforce
  with read_from_log have w1: "w_log w1 = w_log (fst s)" by blast
  consider t where "b = Inl t" | "b = Inr True" | "b = Inr False" by (cases b) auto
  then show ?thesis
  proof cases
    case 1
    with run b w1 show ?thesis by (auto simp: startUpload_def run_defs managed_def at_once_def)
  next
    case 2
    with run b have u: "small_upload env fuel target metadata stream thumbnails (w1, snd s) = Some (Inl error, s')"
      by (simp add: startUpload_def run_defs managed_def at_once_def)
    from no_draftD[OF small_upload_no_draft u] w1 show ?thesis by (auto intro: none_left_quiet)
  next
    case 3
    with run b have u: "stream_upload env fuel target metadata stream thumbnails (w1, snd s) = Some (Inl error, s')"
      by (simp add: startUpload_def run_defs managed_def at_once_def)
    from stream_upload_log[OF streams u] w1 show ?thesis by simp
  qed
qed

section \<open>What a small upload sends\<close>

lemma read_values_all: "read_values (\<lambda>_. False) n stream = Inr stream"
  by (induction stream arbitrary: n) simp_all

lemma readStreamContent_ok:
  "readStreamContent env metadata stream = Inr (content, contentSha1) \<Longrightarrow>
     content = concat stream \<and> contentSha1 = et_sha1 env content \<and> length content = um_expectedSize metadata
     \<and> (\<forall>expected. present (um_expectedSha1 metadata) = Some expected \<longrightarrow> contentSha1 = expected)"
  by (auto simp: readStreamContent_def readStreamToUint8Array_def read_values_all Let_def split: if_splits)

lemma encrypt_again_ok: "encrypt_again n m s = (Inr v, s') \<Longrightarrow> \<exists>s1. m s1 = (Inr v, s')"
  by (induction n arbitrary: s) (auto simp: run_act split: prod.splits sum.splits if_splits)

lemma list_all2_sort_key:
  assumes "\<And>x y. P x y \<Longrightarrow> f x = g y"
  shows "list_all2 P xs ys \<Longrightarrow> list_all2 P (sort_key f xs) (sort_key g ys)"
proof (induction rule: list_all2_induct)
  case (Cons x xs y ys)
  have "list_all2 P (insort_key f x us) (insort_key g y vs)" if "list_all2 P us vs" for us vs
    using that by (induction rule: list_all2_induct) (use assms Cons.hyps(1) in auto)
  with Cons.IH show ?case by simp
qed simp

text \<open>An encrypted thumbnail of a type that the session key decrypts, signed by \<open>signer\<close>.\<close>

definition holds_thumbnail ::
  "('s, 'k, 'p) openpgp \<Rightarrow> 'p \<Rightarrow> 'k \<Rightarrow> nat \<times> bytes \<Rightarrow> nat \<times> bytes \<Rightarrow> bool"
where
  "holds_thumbnail pg sessionKey signer sent thumbnail \<longleftrightarrow>
     fst sent = fst thumbnail
     \<and> (\<exists>es. decryptThumbnailBlock pg (snd sent) sessionKey [signer] = Inr (snd thumbnail, SIGNED_AND_VALID, es))"

lemma small_encryptThumbnails_ok:
  assumes laws: "openpgp_laws (et_openpgp env) signs"
  shows "small_encryptThumbnails env keys thumbnails s = (Inr encrypted, s') \<Longrightarrow>
     list_all2 (\<lambda>(t, e, h) thumbnail.
         holds_thumbnail (et_openpgp env) (ny_contentKeyPacketSessionKey keys) (sg_contentSigningKey (ny_signingKeys keys))
           (t, e) thumbnail \<and> h = et_sha256 env e) encrypted thumbnails"
proof (induction thumbnails arbitrary: s s' encrypted)
  case (Cons p thumbnails)
  obtain thumbnailType thumbnail where p: "p = (thumbnailType, thumbnail)" by (cases p)
  from Cons.prems p obtain e s1 rest s2 where
    e: "encryptThumbnailBlock (et_openpgp env) thumbnail (ny_contentKeyPacketSessionKey keys)
          (sg_contentSigningKey (ny_signingKeys keys)) s = (Inr e, s1)"
    and rest: "small_encryptThumbnails env keys thumbnails s1 = (Inr rest, s2)"
    and encrypted: "encrypted = (thumbnailType, e, et_sha256 env e) # rest"
    by (auto dest!: await_ok simp: give_def)
  from thumbnail_opens[OF laws e, of "[sg_contentSigningKey (ny_signingKeys keys)]"] Cons.IH[OF rest] show ?case
    by (auto simp: p encrypted holds_thumbnail_def)
qed (auto simp: give_def)

lemma encryptContentBlock_ok:
  assumes laws: "openpgp_laws (et_openpgp env) signs"
    and run: "encryptContentBlock env keys content s = (Inr block, s')"
  shows "case block of None \<Rightarrow> content = []
     | Some (b, h) \<Rightarrow>
         dc_decryptBlock (et_openpgp env) (sb_encryptedData b) (ny_contentKeyPacketSessionKey keys) = Inr content
         \<and> sb_verificationToken b = verificationToken
             (drop (length (ny_contentKeyPacket keys) - 32) (ny_contentKeyPacket keys)) (sb_encryptedData b)
         \<and> h = et_sha256 env (sb_encryptedData b)"
proof (cases "content = []")
  case True
  with run show ?thesis by (simp add: encryptContentBlock_def give_def)
next
  case False
  from run False obtain b s1 where b: "block = Some b"
    "encrypt_again MAX_BLOCK_ENCRYPTION_RETRIES (small_encryptBlock env keys content) s = (Inr b, s1)"
    by (auto simp: encryptContentBlock_def give_def dest!: await_ok)
  from encrypt_again_ok[OF b(2)] obtain s2 where "small_encryptBlock env keys content s2 = (Inr b, s1)" by blast
  then show ?thesis
    unfolding small_encryptBlock_def verifyBlockWithContentKey_def b(1)
    by (auto simp: give_def of_result_def verifyBlock_def dest!: await_ok block_opens[OF laws] split: if_splits)
qed

lemma buildPayloads_ok:
  assumes "buildPayloads env keys metadata stream thumbnails s = (Inr (payload, block, sent), s')"
  obtains content contentSha1 encrypted encryptedBlock s1 s2 s3 where
    "readStreamContent env metadata stream = Inr (content, contentSha1)"
    "small_encryptThumbnails env keys thumbnails s = (Inr encrypted, s1)"
    "encryptContentBlock env keys content s1 = (Inr encryptedBlock, s2)"
    "encryptCommitPayload env keys metadata contentSha1 (small_manifest encryptedBlock (sort_key fst encrypted)) s2 = (Inr payload, s3)"
    "block = map_option fst encryptedBlock"
    "sent = map (\<lambda>(thumbnailType, encryptedData, _). (thumbnailType, encryptedData)) (sort_key fst encrypted)"
  using assms unfolding buildPayloads_def Let_def
  by (auto simp: of_result_def give_def dest!: await_ok)

lemma encryptCommitPayload_manifest:
  assumes laws: "openpgp_laws (et_openpgp env) signs"
    and run: "encryptCommitPayload env keys metadata contentSha1 manifest s = (Inr payload, s')"
  shows "\<exists>es. dc_verifyManifest (et_openpgp env) manifest (cp_armoredManifestSignature payload)
             [sg_contentSigningKey (ny_signingKeys keys)] = Inr (SIGNED_AND_VALID, es)"
proof -
  from run obtain s1 s2 where
    "DriveCrypto.dc_signManifest (et_openpgp env) manifest (sg_contentSigningKey (ny_signingKeys keys)) s1
       = (Inr (cp_armoredManifestSignature payload), s2)"
    unfolding encryptCommitPayload_def Let_def by (auto simp: of_result_def give_def dest!: await_ok)
  from openpgp_lawsD(5)[OF laws this[unfolded DriveCrypto.dc_signManifest_def],
      where d = "sg_contentSigningKey (ny_signingKeys keys)"]
  show ?thesis by (auto simp: dc_verifyManifest_def)
qed

lemma small_manifest_sent:
  assumes "list_all2 (\<lambda>(t, e, h) thumbnail. P (t, e) thumbnail \<and> h = et_sha256 env e) hashed thumbnails"
    and "case block of None \<Rightarrow> True | Some (b, h) \<Rightarrow> h = et_sha256 env (sb_encryptedData b)"
  shows "small_manifest block hashed
     = concat (map (et_sha256 env) (map snd (map (\<lambda>(t, e, _). (t, e)) hashed)
         @ (case map_option fst block of None \<Rightarrow> [] | Some b \<Rightarrow> [sb_encryptedData b])))"
proof -
  from assms(1) have e: "map (\<lambda>(_, _, blockHash). blockHash) hashed = map (et_sha256 env) (map snd (map (\<lambda>(t, e, _). (t, e)) hashed))"
    by (induction rule: list_all2_induct) auto
  show ?thesis unfolding small_manifest_def e map_append concat_append using assms(2) by (cases block) auto
qed

section \<open>Properties\<close>

text \<open>Services that make a draft and fail to answer for its verification data, and a small file for them.\<close>

definition demo_entry :: "(nat, 8 word, 8 word) entry_services" where
  "demo_entry =
     \<lparr>et_upload =
        \<lparr>us_clientUid = None,
         us_details = (\<lambda>_. \<lparr>cd_ConflictLinkID = ''d'', cd_ConflictDraftRevisionID = None, cd_ConflictDraftClientUID = None\<rparr>),
         us_crypto = \<lparr>dc_enableAead = Inr False,
           dc_generateKey = (\<lambda>_ _ _. Inr \<lparr>gk_armoredKey = ''k'', gk_armoredPassphrase = ''p'',
             gk_armoredPassphraseSignature = ''s'', gk_passphrase = ''x'', gk_key = 1, gk_passphraseSessionKey = 1\<rparr>),
           dc_encryptNodeName = (\<lambda>name _ _. Inr name),
           dc_generateLookupHash = (\<lambda>name _. Inr name),
           dc_generateContentKey = (\<lambda>_. Inr \<lparr>ck_contentKeyPacket = [1], ck_base64ContentKeyPacket = ''c'',
             ck_armoredContentKeyPacketSignature = ''s'', ck_contentKeyPacketSessionKey = 1\<rparr>),
           dc_signManifest = (\<lambda>_ _. Inr ''m''),
           dc_encryptExtendedAttributes = (\<lambda>_ _ _. Inr ''x'')\<rparr>,
         us_getNode = (\<lambda>uid n. (Inr \<lparr>sn_uid = uid, sn_parentUid = None, sn_activeRevision = None\<rparr>, n)),
         us_getNodeKeys = (\<lambda>uid n. (Inr \<lparr>sv_key = 1, sv_passphraseSessionKey = 1, sv_contentKeyPacket = None,
           sv_contentKeyPacketSessionKey = None, sv_hashKey = Some [7]\<rparr>, n)),
         us_getNodeSigningKeys = (\<lambda>_ _ n. (Inr (UserAddress ''e'' ''a'' 1), n)),
         us_notifyChildCreated = (\<lambda>_ n. (Inr (), n)),
         us_notifyNodeChanged = (\<lambda>_ n. (Inr (), n)),
         us_createDraft = (\<lambda>_ _ n. (Inr (''v~n'', ''v~n~r''), n + 1)),
         us_uploadSmallFile = (\<lambda>_ _ _ n. (Inr (''v~n'', ''v~n~r''), n)),
         us_uploadSmallRevision = (\<lambda>_ _ _ _ n. (Inr (''v~n'', ''v~n~r''), n)),
         us_deleteDraft = (\<lambda>_ n. (Inr (), n - 1)),
         us_createDraftRevision = (\<lambda>_ _ n. (Inr ''v~n~r'', n)),
         us_deleteDraftRevision = (\<lambda>_ n. (Inr (), n)),
         us_commitDraftRevision = (\<lambda>_ _ n. (Inr (), n)),
         us_isRevisionUploaded = (\<lambda>_ n. (Inr False, n))\<rparr>,
      et_openpgp = symbolic,
      et_sha256 = (\<lambda>bs. [of_nat (length bs)]),
      et_sha1 = (\<lambda>bs. replicate (length bs) CHR ''a''),
      et_render = (\<lambda>_. ''{}''),
      et_getVerificationData = (\<lambda>_ n. (Inl (throw_new JsError ''lost''), n)),
      et_isSmallFileUploadEnabled = (\<lambda>n. (Inr True, n)),
      et_allowSmallFileUpload = False,
      et_stream = (\<lambda>_ _ _ _ _. give_run ())\<rparr>"

definition demo_small_file :: entry_metadata where
  "demo_small_file = \<lparr>um_mediaType = None, um_expectedSize = 3, um_overrideExistingDraftByOtherClient = False,
     um_expectedSha1 = Some ''aaa'', um_modificationTime = None, um_additionalMetadata = None\<rparr>"

definition demo_small_keys :: "(8 word, 8 word) small_keys" where
  "demo_small_keys = \<lparr>ny_key = 7, ny_contentKeyPacket = [1, 2], ny_contentKeyPacketSessionKey = 5,
     ny_signingKeys = \<lparr>sg_email = Some ''e'', sg_addressId = None, sg_nameAndPassphraseSigningKey = 9, sg_contentSigningKey = 9\<rparr>\<rparr>"

lemma demo_upload_run:
  "\<exists>error w'. startUpload demo_entry 1 (NewFile ''v~p'' ''a'') demo_small_file [[1, 2, 3]] [] (\<lparr>w_outside = 0, w_log = []\<rparr>, [])
     = Some (Inl error, (w', [Released 3, InitFailed ''v~p'' error 3]))
     \<and> w_log w' = [CreateDraft ''v~p'' (Inr (''v~n'', ''v~n~r'')), DeleteDraft ''v~n'' (Inr ())]"
  by (simp add: startUpload_def shouldUseSmallFileUpload_def stream_upload_def createRevisionDraft_def
      createDraftNode_def generateNewFileCrypto_def generateFileCrypto_def getSigningKeys_def Let_def
      loadVerificationData_def init_failed_def deleteDraftNode_def read_from_def send_def run_act run_defs
      managed_def at_once_def emit_def demo_entry_def demo_small_file_def)



text \<open>
  C18: an upload that fails leaves no draft behind: if uploading the content of a draft makes none itself,
  each draft the server made for the upload was asked to be deleted after it.
\<close>

theorem failed_upload_deletes_draft:
  assumes "\<And>draft verifier m st ts. no_draft w_log (et_stream env draft verifier m st ts)"
    and "startUpload env fuel target metadata stream thumbnails (w, events) = Some (Inl error, (w', events'))"
  shows "\<exists>l. w_log w' = w_log w @ l \<and> none_left l"
  using startUpload_log[OF assms] by simp

theorem failed_upload_deletes_draft_witness:
  "\<exists>error w' events'. startUpload demo_entry 1 (NewFile ''v~p'' ''a'') demo_small_file [[1, 2, 3]] [] (\<lparr>w_outside = 0, w_log = []\<rparr>, [])
       = Some (Inl error, (w', events'))
     \<and> CreateDraft ''v~p'' (Inr (''v~n'', ''v~n~r'')) \<in> set (w_log w') \<and> none_left (w_log w')"
proof -
  have streams: "no_draft w_log (et_stream demo_entry draft verifier m st ts)" for draft verifier m st ts
    by (simp add: demo_entry_def no_draft_basic)
  from demo_upload_run obtain error w' events' where run: "startUpload demo_entry 1 (NewFile ''v~p'' ''a'') demo_small_file [[1, 2, 3]] []
      (\<lparr>w_outside = 0, w_log = []\<rparr>, []) = Some (Inl error, (w', events'))"
    and log: "w_log w' = [CreateDraft ''v~p'' (Inr (''v~n'', ''v~n~r'')), DeleteDraft ''v~n'' (Inr ())]" by blast
  from failed_upload_deletes_draft[OF streams run] run log show ?thesis by auto
qed

text \<open>
  What is made of a small file: it has the expected size and, where one was given, the expected hash; the
  block, which is left out exactly for an empty file, decrypts to the content and
  carries its verification token; the thumbnails are those of the caller by type; and the manifest
  signature verifies over the hashes of what is sent, in the order it is sent.
\<close>

lemma buildPayloads_is_content:
  assumes "openpgp_laws (et_openpgp env) signs"
    and "buildPayloads env keys metadata stream thumbnails s = (Inr (payload, block, sent), s')"
  shows "length (concat stream) = um_expectedSize metadata
     \<and> (\<forall>expected. present (um_expectedSha1 metadata) = Some expected \<longrightarrow> et_sha1 env (concat stream) = expected)
     \<and> (case block of
          None \<Rightarrow> concat stream = []
        | Some b \<Rightarrow>
            dc_decryptBlock (et_openpgp env) (sb_encryptedData b) (ny_contentKeyPacketSessionKey keys) = Inr (concat stream)
            \<and> sb_verificationToken b = verificationToken
                (drop (length (ny_contentKeyPacket keys) - 32) (ny_contentKeyPacket keys)) (sb_encryptedData b))
     \<and> list_all2 (holds_thumbnail (et_openpgp env) (ny_contentKeyPacketSessionKey keys) (sg_contentSigningKey (ny_signingKeys keys)))
         sent (sort_key fst thumbnails)
     \<and> (\<exists>es. dc_verifyManifest (et_openpgp env)
            (concat (map (et_sha256 env) (map snd sent @ (case block of None \<Rightarrow> [] | Some b \<Rightarrow> [sb_encryptedData b]))))
            (cp_armoredManifestSignature payload) [sg_contentSigningKey (ny_signingKeys keys)] = Inr (SIGNED_AND_VALID, es))"
proof -
  obtain content sha encrypted eb s1 s2 s3 where
    run: "readStreamContent env metadata stream = Inr (content, sha)"
      "small_encryptThumbnails env keys thumbnails s = (Inr encrypted, s1)"
      "encryptContentBlock env keys content s1 = (Inr eb, s2)"
      "encryptCommitPayload env keys metadata sha (small_manifest eb (sort_key fst encrypted)) s2 = (Inr payload, s3)"
    and sent: "block = map_option fst eb" "sent = map (\<lambda>(t, e, _). (t, e)) (sort_key fst encrypted)"
    by (rule buildPayloads_ok[OF assms(2)])
  let ?holds = "holds_thumbnail (et_openpgp env) (ny_contentKeyPacketSessionKey keys) (sg_contentSigningKey (ny_signingKeys keys))"
  from readStreamContent_ok[OF run(1)] have content: "content = concat stream"
    and size: "length (concat stream) = um_expectedSize metadata"
    and sha1: "\<forall>expected. present (um_expectedSha1 metadata) = Some expected \<longrightarrow> et_sha1 env (concat stream) = expected"
    by auto
  note eb = encryptContentBlock_ok[OF assms(1) run(3), unfolded content]
  have sorted: "list_all2 (\<lambda>(t, e, h) thumbnail. ?holds (t, e) thumbnail \<and> h = et_sha256 env e) (sort_key fst encrypted) (sort_key fst thumbnails)"
    by (rule list_all2_sort_key[OF _ small_encryptThumbnails_ok[OF assms(1) run(2)]]) (auto simp: holds_thumbnail_def)
  then have thumbs: "list_all2 ?holds sent (sort_key fst thumbnails)"
    unfolding sent(2) list_all2_map1 by (rule list_all2_mono) auto
  have block: "case block of None \<Rightarrow> concat stream = [] | Some b \<Rightarrow>
        dc_decryptBlock (et_openpgp env) (sb_encryptedData b) (ny_contentKeyPacketSessionKey keys) = Inr (concat stream)
        \<and> sb_verificationToken b = verificationToken
            (drop (length (ny_contentKeyPacket keys) - 32) (ny_contentKeyPacket keys)) (sb_encryptedData b)"
    and hash: "case eb of None \<Rightarrow> True | Some (b, h) \<Rightarrow> h = et_sha256 env (sb_encryptedData b)"
    using eb unfolding sent(1) by (auto split: option.splits)
  from encryptCommitPayload_manifest[OF assms(1) run(4)]
  have manifest: "\<exists>es. dc_verifyManifest (et_openpgp env)
      (concat (map (et_sha256 env) (map snd sent @ (case block of None \<Rightarrow> [] | Some b \<Rightarrow> [sb_encryptedData b]))))
      (cp_armoredManifestSignature payload) [sg_contentSigningKey (ny_signingKeys keys)] = Inr (SIGNED_AND_VALID, es)"
    unfolding small_manifest_sent[OF sorted hash] sent .
  show ?thesis by (intro conjI size sha1 block thumbs manifest)
qed

end
