(* ===== verification/UploadApi.thy ===== *)
theory UploadApi
  imports UploadEntry
begin

text \<open>
  \<open>UploadAPIService\<close> of \<^verbatim>\<open>internal/upload/apiService.ts\<close>: the requests an upload makes, and how their
  answers are read. The HTTP endpoints are the parameter \<open>upload_endpoints\<close>, operations on a state \<open>'s\<close> that
  throw what \<open>DriveAPIService\<close> throws; \<open>with_upload_api\<close> hands the service to the upload manager.

  Fields that are \<open>null\<close> in every request are left out. The JSON text of the metadata of a form is its tree.
\<close>

section \<open>Requests and answers\<close>

record file_body =
  fb_ParentLinkID :: string
  fb_Name :: string
  fb_Hash :: string
  fb_MIMEType :: "string option"
  fb_ClientUID :: "string option"
  fb_IntendedUploadSize :: "nat option"
  fb_NodeKey :: string
  fb_NodePassphrase :: string
  fb_NodePassphraseSignature :: string
  fb_ContentKeyPacket :: string
  fb_ContentKeyPacketSignature :: string
  fb_SignatureAddress :: "string option"

record revision_body =
  vb_CurrentRevisionID :: string
  vb_ClientUID :: "string option"
  vb_IntendedUploadSize :: "nat option"

text \<open>A block by its index, signature and verification token, a thumbnail by its type.\<close>

record blocks_body =
  bb_AddressID :: "string option"
  bb_VolumeID :: string
  bb_LinkID :: string
  bb_RevisionID :: string
  bb_BlockList :: "(nat \<times> string \<times> string) list"
  bb_ThumbnailList :: "nat list"

text \<open>Links of blocks by index and of thumbnails by type, with URL and token.\<close>

type_synonym upload_link = "nat \<times> string \<times> string"

record blocks_answer =
  ba_UploadLinks :: "upload_link list"
  ba_ThumbnailLinks :: "upload_link list option"

record upload_tokens =
  ut_blockTokens :: "upload_link list"
  ut_thumbnailTokens :: "upload_link list"

record content_block =
  kb_index :: nat
  kb_armoredSignature :: string
  kb_verificationToken :: bytes

record commit_body =
  mb_ManifestSignature :: string
  mb_SignatureAddress :: "string option"
  mb_XAttr :: string
  mb_ChecksumVerified :: bool

record small_file_body =
  sm_ParentLinkID :: string
  sm_Name :: string
  sm_NameHash :: string
  sm_NodePassphrase :: string
  sm_NodePassphraseSignature :: string
  sm_SignatureEmail :: "string option"
  sm_NodeKey :: string
  sm_MIMEType :: string
  sm_ContentKeyPacket :: string
  sm_ContentKeyPacketSignature :: string
  sm_ManifestSignature :: string
  sm_ContentBlockEncSignature :: "string option"
  sm_ContentBlockVerificationToken :: "string option"
  sm_XAttr :: string
  sm_ChecksumVerified :: bool

record small_revision_body =
  sr_CurrentRevisionID :: string
  sr_SignatureEmail :: "string option"
  sr_ManifestSignature :: string
  sr_ContentBlockEncSignature :: "string option"
  sr_ContentBlockVerificationToken :: "string option"
  sr_XAttr :: string
  sr_ChecksumVerified :: bool

text \<open>A \<open>FormData\<close>: its parts by name, where setting a name again replaces its part.\<close>

datatype 'm form_part = MetadataPart 'm | BlobPart bytes

type_synonym 'm form = "(string \<times> 'm form_part) list"

text \<open>The state of a link with the ID of its active revision, if it is a file that has one.\<close>

type_synonym link_state = "int \<times> string option"

text \<open>
  \<open>uq_postBlock\<close> gives what it reports as progress, and then its result. The answer to a deletion may have no list
  of responses; a response may have no code.
\<close>

record 's upload_endpoints =
  uq_clientUid :: "string option"
  uq_postFiles :: "string \<Rightarrow> file_body \<Rightarrow> ('s, string \<times> string) act"
  uq_postRevisions :: "string \<Rightarrow> string \<Rightarrow> revision_body \<Rightarrow> ('s, string) act"
  uq_getVerification :: "string \<Rightarrow> string \<Rightarrow> string \<Rightarrow> ('s, string \<times> string) act"
  uq_postBlocks :: "blocks_body \<Rightarrow> ('s, blocks_answer) act"
  uq_putRevision :: "string \<Rightarrow> string \<Rightarrow> string \<Rightarrow> commit_body \<Rightarrow> ('s, unit) act"
  uq_postDeleteMultiple :: "string \<Rightarrow> string list \<Rightarrow> ('s, nat option list option) act"
  uq_deleteRevision :: "string \<Rightarrow> string \<Rightarrow> string \<Rightarrow> ('s, unit) act"
  uq_postBlock :: "string \<Rightarrow> string \<Rightarrow> bytes \<Rightarrow> 's \<Rightarrow> nat list \<times> (thrown + unit) \<times> 's"
  uq_postLinks :: "string \<Rightarrow> string list \<Rightarrow> ('s, link_state list) act"
  uq_postSmallFile :: "string \<Rightarrow> small_file_body form \<Rightarrow> ('s, string \<times> string) act"
  uq_postSmallRevision :: "string \<Rightarrow> string \<Rightarrow> small_revision_body form \<Rightarrow> ('s, string \<times> string) act"

section \<open>Drafts\<close>

definition intended_size :: "nat \<Rightarrow> nat option" where
  "intended_size intendedUploadSize =
     (let precision = 100000 in
      if intendedUploadSize \<noteq> 0 \<and> intendedUploadSize > precision
      then Some (intendedUploadSize div precision * precision) else None)"

definition node_uids :: "string \<Rightarrow> string \<times> string \<Rightarrow> string \<times> string" where
  "node_uids volumeId ids = (case ids of (linkId, revisionId) \<Rightarrow>
     (makeNodeUid volumeId linkId, makeNodeRevisionUid volumeId linkId revisionId))"

definition api_createDraft :: "'s upload_endpoints \<Rightarrow> string \<Rightarrow> draft_request \<Rightarrow> ('s, string \<times> string) act" where
  "api_createDraft ep parentNodeUid node =
     await (of_result (splitNodeUid parentNodeUid)) (\<lambda>(volumeId, parentNodeId).
     await (uq_postFiles ep volumeId
       \<lparr>fb_ParentLinkID = parentNodeId, fb_Name = dr_armoredEncryptedName node, fb_Hash = dr_hash node,
        fb_MIMEType = dr_mediaType node, fb_ClientUID = present (uq_clientUid ep),
        fb_IntendedUploadSize = intended_size (dr_intendedUploadSize node),
        fb_NodeKey = dr_armoredNodeKey node, fb_NodePassphrase = dr_armoredNodePassphrase node,
        fb_NodePassphraseSignature = dr_armoredNodePassphraseSignature node,
        fb_ContentKeyPacket = dr_base64ContentKeyPacket node,
        fb_ContentKeyPacketSignature = dr_armoredContentKeyPacketSignature node,
        fb_SignatureAddress = dr_signatureEmail node\<rparr>) (\<lambda>ids.
     give (node_uids volumeId ids)))"

definition api_createDraftRevision :: "'s upload_endpoints \<Rightarrow> string \<Rightarrow> string \<times> nat \<Rightarrow> ('s, string) act" where
  "api_createDraftRevision ep nodeUid revision =
     (case revision of (currentRevisionUid, intendedUploadSize) \<Rightarrow>
      await (of_result (splitNodeUid nodeUid)) (\<lambda>(volumeId, nodeId).
      await (of_result (splitNodeRevisionUid currentRevisionUid)) (\<lambda>(_, _, currentRevisionId).
      await (uq_postRevisions ep volumeId nodeId
        \<lparr>vb_CurrentRevisionID = currentRevisionId, vb_ClientUID = present (uq_clientUid ep),
         vb_IntendedUploadSize = (if intendedUploadSize = 0 then None else Some intendedUploadSize)\<rparr>) (\<lambda>revisionId.
      give (makeNodeRevisionUid volumeId nodeId revisionId)))))"

definition api_getVerificationData :: "'s upload_endpoints \<Rightarrow> string \<Rightarrow> ('s, bytes \<times> string) act" where
  "api_getVerificationData ep draftNodeRevisionUid =
     await (of_result (splitNodeRevisionUid draftNodeRevisionUid)) (\<lambda>(volumeId, nodeId, revisionId).
     await (uq_getVerification ep volumeId nodeId revisionId) (\<lambda>(verificationCode, contentKeyPacket).
     await (of_result (fromBase64 verificationCode)) (\<lambda>code.
     give (code, contentKeyPacket))))"

definition api_commitDraftRevision :: "'s upload_endpoints \<Rightarrow> string \<Rightarrow> commit_crypto \<Rightarrow> ('s, unit) act" where
  "api_commitDraftRevision ep draftNodeRevisionUid options =
     await (of_result (splitNodeRevisionUid draftNodeRevisionUid)) (\<lambda>(volumeId, nodeId, revisionId).
     uq_putRevision ep volumeId nodeId revisionId
       \<lparr>mb_ManifestSignature = cc_armoredManifestSignature options, mb_SignatureAddress = cc_signatureEmail options,
        mb_XAttr = cc_armoredExtendedAttributes options, mb_ChecksumVerified = (cc_checksumVerified options = Some True)\<rparr>)"

text \<open>The code of the first response; reading it off an empty list throws.\<close>

definition first_code :: "nat option list option \<Rightarrow> thrown + nat" where
  "first_code responses =
     (case responses of
        None \<Rightarrow> Inr 0
      | Some [] \<Rightarrow> Inl (throw_new JsTypeError ''Cannot read properties of undefined'')
      | Some (code # _) \<Rightarrow> Inr (case code of Some n \<Rightarrow> n | None \<Rightarrow> 0))"

definition api_deleteDraft :: "'s upload_endpoints \<Rightarrow> string \<Rightarrow> ('s, unit) act" where
  "api_deleteDraft ep draftNodeUid =
     await (of_result (splitNodeUid draftNodeUid)) (\<lambda>(volumeId, nodeId).
     await (uq_postDeleteMultiple ep volumeId [nodeId]) (\<lambda>responses.
     await (of_result (first_code responses)) (\<lambda>code.
       if \<not> isCodeOk (int code)
       then throw_act (ThrownError (api_code_error APICodeError (''Unknown error '' @ show_nat code) (int code) None))
       else give ())))"

definition api_deleteDraftRevision :: "'s upload_endpoints \<Rightarrow> string \<Rightarrow> ('s, unit) act" where
  "api_deleteDraftRevision ep draftNodeRevisionUid =
     await (of_result (splitNodeRevisionUid draftNodeRevisionUid)) (\<lambda>(volumeId, nodeId, revisionId).
     uq_deleteRevision ep volumeId nodeId revisionId)"

definition api_isRevisionUploaded :: "'s upload_endpoints \<Rightarrow> string \<Rightarrow> ('s, bool) act" where
  "api_isRevisionUploaded ep nodeRevisionUid =
     await (of_result (splitNodeRevisionUid nodeRevisionUid)) (\<lambda>(volumeId, nodeId, revisionId).
     await (uq_postLinks ep volumeId [nodeId]) (\<lambda>links.
     give (case links of [] \<Rightarrow> False | (state, activeRevision) # _ \<Rightarrow> state = 1 \<and> activeRevision = Some revisionId)))"

section \<open>Blocks\<close>

definition api_requestBlockUpload ::
  "'s upload_endpoints \<Rightarrow> string \<Rightarrow> string option \<Rightarrow> content_block list \<Rightarrow> nat list option \<Rightarrow> ('s, upload_tokens) act"
where
  "api_requestBlockUpload ep draftNodeRevisionUid addressId contentBlocks thumbnails =
     await (of_result (splitNodeRevisionUid draftNodeRevisionUid)) (\<lambda>(volumeId, nodeId, revisionId).
     await (uq_postBlocks ep
       \<lparr>bb_AddressID = addressId, bb_VolumeID = volumeId, bb_LinkID = nodeId, bb_RevisionID = revisionId,
        bb_BlockList = map (\<lambda>b. (kb_index b, kb_armoredSignature b, toBase64 (kb_verificationToken b))) contentBlocks,
        bb_ThumbnailList = (case thumbnails of Some types \<Rightarrow> types | None \<Rightarrow> [])\<rparr>) (\<lambda>answer.
     give \<lparr>ut_blockTokens = ba_UploadLinks answer,
           ut_thumbnailTokens = (case ba_ThumbnailLinks answer of Some links \<Rightarrow> links | None \<Rightarrow> [])\<rparr>))"

text \<open>What is reported to \<open>onProgress\<close>, the result, and the state after it.\<close>

definition api_uploadBlock ::
  "'s upload_endpoints \<Rightarrow> string \<Rightarrow> string \<Rightarrow> bytes \<Rightarrow> 's \<Rightarrow> nat list \<times> (thrown + unit) \<times> 's"
where
  "api_uploadBlock ep url token block s =
     (case uq_postBlock ep url token block s of
        (progress, Inl error, s') \<Rightarrow> (progress, Inl error, s')
      | (progress, Inr _, s') \<Rightarrow> (if progress = [] then [length block] else progress, Inr (), s'))"

section \<open>Small files\<close>

definition thumbnail_name :: "nat \<Rightarrow> string" where
  "thumbnail_name thumbnailType = ''ThumbnailBlockType_'' @ show_nat thumbnailType"

fun add_thumbnails :: "(nat \<times> bytes) list \<Rightarrow> 'm form \<Rightarrow> thrown + 'm form" where
  "add_thumbnails [] formData = Inr formData"
| "add_thumbnails ((thumbnailType, encryptedData) # thumbnails) formData =
     (if map_of formData (thumbnail_name thumbnailType) \<noteq> None
      then Inl (throw_new JsError ''Duplicate thumbnail types'')
      else add_thumbnails thumbnails (AList.update (thumbnail_name thumbnailType) (BlobPart encryptedData) formData))"

definition small_form :: "'m \<Rightarrow> small_content \<Rightarrow> thrown + 'm form" where
  "small_form metadataPayload content =
     add_thumbnails (sc_thumbnails content)
       (let formData = AList.update ''Metadata'' (MetadataPart metadataPayload) [] in
        case sc_block content of
          Some b \<Rightarrow> AList.update ''ContentBlock'' (BlobPart (sb_encryptedData b)) formData
        | None \<Rightarrow> formData)"

definition small_file_metadata :: "string \<Rightarrow> small_file_request \<Rightarrow> small_content \<Rightarrow> small_file_body" where
  "small_file_metadata parentNodeId metadata content =
     \<lparr>sm_ParentLinkID = parentNodeId, sm_Name = sf_armoredEncryptedName metadata, sm_NameHash = sf_hash metadata,
      sm_NodePassphrase = sf_armoredNodePassphrase metadata,
      sm_NodePassphraseSignature = sf_armoredNodePassphraseSignature metadata,
      sm_SignatureEmail = sf_signatureEmail metadata, sm_NodeKey = sf_armoredNodeKey metadata,
      sm_MIMEType = sf_mediaType metadata, sm_ContentKeyPacket = sf_base64ContentKeyPacket metadata,
      sm_ContentKeyPacketSignature = sf_armoredContentKeyPacketSignature metadata,
      sm_ManifestSignature = sc_armoredManifestSignature content,
      sm_ContentBlockEncSignature = map_option sb_armoredSignature (sc_block content),
      sm_ContentBlockVerificationToken = map_option (\<lambda>b. toBase64 (sb_verificationToken b)) (sc_block content),
      sm_XAttr = sf_armoredExtendedAttributes metadata,
      sm_ChecksumVerified = (sc_checksumVerified content = Some True)\<rparr>"

definition api_uploadSmallFile ::
  "'s upload_endpoints \<Rightarrow> string \<Rightarrow> small_file_request \<Rightarrow> small_content \<Rightarrow> ('s, string \<times> string) act"
where
  "api_uploadSmallFile ep parentFolderUid metadata content =
     await (of_result (splitNodeUid parentFolderUid)) (\<lambda>(volumeId, parentNodeId).
     await (of_result (small_form (small_file_metadata parentNodeId metadata content) content)) (\<lambda>formData.
     await (uq_postSmallFile ep volumeId formData) (\<lambda>ids.
     give (node_uids volumeId ids))))"

definition small_revision_metadata :: "string \<Rightarrow> string option \<times> string \<Rightarrow> small_content \<Rightarrow> small_revision_body" where
  "small_revision_metadata currentRevisionId metadata content =
     (case metadata of (signatureEmail, armoredExtendedAttributes) \<Rightarrow>
      \<lparr>sr_CurrentRevisionID = currentRevisionId, sr_SignatureEmail = signatureEmail,
       sr_ManifestSignature = sc_armoredManifestSignature content,
       sr_ContentBlockEncSignature = map_option sb_armoredSignature (sc_block content),
       sr_ContentBlockVerificationToken = map_option (\<lambda>b. toBase64 (sb_verificationToken b)) (sc_block content),
       sr_XAttr = armoredExtendedAttributes, sr_ChecksumVerified = (sc_checksumVerified content = Some True)\<rparr>)"

definition api_uploadSmallRevision ::
  "'s upload_endpoints \<Rightarrow> string \<Rightarrow> string \<Rightarrow> string option \<times> string \<Rightarrow> small_content \<Rightarrow> ('s, string \<times> string) act"
where
  "api_uploadSmallRevision ep nodeUid currentRevisionUid metadata content =
     await (of_result (splitNodeUid nodeUid)) (\<lambda>(volumeId, nodeId).
     await (of_result (splitNodeRevisionUid currentRevisionUid)) (\<lambda>(_, _, currentRevisionId).
     await (of_result (small_form (small_revision_metadata currentRevisionId metadata content) content)) (\<lambda>formData.
     await (uq_postSmallRevision ep volumeId nodeId formData) (\<lambda>ids.
     give (node_uids volumeId ids)))))"

section \<open>The upload manager over these requests\<close>

definition with_upload_api :: "'s upload_endpoints \<Rightarrow> ('s, 'k, 'p) upload_services \<Rightarrow> ('s, 'k, 'p) upload_services" where
  "with_upload_api ep svc =
     svc\<lparr>us_clientUid := uq_clientUid ep, us_createDraft := api_createDraft ep,
         us_uploadSmallFile := api_uploadSmallFile ep, us_uploadSmallRevision := api_uploadSmallRevision ep,
         us_deleteDraft := api_deleteDraft ep, us_createDraftRevision := api_createDraftRevision ep,
         us_deleteDraftRevision := api_deleteDraftRevision ep, us_commitDraftRevision := api_commitDraftRevision ep,
         us_isRevisionUploaded := api_isRevisionUploaded ep\<rparr>"

section \<open>Requests address the draft they are about\<close>

lemma intended_size_reduced:
  "intended_size (reduceSizePrecision n) = (if n < 200000 then None else Some (n div 100000 * 100000))"
  by (auto simp: intended_size_def reduceSizePrecision_def Let_def)

text \<open>
  The IDs the server gave to a draft are the ones every later request names, if they hold no tilde.
\<close>

lemma draft_requests_address_draft:
  assumes "tilde \<notin> set volumeId" "tilde \<notin> set linkId" "tilde \<notin> set revisionId"
    and "node_uids volumeId (linkId, revisionId) = (nodeUid, nodeRevisionUid)"
  shows "api_commitDraftRevision ep nodeRevisionUid options = uq_putRevision ep volumeId linkId revisionId
       \<lparr>mb_ManifestSignature = cc_armoredManifestSignature options, mb_SignatureAddress = cc_signatureEmail options,
        mb_XAttr = cc_armoredExtendedAttributes options, mb_ChecksumVerified = (cc_checksumVerified options = Some True)\<rparr>"
    and "api_deleteDraftRevision ep nodeRevisionUid = uq_deleteRevision ep volumeId linkId revisionId"
    and "api_deleteDraft ep nodeUid s = (Inr (), s') \<longleftrightarrow>
       (\<exists>codes. uq_postDeleteMultiple ep volumeId [linkId] s = (Inr codes, s')
          \<and> (\<exists>code rest. codes = Some (Some code # rest) \<and> isCodeOk (int code)))"
    and "api_isRevisionUploaded ep nodeRevisionUid s = (Inr True, s') \<longleftrightarrow>
       (\<exists>rest. uq_postLinks ep volumeId [linkId] s = (Inr ((1, Some revisionId) # rest), s'))"
    and "api_getVerificationData ep nodeRevisionUid s = (Inr (code, packet), s') \<Longrightarrow>
       \<exists>text. uq_getVerification ep volumeId linkId revisionId s = (Inr (text, packet), s') \<and> fromBase64 text = Inr code"
proof -
  have uids: "splitNodeUid nodeUid = Inr (volumeId, linkId)"
    "splitNodeRevisionUid nodeRevisionUid = Inr (volumeId, linkId, revisionId)"
    using assms by (auto simp: node_uids_def splitNodeRevisionUid_def makeNodeRevisionUid_def split3_Inr_iff)
  note run = uids run_act
  show "api_commitDraftRevision ep nodeRevisionUid options = uq_putRevision ep volumeId linkId revisionId
       \<lparr>mb_ManifestSignature = cc_armoredManifestSignature options, mb_SignatureAddress = cc_signatureEmail options,
        mb_XAttr = cc_armoredExtendedAttributes options, mb_ChecksumVerified = (cc_checksumVerified options = Some True)\<rparr>"
    and "api_deleteDraftRevision ep nodeRevisionUid = uq_deleteRevision ep volumeId linkId revisionId"
    by (simp_all add: fun_eq_iff api_commitDraftRevision_def api_deleteDraftRevision_def run)
  show "api_deleteDraft ep nodeUid s = (Inr (), s') \<longleftrightarrow>
       (\<exists>codes. uq_postDeleteMultiple ep volumeId [linkId] s = (Inr codes, s')
          \<and> (\<exists>code rest. codes = Some (Some code # rest) \<and> isCodeOk (int code)))"
    by (auto simp: api_deleteDraft_def run first_code_def isCodeOk_def
        split: prod.splits sum.splits option.splits list.splits if_splits)
  show "api_isRevisionUploaded ep nodeRevisionUid s = (Inr True, s') \<longleftrightarrow>
       (\<exists>rest. uq_postLinks ep volumeId [linkId] s = (Inr ((1, Some revisionId) # rest), s'))"
    by (auto simp: api_isRevisionUploaded_def run split: prod.splits sum.splits list.splits)
  show "\<exists>text. uq_getVerification ep volumeId linkId revisionId s = (Inr (text, packet), s') \<and> fromBase64 text = Inr code"
    if "api_getVerificationData ep nodeRevisionUid s = (Inr (code, packet), s')"
    using that by (auto simp: api_getVerificationData_def run split: prod.splits sum.splits)
qed

text \<open>A deletion that is answered with no response at all throws a type error.\<close>

lemma delete_without_responses:
  assumes "uq_postDeleteMultiple ep volumeId [linkId] s = (Inr (Some []), s')" "tilde \<notin> set volumeId" "tilde \<notin> set linkId"
  shows "\<exists>error. api_deleteDraft ep (makeNodeUid volumeId linkId) s = (Inl error, s') \<and> instanceof error JsTypeError"
  using assms by (simp add: api_deleteDraft_def run_act first_code_def)

text \<open>A block that was sent is reported as progress, whether or not the client reports any.\<close>

lemma sent_block_is_reported:
  "api_uploadBlock ep url token block s = (progress, Inr (), s') \<Longrightarrow> progress \<noteq> []"
  by (auto simp: api_uploadBlock_def split: prod.splits sum.splits if_splits)

section \<open>The form of a small file\<close>

definition digits_value :: "string \<Rightarrow> nat" where
  "digits_value = foldl (\<lambda>a c. a * 10 + (of_char c - 48)) 0"

lemma digits_value_show_nat [simp]: "digits_value (show_nat n) = n"
proof (induction n rule: show_nat.induct)
  case (1 n)
  have digit: "of_char (digit_char d) - 48 = d" if "d < 10" for d
    using that by (simp add: digit_char_def)
  show ?case
    by (subst show_nat.simps) (use 1 in \<open>auto simp: digits_value_def digit\<close>)
qed

lemma thumbnail_name_eq [simp]: "thumbnail_name t = thumbnail_name u \<longleftrightarrow> t = u"
  unfolding thumbnail_name_def by (metis append_eq_append_conv digits_value_show_nat)

lemma thumbnail_name_other [simp]:
  "thumbnail_name t \<noteq> ''Metadata''" "thumbnail_name t \<noteq> ''ContentBlock''"
  "''Metadata'' \<noteq> thumbnail_name t" "''ContentBlock'' \<noteq> thumbnail_name t"
  by (simp_all add: thumbnail_name_def)

abbreviation thumbnail_parts :: "(nat \<times> bytes) list \<Rightarrow> 'm form" where
  "thumbnail_parts \<equiv> map (\<lambda>(t, e). (thumbnail_name t, BlobPart e))"

lemma map_of_thumbnail_parts:
  "map_of (thumbnail_parts thumbnails) (thumbnail_name t) = map_option BlobPart (map_of thumbnails t)"
  by (induction thumbnails) auto

lemma map_of_thumbnail_parts_other:
  "\<forall>t. n \<noteq> thumbnail_name t \<Longrightarrow> map_of (thumbnail_parts thumbnails) n = None"
  by (induction thumbnails) auto

lemma add_thumbnails_Inr:
  "add_thumbnails thumbnails formData = Inr result \<longleftrightarrow>
     distinct (map fst thumbnails) \<and> (\<forall>t \<in> fst ` set thumbnails. thumbnail_name t \<notin> fst ` set formData)
     \<and> result = formData @ thumbnail_parts thumbnails"
proof (induction thumbnails arbitrary: formData)
  case (Cons p thumbnails)
  show ?case
  proof (cases "map_of formData (thumbnail_name (fst p)) = None")
    case True
    then have "thumbnail_name (fst p) \<notin> fst ` set formData" by (simp add: map_of_eq_None_iff)
    with True show ?thesis by (cases p) (auto simp: Cons.IH update_fresh)
  next
    case False
    then have "thumbnail_name (fst p) \<in> fst ` set formData" by (simp add: map_of_eq_None_iff)
    with False show ?thesis by (cases p) auto
  qed
qed auto

lemma small_form_Inr:
  "small_form m content = Inr formData \<longleftrightarrow>
     distinct (map fst (sc_thumbnails content))
     \<and> formData = (''Metadata'', MetadataPart m)
         # (case sc_block content of Some b \<Rightarrow> [(''ContentBlock'', BlobPart (sb_encryptedData b))] | None \<Rightarrow> [])
         @ thumbnail_parts (sc_thumbnails content)"
  by (auto simp: small_form_def add_thumbnails_Inr split: option.split)

lemmas small_form_distinct = small_form_Inr[THEN iffD2, OF conjI]

text \<open>Thumbnails of the same type are refused before anything is requested.\<close>

lemma duplicate_thumbnails_refused:
  assumes "\<not> distinct (map fst (sc_thumbnails content))"
  shows "\<exists>error. api_uploadSmallFile ep parentFolderUid metadata content s = (Inl error, s)"
proof -
  have refused: "\<exists>error. small_form m content = Inl error" for m :: small_file_body
    using assms small_form_Inr[of m content] by (cases "small_form m content") auto
  show ?thesis
  proof (cases "splitNodeUid parentFolderUid")
    case (Inr ids)
    obtain volumeId parentNodeId where "ids = (volumeId, parentNodeId)" by (cases ids)
    with Inr refused[of "small_file_metadata parentNodeId metadata content"] show ?thesis
      by (auto simp: api_uploadSmallFile_def run_act)
  qed (simp add: api_uploadSmallFile_def run_act)
qed

text \<open>What a form holds as bytes under a name.\<close>

definition form_blob :: "'m form \<Rightarrow> string \<Rightarrow> bytes option" where
  "form_blob formData name = (case map_of formData name of Some (BlobPart b) \<Rightarrow> Some b | _ \<Rightarrow> None)"

text \<open>
  A form that holds a file: content of the expected size and hash, encrypted in one block with its
  verification token unless the file is empty; one part for each thumbnail, by its type, and none for another
  type; and a manifest signature over the hashes of the parts, thumbnails by type before the block.
\<close>

definition form_holds ::
  "('s, 'k, 'p) entry_services \<Rightarrow> ('k, 'p) small_keys \<Rightarrow> entry_metadata \<Rightarrow> bytes list \<Rightarrow> (nat \<times> bytes) list \<Rightarrow>
     'm form \<Rightarrow> string \<Rightarrow> string option \<Rightarrow> bool"
where
  "form_holds env keys metadata stream thumbnails formData manifestSignature token \<longleftrightarrow>
     length (concat stream) = um_expectedSize metadata
     \<and> (\<forall>expected. present (um_expectedSha1 metadata) = Some expected \<longrightarrow> et_sha1 env (concat stream) = expected)
     \<and> distinct (map fst thumbnails)
     \<and> (case form_blob formData ''ContentBlock'' of
          None \<Rightarrow> concat stream = [] \<and> token = None
        | Some b \<Rightarrow>
            dc_decryptBlock (et_openpgp env) b (ny_contentKeyPacketSessionKey keys) = Inr (concat stream)
            \<and> token = Some (toBase64 (verificationToken
                (drop (length (ny_contentKeyPacket keys) - 32) (ny_contentKeyPacket keys)) b)))
     \<and> (\<forall>t. case map_of thumbnails t of
          None \<Rightarrow> form_blob formData (thumbnail_name t) = None
        | Some thumbnail \<Rightarrow> \<exists>e. form_blob formData (thumbnail_name t) = Some e
            \<and> holds_thumbnail (et_openpgp env) (ny_contentKeyPacketSessionKey keys)
                (sg_contentSigningKey (ny_signingKeys keys)) (t, e) (t, thumbnail))
     \<and> (\<exists>es. dc_verifyManifest (et_openpgp env)
            (concat (map (et_sha256 env) (List.map_filter (form_blob formData)
              (map thumbnail_name (sort (map fst thumbnails)) @ [''ContentBlock'']))))
            manifestSignature [sg_contentSigningKey (ny_signingKeys keys)] = Inr (SIGNED_AND_VALID, es))"

lemma small_form_blobs:
  assumes "small_form m content = Inr formData"
  shows "form_blob formData ''ContentBlock'' = map_option sb_encryptedData (sc_block content)"
    and "form_blob formData (thumbnail_name t) = map_of (sc_thumbnails content) t"
    and "map_of formData ''Metadata'' = Some (MetadataPart m)"
  using assms by (auto simp: form_blob_def small_form_Inr map_of_thumbnail_parts map_of_thumbnail_parts_other map_add_def
      split: option.split)

lemma map_filter_same: "\<forall>x \<in> set xs. f x = g x \<Longrightarrow> List.map_filter f xs = List.map_filter g xs"
  by (induction xs) (auto simp: List.map_filter_simps split: option.split)

lemma map_filter_map_of: "distinct (map fst al) \<Longrightarrow> List.map_filter (map_of al) (map fst al) = map snd al"
proof (induction al)
  case (Cons p al)
  have "List.map_filter (map_of (p # al)) (map fst al) = List.map_filter (map_of al) (map fst al)"
  proof (rule map_filter_same, rule ballI)
    fix x assume "x \<in> set (map fst al)"
    moreover have "fst p \<notin> set (map fst al)" using Cons.prems by simp
    ultimately have "x \<noteq> fst p" by metis
    then show "map_of (p # al) x = map_of al x" by (cases p) simp
  qed
  with Cons show ?case by (cases p) (simp add: List.map_filter_simps fun_upd_same del: fun_upd_apply)
qed (simp add: List.map_filter_simps)

lemma map_filter_append: "List.map_filter f (xs @ ys) = List.map_filter f xs @ List.map_filter f ys"
  by (induction xs) (auto simp: List.map_filter_simps split: option.split)

lemma map_filter_map: "List.map_filter f (map g xs) = List.map_filter (\<lambda>x. f (g x)) xs"
  by (simp add: List.map_filter_def filter_map comp_def)

lemma map_of_list_all2:
  assumes "list_all2 (\<lambda>x y. fst x = fst y \<and> P x y) xs ys"
  shows "case map_of ys k of None \<Rightarrow> map_of xs k = None
    | Some v \<Rightarrow> \<exists>u. map_of xs k = Some u \<and> P (k, u) (k, v)"
  using assms by (induction rule: list_all2_induct) (auto split: option.split)

text \<open>The form that is made of a small file holds it.\<close>

lemma small_form_holds:
  assumes laws: "openpgp_laws (et_openpgp env) signs"
    and payloads: "buildPayloads env keys metadata stream thumbnails s = (Inr (payload, block, sent), s')"
    and form: "small_form m content = Inr formData" and content: "sc_block content = block" "sc_thumbnails content = sent"
  shows "form_holds env keys metadata stream thumbnails formData (cp_armoredManifestSignature payload)
     (map_option (\<lambda>b. toBase64 (sb_verificationToken b)) block)"
proof -
  note facts = buildPayloads_is_content[OF laws payloads]
  note blobs = small_form_blobs[OF form, unfolded content]
  let ?holds = "holds_thumbnail (et_openpgp env) (ny_contentKeyPacketSessionKey keys) (sg_contentSigningKey (ny_signingKeys keys))"
  from facts have all2: "list_all2 ?holds sent (sort_key fst thumbnails)" by blast
  have types: "map fst sent = map fst (sort_key fst thumbnails)"
    using all2 by (induction rule: list_all2_induct) (auto simp: holds_thumbnail_def)
  from form content(2) have distinct: "distinct (map fst sent)" by (simp add: small_form_Inr)
  then have distinct': "distinct (map fst thumbnails)"
    unfolding types by (metis distinct_map distinct_sort set_sort mset_sort mset_map mset_eq_imp_distinct_iff)
  have sorted: "map fst (sort_key fst thumbnails) = sort (map fst thumbnails)"
    by (rule properties_for_sort[symmetric]) auto
  have lookup: "map_of (sort_key fst thumbnails) = map_of thumbnails"
    using distinct distinct' unfolding types by (intro map_of_eqI) auto
  have thumbs: "case map_of thumbnails t of None \<Rightarrow> form_blob formData (thumbnail_name t) = None
     | Some thumbnail \<Rightarrow> \<exists>e. form_blob formData (thumbnail_name t) = Some e \<and> ?holds (t, e) (t, thumbnail)" for t
  proof -
    from all2 have "list_all2 (\<lambda>x y. fst x = fst y \<and> ?holds x y) sent (sort_key fst thumbnails)"
      by (rule list_all2_mono) (simp add: holds_thumbnail_def)
    from map_of_list_all2[OF this, of t] show ?thesis unfolding lookup blobs(2) .
  qed
  have "List.map_filter (form_blob formData) (map thumbnail_name (sort (map fst thumbnails)) @ [''ContentBlock''])
      = map snd sent @ (case block of None \<Rightarrow> [] | Some b \<Rightarrow> [sb_encryptedData b])"
    using map_filter_map_of[OF distinct]
    by (simp add: map_filter_append map_filter_map blobs types sorted List.map_filter_simps split: option.split)
  with facts distinct' thumbs show ?thesis
    unfolding form_holds_def blobs(1) by (auto split: option.splits)
qed

section \<open>A small upload from end to end\<close>

lemma send_ok: "send mk m w = (Inr v, w') \<Longrightarrow> \<exists>s'. m (w_outside w) = (Inr v, s')"
  by (auto simp: send_def split: prod.splits)

lemma handleConflictError_ok:
  assumes "handleConflictError svc parentFolderUid metadata error retry w = Some (Inr v, w')"
  shows "\<exists>w1. retry w1 = Some (Inr v, w')"
  using assms by (auto simp: handleConflictError_def Let_def split: option.splits prod.splits sum.splits if_splits)

lemma uploadFile_ok:
  "uploadFile svc fuel parentFolderUid crypto metadata payload block sent w = Some (Inr v, w') \<Longrightarrow>
     \<exists>s s'. us_uploadSmallFile svc parentFolderUid (small_file_request_of metadata crypto payload)
       \<lparr>sc_armoredManifestSignature = cp_armoredManifestSignature payload,
        sc_checksumVerified = cp_checksumVerified payload, sc_block = block, sc_thumbnails = sent\<rparr> s = (Inr v, s')"
proof (induction fuel arbitrary: w)
  case (Suc fuel)
  show ?case
  proof (cases "upload_file_once svc parentFolderUid crypto metadata payload block sent w")
    case (Pair r w1)
    show ?thesis
    proof (cases r)
      case (Inl error)
      with Suc.prems Pair obtain w2 where "uploadFile svc fuel parentFolderUid crypto metadata payload block sent w2 = Some (Inr v, w')"
        by (auto dest!: handleConflictError_ok)
      then show ?thesis by (rule Suc.IH)
    next
      case (Inr u)
      with Suc.prems Pair have "upload_file_once svc parentFolderUid crypto metadata payload block sent w = (Inr v, w')" by simp
      then show ?thesis
        unfolding upload_file_once_def by (auto simp: give_def dest!: await_ok send_ok) blast
    qed
  qed
qed simp

text \<open>The keys of a file that is made for an upload.\<close>

abbreviation new_file_keys :: "('k, 'p) node_crypto \<Rightarrow> ('k, 'p) small_keys" where
  "new_file_keys crypto \<equiv>
     \<lparr>ny_key = gk_key (gc_nodeKeys crypto), ny_contentKeyPacket = ck_contentKeyPacket (gc_contentKey crypto),
      ny_contentKeyPacketSessionKey = ck_contentKeyPacketSessionKey (gc_contentKey crypto),
      ny_signingKeys = gc_signingKeys crypto\<rparr>"

lemma api_uploadSmallFile_ok:
  assumes "api_uploadSmallFile ep parentFolderUid metadata content s = (Inr uids, s')"
  obtains volumeId parentId formData ids s1 where
    "splitNodeUid parentFolderUid = Inr (volumeId, parentId)"
    "small_form (small_file_metadata parentId metadata content) content = Inr formData"
    "uq_postSmallFile ep volumeId formData s = (Inr ids, s1)" "uids = node_uids volumeId ids"
  using assms unfolding api_uploadSmallFile_def by (auto simp: give_def of_result_def dest!: await_ok)

lemma api_uploadSmallRevision_ok:
  assumes "api_uploadSmallRevision ep nodeUid currentRevisionUid metadata content s = (Inr uids, s')"
  obtains volumeId nodeId volumeId' nodeId' currentRevisionId formData ids s1 where
    "splitNodeUid nodeUid = Inr (volumeId, nodeId)"
    "splitNodeRevisionUid currentRevisionUid = Inr (volumeId', nodeId', currentRevisionId)"
    "small_form (small_revision_metadata currentRevisionId metadata content) content = Inr formData"
    "uq_postSmallRevision ep volumeId nodeId formData s = (Inr ids, s1)" "uids = node_uids volumeId ids"
  using assms unfolding api_uploadSmallRevision_def by (auto simp: give_def of_result_def dest!: await_ok)

lemma then_run_ok: "then_run m k s = Some (Inr v, s') \<Longrightarrow> \<exists>u s1. m s = Some (Inr u, s1) \<and> k u s1 = Some (Inr v, s')"
  by (auto dest: then_run_cases)

lemma read_from_ok: "read_from m w = (Inr v, w') \<Longrightarrow> \<exists>s'. m (w_outside w) = (Inr v, s')"
  by (auto simp: read_from_def split: prod.splits)

text \<open>A new revision of a file is sent the same way, for the revision that is active, with the keys of the file.\<close>

lemma small_revision_is_content:
  assumes laws: "openpgp_laws (et_openpgp env) signs" and api: "et_upload env = with_upload_api ep svc"
    and run: "handleUpload env fuel (NewRevision nodeUid) metadata stream thumbnails w = Some (Inr uids, w')"
  obtains key packet sessionKey signingKeys w1 volumeId nodeId formData m ids s s1 where
    "getExistingFileNodeCrypto (et_upload env) nodeUid w = (Inr (key, packet, sessionKey, signingKeys), w1)"
    "nodeUid = makeNodeUid volumeId nodeId" "uids = node_uids volumeId ids"
    "uq_postSmallRevision ep volumeId nodeId formData s = (Inr ids, s1)"
    "map_of formData ''Metadata'' = Some (MetadataPart m)"
    "form_holds env \<lparr>ny_key = key, ny_contentKeyPacket = packet, ny_contentKeyPacketSessionKey = sessionKey,
        ny_signingKeys = signingKeys\<rparr> metadata stream thumbnails formData
        (sr_ManifestSignature m) (sr_ContentBlockVerificationToken m)"
proof -
  from run obtain key packet sessionKey signingKeys w1 payload block sent w2 where
    crypto: "getExistingFileNodeCrypto (et_upload env) nodeUid w = (Inr (key, packet, sessionKey, signingKeys), w1)"
    and payloads: "\<exists>s'. buildPayloads env \<lparr>ny_key = key, ny_contentKeyPacket = packet,
        ny_contentKeyPacketSessionKey = sessionKey, ny_signingKeys = signingKeys\<rparr> metadata stream thumbnails (w_outside w1)
        = (Inr (payload, block, sent), s')"
    and sends: "uploadSmallRevision (et_upload env) nodeUid signingKeys
       (cp_armoredManifestSignature payload, cp_armoredExtendedAttributes payload) block sent w2 = (Inr uids, w')"
    by (auto simp: at_once_def dest!: then_run_ok read_from_ok)
  obtain revisionUid s s' where "us_uploadSmallRevision (et_upload env) nodeUid revisionUid
      (sg_email signingKeys, cp_armoredExtendedAttributes payload)
      \<lparr>sc_armoredManifestSignature = cp_armoredManifestSignature payload, sc_checksumVerified = None,
       sc_block = block, sc_thumbnails = sent\<rparr> s = (Inr uids, s')"
    using sends unfolding uploadSmallRevision_def
    by (auto simp: give_def throw_act_def dest!: await_ok send_ok split: option.splits)
  then obtain volumeId nodeId currentRevisionId formData ids s1 where
    node: "splitNodeUid nodeUid = Inr (volumeId, nodeId)"
    and form: "small_form (small_revision_metadata currentRevisionId
        (sg_email signingKeys, cp_armoredExtendedAttributes payload)
        \<lparr>sc_armoredManifestSignature = cp_armoredManifestSignature payload, sc_checksumVerified = None,
         sc_block = block, sc_thumbnails = sent\<rparr>)
        \<lparr>sc_armoredManifestSignature = cp_armoredManifestSignature payload, sc_checksumVerified = None,
         sc_block = block, sc_thumbnails = sent\<rparr> = Inr formData"
    and post: "uq_postSmallRevision ep volumeId nodeId formData s = (Inr ids, s1)" "uids = node_uids volumeId ids"
    unfolding api with_upload_api_def by (auto elim!: api_uploadSmallRevision_ok)
  from payloads obtain s' where built: "buildPayloads env \<lparr>ny_key = key, ny_contentKeyPacket = packet,
        ny_contentKeyPacketSessionKey = sessionKey, ny_signingKeys = signingKeys\<rparr> metadata stream thumbnails (w_outside w1)
        = (Inr (payload, block, sent), s')" by blast
  from small_form_holds[OF laws built form] small_form_blobs(3)[OF form] node
  show ?thesis
    by (intro that[OF crypto _ post(2,1)]) (auto simp: splitNodeUid_Inr_iff small_revision_metadata_def)
qed

section \<open>Properties\<close>

text \<open>The services of \<open>demo_entry\<close> over a server that takes every small file, and an upload to it.\<close>

definition demo_upload_endpoints :: "nat upload_endpoints" where
  "demo_upload_endpoints =
     \<lparr>uq_clientUid = None, uq_postFiles = (\<lambda>_ _ n. (Inr (''n'', ''r''), n)), uq_postRevisions = (\<lambda>_ _ _ n. (Inr ''r'', n)),
      uq_getVerification = (\<lambda>_ _ _ n. (Inr ([], []), n)),
      uq_postBlocks = (\<lambda>_ n. (Inr \<lparr>ba_UploadLinks = [], ba_ThumbnailLinks = None\<rparr>, n)),
      uq_putRevision = (\<lambda>_ _ _ _ n. (Inr (), n)), uq_postDeleteMultiple = (\<lambda>_ _ n. (Inr None, n)),
      uq_deleteRevision = (\<lambda>_ _ _ n. (Inr (), n)), uq_postBlock = (\<lambda>_ _ _ n. ([], Inr (), n)),
      uq_postLinks = (\<lambda>_ _ n. (Inr [], n)), uq_postSmallFile = (\<lambda>_ _ n. (Inr (''n'', ''r''), n + 1)),
      uq_postSmallRevision = (\<lambda>_ _ _ n. (Inr (''n'', ''r''), n + 1))\<rparr>"

definition demo_api_entry :: "(nat, 8 word, 8 word) entry_services" where
  "demo_api_entry = demo_entry\<lparr>et_upload := with_upload_api demo_upload_endpoints (et_upload demo_entry)\<rparr>"

lemma demo_uid: "splitNodeUid ''v~p'' = Inr (''v'', ''p'')"
  by (simp add: splitNodeUid_Inr_iff makeNodeUid_def makeUid_def tilde_def)

lemma demo_small_run:
  "\<exists>w'. handleUpload demo_api_entry 1 (NewFile ''v~p'' ''a'') demo_small_file [[1, 2], [3]] [(2, [4]), (1, [5, 6])]
       \<lparr>w_outside = 0, w_log = []\<rparr> = Some (Inr (''v~n'', ''v~n~r''), w')"
  by (simp add: generateNewFileCrypto_def generateFileCrypto_def getSigningKeys_def
      buildPayloads_def readStreamContent_def readStreamToUint8Array_def encryptContentBlock_def
      small_encryptBlock_def verifyBlockWithContentKey_def verifyBlock_def dc_encryptBlock_def dc_encryptSignature_def
      dc_decryptBlock_def encryptThumbnailBlock_def encryptCommitPayload_def encryptExtendedAttributes_def
      generateFileExtendedAttributes_def DriveCrypto.dc_signManifest_def MAX_BLOCK_ENCRYPTION_RETRIES_def
      upload_file_once_def api_uploadSmallFile_def small_form_distinct with_upload_api_def demo_uid node_uids_def
      makeNodeUid_def makeNodeRevisionUid_def makeUid_def tilde_def at_once_def run_defs read_from_def send_def
      run_act present_def Let_def demo_api_entry_def demo_upload_endpoints_def demo_entry_def demo_small_file_def
      symbolic_def sym_encrypt_def sym_open_message)

text \<open>
  C19: a small upload sends the file: if it succeeds over these requests, the server took one form
  for the parent folder and gave the IDs that are returned; its metadata carry the name, hash, key and content key
  packet made for the file; the content has the expected size and hash and is the block of the form, decrypted with
  the content key, which is left out exactly for an empty file, with the block's verification token; each
  thumbnail has its own part, which decrypts to it, and no type comes twice; and the manifest signature of the
  metadata verifies over the hashes of the parts, thumbnails by type before the block.
\<close>

theorem small_upload_is_content:
  assumes "openpgp_laws (et_openpgp env) signs" and "et_upload env = with_upload_api ep svc"
    and "handleUpload env fuel (NewFile parentFolderUid name) metadata stream thumbnails w = Some (Inr uids, w')"
  shows "\<exists>crypto hashKey w1 volumeId parentId formData m ids s s'.
     generateNewFileCrypto (et_upload env) parentFolderUid name w = (Inr (crypto, hashKey), w1)
     \<and> splitNodeUid parentFolderUid = Inr (volumeId, parentId) \<and> uids = node_uids volumeId ids
     \<and> uq_postSmallFile ep volumeId formData s = (Inr ids, s')
     \<and> map_of formData ''Metadata'' = Some (MetadataPart m)
     \<and> sm_ParentLinkID m = parentId \<and> sm_Name m = gc_encryptedName crypto \<and> sm_NameHash m = gc_hash crypto
     \<and> sm_NodeKey m = gk_armoredKey (gc_nodeKeys crypto)
     \<and> sm_ContentKeyPacket m = ck_base64ContentKeyPacket (gc_contentKey crypto)
     \<and> form_holds env (new_file_keys crypto) metadata stream thumbnails formData
         (sm_ManifestSignature m) (sm_ContentBlockVerificationToken m)"
proof -
  from assms(3) obtain crypto hashKey w1 payload block sent w2 s' where
    crypto: "generateNewFileCrypto (et_upload env) parentFolderUid name w = (Inr (crypto, hashKey), w1)"
    and built: "buildPayloads env (new_file_keys crypto) metadata stream thumbnails (w_outside w1) = (Inr (payload, block, sent), s')"
    and sends: "uploadFile (et_upload env) fuel parentFolderUid crypto (upload_metadata.truncate metadata) payload block sent w2
        = Some (Inr uids, w')"
    by (auto simp: at_once_def dest!: then_run_ok read_from_ok)
  let ?content = "\<lparr>sc_armoredManifestSignature = cp_armoredManifestSignature payload,
    sc_checksumVerified = cp_checksumVerified payload, sc_block = block, sc_thumbnails = sent\<rparr>"
  let ?request = "small_file_request_of (upload_metadata.truncate metadata) crypto payload"
  from uploadFile_ok[OF sends] obtain s s1 where "api_uploadSmallFile ep parentFolderUid ?request ?content s = (Inr uids, s1)"
    by (auto simp: assms(2) with_upload_api_def)
  then obtain volumeId parentId formData ids s2 where
    parent: "splitNodeUid parentFolderUid = Inr (volumeId, parentId)"
    and form: "small_form (small_file_metadata parentId ?request ?content) ?content = Inr formData"
    and post: "uq_postSmallFile ep volumeId formData s = (Inr ids, s2)" "uids = node_uids volumeId ids"
    by (rule api_uploadSmallFile_ok)
  let ?m = "small_file_metadata parentId ?request ?content"
  have m: "sm_ParentLinkID ?m = parentId" "sm_Name ?m = gc_encryptedName crypto" "sm_NameHash ?m = gc_hash crypto"
    "sm_NodeKey ?m = gk_armoredKey (gc_nodeKeys crypto)"
    "sm_ContentKeyPacket ?m = ck_base64ContentKeyPacket (gc_contentKey crypto)"
    "sm_ManifestSignature ?m = cp_armoredManifestSignature payload"
    "sm_ContentBlockVerificationToken ?m = map_option (\<lambda>b. toBase64 (sb_verificationToken b)) block"
    by (simp_all add: small_file_metadata_def small_file_request_of_def)
  have "form_holds env (new_file_keys crypto) metadata stream thumbnails formData
      (sm_ManifestSignature ?m) (sm_ContentBlockVerificationToken ?m)"
    unfolding m by (rule small_form_holds[OF assms(1) built form]) simp_all
  with crypto parent post small_form_blobs(3)[OF form] m(1-5) show ?thesis by blast
qed

theorem small_upload_is_content_witness:
  "\<exists>w' m b (formData :: small_file_body form). handleUpload demo_api_entry 1 (NewFile ''v~p'' ''a'') demo_small_file [[1, 2], [3]]
         [(2, [4]), (1, [5, 6])] \<lparr>w_outside = 0, w_log = []\<rparr> = Some (Inr (''v~n'', ''v~n~r''), w')
     \<and> map_of formData ''Metadata'' = Some (MetadataPart m) \<and> sm_ParentLinkID m = ''p'' \<and> sm_Name m = ''a''
     \<and> form_blob formData ''ContentBlock'' = Some b \<and> dc_decryptBlock symbolic b 1 = Inr [1, 2, 3]
     \<and> form_blob formData (thumbnail_name 1) \<noteq> None \<and> form_blob formData (thumbnail_name 3) = None"
proof -
  have laws: "openpgp_laws (et_openpgp demo_api_entry) sym_detached"
    by (simp add: demo_api_entry_def demo_entry_def symbolic_laws)
  obtain w' where run: "handleUpload demo_api_entry 1 (NewFile ''v~p'' ''a'') demo_small_file [[1, 2], [3]] [(2, [4]), (1, [5, 6])]
       \<lparr>w_outside = 0, w_log = []\<rparr> = Some (Inr (''v~n'', ''v~n~r''), w')"
    using demo_small_run by blast
  have api: "et_upload demo_api_entry = with_upload_api demo_upload_endpoints (et_upload demo_entry)"
    by (simp add: demo_api_entry_def)
  from small_upload_is_content[OF laws api run] obtain crypto hashKey w1 volumeId parentId m and formData :: "small_file_body form" where
    crypto: "generateNewFileCrypto (et_upload demo_api_entry) ''v~p'' ''a'' \<lparr>w_outside = 0, w_log = []\<rparr> = (Inr (crypto, hashKey), w1)"
    and parent: "splitNodeUid ''v~p'' = Inr (volumeId, parentId)"
    and m: "map_of formData ''Metadata'' = Some (MetadataPart m)" "sm_ParentLinkID m = parentId" "sm_Name m = gc_encryptedName crypto"
    and holds: "form_holds demo_api_entry (new_file_keys crypto) demo_small_file [[1, 2], [3]] [(2, [4]), (1, [5, 6])]
        formData (sm_ManifestSignature m) (sm_ContentBlockVerificationToken m)" by blast
  have keys: "ck_contentKeyPacketSessionKey (gc_contentKey crypto) = 1" "gc_encryptedName crypto = ''a''"
    using crypto by (auto simp: generateNewFileCrypto_def generateFileCrypto_def getSigningKeys_def demo_api_entry_def
        demo_entry_def with_upload_api_def run_act read_from_def Let_def)
  have openpgp: "et_openpgp demo_api_entry = symbolic" by (simp add: demo_api_entry_def demo_entry_def)
  from holds obtain b where b: "form_blob formData ''ContentBlock'' = Some b" "dc_decryptBlock symbolic b 1 = Inr [1, 2, 3]"
    unfolding form_holds_def by (auto simp: keys openpgp split: option.splits)
  have "case map_of [(2, [4]), (1, [5, 6])] t of None \<Rightarrow> form_blob formData (thumbnail_name t) = None
      | Some _ \<Rightarrow> form_blob formData (thumbnail_name t) \<noteq> None" for t
    using holds unfolding form_holds_def by (auto split: option.splits if_splits)
  from this[of 1] this[of 3] have "form_blob formData (thumbnail_name 1) \<noteq> None" "form_blob formData (thumbnail_name 3) = None"
    by simp_all
  moreover have "parentId = ''p''"
    using parent demo_uid by simp
  ultimately show ?thesis
    using run m b keys(2) by (intro exI[of _ w'] exI[of _ m] exI[of _ b] exI[of _ formData]) simp
qed

end
