(* ===== verification/Thumbnails.thy ===== *)
theory Thumbnails
  imports NodesApi NodesAccess DriveCrypto
begin

text \<open>
  Thumbnails of many nodes: \<^verbatim>\<open>internal/download/thumbnailDownloader.ts\<close> with the request of
  \<^verbatim>\<open>apiService.ts\<close> and the decryption of \<^verbatim>\<open>cryptoService.ts\<close> it uses.

  The generator is a step relation: a download may settle at any moment the generator awaits, so what
  holds in every reachable state holds for every interleaving. A download that has settled first reports
  its result and leaves the map of ongoing downloads in a later microtask; the generator leaves the
  iteration of the buffer in one microtask and resets the buffer in a later one.
\<close>

section \<open>The request\<close>

definition MAX_THUMBNAIL_IDS_PER_REQUEST :: nat where "MAX_THUMBNAIL_IDS_PER_REQUEST = 30"

text \<open>IDs with a URL and a token, and IDs with an error.\<close>

record thumbnails_response =
  th_Thumbnails :: "(string \<times> string \<times> string) list"
  th_Errors :: "(string \<times> string) list"

type_synonym thumbnail_answer = "string \<times> (string + string \<times> string)"

definition answers_of ::
  "string \<Rightarrow> (string \<times> string) list \<Rightarrow> thumbnails_response \<Rightarrow> thumbnail_answer list"
where
  "answers_of volumeId thumbnailIdBatch response =
     (let uid = (\<lambda>i. map_option (\<lambda>(_, nodeId). makeNodeThumbnailUid volumeId nodeId i) (find (\<lambda>(t, _). t = i) thumbnailIdBatch)) in
      List.map_filter (\<lambda>(i, url, token). map_option (\<lambda>u. (u, Inr (url, token))) (uid i)) (th_Thumbnails response)
      @ List.map_filter (\<lambda>(i, error). map_option (\<lambda>u. (u, Inl error)) (uid i)) (th_Errors response))"

fun ask_thumbnails ::
  "(string \<Rightarrow> string list \<Rightarrow> thrown + thumbnails_response) \<Rightarrow> (string \<times> (string \<times> string) list) list \<Rightarrow>
     thumbnail_answer list \<times> thrown option"
where
  "ask_thumbnails post [] = ([], None)"
| "ask_thumbnails post ((volumeId, thumbnailIdBatch) # batches) =
     (case post volumeId (map fst thumbnailIdBatch) of
        Inl error \<Rightarrow> ([], Some error)
      | Inr response \<Rightarrow>
          (case ask_thumbnails post batches of
             (answers, e) \<Rightarrow> (answers_of volumeId thumbnailIdBatch response @ answers, e)))"

definition api_iterateThumbnails ::
  "(string \<Rightarrow> string list \<Rightarrow> thrown + thumbnails_response) \<Rightarrow> string list \<Rightarrow> thumbnail_answer list \<times> thrown option"
where
  "api_iterateThumbnails post thumbnailUids =
     (case try_map (\<lambda>uid. try_bind (splitNodeThumbnailUid uid)
                      (\<lambda>(volumeId, nodeId, thumbnailId). Inr (volumeId, thumbnailId, nodeId))) thumbnailUids of
        Inl error \<Rightarrow> ([], Some error)
      | Inr thumbnailIds \<Rightarrow>
          ask_thumbnails post
            (concat (map (\<lambda>(volumeId, ids). map (Pair volumeId) (batches_from ids MAX_THUMBNAIL_IDS_PER_REQUEST 0))
                       (by_volume thumbnailIds))))"

section \<open>One thumbnail\<close>

definition MAX_THUMBNAIL_DOWNLOAD_ATTEMPTS :: nat where "MAX_THUMBNAIL_DOWNLOAD_ATTEMPTS = 2"

definition decryptThumbnail :: "('s, 'k, 'p) openpgp \<Rightarrow> bytes \<Rightarrow> 'p \<Rightarrow> thrown + bytes" where
  "decryptThumbnail pg thumbnail contentKeyPacketSessionKey =
     (case decryptThumbnailBlock pg thumbnail contentKeyPacketSessionKey [] of
        Inl error \<Rightarrow> Inl (ThrownError (with_cause
          (new_error DecryptionError (''Failed to decrypt thumbnail: '' @ getErrorMessage error)) error))
      | Inr (decryptedThumbnail, _) \<Rightarrow> Inr decryptedThumbnail)"

text \<open>
  What a download needs: the content key of the node, the encrypted block, and OpenPGP; both reads of an
  attempt are made in turn.
\<close>

record ('w, 's, 'k, 'p) thumbnail_services =
  tv_contentKey :: "string \<Rightarrow> ('w, 'p option) act"
  tv_downloadBlock :: "string \<Rightarrow> string \<Rightarrow> ('w, bytes) act"
  tv_openpgp :: "('s, 'k, 'p) openpgp"

definition thumbnail_attempt ::
  "('w, 's, 'k, 'p) thumbnail_services \<Rightarrow> string \<Rightarrow> string \<Rightarrow> string \<Rightarrow> ('w, bytes) act"
where
  "thumbnail_attempt svc nodeUid bareUrl token =
     await (tv_contentKey svc nodeUid) (\<lambda>key.
     await (tv_downloadBlock svc bareUrl token) (\<lambda>encryptedBlock.
       case key of
         None \<Rightarrow> throw_act (throw_new ValidationError ''File has no content key'')
       | Some sessionKey \<Rightarrow> of_result (decryptThumbnail (tv_openpgp svc) encryptedBlock sessionKey)))"

fun attempts :: "nat \<Rightarrow> ('w, 'a) act \<Rightarrow> ('w, 'a) act" where
  "attempts 0 m = m"
| "attempts (Suc n) m = catch m (\<lambda>_. attempts n m)"

definition downloadThumbnail ::
  "('w, 's, 'k, 'p) thumbnail_services \<Rightarrow> string \<Rightarrow> string \<Rightarrow> string \<Rightarrow> ('w, bytes) act"
where
  "downloadThumbnail svc nodeUid bareUrl token =
     attempts MAX_THUMBNAIL_DOWNLOAD_ATTEMPTS (thumbnail_attempt svc nodeUid bareUrl token)"

section \<open>The nodes\<close>

record thumbnail_node =
  tn_uid :: string
  tn_activeRevision :: "(thrown + (nat \<times> string) list option) option"

text \<open>A node with the UID of its thumbnail, or the error that is reported for it.\<close>

type_synonym thumbnail_item = "string \<times> (string + string)"

fun thumbnail_item :: "nat \<Rightarrow> thumbnail_node listed \<Rightarrow> thumbnail_item" where
  "thumbnail_item thumbnailType (MissingNode missingUid) = (missingUid, Inl ''Node not found'')"
| "thumbnail_item thumbnailType (Listed node) =
     (case (case tn_activeRevision node of
              Some (Inr (Some thumbnails)) \<Rightarrow> find (\<lambda>(t, _). t = thumbnailType) thumbnails
            | _ \<Rightarrow> None) of
        Some (_, uid) \<Rightarrow> (tn_uid node, Inr uid)
      | None \<Rightarrow> (tn_uid node, Inl ''Node has no thumbnail''))"

definition iterateThumbnailUids :: "nat \<Rightarrow> thumbnail_node listed list \<Rightarrow> thumbnail_item list" where
  "iterateThumbnailUids thumbnailType nodes = map (thumbnail_item thumbnailType) nodes"

section \<open>The generator\<close>

definition MAX_DOWNLOAD_THUMBNAILS :: nat where "MAX_DOWNLOAD_THUMBNAILS = 10"

type_synonym thumbnail_result = "string \<times> (string + bytes)"

text \<open>
  The places where the generator awaits: for the next node, for the next answer of a request (those that
  are still to come, how the request ends, the thumbnails not answered yet), for one of the downloads
  \<open>awaited\<close>, for the consumer of the \<open>n\<close>-th buffered result, and between the end of the buffer and its
  reset. The flag tells whether the listing of the nodes has ended.
\<close>

datatype thumbnail_phase =
    Th_Listing
  | Th_Requesting bool "thumbnail_answer list" "thrown option" "string list"
  | Th_Waiting bool "nat list"
  | Th_Yielding bool nat
  | Th_Resetting bool nat
  | Th_LastYield nat
  | Th_LastReset nat
  | Th_Done
  | Th_Threw thrown

text \<open>
  A download has a number; \<open>th_ongoing\<close> is the map from nodes to numbers, \<open>th_running\<close> the downloads
  that have not settled, with their node and what they fetch, \<open>th_settling\<close> those that have reported. What
  is reset before it was yielded is collected in \<open>th_dropped\<close>.
\<close>

record thumbnail_state =
  th_phase :: thumbnail_phase
  th_nodes :: "thumbnail_item list"
  th_nodes_fail :: "thrown option"
  th_batch :: "(string \<times> string) list"
  th_ongoing :: "(string \<times> nat) list"
  th_running :: "(nat \<times> string \<times> string \<times> string) list"
  th_settling :: "(nat \<times> string) list"
  th_next :: nat
  th_buffered :: "thumbnail_result list"
  th_yielded :: "thumbnail_result list"
  th_dropped :: "thumbnail_result list"

definition th_init :: "nat \<Rightarrow> string list \<Rightarrow> thumbnail_node listed list \<Rightarrow> thrown option \<Rightarrow> thumbnail_state" where
  "th_init thumbnailType nodeUids nodes fails =
     \<lparr>th_phase = (if nodeUids = [] then Th_Done else Th_Listing),
      th_nodes = iterateThumbnailUids thumbnailType nodes, th_nodes_fail = fails,
      th_batch = [], th_ongoing = [], th_running = [], th_settling = [], th_next = 0, th_buffered = [], th_yielded = [],
      th_dropped = []\<rparr>"

text \<open>The loop that waits while there are downloads (too many, before the listing has ended).\<close>

definition th_window :: "bool \<Rightarrow> thumbnail_state \<Rightarrow> thumbnail_state" where
  "th_window final s =
     s\<lparr>th_phase :=
        (if (if final then th_ongoing s \<noteq> [] else MAX_DOWNLOAD_THUMBNAILS \<le> length (th_ongoing s))
         then Th_Waiting final (map snd (th_ongoing s))
         else if final then Th_LastYield 0 else Th_Listing)\<rparr>"

definition th_request ::
  "(string \<Rightarrow> string list \<Rightarrow> thrown + thumbnails_response) \<Rightarrow> bool \<Rightarrow> thumbnail_state \<Rightarrow> thumbnail_state"
where
  "th_request post final s =
     (if th_batch s = [] then th_window final s
      else (case api_iterateThumbnails post (map fst (th_batch s)) of
              (answers, e) \<Rightarrow> s\<lparr>th_phase := Th_Requesting final answers e (map fst (th_batch s))\<rparr>))"

text \<open>The next node.\<close>

definition th_list ::
  "(string \<Rightarrow> string list \<Rightarrow> thrown + thumbnails_response) \<Rightarrow> thumbnail_state \<Rightarrow> thumbnail_state"
where
  "th_list post s =
     (case th_nodes s of
        [] \<Rightarrow> (case th_nodes_fail s of
                 Some error \<Rightarrow> s\<lparr>th_phase := Th_Threw error\<rparr>
               | None \<Rightarrow> th_request post True s)
      | (nodeUid, Inl error) # nodes \<Rightarrow>
          s\<lparr>th_nodes := nodes, th_yielded := th_yielded s @ [(nodeUid, Inl error)]\<rparr>
      | (nodeUid, Inr thumbnailUid) # nodes \<Rightarrow>
          (let s' = s\<lparr>th_nodes := nodes, th_batch := AList.update thumbnailUid nodeUid (th_batch s)\<rparr> in
           if MAX_DOWNLOAD_THUMBNAILS \<le> length (th_batch s') then th_request post False s' else th_window False s'))"

text \<open>The next answer of a request, or of the UIDs that got none.\<close>

definition th_report :: "string \<Rightarrow> string \<Rightarrow> thumbnail_state \<Rightarrow> thumbnail_state" where
  "th_report nodeUid error s = s\<lparr>th_buffered := th_buffered s @ [(nodeUid, Inl error)]\<rparr>"

definition th_start :: "string \<Rightarrow> string \<Rightarrow> string \<Rightarrow> thumbnail_state \<Rightarrow> thumbnail_state" where
  "th_start nodeUid bareUrl token s =
     s\<lparr>th_ongoing := AList.update nodeUid (th_next s) (th_ongoing s),
       th_running := th_running s @ [(th_next s, nodeUid, bareUrl, token)], th_next := th_next s + 1\<rparr>"

definition th_answer :: "bool \<Rightarrow> thumbnail_answer list \<Rightarrow> thrown option \<Rightarrow> string list \<Rightarrow> thumbnail_state \<Rightarrow> thumbnail_state" where
  "th_answer final answers e missing s =
     (case answers of
        (uid, answer) # rest \<Rightarrow>
          (case present (map_of (th_batch s) uid) of
             None \<Rightarrow> s\<lparr>th_phase := Th_Requesting final rest e missing\<rparr>
           | Some nodeUid \<Rightarrow>
               (let s' = s\<lparr>th_phase := Th_Requesting final rest e (remove1 uid missing)\<rparr> in
                case answer of
                  Inl error \<Rightarrow> th_report nodeUid error s'
                | Inr (bareUrl, token) \<Rightarrow> th_start nodeUid bareUrl token s'))
      | [] \<Rightarrow>
          (case e of
             Some error \<Rightarrow> s\<lparr>th_phase := Th_Threw error\<rparr>
           | None \<Rightarrow>
               (case missing of
                  uid # rest \<Rightarrow>
                    th_report (case map_of (th_batch s) uid of Some n \<Rightarrow> n | None \<Rightarrow> '''') ''Thumbnail not found''
                      (s\<lparr>th_phase := Th_Requesting final [] None rest\<rparr>)
                | [] \<Rightarrow> th_window final (s\<lparr>th_batch := []\<rparr>))))"

definition th_settled :: "nat \<Rightarrow> thumbnail_state \<Rightarrow> bool" where
  "th_settled i s \<longleftrightarrow> i \<notin> fst ` set (th_running s) \<and> i \<notin> fst ` set (th_settling s)"

text \<open>\<open>yield*\<close>: the next of the buffer, or its end.\<close>

definition th_yield :: "(nat \<Rightarrow> thumbnail_phase) \<Rightarrow> (nat \<Rightarrow> thumbnail_phase) \<Rightarrow> nat \<Rightarrow> thumbnail_state \<Rightarrow> thumbnail_state" where
  "th_yield again over n s =
     (if n < length (th_buffered s)
      then s\<lparr>th_yielded := th_yielded s @ [th_buffered s ! n], th_phase := again (n + 1)\<rparr>
      else s\<lparr>th_phase := over n\<rparr>)"

definition th_reset :: "nat \<Rightarrow> thumbnail_state \<Rightarrow> thumbnail_state" where
  "th_reset n s = s\<lparr>th_dropped := th_dropped s @ drop n (th_buffered s), th_buffered := []\<rparr>"

definition th_result :: "thrown + bytes \<Rightarrow> string + bytes" where
  "th_result r = (case r of Inl error \<Rightarrow> Inl (getErrorMessage error) | Inr thumbnail \<Rightarrow> Inr thumbnail)"

text \<open>\<open>outcome\<close> is how a download ends.\<close>

inductive th_step ::
  "(string \<Rightarrow> string list \<Rightarrow> thrown + thumbnails_response) \<Rightarrow> (nat \<Rightarrow> string \<Rightarrow> string \<Rightarrow> string \<Rightarrow> thrown + bytes) \<Rightarrow>
     thumbnail_state \<Rightarrow> thumbnail_state \<Rightarrow> bool"
  for post outcome
where
  listing: "th_phase s = Th_Listing \<Longrightarrow> th_step post outcome s (th_list post s)"
| answering: "th_phase s = Th_Requesting final answers e missing \<Longrightarrow> th_step post outcome s (th_answer final answers e missing s)"
| waking: "th_phase s = Th_Waiting final awaited \<Longrightarrow> i \<in> set awaited \<Longrightarrow> th_settled i s \<Longrightarrow>
    th_step post outcome s (s\<lparr>th_phase := Th_Yielding final 0\<rparr>)"
| yielding: "th_phase s = Th_Yielding final n \<Longrightarrow> th_step post outcome s (th_yield (Th_Yielding final) (Th_Resetting final) n s)"
| resetting: "th_phase s = Th_Resetting final n \<Longrightarrow> th_step post outcome s (th_window final (th_reset n s))"
| last_yield: "th_phase s = Th_LastYield n \<Longrightarrow> th_step post outcome s (th_yield Th_LastYield Th_LastReset n s)"
| last_reset: "th_phase s = Th_LastReset n \<Longrightarrow> th_step post outcome s ((th_reset n s)\<lparr>th_phase := Th_Done\<rparr>)"
| settling: "th_running s = before @ (i, nodeUid, bareUrl, token) # after \<Longrightarrow>
    th_step post outcome s (s\<lparr>th_running := before @ after, th_settling := th_settling s @ [(i, nodeUid)],
      th_buffered := th_buffered s @ [(nodeUid, th_result (outcome i nodeUid bareUrl token))]\<rparr>)"
| leaving: "th_settling s = before @ (i, nodeUid) # after \<Longrightarrow>
    th_step post outcome s (s\<lparr>th_settling := before @ after, th_ongoing := AList.delete nodeUid (th_ongoing s)\<rparr>)"

section \<open>Where a node is\<close>

text \<open>The nodes of the batch that are still to be answered, and the buffered results not yielded yet.\<close>

definition th_pending :: "thumbnail_state \<Rightarrow> string list" where
  "th_pending s =
     (case th_phase s of
        Th_Requesting _ _ _ missing \<Rightarrow> map (\<lambda>uid. the (map_of (th_batch s) uid)) missing
      | _ \<Rightarrow> map snd (th_batch s))"

definition th_unread :: "thumbnail_state \<Rightarrow> thumbnail_result list" where
  "th_unread s =
     (case th_phase s of
        Th_Yielding _ n \<Rightarrow> drop n (th_buffered s)
      | Th_Resetting _ n \<Rightarrow> drop n (th_buffered s)
      | Th_LastYield n \<Rightarrow> drop n (th_buffered s)
      | Th_LastReset n \<Rightarrow> drop n (th_buffered s)
      | _ \<Rightarrow> th_buffered s)"

definition running_nodes :: "thumbnail_state \<Rightarrow> (nat \<times> string) list" where
  "running_nodes s = map (\<lambda>(i, nodeUid, _). (i, nodeUid)) (th_running s)"

lemma running_nodes_update [simp]:
  "running_nodes (s\<lparr>th_nodes := a\<rparr>) = running_nodes s" "running_nodes (s\<lparr>th_batch := b\<rparr>) = running_nodes s"
  "running_nodes (s\<lparr>th_phase := c\<rparr>) = running_nodes s" "running_nodes (s\<lparr>th_ongoing := d\<rparr>) = running_nodes s"
  "running_nodes (s\<lparr>th_buffered := e\<rparr>) = running_nodes s" "running_nodes (s\<lparr>th_yielded := e\<rparr>) = running_nodes s"
  "running_nodes (s\<lparr>th_dropped := e\<rparr>) = running_nodes s" "running_nodes (s\<lparr>th_settling := g\<rparr>) = running_nodes s"
  "running_nodes (s\<lparr>th_next := h\<rparr>) = running_nodes s"
  "running_nodes (s\<lparr>th_running := rs\<rparr>) = map (\<lambda>(i, nodeUid, _). (i, nodeUid)) rs"
  by (simp_all add: running_nodes_def)

definition thumbnails_listed :: "thumbnail_item list \<Rightarrow> string list" where
  "thumbnails_listed items = List.map_filter (\<lambda>(_, r). case r of Inr uid \<Rightarrow> Some uid | Inl _ \<Rightarrow> None) items"

definition th_places :: "string list \<Rightarrow> thumbnail_result list \<Rightarrow> thumbnail_state \<Rightarrow> string list" where
  "th_places pending unread s =
     map fst (th_nodes s) @ pending @ map snd (running_nodes s) @ map fst (unread @ th_yielded s @ th_dropped s)"

text \<open>What holds whatever the generator waits for.\<close>

definition th_core :: "thumbnail_item list \<Rightarrow> string list \<Rightarrow> thumbnail_result list \<Rightarrow> thumbnail_state \<Rightarrow> bool" where
  "th_core items pending unread s \<longleftrightarrow>
     mset (th_places pending unread s) = mset (map fst items)
     \<and> distinct (map fst (th_batch s) @ thumbnails_listed (th_nodes s))
     \<and> fst ` set (th_batch s) \<subseteq> set (thumbnails_listed items) \<and> set (thumbnails_listed (th_nodes s)) \<subseteq> set (thumbnails_listed items)
     \<and> '''' \<notin> snd ` set (th_batch s) \<and> '''' \<notin> fst ` set (th_nodes s)
     \<and> distinct (map fst (running_nodes s @ th_settling s)) \<and> (\<forall>i \<in> fst ` set (running_nodes s @ th_settling s). i < th_next s)
     \<and> distinct (map fst (th_ongoing s))
     \<and> mset (map prod.swap (th_ongoing s)) = mset (running_nodes s @ th_settling s)
     \<and> snd ` set (th_settling s) \<subseteq> fst ` set (unread @ th_yielded s @ th_dropped s)"

definition th_place_ok :: "thumbnail_state \<Rightarrow> bool" where
  "th_place_ok s \<longleftrightarrow>
     (case th_phase s of
        Th_Listing \<Rightarrow> length (th_batch s) < MAX_DOWNLOAD_THUMBNAILS \<and> length (th_ongoing s) < MAX_DOWNLOAD_THUMBNAILS
      | Th_Requesting final answers _ missing \<Rightarrow>
          distinct (map fst answers) \<and> distinct missing \<and> set missing \<subseteq> fst ` set (th_batch s)
          \<and> (\<forall>uid \<in> fst ` set answers. uid \<in> fst ` set (th_batch s) \<longrightarrow> uid \<in> set missing)
          \<and> length (th_ongoing s) + length missing < 2 * MAX_DOWNLOAD_THUMBNAILS \<and> (final \<longrightarrow> th_nodes s = [])
      | Th_Waiting final awaited \<Rightarrow>
          awaited \<noteq> [] \<and> length (th_ongoing s) < 2 * MAX_DOWNLOAD_THUMBNAILS
          \<and> length (th_batch s) < MAX_DOWNLOAD_THUMBNAILS \<and> (final \<longrightarrow> th_nodes s = [] \<and> th_batch s = [])
      | Th_Yielding final n \<Rightarrow>
          n \<le> length (th_buffered s) \<and> length (th_ongoing s) < 2 * MAX_DOWNLOAD_THUMBNAILS
          \<and> length (th_batch s) < MAX_DOWNLOAD_THUMBNAILS \<and> (final \<longrightarrow> th_nodes s = [] \<and> th_batch s = [])
      | Th_Resetting final n \<Rightarrow>
          n \<le> length (th_buffered s) \<and> length (th_ongoing s) < 2 * MAX_DOWNLOAD_THUMBNAILS
          \<and> length (th_batch s) < MAX_DOWNLOAD_THUMBNAILS \<and> (final \<longrightarrow> th_nodes s = [] \<and> th_batch s = [])
      | Th_LastYield n \<Rightarrow> n \<le> length (th_buffered s) \<and> th_nodes s = [] \<and> th_batch s = [] \<and> th_ongoing s = []
      | Th_LastReset n \<Rightarrow> n = length (th_buffered s) \<and> th_nodes s = [] \<and> th_batch s = [] \<and> th_ongoing s = []
      | Th_Done \<Rightarrow> th_nodes s = [] \<and> th_batch s = [] \<and> th_ongoing s = [] \<and> th_buffered s = []
      | Th_Threw _ \<Rightarrow> length (th_ongoing s) < 2 * MAX_DOWNLOAD_THUMBNAILS)"

definition th_inv :: "thumbnail_item list \<Rightarrow> thumbnail_state \<Rightarrow> bool" where
  "th_inv items s \<longleftrightarrow>
     (\<exists>pending. th_core items pending (th_unread s) s \<and> ((\<forall>error. th_phase s \<noteq> Th_Threw error) \<longrightarrow> pending = th_pending s))
     \<and> th_place_ok s"

lemma th_core_phase [simp]: "th_core items p u (s\<lparr>th_phase := ph\<rparr>) = th_core items p u s"
  by (simp add: th_core_def th_places_def)

lemma th_window_sel [simp]:
  "th_core items p u (th_window f s) = th_core items p u s"
  "th_unread (th_window f s) = th_buffered s" "th_pending (th_window f s) = map snd (th_batch s)"
  by (auto simp: th_window_def th_unread_def th_pending_def th_core_def th_places_def)

lemma window_inv:
  assumes "th_core items (map snd (th_batch s)) (th_buffered s) s" "length (th_ongoing s) < 2 * MAX_DOWNLOAD_THUMBNAILS"
    and "length (th_batch s) < MAX_DOWNLOAD_THUMBNAILS" "f \<Longrightarrow> th_nodes s = [] \<and> th_batch s = []"
  shows "th_inv items (th_window f s)"
  using assms by (auto simp: th_inv_def th_window_def th_place_ok_def th_unread_def th_pending_def)

lemma core_distinct:
  assumes "th_core items p u s" "distinct (map fst items)"
  shows "distinct (th_places p u s)"
proof -
  from assms(1) have "mset (th_places p u s) = mset (map fst items)" by (simp add: th_core_def)
  from mset_eq_imp_distinct_iff[OF this] assms(2) show ?thesis by simp
qed

text \<open>A request for listed thumbnails answers none of them twice.\<close>

definition answers_once ::
  "(string \<Rightarrow> string list \<Rightarrow> thrown + thumbnails_response) \<Rightarrow> thumbnail_item list \<Rightarrow> bool"
where
  "answers_once post items \<longleftrightarrow>
     (\<forall>uids. distinct uids \<longrightarrow> set uids \<subseteq> set (thumbnails_listed items) \<longrightarrow>
        distinct (map fst (fst (api_iterateThumbnails post uids))))"

lemma request_inv:
  assumes once: "answers_once post items" and core: "th_core items (map snd (th_batch s)) (th_buffered s) s"
    and sizes: "length (th_ongoing s) < MAX_DOWNLOAD_THUMBNAILS" "length (th_batch s) \<le> MAX_DOWNLOAD_THUMBNAILS"
    and final: "f \<Longrightarrow> th_nodes s = []"
  shows "th_inv items (th_request post f s)"
proof (cases "th_batch s = []")
  case True
  with assms show ?thesis by (auto simp: th_request_def MAX_DOWNLOAD_THUMBNAILS_def intro!: window_inv)
next
  case False
  obtain answers e where a: "api_iterateThumbnails post (map fst (th_batch s)) = (answers, e)" by fastforce
  have d: "distinct (map fst (th_batch s))" and "set (map fst (th_batch s)) \<subseteq> set (thumbnails_listed items)"
    using core by (simp_all add: th_core_def)
  then have "distinct (map fst (fst (api_iterateThumbnails post (map fst (th_batch s)))))"
    using once unfolding answers_once_def by blast
  then have "distinct (map fst answers)" by (simp add: a)
  moreover have "map ((\<lambda>uid. the (map_of (th_batch s) uid)) \<circ> fst) (th_batch s) = map snd (th_batch s)"
    using d by auto
  ultimately show ?thesis
    using False a core sizes final d
    by (auto simp: th_request_def th_inv_def th_place_ok_def th_pending_def th_unread_def simp del: map_eq_conv)
qed

lemma thumbnails_listed_simps [simp]:
  "thumbnails_listed [] = []"
  "thumbnails_listed ((n, Inr u) # items) = u # thumbnails_listed items"
  "thumbnails_listed ((n, Inl e) # items) = thumbnails_listed items"
  by (simp_all add: thumbnails_listed_def List.map_filter_simps)

lemma list_inv:
  assumes once: "answers_once post items" and inv: "th_inv items s" and phase: "th_phase s = Th_Listing"
  shows "th_inv items (th_list post s)"
proof -
  have core: "th_core items (map snd (th_batch s)) (th_buffered s) s"
    and sizes: "length (th_batch s) < MAX_DOWNLOAD_THUMBNAILS" "length (th_ongoing s) < MAX_DOWNLOAD_THUMBNAILS"
    using inv phase by (simp_all add: th_inv_def th_place_ok_def th_pending_def th_unread_def)
  show ?thesis
  proof (cases "th_nodes s")
    case Nil
    show ?thesis
    proof (cases "th_nodes_fail s")
      case None
      with Nil sizes show ?thesis by (auto simp: th_list_def intro: request_inv[OF once core])
    next
      case (Some error)
      with Nil core sizes show ?thesis
        by (auto simp: th_list_def th_inv_def th_place_ok_def th_pending_def th_unread_def)
    qed
  next
    case (Cons item nodes)
    obtain nodeUid r where item: "item = (nodeUid, r)" by (cases item)
    show ?thesis
    proof (cases r)
      case (Inl error)
      with Cons item core sizes phase show ?thesis
        by (auto simp: th_list_def th_inv_def th_place_ok_def th_pending_def th_unread_def th_core_def th_places_def)
    next
      case (Inr uid)
      define s' where "s' = s\<lparr>th_nodes := nodes, th_batch := AList.update uid nodeUid (th_batch s)\<rparr>"
      have fresh: "uid \<notin> fst ` set (th_batch s)" using core Cons item Inr by (auto simp: th_core_def)
      have core': "th_core items (map snd (th_batch s')) (th_buffered s') s'"
        using core Cons item Inr
        by (auto simp: s'_def update_fresh[OF fresh] th_core_def th_places_def)
      have sizes': "length (th_batch s') \<le> MAX_DOWNLOAD_THUMBNAILS" "th_ongoing s' = th_ongoing s"
        using sizes by (simp_all add: s'_def update_fresh[OF fresh])
      have "th_list post s = (if MAX_DOWNLOAD_THUMBNAILS \<le> length (th_batch s') then th_request post False s' else th_window False s')"
        using Cons item Inr by (simp add: th_list_def s'_def Let_def)
      then show ?thesis
        using request_inv[OF once core'] window_inv[OF core'] sizes sizes' by (auto simp: MAX_DOWNLOAD_THUMBNAILS_def)
    qed
  qed
qed

lemma report_core:
  "th_core items (nodeUid # pending) unread s \<Longrightarrow> th_core items pending (unread @ [(nodeUid, Inl error)]) (th_report nodeUid error s)"
  by (auto simp: th_core_def th_places_def th_report_def)

lemma core_pending_order: "mset p = mset p' \<Longrightarrow> th_core items p u s = th_core items p' u s"
  by (simp add: th_core_def th_places_def)

lemma start_core:
  assumes core: "th_core items (nodeUid # pending) (th_buffered s) s" and items: "distinct (map fst items)"
  shows "th_core items pending (th_buffered s) (th_start nodeUid bareUrl token s)"
    and "length (th_ongoing (th_start nodeUid bareUrl token s)) = Suc (length (th_ongoing s))"
proof -
  have d: "nodeUid \<notin> set (map snd (running_nodes s))" "nodeUid \<notin> fst ` set (th_buffered s @ th_yielded s @ th_dropped s)"
    using core_distinct[OF core items] by (auto simp: th_places_def)
  note parts = core[unfolded th_core_def]
  have "image_mset prod.swap (mset (th_ongoing s)) = mset (running_nodes s @ th_settling s)" using parts by simp
  then have "prod.swap ` set (th_ongoing s) = set (running_nodes s @ th_settling s)"
    by (metis set_image_mset set_mset_mset)
  then have "fst ` set (th_ongoing s) = snd ` set (running_nodes s @ th_settling s)"
    by (metis (no_types, lifting) fst_swap image_cong image_image snd_swap swap_swap)
  moreover have "nodeUid \<notin> snd ` set (th_settling s)" using parts d(2) by blast
  ultimately have fresh: "nodeUid \<notin> fst ` set (th_ongoing s)" using d(1) by auto
  have new: "running_nodes (th_start nodeUid bareUrl token s) = running_nodes s @ [(th_next s, nodeUid)]"
    by (simp add: th_start_def running_nodes_def)
  have places: "mset (th_places pending (th_buffered s) (th_start nodeUid bareUrl token s)) = mset (map fst items)"
    using parts new by (simp add: th_places_def) (simp add: th_start_def)
  have less: "i < th_next s" if "i \<in> fst ` set (running_nodes s @ th_settling s)" for i
    using parts that by blast
  then have "th_next s \<notin> fst ` set (running_nodes s)" "th_next s \<notin> fst ` set (th_settling s)"
    by (metis UnCI image_Un less_irrefl set_append)+
  with parts have ids: "distinct (map fst ((running_nodes s @ [(th_next s, nodeUid)]) @ th_settling s))"
    by auto
  have le: "\<forall>i \<in> fst ` set ((running_nodes s @ [(th_next s, nodeUid)]) @ th_settling s). i < Suc (th_next s)"
    using less by (fastforce intro: less_SucI)
  show "th_core items pending (th_buffered s) (th_start nodeUid bareUrl token s)"
    unfolding th_core_def new using parts ids le fresh places
    by (simp add: th_start_def update_fresh[OF fresh])
  show "length (th_ongoing (th_start nodeUid bareUrl token s)) = Suc (length (th_ongoing s))"
    by (simp add: th_start_def update_fresh[OF fresh])
qed

lemma map_of_batch:
  assumes "distinct (map fst (th_batch s))" "uid \<in> fst ` set (th_batch s)"
  obtains nodeUid where "map_of (th_batch s) uid = Some nodeUid" "(uid, nodeUid) \<in> set (th_batch s)"
  using assms by force

lemma remove1_pending:
  "uid \<in> set missing \<Longrightarrow> distinct missing \<Longrightarrow>
     mset (map f missing) = mset (f uid # map f (remove1 uid missing))"
  by (induction missing) auto

lemma answer_inv:
  assumes inv: "th_inv items s" and phase: "th_phase s = Th_Requesting final answers e missing"
    and items: "distinct (map fst items)"
  shows "th_inv items (th_answer final answers e missing s)"
proof -
  let ?node = "\<lambda>uid. the (map_of (th_batch s) uid)"
  have core: "th_core items (map ?node missing) (th_buffered s) s"
    and a: "distinct (map fst answers)" "distinct missing" "set missing \<subseteq> fst ` set (th_batch s)"
      "\<And>uid. uid \<in> fst ` set answers \<Longrightarrow> uid \<in> fst ` set (th_batch s) \<Longrightarrow> uid \<in> set missing"
      "length (th_ongoing s) + length missing < 2 * MAX_DOWNLOAD_THUMBNAILS" "final \<Longrightarrow> th_nodes s = []"
    using inv phase by (auto simp: th_inv_def th_place_ok_def th_pending_def th_unread_def)
  have d: "distinct (map fst (th_batch s))" "'''' \<notin> snd ` set (th_batch s)" using core by (simp_all add: th_core_def)
  show ?thesis
  proof (cases answers)
    case (Cons p rest)
    obtain uid answer where p: "p = (uid, answer)" by (cases p)
    show ?thesis
    proof (cases "uid \<in> fst ` set (th_batch s)")
      case False
      then have "map_of (th_batch s) uid = None" by (simp add: map_of_eq_None_iff)
      with Cons p a core show ?thesis
        by (auto simp: th_answer_def present_def th_inv_def th_place_ok_def th_pending_def th_unread_def)
    next
      case True
      then have missing: "uid \<in> set missing" using a(4) Cons p by simp
      obtain nodeUid where n: "map_of (th_batch s) uid = Some nodeUid" "(uid, nodeUid) \<in> set (th_batch s)"
        using map_of_batch[OF d(1) True] .
      then have named: "present (map_of (th_batch s) uid) = Some nodeUid"
        using d(2) by (auto simp: present_def image_iff split: list.split)
      define rem where "rem = remove1 uid missing"
      define s' where "s' = s\<lparr>th_phase := Th_Requesting final rest e rem\<rparr>"
      have "th_core items (nodeUid # map ?node rem) (th_buffered s) s"
        using core core_pending_order[OF remove1_pending[OF missing a(2), of ?node]] n by (simp add: rem_def)
      then have core': "th_core items (nodeUid # map ?node rem) (th_buffered s') s'" by (simp add: s'_def)
      have ok: "distinct (map fst rest)" "distinct rem" "set rem \<subseteq> fst ` set (th_batch s)"
        "\<forall>u \<in> fst ` set rest. u \<in> fst ` set (th_batch s) \<longrightarrow> u \<in> set rem"
        "length (th_ongoing s) + Suc (length rem) < 2 * MAX_DOWNLOAD_THUMBNAILS"
        using a Cons p missing length_pos_if_in_set[OF missing]
        by (auto simp: rem_def length_remove1 dest: in_set_remove1[THEN iffD1])
      show ?thesis
      proof (cases answer)
        case (Inl error)
        then have run: "th_answer final answers e missing s = th_report nodeUid error s'"
          using Cons p named by (simp add: th_answer_def s'_def rem_def)
        show ?thesis
          unfolding run using report_core[OF core'] ok a(6)
          by (auto simp: th_inv_def th_place_ok_def th_pending_def th_unread_def th_report_def s'_def)
      next
        case (Inr link)
        obtain url token where link: "link = (url, token)" by (cases link)
        then have run: "th_answer final answers e missing s = th_start nodeUid url token s'"
          using Cons p named Inr by (simp add: th_answer_def s'_def rem_def)
        note start = start_core[OF core' items, of url token]
        have "th_phase (th_start nodeUid url token s') = Th_Requesting final rest e rem"
          "th_batch (th_start nodeUid url token s') = th_batch s" "th_nodes (th_start nodeUid url token s') = th_nodes s"
          "th_buffered (th_start nodeUid url token s') = th_buffered s'" "th_ongoing s' = th_ongoing s"
          by (simp_all add: th_start_def s'_def)
        then show ?thesis
          unfolding run th_inv_def th_place_ok_def th_pending_def th_unread_def using start ok a(6) by simp
      qed
    qed
  next
    case Nil
    show ?thesis
    proof (cases e)
      case (Some error)
      with Nil core a(5) show ?thesis
        by (auto simp: th_answer_def th_inv_def th_place_ok_def th_unread_def)
    next
      case None
      show ?thesis
      proof (cases missing)
        case Nil
        with \<open>answers = []\<close> None have run: "th_answer final answers e missing s = th_window final (s\<lparr>th_batch := []\<rparr>)"
          by (simp add: th_answer_def)
        have "th_core items [] (th_buffered s) (s\<lparr>th_batch := []\<rparr>)"
          using core Nil by (auto simp: th_core_def th_places_def)
        with a Nil show ?thesis unfolding run by (intro window_inv) (auto simp: MAX_DOWNLOAD_THUMBNAILS_def)
      next
        case (Cons uid rest)
        obtain nodeUid where n: "map_of (th_batch s) uid = Some nodeUid"
          using map_of_batch[OF d(1), of uid] a(3) Cons by auto
        define s' where "s' = s\<lparr>th_phase := Th_Requesting final [] None rest\<rparr>"
        have run: "th_answer final answers e missing s = th_report nodeUid ''Thumbnail not found'' s'"
          using \<open>answers = []\<close> None Cons n by (simp add: th_answer_def s'_def)
        have "th_core items (nodeUid # map ?node rest) (th_buffered s') s'"
          using core Cons n by (simp add: s'_def)
        from report_core[OF this] show ?thesis
          unfolding run using a Cons
          by (auto simp: th_inv_def th_place_ok_def th_pending_def th_unread_def th_report_def s'_def)
      qed
    qed
  qed
qed

lemma yield_core:
  "th_core items p (x # u) s \<Longrightarrow> th_core items p u (s\<lparr>th_yielded := th_yielded s @ [x]\<rparr>)"
  by (auto simp: th_core_def th_places_def)

lemma reset_core: "th_core items p (drop n (th_buffered s)) s \<Longrightarrow> th_core items p [] (th_reset n s)"
  by (auto simp: th_core_def th_places_def th_reset_def) (simp add: ac_simps)

lemma yield_inv:
  assumes core: "th_core items (map snd (th_batch s)) (drop n (th_buffered s)) s" and n: "n \<le> length (th_buffered s)"
    and more: "\<And>u. th_core items (map snd (th_batch s)) (drop (n + 1) (th_buffered s)) u \<Longrightarrow> n < length (th_buffered s) \<Longrightarrow>
      u = s\<lparr>th_yielded := th_yielded s @ [th_buffered s ! n]\<rparr> \<Longrightarrow> th_inv items (u\<lparr>th_phase := again (n + 1)\<rparr>)"
    and stop: "n = length (th_buffered s) \<Longrightarrow> th_inv items (s\<lparr>th_phase := over n\<rparr>)"
  shows "th_inv items (th_yield again over n s)"
proof (cases "n < length (th_buffered s)")
  case True
  then have "drop n (th_buffered s) = th_buffered s ! n # drop (n + 1) (th_buffered s)" by (simp add: Cons_nth_drop_Suc)
  with core have "th_core items (map snd (th_batch s)) (drop (n + 1) (th_buffered s))
      (s\<lparr>th_yielded := th_yielded s @ [th_buffered s ! n]\<rparr>)" by (simp add: yield_core)
  from more[OF this True refl] True show ?thesis by (simp add: th_yield_def)
next
  case False
  with n stop show ?thesis by (simp add: th_yield_def)
qed

lemma nothing_runs:
  assumes "th_core items p u s" "th_ongoing s = []"
  shows "th_running s = []" "th_settling s = []"
  using assms by (auto simp: th_core_def running_nodes_def)

lemma settle_core:
  assumes core: "th_core items p u s" and run: "th_running s = before @ (i, nodeUid, bareUrl, token) # after"
  shows "th_core items p (u @ [(nodeUid, r)]) (s\<lparr>th_running := before @ after, th_settling := th_settling s @ [(i, nodeUid)],
      th_buffered := b\<rparr>)"
  using core run by (auto simp: th_core_def th_places_def running_nodes_def)

lemma settle_unread:
  assumes inv: "th_inv items s" and run: "th_running s = before @ (i, nodeUid, bareUrl, token) # after"
  shows "th_ongoing s \<noteq> []"
    and "th_unread (s\<lparr>th_running := before @ after, th_settling := th_settling s @ [(i, nodeUid)],
      th_buffered := th_buffered s @ [(nodeUid, r)]\<rparr>) = th_unread s @ [(nodeUid, r)]"
proof -
  show going: "th_ongoing s \<noteq> []" using inv nothing_runs(1) run by (fastforce simp: th_inv_def)
  show "th_unread (s\<lparr>th_running := before @ after, th_settling := th_settling s @ [(i, nodeUid)],
      th_buffered := th_buffered s @ [(nodeUid, r)]\<rparr>) = th_unread s @ [(nodeUid, r)]"
    using inv going by (auto simp: th_inv_def th_unread_def th_place_ok_def split: thumbnail_phase.splits)
qed

lemma settle_inv:
  assumes inv: "th_inv items s" and run: "th_running s = before @ (i, nodeUid, bareUrl, token) # after"
  shows "th_inv items (s\<lparr>th_running := before @ after, th_settling := th_settling s @ [(i, nodeUid)],
      th_buffered := th_buffered s @ [(nodeUid, r)]\<rparr>)"
proof -
  obtain p where core: "th_core items p (th_unread s) s"
    and p: "(\<forall>error. th_phase s \<noteq> Th_Threw error) \<longrightarrow> p = th_pending s" and place: "th_place_ok s"
    using inv by (auto simp: th_inv_def)
  note going = settle_unread(1)[OF inv run]
  let ?s = "s\<lparr>th_running := before @ after, th_settling := th_settling s @ [(i, nodeUid)],
      th_buffered := th_buffered s @ [(nodeUid, r)]\<rparr>"
  have "th_core items p (th_unread ?s) ?s" unfolding settle_unread(2)[OF inv run] using settle_core[OF core run] .
  moreover have "th_pending ?s = th_pending s" by (simp add: th_pending_def cong: thumbnail_phase.case_cong)
  moreover have "th_place_ok ?s"
    using place going by (auto simp: th_place_ok_def split: thumbnail_phase.splits)
  ultimately show ?thesis using p by (auto simp: th_inv_def)
qed

lemma leave_core:
  assumes core: "th_core items p u s" and leaving: "th_settling s = before @ (i, nodeUid) # after"
  shows "th_core items p u (s\<lparr>th_settling := before @ after, th_ongoing := AList.delete nodeUid (th_ongoing s)\<rparr>)"
proof -
  note parts = core[unfolded th_core_def]
  have "(i, nodeUid) \<in># mset (running_nodes s @ th_settling s)" by (simp add: leaving)
  then have "(i, nodeUid) \<in># mset (map prod.swap (th_ongoing s))" using parts by metis
  then have "(nodeUid, i) \<in> set (th_ongoing s)" by auto
  from mset_delete[OF _ this] parts
  have "mset (map prod.swap (AList.delete nodeUid (th_ongoing s))) = mset (running_nodes s @ before @ after)"
    by (simp add: leaving)
  moreover have "distinct (map fst (AList.delete nodeUid (th_ongoing s)))" using parts by (simp add: distinct_delete)
  ultimately show ?thesis using parts by (auto simp: leaving th_core_def th_places_def)
qed

lemma leave_inv:
  assumes inv: "th_inv items s" and leaving: "th_settling s = before @ (i, nodeUid) # after"
  shows "th_inv items (s\<lparr>th_settling := before @ after, th_ongoing := AList.delete nodeUid (th_ongoing s)\<rparr>)"
    (is "th_inv items ?s")
proof -
  obtain p where core: "th_core items p (th_unread s) s"
    and p: "(\<forall>error. th_phase s \<noteq> Th_Threw error) \<longrightarrow> p = th_pending s" and place: "th_place_ok s"
    using inv by (auto simp: th_inv_def)
  have "th_unread ?s = th_unread s" "th_pending ?s = th_pending s"
    by (simp_all add: th_unread_def th_pending_def cong: thumbnail_phase.case_cong)
  moreover have "length (AList.delete nodeUid (th_ongoing s)) \<le> length (th_ongoing s)" by (rule length_delete_le)
  then have "th_place_ok ?s"
    using place by (auto simp: th_place_ok_def split: thumbnail_phase.splits)
  ultimately show ?thesis using p leave_core[OF core leaving] by (auto simp: th_inv_def)
qed

lemma th_inv_step:
  assumes step: "th_step post outcome s s'" and once: "answers_once post items" and items: "distinct (map fst items)"
    and inv: "th_inv items s"
  shows "th_inv items s'"
  using step
proof cases
  case listing
  with once inv show ?thesis by (simp add: list_inv)
next
  case (answering final answers e missing)
  with inv items show ?thesis by (simp add: answer_inv)
next
  case (waking final awaited i)
  with inv show ?thesis by (auto simp: th_inv_def th_place_ok_def th_pending_def th_unread_def)
next
  case (yielding final n)
  then have "th_core items (map snd (th_batch s)) (drop n (th_buffered s)) s" "n \<le> length (th_buffered s)"
    using inv by (auto simp: th_inv_def th_place_ok_def th_pending_def th_unread_def)
  then show ?thesis
    unfolding yielding(1)
    by (rule yield_inv) (use inv yielding in \<open>auto simp: th_inv_def th_place_ok_def th_pending_def th_unread_def\<close>)
next
  case (resetting final n)
  then have "th_core items (map snd (th_batch s)) (drop n (th_buffered s)) s"
    using inv by (auto simp: th_inv_def th_pending_def th_unread_def)
  from reset_core[OF this] have "th_core items (map snd (th_batch (th_reset n s))) (th_buffered (th_reset n s)) (th_reset n s)"
    by (simp add: th_reset_def)
  then show ?thesis
    unfolding resetting(1) by (rule window_inv) (use inv resetting in \<open>auto simp: th_inv_def th_place_ok_def th_reset_def\<close>)
next
  case (last_yield n)
  then have "th_core items (map snd (th_batch s)) (drop n (th_buffered s)) s" "n \<le> length (th_buffered s)"
    using inv by (auto simp: th_inv_def th_place_ok_def th_pending_def th_unread_def)
  then show ?thesis
    unfolding last_yield(1)
    by (rule yield_inv) (use inv last_yield in \<open>auto simp: th_inv_def th_place_ok_def th_pending_def th_unread_def\<close>)
next
  case (last_reset n)
  then have "th_core items (map snd (th_batch s)) (drop n (th_buffered s)) s"
    using inv by (auto simp: th_inv_def th_pending_def th_unread_def)
  from reset_core[OF this] inv last_reset show ?thesis
    by (auto simp: th_inv_def th_place_ok_def th_pending_def th_unread_def th_reset_def)
next
  case (settling before i nodeUid bareUrl token after)
  with inv show ?thesis by (simp add: settle_inv)
next
  case (leaving before i nodeUid after)
  with inv show ?thesis by (simp add: leave_inv)
qed

definition good_items :: "thumbnail_item list \<Rightarrow> bool" where
  "good_items items \<longleftrightarrow> distinct (map fst items) \<and> distinct (thumbnails_listed items) \<and> '''' \<notin> fst ` set items"

lemma th_inv_reach:
  assumes reach: "(th_step post outcome)\<^sup>*\<^sup>* (th_init thumbnailType nodeUids nodes fails) s" and once: "answers_once post (iterateThumbnailUids thumbnailType nodes)"
    and items: "good_items (iterateThumbnailUids thumbnailType nodes)" and asked: "nodeUids \<noteq> []"
  shows "th_inv (iterateThumbnailUids thumbnailType nodes) s"
  using reach
proof (induction rule: rtranclp_induct)
  case base
  show ?case
    using items asked
    by (auto simp: good_items_def th_inv_def th_core_def th_places_def th_place_ok_def th_pending_def th_unread_def th_init_def
        running_nodes_def MAX_DOWNLOAD_THUMBNAILS_def)
next
  case (step s s')
  with once items show ?case by (auto simp: good_items_def intro: th_inv_step)
qed

section \<open>What is reported\<close>

text \<open>The API answered \<open>bareUrl\<close> and \<open>token\<close> for the thumbnail of the node.\<close>

definition linked ::
  "(string \<Rightarrow> string list \<Rightarrow> thrown + thumbnails_response) \<Rightarrow> thumbnail_item list \<Rightarrow> string \<Rightarrow> string \<Rightarrow> string \<Rightarrow> bool"
where
  "linked post items nodeUid bareUrl token \<longleftrightarrow>
     (\<exists>uid uids. (nodeUid, Inr uid) \<in> set items \<and> (uid, Inr (bareUrl, token)) \<in> set (fst (api_iterateThumbnails post uids)))"

definition th_results :: "thumbnail_state \<Rightarrow> thumbnail_result set" where
  "th_results s = set (th_buffered s) \<union> set (th_yielded s) \<union> set (th_dropped s)"

definition th_true ::
  "(string \<Rightarrow> string list \<Rightarrow> thrown + thumbnails_response) \<Rightarrow> (nat \<Rightarrow> string \<Rightarrow> string \<Rightarrow> string \<Rightarrow> thrown + bytes) \<Rightarrow>
     thumbnail_item list \<Rightarrow> thumbnail_state \<Rightarrow> bool"
where
  "th_true post outcome items s \<longleftrightarrow>
     set (th_nodes s) \<subseteq> set items
     \<and> (\<forall>uid nodeUid. (uid, nodeUid) \<in> set (th_batch s) \<longrightarrow> (nodeUid, Inr uid) \<in> set items)
     \<and> (\<forall>final answers e missing. th_phase s = Th_Requesting final answers e missing \<longrightarrow>
          (\<exists>uids. set answers \<subseteq> set (fst (api_iterateThumbnails post uids))))
     \<and> (\<forall>i nodeUid url token. (i, nodeUid, url, token) \<in> set (th_running s) \<longrightarrow> linked post items nodeUid url token)
     \<and> (\<forall>nodeUid t. (nodeUid, Inr t) \<in> th_results s \<longrightarrow>
          (\<exists>i url token. linked post items nodeUid url token \<and> outcome i nodeUid url token = Inr t))"

lemma true_phase:
  "th_true post outcome items s \<Longrightarrow> (\<And>b a e m. ph = Th_Requesting b a e m \<Longrightarrow> \<exists>uids. set a \<subseteq> set (fst (api_iterateThumbnails post uids))) \<Longrightarrow>
     th_true post outcome items (s\<lparr>th_phase := ph\<rparr>)"
  by (simp add: th_true_def th_results_def)

lemma true_window: "th_true post outcome items s \<Longrightarrow> th_true post outcome items (th_window f s)"
  unfolding th_window_def by (rule true_phase) (auto split: if_splits)

lemma true_request: "th_true post outcome items s \<Longrightarrow> th_true post outcome items (th_request post f s)"
  unfolding th_request_def by (auto intro!: true_window true_phase exI[of _ "map fst (th_batch s)"] split: prod.split)

lemma true_phases:
  "th_true post outcome items s \<Longrightarrow> th_true post outcome items (s\<lparr>th_phase := Th_Threw t\<rparr>)"
  "th_true post outcome items s \<Longrightarrow> th_true post outcome items (s\<lparr>th_phase := Th_Done\<rparr>)"
  "th_true post outcome items s \<Longrightarrow> th_true post outcome items (s\<lparr>th_phase := Th_Yielding f n\<rparr>)"
  by (rule true_phase; simp)+

lemma in_alist_update: "(u, n) \<in> set (AList.update k v al) \<Longrightarrow> (u, n) = (k, v) \<or> (u, n) \<in> set al"
  by (induction al) (auto split: if_splits)

lemma true_list:
  assumes "th_true post outcome items s"
  shows "th_true post outcome items (th_list post s)"
proof (cases "th_nodes s")
  case Nil
  with assms show ?thesis by (auto simp: th_list_def true_request true_phases split: option.split)
next
  case (Cons item nodes)
  obtain nodeUid r where item: "item = (nodeUid, r)" by (cases item)
  show ?thesis
  proof (cases r)
    case (Inl error)
    with Cons item assms show ?thesis by (auto simp: th_list_def th_true_def th_results_def)
  next
    case (Inr uid)
    have "th_true post outcome items (s\<lparr>th_nodes := nodes, th_batch := AList.update uid nodeUid (th_batch s)\<rparr>)"
      using assms Cons item Inr by (auto simp: th_true_def th_results_def dest!: in_alist_update)
    with Cons item Inr show ?thesis by (auto simp: th_list_def Let_def true_request true_window)
  qed
qed

lemma true_answer:
  assumes true: "th_true post outcome items s" and phase: "th_phase s = Th_Requesting final answers e missing"
  shows "th_true post outcome items (th_answer final answers e missing s)"
proof (cases answers)
  case Nil
  have report: "th_true post outcome items (th_report n t (s\<lparr>th_phase := Th_Requesting final [] None rest\<rparr>))" for n t rest
    using true by (auto simp: th_true_def th_results_def th_report_def)
  have "th_true post outcome items (s\<lparr>th_batch := []\<rparr>)" using true by (simp add: th_true_def th_results_def)
  with Nil report true show ?thesis
    by (auto simp: th_answer_def true_window true_phases split: option.split list.split)
next
  case (Cons p rest)
  obtain uid answer where p: "p = (uid, answer)" by (cases p)
  obtain uids where uids: "set answers \<subseteq> set (fst (api_iterateThumbnails post uids))"
    using true phase unfolding th_true_def by blast
  have rest: "th_true post outcome items (s\<lparr>th_phase := Th_Requesting final rest e m\<rparr>)" for m
    using true by (rule true_phase) (use uids Cons in auto)
  show ?thesis
  proof (cases "present (map_of (th_batch s) uid)")
    case None
    with Cons p rest show ?thesis by (simp add: th_answer_def)
  next
    case (Some nodeUid)
    then have "(uid, nodeUid) \<in> set (th_batch s)" by (auto simp: present_def dest: map_of_SomeD split: option.splits list.splits)
    then have item: "(nodeUid, Inr uid) \<in> set items" using true by (simp add: th_true_def)
    show ?thesis
    proof (cases answer)
      case (Inl error)
      with Cons p Some rest[of "remove1 uid missing"] show ?thesis
        by (auto simp: th_answer_def Let_def th_report_def th_true_def th_results_def)
    next
      case (Inr link)
      obtain url token where link: "link = (url, token)" by (cases link)
      have "linked post items nodeUid url token"
        unfolding linked_def using item uids Cons p Inr link by force
      with Cons p Some Inr link rest[of "remove1 uid missing"] show ?thesis
        by (auto simp: th_answer_def Let_def th_start_def th_true_def th_results_def)
    qed
  qed
qed

lemma true_yield:
  "th_true post outcome items s \<Longrightarrow> (\<And>n b a e m. again n \<noteq> Th_Requesting b a e m \<and> over n \<noteq> Th_Requesting b a e m) \<Longrightarrow>
     th_true post outcome items (th_yield again over n s)"
  by (auto simp: th_yield_def th_true_def th_results_def)

lemma true_reset: "th_true post outcome items s \<Longrightarrow> th_true post outcome items (th_reset n s)"
  by (auto simp: th_reset_def th_true_def th_results_def dest: in_set_dropD)

lemma th_true_step:
  assumes step: "th_step post outcome s s'" and true: "th_true post outcome items s"
  shows "th_true post outcome items s'"
  using step
proof cases
  case (settling before i nodeUid bareUrl token after)
  then have "linked post items nodeUid bareUrl token" using true unfolding th_true_def by (metis in_set_conv_decomp)
  with true settling show ?thesis
    by (auto simp: th_true_def th_results_def th_result_def split: sum.splits)
next
  case (leaving before i nodeUid after)
  with true show ?thesis by (simp add: th_true_def th_results_def)
qed (use true in \<open>auto intro!: true_list true_answer true_yield true_window true_reset true_phases\<close>)

lemma th_true_reach:
  "(th_step post outcome)\<^sup>*\<^sup>* (th_init thumbnailType nodeUids nodes fails) s \<Longrightarrow>
     th_true post outcome (iterateThumbnailUids thumbnailType nodes) s"
proof (induction rule: rtranclp_induct)
  case base
  show ?case by (simp add: th_true_def th_init_def th_results_def)
next
  case (step s s')
  then show ?case by (blast intro: th_true_step)
qed

text \<open>A run in which no download reports between the end of the buffer and its reset.\<close>

definition undisturbed ::
  "(string \<Rightarrow> string list \<Rightarrow> thrown + thumbnails_response) \<Rightarrow> (nat \<Rightarrow> string \<Rightarrow> string \<Rightarrow> string \<Rightarrow> thrown + bytes) \<Rightarrow>
     thumbnail_state \<Rightarrow> thumbnail_state \<Rightarrow> bool"
where
  "undisturbed post outcome s s' \<longleftrightarrow>
     th_step post outcome s s' \<and> (\<forall>final n. th_phase s = Th_Resetting final n \<longrightarrow> th_running s' = th_running s)"

definition nothing_lost :: "thumbnail_state \<Rightarrow> bool" where
  "nothing_lost s \<longleftrightarrow> th_dropped s = [] \<and> (\<forall>final n. th_phase s = Th_Resetting final n \<longrightarrow> length (th_buffered s) \<le> n)"

lemma nothing_lost_phases [simp]:
  "nothing_lost (th_window f s) \<longleftrightarrow> th_dropped s = []"
  "th_dropped (th_window f s) = th_dropped s" "th_dropped (th_request post f s) = th_dropped s"
  "th_phase (th_window f s) \<noteq> Th_Resetting g n" "th_phase (th_request post f s) \<noteq> Th_Resetting g n"
  "nothing_lost (th_request post f s) \<longleftrightarrow> th_dropped s = []"
  by (auto simp: nothing_lost_def th_window_def th_request_def split: prod.splits)

lemma nothing_lost_list: "th_dropped s = [] \<Longrightarrow> th_phase s = Th_Listing \<Longrightarrow> nothing_lost (th_list post s)"
  by (auto simp: th_list_def Let_def nothing_lost_def split: list.split option.split sum.split)

lemma nothing_lost_answer:
  "th_dropped s = [] \<Longrightarrow> th_phase s = Th_Requesting final answers e missing \<Longrightarrow> nothing_lost (th_answer final answers e missing s)"
  by (auto simp: th_answer_def Let_def nothing_lost_def th_report_def th_start_def th_window_def
      split: list.split option.split sum.split prod.split)

lemma nothing_lost_step:
  assumes step: "undisturbed post outcome s s'" and kept: "nothing_lost s" and inv: "th_inv items s"
  shows "nothing_lost s'"
proof -
  have step': "th_step post outcome s s'" and quiet: "\<And>f n. th_phase s = Th_Resetting f n \<Longrightarrow> th_running s' = th_running s"
    using step by (auto simp: undisturbed_def)
  have dropped: "th_dropped s = []" using kept by (simp add: nothing_lost_def)
  from step' show ?thesis
  proof cases
    case listing
    with dropped show ?thesis by (simp add: nothing_lost_list)
  next
    case (answering final answers e missing)
    with dropped show ?thesis by (simp add: nothing_lost_answer)
  next
    case (settling before i nodeUid bareUrl token after)
    have "\<not> (\<exists>f n. th_phase s = Th_Resetting f n)"
    proof
      assume "\<exists>f n. th_phase s = Th_Resetting f n"
      then have "th_running s' = th_running s" using quiet by blast
      with settling show False by simp
    qed
    with settling dropped show ?thesis by (simp add: nothing_lost_def)
  next
    case (last_reset n)
    then have "n = length (th_buffered s)" using inv by (simp add: th_inv_def th_place_ok_def)
    with last_reset dropped show ?thesis by (simp add: nothing_lost_def th_reset_def)
  qed (use kept in \<open>auto simp: nothing_lost_def th_yield_def th_reset_def th_window_def\<close>)
qed

lemma undisturbed_reach:
  assumes reach: "(undisturbed post outcome)\<^sup>*\<^sup>* (th_init thumbnailType nodeUids nodes fails) s" and once: "answers_once post (iterateThumbnailUids thumbnailType nodes)"
    and items: "good_items (iterateThumbnailUids thumbnailType nodes)" and asked: "nodeUids \<noteq> []"
  shows "nothing_lost s"
proof -
  have "(th_step post outcome)\<^sup>*\<^sup>* (th_init thumbnailType nodeUids nodes fails) s \<and> nothing_lost s"
    using reach
  proof (induction rule: rtranclp_induct)
    case base
    show ?case by (simp add: nothing_lost_def th_init_def)
  next
    case (step s s')
    then have "th_inv (iterateThumbnailUids thumbnailType nodes) s" using th_inv_reach once items asked by blast
    with step show ?case
      by (meson nothing_lost_step rtranclp.rtrancl_into_rtrancl undisturbed_def)
  qed
  then show ?thesis ..
qed

section \<open>The listing ends\<close>

fun th_lists :: "thumbnail_phase \<Rightarrow> bool" where
  "th_lists Th_Listing = True"
| "th_lists (Th_Requesting final _ _ _) = (\<not> final)"
| "th_lists (Th_Waiting final _) = (\<not> final)"
| "th_lists (Th_Yielding final _) = (\<not> final)"
| "th_lists (Th_Resetting final _) = (\<not> final)"
| "th_lists _ = False"

fun th_answers :: "thumbnail_phase \<Rightarrow> nat" where
  "th_answers (Th_Requesting _ answers _ missing) = Suc (length answers + length missing)"
| "th_answers _ = 0"

definition th_rank :: "thumbnail_state \<Rightarrow> nat" where
  "th_rank s =
     (case th_phase s of
        Th_Waiting _ awaited \<Rightarrow> if \<exists>i \<in> set awaited. th_settled i s then 6 else 3
      | Th_Yielding _ _ \<Rightarrow> 5 | Th_Resetting _ _ \<Rightarrow> 4 | Th_LastYield _ \<Rightarrow> 2 | Th_LastReset _ \<Rightarrow> 1 | _ \<Rightarrow> 0)"

definition th_measure :: "thumbnail_state \<Rightarrow> nat \<times> nat \<times> nat" where
  "th_measure s =
     (length (th_nodes s) + of_bool (th_lists (th_phase s)), th_answers (th_phase s),
      10 * length (th_running s) + 8 * length (th_settling s) + length (th_unread s) + th_rank s)"

definition th_less :: "(nat \<times> nat \<times> nat) rel" where
  "th_less = less_than <*lex*> less_than <*lex*> less_than"

lemma th_lessI:
  "a < a' \<Longrightarrow> ((a, b, c), (a', b', c')) \<in> th_less"
  "a \<le> a' \<Longrightarrow> b < b' \<Longrightarrow> ((a, b, c), (a', b', c')) \<in> th_less"
  "a \<le> a' \<Longrightarrow> b \<le> b' \<Longrightarrow> c < c' \<Longrightarrow> ((a, b, c), (a', b', c')) \<in> th_less"
  by (auto simp: th_less_def)

lemma window_phase:
  "th_nodes (th_window f s) = th_nodes s" "th_running (th_window f s) = th_running s"
  "th_settling (th_window f s) = th_settling s" "th_lists (th_phase (th_window f s)) = (\<not> f)"
  "th_answers (th_phase (th_window f s)) = 0"
  by (auto simp: th_window_def)

lemma request_phase:
  "th_nodes (th_request post f s) = th_nodes s" "th_lists (th_phase (th_request post f s)) = (\<not> f)"
  by (auto simp: th_request_def window_phase split: prod.split)

lemma ongoing_unsettled:
  assumes "th_core items p u s" "i \<in> snd ` set (th_ongoing s)"
  shows "\<not> th_settled i s"
proof -
  from assms(2) obtain n where "(i, n) \<in> set (map prod.swap (th_ongoing s))" by auto
  then have "(i, n) \<in># mset (running_nodes s @ th_settling s)" using assms(1) unfolding th_core_def by (metis set_mset_mset)
  then show ?thesis by (force simp: th_settled_def running_nodes_def)
qed

lemma th_settled_phase [simp]: "th_settled i (s\<lparr>th_phase := p\<rparr>) = th_settled i s"
  by (simp add: th_settled_def)

lemma window_rank:
  assumes "th_core items p u s"
  shows "th_rank (th_window f s) \<le> 3"
proof -
  have "\<not> (\<exists>x \<in> set (th_ongoing s). th_settled (snd x) s)" using ongoing_unsettled[OF assms] by blast
  then show ?thesis by (simp add: th_rank_def th_window_def)
qed

lemma th_step_decreases:
  assumes step: "th_step post outcome s s'" and inv: "th_inv items s"
  shows "(th_measure s', th_measure s) \<in> th_less"
  using step
proof cases
  case listing
  then show ?thesis
    unfolding th_measure_def
    by (intro th_lessI(1))
      (auto simp: th_list_def Let_def request_phase window_phase split: list.split option.split sum.split)
next
  case (answering final answers e missing)
  have "th_answers (th_phase s') < th_answers (th_phase s) \<and> length (th_nodes s') = length (th_nodes s)
      \<and> (th_lists (th_phase s') \<longrightarrow> th_lists (th_phase s))"
    unfolding answering
    by (auto simp: th_answer_def Let_def th_report_def th_start_def window_phase length_remove1
        split: list.split option.split sum.split prod.split)
  then show ?thesis unfolding th_measure_def by (intro th_lessI(2)) auto
next
  case (resetting final n)
  obtain p where drop: "th_core items p (drop n (th_buffered s)) s"
    using inv resetting by (auto simp: th_inv_def th_unread_def)
  have unread: "th_unread s' = []" by (simp add: resetting th_reset_def)
  have "th_rank s' \<le> 3" unfolding resetting(1) by (rule window_rank[OF reset_core[OF drop]])
  moreover have "th_rank s = 4" using resetting by (simp add: th_rank_def)
  ultimately show ?thesis
    unfolding th_measure_def using resetting
    by (intro th_lessI(3)) (simp_all add: unread window_phase th_reset_def)
next
  case (settling before i nodeUid bareUrl token after)
  have ids: "th_settled k s' = th_settled k s" for k by (auto simp: th_settled_def settling)
  have "th_rank s' = th_rank s" unfolding th_rank_def ids by (simp add: settling(1) cong: thumbnail_phase.case_cong)
  moreover have "length (th_unread s') = Suc (length (th_unread s))"
    unfolding settling(1) settle_unread(2)[OF inv settling(2)] by simp
  ultimately show ?thesis unfolding th_measure_def by (intro th_lessI(3)) (simp_all add: settling)
next
  case (leaving before i nodeUid after)
  have "th_rank s' \<le> th_rank s + 3"
    by (auto simp: leaving th_rank_def th_settled_def split: thumbnail_phase.split)
  moreover have "th_unread s' = th_unread s" by (simp add: leaving th_unread_def cong: thumbnail_phase.case_cong)
  ultimately show ?thesis unfolding th_measure_def by (intro th_lessI(3)) (simp_all add: leaving)
qed (auto simp: th_measure_def th_rank_def th_unread_def th_yield_def th_reset_def intro!: th_lessI(3))

lemma th_not_stuck:
  assumes inv: "th_inv items s" and going: "th_phase s \<noteq> Th_Done" "\<forall>t. th_phase s \<noteq> Th_Threw t"
  shows "\<exists>s'. th_step post outcome s s'"
proof (cases "th_phase s")
  case (Th_Waiting final awaited)
  then obtain i where i: "i \<in> set awaited" using inv by (cases awaited) (auto simp: th_inv_def th_place_ok_def)
  show ?thesis
  proof (cases "th_settled i s")
    case True
    with Th_Waiting i show ?thesis by (blast intro: waking)
  next
    case False
    then consider n u t where "(i, n, u, t) \<in> set (th_running s)" | n where "(i, n) \<in> set (th_settling s)"
      by (auto simp: th_settled_def)
    then show ?thesis
    proof cases
      case 1
      then show ?thesis by (meson settling split_list)
    next
      case 2
      then show ?thesis by (meson leaving split_list)
    qed
  qed
qed (use going in \<open>auto intro: th_step.intros\<close>)

section \<open>Properties\<close>

lemma few_ongoing: "th_inv items s \<Longrightarrow> length (th_ongoing s) < 2 * MAX_DOWNLOAD_THUMBNAILS"
  by (auto simp: th_inv_def th_place_ok_def MAX_DOWNLOAD_THUMBNAILS_def split: thumbnail_phase.splits)

lemma running_ongoing:
  assumes "th_core items p u s"
  shows "length (th_running s) \<le> length (th_ongoing s)"
proof -
  have "mset (map prod.swap (th_ongoing s)) = mset (running_nodes s @ th_settling s)" using assms by (simp add: th_core_def)
  from arg_cong[where f = size, OF this] show ?thesis by (simp add: running_nodes_def)
qed

lemma attempts_Inr: "attempts n m w = (Inr v, w') \<Longrightarrow> \<exists>w1 w2. m w1 = (Inr v, w2)"
  by (induction n arbitrary: w) (auto simp: catch_def split: prod.splits sum.splits)

text \<open>The thumbnail is what decrypts from a block that was loaded from the link with the content key of the node.\<close>

definition downloaded ::
  "('w, 's, 'k, 'p) thumbnail_services \<Rightarrow> string \<Rightarrow> string \<Rightarrow> string \<Rightarrow> bytes \<Rightarrow> bool"
where
  "downloaded svc nodeUid bareUrl token thumbnail \<longleftrightarrow>
     (\<exists>key block w1 w2 w3. tv_contentKey svc nodeUid w1 = (Inr (Some key), w2)
        \<and> tv_downloadBlock svc bareUrl token w2 = (Inr block, w3)
        \<and> decryptThumbnail (tv_openpgp svc) block key = Inr thumbnail)"

lemma downloadThumbnail_Inr:
  assumes "fst (downloadThumbnail svc nodeUid bareUrl token w) = Inr thumbnail"
  shows "downloaded svc nodeUid bareUrl token thumbnail"
proof -
  from assms obtain w' where "downloadThumbnail svc nodeUid bareUrl token w = (Inr thumbnail, w')"
    by (metis prod.collapse)
  then obtain w1 w2 where "thumbnail_attempt svc nodeUid bareUrl token w1 = (Inr thumbnail, w2)"
    unfolding downloadThumbnail_def by (blast dest: attempts_Inr)
  then show ?thesis
    unfolding thumbnail_attempt_def downloaded_def
    by (auto simp: throw_act_def of_result_def dest!: await_ok split: option.splits) blast
qed

text \<open>A node that is missing and one with a thumbnail, which the server has.\<close>

definition demo_nodes :: "thumbnail_node listed list" where
  "demo_nodes = [MissingNode ''v~m'', Listed \<lparr>tn_uid = ''v~n'', tn_activeRevision = Some (Inr (Some [(1, ''v~n~t'')]))\<rparr>]"

definition demo_thumbnail_post :: "string \<Rightarrow> string list \<Rightarrow> thrown + thumbnails_response" where
  "demo_thumbnail_post volumeId ids = Inr \<lparr>th_Thumbnails = [(''t'', ''url'', ''token'')], th_Errors = []\<rparr>"

definition demo_thumbnail_services :: "(nat, nat, 8 word, 8 word) thumbnail_services" where
  "demo_thumbnail_services =
     \<lparr>tv_contentKey = (\<lambda>_. give (Some 5)), tv_downloadBlock = (\<lambda>_ _. give (sym_message 5 [] 9 [1, 2])),
      tv_openpgp = symbolic\<rparr>"

abbreviation demo_outcome :: "nat \<Rightarrow> string \<Rightarrow> string \<Rightarrow> string \<Rightarrow> thrown + bytes" where
  "demo_outcome i nodeUid bareUrl token \<equiv> fst (downloadThumbnail demo_thumbnail_services nodeUid bareUrl token i)"

lemma demo_thumbnail_answers:
  "api_iterateThumbnails demo_thumbnail_post [] = ([], None)"
  "api_iterateThumbnails demo_thumbnail_post [''v~n~t''] = ([(''v~n~t'', Inr (''url'', ''token''))], None)"
  by code_simp+

lemma demo_thumbnail_items:
  "iterateThumbnailUids 1 demo_nodes = [(''v~m'', Inl ''Node not found''), (''v~n'', Inr ''v~n~t'')]"
  by (simp add: iterateThumbnailUids_def demo_nodes_def)

lemma demo_thumbnail_hypotheses:
  "answers_once demo_thumbnail_post (iterateThumbnailUids 1 demo_nodes)"
  "good_items (iterateThumbnailUids 1 demo_nodes)"
proof -
  have "uids = [] \<or> uids = [''v~n~t'']" if "distinct uids" "set uids \<subseteq> {''v~n~t''}" for uids :: "string list"
    using that by (cases uids; cases "tl uids") auto
  then show "answers_once demo_thumbnail_post (iterateThumbnailUids 1 demo_nodes)"
    unfolding answers_once_def demo_thumbnail_items
  proof (intro allI impI)
    fix uids :: "string list"
    assume "distinct uids" "set uids \<subseteq> set (thumbnails_listed [(''v~m'', Inl ''Node not found''), (''v~n'', Inr ''v~n~t'')])"
    with \<open>\<And>uids. distinct uids \<Longrightarrow> set uids \<subseteq> {''v~n~t''} \<Longrightarrow> uids = [] \<or> uids = [''v~n~t'']\<close>[of uids]
    have "uids = [] \<or> uids = [''v~n~t'']" by simp
    then show "distinct (map fst (fst (api_iterateThumbnails demo_thumbnail_post uids)))"
      by (elim disjE) (simp_all add: demo_thumbnail_answers)
  qed
  show "good_items (iterateThumbnailUids 1 demo_nodes)" unfolding good_items_def demo_thumbnail_items by simp
qed

lemma demo_thumbnail_run:
  "\<exists>s. (th_step demo_thumbnail_post demo_outcome)\<^sup>*\<^sup>* (th_init 1 [''v~m'', ''v~n''] demo_nodes None) s
     \<and> th_phase s = Th_Done \<and> th_yielded s = [(''v~m'', Inl ''Node not found''), (''v~n'', Inr [1, 2])] \<and> th_dropped s = []"
proof -
  let ?step = "th_step demo_thumbnail_post demo_outcome"
  let ?S = "\<lambda>phase nodes batch ongoing running settling n buffered yielded.
    \<lparr>th_phase = phase, th_nodes = nodes, th_nodes_fail = None, th_batch = batch, th_ongoing = ongoing, th_running = running,
     th_settling = settling, th_next = n, th_buffered = buffered, th_yielded = yielded, th_dropped = []\<rparr>"
  let ?m = "(''v~m'', Inl ''Node not found'')" and ?n = "(''v~n'', Inr ''v~n~t'')" and ?t = "(''v~n'', Inr [1, 2])"
  let ?run = "(0, ''v~n'', ''url'', ''token'')" and ?b = "[(''v~n~t'', ''v~n'')]" and ?o = "[(''v~n'', 0)]"
  have outcome: "th_result (demo_outcome 0 ''v~n'' ''url'' ''token'') = Inr [1, 2]" by code_simp
  have init: "th_init 1 [''v~m'', ''v~n''] demo_nodes None = ?S Th_Listing [?m, ?n] [] [] [] [] 0 [] []"
    unfolding th_init_def demo_thumbnail_items by simp
  have s0: "?step (?S Th_Listing [?m, ?n] [] [] [] [] 0 [] [])
      (?S Th_Listing [?n] [] [] [] [] 0 [] [?m])"
    using listing[where s = "?S Th_Listing [?m, ?n] [] [] [] [] 0 [] []" and post = demo_thumbnail_post and outcome = demo_outcome]
    by (simp add: th_list_def th_window_def th_request_def demo_thumbnail_answers MAX_DOWNLOAD_THUMBNAILS_def)
  have s1: "?step (?S Th_Listing [?n] [] [] [] [] 0 [] [?m])
      (?S Th_Listing [] ?b [] [] [] 0 [] [?m])"
    using listing[where s = "?S Th_Listing [?n] [] [] [] [] 0 [] [?m]" and post = demo_thumbnail_post and outcome = demo_outcome]
    by (simp add: th_list_def th_window_def th_request_def demo_thumbnail_answers MAX_DOWNLOAD_THUMBNAILS_def)
  have s2: "?step (?S Th_Listing [] ?b [] [] [] 0 [] [?m])
      (?S (Th_Requesting True [(''v~n~t'', Inr (''url'', ''token''))] None [''v~n~t'']) [] ?b [] [] [] 0 [] [?m])"
    using listing[where s = "?S Th_Listing [] ?b [] [] [] 0 [] [?m]" and post = demo_thumbnail_post and outcome = demo_outcome]
    by (simp add: th_list_def th_window_def th_request_def demo_thumbnail_answers MAX_DOWNLOAD_THUMBNAILS_def)
  have s3: "?step (?S (Th_Requesting True [(''v~n~t'', Inr (''url'', ''token''))] None [''v~n~t'']) [] ?b [] [] [] 0 [] [?m])
      (?S (Th_Requesting True [] None []) [] ?b ?o [?run] [] 1 [] [?m])"
    using answering[where s = "?S (Th_Requesting True [(''v~n~t'', Inr (''url'', ''token''))] None [''v~n~t'']) [] ?b [] [] [] 0 [] [?m]" and post = demo_thumbnail_post and outcome = demo_outcome]
    by (simp add: th_answer_def th_start_def th_window_def present_def)
  have s4: "?step (?S (Th_Requesting True [] None []) [] ?b ?o [?run] [] 1 [] [?m])
      (?S (Th_Waiting True [0]) [] [] ?o [?run] [] 1 [] [?m])"
    using answering[where s = "?S (Th_Requesting True [] None []) [] ?b ?o [?run] [] 1 [] [?m]" and post = demo_thumbnail_post and outcome = demo_outcome]
    by (simp add: th_answer_def th_start_def th_window_def present_def)
  have s5: "?step (?S (Th_Waiting True [0]) [] [] ?o [?run] [] 1 [] [?m])
      (?S (Th_Waiting True [0]) [] [] ?o [] [(0, ''v~n'')] 1 [?t] [?m])"
    using settling[where s = "?S (Th_Waiting True [0]) [] [] ?o [?run] [] 1 [] [?m]" and post = demo_thumbnail_post and outcome = demo_outcome and before = "[]" and after = "[]" and i = 0 and nodeUid = "''v~n''" and bareUrl = "''url''" and token = "''token''"]
    by (simp add: outcome)
  have s6: "?step (?S (Th_Waiting True [0]) [] [] ?o [] [(0, ''v~n'')] 1 [?t] [?m])
      (?S (Th_Waiting True [0]) [] [] [] [] [] 1 [?t] [?m])"
    using leaving[where s = "?S (Th_Waiting True [0]) [] [] ?o [] [(0, ''v~n'')] 1 [?t] [?m]" and post = demo_thumbnail_post and outcome = demo_outcome and before = "[]" and after = "[]" and i = 0 and nodeUid = "''v~n''"]
    by (simp)
  have s7: "?step (?S (Th_Waiting True [0]) [] [] [] [] [] 1 [?t] [?m])
      (?S (Th_Yielding True 0) [] [] [] [] [] 1 [?t] [?m])"
    using waking[where s = "?S (Th_Waiting True [0]) [] [] [] [] [] 1 [?t] [?m]" and post = demo_thumbnail_post and outcome = demo_outcome and i = 0]
    by (simp add: th_settled_def)
  have s8: "?step (?S (Th_Yielding True 0) [] [] [] [] [] 1 [?t] [?m])
      (?S (Th_Yielding True 1) [] [] [] [] [] 1 [?t] [?m, ?t])"
    using yielding[where s = "?S (Th_Yielding True 0) [] [] [] [] [] 1 [?t] [?m]" and post = demo_thumbnail_post and outcome = demo_outcome]
    by (simp add: th_yield_def)
  have s9: "?step (?S (Th_Yielding True 1) [] [] [] [] [] 1 [?t] [?m, ?t])
      (?S (Th_Resetting True 1) [] [] [] [] [] 1 [?t] [?m, ?t])"
    using yielding[where s = "?S (Th_Yielding True 1) [] [] [] [] [] 1 [?t] [?m, ?t]" and post = demo_thumbnail_post and outcome = demo_outcome]
    by (simp add: th_yield_def)
  have s10: "?step (?S (Th_Resetting True 1) [] [] [] [] [] 1 [?t] [?m, ?t])
      (?S (Th_LastYield 0) [] [] [] [] [] 1 [] [?m, ?t])"
    using resetting[where s = "?S (Th_Resetting True 1) [] [] [] [] [] 1 [?t] [?m, ?t]" and post = demo_thumbnail_post and outcome = demo_outcome]
    by (simp add: th_reset_def th_window_def)
  have s11: "?step (?S (Th_LastYield 0) [] [] [] [] [] 1 [] [?m, ?t])
      (?S (Th_LastReset 0) [] [] [] [] [] 1 [] [?m, ?t])"
    using last_yield[where s = "?S (Th_LastYield 0) [] [] [] [] [] 1 [] [?m, ?t]" and post = demo_thumbnail_post and outcome = demo_outcome]
    by (simp add: th_yield_def)
  have s12: "?step (?S (Th_LastReset 0) [] [] [] [] [] 1 [] [?m, ?t])
      (?S Th_Done [] [] [] [] [] 1 [] [?m, ?t])"
    using last_reset[where s = "?S (Th_LastReset 0) [] [] [] [] [] 1 [] [?m, ?t]" and post = demo_thumbnail_post and outcome = demo_outcome]
    by (simp add: th_reset_def)
  note more = rtranclp.rtrancl_into_rtrancl [where r = ?step] and none = rtranclp.rtrancl_refl [where r = ?step]
  from more [OF more [OF more [OF more [OF more [OF more [OF more [OF more [OF more [OF more [OF more [OF more [OF more [OF none s0] s1] s2] s3] s4] s5] s6] s7] s8] s9] s10] s11] s12]
  show ?thesis unfolding init by - (rule exI, rule conjI, assumption, simp)
qed

text \<open>
  C21: thumbnails are reported once each and belong to their node: if no node and no thumbnail comes twice and
  the API answers a thumbnail once, then under every interleaving of downloads no more than 19 run at the same
  time, no node is reported twice, a thumbnail is decrypted with the key of its node from the link the API gave
  for it, and when the listing is done every node was reported, except for those whose download reported in
  the moment between the end of the buffer and its reset.
\<close>

theorem thumbnails_reported_once:
  assumes "answers_once post (iterateThumbnailUids thumbnailType nodes)" "good_items (iterateThumbnailUids thumbnailType nodes)" "nodeUids \<noteq> []"
    and "outcome = (\<lambda>i nodeUid bareUrl token. fst (downloadThumbnail svc nodeUid bareUrl token (met i)))"
    and "(th_step post outcome)\<^sup>*\<^sup>* (th_init thumbnailType nodeUids nodes fails) s"
  shows "mset (map fst (th_yielded s)) \<subseteq># mset (map fst (iterateThumbnailUids thumbnailType nodes))
     \<and> length (th_running s) < 2 * MAX_DOWNLOAD_THUMBNAILS
     \<and> (\<forall>nodeUid t. (nodeUid, Inr t) \<in> set (th_yielded s) \<longrightarrow>
          (\<exists>url token. linked post (iterateThumbnailUids thumbnailType nodes) nodeUid url token
             \<and> downloaded svc nodeUid url token t))
     \<and> (th_phase s = Th_Done \<longrightarrow>
          mset (map fst (th_yielded s @ th_dropped s)) = mset (map fst (iterateThumbnailUids thumbnailType nodes)))
     \<and> ((undisturbed post outcome)\<^sup>*\<^sup>* (th_init thumbnailType nodeUids nodes fails) s \<longrightarrow> th_dropped s = [])"
proof -
  let ?items = "iterateThumbnailUids thumbnailType nodes"
  have inv: "th_inv ?items s" by (rule th_inv_reach[OF assms(5,1,2,3)])
  then obtain p where core: "th_core ?items p (th_unread s) s"
    and p: "(\<forall>error. th_phase s \<noteq> Th_Threw error) \<longrightarrow> p = th_pending s" by (auto simp: th_inv_def)
  then have places: "mset (th_places p (th_unread s) s) = mset (map fst ?items)" by (simp add: th_core_def)
  have "mset (map fst (th_yielded s)) \<subseteq># mset (map fst ?items)"
    unfolding places[symmetric] by (simp add: th_places_def)
  moreover have "length (th_running s) < 2 * MAX_DOWNLOAD_THUMBNAILS"
    using running_ongoing[OF core] few_ongoing[OF inv] by linarith
  moreover have "\<exists>url token. linked post ?items nodeUid url token \<and> downloaded svc nodeUid url token t"
    if "(nodeUid, Inr t) \<in> set (th_yielded s)" for nodeUid t
  proof -
    have "(nodeUid, Inr t) \<in> th_results s" using that by (simp add: th_results_def)
    then obtain i url token where "linked post ?items nodeUid url token" "outcome i nodeUid url token = Inr t"
      using th_true_reach[OF assms(5)] unfolding th_true_def by blast
    with downloadThumbnail_Inr[of svc nodeUid url token "met i" t] show ?thesis unfolding assms(4) by blast
  qed
  moreover have "mset (map fst (th_yielded s @ th_dropped s)) = mset (map fst ?items)" if "th_phase s = Th_Done"
    using inv that nothing_runs(1)[OF core] places p
    by (auto simp: th_inv_def th_place_ok_def th_places_def th_pending_def th_unread_def running_nodes_def)
  moreover have "th_dropped s = []" if "(undisturbed post outcome)\<^sup>*\<^sup>* (th_init thumbnailType nodeUids nodes fails) s"
    using undisturbed_reach[OF that assms(1,2,3)] by (simp add: nothing_lost_def)
  ultimately show ?thesis by blast
qed

theorem thumbnails_reported_once_witness:
  "\<exists>s :: thumbnail_state. th_phase s = Th_Done \<and> mset (map fst (th_yielded s)) = {#''v~m'', ''v~n''#}
     \<and> th_yielded s = [(''v~m'', Inl ''Node not found''), (''v~n'', Inr [1, 2])]
     \<and> (\<exists>url token. downloaded demo_thumbnail_services ''v~n'' url token [1, 2])"
proof -
  from demo_thumbnail_run obtain s where
    reach: "(th_step demo_thumbnail_post demo_outcome)\<^sup>*\<^sup>* (th_init 1 [''v~m'', ''v~n''] demo_nodes None) s"
    and s: "th_phase s = Th_Done" "th_yielded s = [(''v~m'', Inl ''Node not found''), (''v~n'', Inr [1, 2])]" "th_dropped s = []"
    by blast
  from thumbnails_reported_once[OF demo_thumbnail_hypotheses _ _ reach, where svc = demo_thumbnail_services and met = id] s
  have "mset (map fst (th_yielded s)) = mset (map fst (iterateThumbnailUids 1 demo_nodes))"
    and "\<exists>url token. downloaded demo_thumbnail_services ''v~n'' url token [1, 2]"
    by auto
  then have "mset (map fst (th_yielded s)) = {#''v~m'', ''v~n''#}" unfolding demo_thumbnail_items by simp
  with s \<open>\<exists>url token. downloaded demo_thumbnail_services ''v~n'' url token [1, 2]\<close> show ?thesis by blast
qed

text \<open>
  C33: a listing of thumbnails ends: no run goes on for ever, and one that cannot go on is done or has thrown the
  error of a listing or a request.
\<close>

theorem thumbnails_end:
  assumes "answers_once post (iterateThumbnailUids thumbnailType nodes)" "good_items (iterateThumbnailUids thumbnailType nodes)" "nodeUids \<noteq> []"
  shows "\<not> (\<exists>f. f 0 = th_init thumbnailType nodeUids nodes fails \<and> (\<forall>n. th_step post outcome (f n) (f (Suc n))))
     \<and> (\<forall>s. (th_step post outcome)\<^sup>*\<^sup>* (th_init thumbnailType nodeUids nodes fails) s \<longrightarrow>
          th_phase s = Th_Done \<or> (\<exists>t. th_phase s = Th_Threw t) \<or> (\<exists>s'. th_step post outcome s s'))"
proof (intro conjI notI allI impI)
  assume "\<exists>f. f 0 = th_init thumbnailType nodeUids nodes fails \<and> (\<forall>n. th_step post outcome (f n) (f (Suc n)))"
  then obtain f where f: "f 0 = th_init thumbnailType nodeUids nodes fails" "\<And>n. th_step post outcome (f n) (f (Suc n))"
    by blast
  have reach: "(th_step post outcome)\<^sup>*\<^sup>* (th_init thumbnailType nodeUids nodes fails) (f n)" for n
    by (induction n) (auto simp: f intro: rtranclp.rtrancl_into_rtrancl)
  have "(th_measure (f (Suc n)), th_measure (f n)) \<in> th_less" for n
    using th_step_decreases[OF f(2) th_inv_reach[OF reach assms]] .
  then have "\<exists>g. \<forall>n. (g (Suc n), g n) \<in> th_less" by (intro exI[of _ "\<lambda>n. th_measure (f n)"]) blast
  moreover have "wf th_less" by (simp add: th_less_def wf_lex_prod)
  ultimately show False unfolding wf_iff_no_infinite_down_chain by blast
next
  fix s assume "(th_step post outcome)\<^sup>*\<^sup>* (th_init thumbnailType nodeUids nodes fails) s"
  from th_not_stuck[OF th_inv_reach[OF this assms]]
  show "th_phase s = Th_Done \<or> (\<exists>t. th_phase s = Th_Threw t) \<or> (\<exists>s'. th_step post outcome s s')" by blast
qed

theorem thumbnails_end_witness:
  "\<exists>s. (th_step demo_thumbnail_post demo_outcome)\<^sup>*\<^sup>* (th_init 1 [''v~m'', ''v~n''] demo_nodes None) s \<and> th_phase s = Th_Done
     \<and> \<not> (\<exists>f. f 0 = th_init 1 [''v~m'', ''v~n''] demo_nodes None \<and> (\<forall>n. th_step demo_thumbnail_post demo_outcome (f n) (f (Suc n))))"
  using demo_thumbnail_run
    thumbnails_end[OF demo_thumbnail_hypotheses, of "[''v~m'', ''v~n'']" None demo_outcome] by blast

end
